(* ===== verification/Lkfs_Base.thy ===== *)
theory Lkfs_Base
  imports Main "HOL-Library.Word"
begin

text \<open>
  The prelude of the development: the machine types of the C sources, byte memories with
  little-endian field access, \<open>memset\<close> and \<open>memcpy\<close>, the faults a C operation can run into,
  and the lemma collections the component theories share.

  A memory is a total function from addresses to bytes. Reading a struct field is reading the
  bytes at its offset, so two pointers into the same buffer see each other's writes, as in
  the code. The sources are compiled for little-endian machines (x86 for the file system,
  Cortex-M3 for the firmware), so \<open>cpu_to_le32\<close> and friends are the identity.
\<close>

unbundle bit_operations_syntax

named_theorems mem_simps \<open>reading a memory after a write\<close>
named_theorems kdefs \<open>small wrappers that are unfolded on sight\<close>

type_synonym u8 = "8 word"
type_synonym u16 = "16 word"
type_synonym u32 = "32 word"
type_synonym mem = "nat \<Rightarrow> u8"

section \<open>Faults\<close>

text \<open>
  What the C code does when it leaves its defined behaviour: dereferencing NULL, indexing an
  array outside its bounds, reading an indeterminate local, the kernel's \<open>BUG()\<close>, dividing by zero, a loop that does not end.
\<close>

datatype fault = NullDeref | OutOfBounds | Uninit | KBug | DivByZero | NoEnd

type_synonym 'a res = "fault + 'a"

definition rbind :: "'a res \<Rightarrow> ('a \<Rightarrow> 'b res) \<Rightarrow> 'b res" where
  "rbind r g = (case r of Inl f \<Rightarrow> Inl f | Inr x \<Rightarrow> g x)"

lemma rbind_Inl [simp]: "rbind (Inl f) g = Inl f"
  by (simp add: rbind_def)

lemma rbind_Inr [simp]: "rbind (Inr x) g = g x"
  by (simp add: rbind_def)

lemma rbind_eq_Inr: "rbind r g = Inr y \<longleftrightarrow> (\<exists>x. r = Inr x \<and> g x = Inr y)"
  by (cases r) auto

lemma rbind_assoc: "rbind (rbind r g) h = rbind r (\<lambda>x. rbind (g x) h)"
  by (cases r) auto

lemma rbind_cong [fundef_cong]:
  "r = r' \<Longrightarrow> (\<And>x. r' = Inr x \<Longrightarrow> g x = g' x) \<Longrightarrow> rbind r g = rbind r' g'"
  by (cases r') auto

section \<open>Little-endian fields\<close>

definition get16 :: "mem \<Rightarrow> nat \<Rightarrow> u16" where
  "get16 m a = ucast (m a) OR push_bit 8 (ucast (m (a + 1)))"

definition put16 :: "mem \<Rightarrow> nat \<Rightarrow> u16 \<Rightarrow> mem" where
  "put16 m a v = m(a := ucast v, a + 1 := ucast (drop_bit 8 v))"

definition get32 :: "mem \<Rightarrow> nat \<Rightarrow> u32" where
  "get32 m a = ucast (m a) OR push_bit 8 (ucast (m (a + 1)))
     OR push_bit 16 (ucast (m (a + 2))) OR push_bit 24 (ucast (m (a + 3)))"

definition put32 :: "mem \<Rightarrow> nat \<Rightarrow> u32 \<Rightarrow> mem" where
  "put32 m a v = m(a := ucast v, a + 1 := ucast (drop_bit 8 v),
     a + 2 := ucast (drop_bit 16 v), a + 3 := ucast (drop_bit 24 v))"

definition put8 :: "mem \<Rightarrow> nat \<Rightarrow> u8 \<Rightarrow> mem" where
  "put8 m a v = m(a := v)"

definition get8 :: "mem \<Rightarrow> nat \<Rightarrow> u8" where
  "get8 m a = m a"

text \<open>
  The contract of an accessor of a record kept at an address: a value that fits is read back,
  a write touches only its own bytes, and a read looks at nothing else. Everything the
  components use about struct fields follows from these laws. A \<open>field\<close> is the special case
  where every value fits, a machine integer.
\<close>

locale struct =
  fixes rd :: "mem \<Rightarrow> nat \<Rightarrow> 'v"
    and wr :: "mem \<Rightarrow> nat \<Rightarrow> 'v \<Rightarrow> mem"
    and width :: nat
    and fits :: "'v \<Rightarrow> bool"
  assumes rd_wr_fits: "fits v \<Longrightarrow> rd (wr m a v) a = v"
    and wr_frame: "i < a \<or> a + width \<le> i \<Longrightarrow> fits v \<Longrightarrow> wr m a v i = m i"
    and rd_local: "(\<And>i. a \<le> i \<Longrightarrow> i < a + width \<Longrightarrow> m i = m' i) \<Longrightarrow> rd m a = rd m' a"
begin

lemma rd_wr_other:
  "b + width \<le> a \<or> a + width \<le> b \<Longrightarrow> fits v \<Longrightarrow> rd (wr m a v) b = rd m b"
  by (rule rd_local) (rule wr_frame, auto)

lemma rd_write_outside:
  assumes "\<And>i. i < b \<or> b + n \<le> i \<Longrightarrow> m' i = m i"
    and "a + width \<le> b \<or> b + n \<le> a"
  shows "rd m' a = rd m a"
  using assms by (intro rd_local) auto

end

locale field =
  fixes rd :: "mem \<Rightarrow> nat \<Rightarrow> 'v"
    and wr :: "mem \<Rightarrow> nat \<Rightarrow> 'v \<Rightarrow> mem"
    and width :: nat
  assumes rd_wr: "rd (wr m a v) a = v"
    and wr_outside: "i < a \<or> a + width \<le> i \<Longrightarrow> wr m a v i = m i"
    and rd_bytes: "(\<And>i. a \<le> i \<Longrightarrow> i < a + width \<Longrightarrow> m i = m' i) \<Longrightarrow> rd m a = rd m' a"

sublocale field \<subseteq> struct rd wr width "\<lambda>_. True"
  by unfold_locales (auto simp: rd_wr wr_outside intro: rd_bytes)

context field
begin

lemma rd_wr_disjoint:
  "b + width \<le> a \<or> a + width \<le> b \<Longrightarrow> rd (wr m a v) b = rd m b"
  by (rule rd_wr_other) auto

end

lemma get16_put16: "get16 (put16 m a v) a = v"
  unfolding get16_def put16_def
  by (rule bit_word_eqI) (auto simp: bit_simps)

lemma bit_in_byte: "n < 32 \<Longrightarrow> n < 8 \<or> 8 \<le> n \<and> n < 16 \<or> 16 \<le> n \<and> n < 24 \<or> 24 \<le> n"
  for n :: nat by arith

lemma get32_put32: "get32 (put32 m a v) a = v"
proof (rule bit_word_eqI)
  fix n assume "n < LENGTH(32)"
  then have "n < 32" by simp
  then show "bit (get32 (put32 m a v) a) n = bit v n"
    using bit_in_byte [OF \<open>n < 32\<close>]
    by (auto simp: get32_def put32_def bit_simps)
qed

interpretation f8: field get8 put8 1
  by unfold_locales (auto simp: get8_def put8_def)

interpretation f16: field get16 put16 2
proof
  show "get16 (put16 m a v) a = v" for m a v by (rule get16_put16)
  show "i < a \<or> a + 2 \<le> i \<Longrightarrow> put16 m a v i = m i" for i a m v
    by (auto simp: put16_def)
  show "(\<And>i. a \<le> i \<Longrightarrow> i < a + 2 \<Longrightarrow> m i = m' i) \<Longrightarrow> get16 m a = get16 m' a" for m m' a
    by (simp add: get16_def)
qed

interpretation f32: field get32 put32 4
proof
  show "get32 (put32 m a v) a = v" for m a v by (rule get32_put32)
  show "i < a \<or> a + 4 \<le> i \<Longrightarrow> put32 m a v i = m i" for i a m v
    by (auto simp: put32_def)
  show "(\<And>i. a \<le> i \<Longrightarrow> i < a + 4 \<Longrightarrow> m i = m' i) \<Longrightarrow> get32 m a = get32 m' a" for m m' a
    by (simp add: get32_def)
qed


text \<open>Two fields of possibly different widths do not disturb each other when they are disjoint.\<close>

locale field_pair = a: field rda wra wa + b: field rdb wrb wb
  for rda :: "mem \<Rightarrow> nat \<Rightarrow> 'u" and wra :: "mem \<Rightarrow> nat \<Rightarrow> 'u \<Rightarrow> mem" and wa :: nat
    and rdb :: "mem \<Rightarrow> nat \<Rightarrow> 'v" and wrb :: "mem \<Rightarrow> nat \<Rightarrow> 'v \<Rightarrow> mem" and wb :: nat
begin

lemma cross: "x + wa \<le> y \<or> y + wb \<le> x \<Longrightarrow> rda (wrb m y v) x = rda m x"
  by (rule a.rd_write_outside [of y wb]) (auto intro: b.wr_outside)

end

interpretation f32_16: field_pair get32 put32 4 get16 put16 2 ..
interpretation f16_32: field_pair get16 put16 2 get32 put32 4 ..
interpretation f32_8: field_pair get32 put32 4 get8 put8 1 ..
interpretation f8_32: field_pair get8 put8 1 get32 put32 4 ..
interpretation f16_8: field_pair get16 put16 2 get8 put8 1 ..
interpretation f8_16: field_pair get8 put8 1 get16 put16 2 ..

lemmas field_simps [mem_simps] =
  f8.rd_wr f16.rd_wr f32.rd_wr f8.rd_wr_disjoint f16.rd_wr_disjoint f32.rd_wr_disjoint
  f32_16.cross f16_32.cross f32_8.cross f8_32.cross f16_8.cross f8_16.cross

text \<open>
  A 64-bit read truncated to 32 bits is the 32-bit read at the same address: the double
  indirect path reads a \<open>sector_t\<close> and stores it in an \<open>int\<close>.
\<close>

definition get64 :: "mem \<Rightarrow> nat \<Rightarrow> 64 word" where
  "get64 m a = ucast (get32 m a) OR push_bit 32 (ucast (get32 m (a + 4)))"

lemma ucast_get64: "ucast (get64 m a) = get32 m a"
  by (rule bit_word_eqI) (auto simp: get64_def bit_simps)

section \<open>Block moves\<close>

definition memset :: "mem \<Rightarrow> nat \<Rightarrow> u8 \<Rightarrow> nat \<Rightarrow> mem" where
  "memset m a c n = (\<lambda>i. if a \<le> i \<and> i < a + n then c else m i)"

definition memcpy :: "mem \<Rightarrow> nat \<Rightarrow> mem \<Rightarrow> nat \<Rightarrow> nat \<Rightarrow> mem" where
  "memcpy m a src b n = (\<lambda>i. if a \<le> i \<and> i < a + n then src (b + (i - a)) else m i)"

definition put_bytes :: "mem \<Rightarrow> nat \<Rightarrow> u8 list \<Rightarrow> mem" where
  "put_bytes m a bs = (\<lambda>i. if a \<le> i \<and> i < a + length bs then bs ! (i - a) else m i)"

definition get_bytes :: "mem \<Rightarrow> nat \<Rightarrow> nat \<Rightarrow> u8 list" where
  "get_bytes m a n = map m [a..<a + n]"

definition zero_mem :: mem where
  "zero_mem = (\<lambda>_. 0)"

lemma length_get_bytes [simp]: "length (get_bytes m a n) = n"
  by (simp add: get_bytes_def)

lemma get_put_bytes [mem_simps]: "n = length bs \<Longrightarrow> get_bytes (put_bytes m a bs) a n = bs"
  by (rule nth_equalityI) (auto simp: get_bytes_def put_bytes_def)

lemma get_bytes_agree:
  "(\<And>i. a \<le> i \<Longrightarrow> i < a + n \<Longrightarrow> m i = m' i) \<Longrightarrow> get_bytes m a n = get_bytes m' a n"
  by (auto simp: get_bytes_def)

lemma put_bytes_frame: "i < a \<or> a + length bs \<le> i \<Longrightarrow> put_bytes m a bs i = m i"
  by (auto simp: put_bytes_def)

lemma memset_frame: "i < a \<or> a + n \<le> i \<Longrightarrow> memset m a c n i = m i"
  by (auto simp: memset_def)

lemma memset_at: "a \<le> i \<Longrightarrow> i < a + n \<Longrightarrow> memset m a c n i = c"
  by (simp add: memset_def)

lemma get8_put_bytes [mem_simps]:
  "b < a \<or> a + length bs \<le> b \<Longrightarrow> get8 (put_bytes m a bs) b = get8 m b"
  by (rule f8.rd_write_outside [of a "length bs"]) (auto intro: put_bytes_frame)

lemma get16_put_bytes [mem_simps]:
  "b + 2 \<le> a \<or> a + length bs \<le> b \<Longrightarrow> get16 (put_bytes m a bs) b = get16 m b"
  by (rule f16.rd_write_outside [of a "length bs"]) (auto intro: put_bytes_frame)

lemma get32_put_bytes [mem_simps]:
  "b + 4 \<le> a \<or> a + length bs \<le> b \<Longrightarrow> get32 (put_bytes m a bs) b = get32 m b"
  by (rule f32.rd_write_outside [of a "length bs"]) (auto intro: put_bytes_frame)

lemma get32_zero [mem_simps]: "(\<And>i. a \<le> i \<Longrightarrow> i < a + 4 \<Longrightarrow> m i = 0) \<Longrightarrow> get32 m a = 0"
  by (simp add: get32_def)

lemma get16_zero: "(\<And>i. a \<le> i \<Longrightarrow> i < a + 2 \<Longrightarrow> m i = 0) \<Longrightarrow> get16 m a = 0"
  by (simp add: get16_def)

lemma get32_memset [mem_simps]:
  "b \<le> a \<Longrightarrow> a + 4 \<le> b + n \<Longrightarrow> get32 (memset m b 0 n) a = 0"
  by (rule get32_zero) (simp add: memset_def)


section \<open>Arrays of 32-bit words\<close>

fun put32s :: "mem \<Rightarrow> nat \<Rightarrow> u32 list \<Rightarrow> mem" where
  "put32s m a [] = m"
| "put32s m a (v # vs) = put32s (put32 m a v) (a + 4) vs"

definition get32s :: "mem \<Rightarrow> nat \<Rightarrow> nat \<Rightarrow> u32 list" where
  "get32s m a n = map (\<lambda>i. get32 m (a + 4 * i)) [0..<n]"

lemma length_get32s [simp]: "length (get32s m a n) = n"
  by (simp add: get32s_def)

lemma put32s_outside: "i < a \<or> a + 4 * length vs \<le> i \<Longrightarrow> put32s m a vs i = m i"
  by (induction vs arbitrary: m a) (auto simp: f32.wr_outside)

lemma get32_put32s_below: "b + 4 \<le> a \<Longrightarrow> get32 (put32s m a vs) b = get32 m b"
  by (rule f32.rd_bytes) (simp add: put32s_outside)

lemma get32_put32s: "i < length vs \<Longrightarrow> get32 (put32s m a vs) (a + 4 * i) = vs ! i"
proof (induction vs arbitrary: m a i)
  case Nil
  then show ?case by simp
next
  case (Cons v vs)
  show ?case
  proof (cases i)
    case 0
    then show ?thesis by (simp add: get32_put32s_below f32.rd_wr)
  next
    case (Suc j)
    with Cons.prems Cons.IH [of j "put32 m a v" "a + 4"] show ?thesis
      by (simp add: add.assoc)
  qed
qed

lemma get32s_put32s: "length vs = n \<Longrightarrow> get32s (put32s m a vs) a n = vs"
  by (rule nth_equalityI) (auto simp: get32s_def get32_put32s)

lemma get32s_bytes:
  "(\<And>i. a \<le> i \<Longrightarrow> i < a + 4 * n \<Longrightarrow> m i = m' i) \<Longrightarrow> get32s m a n = get32s m' a n"
  by (auto simp: get32s_def intro!: f32.rd_bytes)

end
