(* ===== verification/Bitops.thy ===== *)
theory Bitops
  imports Lkfs_Base
begin

text \<open>
  Bitmaps. \<open>lk_set_bit\<close> and \<open>lk_clear_bit\<close> are \<open>set_bit\<close> and \<open>clear_bit\<close> of
  \<open>src/lkfs/mklkfs.c\<close>. The locale \<open>bitmap_ops\<close> states what a pair of set and clear operations
  promises; it is interpreted on the two functions above, and it is also the documented
  behaviour the kernel's own bit operations are assumed to have (see \<open>Kernel_Api\<close>).
\<close>

definition bit_at :: "mem \<Rightarrow> nat \<Rightarrow> bool" where
  "bit_at m n \<longleftrightarrow> bit (m (n div 8)) (n mod 8)"

definition lk_set_bit :: "nat \<Rightarrow> mem \<Rightarrow> bool \<times> mem" where
  "lk_set_bit bit_nr m =
     (let a = bit_nr div 8;
          mask = push_bit (bit_nr mod 8) 1;
          retval = (mask AND m a \<noteq> 0)
      in (retval, m(a := m a OR mask)))"

definition lk_clear_bit :: "nat \<Rightarrow> mem \<Rightarrow> bool \<times> mem" where
  "lk_clear_bit bit_nr m =
     (let a = bit_nr div 8;
          mask = push_bit (bit_nr mod 8) 1;
          retval = (mask AND m a \<noteq> 0)
      in (retval, m(a := m a AND NOT mask)))"

section \<open>The contract of bitmap operations\<close>

text \<open>The numbers of the clear bits below a bound.\<close>

definition clear_bits :: "mem \<Rightarrow> nat \<Rightarrow> nat set" where
  "clear_bits m n = {k. k < n \<and> \<not> bit_at m k}"

lemma finite_clear_bits [simp]: "finite (clear_bits m n)"
  by (simp add: clear_bits_def)

lemma in_clear_bits [simp]: "k \<in> clear_bits m n \<longleftrightarrow> k < n \<and> \<not> bit_at m k"
  by (simp add: clear_bits_def)

locale bitmap_ops =
  fixes tset tclr :: "nat \<Rightarrow> mem \<Rightarrow> bool \<times> mem"
  assumes tset_old: "fst (tset n m) = bit_at m n"
    and tset_bit: "bit_at (snd (tset n m)) k \<longleftrightarrow> k = n \<or> bit_at m k"
    and tset_frame: "i \<noteq> n div 8 \<Longrightarrow> snd (tset n m) i = m i"
    and tclr_old: "fst (tclr n m) = bit_at m n"
    and tclr_bit: "bit_at (snd (tclr n m)) k \<longleftrightarrow> k \<noteq> n \<and> bit_at m k"
    and tclr_frame: "i \<noteq> n div 8 \<Longrightarrow> snd (tclr n m) i = m i"
begin

lemma clear_bits_tset: "clear_bits (snd (tset n m)) N = clear_bits m N - {n}"
  by (auto simp: clear_bits_def tset_bit)

lemma clear_bits_tclr: "n < N \<Longrightarrow> clear_bits (snd (tclr n m)) N = insert n (clear_bits m N)"
  by (auto simp: clear_bits_def tclr_bit)

text \<open>Setting a clear bit takes one from the number of clear bits, clearing a set one adds it.\<close>

lemma card_clear_tset:
  "n < N \<Longrightarrow> \<not> bit_at m n \<Longrightarrow>
   Suc (card (clear_bits (snd (tset n m)) N)) = card (clear_bits m N)"
  unfolding clear_bits_tset by (rule card_Suc_Diff1) auto

lemma card_clear_tclr:
  "n < N \<Longrightarrow> bit_at m n \<Longrightarrow>
   card (clear_bits (snd (tclr n m)) N) = Suc (card (clear_bits m N))"
  by (simp add: clear_bits_tclr)

text \<open>Marking the first \<open>n\<close> bits one after the other.\<close>

lemma fold_tset:
  "bit_at (fold (\<lambda>i m. snd (tset i m)) [0..<n] m) k \<longleftrightarrow> k < n \<or> bit_at m k"
  by (induction n) (auto simp: tset_bit)

lemma fold_tset_frame:
  "n \<le> 8 * i \<Longrightarrow> fold (\<lambda>i m. snd (tset i m)) [0..<n] m i = m i"
  by (induction n) (auto simp: tset_frame)

lemma tset_tclr: "\<not> bit_at m n \<Longrightarrow> bit_at (snd (tclr n (snd (tset n m)))) k = bit_at m k"
  by (auto simp: tset_bit tclr_bit)

end

lemma byte_eq_bit_at: "(\<And>k. bit_at m k = bit_at m' k) \<Longrightarrow> m = m'"
proof (rule ext, rule bit_word_eqI)
  fix a n assume eq: "\<And>k. bit_at m k = bit_at m' k" and n: "n < LENGTH(8)"
  from n have "(8 * a + n) div 8 = a" "(8 * a + n) mod 8 = n" by auto
  with eq [of "8 * a + n"] show "bit (m a) n = bit (m' a) n"
    by (simp add: bit_at_def)
qed

lemma mask_test: "(2 ^ k AND w \<noteq> 0) = bit w k" if "k < 8" for w :: u8
  using that by (simp add: bit_iff_and_push_bit_not_eq_0 and.commute push_bit_eq_mult)

interpretation mk: bitmap_ops lk_set_bit lk_clear_bit
proof
  fix n k i :: nat and m :: mem
  have idx: "k mod 8 = n mod 8 \<Longrightarrow> k div 8 = n div 8 \<Longrightarrow> k = n"
    by (metis mult_div_mod_eq)
  show "fst (lk_set_bit n m) = bit_at m n"
    by (simp add: lk_set_bit_def Let_def bit_at_def mask_test)
  show "fst (lk_clear_bit n m) = bit_at m n"
    by (simp add: lk_clear_bit_def Let_def bit_at_def mask_test)
  show "bit_at (snd (lk_set_bit n m)) k = (k = n \<or> bit_at m k)"
    using idx by (auto simp: lk_set_bit_def Let_def bit_at_def bit_simps)
  show "bit_at (snd (lk_clear_bit n m)) k = (k \<noteq> n \<and> bit_at m k)"
    using idx by (auto simp: lk_clear_bit_def Let_def bit_at_def bit_simps)
  show "i \<noteq> n div 8 \<Longrightarrow> snd (lk_set_bit n m) i = m i"
    by (simp add: lk_set_bit_def Let_def)
  show "i \<noteq> n div 8 \<Longrightarrow> snd (lk_clear_bit n m) i = m i"
    by (simp add: lk_clear_bit_def Let_def)
qed

end
