(* ===== verification/Kernel_Api.thy ===== *)
theory Kernel_Api
  imports Bitops
begin

text \<open>
  The parts of the Linux kernel the file system calls and that are not in the repository. They
  are arguments of the model: a record \<open>kernel\<close> of functions, one per primitive whose
  result the code depends on. What the properties assume of them (the documented behaviour of
  the bit operations, readable blocks) are the named predicates below. \<open>plain_kernel\<close> is a
  concrete instance used by the witnesses.

  Buffers of the buffer cache are named by their block number: \<open>sb_bread\<close> on one block always
  yields the same buffer, so its contents live in the state (see \<open>Fs_State\<close>), and here is only
  whether the read succeeds. Reference counts (\<open>brelse\<close>) and page locks are not modelled.
\<close>

record kernel =
  k_find_next_zero_le_bit :: "mem \<Rightarrow> nat \<Rightarrow> nat \<Rightarrow> nat"
  k_find_next_zero_bit :: "mem \<Rightarrow> nat \<Rightarrow> nat \<Rightarrow> nat"
  k_test_and_set_le_bit :: "nat \<Rightarrow> mem \<Rightarrow> bool \<times> mem"
  k_test_and_clear_bit :: "nat \<Rightarrow> mem \<Rightarrow> bool \<times> mem"
  k_bread_ok :: "nat \<Rightarrow> bool"

definition sb_bread :: "'k kernel_scheme \<Rightarrow> nat \<Rightarrow> nat option" where
  "sb_bread K b = (if k_bread_ok K b then Some b else None)"

text \<open>Using the data of a buffer head that may be NULL.\<close>

definition deref :: "nat option \<Rightarrow> nat res" where
  "deref bh = (case bh of None \<Rightarrow> Inl NullDeref | Some b \<Rightarrow> Inr b)"

lemma deref_simps [simp]: "deref None = Inl NullDeref" "deref (Some b) = Inr b"
  by (simp_all add: deref_def)

section \<open>What the code relies on\<close>

text \<open>
  \<open>find_next_zero_bit(addr, size, offset)\<close> returns the first clear bit at or after
  \<open>offset\<close>, and \<open>size\<close> when there is none.
\<close>

definition next_zero_spec :: "(mem \<Rightarrow> nat \<Rightarrow> nat \<Rightarrow> nat) \<Rightarrow> bool" where
  "next_zero_spec nz \<longleftrightarrow>
     (\<forall>m n s. s \<le> n \<longrightarrow> s \<le> nz m n s \<and> nz m n s \<le> n
        \<and> (nz m n s < n \<longrightarrow> \<not> bit_at m (nz m n s))
        \<and> (\<forall>k. s \<le> k \<and> k < nz m n s \<longrightarrow> bit_at m k))"

definition bits_spec :: "'k kernel_scheme \<Rightarrow> bool" where
  "bits_spec K \<longleftrightarrow>
     next_zero_spec (k_find_next_zero_le_bit K) \<and> next_zero_spec (k_find_next_zero_bit K)
     \<and> bitmap_ops (k_test_and_set_le_bit K) (k_test_and_clear_bit K)"

lemma bits_specD:
  assumes "bits_spec K"
  shows "next_zero_spec (k_find_next_zero_le_bit K)" "next_zero_spec (k_find_next_zero_bit K)"
    "bitmap_ops (k_test_and_set_le_bit K) (k_test_and_clear_bit K)"
  using assms by (simp_all add: bits_spec_def)

lemma next_zeroD:
  assumes "next_zero_spec nz"
  shows "nz m n 0 \<le> n" "nz m n 0 \<noteq> n \<Longrightarrow> nz m n 0 < n"
    "nz m n 0 < n \<Longrightarrow> \<not> bit_at m (nz m n 0)" "k < nz m n 0 \<Longrightarrow> bit_at m k"
  using assms [unfolded next_zero_spec_def, rule_format, where m = m and n = n and s = 0] by auto

text \<open>The next-zero search is pinned down by its specification.\<close>

lemma next_zero_unique:
  assumes "next_zero_spec nz" "r \<le> n" "r < n \<longrightarrow> \<not> bit_at m r" "\<And>k. k < r \<Longrightarrow> bit_at m k"
  shows "nz m n 0 = r"
  using assms(2-) next_zeroD [OF assms(1), where m = m and n = n]
  by (metis le_neq_implies_less linorder_neqE_nat)

section \<open>A concrete kernel\<close>

function scan_zero :: "mem \<Rightarrow> nat \<Rightarrow> nat \<Rightarrow> nat" where
  "scan_zero m n s = (if s < n \<and> bit_at m s then scan_zero m n (Suc s) else s)"
  by pat_completeness auto
termination by (relation "measure (\<lambda>(m, n, s). n - s)") auto

declare scan_zero.simps [simp del]

lemma scan_zero_spec: "next_zero_spec scan_zero"
  unfolding next_zero_spec_def
proof (intro allI impI)
  fix m n s :: _ assume "s \<le> (n :: nat)"
  then show "s \<le> scan_zero m n s \<and> scan_zero m n s \<le> n
      \<and> (scan_zero m n s < n \<longrightarrow> \<not> bit_at m (scan_zero m n s))
      \<and> (\<forall>k. s \<le> k \<and> k < scan_zero m n s \<longrightarrow> bit_at m k)"
  proof (induction m n s rule: scan_zero.induct)
    case (1 m n s)
    show ?case
    proof (cases "s < n \<and> bit_at m s")
      case True
      with "1.IH" show ?thesis
        by (auto simp: scan_zero.simps [of m n s] dest: le_neq_implies_less)
    next
      case False
      with "1.prems" show ?thesis by (auto simp: scan_zero.simps [of m n s])
    qed
  qed
qed

definition plain_kernel :: kernel where
  "plain_kernel = \<lparr>k_find_next_zero_le_bit = scan_zero, k_find_next_zero_bit = scan_zero,
     k_test_and_set_le_bit = lk_set_bit, k_test_and_clear_bit = lk_clear_bit,
     k_bread_ok = (\<lambda>_. True)\<rparr>"

lemma plain_kernel_bits: "bits_spec plain_kernel"
  by (simp add: bits_spec_def plain_kernel_def scan_zero_spec mk.bitmap_ops_axioms)

lemma plain_kernel_sel [simp]:
  "k_bread_ok plain_kernel b"
  "k_find_next_zero_le_bit plain_kernel = scan_zero"
  "k_find_next_zero_bit plain_kernel = scan_zero"
  "k_test_and_set_le_bit plain_kernel = lk_set_bit"
  "k_test_and_clear_bit plain_kernel = lk_clear_bit"
  by (simp_all add: plain_kernel_def)

end
