(* ===== verification/Layout.thy ===== *)
theory Layout
  imports Kernel_Api
begin

text \<open>
  The on-disk structures of \<open>src/lkfs/lkfs.h\<close> and \<open>src/lkfs/mklkfs.h\<close> (the two headers
  declare the same layouts): super block, inode, directory entry, each as a record with the
  functions that read it from and write it to a block at the offsets the C compiler gives the
  struct, and the constants of the headers.
\<close>

definition LKFS_NAME_LEN :: nat where "LKFS_NAME_LEN = 255"
definition LKFS_NDIR_BLOCKS :: nat where "LKFS_NDIR_BLOCKS = 21"
definition LKFS_IND_BLOCK :: nat where "LKFS_IND_BLOCK = LKFS_NDIR_BLOCKS"
definition LKFS_DIND_BLOCK :: nat where "LKFS_DIND_BLOCK = LKFS_IND_BLOCK + 1"
definition LKFS_N_BLOCKS :: nat where "LKFS_N_BLOCKS = LKFS_DIND_BLOCK + 1"
definition LKFS_SUPER_MAGIC :: u16 where "LKFS_SUPER_MAGIC = 0x8309"
definition LKFS_INODE_PER_SB_BIT :: nat where "LKFS_INODE_PER_SB_BIT = 3"
definition LKFS_INODE_PER_SB :: nat where "LKFS_INODE_PER_SB = 8"
definition LKFS_INODE_SIZE :: nat where "LKFS_INODE_SIZE = 128"
definition LKFS_BLOCKS_PER_BITMAP :: nat where "LKFS_BLOCKS_PER_BITMAP = 8192"
definition LKFS_INODES_PER_BITMAP :: nat where "LKFS_INODES_PER_BITMAP = 8192"
definition LKFS_BITS_PER_BLOCKS :: nat where "LKFS_BITS_PER_BLOCKS = 13"
definition LKFS_ROOT_INO :: nat where "LKFS_ROOT_INO = 2"
definition LKFS_BLOCK_SIZE :: nat where "LKFS_BLOCK_SIZE = 1024"

lemmas lkfs_consts [kdefs] =
  LKFS_NAME_LEN_def LKFS_NDIR_BLOCKS_def LKFS_IND_BLOCK_def LKFS_DIND_BLOCK_def
  LKFS_N_BLOCKS_def LKFS_SUPER_MAGIC_def LKFS_INODE_PER_SB_BIT_def LKFS_INODE_PER_SB_def
  LKFS_INODE_SIZE_def LKFS_BLOCKS_PER_BITMAP_def LKFS_INODES_PER_BITMAP_def
  LKFS_BITS_PER_BLOCKS_def LKFS_ROOT_INO_def LKFS_BLOCK_SIZE_def

section \<open>The super block\<close>

record lkfs_super_block =
  s_inodes_count :: u32
  s_blocks_count :: u32
  s_free_blocks_count :: u32
  s_free_inodes_count :: u32
  s_block_bitmap_count :: u32
  s_inode_bitmap_count :: u32
  s_inode_table_count :: u32
  s_mtime :: u32
  s_wtime :: u32
  s_mnt_count :: u16
  s_magic :: u16
  s_state :: u16
  s_first_ino :: u32
  s_inode_size :: u16
  s_block_size :: u16
  s_volume_name :: "u8 list"

text \<open>Two bytes of padding follow \<open>s_state\<close>: \<open>s_first_ino\<close> is aligned to four bytes.\<close>

definition load_super :: "mem \<Rightarrow> nat \<Rightarrow> lkfs_super_block" where
  "load_super m a = \<lparr>
     s_inodes_count = get32 m a, s_blocks_count = get32 m (a + 4),
     s_free_blocks_count = get32 m (a + 8), s_free_inodes_count = get32 m (a + 12),
     s_block_bitmap_count = get32 m (a + 16), s_inode_bitmap_count = get32 m (a + 20),
     s_inode_table_count = get32 m (a + 24), s_mtime = get32 m (a + 28),
     s_wtime = get32 m (a + 32), s_mnt_count = get16 m (a + 36), s_magic = get16 m (a + 38),
     s_state = get16 m (a + 40), s_first_ino = get32 m (a + 44),
     s_inode_size = get16 m (a + 48), s_block_size = get16 m (a + 50),
     s_volume_name = get_bytes m (a + 52) 32\<rparr>"

definition store_super :: "mem \<Rightarrow> nat \<Rightarrow> lkfs_super_block \<Rightarrow> mem" where
  "store_super m a sb =
     (let m = put32 m a (s_inodes_count sb);
          m = put32 m (a + 4) (s_blocks_count sb);
          m = put32 m (a + 8) (s_free_blocks_count sb);
          m = put32 m (a + 12) (s_free_inodes_count sb);
          m = put32 m (a + 16) (s_block_bitmap_count sb);
          m = put32 m (a + 20) (s_inode_bitmap_count sb);
          m = put32 m (a + 24) (s_inode_table_count sb);
          m = put32 m (a + 28) (s_mtime sb);
          m = put32 m (a + 32) (s_wtime sb);
          m = put16 m (a + 36) (s_mnt_count sb);
          m = put16 m (a + 38) (s_magic sb);
          m = put16 m (a + 40) (s_state sb);
          m = put32 m (a + 44) (s_first_ino sb);
          m = put16 m (a + 48) (s_inode_size sb);
          m = put16 m (a + 50) (s_block_size sb)
      in put_bytes m (a + 52) (s_volume_name sb))"

definition super_size :: nat where "super_size = 84"

definition fits_super :: "lkfs_super_block \<Rightarrow> bool" where
  "fits_super sb \<longleftrightarrow> length (s_volume_name sb) = 32"

interpretation super: struct load_super store_super super_size fits_super
proof
  fix sb :: lkfs_super_block and m m' :: mem and a i :: nat
  show "fits_super sb \<Longrightarrow> load_super (store_super m a sb) a = sb"
    by (cases sb) (simp add: load_super_def store_super_def Let_def fits_super_def mem_simps)
  show "i < a \<or> a + super_size \<le> i \<Longrightarrow> fits_super sb \<Longrightarrow> store_super m a sb i = m i"
    by (auto simp: store_super_def Let_def fits_super_def super_size_def
        put_bytes_frame f32.wr_outside f16.wr_outside)
  assume "\<And>i. a \<le> i \<Longrightarrow> i < a + super_size \<Longrightarrow> m i = m' i"
  then show "load_super m a = load_super m' a"
    unfolding load_super_def super_size_def
    by (simp add: f32.rd_bytes [of _ m m'] f16.rd_bytes [of _ m m'] get_bytes_agree [of _ _ m m'])
qed

text \<open>The two counters the allocators change in place.\<close>

lemma load_super_free_blocks:
  "load_super (put32 m (a + 8) v) a = (load_super m a)\<lparr>s_free_blocks_count := v\<rparr>"
  by (simp add: load_super_def mem_simps get_bytes_agree [of _ _ "put32 m (a + 8) v" m] f32.wr_outside)

lemma load_super_free_inodes:
  "load_super (put32 m (a + 12) v) a = (load_super m a)\<lparr>s_free_inodes_count := v\<rparr>"
  by (simp add: load_super_def mem_simps get_bytes_agree [of _ _ "put32 m (a + 12) v" m] f32.wr_outside)

section \<open>The inode on the disk\<close>

record lkfs_inode =
  d_mode :: u16
  d_uid :: u16
  d_size :: u32
  d_atime :: u32
  d_ctime :: u32
  d_mtime :: u32
  d_dtime :: u32
  d_gid :: u16
  d_links_count :: u16
  d_blocks :: u32
  d_flags :: u32
  d_block :: "u32 list"

definition load_inode :: "mem \<Rightarrow> nat \<Rightarrow> lkfs_inode" where
  "load_inode m a = \<lparr>
     d_mode = get16 m a, d_uid = get16 m (a + 2), d_size = get32 m (a + 4),
     d_atime = get32 m (a + 8), d_ctime = get32 m (a + 12), d_mtime = get32 m (a + 16),
     d_dtime = get32 m (a + 20), d_gid = get16 m (a + 24), d_links_count = get16 m (a + 26),
     d_blocks = get32 m (a + 28), d_flags = get32 m (a + 32), d_block = get32s m (a + 36) 23\<rparr>"

definition store_inode :: "mem \<Rightarrow> nat \<Rightarrow> lkfs_inode \<Rightarrow> mem" where
  "store_inode m a d =
     (let m = put16 m a (d_mode d);
          m = put16 m (a + 2) (d_uid d);
          m = put32 m (a + 4) (d_size d);
          m = put32 m (a + 8) (d_atime d);
          m = put32 m (a + 12) (d_ctime d);
          m = put32 m (a + 16) (d_mtime d);
          m = put32 m (a + 20) (d_dtime d);
          m = put16 m (a + 24) (d_gid d);
          m = put16 m (a + 26) (d_links_count d);
          m = put32 m (a + 28) (d_blocks d);
          m = put32 m (a + 32) (d_flags d)
      in put32s m (a + 36) (d_block d))"

definition fits_inode :: "lkfs_inode \<Rightarrow> bool" where
  "fits_inode d \<longleftrightarrow> length (d_block d) = 23"

lemma get_put32s_above [mem_simps]:
  "b + 4 \<le> a \<Longrightarrow> get32 (put32s m a vs) b = get32 m b"
  "b + 2 \<le> a \<Longrightarrow> get16 (put32s m a vs) b = get16 m b"
  by (auto intro!: f32.rd_bytes f16.rd_bytes simp: put32s_outside)

interpretation dinode: struct load_inode store_inode LKFS_INODE_SIZE fits_inode
proof
  fix d :: lkfs_inode and m m' :: mem and a i :: nat
  show "fits_inode d \<Longrightarrow> load_inode (store_inode m a d) a = d"
    by (cases d) (simp add: load_inode_def store_inode_def Let_def fits_inode_def mem_simps
        get32s_put32s)
  show "i < a \<or> a + LKFS_INODE_SIZE \<le> i \<Longrightarrow> fits_inode d \<Longrightarrow> store_inode m a d i = m i"
    by (auto simp: store_inode_def Let_def fits_inode_def LKFS_INODE_SIZE_def
        put32s_outside f32.wr_outside f16.wr_outside)
  assume "\<And>i. a \<le> i \<Longrightarrow> i < a + LKFS_INODE_SIZE \<Longrightarrow> m i = m' i"
  then show "load_inode m a = load_inode m' a"
    unfolding load_inode_def LKFS_INODE_SIZE_def
    by (simp add: f32.rd_bytes [of _ m m'] f16.rd_bytes [of _ m m'] get32s_bytes [of _ _ m m'])
qed

lemma fits_load_inode [simp]: "fits_inode (load_inode m a)"
  by (simp add: fits_inode_def load_inode_def)

section \<open>Directory entries\<close>

text \<open>
  \<open>struct lkfs_dir_entry_2\<close>: inode number, record length, name length, file type, name. Entries
  are edited in place, so each field has its own accessors.
\<close>

definition de_inode :: "mem \<Rightarrow> nat \<Rightarrow> u32" where "de_inode m de = get32 m de"
definition de_rec_len :: "mem \<Rightarrow> nat \<Rightarrow> nat" where "de_rec_len m de = unat (get16 m (de + 4))"
definition de_name_len :: "mem \<Rightarrow> nat \<Rightarrow> nat" where "de_name_len m de = unat (get8 m (de + 6))"
definition de_name :: "mem \<Rightarrow> nat \<Rightarrow> nat \<Rightarrow> u8 list" where "de_name m de len = get_bytes m (de + 8) len"

definition set_de_inode :: "nat \<Rightarrow> u32 \<Rightarrow> mem \<Rightarrow> mem" where
  "set_de_inode de v m = put32 m de v"
definition set_de_rec_len :: "nat \<Rightarrow> nat \<Rightarrow> mem \<Rightarrow> mem" where
  "set_de_rec_len de v m = put16 m (de + 4) (of_nat v)"
definition set_de_name_len :: "nat \<Rightarrow> nat \<Rightarrow> mem \<Rightarrow> mem" where
  "set_de_name_len de v m = put8 m (de + 6) (of_nat v)"
definition set_de_name :: "nat \<Rightarrow> u8 list \<Rightarrow> mem \<Rightarrow> mem" where
  "set_de_name de name m = put_bytes m (de + 8) name"

text \<open>\<open>LKFS_DIR_REC_LEN(name_len)\<close>: eight bytes of header and the name, rounded up to four.\<close>

definition LKFS_DIR_REC_LEN :: "nat \<Rightarrow> nat" where
  "LKFS_DIR_REC_LEN name_len = (name_len + 8 + 3) div 4 * 4"

lemma dir_rec_len_bounds:
  "n + 8 \<le> LKFS_DIR_REC_LEN n" "LKFS_DIR_REC_LEN n \<le> n + 11" "4 dvd LKFS_DIR_REC_LEN n"
  unfolding LKFS_DIR_REC_LEN_def by auto

end
