(* ===== verification/Fs_State.thy ===== *)
theory Fs_State
  imports Layout
begin

text \<open>
  The state of a mounted file system: \<open>struct lkfs_sb_info\<close> and the buffer cache it points
  into, and the in-memory inode (\<open>struct inode\<close> with \<open>struct lkfs_inode_info\<close>). The pointer
  \<open>s_es\<close> of the code points into the super block's buffer, so reading and writing the super
  block here reads and writes that buffer.
\<close>

record lkfs =
  bufs :: "nat \<Rightarrow> mem"
  dirty :: "nat set"
  s_sbh :: nat
  s_sbb :: "nat list"
  s_sib :: "nat list"
  block_bitmap_offset :: nat
  inode_bitmap_offset :: nat
  inode_table_offset :: nat
  sbi_inode_size :: nat
  s_dirt :: bool

datatype inode_ops = NoOps | FileOps | DirOps

record inode =
  i_ino :: nat
  i_mode :: u16
  i_uid :: u16
  i_gid :: u16
  i_nlink :: u32
  i_size :: nat
  i_blocks :: nat
  i_atime :: u32
  i_ctime :: u32
  i_mtime :: u32
  i_version :: nat
  i_data :: "nat \<Rightarrow> u32"
  ei_new :: bool
  i_ops :: inode_ops

definition es :: "lkfs \<Rightarrow> lkfs_super_block" where
  "es s = load_super (bufs s (s_sbh s)) 0"

definition set_buf :: "nat \<Rightarrow> mem \<Rightarrow> lkfs \<Rightarrow> lkfs" where
  "set_buf b m s = s\<lparr>bufs := (bufs s)(b := m)\<rparr>"

definition mark_buffer_dirty :: "nat \<Rightarrow> lkfs \<Rightarrow> lkfs" where
  "mark_buffer_dirty b s = s\<lparr>dirty := insert b (dirty s)\<rparr>"

text \<open>\<open>es->s_free_blocks_count\<close> and \<open>es->s_free_inodes_count\<close>, changed in place by \<open>++\<close> and \<open>--\<close>.\<close>

definition set_free_blocks :: "u32 \<Rightarrow> lkfs \<Rightarrow> lkfs" where
  "set_free_blocks v s = set_buf (s_sbh s) (put32 (bufs s (s_sbh s)) 8 v) s"

definition set_free_inodes :: "u32 \<Rightarrow> lkfs \<Rightarrow> lkfs" where
  "set_free_inodes v s = set_buf (s_sbh s) (put32 (bufs s (s_sbh s)) 12 v) s"

lemmas state_defs [kdefs] = set_buf_def mark_buffer_dirty_def set_free_blocks_def
  set_free_inodes_def

lemma es_set_free_blocks [simp]: "es (set_free_blocks v s) = (es s)\<lparr>s_free_blocks_count := v\<rparr>"
  using load_super_free_blocks [of "bufs s (s_sbh s)" 0 v] by (simp add: es_def state_defs)

lemma es_set_free_inodes [simp]: "es (set_free_inodes v s) = (es s)\<lparr>s_free_inodes_count := v\<rparr>"
  using load_super_free_inodes [of "bufs s (s_sbh s)" 0 v] by (simp add: es_def state_defs)

lemma es_set_buf_other [simp]: "b \<noteq> s_sbh s \<Longrightarrow> es (set_buf b m s) = es s"
  by (simp add: es_def set_buf_def)

lemma es_mark_dirty [simp]: "es (mark_buffer_dirty b s) = es s"
  by (simp add: es_def mark_buffer_dirty_def)

lemma set_buf_sel [simp]:
  "bufs (set_buf b m s) = (bufs s)(b := m)" "dirty (set_buf b m s) = dirty s"
  "s_sbh (set_buf b m s) = s_sbh s" "s_sbb (set_buf b m s) = s_sbb s"
  "s_sib (set_buf b m s) = s_sib s" "inode_table_offset (set_buf b m s) = inode_table_offset s"
  "inode_bitmap_offset (set_buf b m s) = inode_bitmap_offset s"
  "block_bitmap_offset (set_buf b m s) = block_bitmap_offset s"
  by (simp_all add: set_buf_def)

lemma mark_dirty_sel [simp]:
  "bufs (mark_buffer_dirty b s) = bufs s" "dirty (mark_buffer_dirty b s) = insert b (dirty s)"
  "s_sbh (mark_buffer_dirty b s) = s_sbh s" "s_sbb (mark_buffer_dirty b s) = s_sbb s"
  "s_sib (mark_buffer_dirty b s) = s_sib s"
  "inode_table_offset (mark_buffer_dirty b s) = inode_table_offset s"
  "inode_bitmap_offset (mark_buffer_dirty b s) = inode_bitmap_offset s"
  "block_bitmap_offset (mark_buffer_dirty b s) = block_bitmap_offset s"
  by (simp_all add: mark_buffer_dirty_def)

lemma set_free_blocks_sel [simp]:
  "dirty (set_free_blocks v s) = dirty s"
  "s_sbh (set_free_blocks v s) = s_sbh s" "s_sbb (set_free_blocks v s) = s_sbb s"
  "s_sib (set_free_blocks v s) = s_sib s"
  "inode_table_offset (set_free_blocks v s) = inode_table_offset s"
  "inode_bitmap_offset (set_free_blocks v s) = inode_bitmap_offset s"
  "block_bitmap_offset (set_free_blocks v s) = block_bitmap_offset s"
  "b \<noteq> s_sbh s \<Longrightarrow> bufs (set_free_blocks v s) b = bufs s b"
  by (simp_all add: set_free_blocks_def)

lemma set_free_inodes_sel [simp]:
  "dirty (set_free_inodes v s) = dirty s"
  "s_sbh (set_free_inodes v s) = s_sbh s" "s_sbb (set_free_inodes v s) = s_sbb s"
  "s_sib (set_free_inodes v s) = s_sib s"
  "inode_table_offset (set_free_inodes v s) = inode_table_offset s"
  "inode_bitmap_offset (set_free_inodes v s) = inode_bitmap_offset s"
  "block_bitmap_offset (set_free_inodes v s) = block_bitmap_offset s"
  "b \<noteq> s_sbh s \<Longrightarrow> bufs (set_free_inodes v s) b = bufs s b"
  by (simp_all add: set_free_inodes_def)

section \<open>Bitmaps spread over several buffers\<close>

text \<open>
  Number \<open>n\<close> of the blocks (or inodes) is bit \<open>n mod 8192\<close> of bitmap buffer \<open>n div 8192\<close>.
\<close>

definition used_bit :: "(nat \<Rightarrow> mem) \<Rightarrow> nat list \<Rightarrow> nat \<Rightarrow> bool" where
  "used_bit bf hs n \<longleftrightarrow> n div 8192 < length hs \<and> bit_at (bf (hs ! (n div 8192))) (n mod 8192)"

definition used_block :: "lkfs \<Rightarrow> nat \<Rightarrow> bool" where
  "used_block s = used_bit (bufs s) (s_sbb s)"

definition used_ino :: "lkfs \<Rightarrow> nat \<Rightarrow> bool" where
  "used_ino s = used_bit (bufs s) (s_sib s)"

lemma used_bit_set:
  assumes "bitmap_ops tset tclr" "distinct hs" "i < length hs" "b < 8192"
  shows "used_bit (bf(hs ! i := snd (tset b (bf (hs ! i))))) hs n \<longleftrightarrow>
    n = i * 8192 + b \<or> used_bit bf hs n"
  using assms(2-4) bitmap_ops.tset_bit [OF assms(1)]
  by (auto simp: used_bit_def nth_eq_iff_index_eq)

lemma used_bit_clear:
  assumes "bitmap_ops tset tclr" "distinct hs" "i < length hs" "b < 8192"
  shows "used_bit (bf(hs ! i := snd (tclr b (bf (hs ! i))))) hs n \<longleftrightarrow>
    n \<noteq> i * 8192 + b \<and> used_bit bf hs n"
  using assms(2-4) bitmap_ops.tclr_bit [OF assms(1)]
  by (auto simp: used_bit_def nth_eq_iff_index_eq)

lemma used_bit_agree:
  "(\<And>h. h \<in> set hs \<Longrightarrow> bf' h = bf h) \<Longrightarrow> used_bit bf' hs = used_bit bf hs"
  by (rule ext) (auto simp: used_bit_def)

section \<open>Geometry of a mounted volume\<close>

definition data_start :: "lkfs \<Rightarrow> nat" where
  "data_start s = inode_table_offset s + unat (s_inode_table_count (es s))"

definition blocks_count :: "lkfs \<Rightarrow> nat" where
  "blocks_count s = unat (s_blocks_count (es s))"

definition inodes_count :: "lkfs \<Rightarrow> nat" where
  "inodes_count s = unat (s_inodes_count (es s))"

text \<open>
  What mounting establishes and every operation keeps: super block in block 1, block bitmaps,
  inode bitmaps and inode table one after the other behind it, the bitmaps large enough for the
  counts of the super block, the device's metadata marked used, and block numbers that an
  \<open>int\<close> can hold.
\<close>

definition fs_wf :: "lkfs \<Rightarrow> bool" where
  "fs_wf s \<longleftrightarrow>
     s_sbh s = 1 \<and>
     s_sbb s = [2..<2 + length (s_sbb s)] \<and>
     s_sib s = [2 + length (s_sbb s)..<2 + length (s_sbb s) + length (s_sib s)] \<and>
     inode_table_offset s = 2 + length (s_sbb s) + length (s_sib s) \<and>
     unat (s_block_bitmap_count (es s)) = length (s_sbb s) \<and>
     unat (s_inode_bitmap_count (es s)) = length (s_sib s) \<and>
     blocks_count s \<le> 8192 * length (s_sbb s) \<and> 8192 * length (s_sbb s) < 2 ^ 31 \<and>
     inodes_count s \<le> 8192 * length (s_sib s) \<and> 8192 * length (s_sib s) < 2 ^ 31 \<and>
     data_start s \<le> blocks_count s \<and>
     (\<forall>b < data_start s. used_block s b)"

lemma fs_wfD:
  assumes "fs_wf s"
  shows "s_sbh s = 1" "distinct (s_sbb s)" "distinct (s_sib s)"
    "unat (s_block_bitmap_count (es s)) = length (s_sbb s)"
    "unat (s_inode_bitmap_count (es s)) = length (s_sib s)"
    "blocks_count s \<le> 8192 * length (s_sbb s)" "8192 * length (s_sbb s) < 2 ^ 31"
    "inodes_count s \<le> 8192 * length (s_sib s)" "8192 * length (s_sib s) < 2 ^ 31"
    "data_start s \<le> blocks_count s" "b < data_start s \<Longrightarrow> used_block s b"
    "inode_table_offset s \<le> data_start s" "2 \<le> inode_table_offset s"
  using assms unfolding fs_wf_def data_start_def by (auto, (metis distinct_upt)+)

lemma fs_wf_sets:
  assumes "fs_wf s"
  shows "set (s_sbb s) = {2..<2 + length (s_sbb s)}"
    "set (s_sib s) = {2 + length (s_sbb s)..<inode_table_offset s}"
    "h \<in> set (s_sbb s) \<Longrightarrow> h < inode_table_offset s \<and> h \<noteq> 1"
    "h \<in> set (s_sib s) \<Longrightarrow> h < inode_table_offset s \<and> h \<noteq> 1"
    "set (s_sbb s) \<inter> set (s_sib s) = {}"
proof -
  have b: "s_sbb s = [2..<2 + length (s_sbb s)]"
    and i: "s_sib s = [2 + length (s_sbb s)..<2 + length (s_sbb s) + length (s_sib s)]"
    and t: "inode_table_offset s = 2 + length (s_sbb s) + length (s_sib s)"
    using assms by (auto simp: fs_wf_def)
  show B: "set (s_sbb s) = {2..<2 + length (s_sbb s)}" by (subst b) (simp only: set_upt)
  show I: "set (s_sib s) = {2 + length (s_sbb s)..<inode_table_offset s}"
    unfolding t by (subst i) (simp only: set_upt)
  show "h \<in> set (s_sbb s) \<Longrightarrow> h < inode_table_offset s \<and> h \<noteq> 1" unfolding B t by auto
  show "h \<in> set (s_sib s) \<Longrightarrow> h < inode_table_offset s \<and> h \<noteq> 1" unfolding I by auto
  show "set (s_sbb s) \<inter> set (s_sib s) = {}" unfolding B I by auto
qed

text \<open>The invariant depends on the geometry, the super block's sizes and the used blocks only.\<close>

definition same_geometry :: "lkfs \<Rightarrow> lkfs \<Rightarrow> bool" where
  "same_geometry s s' \<longleftrightarrow>
     s_sbh s' = s_sbh s \<and> s_sbb s' = s_sbb s \<and> s_sib s' = s_sib s \<and>
     inode_table_offset s' = inode_table_offset s \<and>
     es s' = (es s)\<lparr>s_free_blocks_count := s_free_blocks_count (es s'),
                   s_free_inodes_count := s_free_inodes_count (es s')\<rparr>"

lemma same_geometry_refl [simp]: "same_geometry s s"
  by (simp add: same_geometry_def)

lemma same_geometry_sizes:
  assumes "same_geometry s s'"
  shows "blocks_count s' = blocks_count s" "inodes_count s' = inodes_count s"
    "data_start s' = data_start s" "s_sbb s' = s_sbb s" "s_sib s' = s_sib s"
    "inode_table_offset s' = inode_table_offset s" "s_sbh s' = s_sbh s"
    "s_block_bitmap_count (es s') = s_block_bitmap_count (es s)"
    "s_inode_bitmap_count (es s') = s_inode_bitmap_count (es s)"
    "s_inode_table_count (es s') = s_inode_table_count (es s)"
proof -
  obtain f i where e: "es s' = (es s)\<lparr>s_free_blocks_count := f, s_free_inodes_count := i\<rparr>"
    using assms by (auto simp: same_geometry_def)
  show "blocks_count s' = blocks_count s" "inodes_count s' = inodes_count s"
    "s_block_bitmap_count (es s') = s_block_bitmap_count (es s)"
    "s_inode_bitmap_count (es s') = s_inode_bitmap_count (es s)"
    "s_inode_table_count (es s') = s_inode_table_count (es s)"
    by (simp_all add: e blocks_count_def inodes_count_def)
  show "data_start s' = data_start s" "s_sbb s' = s_sbb s" "s_sib s' = s_sib s"
    "inode_table_offset s' = inode_table_offset s" "s_sbh s' = s_sbh s"
    using assms by (simp_all add: data_start_def e same_geometry_def)
qed

lemma same_geometry_trans:
  assumes "same_geometry s t" "same_geometry t u"
  shows "same_geometry s u"
  using assms by (cases "es s"; cases "es t"; cases "es u") (auto simp: same_geometry_def)

lemma fs_wf_step:
  assumes "fs_wf s" "same_geometry s s'"
    and "\<And>b. b < data_start s \<Longrightarrow> used_block s b \<Longrightarrow> used_block s' b"
  shows "fs_wf s'"
  using assms(1,3) unfolding fs_wf_def by (simp add: same_geometry_sizes [OF assms(2)])


section \<open>A sample volume\<close>

text \<open>
  A small volume the witnesses use: 128 blocks, 32 inodes, one bitmap block of each kind, a
  four-block inode table, so data starts at block 8; the first \<open>u\<close> blocks and the first
  \<open>v\<close> inodes are in use.
\<close>

definition sample_super :: lkfs_super_block where
  "sample_super = \<lparr>s_inodes_count = 32, s_blocks_count = 128, s_free_blocks_count = 119,
     s_free_inodes_count = 21, s_block_bitmap_count = 1, s_inode_bitmap_count = 1,
     s_inode_table_count = 4, s_mtime = 0, s_wtime = 0, s_mnt_count = 0, s_magic = LKFS_SUPER_MAGIC,
     s_state = 0, s_first_ino = 0, s_inode_size = 128, s_block_size = 1024,
     s_volume_name = replicate 32 0\<rparr>"

definition bits_below :: "nat \<Rightarrow> mem" where
  "bits_below n = (\<lambda>i. mask (min 8 (n - 8 * i)))"

lemma bit_at_bits_below [simp]: "bit_at (bits_below n) k \<longleftrightarrow> k < n"
proof -
  have "k mod 8 < n - 8 * (k div 8) \<longleftrightarrow> k < n" using mult_div_mod_eq [of 8 k] by linarith
  then show ?thesis by (simp add: bit_at_def bits_below_def bit_simps)
qed

definition sample_fs :: "nat \<Rightarrow> nat \<Rightarrow> lkfs" where
  "sample_fs u v = \<lparr>bufs = (\<lambda>b. if b = 1 then store_super zero_mem 0
       (sample_super\<lparr>s_free_blocks_count := of_nat (128 - u)\<rparr>)
       else if b = 2 then bits_below u else if b = 3 then bits_below v else zero_mem),
     dirty = {}, s_sbh = 1, s_sbb = [2], s_sib = [3], block_bitmap_offset = 2,
     inode_bitmap_offset = 3, inode_table_offset = 4, sbi_inode_size = 128, s_dirt = False\<rparr>"

lemma es_sample: "es (sample_fs u v) = sample_super\<lparr>s_free_blocks_count := of_nat (128 - u)\<rparr>"
  unfolding es_def sample_fs_def
  by (simp add: super.rd_wr_fits fits_super_def sample_super_def)

lemma sample_fs_sel [simp]:
  "s_sbh (sample_fs u v) = 1" "s_sbb (sample_fs u v) = [2]" "s_sib (sample_fs u v) = [3]"
  "inode_table_offset (sample_fs u v) = 4" "dirty (sample_fs u v) = {}"
  "blocks_count (sample_fs u v) = 128" "inodes_count (sample_fs u v) = 32"
  "data_start (sample_fs u v) = 8"
  "bufs (sample_fs u v) 2 = bits_below u" "bufs (sample_fs u v) 3 = bits_below v"
  "3 < b \<Longrightarrow> bufs (sample_fs u v) b = zero_mem"
  by (simp_all add: blocks_count_def inodes_count_def data_start_def es_sample)
     (simp_all add: sample_fs_def sample_super_def)

lemma sample_used [simp]:
  "used_block (sample_fs u v) k \<longleftrightarrow> k < 8192 \<and> k < u"
  "used_ino (sample_fs u v) k \<longleftrightarrow> k < 8192 \<and> k < v"
  by (auto simp: used_block_def used_ino_def used_bit_def)

lemma sample_fs_wf: "8 \<le> u \<Longrightarrow> fs_wf (sample_fs u v)"
  by (simp add: fs_wf_def es_sample sample_super_def)

end
