(* ===== verification/Allocator.thy ===== *)
theory Allocator
  imports Lkfs_Base
begin

text \<open>
  The contract of an allocator, which the file system and the kernel of the board share, and what follows
  from it for any sequence of requests and returns.
\<close>

text \<open>
  \<open>alloc\<close> hands out a number or fails, \<open>release\<close> takes one back, \<open>used\<close> is what is out,
  \<open>rng\<close> the numbers the allocator manages. The block and the inode allocator of lkfs meet it
  (\<open>block_allocator\<close> in \<open>Alloc\<close>, \<open>inode_allocator\<close> in \<open>Ialloc\<close>) and so do the memory partitions of
  the uC/OS-II kernel (\<open>partition_allocator\<close> in \<open>Os_Mem\<close>).
\<close>

datatype alloc_op = Take | Give nat

fun run_ops :: "('s \<Rightarrow> (nat \<times> 's) option) \<Rightarrow> (nat \<Rightarrow> 's \<Rightarrow> 's) \<Rightarrow> alloc_op list
    \<Rightarrow> nat list \<Rightarrow> 's \<Rightarrow> nat list \<times> 's" where
  "run_ops alloc release [] held s = (held, s)"
| "run_ops alloc release (Take # ops) held s =
     (case alloc s of None \<Rightarrow> run_ops alloc release ops held s
      | Some (n, s') \<Rightarrow> run_ops alloc release ops (n # held) s')"
| "run_ops alloc release (Give n # ops) held s =
     (if n \<in> set held then run_ops alloc release ops (remove1 n held) (release n s)
      else run_ops alloc release ops held s)"

locale allocator =
  fixes alloc :: "'s \<Rightarrow> (nat \<times> 's) option"
    and release :: "nat \<Rightarrow> 's \<Rightarrow> 's"
    and used rng :: "'s \<Rightarrow> nat \<Rightarrow> bool"
    and inv :: "'s \<Rightarrow> bool"
  assumes alloc_inv: "inv s \<Longrightarrow> alloc s = Some (n, s') \<Longrightarrow> inv s' \<and> rng s' = rng s"
    and alloc_fresh: "inv s \<Longrightarrow> alloc s = Some (n, s') \<Longrightarrow> rng s n \<and> \<not> used s n"
    and alloc_used: "inv s \<Longrightarrow> alloc s = Some (n, s') \<Longrightarrow> used s' k \<longleftrightarrow> k = n \<or> used s k"
    and alloc_none: "inv s \<Longrightarrow> alloc s = None \<Longrightarrow> rng s n \<Longrightarrow> used s n"
    and release_inv: "inv s \<Longrightarrow> rng s n \<Longrightarrow> used s n \<Longrightarrow> inv (release n s) \<and> rng (release n s) = rng s"
    and release_used: "inv s \<Longrightarrow> rng s n \<Longrightarrow> used s n \<Longrightarrow> used (release n s) k \<longleftrightarrow> k \<noteq> n \<and> used s k"
begin

lemma alloc_release:
  assumes "inv s" "alloc s = Some (n, s')"
  shows "used (release n s') = used s"
  using alloc_fresh [OF assms] alloc_inv [OF assms] alloc_used [OF assms] release_used
  by (auto simp: fun_eq_iff)

text \<open>
  Over any sequence of requests and returns, the numbers held are pairwise distinct and are
  exactly what is used beyond the start.
\<close>

lemma run_ops_held:
  assumes "run_ops alloc release ops held s = (held', s')" "inv s" "distinct held"
    and "\<And>n. n \<in> set held \<Longrightarrow> rng s n \<and> \<not> base n" "\<And>k. used s k \<longleftrightarrow> k \<in> set held \<or> base k"
  shows "inv s' \<and> distinct held' \<and> rng s' = rng s \<and> (\<forall>n \<in> set held'. rng s n \<and> \<not> base n)
    \<and> (\<forall>k. used s' k \<longleftrightarrow> k \<in> set held' \<or> base k)"
  using assms
proof (induction ops arbitrary: held s)
  case Nil
  then show ?case by auto
next
  case (Cons x ops)
  show ?case
  proof (cases x)
    case Take
    show ?thesis
    proof (cases "alloc s")
      case None
      with Take Cons.prems show ?thesis by (intro Cons.IH) auto
    next
      case (Some r)
      obtain n t where r: "alloc s = Some (n, t)" using Some by (cases r) auto
      note A = alloc_inv [OF Cons.prems(2) r] alloc_fresh [OF Cons.prems(2) r]
        alloc_used [OF Cons.prems(2) r]
      have "inv s' \<and> distinct held' \<and> rng s' = rng t \<and> (\<forall>n \<in> set held'. rng t n \<and> \<not> base n)
          \<and> (\<forall>k. used s' k \<longleftrightarrow> k \<in> set held' \<or> base k)"
      proof (rule Cons.IH)
        show "run_ops alloc release ops (n # held) t = (held', s')" using Cons.prems(1) Take r by simp
      qed (use A Cons.prems in auto)
      with A show ?thesis by simp
    qed
  next
    case (Give n)
    show ?thesis
    proof (cases "n \<in> set held")
      case False
      with Give Cons.prems show ?thesis by (intro Cons.IH) auto
    next
      case True
      note R = release_inv [OF Cons.prems(2), of n] release_used [OF Cons.prems(2), of n]
      have rn: "rng s n" "\<not> base n" "used s n" using True Cons.prems(4, 5) by auto
      have "inv s' \<and> distinct held' \<and> rng s' = rng (release n s)
          \<and> (\<forall>k \<in> set held'. rng (release n s) k \<and> \<not> base k)
          \<and> (\<forall>k. used s' k \<longleftrightarrow> k \<in> set held' \<or> base k)"
      proof (rule Cons.IH)
        show "run_ops alloc release ops (remove1 n held) (release n s) = (held', s')"
          using Cons.prems(1) Give True by simp
        show "used (release n s) k \<longleftrightarrow> k \<in> set (remove1 n held) \<or> base k" for k
          using R(2) rn Cons.prems(3,5) by auto
      qed (use R rn Cons.prems in \<open>auto dest: notin_set_remove1\<close>)
      with R(1) rn show ?thesis by simp
    qed
  qed
qed

end

end
