(* ===== verification/Alloc.thy ===== *)
theory Alloc
  imports Fs_State Allocator
begin

text \<open>
  Block and inode allocation: \<open>lkfs_new_blocks\<close>, \<open>lkfs_new_ind_blocks\<close>, \<open>lkfs_free_block\<close>,
  \<open>lkfs_free_meta_block\<close> of \<open>src/lkfs/inode.c\<close> and \<open>lkfs_new_inode\<close>, \<open>lkfs_free_inode\<close>
  of \<open>src/lkfs/ialloc.c\<close>, with the laws of a bitmap allocator: what is handed out was free,
  is the lowest free number, and nothing else changes hands.
\<close>

section \<open>The search loop\<close>

text \<open>
  The loop the three allocators share: look at the bitmap buffers in order, stop at the first
  with a clear bit. It returns the index of the buffer and the bit; when all are full the index
  is the number of buffers and the bit is 8192. Buffer \<open>i\<close> is read before it is known to exist.
\<close>

fun find_free_bit ::
  "(mem \<Rightarrow> nat \<Rightarrow> nat \<Rightarrow> nat) \<Rightarrow> (nat \<Rightarrow> mem) \<Rightarrow> nat list \<Rightarrow> nat \<Rightarrow> nat \<Rightarrow> nat \<Rightarrow> (nat \<times> nat) res" where
  "find_free_bit nz bf hs 0 i bit_no = Inr (i, bit_no)"
| "find_free_bit nz bf [] (Suc n) i bit_no = Inl OutOfBounds"
| "find_free_bit nz bf (h # hs) (Suc n) i bit_no =
     (let bit_no = nz (bf h) 8192 0
      in if bit_no \<noteq> 8192 then Inr (i, bit_no) else find_free_bit nz bf hs n (i + 1) bit_no)"

definition lkfs_new_blocks :: "'k kernel_scheme \<Rightarrow> lkfs \<Rightarrow> (u32 \<times> lkfs) res" where
  "lkfs_new_blocks K s =
     rbind (find_free_bit (k_find_next_zero_le_bit K) (bufs s) (s_sbb s)
              (unat (s_block_bitmap_count (es s))) 0 0)
       (\<lambda>(i, block_no).
          if i * LKFS_BLOCKS_PER_BITMAP + block_no > unat (s_blocks_count (es s)) then Inr (0, s)
          else if length (s_sbb s) \<le> i then Inl OutOfBounds
          else
            let bh = s_sbb s ! i;
                s = set_buf bh (snd (k_test_and_set_le_bit K block_no (bufs s bh))) s;
                s = set_free_blocks (s_free_blocks_count (es s) - 1) s;
                s = mark_buffer_dirty (s_sbh s) s;
                s = mark_buffer_dirty bh s
            in Inr (of_nat (block_no + LKFS_BLOCKS_PER_BITMAP * i), s))"

definition lkfs_new_ind_blocks :: "'k kernel_scheme \<Rightarrow> nat \<Rightarrow> nat \<Rightarrow> lkfs \<Rightarrow> (u32 \<times> lkfs) res" where
  "lkfs_new_ind_blocks K bh iblock s =
     rbind (find_free_bit (k_find_next_zero_le_bit K) (bufs s) (s_sbb s)
              (unat (s_block_bitmap_count (es s))) 0 0)
       (\<lambda>(i, block_no).
          if i * LKFS_BLOCKS_PER_BITMAP + block_no > unat (s_blocks_count (es s)) then Inr (0, s)
          else if length (s_sbb s) \<le> i then Inl OutOfBounds
          else
            let bb = s_sbb s ! i;
                s = set_buf bb (snd (k_test_and_set_le_bit K block_no (bufs s bb))) s;
                s = set_free_blocks (s_free_blocks_count (es s) - 1) s;
                s = mark_buffer_dirty (s_sbh s) s;
                s = mark_buffer_dirty bb s;
                nr = of_nat (block_no + LKFS_BLOCKS_PER_BITMAP * i);
                s = set_buf bh (put32 (bufs s bh) (4 * iblock) nr) s;
                s = mark_buffer_dirty bh s
            in Inr (nr, s))"

definition lkfs_free_meta_block :: "'k kernel_scheme \<Rightarrow> u32 \<Rightarrow> lkfs \<Rightarrow> lkfs res" where
  "lkfs_free_meta_block K iblock s =
     (let block = unat iblock div 2 ^ LKFS_BITS_PER_BLOCKS;
          nr = unat iblock mod LKFS_BLOCKS_PER_BITMAP
      in if length (s_sbb s) \<le> block then Inl OutOfBounds
         else
           let bh = s_sbb s ! block;
               s = set_buf bh (snd (k_test_and_clear_bit K nr (bufs s bh))) s;
               s = set_free_blocks (s_free_blocks_count (es s) + 1) s;
               s = mark_buffer_dirty (s_sbh s) s;
               s = mark_buffer_dirty bh s
           in Inr s)"

text \<open>\<open>lkfs_free_block\<close> also clears the inode's pointer.\<close>

definition lkfs_free_block :: "'k kernel_scheme \<Rightarrow> nat \<Rightarrow> u32 \<Rightarrow> inode \<times> lkfs \<Rightarrow> (inode \<times> lkfs) res" where
  "lkfs_free_block K offset iblock = (\<lambda>(nd, s).
     let block = unat iblock div 2 ^ LKFS_BITS_PER_BLOCKS;
         nr = unat iblock mod LKFS_BLOCKS_PER_BITMAP
     in if length (s_sbb s) \<le> block then Inl OutOfBounds
        else
          let bh = s_sbb s ! block;
              s = set_buf bh (snd (k_test_and_clear_bit K nr (bufs s bh))) s;
              s = set_free_blocks (s_free_blocks_count (es s) + 1) s;
              s = mark_buffer_dirty (s_sbh s) s;
              s = mark_buffer_dirty bh s
          in Inr (nd\<lparr>i_data := (i_data nd)(offset := 0)\<rparr>, s))"

section \<open>The search finds the lowest free number\<close>

lemma find_free_bit_cases:
  assumes "next_zero_spec nz"
  shows "find_free_bit nz bf hs (length hs) i0 b0 = Inr (i, b) \<Longrightarrow>
    (\<exists>j < length hs. i = i0 + j \<and> b < 8192 \<and> \<not> bit_at (bf (hs ! j)) b
        \<and> (\<forall>q < b. bit_at (bf (hs ! j)) q)
        \<and> (\<forall>k < j. \<forall>q < 8192. bit_at (bf (hs ! k)) q))
    \<or> (i = i0 + length hs \<and> (hs \<noteq> [] \<longrightarrow> b = 8192) \<and> (\<forall>h \<in> set hs. \<forall>q < 8192. bit_at (bf h) q))"
proof (induction hs arbitrary: i0 b0)
  case Nil
  then show ?case by simp
next
  case (Cons h hs)
  let ?b = "nz (bf h) 8192 0"
  note nz = next_zeroD [OF assms, where m = "bf h" and n = 8192]
  show ?case
  proof (cases "?b = 8192")
    case False
    with Cons.prems have "i = i0" "b = ?b" by (auto simp: Let_def)
    with False nz show ?thesis
      by (intro disjI1 exI [of _ 0]) auto
  next
    case True
    with Cons.prems have "find_free_bit nz bf hs (length hs) (i0 + 1) 8192 = Inr (i, b)"
      by (simp add: Let_def)
    from Cons.IH [OF this] True nz(4) consider
      (found) j where "j < length hs" "i = i0 + 1 + j" "b < 8192" "\<not> bit_at (bf (hs ! j)) b"
        "\<forall>q < b. bit_at (bf (hs ! j)) q" "\<forall>k < j. \<forall>q < 8192. bit_at (bf (hs ! k)) q"
    | (full) "i = i0 + 1 + length hs" "hs \<noteq> [] \<longrightarrow> b = 8192"
        "\<forall>h \<in> set hs. \<forall>q < 8192. bit_at (bf h) q"
      by blast
    then show ?thesis
    proof cases
      case (found j)
      have "\<forall>k < Suc j. \<forall>q < 8192. bit_at (bf ((h # hs) ! k)) q"
        using found(6) nz(4) True by (auto simp: less_Suc_eq_0_disj)
      with found show ?thesis by (intro disjI1 exI [of _ "Suc j"]) auto
    next
      case full
      with Cons.prems True nz(4) show ?thesis by (cases hs) (auto simp: Let_def)
    qed
  qed
qed

lemma find_free_bit_total: "\<exists>i b. find_free_bit nz bf hs (length hs) i0 b0 = Inr (i, b)"
  by (induction hs arbitrary: i0 b0) (auto simp: Let_def)

text \<open>In terms of block (inode) numbers over all bitmaps.\<close>

lemma find_free_bit_used:
  assumes nz: "next_zero_spec nz" and "hs \<noteq> []"
    and run: "find_free_bit nz bf hs (length hs) 0 0 = Inr (i, b)"
  shows "i \<le> length hs"
    "i < length hs \<Longrightarrow> b < 8192 \<and> \<not> used_bit bf hs (i * 8192 + b)"
    "i = length hs \<Longrightarrow> b = 8192"
    "k < 8192 * length hs \<Longrightarrow> k < i * 8192 + b \<Longrightarrow> used_bit bf hs k"
proof -
  consider (found) "i < length hs" "b < 8192" "\<not> bit_at (bf (hs ! i)) b"
      "\<forall>q < b. bit_at (bf (hs ! i)) q" "\<forall>k < i. \<forall>q < 8192. bit_at (bf (hs ! k)) q"
    | (full) "i = length hs" "b = 8192" "\<forall>h \<in> set hs. \<forall>q < 8192. bit_at (bf h) q"
    using find_free_bit_cases [OF nz run] \<open>hs \<noteq> []\<close> by auto
  note cs = this
  show "i \<le> length hs" by (cases rule: cs) auto
  show "i < length hs \<Longrightarrow> b < 8192 \<and> \<not> used_bit bf hs (i * 8192 + b)"
    by (cases rule: cs) (auto simp: used_bit_def)
  show "i = length hs \<Longrightarrow> b = 8192" by (cases rule: cs) auto
  assume k: "k < 8192 * length hs" "k < i * 8192 + b"
  have kd: "k div 8192 < length hs" using k by (simp add: less_mult_imp_div_less mult.commute)
  show "used_bit bf hs k"
  proof (cases rule: cs)
    case found
    have "k < Suc i * 8192" using k(2) found(2) by simp
    then have "k div 8192 < Suc i" by (rule less_mult_imp_div_less)
    then have "k div 8192 \<le> i" by simp
    moreover have "k div 8192 = i \<Longrightarrow> k mod 8192 < b"
      using k(2) div_mult_mod_eq [of k 8192] by simp
    ultimately have "bit_at (bf (hs ! (k div 8192))) (k mod 8192)"
      using found(4) found(5) [rule_format, of "k div 8192" "k mod 8192"]
      by (cases "k div 8192 = i") simp_all
    with kd show ?thesis by (simp add: used_bit_def)
  next
    case full
    with kd show ?thesis by (simp add: used_bit_def)
  qed
qed


section \<open>The block allocator\<close>

text \<open>
  The second half of the block operations: change the bitmap of block \<open>n\<close> by \<open>f\<close>, add \<open>d\<close>
  to the free counter, mark both buffers dirty. Claiming and unclaiming a block are instances.
\<close>

definition flip_block :: "(mem \<Rightarrow> mem) \<Rightarrow> u32 \<Rightarrow> nat \<Rightarrow> lkfs \<Rightarrow> lkfs" where
  "flip_block f d n s =
     (let bh = s_sbb s ! (n div 8192);
          s = set_buf bh (f (bufs s bh)) s;
          s = set_free_blocks (s_free_blocks_count (es s) + d) s
      in mark_buffer_dirty bh (mark_buffer_dirty (s_sbh s) s))"

definition claim_block :: "'k kernel_scheme \<Rightarrow> nat \<Rightarrow> lkfs \<Rightarrow> lkfs" where
  "claim_block K n = flip_block (\<lambda>m. snd (k_test_and_set_le_bit K (n mod 8192) m)) (- 1) n"

definition unclaim_block :: "'k kernel_scheme \<Rightarrow> nat \<Rightarrow> lkfs \<Rightarrow> lkfs" where
  "unclaim_block K n = flip_block (\<lambda>m. snd (k_test_and_clear_bit K (n mod 8192) m)) 1 n"

definition lowest_free :: "lkfs \<Rightarrow> nat \<Rightarrow> bool" where
  "lowest_free s n \<longleftrightarrow>
     n < 8192 * length (s_sbb s) \<and> \<not> used_block s n \<and> (\<forall>k < n. used_block s k)"

lemma lowest_free_unique: "lowest_free s n \<Longrightarrow> lowest_free s m \<Longrightarrow> n = m"
  unfolding lowest_free_def by (metis linorder_neqE_nat)

lemma lowest_free_exists:
  assumes "n < 8192 * length (s_sbb s)" "\<not> used_block s n"
  shows "\<exists>m \<le> n. lowest_free s m"
proof -
  define m where "m = (LEAST k. \<not> used_block s k)"
  have "\<not> used_block s m" unfolding m_def using assms(2) by (rule LeastI)
  moreover have le: "m \<le> n" unfolding m_def using assms(2) by (rule Least_le)
  moreover have "\<forall>k < m. used_block s k" unfolding m_def using not_less_Least by blast
  moreover have "m < 8192 * length (s_sbb s)" using le assms(1) by (rule le_less_trans)
  ultimately show ?thesis unfolding lowest_free_def by blast
qed

lemma lowest_free_ge_data: "fs_wf s \<Longrightarrow> lowest_free s n \<Longrightarrow> data_start s \<le> n"
  using fs_wfD(11) by (fastforce simp: lowest_free_def not_less [symmetric])

lemma sbb_nth:
  assumes "fs_wf s" "n < 8192 * length (s_sbb s)"
  shows "n div 8192 < length (s_sbb s)" "s_sbb s ! (n div 8192) \<noteq> 1"
    "s_sbb s ! (n div 8192) \<in> set (s_sbb s)"
proof -
  show l: "n div 8192 < length (s_sbb s)"
    using assms(2) by (simp add: less_mult_imp_div_less mult.commute)
  then show m: "s_sbb s ! (n div 8192) \<in> set (s_sbb s)" by simp
  from fs_wf_sets(3) [OF assms(1) m] show "s_sbb s ! (n div 8192) \<noteq> 1" by simp
qed

lemma flip_block_facts:
  assumes wf: "fs_wf s" and n: "n < 8192 * length (s_sbb s)"
  shows "es (flip_block f d n s) = (es s)\<lparr>s_free_blocks_count := s_free_blocks_count (es s) + d\<rparr>"
    "same_geometry s (flip_block f d n s)"
    "x \<noteq> 1 \<Longrightarrow> x \<notin> set (s_sbb s) \<Longrightarrow> bufs (flip_block f d n s) x = bufs s x"
    "dirty (flip_block f d n s) = dirty s \<union> {1, s_sbb s ! (n div 8192)}"
    "s_dirt (flip_block f d n s) = s_dirt s"
    "used_ino (flip_block f d n s) = used_ino s"
    "used_block (flip_block f d n s) = used_bit
      ((bufs s)(s_sbb s ! (n div 8192) := f (bufs s (s_sbb s ! (n div 8192))))) (s_sbb s)"
proof -
  let ?bh = "s_sbb s ! (n div 8192)"
  note h = sbb_nth [OF wf n] and sbh = fs_wfD(1) [OF wf]
  show e: "es (flip_block f d n s) = (es s)\<lparr>s_free_blocks_count := s_free_blocks_count (es s) + d\<rparr>"
    using h sbh by (simp add: flip_block_def Let_def)
  show "same_geometry s (flip_block f d n s)"
    unfolding same_geometry_def e by (simp add: flip_block_def Let_def)
  have fr: "bufs (flip_block f d n s) y = bufs s y" if "y \<noteq> 1" "y \<notin> set (s_sbb s)" for y
    using h sbh that by (auto simp: flip_block_def Let_def)
  then show "x \<noteq> 1 \<Longrightarrow> x \<notin> set (s_sbb s) \<Longrightarrow> bufs (flip_block f d n s) x = bufs s x" by simp
  have hb: "bufs (flip_block f d n s) y = ((bufs s)(?bh := f (bufs s ?bh))) y" if "y \<noteq> 1" for y
    using h sbh that by (auto simp: flip_block_def Let_def)
  have sb: "s_sbb (flip_block f d n s) = s_sbb s" "s_sib (flip_block f d n s) = s_sib s"
    by (simp_all add: flip_block_def Let_def)
  show "used_block (flip_block f d n s) = used_bit ((bufs s)(?bh := f (bufs s ?bh))) (s_sbb s)"
    unfolding used_block_def sb by (rule used_bit_agree, rule hb) (use fs_wf_sets(3) [OF wf] in blast)
  show "dirty (flip_block f d n s) = dirty s \<union> {1, ?bh}"
    using sbh by (auto simp: flip_block_def Let_def)
  show "s_dirt (flip_block f d n s) = s_dirt s"
    by (simp add: flip_block_def Let_def state_defs)
  show "used_ino (flip_block f d n s) = used_ino s"
    unfolding used_ino_def sb
    by (rule used_bit_agree) (use fr fs_wf_sets(4,5) [OF wf] in blast)
qed

lemma claim_block_used:
  assumes wf: "fs_wf s" and K: "bits_spec K" and n: "n < 8192 * length (s_sbb s)"
  shows "used_block (claim_block K n s) k \<longleftrightarrow> k = n \<or> used_block s k"
  using used_bit_set [OF bits_specD(3) [OF K] fs_wfD(2) [OF wf] sbb_nth(1) [OF wf n],
      of "n mod 8192" "bufs s" k]
  by (simp add: claim_block_def flip_block_facts(7) [OF wf n]) (simp add: used_block_def)

lemma unclaim_block_used:
  assumes wf: "fs_wf s" and K: "bits_spec K" and n: "n < 8192 * length (s_sbb s)"
  shows "used_block (unclaim_block K n s) k \<longleftrightarrow> k \<noteq> n \<and> used_block s k"
  using used_bit_clear [OF bits_specD(3) [OF K] fs_wfD(2) [OF wf] sbb_nth(1) [OF wf n],
      of "n mod 8192" "bufs s" k]
  by (simp add: unclaim_block_def flip_block_facts(7) [OF wf n]) (simp add: used_block_def)

lemma claim_block_wf:
  assumes wf: "fs_wf s" and K: "bits_spec K" and n: "n < 8192 * length (s_sbb s)"
  shows "fs_wf (claim_block K n s)"
proof (rule fs_wf_step [OF wf])
  show "same_geometry s (claim_block K n s)"
    unfolding claim_block_def by (rule flip_block_facts(2) [OF wf n])
qed (simp add: claim_block_used [OF wf K n])

lemma unclaim_block_wf:
  assumes wf: "fs_wf s" and K: "bits_spec K" and n: "n < 8192 * length (s_sbb s)"
    and data: "data_start s \<le> n"
  shows "fs_wf (unclaim_block K n s)"
proof (rule fs_wf_step [OF wf])
  show "same_geometry s (unclaim_block K n s)"
    unfolding unclaim_block_def by (rule flip_block_facts(2) [OF wf n])
qed (use data in \<open>simp add: unclaim_block_used [OF wf K n]\<close>)

text \<open>
  What the search loop finds on a well-formed volume: the lowest free number, or the state
  past the last bitmap when every bit is set.
\<close>

lemma search_outcome:
  assumes wf: "fs_wf s" and K: "bits_spec K"
  obtains (found) i b where
      "find_free_bit (k_find_next_zero_le_bit K) (bufs s) (s_sbb s)
         (unat (s_block_bitmap_count (es s))) 0 0 = Inr (i, b)"
      "i < length (s_sbb s)" "lowest_free s (i * 8192 + b)"
      "(i * 8192 + b) div 8192 = i" "(i * 8192 + b) mod 8192 = b"
  | (full) "find_free_bit (k_find_next_zero_le_bit K) (bufs s) (s_sbb s)
         (unat (s_block_bitmap_count (es s))) 0 0 = Inr (length (s_sbb s), 8192)"
      "\<And>n. \<not> lowest_free s n"
proof -
  let ?nz = "k_find_next_zero_le_bit K" and ?hs = "s_sbb s"
  have ne: "?hs \<noteq> []" using fs_wfD(6,10,12,13) [OF wf] by auto
  obtain i b where run: "find_free_bit ?nz (bufs s) ?hs (length ?hs) 0 0 = Inr (i, b)"
    using find_free_bit_total by blast
  note F = find_free_bit_used [OF bits_specD(1) [OF K] ne run]
  show thesis
  proof (cases "i < length ?hs")
    case True
    have "i * 8192 + b < 8192 * length ?hs" using F(2) [OF True] True by linarith
    then have "lowest_free s (i * 8192 + b)"
      using F(2) [OF True] F(4) unfolding lowest_free_def used_block_def by auto
    with True F(2) [OF True] run show ?thesis
      by (intro found [of i b]) (simp_all add: fs_wfD(4) [OF wf])
  next
    case False
    with F(1,3) have "i = length ?hs" "b = 8192" by simp_all
    with F(4) run show ?thesis
      by (intro full) (auto simp: fs_wfD(4) [OF wf] lowest_free_def used_block_def)
  qed
qed

text \<open>\<open>lkfs_new_blocks\<close> on every branch.\<close>

lemma lkfs_new_blocks_run:
  assumes wf: "fs_wf s" and K: "bits_spec K"
  shows "lowest_free s n \<Longrightarrow> n \<le> blocks_count s \<Longrightarrow>
      lkfs_new_blocks K s = Inr (of_nat n, claim_block K n s)"
    "\<forall>n \<le> blocks_count s. \<not> lowest_free s n \<Longrightarrow> lkfs_new_blocks K s = Inr (0, s)"
proof -
  consider (found) m where "lowest_free s m" "lkfs_new_blocks K s =
      (if blocks_count s < m then Inr (0, s) else Inr (of_nat m, claim_block K m s))"
    | (full) "\<And>m. \<not> lowest_free s m" "lkfs_new_blocks K s = Inr (0, s)"
  proof (cases rule: search_outcome [OF wf K])
    case (1 i b)
    show ?thesis
      by (rule found [OF 1(3)]) (use 1 in \<open>simp add: lkfs_new_blocks_def claim_block_def
          flip_block_def blocks_count_def LKFS_BLOCKS_PER_BITMAP_def Let_def algebra_simps\<close>)
  next
    case 2
    show ?thesis
      by (rule full [OF 2(2)]) (use 2 fs_wfD(6) [OF wf] in \<open>simp add: lkfs_new_blocks_def blocks_count_def LKFS_BLOCKS_PER_BITMAP_def\<close>)
  qed
  note cs = this
  show "lkfs_new_blocks K s = Inr (of_nat n, claim_block K n s)"
    if "lowest_free s n" "n \<le> blocks_count s"
    by (cases rule: cs) (use that in \<open>auto dest: lowest_free_unique [OF that(1)] split: if_splits\<close>)
  show "lkfs_new_blocks K s = Inr (0, s)" if "\<forall>n \<le> blocks_count s. \<not> lowest_free s n"
    by (cases rule: cs) (use that in \<open>auto simp: not_le [symmetric]\<close>)
qed

text \<open>\<open>lkfs_new_ind_blocks\<close> also writes the new number into slot \<open>iblock\<close> of buffer \<open>bh\<close>.\<close>

definition link_block :: "nat \<Rightarrow> nat \<Rightarrow> nat \<Rightarrow> lkfs \<Rightarrow> lkfs" where
  "link_block bh iblock n s =
     mark_buffer_dirty bh (set_buf bh (put32 (bufs s bh) (4 * iblock) (of_nat n)) s)"

lemma lkfs_new_ind_blocks_run:
  assumes wf: "fs_wf s" and K: "bits_spec K"
  shows "lowest_free s n \<Longrightarrow> n \<le> blocks_count s \<Longrightarrow>
      lkfs_new_ind_blocks K bh k s = Inr (of_nat n, link_block bh k n (claim_block K n s))"
    "\<forall>n \<le> blocks_count s. \<not> lowest_free s n \<Longrightarrow> lkfs_new_ind_blocks K bh k s = Inr (0, s)"
proof -
  consider (found) m where "lowest_free s m" "lkfs_new_ind_blocks K bh k s =
      (if blocks_count s < m then Inr (0, s)
       else Inr (of_nat m, link_block bh k m (claim_block K m s)))"
    | (full) "\<And>m. \<not> lowest_free s m" "lkfs_new_ind_blocks K bh k s = Inr (0, s)"
  proof (cases rule: search_outcome [OF wf K])
    case (1 i b)
    show ?thesis
      by (rule found [OF 1(3)]) (use 1 in \<open>simp add: lkfs_new_ind_blocks_def claim_block_def
          flip_block_def link_block_def blocks_count_def LKFS_BLOCKS_PER_BITMAP_def Let_def algebra_simps\<close>)
  next
    case 2
    show ?thesis
      by (rule full [OF 2(2)]) (use 2 fs_wfD(6) [OF wf] in \<open>simp add: lkfs_new_ind_blocks_def blocks_count_def LKFS_BLOCKS_PER_BITMAP_def\<close>)
  qed
  note cs = this
  show "lkfs_new_ind_blocks K bh k s = Inr (of_nat n, link_block bh k n (claim_block K n s))"
    if "lowest_free s n" "n \<le> blocks_count s"
    by (cases rule: cs) (use that in \<open>auto dest: lowest_free_unique [OF that(1)] split: if_splits\<close>)
  show "lkfs_new_ind_blocks K bh k s = Inr (0, s)" if "\<forall>n \<le> blocks_count s. \<not> lowest_free s n"
    by (cases rule: cs) (use that in \<open>auto simp: not_le [symmetric]\<close>)
qed

text \<open>Freeing: a block number within the bitmaps is unclaimed, one outside them is an overrun.\<close>

lemma lkfs_free_meta_block_run:
  assumes "fs_wf s"
  shows "lkfs_free_meta_block K b s =
    (if unat b < 8192 * length (s_sbb s) then Inr (unclaim_block K (unat b) s) else Inl OutOfBounds)"
proof -
  have "length (s_sbb s) \<le> unat b div 8192 \<longleftrightarrow> \<not> unat b < 8192 * length (s_sbb s)"
    by (simp add: not_less less_eq_div_iff_mult_less_eq mult.commute)
  then show ?thesis
    by (simp add: lkfs_free_meta_block_def unclaim_block_def flip_block_def Let_def
        LKFS_BITS_PER_BLOCKS_def LKFS_BLOCKS_PER_BITMAP_def)
qed

lemma lkfs_free_block_eq:
  "lkfs_free_block K off b (nd, s) =
    rbind (lkfs_free_meta_block K b s) (\<lambda>s. Inr (nd\<lparr>i_data := (i_data nd)(off := 0)\<rparr>, s))"
  by (simp add: lkfs_free_block_def lkfs_free_meta_block_def Let_def)


section \<open>The block allocator meets the contract\<close>

definition alloc_block :: "'k kernel_scheme \<Rightarrow> lkfs \<Rightarrow> (nat \<times> lkfs) option" where
  "alloc_block K s = (case lkfs_new_blocks K s of Inl f \<Rightarrow> None
     | Inr (b, s') \<Rightarrow> if b = 0 then None else Some (unat b, s'))"

definition release_block :: "'k kernel_scheme \<Rightarrow> nat \<Rightarrow> lkfs \<Rightarrow> lkfs" where
  "release_block K n s = (case lkfs_free_meta_block K (of_nat n) s of Inl f \<Rightarrow> s | Inr s' \<Rightarrow> s')"

definition block_range :: "lkfs \<Rightarrow> nat \<Rightarrow> bool" where
  "block_range s n \<longleftrightarrow> data_start s \<le> n \<and> n \<le> blocks_count s \<and> n < 8192 * length (s_sbb s)"

lemma unat_block:
  assumes "fs_wf s" "n < 8192 * length (s_sbb s)"
  shows "unat (of_nat n :: u32) = n"
  using fs_wfD(7) [OF assms(1)] assms(2) by (simp add: unat_of_nat take_bit_nat_eq_self)

lemma of_nat_block_neq_0:
  assumes "fs_wf s" "n < 8192 * length (s_sbb s)" "data_start s \<le> n"
  shows "(of_nat n :: u32) \<noteq> 0"
  using unat_block [OF assms(1,2)] fs_wfD(12,13) [OF assms(1)] assms(3) by auto

lemma claim_block_range: "fs_wf s \<Longrightarrow> n < 8192 * length (s_sbb s) \<Longrightarrow>
    block_range (claim_block K n s) = block_range s"
  using same_geometry_sizes [OF flip_block_facts(2)] by (auto simp: block_range_def claim_block_def)

lemma unclaim_block_range: "fs_wf s \<Longrightarrow> n < 8192 * length (s_sbb s) \<Longrightarrow>
    block_range (unclaim_block K n s) = block_range s"
  using same_geometry_sizes [OF flip_block_facts(2)] by (auto simp: block_range_def unclaim_block_def)

lemma alloc_block_Some:
  assumes wf: "fs_wf s" and K: "bits_spec K"
  shows "alloc_block K s = Some (n, s') \<longleftrightarrow>
    lowest_free s n \<and> n \<le> blocks_count s \<and> s' = claim_block K n s"
proof (cases "\<exists>m \<le> blocks_count s. lowest_free s m")
  case True
  then obtain m where m: "m \<le> blocks_count s" "lowest_free s m" by blast
  then have lt: "m < 8192 * length (s_sbb s)" by (simp add: lowest_free_def)
  note w = unat_block [OF wf lt] of_nat_block_neq_0 [OF wf lt lowest_free_ge_data [OF wf m(2)]]
  have "alloc_block K s = Some (m, claim_block K m s)"
    using w by (simp add: alloc_block_def lkfs_new_blocks_run(1) [OF wf K m(2,1)])
  with m show ?thesis using lowest_free_unique by auto
next
  case False
  then have "alloc_block K s = None"
    by (simp add: alloc_block_def lkfs_new_blocks_run(2) [OF wf K])
  with False show ?thesis by auto
qed

lemma release_block_eq:
  assumes "fs_wf s" "n < 8192 * length (s_sbb s)"
  shows "release_block K n s = unclaim_block K n s"
  using assms by (simp add: release_block_def lkfs_free_meta_block_run unat_block)

lemma block_allocator:
  assumes K: "bits_spec K"
  shows "allocator (alloc_block K) (release_block K) used_block block_range fs_wf"
proof
  fix s s' :: lkfs and n k :: nat
  assume wf: "fs_wf s"
  {
    assume "alloc_block K s = Some (n, s')"
    then have n: "lowest_free s n" "n \<le> blocks_count s" "s' = claim_block K n s"
      by (simp_all add: alloc_block_Some [OF wf K])
    then have lt: "n < 8192 * length (s_sbb s)" by (simp add: lowest_free_def)
    show "fs_wf s' \<and> block_range s' = block_range s"
      using n claim_block_wf [OF wf K lt] claim_block_range [OF wf lt] by simp
    show "block_range s n \<and> \<not> used_block s n"
      using n lt lowest_free_ge_data [OF wf n(1)] by (simp add: block_range_def lowest_free_def)
    show "used_block s' k \<longleftrightarrow> k = n \<or> used_block s k"
      using n claim_block_used [OF wf K lt] by simp
  }
  {
    assume none: "alloc_block K s = None" and r: "block_range s n"
    show "used_block s n"
    proof (rule ccontr)
      assume "\<not> used_block s n"
      then obtain m where m: "m \<le> n" "lowest_free s m"
        using lowest_free_exists r by (auto simp: block_range_def)
      with r have "m \<le> blocks_count s" by (simp add: block_range_def)
      with m none show False using alloc_block_Some [OF wf K, of m] by auto
    qed
  }
  assume r: "block_range s n"
  then have lt: "n < 8192 * length (s_sbb s)" and d: "data_start s \<le> n" by (simp_all add: block_range_def)
  show "fs_wf (release_block K n s) \<and> block_range (release_block K n s) = block_range s"
    using unclaim_block_wf [OF wf K lt d] unclaim_block_range [OF wf lt] by (simp add: release_block_eq [OF wf lt])
  show "used_block (release_block K n s) k \<longleftrightarrow> k \<noteq> n \<and> used_block s k"
    using unclaim_block_used [OF wf K lt] by (simp add: release_block_eq [OF wf lt])
qed

interpretation plain_blocks:
  allocator "alloc_block plain_kernel" "release_block plain_kernel" used_block block_range fs_wf
  by (rule block_allocator [OF plain_kernel_bits])


section \<open>Properties of the block allocator\<close>

lemma lowest_free_sample: "u < 8192 \<Longrightarrow> lowest_free (sample_fs u v) u"
  by (simp add: lowest_free_def)

text \<open>C24: when a block of the device is free, \<open>lkfs_new_blocks\<close> returns the lowest free one. It
  lies in the data area and was not in use; afterwards it is the only additional used block, the
  free counter is one less, the inode bitmaps and every block behind the bitmaps are unchanged,
  and the two changed buffers are marked dirty.\<close>

theorem new_blocks_correct:
  assumes "fs_wf s" "bits_spec K" "lowest_free s n" "n < blocks_count s"
  shows "\<exists>s'. lkfs_new_blocks K s = Inr (of_nat n, s') \<and> unat (of_nat n :: u32) = n
    \<and> data_start s \<le> n \<and> \<not> used_block s n \<and> fs_wf s'
    \<and> (\<forall>k. used_block s' k \<longleftrightarrow> k = n \<or> used_block s k)
    \<and> s_free_blocks_count (es s') = s_free_blocks_count (es s) - 1
    \<and> (\<forall>x \<ge> inode_table_offset s. bufs s' x = bufs s x) \<and> used_ino s' = used_ino s
    \<and> {1, s_sbb s ! (n div 8192)} \<subseteq> dirty s'"
proof -
  have lt: "n < 8192 * length (s_sbb s)" using assms(3) by (simp add: lowest_free_def)
  have fr: "\<forall>x \<ge> inode_table_offset s. bufs (claim_block K n s) x = bufs s x"
    unfolding claim_block_def
  proof (intro allI impI flip_block_facts(3) [OF assms(1) lt])
    fix x assume "inode_table_offset s \<le> x"
    then show "x \<noteq> 1" "x \<notin> set (s_sbb s)"
      using fs_wf_sets(3) [OF assms(1)] fs_wfD(13) [OF assms(1)] by fastforce+
  qed
  show ?thesis
    using lkfs_new_blocks_run(1) [OF assms(1-3)] assms(3,4) unat_block [OF assms(1) lt]
      lowest_free_ge_data [OF assms(1,3)] claim_block_wf [OF assms(1,2) lt]
      claim_block_used [OF assms(1,2) lt] fr flip_block_facts(1,4,6) [OF assms(1) lt]
    by (intro exI [of _ "claim_block K n s"]) (auto simp: lowest_free_def claim_block_def)
qed

theorem new_blocks_correct_witness:
  "\<exists>s'. lkfs_new_blocks plain_kernel (sample_fs 9 11) = Inr (9, s') \<and> used_block s' 9"
  using new_blocks_correct [of "sample_fs 9 11" plain_kernel 9] plain_kernel_bits
    sample_fs_wf [of 9 11] lowest_free_sample [of 9 11] by auto

text \<open>when no block up to the device's size is free, \<open>lkfs_new_blocks\<close> and
  \<open>lkfs_new_ind_blocks\<close> return 0 and change nothing.\<close>

lemma new_blocks_full:
  assumes "fs_wf s" "bits_spec K" "\<And>n. n \<le> blocks_count s \<Longrightarrow> n < 8192 * length (s_sbb s) \<Longrightarrow> used_block s n"
  shows "lkfs_new_blocks K s = Inr (0, s) \<and> lkfs_new_ind_blocks K bh k s = Inr (0, s)"
proof -
  have "\<forall>n \<le> blocks_count s. \<not> lowest_free s n" using assms(3) by (auto simp: lowest_free_def)
  then show ?thesis
    using lkfs_new_blocks_run(2) lkfs_new_ind_blocks_run(2) assms(1,2) by blast
qed

theorem new_blocks_full_witness:
  "lkfs_new_blocks plain_kernel (sample_fs 129 11) = Inr (0, sample_fs 129 11)"
  by (rule new_blocks_full [OF sample_fs_wf plain_kernel_bits, THEN conjunct1]) auto

text \<open>The free counter of the super block agrees with the bitmap.\<close>

definition free_count_ok :: "lkfs \<Rightarrow> bool" where
  "free_count_ok s \<longleftrightarrow>
     unat (s_free_blocks_count (es s)) = card {b. b < blocks_count s \<and> \<not> used_block s b}"

text \<open>C40: the guard of \<open>lkfs_new_blocks\<close> is off by one. When every block of the device is used but
  the bitmap has a further bit, the allocator hands out block \<open>s_blocks_count\<close>, the first one
  behind the end of the device, and the free counter goes from 0 to 4294967295.\<close>

lemma new_blocks_overruns_device:
  assumes "fs_wf s" "bits_spec K" "free_count_ok s"
    and "\<And>b. b < blocks_count s \<Longrightarrow> used_block s b"
    and "blocks_count s < 8192 * length (s_sbb s)" "\<not> used_block s (blocks_count s)"
  shows "\<exists>s'. lkfs_new_blocks K s = Inr (of_nat (blocks_count s), s')
    \<and> s_free_blocks_count (es s) = 0 \<and> s_free_blocks_count (es s') = 4294967295"
proof -
  let ?n = "blocks_count s"
  have low: "lowest_free s ?n" using assms(4-6) by (simp add: lowest_free_def)
  have "{b. b < ?n \<and> \<not> used_block s b} = {}" using assms(4) by auto
  then have "unat (s_free_blocks_count (es s)) = 0" using assms(3) by (simp add: free_count_ok_def)
  then have z: "s_free_blocks_count (es s) = 0" by (simp add: unat_eq_0)
  have "es (claim_block K ?n s) = (es s)\<lparr>s_free_blocks_count := - 1\<rparr>"
    using flip_block_facts(1) [OF assms(1,5)] z by (simp add: claim_block_def)
  with z show ?thesis
    using lkfs_new_blocks_run(1) [OF assms(1,2) low] by (intro exI [of _ "claim_block K ?n s"]) simp
qed

theorem new_blocks_overruns_device_witness:
  "\<exists>s'. lkfs_new_blocks plain_kernel (sample_fs 128 11) = Inr (128, s')
    \<and> s_free_blocks_count (es s') = 4294967295"
  using new_blocks_overruns_device [of "sample_fs 128 11" plain_kernel] plain_kernel_bits
    sample_fs_wf [of 128 11] by (auto simp: free_count_ok_def es_sample)

lemma card_free_claim:
  assumes "fs_wf s" "bits_spec K" "n < 8192 * length (s_sbb s)" "n < blocks_count s" "\<not> used_block s n"
  shows "Suc (card {b. b < blocks_count s \<and> \<not> used_block (claim_block K n s) b})
    = card {b. b < blocks_count s \<and> \<not> used_block s b}"
proof -
  have "{b. b < blocks_count s \<and> \<not> used_block (claim_block K n s) b}
      = {b. b < blocks_count s \<and> \<not> used_block s b} - {n}"
    by (auto simp: claim_block_used [OF assms(1-3)])
  then show ?thesis using assms(4,5) by (simp only:) (rule card_Suc_Diff1, auto)
qed

text \<open>allocating a block of the device keeps the free counter equal to the number of free
  blocks, and freeing the block again restores the set of used blocks and the counter.\<close>

lemma alloc_free_roundtrip:
  assumes "fs_wf s" "bits_spec K" "free_count_ok s" "lowest_free s n" "n < blocks_count s"
  shows "\<exists>b s' s''. lkfs_new_blocks K s = Inr (b, s') \<and> free_count_ok s'
    \<and> lkfs_free_meta_block K b s' = Inr s'' \<and> used_block s'' = used_block s
    \<and> es s'' = es s \<and> free_count_ok s''"
proof -
  have lt: "n < 8192 * length (s_sbb s)" using assms(4) by (simp add: lowest_free_def)
  let ?t = "claim_block K n s" and ?u = "unclaim_block K n (claim_block K n s)"
  have wt: "fs_wf ?t" by (rule claim_block_wf [OF assms(1,2) lt])
  have gt: "same_geometry s ?t" unfolding claim_block_def by (rule flip_block_facts(2) [OF assms(1) lt])
  have ltt: "n < 8192 * length (s_sbb ?t)" using lt same_geometry_sizes [OF gt] by simp
  have et: "es ?t = (es s)\<lparr>s_free_blocks_count := s_free_blocks_count (es s) - 1\<rparr>"
    using flip_block_facts(1) [OF assms(1) lt] by (simp add: claim_block_def)
  have eu: "es ?u = es s"
    unfolding unclaim_block_def flip_block_facts(1) [OF wt ltt] et by simp
  have uu: "used_block ?u = used_block s"
    using assms(4) by (auto simp: fun_eq_iff unclaim_block_used [OF wt assms(2) ltt]
        claim_block_used [OF assms(1,2) lt] lowest_free_def)
  have "\<not> used_block s n" using assms(4) by (simp add: lowest_free_def)
  note card = card_free_claim [OF assms(1,2) lt assms(5) this]
  have ct: "free_count_ok ?t"
  proof -
    have "s_free_blocks_count (es s) \<noteq> 0"
      using card assms(3) unfolding free_count_ok_def by (metis Zero_not_Suc unat_0)
    then have "Suc (unat (s_free_blocks_count (es s) - 1)) = unat (s_free_blocks_count (es s))"
      by (metis Suc_pred' unat_gt_0 unat_minus_one)
    with card assms(3) show ?thesis
      unfolding free_count_ok_def by (simp add: same_geometry_sizes [OF gt] et)
  qed
  have cu: "free_count_ok ?u"
    using assms(3) by (simp add: free_count_ok_def eu uu blocks_count_def)
  have "lkfs_free_meta_block K (of_nat n) ?t = Inr ?u"
    using ltt by (simp add: lkfs_free_meta_block_run [OF wt] unat_block [OF assms(1) lt])
  with ct cu eu uu lkfs_new_blocks_run(1) [OF assms(1,2,4)] assms(5) show ?thesis
    by (intro exI [of _ "of_nat n"] exI [of _ ?t] exI [of _ ?u]) simp
qed

lemma sample_free_count: "8 \<le> u \<Longrightarrow> u \<le> 128 \<Longrightarrow> free_count_ok (sample_fs u v)"
proof -
  assume u: "8 \<le> u" "u \<le> 128"
  have "{b. b < 128 \<and> \<not> (b < 8192 \<and> b < u)} = {u..<128}" by auto
  moreover have "unat (of_nat (128 - u) :: u32) = 128 - u"
    by (simp add: unat_of_nat take_bit_nat_eq_self del: of_nat_diff)
  ultimately show ?thesis
    by (simp add: free_count_ok_def es_sample del: of_nat_diff)
qed

theorem alloc_free_roundtrip_witness:
  "\<exists>b s' s''. lkfs_new_blocks plain_kernel (sample_fs 9 11) = Inr (b, s')
    \<and> lkfs_free_meta_block plain_kernel b s' = Inr s'' \<and> es s'' = es (sample_fs 9 11)"
  using alloc_free_roundtrip [OF sample_fs_wf plain_kernel_bits sample_free_count lowest_free_sample,
      of 9 11] by auto

text \<open>C11: over any sequence of block allocations and releases of blocks held, no block is ever
  handed out twice: the blocks held are distinct, lie in the data area, were free at the start,
  and are exactly the blocks used beyond those used at the start.\<close>

theorem blocks_never_shared:
  assumes "fs_wf s" "bits_spec K"
    and "run_ops (alloc_block K) (release_block K) ops [] s = (held, s')"
  shows "fs_wf s' \<and> distinct held \<and> (\<forall>n \<in> set held. data_start s \<le> n \<and> \<not> used_block s n)
    \<and> (\<forall>k. used_block s' k \<longleftrightarrow> k \<in> set held \<or> used_block s k)"
  using allocator.run_ops_held [OF block_allocator [OF assms(2)] assms(3,1), of "used_block s"]
  by (auto simp: block_range_def)

theorem blocks_never_shared_witness:
  "distinct (fst (run_ops (alloc_block plain_kernel) (release_block plain_kernel)
     [Take, Take, Give 9, Take] [] (sample_fs 9 11)))"
  by (rule blocks_never_shared [OF sample_fs_wf plain_kernel_bits surjective_pairing,
        THEN conjunct2, THEN conjunct1]) simp

end
