(* ===== verification/Vfs_Api.thy ===== *)
theory Vfs_Api
  imports Fs_State
begin

text \<open>
  The VFS services the file system calls, further parameters of the model: what \<open>new_inode\<close>,
  \<open>insert_inode_locked\<close>, \<open>inode_init_owner\<close>, \<open>iget_locked\<close>, the page cache and the write-back
  code answer. \<open>k_write_begin_error\<close> is an error of \<open>block_write_begin\<close> before it maps the blocks
  written to (no page), \<open>k_write_begin_read_error\<close> one after that (a block could not be read). \<open>k_garbage\<close> is the value of a local variable the code reads without having
  written it; \<open>k_iget_locked\<close> answers the inode and whether it is new (\<open>I_NEW\<close>), and
  \<open>k_sync_writes\<close> whether \<open>sync_inode\<close> calls back \<open>lkfs_write_inode\<close>. Error codes are the
  kernel's negative numbers.
\<close>

definition ENOENT :: int where "ENOENT = 2"
definition EIO :: int where "EIO = 5"
definition ENOMEM :: int where "ENOMEM = 12"
definition EEXIST :: int where "EEXIST = 17"
definition EINVAL :: int where "EINVAL = 22"
definition EMLINK :: int where "EMLINK = 31"
definition ENAMETOOLONG :: int where "ENAMETOOLONG = 36"
definition ENOTEMPTY :: int where "ENOTEMPTY = 39"
definition ESTALE :: int where "ESTALE = 116"

lemmas errno_defs [kdefs] = ENOENT_def EIO_def ENOMEM_def EEXIST_def EINVAL_def EMLINK_def
  ENAMETOOLONG_def ENOTEMPTY_def ESTALE_def

text \<open>A kernel pointer that may carry an error number: \<open>Raw 0\<close> is NULL.\<close>

datatype 'a kptr = Ptr 'a | Raw int

definition ERR_PTR :: "int \<Rightarrow> 'a kptr" where "ERR_PTR e = Raw e"

fun IS_ERR :: "'a kptr \<Rightarrow> bool" where
  "IS_ERR (Ptr x) = False"
| "IS_ERR (Raw e) = (- 4095 \<le> e \<and> e < 0)"

fun PTR_ERR :: "'a kptr \<Rightarrow> int" where
  "PTR_ERR (Ptr x) = 0"
| "PTR_ERR (Raw e) = e"

text \<open>Using a pointer that passed the \<open>IS_ERR\<close> test as an object.\<close>

fun kderef :: "'a kptr \<Rightarrow> 'a res" where
  "kderef (Ptr x) = Inr x"
| "kderef (Raw e) = Inl NullDeref"

record vfs = kernel +
  k_new_inode :: "inode option"
  k_insert_inode_ok :: "nat \<Rightarrow> bool"
  k_inode_init_owner :: "inode \<Rightarrow> inode \<Rightarrow> u16 \<Rightarrow> inode"
  k_now :: u32
  k_garbage :: int
  k_iget_locked :: "nat \<Rightarrow> (bool \<times> inode) option"
  k_io_error :: "nat \<Rightarrow> bool"
  k_sync_error :: "nat \<Rightarrow> int"
  k_sync_writes :: "nat \<Rightarrow> bool"
  k_get_page_error :: "nat \<Rightarrow> nat \<Rightarrow> int"
  k_write_begin_error :: "nat \<Rightarrow> nat \<Rightarrow> nat \<Rightarrow> int"
  k_write_begin_read_error :: "nat \<Rightarrow> nat \<Rightarrow> nat \<Rightarrow> int"
  k_write_one_page_error :: "nat \<Rightarrow> nat \<Rightarrow> int"
  k_grab_page_ok :: "nat \<Rightarrow> bool"

definition blank_inode :: inode where
  "blank_inode = \<lparr>i_ino = 0, i_mode = 0, i_uid = 0, i_gid = 0, i_nlink = 1, i_size = 0,
     i_blocks = 0, i_atime = 0, i_ctime = 0, i_mtime = 0, i_version = 1, i_data = (\<lambda>_. 0),
     ei_new = False, i_ops = NoOps\<rparr>"

lemma blank_inode_sel [simp]:
  "i_size blank_inode = 0" "i_nlink blank_inode = 1" "i_mode blank_inode = 0" "i_ino blank_inode = 0"
  "i_data blank_inode = (\<lambda>_. 0)" "i_blocks blank_inode = 0" "i_ops blank_inode = NoOps"
  by (simp_all add: blank_inode_def)

definition plain_vfs :: vfs where
  "plain_vfs = kernel.extend plain_kernel \<lparr>k_new_inode = Some blank_inode,
     k_insert_inode_ok = (\<lambda>_. True),
     k_inode_init_owner = (\<lambda>nd dir mode. nd\<lparr>i_uid := 0, i_gid := 0, i_mode := mode\<rparr>),
     k_now = 1000, k_garbage = 0, k_iget_locked = (\<lambda>n. Some (True, blank_inode\<lparr>i_ino := n\<rparr>)), k_io_error = (\<lambda>_. False),
     k_sync_error = (\<lambda>_. 0), k_sync_writes = (\<lambda>_. True), k_get_page_error = (\<lambda>_ _. 0),
     k_write_begin_error = (\<lambda>_ _ _. 0), k_write_begin_read_error = (\<lambda>_ _ _. 0), k_write_one_page_error = (\<lambda>_ _. 0),
     k_grab_page_ok = (\<lambda>_. True)\<rparr>"

lemma plain_vfs_sel [simp]:
  "k_bread_ok plain_vfs b"
  "k_find_next_zero_le_bit plain_vfs = scan_zero" "k_find_next_zero_bit plain_vfs = scan_zero"
  "k_test_and_set_le_bit plain_vfs = lk_set_bit" "k_test_and_clear_bit plain_vfs = lk_clear_bit"
  "k_new_inode plain_vfs = Some blank_inode" "k_insert_inode_ok plain_vfs n"
  "k_inode_init_owner plain_vfs nd dir mode = nd\<lparr>i_uid := 0, i_gid := 0, i_mode := mode\<rparr>"
  "k_now plain_vfs = 1000" "k_garbage plain_vfs = 0" "k_iget_locked plain_vfs n = Some (True, blank_inode\<lparr>i_ino := n\<rparr>)"
  "\<not> k_io_error plain_vfs n" "k_sync_error plain_vfs n = 0" "k_sync_writes plain_vfs n"
  "k_get_page_error plain_vfs n k = 0" "k_write_begin_error plain_vfs n k l = 0" "k_write_begin_read_error plain_vfs n k l = 0"
  "k_write_one_page_error plain_vfs n k = 0" "k_grab_page_ok plain_vfs n"
  by (simp_all add: plain_vfs_def kernel.defs plain_kernel_def)

lemma plain_vfs_bits: "bits_spec plain_vfs"
  by (simp add: bits_spec_def scan_zero_spec mk.bitmap_ops_axioms)

end
