(* ===== verification/Blockmap.thy ===== *)
theory Blockmap
  imports Alloc Vfs_Api
begin

text \<open>
  The block map of a file, \<open>lkfs_get_blocks\<close> and \<open>lkfs_get_block\<close> of \<open>src/lkfs/inode.c\<close>: 21
  direct pointers, one indirect block of 256 pointers, one double indirect block. The properties
  say that asking for a file block returns the disk block the pointers lead to, allocates a fresh
  one when there is none, and disturbs no other file block.
\<close>

section \<open>The code\<close>

text \<open>
  A result is the return value, the block \<open>map_bh\<close> recorded in \<open>bh_result\<close> if it was called,
  the inode and the file system. Block numbers are read as unsigned; the code keeps some of
  them in an \<open>int\<close>, which agrees for devices below \<open>2 ^ 31\<close> blocks.
\<close>

type_synonym get_result = "(int \<times> u32 option \<times> inode \<times> lkfs) res"

definition read_ptr :: "lkfs \<Rightarrow> nat \<Rightarrow> nat \<Rightarrow> u32" where
  "read_ptr s bh k = get32 (bufs s bh) (4 * k)"

text \<open>\<open>*(sector_t *)(dind_bh->b_data + (k << 2))\<close> stored in an \<open>int\<close>.\<close>

definition read_sector :: "lkfs \<Rightarrow> nat \<Rightarrow> nat \<Rightarrow> u32" where
  "read_sector s bh k = ucast (get64 (bufs s bh) (4 * k))"

definition clear_block :: "nat \<Rightarrow> lkfs \<Rightarrow> lkfs" where
  "clear_block bh s = set_buf bh (memset (bufs s bh) 0 0 LKFS_BLOCK_SIZE) s"

definition set_i_data :: "nat \<Rightarrow> u32 \<Rightarrow> inode \<Rightarrow> inode" where
  "set_i_data k v nd = nd\<lparr>i_data := (i_data nd)(k := v)\<rparr>"

definition get_direct :: "'k kernel_scheme \<Rightarrow> inode \<Rightarrow> nat \<Rightarrow> lkfs \<Rightarrow> get_result" where
  "get_direct K nd iblock s =
     (if i_data nd iblock \<noteq> 0 then Inr (1, Some (i_data nd iblock), nd, s)
      else rbind (lkfs_new_blocks K s) (\<lambda>(new_block, s).
        if new_block = 0 then Inr (- 1, None, nd, s)
        else let nd = set_i_data iblock new_block nd in Inr (1, Some (i_data nd iblock), nd, s)))"

definition get_indirect :: "'k kernel_scheme \<Rightarrow> inode \<Rightarrow> nat \<Rightarrow> lkfs \<Rightarrow> get_result" where
  "get_indirect K nd iblock s =
     (if i_data nd LKFS_IND_BLOCK \<noteq> 0 then
        rbind (deref (sb_bread K (unat (i_data nd LKFS_IND_BLOCK)))) (\<lambda>bh.
          let indblock = read_ptr s bh iblock
          in if indblock \<noteq> 0 then Inr (1, Some indblock, nd, s)
             else rbind (lkfs_new_ind_blocks K bh iblock s) (\<lambda>(find_block, s).
               Inr (1, Some find_block, nd, s)))
      else
        rbind (lkfs_new_blocks K s) (\<lambda>(new_block, s).
          let nd = set_i_data LKFS_IND_BLOCK new_block nd
          in rbind (deref (sb_bread K (unat (i_data nd LKFS_IND_BLOCK)))) (\<lambda>bh.
            let s = clear_block bh s
            in rbind (lkfs_new_ind_blocks K bh iblock s) (\<lambda>(find_block, s).
              Inr (1, Some find_block, nd, s)))))"

definition get_dindirect :: "'k kernel_scheme \<Rightarrow> inode \<Rightarrow> nat \<Rightarrow> lkfs \<Rightarrow> get_result" where
  "get_dindirect K nd iblock s =
     (let o1 = iblock div 2 ^ 8; o2 = iblock mod 256
      in if i_data nd LKFS_DIND_BLOCK \<noteq> 0 then
           rbind (deref (sb_bread K (unat (i_data nd LKFS_DIND_BLOCK)))) (\<lambda>bh.
             let indblock = read_ptr s bh o1
             in if indblock \<noteq> 0 then
                  rbind (deref (sb_bread K (unat indblock))) (\<lambda>dind_bh.
                    let dindblock = read_sector s dind_bh o2
                    in if dindblock \<noteq> 0 then Inr (1, Some dindblock, nd, s)
                       else rbind (lkfs_new_ind_blocks K dind_bh o2 s) (\<lambda>(find_block, s).
                         Inr (1, Some find_block, nd, s)))
                else
                  rbind (lkfs_new_ind_blocks K bh o1 s) (\<lambda>(indblock, s).
                    rbind (deref (sb_bread K (unat indblock))) (\<lambda>dind_bh.
                      let s = clear_block dind_bh s
                      in rbind (lkfs_new_ind_blocks K dind_bh o2 s) (\<lambda>(dindblock, s).
                        Inr (1, Some dindblock, nd, s)))))
         else
           rbind (lkfs_new_blocks K s) (\<lambda>(new_block, s).
             let nd = set_i_data LKFS_DIND_BLOCK new_block nd
             in rbind (deref (sb_bread K (unat new_block))) (\<lambda>bh.
               let s = clear_block bh s
               in rbind (lkfs_new_ind_blocks K bh o1 s) (\<lambda>(indblock, s).
                 rbind (deref (sb_bread K (unat indblock))) (\<lambda>dind_bh.
                   let s = clear_block dind_bh s
                   in rbind (lkfs_new_ind_blocks K dind_bh o2 s) (\<lambda>(dindblock, s).
                     Inr (1, Some dindblock, nd, s)))))))"

text \<open>
  The function ends with \<open>if (!bh) brelse(bh)\<close> and the same for \<open>dind_bh\<close>. These tests read locals that
  may not have been set; but whichever way they go, \<open>brelse\<close> is only called with \<open>NULL\<close>, for which it
  does nothing, so that they leave no trace here. (The buffers that were read are never released.)
\<close>

definition lkfs_get_blocks :: "'k kernel_scheme \<Rightarrow> inode \<Rightarrow> nat \<Rightarrow> lkfs \<Rightarrow> get_result" where
  "lkfs_get_blocks K nd iblock s =
     (if iblock < LKFS_NDIR_BLOCKS then get_direct K nd iblock s
      else let iblock = iblock - LKFS_NDIR_BLOCKS
      in if iblock < 256 then get_indirect K nd iblock s
      else let iblock = iblock - 256
      in if iblock < 65536 then get_dindirect K nd iblock s
      else Inr (1, None, nd, s))"

text \<open>
  \<open>lkfs_get_block\<close> turns the positive result into 0 and a mapped size of one block; a result is
  the return value, the size and block of \<open>bh_result\<close>, the inode and the file system. The
  argument \<open>create\<close> is ignored by the code.
\<close>

definition lkfs_get_block ::
  "'k kernel_scheme \<Rightarrow> inode \<Rightarrow> nat \<Rightarrow> nat \<Rightarrow> lkfs \<Rightarrow> (int \<times> nat \<times> u32 option \<times> inode \<times> lkfs) res" where
  "lkfs_get_block K nd iblock b_size s =
     rbind (lkfs_get_blocks K nd iblock s) (\<lambda>(ret, mapped, nd, s).
       if ret > 0 then Inr (0, nat ret * 2 ^ 10, mapped, nd, s)
       else Inr (ret, b_size, mapped, nd, s))"

lemma block_indices: "LKFS_NDIR_BLOCKS = 21" "LKFS_IND_BLOCK = 21" "LKFS_DIND_BLOCK = 22"
  by (simp_all add: LKFS_NDIR_BLOCKS_def LKFS_IND_BLOCK_def LKFS_DIND_BLOCK_def)

section \<open>The pointers of a file\<close>

text \<open>
  Every place a block pointer of a file can stand. \<open>Dir i\<close>, \<open>Ind k\<close> and \<open>L2 j k\<close> hold data
  blocks; \<open>IndR\<close>, \<open>DinR\<close> and \<open>L1 j\<close> hold blocks of pointers.
\<close>

datatype slot = Dir nat | IndR | Ind nat | DinR | L1 nat | L2 nat nat

fun valid_slot :: "slot \<Rightarrow> bool" where
  "valid_slot (Dir i) = (i < 21)"
| "valid_slot (Ind k) = (k < 256)"
| "valid_slot (L1 j) = (j < 256)"
| "valid_slot (L2 j k) = (j < 256 \<and> k < 256)"
| "valid_slot _ = True"

fun meta_slot :: "slot \<Rightarrow> bool" where
  "meta_slot IndR = True"
| "meta_slot DinR = True"
| "meta_slot (L1 j) = True"
| "meta_slot _ = False"

text \<open>What stands in a slot; 0 when the slot or a block on the way to it does not exist.\<close>

definition below :: "lkfs \<Rightarrow> u32 \<Rightarrow> nat \<Rightarrow> u32" where
  "below s p k = (if p = 0 then 0 else read_ptr s (unat p) k)"

fun ptr_of :: "lkfs \<Rightarrow> inode \<Rightarrow> slot \<Rightarrow> u32" where
  "ptr_of s nd (Dir i) = i_data nd i"
| "ptr_of s nd IndR = i_data nd 21"
| "ptr_of s nd (Ind k) = below s (i_data nd 21) k"
| "ptr_of s nd DinR = i_data nd 22"
| "ptr_of s nd (L1 j) = below s (i_data nd 22) j"
| "ptr_of s nd (L2 j k) = below s (below s (i_data nd 22) j) k"

definition slot_of :: "nat \<Rightarrow> slot" where
  "slot_of ib = (if ib < 21 then Dir ib else if ib < 277 then Ind (ib - 21)
     else L2 ((ib - 277) div 256) ((ib - 277) mod 256))"

definition max_blocks :: nat where "max_blocks = 65813"

text \<open>The abstract block map: the disk block of a file block, 0 for a hole.\<close>

definition bmap :: "lkfs \<Rightarrow> inode \<Rightarrow> nat \<Rightarrow> u32" where
  "bmap s nd ib = ptr_of s nd (slot_of ib)"

lemma valid_slot_of: "ib < max_blocks \<Longrightarrow> valid_slot (slot_of ib)"
  by (auto simp: slot_of_def max_blocks_def less_mult_imp_div_less)

lemma slot_of_inj: "slot_of ib = slot_of jb \<Longrightarrow> ib = jb"
  unfolding slot_of_def
  by (auto split: if_splits) (metis div_mult_mod_eq le_add_diff_inverse not_less)

definition block_ok :: "lkfs \<Rightarrow> nat \<Rightarrow> bool" where
  "block_ok s b \<longleftrightarrow> data_start s \<le> b \<and> b < blocks_count s \<and> used_block s b"

text \<open>
  A well-formed file: every pointer leads to a used block of the data area, and no two slots
  hold the same block.
\<close>

definition imap_wf :: "lkfs \<Rightarrow> inode \<Rightarrow> bool" where
  "imap_wf s nd \<longleftrightarrow>
     (\<forall>a. valid_slot a \<longrightarrow> ptr_of s nd a \<noteq> 0 \<longrightarrow> block_ok s (unat (ptr_of s nd a)))
     \<and> (\<forall>a b. valid_slot a \<longrightarrow> valid_slot b \<longrightarrow> a \<noteq> b \<longrightarrow> ptr_of s nd a \<noteq> 0
          \<longrightarrow> ptr_of s nd a \<noteq> ptr_of s nd b)"

definition metas :: "lkfs \<Rightarrow> inode \<Rightarrow> nat set" where
  "metas s nd = {unat (ptr_of s nd a) |a. valid_slot a \<and> meta_slot a \<and> ptr_of s nd a \<noteq> 0}"

text \<open>The device answers reads of its blocks.\<close>

definition readable :: "'k kernel_scheme \<Rightarrow> lkfs \<Rightarrow> bool" where
  "readable K s \<longleftrightarrow> (\<forall>b < blocks_count s. k_bread_ok K b)"

definition free_blocks :: "lkfs \<Rightarrow> nat" where
  "free_blocks s = card {b. b < blocks_count s \<and> \<not> used_block s b}"


section \<open>Reading pointers after a write\<close>

lemma get32_put32_slot: "get32 (put32 m (4 * k) v) (4 * j) = (if j = k then v else get32 m (4 * j))"
  by (cases "j = k") (auto intro!: f32.rd_wr_disjoint simp: f32.rd_wr)

lemma get32_cleared: "k < 256 \<Longrightarrow> get32 (memset m 0 0 LKFS_BLOCK_SIZE) (4 * k) = 0"
  by (rule get32_memset) (auto simp: LKFS_BLOCK_SIZE_def)

lemma read_sector_eq [simp]: "read_sector = read_ptr"
  by (intro ext) (simp add: read_sector_def read_ptr_def ucast_get64)

lemma below_cong: "(p \<noteq> 0 \<Longrightarrow> bufs s' (unat p) = bufs s (unat p)) \<Longrightarrow> below s' p k = below s p k"
  by (simp add: below_def read_ptr_def)

section \<open>Filling a slot\<close>

text \<open>
  Block \<open>n\<close>, free in \<open>s\<close>, is claimed, with nothing else changed that is used and not a
  pointer block of the file.
\<close>

definition grabs :: "lkfs \<Rightarrow> nat \<Rightarrow> nat set \<Rightarrow> lkfs \<Rightarrow> bool" where
  "grabs s n W s' \<longleftrightarrow> n < blocks_count s \<and> data_start s \<le> n \<and> \<not> used_block s n \<and> fs_wf s'
     \<and> same_geometry s s' \<and> (\<forall>k. used_block s' k \<longleftrightarrow> k = n \<or> used_block s k)
     \<and> es s' = (es s)\<lparr>s_free_blocks_count := s_free_blocks_count (es s) - 1\<rparr> \<and> used_ino s' = used_ino s
     \<and> (\<forall>x \<ge> inode_table_offset s. x \<noteq> n \<longrightarrow> x \<notin> W \<longrightarrow> bufs s' x = bufs s x)"

definition fills :: "lkfs \<Rightarrow> inode \<Rightarrow> slot \<Rightarrow> nat \<Rightarrow> lkfs \<Rightarrow> inode \<Rightarrow> bool" where
  "fills s nd a n s' nd' \<longleftrightarrow> grabs s n (metas s nd) s' \<and> valid_slot a \<and> ptr_of s nd a = 0
     \<and> nd' = nd\<lparr>i_data := i_data nd'\<rparr>
     \<and> (\<forall>b. valid_slot b \<longrightarrow> ptr_of s' nd' b = (if b = a then of_nat n else ptr_of s nd b))"

lemma grabsD:
  assumes "grabs s n W s'"
  shows "n < blocks_count s" "data_start s \<le> n" "\<not> used_block s n" "fs_wf s'" "same_geometry s s'"
    "used_block s' k \<longleftrightarrow> k = n \<or> used_block s k"
    "inode_table_offset s \<le> x \<Longrightarrow> x \<noteq> n \<Longrightarrow> x \<notin> W \<Longrightarrow> bufs s' x = bufs s x"
    "es s' = (es s)\<lparr>s_free_blocks_count := s_free_blocks_count (es s) - 1\<rparr>" "used_ino s' = used_ino s"
  using assms by (auto simp: grabs_def)

lemma table_le_data: "inode_table_offset s \<le> data_start s"
  by (simp add: data_start_def)

lemma table_data_trans: "data_start s \<le> x \<Longrightarrow> inode_table_offset s \<le> x"
  using table_le_data [of s] by (rule order_trans)

lemma grabs_number:
  assumes "fs_wf s" "grabs s n W s'"
  shows "unat (of_nat n :: u32) = n" "(of_nat n :: u32) \<noteq> 0"
proof -
  have lt: "n < 8192 * length (s_sbb s)" using grabsD(1) [OF assms(2)] fs_wfD(6) [OF assms(1)] by simp
  show "unat (of_nat n :: u32) = n" by (rule unat_block [OF assms(1) lt])
  show "(of_nat n :: u32) \<noteq> 0" by (rule of_nat_block_neq_0 [OF assms(1) lt grabsD(2) [OF assms(2)]])
qed

lemma imap_wfD:
  assumes "imap_wf s nd"
  shows "valid_slot a \<Longrightarrow> ptr_of s nd a \<noteq> 0 \<Longrightarrow> block_ok s (unat (ptr_of s nd a))"
    "valid_slot a \<Longrightarrow> valid_slot b \<Longrightarrow> a \<noteq> b \<Longrightarrow> ptr_of s nd a \<noteq> 0 \<Longrightarrow> ptr_of s nd a \<noteq> ptr_of s nd b"
  using assms unfolding imap_wf_def by blast+

lemma ptr_neq_fresh:
  assumes "imap_wf s nd" "valid_slot a" "ptr_of s nd a \<noteq> 0" "\<not> used_block s n"
  shows "unat (ptr_of s nd a) \<noteq> n" "data_start s \<le> unat (ptr_of s nd a)"
    "inode_table_offset s \<le> unat (ptr_of s nd a)"
  using imap_wfD(1) [OF assms(1-3)] assms(4) by (auto simp: block_ok_def dest: table_data_trans)

text \<open>Filling a slot with a fresh block keeps the file well-formed.\<close>

lemma fills_imap_wf:
  assumes wf: "fs_wf s" and im: "imap_wf s nd" and f: "fills s nd a n s' nd'"
  shows "imap_wf s' nd'" "metas s' nd' \<subseteq> insert n (metas s nd)"
proof -
  have g: "grabs s n (metas s nd) s'" and va: "valid_slot a"
    and P: "\<And>b. valid_slot b \<Longrightarrow> ptr_of s' nd' b = (if b = a then of_nat n else ptr_of s nd b)"
    using f by (auto simp: fills_def)
  note G = grabsD [OF g] and N = grabs_number [OF wf g] and S = same_geometry_sizes [OF G(5)]
  have ok: "block_ok s' b" if "block_ok s b" for b using that G(6) S by (simp add: block_ok_def)
  have okn: "block_ok s' n" using G S by (simp add: block_ok_def)
  have ne: "of_nat n \<noteq> ptr_of s nd b" if "valid_slot b" for b
    using ptr_neq_fresh(1) [OF im that _ G(3)] N by (cases "ptr_of s nd b = 0") auto
  show "imap_wf s' nd'"
    unfolding imap_wf_def
    using imap_wfD [OF im] ok okn ne N by (simp add: P) (metis ne)
  show "metas s' nd' \<subseteq> insert n (metas s nd)"
    using N(1) by (auto simp: metas_def P split: if_splits)
qed

text \<open>The four ways the code fills a slot, in terms of the buffers that change.\<close>

lemma fill_root:
  assumes wf: "fs_wf s" and im: "imap_wf s nd" and g: "grabs s n {} s'"
    and a: "a = Dir i \<and> i < 21 \<and> r = i \<or> a = IndR \<and> r = 21 \<or> a = DinR \<and> r = 22"
    and z: "i_data nd r = 0"
    and clr: "meta_slot a \<Longrightarrow> \<forall>k < 256. read_ptr s' n k = 0"
  shows "fills s nd a n s' (set_i_data r (of_nat n) nd)"
proof -
  note G = grabsD [OF g] and N = grabs_number [OF wf g]
  have same: "bufs s' (unat (ptr_of s nd b)) = bufs s (unat (ptr_of s nd b))"
    if "valid_slot b" "ptr_of s nd b \<noteq> 0" for b
    using G(7) ptr_neq_fresh [OF im that G(3)] by simp
  have I: "below s' (i_data nd 21) k = below s (i_data nd 21) k" for k
    by (rule below_cong) (use same [of IndR] in simp)
  have D: "below s' (i_data nd 22) k = below s (i_data nd 22) k" for k
    by (rule below_cong) (use same [of DinR] in simp)
  have L: "below s' (below s (i_data nd 22) j) k = below s (below s (i_data nd 22) j) k"
    if "j < 256" for j k
    by (rule below_cong) (use same [of "L1 j"] that in simp)
  have F: "k < 256 \<Longrightarrow> meta_slot a \<Longrightarrow> below s' (of_nat n) k = 0" for k
    using clr N by (simp add: below_def)
  have B0: "below t 0 k = 0" for t k by (simp add: below_def)
  have "grabs s n (metas s nd) s'" using g by (auto simp: grabs_def)
  moreover have "valid_slot a" "ptr_of s nd a = 0" using a z by auto
  moreover have "ptr_of s' (set_i_data r (of_nat n) nd) b = (if b = a then of_nat n else ptr_of s nd b)"
    if "valid_slot b" for b
    using a z that F by (cases b) (auto simp: set_i_data_def I D L B0)
  ultimately show ?thesis by (simp add: fills_def) (simp add: set_i_data_def)
qed


lemma fill_child:
  assumes wf: "fs_wf s" and im: "imap_wf s nd"
    and a: "q = IndR \<and> a = Ind k \<or> q = DinR \<and> a = L1 k \<or> (\<exists>j < 256. q = L1 j \<and> a = L2 j k)"
    and k: "k < 256" and q: "ptr_of s nd q \<noteq> 0" and z: "ptr_of s nd a = 0"
    and g: "grabs s n {unat (ptr_of s nd q)} s'"
    and put: "\<And>j. read_ptr s' (unat (ptr_of s nd q)) j =
      (if j = k then of_nat n else read_ptr s (unat (ptr_of s nd q)) j)"
    and clr: "meta_slot a \<Longrightarrow> \<forall>k < 256. read_ptr s' n k = 0"
  shows "fills s nd a n s' nd"
proof -
  let ?p = "ptr_of s nd q"
  note G = grabsD [OF g] and N = grabs_number [OF wf g]
  have vq: "valid_slot q" "meta_slot q" and va: "valid_slot a" using a k by auto
  have same: "bufs s' (unat (ptr_of s nd b)) = bufs s (unat (ptr_of s nd b))"
    if "valid_slot b" "ptr_of s nd b \<noteq> 0" "b \<noteq> q" for b
  proof -
    have "ptr_of s nd b \<noteq> ?p" by (rule imap_wfD(2) [OF im that(1) vq(1) that(3,2)])
    then have "unat (ptr_of s nd b) \<noteq> unat ?p" by (simp add: word_unat_eq_iff)
    then show ?thesis using G(7) ptr_neq_fresh [OF im that(1,2) G(3)] by simp
  qed
  have P: "below s' ?p j = (if j = k then of_nat n else below s ?p j)" for j
    using q put by (simp add: below_def)
  have I: "below s' (i_data nd 21) j = below s (i_data nd 21) j" if "q \<noteq> IndR" for j
    by (rule below_cong) (use same [of IndR] that in auto)
  have D: "below s' (i_data nd 22) j = below s (i_data nd 22) j" if "q \<noteq> DinR" for j
    by (rule below_cong) (use same [of DinR] that in auto)
  have L: "below s' (below s (i_data nd 22) i) j = below s (below s (i_data nd 22) i) j"
    if "i < 256" "q \<noteq> L1 i" for i j
    by (rule below_cong) (use same [of "L1 i"] that in auto)
  have F: "j < 256 \<Longrightarrow> meta_slot a \<Longrightarrow> below s' (of_nat n) j = 0" for j
    using clr N by (simp add: below_def)
  have B0: "below t 0 j = 0" for t j by (simp add: below_def)
  have "unat ?p \<in> metas s nd" using vq q by (auto simp: metas_def)
  then have "grabs s n (metas s nd) s'" using g by (auto simp: grabs_def)
  moreover have "ptr_of s' nd b = (if b = a then of_nat n else ptr_of s nd b)"
    if "valid_slot b" for b
    using a
  proof (elim disjE exE conjE)
    assume "q = IndR" "a = Ind k"
    with P D L z that show ?thesis by (cases b) auto
  next
    assume "q = DinR" "a = L1 k"
    with P I L F z that B0 show ?thesis by (cases b) auto
  next
    fix j assume j: "j < 256" "q = L1 j" "a = L2 j k"
    have LL: "below s' (below s (i_data nd 22) i) l =
        (if i = j \<and> l = k then of_nat n else below s (below s (i_data nd 22) i) l)"
      if "i < 256" for i l
      using P [of l] L [of i l] that j by (cases "i = j") simp_all
    from j I D z that show ?thesis by (cases b) (simp_all add: LL)
  qed
  ultimately show ?thesis using va z by (simp add: fills_def)
qed

section \<open>The allocation steps of the code\<close>

lemma claim_grabs:
  assumes wf: "fs_wf s" and K: "bits_spec K" and n: "lowest_free s n" "n < blocks_count s"
  shows "grabs s n {} (claim_block K n s)"
proof -
  have lt: "n < 8192 * length (s_sbb s)" using n(1) by (simp add: lowest_free_def)
  have "bufs (claim_block K n s) x = bufs s x" if "inode_table_offset s \<le> x" for x
    unfolding claim_block_def
  proof (rule flip_block_facts(3) [OF wf lt])
    show "x \<noteq> 1" "x \<notin> set (s_sbb s)"
      using that fs_wf_sets(3) [OF wf] fs_wfD(13) [OF wf] by fastforce+
  qed
  moreover have "es (claim_block K n s) = (es s)\<lparr>s_free_blocks_count := s_free_blocks_count (es s) - 1\<rparr>"
    "used_ino (claim_block K n s) = used_ino s"
    using flip_block_facts(1,6) [OF wf lt] by (simp_all add: claim_block_def)
  moreover have "same_geometry s (claim_block K n s)"
    unfolding claim_block_def by (rule flip_block_facts(2) [OF wf lt])
  ultimately show ?thesis
    using n lowest_free_ge_data [OF wf n(1)] claim_block_wf [OF wf K lt] claim_block_used [OF wf K lt]
    by (auto simp: grabs_def lowest_free_def)
qed

text \<open>Writing into a buffer of the data area keeps the metadata of the volume.\<close>

lemma set_buf_data:
  assumes wf: "fs_wf s" and b: "data_start s \<le> b"
  shows "used_block (set_buf b m s) = used_block s" "same_geometry s (set_buf b m s)"
    "fs_wf (set_buf b m s)" "es (set_buf b m s) = es s" "used_ino (set_buf b m s) = used_ino s"
proof -
  have nb: "b \<noteq> 1" "b \<notin> set (s_sbb s)" "b \<notin> set (s_sib s)"
    using b fs_wf_sets(3,4) [OF wf] fs_wfD(12,13) [OF wf] by fastforce+
  show "es (set_buf b m s) = es s" using nb fs_wfD(1) [OF wf] by simp
  show "used_ino (set_buf b m s) = used_ino s"
    unfolding used_ino_def set_buf_sel by (rule used_bit_agree) (use nb in auto)
  show u: "used_block (set_buf b m s) = used_block s"
    unfolding used_block_def set_buf_sel by (rule used_bit_agree) (use nb in auto)
  show g: "same_geometry s (set_buf b m s)"
    using nb fs_wfD(1) [OF wf] by (simp add: same_geometry_def)
  show "fs_wf (set_buf b m s)" by (rule fs_wf_step [OF wf g]) (simp add: u)
qed

lemma mark_dirty_same [simp]:
  "used_block (mark_buffer_dirty b s) = used_block s" "same_geometry s (mark_buffer_dirty b s)"
  "fs_wf (mark_buffer_dirty b s) = fs_wf s" "used_ino (mark_buffer_dirty b s) = used_ino s"
  by (auto simp: used_block_def used_ino_def same_geometry_def fs_wf_def blocks_count_def inodes_count_def
      data_start_def)

lemma grabs_set_buf:
  assumes g: "grabs s n W s'" and b: "data_start s \<le> b"
  shows "grabs s n (insert b W) (set_buf b m s')"
proof -
  note G = grabsD [OF g]
  have "data_start s' \<le> b" using b same_geometry_sizes [OF G(5)] by simp
  note S = set_buf_data [OF G(4) this]
  show ?thesis
    using g S same_geometry_trans [OF G(5) S(2)] by (auto simp: grabs_def)
qed

lemma grabs_dirty: "grabs s n W s' \<Longrightarrow> grabs s n W (mark_buffer_dirty b s')"
  using same_geometry_trans [OF _ mark_dirty_same(2)] by (auto simp: grabs_def)

lemma grabs_clear:
  assumes g: "grabs s n W s'"
  shows "grabs s n W (clear_block n s')" "k < 256 \<Longrightarrow> read_ptr (clear_block n s') n k = 0"
proof -
  have "grabs s n (insert n W) (clear_block n s')"
    unfolding clear_block_def by (rule grabs_set_buf [OF g grabsD(2) [OF g]])
  then show "grabs s n W (clear_block n s')" by (auto simp: grabs_def)
  show "k < 256 \<Longrightarrow> read_ptr (clear_block n s') n k = 0"
    by (simp add: read_ptr_def clear_block_def get32_cleared)
qed

lemma grabs_link:
  assumes g: "grabs s n {} s'" and b: "data_start s \<le> b" "b \<noteq> n"
  shows "grabs s n {b} (link_block b k n s')"
    "read_ptr (link_block b k n s') b j = (if j = k then of_nat n else read_ptr s b j)"
proof -
  show "grabs s n {b} (link_block b k n s')"
    unfolding link_block_def using grabs_set_buf [OF g b(1)] by (intro grabs_dirty) simp
  have "bufs s' b = bufs s b" by (rule grabsD(7) [OF g table_data_trans [OF b(1)] b(2)]) simp
  then show "read_ptr (link_block b k n s') b j = (if j = k then of_nat n else read_ptr s b j)"
    by (simp add: read_ptr_def link_block_def get32_put32_slot)
qed


lemma free_block_exists:
  assumes "fs_wf s" "0 < free_blocks s"
  shows "\<exists>n < blocks_count s. lowest_free s n"
proof -
  have "{b. b < blocks_count s \<and> \<not> used_block s b} \<noteq> {}"
    using assms(2) unfolding free_blocks_def by (metis card.empty less_irrefl)
  then obtain b where b: "b < blocks_count s" "\<not> used_block s b" by auto
  then have "b < 8192 * length (s_sbb s)" using fs_wfD(6) [OF assms(1)] by simp
  from lowest_free_exists [OF this b(2)] b(1) show ?thesis using le_less_trans by blast
qed

lemma grabs_free:
  assumes g: "grabs s n W s'"
  shows "free_blocks s = Suc (free_blocks s')"
proof -
  note G = grabsD [OF g]
  have "{b. b < blocks_count s \<and> \<not> used_block s b}
      = insert n {b. b < blocks_count s \<and> \<not> used_block s' b}"
    using G by auto
  then show ?thesis
    using G(6) by (simp add: free_blocks_def same_geometry_sizes(1) [OF G(5)])
qed

lemma new_blocks_step:
  assumes "fs_wf s" "bits_spec K" "0 < free_blocks s"
  shows "\<exists>n s'. lkfs_new_blocks K s = Inr (of_nat n, s') \<and> grabs s n {} s'"
  using free_block_exists [OF assms(1,3)] lkfs_new_blocks_run(1) [OF assms(1,2)]
    claim_grabs [OF assms(1,2)] by (meson less_imp_le)

lemma new_ind_step:
  assumes "fs_wf s" "bits_spec K" "0 < free_blocks s"
  shows "\<exists>n s'. lkfs_new_ind_blocks K b k s = Inr (of_nat n, link_block b k n s') \<and> grabs s n {} s'"
  using free_block_exists [OF assms(1,3)] lkfs_new_ind_blocks_run(1) [OF assms(1,2)]
    claim_grabs [OF assms(1,2)] by (meson less_imp_le)

lemma root_step:
  assumes wf: "fs_wf s" and K: "bits_spec K" and free: "0 < free_blocks s" and im: "imap_wf s nd"
    and a: "a = Dir i \<and> i < 21 \<and> r = i \<or> a = IndR \<and> r = 21 \<or> a = DinR \<and> r = 22"
    and z: "i_data nd r = 0"
  shows "\<exists>n s'. lkfs_new_blocks K s = Inr (of_nat n, s') \<and> grabs s n {} s'
    \<and> fills s nd a n (if meta_slot a then clear_block n s' else s') (set_i_data r (of_nat n) nd)"
proof -
  obtain n s' where n: "lkfs_new_blocks K s = Inr (of_nat n, s')" and g: "grabs s n {} s'"
    using new_blocks_step [OF wf K free] by blast
  have "fills s nd a n (if meta_slot a then clear_block n s' else s') (set_i_data r (of_nat n) nd)"
    by (rule fill_root [OF wf im _ a z]) (auto simp: g grabs_clear [OF g])
  with n g show ?thesis by blast
qed

lemma child_step:
  assumes wf: "fs_wf s" and K: "bits_spec K" and free: "0 < free_blocks s" and im: "imap_wf s nd"
    and a: "q = IndR \<and> a = Ind k \<or> q = DinR \<and> a = L1 k \<or> (\<exists>j < 256. q = L1 j \<and> a = L2 j k)"
    and k: "k < 256" and q: "ptr_of s nd q \<noteq> 0" and z: "ptr_of s nd a = 0"
  shows "\<exists>n s'. lkfs_new_ind_blocks K (unat (ptr_of s nd q)) k s = Inr (of_nat n, s')
    \<and> grabs s n {unat (ptr_of s nd q)} s' \<and> fills s nd a n (if meta_slot a then clear_block n s' else s') nd"
proof -
  let ?p = "unat (ptr_of s nd q)"
  obtain n t where n: "lkfs_new_ind_blocks K ?p k s = Inr (of_nat n, link_block ?p k n t)"
    and g: "grabs s n {} t"
    using new_ind_step [OF wf K free] by blast
  have vq: "valid_slot q" using a k by auto
  note p = ptr_neq_fresh [OF im vq q grabsD(3) [OF g]]
  note L = grabs_link [OF g p(2,1)]
  have keep: "read_ptr (clear_block n (link_block ?p k n t)) ?p j = read_ptr (link_block ?p k n t) ?p j" for j
    using p(1) by (simp add: read_ptr_def clear_block_def)
  have "fills s nd a n (if meta_slot a then clear_block n (link_block ?p k n t)
      else link_block ?p k n t) nd"
    by (rule fill_child [OF wf im a k q z])
       (auto simp: L(1) grabs_clear [OF L(1)] keep L(2))
  with n L(1) show ?thesis by blast
qed

section \<open>Chains of filled slots\<close>

fun fill_chain :: "lkfs \<Rightarrow> inode \<Rightarrow> slot list \<Rightarrow> lkfs \<Rightarrow> inode \<Rightarrow> bool" where
  "fill_chain s nd [] s' nd' = (s' = s \<and> nd' = nd)"
| "fill_chain s nd (a # as) s' nd' = (\<exists>n t nt. fills s nd a n t nt \<and> fill_chain t nt as s' nd')"

lemma fillsD:
  assumes "fills s nd a n s' nd'"
  shows "grabs s n (metas s nd) s'" "valid_slot a" "ptr_of s nd a = 0"
    "valid_slot b \<Longrightarrow> ptr_of s' nd' b = (if b = a then of_nat n else ptr_of s nd b)"
    "nd' = nd\<lparr>i_data := i_data nd'\<rparr>"
  using assms unfolding fills_def by blast+

lemma fill_chain_Cons:
  "fills s nd a n t nt \<Longrightarrow> fill_chain t nt as s' nd' \<Longrightarrow> fill_chain s nd (a # as) s' nd'"
  by auto

definition chain_kept :: "lkfs \<Rightarrow> inode \<Rightarrow> slot list \<Rightarrow> lkfs \<Rightarrow> inode \<Rightarrow> bool" where
  "chain_kept s nd as s' nd' \<longleftrightarrow> fs_wf s' \<and> imap_wf s' nd' \<and> same_geometry s s'
     \<and> nd' = nd\<lparr>i_data := i_data nd'\<rparr> \<and> distinct as
     \<and> (\<forall>x. used_block s' x \<longleftrightarrow> used_block s x \<or> x \<in> (\<lambda>a. unat (ptr_of s' nd' a)) ` set as)
     \<and> (\<forall>b. valid_slot b \<longrightarrow> b \<notin> set as \<longrightarrow> ptr_of s' nd' b = ptr_of s nd b)
     \<and> (\<forall>b \<in> set as. valid_slot b \<and> ptr_of s nd b = 0 \<and> ptr_of s' nd' b \<noteq> 0
          \<and> \<not> used_block s (unat (ptr_of s' nd' b)))
     \<and> (\<forall>x \<ge> inode_table_offset s. used_block s x \<longrightarrow> x \<notin> metas s nd \<longrightarrow> bufs s' x = bufs s x)
     \<and> es s' = (es s)\<lparr>s_free_blocks_count := s_free_blocks_count (es s) - of_nat (length as)\<rparr>
     \<and> used_ino s' = used_ino s \<and> free_blocks s = free_blocks s' + length as"

lemma chain_keptD:
  assumes "chain_kept s nd as s' nd'"
  shows "fs_wf s'" "imap_wf s' nd'" "same_geometry s s'" "nd' = nd\<lparr>i_data := i_data nd'\<rparr>" "distinct as"
    "used_block s' x \<longleftrightarrow> used_block s x \<or> x \<in> (\<lambda>a. unat (ptr_of s' nd' a)) ` set as"
    "valid_slot b \<Longrightarrow> b \<notin> set as \<Longrightarrow> ptr_of s' nd' b = ptr_of s nd b"
    "b \<in> set as \<Longrightarrow> valid_slot b \<and> ptr_of s nd b = 0 \<and> ptr_of s' nd' b \<noteq> 0 \<and> \<not> used_block s (unat (ptr_of s' nd' b))"
    "inode_table_offset s \<le> x \<Longrightarrow> used_block s x \<Longrightarrow> x \<notin> metas s nd \<Longrightarrow> bufs s' x = bufs s x"
    "es s' = (es s)\<lparr>s_free_blocks_count := s_free_blocks_count (es s) - of_nat (length as)\<rparr>"
    "used_ino s' = used_ino s" "free_blocks s = free_blocks s' + length as"
  using assms unfolding chain_kept_def by blast+

lemma fill_chain_kept:
  assumes "fill_chain s nd as s' nd'" "fs_wf s" "imap_wf s nd"
  shows "chain_kept s nd as s' nd'"
  using assms
proof (induction as arbitrary: s nd)
  case Nil
  then show ?case by (simp add: chain_kept_def)
next
  case (Cons a as)
  then obtain n t nt where f: "fills s nd a n t nt" and c: "fill_chain t nt as s' nd'" by auto
  note F = fillsD [OF f] and W = fills_imap_wf [OF Cons.prems(2,3) f]
  note G = grabsD [OF F(1)] and N = grabs_number [OF Cons.prems(2) F(1)]
  have "chain_kept t nt as s' nd'" by (rule Cons.IH [OF c G(4) W(1)])
  note k = chain_keptD [OF this]
  have na: "a \<notin> set as" using k(8) [of a] F(2,4) N(2) by auto
  have pa: "ptr_of s' nd' a = of_nat n" using k(7) [OF F(2) na] F(4) [OF F(2)] by simp
  have "nd' = nd\<lparr>i_data := i_data nd'\<rparr>"
  proof -
    have "nd' = (nd\<lparr>i_data := i_data nt\<rparr>)\<lparr>i_data := i_data nd'\<rparr>" using k(4) F(5) by metis
    then show ?thesis by simp
  qed
  moreover have "same_geometry s s'" by (rule same_geometry_trans [OF G(5) k(3)])
  moreover have "bufs s' x = bufs s x"
    if x: "inode_table_offset s \<le> x" "used_block s x" "x \<notin> metas s nd" for x
  proof -
    have xn: "x \<noteq> n" using x(2) G(3) by blast
    then have "x \<notin> metas t nt" using x(3) W(2) by blast
    then have "bufs s' x = bufs t x" using k(9) x G(6) same_geometry_sizes [OF G(5)] by simp
    also have "\<dots> = bufs s x" by (rule G(7) [OF x(1) xn x(3)])
    finally show ?thesis .
  qed
  moreover have "valid_slot b \<and> ptr_of s nd b = 0 \<and> ptr_of s' nd' b \<noteq> 0
      \<and> \<not> used_block s (unat (ptr_of s' nd' b))" if b: "b \<in> set (a # as)" for b
  proof (cases "b = a")
    case True
    then show ?thesis using F(2,3) N G(3) by (simp add: pa)
  next
    case False
    with b have "b \<in> set as" by simp
    from k(8) [OF this] F(4) [of b] False G(6) show ?thesis by simp
  qed
  moreover have "used_block s' x \<longleftrightarrow> used_block s x \<or> x \<in> (\<lambda>a. unat (ptr_of s' nd' a)) ` set (a # as)" for x
    using k(6) [of x] G(6) N(1) pa by auto
  moreover have "ptr_of s' nd' b = ptr_of s nd b" if "valid_slot b" "b \<notin> set (a # as)" for b
    using k(7) that F(4) by simp
  moreover have "es s' = (es s)\<lparr>s_free_blocks_count := s_free_blocks_count (es s) - of_nat (length (a # as))\<rparr>"
    using k(10) G(8) by (simp add: algebra_simps)
  moreover have "free_blocks s = free_blocks s' + length (a # as)" using k(12) grabs_free [OF F(1)] by simp
  ultimately show ?case using k(1,2,5,11) na G(9) unfolding chain_kept_def
    by (intro conjI allI ballI impI) (assumption | simp only: distinct.simps simp_thms)+
qed

section \<open>Changes that are marked\<close>

text \<open>
  Every buffer an operation changes is marked dirty, and the bitmap buffers stay the same. A pointer block is cleared without a mark; the
  entry written into it right afterwards marks it.
\<close>

definition tracked :: "lkfs \<Rightarrow> lkfs \<Rightarrow> bool" where
  "tracked s s' \<longleftrightarrow> dirty s \<subseteq> dirty s' \<and> (\<forall>b. b \<notin> dirty s' \<longrightarrow> bufs s' b = bufs s b)
     \<and> s_sib s' = s_sib s"

lemma tracked_refl [simp]: "tracked s s"
  by (simp add: tracked_def)

lemma tracked_trans: "tracked s t \<Longrightarrow> tracked t u \<Longrightarrow> tracked s u"
  by (auto simp: tracked_def)

lemma bufs_set_free: "bufs (set_free_blocks v s) = (bufs s)(s_sbh s := put32 (bufs s (s_sbh s)) 8 v)"
  "bufs (set_free_inodes v s) = (bufs s)(s_sbh s := put32 (bufs s (s_sbh s)) 12 v)"
  by (simp_all add: set_free_blocks_def set_free_inodes_def)

lemma tracked_new_blocks: "lkfs_new_blocks K s = Inr (b, s') \<Longrightarrow> tracked s s'"
  by (auto simp: lkfs_new_blocks_def rbind_eq_Inr Let_def bufs_set_free tracked_def split: if_splits)

lemma tracked_new_ind_blocks: "lkfs_new_ind_blocks K bh k s = Inr (b, s') \<Longrightarrow> tracked s s'"
  by (auto simp: lkfs_new_ind_blocks_def rbind_eq_Inr Let_def bufs_set_free tracked_def split: if_splits)

lemma tracked_clear_link:
  "lkfs_new_ind_blocks K bh k (clear_block bh s) = Inr (b, s') \<Longrightarrow> b \<noteq> 0 \<Longrightarrow> tracked s s'"
  by (auto simp: lkfs_new_ind_blocks_def rbind_eq_Inr Let_def bufs_set_free tracked_def clear_block_def
      split: if_splits)

section \<open>The code fills the holes on the path\<close>

definition ready :: "'k kernel_scheme \<Rightarrow> lkfs \<Rightarrow> inode \<Rightarrow> bool" where
  "ready K s nd \<longleftrightarrow> fs_wf s \<and> bits_spec K \<and> readable K s \<and> imap_wf s nd"

definition path :: "nat \<Rightarrow> slot list" where
  "path ib = (if ib < 21 then [Dir ib] else if ib < 277 then [IndR, Ind (ib - 21)]
     else [DinR, L1 ((ib - 277) div 256), L2 ((ib - 277) div 256) ((ib - 277) mod 256)])"

definition holes :: "lkfs \<Rightarrow> inode \<Rightarrow> slot list \<Rightarrow> slot list" where
  "holes s nd as = filter (\<lambda>a. ptr_of s nd a = 0) as"

lemma fills_ready:
  assumes "ready K s nd" "fills s nd a n s' nd'"
  shows "ready K s' nd'" "free_blocks s = Suc (free_blocks s')"
    "unat (of_nat n :: u32) = n" "(of_nat n :: u32) \<noteq> 0" "k_bread_ok K n"
proof -
  have r: "fs_wf s" "bits_spec K" "readable K s" "imap_wf s nd" using assms(1) by (simp_all add: ready_def)
  note G = grabsD [OF fillsD(1) [OF assms(2)]]
  show "ready K s' nd'"
    using r fills_imap_wf(1) [OF r(1,4) assms(2)] G(4) same_geometry_sizes(1) [OF G(5)]
    by (simp add: ready_def readable_def)
  show "free_blocks s = Suc (free_blocks s')" by (rule grabs_free [OF fillsD(1) [OF assms(2)]])
  show "unat (of_nat n :: u32) = n" "(of_nat n :: u32) \<noteq> 0"
    by (rule grabs_number [OF r(1) fillsD(1) [OF assms(2)]])+
  show "k_bread_ok K n" using r(3) G(1) by (simp add: readable_def)
qed

lemma bread_ptr:
  assumes "ready K s nd" "valid_slot a" "ptr_of s nd a \<noteq> 0"
  shows "deref (sb_bread K (unat (ptr_of s nd a))) = Inr (unat (ptr_of s nd a))"
  using imap_wfD(1) [OF _ assms(2,3)] assms(1)
  by (auto simp: ready_def readable_def block_ok_def sb_bread_def)

lemma root_ready:
  assumes "ready K s nd" "0 < free_blocks s" "i_data nd r = 0"
    and "a = Dir i \<and> i < 21 \<and> r = i \<or> a = IndR \<and> r = 21 \<or> a = DinR \<and> r = 22"
  shows "\<exists>n s'. lkfs_new_blocks K s = Inr (of_nat n, s')
    \<and> fills s nd a n (if meta_slot a then clear_block n s' else s') (set_i_data r (of_nat n) nd)"
  using root_step [OF _ _ assms(2) _ assms(4,3), where K = K] assms(1) unfolding ready_def by blast

lemma child_ready:
  assumes "ready K s nd" "0 < free_blocks s"
    and "q = IndR \<and> a = Ind k \<or> q = DinR \<and> a = L1 k \<or> (\<exists>j < 256. q = L1 j \<and> a = L2 j k)"
    and "k < 256" "ptr_of s nd q \<noteq> 0" "ptr_of s nd a = 0"
  shows "\<exists>n s'. lkfs_new_ind_blocks K (unat (ptr_of s nd q)) k s = Inr (of_nat n, s')
    \<and> fills s nd a n (if meta_slot a then clear_block n s' else s') nd"
  using child_step [OF _ _ assms(2) _ assms(3-6), where K = K] assms(1) unfolding ready_def by blast

lemma get_direct_run:
  assumes r: "ready K s nd" and i: "i < 21" and f: "length (holes s nd [Dir i]) \<le> free_blocks s"
  shows "\<exists>s' nd'. get_direct K nd i s = Inr (1, Some (ptr_of s' nd' (Dir i)), nd', s')
    \<and> fill_chain s nd (holes s nd [Dir i]) s' nd' \<and> tracked s s'"
proof (cases "i_data nd i = 0")
  case False
  then show ?thesis by (simp add: get_direct_def holes_def)
next
  case True
  with f have "0 < free_blocks s" by (simp add: holes_def)
  from root_ready [OF r this True, of "Dir i" i] i obtain n s' where
    n: "lkfs_new_blocks K s = Inr (of_nat n, s')" and F: "fills s nd (Dir i) n s' (set_i_data i (of_nat n) nd)"
    by auto
  then show ?thesis using fills_ready [OF r F] True tracked_new_blocks [OF n]
    by (auto simp: get_direct_def holes_def set_i_data_def)
qed

lemma get_indirect_run:
  assumes r: "ready K s nd" and k: "k < 256" and f: "length (holes s nd [IndR, Ind k]) \<le> free_blocks s"
  shows "\<exists>s' nd'. get_indirect K nd k s = Inr (1, Some (ptr_of s' nd' (Ind k)), nd', s')
    \<and> fill_chain s nd (holes s nd [IndR, Ind k]) s' nd' \<and> tracked s s'"
proof (cases "i_data nd 21 = 0")
  case False
  note b = bread_ptr [OF r, of IndR, simplified, OF False]
  show ?thesis
  proof (cases "ptr_of s nd (Ind k) = 0")
    case True
    with f False have "0 < free_blocks s" by (simp add: holes_def)
    from child_ready [OF r this, of IndR "Ind k" k] k False True obtain n s' where
      n: "lkfs_new_ind_blocks K (unat (i_data nd 21)) k s = Inr (of_nat n, s')"
      and F: "fills s nd (Ind k) n s' nd" by auto
    have "ptr_of s' nd (Ind k) = of_nat n" using fillsD(4) [OF F, of "Ind k"] k by simp
    with n b False True F tracked_new_ind_blocks [OF n] show ?thesis
      by (intro exI [of _ s'] exI [of _ nd])
         (auto simp: get_indirect_def holes_def Let_def block_indices below_def)
  next
    case False2: False
    with False b show ?thesis
      by (auto simp: get_indirect_def holes_def Let_def block_indices below_def)
  qed
next
  case True
  then have h: "holes s nd [IndR, Ind k] = [IndR, Ind k]" by (simp add: holes_def below_def)
  with f have f2: "2 \<le> free_blocks s" by simp
  then have "0 < free_blocks s" by simp
  from root_ready [OF r this True, of IndR] obtain n s1 where
    n: "lkfs_new_blocks K s = Inr (of_nat n, s1)"
    and F: "fills s nd IndR n (clear_block n s1) (set_i_data 21 (of_nat n) nd)" by auto
  let ?s2 = "clear_block n s1" and ?nd = "set_i_data 21 (of_nat n) nd"
  note R = fills_ready [OF r F]
  have q: "ptr_of ?s2 ?nd IndR = of_nat n" by (simp add: set_i_data_def)
  have z: "ptr_of ?s2 ?nd (Ind k) = 0"
    using fillsD(4) [OF F, of "Ind k"] k True by (simp add: below_def)
  have "0 < free_blocks ?s2" using R(2) f2 by simp
  from child_ready [OF R(1) this, of IndR "Ind k" k] k q z R(3,4) obtain m s3 where
    m: "lkfs_new_ind_blocks K n k ?s2 = Inr (of_nat m, s3)"
    and F2: "fills ?s2 ?nd (Ind k) m s3 ?nd" by auto
  have "tracked s s3"
    using tracked_trans [OF tracked_new_blocks [OF n] tracked_clear_link [OF m fills_ready(4) [OF R(1) F2]]] .
  moreover have "ptr_of s3 ?nd (Ind k) = of_nat m" using fillsD(4) [OF F2, of "Ind k"] k by simp
  moreover have "get_indirect K nd k s = Inr (1, Some (of_nat m), ?nd, s3)"
    using n m True R(3,5) by (simp add: get_indirect_def block_indices Let_def set_i_data_def sb_bread_def)
  ultimately show ?thesis using F F2 h by (intro exI [of _ s3] exI [of _ ?nd]) auto
qed


lemma leaf_ready:
  assumes r: "ready K s nd" and jk: "j < 256" "k < 256" and q: "ptr_of s nd (L1 j) \<noteq> 0"
    and z: "ptr_of s nd (L2 j k) = 0" and f: "0 < free_blocks s"
  shows "\<exists>n s'. lkfs_new_ind_blocks K (unat (ptr_of s nd (L1 j))) k s = Inr (of_nat n, s')
    \<and> fills s nd (L2 j k) n s' nd \<and> ptr_of s' nd (L2 j k) = of_nat n \<and> (of_nat n :: u32) \<noteq> 0"
proof -
  have "\<exists>i < 256. L1 j = L1 i \<and> L2 j k = L2 i k" using jk by blast
  then obtain n s' where "lkfs_new_ind_blocks K (unat (ptr_of s nd (L1 j))) k s = Inr (of_nat n, s')"
    and F: "fills s nd (L2 j k) n s' nd"
    using child_ready [OF r f _ jk(2) q z] by auto
  moreover have "ptr_of s' nd (L2 j k) = of_nat n" using fillsD(4) [OF F, of "L2 j k"] jk by simp
  moreover note fills_ready(4) [OF r F]
  ultimately show ?thesis by blast
qed

lemma middle_ready:
  assumes r: "ready K s nd" and jk: "j < 256" "k < 256" and q: "ptr_of s nd DinR \<noteq> 0"
    and z: "ptr_of s nd (L1 j) = 0" and f: "2 \<le> free_blocks s"
  shows "\<exists>n t m s'. lkfs_new_ind_blocks K (unat (ptr_of s nd DinR)) j s = Inr (of_nat n, t)
    \<and> unat (of_nat n :: u32) = n \<and> k_bread_ok K n
    \<and> lkfs_new_ind_blocks K n k (clear_block n t) = Inr (of_nat m, s')
    \<and> fill_chain s nd [L1 j, L2 j k] s' nd \<and> ptr_of s' nd (L2 j k) = of_nat m
    \<and> (of_nat n :: u32) \<noteq> 0 \<and> tracked t s'"
proof -
  have f0: "0 < free_blocks s" using f by simp
  from child_ready [OF r f0 _ jk(1) q z] obtain n t where
    n: "lkfs_new_ind_blocks K (unat (ptr_of s nd DinR)) j s = Inr (of_nat n, t)"
    and F: "fills s nd (L1 j) n (clear_block n t) nd" by auto
  note R = fills_ready [OF r F]
  let ?t = "clear_block n t"
  have p: "ptr_of ?t nd (L1 j) = of_nat n" using fillsD(4) [OF F, of "L1 j"] jk by simp
  have "ptr_of ?t nd (L2 j k) = ptr_of s nd (L2 j k)" using fillsD(4) [OF F, of "L2 j k"] jk by simp
  also have "\<dots> = 0" using z by (simp add: below_def)
  finally have z2: "ptr_of ?t nd (L2 j k) = 0" .
  have "0 < free_blocks ?t" using R(2) f by simp
  from leaf_ready [OF R(1) jk _ z2 this] p R(3,4) obtain m s' where
    m: "lkfs_new_ind_blocks K n k ?t = Inr (of_nat m, s')" and "fills ?t nd (L2 j k) m s' nd"
    "ptr_of s' nd (L2 j k) = of_nat m" "(of_nat m :: u32) \<noteq> 0" unfolding p by auto
  with n F R(3-5) tracked_clear_link [OF m] show ?thesis
    by (intro exI [of _ n] exI [of _ t] exI [of _ m] exI [of _ s']) auto
qed

lemma get_dindirect_run:
  fixes ib :: nat
  defines "j \<equiv> ib div 256" and "k \<equiv> ib mod 256"
  assumes r: "ready K s nd" and i: "ib < 65536"
    and f: "length (holes s nd [DinR, L1 j, L2 j k]) \<le> free_blocks s"
  shows "\<exists>s' nd'. get_dindirect K nd ib s = Inr (1, Some (ptr_of s' nd' (L2 j k)), nd', s')
    \<and> fill_chain s nd (holes s nd [DinR, L1 j, L2 j k]) s' nd' \<and> tracked s s'"
proof -
  have jk: "j < 256" "k < 256" using i by (auto simp: j_def k_def less_mult_imp_div_less)
  have o12: "ib div 2 ^ 8 = j" "ib div 256 = j" "ib mod 256 = k" by (simp_all add: j_def k_def)
  consider (root) "ptr_of s nd DinR = 0" | (mid) "ptr_of s nd DinR \<noteq> 0" "ptr_of s nd (L1 j) = 0"
    | (leaf) "ptr_of s nd DinR \<noteq> 0" "ptr_of s nd (L1 j) \<noteq> 0" "ptr_of s nd (L2 j k) = 0"
    | (full) "ptr_of s nd DinR \<noteq> 0" "ptr_of s nd (L1 j) \<noteq> 0" "ptr_of s nd (L2 j k) \<noteq> 0" by blast
  then show ?thesis
  proof cases
    case root
    then have h: "holes s nd [DinR, L1 j, L2 j k] = [DinR, L1 j, L2 j k]"
      by (simp add: holes_def below_def)
    with f have f3: "3 \<le> free_blocks s" by simp
    then have f0: "0 < free_blocks s" by simp
    from root_ready [OF r f0, of 22 DinR] root obtain n s1 where
      n: "lkfs_new_blocks K s = Inr (of_nat n, s1)"
      and F: "fills s nd DinR n (clear_block n s1) (set_i_data 22 (of_nat n) nd)" by auto
    let ?s2 = "clear_block n s1" and ?nd = "set_i_data 22 (of_nat n) nd"
    note R = fills_ready [OF r F]
    have p: "ptr_of ?s2 ?nd DinR = of_nat n" by (simp add: set_i_data_def)
    have z: "ptr_of ?s2 ?nd (L1 j) = 0" using fillsD(4) [OF F, of "L1 j"] jk root by (simp add: below_def)
    have f2: "2 \<le> free_blocks ?s2" using R(2) f3 by simp
    from middle_ready [OF R(1) jk, unfolded p R(3), OF R(4) z f2] obtain m t l s' where *:
      "lkfs_new_ind_blocks K n j ?s2 = Inr (of_nat m, t)" "unat (of_nat m :: u32) = m" "k_bread_ok K m"
      "lkfs_new_ind_blocks K m k (clear_block m t) = Inr (of_nat l, s')"
      "fill_chain ?s2 ?nd [L1 j, L2 j k] s' ?nd" "ptr_of s' ?nd (L2 j k) = of_nat l"
      "(of_nat m :: u32) \<noteq> 0" "tracked t s'"
      by blast
    have "tracked s s'"
      using tracked_trans [OF tracked_trans [OF tracked_new_blocks [OF n] tracked_clear_link [OF *(1,7)]] *(8)] .
    moreover from * have "get_dindirect K nd ib s = Inr (1, Some (of_nat l), ?nd, s')"
      using n root R(3,5) by (simp add: get_dindirect_def block_indices Let_def sb_bread_def o12)
    moreover have "fill_chain s nd (holes s nd [DinR, L1 j, L2 j k]) s' ?nd"
      unfolding h by (rule fill_chain_Cons [OF F *(5)])
    ultimately show ?thesis using *(6) by (intro exI [of _ s'] exI [of _ ?nd]) simp
  next
    case mid
    then have h: "holes s nd [DinR, L1 j, L2 j k] = [L1 j, L2 j k]" by (simp add: holes_def below_def)
    with f have "2 \<le> free_blocks s" by simp
    from middle_ready [OF r jk mid this] obtain n t m s' where *:
      "lkfs_new_ind_blocks K (unat (ptr_of s nd DinR)) j s = Inr (of_nat n, t)"
      "unat (of_nat n :: u32) = n" "k_bread_ok K n"
      "lkfs_new_ind_blocks K n k (clear_block n t) = Inr (of_nat m, s')"
      "fill_chain s nd [L1 j, L2 j k] s' nd" "ptr_of s' nd (L2 j k) = of_nat m" "tracked t s'" by blast
    have "tracked s s'" using tracked_trans [OF tracked_new_ind_blocks [OF *(1)] *(7)] .
    have "read_ptr s (unat (i_data nd 22)) j = 0" using mid by (simp add: below_def)
    with * mid bread_ptr [OF r, of DinR]
    have "get_dindirect K nd ib s = Inr (1, Some (of_nat m), nd, s')"
      by (simp add: get_dindirect_def block_indices Let_def sb_bread_def o12)
    with * h \<open>tracked s s'\<close> show ?thesis by (intro exI [of _ s'] exI [of _ nd]) auto
  next
    case leaf
    then have h: "holes s nd [DinR, L1 j, L2 j k] = [L2 j k]" by (simp add: holes_def)
    with f have "0 < free_blocks s" by simp
    from leaf_ready [OF r jk leaf(2,3) this] obtain n s' where *:
      "lkfs_new_ind_blocks K (unat (ptr_of s nd (L1 j))) k s = Inr (of_nat n, s')"
      "fills s nd (L2 j k) n s' nd" "ptr_of s' nd (L2 j k) = of_nat n" by blast
    have e: "below s (i_data nd 22) j = read_ptr s (unat (i_data nd 22)) j"
      using leaf by (simp add: below_def)
    have "read_ptr s (unat (read_ptr s (unat (i_data nd 22)) j)) k = 0"
      using leaf by (auto simp: below_def split: if_splits)
    with * leaf bread_ptr [OF r, of DinR] bread_ptr [OF r, of "L1 j"] jk
    have "get_dindirect K nd ib s = Inr (1, Some (of_nat n), nd, s')"
      by (simp add: get_dindirect_def block_indices Let_def o12 e)
    with * h tracked_new_ind_blocks [OF *(1)] show ?thesis by (intro exI [of _ s'] exI [of _ nd]) auto
  next
    case full
    then have h: "holes s nd [DinR, L1 j, L2 j k] = []" by (simp add: holes_def)
    have e: "below s (i_data nd 22) j = read_ptr s (unat (i_data nd 22)) j"
      "ptr_of s nd (L2 j k) = read_ptr s (unat (read_ptr s (unat (i_data nd 22)) j)) k"
      using full by (auto simp: below_def split: if_splits)
    have "get_dindirect K nd ib s = Inr (1, Some (ptr_of s nd (L2 j k)), nd, s)"
      using full bread_ptr [OF r, of DinR] bread_ptr [OF r, of "L1 j"] jk
      unfolding e by (simp add: get_dindirect_def block_indices Let_def o12 e)
    with h show ?thesis by auto
  qed
qed

lemma lkfs_get_blocks_run:
  assumes r: "ready K s nd" and i: "ib < max_blocks"
    and f: "length (holes s nd (path ib)) \<le> free_blocks s"
  shows "\<exists>s' nd'. lkfs_get_blocks K nd ib s = Inr (1, Some (bmap s' nd' ib), nd', s')
    \<and> fill_chain s nd (holes s nd (path ib)) s' nd' \<and> tracked s s'"
proof -
  consider (d) "ib < 21" | (i) "\<not> ib < 21" "ib < 277" | (dd) "277 \<le> ib" by linarith
  then show ?thesis
  proof cases
    case d
    with f have "length (holes s nd [Dir ib]) \<le> free_blocks s" by (simp add: path_def)
    from get_direct_run [OF r d this] d show ?thesis
      by (simp add: lkfs_get_blocks_def block_indices path_def bmap_def slot_of_def)
  next
    case i
    with f have "length (holes s nd [IndR, Ind (ib - 21)]) \<le> free_blocks s" by (simp add: path_def)
    from get_indirect_run [OF r _ this] i show ?thesis
      by (simp add: Let_def less_diff_conv2 lkfs_get_blocks_def block_indices path_def bmap_def slot_of_def)
  next
    case dd
    with f have "length (holes s nd [DinR, L1 ((ib - 277) div 256), L2 ((ib - 277) div 256) ((ib - 277) mod 256)])
      \<le> free_blocks s" by (simp add: path_def)
    moreover have "ib - 277 < 65536" "\<not> ib - 21 < 256" "ib - 21 - 256 = ib - 277"
      using i dd by (simp_all add: max_blocks_def)
    ultimately show ?thesis
      using get_dindirect_run [OF r, of "ib - 277"] dd
      by (simp add: lkfs_get_blocks_def block_indices path_def bmap_def slot_of_def Let_def)
  qed
qed


section \<open>Properties of the block map\<close>

lemma ready_same:
  "ready K s nd \<longleftrightarrow> fs_wf s \<and> bits_spec K \<and> readable K s \<and> imap_wf s nd"
  by (simp add: ready_def)

lemma slot_of_in_path: "slot_of ib \<in> set (path ib)"
  by (simp add: slot_of_def path_def)

lemma meta_slot_of: "\<not> meta_slot (slot_of ib)"
  by (simp add: slot_of_def)

lemma path_meta: "a \<in> set (path ib) \<Longrightarrow> a = slot_of ib \<or> meta_slot a"
  by (auto simp: path_def slot_of_def split: if_splits)

lemma no_holes_when_mapped: "bmap s nd ib \<noteq> 0 \<Longrightarrow> holes s nd (path ib) = []"
  by (auto simp: holes_def path_def bmap_def slot_of_def below_def split: if_splits)

lemma get_blocks_tracked:
  assumes "ready K s nd" "length (holes s nd (path ib)) \<le> free_blocks s" "lkfs_get_blocks K nd ib s = Inr (r, b, nd', s')"
    "ib < max_blocks"
  shows "tracked s s'"
  using lkfs_get_blocks_run [OF assms(1,4,2)] assms(3) by auto

lemma get_blocks_effect:
  assumes r: "ready K s nd" and i: "ib < max_blocks"
    and f: "length (holes s nd (path ib)) \<le> free_blocks s"
  shows "\<exists>s' nd'. lkfs_get_blocks K nd ib s = Inr (1, Some (bmap s' nd' ib), nd', s')
    \<and> ready K s' nd' \<and> bmap s' nd' ib \<noteq> 0 \<and> (bmap s nd ib \<noteq> 0 \<longrightarrow> s' = s \<and> nd' = nd)
    \<and> chain_kept s nd (holes s nd (path ib)) s' nd'
    \<and> (\<forall>jb < max_blocks. jb \<noteq> ib \<longrightarrow> bmap s' nd' jb = bmap s nd jb)"
proof -
  obtain s' nd' where g: "lkfs_get_blocks K nd ib s = Inr (1, Some (bmap s' nd' ib), nd', s')"
    and c: "fill_chain s nd (holes s nd (path ib)) s' nd'"
    using lkfs_get_blocks_run [OF assms] by blast
  from r have wf: "fs_wf s" "imap_wf s nd" by (simp_all add: ready_def)
  have kept: "chain_kept s nd (holes s nd (path ib)) s' nd'" by (rule fill_chain_kept [OF c wf])
  note k = chain_keptD [OF kept]
  have rd: "ready K s' nd'"
    using k(1-3) r by (simp add: ready_def readable_def same_geometry_sizes)
  have other: "bmap s' nd' jb = bmap s nd jb" if "jb < max_blocks" "jb \<noteq> ib" for jb
  proof -
    have "slot_of jb \<notin> set (holes s nd (path ib))"
      using path_meta [of "slot_of jb" ib] meta_slot_of [of jb] slot_of_inj that(2)
      by (auto simp: holes_def)
    with k(7) [OF valid_slot_of [OF that(1)]] show ?thesis by (simp add: bmap_def)
  qed
  have own: "bmap s' nd' ib \<noteq> 0 \<and> (bmap s nd ib \<noteq> 0 \<longrightarrow> s' = s \<and> nd' = nd)"
  proof (cases "bmap s nd ib = 0")
    case True
    then have "slot_of ib \<in> set (holes s nd (path ib))"
      using slot_of_in_path by (simp add: holes_def bmap_def)
    from k(8) [OF this] True show ?thesis by (simp add: bmap_def)
  next
    case False
    with c no_holes_when_mapped [OF False] show ?thesis by simp
  qed
  show ?thesis
    by (intro exI [of _ s'] exI [of _ nd'] conjI allI impI g rd own [THEN conjunct1] own [THEN conjunct2, rule_format]
        kept other) simp_all
qed

lemma imap_wf_blank: "imap_wf s blank_inode"
proof -
  have "ptr_of s blank_inode a = 0" for a
    by (cases a) (simp_all add: blank_inode_def below_def)
  then show ?thesis by (simp add: imap_wf_def)
qed

lemma sample_ready: "8 \<le> u \<Longrightarrow> ready plain_kernel (sample_fs u v) blank_inode"
  using plain_kernel_bits
  by (simp add: ready_def sample_fs_wf imap_wf_blank readable_def)

lemma sample_free_blocks: "u \<le> 128 \<Longrightarrow> free_blocks (sample_fs u v) = 128 - u"
proof -
  assume "u \<le> 128"
  have "{b. b < 128 \<and> \<not> (b < 8192 \<and> b < u)} = {u..<128}" by auto
  then show ?thesis by (simp add: free_blocks_def)
qed

lemma holes_le: "length (holes s nd (path ib)) \<le> 3"
  unfolding holes_def by (rule order_trans [OF length_filter_le]) (simp add: path_def)

lemma chain_free_count:
  assumes "chain_kept s nd as s' nd'" "free_count_ok s"
  shows "free_count_ok s'"
proof -
  note k = chain_keptD [OF assms(1)]
  let ?c = "s_free_blocks_count (es s)"
  have c: "unat ?c = free_blocks s" using assms(2) by (simp add: free_count_ok_def free_blocks_def)
  then have le: "length as \<le> unat ?c" using k(12) by simp
  then have "unat (of_nat (length as) :: u32) = length as"
    using unsigned_less [of ?c, where 'a = nat] by (simp add: unat_of_nat take_bit_nat_eq_self)
  with le have "unat (?c - of_nat (length as)) = unat ?c - length as"
    by (subst unat_sub) (simp_all add: word_le_nat_alt)
  then show ?thesis using k(10,12) c by (simp add: free_count_ok_def free_blocks_def)
qed

lemma imap_wf_distinct:
  assumes "imap_wf s nd" "distinct as" "\<And>a. a \<in> set as \<Longrightarrow> valid_slot a \<and> ptr_of s nd a \<noteq> 0"
  shows "distinct (map (\<lambda>a. unat (ptr_of s nd a)) as)"
  using assms(2,3) imap_wfD(2) [OF assms(1)]
  by (auto simp: distinct_map inj_on_def word_unat_eq_iff [symmetric])

text \<open>C3: asking for a file block below the size limit returns the disk block its pointers lead to.
  A block already mapped is returned without changing anything; otherwise, with enough free blocks,
  exactly the holes on its path (the block and the pointer blocks missing above it) are filled, each
  with a block of its own that was not in use, every other pointer of the file stays, exactly these
  blocks become used and the free counter of the super block goes down by their number. The volume
  and the file stay well-formed (no block shared), and no used block outside the file's pointer
  blocks is written to.\<close>

theorem get_blocks_correct:
  assumes "fs_wf s" "bits_spec K" "readable K s" "imap_wf s nd" "ib < max_blocks"
    and "length (holes s nd (path ib)) \<le> free_blocks s"
  shows "\<exists>s' nd'. lkfs_get_blocks K nd ib s = Inr (1, Some (bmap s' nd' ib), nd', s')
    \<and> fs_wf s' \<and> imap_wf s' nd' \<and> bmap s' nd' ib \<noteq> 0 \<and> (bmap s nd ib \<noteq> 0 \<longrightarrow> s' = s \<and> nd' = nd)
    \<and> (\<forall>a \<in> set (holes s nd (path ib)). ptr_of s' nd' a \<noteq> 0 \<and> \<not> used_block s (unat (ptr_of s' nd' a)))
    \<and> distinct (map (\<lambda>a. unat (ptr_of s' nd' a)) (holes s nd (path ib)))
    \<and> (\<forall>a. valid_slot a \<longrightarrow> a \<notin> set (holes s nd (path ib)) \<longrightarrow> ptr_of s' nd' a = ptr_of s nd a)
    \<and> (\<forall>jb < max_blocks. jb \<noteq> ib \<longrightarrow> bmap s' nd' jb = bmap s nd jb)
    \<and> (\<forall>x. used_block s' x \<longleftrightarrow>
         used_block s x \<or> (\<exists>a \<in> set (holes s nd (path ib)). x = unat (ptr_of s' nd' a)))
    \<and> s_free_blocks_count (es s') = s_free_blocks_count (es s) - of_nat (length (holes s nd (path ib)))
    \<and> (free_count_ok s \<longrightarrow> free_count_ok s')
    \<and> (\<forall>x \<ge> data_start s. used_block s x \<longrightarrow> x \<notin> metas s nd \<longrightarrow> bufs s' x = bufs s x)"
proof -
  have "ready K s nd" using assms(1-4) by (simp add: ready_def)
  from get_blocks_effect [OF this assms(5,6)] obtain s' nd' where
    g: "lkfs_get_blocks K nd ib s = Inr (1, Some (bmap s' nd' ib), nd', s')" "ready K s' nd'" "bmap s' nd' ib \<noteq> 0"
      "bmap s nd ib \<noteq> 0 \<longrightarrow> s' = s \<and> nd' = nd" "\<forall>jb < max_blocks. jb \<noteq> ib \<longrightarrow> bmap s' nd' jb = bmap s nd jb"
    and c: "chain_kept s nd (holes s nd (path ib)) s' nd'" by blast
  note k = chain_keptD [OF c]
  have "distinct (map (\<lambda>a. unat (ptr_of s' nd' a)) (holes s nd (path ib)))"
    using k(8) valid_slot_of by (intro imap_wf_distinct [OF k(2,5)]) blast
  moreover have "\<forall>x \<ge> data_start s. used_block s x \<longrightarrow> x \<notin> metas s nd \<longrightarrow> bufs s' x = bufs s x"
    using k(9) table_data_trans by blast
  moreover have "\<forall>x. used_block s' x \<longleftrightarrow>
      used_block s x \<or> (\<exists>a \<in> set (holes s nd (path ib)). x = unat (ptr_of s' nd' a))"
    using k(6) by auto
  moreover have "s_free_blocks_count (es s') = s_free_blocks_count (es s) - of_nat (length (holes s nd (path ib)))"
    by (simp add: k(10))
  ultimately show ?thesis using k(7,8)
    by (intro exI [of _ s'] exI [of _ nd'] conjI g k(1,2) impI chain_free_count [OF c]) auto
qed

theorem get_blocks_correct_witness:
  "\<exists>s' nd'. lkfs_get_blocks plain_kernel blank_inode 300 (sample_fs 9 11)
     = Inr (1, Some (bmap s' nd' 300), nd', s') \<and> bmap s' nd' 300 \<noteq> 0"
proof -
  note r = sample_ready [of 9 11, unfolded ready_def]
  have "length (holes (sample_fs 9 11) blank_inode (path 300)) \<le> free_blocks (sample_fs 9 11)"
    using holes_le [of "sample_fs 9 11" blank_inode 300] by (simp add: sample_free_blocks)
  with r show ?thesis
    using get_blocks_correct [of "sample_fs 9 11" plain_kernel blank_inode 300] by (simp add: max_blocks_def) blast
qed

text \<open>asking twice returns the same disk block, and the second call allocates nothing.\<close>

lemma get_blocks_stable:
  assumes "fs_wf s" "bits_spec K" "readable K s" "imap_wf s nd" "ib < max_blocks"
    and "length (holes s nd (path ib)) \<le> free_blocks s"
    and "lkfs_get_blocks K nd ib s = Inr (ret, b, nd', s')"
  shows "lkfs_get_blocks K nd' ib s' = Inr (ret, b, nd', s')"
proof -
  have r: "ready K s nd" using assms(1-4) by (simp add: ready_def)
  from get_blocks_effect [OF r assms(5,6)] assms(7)
  have r': "ready K s' nd'" and b: "ret = 1" "b = Some (bmap s' nd' ib)" "bmap s' nd' ib \<noteq> 0" by auto
  have "length (holes s' nd' (path ib)) \<le> free_blocks s'"
    using no_holes_when_mapped [OF b(3)] by simp
  from get_blocks_effect [OF r' assms(5) this] b show ?thesis by auto
qed

theorem get_blocks_stable_witness:
  "\<exists>b nd' s'. lkfs_get_blocks plain_kernel blank_inode 30 (sample_fs 9 11) = Inr (1, b, nd', s')
     \<and> lkfs_get_blocks plain_kernel nd' 30 s' = Inr (1, b, nd', s')"
proof -
  note r = sample_ready [of 9 11]
  have f: "length (holes (sample_fs 9 11) blank_inode (path 30)) \<le> free_blocks (sample_fs 9 11)"
    using holes_le [of "sample_fs 9 11" blank_inode 30] by (simp add: sample_free_blocks)
  have i: "30 < max_blocks" by (simp add: max_blocks_def)
  from get_blocks_effect [OF r i f] obtain nd' s' where
    g: "lkfs_get_blocks plain_kernel blank_inode 30 (sample_fs 9 11) = Inr (1, Some (bmap s' nd' 30), nd', s')"
    by auto
  with get_blocks_stable [OF _ _ _ _ i f g] r show ?thesis by (auto simp: ready_def)
qed


lemma none_free: "free_blocks s = 0 \<Longrightarrow> b < blocks_count s \<Longrightarrow> used_block s b"
  by (auto simp: free_blocks_def)

lemma full_device:
  assumes "fs_wf s" "bits_spec K" "\<And>b. b \<le> blocks_count s \<Longrightarrow> b < 8192 * length (s_sbb s) \<Longrightarrow> used_block s b"
  shows "lkfs_new_blocks K s = Inr (0, s)" "lkfs_new_ind_blocks K bh k s = Inr (0, s)"
proof -
  have "\<forall>n \<le> blocks_count s. \<not> lowest_free s n" using assms(3) by (auto simp: lowest_free_def)
  then show "lkfs_new_blocks K s = Inr (0, s)" "lkfs_new_ind_blocks K bh k s = Inr (0, s)"
    using lkfs_new_blocks_run(2) [OF assms(1,2)] lkfs_new_ind_blocks_run(2) [OF assms(1,2)] by auto
qed

text \<open>on a full device a direct hole is refused, but behind the direct blocks the failed allocation
  goes unnoticed. For a file with no indirect block yet, \<open>lkfs_get_block\<close> zeroes block 0 of the
  device and reports success with the file block mapped to block 0; below an existing indirect
  block it reports success with block 0 as well.\<close>

lemma get_block_full_device:
  assumes "fs_wf s" "bits_spec K" "k_bread_ok K 0"
    and "\<And>b. b \<le> blocks_count s \<Longrightarrow> b < 8192 * length (s_sbb s) \<Longrightarrow> used_block s b"
  shows "(ib < 21 \<and> i_data nd ib = 0 \<longrightarrow> lkfs_get_block K nd ib z s = Inr (- 1, z, None, nd, s))
    \<and> (21 \<le> ib \<and> ib < 277 \<and> i_data nd 21 = 0 \<longrightarrow>
         lkfs_get_block K nd ib z s = Inr (0, 1024, Some 0, nd, clear_block 0 s))
    \<and> (21 \<le> ib \<and> ib < 277 \<and> i_data nd 21 \<noteq> 0 \<and> bmap s nd ib = 0 \<and> k_bread_ok K (unat (i_data nd 21)) \<longrightarrow>
         lkfs_get_block K nd ib z s = Inr (0, 1024, Some 0, nd, s))"
proof (intro conjI impI)
  have full: "lkfs_new_blocks K s = Inr (0, s)" "lkfs_new_ind_blocks K bh k s = Inr (0, s)" for bh k
    by (rule full_device [OF assms(1,2,4)]; simp)+
  assume "ib < 21 \<and> i_data nd ib = 0"
  with full show "lkfs_get_block K nd ib z s = Inr (- 1, z, None, nd, s)"
    by (simp add: lkfs_get_block_def lkfs_get_blocks_def get_direct_def block_indices)
next
  assume a: "21 \<le> ib \<and> ib < 277 \<and> i_data nd 21 = 0"
  have nb: "0 \<noteq> (1 :: nat)" "0 \<notin> set (s_sbb s)" using fs_wf_sets(1) [OF assms(1)] by auto
  let ?t = "clear_block 0 s"
  have e: "es ?t = es s" "s_sbb ?t = s_sbb s" and u: "used_block ?t = used_block s"
    using nb fs_wfD(1) [OF assms(1)] by (auto simp: clear_block_def used_block_def intro!: used_bit_agree)
  have g: "same_geometry s ?t"
    using fs_wfD(1) [OF assms(1)] by (simp add: same_geometry_def e) (simp add: clear_block_def)
  have "fs_wf ?t" by (rule fs_wf_step [OF assms(1) g]) (simp add: u)
  then have full2: "lkfs_new_ind_blocks K 0 k ?t = Inr (0, ?t)" for k
    by (rule full_device(2) [OF _ assms(2)]) (use assms(4) u same_geometry_sizes [OF g] in auto)
  have nd: "set_i_data 21 0 nd = nd" using a by (cases nd) (auto simp: set_i_data_def)
  show "lkfs_get_block K nd ib z s = Inr (0, 1024, Some 0, nd, ?t)"
    using a full2 full_device(1) [OF assms(1,2,4)] assms(3) nd
    by (simp add: lkfs_get_block_def lkfs_get_blocks_def get_indirect_def block_indices Let_def
        sb_bread_def less_diff_conv2)
next
  assume a: "21 \<le> ib \<and> ib < 277 \<and> i_data nd 21 \<noteq> 0 \<and> bmap s nd ib = 0 \<and> k_bread_ok K (unat (i_data nd 21))"
  then have "read_ptr s (unat (i_data nd 21)) (ib - 21) = 0"
    by (auto simp: bmap_def slot_of_def below_def)
  then show "lkfs_get_block K nd ib z s = Inr (0, 1024, Some 0, nd, s)"
    using a full_device(2) [OF assms(1,2,4)]
    by (simp add: lkfs_get_block_def lkfs_get_blocks_def get_indirect_def block_indices Let_def
        sb_bread_def less_diff_conv2)
qed

theorem get_block_full_device_witness:
  "lkfs_get_block plain_kernel blank_inode 30 1024 (sample_fs 129 11)
     = Inr (0, 1024, Some 0, blank_inode, clear_block 0 (sample_fs 129 11))"
proof -
  have "k_bread_ok plain_kernel 0" by (simp add: plain_kernel_def)
  from get_block_full_device [OF sample_fs_wf plain_kernel_bits this, of 129 11 30 blank_inode 1024]
  show ?thesis by (simp add: blank_inode_def)
qed

text \<open>a file block beyond the double indirect range is not mapped, yet \<open>lkfs_get_block\<close> reports
  success with a size of one block; nothing else changes.\<close>

lemma get_block_too_big:
  assumes "max_blocks \<le> ib"
  shows "lkfs_get_block K nd ib z s = Inr (0, 1024, None, nd, s)"
proof -
  have "\<not> ib < 21" "\<not> ib - 21 < 256" "\<not> ib - 21 - 256 < 65536"
    using assms by (simp_all add: max_blocks_def)
  then show ?thesis
    unfolding lkfs_get_block_def lkfs_get_blocks_def block_indices Let_def by (simp only: if_False) simp
qed

theorem get_block_too_big_witness:
  "lkfs_get_block plain_kernel blank_inode 70000 512 (sample_fs 9 11)
     = Inr (0, 1024, None, blank_inode, sample_fs 9 11)"
  by (rule get_block_too_big) (simp add: max_blocks_def)

end
