(* ===== verification/Truncate.thy ===== *)
theory Truncate
  imports Blockmap
begin

text \<open>
  Giving back the blocks of a deleted file: \<open>lkfs_free_meta_blocks\<close> and
  \<open>__lkfs_truncate_blocks\<close> of \<open>src/lkfs/inode.c\<close>. The properties say which blocks are freed,
  that a file without holes gives back all of its blocks, and where the code frees block 0.
\<close>

section \<open>The code\<close>

text \<open>The first loop frees entries \<open>i, ..., i + c - 1\<close> of the pointer block \<open>bh\<close>.\<close>

fun free_entries :: "'k kernel_scheme \<Rightarrow> nat \<Rightarrow> nat \<Rightarrow> nat \<Rightarrow> lkfs \<Rightarrow> lkfs res" where
  "free_entries K bh i 0 s = Inr s"
| "free_entries K bh i (Suc c) s =
     rbind (lkfs_free_meta_block K (read_ptr s bh i) s) (free_entries K bh (Suc i) c)"

definition lkfs_free_meta_blocks ::
  "'k kernel_scheme \<Rightarrow> u32 \<Rightarrow> nat \<Rightarrow> u32 \<Rightarrow> lkfs \<Rightarrow> lkfs res" where
  "lkfs_free_meta_blocks K blocks count flag s =
     rbind (deref (sb_bread K (unat blocks))) (\<lambda>bh.
     rbind (free_entries K bh 0 count s) (\<lambda>s.
       if flag = 1 then lkfs_free_meta_block K blocks s else Inr s))"

text \<open>The loop over direct pointers, and the one over the full second-level pointer blocks.\<close>

fun free_direct :: "'k kernel_scheme \<Rightarrow> nat \<Rightarrow> nat \<Rightarrow> inode \<times> lkfs \<Rightarrow> (inode \<times> lkfs) res" where
  "free_direct K i 0 x = Inr x"
| "free_direct K i (Suc c) (nd, s) =
     rbind (if i_data nd i \<noteq> 0 then lkfs_free_block K i (i_data nd i) (nd, s) else Inr (nd, s))
       (free_direct K (Suc i) c)"

fun free_dind :: "'k kernel_scheme \<Rightarrow> nat \<Rightarrow> nat \<Rightarrow> nat \<Rightarrow> lkfs \<Rightarrow> lkfs res" where
  "free_dind K bh i 0 s = Inr s"
| "free_dind K bh i (Suc c) s =
     rbind (lkfs_free_meta_blocks K (read_ptr s bh i) 256 1 s) (free_dind K bh (Suc i) c)"

text \<open>
  The local variable \<open>bh\<close> is only written in the last branch, yet the function ends with
  \<open>if (bh != NULL) brelse(bh)\<close>: \<open>bh\<close> is an argument here, the value found in the local, and
  the last component of the result is the buffer that is released.
\<close>

definition lkfs_truncate_blocks ::
  "'k kernel_scheme \<Rightarrow> nat option \<Rightarrow> inode \<Rightarrow> lkfs \<Rightarrow> (inode \<times> lkfs \<times> nat option) res" where
  "lkfs_truncate_blocks K bh nd s =
     (let nblocks = (i_size nd + 1023) div 2 ^ 10
      in if nblocks < LKFS_NDIR_BLOCKS then
           rbind (free_direct K 0 nblocks (nd, s)) (\<lambda>(nd, s). Inr (nd, s, bh))
         else let nblocks = nblocks - LKFS_NDIR_BLOCKS
         in if nblocks < 256 then
           rbind (free_direct K 0 LKFS_NDIR_BLOCKS (nd, s)) (\<lambda>(nd, s).
           rbind (lkfs_free_meta_blocks K (i_data nd LKFS_IND_BLOCK) nblocks 0 s) (\<lambda>s.
           rbind (lkfs_free_block K LKFS_IND_BLOCK (i_data nd LKFS_IND_BLOCK) (nd, s)) (\<lambda>(nd, s).
             Inr (nd, s, bh))))
         else let nblocks = nblocks - 256
         in if nblocks < 65536 then
           (let o1 = nblocks div 2 ^ 8; o2 = nblocks mod 256
            in rbind (free_direct K 0 LKFS_NDIR_BLOCKS (nd, s)) (\<lambda>(nd, s).
               rbind (lkfs_free_meta_blocks K (i_data nd LKFS_IND_BLOCK) 256 0 s) (\<lambda>s.
               rbind (lkfs_free_block K LKFS_IND_BLOCK (i_data nd LKFS_IND_BLOCK) (nd, s)) (\<lambda>(nd, s).
               rbind (deref (sb_bread K (unat (i_data nd LKFS_DIND_BLOCK)))) (\<lambda>bh.
               rbind (free_dind K bh 0 o1 s) (\<lambda>s.
               rbind (lkfs_free_meta_blocks K (read_ptr s bh o1) o2 1 s) (\<lambda>s.
               rbind (lkfs_free_block K LKFS_DIND_BLOCK (i_data nd LKFS_DIND_BLOCK) (nd, s)) (\<lambda>(nd, s).
                 Inr (nd, s, Some bh)))))))))
         else Inr (nd, s, bh))"

section \<open>Freeing a list of blocks\<close>

definition frees :: "lkfs \<Rightarrow> nat list \<Rightarrow> lkfs \<Rightarrow> bool" where
  "frees s ns s' \<longleftrightarrow> same_geometry s s' \<and> (\<forall>k. used_block s' k \<longleftrightarrow> used_block s k \<and> k \<notin> set ns)
     \<and> (\<forall>x \<ge> inode_table_offset s. bufs s' x = bufs s x) \<and> used_ino s' = used_ino s
     \<and> es s' = (es s)\<lparr>s_free_blocks_count := s_free_blocks_count (es s) + of_nat (length ns)\<rparr>"

lemma freesD:
  assumes "frees s ns s'"
  shows "same_geometry s s'" "used_block s' k \<longleftrightarrow> used_block s k \<and> k \<notin> set ns"
    "inode_table_offset s \<le> x \<Longrightarrow> bufs s' x = bufs s x" "used_ino s' = used_ino s"
    "s_free_blocks_count (es s') = s_free_blocks_count (es s) + of_nat (length ns)"
    "s_free_inodes_count (es s') = s_free_inodes_count (es s)"
    "es s' = (es s)\<lparr>s_free_blocks_count := s_free_blocks_count (es s) + of_nat (length ns)\<rparr>"
  using assms by (simp_all add: frees_def)

lemma frees_Nil [simp]: "frees s [] s"
  by (simp add: frees_def)

lemma frees_append:
  assumes "frees s ns t" "frees t ms u"
  shows "frees s (ns @ ms) u"
  using freesD [OF assms(1)] freesD [OF assms(2)]
  by (auto simp: frees_def same_geometry_sizes intro: same_geometry_trans)

lemma frees_Cons: "frees s [n] t \<Longrightarrow> frees t ms u \<Longrightarrow> frees s (n # ms) u"
  using frees_append [of s "[n]" t ms u] by simp

lemma frees_wf:
  assumes "fs_wf s" "frees s ns s'" "\<forall>n \<in> set ns. data_start s \<le> n"
  shows "fs_wf s'"
  by (rule fs_wf_step [OF assms(1) freesD(1) [OF assms(2)]])
     (use assms(3) in \<open>auto simp: freesD(2) [OF assms(2)]\<close>)

lemma frees_read: "frees s ns s' \<Longrightarrow> inode_table_offset s \<le> b \<Longrightarrow> read_ptr s' b = read_ptr s b"
  by (simp add: read_ptr_def freesD(3) fun_eq_iff)

text \<open>A pointer that may be freed without breaking the metadata.\<close>

definition block_in :: "lkfs \<Rightarrow> u32 \<Rightarrow> bool" where
  "block_in s w \<longleftrightarrow> data_start s \<le> unat w \<and> unat w < 8192 * length (s_sbb s)"

lemma block_in_geometry: "same_geometry s s' \<Longrightarrow> block_in s' = block_in s"
  by (simp add: fun_eq_iff block_in_def same_geometry_sizes)

lemma free_meta_frees_any:
  assumes wf: "fs_wf s" and K: "bits_spec K" and w: "unat w < 8192 * length (s_sbb s)"
  shows "\<exists>s'. lkfs_free_meta_block K w s = Inr s' \<and> frees s [unat w] s'"
proof -
  have "bufs (unclaim_block K (unat w) s) x = bufs s x" if "inode_table_offset s \<le> x" for x
    unfolding unclaim_block_def
  proof (rule flip_block_facts(3) [OF wf w])
    show "x \<noteq> 1" "x \<notin> set (s_sbb s)" using that fs_wf_sets(3) [OF wf] fs_wfD(13) [OF wf] by fastforce+
  qed
  then have "frees s [unat w] (unclaim_block K (unat w) s)"
    using flip_block_facts(1,2,6) [OF wf w] unclaim_block_used [OF wf K w]
    by (auto simp: frees_def unclaim_block_def)
  then show ?thesis using w by (simp add: lkfs_free_meta_block_run [OF wf])
qed

lemma free_meta_frees:
  assumes "fs_wf s" "bits_spec K" "block_in s w"
  shows "\<exists>s'. lkfs_free_meta_block K w s = Inr s' \<and> frees s [unat w] s' \<and> fs_wf s'"
  using free_meta_frees_any [OF assms(1,2)] assms(3) frees_wf [OF assms(1)]
  by (fastforce simp: block_in_def)

lemma free_entries_frees:
  assumes "fs_wf s" "bits_spec K" "inode_table_offset s \<le> bh"
    "\<forall>j. i \<le> j \<and> j < i + c \<longrightarrow> block_in s (read_ptr s bh j)"
  shows "\<exists>s'. free_entries K bh i c s = Inr s' \<and> fs_wf s'
    \<and> frees s (map (\<lambda>j. unat (read_ptr s bh j)) [i..<i + c]) s'"
  using assms
proof (induction c arbitrary: i s)
  case 0
  then show ?case by simp
next
  case (Suc c)
  obtain t where t: "lkfs_free_meta_block K (read_ptr s bh i) s = Inr t"
    "frees s [unat (read_ptr s bh i)] t" "fs_wf t"
    using free_meta_frees [OF Suc.prems(1,2)] Suc.prems(4) by force
  note r = frees_read [OF t(2) Suc.prems(3)] and g = freesD(1) [OF t(2)]
  obtain s' where s': "free_entries K bh (Suc i) c t = Inr s'" "fs_wf s'"
    "frees t (map (\<lambda>j. unat (read_ptr s bh j)) [Suc i..<Suc i + c]) s'"
    using Suc.IH [OF t(3) Suc.prems(2), of "Suc i"] Suc.prems(3,4)
    by (auto simp: r block_in_geometry [OF g] same_geometry_sizes [OF g])
  have "[i..<i + Suc c] = i # [Suc i..<Suc i + c]" by (simp add: upt_conv_Cons)
  then show ?case using t s' frees_Cons [OF t(2) s'(3)] by simp
qed

lemma free_meta_blocks_frees:
  assumes "fs_wf s" "bits_spec K" "block_in s w" "k_bread_ok K (unat w)"
    "\<forall>j < c. block_in s (read_ptr s (unat w) j)"
  shows "\<exists>s'. lkfs_free_meta_blocks K w c (if b then 1 else 0) s = Inr s' \<and> fs_wf s'
    \<and> frees s (map (\<lambda>j. unat (read_ptr s (unat w) j)) [0..<c] @ (if b then [unat w] else [])) s'"
proof -
  have d: "inode_table_offset s \<le> unat w"
    using assms(3) fs_wfD(12) [OF assms(1)] by (simp add: block_in_def)
  obtain t where t: "free_entries K (unat w) 0 c s = Inr t" "fs_wf t"
    "frees s (map (\<lambda>j. unat (read_ptr s (unat w) j)) [0..<c]) t"
    using free_entries_frees [OF assms(1,2) d, of 0 c] assms(5) by auto
  obtain u where u: "lkfs_free_meta_block K w t = Inr u" "frees t [unat w] u" "fs_wf u"
    using free_meta_frees [OF t(2) assms(2)] assms(3) block_in_geometry [OF freesD(1) [OF t(3)]] by auto
  show ?thesis
    using t u frees_append [OF t(3) u(2)] assms(4)
    by (auto simp: lkfs_free_meta_blocks_def sb_bread_def)
qed


definition clear_ptrs :: "nat \<Rightarrow> nat \<Rightarrow> inode \<Rightarrow> inode" where
  "clear_ptrs i k nd = nd\<lparr>i_data := (\<lambda>j. if i \<le> j \<and> j < k then 0 else i_data nd j)\<rparr>"

lemma clear_ptrs_sel [simp]:
  "i_data (clear_ptrs i k nd) j = (if i \<le> j \<and> j < k then 0 else i_data nd j)"
  "i_size (clear_ptrs i k nd) = i_size nd"
  by (simp_all add: clear_ptrs_def)

lemma clear_ptrs_empty [simp]: "clear_ptrs i i nd = nd"
proof -
  have "(\<lambda>j. if i \<le> j \<and> j < i then 0 else i_data nd j) = i_data nd"
    by (rule ext) auto
  then show ?thesis by (simp add: clear_ptrs_def)
qed

lemma clear_ptrs_step:
  "i < k \<Longrightarrow> clear_ptrs (Suc i) k (nd\<lparr>i_data := (i_data nd)(i := 0)\<rparr>) = clear_ptrs i k nd"
  by (auto simp: clear_ptrs_def fun_eq_iff)

lemma free_direct_frees:
  assumes "fs_wf s" "bits_spec K" "\<forall>j. i \<le> j \<and> j < i + c \<and> i_data nd j \<noteq> 0 \<longrightarrow> block_in s (i_data nd j)"
  shows "\<exists>s'. free_direct K i c (nd, s) = Inr (clear_ptrs i (i + c) nd, s') \<and> fs_wf s'
    \<and> frees s (map (\<lambda>j. unat (i_data nd j)) (filter (\<lambda>j. i_data nd j \<noteq> 0) [i..<i + c])) s'"
  using assms
proof (induction c arbitrary: i s nd)
  case 0
  then show ?case by simp
next
  case (Suc c)
  let ?f = "\<lambda>nd js. map (\<lambda>j. unat (i_data nd j)) (filter (\<lambda>j. i_data nd j \<noteq> 0) js)"
  have u: "[i..<i + Suc c] = i # [Suc i..<Suc i + c]" by (simp add: upt_conv_Cons)
  show ?case
  proof (cases "i_data nd i = 0")
    case True
    then have nd: "nd\<lparr>i_data := (i_data nd)(i := 0)\<rparr> = nd" by (cases nd) auto
    obtain s' where "free_direct K (Suc i) c (nd, s) = Inr (clear_ptrs (Suc i) (Suc i + c) nd, s')"
      "fs_wf s'" "frees s (?f nd [Suc i..<Suc i + c]) s'"
      using Suc.IH [OF Suc.prems(1,2), of "Suc i" nd] Suc.prems(3) by auto
    with True show ?thesis
      unfolding u using clear_ptrs_step [of i "i + Suc c" nd, unfolded nd] by simp
  next
    case False
    let ?nd = "nd\<lparr>i_data := (i_data nd)(i := 0)\<rparr>"
    obtain t where t: "lkfs_free_meta_block K (i_data nd i) s = Inr t" "frees s [unat (i_data nd i)] t" "fs_wf t"
      using free_meta_frees [OF Suc.prems(1,2)] Suc.prems(3) False by force
    have "\<forall>j. Suc i \<le> j \<and> j < Suc i + c \<and> i_data ?nd j \<noteq> 0 \<longrightarrow> block_in t (i_data ?nd j)"
      using Suc.prems(3) by (simp add: block_in_geometry [OF freesD(1) [OF t(2)]])
    from Suc.IH [OF t(3) Suc.prems(2) this] obtain s' where
      s': "free_direct K (Suc i) c (?nd, t) = Inr (clear_ptrs (Suc i) (Suc i + c) ?nd, s')"
      "fs_wf s'" "frees t (?f ?nd [Suc i..<Suc i + c]) s'" by blast
    have "?f ?nd [Suc i..<Suc i + c] = ?f nd [Suc i..<Suc i + c]"
      by (rule map_cong [OF filter_cong [OF refl]]) auto
    with False t(1) s' frees_Cons [OF t(2) s'(3)] show ?thesis
      unfolding u using clear_ptrs_step [of i "i + Suc c" nd] by (simp add: lkfs_free_block_eq)
  qed
qed

definition dind_list :: "lkfs \<Rightarrow> nat \<Rightarrow> nat \<Rightarrow> nat list" where
  "dind_list s bh j = map (\<lambda>k. unat (read_ptr s (unat (read_ptr s bh j)) k)) [0..<256]
     @ [unat (read_ptr s bh j)]"

lemma free_dind_frees:
  assumes "fs_wf s" "bits_spec K" "inode_table_offset s \<le> bh"
    "\<forall>j. i \<le> j \<and> j < i + c \<longrightarrow> block_in s (read_ptr s bh j) \<and> k_bread_ok K (unat (read_ptr s bh j))
       \<and> (\<forall>k < 256. block_in s (read_ptr s (unat (read_ptr s bh j)) k))"
  shows "\<exists>s'. free_dind K bh i c s = Inr s' \<and> fs_wf s'
    \<and> frees s (concat (map (dind_list s bh) [i..<i + c])) s'"
  using assms
proof (induction c arbitrary: i s)
  case 0
  then show ?case by simp
next
  case (Suc c)
  have now: "block_in s (read_ptr s bh i)" "k_bread_ok K (unat (read_ptr s bh i))"
    "\<forall>k < 256. block_in s (read_ptr s (unat (read_ptr s bh i)) k)" using Suc.prems(4) by auto
  obtain t where t: "lkfs_free_meta_blocks K (read_ptr s bh i) 256 1 s = Inr t" "fs_wf t"
    "frees s (dind_list s bh i) t"
    using free_meta_blocks_frees [OF Suc.prems(1,2) now, of True] by (auto simp: dind_list_def)
  note g = freesD(1) [OF t(3)] and r = frees_read [OF t(3) Suc.prems(3)]
  have rr: "read_ptr t (unat w) = read_ptr s (unat w)" if "block_in s w" for w
    by (rule frees_read [OF t(3)]) (use that fs_wfD(12) [OF Suc.prems(1)] in \<open>simp add: block_in_def\<close>)
  have e: "dind_list t bh j = dind_list s bh j" if "block_in s (read_ptr s bh j)" for j
    using rr [OF that] by (simp add: dind_list_def r)
  obtain s' where s': "free_dind K bh (Suc i) c t = Inr s'" "fs_wf s'"
    "frees t (concat (map (dind_list t bh) [Suc i..<Suc i + c])) s'"
    using Suc.IH [OF t(2) Suc.prems(2), of "Suc i"] Suc.prems(3,4)
    by (auto simp: r rr block_in_geometry [OF g] same_geometry_sizes [OF g])
  have m: "map (dind_list t bh) [Suc i..<Suc i + c] = map (dind_list s bh) [Suc i..<Suc i + c]"
    by (rule map_cong) (use e Suc.prems(4) in auto)
  have u: "[i..<i + Suc c] = i # [Suc i..<Suc i + c]" by (simp add: upt_conv_Cons)
  show ?case
    unfolding u using t(1) s'(1,2) frees_append [OF t(3) s'(3) [unfolded m]] by simp
qed

section \<open>The slots a deleted file gives back\<close>

fun freed_slots :: "nat \<Rightarrow> slot list" where
  "freed_slots n =
     (if n < 21 then map Dir [0..<n]
      else if n < 277 then map Dir [0..<21] @ map Ind [0..<n - 21] @ [IndR]
      else map Dir [0..<21] @ map Ind [0..<256] @ [IndR]
        @ concat (map (\<lambda>j. map (L2 j) [0..<256] @ [L1 j]) [0..<(n - 277) div 256])
        @ map (L2 ((n - 277) div 256)) [0..<(n - 277) mod 256] @ [L1 ((n - 277) div 256), DinR])"

declare freed_slots.simps [simp del]

fun is_direct :: "slot \<Rightarrow> bool" where
  "is_direct (Dir i) = True"
| "is_direct _ = False"

definition freed_blocks :: "lkfs \<Rightarrow> inode \<Rightarrow> slot list \<Rightarrow> nat list" where
  "freed_blocks s nd as = map (\<lambda>a. unat (ptr_of s nd a)) (filter (\<lambda>a. ptr_of s nd a \<noteq> 0) as)"

text \<open>Every slot the code walks over, the direct ones apart, holds a block.\<close>

definition no_meta_holes :: "lkfs \<Rightarrow> inode \<Rightarrow> nat \<Rightarrow> bool" where
  "no_meta_holes s nd n \<longleftrightarrow> (\<forall>a \<in> set (freed_slots n). is_direct a \<or> ptr_of s nd a \<noteq> 0)"


lemma freed_blocks_append [simp]:
  "freed_blocks s nd (as @ bs) = freed_blocks s nd as @ freed_blocks s nd bs"
  by (simp add: freed_blocks_def)

lemma freed_blocks_full:
  "\<forall>a \<in> set as. ptr_of s nd a \<noteq> 0 \<Longrightarrow> freed_blocks s nd as = map (\<lambda>a. unat (ptr_of s nd a)) as"
  by (simp add: freed_blocks_def)

lemma ptr_block_in:
  assumes "ready K s nd" "valid_slot a" "ptr_of s nd a \<noteq> 0"
  shows "block_in s (ptr_of s nd a)" "k_bread_ok K (unat (ptr_of s nd a))"
    "inode_table_offset s \<le> unat (ptr_of s nd a)"
proof -
  have b: "block_ok s (unat (ptr_of s nd a))" and wf: "fs_wf s"
    using imap_wfD(1) [OF _ assms(2,3)] assms(1) by (auto simp: ready_def)
  then show "block_in s (ptr_of s nd a)" "k_bread_ok K (unat (ptr_of s nd a))"
    "inode_table_offset s \<le> unat (ptr_of s nd a)"
    using assms(1) fs_wfD(6,12) [OF wf] by (auto simp: block_ok_def block_in_def ready_def readable_def)
qed

text \<open>The state between two steps: \<open>ns\<close> have been freed since \<open>s\<close>.\<close>

definition gone :: "lkfs \<Rightarrow> nat list \<Rightarrow> lkfs \<Rightarrow> bool" where
  "gone s ns t \<longleftrightarrow> fs_wf t \<and> frees s ns t"

lemma gone_then: "gone s ns t \<Longrightarrow> fs_wf u \<Longrightarrow> frees t ms u \<Longrightarrow> gone s (ns @ ms) u"
  using frees_append by (auto simp: gone_def)

lemma goneD:
  assumes "gone s ns t"
  shows "fs_wf t" "block_in t = block_in s" "inode_table_offset s \<le> b \<Longrightarrow> read_ptr t b = read_ptr s b"
  using assms frees_read block_in_geometry [OF freesD(1)] by (auto simp: gone_def)

lemma gone_block:
  assumes r: "ready K s nd" and a: "valid_slot a" "ptr_of s nd a \<noteq> 0" and t: "gone s ns t"
  shows "\<exists>u. lkfs_free_meta_block K (ptr_of s nd a) t = Inr u \<and> gone s (ns @ freed_blocks s nd [a]) u"
proof -
  have "block_in t (ptr_of s nd a)" using ptr_block_in(1) [OF r a] goneD(2) [OF t] by simp
  then obtain u where "lkfs_free_meta_block K (ptr_of s nd a) t = Inr u"
    "frees t [unat (ptr_of s nd a)] u" "fs_wf u"
    using free_meta_frees [OF goneD(1) [OF t]] r by (auto simp: ready_def)
  with gone_then [OF t] show ?thesis using a(2) by (auto simp: freed_blocks_def)
qed

text \<open>A pointer block and its entries, given by the slots below it.\<close>

definition child :: "slot \<Rightarrow> nat \<Rightarrow> slot" where
  "child q k = (case q of IndR \<Rightarrow> Ind k | DinR \<Rightarrow> L1 k | L1 j \<Rightarrow> L2 j k | _ \<Rightarrow> q)"

lemma child_ptr:
  "meta_slot q \<Longrightarrow> ptr_of s nd q \<noteq> 0 \<Longrightarrow> read_ptr s (unat (ptr_of s nd q)) k = ptr_of s nd (child q k)"
  by (cases q) (auto simp: child_def below_def)

lemma child_valid: "meta_slot q \<Longrightarrow> valid_slot q \<Longrightarrow> k < 256 \<Longrightarrow> valid_slot (child q k)"
  by (cases q) (auto simp: child_def)

lemma gone_meta_blocks:
  assumes r: "ready K s nd" and q: "valid_slot q" "meta_slot q" "ptr_of s nd q \<noteq> 0" and c: "c \<le> 256"
    and full: "\<forall>k < c. ptr_of s nd (child q k) \<noteq> 0" and t: "gone s ns t"
  shows "\<exists>u. lkfs_free_meta_blocks K (ptr_of s nd q) c (if b then 1 else 0) t = Inr u
    \<and> gone s (ns @ freed_blocks s nd (map (child q) [0..<c] @ (if b then [q] else []))) u"
proof -
  note B = ptr_block_in [OF r q(1,3)]
  have rd: "read_ptr t (unat (ptr_of s nd q)) k = ptr_of s nd (child q k)" for k
    using goneD(3) [OF t B(3)] child_ptr [OF q(2,3)] by simp
  have "\<forall>k < c. block_in t (ptr_of s nd (child q k))"
    using ptr_block_in(1) [OF r child_valid] q full c goneD(2) [OF t] by auto
  then obtain u where "lkfs_free_meta_blocks K (ptr_of s nd q) c (if b then 1 else 0) t = Inr u"
    "fs_wf u" "frees t (map (\<lambda>k. unat (ptr_of s nd (child q k))) [0..<c]
       @ (if b then [unat (ptr_of s nd q)] else [])) u"
    using free_meta_blocks_frees [OF goneD(1) [OF t], of K "ptr_of s nd q" c b] B r goneD(2) [OF t]
    unfolding rd by (auto simp: ready_def)
  with gone_then [OF t] show ?thesis
    using full q(3) by (auto simp: freed_blocks_full comp_def freed_blocks_def)
qed

lemma gone_direct:
  assumes r: "ready K s nd" and c: "c \<le> 21"
  shows "\<exists>u. free_direct K 0 c (nd, s) = Inr (clear_ptrs 0 c nd, u)
    \<and> gone s (freed_blocks s nd (map Dir [0..<c])) u"
proof -
  have wf: "fs_wf s" "bits_spec K" using r by (simp_all add: ready_def)
  have "\<forall>j. 0 \<le> j \<and> j < 0 + c \<and> i_data nd j \<noteq> 0 \<longrightarrow> block_in s (i_data nd j)"
    using ptr_block_in(1) [OF r, of "Dir j" for j] c by auto
  from free_direct_frees [OF wf this] show ?thesis
    by (auto simp: gone_def freed_blocks_def filter_map comp_def)
qed

lemma gone_dind:
  assumes r: "ready K s nd" and q: "ptr_of s nd DinR \<noteq> 0" and c: "i + c \<le> 256"
    and full: "\<forall>j k. j < i + c \<longrightarrow> k < 256 \<longrightarrow> ptr_of s nd (L1 j) \<noteq> 0 \<and> ptr_of s nd (L2 j k) \<noteq> 0"
    and t: "gone s ns t"
  shows "\<exists>u. free_dind K (unat (ptr_of s nd DinR)) i c t = Inr u
    \<and> gone s (ns @ freed_blocks s nd (concat (map (\<lambda>j. map (L2 j) [0..<256] @ [L1 j]) [i..<i + c]))) u"
  using c full t
proof (induction c arbitrary: i ns t)
  case 0
  then show ?case by (auto simp: freed_blocks_def)
next
  case (Suc c)
  have rd: "read_ptr t (unat (ptr_of s nd DinR)) i = ptr_of s nd (L1 i)"
    using goneD(3) [OF Suc.prems(3) ptr_block_in(3) [OF r _ q]] child_ptr [of DinR, OF _ q]
    by (simp add: child_def)
  have nz: "ptr_of s nd (L1 i) \<noteq> 0" using Suc.prems(2) [rule_format, of i 0] by simp
  have ch: "child (L1 i) = L2 i" by (simp add: fun_eq_iff child_def)
  obtain u where u: "lkfs_free_meta_blocks K (ptr_of s nd (L1 i)) 256 1 t = Inr u"
    "gone s (ns @ freed_blocks s nd (map (L2 i) [0..<256] @ [L1 i])) u"
    using gone_meta_blocks [OF r, of "L1 i" 256 ns t True] Suc.prems nz unfolding ch by auto
  obtain v where v: "free_dind K (unat (ptr_of s nd DinR)) (Suc i) c u = Inr v"
    "gone s ((ns @ freed_blocks s nd (map (L2 i) [0..<256] @ [L1 i])) @ freed_blocks s nd
       (concat (map (\<lambda>j. map (L2 j) [0..<256] @ [L1 j]) [Suc i..<Suc i + c]))) v"
    using Suc.IH [OF _ _ u(2), of "Suc i"] Suc.prems(1,2) by auto
  have e: "[i..<i + Suc c] = i # [Suc i..<Suc i + c]" by (simp add: upt_conv_Cons)
  have "free_dind K (unat (ptr_of s nd DinR)) i (Suc c) t = Inr v" using u(1) v(1) rd by simp
  moreover have "gone s (ns @ freed_blocks s nd
      (concat (map (\<lambda>j. map (L2 j) [0..<256] @ [L1 j]) (i # [Suc i..<Suc i + c])))) v"
    using v(2) by (simp only: list.map concat.simps freed_blocks_append append_assoc)
  ultimately show ?case unfolding e by blast
qed


text \<open>The inode after truncation: the pointers the code clears.\<close>

definition cut :: "nat \<Rightarrow> inode \<Rightarrow> inode" where
  "cut n nd = nd\<lparr>i_data := (\<lambda>j. if j < 21 \<and> j < n \<or> j = 21 \<and> 21 \<le> n \<or> j = 22 \<and> 277 \<le> n then 0
     else i_data nd j)\<rparr>"

definition file_blocks :: "inode \<Rightarrow> nat" where
  "file_blocks nd = (i_size nd + 1023) div 1024"

lemma truncate_small:
  assumes r: "ready K s nd" and n: "file_blocks nd < 21"
  shows "\<exists>u. lkfs_truncate_blocks K bh nd s = Inr (cut (file_blocks nd) nd, u, bh)
    \<and> gone s (freed_blocks s nd (freed_slots (file_blocks nd))) u"
proof -
  have "clear_ptrs 0 (file_blocks nd) nd = cut (file_blocks nd) nd"
    using n by (auto simp: clear_ptrs_def cut_def intro!: arg_cong [where f = "\<lambda>d. nd\<lparr>i_data := d\<rparr>"])
  then show ?thesis
    using gone_direct [OF r, of "file_blocks nd"] n
    by (auto simp: lkfs_truncate_blocks_def file_blocks_def block_indices freed_slots.simps)
qed

lemma truncate_medium:
  assumes r: "ready K s nd" and n: "21 \<le> file_blocks nd" "file_blocks nd < 277"
    and full: "no_meta_holes s nd (file_blocks nd)"
  shows "\<exists>u. lkfs_truncate_blocks K bh nd s = Inr (cut (file_blocks nd) nd, u, bh)
    \<and> gone s (freed_blocks s nd (freed_slots (file_blocks nd))) u"
proof -
  let ?n = "file_blocks nd" and ?d = "freed_blocks s nd (map Dir [0..<21])"
  have sl: "freed_slots ?n = map Dir [0..<21] @ map (child IndR) [0..<?n - 21] @ [IndR]"
    using n by (simp add: freed_slots.simps child_def)
  have le: "?n - 21 \<le> 256" using n by linarith
  note F = bspec [OF full [unfolded no_meta_holes_def sl]]
  have "ptr_of s nd (child IndR k) \<noteq> 0" if "k < ?n - 21" for k
    using F [of "child IndR k"] that by (simp add: child_def)
  then have nz: "ptr_of s nd IndR \<noteq> 0" "\<forall>k < ?n - 21. ptr_of s nd (child IndR k) \<noteq> 0"
    using F [of IndR] by simp_all
  obtain t where t: "free_direct K 0 21 (nd, s) = Inr (clear_ptrs 0 21 nd, t)" "gone s ?d t"
    using gone_direct [OF r, of 21] by auto
  obtain u where u: "lkfs_free_meta_blocks K (i_data nd 21) (?n - 21) 0 t = Inr u"
    "gone s (?d @ freed_blocks s nd (map (child IndR) [0..<?n - 21])) u"
    using gone_meta_blocks [OF r _ _ nz(1) le nz(2) t(2), of False] by auto
  obtain v where v: "lkfs_free_meta_block K (i_data nd 21) u = Inr v"
    "gone s ((?d @ freed_blocks s nd (map (child IndR) [0..<?n - 21])) @ freed_blocks s nd [IndR]) v"
    using gone_block [OF r _ nz(1) u(2)] by auto
  have c: "(clear_ptrs 0 21 nd)\<lparr>i_data := (i_data (clear_ptrs 0 21 nd))(21 := 0)\<rparr> = cut ?n nd"
    using n by (auto simp: clear_ptrs_def cut_def fun_eq_iff)
  have sizes: "(i_size nd + 1023) div 2 ^ 10 = ?n" "\<not> ?n < 21" "?n - 21 < 256"
    using n by (simp_all add: file_blocks_def less_diff_conv2)
  have "lkfs_truncate_blocks K bh nd s = Inr (cut ?n nd, v, bh)"
    unfolding lkfs_truncate_blocks_def block_indices Let_def sizes(1)
    using t(1) u(1) v(1) c sizes(2,3) by (simp add: lkfs_free_block_eq)
  moreover have "gone s (freed_blocks s nd (freed_slots ?n)) v"
    using v(2) unfolding sl by (simp only: freed_blocks_append append_assoc)
  ultimately show ?thesis by blast
qed

lemma truncate_large:
  assumes r: "ready K s nd" and n: "277 \<le> file_blocks nd" "file_blocks nd < max_blocks"
    and full: "no_meta_holes s nd (file_blocks nd)"
  shows "\<exists>u. lkfs_truncate_blocks K bh nd s
      = Inr (cut (file_blocks nd) nd, u, Some (unat (i_data nd 22)))
    \<and> gone s (freed_blocks s nd (freed_slots (file_blocks nd))) u"
proof -
  let ?n = "file_blocks nd" and ?d = "freed_blocks s nd (map Dir [0..<21])"
  define o1 where "o1 = (?n - 277) div 256"
  define o2 where "o2 = (?n - 277) mod 256"
  define mid where "mid = concat (map (\<lambda>j. map (L2 j) [0..<256] @ [L1 j]) [0..<o1])"
  have o: "o1 < 256" "o2 < 256" using n by (auto simp: o1_def o2_def max_blocks_def less_mult_imp_div_less)
  have sl: "freed_slots ?n = map Dir [0..<21] @ map (child IndR) [0..<256] @ [IndR] @ mid
      @ map (child (L1 o1)) [0..<o2] @ [L1 o1] @ [DinR]"
    using n by (simp add: freed_slots.simps o1_def o2_def mid_def child_def)
  note F = bspec [OF full [unfolded no_meta_holes_def sl]]
  have "ptr_of s nd (child IndR k) \<noteq> 0" if "k < 256" for k
    using F [of "child IndR k"] that by (simp add: child_def)
  moreover have "ptr_of s nd (child (L1 o1) k) \<noteq> 0" if "k < o2" for k
    using F [of "child (L1 o1) k"] that by (simp add: child_def)
  ultimately have nz: "ptr_of s nd IndR \<noteq> 0" "ptr_of s nd DinR \<noteq> 0" "ptr_of s nd (L1 o1) \<noteq> 0"
    "\<forall>k < 256. ptr_of s nd (child IndR k) \<noteq> 0" "\<forall>k < o2. ptr_of s nd (child (L1 o1) k) \<noteq> 0"
    using F [of IndR] F [of DinR] F [of "L1 o1"] by simp_all
  have nm: "\<forall>j k. j < 0 + o1 \<longrightarrow> k < 256 \<longrightarrow> ptr_of s nd (L1 j) \<noteq> 0 \<and> ptr_of s nd (L2 j k) \<noteq> 0"
  proof (intro allI impI conjI)
    fix j k :: nat assume "j < 0 + o1" "k < 256"
    then have "L1 j \<in> set mid" "L2 j k \<in> set mid" by (auto simp: mid_def image_iff)
    then show "ptr_of s nd (L1 j) \<noteq> 0" "ptr_of s nd (L2 j k) \<noteq> 0"
      using F [of "L1 j"] F [of "L2 j k"] by simp_all
  qed
  obtain t where t: "free_direct K 0 21 (nd, s) = Inr (clear_ptrs 0 21 nd, t)" "gone s ?d t"
    using gone_direct [OF r, of 21] by auto
  obtain u where u: "lkfs_free_meta_blocks K (i_data nd 21) 256 0 t = Inr u"
    "gone s (?d @ freed_blocks s nd (map (child IndR) [0..<256])) u"
    using gone_meta_blocks [OF r _ _ nz(1) _ nz(4) t(2), of False] by auto
  obtain v where v: "lkfs_free_meta_block K (i_data nd 21) u = Inr v"
    "gone s ((?d @ freed_blocks s nd (map (child IndR) [0..<256])) @ freed_blocks s nd [IndR]) v"
    using gone_block [OF r _ nz(1) u(2)] by auto
  have b: "deref (sb_bread K (unat (i_data nd 22))) = Inr (unat (i_data nd 22))"
    using bread_ptr [OF r, of DinR] nz(2) by simp
  obtain w where w: "free_dind K (unat (i_data nd 22)) 0 o1 v = Inr w"
    "gone s (((?d @ freed_blocks s nd (map (child IndR) [0..<256])) @ freed_blocks s nd [IndR])
       @ freed_blocks s nd mid) w"
    using gone_dind [OF r nz(2) _ nm v(2)] o by (auto simp: mid_def)
  have rd: "read_ptr w (unat (i_data nd 22)) o1 = ptr_of s nd (L1 o1)"
    using goneD(3) [OF w(2) ptr_block_in(3) [OF r _ nz(2)]] child_ptr [of DinR, OF _ nz(2)]
    by (simp add: child_def)
  obtain x where x: "lkfs_free_meta_blocks K (ptr_of s nd (L1 o1)) o2 1 w = Inr x"
    "gone s ((((?d @ freed_blocks s nd (map (child IndR) [0..<256])) @ freed_blocks s nd [IndR])
       @ freed_blocks s nd mid) @ freed_blocks s nd (map (child (L1 o1)) [0..<o2] @ [L1 o1])) x"
    using gone_meta_blocks [OF r _ _ nz(3) _ nz(5) w(2), of True] o by auto
  obtain y where y: "lkfs_free_meta_block K (i_data nd 22) x = Inr y"
    "gone s (((((?d @ freed_blocks s nd (map (child IndR) [0..<256])) @ freed_blocks s nd [IndR])
       @ freed_blocks s nd mid) @ freed_blocks s nd (map (child (L1 o1)) [0..<o2] @ [L1 o1]))
       @ freed_blocks s nd [DinR]) y"
    using gone_block [OF r _ nz(2) x(2)] by auto
  let ?nd = "(clear_ptrs 0 21 nd)\<lparr>i_data := (i_data (clear_ptrs 0 21 nd))(21 := 0)\<rparr>"
  have c: "?nd\<lparr>i_data := (i_data ?nd)(22 := 0)\<rparr> = cut ?n nd"
    using n by (auto simp: clear_ptrs_def cut_def fun_eq_iff)
  have sizes: "(i_size nd + 1023) div 2 ^ 10 = ?n" "\<not> ?n < 21" "\<not> ?n - 21 < 256" "?n - 21 - 256 < 65536"
    "(?n - 21 - 256) div 2 ^ 8 = o1" "(?n - 21 - 256) mod 256 = o2"
    using n by (simp_all add: file_blocks_def o1_def o2_def max_blocks_def)
  have "lkfs_truncate_blocks K bh nd s = Inr (cut ?n nd, y, Some (unat (i_data nd 22)))"
    unfolding lkfs_truncate_blocks_def block_indices Let_def sizes(1,5,6)
    using t(1) u(1) v(1) b w(1) rd x(1) y(1) c sizes(2-4) by (simp add: lkfs_free_block_eq)
  moreover have "gone s (freed_blocks s nd (freed_slots ?n)) y"
    using y(2) unfolding sl by (simp only: freed_blocks_append append_assoc)
  ultimately show ?thesis by blast
qed


lemma truncate_run:
  assumes "ready K s nd" "file_blocks nd < max_blocks" "no_meta_holes s nd (file_blocks nd)"
  shows "\<exists>u. lkfs_truncate_blocks K bh nd s = Inr (cut (file_blocks nd) nd, u,
      if file_blocks nd < 277 then bh else Some (unat (i_data nd 22)))
    \<and> gone s (freed_blocks s nd (freed_slots (file_blocks nd))) u"
  using truncate_small [OF assms(1)] truncate_medium [OF assms(1) _ _ assms(3)]
    truncate_large [OF assms(1) _ assms(2,3)]
  by (cases "file_blocks nd < 21"; cases "file_blocks nd < 277") auto

section \<open>Files without holes\<close>

text \<open>The slots a file of \<open>n\<close> blocks needs, and a file that has exactly these.\<close>

definition needed :: "nat \<Rightarrow> slot \<Rightarrow> bool" where
  "needed n a \<longleftrightarrow> (\<exists>ib < n. a \<in> set (path ib))"

definition compact :: "lkfs \<Rightarrow> inode \<Rightarrow> bool" where
  "compact s nd \<longleftrightarrow> (\<forall>a. valid_slot a \<longrightarrow> (ptr_of s nd a \<noteq> 0 \<longleftrightarrow> needed (file_blocks nd) a))"

text \<open>Sizes at which the last pointer block is in use; the code goes wrong at the others.\<close>

definition good_size :: "nat \<Rightarrow> bool" where
  "good_size n \<longleftrightarrow> n \<noteq> 21 \<and> (n < 277 \<or> (n - 277) mod 256 \<noteq> 0)"

lemma needed_simps:
  "needed n (Dir i) \<longleftrightarrow> i < n \<and> i < 21" "needed n IndR \<longleftrightarrow> 21 < n"
  "needed n (Ind k) \<longleftrightarrow> k + 21 < n \<and> k < 256" "needed n DinR \<longleftrightarrow> 277 < n"
  "needed n (L1 j) \<longleftrightarrow> 277 + 256 * j < n" "needed n (L2 j k) \<longleftrightarrow> 277 + 256 * j + k < n \<and> k < 256"
proof -
  note d = needed_def path_def
  show "needed n (Dir i) \<longleftrightarrow> i < n \<and> i < 21"
  proof
    show "needed n (Dir i) \<Longrightarrow> i < n \<and> i < 21" by (auto simp: d split: if_splits)
  qed (unfold d, rule exI [of _ i], simp)
  show "needed n IndR \<longleftrightarrow> 21 < n"
  proof
    show "needed n IndR \<Longrightarrow> 21 < n" by (auto simp: d split: if_splits)
  qed (unfold d, rule exI [of _ 21], simp)
  show "needed n (Ind k) \<longleftrightarrow> k + 21 < n \<and> k < 256"
  proof
    show "needed n (Ind k) \<Longrightarrow> k + 21 < n \<and> k < 256" by (auto simp: d split: if_splits)
  qed (unfold d, rule exI [of _ "k + 21"], simp)
  show "needed n DinR \<longleftrightarrow> 277 < n"
  proof
    show "needed n DinR \<Longrightarrow> 277 < n" by (auto simp: d split: if_splits)
  qed (unfold d, rule exI [of _ 277], simp)
  show "needed n (L1 j) \<longleftrightarrow> 277 + 256 * j < n"
  proof
    assume "needed n (L1 j)"
    then obtain ib where "ib < n" "277 \<le> ib" "(ib - 277) div 256 = j" by (auto simp: d split: if_splits)
    then show "277 + 256 * j < n" using div_times_less_eq_dividend [of "ib - 277" 256] by linarith
  qed (unfold d, rule exI [of _ "277 + 256 * j"], simp)
  show "needed n (L2 j k) \<longleftrightarrow> 277 + 256 * j + k < n \<and> k < 256"
  proof
    assume "needed n (L2 j k)"
    then obtain ib where ib: "ib < n" "277 \<le> ib" "(ib - 277) div 256 = j" "(ib - 277) mod 256 = k"
      by (auto simp: d split: if_splits)
    then have "ib - 277 = 256 * j + k" using mult_div_mod_eq [of 256 "ib - 277"] by simp
    with ib show "277 + 256 * j + k < n \<and> k < 256" by auto
  qed (unfold d, rule exI [of _ "277 + 256 * j + k"], simp)
qed

lemma freed_slots_needed:
  assumes "good_size n"
  shows "a \<in> set (freed_slots n) \<longleftrightarrow> needed n a"
proof -
  consider "n < 21" | "21 < n" "n < 277" | "277 \<le> n" "(n - 277) mod 256 \<noteq> 0"
    using assms unfolding good_size_def by linarith
  then show ?thesis
  proof cases
    case 1
    then show ?thesis by (cases a) (auto simp: freed_slots.simps needed_simps)
  next
    case 2
    then show ?thesis by (cases a) (auto simp: freed_slots.simps needed_simps image_iff)
  next
    case 3
    define o1 where "o1 = (n - 277) div 256"
    define o2 where "o2 = (n - 277) mod 256"
    have n: "n = 277 + 256 * o1 + o2" "o2 < 256" "0 < o2"
      using mult_div_mod_eq [of 256 "n - 277"] 3 unfolding o1_def o2_def by auto
    have "set (freed_slots n) = Dir ` {0..<21} \<union> Ind ` {0..<256} \<union> {IndR}
        \<union> (\<Union>j<o1. L2 j ` {0..<256} \<union> {L1 j}) \<union> L2 o1 ` {0..<o2} \<union> {L1 o1, DinR}"
      using 3(1) by (auto simp: freed_slots.simps o1_def o2_def)
    moreover have "277 + 256 * j < n \<longleftrightarrow> j < o1 \<or> j = o1" for j using n by linarith
    moreover have "277 + 256 * j + k < n \<longleftrightarrow> j < o1 \<or> j = o1 \<and> k < o2" if "k < 256" for j k
      using n that by linarith
    ultimately show ?thesis
      using 3(1) n by (cases a) (auto simp: needed_simps image_iff)
  qed
qed

lemma freed_slots_distinct: "distinct (freed_slots n)"
proof -
  have "distinct (concat (map (\<lambda>j. map (L2 j) [0..<256] @ [L1 j]) [0..<m]))" for m
    by (induction m) (auto simp: distinct_map inj_on_def)
  then show ?thesis by (auto simp: freed_slots.simps distinct_map inj_on_def)
qed

lemma freed_slots_valid: "n < max_blocks \<Longrightarrow> a \<in> set (freed_slots n) \<Longrightarrow> valid_slot a"
  by (auto simp: freed_slots.simps max_blocks_def less_mult_imp_div_less split: if_splits)

lemma frees_count:
  assumes f: "frees s ns s'" and ok: "free_count_ok s" and d: "distinct ns"
    and ns: "\<forall>n \<in> set ns. used_block s n \<and> n < blocks_count s"
  shows "free_count_ok s'"
proof -
  let ?F = "\<lambda>s. {b. b < blocks_count s \<and> \<not> used_block s b}"
  note D = freesD [OF f]
  have "?F s' = ?F s \<union> set ns" using D(2) ns by (auto simp: same_geometry_sizes(1) [OF D(1)])
  moreover have "finite (?F s)" "?F s \<inter> set ns = {}" using ns by auto
  ultimately have c: "card (?F s') = card (?F s) + length ns"
    using d by (simp add: card_Un_disjoint distinct_card)
  have "card (?F s') \<le> blocks_count s"
    using card_mono [of "{..<blocks_count s}" "?F s'"] same_geometry_sizes(1) [OF D(1)] by auto
  also have "\<dots> < 2 ^ 32" unfolding blocks_count_def using unsigned_less [of "s_blocks_count (es s)"] by simp
  finally have "unat (s_free_blocks_count (es s)) + length ns < 2 ^ 32"
    using c ok by (simp add: free_count_ok_def)
  then have "unat (s_free_blocks_count (es s') ) = unat (s_free_blocks_count (es s)) + length ns"
    unfolding D(5) by (subst unat_add_lem [THEN iffD1]) (simp_all add: unat_of_nat take_bit_nat_eq_self)
  with c ok show ?thesis by (simp add: free_count_ok_def)
qed


section \<open>Properties of truncation\<close>

lemma freed_blocks_set:
  "set (freed_blocks s nd as) = {unat (ptr_of s nd a) |a. a \<in> set as \<and> ptr_of s nd a \<noteq> 0}"
  by (auto simp: freed_blocks_def)

lemma compact_freed:
  assumes "compact s nd" "good_size (file_blocks nd)" "file_blocks nd < max_blocks"
  shows "no_meta_holes s nd (file_blocks nd)"
    "set (freed_blocks s nd (freed_slots (file_blocks nd)))
       = {unat (ptr_of s nd a) |a. valid_slot a \<and> ptr_of s nd a \<noteq> 0}"
  using assms freed_slots_needed [OF assms(2)] freed_slots_valid [OF assms(3)]
  unfolding no_meta_holes_def freed_blocks_set compact_def by blast+

lemma freed_blocks_distinct:
  assumes "imap_wf s nd" "n < max_blocks"
  shows "distinct (freed_blocks s nd (freed_slots n))"
proof -
  have "inj_on (\<lambda>a. unat (ptr_of s nd a)) {a. valid_slot a \<and> ptr_of s nd a \<noteq> 0}"
    using imap_wfD(2) [OF assms(1)] by (auto simp: inj_on_def word_unat_eq_iff)
  then show ?thesis
    unfolding freed_blocks_def distinct_map
    using freed_slots_distinct freed_slots_valid [OF assms(2)] by (auto elim: inj_on_subset)
qed

lemma freed_blocks_ok:
  assumes "imap_wf s nd" "n < max_blocks"
  shows "\<forall>b \<in> set (freed_blocks s nd (freed_slots n)). block_ok s b"
  using imap_wfD(1) [OF assms(1)] freed_slots_valid [OF assms(2)] by (auto simp: freed_blocks_set)

lemma cut_ptrs:
  assumes "compact s nd" "valid_slot a"
  shows "ptr_of s' (cut (file_blocks nd) nd) a = 0"
proof -
  have "i_data nd i = 0" if "i < 21" "file_blocks nd \<le> i" for i
    using assms(1) that unfolding compact_def by (auto dest!: spec [of _ "Dir i"] simp: needed_simps)
  moreover have "i_data nd 21 = 0" if "file_blocks nd < 21"
    using assms(1) that unfolding compact_def by (auto dest!: spec [of _ IndR] simp: needed_simps)
  moreover have "i_data nd 22 = 0" if "file_blocks nd < 277"
    using assms(1) that unfolding compact_def by (auto dest!: spec [of _ DinR] simp: needed_simps)
  ultimately have "i_data (cut (file_blocks nd) nd) i = 0" if "i < 21 \<or> i = 21 \<or> i = 22" for i
    using that by (auto simp: cut_def)
  with assms(2) show ?thesis by (cases a) (auto simp: below_def)
qed

lemma truncate_effect_more:
  assumes "fs_wf s" "bits_spec K" "readable K s" "imap_wf s nd" "compact s nd"
    and "file_blocks nd < max_blocks" "good_size (file_blocks nd)" "free_count_ok s"
  shows "\<exists>nd' s' rel. lkfs_truncate_blocks K bh nd s = Inr (nd', s', rel) \<and> fs_wf s' \<and> free_count_ok s'
    \<and> (\<forall>b. used_block s' b \<longleftrightarrow>
         used_block s b \<and> \<not> (\<exists>a. valid_slot a \<and> ptr_of s nd a \<noteq> 0 \<and> unat (ptr_of s nd a) = b))
    \<and> (\<forall>x \<ge> inode_table_offset s. bufs s' x = bufs s x) \<and> used_ino s' = used_ino s
    \<and> (\<forall>a. valid_slot a \<longrightarrow> ptr_of s' nd' a = 0)
    \<and> i_ino nd' = i_ino nd \<and> s_free_inodes_count (es s') = s_free_inodes_count (es s)
    \<and> s_sib s' = s_sib s"
proof -
  have r: "ready K s nd" using assms(1-4) by (simp add: ready_def)
  note C = compact_freed [OF assms(5,7,6)]
  let ?ns = "freed_blocks s nd (freed_slots (file_blocks nd))"
  obtain u rel where u: "lkfs_truncate_blocks K bh nd s = Inr (cut (file_blocks nd) nd, u, rel)"
    and g: "gone s ?ns u"
    using truncate_run [OF r assms(6) C(1)] by blast
  then have f: "frees s ?ns u" and wf: "fs_wf u" by (simp_all add: gone_def)
  have "free_count_ok u"
    using frees_count [OF f assms(8) freed_blocks_distinct [OF assms(4,6)]] freed_blocks_ok [OF assms(4,6)]
    by (auto simp: block_ok_def)
  moreover have "used_block u b \<longleftrightarrow>
      used_block s b \<and> \<not> (\<exists>a. valid_slot a \<and> ptr_of s nd a \<noteq> 0 \<and> unat (ptr_of s nd a) = b)" for b
    unfolding freesD(2) [OF f] C(2) by blast
  ultimately show ?thesis
    using u wf freesD(3,4) [OF f] cut_ptrs [OF assms(5), of _ u]
      same_geometry_sizes(5) [OF freesD(1) [OF f]] freesD(6) [OF f]
    by (intro exI [of _ "cut (file_blocks nd) nd"] exI [of _ u] exI [of _ rel]) (simp add: cut_def)
qed

text \<open>C4: deleting the blocks of a file without holes, whose size leaves its last pointer block in use,
  frees exactly the blocks of the file, data and pointer blocks alike: nothing of it stays used,
  nothing else is freed, the free counter stays exact, every other block keeps its contents and
  the file's pointers are gone.\<close>

theorem truncate_correct:
  assumes "fs_wf s" "bits_spec K" "readable K s" "imap_wf s nd" "compact s nd"
    and "file_blocks nd < max_blocks" "good_size (file_blocks nd)" "free_count_ok s"
  shows "\<exists>nd' s' rel. lkfs_truncate_blocks K bh nd s = Inr (nd', s', rel) \<and> fs_wf s' \<and> free_count_ok s'
    \<and> (\<forall>b. used_block s' b \<longleftrightarrow>
         used_block s b \<and> \<not> (\<exists>a. valid_slot a \<and> ptr_of s nd a \<noteq> 0 \<and> unat (ptr_of s nd a) = b))
    \<and> (\<forall>x \<ge> inode_table_offset s. bufs s' x = bufs s x) \<and> used_ino s' = used_ino s
    \<and> (\<forall>a. valid_slot a \<longrightarrow> ptr_of s' nd' a = 0)"
  using truncate_effect_more [OF assms] by blast

text \<open>A sample file of two blocks.\<close>

definition sample_file :: inode where
  "sample_file = blank_inode\<lparr>i_ino := 5, i_size := 1500, i_data := (\<lambda>_. 0)(0 := 8, 1 := 9)\<rparr>"

lemma sample_file_ptr:
  "ptr_of s sample_file a = (if a = Dir 0 then 8 else if a = Dir 1 then 9 else 0)"
  by (cases a) (simp_all add: sample_file_def below_def)

lemma sample_file_wf: "imap_wf (sample_fs 10 v) sample_file" "compact s sample_file"
  "file_blocks sample_file = 2"
proof -
  show n: "file_blocks sample_file = 2" by (simp add: file_blocks_def sample_file_def)
  show "imap_wf (sample_fs 10 v) sample_file"
    by (auto simp: imap_wf_def sample_file_ptr block_ok_def)
  show "compact s sample_file"
    unfolding compact_def
  proof (intro allI impI)
    fix a assume "valid_slot a"
    then show "ptr_of s sample_file a \<noteq> 0 \<longleftrightarrow> needed (file_blocks sample_file) a"
      unfolding sample_file_ptr n by (cases a) (auto simp: needed_simps)
  qed
qed

theorem truncate_correct_witness:
  "\<exists>nd' s' rel. lkfs_truncate_blocks plain_kernel None sample_file (sample_fs 10 11) = Inr (nd', s', rel)
     \<and> \<not> used_block s' 8 \<and> \<not> used_block s' 9 \<and> used_block s' 7"
proof -
  have p: "fs_wf (sample_fs 10 11)" "readable plain_kernel (sample_fs 10 11)"
    using sample_ready [of 10 11] by (simp_all add: ready_def)
  have n: "file_blocks sample_file < max_blocks" "good_size (file_blocks sample_file)"
    "free_count_ok (sample_fs 10 11)"
    by (simp_all add: sample_file_wf max_blocks_def good_size_def sample_free_count)
  obtain nd' s' rel where
    "lkfs_truncate_blocks plain_kernel None sample_file (sample_fs 10 11) = Inr (nd', s', rel)"
    and u: "\<forall>b. used_block s' b \<longleftrightarrow> used_block (sample_fs 10 11) b
      \<and> \<not> (\<exists>a. valid_slot a \<and> ptr_of (sample_fs 10 11) sample_file a \<noteq> 0
            \<and> unat (ptr_of (sample_fs 10 11) sample_file a) = b)"
    using truncate_correct [OF p(1) plain_kernel_bits p(2) sample_file_wf(1,2) n, of None] by blast
  moreover have "\<not> used_block s' 8"
    using u by (auto simp: sample_file_ptr intro!: exI [of _ "Dir 0"])
  moreover have "\<not> used_block s' 9"
    using u by (auto simp: sample_file_ptr intro!: exI [of _ "Dir 1"])
  moreover have "used_block s' 7" using u by (auto simp: sample_file_ptr)
  ultimately show ?thesis by blast
qed

text \<open>for a file of exactly 21 blocks, which has no indirect block, the code takes the branch for
  indirect files and frees block 0: the boot block of the device becomes allocatable, one block
  too many is counted as free, and the volume's invariant is broken. For files below 277 blocks
  the buffer released at the end is whatever the uninitialised local held.\<close>

lemma truncate_21_frees_block_0:
  assumes "fs_wf s" "bits_spec K" "readable K s" "imap_wf s nd" "k_bread_ok K 0"
    and "file_blocks nd = 21" "i_data nd 21 = 0" "\<forall>i < 21. i_data nd i \<noteq> 0"
  shows "\<exists>nd' s'. lkfs_truncate_blocks K bh nd s = Inr (nd', s', bh) \<and> used_block s 0
    \<and> \<not> used_block s' 0 \<and> \<not> fs_wf s'
    \<and> s_free_blocks_count (es s') = s_free_blocks_count (es s) + 22"
proof -
  have r: "ready K s nd" using assms(1-4) by (simp add: ready_def)
  let ?ns = "freed_blocks s nd (map Dir [0..<21])"
  obtain t where t: "free_direct K 0 21 (nd, s) = Inr (clear_ptrs 0 21 nd, t)" "gone s ?ns t"
    using gone_direct [OF r, of 21] by auto
  have d: "0 < data_start s" using fs_wfD(12,13) [OF assms(1)] by linarith
  then have u0: "used_block s 0" by (rule fs_wfD(11) [OF assms(1)])
  then have "s_sbb s \<noteq> []" by (auto simp: used_block_def used_bit_def)
  then have "s_sbb t \<noteq> []" using t(2) by (auto simp: gone_def same_geometry_sizes dest: freesD(1))
  then have l: "unat (0 :: u32) < 8192 * length (s_sbb t)" by simp
  obtain u where u: "lkfs_free_meta_block K 0 t = Inr u" "frees t [unat (0 :: u32)] u"
    using free_meta_frees_any [OF goneD(1) [OF t(2)] assms(2) l] by blast
  have f: "frees s (?ns @ [0]) u" using t(2) u(2) frees_append by (auto simp: gone_def)
  have "length ?ns = 21" using assms(8) by (subst freed_blocks_full) auto
  then have "s_free_blocks_count (es u) = s_free_blocks_count (es s) + 22"
    using freesD(5) [OF f] by simp
  moreover have n0: "\<not> used_block u 0" using freesD(2) [OF f] by simp
  moreover have "\<not> fs_wf u"
    using n0 d fs_wfD(11) [of u 0] same_geometry_sizes(3) [OF freesD(1) [OF f]] by auto
  moreover have "lkfs_truncate_blocks K bh nd s = Inr ((clear_ptrs 0 21 nd)
      \<lparr>i_data := (i_data (clear_ptrs 0 21 nd))(21 := 0)\<rparr>, u, bh)"
  proof -
    have n: "(i_size nd + 1023) div 2 ^ 10 = 21" using assms(6) by (simp add: file_blocks_def)
    show ?thesis
      unfolding lkfs_truncate_blocks_def block_indices Let_def n
      using t(1) u(1) assms(5,7)
      by (simp add: lkfs_free_block_eq lkfs_free_meta_blocks_def sb_bread_def)
  qed
  ultimately show ?thesis using u0 by blast
qed

definition sample_file21 :: inode where
  "sample_file21 = blank_inode\<lparr>i_size := 21 * 1024,
     i_data := (\<lambda>i. if i < 21 then of_nat (8 + i) else 0)\<rparr>"

lemma sample_file21_ptr:
  "ptr_of s sample_file21 a = (case a of Dir i \<Rightarrow> if i < 21 then of_nat (8 + i) else 0 | _ \<Rightarrow> 0)"
  by (cases a) (simp_all add: sample_file21_def below_def)

lemma small_word: "n < 100 \<Longrightarrow> unat (of_nat n :: u32) = n"
  by (simp add: unat_of_nat take_bit_nat_eq_self)

lemma sample_file21_wf: "imap_wf (sample_fs 29 v) sample_file21"
proof -
  have "(of_nat (8 + i) :: u32) \<noteq> of_nat (8 + j)" if "i < 21" "j < 21" "i \<noteq> j" for i j
    using that small_word [of "8 + i"] small_word [of "8 + j"] by auto
  then show ?thesis
    unfolding imap_wf_def block_ok_def sample_file21_ptr
    by (auto simp: small_word simp del: of_nat_add split: slot.splits if_splits)
qed

theorem truncate_21_frees_block_0_witness:
  "\<exists>nd' s'. lkfs_truncate_blocks plain_kernel (Some 77) sample_file21 (sample_fs 29 11)
     = Inr (nd', s', Some 77) \<and> \<not> used_block s' 0"
proof -
  have p: "fs_wf (sample_fs 29 11)" "readable plain_kernel (sample_fs 29 11)" "k_bread_ok plain_kernel 0"
    using sample_ready [of 29 11] by (simp_all add: ready_def plain_kernel_def)
  have q: "file_blocks sample_file21 = 21" "i_data sample_file21 21 = 0"
    by (simp_all add: file_blocks_def sample_file21_def)
  have "(of_nat (8 + i) :: u32) \<noteq> 0" if "i < 21" for i
    using that small_word [of "8 + i"] by auto
  then have "\<forall>i < 21. i_data sample_file21 i \<noteq> 0" by (simp add: sample_file21_def del: of_nat_add)
  from truncate_21_frees_block_0 [OF p(1) plain_kernel_bits p(2) sample_file21_wf p(3) q this, of "Some 77"]
  show ?thesis by blast
qed

end
