(* ===== verification/Ialloc.thy ===== *)
theory Ialloc
  imports Alloc Vfs_Api
begin

text \<open>
  Inode allocation, \<open>src/lkfs/ialloc.c\<close>: \<open>lkfs_new_inode\<close> up to its label \<open>fail_drop\<close>, and
  \<open>lkfs_free_inode\<close>. Inode number \<open>n\<close> is bit \<open>n\<close> of the inode bitmaps. The label drops the
  inode with \<open>iput\<close>, which calls \<open>lkfs_delete_inode\<close>; it follows in \<open>Inode_IO\<close>.
\<close>

text \<open>
  How the body of \<open>lkfs_new_inode\<close> ends: \<open>new_inode\<close> failed, the jump to \<open>fail_drop\<close> with the
  inode as it is then and the value of \<open>err\<close>, or the inode is returned. \<open>err\<close> is set only when
  \<open>insert_inode_locked\<close> failed, and is indeterminate when no inode number was free.
\<close>

datatype inode_claim = NoInode | Dropped inode int | Claimed inode

definition new_inode_claim :: "'v vfs_scheme \<Rightarrow> inode \<Rightarrow> u16 \<Rightarrow> lkfs \<Rightarrow> (inode_claim \<times> lkfs) res" where
  "new_inode_claim K dir mode s =
     (case k_new_inode K of
        None \<Rightarrow> Inr (NoInode, s)
      | Some nd \<Rightarrow>
        rbind (find_free_bit (k_find_next_zero_bit K) (bufs s) (s_sib s)
                 (unat (s_inode_bitmap_count (es s))) 0 0)
          (\<lambda>(i, ino).
             if i * LKFS_INODES_PER_BITMAP + ino \<ge> unat (s_inodes_count (es s))
             then Inr (Dropped nd (k_garbage K), s)
             else if length (s_sib s) \<le> i then Inl OutOfBounds
             else
               let bh = s_sib s ! i;
                   s = set_buf bh (snd (k_test_and_set_le_bit K ino (bufs s bh))) s;
                   s = mark_buffer_dirty (s_sbh s) s;
                   ino = i * LKFS_INODES_PER_BITMAP + ino;
                   s = s\<lparr>s_dirt := True\<rparr>;
                   nd = k_inode_init_owner K nd dir mode;
                   nd = nd\<lparr>ei_new := True, i_ino := ino, i_blocks := 0, i_mtime := k_now K,
                          i_atime := k_now K, i_ctime := k_now K, i_data := (\<lambda>_. 0)\<rparr>;
                   s = set_free_inodes (s_free_inodes_count (es s) - 1) s
               in if \<not> k_insert_inode_ok K ino then Inr (Dropped nd (- EINVAL), s)
                  else Inr (Claimed nd, mark_buffer_dirty bh s)))"

definition lkfs_free_inode :: "'k kernel_scheme \<Rightarrow> inode \<Rightarrow> lkfs \<Rightarrow> lkfs res" where
  "lkfs_free_inode K nd s =
     (let ino = i_ino nd;
          block = ino div 2 ^ LKFS_BITS_PER_BLOCKS;
          off = ino mod LKFS_INODES_PER_BITMAP
      in if length (s_sib s) \<le> block then Inl OutOfBounds
         else
           let bh = s_sib s ! block;
               s = set_buf bh (snd (k_test_and_clear_bit K off (bufs s bh))) s;
               s = set_free_inodes (s_free_inodes_count (es s) + 1) s;
               s = mark_buffer_dirty (s_sbh s) s;
               s = mark_buffer_dirty bh s
           in Inr s)"

section \<open>The effect on the bitmaps\<close>

definition lowest_free_ino :: "lkfs \<Rightarrow> nat \<Rightarrow> bool" where
  "lowest_free_ino s n \<longleftrightarrow>
     n < 8192 * length (s_sib s) \<and> \<not> used_ino s n \<and> (\<forall>k < n. used_ino s k)"

lemma lowest_free_ino_unique: "lowest_free_ino s n \<Longrightarrow> lowest_free_ino s m \<Longrightarrow> n = m"
  unfolding lowest_free_ino_def by (metis linorder_neqE_nat)

lemma lowest_free_ino_exists:
  assumes "n < 8192 * length (s_sib s)" "\<not> used_ino s n"
  shows "\<exists>m \<le> n. lowest_free_ino s m"
proof -
  define m where "m = (LEAST k. \<not> used_ino s k)"
  have "\<not> used_ino s m" unfolding m_def using assms(2) by (rule LeastI)
  moreover have le: "m \<le> n" unfolding m_def using assms(2) by (rule Least_le)
  moreover have "\<forall>k < m. used_ino s k" unfolding m_def using not_less_Least by blast
  moreover have "m < 8192 * length (s_sib s)" using le assms(1) by (rule le_less_trans)
  ultimately show ?thesis unfolding lowest_free_ino_def by blast
qed

definition flip_ino :: "(mem \<Rightarrow> mem) \<Rightarrow> u32 \<Rightarrow> nat \<Rightarrow> lkfs \<Rightarrow> lkfs" where
  "flip_ino f d n s =
     (let bh = s_sib s ! (n div 8192);
          s = set_buf bh (f (bufs s bh)) s
      in set_free_inodes (s_free_inodes_count (es s) + d) s)"

lemma sib_nth:
  assumes "fs_wf s" "n < 8192 * length (s_sib s)"
  shows "n div 8192 < length (s_sib s)" "s_sib s ! (n div 8192) \<noteq> 1"
    "s_sib s ! (n div 8192) \<in> set (s_sib s)"
proof -
  show l: "n div 8192 < length (s_sib s)"
    using assms(2) by (simp add: less_mult_imp_div_less mult.commute)
  then show m: "s_sib s ! (n div 8192) \<in> set (s_sib s)" by simp
  from fs_wf_sets(4) [OF assms(1) m] show "s_sib s ! (n div 8192) \<noteq> 1" by simp
qed

lemma flip_ino_facts:
  assumes wf: "fs_wf s" and n: "n < 8192 * length (s_sib s)"
  shows "es (flip_ino f d n s) = (es s)\<lparr>s_free_inodes_count := s_free_inodes_count (es s) + d\<rparr>"
    "same_geometry s (flip_ino f d n s)"
    "x \<noteq> 1 \<Longrightarrow> x \<notin> set (s_sib s) \<Longrightarrow> bufs (flip_ino f d n s) x = bufs s x"
    "used_block (flip_ino f d n s) = used_block s"
    "used_ino (flip_ino f d n s) = used_bit
      ((bufs s)(s_sib s ! (n div 8192) := f (bufs s (s_sib s ! (n div 8192))))) (s_sib s)"
proof -
  let ?bh = "s_sib s ! (n div 8192)"
  note h = sib_nth [OF wf n] and sbh = fs_wfD(1) [OF wf]
  show e: "es (flip_ino f d n s) = (es s)\<lparr>s_free_inodes_count := s_free_inodes_count (es s) + d\<rparr>"
    using h sbh by (simp add: flip_ino_def Let_def)
  show "same_geometry s (flip_ino f d n s)"
    unfolding same_geometry_def e by (simp add: flip_ino_def Let_def)
  have fr: "bufs (flip_ino f d n s) y = bufs s y" if "y \<noteq> 1" "y \<notin> set (s_sib s)" for y
    using h sbh that by (auto simp: flip_ino_def Let_def)
  then show "x \<noteq> 1 \<Longrightarrow> x \<notin> set (s_sib s) \<Longrightarrow> bufs (flip_ino f d n s) x = bufs s x" by simp
  have hb: "bufs (flip_ino f d n s) y = ((bufs s)(?bh := f (bufs s ?bh))) y" if "y \<noteq> 1" for y
    using h sbh that by (auto simp: flip_ino_def Let_def)
  have sb: "s_sbb (flip_ino f d n s) = s_sbb s" "s_sib (flip_ino f d n s) = s_sib s"
    by (simp_all add: flip_ino_def Let_def)
  show "used_ino (flip_ino f d n s) = used_bit ((bufs s)(?bh := f (bufs s ?bh))) (s_sib s)"
    unfolding used_ino_def sb by (rule used_bit_agree, rule hb) (use fs_wf_sets(4) [OF wf] in blast)
  show "used_block (flip_ino f d n s) = used_block s"
    unfolding used_block_def sb
    by (rule used_bit_agree) (use fr fs_wf_sets(3,5) [OF wf] in blast)
qed


lemma dirt_sel [simp]:
  "es (s\<lparr>s_dirt := d\<rparr>) = es s" "used_block (s\<lparr>s_dirt := d\<rparr>) = used_block s"
  "used_ino (s\<lparr>s_dirt := d\<rparr>) = used_ino s" "used_block (mark_buffer_dirty b s) = used_block s"
  "used_ino (mark_buffer_dirty b s) = used_ino s"
  by (simp_all add: es_def used_block_def used_ino_def)

definition claim_ino :: "'k kernel_scheme \<Rightarrow> nat \<Rightarrow> lkfs \<Rightarrow> lkfs" where
  "claim_ino K n s = mark_buffer_dirty (s_sbh s)
     ((flip_ino (\<lambda>m. snd (k_test_and_set_le_bit K (n mod 8192) m)) (- 1) n s)\<lparr>s_dirt := True\<rparr>)"

definition unclaim_ino :: "'k kernel_scheme \<Rightarrow> nat \<Rightarrow> lkfs \<Rightarrow> lkfs" where
  "unclaim_ino K n s = mark_buffer_dirty (s_sib s ! (n div 8192)) (mark_buffer_dirty (s_sbh s)
     (flip_ino (\<lambda>m. snd (k_test_and_clear_bit K (n mod 8192) m)) 1 n s))"

lemma claim_ino_used:
  assumes wf: "fs_wf s" and K: "bits_spec K" and n: "n < 8192 * length (s_sib s)"
  shows "used_ino (claim_ino K n s) k \<longleftrightarrow> k = n \<or> used_ino s k"
  using used_bit_set [OF bits_specD(3) [OF K] fs_wfD(3) [OF wf] sib_nth(1) [OF wf n],
      of "n mod 8192" "bufs s" k]
  by (simp add: claim_ino_def flip_ino_facts(5) [OF wf n]) (simp add: used_ino_def)

lemma unclaim_ino_used:
  assumes wf: "fs_wf s" and K: "bits_spec K" and n: "n < 8192 * length (s_sib s)"
  shows "used_ino (unclaim_ino K n s) k \<longleftrightarrow> k \<noteq> n \<and> used_ino s k"
  using used_bit_clear [OF bits_specD(3) [OF K] fs_wfD(3) [OF wf] sib_nth(1) [OF wf n],
      of "n mod 8192" "bufs s" k]
  by (simp add: unclaim_ino_def flip_ino_facts(5) [OF wf n]) (simp add: used_ino_def)

lemma claim_ino_facts:
  assumes wf: "fs_wf s" and n: "n < 8192 * length (s_sib s)"
  shows "es (claim_ino K n s) = (es s)\<lparr>s_free_inodes_count := s_free_inodes_count (es s) - 1\<rparr>"
    "same_geometry s (claim_ino K n s)" "fs_wf (claim_ino K n s)"
    "x \<noteq> 1 \<Longrightarrow> x \<notin> set (s_sib s) \<Longrightarrow> bufs (claim_ino K n s) x = bufs s x"
    "used_block (claim_ino K n s) = used_block s" "s_dirt (claim_ino K n s)"
    "s_sib (claim_ino K n s) = s_sib s"
proof -
  note F = flip_ino_facts [OF wf n]
  show "es (claim_ino K n s) = (es s)\<lparr>s_free_inodes_count := s_free_inodes_count (es s) - 1\<rparr>"
    by (simp add: claim_ino_def F(1))
  show g: "same_geometry s (claim_ino K n s)"
    using F(2) by (simp add: claim_ino_def same_geometry_def)
  show u: "used_block (claim_ino K n s) = used_block s" by (simp add: claim_ino_def F(4))
  show "fs_wf (claim_ino K n s)" by (rule fs_wf_step [OF wf g]) (simp add: u)
  show "x \<noteq> 1 \<Longrightarrow> x \<notin> set (s_sib s) \<Longrightarrow> bufs (claim_ino K n s) x = bufs s x"
    by (simp add: claim_ino_def F(3))
  show "s_dirt (claim_ino K n s)" by (simp add: claim_ino_def mark_buffer_dirty_def)
  show "s_sib (claim_ino K n s) = s_sib s" by (simp add: same_geometry_sizes [OF g])
qed

lemma unclaim_ino_facts:
  assumes wf: "fs_wf s" and n: "n < 8192 * length (s_sib s)"
  shows "es (unclaim_ino K n s) = (es s)\<lparr>s_free_inodes_count := s_free_inodes_count (es s) + 1\<rparr>"
    "same_geometry s (unclaim_ino K n s)" "fs_wf (unclaim_ino K n s)"
    "used_block (unclaim_ino K n s) = used_block s"
proof -
  note F = flip_ino_facts [OF wf n]
  show "es (unclaim_ino K n s) = (es s)\<lparr>s_free_inodes_count := s_free_inodes_count (es s) + 1\<rparr>"
    by (simp add: unclaim_ino_def F(1))
  show g: "same_geometry s (unclaim_ino K n s)"
    using F(2) by (simp add: unclaim_ino_def same_geometry_def)
  show u: "used_block (unclaim_ino K n s) = used_block s" by (simp add: unclaim_ino_def F(4))
  show "fs_wf (unclaim_ino K n s)" by (rule fs_wf_step [OF wf g]) (simp add: u)
qed

text \<open>The inode \<open>lkfs_new_inode\<close> returns.\<close>

definition fresh_inode :: "'v vfs_scheme \<Rightarrow> inode \<Rightarrow> inode \<Rightarrow> u16 \<Rightarrow> nat \<Rightarrow> inode" where
  "fresh_inode K nd dir mode n = (k_inode_init_owner K nd dir mode)
     \<lparr>ei_new := True, i_ino := n, i_blocks := 0, i_mtime := k_now K, i_atime := k_now K,
      i_ctime := k_now K, i_data := (\<lambda>_. 0)\<rparr>"

lemma bits_spec_vfs:
  assumes "bits_spec K"
  shows "next_zero_spec (k_find_next_zero_bit K)"
    "bitmap_ops (k_test_and_set_le_bit K) (k_test_and_clear_bit K)"
  using bits_specD [OF assms] by simp_all

lemma new_inode_claim_run:
  assumes wf: "fs_wf s" and K: "bits_spec K" and nd: "k_new_inode K = Some nd"
    and ne: "s_sib s \<noteq> []"
  shows "lowest_free_ino s n \<Longrightarrow> n < inodes_count s \<Longrightarrow>
      new_inode_claim K dir mode s =
        Inr (if k_insert_inode_ok K n
             then (Claimed (fresh_inode K nd dir mode n),
                   mark_buffer_dirty (s_sib s ! (n div 8192)) (claim_ino K n s))
             else (Dropped (fresh_inode K nd dir mode n) (- EINVAL), claim_ino K n s))"
    "\<forall>n < inodes_count s. used_ino s n \<Longrightarrow> new_inode_claim K dir mode s = Inr (Dropped nd (k_garbage K), s)"
proof -
  let ?nz = "k_find_next_zero_bit K" and ?hs = "s_sib s"
  obtain i b where run: "find_free_bit ?nz (bufs s) ?hs (length ?hs) 0 0 = Inr (i, b)"
    using find_free_bit_total by blast
  note F = find_free_bit_used [OF bits_spec_vfs(1) [OF K] ne run]
  have cnt: "unat (s_inode_bitmap_count (es s)) = length ?hs" by (rule fs_wfD(5) [OF wf])
  show "new_inode_claim K dir mode s = Inr (Dropped nd (k_garbage K), s)"
    if full: "\<forall>n < inodes_count s. used_ino s n"
  proof -
    have "inodes_count s \<le> i * 8192 + b"
    proof (rule ccontr)
      assume "\<not> inodes_count s \<le> i * 8192 + b"
      with full have u: "used_ino s (i * 8192 + b)" by simp
      show False
      proof (cases "i < length ?hs")
        case True
        with F(2) u show ?thesis by (simp add: used_ino_def)
      next
        case False
        with F(1,3) have "i * 8192 + b = 8192 * length ?hs + 8192" by simp
        with u show ?thesis by (simp add: used_ino_def used_bit_def)
      qed
    qed
    then show ?thesis
      by (simp add: new_inode_claim_def nd cnt run inodes_count_def LKFS_INODES_PER_BITMAP_def)
  qed
  show "new_inode_claim K dir mode s =
        Inr (if k_insert_inode_ok K n
             then (Claimed (fresh_inode K nd dir mode n),
                   mark_buffer_dirty (s_sib s ! (n div 8192)) (claim_ino K n s))
             else (Dropped (fresh_inode K nd dir mode n) (- EINVAL), claim_ino K n s))"
    if n: "lowest_free_ino s n" "n < inodes_count s"
  proof -
    have il: "i < length ?hs"
    proof (rule ccontr)
      assume "\<not> i < length ?hs"
      with F(1,3) have "i * 8192 + b = 8192 * length ?hs + 8192" by simp
      with F(4) [of n] n(1) show False by (simp add: lowest_free_ino_def used_ino_def)
    qed
    have "i * 8192 + b < 8192 * length ?hs" using F(2) [OF il] il by linarith
    then have "lowest_free_ino s (i * 8192 + b)"
      using F(2) [OF il] F(4) unfolding lowest_free_ino_def used_ino_def by auto
    with n have nb: "n = i * 8192 + b" using lowest_free_ino_unique by blast
    have d: "n div 8192 = i" "n mod 8192 = b" using F(2) [OF il] nb by auto
    show ?thesis
      using il n(2) unfolding new_inode_claim_def claim_ino_def flip_ino_def fresh_inode_def d
      by (simp add: nd cnt run inodes_count_def LKFS_INODES_PER_BITMAP_def Let_def nb)
         (simp add: state_defs es_def)
  qed
qed


lemma lkfs_free_inode_run:
  assumes "fs_wf s" "i_ino nd < 8192 * length (s_sib s)"
  shows "lkfs_free_inode K nd s = Inr (unclaim_ino K (i_ino nd) s)"
  using sib_nth(1) [OF assms]
  by (simp add: lkfs_free_inode_def unclaim_ino_def flip_ino_def Let_def
      LKFS_BITS_PER_BLOCKS_def LKFS_INODES_PER_BITMAP_def)

section \<open>The inode allocator meets the contract of allocators\<close>

text \<open>The part of \<open>lkfs_new_inode\<close> that claims a number, and \<open>lkfs_free_inode\<close>.\<close>

definition alloc_ino :: "'v vfs_scheme \<Rightarrow> inode \<Rightarrow> u16 \<Rightarrow> lkfs \<Rightarrow> (nat \<times> lkfs) option" where
  "alloc_ino K dir mode s = (case new_inode_claim K dir mode s of
     Inr (Claimed nd, s') \<Rightarrow> Some (i_ino nd, s') | _ \<Rightarrow> None)"

definition release_ino :: "'v vfs_scheme \<Rightarrow> nat \<Rightarrow> lkfs \<Rightarrow> lkfs" where
  "release_ino K n s = (case lkfs_free_inode K (blank_inode\<lparr>i_ino := n\<rparr>) s of Inl f \<Rightarrow> s | Inr s' \<Rightarrow> s')"

definition ino_range :: "lkfs \<Rightarrow> nat \<Rightarrow> bool" where
  "ino_range s n \<longleftrightarrow> n < inodes_count s"

lemma ino_range_sib: "fs_wf s \<Longrightarrow> ino_range s n \<Longrightarrow> n < 8192 * length (s_sib s)"
  using fs_wfD(8) by (fastforce simp: ino_range_def)

lemma mark_dirty_facts:
  "s_dirt (mark_buffer_dirty b s) = s_dirt s" "fs_wf (mark_buffer_dirty b s) = fs_wf s" "ino_range (mark_buffer_dirty b s) = ino_range s"
  by (simp_all add: fs_wf_def ino_range_def inodes_count_def blocks_count_def data_start_def fun_eq_iff)
     (simp add: mark_buffer_dirty_def)

lemma alloc_ino_Some:
  assumes wf: "fs_wf s" and K: "bits_spec K" and nd: "k_new_inode K = Some nd"
    and ok: "\<And>n. k_insert_inode_ok K n" and pos: "0 < inodes_count s"
  shows "alloc_ino K dir mode s = Some (n, s') \<longleftrightarrow> lowest_free_ino s n \<and> n < inodes_count s
    \<and> s' = mark_buffer_dirty (s_sib s ! (n div 8192)) (claim_ino K n s)"
proof -
  have ne: "s_sib s \<noteq> []" using fs_wfD(8) [OF wf] pos by auto
  note run = new_inode_claim_run [OF wf K nd ne]
  show ?thesis
  proof (cases "\<exists>m < inodes_count s. lowest_free_ino s m")
    case True
    then obtain m where m: "m < inodes_count s" "lowest_free_ino s m" by blast
    have "alloc_ino K dir mode s = Some (m, mark_buffer_dirty (s_sib s ! (m div 8192)) (claim_ino K m s))"
      by (simp add: alloc_ino_def run(1) [OF m(2,1)] ok fresh_inode_def)
    with m show ?thesis using lowest_free_ino_unique by auto
  next
    case False
    have "\<forall>n < inodes_count s. used_ino s n"
    proof (rule ccontr)
      assume "\<not> (\<forall>n < inodes_count s. used_ino s n)"
      then obtain n where n: "n < inodes_count s" "\<not> used_ino s n" by auto
      then have "n < 8192 * length (s_sib s)" using fs_wfD(8) [OF wf] by simp
      from lowest_free_ino_exists [OF this n(2)] n(1) False show False by auto
    qed
    then have "alloc_ino K dir mode s = None" by (simp add: alloc_ino_def run(2))
    with False show ?thesis by auto
  qed
qed

lemma inode_allocator:
  assumes K: "bits_spec K" and nd: "k_new_inode K = Some nd" and ok: "\<And>n. k_insert_inode_ok K n"
  shows "allocator (alloc_ino K dir mode) (release_ino K) used_ino ino_range
    (\<lambda>s. fs_wf s \<and> 0 < inodes_count s)"
proof
  fix s s' :: lkfs and n k :: nat
  assume inv: "fs_wf s \<and> 0 < inodes_count s"
  then have wf: "fs_wf s" and pos: "0 < inodes_count s" by auto
  note Some = alloc_ino_Some [OF wf K nd ok pos, where dir = dir and mode = mode]
  {
    assume "alloc_ino K dir mode s = Some (n, s')"
    then have n: "lowest_free_ino s n" "n < inodes_count s"
      "s' = mark_buffer_dirty (s_sib s ! (n div 8192)) (claim_ino K n s)"
      by (simp_all add: Some)
    then have lt: "n < 8192 * length (s_sib s)" by (simp add: lowest_free_ino_def)
    note C = claim_ino_facts [OF wf lt, where K = K]
    show "(fs_wf s' \<and> 0 < inodes_count s') \<and> ino_range s' = ino_range s"
      using n pos same_geometry_sizes(2) [OF C(2)]
      by (simp add: mark_dirty_facts C(3)) (simp add: ino_range_def fun_eq_iff inodes_count_def)
    show "ino_range s n \<and> \<not> used_ino s n"
      using n by (simp add: ino_range_def lowest_free_ino_def)
    show "used_ino s' k \<longleftrightarrow> k = n \<or> used_ino s k"
      using n claim_ino_used [OF wf K lt] by simp
  }
  {
    assume none: "alloc_ino K dir mode s = None" and r: "ino_range s n"
    show "used_ino s n"
    proof (rule ccontr)
      assume "\<not> used_ino s n"
      then obtain m where m: "m \<le> n" "lowest_free_ino s m"
        using lowest_free_ino_exists ino_range_sib [OF wf r] by blast
      with r have "m < inodes_count s" by (simp add: ino_range_def)
      with m none show False using Some [where n = m] by auto
    qed
  }
  assume r: "ino_range s n"
  note lt = ino_range_sib [OF wf r]
  have rel: "release_ino K n s = unclaim_ino K n s"
    using lt by (simp add: release_ino_def lkfs_free_inode_run [OF wf])
  note U = unclaim_ino_facts [OF wf lt, where K = K]
  show "(fs_wf (release_ino K n s) \<and> 0 < inodes_count (release_ino K n s))
      \<and> ino_range (release_ino K n s) = ino_range s"
    using pos same_geometry_sizes(2) [OF U(2)] by (simp add: rel U(3) ino_range_def fun_eq_iff)
  show "used_ino (release_ino K n s) k \<longleftrightarrow> k \<noteq> n \<and> used_ino s k"
    using unclaim_ino_used [OF wf K lt] by (simp add: rel)
qed

interpretation plain_inodes:
  allocator "alloc_ino plain_vfs dir mode" "release_ino plain_vfs" used_ino ino_range
    "\<lambda>s. fs_wf s \<and> 0 < inodes_count s"
  by (rule inode_allocator [OF plain_vfs_bits]) simp_all

section \<open>Properties of inode allocation\<close>

lemma lowest_free_ino_sample: "v < 8192 \<Longrightarrow> lowest_free_ino (sample_fs u v) v"
  by (simp add: lowest_free_ino_def)

text \<open>no inode number is given to two files: over any sequence of claims of inode numbers and
  releases of inodes held, the numbers held are distinct, below the inode count, and were free at
  the start.\<close>

lemma inodes_never_shared:
  assumes "fs_wf s" "bits_spec K" "k_new_inode K = Some nd" "\<And>n. k_insert_inode_ok K n"
    and "0 < inodes_count s"
    and "run_ops (alloc_ino K dir mode) (release_ino K) ops [] s = (held, s')"
  shows "fs_wf s' \<and> distinct held \<and> (\<forall>n \<in> set held. n < inodes_count s \<and> \<not> used_ino s n)
    \<and> (\<forall>k. used_ino s' k \<longleftrightarrow> k \<in> set held \<or> used_ino s k)"
  using allocator.run_ops_held [OF inode_allocator [OF assms(2-4)] assms(6), of "used_ino s"] assms(1,5)
  by (auto simp: ino_range_def)

theorem inodes_never_shared_witness:
  "distinct (fst (run_ops (alloc_ino plain_vfs blank_inode 33188) (release_ino plain_vfs)
     [Take, Take, Give 11, Take] [] (sample_fs 9 11)))"
  by (rule inodes_never_shared [OF sample_fs_wf plain_vfs_bits _ _ _ surjective_pairing,
        THEN conjunct2, THEN conjunct1]) simp_all

end
