(* ===== verification/Inode_IO.thy ===== *)
theory Inode_IO
  imports Truncate Ialloc
begin

text \<open>
  Inodes between memory and disk: \<open>lkfs_get_inode\<close>, \<open>__lkfs_write_inode\<close>,
  \<open>lkfs_write_inode\<close>, \<open>lkfs_iget\<close>, \<open>lkfs_sync_inode\<close>, \<open>lkfs_setattr\<close> and
  \<open>lkfs_delete_inode\<close> of \<open>src/lkfs/inode.c\<close>, and on top of them \<open>lkfs_new_inode\<close> of
  \<open>src/lkfs/ialloc.c\<close>, which drops the inode when it fails. The properties are the round trip through the
  inode table, that inodes do not overlap there, and that deleting an inode gives back
  everything it owned.
\<close>

section \<open>The code\<close>

text \<open>The place of an inode: block and offset in it. \<open>ino - 1\<close> is unsigned arithmetic.\<close>

definition pred_ino :: "nat \<Rightarrow> nat" where
  "pred_ino ino = (if ino = 0 then 2 ^ 64 - 1 else ino - 1)"

definition lkfs_get_inode :: "'k kernel_scheme \<Rightarrow> lkfs \<Rightarrow> nat \<Rightarrow> (nat \<times> nat) kptr" where
  "lkfs_get_inode K s ino =
     (let block = pred_ino ino div 2 ^ LKFS_INODE_PER_SB_BIT + inode_table_offset s;
          offset = pred_ino ino mod LKFS_INODE_PER_SB * LKFS_INODE_SIZE
      in case sb_bread K block of None \<Rightarrow> ERR_PTR (- EIO) | Some bh \<Rightarrow> Ptr (bh, offset))"

text \<open>The assignments to \<open>raw_inode\<close>, in the order of the code.\<close>

definition raw_blocks :: "nat \<Rightarrow> u32" where
  "raw_blocks n = drop_bit 9 (of_nat n + 511)"

definition write_raw :: "inode \<Rightarrow> nat \<Rightarrow> mem \<Rightarrow> mem" where
  "write_raw nd off m =
     (let m = (if ei_new nd then memset m off 0 128 else m);
          m = put16 m off (i_mode nd);
          m = put16 m (off + 2) (i_uid nd);
          m = put16 m (off + 24) (i_gid nd);
          m = put16 m (off + 26) (ucast (i_nlink nd));
          m = put32 m (off + 4) (of_nat (i_size nd));
          m = put32 m (off + 8) (i_atime nd);
          m = put32 m (off + 12) (i_ctime nd);
          m = put32 m (off + 16) (i_mtime nd);
          m = put32 m (off + 28) (raw_blocks (i_size nd))
      in put32s m (off + 36) (map (i_data nd) [0..<LKFS_N_BLOCKS]))"

text \<open>What a write-back does to the inode in memory.\<close>

definition written_back :: "inode \<Rightarrow> inode" where
  "written_back nd = nd\<lparr>i_blocks := unat (raw_blocks (i_size nd)), ei_new := False\<rparr>"

definition lkfs_write_inode :: "'v vfs_scheme \<Rightarrow> inode \<Rightarrow> lkfs \<Rightarrow> int \<times> inode \<times> lkfs" where
  "lkfs_write_inode K nd s =
     (case lkfs_get_inode K s (i_ino nd) of
        Raw e \<Rightarrow> (- EIO, nd, s)
      | Ptr (bh, off) \<Rightarrow>
          let s = set_buf bh (write_raw nd off (bufs s bh)) s;
              s = mark_buffer_dirty bh s
          in (if k_io_error K bh then - EIO else 0, written_back nd, s))"

definition S_ISREG :: "u16 \<Rightarrow> bool" where "S_ISREG m \<longleftrightarrow> m AND 0xF000 = 0x8000"
definition S_ISDIR :: "u16 \<Rightarrow> bool" where "S_ISDIR m \<longleftrightarrow> m AND 0xF000 = 0x4000"

definition read_raw :: "mem \<Rightarrow> nat \<Rightarrow> inode \<Rightarrow> inode" where
  "read_raw m off nd =
     (let nd = nd\<lparr>i_mode := get16 m off, i_uid := get16 m (off + 2), i_gid := get16 m (off + 24),
            i_nlink := ucast (get16 m (off + 26)), i_size := unat (get32 m (off + 4)),
            i_atime := get32 m (off + 8), i_ctime := get32 m (off + 12), i_mtime := get32 m (off + 16)\<rparr>;
          nd = nd\<lparr>i_blocks := (if i_ino nd = LKFS_ROOT_INO then 1024 div 2 ^ 9
            else unat (raw_blocks (i_size nd)))\<rparr>;
          nd = nd\<lparr>i_data := (\<lambda>n. if n < LKFS_N_BLOCKS then get32 m (off + 36 + 4 * n) else i_data nd n)\<rparr>
      in if S_ISREG (i_mode nd) then nd\<lparr>i_ops := FileOps\<rparr>
         else if S_ISDIR (i_mode nd) then nd\<lparr>i_ops := DirOps\<rparr> else nd)"

definition lkfs_iget :: "'v vfs_scheme \<Rightarrow> lkfs \<Rightarrow> nat \<Rightarrow> inode kptr" where
  "lkfs_iget K s ino =
     (case k_iget_locked K ino of
        None \<Rightarrow> ERR_PTR (- ENOMEM)
      | Some (new, nd) \<Rightarrow>
          if \<not> new then Ptr nd
          else (case lkfs_get_inode K s ino of
              Raw e \<Rightarrow> ERR_PTR e
            | Ptr (bh, off) \<Rightarrow> Ptr (read_raw (bufs s bh) off nd)))"

text \<open>
  \<open>sync_inode\<close> is the kernel's; when it writes the inode it calls \<open>lkfs_write_inode\<close>, whose
  effect on the inode in memory is kept here.
\<close>

definition lkfs_sync_inode :: "'v vfs_scheme \<Rightarrow> inode \<Rightarrow> int \<times> inode" where
  "lkfs_sync_inode K nd =
     (k_sync_error K (i_ino nd), if k_sync_writes K (i_ino nd) then written_back nd else nd)"

text \<open>\<open>inode_change_ok\<close> and \<open>generic_setattr\<close> are the kernel's: \<open>check\<close> and \<open>upd\<close>.\<close>

definition lkfs_setattr :: "'v vfs_scheme \<Rightarrow> (inode \<Rightarrow> int) \<Rightarrow> (inode \<Rightarrow> inode) \<Rightarrow> inode \<Rightarrow> int \<times> inode" where
  "lkfs_setattr K check upd nd =
     (let error = check nd
      in if error \<noteq> 0 then (error, nd) else lkfs_sync_inode K (upd nd))"

text \<open>
  \<open>bad\<close> is \<open>is_bad_inode(inode)\<close>; \<open>bh\<close> the indeterminate local of \<open>__lkfs_truncate_blocks\<close>.
  The write-back's return value is ignored.
\<close>

definition lkfs_delete_inode :: "'v vfs_scheme \<Rightarrow> bool \<Rightarrow> nat option \<Rightarrow> inode \<Rightarrow> lkfs \<Rightarrow> (inode \<times> lkfs) res" where
  "lkfs_delete_inode K bad bh nd s =
     (if bad then Inr (nd, s)
      else
        let (err, nd, s) = lkfs_write_inode K nd s
        in rbind (if i_size nd \<noteq> 0 then rbind (lkfs_truncate_blocks K bh nd s) (\<lambda>(nd, s, bh). Inr (nd, s))
                  else Inr (nd, s)) (\<lambda>(nd, s).
           let nd = nd\<lparr>i_size := 0\<rparr>
           in rbind (lkfs_free_inode K nd s) (\<lambda>s. Inr (nd, s))))"

text \<open>
  The last \<open>iput\<close> of an inode without links calls the file system's \<open>delete_inode\<close>;
  \<open>lkfs_sync_inode\<close> followed down to the disk.
\<close>

definition iput :: "'v vfs_scheme \<Rightarrow> nat option \<Rightarrow> inode \<Rightarrow> lkfs \<Rightarrow> (inode \<times> lkfs) res" where
  "iput K bh nd s = (if i_nlink nd = 0 then lkfs_delete_inode K False bh nd s else Inr (nd, s))"

definition sync_to_disk :: "'v vfs_scheme \<Rightarrow> inode \<Rightarrow> lkfs \<Rightarrow> inode \<times> lkfs" where
  "sync_to_disk K nd s =
     (if k_sync_writes K (i_ino nd) then snd (lkfs_write_inode K nd s) else (nd, s))"

text \<open>
  \<open>lkfs_new_inode\<close> with its label \<open>fail_drop\<close>: the inode loses its link and is dropped, so that
  \<open>lkfs_delete_inode\<close> writes it back and frees its number, and \<open>ERR_PTR(err)\<close> is returned. When no
  number was free, the inode still has the number \<open>new_inode\<close> gave it.
\<close>

definition lkfs_new_inode :: "'v vfs_scheme \<Rightarrow> nat option \<Rightarrow> inode \<Rightarrow> u16 \<Rightarrow> lkfs \<Rightarrow> (inode kptr \<times> lkfs) res" where
  "lkfs_new_inode K bh dir mode s =
     rbind (new_inode_claim K dir mode s) (\<lambda>(c, s). case c of
         NoInode \<Rightarrow> Inr (ERR_PTR (- ENOMEM), s)
       | Claimed nd \<Rightarrow> Inr (Ptr nd, s)
       | Dropped nd err \<Rightarrow>
           rbind (iput K bh (nd\<lparr>i_nlink := 0\<rparr>) s) (\<lambda>(nd, s). Inr (ERR_PTR err, s)))"

section \<open>The record written and read\<close>

definition disk_inode :: "inode \<Rightarrow> u32 \<Rightarrow> u32 \<Rightarrow> lkfs_inode" where
  "disk_inode nd dtime flags = \<lparr>d_mode = i_mode nd, d_uid = i_uid nd, d_size = of_nat (i_size nd),
     d_atime = i_atime nd, d_ctime = i_ctime nd, d_mtime = i_mtime nd, d_dtime = dtime,
     d_gid = i_gid nd, d_links_count = ucast (i_nlink nd), d_blocks = raw_blocks (i_size nd),
     d_flags = flags, d_block = map (i_data nd) [0..<23]\<rparr>"

lemma n_blocks: "LKFS_N_BLOCKS = 23"
  by (simp add: LKFS_N_BLOCKS_def block_indices)

lemma write_raw_frame: "i < off \<or> off + 128 \<le> i \<Longrightarrow> write_raw nd off m i = m i"
  by (auto simp: write_raw_def Let_def n_blocks put32s_outside f32.wr_outside f16.wr_outside memset_frame)

lemma load_write_raw:
  "load_inode (write_raw nd off m) off = disk_inode nd
     (if ei_new nd then 0 else get32 m (off + 20)) (if ei_new nd then 0 else get32 m (off + 32))"
  by (simp add: load_inode_def write_raw_def disk_inode_def Let_def n_blocks mem_simps get32s_put32s)

lemma read_raw_load:
  "read_raw m off nd =
     (let d = load_inode m off;
          nd = nd\<lparr>i_mode := d_mode d, i_uid := d_uid d, i_gid := d_gid d, i_nlink := ucast (d_links_count d),
            i_size := unat (d_size d), i_atime := d_atime d, i_ctime := d_ctime d, i_mtime := d_mtime d,
            i_blocks := (if i_ino nd = 2 then 2 else unat (raw_blocks (unat (d_size d)))),
            i_data := (\<lambda>n. if n < 23 then d_block d ! n else i_data nd n)\<rparr>
      in if S_ISREG (d_mode d) then nd\<lparr>i_ops := FileOps\<rparr>
         else if S_ISDIR (d_mode d) then nd\<lparr>i_ops := DirOps\<rparr> else nd)"
  by (simp add: read_raw_def load_inode_def Let_def n_blocks get32s_def LKFS_ROOT_INO_def cong: if_cong)


section \<open>The inode table\<close>

text \<open>Inode numbers the table has room for, and the place of an inode.\<close>

definition in_table :: "lkfs \<Rightarrow> nat \<Rightarrow> bool" where
  "in_table s ino \<longleftrightarrow> 1 \<le> ino \<and> ino \<le> 8 * unat (s_inode_table_count (es s))"

definition ino_block :: "lkfs \<Rightarrow> nat \<Rightarrow> nat" where
  "ino_block s ino = inode_table_offset s + (ino - 1) div 8"

definition ino_off :: "nat \<Rightarrow> nat" where
  "ino_off ino = (ino - 1) mod 8 * 128"

lemma get_inode_eq:
  "1 \<le> ino \<Longrightarrow> lkfs_get_inode K s ino =
    (if k_bread_ok K (ino_block s ino) then Ptr (ino_block s ino, ino_off ino) else Raw (- EIO))"
  by (simp add: lkfs_get_inode_def pred_ino_def ino_block_def ino_off_def sb_bread_def ERR_PTR_def
      LKFS_INODE_PER_SB_BIT_def LKFS_INODE_PER_SB_def LKFS_INODE_SIZE_def add.commute)

lemma in_table_block:
  assumes "in_table s ino"
  shows "inode_table_offset s \<le> ino_block s ino" "ino_block s ino < data_start s"
  using assms by (auto simp: in_table_def ino_block_def data_start_def less_mult_imp_div_less)

lemma slots_apart:
  assumes "1 \<le> a" "1 \<le> b" "a \<noteq> b" "ino_block s a = ino_block s b"
  shows "ino_off a + 128 \<le> ino_off b \<or> ino_off b + 128 \<le> ino_off a"
proof -
  have "(a - 1) div 8 = (b - 1) div 8" using assms(4) by (simp add: ino_block_def)
  moreover have "a - 1 \<noteq> b - 1" using assms(1-3) by simp
  ultimately have "(a - 1) mod 8 \<noteq> (b - 1) mod 8" by (metis div_mult_mod_eq)
  then show ?thesis unfolding ino_off_def by linarith
qed

text \<open>Writing a block of the inode table leaves the metadata alone.\<close>

lemma set_buf_table:
  fixes m :: mem
  assumes wf: "fs_wf s" and b: "inode_table_offset s \<le> b"
  defines "t \<equiv> mark_buffer_dirty b (set_buf b m s)"
  shows "es t = es s" "used_block t = used_block s" "used_ino t = used_ino s" "same_geometry s t" "fs_wf t"
    "bufs t = (bufs s)(b := m)" "inode_table_offset t = inode_table_offset s" "free_blocks t = free_blocks s"
    "free_count_ok t = free_count_ok s"
proof -
  have nb: "b \<noteq> 1" "b \<notin> set (s_sbb s)" "b \<notin> set (s_sib s)"
    using b fs_wf_sets(3,4) [OF wf] fs_wfD(13) [OF wf] by fastforce+
  show e: "es t = es s" using nb fs_wfD(1) [OF wf] by (simp add: t_def)
  show u: "used_block t = used_block s" "used_ino t = used_ino s"
    unfolding t_def used_block_def used_ino_def
    by (auto intro!: used_bit_agree simp: nb)
  show g: "same_geometry s t" by (simp add: same_geometry_def e) (simp add: t_def)
  show "fs_wf t" by (rule fs_wf_step [OF wf g]) (simp add: u)
  show "bufs t = (bufs s)(b := m)" "inode_table_offset t = inode_table_offset s" by (simp_all add: t_def)
  show "free_blocks t = free_blocks s" "free_count_ok t = free_count_ok s"
    by (simp_all add: free_blocks_def free_count_ok_def e u same_geometry_sizes(1) [OF g])
qed

lemma write_inode_run:
  assumes "in_table s (i_ino nd)" "k_bread_ok K (ino_block s (i_ino nd))"
  shows "lkfs_write_inode K nd s = (if k_io_error K (ino_block s (i_ino nd)) then - EIO else 0, written_back nd,
    mark_buffer_dirty (ino_block s (i_ino nd)) (set_buf (ino_block s (i_ino nd))
      (write_raw nd (ino_off (i_ino nd)) (bufs s (ino_block s (i_ino nd)))) s))"
  using assms by (simp add: lkfs_write_inode_def get_inode_eq in_table_def Let_def)

lemma written_back_sel [simp]:
  "i_ino (written_back nd) = i_ino nd" "i_data (written_back nd) = i_data nd"
  "i_size (written_back nd) = i_size nd" "i_mode (written_back nd) = i_mode nd"
  "i_nlink (written_back nd) = i_nlink nd" "i_blocks (written_back nd) = unat (raw_blocks (i_size nd))"
  by (simp_all add: written_back_def)

section \<open>Properties\<close>

text \<open>What survives a trip through the inode table.\<close>

definition same_persistent :: "inode \<Rightarrow> inode \<Rightarrow> bool" where
  "same_persistent nd r \<longleftrightarrow> i_mode r = i_mode nd \<and> i_uid r = i_uid nd \<and> i_gid r = i_gid nd
     \<and> i_nlink r = i_nlink nd \<and> i_size r = i_size nd \<and> i_atime r = i_atime nd \<and> i_ctime r = i_ctime nd
     \<and> i_mtime r = i_mtime nd \<and> (\<forall>n < 23. i_data r n = i_data nd n)"

text \<open>writing an inode back and reading it again with \<open>lkfs_iget\<close> yields the same mode, owner,
  link count, size, times and block pointers, for link counts and sizes the disk fields can
  hold; the operations are those of its type. The block count read is the one the write-back
  computed, except for the root inode, which always gets 2.\<close>

lemma inode_roundtrip:
  assumes "in_table s (i_ino nd)" "k_bread_ok K (ino_block s (i_ino nd))"
    and "k_iget_locked K (i_ino nd) = Some (True, fresh)" "i_ino fresh = i_ino nd"
    and "unat (i_nlink nd) < 2 ^ 16" "i_size nd < 2 ^ 32"
  shows "\<exists>err nd' s' r. lkfs_write_inode K nd s = (err, nd', s') \<and> lkfs_iget K s' (i_ino nd) = Ptr r
    \<and> same_persistent nd r \<and> i_blocks r = (if i_ino nd = 2 then 2 else i_blocks nd')
    \<and> (S_ISREG (i_mode nd) \<longrightarrow> i_ops r = FileOps) \<and> (S_ISDIR (i_mode nd) \<longrightarrow> i_ops r = DirOps)"
proof -
  let ?b = "ino_block s (i_ino nd)" and ?o = "ino_off (i_ino nd)"
  define s' where "s' = mark_buffer_dirty ?b (set_buf ?b (write_raw nd ?o (bufs s ?b)) s)"
  have b': "ino_block s' (i_ino nd) = ?b" by (simp add: s'_def ino_block_def)
  have m: "bufs s' ?b = write_raw nd ?o (bufs s ?b)" by (simp add: s'_def)
  have nl: "(ucast (ucast (i_nlink nd) :: u16) :: u32) = i_nlink nd"
  proof -
    have "take_bit 16 (unat (i_nlink nd)) = unat (i_nlink nd)"
      using assms(5) by (simp add: take_bit_nat_eq_self)
    then show ?thesis by (simp add: word_unat_eq_iff unsigned_ucast_eq unsigned_take_bit_eq)
  qed
  have sz: "unat (of_nat (i_size nd) :: u32) = i_size nd"
    using assms(6) by (simp add: unat_of_nat take_bit_nat_eq_self)
  have x: "\<not> (S_ISREG (i_mode nd) \<and> S_ISDIR (i_mode nd))" by (auto simp: S_ISREG_def S_ISDIR_def)
  let ?r = "read_raw (bufs s' ?b) ?o fresh"
  have get: "lkfs_iget K s' (i_ino nd) = Ptr ?r"
    using assms(1-3) b' by (simp add: lkfs_iget_def get_inode_eq in_table_def)
  have "same_persistent nd ?r \<and> i_blocks ?r = (if i_ino nd = 2 then 2 else unat (raw_blocks (i_size nd)))
    \<and> (S_ISREG (i_mode nd) \<longrightarrow> i_ops ?r = FileOps) \<and> (S_ISDIR (i_mode nd) \<longrightarrow> i_ops ?r = DirOps)"
    unfolding same_persistent_def read_raw_load m load_write_raw Let_def using nl sz x assms(4)
    by (auto simp: disk_inode_def)
  with get write_inode_run [OF assms(1,2)] show ?thesis by (simp add: s'_def [symmetric])
qed

theorem inode_roundtrip_witness:
  "\<exists>err nd' s' r. lkfs_write_inode plain_vfs sample_file (sample_fs 10 11) = (err, nd', s')
     \<and> lkfs_iget plain_vfs s' 5 = Ptr r \<and> i_size r = 1500 \<and> i_data r 1 = 9 \<and> i_blocks r = 3"
proof -
  have t: "in_table (sample_fs 10 11) (i_ino sample_file)"
    by (simp add: in_table_def sample_file_def es_sample sample_super_def)
  have "\<exists>err nd' s' r. lkfs_write_inode plain_vfs sample_file (sample_fs 10 11) = (err, nd', s')
    \<and> lkfs_iget plain_vfs s' (i_ino sample_file) = Ptr r \<and> same_persistent sample_file r
    \<and> i_blocks r = (if i_ino sample_file = 2 then 2 else i_blocks nd')
    \<and> (S_ISREG (i_mode sample_file) \<longrightarrow> i_ops r = FileOps) \<and> (S_ISDIR (i_mode sample_file) \<longrightarrow> i_ops r = DirOps)"
    by (rule inode_roundtrip [OF t, where fresh = "blank_inode\<lparr>i_ino := 5\<rparr>"])
       (simp_all add: sample_file_def)
  then obtain err nd' s' r where r: "lkfs_write_inode plain_vfs sample_file (sample_fs 10 11) = (err, nd', s')"
    "lkfs_iget plain_vfs s' 5 = Ptr r" "same_persistent sample_file r" "i_blocks r = i_blocks nd'"
    by (auto simp: sample_file_def)
  have "i_blocks nd' = 3"
    using r(1) write_inode_run [OF t, of plain_vfs] by (auto simp: sample_file_def raw_blocks_def)
  with r show ?thesis by (auto simp: same_persistent_def sample_file_def)
qed


lemma write_inode_effect:
  assumes wf: "fs_wf s" and t: "in_table s (i_ino nd)" and r: "k_bread_ok K (ino_block s (i_ino nd))"
    and w: "lkfs_write_inode K nd s = (err, nd', s')"
  shows "nd' = written_back nd" "fs_wf s'" "es s' = es s" "used_block s' = used_block s" "used_ino s' = used_ino s"
    "same_geometry s s'" "data_start s \<le> x \<Longrightarrow> bufs s' x = bufs s x" "free_count_ok s' = free_count_ok s"
    "1 \<le> b \<Longrightarrow> b \<noteq> i_ino nd \<Longrightarrow>
      load_inode (bufs s' (ino_block s b)) (ino_off b) = load_inode (bufs s (ino_block s b)) (ino_off b)"
proof -
  let ?b = "ino_block s (i_ino nd)" and ?o = "ino_off (i_ino nd)"
  note B = in_table_block [OF t]
  have s': "nd' = written_back nd"
    "s' = mark_buffer_dirty ?b (set_buf ?b (write_raw nd ?o (bufs s ?b)) s)"
    using w write_inode_run [OF t r] by simp_all
  note S = set_buf_table [OF wf B(1), of "write_raw nd ?o (bufs s ?b)", folded s'(2)]
  show "nd' = written_back nd" "fs_wf s'" "es s' = es s" "used_block s' = used_block s" "used_ino s' = used_ino s"
    "same_geometry s s'" "free_count_ok s' = free_count_ok s" by (fact s' S)+
  show "data_start s \<le> x \<Longrightarrow> bufs s' x = bufs s x" using S(6) B(2) by auto
  show "load_inode (bufs s' (ino_block s b)) (ino_off b) = load_inode (bufs s (ino_block s b)) (ino_off b)"
    if b: "1 \<le> b" "b \<noteq> i_ino nd"
  proof (cases "ino_block s b = ?b")
    case True
    have "1 \<le> i_ino nd" using t by (simp add: in_table_def)
    from slots_apart [OF b(1) this b(2) True]
    have "load_inode (write_raw nd ?o (bufs s ?b)) (ino_off b) = load_inode (bufs s ?b) (ino_off b)"
      by (intro dinode.rd_write_outside [of ?o 128]) (auto simp: write_raw_frame LKFS_INODE_SIZE_def)
    with True S(6) show ?thesis by simp
  qed (use S(6) in simp)
qed

text \<open>writing an inode back changes no other inode of the table, no data block, no bitmap and no
  counter.\<close>

lemma write_inode_isolated:
  assumes "fs_wf s" "in_table s (i_ino nd)" "k_bread_ok K (ino_block s (i_ino nd))"
    and "lkfs_write_inode K nd s = (err, nd', s')"
  shows "fs_wf s' \<and> es s' = es s \<and> used_block s' = used_block s \<and> used_ino s' = used_ino s
    \<and> (\<forall>x \<ge> data_start s. bufs s' x = bufs s x)
    \<and> (\<forall>b. 1 \<le> b \<and> b \<noteq> i_ino nd \<longrightarrow>
         load_inode (bufs s' (ino_block s b)) (ino_off b) = load_inode (bufs s (ino_block s b)) (ino_off b))"
  using write_inode_effect [OF assms] by blast

theorem write_inode_isolated_witness:
  "\<exists>err nd' s'. lkfs_write_inode plain_vfs sample_file (sample_fs 10 11) = (err, nd', s')
     \<and> load_inode (bufs s' 4) 640 = load_inode (bufs (sample_fs 10 11) 4) 640"
proof -
  have t: "in_table (sample_fs 10 11) (i_ino sample_file)"
    by (simp add: in_table_def sample_file_def es_sample sample_super_def)
  obtain err nd' s' where w: "lkfs_write_inode plain_vfs sample_file (sample_fs 10 11) = (err, nd', s')"
    by (metis surj_pair)
  from write_inode_isolated [OF sample_fs_wf t _ w]
  have "load_inode (bufs s' (ino_block (sample_fs 10 11) 6)) (ino_off 6)
    = load_inode (bufs (sample_fs 10 11) (ino_block (sample_fs 10 11) 6)) (ino_off 6)"
    by (simp add: sample_file_def)
  with w show ?thesis by (simp add: ino_block_def ino_off_def)
qed

text \<open>Pointers live in the inode and the data area, so a write-back keeps the file's map.\<close>

lemma ptr_of_write:
  assumes "fs_wf s" "imap_wf s nd" "\<And>x. data_start s \<le> x \<Longrightarrow> bufs s' x = bufs s x" "i_data nd' = i_data nd"
    and "valid_slot a"
  shows "ptr_of s' nd' a = ptr_of s nd a"
proof -
  have b: "below s' (ptr_of s nd q) k = below s (ptr_of s nd q) k" if "valid_slot q" for q k
    using imap_wfD(1) [OF assms(2) that] assms(3) by (intro below_cong) (simp add: block_ok_def)
  show ?thesis
    using b [of IndR] b [of DinR] b [of "L1 j" for j] assms(4,5) by (cases a) simp_all
qed

text \<open>C10: deleting a file without holes, with a size that keeps its last pointer block in use, frees
  exactly its blocks and its inode number: the volume stays well-formed, the block counter exact,
  the inode counter one higher, and everything else that was used still is.\<close>

theorem delete_inode_correct:
  assumes "fs_wf s" "bits_spec K" "readable K s" "imap_wf s nd" "compact s nd" "free_count_ok s"
    and "in_table s (i_ino nd)" "i_ino nd < 8192 * length (s_sib s)" "0 < i_size nd"
    and "file_blocks nd < max_blocks" "good_size (file_blocks nd)"
  shows "\<exists>nd' s'. lkfs_delete_inode K False bh nd s = Inr (nd', s') \<and> fs_wf s' \<and> free_count_ok s'
    \<and> i_size nd' = 0 \<and> s_free_inodes_count (es s') = s_free_inodes_count (es s) + 1
    \<and> (\<forall>b. used_block s' b \<longleftrightarrow>
         used_block s b \<and> \<not> (\<exists>a. valid_slot a \<and> ptr_of s nd a \<noteq> 0 \<and> unat (ptr_of s nd a) = b))
    \<and> (\<forall>k. used_ino s' k \<longleftrightarrow> k \<noteq> i_ino nd \<and> used_ino s k)"
proof -
  obtain err nd1 s1 where w: "lkfs_write_inode K nd s = (err, nd1, s1)" by (metis surj_pair)
  have br: "k_bread_ok K (ino_block s (i_ino nd))"
    using assms(3) in_table_block(2) [OF assms(7)] fs_wfD(10) [OF assms(1)] by (simp add: readable_def)
  note W = write_inode_effect [OF assms(1,7) br w]
  have P: "ptr_of s1 nd1 a = ptr_of s nd a" if "valid_slot a" for a
    by (rule ptr_of_write [OF assms(1,4) W(7) _ that]) (simp_all add: W(1))
  have ok: "block_ok s1 = block_ok s"
    by (simp add: fun_eq_iff block_ok_def W(4) same_geometry_sizes [OF W(6)])
  have fb: "file_blocks nd1 = file_blocks nd" by (simp add: file_blocks_def W(1))
  have im: "imap_wf s1 nd1" "compact s1 nd1" "readable K s1"
    using assms(3-5) by (simp_all add: imap_wf_def compact_def P ok fb readable_def same_geometry_sizes [OF W(6)])
  obtain nd2 s2 rel where t: "lkfs_truncate_blocks K bh nd1 s1 = Inr (nd2, s2, rel)" "fs_wf s2" "free_count_ok s2"
    "\<forall>b. used_block s2 b \<longleftrightarrow>
         used_block s1 b \<and> \<not> (\<exists>a. valid_slot a \<and> ptr_of s1 nd1 a \<noteq> 0 \<and> unat (ptr_of s1 nd1 a) = b)"
    "used_ino s2 = used_ino s1" and i2: "i_ino nd2 = i_ino nd1" "s_free_inodes_count (es s2) = s_free_inodes_count (es s1)"
    "s_sib s2 = s_sib s1"
    using truncate_effect_more [OF W(2) assms(2) im(3,1,2), of bh] assms(6,10,11) W(8) fb by auto
  have l: "i_ino nd2 < 8192 * length (s_sib s2)"
    using assms(8) i2 W(1) same_geometry_sizes(5) [OF W(6)] by simp
  let ?s = "unclaim_ino K (i_ino nd) s2"
  have l': "i_ino nd < 8192 * length (s_sib s2)" using l i2 W(1) by simp
  note U = unclaim_ino_facts [OF t(2) l', of K]
  have run: "lkfs_delete_inode K False bh nd s = Inr (nd2\<lparr>i_size := 0\<rparr>, ?s)"
    using w t(1) assms(9) lkfs_free_inode_run [OF t(2), of "nd2\<lparr>i_size := 0\<rparr>", where K = K] l i2 W(1)
    by (simp add: lkfs_delete_inode_def Let_def)
  have "free_count_ok ?s"
    using t(3) U by (simp add: free_count_ok_def same_geometry_sizes(1) [OF U(2)])
  moreover have "(\<exists>a. valid_slot a \<and> ptr_of s1 nd1 a \<noteq> 0 \<and> unat (ptr_of s1 nd1 a) = b)
      \<longleftrightarrow> (\<exists>a. valid_slot a \<and> ptr_of s nd a \<noteq> 0 \<and> unat (ptr_of s nd a) = b)" for b
    using P by (metis (no_types))
  ultimately show ?thesis
    using run U t(4,5) i2(2) W(3-5) unclaim_ino_used [OF t(2) assms(2) l']
    by (intro exI [of _ "nd2\<lparr>i_size := 0\<rparr>"] exI [of _ ?s]) simp
qed


theorem delete_inode_correct_witness:
  "\<exists>nd' s'. lkfs_delete_inode plain_vfs False None sample_file (sample_fs 10 11) = Inr (nd', s')
     \<and> \<not> used_ino s' 5 \<and> \<not> used_block s' 9 \<and> used_block s' 7"
proof -
  have t: "in_table (sample_fs 10 11) (i_ino sample_file)"
    by (simp add: in_table_def sample_file_def es_sample sample_super_def)
  have n: "i_ino sample_file < 8192 * length (s_sib (sample_fs 10 11))" "0 < i_size sample_file"
    "file_blocks sample_file < max_blocks" "good_size (file_blocks sample_file)"
    using sample_file_wf(3) by (simp_all add: sample_file_def max_blocks_def good_size_def)
  have r: "readable plain_vfs (sample_fs 10 11)" by (simp add: readable_def)
  have wf: "fs_wf (sample_fs 10 11)" by (rule sample_fs_wf) simp
  obtain nd' s' where d: "lkfs_delete_inode plain_vfs False None sample_file (sample_fs 10 11) = Inr (nd', s')"
    and u: "\<forall>b. used_block s' b \<longleftrightarrow> used_block (sample_fs 10 11) b
      \<and> \<not> (\<exists>a. valid_slot a \<and> ptr_of (sample_fs 10 11) sample_file a \<noteq> 0
            \<and> unat (ptr_of (sample_fs 10 11) sample_file a) = b)"
    and i: "\<forall>k. used_ino s' k \<longleftrightarrow> k \<noteq> i_ino sample_file \<and> used_ino (sample_fs 10 11) k"
    using delete_inode_correct [OF wf plain_vfs_bits r sample_file_wf(1,2) _ t n, of None]
      sample_free_count [of 10 11] by auto
  have "\<not> used_block s' 9" using u by (auto simp: sample_file_ptr intro!: exI [of _ "Dir 1"])
  moreover have "used_block s' 7" using u by (auto simp: sample_file_ptr)
  moreover have "\<not> used_ino s' 5" using i by (simp add: sample_file_def)
  ultimately show ?thesis using d by blast
qed

section \<open>New inodes\<close>

text \<open>Dropping an inode without blocks frees its number, and leaves no links in its record on disk.\<close>

lemma delete_empty:
  assumes wf: "fs_wf s" and t: "in_table s (i_ino nd)" and rd: "readable K s"
    and i: "i_ino nd < 8192 * length (s_sib s)" and sz: "i_size nd = 0" and K: "bits_spec K"
  shows "\<exists>nd' s'. lkfs_delete_inode K False bh nd s = Inr (nd', s') \<and> fs_wf s'
    \<and> used_block s' = used_block s \<and> s_free_blocks_count (es s') = s_free_blocks_count (es s)
    \<and> s_free_inodes_count (es s') = s_free_inodes_count (es s) + 1
    \<and> (\<forall>k. used_ino s' k \<longleftrightarrow> k \<noteq> i_ino nd \<and> used_ino s k)
    \<and> d_links_count (load_inode (bufs s' (ino_block s (i_ino nd))) (ino_off (i_ino nd))) = ucast (i_nlink nd)"
proof -
  let ?b = "ino_block s (i_ino nd)" and ?o = "ino_off (i_ino nd)"
  have br: "k_bread_ok K ?b"
    using rd in_table_block(2) [OF t] fs_wfD(10) [OF wf] by (simp add: readable_def)
  obtain err nd1 s1 where w: "lkfs_write_inode K nd s = (err, nd1, s1)" by (metis surj_pair)
  note W = write_inode_effect [OF wf t br w]
  have l: "i_ino nd < 8192 * length (s_sib s1)" using i same_geometry_sizes(5) [OF W(6)] by simp
  note U = unclaim_ino_facts [OF W(2) l, of K]
  have "lkfs_delete_inode K False bh nd s = Inr (nd1\<lparr>i_size := 0\<rparr>, unclaim_ino K (i_ino nd) s1)"
    using w sz W(1) lkfs_free_inode_run [OF W(2), of "nd1\<lparr>i_size := 0\<rparr>", where K = K] l
    by (simp add: lkfs_delete_inode_def Let_def)
  moreover have "bufs (unclaim_ino K (i_ino nd) s1) ?b = write_raw nd ?o (bufs s ?b)"
  proof -
    have nb: "?b \<noteq> 1" "?b \<notin> set (s_sib s1)"
      using in_table_block(1) [OF t] fs_wf_sets(4) [OF wf] fs_wfD(13) [OF wf] same_geometry_sizes(5) [OF W(6)]
      by fastforce+
    have "bufs (unclaim_ino K (i_ino nd) s1) ?b = bufs s1 ?b"
      using flip_ino_facts(3) [OF W(2) l nb] by (simp add: unclaim_ino_def)
    then show ?thesis using w write_inode_run [OF t br] by auto
  qed
  ultimately show ?thesis
    using U W unclaim_ino_used [OF W(2) K l] by (auto simp: load_write_raw disk_inode_def)
qed

text \<open>when an inode number is free, \<open>lkfs_new_inode\<close> returns a new inode with the lowest one,
  below \<open>s_inodes_count\<close>; its block pointers are empty and it is marked new; the number becomes
  the only additional used one, the free counter drops by one, no block changes hands, and the
  super block and the bitmap buffer are marked dirty.\<close>

lemma new_inode_correct:
  assumes "fs_wf s" "bits_spec K" "k_new_inode K = Some nd" "k_insert_inode_ok K n"
    and "lowest_free_ino s n" "n < inodes_count s"
  shows "\<exists>nd' s'. lkfs_new_inode K bh dir mode s = Inr (Ptr nd', s') \<and> i_ino nd' = n
    \<and> (\<forall>k. i_data nd' k = 0) \<and> ei_new nd' \<and> i_blocks nd' = 0 \<and> fs_wf s'
    \<and> (\<forall>k. used_ino s' k \<longleftrightarrow> k = n \<or> used_ino s k) \<and> used_block s' = used_block s
    \<and> s_free_inodes_count (es s') = s_free_inodes_count (es s) - 1
    \<and> {1, s_sib s ! (n div 8192)} \<subseteq> dirty s' \<and> s_dirt s'"
proof -
  have lt: "n < 8192 * length (s_sib s)" using assms(5) by (simp add: lowest_free_ino_def)
  then have ne: "s_sib s \<noteq> []" by auto
  note C = claim_ino_facts [OF assms(1) lt, where K = K]
  have d: "1 \<in> dirty (claim_ino K n s)" by (simp add: claim_ino_def fs_wfD(1) [OF assms(1)])
  show ?thesis
    using new_inode_claim_run(1) [OF assms(1-3) ne assms(5,6), of dir mode] assms(4) C
      claim_ino_used [OF assms(1,2) lt] d
    by (intro exI [of _ "fresh_inode K nd dir mode n"]
        exI [of _ "mark_buffer_dirty (s_sib s ! (n div 8192)) (claim_ino K n s)"])
       (auto simp: lkfs_new_inode_def fresh_inode_def mark_dirty_facts)
qed

theorem new_inode_correct_witness:
  "\<exists>nd s'. lkfs_new_inode plain_vfs None blank_inode 33188 (sample_fs 9 11) = Inr (Ptr nd, s') \<and> i_ino nd = 11"
  using new_inode_correct [of "sample_fs 9 11" plain_vfs blank_inode 11 None blank_inode 33188]
    plain_vfs_bits sample_fs_wf [of 9 11] lowest_free_ino_sample [of 11 9] by auto

text \<open>when \<open>insert_inode_locked\<close> fails, \<open>lkfs_new_inode\<close> reports \<open>-EINVAL\<close>, and dropping the inode
  takes the claim back: used numbers, used blocks and counters are as before.\<close>

lemma new_inode_insert_failure:
  assumes "fs_wf s" "bits_spec K" "readable K s" "k_new_inode K = Some nd" "\<not> k_insert_inode_ok K n"
    and "lowest_free_ino s n" "n < inodes_count s" "in_table s n" "i_size (k_inode_init_owner K nd dir mode) = 0"
  shows "\<exists>s'. lkfs_new_inode K bh dir mode s = Inr (ERR_PTR (- EINVAL), s') \<and> fs_wf s'
    \<and> used_ino s' = used_ino s \<and> used_block s' = used_block s
    \<and> s_free_inodes_count (es s') = s_free_inodes_count (es s)
    \<and> s_free_blocks_count (es s') = s_free_blocks_count (es s)"
proof -
  have lt: "n < 8192 * length (s_sib s)" and un: "\<not> used_ino s n"
    using assms(6) by (simp_all add: lowest_free_ino_def)
  then have ne: "s_sib s \<noteq> []" by auto
  let ?nd = "(fresh_inode K nd dir mode n)\<lparr>i_nlink := 0\<rparr>" and ?s = "claim_ino K n s"
  note C = claim_ino_facts [OF assms(1) lt, where K = K]
  have "in_table ?s (i_ino ?nd)" "readable K ?s" "i_ino ?nd < 8192 * length (s_sib ?s)" "i_size ?nd = 0"
    using assms(3,8,9) lt by (simp_all add: fresh_inode_def in_table_def readable_def same_geometry_sizes [OF C(2)])
  from delete_empty [OF C(3) this assms(2), of bh] obtain nd' s' where
    d: "lkfs_delete_inode K False bh ?nd ?s = Inr (nd', s')" "fs_wf s'" "used_block s' = used_block ?s"
      "s_free_blocks_count (es s') = s_free_blocks_count (es ?s)"
      "s_free_inodes_count (es s') = s_free_inodes_count (es ?s) + 1"
      "\<forall>k. used_ino s' k \<longleftrightarrow> k \<noteq> i_ino ?nd \<and> used_ino ?s k" by auto
  have "used_ino s' = used_ino s"
    using d(6) claim_ino_used [OF assms(1,2) lt] un by (auto simp: fun_eq_iff fresh_inode_def)
  with d C(1,5) show ?thesis
    using new_inode_claim_run(1) [OF assms(1,2,4) ne assms(6,7), of dir mode] assms(5)
    by (intro exI [of _ s']) (simp add: lkfs_new_inode_def iput_def)
qed

theorem new_inode_insert_failure_witness:
  "\<exists>s'. lkfs_new_inode (plain_vfs\<lparr>k_insert_inode_ok := \<lambda>_. False\<rparr>) None blank_inode 33188 (sample_fs 9 11)
      = Inr (ERR_PTR (- EINVAL), s') \<and> \<not> used_ino s' 11"
  using new_inode_insert_failure [OF sample_fs_wf [of 9 11] _ _ _ _ lowest_free_ino_sample,
      of "plain_vfs\<lparr>k_insert_inode_ok := \<lambda>_. False\<rparr>" blank_inode blank_inode 33188 None]
    plain_vfs_bits by (auto simp: bits_spec_def readable_def in_table_def es_sample sample_super_def)

text \<open>when every inode number is in use, \<open>lkfs_new_inode\<close> drops an inode that never got a number: the
  number \<open>new_inode\<close> happened to give it is marked free, and the record of that number in the inode
  table is overwritten with one without links. What is returned is \<open>ERR_PTR\<close> of a local that was never
  written; when it is outside the range of error numbers the callers' \<open>IS_ERR\<close> test does not see a
  failure.\<close>

lemma new_inode_exhausted_frees:
  assumes "fs_wf s" "bits_spec K" "readable K s" "k_new_inode K = Some nd"
    and "\<And>n. n < inodes_count s \<Longrightarrow> used_ino s n"
    and "in_table s (i_ino nd)" "i_ino nd < inodes_count s" "i_size nd = 0"
  shows "\<exists>p s'. lkfs_new_inode K bh dir mode s = Inr (p, s') \<and> used_ino s (i_ino nd) \<and> \<not> used_ino s' (i_ino nd)
    \<and> (\<forall>k. k \<noteq> i_ino nd \<longrightarrow> used_ino s' k = used_ino s k)
    \<and> d_links_count (load_inode (bufs s' (ino_block s (i_ino nd))) (ino_off (i_ino nd))) = 0
    \<and> p = ERR_PTR (k_garbage K) \<and> (IS_ERR p \<longleftrightarrow> k_garbage K \<in> {-4095..-1})"
proof -
  have lt: "i_ino nd < 8192 * length (s_sib s)" using assms(7) fs_wfD(8) [OF assms(1)] by simp
  then have ne: "s_sib s \<noteq> []" by auto
  have c: "new_inode_claim K dir mode s = Inr (Dropped nd (k_garbage K), s)"
    using new_inode_claim_run(2) [OF assms(1,2,4) ne] assms(5) by blast
  let ?nd = "nd\<lparr>i_nlink := 0\<rparr>"
  have "in_table s (i_ino ?nd)" "i_ino ?nd < 8192 * length (s_sib s)" "i_size ?nd = 0"
    using assms(6,8) lt by simp_all
  from delete_empty [OF assms(1) this(1) assms(3) this(2,3) assms(2), of bh] obtain nd' s' where
    d: "lkfs_delete_inode K False bh ?nd s = Inr (nd', s')"
      "\<forall>k. used_ino s' k \<longleftrightarrow> k \<noteq> i_ino nd \<and> used_ino s k"
      "d_links_count (load_inode (bufs s' (ino_block s (i_ino nd))) (ino_off (i_ino nd))) = 0" by auto
  have "lkfs_new_inode K bh dir mode s = Inr (ERR_PTR (k_garbage K), s')"
    using c d(1) by (simp add: lkfs_new_inode_def iput_def)
  with d(2,3) assms(5,7) show ?thesis by (auto simp: ERR_PTR_def)
qed

theorem new_inode_exhausted_frees_witness:
  "\<exists>p s'. lkfs_new_inode (plain_vfs\<lparr>k_new_inode := Some (blank_inode\<lparr>i_ino := 7\<rparr>)\<rparr>) None blank_inode 33188
      (sample_fs 9 32) = Inr (p, s') \<and> used_ino (sample_fs 9 32) 7 \<and> \<not> used_ino s' 7 \<and> \<not> IS_ERR p"
  using new_inode_exhausted_frees [OF sample_fs_wf [of 9 32], of "plain_vfs\<lparr>k_new_inode := Some (blank_inode\<lparr>i_ino := 7\<rparr>)\<rparr>"
      "blank_inode\<lparr>i_ino := 7\<rparr>" None blank_inode 33188] plain_vfs_bits
  by (auto simp: bits_spec_def readable_def in_table_def es_sample sample_super_def)

end
