(* ===== verification/Dir.thy ===== *)
theory Dir
  imports Inode_IO
begin

text \<open>
  Directories, \<open>src/lkfs/dir.c\<close>: adding, finding, deleting and listing entries. A directory is
  its inode and the pages the page cache holds for it; a page is 4096 bytes, and a pointer into
  it is an offset. The page cache is a parameter: reading a page, \<open>block_write_begin\<close>,
  \<open>write_one_page\<close> and \<open>sync_inode\<close> may fail with an error number and change no byte themselves.
  \<open>block_write_begin\<close> has \<open>lkfs_get_block\<close> map the blocks that are written to, which allocates
  those that a growing directory does not have yet. Reading a page maps its blocks below the size
  of the directory as well, so the block of an entry that was found is mapped already:
  \<open>lkfs_delete_entry\<close> and the lookups stay on the pages, and the record its \<open>sync_inode\<close> writes into
  the inode table is not part of their results.
\<close>

section \<open>The code\<close>

type_synonym pages = "nat \<Rightarrow> mem"

definition PAGE_CACHE_SIZE :: nat where "PAGE_CACHE_SIZE = 4096"

definition lkfs_next_entry :: "mem \<Rightarrow> nat \<Rightarrow> nat" where
  "lkfs_next_entry m de = de + de_rec_len m de"

definition lkfs_last_byte :: "inode \<Rightarrow> nat \<Rightarrow> nat" where
  "lkfs_last_byte dir n =
     (let last_byte = (of_nat (i_size dir) :: u32) - of_nat (n * 4096)
      in if unat last_byte > PAGE_CACHE_SIZE then PAGE_CACHE_SIZE else unat last_byte)"

definition lkfs_match :: "u8 list \<Rightarrow> mem \<Rightarrow> nat \<Rightarrow> bool" where
  "lkfs_match name m de =
     (if length name \<noteq> de_name_len m de then False
      else if de_inode m de = 0 then False
      else de_name m de (length name) = name)"

definition dir_pages :: "inode \<Rightarrow> nat" where
  "dir_pages dir = (i_size dir + PAGE_CACHE_SIZE - 1) div 2 ^ 12"

definition lkfs_commit_chunk :: "'v vfs_scheme \<Rightarrow> nat \<Rightarrow> nat \<Rightarrow> nat \<Rightarrow> inode \<Rightarrow> int \<times> inode" where
  "lkfs_commit_chunk K n pos len dir =
     (let dir = dir\<lparr>i_version := i_version dir + 1\<rparr>;
          dir = (if pos + len > i_size dir then dir\<lparr>i_size := pos + len\<rparr> else dir);
          err = k_write_one_page_error K (i_ino dir) n
      in if err = 0 then lkfs_sync_inode K dir else (err, dir))"

text \<open>The write-back by the \<open>sync_inode\<close> of \<open>lkfs_commit_chunk\<close>, carried to the inode table.\<close>

definition commit_to_disk :: "'v vfs_scheme \<Rightarrow> nat \<Rightarrow> nat \<Rightarrow> nat \<Rightarrow> inode \<Rightarrow> lkfs \<Rightarrow> lkfs" where
  "commit_to_disk K n pos len dir s =
     (let dir = dir\<lparr>i_version := i_version dir + 1\<rparr>;
          dir = (if pos + len > i_size dir then dir\<lparr>i_size := pos + len\<rparr> else dir)
      in if k_write_one_page_error K (i_ino dir) n = 0 then snd (sync_to_disk K dir s) else s)"

subsection \<open>Preparing a write\<close>

text \<open>
  \<open>__lkfs_write_begin\<close> is \<open>block_write_begin\<close> with \<open>lkfs_get_block\<close>, which it calls for each block
  of the range, in order, up to the first error. (Blocks the page cache has mapped before are not
  asked for again; asking for a mapped block changes nothing.)
\<close>

primrec map_blocks :: "'v vfs_scheme \<Rightarrow> nat \<Rightarrow> nat \<Rightarrow> inode \<Rightarrow> lkfs \<Rightarrow> (int \<times> inode \<times> lkfs) res" where
  "map_blocks K 0 ib nd s = Inr (0, nd, s)"
| "map_blocks K (Suc c) ib nd s =
     rbind (lkfs_get_block K nd ib 1024 s) (\<lambda>(err, b_size, mapped, nd, s).
       if err \<noteq> 0 then Inr (err, nd, s) else map_blocks K c (Suc ib) nd s)"

definition lkfs_write_begin :: "'v vfs_scheme \<Rightarrow> inode \<Rightarrow> nat \<Rightarrow> nat \<Rightarrow> lkfs \<Rightarrow> (int \<times> inode \<times> lkfs) res" where
  "lkfs_write_begin K nd pos len s =
     (if k_write_begin_error K (i_ino nd) pos len \<noteq> 0 then Inr (k_write_begin_error K (i_ino nd) pos len, nd, s)
      else rbind (map_blocks K ((pos + len + 1023) div 1024 - pos div 1024) (pos div 1024) nd s) (\<lambda>(err, nd, s).
        Inr (if err \<noteq> 0 then err else k_write_begin_read_error K (i_ino nd) pos len, nd, s)))"

subsection \<open>Adding an entry\<close>

text \<open>
  The inner loop of \<open>lkfs_add_link\<close> over one page: \<open>Got de name_len rec_len\<close> is the jump to
  \<open>got_it\<close>, with the page as it is then; \<open>Fail\<close> the jump to \<open>out_unlock\<close>.
\<close>

datatype add_result = Got nat nat nat mem | Fail int | NextPage

function add_scan :: "u8 list \<Rightarrow> nat \<Rightarrow> mem \<Rightarrow> nat \<Rightarrow> add_result" where
  "add_scan name dir_end m de =
     (let reclen = LKFS_DIR_REC_LEN (length name)
      in if de + reclen \<le> PAGE_CACHE_SIZE then
           if de = dir_end then Got de 0 1024 (set_de_inode de 0 (set_de_rec_len de 1024 m))
           else if de_rec_len m de = 0 then Fail (- EIO)
           else if lkfs_match name m de then Fail (- EEXIST)
           else
             let name_len = LKFS_DIR_REC_LEN (de_name_len m de); rec_len = de_rec_len m de
             in if de_inode m de = 0 \<and> rec_len \<ge> reclen then Got de name_len rec_len m
                else if rec_len \<ge> name_len + reclen then Got de name_len rec_len m
                else add_scan name dir_end m (de + rec_len)
         else NextPage)"
  by pat_completeness auto
termination by (relation "measure (\<lambda>(name, e, m, de). 4096 - de)") (auto simp: PAGE_CACHE_SIZE_def LKFS_DIR_REC_LEN_def)

text \<open>Filling the entry found.\<close>

definition put_entry :: "u8 list \<Rightarrow> u32 \<Rightarrow> nat \<Rightarrow> nat \<Rightarrow> nat \<Rightarrow> mem \<Rightarrow> mem" where
  "put_entry name ino de name_len rec_len m =
     (let (de, m) =
        (if de_inode m de \<noteq> 0 then
           let de1 = de + name_len;
               m = set_de_rec_len de1 (rec_len - name_len) m;
               m = set_de_rec_len de name_len m
           in (de1, m)
         else (de, m));
        m = set_de_name_len de (length name) m;
        m = set_de_name de name m
      in set_de_inode de ino m)"

text \<open>
  \<open>lkfs_add_link\<close> from page \<open>n\<close> on, with \<open>c\<close> pages left to look at: the return value, the
  directory, its pages and the volume.
\<close>

fun add_link_from :: "'v vfs_scheme \<Rightarrow> u8 list \<Rightarrow> u32 \<Rightarrow> nat \<Rightarrow> nat \<Rightarrow> inode \<Rightarrow> pages \<Rightarrow> lkfs
    \<Rightarrow> (int \<times> inode \<times> pages \<times> lkfs) res" where
  "add_link_from K name ino n 0 dir pg s = Inl KBug"
| "add_link_from K name ino n (Suc c) dir pg s =
     (if k_get_page_error K (i_ino dir) n \<noteq> 0 then Inr (k_get_page_error K (i_ino dir) n, dir, pg, s)
      else case add_scan name (lkfs_last_byte dir n) (pg n) 0 of
        NextPage \<Rightarrow> add_link_from K name ino (Suc n) c dir pg s
      | Fail e \<Rightarrow> Inr (e, dir, pg, s)
      | Got de name_len rec_len m \<Rightarrow>
          let pos = n * 4096 + de
          in rbind (lkfs_write_begin K dir pos rec_len s) (\<lambda>(err, dir, s).
            if err \<noteq> 0 then Inr (err, dir, pg(n := m), s)
            else
              let m = put_entry name ino de name_len rec_len m;
                  s = commit_to_disk K n pos rec_len dir s;
                  (err, dir) = lkfs_commit_chunk K n pos rec_len dir;
                  dir = dir\<lparr>i_mtime := k_now K, i_ctime := k_now K\<rparr>
              in Inr (err, dir, pg(n := m), s)))"

definition lkfs_add_link :: "'v vfs_scheme \<Rightarrow> u8 list \<Rightarrow> inode \<Rightarrow> inode \<Rightarrow> pages \<Rightarrow> lkfs
    \<Rightarrow> (int \<times> inode \<times> pages \<times> lkfs) res" where
  "lkfs_add_link K name nd dir pg s =
     add_link_from K name (of_nat (i_ino nd)) 0 (dir_pages dir + 1) dir pg s"

subsection \<open>An empty directory\<close>

definition lkfs_make_empty :: "'v vfs_scheme \<Rightarrow> inode \<Rightarrow> inode \<Rightarrow> pages \<Rightarrow> lkfs
    \<Rightarrow> (int \<times> inode \<times> pages \<times> lkfs) res" where
  "lkfs_make_empty K nd parent pg s =
     (if \<not> k_grab_page_ok K (i_ino nd) then Inr (- ENOMEM, nd, pg, s)
      else
        rbind (lkfs_write_begin K nd 0 1024 s) (\<lambda>(err, nd, s).
           if err \<noteq> 0 then Inr (err, nd, pg, s)
           else
             let m = memset (pg 0) 0 0 1024;
                 m = set_de_name_len 0 1 m;
                 m = set_de_rec_len 0 (LKFS_DIR_REC_LEN 1) m;
                 m = set_de_name 0 [46, 0, 0, 0] m;
                 m = set_de_inode 0 (of_nat (i_ino nd)) m;
                 de = LKFS_DIR_REC_LEN 1;
                 m = set_de_name_len de 2 m;
                 m = set_de_rec_len de (1024 - LKFS_DIR_REC_LEN 1) m;
                 m = set_de_inode de (of_nat (i_ino parent)) m;
                 m = set_de_name de [46, 46, 0, 0] m;
                 s = commit_to_disk K 0 0 1024 nd s;
                 (err, nd) = lkfs_commit_chunk K 0 0 1024 nd
             in Inr (err, nd, pg(0 := m), s)))"

subsection \<open>Finding an entry\<close>

text \<open>
  The code stops at \<open>kaddr + (last_byte - reclen)\<close>, an unsigned difference. It does not wrap: the
  last byte of a page of a directory of whole chunks is at least 1024, and a name has at most 255
  characters, so a record for it at most 264 bytes.
\<close>

datatype find_result = Found nat | BadEntry | NotHere

function find_in_page :: "u8 list \<Rightarrow> nat \<Rightarrow> mem \<Rightarrow> nat \<Rightarrow> find_result" where
  "find_in_page name last_byte m de =
     (if de + LKFS_DIR_REC_LEN (length name) \<le> last_byte then
        if de_rec_len m de = 0 then BadEntry
        else if lkfs_match name m de then Found de
        else find_in_page name last_byte m (lkfs_next_entry m de)
      else NotHere)"
  by pat_completeness auto
termination by (relation "measure (\<lambda>(name, e, m, de). e - de)")
  (auto simp: LKFS_DIR_REC_LEN_def lkfs_next_entry_def)

text \<open>
  The outer loop from page \<open>n\<close> on: after the last page it wraps to page 0 and stops; it stops
  early at a page beyond \<open>i_blocks\<close>. The result is the page and the offset of the entry.
\<close>

function find_from :: "'v vfs_scheme \<Rightarrow> u8 list \<Rightarrow> inode \<Rightarrow> pages \<Rightarrow> nat \<Rightarrow> (nat \<times> nat) option" where
  "find_from K name dir pg n =
     (let next = (if Suc n \<ge> dir_pages dir then None
         else if Suc n > i_blocks dir div 2 ^ (12 - 9) then None
         else find_from K name dir pg (Suc n))
      in if k_get_page_error K (i_ino dir) n \<noteq> 0 then next
         else case find_in_page name (lkfs_last_byte dir n) (pg n) 0 of
           Found de \<Rightarrow> Some (n, de)
         | BadEntry \<Rightarrow> None
         | NotHere \<Rightarrow> next)"
  by pat_completeness auto
termination by (relation "measure (\<lambda>(K, name, dir, pg, n). dir_pages dir - n)") auto

definition lkfs_find_entry :: "'v vfs_scheme \<Rightarrow> inode \<Rightarrow> u8 list \<Rightarrow> pages \<Rightarrow> (nat \<times> nat) option" where
  "lkfs_find_entry K dir name pg = (if dir_pages dir = 0 then None else find_from K name dir pg 0)"

definition lkfs_inode_by_name :: "'v vfs_scheme \<Rightarrow> inode \<Rightarrow> u8 list \<Rightarrow> pages \<Rightarrow> u32" where
  "lkfs_inode_by_name K dir name pg =
     (case lkfs_find_entry K dir name pg of None \<Rightarrow> 0 | Some (n, de) \<Rightarrow> de_inode (pg n) de)"

subsection \<open>Deleting an entry\<close>

text \<open>The entry before \<open>dir\<close> in its chunk, \<open>pde\<close>; \<open>None\<close> in the outer option is \<open>-EIO\<close>.\<close>

function find_prev :: "mem \<Rightarrow> nat \<Rightarrow> nat \<Rightarrow> nat option \<Rightarrow> nat option option" where
  "find_prev m target de pde =
     (if de < target then
        if de_rec_len m de = 0 then None else find_prev m target (lkfs_next_entry m de) (Some de)
      else Some pde)"
  by pat_completeness auto
termination by (relation "measure (\<lambda>(m, t, de, p). t - de)") (auto simp: lkfs_next_entry_def)

definition lkfs_delete_entry :: "'v vfs_scheme \<Rightarrow> nat \<Rightarrow> nat \<Rightarrow> inode \<Rightarrow> pages
    \<Rightarrow> (int \<times> inode \<times> pages) res" where
  "lkfs_delete_entry K n de dir pg =
     (let m = pg n; from = de div 1024 * 1024; to = de + de_rec_len m de
      in case find_prev m de from None of
        None \<Rightarrow> Inr (- EIO, dir, pg)
      | Some pde \<Rightarrow>
          let from = (case pde of None \<Rightarrow> from | Some p \<Rightarrow> p);
              pos = n * 4096 + from
          in if k_write_begin_error K (i_ino dir) pos (to - from) \<noteq> 0 then Inl KBug
             else
               let m = (case pde of None \<Rightarrow> m | Some p \<Rightarrow> set_de_rec_len p (to - from) m);
                   m = set_de_inode de 0 m;
                   (err, dir) = lkfs_commit_chunk K n pos (to - from) dir;
                   dir = dir\<lparr>i_ctime := k_now K, i_mtime := k_now K\<rparr>;
                   dir = snd (lkfs_sync_inode K dir)
               in Inr (err, dir, pg(n := m)))"

subsection \<open>Listing\<close>

text \<open>
  \<open>filldir\<close> is the caller's: it is given the name, the position and the inode number, and
  answers whether the listing stops (\<open>over\<close>). A result is the return value, the new \<open>f_pos\<close>
  and the caller's state. The code does not check for a page that could not be read.
\<close>

type_synonym 'b filldir = "u8 list \<Rightarrow> nat \<Rightarrow> u32 \<Rightarrow> 'b \<Rightarrow> bool \<times> 'b"

datatype 'b list_result = Stop int nat 'b | Go nat 'b

function readdir_page :: "'b filldir \<Rightarrow> mem \<Rightarrow> nat \<Rightarrow> nat \<Rightarrow> nat \<Rightarrow> nat \<Rightarrow> 'b \<Rightarrow> 'b list_result" where
  "readdir_page fill m base last_byte de f_pos b =
     (if de + LKFS_DIR_REC_LEN 1 \<le> last_byte then
        if de_rec_len m de = 0 then Stop (- EIO) f_pos b
        else
          let (over, b) = (if de_inode m de \<noteq> 0
             then fill (de_name m de (de_name_len m de)) (base + de) (de_inode m de) b else (False, b))
          in if over then Stop 0 f_pos b
             else readdir_page fill m base last_byte (lkfs_next_entry m de) (f_pos + de_rec_len m de) b
      else Go f_pos b)"
  by pat_completeness auto
termination by (relation "measure (\<lambda>(f, m, base, e, de, p, b). e - de)")
  (auto simp: LKFS_DIR_REC_LEN_def lkfs_next_entry_def)

fun readdir_from :: "'v vfs_scheme \<Rightarrow> 'b filldir \<Rightarrow> inode \<Rightarrow> pages \<Rightarrow> nat \<Rightarrow> nat \<Rightarrow> nat \<Rightarrow> nat \<Rightarrow> 'b
    \<Rightarrow> (int \<times> nat \<times> 'b) res" where
  "readdir_from K fill dir pg n 0 offset f_pos b = Inr (0, f_pos, b)"
| "readdir_from K fill dir pg n (Suc c) offset f_pos b =
     (if k_get_page_error K (i_ino dir) n \<noteq> 0 then Inl NullDeref
      else case readdir_page fill (pg n) (n * 4096) (lkfs_last_byte dir n) offset f_pos b of
        Stop e p b \<Rightarrow> Inr (e, p, b)
      | Go p b \<Rightarrow> readdir_from K fill dir pg (Suc n) c 0 p b)"

definition lkfs_readdir :: "'v vfs_scheme \<Rightarrow> 'b filldir \<Rightarrow> inode \<Rightarrow> pages \<Rightarrow> nat \<Rightarrow> 'b
    \<Rightarrow> (int \<times> nat \<times> 'b) res" where
  "lkfs_readdir K fill dir pg pos b =
     (let offset = pos mod PAGE_CACHE_SIZE; n = pos div 2 ^ 12
      in if int pos > int (i_size dir) - int (LKFS_DIR_REC_LEN 1) then Inr (0, pos, b)
         else readdir_from K fill dir pg n (dir_pages dir - n) offset pos b)"

declare add_scan.simps [simp del] find_in_page.simps [simp del] find_from.simps [simp del]
  find_prev.simps [simp del] readdir_page.simps [simp del]

end
