(* ===== verification/Dir_Facts.thy ===== *)
theory Dir_Facts
  imports Dir
begin

text \<open>
  What a well-formed directory is and what the operations of \<open>Dir\<close> do to one: a page holds a
  chain of records, every record inside its 1024-byte chunk; the directory is the list of the
  live records' names and inode numbers over all its pages. The properties state adding,
  finding, deleting and listing on that list.
\<close>

section \<open>Chains of records in a page\<close>

definition rec_ok :: "mem \<Rightarrow> nat \<Rightarrow> bool" where
  "rec_ok m d \<longleftrightarrow> LKFS_DIR_REC_LEN (de_name_len m d) \<le> de_rec_len m d \<and> 12 \<le> de_rec_len m d
     \<and> d mod 1024 + de_rec_len m d \<le> 1024 \<and> (de_inode m d \<noteq> 0 \<longrightarrow> 0 < de_name_len m d)"

lemma rec_len_12: "0 < n \<Longrightarrow> 12 \<le> LKFS_DIR_REC_LEN n"
  unfolding LKFS_DIR_REC_LEN_def using div_le_mono [of 12 "n + 8 + 3" 4] by simp

primrec chain :: "mem \<Rightarrow> nat \<Rightarrow> nat list \<Rightarrow> nat \<Rightarrow> bool" where
  "chain m a [] e = (a = e)"
| "chain m a (d # ds) e = (d = a \<and> rec_ok m d \<and> chain m (d + de_rec_len m d) ds e)"

type_synonym entry = "u8 list \<times> u32"

definition live1 :: "mem \<Rightarrow> nat \<Rightarrow> entry list" where
  "live1 m d = (if de_inode m d = 0 then [] else [(de_name m d (de_name_len m d), de_inode m d)])"

definition live :: "mem \<Rightarrow> nat list \<Rightarrow> entry list" where
  "live m ds = concat (map (live1 m) ds)"

lemma live_simps [simp]:
  "live m [] = []" "live m (d # ds) = live1 m d @ live m ds" "live m (xs @ ys) = live m xs @ live m ys"
  by (simp_all add: live_def)

lemma rec_okD:
  assumes "rec_ok m d"
  shows "8 + de_name_len m d \<le> de_rec_len m d" "0 < de_rec_len m d" "de_rec_len m d \<le> 1024"
    "LKFS_DIR_REC_LEN (de_name_len m d) \<le> de_rec_len m d" "d mod 1024 + de_rec_len m d \<le> 1024"
    "12 \<le> de_rec_len m d" "de_inode m d \<noteq> 0 \<Longrightarrow> 0 < de_name_len m d"
  using assms dir_rec_len_bounds(1) [of "de_name_len m d"] by (auto simp: rec_ok_def)

lemma chain_append: "chain m a (xs @ ys) e \<longleftrightarrow> (\<exists>b. chain m a xs b \<and> chain m b ys e)"
  by (induction xs arbitrary: a) auto

lemma chain_bounds:
  assumes "chain m a ds e"
  shows "a \<le> e" "d \<in> set ds \<Longrightarrow> a \<le> d \<and> d + de_rec_len m d \<le> e \<and> rec_ok m d"
  using assms by (induction ds arbitrary: a) (fastforce dest: rec_okD)+

text \<open>An entry depends on its own record only.\<close>

lemma entry_cong:
  assumes "\<And>i. d \<le> i \<Longrightarrow> i < d + 8 + de_name_len m d \<Longrightarrow> m' i = m i"
  shows "de_inode m' d = de_inode m d" "de_rec_len m' d = de_rec_len m d"
    "de_name_len m' d = de_name_len m d"
    "de_name m' d (de_name_len m d) = de_name m d (de_name_len m d)"
proof -
  show "de_inode m' d = de_inode m d"
    unfolding de_inode_def by (rule f32.rd_bytes) (use assms in auto)
  show "de_rec_len m' d = de_rec_len m d"
    unfolding de_rec_len_def by (rule arg_cong [where f = unat], rule f16.rd_bytes) (use assms in auto)
  show "de_name_len m' d = de_name_len m d"
    unfolding de_name_len_def by (rule arg_cong [where f = unat], rule f8.rd_bytes) (use assms in auto)
  show "de_name m' d (de_name_len m d) = de_name m d (de_name_len m d)"
    unfolding de_name_def by (rule get_bytes_agree) (use assms in auto)
qed

lemma chain_cong:
  assumes "chain m a ds e" "\<And>i. a \<le> i \<Longrightarrow> i < e \<Longrightarrow> m' i = m i"
  shows "chain m' a ds e \<and> live m' ds = live m ds"
  using assms
proof (induction ds arbitrary: a)
  case Nil
  then show ?case by simp
next
  case (Cons d ds)
  then have d: "d = a" "rec_ok m a" and c: "chain m (a + de_rec_len m a) ds e" by auto
  have eq: "m' i = m i" if "a \<le> i" "i < a + 8 + de_name_len m a" for i
    using Cons.prems(2) that rec_okD(1) [OF d(2)] chain_bounds(1) [OF c] by simp
  have "chain m' (a + de_rec_len m a) ds e \<and> live m' ds = live m ds"
    using Cons.IH [OF c] Cons.prems(2) by auto
  with d show ?case by (simp add: entry_cong [OF eq] rec_ok_def live1_def)
qed

section \<open>Writing an entry\<close>

lemma small_nat:
  "n < 256 \<Longrightarrow> unat (of_nat n :: u8) = n" "n < 65536 \<Longrightarrow> unat (of_nat n :: u16) = n"
  by (simp_all add: unat_of_nat take_bit_nat_eq_self)

lemma set_de_frame:
  "i < de \<or> de + 4 \<le> i \<Longrightarrow> set_de_inode de v m i = m i"
  "i < de + 4 \<or> de + 6 \<le> i \<Longrightarrow> set_de_rec_len de r m i = m i"
  "i < de + 6 \<or> de + 7 \<le> i \<Longrightarrow> set_de_name_len de l m i = m i"
  "i < de + 8 \<or> de + 8 + length name \<le> i \<Longrightarrow> set_de_name de name m i = m i"
  by (auto simp: set_de_inode_def set_de_rec_len_def set_de_name_len_def set_de_name_def
      f32.wr_outside f16.wr_outside f8.wr_outside put_bytes_frame)

text \<open>The three fields \<open>put_entry\<close> writes at the entry it ends up at.\<close>

definition fill_entry :: "u8 list \<Rightarrow> u32 \<Rightarrow> nat \<Rightarrow> mem \<Rightarrow> mem" where
  "fill_entry name ino de m = set_de_inode de ino (set_de_name de name (set_de_name_len de (length name) m))"

lemma put_entry_eq:
  "put_entry name ino de nl rl m =
    (if de_inode m de \<noteq> 0
     then fill_entry name ino (de + nl) (set_de_rec_len de nl (set_de_rec_len (de + nl) (rl - nl) m))
     else fill_entry name ino de m)"
  by (simp add: put_entry_def fill_entry_def Let_def)

lemma get_bytes_put32: "b + n \<le> a \<or> a + 4 \<le> b \<Longrightarrow> get_bytes (put32 m a v) b n = get_bytes m b n"
  by (rule get_bytes_agree) (auto intro: f32.wr_outside)

lemma fill_entry_at:
  assumes "length name < 256"
  shows "de_inode (fill_entry name ino d m) d = ino"
    "de_rec_len (fill_entry name ino d m) d = de_rec_len m d"
    "de_name_len (fill_entry name ino d m) d = length name"
    "de_name (fill_entry name ino d m) d (length name) = name"
    "i < d \<or> d + 8 + length name \<le> i \<Longrightarrow> fill_entry name ino d m i = m i"
  using assms
  by (auto simp: fill_entry_def de_inode_def de_rec_len_def de_name_len_def de_name_def
      set_de_inode_def set_de_name_def set_de_name_len_def mem_simps small_nat get_bytes_put32
      put_bytes_frame f32.wr_outside f8.wr_outside)

lemma live1_fill: "length name < 256 \<Longrightarrow> ino \<noteq> 0 \<Longrightarrow> live1 (fill_entry name ino d m) d = [(name, ino)]"
  by (simp add: live1_def fill_entry_at)

lemma rec_len_write: "r < 65536 \<Longrightarrow> de_rec_len (set_de_rec_len d r m) d = r"
  by (simp add: de_rec_len_def set_de_rec_len_def f16.rd_wr small_nat)

text \<open>Filling an unused record, and splitting a used one.\<close>

lemma chain_reuse:
  assumes c: "chain m a (ds1 @ d # ds2) e" and z: "de_inode m d = 0"
    and fit: "LKFS_DIR_REC_LEN (length name) \<le> de_rec_len m d" and len: "length name < 256" and ino: "ino \<noteq> 0" and ne: "name \<noteq> []"
  shows "chain (put_entry name ino d nl rl m) a (ds1 @ d # ds2) e"
    "live m (ds1 @ d # ds2) = live m ds1 @ live m ds2"
    "live (put_entry name ino d nl rl m) (ds1 @ d # ds2) = live m ds1 @ (name, ino) # live m ds2"
proof -
  let ?m = "fill_entry name ino d m"
  from c have c1: "chain m a ds1 d" and ok: "rec_ok m d" and c2: "chain m (d + de_rec_len m d) ds2 e"
    by (auto simp: chain_append)
  note F = fill_entry_at [OF len] and fit' = order_trans [OF dir_rec_len_bounds(1) fit]
  have k1: "chain ?m a ds1 d \<and> live ?m ds1 = live m ds1" by (rule chain_cong [OF c1]) (simp add: F)
  have k2: "chain ?m (d + de_rec_len m d) ds2 e \<and> live ?m ds2 = live m ds2"
    by (rule chain_cong [OF c2]) (use fit' in \<open>simp add: F\<close>)
  have "rec_ok ?m d" using ok fit ne by (simp add: rec_ok_def F)
  then show "chain (put_entry name ino d nl rl m) a (ds1 @ d # ds2) e"
    using k1 k2 z by (auto simp: put_entry_eq chain_append F)
  show "live m (ds1 @ d # ds2) = live m ds1 @ live m ds2" using z by (simp add: live1_def)
  show "live (put_entry name ino d nl rl m) (ds1 @ d # ds2) = live m ds1 @ (name, ino) # live m ds2"
    using k1 k2 z by (simp add: put_entry_eq live1_fill [OF len ino])
qed

lemma chain_split:
  assumes c: "chain m a (ds1 @ d # ds2) e" and u: "de_inode m d \<noteq> 0"
    and nl: "nl = LKFS_DIR_REC_LEN (de_name_len m d)" and fit: "nl + LKFS_DIR_REC_LEN (length name) \<le> de_rec_len m d"
    and len: "length name < 256" and ino: "ino \<noteq> 0" and ne: "name \<noteq> []"
  shows "chain (put_entry name ino d nl (de_rec_len m d) m) a (ds1 @ d # (d + nl) # ds2) e"
    "live (put_entry name ino d nl (de_rec_len m d) m) (ds1 @ d # (d + nl) # ds2)
      = live m (ds1 @ [d]) @ (name, ino) # live m ds2"
proof -
  let ?r = "de_rec_len m d" and ?d = "d + nl"
  let ?m1 = "set_de_rec_len d nl (set_de_rec_len ?d (?r - nl) m)"
  let ?m = "fill_entry name ino ?d ?m1"
  from c have c1: "chain m a ds1 d" and ok: "rec_ok m d" and c2: "chain m (d + ?r) ds2 e"
    by (auto simp: chain_append)
  note F = fill_entry_at [OF len] and R = rec_okD [OF ok]
  have n8: "8 + de_name_len m d \<le> nl" using dir_rec_len_bounds(1) [of "de_name_len m d"] nl by simp
  have r8: "d + nl + 8 + length name \<le> d + ?r" using fit dir_rec_len_bounds(1) [of "length name"] by linarith
  have fr: "?m i = m i" if "i < d \<or> d + ?r \<le> i" for i
  proof -
    have "i < d + nl \<or> d + nl + 8 + length name \<le> i" using that r8 by linarith
    then have "?m i = ?m1 i" by (rule F(5))
    also have "\<dots> = m i" using that n8 r8 by (auto simp: set_de_frame)
    finally show ?thesis .
  qed
  have k1: "chain ?m a ds1 d \<and> live ?m ds1 = live m ds1" by (rule chain_cong [OF c1]) (simp add: fr)
  have k2: "chain ?m (d + ?r) ds2 e \<and> live ?m ds2 = live m ds2" by (rule chain_cong [OF c2]) (simp add: fr)
  have fd: "?m i = m i" if "d \<le> i" "i < d + nl" "i < d + 4 \<or> d + 6 \<le> i" for i
    using that by (simp add: F set_de_frame)
  have e1: "de_inode ?m d = de_inode m d"
    unfolding de_inode_def by (rule f32.rd_bytes) (use n8 in \<open>simp add: fd\<close>)
  have e2: "de_name_len ?m d = de_name_len m d"
    unfolding de_name_len_def by (rule arg_cong [where f = unat], rule f8.rd_bytes) (use n8 in \<open>simp add: fd\<close>)
  have e3: "de_name ?m d (de_name_len m d) = de_name m d (de_name_len m d)"
    unfolding de_name_def by (rule get_bytes_agree) (use n8 in \<open>simp add: fd\<close>)
  have "de_rec_len ?m d = de_rec_len ?m1 d"
    unfolding de_rec_len_def by (rule arg_cong [where f = unat], rule f16.rd_bytes) (use n8 in \<open>simp add: F\<close>)
  then have e4: "de_rec_len ?m d = nl" using R(3) fit by (simp add: rec_len_write)
  have l1: "live1 ?m d = live1 m d" by (simp add: live1_def e1 e2 e3)
  have "de_rec_len ?m1 ?d = de_rec_len (set_de_rec_len ?d (?r - nl) m) ?d"
    unfolding de_rec_len_def by (rule arg_cong [where f = unat], rule f16.rd_bytes) (use n8 in \<open>simp add: set_de_frame\<close>)
  then have e5': "de_rec_len ?m1 ?d = ?r - nl" using R(3) by (simp add: rec_len_write)
  then have e5: "de_rec_len ?m ?d = ?r - nl" by (simp only: F)
  have "?d mod 1024 = d mod 1024 + nl"
  proof -
    have lt: "d mod 1024 + nl < 1024" using R(5) fit dir_rec_len_bounds(1) [of "length name"] by linarith
    have "?d mod 1024 = (d mod 1024 + nl) mod 1024" by (simp add: mod_add_left_eq)
    then show ?thesis using lt by simp
  qed
  moreover have "12 \<le> ?r - nl" using rec_len_12 [of "length name"] ne fit by simp
  ultimately have ok1: "rec_ok ?m ?d" using R(5) fit ne by (simp add: rec_ok_def e5' F)
  have "12 \<le> nl" using rec_len_12 [OF R(7) [OF u]] nl by simp
  then have ok0: "rec_ok ?m d"
    unfolding rec_ok_def e4 e2 e1 nl [symmetric] using R(5,7) fit by simp
  have s: "d + nl + (?r - nl) = d + ?r" using fit by linarith
  show "chain (put_entry name ino d nl ?r m) a (ds1 @ d # ?d # ds2) e"
    unfolding put_entry_eq using u k1 k2 ok0 ok1 s by (auto simp: chain_append e4 e5)
  show "live (put_entry name ino d nl ?r m) (ds1 @ d # ?d # ds2) = live m (ds1 @ [d]) @ (name, ino) # live m ds2"
    unfolding put_entry_eq using u k1 k2 by (simp add: live1_fill [OF len ino] l1)
qed


text \<open>A new chunk at the end of the directory.\<close>

lemma chain_extend:
  assumes c: "chain m a ds e" and al: "e mod 1024 = 0" and len: "length name < 256" and ino: "ino \<noteq> 0" and ne: "name \<noteq> []"
  defines "m' \<equiv> put_entry name ino e 0 1024 (set_de_inode e 0 (set_de_rec_len e 1024 m))"
  shows "chain m' a (ds @ [e]) (e + 1024)" "live m' (ds @ [e]) = live m ds @ [(name, ino)]"
proof -
  let ?m1 = "set_de_inode e 0 (set_de_rec_len e 1024 m)"
  have z: "de_inode ?m1 e = 0" by (simp add: de_inode_def set_de_inode_def f32.rd_wr)
  have r: "de_rec_len ?m1 e = 1024"
    by (simp add: de_rec_len_def set_de_inode_def set_de_rec_len_def mem_simps)
  have m': "m' = fill_entry name ino e ?m1" by (simp add: m'_def put_entry_eq z)
  note F = fill_entry_at [OF len]
  have k: "chain m' a ds e \<and> live m' ds = live m ds"
    by (rule chain_cong [OF c]) (simp add: m' F set_de_frame)
  have "LKFS_DIR_REC_LEN (length name) \<le> 1024"
    using dir_rec_len_bounds(2) [of "length name"] len by linarith
  then have "rec_ok m' e" using al ne by (simp add: rec_ok_def m' F r)
  then show "chain m' a (ds @ [e]) (e + 1024)"
    using k by (simp add: chain_append) (simp add: m' F r)
  show "live m' (ds @ [e]) = live m ds @ [(name, ino)]"
    using k by (simp add: m' live1_fill [OF len ino])
qed

section \<open>Deleting a record\<close>

lemma chain_clear:
  assumes c: "chain m a (ds1 @ d # ds2) e"
  shows "chain (set_de_inode d 0 m) a (ds1 @ d # ds2) e"
    "live (set_de_inode d 0 m) (ds1 @ d # ds2) = live m ds1 @ live m ds2"
proof -
  let ?m = "set_de_inode d 0 m"
  from c have c1: "chain m a ds1 d" and ok: "rec_ok m d" and c2: "chain m (d + de_rec_len m d) ds2 e"
    by (auto simp: chain_append)
  have k1: "chain ?m a ds1 d \<and> live ?m ds1 = live m ds1" by (rule chain_cong [OF c1]) (simp add: set_de_frame)
  have k2: "chain ?m (d + de_rec_len m d) ds2 e \<and> live ?m ds2 = live m ds2"
    by (rule chain_cong [OF c2]) (use rec_okD(1) [OF ok] in \<open>simp add: set_de_frame\<close>)
  have e: "de_inode ?m d = 0" "de_rec_len ?m d = de_rec_len m d" "de_name_len ?m d = de_name_len m d"
    by (simp_all add: de_inode_def de_rec_len_def de_name_len_def set_de_inode_def mem_simps)
  show "chain ?m a (ds1 @ d # ds2) e" using k1 k2 ok by (auto simp: chain_append e rec_ok_def)
  show "live ?m (ds1 @ d # ds2) = live m ds1 @ live m ds2" using k1 k2 by (simp add: live1_def e)
qed

lemma chain_merge:
  assumes c: "chain m a (ds1 @ p # d # ds2) e" and same: "p div 1024 = d div 1024"
  defines "m' \<equiv> set_de_inode d 0 (set_de_rec_len p (d + de_rec_len m d - p) m)"
  shows "chain m' a (ds1 @ p # ds2) e"
    "live m' (ds1 @ p # ds2) = live m (ds1 @ [p]) @ live m ds2"
proof -
  let ?r = "d + de_rec_len m d - p"
  from c have c1: "chain m a ds1 p" and okp: "rec_ok m p" and d: "d = p + de_rec_len m p"
    and ok: "rec_ok m d" and c2: "chain m (d + de_rec_len m d) ds2 e"
    by (auto simp: chain_append)
  note P = rec_okD [OF okp] and D = rec_okD [OF ok]
  have pd: "p + ?r = d + de_rec_len m d" using d by simp
  have rng: "p mod 1024 + ?r \<le> 1024"
    using same D(5) d div_mult_mod_eq [of p 1024] div_mult_mod_eq [of d 1024] by linarith
  have n8: "p + 8 + de_name_len m p \<le> d" using P(1) d by simp
  have fr: "m' i = m i" if "i < p \<or> p + ?r \<le> i" for i
    using that n8 D(1) pd by (auto simp: m'_def set_de_frame)
  have k1: "chain m' a ds1 p \<and> live m' ds1 = live m ds1" by (rule chain_cong [OF c1]) (simp add: fr)
  have k2: "chain m' (d + de_rec_len m d) ds2 e \<and> live m' ds2 = live m ds2"
    by (rule chain_cong [OF c2]) (use pd in \<open>simp add: fr\<close>)
  have fd: "m' i = m i" if "p \<le> i" "i < d" "i < p + 4 \<or> p + 6 \<le> i" for i
    using that by (simp add: m'_def set_de_frame)
  have e1: "de_inode m' p = de_inode m p"
    unfolding de_inode_def by (rule f32.rd_bytes) (use n8 in \<open>simp add: fd\<close>)
  have e2: "de_name_len m' p = de_name_len m p"
    unfolding de_name_len_def by (rule arg_cong [where f = unat], rule f8.rd_bytes) (use n8 in \<open>simp add: fd\<close>)
  have e3: "de_name m' p (de_name_len m p) = de_name m p (de_name_len m p)"
    unfolding de_name_def by (rule get_bytes_agree) (use n8 in \<open>simp add: fd\<close>)
  have "de_rec_len m' p = de_rec_len (set_de_rec_len p ?r m) p"
    unfolding de_rec_len_def m'_def
    by (rule arg_cong [where f = unat], rule f16.rd_bytes) (use n8 in \<open>simp add: set_de_frame\<close>)
  then have e4: "de_rec_len m' p = ?r" using rng by (simp add: rec_len_write)
  have "de_rec_len m p \<le> ?r" using d by simp
  then have "rec_ok m' p" unfolding rec_ok_def e1 e2 e4 using P(4,6,7) rng by auto
  then show "chain m' a (ds1 @ p # ds2) e" using k1 k2 pd by (auto simp: chain_append e4)
  show "live m' (ds1 @ p # ds2) = live m (ds1 @ [p]) @ live m ds2"
    using k1 k2 by (simp add: live1_def e1 e2 e3)
qed


section \<open>The scans over a page\<close>

lemma rec_len_pos [simp]: "0 < LKFS_DIR_REC_LEN n" "LKFS_DIR_REC_LEN n \<noteq> 0"
  by (simp_all add: LKFS_DIR_REC_LEN_def)

lemma match_live: "lkfs_match name m d \<longleftrightarrow> live1 m d = [(name, de_inode m d)]"
  by (auto simp: lkfs_match_def live1_def de_name_def)

lemma match_fits:
  assumes "chain m a ds e" "d \<in> set ds" "lkfs_match name m d"
  shows "a + LKFS_DIR_REC_LEN (length name) \<le> e"
proof -
  have n: "de_name_len m d = length name" using assms(3) by (simp add: lkfs_match_def split: if_splits)
  have b: "a \<le> d" "d + de_rec_len m d \<le> e" "rec_ok m d" using chain_bounds(2) [OF assms(1,2)] by blast+
  show ?thesis using b(1,2) rec_okD(4) [OF b(3)] unfolding n by linarith
qed

lemma find_in_page_chain:
  assumes "chain m a ds e"
  shows "find_in_page name e m a =
    (case find (lkfs_match name m) ds of Some d \<Rightarrow> Found d | None \<Rightarrow> NotHere)"
  using assms
proof (induction ds arbitrary: a)
  case Nil
  then show ?case by (subst find_in_page.simps) simp
next
  case (Cons d ds)
  then have d: "d = a" "rec_ok m a" and c: "chain m (lkfs_next_entry m a) ds e"
    by (auto simp: lkfs_next_entry_def)
  show ?case
  proof (cases "a + LKFS_DIR_REC_LEN (length name) \<le> e")
    case True
    with d Cons.IH [OF c] rec_okD(2) [OF d(2)] show ?thesis by (subst find_in_page.simps) simp
  next
    case False
    then have "\<forall>x \<in> set (d # ds). \<not> lkfs_match name m x" using match_fits [OF Cons.prems] by blast
    then have "find (lkfs_match name m) (d # ds) = None" by (simp add: find_None_iff)
    with False show ?thesis by (subst find_in_page.simps) simp
  qed
qed

lemma find_live:
  "map_of (live m ds) name = map_option (de_inode m) (find (lkfs_match name m) ds)"
proof (induction ds)
  case (Cons d ds)
  have "map_of (live1 m d) name = (if lkfs_match name m d then Some (de_inode m d) else None)"
    by (auto simp: live1_def lkfs_match_def de_name_def)
  with Cons show ?case by (simp add: map_add_def)
qed simp

text \<open>What the scan of \<open>lkfs_add_link\<close> finds when the name is not in the page.\<close>

lemma add_scan_chain:
  assumes "chain m a ds e" "\<forall>d \<in> set ds. \<not> lkfs_match name m d" "length name < 256" "e mod 1024 = 0" "e \<le> 4096"
  shows "add_scan name e m a = NextPage \<and> e = 4096
    \<or> (\<exists>d \<in> set ds. add_scan name e m a = Got d (LKFS_DIR_REC_LEN (de_name_len m d)) (de_rec_len m d) m
         \<and> (de_inode m d = 0 \<and> LKFS_DIR_REC_LEN (length name) \<le> de_rec_len m d
            \<or> de_inode m d \<noteq> 0 \<and> LKFS_DIR_REC_LEN (de_name_len m d) + LKFS_DIR_REC_LEN (length name) \<le> de_rec_len m d))
    \<or> add_scan name e m a = Got e 0 1024 (set_de_inode e 0 (set_de_rec_len e 1024 m)) \<and> e < 4096"
proof -
  let ?L = "LKFS_DIR_REC_LEN (length name)"
  have L: "?L < 300" using dir_rec_len_bounds(2) [of "length name"] assms(3) by linarith
  have last: "e = 4096" if "\<not> b + ?L \<le> 4096" "b \<le> e" for b
  proof -
    obtain k where k: "e = 1024 * k" using assms(4) by auto
    with that L assms(5) have "k = 4" by simp
    with k show ?thesis by simp
  qed
  show ?thesis
    using assms(1,2)
  proof (induction ds arbitrary: a)
    case Nil
    then have ae: "a = e" by simp
    show ?case
    proof (cases "e + ?L \<le> 4096")
      case True
      then have "e < 4096" using dir_rec_len_bounds(1) [of "length name"] by linarith
      with True ae show ?thesis by (simp add: add_scan.simps Let_def PAGE_CACHE_SIZE_def)
    next
      case False
      with ae last [of e] show ?thesis by (simp add: add_scan.simps Let_def PAGE_CACHE_SIZE_def)
    qed
  next
    case (Cons d ds)
    then have d: "d = a" "rec_ok m a" and c: "chain m (a + de_rec_len m a) ds e" by auto
    note R = rec_okD [OF d(2)]
    have ae: "a \<noteq> e" "a \<le> e" using chain_bounds(1) [OF c] R(2) by auto
    show ?case
    proof (cases "a + ?L \<le> 4096")
      case False
      with last ae show ?thesis by (simp add: add_scan.simps Let_def PAGE_CACHE_SIZE_def)
    next
      case True
      then have s: "add_scan name e m a =
          (let name_len = LKFS_DIR_REC_LEN (de_name_len m a); rec_len = de_rec_len m a
           in if de_inode m a = 0 \<and> rec_len \<ge> ?L then Got a name_len rec_len m
              else if rec_len \<ge> name_len + ?L then Got a name_len rec_len m
              else add_scan name e m (a + rec_len))"
        using ae R(2) Cons.prems(2) d by (subst add_scan.simps) (simp add: Let_def PAGE_CACHE_SIZE_def)
      have "add_scan name e m (a + de_rec_len m a) = NextPage \<and> e = 4096
        \<or> (\<exists>d \<in> set ds. add_scan name e m (a + de_rec_len m a) = Got d (LKFS_DIR_REC_LEN (de_name_len m d)) (de_rec_len m d) m
             \<and> (de_inode m d = 0 \<and> ?L \<le> de_rec_len m d
                \<or> de_inode m d \<noteq> 0 \<and> LKFS_DIR_REC_LEN (de_name_len m d) + ?L \<le> de_rec_len m d))
        \<or> add_scan name e m (a + de_rec_len m a) = Got e 0 1024 (set_de_inode e 0 (set_de_rec_len e 1024 m)) \<and> e < 4096"
        by (rule Cons.IH [OF c]) (use Cons.prems(2) in simp)
      then show ?thesis
        unfolding s Let_def d(1) by (cases "de_inode m a = 0") auto
    qed
  qed
qed

text \<open>The effect on a page of adding the entry where the scan says.\<close>

lemma page_add:
  assumes c: "chain m 0 ds e" and nm: "\<forall>d \<in> set ds. \<not> lkfs_match name m d" and len: "length name < 256"
    and e: "e mod 1024 = 0" "e \<le> 4096" and ino: "ino \<noteq> 0" and ne: "name \<noteq> []"
    and got: "add_scan name e m 0 = Got d nl rl m1"
  shows "\<exists>ds' e' xs ys. chain (put_entry name ino d nl rl m1) 0 ds' e'
    \<and> (e' = e \<and> d + rl \<le> e \<and> 0 < rl \<or> d = e \<and> rl = 1024 \<and> e' = e + 1024 \<and> e < 4096)
    \<and> d mod 1024 + rl \<le> 1024 \<and> live m ds = xs @ ys \<and> live (put_entry name ino d nl rl m1) ds' = xs @ (name, ino) # ys"
  using add_scan_chain [OF c nm len e]
proof (elim disjE bexE conjE)
  assume "add_scan name e m 0 = NextPage"
  with got show ?thesis by simp
next
  assume "add_scan name e m 0 = Got e 0 1024 (set_de_inode e 0 (set_de_rec_len e 1024 m))" "e < 4096"
  with got chain_extend [OF c e(1) len ino ne] show ?thesis
    by - (rule exI [of _ "ds @ [e]"], rule exI [of _ "e + 1024"], rule exI [of _ "live m ds"], rule exI [of _ "[]"], use e(1) in auto)
next
  fix x assume x: "x \<in> set ds" and g: "add_scan name e m 0
      = Got x (LKFS_DIR_REC_LEN (de_name_len m x)) (de_rec_len m x) m"
    and z: "de_inode m x = 0" "LKFS_DIR_REC_LEN (length name) \<le> de_rec_len m x"
  then have d: "d = x" "rl = de_rec_len m x" "m1 = m" using got by auto
  obtain ds1 ds2 where ds: "ds = ds1 @ x # ds2" using x by (auto dest: split_list)
  show ?thesis
    using chain_reuse(1,3) [OF c [unfolded ds] z len ino ne, of nl rl] chain_reuse(2) [OF c [unfolded ds] z len ino ne]
      chain_bounds(2) [OF c x] rec_okD(2,5) [of m x] unfolding d
    by - (rule exI [of _ ds], rule exI [of _ e], rule exI [of _ "live m ds1"], rule exI [of _ "live m ds2"], simp add: ds)
next
  fix x assume x: "x \<in> set ds" and g: "add_scan name e m 0
      = Got x (LKFS_DIR_REC_LEN (de_name_len m x)) (de_rec_len m x) m"
    and u: "de_inode m x \<noteq> 0" and f: "LKFS_DIR_REC_LEN (de_name_len m x) + LKFS_DIR_REC_LEN (length name) \<le> de_rec_len m x"
  then have d: "d = x" "nl = LKFS_DIR_REC_LEN (de_name_len m x)" "rl = de_rec_len m x" "m1 = m" using got by auto
  obtain ds1 ds2 where ds: "ds = ds1 @ x # ds2" using x by (auto dest: split_list)
  show ?thesis
    using chain_split [OF c [unfolded ds] u refl f len ino ne] chain_bounds(2) [OF c x] rec_okD(2,5) [of m x] unfolding d
    by - (rule exI [of _ "ds1 @ x # (x + LKFS_DIR_REC_LEN (de_name_len m x)) # ds2"], rule exI [of _ e], rule exI [of _ "live m (ds1 @ [x])"], rule exI [of _ "live m ds2"], simp add: ds)
qed

text \<open>Deleting a record: the search for the record before it in its chunk.\<close>

lemma chunk_start:
  assumes "chain m a ds e" "a \<le> c" "c \<le> e" "c mod 1024 = 0"
  shows "\<exists>xs ys. ds = xs @ ys \<and> chain m a xs c \<and> chain m c ys e"
  using assms(1,2)
proof (induction ds arbitrary: a)
  case Nil
  with assms(3) show ?case by auto
next
  case (Cons d ds)
  show ?case
  proof (cases "a = c")
    case True
    with Cons.prems(1) show ?thesis by - (rule exI [of _ "[]"], rule exI [of _ "d # ds"], auto)
  next
    case False
    have d: "d = a" "rec_ok m a" and ch: "chain m (a + de_rec_len m a) ds e" using Cons.prems(1) by auto
    obtain k where k: "c = 1024 * k" using assms(4) by auto
    have "a div 1024 < k" using False Cons.prems(2) k by (simp add: less_mult_imp_div_less mult.commute)
    moreover define q r where "q = a div 1024" and "r = a mod 1024"
    ultimately have "q < k" "a = q * 1024 + r" "r + de_rec_len m a \<le> 1024"
      using rec_okD(5) [OF d(2)] by simp_all
    then have le: "a + de_rec_len m a \<le> c" unfolding k by linarith
    obtain xs ys where "ds = xs @ ys" "chain m (a + de_rec_len m a) xs c" "chain m c ys e"
      using Cons.IH [OF ch le] by blast
    with d show ?thesis by (intro exI [of _ "d # xs"] exI [of _ ys]) simp
  qed
qed

lemma find_prev_chain:
  assumes "chain m c ys d"
  shows "find_prev m d c pde = Some (if ys = [] then pde else Some (last ys))"
  using assms
proof (induction ys arbitrary: c pde)
  case Nil
  then show ?case by (subst find_prev.simps) simp
next
  case (Cons y ys)
  then have y: "y = c" "rec_ok m c" and ch: "chain m (lkfs_next_entry m c) ys d"
    by (auto simp: lkfs_next_entry_def)
  have "c < d" using chain_bounds(1) [OF ch] rec_okD(2) [OF y(2)] by (simp add: lkfs_next_entry_def)
  with y Cons.IH [OF ch] rec_okD(2) [OF y(2)] show ?case by (subst find_prev.simps) simp
qed

definition del_page :: "nat \<Rightarrow> nat option \<Rightarrow> mem \<Rightarrow> mem" where
  "del_page d pde m = set_de_inode d 0
     (case pde of None \<Rightarrow> m | Some p \<Rightarrow> set_de_rec_len p (d + de_rec_len m d - p) m)"

lemma page_delete:
  assumes c: "chain m 0 ds e" and d: "d \<in> set ds"
  shows "\<exists>pde ds' xs ys. find_prev m d (d div 1024 * 1024) None = Some pde
    \<and> chain (del_page d pde m) 0 ds' e \<and> live m ds = xs @ live1 m d @ ys
    \<and> live (del_page d pde m) ds' = xs @ ys"
proof -
  obtain ds1 ds2 where ds: "ds = ds1 @ d # ds2" using d by (auto dest: split_list)
  from c have c1: "chain m 0 ds1 d" unfolding ds by (auto simp: chain_append)
  obtain xs ys where x: "ds1 = xs @ ys" and cx: "chain m 0 xs (d div 1024 * 1024)"
    and cy: "chain m (d div 1024 * 1024) ys d"
    using chunk_start [OF c1, of "d div 1024 * 1024"] by auto
  note fp = find_prev_chain [OF cy, of None]
  show ?thesis
  proof (cases "ys = []")
    case True
    then have "find_prev m d (d div 1024 * 1024) None = Some None" using fp by simp
    moreover note chain_clear [OF c [unfolded ds]]
    ultimately show ?thesis
      by - (rule exI [of _ None], rule exI [of _ ds], rule exI [of _ "live m ds1"], rule exI [of _ "live m ds2"], simp add: del_page_def ds)
  next
    case False
    then obtain zs p where z: "ys = zs @ [p]" by (metis rev_exhaust)
    have p: "d div 1024 * 1024 \<le> p" "p < d"
      using chain_bounds(2) [OF cy, of p] rec_okD(2) [of m p] by (auto simp: z)
    have same: "p div 1024 = d div 1024"
      using p div_le_mono [of p d 1024] by (simp add: le_antisym less_eq_div_iff_mult_less_eq)
    have c': "chain m 0 ((xs @ zs) @ p # d # ds2) e" using c unfolding ds x z by simp
    note M = chain_merge [OF c' same]
    from False z fp have "find_prev m d (d div 1024 * 1024) None = Some (Some p)" by simp
    with M show ?thesis
      by - (rule exI [of _ "Some p"], rule exI [of _ "(xs @ zs) @ p # ds2"], rule exI [of _ "live m (xs @ zs @ [p])"], rule exI [of _ "live m ds2"], simp add: del_page_def ds x z)
  qed
qed


section \<open>Directories\<close>

text \<open>The record offsets of a page, and the entries of a directory, page after page.\<close>

function offs :: "mem \<Rightarrow> nat \<Rightarrow> nat \<Rightarrow> nat list" where
  "offs m a e = (if a < e \<and> de_rec_len m a \<noteq> 0 then a # offs m (a + de_rec_len m a) e else [])"
  by pat_completeness auto
termination by (relation "measure (\<lambda>(m, a, e). e - a)") auto

declare offs.simps [simp del]

lemma offs_chain: "chain m a ds e \<Longrightarrow> offs m a e = ds"
proof (induction ds arbitrary: a)
  case Nil
  then show ?case by (subst offs.simps) simp
next
  case (Cons d ds)
  then have d: "d = a" "rec_ok m a" and c: "chain m (a + de_rec_len m a) ds e" by auto
  have "a < e" using chain_bounds(1) [OF c] rec_okD(2) [OF d(2)] by simp
  with d Cons.IH [OF c] rec_okD(2) [OF d(2)] show ?case by (subst offs.simps) simp
qed

definition page_list :: "mem \<Rightarrow> nat \<Rightarrow> entry list" where
  "page_list m e = live m (offs m 0 e)"

definition dir_list :: "inode \<Rightarrow> pages \<Rightarrow> entry list" where
  "dir_list dir pg = concat (map (\<lambda>n. page_list (pg n) (lkfs_last_byte dir n)) [0..<dir_pages dir])"

definition page_ok :: "mem \<Rightarrow> nat \<Rightarrow> bool" where
  "page_ok m e \<longleftrightarrow> chain m 0 (offs m 0 e) e"

text \<open>
  A well-formed directory: a whole number of 1024-byte chunks, within the 32 bits of the
  on-disk size, every page a chain of records. \<open>in_reach\<close> is the test \<open>lkfs_find_entry\<close> makes
  before it looks at a further page.
\<close>

definition dir_wf :: "inode \<Rightarrow> pages \<Rightarrow> bool" where
  "dir_wf dir pg \<longleftrightarrow> i_size dir mod 1024 = 0 \<and> i_size dir + 8192 < 2 ^ 32
     \<and> (\<forall>n < dir_pages dir. page_ok (pg n) (lkfs_last_byte dir n))"

definition in_reach :: "inode \<Rightarrow> bool" where
  "in_reach dir \<longleftrightarrow> dir_pages dir \<le> i_blocks dir div 8 + 1"

lemma page_okI: "chain m 0 ds e \<Longrightarrow> page_ok m e \<and> page_list m e = live m ds"
  by (simp add: page_ok_def page_list_def offs_chain)

lemma last_byte_eq:
  assumes "i_size dir + 8192 < 2 ^ 32" "n * 4096 \<le> i_size dir"
  shows "lkfs_last_byte dir n = min 4096 (i_size dir - n * 4096)"
proof -
  have "(of_nat (i_size dir) :: u32) - of_nat (n * 4096) = of_nat (i_size dir - n * 4096)"
    using assms(2) by (simp only: of_nat_diff)
  then have "unat ((of_nat (i_size dir) :: u32) - of_nat (n * 4096)) = i_size dir - n * 4096"
    using assms(1) by (simp only: unat_of_nat take_bit_nat_eq_self_iff) simp
  then show ?thesis by (simp only: lkfs_last_byte_def Let_def PAGE_CACHE_SIZE_def min_def) simp
qed

lemma page_in_size: "n < dir_pages dir \<Longrightarrow> n * 4096 < i_size dir"
proof -
  assume "n < dir_pages dir"
  then have "Suc n \<le> (i_size dir + 4095) div 4096" by (simp add: dir_pages_def PAGE_CACHE_SIZE_def)
  then have "Suc n * 4096 \<le> i_size dir + 4095" by (simp add: less_eq_div_iff_mult_less_eq)
  then show "n * 4096 < i_size dir" by simp
qed

lemma dir_pages_bounds:
  "i_size dir \<le> dir_pages dir * 4096" "0 < i_size dir \<Longrightarrow> (dir_pages dir - 1) * 4096 < i_size dir"
proof -
  show "i_size dir \<le> dir_pages dir * 4096"
    unfolding dir_pages_def PAGE_CACHE_SIZE_def
    using div_mult_mod_eq [of "i_size dir + 4095" 4096] mod_less_divisor [of 4096 "i_size dir + 4095"]
    by simp
  show "(dir_pages dir - 1) * 4096 < i_size dir" if "0 < i_size dir"
  proof (cases "dir_pages dir = 0")
    case False
    then show ?thesis by (intro page_in_size) simp
  qed (use that in simp)
qed

lemma last_byte_facts:
  assumes "dir_wf dir pg" "n < dir_pages dir"
  shows "lkfs_last_byte dir n \<le> 4096" "lkfs_last_byte dir n mod 1024 = 0"
    "n * 4096 + lkfs_last_byte dir n \<le> i_size dir"
    "lkfs_last_byte dir n < 4096 \<Longrightarrow> n * 4096 + lkfs_last_byte dir n = i_size dir"
    "chain (pg n) 0 (offs (pg n) 0 (lkfs_last_byte dir n)) (lkfs_last_byte dir n)"
proof -
  have s: "i_size dir + 8192 < 2 ^ 32" "i_size dir mod 1024 = 0" using assms(1) by (simp_all add: dir_wf_def)
  have le: "n * 4096 \<le> i_size dir" using page_in_size [OF assms(2)] by simp
  note L = last_byte_eq [OF s(1) le]
  show "lkfs_last_byte dir n \<le> 4096" "n * 4096 + lkfs_last_byte dir n \<le> i_size dir"
    "lkfs_last_byte dir n < 4096 \<Longrightarrow> n * 4096 + lkfs_last_byte dir n = i_size dir"
    using le by (auto simp: L)
  obtain k where k: "i_size dir = 1024 * k" using s(2) by auto
  have "i_size dir - n * 4096 = 1024 * (k - 4 * n)" using k by simp
  then show "lkfs_last_byte dir n mod 1024 = 0" by (simp add: L min_def)
  show "chain (pg n) 0 (offs (pg n) 0 (lkfs_last_byte dir n)) (lkfs_last_byte dir n)"
    using assms by (simp add: dir_wf_def page_ok_def)
qed

text \<open>A directory as the entries before, in and after one page.\<close>

definition dir_seg :: "(nat \<Rightarrow> nat) \<Rightarrow> pages \<Rightarrow> nat list \<Rightarrow> entry list" where
  "dir_seg lb pg ns = concat (map (\<lambda>n. page_list (pg n) (lb n)) ns)"

lemma dir_seg_cong:
  "(\<And>n. n \<in> set ns \<Longrightarrow> pg' n = pg n \<and> lb' n = lb n) \<Longrightarrow> dir_seg lb' pg' ns = dir_seg lb pg ns"
  unfolding dir_seg_def by (rule arg_cong [where f = concat], rule map_cong) auto

lemma dir_list_split:
  assumes "n < dir_pages dir"
  shows "dir_list dir pg = dir_seg (lkfs_last_byte dir) pg [0..<n]
    @ page_list (pg n) (lkfs_last_byte dir n)
    @ dir_seg (lkfs_last_byte dir) pg [Suc n..<dir_pages dir]"
proof -
  have "[0..<dir_pages dir] = [0..<n] @ n # [Suc n..<dir_pages dir]"
    using assms upt_add_eq_append [of 0 n "dir_pages dir - n"] by (simp add: upt_conv_Cons)
  then show ?thesis by (simp add: dir_list_def dir_seg_def)
qed

lemma dir_list_update:
  assumes "n < dir_pages dir"
  shows "dir_list dir (pg(n := m)) = dir_seg (lkfs_last_byte dir) pg [0..<n]
    @ page_list m (lkfs_last_byte dir n)
    @ dir_seg (lkfs_last_byte dir) pg [Suc n..<dir_pages dir]"
proof -
  have "dir_seg (lkfs_last_byte dir) (pg(n := m)) ns = dir_seg (lkfs_last_byte dir) pg ns"
    if "n \<notin> set ns" for ns
    by (rule dir_seg_cong) (use that in auto)
  then show ?thesis using dir_list_split [OF assms, of "pg(n := m)"] by simp
qed

section \<open>Finding\<close>

lemma find_from_list:
  assumes wf: "dir_wf dir pg" and io: "\<forall>n. k_get_page_error K (i_ino dir) n = 0" and r: "in_reach dir"
    and n: "n < dir_pages dir"
  shows "map_of (dir_seg (lkfs_last_byte dir) pg [n..<dir_pages dir]) name
      = map_option (\<lambda>(k, d). de_inode (pg k) d) (find_from K name dir pg n)
    \<and> (find_from K name dir pg n = Some (k, d) \<longrightarrow> k < dir_pages dir
       \<and> d \<in> set (offs (pg k) 0 (lkfs_last_byte dir k)) \<and> lkfs_match name (pg k) d)"
  using n
proof (induction "dir_pages dir - n" arbitrary: n)
  case 0
  then show ?case by simp
next
  case (Suc x)
  let ?lb = "lkfs_last_byte dir" and ?m = "pg n"
  note n = Suc.prems
  note c = last_byte_facts(5) [OF wf n]
  have dec: "dir_seg ?lb pg [n..<dir_pages dir]
      = page_list ?m (?lb n) @ dir_seg ?lb pg [Suc n..<dir_pages dir]"
    using n by (simp add: dir_seg_def upt_conv_Cons)
  show ?case
  proof (cases "find (lkfs_match name ?m) (offs ?m 0 (?lb n))")
    case (Some y)
    then have "find_from K name dir pg n = Some (n, y)"
      using find_in_page_chain [OF c, of name] io by (subst find_from.simps) simp
    moreover have "y \<in> set (offs ?m 0 (?lb n))" "lkfs_match name ?m y"
      using Some by (auto simp: find_Some_iff)
    moreover have "map_of (page_list ?m (?lb n)) name = Some (de_inode ?m y)"
      by (simp add: page_list_def find_live Some)
    ultimately show ?thesis unfolding dec using n by (auto simp: map_add_def)
  next
    case None
    have pl: "map_of (page_list ?m (?lb n)) name = None" by (simp add: page_list_def find_live None)
    have ff: "find_from K name dir pg n =
        (if Suc n \<ge> dir_pages dir then None else find_from K name dir pg (Suc n))"
      using find_in_page_chain [OF c, of name] io None r
      by (subst find_from.simps) (simp add: in_reach_def)
    show ?thesis
    proof (cases "Suc n < dir_pages dir")
      case True
      have x: "x = dir_pages dir - Suc n" using Suc.hyps(2) by simp
      from Suc.hyps(1) [OF x True] True show ?thesis
        unfolding dec ff using pl by (auto simp: map_add_def split: option.splits)
    next
      case False
      then show ?thesis unfolding dec ff using pl n by (simp add: dir_seg_def map_add_def)
    qed
  qed
qed

lemma find_entry_list:
  assumes "dir_wf dir pg" "\<forall>n. k_get_page_error K (i_ino dir) n = 0" "in_reach dir"
  shows "map_of (dir_list dir pg) name
      = map_option (\<lambda>(k, d). de_inode (pg k) d) (lkfs_find_entry K dir name pg)"
    "lkfs_find_entry K dir name pg = Some (k, d) \<Longrightarrow> k < dir_pages dir
       \<and> d \<in> set (offs (pg k) 0 (lkfs_last_byte dir k)) \<and> lkfs_match name (pg k) d"
proof -
  have e: "dir_list dir pg = dir_seg (lkfs_last_byte dir) pg [0..<dir_pages dir]"
    by (simp add: dir_list_def dir_seg_def)
  show "map_of (dir_list dir pg) name
      = map_option (\<lambda>(k, d). de_inode (pg k) d) (lkfs_find_entry K dir name pg)"
    using find_from_list [OF assms, of 0] by (auto simp: lkfs_find_entry_def e dir_seg_def)
  show "lkfs_find_entry K dir name pg = Some (k, d) \<Longrightarrow> k < dir_pages dir
       \<and> d \<in> set (offs (pg k) 0 (lkfs_last_byte dir k)) \<and> lkfs_match name (pg k) d"
    using find_from_list [OF assms, of 0 name k d] by (simp add: lkfs_find_entry_def split: if_splits)
qed


section \<open>The inode of the directory\<close>

lemma sync_sel [simp]:
  "fst (lkfs_sync_inode K d) = k_sync_error K (i_ino d)"
  "i_size (snd (lkfs_sync_inode K d)) = i_size d" "i_ino (snd (lkfs_sync_inode K d)) = i_ino d"
  "i_nlink (snd (lkfs_sync_inode K d)) = i_nlink d" "i_mode (snd (lkfs_sync_inode K d)) = i_mode d"
  by (simp_all add: lkfs_sync_inode_def)

lemma commit_sel [simp]:
  "fst (lkfs_commit_chunk K n pos len d) = (if k_write_one_page_error K (i_ino d) n = 0
     then k_sync_error K (i_ino d) else k_write_one_page_error K (i_ino d) n)"
  "i_size (snd (lkfs_commit_chunk K n pos len d)) = max (i_size d) (pos + len)"
  "i_ino (snd (lkfs_commit_chunk K n pos len d)) = i_ino d"
  "i_nlink (snd (lkfs_commit_chunk K n pos len d)) = i_nlink d"
  "i_mode (snd (lkfs_commit_chunk K n pos len d)) = i_mode d"
  by (simp_all add: lkfs_commit_chunk_def Let_def max_def)

text \<open>A block count computed by a write-back reaches every page.\<close>

lemma in_reach_written:
  assumes "i_size d + 8192 < 2 ^ 32"
  shows "in_reach (written_back d)"
proof -
  have "(of_nat (i_size d) + 511 :: u32) = of_nat (i_size d + 511)" by simp
  then have "unat (of_nat (i_size d) + 511 :: u32) = i_size d + 511"
    using assms by (simp only: unat_of_nat take_bit_nat_eq_self_iff) simp
  then have "unat (raw_blocks (i_size d)) = (i_size d + 511) div 512"
    by (simp add: raw_blocks_def drop_bit_eq_div unat_div_distrib)
  moreover have "(i_size d + 511) div 512 div 8 = (i_size d + 511) div 4096"
    by (simp add: div_mult2_eq [symmetric])
  moreover have "(i_size d + 4095) div 4096 \<le> ((i_size d + 511) + 1 * 4096) div 4096"
    by (rule div_le_mono) simp
  ultimately show ?thesis by (simp add: in_reach_def dir_pages_def PAGE_CACHE_SIZE_def)
qed

lemma in_reach_cong: "i_size d' = i_size d \<Longrightarrow> i_blocks d' = i_blocks d \<Longrightarrow> in_reach d' = in_reach d"
  by (simp add: in_reach_def dir_pages_def)

lemma in_reach_sync:
  assumes "i_size d + 8192 < 2 ^ 32" "in_reach d \<or> k_sync_writes K (i_ino d)"
  shows "in_reach (snd (lkfs_sync_inode K d))"
  using assms in_reach_written by (auto simp: lkfs_sync_inode_def)

lemma in_reach_commit:
  assumes "max (i_size d) (pos + len) + 8192 < 2 ^ 32" "k_write_one_page_error K (i_ino d) n = 0"
    "k_sync_writes K (i_ino d)"
  shows "in_reach (snd (lkfs_commit_chunk K n pos len d))"
  using assms by (simp add: lkfs_commit_chunk_def Let_def) (auto intro!: in_reach_sync simp: max_def)

lemma in_reach_commit_same:
  assumes "i_size d + 8192 < 2 ^ 32" "pos + len \<le> i_size d" "in_reach d"
  shows "in_reach (snd (lkfs_commit_chunk K n pos len d))"
proof -
  let ?d = "d\<lparr>i_version := i_version d + 1\<rparr>"
  have "in_reach ?d" using assms(3) in_reach_cong [of ?d d] by simp
  then show ?thesis using assms(1,2) in_reach_sync [of ?d K] by (simp add: lkfs_commit_chunk_def Let_def)
qed

section \<open>Deleting and adding\<close>

lemma dir_list_names:
  assumes "n < dir_pages dir" "d \<in> set (offs (pg n) 0 (lkfs_last_byte dir n))" "lkfs_match name (pg n) d"
  shows "(name, de_inode (pg n) d) \<in> set (dir_list dir pg)"
proof -
  have "(name, de_inode (pg n) d) \<in> set (live (pg n) (offs (pg n) 0 (lkfs_last_byte dir n)))"
    using assms(2,3) by (force simp: live_def match_live)
  then show ?thesis using assms(1) by (auto simp: dir_list_split page_list_def)
qed

text \<open>Replacing the contents of one page, the size unchanged.\<close>

lemma dir_wf_update:
  assumes "dir_wf dir pg" "n < dir_pages dir" "page_ok m (lkfs_last_byte dir n)"
    "i_size dir' = i_size dir"
  shows "dir_wf dir' (pg(n := m))" "dir_list dir' (pg(n := m)) = dir_list dir (pg(n := m))"
proof -
  have e: "dir_pages dir' = dir_pages dir" "lkfs_last_byte dir' = lkfs_last_byte dir"
    using assms(4) by (auto simp: dir_pages_def lkfs_last_byte_def fun_eq_iff)
  show "dir_wf dir' (pg(n := m))" using assms by (simp add: dir_wf_def e)
  show "dir_list dir' (pg(n := m)) = dir_list dir (pg(n := m))" by (simp add: dir_list_def e)
qed

lemma delete_entry_list:
  assumes wf: "dir_wf dir pg" and n: "n < dir_pages dir"
    and d: "d \<in> set (offs (pg n) 0 (lkfs_last_byte dir n))" and mt: "lkfs_match name (pg n) d"
    and io: "\<forall>p l. k_write_begin_error K (i_ino dir) p l = 0"
  shows "\<exists>err dir' pg' xs ys. lkfs_delete_entry K n d dir pg = Inr (err, dir', pg')
    \<and> err = (if k_write_one_page_error K (i_ino dir) n = 0 then k_sync_error K (i_ino dir)
             else k_write_one_page_error K (i_ino dir) n)
    \<and> dir_wf dir' pg' \<and> i_size dir' = i_size dir \<and> i_ino dir' = i_ino dir \<and> (in_reach dir \<longrightarrow> in_reach dir')
    \<and> dir_list dir pg = xs @ (name, de_inode (pg n) d) # ys \<and> dir_list dir' pg' = xs @ ys"
proof -
  let ?e = "lkfs_last_byte dir n" and ?m = "pg n"
  note L = last_byte_facts [OF wf n]
  obtain pde ds' xs ys where pd: "find_prev ?m d (d div 1024 * 1024) None = Some pde"
    and c': "chain (del_page d pde ?m) 0 ds' ?e" and l: "live ?m (offs ?m 0 ?e) = xs @ live1 ?m d @ ys"
    and l': "live (del_page d pde ?m) ds' = xs @ ys"
    using page_delete [OF L(5) d] by blast
  define st where "st = (case pde of None \<Rightarrow> d div 1024 * 1024 | Some p \<Rightarrow> p)"
  have le: "d + de_rec_len ?m d \<le> ?e" using chain_bounds(2) [OF L(5) d] by simp
  have "n * 4096 + st + (d + de_rec_len ?m d - st) \<le> i_size dir"
    if "st \<le> d" using le L(3) that by linarith
  moreover have fd: "st \<le> d"
  proof (cases pde)
    case None
    then show ?thesis by (simp add: st_def)
  next
    case (Some p)
    obtain ds1 ds2 where ds: "offs ?m 0 ?e = ds1 @ d # ds2" using d by (auto dest: split_list)
    have c1: "chain ?m 0 ds1 d" using L(5) unfolding ds by (auto simp: chain_append)
    obtain us vs where "ds1 = us @ vs" and cv: "chain ?m (d div 1024 * 1024) vs d"
      using chunk_start [OF c1, of "d div 1024 * 1024"] by auto
    have "vs \<noteq> []" "p = last vs" using find_prev_chain [OF cv, of None] pd Some by (auto split: if_splits)
    then show ?thesis using chain_bounds(2) [OF cv, of p] Some by (simp add: st_def)
  qed
  ultimately have sz: "\<not> n * 4096 + st + (d + de_rec_len ?m d - st) > i_size dir" by simp
  let ?len = "d + de_rec_len ?m d - st"
  let ?c = "lkfs_commit_chunk K n (n * 4096 + st) ?len dir"
  let ?d = "(snd ?c)\<lparr>i_ctime := k_now K, i_mtime := k_now K\<rparr>"
  let ?dir = "snd (lkfs_sync_inode K ?d)"
  have size: "i_size ?dir = i_size dir" using sz by simp
  have b: "i_size dir + 8192 < 2 ^ 32" using wf by (simp add: dir_wf_def)
  have reach: "in_reach ?dir" if "in_reach dir"
  proof (rule in_reach_sync)
    have "in_reach (snd ?c)" by (rule in_reach_commit_same [OF b _ that]) (use sz in linarith)
    then show "in_reach ?d \<or> k_sync_writes K (i_ino ?d)" using in_reach_cong [of ?d "snd ?c"] by simp
  qed (use b sz in simp)
  have run: "lkfs_delete_entry K n d dir pg = Inr (fst ?c, ?dir, pg(n := del_page d pde ?m))"
    using pd io unfolding lkfs_delete_entry_def Let_def st_def
    by (cases pde) (simp_all add: del_page_def split_beta)
  note U = dir_wf_update [OF wf n conjunct1 [OF page_okI [OF c']] size]
  have "live1 ?m d = [(name, de_inode ?m d)]" using mt by (simp add: match_live)
  then have "dir_list dir pg = (dir_seg (lkfs_last_byte dir) pg [0..<n] @ xs) @ (name, de_inode ?m d)
      # (ys @ dir_seg (lkfs_last_byte dir) pg [Suc n..<dir_pages dir])"
    using l by (simp add: dir_list_split [OF n] page_list_def)
  moreover have "dir_list ?dir (pg(n := del_page d pde ?m))
      = (dir_seg (lkfs_last_byte dir) pg [0..<n] @ xs)
        @ (ys @ dir_seg (lkfs_last_byte dir) pg [Suc n..<dir_pages dir])"
    using U(2) page_okI [OF c'] l' by (simp add: dir_list_update [OF n])
  ultimately show ?thesis
    using run U(1) size reach
    by (intro exI conjI) (assumption | rule refl | simp)+
qed


lemma dir_pages_of:
  assumes "i_size dir = n * 4096 + e" "0 < e" "e \<le> 4096"
  shows "dir_pages dir = Suc n"
proof -
  have "(n * 4096 + e + 4095) div 4096 = n + (e + 4095) div 4096" by simp
  moreover have "(e + 4095) div 4096 = 1" using assms(2,3) by (simp add: div_nat_eqI)
  ultimately show ?thesis using assms(1) by (simp add: dir_pages_def PAGE_CACHE_SIZE_def)
qed

text \<open>The directory grows by one chunk.\<close>

lemma dir_grow:
  assumes wf: "dir_wf dir pg" and big: "i_size dir + 9216 < 2 ^ 32"
    and n: "i_size dir = n * 4096 + e" "e < 4096" and sz: "i_size dir' = i_size dir + 1024"
    and c: "chain m 0 ds (e + 1024)"
  shows "dir_wf dir' (pg(n := m))"
    "dir_list dir' (pg(n := m)) = dir_seg (lkfs_last_byte dir) pg [0..<n] @ live m ds"
    "dir_list dir pg = dir_seg (lkfs_last_byte dir) pg [0..<n] @ page_list (pg n) e"
proof -
  have al: "i_size dir mod 1024 = 0" using wf by (simp add: dir_wf_def)
  have e: "e + 1024 \<le> 4096"
  proof -
    obtain k where "n * 4096 + e = 1024 * k" using al n(1) by auto
    then have "e = 1024 * (k - 4 * n)" by simp
    with n(2) have "k - 4 * n < 4" by simp
    with \<open>e = 1024 * (k - 4 * n)\<close> show ?thesis by simp
  qed
  have dp': "dir_pages dir' = Suc n" by (rule dir_pages_of [of _ _ "e + 1024"]) (use sz n e in simp_all)
  have b: "i_size dir + 8192 < 2 ^ 32" "i_size dir' + 8192 < 2 ^ 32" using big sz by simp_all
  have lb': "lkfs_last_byte dir' n = e + 1024"
    using last_byte_eq [OF b(2), of n] sz n e by (simp add: min_def)
  have full: "lkfs_last_byte dir' k = 4096" "lkfs_last_byte dir k = 4096" if "k < n" for k
  proof -
    have "Suc k * 4096 \<le> n * 4096" using that by (intro mult_le_mono1) simp
    then show "lkfs_last_byte dir' k = 4096" "lkfs_last_byte dir k = 4096"
      using last_byte_eq [OF b(2), of k] last_byte_eq [OF b(1), of k] sz n(1) by (simp_all add: min_def)
  qed
  have dp: "dir_pages dir = (if e = 0 then n else Suc n)"
  proof (cases "e = 0")
    case True
    then show ?thesis using n by (simp add: dir_pages_def PAGE_CACHE_SIZE_def)
  next
    case False
    then show ?thesis using dir_pages_of [OF n(1)] n(2) by simp
  qed
  have lb: "e \<noteq> 0 \<Longrightarrow> lkfs_last_byte dir n = e"
    using last_byte_eq [OF b(1), of n] n by (simp add: min_def)
  note P = page_okI [OF c]
  show "dir_wf dir' (pg(n := m))"
    unfolding dir_wf_def dp'
  proof (intro conjI allI impI)
    fix k assume "k < Suc n"
    then show "page_ok ((pg(n := m)) k) (lkfs_last_byte dir' k)"
      using P full wf dp by (cases "k = n") (auto simp: lb' dir_wf_def split: if_splits)
  qed (use al sz b in \<open>simp_all add: mod_add_eq [symmetric]\<close>)
  have s: "dir_seg (lkfs_last_byte dir') pg [0..<n] = dir_seg (lkfs_last_byte dir) pg [0..<n]"
    by (rule dir_seg_cong) (simp add: full)
  have n': "n < dir_pages dir'" by (simp add: dp')
  show "dir_list dir' (pg(n := m)) = dir_seg (lkfs_last_byte dir) pg [0..<n] @ live m ds"
    unfolding dir_list_update [OF n'] s dp' lb' using P by (simp add: dir_seg_def)
  show "dir_list dir pg = dir_seg (lkfs_last_byte dir) pg [0..<n] @ page_list (pg n) e"
  proof (cases "e = 0")
    case True
    then show ?thesis using dp by (simp add: dir_list_def dir_seg_def page_list_def) (subst offs.simps, simp)
  next
    case False
    then show ?thesis using dp lb by (simp add: dir_list_def dir_seg_def)
  qed
qed

section \<open>The blocks of a directory\<close>

text \<open>Every block below the size of the directory is mapped.\<close>

definition dir_mapped :: "lkfs \<Rightarrow> inode \<Rightarrow> bool" where
  "dir_mapped s dir \<longleftrightarrow> (\<forall>jb. jb * 1024 < i_size dir \<longrightarrow> bmap s dir jb \<noteq> 0)"

text \<open>
  What an operation on a directory does to the volume when it fills the places \<open>as\<close> of its block map
  and writes its record: each place gets a block of its own that was free, exactly these become used
  and are counted, and nothing of other files changes, neither records nor blocks.
\<close>

definition grows :: "lkfs \<Rightarrow> inode \<Rightarrow> slot list \<Rightarrow> lkfs \<Rightarrow> inode \<Rightarrow> bool" where
  "grows s dir as s' dir' \<longleftrightarrow> fs_wf s' \<and> imap_wf s' dir' \<and> same_geometry s s' \<and> used_ino s' = used_ino s \<and> distinct as
     \<and> es s' = (es s)\<lparr>s_free_blocks_count := s_free_blocks_count (es s) - of_nat (length as)\<rparr>
     \<and> free_blocks s = free_blocks s' + length as
     \<and> (\<forall>x. used_block s' x \<longleftrightarrow> used_block s x \<or> x \<in> (\<lambda>a. unat (ptr_of s' dir' a)) ` set as)
     \<and> (\<forall>a \<in> set as. valid_slot a \<and> ptr_of s dir a = 0 \<and> ptr_of s' dir' a \<noteq> 0
          \<and> \<not> used_block s (unat (ptr_of s' dir' a)))
     \<and> (\<forall>a. valid_slot a \<longrightarrow> a \<notin> set as \<longrightarrow> ptr_of s' dir' a = ptr_of s dir a)
     \<and> (\<forall>x \<ge> data_start s. used_block s x \<longrightarrow> x \<notin> metas s dir \<longrightarrow> bufs s' x = bufs s x)
     \<and> (\<forall>b. in_table s b \<longrightarrow> b \<noteq> i_ino dir \<longrightarrow>
          load_inode (bufs s' (ino_block s b)) (ino_off b) = load_inode (bufs s (ino_block s b)) (ino_off b))"

lemma growsD:
  assumes "grows s dir as s' dir'"
  shows "fs_wf s'" "imap_wf s' dir'" "same_geometry s s'" "used_ino s' = used_ino s" "distinct as"
    "es s' = (es s)\<lparr>s_free_blocks_count := s_free_blocks_count (es s) - of_nat (length as)\<rparr>"
    "free_blocks s = free_blocks s' + length as"
    "used_block s' x \<longleftrightarrow> used_block s x \<or> x \<in> (\<lambda>a. unat (ptr_of s' dir' a)) ` set as"
    "a \<in> set as \<Longrightarrow> valid_slot a \<and> ptr_of s dir a = 0 \<and> ptr_of s' dir' a \<noteq> 0 \<and> \<not> used_block s (unat (ptr_of s' dir' a))"
    "valid_slot a \<Longrightarrow> a \<notin> set as \<Longrightarrow> ptr_of s' dir' a = ptr_of s dir a"
    "data_start s \<le> x \<Longrightarrow> used_block s x \<Longrightarrow> x \<notin> metas s dir \<Longrightarrow> bufs s' x = bufs s x"
    "in_table s b \<Longrightarrow> b \<noteq> i_ino dir \<Longrightarrow>
       load_inode (bufs s' (ino_block s b)) (ino_off b) = load_inode (bufs s (ino_block s b)) (ino_off b)"
  using assms unfolding grows_def by blast+

lemma metas_data: "fs_wf s \<Longrightarrow> imap_wf s nd \<Longrightarrow> x \<in> metas s nd \<Longrightarrow> data_start s \<le> x"
  using imap_wfD(1) by (fastforce simp: metas_def block_ok_def)

lemma chain_grows:
  assumes "fs_wf s" "imap_wf s dir" "chain_kept s dir as s' dir'"
  shows "grows s dir as s' dir'"
proof -
  note k = chain_keptD [OF assms(3)]
  have r: "bufs s' (ino_block s b) = bufs s (ino_block s b)" if b: "in_table s b" for b
  proof (rule k(9))
    note B = in_table_block [OF b]
    show "inode_table_offset s \<le> ino_block s b" by (fact B(1))
    show "used_block s (ino_block s b)" by (rule fs_wfD(11) [OF assms(1) B(2)])
    show "ino_block s b \<notin> metas s dir" using metas_data [OF assms(1,2)] B(2) by fastforce
  qed
  show ?thesis
    unfolding grows_def using k(1-3,5,7,8,10-12) k(6) k(9) table_data_trans
    by (intro conjI allI ballI impI) (auto simp: r)
qed

text \<open>Writing the record of the directory afterwards.\<close>

lemma grows_write:
  assumes g: "grows s dir as s1 dir1" and t: "in_table s (i_ino dir)" and rd: "readable K s"
    and nd: "i_ino nd = i_ino dir" "i_data nd = i_data dir1" and d: "i_data dir' = i_data dir1"
  shows "grows s dir as (snd (sync_to_disk K nd s1)) dir'"
proof (cases "k_sync_writes K (i_ino nd)")
  case False
  have "ptr_of s1 dir' = ptr_of s1 dir1"
  proof
    fix a show "ptr_of s1 dir' a = ptr_of s1 dir1 a" using d by (cases a) simp_all
  qed
  with False g show ?thesis by (simp add: sync_to_disk_def grows_def imap_wf_def)
next
  case True
  note G = growsD [OF g] and S = same_geometry_sizes [OF growsD(3) [OF g]]
  have t1: "in_table s1 (i_ino nd)" using t nd(1) S by (simp add: in_table_def)
  have ib: "ino_block s1 b = ino_block s b" for b using S by (simp add: ino_block_def)
  have br: "k_bread_ok K (ino_block s1 (i_ino nd))"
    using rd in_table_block(2) [OF t1] fs_wfD(10) [OF G(1)] S by (simp add: readable_def)
  obtain err nd' s2 where w: "lkfs_write_inode K nd s1 = (err, nd', s2)" by (metis surj_pair)
  note W = write_inode_effect [OF G(1) t1 br w]
  have s2: "snd (sync_to_disk K nd s1) = s2" using True w by (simp add: sync_to_disk_def)
  have P: "ptr_of s2 dir' a = ptr_of s1 dir1 a" if "valid_slot a" for a
    by (rule ptr_of_write [OF G(1,2) W(7) d that])
  have ok: "block_ok s2 = block_ok s1"
    by (simp add: fun_eq_iff block_ok_def W(4) same_geometry_sizes [OF W(6)])
  have im: "imap_wf s2 dir'" using G(2) by (simp add: imap_wf_def P ok)
  have fb: "free_blocks s2 = free_blocks s1" by (simp add: free_blocks_def W(4) same_geometry_sizes [OF W(6)])
  have im: "(\<lambda>a. unat (ptr_of s2 dir' a)) ` set as = (\<lambda>a. unat (ptr_of s1 dir1 a)) ` set as"
    using P G(9) by (intro image_cong) auto
  show ?thesis
    unfolding s2 grows_def
  proof (intro conjI allI ballI impI)
    show "same_geometry s s2" by (rule same_geometry_trans [OF G(3) W(6)])
    show "load_inode (bufs s2 (ino_block s b)) (ino_off b) = load_inode (bufs s (ino_block s b)) (ino_off b)"
      if b: "in_table s b" "b \<noteq> i_ino dir" for b
      using W(9) [of b] b nd(1) G(12) [OF b] by (simp add: ib in_table_def)
    show "bufs s2 x = bufs s x" if "data_start s \<le> x" "used_block s x" "x \<notin> metas s dir" for x
      using W(7) [of x] that S G(11) [OF that] by simp
  qed (use G(4-10) W(2-5) P \<open>imap_wf s2 dir'\<close> fb in \<open>auto simp: im\<close>)
qed

lemma get_block_run:
  assumes "ready K s nd" "ib < max_blocks" "length (holes s nd (path ib)) \<le> free_blocks s"
  shows "\<exists>s' nd'. lkfs_get_block K nd ib z s = Inr (0, 1024, Some (bmap s' nd' ib), nd', s')
    \<and> ready K s' nd' \<and> bmap s' nd' ib \<noteq> 0 \<and> (bmap s nd ib \<noteq> 0 \<longrightarrow> s' = s \<and> nd' = nd)
    \<and> chain_kept s nd (holes s nd (path ib)) s' nd'
    \<and> (\<forall>jb < max_blocks. jb \<noteq> ib \<longrightarrow> bmap s' nd' jb = bmap s nd jb)"
  using get_blocks_effect [OF assms] by (force simp: lkfs_get_block_def)

text \<open>Preparing a write within one block.\<close>

lemma write_begin_run:
  assumes r: "ready K s dir" "ib < max_blocks" "length (holes s dir (path ib)) \<le> free_blocks s"
    and pos: "pos div 1024 = ib" "pos mod 1024 + len \<le> 1024" "0 < len"
    and io: "k_write_begin_error K (i_ino dir) pos len = 0" "k_write_begin_read_error K (i_ino dir) pos len = 0"
  shows "\<exists>s' dir'. lkfs_write_begin K dir pos len s = Inr (0, dir', s')
    \<and> ready K s' dir' \<and> bmap s' dir' ib \<noteq> 0 \<and> (bmap s dir ib \<noteq> 0 \<longrightarrow> s' = s \<and> dir' = dir)
    \<and> chain_kept s dir (holes s dir (path ib)) s' dir'
    \<and> (\<forall>jb < max_blocks. jb \<noteq> ib \<longrightarrow> bmap s' dir' jb = bmap s dir jb)"
proof -
  have "(pos + len + 1023) div 1024 = Suc ib"
  proof -
    have "pos + len + 1023 = (pos mod 1024 + len + 1023) + 1024 * ib"
      using pos(1) div_mult_mod_eq [of pos 1024] by simp
    moreover have "(pos mod 1024 + len + 1023) div 1024 = 1" using pos(2,3) by (simp add: div_nat_eqI)
    ultimately show ?thesis by simp
  qed
  then have c: "(pos + len + 1023) div 1024 - pos div 1024 = Suc 0" using pos(1) by simp
  from get_block_run [OF r, of 1024] obtain s' dir' where
    g: "lkfs_get_block K dir ib 1024 s = Inr (0, 1024, Some (bmap s' dir' ib), dir', s')"
    and h: "ready K s' dir'" "bmap s' dir' ib \<noteq> 0" "bmap s dir ib \<noteq> 0 \<longrightarrow> s' = s \<and> dir' = dir"
      "chain_kept s dir (holes s dir (path ib)) s' dir'"
      "\<forall>jb < max_blocks. jb \<noteq> ib \<longrightarrow> bmap s' dir' jb = bmap s dir jb" by blast
  have ino: "i_ino dir' = i_ino dir" by (subst chain_keptD(4) [OF h(4)]) simp
  have "lkfs_write_begin K dir pos len s = Inr (0, dir', s')"
    unfolding lkfs_write_begin_def c using g io pos(1) ino by simp
  with h show ?thesis by blast
qed

lemma commit_grows:
  assumes "grows s dir as s1 dir1" "in_table s (i_ino dir)" "readable K s" "i_ino dir1 = i_ino dir" "i_data dir' = i_data dir1"
  shows "grows s dir as (commit_to_disk K n pos len dir1 s1) dir'"
proof (cases "k_write_one_page_error K (i_ino dir1) n = 0")
  case True
  then show ?thesis
    using grows_write [OF assms(1-3) _ _ assms(5)] assms(4) by (simp add: commit_to_disk_def Let_def)
next
  case False
  have "ptr_of s1 dir' = ptr_of s1 dir1"
  proof
    fix a show "ptr_of s1 dir' a = ptr_of s1 dir1 a" using assms(5) by (cases a) simp_all
  qed
  with False assms(1) show ?thesis by (simp add: commit_to_disk_def Let_def grows_def imap_wf_def)
qed

text \<open>The block map of a directory that grew at block \<open>ib\<close>.\<close>

lemma grows_bmap:
  assumes "grows s dir (holes s dir (path ib)) s' dir'"
  shows "bmap s' dir' ib \<noteq> 0 \<or> max_blocks \<le> ib" "jb < max_blocks \<Longrightarrow> jb \<noteq> ib \<Longrightarrow> bmap s' dir' jb = bmap s dir jb"
proof -
  note G = growsD [OF assms]
  show "bmap s' dir' ib \<noteq> 0 \<or> max_blocks \<le> ib"
  proof (cases "slot_of ib \<in> set (holes s dir (path ib))")
    case True
    from G(9) [OF this] show ?thesis by (simp add: bmap_def)
  next
    case False
    then have "bmap s dir ib \<noteq> 0" using slot_of_in_path by (simp add: holes_def bmap_def)
    then show ?thesis using G(10) [OF valid_slot_of False] by (cases "ib < max_blocks") (simp_all add: bmap_def)
  qed
  show "bmap s' dir' jb = bmap s dir jb" if "jb < max_blocks" "jb \<noteq> ib"
  proof -
    have "slot_of jb \<notin> set (holes s dir (path ib))"
      using path_meta [of "slot_of jb" ib] meta_slot_of [of jb] slot_of_inj that(2) by (auto simp: holes_def)
    from G(10) [OF valid_slot_of [OF that(1)] this] show ?thesis by (simp add: bmap_def)
  qed
qed

text \<open>A volume on which the directory can grow by one chunk, and the places it fills then.\<close>

definition can_grow :: "'v vfs_scheme \<Rightarrow> lkfs \<Rightarrow> inode \<Rightarrow> bool" where
  "can_grow K s dir \<longleftrightarrow> ready K s dir \<and> dir_mapped s dir \<and> in_table s (i_ino dir)
     \<and> i_size dir + 1024 \<le> 1024 * max_blocks
     \<and> length (holes s dir (path (i_size dir div 1024))) \<le> free_blocks s"

definition new_places :: "lkfs \<Rightarrow> inode \<Rightarrow> inode \<Rightarrow> slot list" where
  "new_places s dir dir' = (if i_size dir' = i_size dir then [] else holes s dir (path (i_size dir div 1024)))"

definition write_begin_ok :: "'v vfs_scheme \<Rightarrow> nat \<Rightarrow> bool" where
  "write_begin_ok K i \<longleftrightarrow>
     (\<forall>p l. k_write_begin_error K i p l = 0) \<and> (\<forall>p l. k_write_begin_read_error K i p l = 0)"

lemma can_grow_block:
  assumes "can_grow K s dir" "ib * 1024 \<le> i_size dir"
  shows "ib < max_blocks" "length (holes s dir (path ib)) \<le> free_blocks s"
    "ib * 1024 < i_size dir \<Longrightarrow> holes s dir (path ib) = []"
proof -
  note c = assms(1) [unfolded can_grow_def]
  show "ib < max_blocks" using c assms(2) by linarith
  show h: "ib * 1024 < i_size dir \<Longrightarrow> holes s dir (path ib) = []"
    using c by (intro no_holes_when_mapped) (simp add: dir_mapped_def)
  show "length (holes s dir (path ib)) \<le> free_blocks s"
  proof (cases "ib * 1024 < i_size dir")
    case True
    with h show ?thesis by simp
  next
    case False
    then have "i_size dir = ib * 1024" using assms(2) by simp
    with c show ?thesis by simp
  qed
qed

text \<open>The blocks of the directory after a write at \<open>pos\<close> that \<open>lkfs_commit_chunk\<close> completes.\<close>

lemma write_commit_grows:
  assumes c: "can_grow K s dir" and io: "write_begin_ok K (i_ino dir)" and al: "i_size dir mod 1024 = 0"
    and pos: "pos mod 1024 + len \<le> 1024" "0 < len" "pos + len \<le> i_size dir \<or> pos = i_size dir \<and> len = 1024"
  shows "\<exists>s1 dir1. lkfs_write_begin K dir pos len s = Inr (0, dir1, s1) \<and> dir1 = dir\<lparr>i_data := i_data dir1\<rparr>
    \<and> (\<forall>dir'. i_data dir' = i_data dir1 \<longrightarrow> i_size dir' = max (i_size dir) (pos + len) \<longrightarrow>
         grows s dir (new_places s dir dir') (commit_to_disk K n pos len dir1 s1) dir'
         \<and> dir_mapped (commit_to_disk K n pos len dir1 s1) dir')"
proof -
  let ?ib = "pos div 1024"
  have le: "?ib * 1024 \<le> i_size dir" using pos(3) div_times_less_eq_dividend [of pos 1024] by linarith
  note B = can_grow_block [OF c le]
  have r: "ready K s dir" and wf: "fs_wf s" "imap_wf s dir" and t: "in_table s (i_ino dir)" and rd: "readable K s"
    and mp: "dir_mapped s dir"
    using c by (simp_all add: can_grow_def ready_def)
  obtain s1 dir1 where w: "lkfs_write_begin K dir pos len s = Inr (0, dir1, s1)"
    and k: "chain_kept s dir (holes s dir (path ?ib)) s1 dir1"
    using write_begin_run [OF r B(1,2) refl pos(1,2)] io by (auto simp: write_begin_ok_def)
  note kd = chain_keptD(4) [OF k]
  have i: "i_ino dir1 = i_ino dir" by (subst kd) simp
  have "grows s dir (new_places s dir dir') (commit_to_disk K n pos len dir1 s1) dir'
      \<and> dir_mapped (commit_to_disk K n pos len dir1 s1) dir'"
    if d: "i_data dir' = i_data dir1" "i_size dir' = max (i_size dir) (pos + len)" for dir'
  proof -
    let ?t = "commit_to_disk K n pos len dir1 s1"
    have g: "grows s dir (holes s dir (path ?ib)) ?t dir'"
      by (rule commit_grows [OF chain_grows [OF wf k] t rd i d(1)])
    have np: "new_places s dir dir' = holes s dir (path ?ib)"
      using pos(2,3) d(2) B(3) less_eq_div_iff_mult_less_eq [of 1024 "i_size dir" pos]
        div_times_less_eq_dividend [of pos 1024]
      by (auto simp: new_places_def max_def)
    have "bmap ?t dir' jb \<noteq> 0" if "jb * 1024 < i_size dir'" for jb
    proof -
      have j: "jb < max_blocks" using that d(2) pos(3) c by (auto simp: can_grow_def)
      show ?thesis
      proof (cases "jb = ?ib")
        case True
        then show ?thesis using grows_bmap(1) [OF g] B(1) by simp
      next
        case False
        have "jb * 1024 < i_size dir"
        proof (rule ccontr)
          assume n: "\<not> jb * 1024 < i_size dir"
          with that d(2) pos(3) have "pos = i_size dir" "jb * 1024 < i_size dir + 1024" by auto
          moreover obtain q where "i_size dir = 1024 * q" using al by auto
          ultimately show False using n False by simp
        qed
        with mp show ?thesis using grows_bmap(2) [OF g j False] by (simp add: dir_mapped_def)
      qed
    qed
    then show ?thesis using g by (simp add: np dir_mapped_def)
  qed
  with w kd show ?thesis by blast
qed

definition add_ok :: "'v vfs_scheme \<Rightarrow> entry \<Rightarrow> inode \<Rightarrow> pages \<Rightarrow> lkfs
    \<Rightarrow> (int \<times> inode \<times> pages \<times> lkfs) res \<Rightarrow> bool" where
  "add_ok K en dir pg s r \<longleftrightarrow> (\<exists>err dir' pg' s' xs ys. r = Inr (err, dir', pg', s')
     \<and> ((\<forall>n. k_write_one_page_error K (i_ino dir) n = 0) \<longrightarrow> err = k_sync_error K (i_ino dir))
     \<and> dir_wf dir' pg' \<and> i_size dir \<le> i_size dir' \<and> i_size dir' \<le> i_size dir + 1024
     \<and> i_ino dir' = i_ino dir \<and> i_nlink dir' = i_nlink dir
     \<and> ((\<forall>n. k_write_one_page_error K (i_ino dir) n = 0) \<and> k_sync_writes K (i_ino dir) \<longrightarrow> in_reach dir')
     \<and> grows s dir (new_places s dir dir') s' dir' \<and> dir_mapped s' dir'
     \<and> dir_list dir pg = xs @ ys \<and> dir_list dir' pg' = xs @ en # ys)"

lemma add_got:
  assumes wf: "dir_wf dir pg" and big: "i_size dir + 9216 < 2 ^ 32"
    and name: "length name < 256" "name \<noteq> []" and ino: "ino \<noteq> 0"
    and new: "map_of (dir_list dir pg) name = None"
    and n: "n < dir_pages dir \<or> i_size dir = n * 4096"
    and io: "\<forall>n. k_get_page_error K (i_ino dir) n = 0" "write_begin_ok K (i_ino dir)" and vol: "can_grow K s dir"
    and got: "add_scan name (lkfs_last_byte dir n) (pg n) 0 = Got d nl rl m1"
  shows "add_ok K (name, ino) dir pg s (add_link_from K name ino n (Suc c) dir pg s)"
proof -
  let ?e = "lkfs_last_byte dir n" and ?m' = "put_entry name ino d nl rl m1"
  have b: "i_size dir + 8192 < 2 ^ 32" using big by simp
  have c: "chain (pg n) 0 (offs (pg n) 0 ?e) ?e" and al: "?e mod 1024 = 0" "?e \<le> 4096"
    and nm: "\<forall>x \<in> set (offs (pg n) 0 ?e). \<not> lkfs_match name (pg n) x"
    and st: "?e < 4096 \<Longrightarrow> i_size dir = n * 4096 + ?e"
    and fits: "n * 4096 + ?e \<le> i_size dir"
  proof -
    consider "n < dir_pages dir" | "i_size dir = n * 4096" using n by blast
    then have "chain (pg n) 0 (offs (pg n) 0 ?e) ?e \<and> ?e mod 1024 = 0 \<and> ?e \<le> 4096
      \<and> (\<forall>x \<in> set (offs (pg n) 0 ?e). \<not> lkfs_match name (pg n) x)
      \<and> (?e < 4096 \<longrightarrow> i_size dir = n * 4096 + ?e) \<and> n * 4096 + ?e \<le> i_size dir"
    proof cases
      case 1
      have "\<not> lkfs_match name (pg n) x" if "x \<in> set (offs (pg n) 0 ?e)" for x
        using dir_list_names [where pg = pg, OF 1 that] new by (force simp: map_of_eq_None_iff)
      with last_byte_facts [OF wf 1] show ?thesis by auto
    next
      case 2
      have "?e = 0" using last_byte_eq [OF b, of n] 2 by simp
      moreover have "offs (pg n) 0 0 = []" by (subst offs.simps) simp
      ultimately show ?thesis using 2 by simp
    qed
    then show "chain (pg n) 0 (offs (pg n) 0 ?e) ?e" "?e mod 1024 = 0" "?e \<le> 4096"
      "\<forall>x \<in> set (offs (pg n) 0 ?e). \<not> lkfs_match name (pg n) x"
      "?e < 4096 \<Longrightarrow> i_size dir = n * 4096 + ?e" "n * 4096 + ?e \<le> i_size dir" by blast+
  qed
  obtain ds' e' xs ys where c': "chain ?m' 0 ds' e'"
    and e': "e' = ?e \<and> d + rl \<le> ?e \<and> 0 < rl \<or> d = ?e \<and> rl = 1024 \<and> e' = ?e + 1024 \<and> ?e < 4096"
    and l: "live (pg n) (offs (pg n) 0 ?e) = xs @ ys" and l': "live ?m' ds' = xs @ (name, ino) # ys"
    and one: "d mod 1024 + rl \<le> 1024"
    using page_add [OF c nm name(1) al ino name(2) got] by blast
  note P = page_okI [OF c']
  have sm: "i_size dir mod 1024 = 0" using wf by (simp add: dir_wf_def)
  have p1: "(n * 4096 + d) mod 1024 + rl \<le> 1024" using one by (simp add: mod_add_eq [symmetric])
  have p2: "0 < rl" "n * 4096 + d + rl \<le> i_size dir \<or> n * 4096 + d = i_size dir \<and> rl = 1024"
    using e' st fits by (elim disjE conjE; simp)+
  obtain s1 dir1 where w: "lkfs_write_begin K dir (n * 4096 + d) rl s = Inr (0, dir1, s1)"
    and d1: "dir1 = dir\<lparr>i_data := i_data dir1\<rparr>"
    and G: "\<And>dir'. i_data dir' = i_data dir1 \<Longrightarrow> i_size dir' = max (i_size dir) (n * 4096 + d + rl) \<Longrightarrow>
         grows s dir (new_places s dir dir') (commit_to_disk K n (n * 4096 + d) rl dir1 s1) dir'
         \<and> dir_mapped (commit_to_disk K n (n * 4096 + d) rl dir1 s1) dir'"
    using write_commit_grows [OF vol io(2) sm p1 p2, of n] by (elim exE conjE) simp
  have same: "i_size dir1 = i_size dir" "i_ino dir1 = i_ino dir" "i_nlink dir1 = i_nlink dir"
    by (subst d1, simp)+
  let ?c = "lkfs_commit_chunk K n (n * 4096 + d) rl dir1"
  let ?dir = "(snd ?c)\<lparr>i_mtime := k_now K, i_ctime := k_now K\<rparr>"
  let ?s = "commit_to_disk K n (n * 4096 + d) rl dir1 s1"
  have run: "add_link_from K name ino n (Suc c) dir pg s = Inr (fst ?c, ?dir, pg(n := ?m'), ?s)"
    using io w by (simp add: got Let_def split_beta)
  have vg: "grows s dir (new_places s dir ?dir) ?s ?dir \<and> dir_mapped ?s ?dir"
    by (rule G) (simp_all add: same lkfs_commit_chunk_def lkfs_sync_inode_def written_back_def Let_def)
  have err: "(\<forall>n. k_write_one_page_error K (i_ino dir) n = 0) \<longrightarrow> fst ?c = k_sync_error K (i_ino dir)" by (simp add: same)
  have reach: "in_reach ?dir"
    if "n * 4096 + d + rl \<le> i_size dir + 1024"
      "(\<forall>n. k_write_one_page_error K (i_ino dir) n = 0) \<and> k_sync_writes K (i_ino dir)"
    using in_reach_commit [of dir1 "n * 4096 + d" rl K n] that big in_reach_cong [of ?dir "snd ?c"] by (simp add: same)
  from e' show ?thesis
  proof (elim disjE conjE)
    assume e: "e' = ?e" "d + rl \<le> ?e" "0 < rl"
    then have np: "n < dir_pages dir" using n last_byte_eq [OF b, of n] by auto
    have sz: "i_size ?dir = i_size dir" "n * 4096 + d + rl \<le> i_size dir + 1024" using e(2) fits by (simp_all add: same)
    have pk: "page_ok ?m' ?e" using P e(1) by simp
    note U = dir_wf_update [OF wf np pk sz(1)]
    have "dir_list dir pg = (dir_seg (lkfs_last_byte dir) pg [0..<n] @ xs)
        @ (ys @ dir_seg (lkfs_last_byte dir) pg [Suc n..<dir_pages dir])"
      using l by (simp add: dir_list_split [OF np] page_list_def)
    moreover have "dir_list ?dir (pg(n := ?m')) = (dir_seg (lkfs_last_byte dir) pg [0..<n] @ xs)
        @ (name, ino) # (ys @ dir_seg (lkfs_last_byte dir) pg [Suc n..<dir_pages dir])"
      using U(2) P l' e(1) by (simp add: dir_list_update [OF np])
    ultimately show ?thesis
      unfolding add_ok_def run using U(1) sz err reach same vg
      by (intro exI conjI) (assumption | rule refl | simp)+
  next
    assume e: "d = ?e" "rl = 1024" "e' = ?e + 1024" "?e < 4096"
    have sz: "i_size ?dir = i_size dir + 1024" "n * 4096 + d + rl \<le> i_size dir + 1024"
      using st [OF e(4)] e(1,2) by (simp_all add: same)
    note D = dir_grow [OF wf big st [OF e(4)] e(4) sz(1) c' [unfolded e(3)]]
    have "dir_list dir pg = (dir_seg (lkfs_last_byte dir) pg [0..<n] @ xs) @ ys"
      using D(3) l by (simp add: page_list_def)
    moreover have "dir_list ?dir (pg(n := ?m')) = (dir_seg (lkfs_last_byte dir) pg [0..<n] @ xs) @ (name, ino) # ys"
      using D(2) l' by simp
    ultimately show ?thesis
      unfolding add_ok_def run using D(1) sz err reach same vg
      by (intro exI conjI) (assumption | rule refl | simp)+
  qed
qed

end
