(* ===== verification/Dir_Props.thy ===== *)
theory Dir_Props
  imports Dir_Facts
begin

text \<open>
  The properties of directories: the operations of \<open>Dir\<close> seen as operations on the list of
  entries, the errors they report, and the limit on the lookup in the root directory.
\<close>

lemma scan_next_full:
  assumes "dir_wf dir pg" "n < dir_pages dir" "length name < 256"
    and "\<forall>d \<in> set (offs (pg n) 0 (lkfs_last_byte dir n)). \<not> lkfs_match name (pg n) d"
  shows "(\<exists>d nl rl m. add_scan name (lkfs_last_byte dir n) (pg n) 0 = Got d nl rl m)
    \<or> add_scan name (lkfs_last_byte dir n) (pg n) 0 = NextPage \<and> lkfs_last_byte dir n = 4096"
  using add_scan_chain [OF last_byte_facts(5) [OF assms(1,2)] assms(4,3) last_byte_facts(2,1) [OF assms(1,2)]]
  by blast

lemma add_link_list:
  assumes wf: "dir_wf dir pg" and big: "i_size dir + 9216 < 2 ^ 32"
    and name: "length name < 256" "name \<noteq> []" and ino: "ino \<noteq> 0"
    and new: "map_of (dir_list dir pg) name = None"
    and io: "\<forall>n. k_get_page_error K (i_ino dir) n = 0" "write_begin_ok K (i_ino dir)" and vol: "can_grow K s dir"
    and n: "n < dir_pages dir \<or> i_size dir = n * 4096" "n + c = dir_pages dir + 1" "n \<le> dir_pages dir"
  shows "add_ok K (name, ino) dir pg s (add_link_from K name ino n c dir pg s)"
  using n
proof (induction c arbitrary: n)
  case 0
  then show ?case by simp
next
  case (Suc c)
  have b: "i_size dir + 8192 < 2 ^ 32" using big by simp
  note got = add_got [OF wf big name ino new Suc.prems(1) io vol, where c = c]
  show ?case
  proof (cases "n < dir_pages dir")
    case True
    have "\<forall>d \<in> set (offs (pg n) 0 (lkfs_last_byte dir n)). \<not> lkfs_match name (pg n) d"
    proof (intro ballI notI)
      fix d assume d: "d \<in> set (offs (pg n) 0 (lkfs_last_byte dir n))" and "lkfs_match name (pg n) d"
      from dir_list_names [where pg = pg, OF True this] new show False by (force simp: map_of_eq_None_iff)
    qed
    from scan_next_full [OF wf True name(1) this] show ?thesis
    proof
      assume "\<exists>d nl rl m. add_scan name (lkfs_last_byte dir n) (pg n) 0 = Got d nl rl m"
      with got show ?thesis by blast
    next
      assume nx: "add_scan name (lkfs_last_byte dir n) (pg n) 0 = NextPage \<and> lkfs_last_byte dir n = 4096"
      have "add_ok K (name, ino) dir pg s (add_link_from K name ino (Suc n) c dir pg s)"
      proof (rule Suc.IH)
        show "Suc n < dir_pages dir \<or> i_size dir = Suc n * 4096"
        proof (cases "Suc n = dir_pages dir")
          case eq: True
          have "Suc n * 4096 \<le> i_size dir" using last_byte_facts(3) [OF wf True] nx by simp
          with dir_pages_bounds(1) [of dir] eq show ?thesis by simp
        qed (use True in simp)
      qed (use Suc.prems(2) True in simp_all)
      with conjunct1 [OF nx] io(1) show ?thesis by simp
    qed
  next
    case False
    then have sz: "i_size dir = n * 4096" using Suc.prems(1) by simp
    then have "lkfs_last_byte dir n = 0" using last_byte_eq [OF b, of n] by simp
    moreover have "LKFS_DIR_REC_LEN (length name) \<le> 4096"
      using dir_rec_len_bounds(2) [of "length name"] name(1) by linarith
    ultimately have "add_scan name (lkfs_last_byte dir n) (pg n) 0
        = Got 0 0 1024 (set_de_inode 0 0 (set_de_rec_len 0 1024 (pg n)))"
      by (subst add_scan.simps) (simp add: Let_def PAGE_CACHE_SIZE_def)
    with got show ?thesis by blast
  qed
qed

lemma add_link_ok:
  assumes "dir_wf dir pg" "length name < 256" "name \<noteq> []"
    "(of_nat (i_ino nd) :: u32) \<noteq> 0" "map_of (dir_list dir pg) name = None"
    "\<forall>n. k_get_page_error K (i_ino dir) n = 0" "write_begin_ok K (i_ino dir)" "can_grow K s dir"
  shows "add_ok K (name, of_nat (i_ino nd)) dir pg s (lkfs_add_link K name nd dir pg s)"
  unfolding lkfs_add_link_def
proof (rule add_link_list [OF assms(1) _ assms(2-8)])
  show "i_size dir + 9216 < 2 ^ 32" using assms(8) by (simp add: can_grow_def max_blocks_def)
  show "0 < dir_pages dir \<or> i_size dir = 0 * 4096" using dir_pages_bounds(1) [of dir] by auto
qed simp_all

section \<open>Listing\<close>

definition collect :: "entry list filldir" where
  "collect name pos ino acc = (False, acc @ [(name, ino)])"

lemma readdir_page_chain:
  assumes "chain m a ds e"
  shows "readdir_page collect m base e a p acc = Go (p + (e - a)) (acc @ live m ds)"
  using assms
proof (induction ds arbitrary: a p acc)
  case Nil
  then show ?case by (subst readdir_page.simps) simp
next
  case (Cons d ds)
  then have d: "d = a" "rec_ok m a" and c: "chain m (lkfs_next_entry m a) ds e"
    by (auto simp: lkfs_next_entry_def)
  note R = rec_okD [OF d(2)]
  have le: "lkfs_next_entry m a \<le> e" by (rule chain_bounds(1) [OF c])
  have "a + LKFS_DIR_REC_LEN 1 \<le> e"
    using le R(6) by (simp add: lkfs_next_entry_def LKFS_DIR_REC_LEN_def)
  with R(2) have "readdir_page collect m base e a p acc
      = readdir_page collect m base e (lkfs_next_entry m a) (p + de_rec_len m a) (acc @ live1 m a)"
    by (subst readdir_page.simps) (simp add: collect_def live1_def)
  also have "\<dots> = Go (p + de_rec_len m a + (e - lkfs_next_entry m a)) ((acc @ live1 m a) @ live m ds)"
    by (rule Cons.IH [OF c])
  finally show ?case using d le by (simp add: lkfs_next_entry_def)
qed

lemma readdir_from_list:
  assumes wf: "dir_wf dir pg" and io: "\<forall>n. k_get_page_error K (i_ino dir) n = 0"
    and n: "n + c = dir_pages dir" "n * 4096 \<le> i_size dir"
  shows "readdir_from K collect dir pg n c 0 (n * 4096) acc
    = Inr (0, i_size dir, acc @ dir_seg (lkfs_last_byte dir) pg [n..<dir_pages dir])
    \<or> c = 0 \<and> readdir_from K collect dir pg n c 0 (n * 4096) acc = Inr (0, n * 4096, acc)"
  using n
proof (induction c arbitrary: n acc)
  case 0
  then show ?case by simp
next
  case (Suc c)
  then have np: "n < dir_pages dir" by simp
  note L = last_byte_facts [OF wf np]
  let ?e = "lkfs_last_byte dir n"
  have seg: "dir_seg (lkfs_last_byte dir) pg [n..<dir_pages dir]
      = page_list (pg n) ?e @ dir_seg (lkfs_last_byte dir) pg [Suc n..<dir_pages dir]"
  proof -
    have "[n..<dir_pages dir] = n # [Suc n..<dir_pages dir]" using np by (simp add: upt_conv_Cons)
    then show ?thesis by (simp only: dir_seg_def list.map concat.simps)
  qed
  note step = readdir_page_chain [OF L(5), of "n * 4096" "n * 4096" acc]
  show ?case
  proof (cases "c = 0")
    case True
    have "n * 4096 + ?e = i_size dir"
    proof (cases "?e < 4096")
      case e: False
      have "Suc n = dir_pages dir" using True Suc.prems(1) by simp
      then have "i_size dir \<le> Suc n * 4096" using dir_pages_bounds(1) [of dir] by simp
      with e L(1,3) show ?thesis by simp
    qed (rule L(4))
    moreover have "dir_pages dir = Suc n" using True Suc.prems(1) by simp
    ultimately show ?thesis using True step io
      unfolding seg by (simp add: page_list_def dir_seg_def)
  next
    case False
    then have "Suc n < dir_pages dir" using Suc.prems(1) by simp
    from page_in_size [OF this] have sn: "Suc n * 4096 \<le> i_size dir" by simp
    have e: "?e = 4096"
    proof (rule ccontr)
      assume "?e \<noteq> 4096"
      then have "?e < 4096" using L(1) by simp
      with L(4) sn show False by simp
    qed
    have "readdir_from K collect dir pg (Suc n) c 0 (Suc n * 4096) (acc @ page_list (pg n) ?e)
        = Inr (0, i_size dir, (acc @ page_list (pg n) ?e)
            @ dir_seg (lkfs_last_byte dir) pg [Suc n..<dir_pages dir])"
      using Suc.IH [OF _ sn, of "acc @ page_list (pg n) ?e"] Suc.prems(1) False by simp
    with step io e show ?thesis
      unfolding seg by (simp add: page_list_def add.commute)
  qed
qed


section \<open>An empty directory\<close>

abbreviation dot :: "u8 list" where "dot \<equiv> [46]"
abbreviation dotdot :: "u8 list" where "dotdot \<equiv> [46, 46]"

definition empty_page :: "u32 \<Rightarrow> u32 \<Rightarrow> mem \<Rightarrow> mem" where
  "empty_page self parent m =
     set_de_name 12 [46, 46, 0, 0] (set_de_inode 12 parent (set_de_rec_len 12 1012 (set_de_name_len 12 2
       (set_de_inode 0 self (set_de_name 0 [46, 0, 0, 0] (set_de_rec_len 0 12 (set_de_name_len 0 1
         (memset m 0 0 1024))))))))"

lemma get_bytes_frame:
  "b + n \<le> a \<or> a + 4 \<le> b \<Longrightarrow> get_bytes (put32 m a v) b n = get_bytes m b n"
  "b + n \<le> a \<or> a + 2 \<le> b \<Longrightarrow> get_bytes (put16 m a w) b n = get_bytes m b n"
  "b + n \<le> a \<or> a + 1 \<le> b \<Longrightarrow> get_bytes (put8 m a u) b n = get_bytes m b n"
  "b + n \<le> a \<or> a + length bs \<le> b \<Longrightarrow> get_bytes (put_bytes m a bs) b n = get_bytes m b n"
  by (rule get_bytes_agree, auto simp: f32.wr_outside f16.wr_outside f8.wr_outside put_bytes_frame)+

lemma get_bytes_put_prefix:
  "n \<le> length bs \<Longrightarrow> get_bytes (put_bytes m a bs) a n = take n bs"
  by (rule nth_equalityI) (auto simp: get_bytes_def put_bytes_def)

lemma empty_page_fields:
  "de_inode (empty_page self parent m) 0 = self" "de_rec_len (empty_page self parent m) 0 = 12"
  "de_name_len (empty_page self parent m) 0 = 1" "de_name (empty_page self parent m) 0 1 = dot"
  "de_inode (empty_page self parent m) 12 = parent" "de_rec_len (empty_page self parent m) 12 = 1012"
  "de_name_len (empty_page self parent m) 12 = 2" "de_name (empty_page self parent m) 12 2 = dotdot"
  by (simp_all add: empty_page_def de_inode_def de_rec_len_def de_name_len_def de_name_def
      set_de_inode_def set_de_rec_len_def set_de_name_len_def set_de_name_def mem_simps
      get_bytes_frame get_bytes_put_prefix)

lemma empty_page_chain:
  assumes "self \<noteq> 0" "parent \<noteq> 0"
  shows "chain (empty_page self parent m) 0 [0, 12] 1024"
    "live (empty_page self parent m) [0, 12] = [(dot, self), (dotdot, parent)]"
proof -
  have l: "LKFS_DIR_REC_LEN (Suc 0) = 12" "LKFS_DIR_REC_LEN 2 = 12" by (simp_all add: LKFS_DIR_REC_LEN_def)
  note F = empty_page_fields [of self parent m]
  show "chain (empty_page self parent m) 0 [0, 12] 1024"
    using F by (simp add: rec_ok_def l)
  show "live (empty_page self parent m) [0, 12] = [(dot, self), (dotdot, parent)]"
    using F assms by (simp add: live1_def)
qed

lemma one_page_dir:
  assumes "i_size dir = 1024" "chain (pg 0) 0 ds 1024"
  shows "dir_wf dir pg" "dir_list dir pg = live (pg 0) ds" "dir_pages dir = 1"
proof -
  show p: "dir_pages dir = 1" using assms(1) by (simp add: dir_pages_def PAGE_CACHE_SIZE_def)
  have l: "lkfs_last_byte dir 0 = 1024"
    using assms(1) by (simp add: lkfs_last_byte_def PAGE_CACHE_SIZE_def)
  show "dir_wf dir pg" using page_okI [OF assms(2)] by (simp add: dir_wf_def p l assms(1))
  show "dir_list dir pg = live (pg 0) ds" using page_okI [OF assms(2)] by (simp add: dir_list_def p l)
qed

text \<open>A new inode has no blocks, and its directory grows by the first one.\<close>

lemma new_can_grow:
  assumes "fs_wf s" "bits_spec K" "readable K s" "in_table s (i_ino nd)" "0 < free_blocks s"
    "i_size nd = 0" "i_data nd = (\<lambda>_. 0)"
  shows "can_grow K s nd" "metas s nd = {}" "holes s nd (path 0) = [Dir 0]"
proof -
  have p: "ptr_of s nd a = 0" for a using assms(7) by (cases a) (simp_all add: below_def)
  show "metas s nd = {}" by (simp add: metas_def p)
  show "holes s nd (path 0) = [Dir 0]" by (simp add: holes_def path_def p)
  then show "can_grow K s nd"
    using assms by (simp add: can_grow_def ready_def imap_wf_def p dir_mapped_def max_blocks_def)
qed

lemma make_empty_effect:
  assumes "k_grab_page_ok K (i_ino nd)" "write_begin_ok K (i_ino nd)" "can_grow K s nd"
    "i_size nd = 0" "(of_nat (i_ino nd) :: u32) \<noteq> 0" "(of_nat (i_ino parent) :: u32) \<noteq> 0"
  shows "\<exists>err nd' s'. lkfs_make_empty K nd parent pg s
      = Inr (err, nd', pg(0 := empty_page (of_nat (i_ino nd)) (of_nat (i_ino parent)) (pg 0)), s')
    \<and> dir_wf nd' (pg(0 := empty_page (of_nat (i_ino nd)) (of_nat (i_ino parent)) (pg 0)))
    \<and> dir_list nd' (pg(0 := empty_page (of_nat (i_ino nd)) (of_nat (i_ino parent)) (pg 0)))
        = [(dot, of_nat (i_ino nd)), (dotdot, of_nat (i_ino parent))]
    \<and> i_size nd' = 1024 \<and> i_ino nd' = i_ino nd \<and> i_nlink nd' = i_nlink nd \<and> i_ops nd' = i_ops nd
    \<and> grows s nd (holes s nd (path 0)) s' nd' \<and> dir_mapped s' nd'
    \<and> (k_write_one_page_error K (i_ino nd) 0 = 0 \<longrightarrow> err = k_sync_error K (i_ino nd)) \<and> in_reach nd'"
proof -
  from write_commit_grows [OF assms(3,2), where pos = 0 and len = 1024 and n = 0] obtain s1 nd1 where
    w: "lkfs_write_begin K nd 0 1024 s = Inr (0, nd1, s1)" and n1: "nd1 = nd\<lparr>i_data := i_data nd1\<rparr>"
    and G: "\<And>d. i_data d = i_data nd1 \<Longrightarrow> i_size d = 1024 \<Longrightarrow>
      grows s nd (new_places s nd d) (commit_to_disk K 0 0 1024 nd1 s1) d \<and> dir_mapped (commit_to_disk K 0 0 1024 nd1 s1) d"
    using assms(4) by auto
  have same: "i_size nd1 = 0" "i_ino nd1 = i_ino nd" "i_nlink nd1 = i_nlink nd" "i_ops nd1 = i_ops nd"
    using assms(4) by (subst n1, simp)+
  let ?c = "lkfs_commit_chunk K 0 0 1024 nd1"
  let ?m = "empty_page (of_nat (i_ino nd)) (of_nat (i_ino parent)) (pg 0)" and ?s = "commit_to_disk K 0 0 1024 nd1 s1"
  have l: "LKFS_DIR_REC_LEN (Suc 0) = 12" by (simp add: LKFS_DIR_REC_LEN_def)
  have run: "lkfs_make_empty K nd parent pg s = Inr (fst ?c, snd ?c, pg(0 := ?m), ?s)"
    using assms(1) w by (simp add: lkfs_make_empty_def Let_def l empty_page_def split_beta same)
  have sz: "i_size (snd ?c) = 1024" using same by simp
  have "chain ((pg(0 := ?m)) 0) 0 [0, 12] 1024" using empty_page_chain(1) [OF assms(5,6)] by simp
  note O = one_page_dir [where pg = "pg(0 := ?m)", OF sz this]
  have r: "in_reach (snd ?c)" by (simp add: in_reach_def O(3))
  have d: "i_data (snd ?c) = i_data nd1" "i_ops (snd ?c) = i_ops nd"
    by (simp_all add: lkfs_commit_chunk_def lkfs_sync_inode_def written_back_def Let_def same)
  have g: "grows s nd (holes s nd (path 0)) ?s (snd ?c)" "dir_mapped ?s (snd ?c)"
    using G [OF d(1) sz] assms(4) sz by (simp_all add: new_places_def)
  show ?thesis
    using run O(1,2) sz r empty_page_chain(2) [OF assms(5,6)] g d(2) same
    by (intro exI [of _ "fst ?c"] exI [of _ "snd ?c"] exI [of _ ?s]) simp
qed

text \<open>\<open>lkfs_make_empty\<close> turns an inode of size 0 into a well-formed directory of one chunk with
  exactly the entries \<open>.\<close> for itself and \<open>..\<close> for its parent, and one block of its own.\<close>

lemma make_empty_correct:
  assumes "k_grab_page_ok K (i_ino nd)" "write_begin_ok K (i_ino nd)" "can_grow K s nd"
    "i_size nd = 0" "(of_nat (i_ino nd) :: u32) \<noteq> 0" "(of_nat (i_ino parent) :: u32) \<noteq> 0"
  shows "\<exists>err nd' pg' s'. lkfs_make_empty K nd parent pg s = Inr (err, nd', pg', s') \<and> dir_wf nd' pg'
    \<and> dir_list nd' pg' = [([46], of_nat (i_ino nd)), ([46, 46], of_nat (i_ino parent))]
    \<and> i_size nd' = 1024 \<and> grows s nd (holes s nd (path 0)) s' nd'"
  using make_empty_effect [OF assms] by blast

text \<open>A concrete directory for the witnesses: a fresh one with inode 7, below inode 2, on a volume where
  it gets block 8.\<close>

lemma fresh_can_grow: "can_grow plain_vfs (sample_fs 8 11) (blank_inode\<lparr>i_ino := 7\<rparr>)"
  using sample_fs_wf [of 8 11] plain_vfs_bits sample_free_blocks [of 8 11]
  by (intro new_can_grow(1)) (simp_all add: readable_def in_table_def es_sample sample_super_def)

lemma plain_vfs_write_begin: "write_begin_ok plain_vfs i"
  by (simp add: write_begin_ok_def)

theorem make_empty_correct_witness:
  "\<exists>err nd' pg' s'. lkfs_make_empty plain_vfs (blank_inode\<lparr>i_ino := 7\<rparr>) (blank_inode\<lparr>i_ino := 2\<rparr>) (\<lambda>_. zero_mem)
     (sample_fs 8 11) = Inr (err, nd', pg', s') \<and> dir_list nd' pg' = [([46], 7), ([46, 46], 2)]"
  using make_empty_correct [OF _ plain_vfs_write_begin fresh_can_grow, of "blank_inode\<lparr>i_ino := 2\<rparr>" "\<lambda>_. zero_mem"]
  by auto

definition sample_made :: "inode \<times> pages \<times> lkfs" where
  "sample_made = snd (projr (lkfs_make_empty plain_vfs (blank_inode\<lparr>i_ino := 7\<rparr>) (blank_inode\<lparr>i_ino := 2\<rparr>)
     (\<lambda>_. zero_mem) (sample_fs 8 11)))"

definition sample_dir :: "inode \<times> pages" where
  "sample_dir = (fst sample_made, fst (snd sample_made))"

definition sample_vol :: lkfs where
  "sample_vol = snd (snd sample_made)"

lemma sample_dir_facts:
  "dir_wf (fst sample_dir) (snd sample_dir)" "dir_list (fst sample_dir) (snd sample_dir) = [(dot, 7), (dotdot, 2)]"
  "i_size (fst sample_dir) = 1024" "i_ino (fst sample_dir) = 7" "in_reach (fst sample_dir)" "i_nlink (fst sample_dir) = 1"
  "snd sample_dir 0 = empty_page 7 2 zero_mem"
  "grows (sample_fs 8 11) (blank_inode\<lparr>i_ino := 7\<rparr>) [Dir 0] sample_vol (fst sample_dir)" "dir_mapped sample_vol (fst sample_dir)"
proof -
  have h: "holes (sample_fs 8 11) (blank_inode\<lparr>i_ino := 7\<rparr>) (path 0) = [Dir 0]" by (simp add: holes_def path_def)
  obtain err nd' s' where m: "lkfs_make_empty plain_vfs (blank_inode\<lparr>i_ino := 7\<rparr>) (blank_inode\<lparr>i_ino := 2\<rparr>)
      (\<lambda>_. zero_mem) (sample_fs 8 11) = Inr (err, nd', (\<lambda>_. zero_mem)(0 := empty_page 7 2 zero_mem), s')"
    "dir_wf nd' ((\<lambda>_. zero_mem)(0 := empty_page 7 2 zero_mem))"
    "dir_list nd' ((\<lambda>_. zero_mem)(0 := empty_page 7 2 zero_mem)) = [(dot, 7), (dotdot, 2)]"
    "i_size nd' = 1024" "i_ino nd' = 7" "in_reach nd'" "i_nlink nd' = 1"
    "grows (sample_fs 8 11) (blank_inode\<lparr>i_ino := 7\<rparr>) [Dir 0] s' nd'" "dir_mapped s' nd'"
    using make_empty_effect [OF _ plain_vfs_write_begin fresh_can_grow, of "blank_inode\<lparr>i_ino := 2\<rparr>" "\<lambda>_. zero_mem"]
    by (auto simp: h)
  then show "dir_wf (fst sample_dir) (snd sample_dir)"
    "dir_list (fst sample_dir) (snd sample_dir) = [(dot, 7), (dotdot, 2)]"
    "i_size (fst sample_dir) = 1024" "i_ino (fst sample_dir) = 7" "in_reach (fst sample_dir)" "i_nlink (fst sample_dir) = 1"
    "snd sample_dir 0 = empty_page 7 2 zero_mem"
    "grows (sample_fs 8 11) (blank_inode\<lparr>i_ino := 7\<rparr>) [Dir 0] sample_vol (fst sample_dir)" "dir_mapped sample_vol (fst sample_dir)"
    by (simp_all add: sample_dir_def sample_vol_def sample_made_def)
qed

lemma sample_vol_facts:
  "fs_wf sample_vol" "same_geometry (sample_fs 8 11) sample_vol" "used_ino sample_vol = used_ino (sample_fs 8 11)"
  "free_blocks sample_vol = 119" "in_table sample_vol k \<longleftrightarrow> 1 \<le> k \<and> k \<le> 32" "readable plain_vfs sample_vol"
  "inodes_count sample_vol = 32" "can_grow plain_vfs sample_vol (fst sample_dir)" "lowest_free_ino sample_vol 11"
proof -
  note G = growsD [OF sample_dir_facts(8)]
  note S = same_geometry_sizes [OF G(3)]
  show "fs_wf sample_vol" "same_geometry (sample_fs 8 11) sample_vol" "used_ino sample_vol = used_ino (sample_fs 8 11)"
    by (fact G)+
  show f: "free_blocks sample_vol = 119" using G(7) sample_free_blocks [of 8 11] by simp
  show t: "in_table sample_vol k \<longleftrightarrow> 1 \<le> k \<and> k \<le> 32" for k
    using S(10) by (simp add: in_table_def es_sample sample_super_def)
  show "readable plain_vfs sample_vol" by (simp add: readable_def)
  show "inodes_count sample_vol = 32" using S(2) by simp
  show "lowest_free_ino sample_vol 11" using G(4) S(5) by (simp add: lowest_free_ino_def)
  show "can_grow plain_vfs sample_vol (fst sample_dir)"
    using G(1,2) plain_vfs_bits sample_dir_facts(3,4,9) f t holes_le [of sample_vol "fst sample_dir" 1]
    by (simp add: can_grow_def ready_def readable_def max_blocks_def)
qed

lemma sample_dir_find: "lkfs_find_entry plain_vfs (fst sample_dir) dotdot (snd sample_dir) = Some (0, 12)"
proof -
  note pg = sample_dir_facts(7)
  have c: "chain (snd sample_dir 0) 0 [0, 12] 1024" unfolding pg by (rule empty_page_chain) simp_all
  have p: "dir_pages (fst sample_dir) = 1" by (rule one_page_dir(3) [where pg = "snd sample_dir", OF sample_dir_facts(3) c])
  have l: "lkfs_last_byte (fst sample_dir) 0 = 1024"
    by (simp add: lkfs_last_byte_def sample_dir_facts PAGE_CACHE_SIZE_def)
  note F = empty_page_fields [of 7 2 zero_mem]
  have "find (lkfs_match dotdot (snd sample_dir 0)) [0, 12] = Some 12"
    using F F(8) [unfolded numeral_2_eq_2] by (simp add: pg lkfs_match_def)
  then show ?thesis
    unfolding lkfs_find_entry_def using p
    by (subst find_from.simps) (simp add: l find_in_page_chain [OF c])
qed

section \<open>Properties\<close>

text \<open>looking a name up returns the inode number of the directory's entry of that name, 0 when there
  is none, over all pages of a well-formed directory within reach.\<close>

lemma inode_by_name_correct:
  assumes "dir_wf dir pg" "\<forall>n. k_get_page_error K (i_ino dir) n = 0" "in_reach dir"
  shows "lkfs_inode_by_name K dir name pg = (case map_of (dir_list dir pg) name of None \<Rightarrow> 0 | Some ino \<Rightarrow> ino)"
  using find_entry_list(1) [OF assms, of name]
  by (auto simp: lkfs_inode_by_name_def split: option.splits)

theorem inode_by_name_correct_witness:
  "lkfs_inode_by_name plain_vfs (fst sample_dir) [46, 46] (snd sample_dir) = 2"
  using inode_by_name_correct [OF sample_dir_facts(1) _ sample_dir_facts(5), of plain_vfs "[46, 46]"]
  by (simp add: sample_dir_facts)

lemma inode_by_name_list:
  assumes "dir_wf dir pg" "\<forall>n. k_get_page_error K (i_ino dir) n = 0" "in_reach dir"
  shows "lkfs_inode_by_name K dir name pg = (case map_of (dir_list dir pg) name of None \<Rightarrow> 0 | Some ino \<Rightarrow> ino)"
  using find_entry_list(1) [OF assms, of name]
  by (auto simp: lkfs_inode_by_name_def split: option.splits)

lemma map_of_insert:
  "map_of (xs @ ys) a = None \<Longrightarrow> map_of (xs @ (a, v) # ys) b = (if b = a then Some v else map_of (xs @ ys) b)"
  by (auto simp: map_add_def split: option.splits)

lemma map_of_remove:
  "distinct (map fst (xs @ (a, v) # ys)) \<Longrightarrow>
    map_of (xs @ ys) b = (if b = a then None else map_of (xs @ (a, v) # ys) b)"
proof (induction xs)
  case Nil
  then show ?case by (simp add: map_of_eq_None_iff)
next
  case (Cons x xs)
  then show ?case by (cases x) auto
qed

text \<open>C8: adding a name the directory does not have inserts exactly that entry into its list of
  entries, keeping the others and their order, whichever record is reused or split and whether or
  not the directory grows by a chunk or a page; the directory stays well-formed and the code never
  reaches its \<open>BUG()\<close>. When the page and the inode are written, lookups afterwards answer the new
  inode for that name and what they answered before for every other. On the volume, a directory that
  does not grow takes no block; one that grows fills exactly the places its next block needs, each
  with a free block of its own, and no block or inode record of another file changes.\<close>

theorem add_link_correct:
  assumes "dir_wf dir pg" "can_grow K s dir" "length name < 256" "name \<noteq> []"
    "(of_nat (i_ino nd) :: u32) \<noteq> 0" "map_of (dir_list dir pg) name = None"
    "\<forall>n. k_get_page_error K (i_ino dir) n = 0" "write_begin_ok K (i_ino dir)"
    "\<forall>n. k_write_one_page_error K (i_ino dir) n = 0" "k_sync_writes K (i_ino dir)" "in_reach dir"
  shows "\<exists>err dir' pg' s' xs ys. lkfs_add_link K name nd dir pg s = Inr (err, dir', pg', s')
    \<and> err = k_sync_error K (i_ino dir) \<and> dir_wf dir' pg'
    \<and> dir_list dir pg = xs @ ys \<and> dir_list dir' pg' = xs @ (name, of_nat (i_ino nd)) # ys
    \<and> (\<forall>nm. lkfs_inode_by_name K dir' nm pg' =
         (if nm = name then of_nat (i_ino nd) else lkfs_inode_by_name K dir nm pg))
    \<and> grows s dir (new_places s dir dir') s' dir' \<and> dir_mapped s' dir'"
proof -
  obtain err dir' pg' s' xs ys where a: "lkfs_add_link K name nd dir pg s = Inr (err, dir', pg', s')"
    "err = k_sync_error K (i_ino dir)" "dir_wf dir' pg'" "i_ino dir' = i_ino dir" "in_reach dir'"
    "dir_list dir pg = xs @ ys" "dir_list dir' pg' = xs @ (name, of_nat (i_ino nd)) # ys"
    "grows s dir (new_places s dir dir') s' dir'" "dir_mapped s' dir'"
    using add_link_ok [OF assms(1,3-8,2)] assms(9,10) unfolding add_ok_def by blast
  have io': "\<forall>n. k_get_page_error K (i_ino dir') n = 0" using assms(7) a(4) by simp
  have "lkfs_inode_by_name K dir' nm pg' =
      (if nm = name then of_nat (i_ino nd) else lkfs_inode_by_name K dir nm pg)" for nm
    using map_of_insert [of xs ys name "of_nat (i_ino nd)" nm] assms(6)
    unfolding inode_by_name_list [OF a(3) io' a(5)] inode_by_name_list [OF assms(1,7,11)] a(6,7) by simp
  with a show ?thesis by blast
qed

theorem add_link_correct_witness:
  "\<exists>err dir' pg' s'. lkfs_add_link plain_vfs [97] (blank_inode\<lparr>i_ino := 9\<rparr>) (fst sample_dir) (snd sample_dir) sample_vol
     = Inr (err, dir', pg', s') \<and> lkfs_inode_by_name plain_vfs dir' [97] pg' = 9"
proof -
  have h: "length [97 :: u8] < 256" "[97 :: u8] \<noteq> []" "(of_nat (i_ino (blank_inode\<lparr>i_ino := 9\<rparr>)) :: u32) \<noteq> 0"
    "map_of (dir_list (fst sample_dir) (snd sample_dir)) [97] = None"
    by (simp_all add: sample_dir_facts)
  from add_link_correct [OF sample_dir_facts(1) sample_vol_facts(8) h _ plain_vfs_write_begin _ _ sample_dir_facts(5)]
  show ?thesis by auto
qed

text \<open>C28: deleting the entry a lookup found removes exactly that entry from the directory's list,
  whether its record is merged into the one before it or only marked unused; the directory stays
  well-formed, and with distinct names the name is gone and every other is found as before.\<close>

theorem delete_entry_correct:
  assumes "dir_wf dir pg" "\<forall>n. k_get_page_error K (i_ino dir) n = 0" "in_reach dir"
    "\<forall>p l. k_write_begin_error K (i_ino dir) p l = 0" "distinct (map fst (dir_list dir pg))"
    "lkfs_find_entry K dir name pg = Some (n, de)"
  shows "\<exists>err dir' pg' xs ys. lkfs_delete_entry K n de dir pg = Inr (err, dir', pg') \<and> dir_wf dir' pg'
    \<and> dir_list dir pg = xs @ (name, de_inode (pg n) de) # ys \<and> dir_list dir' pg' = xs @ ys
    \<and> (\<forall>nm. lkfs_inode_by_name K dir' nm pg' = (if nm = name then 0 else lkfs_inode_by_name K dir nm pg))"
proof -
  from find_entry_list(2) [OF assms(1-3,6)] have f: "n < dir_pages dir"
    "de \<in> set (offs (pg n) 0 (lkfs_last_byte dir n))" "lkfs_match name (pg n) de" by blast+
  obtain err dir' pg' xs ys where a: "lkfs_delete_entry K n de dir pg = Inr (err, dir', pg')"
    "dir_wf dir' pg'" "i_ino dir' = i_ino dir" "in_reach dir'"
    "dir_list dir pg = xs @ (name, de_inode (pg n) de) # ys" "dir_list dir' pg' = xs @ ys"
    using delete_entry_list [OF assms(1) f assms(4)] assms(3) by blast
  have io': "\<forall>n. k_get_page_error K (i_ino dir') n = 0" using assms(2) a(3) by simp
  have "lkfs_inode_by_name K dir' nm pg' = (if nm = name then 0 else lkfs_inode_by_name K dir nm pg)" for nm
    using map_of_remove [of xs name "de_inode (pg n) de" ys nm] assms(5)
    unfolding inode_by_name_list [OF a(2) io' a(4)] inode_by_name_list [OF assms(1-3)] a(5,6)
    by simp
  with a show ?thesis by blast
qed

theorem delete_entry_correct_witness:
  "\<exists>err dir' pg'. lkfs_delete_entry plain_vfs 0 12 (fst sample_dir) (snd sample_dir) = Inr (err, dir', pg')
     \<and> dir_list dir' pg' = [([46], 7)]"
proof -
  have io: "\<forall>n. k_get_page_error plain_vfs (i_ino (fst sample_dir)) n = 0"
    "\<forall>p l. k_write_begin_error plain_vfs (i_ino (fst sample_dir)) p l = 0" by simp_all
  have d: "distinct (map fst (dir_list (fst sample_dir) (snd sample_dir)))" by (simp add: sample_dir_facts)
  have "lkfs_find_entry plain_vfs (fst sample_dir) [46, 46] (snd sample_dir) = Some (0, 12)"
    by (rule sample_dir_find)
  from delete_entry_correct [OF sample_dir_facts(1) io(1) sample_dir_facts(5) io(2) d this]
  show ?thesis by (auto simp: sample_dir_facts Cons_eq_append_conv)
qed

text \<open>listing a directory from position 0 hands the caller every entry exactly once, in order, and
  leaves the position at the end of the directory.\<close>

lemma readdir_correct:
  assumes "dir_wf dir pg" "\<forall>n. k_get_page_error K (i_ino dir) n = 0" "0 < i_size dir"
  shows "lkfs_readdir K collect dir pg 0 [] = Inr (0, i_size dir, dir_list dir pg)"
proof -
  have s: "\<not> int 0 > int (i_size dir) - int (LKFS_DIR_REC_LEN 1)"
    using assms(1,3) by (auto simp: dir_wf_def LKFS_DIR_REC_LEN_def mod_eq_0_iff_dvd dvd_def)
  have "0 < dir_pages dir" using dir_pages_bounds(1) [of dir] assms(3) by (cases "dir_pages dir") auto
  then show ?thesis
    using readdir_from_list [OF assms(1,2), of 0 "dir_pages dir" "[]"] s
    by (simp add: lkfs_readdir_def dir_list_def dir_seg_def)
qed

theorem readdir_correct_witness:
  "lkfs_readdir plain_vfs collect (fst sample_dir) (snd sample_dir) 0 [] = Inr (0, 1024, [([46], 7), ([46, 46], 2)])"
  using readdir_correct [OF sample_dir_facts(1), of plain_vfs] by (simp add: sample_dir_facts)


lemma iget_root_blocks:
  assumes "k_iget_locked K 2 = Some (True, fresh)" "i_ino fresh = 2" "lkfs_iget K s 2 = Ptr dir"
  shows "i_blocks dir = 2"
  using assms by (auto simp: lkfs_iget_def get_inode_eq read_raw_load Let_def ERR_PTR_def split: if_splits)

text \<open>\<open>lkfs_iget\<close> gives the root inode a block count of 2 whatever its size, so after mounting a
  lookup in the root never gets past the first page: a root directory of more than 4096 bytes has
  entries its own lookup cannot find.\<close>

lemma root_lookup_stops_after_page_0:
  assumes "k_iget_locked K 2 = Some (True, fresh)" "i_ino fresh = 2" "lkfs_iget K s 2 = Ptr dir"
    "dir_wf dir pg" "\<forall>n. k_get_page_error K (i_ino dir) n = 0" "1 < dir_pages dir"
    "map_of (page_list (pg 0) (lkfs_last_byte dir 0)) name = None"
  shows "lkfs_inode_by_name K dir name pg = 0"
proof -
  have b: "i_blocks dir = 2" by (rule iget_root_blocks [OF assms(1-3)])
  have p: "0 < dir_pages dir" using assms(6) by simp
  have "find (lkfs_match name (pg 0)) (offs (pg 0) 0 (lkfs_last_byte dir 0)) = None"
    using assms(7) by (simp add: page_list_def find_live)
  then have "find_from K name dir pg 0 = None"
    using find_in_page_chain [OF last_byte_facts(5) [OF assms(4) p], of name] assms(5,6) b
    by (subst find_from.simps) simp
  then show ?thesis by (simp add: lkfs_inode_by_name_def lkfs_find_entry_def)
qed

definition big_root :: inode where
  "big_root = blank_inode\<lparr>i_ino := 2, i_mode := 0x41ED, i_size := 5120\<rparr>"

definition big_pages :: pages where
  "big_pages n = (if n = 0
     then set_de_rec_len 3072 1024 (set_de_rec_len 2048 1024 (set_de_rec_len 1024 1024 (set_de_rec_len 0 1024 zero_mem)))
     else fill_entry [97] 9 0 (set_de_rec_len 0 1024 zero_mem))"

lemma zero_reads: "get32 zero_mem a = 0" "get8 zero_mem a = 0"
  by (simp_all add: get32_def get8_def zero_mem_def)

lemma big_page_0: "chain (big_pages 0) 0 [0, 1024, 2048, 3072] 4096" "live (big_pages 0) [0, 1024, 2048, 3072] = []"
proof -
  have r: "de_rec_len (big_pages 0) d = 1024" "de_name_len (big_pages 0) d = 0" "de_inode (big_pages 0) d = 0"
    if "d \<in> {0, 1024, 2048, 3072}" for d
    using that by (auto simp: big_pages_def de_rec_len_def de_name_len_def de_inode_def set_de_rec_len_def
        mem_simps zero_reads)
  show "chain (big_pages 0) 0 [0, 1024, 2048, 3072] 4096" by (simp add: rec_ok_def r LKFS_DIR_REC_LEN_def)
  show "live (big_pages 0) [0, 1024, 2048, 3072] = []" by (simp add: live1_def r)
qed

lemma big_page_1: "chain (big_pages 1) 0 [0] 1024" "live (big_pages 1) [0] = [([97], 9)]"
proof -
  have l: "length [97 :: u8] < 256" by simp
  have m: "big_pages 1 = fill_entry [97] 9 0 (set_de_rec_len 0 1024 zero_mem)" by (simp add: big_pages_def)
  note F = fill_entry_at [OF l, where ino = 9 and d = 0 and m = "set_de_rec_len 0 1024 zero_mem", folded m]
  show "chain (big_pages 1) 0 [0] 1024"
    using F by (simp add: rec_ok_def rec_len_write LKFS_DIR_REC_LEN_def)
  show "live (big_pages 1) [0] = [([97], 9)]" unfolding m using live1_fill [OF l] by simp
qed

theorem root_lookup_stops_after_page_0_witness:
  "\<exists>err nd s dir. lkfs_write_inode plain_vfs big_root (sample_fs 10 11) = (err, nd, s)
     \<and> lkfs_iget plain_vfs s 2 = Ptr dir \<and> dir_list dir big_pages = [([97], 9)]
     \<and> lkfs_inode_by_name plain_vfs dir [97] big_pages = 0"
proof -
  have t: "in_table (sample_fs 10 11) (i_ino big_root)"
    by (simp add: in_table_def big_root_def es_sample sample_super_def)
  obtain err nd s where w: "lkfs_write_inode plain_vfs big_root (sample_fs 10 11) = (err, nd, s)"
    by (metis surj_pair)
  have s: "s = mark_buffer_dirty 4 (set_buf 4 (write_raw big_root 128 (bufs (sample_fs 10 11) 4)) (sample_fs 10 11))"
    using w write_inode_run [OF t, of plain_vfs] by (simp add: big_root_def ino_block_def ino_off_def)
  have m: "bufs s 4 = write_raw big_root 128 (bufs (sample_fs 10 11) 4)" by (simp add: s)
  define dir where "dir = read_raw (bufs s 4) 128 (blank_inode\<lparr>i_ino := 2\<rparr>)"
  have ig: "lkfs_iget plain_vfs s 2 = Ptr dir"
    by (simp add: lkfs_iget_def get_inode_eq dir_def ino_off_def) (simp add: s ino_block_def)
  have d: "i_size dir = 5120" "i_ino dir = 2"
    unfolding dir_def read_raw_load m load_write_raw
    by (simp_all add: Let_def disk_inode_def big_root_def)
  have p: "dir_pages dir = 2" by (simp add: dir_pages_def d PAGE_CACHE_SIZE_def)
  have l: "lkfs_last_byte dir 0 = 4096" "lkfs_last_byte dir 1 = 1024"
    by (simp_all add: lkfs_last_byte_def d PAGE_CACHE_SIZE_def)
  have q: "page_ok (big_pages 0) 4096" "page_list (big_pages 0) 4096 = []" "page_ok (big_pages 1) 1024"
    "page_list (big_pages 1) 1024 = [([97], 9)]"
    using page_okI [OF big_page_0(1)] page_okI [OF big_page_1(1)] big_page_0(2) big_page_1(2) by simp_all
  have "page_ok (big_pages n) (lkfs_last_byte dir n)" if "n < 2" for n
    using that q l by (cases n) simp_all
  then have wf: "dir_wf dir big_pages" by (simp add: dir_wf_def d p)
  have "dir_list dir big_pages = [([97], 9)]"
    using l q by (simp add: dir_list_def p upt_rec numeral_2_eq_2)
  moreover have "lkfs_inode_by_name plain_vfs dir [97] big_pages = 0"
    by (rule root_lookup_stops_after_page_0 [where fresh = "blank_inode\<lparr>i_ino := 2\<rparr>", OF _ _ ig wf])
       (simp_all add: p l q)
  ultimately show ?thesis using w ig by blast
qed

end
