(* ===== verification/Namei.thy ===== *)
theory Namei
  imports Dir_Props
begin

text \<open>
  The directory operations of the VFS, \<open>src/lkfs/namei.c\<close>: \<open>lkfs_lookup\<close>, \<open>lkfs_create\<close>,
  \<open>lkfs_add_nondir\<close>, \<open>lkfs_mkdir\<close>, \<open>lkfs_unlink\<close> and the operations that only return a
  number. The state is the file system, the parent directory with its pages and, for
  \<open>lkfs_mkdir\<close>, the pages of the new directory.
\<close>

section \<open>Kernel services used here\<close>

text \<open>\<open>inode_inc_link_count\<close> and \<open>inode_dec_link_count\<close>.\<close>

definition inc_link :: "inode \<Rightarrow> inode" where
  "inc_link nd = nd\<lparr>i_nlink := i_nlink nd + 1\<rparr>"

definition dec_link :: "inode \<Rightarrow> inode" where
  "dec_link nd = nd\<lparr>i_nlink := i_nlink nd - 1\<rparr>"

section \<open>The code\<close>

text \<open>A dentry is the inode it leads to, \<open>None\<close> for a negative one.\<close>

definition lkfs_lookup :: "'v vfs_scheme \<Rightarrow> inode \<Rightarrow> u8 list \<Rightarrow> pages \<Rightarrow> lkfs \<Rightarrow> inode option kptr" where
  "lkfs_lookup K dir name pg s =
     (if length name > LKFS_NAME_LEN then ERR_PTR (- ENAMETOOLONG)
      else
        let ino = lkfs_inode_by_name K dir name pg
        in if ino \<noteq> 0 then
             (case lkfs_iget K s (unat ino) of
                Ptr nd \<Rightarrow> Ptr (Some nd)
              | Raw e \<Rightarrow> if e = - ESTALE then ERR_PTR (- EIO) else ERR_PTR e)
           else Ptr None)"

type_synonym create_result = "(int \<times> inode option \<times> inode \<times> pages \<times> lkfs) res"

definition lkfs_add_nondir :: "'v vfs_scheme \<Rightarrow> nat option \<Rightarrow> u8 list \<Rightarrow> inode \<Rightarrow> inode \<Rightarrow> pages \<Rightarrow> lkfs
    \<Rightarrow> create_result" where
  "lkfs_add_nondir K bh name nd dir pg s =
     rbind (lkfs_add_link K name nd dir pg s) (\<lambda>(err, dir, pg, s).
       if err = 0 then Inr (0, Some nd, dir, pg, s)
       else rbind (iput K bh (dec_link nd) s) (\<lambda>(nd, s). Inr (err, None, dir, pg, s)))"

definition lkfs_create :: "'v vfs_scheme \<Rightarrow> nat option \<Rightarrow> u8 list \<Rightarrow> u16 \<Rightarrow> inode \<Rightarrow> pages \<Rightarrow> lkfs
    \<Rightarrow> create_result" where
  "lkfs_create K bh name mode dir pg s =
     rbind (lkfs_new_inode K bh dir mode s) (\<lambda>(p, s).
       if IS_ERR p then Inr (PTR_ERR p, None, dir, pg, s)
       else rbind (kderef p) (\<lambda>nd.
         let nd = nd\<lparr>i_ops := FileOps\<rparr>;
             (nd, s) = sync_to_disk K nd s
         in lkfs_add_nondir K bh name nd dir pg s))"

text \<open>\<open>S_IFDIR\<close> is \<open>0x4000\<close>; \<open>npg\<close> are the pages of the new directory.\<close>

definition lkfs_mkdir :: "'v vfs_scheme \<Rightarrow> nat option \<Rightarrow> u8 list \<Rightarrow> u16 \<Rightarrow> inode \<Rightarrow> pages \<Rightarrow> pages \<Rightarrow> lkfs
    \<Rightarrow> (int \<times> (inode \<times> pages) option \<times> inode \<times> pages \<times> lkfs) res" where
  "lkfs_mkdir K bh name mode dir pg npg s =
     (if i_nlink dir \<ge> 32000 then Inr (- EMLINK, None, dir, pg, s)
      else
        let dir = inc_link dir
        in rbind (lkfs_new_inode K bh dir (0x4000 OR mode) s) (\<lambda>(p, s).
          if IS_ERR p then Inr (PTR_ERR p, None, dec_link dir, pg, s)
          else rbind (kderef p) (\<lambda>nd.
            let nd = inc_link (nd\<lparr>i_ops := DirOps\<rparr>)
            in rbind (lkfs_make_empty K nd dir npg s) (\<lambda>(err, nd, npg, s).
               if err \<noteq> 0 then
                 rbind (iput K bh (dec_link (dec_link nd)) s) (\<lambda>(nd, s).
                   Inr (err, None, dec_link dir, pg, s))
               else
                 rbind (lkfs_add_link K name nd dir pg s) (\<lambda>(err, dir, pg, s).
                   if err \<noteq> 0 then
                     rbind (iput K bh (dec_link (dec_link nd)) s) (\<lambda>(nd, s).
                       Inr (err, None, dec_link dir, pg, s))
                   else Inr (err, Some (nd, npg), dir, pg, s))))))"

definition lkfs_unlink :: "'v vfs_scheme \<Rightarrow> u8 list \<Rightarrow> inode \<Rightarrow> inode \<Rightarrow> pages
    \<Rightarrow> (int \<times> inode \<times> inode \<times> pages) res" where
  "lkfs_unlink K name nd dir pg =
     (case lkfs_find_entry K dir name pg of
        None \<Rightarrow> Inr (- ENOENT, nd, dir, pg)
      | Some (n, de) \<Rightarrow>
          rbind (lkfs_delete_entry K n de dir pg) (\<lambda>(err, dir, pg).
            if err \<noteq> 0 then Inr (err, nd, dir, pg)
            else Inr (0, dec_link (nd\<lparr>i_ctime := i_ctime dir\<rparr>), dir, pg)))"

text \<open>The operations without a body.\<close>

definition lkfs_rmdir :: "inode \<Rightarrow> u8 list \<Rightarrow> int" where "lkfs_rmdir dir name = - ENOTEMPTY"
definition lkfs_mknod :: "inode \<Rightarrow> u8 list \<Rightarrow> u16 \<Rightarrow> int" where "lkfs_mknod dir name mode = 0"
definition lkfs_symlink :: "inode \<Rightarrow> u8 list \<Rightarrow> u8 list \<Rightarrow> int" where "lkfs_symlink dir name target = 0"
definition lkfs_link :: "inode \<Rightarrow> inode \<Rightarrow> u8 list \<Rightarrow> int" where "lkfs_link nd dir name = 0"
definition lkfs_rename :: "inode \<Rightarrow> u8 list \<Rightarrow> inode \<Rightarrow> u8 list \<Rightarrow> int" where
  "lkfs_rename old_dir old_name new_dir new_name = 0"

section \<open>Creating a file\<close>

text \<open>What the code relies on: a new VFS inode is empty with one link, its owner setup keeps type
  bits, links and size.\<close>

definition new_inode_spec :: "'v vfs_scheme \<Rightarrow> bool" where
  "new_inode_spec K \<longleftrightarrow> (\<exists>base. k_new_inode K = Some base \<and> i_size base = 0 \<and> i_nlink base = 1)
     \<and> (\<forall>nd d m. i_mode (k_inode_init_owner K nd d m) AND 0xF000 = m AND 0xF000
          \<and> i_nlink (k_inode_init_owner K nd d m) = i_nlink nd
          \<and> i_size (k_inode_init_owner K nd d m) = i_size nd)"

lemma plain_vfs_new_inode: "new_inode_spec plain_vfs"
  by (simp add: new_inode_spec_def)

text \<open>The page cache and the device do their work for inode \<open>i\<close>.\<close>

definition io_ok :: "'v vfs_scheme \<Rightarrow> nat \<Rightarrow> bool" where
  "io_ok K i \<longleftrightarrow> (\<forall>n. k_get_page_error K i n = 0) \<and> write_begin_ok K i
     \<and> (\<forall>n. k_write_one_page_error K i n = 0) \<and> k_sync_error K i = 0 \<and> k_sync_writes K i
     \<and> k_grab_page_ok K i"

lemma plain_vfs_io: "io_ok plain_vfs i"
  by (simp add: io_ok_def plain_vfs_write_begin)

lemma new_inode_effect:
  assumes wf: "fs_wf s" and K: "bits_spec K" and ns: "new_inode_spec K" and ok: "k_insert_inode_ok K n"
    and n: "lowest_free_ino s n" "n < inodes_count s"
  shows "\<exists>nd s'. lkfs_new_inode K bh dir mode s = Inr (Ptr nd, s') \<and> i_ino nd = n \<and> i_size nd = 0
    \<and> i_nlink nd = 1 \<and> i_data nd = (\<lambda>_. 0) \<and> i_mode nd AND 0xF000 = mode AND 0xF000 \<and> fs_wf s'
    \<and> same_geometry s s' \<and> used_block s' = used_block s \<and> (\<forall>k. used_ino s' k \<longleftrightarrow> k = n \<or> used_ino s k)
    \<and> s_free_inodes_count (es s') = s_free_inodes_count (es s) - 1
    \<and> s_free_blocks_count (es s') = s_free_blocks_count (es s)
    \<and> (\<forall>x \<ge> data_start s. bufs s' x = bufs s x)"
proof -
  obtain base where b: "k_new_inode K = Some base" "i_size base = 0" "i_nlink base = 1"
    using ns by (auto simp: new_inode_spec_def)
  have lt: "n < 8192 * length (s_sib s)" using n(1) by (simp add: lowest_free_ino_def)
  then have ne: "s_sib s \<noteq> []" by auto
  note C = claim_ino_facts [OF wf lt, where K = K]
  let ?s = "mark_buffer_dirty (s_sib s ! (n div 8192)) (claim_ino K n s)"
  have "same_geometry s ?s" by (rule same_geometry_trans [OF C(2) mark_dirty_same(2)])
  moreover have "bufs ?s x = bufs s x" if "data_start s \<le> x" for x
    using C(4) [of x] that fs_wf_sets(4) [OF wf] fs_wfD(12,13) [OF wf] by fastforce
  ultimately show ?thesis
    using new_inode_claim_run(1) [OF wf K b(1) ne n, of dir mode] ok C b ns claim_ino_used [OF wf K lt]
    by (intro exI [of _ "fresh_inode K base dir mode n"] exI [of _ ?s])
       (auto simp: lkfs_new_inode_def fresh_inode_def new_inode_spec_def)
qed

lemma type_bits: "m AND 0xF000 = m' AND 0xF000 \<Longrightarrow> S_ISREG m = S_ISREG m' \<and> S_ISDIR m = S_ISDIR m'"
  by (simp add: S_ISREG_def S_ISDIR_def)

text \<open>An inode number read from a directory entry.\<close>

lemma ino_word:
  assumes "fs_wf s" "n < 8192 * length (s_sib s)" "1 \<le> n"
  shows "unat (of_nat n :: u32) = n" "(of_nat n :: u32) \<noteq> 0"
proof -
  show u: "unat (of_nat n :: u32) = n"
    using fs_wfD(9) [OF assms(1)] assms(2) by (simp add: unat_of_nat take_bit_nat_eq_self)
  then show "(of_nat n :: u32) \<noteq> 0" using assms(3) by auto
qed


lemma sync_to_disk_effect:
  assumes wf: "fs_wf s" and t: "in_table s (i_ino nd)" and rd: "readable K s" and w: "k_sync_writes K (i_ino nd)"
  shows "\<exists>s'. sync_to_disk K nd s = (written_back nd, s') \<and> fs_wf s' \<and> es s' = es s
    \<and> used_block s' = used_block s \<and> used_ino s' = used_ino s \<and> same_geometry s s'
    \<and> free_count_ok s' = free_count_ok s \<and> (\<forall>x \<ge> data_start s. bufs s' x = bufs s x)
    \<and> bufs s' (ino_block s (i_ino nd)) = write_raw nd (ino_off (i_ino nd)) (bufs s (ino_block s (i_ino nd)))"
proof -
  have br: "k_bread_ok K (ino_block s (i_ino nd))"
    using rd in_table_block(2) [OF t] fs_wfD(10) [OF wf] by (simp add: readable_def)
  obtain err nd' s' where r: "lkfs_write_inode K nd s = (err, nd', s')" by (metis surj_pair)
  note W = write_inode_effect [OF wf t br r]
  have "bufs s' (ino_block s (i_ino nd)) = write_raw nd (ino_off (i_ino nd)) (bufs s (ino_block s (i_ino nd)))"
    using r write_inode_run [OF t br] by auto
  moreover have "sync_to_disk K nd s = (written_back nd, s')" using r w W(1) by (simp add: sync_to_disk_def)
  ultimately show ?thesis using W by blast
qed

lemma same_in_table: "same_geometry s s' \<Longrightarrow> in_table s' = in_table s \<and> ino_block s' = ino_block s"
  by (simp add: fun_eq_iff in_table_def ino_block_def same_geometry_sizes)

lemma same_readable: "same_geometry s s' \<Longrightarrow> readable K s' = readable K s"
  by (simp add: readable_def same_geometry_sizes)

text \<open>A directory can still grow, and its map is the same, after changes that keep its blocks.\<close>

lemma can_grow_transfer:
  assumes c: "can_grow K s dir" and wf: "fs_wf s'" and g: "same_geometry s s'"
    and b: "\<And>x. data_start s \<le> x \<Longrightarrow> used_block s x \<Longrightarrow> bufs s' x = bufs s x"
    and u: "\<And>x. used_block s x \<Longrightarrow> used_block s' x"
    and f: "length (holes s dir (path (i_size dir div 1024))) \<le> free_blocks s'"
    and d: "i_data d = i_data dir" "i_size d = i_size dir" "i_ino d = i_ino dir"
  shows "can_grow K s' d" "valid_slot a \<Longrightarrow> ptr_of s' d a = ptr_of s dir a" "new_places s' d d' = new_places s dir d'"
proof -
  note C = c [unfolded can_grow_def ready_def]
  have bl: "below s' (ptr_of s dir q) k = below s (ptr_of s dir q) k" if "valid_slot q" for q k
    using C imap_wfD(1) [of s dir q] that b by (intro below_cong) (simp add: block_ok_def)
  have P: "ptr_of s' d a = ptr_of s dir a" if "valid_slot a" for a
    using bl [of IndR] bl [of DinR] bl [of "L1 j" for j] d(1) that by (cases a) simp_all
  then show "valid_slot a \<Longrightarrow> ptr_of s' d a = ptr_of s dir a" by simp
  have pv: "valid_slot a" if "a \<in> set (path ib)" "ib < max_blocks" for a ib
    using that by (auto simp: path_def max_blocks_def less_mult_imp_div_less split: if_splits)
  have h: "holes s' d (path ib) = holes s dir (path ib)" if "ib < max_blocks" for ib
    unfolding holes_def by (rule filter_cong) (use P pv that in auto)
  have ib: "i_size dir div 1024 < max_blocks" using C by (simp add: less_mult_imp_div_less)
  show "new_places s' d d' = new_places s dir d'" by (simp add: new_places_def d h [OF ib])
  have ok: "block_ok s x \<Longrightarrow> block_ok s' x" for x
    using u by (simp add: block_ok_def same_geometry_sizes [OF g])
  have "imap_wf s' d" using C ok by (simp add: imap_wf_def P)
  moreover have "bmap s' d jb \<noteq> 0" if "jb * 1024 < i_size dir" for jb
  proof -
    have "jb < max_blocks" using that C by simp
    from P [OF valid_slot_of [OF this]] that C show ?thesis by (simp add: bmap_def dir_mapped_def)
  qed
  ultimately show "can_grow K s' d"
    using C wf f d by (simp add: can_grow_def ready_def dir_mapped_def same_readable [OF g] same_in_table [OF g] h [OF ib])
qed

text \<open>Everything a creation needs to succeed with inode number \<open>n\<close>.\<close>

definition can_create :: "'v vfs_scheme \<Rightarrow> nat \<Rightarrow> u8 list \<Rightarrow> inode \<Rightarrow> pages \<Rightarrow> lkfs \<Rightarrow> bool" where
  "can_create K n name dir pg s \<longleftrightarrow> fs_wf s \<and> bits_spec K \<and> readable K s \<and> new_inode_spec K
     \<and> k_insert_inode_ok K n \<and> lowest_free_ino s n \<and> n < inodes_count s \<and> in_table s n
     \<and> io_ok K n \<and> io_ok K (i_ino dir) \<and> dir_wf dir pg \<and> in_reach dir \<and> can_grow K s dir \<and> used_ino s (i_ino dir)
     \<and> name \<noteq> [] \<and> length name < 256 \<and> map_of (dir_list dir pg) name = None"

lemma create_run:
  assumes c: "can_create K n name dir pg s"
  shows "\<exists>nd dir' pg' s' xs ys. lkfs_create K bh name mode dir pg s = Inr (0, Some nd, dir', pg', s')
    \<and> i_ino nd = n \<and> i_nlink nd = 1 \<and> i_size nd = 0 \<and> fs_wf s'
    \<and> same_geometry s s' \<and> s_free_inodes_count (es s') = s_free_inodes_count (es s) - 1
    \<and> (\<forall>k. used_ino s' k \<longleftrightarrow> k = n \<or> used_ino s k)
    \<and> s_free_blocks_count (es s') = s_free_blocks_count (es s) - of_nat (length (new_places s dir dir'))
    \<and> (\<forall>x. used_block s' x \<longleftrightarrow> used_block s x \<or> x \<in> (\<lambda>a. unat (ptr_of s' dir' a)) ` set (new_places s dir dir'))
    \<and> (\<forall>a \<in> set (new_places s dir dir'). \<not> used_block s (unat (ptr_of s' dir' a)))
    \<and> imap_wf s' dir' \<and> dir_mapped s' dir'
    \<and> dir_wf dir' pg' \<and> in_reach dir' \<and> i_ino dir' = i_ino dir
    \<and> dir_list dir pg = xs @ ys \<and> dir_list dir' pg' = xs @ (name, of_nat n) # ys
    \<and> i_mode nd AND 0xF000 = mode AND 0xF000 \<and> i_ops nd = FileOps
    \<and> (\<forall>fresh. k_iget_locked K n = Some (True, fresh) \<longrightarrow>
         (\<exists>r. lkfs_iget K s' n = Ptr r \<and> i_mode r = i_mode nd \<and> i_size r = 0 \<and> i_nlink r = 1
            \<and> (\<forall>k < 23. i_data r k = 0)))"
proof -
  note A = c [unfolded can_create_def]
  obtain nd0 s1 where ni: "lkfs_new_inode K bh dir mode s = Inr (Ptr nd0, s1)" "i_ino nd0 = n" "i_size nd0 = 0"
    "i_nlink nd0 = 1" "i_data nd0 = (\<lambda>_. 0)" "i_mode nd0 AND 0xF000 = mode AND 0xF000" "fs_wf s1"
    "same_geometry s s1" "used_block s1 = used_block s" "\<forall>k. used_ino s1 k \<longleftrightarrow> k = n \<or> used_ino s k"
    "s_free_inodes_count (es s1) = s_free_inodes_count (es s) - 1"
    "s_free_blocks_count (es s1) = s_free_blocks_count (es s)" "\<forall>x \<ge> data_start s. bufs s1 x = bufs s x"
    using new_inode_effect [of s K n bh dir mode] A by auto
  let ?nd = "nd0\<lparr>i_ops := FileOps\<rparr>"
  have t: "in_table s1 (i_ino ?nd)" "readable K s1" "k_sync_writes K (i_ino ?nd)"
    using A same_in_table [OF ni(8)] same_readable [OF ni(8), where K = K] ni(2) by (simp_all add: io_ok_def)
  obtain s2 where sd: "sync_to_disk K ?nd s1 = (written_back ?nd, s2)" "fs_wf s2" "es s2 = es s1"
    "used_block s2 = used_block s1" "used_ino s2 = used_ino s1" "same_geometry s1 s2"
    "bufs s2 (ino_block s1 n) = write_raw ?nd (ino_off n) (bufs s1 (ino_block s1 n))"
    "\<forall>x \<ge> data_start s1. bufs s2 x = bufs s1 x"
    using sync_to_disk_effect [OF ni(7) t] ni(2) by auto
  have g: "same_geometry s s2" by (rule same_geometry_trans [OF ni(8) sd(6)])
  have n1: "1 \<le> n" "n < 8192 * length (s_sib s)" using A by (auto simp: in_table_def lowest_free_ino_def)
  have w: "unat (of_nat n :: u32) = n" "(of_nat n :: u32) \<noteq> 0" using ino_word [of s n] A n1 by blast+
  have ne: "n \<noteq> i_ino dir" using A by (auto simp: lowest_free_ino_def)
  have fb: "free_blocks s2 = free_blocks s"
    using sd(4) ni(9) same_geometry_sizes(1) [OF g] by (simp add: free_blocks_def)
  have cg: "can_grow K s dir" using A by blast
  have bufs2: "bufs s2 x = bufs s x" if "data_start s \<le> x" for x
    using that ni(13) sd(8) same_geometry_sizes(3) [OF ni(8)] by simp
  have fits: "length (holes s dir (path (i_size dir div 1024))) \<le> free_blocks s2"
    using cg fb by (simp add: can_grow_def)
  note CT = can_grow_transfer [OF cg sd(2) g bufs2 _ fits refl refl refl]
  have u2: "used_block s2 = used_block s" using sd(4) ni(9) by simp
  have cg2: "can_grow K s2 dir" and np: "new_places s2 dir d = new_places s dir d" for d
    using CT(1,3) u2 by simp_all
  have "add_ok K (name, of_nat (i_ino (written_back ?nd))) dir pg s2 (lkfs_add_link K name (written_back ?nd) dir pg s2)"
    by (rule add_link_ok [OF _ _ _ _ _ _ _ cg2]) (use A w ni(2) in \<open>simp_all add: io_ok_def\<close>)
  then obtain err dir' pg' s' xs ys where al: "lkfs_add_link K name (written_back ?nd) dir pg s2 = Inr (err, dir', pg', s')"
    "err = k_sync_error K (i_ino dir)" "dir_wf dir' pg'" "i_ino dir' = i_ino dir" "in_reach dir'"
    "dir_list dir pg = xs @ ys" "dir_list dir' pg' = xs @ (name, of_nat n) # ys"
    and vg: "grows s2 dir (new_places s dir dir') s' dir'" "dir_mapped s' dir'"
    using A ni(2) unfolding add_ok_def io_ok_def np by auto
  note G = growsD [OF vg(1)]
  have run: "lkfs_create K bh name mode dir pg s = Inr (0, Some (written_back ?nd), dir', pg', s')"
    using ni(1) sd(1) al(1,2) A
    by (simp add: lkfs_create_def lkfs_add_nondir_def Let_def io_ok_def)
  have g': "same_geometry s s'" by (rule same_geometry_trans [OF g G(3)])
  have rd: "\<exists>r. lkfs_iget K s' n = Ptr r \<and> i_mode r = i_mode nd0 \<and> i_size r = 0 \<and> i_nlink r = 1
      \<and> (\<forall>k < 23. i_data r k = 0)" if "k_iget_locked K n = Some (True, fresh)" for fresh
  proof -
    have b: "ino_block s' n = ino_block s1 n" "ino_block s2 n = ino_block s1 n"
      using same_in_table [OF sd(6)] same_in_table [OF G(3)] by simp_all
    have "k_bread_ok K (ino_block s1 n)"
      using t(1,2) in_table_block(2) [of s1 n] fs_wfD(10) [OF ni(7)] ni(2) by (simp add: readable_def)
    then have "lkfs_iget K s' n = Ptr (read_raw (bufs s' (ino_block s1 n)) (ino_off n) fresh)"
      using that b n1(1) by (simp add: lkfs_iget_def get_inode_eq)
    moreover have "in_table s2 n" using A same_in_table [OF g] by simp
    then have "load_inode (bufs s' (ino_block s1 n)) (ino_off n) = load_inode (bufs s2 (ino_block s1 n)) (ino_off n)"
      using G(12) [of n] ne b by simp
    ultimately show ?thesis
      unfolding read_raw_load sd(7) load_write_raw using ni(3-5) by (simp add: Let_def disk_inode_def load_write_raw sd(7))
  qed
  have cnt: "s_free_inodes_count (es s') = s_free_inodes_count (es s) - 1"
    "s_free_blocks_count (es s') = s_free_blocks_count (es s) - of_nat (length (new_places s dir dir'))"
    using G(6) sd(3) ni(11,12) by simp_all
  show ?thesis
    using run ni(2-6,10) sd(5) g' al(3-7) rd cnt G(1,2,4,8,9) vg(2) u2
    by (intro exI [of _ "written_back ?nd"] exI [of _ dir'] exI [of _ pg'] exI [of _ s'] exI [of _ xs] exI [of _ ys])
       (simp add: written_back_def)
qed

end
