(* ===== verification/Namei_Props.thy ===== *)
theory Namei_Props
  imports Namei
begin

text \<open>
  The properties of \<open>Namei\<close>: creating, looking up, making directories and unlinking, end to end
  over the allocator, the inode table and the directory.
\<close>

section \<open>Helpers\<close>

lemma lookup_effect:
  assumes "dir_wf dir pg" "io_ok K (i_ino dir)" "in_reach dir" "length name < 256"
    "map_of (dir_list dir pg) name = Some (of_nat n)" "unat (of_nat n :: u32) = n" "(of_nat n :: u32) \<noteq> 0"
    "lkfs_iget K s n = Ptr r"
  shows "lkfs_lookup K dir name pg s = Ptr (Some r)"
proof -
  have "\<forall>n. k_get_page_error K (i_ino dir) n = 0" using assms(2) by (simp add: io_ok_def)
  from inode_by_name_list [OF assms(1) this assms(3), of name]
  have "lkfs_inode_by_name K dir name pg = of_nat n" by (simp add: assms(5))
  then show ?thesis using assms(4,6-8) by (simp add: lkfs_lookup_def LKFS_NAME_LEN_def Let_def)
qed

lemma insert_unique:
  assumes "xs @ (a, v) # ys = us @ (a, w) # vs" "a \<notin> fst ` set (us @ vs)"
  shows "xs @ ys = us @ vs"
proof -
  have "a \<notin> fst ` set us" "a \<notin> fst ` set vs" using assms(2) by auto
  with assms(1) show ?thesis
  proof (induction us arbitrary: xs)
    case Nil
    show ?case
    proof (cases xs)
      case (Cons x xs')
      with Nil have "(a, v) \<in> set vs" by auto
      with Nil.prems(3) show ?thesis by force
    qed (use Nil in simp)
  next
    case (Cons u us)
    show ?case
    proof (cases xs)
      case Nil
      with Cons.prems show ?thesis by auto
    next
      case (Cons x xs')
      with Cons.prems Cons.IH [of xs'] show ?thesis by auto
    qed
  qed
qed

lemma set_i_data_sel [simp]: "i_nlink (set_i_data k v nd) = i_nlink nd" "i_ino (set_i_data k v nd) = i_ino nd"
  by (simp_all add: set_i_data_def)

lemma get_block_keeps:
  "lkfs_get_block K nd ib z s = Inr (err, w, b, nd', s') \<Longrightarrow> i_nlink nd' = i_nlink nd \<and> i_ino nd' = i_ino nd"
  by (auto simp: lkfs_get_block_def lkfs_get_blocks_def get_direct_def get_indirect_def get_dindirect_def
      rbind_eq_Inr Let_def split: if_splits)

lemma map_blocks_keeps: "map_blocks K c ib nd s = Inr (err, nd', s') \<Longrightarrow> i_nlink nd' = i_nlink nd \<and> i_ino nd' = i_ino nd"
proof (induction c arbitrary: ib nd s)
  case (Suc c)
  then show ?case by (fastforce simp: rbind_eq_Inr split: if_splits dest: get_block_keeps)
qed simp

lemma write_begin_keeps:
  "lkfs_write_begin K nd pos len s = Inr (err, nd', s') \<Longrightarrow> i_nlink nd' = i_nlink nd \<and> i_ino nd' = i_ino nd"
  by (auto simp: lkfs_write_begin_def rbind_eq_Inr split: if_splits dest!: map_blocks_keeps)

lemma add_link_keeps:
  "add_link_from K name ino n c dir pg s = Inr (err, dir', pg', s') \<Longrightarrow>
     i_nlink dir' = i_nlink dir \<and> i_ino dir' = i_ino dir"
proof (induction c arbitrary: n)
  case (Suc c)
  then show ?case
    by (auto simp: Let_def split_beta rbind_eq_Inr dest: write_begin_keeps split: if_splits add_result.splits)
qed simp

text \<open>The link count plays no part in the layout of a directory.\<close>

lemma inc_link_cong:
  "dir_wf (inc_link dir) pg = dir_wf dir pg" "dir_list (inc_link dir) pg = dir_list dir pg"
  "in_reach (inc_link dir) = in_reach dir"
  by (simp_all add: dir_wf_def dir_list_def in_reach_def inc_link_def dir_pages_def lkfs_last_byte_def Let_def)

section \<open>Properties\<close>

text \<open>C30: creating a file under a new name returns a regular-file inode with the lowest free number and
  one link, claims exactly that number, inserts exactly that entry in the parent, and
  leaves on disk an inode that a later lookup of the name reads back: same mode, size 0, one link,
  no blocks. No block changes hands unless the parent grows; then exactly the free blocks it fills
  the places of its next chunk with become used, and the free counter goes down by their number.\<close>

theorem create_correct:
  assumes "can_create K n name dir pg s" "k_iget_locked K n = Some (True, fresh)"
  shows "\<exists>nd dir' pg' s' xs ys r. lkfs_create K bh name mode dir pg s = Inr (0, Some nd, dir', pg', s')
    \<and> i_ino nd = n \<and> i_nlink nd = 1 \<and> i_ops nd = FileOps \<and> fs_wf s' \<and> imap_wf s' dir' \<and> dir_mapped s' dir'
    \<and> (\<forall>x. used_block s' x \<longleftrightarrow> used_block s x \<or> (\<exists>a \<in> set (new_places s dir dir'). x = unat (ptr_of s' dir' a)))
    \<and> (\<forall>a \<in> set (new_places s dir dir'). \<not> used_block s (unat (ptr_of s' dir' a)))
    \<and> s_free_blocks_count (es s') = s_free_blocks_count (es s) - of_nat (length (new_places s dir dir'))
    \<and> (\<forall>k. used_ino s' k \<longleftrightarrow> k = n \<or> used_ino s k)
    \<and> dir_wf dir' pg' \<and> dir_list dir pg = xs @ ys \<and> dir_list dir' pg' = xs @ (name, of_nat n) # ys
    \<and> lkfs_lookup K dir' name pg' s' = Ptr (Some r)
    \<and> i_mode r = i_mode nd \<and> i_size r = 0 \<and> i_nlink r = 1 \<and> (\<forall>k < 23. i_data r k = 0)"
proof -
  note A = assms(1) [unfolded can_create_def]
  obtain nd dir' pg' s' xs ys where c: "lkfs_create K bh name mode dir pg s = Inr (0, Some nd, dir', pg', s')"
    "i_ino nd = n" "i_nlink nd = 1" "i_size nd = 0" "fs_wf s'" "same_geometry s s'"
    "s_free_inodes_count (es s') = s_free_inodes_count (es s) - 1"
    "\<forall>k. used_ino s' k \<longleftrightarrow> k = n \<or> used_ino s k"
    "s_free_blocks_count (es s') = s_free_blocks_count (es s) - of_nat (length (new_places s dir dir'))"
    "\<forall>x. used_block s' x \<longleftrightarrow> used_block s x \<or> x \<in> (\<lambda>a. unat (ptr_of s' dir' a)) ` set (new_places s dir dir')"
    "\<forall>a \<in> set (new_places s dir dir'). \<not> used_block s (unat (ptr_of s' dir' a))"
    "imap_wf s' dir'" "dir_mapped s' dir'" "dir_wf dir' pg'" "in_reach dir'" "i_ino dir' = i_ino dir"
    "dir_list dir pg = xs @ ys" "dir_list dir' pg' = xs @ (name, of_nat n) # ys" "i_ops nd = FileOps"
    and rd: "\<forall>fresh. k_iget_locked K n = Some (True, fresh) \<longrightarrow>
         (\<exists>r. lkfs_iget K s' n = Ptr r \<and> i_mode r = i_mode nd \<and> i_size r = 0 \<and> i_nlink r = 1
            \<and> (\<forall>k < 23. i_data r k = 0))"
    using create_run [OF assms(1), of bh mode] by (elim exE conjE) (rule that; assumption)
  obtain r where r: "lkfs_iget K s' n = Ptr r" "i_mode r = i_mode nd" "i_size r = 0" "i_nlink r = 1" "\<forall>k < 23. i_data r k = 0"
    using rd assms(2) by blast
  have "1 \<le> n" "n < 8192 * length (s_sib s)" using A by (auto simp: in_table_def lowest_free_ino_def)
  then have w: "unat (of_nat n :: u32) = n" "(of_nat n :: u32) \<noteq> 0" using ino_word [of s n] A by blast+
  have io: "io_ok K (i_ino dir')" using A c(16) by simp
  have m: "map_of (dir_list dir' pg') name = Some (of_nat n)"
    using map_of_insert [of xs ys name "of_nat n" name] A c(17,18) by simp
  have len: "length name < 256" using A by blast
  have u: "\<forall>x. used_block s' x \<longleftrightarrow> used_block s x \<or> (\<exists>a \<in> set (new_places s dir dir'). x = unat (ptr_of s' dir' a))"
    using c(10) by (simp add: image_iff)
  show ?thesis
    by (intro exI [of _ nd] exI [of _ dir'] exI [of _ pg'] exI [of _ s'] exI [of _ xs] exI [of _ ys] exI [of _ r]
        conjI u lookup_effect [OF c(14) io c(15) len m w r(1)] c r)
qed

lemma sample_can_create: "can_create plain_vfs 11 [97] (fst sample_dir) (snd sample_dir) sample_vol"
  unfolding can_create_def
  using sample_dir_facts plain_vfs_bits plain_vfs_new_inode plain_vfs_io sample_vol_facts by simp

theorem create_correct_witness:
  "\<exists>nd dir' pg' s' r. lkfs_create plain_vfs None [97] 0x81A4 (fst sample_dir) (snd sample_dir) sample_vol
     = Inr (0, Some nd, dir', pg', s') \<and> i_ino nd = 11
     \<and> lkfs_lookup plain_vfs dir' [97] pg' s' = Ptr (Some r) \<and> i_size r = 0"
  using create_correct [OF sample_can_create, where fresh = "blank_inode\<lparr>i_ino := 11\<rparr>" and bh = None and mode = "0x81A4"]
  by fastforce

text \<open>C5: creating a file, unlinking it and dropping the last reference restores the parent's entries,
  the used inode numbers and the free inode counter. The used blocks and the free block counter are
  what they were too, unless the parent grew for the entry: then it keeps exactly the blocks it
  filled the places of its new chunk with, blocks that were free before.\<close>

theorem create_unlink_roundtrip:
  assumes "can_create K n name dir pg s"
  shows "\<exists>nd dir' pg' s' nd2 dir2 pg2 nd3 s3.
    lkfs_create K bh name mode dir pg s = Inr (0, Some nd, dir', pg', s')
    \<and> lkfs_unlink K name nd dir' pg' = Inr (0, nd2, dir2, pg2) \<and> i_nlink nd2 = 0
    \<and> iput K bh nd2 s' = Inr (nd3, s3) \<and> fs_wf s3 \<and> dir_wf dir2 pg2
    \<and> dir_list dir2 pg2 = dir_list dir pg \<and> used_ino s3 = used_ino s
    \<and> s_free_inodes_count (es s3) = s_free_inodes_count (es s)
    \<and> (i_size dir' = i_size dir \<longrightarrow>
         used_block s3 = used_block s \<and> s_free_blocks_count (es s3) = s_free_blocks_count (es s))
    \<and> (\<forall>x. used_block s3 x \<longleftrightarrow> used_block s x \<or> (\<exists>a \<in> set (new_places s dir dir'). x = unat (ptr_of s' dir' a)))
    \<and> (\<forall>a \<in> set (new_places s dir dir'). \<not> used_block s (unat (ptr_of s' dir' a)))
    \<and> s_free_blocks_count (es s3) = s_free_blocks_count (es s) - of_nat (length (new_places s dir dir'))"
proof -
  note A = assms(1) [unfolded can_create_def]
  obtain nd dir' pg' s' xs ys where c: "lkfs_create K bh name mode dir pg s = Inr (0, Some nd, dir', pg', s')"
    "i_ino nd = n" "i_nlink nd = 1" "i_size nd = 0" "fs_wf s'" "same_geometry s s'"
    "s_free_inodes_count (es s') = s_free_inodes_count (es s) - 1"
    "\<forall>k. used_ino s' k \<longleftrightarrow> k = n \<or> used_ino s k"
    "s_free_blocks_count (es s') = s_free_blocks_count (es s) - of_nat (length (new_places s dir dir'))"
    "\<forall>x. used_block s' x \<longleftrightarrow> used_block s x \<or> x \<in> (\<lambda>a. unat (ptr_of s' dir' a)) ` set (new_places s dir dir')"
    "\<forall>a \<in> set (new_places s dir dir'). \<not> used_block s (unat (ptr_of s' dir' a))"
    "imap_wf s' dir'" "dir_mapped s' dir'" "dir_wf dir' pg'" "in_reach dir'" "i_ino dir' = i_ino dir"
    "dir_list dir pg = xs @ ys" "dir_list dir' pg' = xs @ (name, of_nat n) # ys" "i_ops nd = FileOps"
    using create_run [OF assms(1), of bh mode] by (elim exE conjE) (rule that; assumption)
  have io: "io_ok K (i_ino dir')" using A c(16) by simp
  then have io': "\<forall>n. k_get_page_error K (i_ino dir') n = 0" "\<forall>p l. k_write_begin_error K (i_ino dir') p l = 0"
    by (simp_all add: io_ok_def write_begin_ok_def)
  have nm: "name \<notin> fst ` set (dir_list dir pg)" using A by (simp add: map_of_eq_None_iff)
  have "map_of (dir_list dir' pg') name = Some (of_nat n)"
    using map_of_insert [of xs ys name "of_nat n" name] A c(17,18) by simp
  with find_entry_list(1) [OF c(14) io'(1) c(15), of name]
  obtain k d where fe: "lkfs_find_entry K dir' name pg' = Some (k, d)" "de_inode (pg' k) d = of_nat n"
    by (cases "lkfs_find_entry K dir' name pg'") auto
  from find_entry_list(2) [OF c(14) io'(1) c(15) fe(1)] have f: "k < dir_pages dir'"
    "d \<in> set (offs (pg' k) 0 (lkfs_last_byte dir' k))" "lkfs_match name (pg' k) d" by blast+
  obtain err dir2 pg2 us vs where e: "lkfs_delete_entry K k d dir' pg' = Inr (err, dir2, pg2)" "err = 0"
    "dir_wf dir2 pg2" "dir_list dir' pg' = us @ (name, of_nat n) # vs" "dir_list dir2 pg2 = us @ vs"
    using delete_entry_list [OF c(14) f io'(2)] io fe(2) by (auto simp: io_ok_def)
  have "us @ vs = xs @ ys"
    by (rule insert_unique [of us name "of_nat n" vs xs "of_nat n" ys]) (use e(4) c(17,18) nm in auto)
  then have l2: "dir_list dir2 pg2 = dir_list dir pg" using e(5) c(17) by simp
  let ?nd2 = "dec_link (nd\<lparr>i_ctime := i_ctime dir2\<rparr>)"
  have ul: "lkfs_unlink K name nd dir' pg' = Inr (0, ?nd2, dir2, pg2)"
    using fe(1) e(1,2) by (simp add: lkfs_unlink_def)
  have z: "i_nlink ?nd2 = 0" "i_size ?nd2 = 0" "i_ino ?nd2 = n" using c(2-4) by (simp_all add: dec_link_def)
  have t: "in_table s' (i_ino ?nd2)" "readable K s'" "i_ino ?nd2 < 8192 * length (s_sib s')"
    using A same_in_table [OF c(6)] same_readable [OF c(6), where K = K] same_geometry_sizes(5) [OF c(6)] z(3)
    by (simp_all add: lowest_free_ino_def)
  have K: "bits_spec K" using A by blast
  obtain nd3 s3 where d: "lkfs_delete_inode K False bh ?nd2 s' = Inr (nd3, s3)" "fs_wf s3"
    "used_block s3 = used_block s'" "s_free_blocks_count (es s3) = s_free_blocks_count (es s')"
    "s_free_inodes_count (es s3) = s_free_inodes_count (es s') + 1"
    "\<forall>k. used_ino s3 k \<longleftrightarrow> k \<noteq> i_ino ?nd2 \<and> used_ino s' k"
    using delete_empty [OF c(5) t z(2) K, of bh] by blast
  have ui: "used_ino s3 = used_ino s"
    using d(6) c(8) z(3) A by (auto simp: fun_eq_iff lowest_free_ino_def)
  have u: "\<forall>x. used_block s3 x \<longleftrightarrow> used_block s x \<or> (\<exists>a \<in> set (new_places s dir dir'). x = unat (ptr_of s' dir' a))"
    using c(10) d(3) by (simp add: image_iff)
  have ct: "s_free_blocks_count (es s3) = s_free_blocks_count (es s) - of_nat (length (new_places s dir dir'))"
    "s_free_inodes_count (es s3) = s_free_inodes_count (es s)" using d(4,5) c(9,7) by simp_all
  have np: "i_size dir' = i_size dir \<longrightarrow> used_block s3 = used_block s \<and> s_free_blocks_count (es s3) = s_free_blocks_count (es s)"
    using u ct(1) by (simp add: fun_eq_iff new_places_def)
  have ip: "iput K bh ?nd2 s' = Inr (nd3, s3)" using d(1) z(1) by (simp add: iput_def)
  show ?thesis
    by (intro exI [of _ nd] exI [of _ dir'] exI [of _ pg'] exI [of _ s'] exI [of _ ?nd2] exI [of _ dir2]
        exI [of _ pg2] exI [of _ nd3] exI [of _ s3] conjI c(1) ul z(1) ip d(2) e(3) l2 ui ct np u c(11))
qed

theorem create_unlink_roundtrip_witness:
  "\<exists>nd dir' pg' s' nd2 dir2 pg2. lkfs_create plain_vfs None [97] 0x81A4 (fst sample_dir) (snd sample_dir) sample_vol
     = Inr (0, Some nd, dir', pg', s') \<and> lkfs_unlink plain_vfs [97] nd dir' pg' = Inr (0, nd2, dir2, pg2)
     \<and> dir_list dir2 pg2 = [([46], 7), ([46, 46], 2)]"
  using create_unlink_roundtrip [OF sample_can_create, where bh = None and mode = "0x81A4"] sample_dir_facts(2) by fastforce

text \<open>when no inode number is free, \<open>lkfs_new_inode\<close> returns \<open>ERR_PTR\<close> of an indeterminate local; if
  that local happens to be 0 (or any other number that is not an error code), \<open>lkfs_create\<close> and
  \<open>lkfs_mkdir\<close> take it for a valid inode and dereference it.\<close>

lemma create_exhausted_crashes:
  assumes "fs_wf s" "bits_spec K" "readable K s" "k_new_inode K = Some base"
    and "\<And>n. n < inodes_count s \<Longrightarrow> used_ino s n" "in_table s (i_ino base)" "i_ino base < inodes_count s"
    and "i_size base = 0" "k_garbage K = 0"
  shows "lkfs_create K bh name mode dir pg s = Inl NullDeref
    \<and> (i_nlink dir < 32000 \<longrightarrow> lkfs_mkdir K bh name mode dir pg npg s = Inl NullDeref)"
proof -
  have "\<exists>s'. lkfs_new_inode K bh d m s = Inr (Raw 0, s')" for d m
    using new_inode_exhausted_frees [OF assms(1-4) _ assms(6-8), of bh d m] assms(5,9) by (auto simp: ERR_PTR_def)
  then obtain t where "lkfs_new_inode K bh d m s = Inr (Raw 0, t d m)" for d m by metis
  then show ?thesis by (simp add: lkfs_create_def lkfs_mkdir_def Let_def not_less not_le)
qed

theorem create_exhausted_crashes_witness:
  "lkfs_create (plain_vfs\<lparr>k_new_inode := Some (blank_inode\<lparr>i_ino := 7\<rparr>)\<rparr>) None [97] 0x81A4 (fst sample_dir) (snd sample_dir)
     (sample_fs 9 32) = Inl NullDeref"
  by (rule create_exhausted_crashes [OF sample_fs_wf, THEN conjunct1])
     (use plain_vfs_bits in \<open>auto simp: bits_spec_def readable_def in_table_def es_sample sample_super_def\<close>)

text \<open>whenever \<open>lkfs_mkdir\<close> returns without a new directory, for whatever reason, the parent has the
  link count and number it had before; with 32000 links or more it fails with \<open>-EMLINK\<close> and
  changes nothing.\<close>

lemma mkdir_failure_restores_parent:
  assumes "lkfs_mkdir K bh name mode dir pg npg s = Inr (err, None, dir', pg', s')"
  shows "i_nlink dir' = i_nlink dir \<and> i_ino dir' = i_ino dir
    \<and> (i_nlink dir \<ge> 32000 \<longrightarrow> err = - EMLINK \<and> dir' = dir \<and> pg' = pg \<and> s' = s)"
proof (cases "i_nlink dir \<ge> 32000")
  case True
  with assms show ?thesis by (simp add: lkfs_mkdir_def)
next
  case False
  have k: "i_nlink d = i_nlink dir + 1 \<and> i_ino d = i_ino dir"
    if "lkfs_add_link K name nd (inc_link dir) pg t = Inr (e, d, p, t')" for nd e d p t t'
    using add_link_keeps [OF that [unfolded lkfs_add_link_def]] by (simp add: inc_link_def)
  have i: "i_nlink (dec_link (inc_link dir)) = i_nlink dir" "i_ino (dec_link (inc_link dir)) = i_ino dir"
    by (simp_all add: inc_link_def dec_link_def)
  have "i_nlink dir' = i_nlink dir \<and> i_ino dir' = i_ino dir"
    using assms False
    by (auto simp: lkfs_mkdir_def Let_def rbind_eq_Inr split_beta i split: if_splits dest!: k)
       (simp_all add: dec_link_def)
  with False show ?thesis by simp
qed

theorem mkdir_failure_restores_parent_witness:
  "\<exists>dir' pg' s'. lkfs_mkdir (plain_vfs\<lparr>k_new_inode := None\<rparr>) None [97] 0x1ED (fst sample_dir) (snd sample_dir)
      (\<lambda>_. zero_mem) (sample_fs 9 11) = Inr (- ENOMEM, None, dir', pg', s')
    \<and> i_nlink dir' = i_nlink (fst sample_dir)"
proof -
  have "\<not> (32000 :: u32) \<le> 1" by (simp add: word_le_nat_alt)
  then have "lkfs_mkdir (plain_vfs\<lparr>k_new_inode := None\<rparr>) None [97] 0x1ED (fst sample_dir) (snd sample_dir)
      (\<lambda>_. zero_mem) (sample_fs 9 11) = Inr (- ENOMEM, None, dec_link (inc_link (fst sample_dir)), snd sample_dir, sample_fs 9 11)"
    using sample_dir_facts(6) by (simp add: lkfs_mkdir_def lkfs_new_inode_def new_inode_claim_def Let_def ERR_PTR_def ENOMEM_def)
  with conjunct1 [OF mkdir_failure_restores_parent [OF this]] show ?thesis by blast
qed

text \<open>C37: \<open>lkfs_mkdir\<close> under a new name, with fewer than 32000 links on the parent, succeeds: the new
  directory has the lowest free inode number, two links, exactly the entries \<open>.\<close> and \<open>..\<close> and a block
  of its own that was free; the parent has one link and exactly that entry more, and a lookup of the
  name answers the new number. One inode number is claimed, and beside the block of the new directory
  exactly those the parent needs if it grows; the free counter goes down by their number.\<close>

theorem mkdir_correct:
  assumes "can_create K n name dir pg s" "i_nlink dir < 32000" "(of_nat (i_ino dir) :: u32) \<noteq> 0"
    "Suc (length (holes s dir (path (i_size dir div 1024)))) \<le> free_blocks s"
  shows "\<exists>nd npg' dir' pg' s' xs ys.
    lkfs_mkdir K bh name mode dir pg npg s = Inr (0, Some (nd, npg'), dir', pg', s')
    \<and> i_ino nd = n \<and> i_nlink nd = 2 \<and> i_ops nd = DirOps \<and> dir_wf nd npg'
    \<and> dir_list nd npg' = [([46], of_nat n), ([46, 46], of_nat (i_ino dir))]
    \<and> i_nlink dir' = i_nlink dir + 1 \<and> dir_wf dir' pg' \<and> dir_list dir pg = xs @ ys
    \<and> dir_list dir' pg' = xs @ (name, of_nat n) # ys \<and> lkfs_inode_by_name K dir' name pg' = of_nat n
    \<and> fs_wf s' \<and> imap_wf s' dir' \<and> (\<forall>k. used_ino s' k \<longleftrightarrow> k = n \<or> used_ino s k)
    \<and> i_data nd 0 \<noteq> 0 \<and> \<not> used_block s (unat (i_data nd 0))
    \<and> (\<forall>a \<in> set (new_places s dir dir').
         \<not> used_block s (unat (ptr_of s' dir' a)) \<and> unat (ptr_of s' dir' a) \<noteq> unat (i_data nd 0))
    \<and> (\<forall>x. used_block s' x \<longleftrightarrow> used_block s x \<or> x = unat (i_data nd 0)
         \<or> (\<exists>a \<in> set (new_places s dir dir'). x = unat (ptr_of s' dir' a)))
    \<and> s_free_blocks_count (es s') = s_free_blocks_count (es s) - 1 - of_nat (length (new_places s dir dir'))"
proof -
  note A = assms(1) [unfolded can_create_def]
  let ?dir = "inc_link dir"
  have D: "i_size ?dir = i_size dir" "i_ino ?dir = i_ino dir" "i_data ?dir = i_data dir" by (simp_all add: inc_link_def)
  have same: "dir_wf ?dir pg = dir_wf dir pg" "dir_list ?dir pg = dir_list dir pg" "in_reach ?dir = in_reach dir"
    by (simp_all add: inc_link_cong)
  have cg: "can_grow K s dir" using A by blast
  obtain nd0 s1 where ni: "lkfs_new_inode K bh ?dir (0x4000 OR mode) s = Inr (Ptr nd0, s1)" "i_ino nd0 = n"
    "i_size nd0 = 0" "i_nlink nd0 = 1" "i_data nd0 = (\<lambda>_. 0)" "fs_wf s1" "same_geometry s s1" "used_block s1 = used_block s"
    "\<forall>k. used_ino s1 k \<longleftrightarrow> k = n \<or> used_ino s k"
    "s_free_blocks_count (es s1) = s_free_blocks_count (es s)" "\<forall>x \<ge> data_start s. bufs s1 x = bufs s x"
    using new_inode_effect [of s K n bh ?dir "0x4000 OR mode"] A by auto
  let ?nd = "inc_link (nd0\<lparr>i_ops := DirOps\<rparr>)"
  have N: "i_ino ?nd = n" "i_size ?nd = 0" "i_nlink ?nd = 2" "i_ops ?nd = DirOps" "i_data ?nd = (\<lambda>_. 0)"
    using ni(2-5) by (simp_all add: inc_link_def)
  have "1 \<le> n" "n < 8192 * length (s_sib s)" using A by (auto simp: in_table_def lowest_free_ino_def)
  then have w: "unat (of_nat n :: u32) = n" "(of_nat n :: u32) \<noteq> 0" using ino_word [of s n] A by blast+
  have fb: "free_blocks s1 = free_blocks s"
    using ni(8) same_geometry_sizes(1) [OF ni(7)] by (simp add: free_blocks_def)
  have "bits_spec K" "readable K s1" "in_table s1 (i_ino ?nd)" "0 < free_blocks s1"
    using A assms(4) fb N(1) same_in_table [OF ni(7)] same_readable [OF ni(7), where K = K] by simp_all
  note NG = new_can_grow [OF ni(6) this N(2,5)]
  have io: "k_grab_page_ok K (i_ino ?nd)" "write_begin_ok K (i_ino ?nd)" "(of_nat (i_ino ?nd) :: u32) \<noteq> 0"
    "(of_nat (i_ino ?dir) :: u32) \<noteq> 0" "k_write_one_page_error K (i_ino ?nd) 0 = 0" "k_sync_error K (i_ino ?nd) = 0"
    using A w assms(3) D N(1) by (simp_all add: io_ok_def)
  obtain nd npg' s2 where me: "lkfs_make_empty K ?nd ?dir npg s1 = Inr (0, nd, npg', s2)" "dir_wf nd npg'"
    "dir_list nd npg' = [(dot, of_nat n), (dotdot, of_nat (i_ino dir))]" "i_ino nd = n" "i_nlink nd = 2" "i_ops nd = DirOps"
    and g2: "grows s1 ?nd [Dir 0] s2 nd"
    using make_empty_effect [OF io(1,2) NG(1) N(2) io(3,4), of npg] io(5,6) N D NG(3) by fastforce
  note M = growsD [OF g2]
  have gs2: "same_geometry s s2" by (rule same_geometry_trans [OF ni(7) M(3)])
  have bufs2: "bufs s2 x = bufs s x" if "data_start s \<le> x" "used_block s x" for x
    using M(11) [of x] that ni(8,11) NG(2) same_geometry_sizes(3) [OF ni(7)] by simp
  have used2: "used_block s2 x" if "used_block s x" for x using M(8) [of x] that ni(8) by simp
  have "length (holes s dir (path (i_size dir div 1024))) \<le> free_blocks s2" using M(7) fb assms(4) by simp
  note CT = can_grow_transfer [OF cg M(1) gs2 bufs2 used2 this D(3,1,2)]
  have np: "new_places s2 ?dir d = new_places s dir d" for d
    using CT(3) by (simp add: new_places_def D)
  have "add_ok K (name, of_nat (i_ino nd)) ?dir pg s2 (lkfs_add_link K name nd ?dir pg s2)"
    by (rule add_link_ok [OF _ _ _ _ _ _ _ CT(1)]) (use A w me(4) D same in \<open>simp_all add: io_ok_def\<close>)
  then obtain dir' pg' s' xs ys where al: "lkfs_add_link K name nd ?dir pg s2 = Inr (0, dir', pg', s')"
    "dir_wf dir' pg'" "i_ino dir' = i_ino dir" "in_reach dir'"
    "dir_list dir pg = xs @ ys" "dir_list dir' pg' = xs @ (name, of_nat n) # ys"
    and g3: "grows s2 ?dir (new_places s dir dir') s' dir'"
    using A me(4) D same unfolding add_ok_def io_ok_def np by auto
  note G = growsD [OF g3]
  have nl: "i_nlink dir' = i_nlink dir + 1"
    using add_link_keeps [OF al(1) [unfolded lkfs_add_link_def]] by (simp add: inc_link_def)
  have "\<forall>n. k_get_page_error K (i_ino dir') n = 0" using A al(3) by (simp add: io_ok_def)
  from inode_by_name_list [OF al(2) this al(4), of name]
  have look: "lkfs_inode_by_name K dir' name pg' = of_nat n"
    using map_of_insert [of xs ys name "of_nat n" name] A al(5,6) by simp
  have run: "lkfs_mkdir K bh name mode dir pg npg s = Inr (0, Some (nd, npg'), dir', pg', s')"
    using assms(2) ni(1) me(1) al(1) by (simp add: lkfs_mkdir_def Let_def not_le)
  have own: "i_data nd 0 \<noteq> 0" "\<not> used_block s (unat (i_data nd 0))" using M(9) [of "Dir 0"] ni(8) by simp_all
  have u2: "used_block s2 x \<longleftrightarrow> used_block s x \<or> x = unat (i_data nd 0)" for x using M(8) [of x] ni(8) by simp
  have fr: "\<forall>a \<in> set (new_places s dir dir').
      \<not> used_block s (unat (ptr_of s' dir' a)) \<and> unat (ptr_of s' dir' a) \<noteq> unat (i_data nd 0)"
  proof
    fix a assume "a \<in> set (new_places s dir dir')"
    then have "\<not> used_block s2 (unat (ptr_of s' dir' a))" using G(9) by blast
    then show "\<not> used_block s (unat (ptr_of s' dir' a)) \<and> unat (ptr_of s' dir' a) \<noteq> unat (i_data nd 0)" by (simp add: u2)
  qed
  have ub: "\<forall>x. used_block s' x \<longleftrightarrow> used_block s x \<or> x = unat (i_data nd 0)
         \<or> (\<exists>a \<in> set (new_places s dir dir'). x = unat (ptr_of s' dir' a))"
    using G(8) u2 by (auto simp: image_iff)
  have ui: "\<forall>k. used_ino s' k \<longleftrightarrow> k = n \<or> used_ino s k" using G(4) M(4) ni(9) by simp
  have ct: "s_free_blocks_count (es s') = s_free_blocks_count (es s) - 1 - of_nat (length (new_places s dir dir'))"
    using G(6) M(6) ni(10) by simp
  show ?thesis
    by (intro exI [of _ nd] exI [of _ npg'] exI [of _ dir'] exI [of _ pg'] exI [of _ s'] exI [of _ xs] exI [of _ ys]
        conjI run me(2-6) nl al(2,5,6) look G(1,2) ui own fr ub ct)
qed

theorem mkdir_correct_witness:
  "\<exists>nd npg' dir' pg' s'. lkfs_mkdir plain_vfs None [97] 0x1ED (fst sample_dir) (snd sample_dir)
      (\<lambda>_. zero_mem) sample_vol = Inr (0, Some (nd, npg'), dir', pg', s')
    \<and> dir_list nd npg' = [([46], 11), ([46, 46], 7)] \<and> lkfs_inode_by_name plain_vfs dir' [97] pg' = 11"
proof -
  have "i_nlink (fst sample_dir) < 32000" "(of_nat (i_ino (fst sample_dir)) :: u32) \<noteq> 0"
    "Suc (length (holes sample_vol (fst sample_dir) (path (i_size (fst sample_dir) div 1024)))) \<le> free_blocks sample_vol"
    using sample_dir_facts(4,6) sample_vol_facts(4) holes_le [of sample_vol "fst sample_dir" "i_size (fst sample_dir) div 1024"]
    by simp_all
  from mkdir_correct [OF sample_can_create this, where bh = None and mode = "0x1ED" and npg = "\<lambda>_. zero_mem"]
  obtain nd npg' dir' pg' s' where "lkfs_mkdir plain_vfs None [97] 0x1ED (fst sample_dir) (snd sample_dir)
      (\<lambda>_. zero_mem) sample_vol = Inr (0, Some (nd, npg'), dir', pg', s')"
    "dir_list nd npg' = [([46], of_nat 11), ([46, 46], of_nat (i_ino (fst sample_dir)))]"
    "lkfs_inode_by_name plain_vfs dir' [97] pg' = of_nat 11"
    by (elim exE conjE) (rule that; assumption)
  then show ?thesis using sample_dir_facts(4) by (intro exI conjI) (assumption, simp_all)
qed

text \<open>\<open>lkfs_unlink\<close> on a directory within reach fails with \<open>-ENOENT\<close>, changing nothing, exactly when the
  name is not there; otherwise it removes one entry of that name and takes one link from the inode.\<close>

lemma unlink_correct:
  assumes "dir_wf dir pg" "in_reach dir" "io_ok K (i_ino dir)"
  shows "(map_of (dir_list dir pg) name = None \<longrightarrow> lkfs_unlink K name nd dir pg = Inr (- ENOENT, nd, dir, pg))
    \<and> (\<forall>ino. map_of (dir_list dir pg) name = Some ino \<longrightarrow> (\<exists>nd' dir' pg' xs ys.
          lkfs_unlink K name nd dir pg = Inr (0, nd', dir', pg') \<and> i_nlink nd' = i_nlink nd - 1
          \<and> dir_wf dir' pg' \<and> dir_list dir pg = xs @ (name, ino) # ys \<and> dir_list dir' pg' = xs @ ys))"
proof (intro conjI allI impI)
  have io: "\<forall>n. k_get_page_error K (i_ino dir) n = 0" "\<forall>p l. k_write_begin_error K (i_ino dir) p l = 0"
    using assms(3) by (simp_all add: io_ok_def write_begin_ok_def)
  note F = find_entry_list [OF assms(1) io(1) assms(2)]
  show "lkfs_unlink K name nd dir pg = Inr (- ENOENT, nd, dir, pg)" if "map_of (dir_list dir pg) name = None"
    using F(1) [of name] that by (simp add: lkfs_unlink_def split: option.splits)
  fix ino assume m: "map_of (dir_list dir pg) name = Some ino"
  with F(1) [of name] obtain k d where fe: "lkfs_find_entry K dir name pg = Some (k, d)" "de_inode (pg k) d = ino"
    by (cases "lkfs_find_entry K dir name pg") auto
  from F(2) [OF fe(1)] have f: "k < dir_pages dir"
    "d \<in> set (offs (pg k) 0 (lkfs_last_byte dir k))" "lkfs_match name (pg k) d" by blast+
  from delete_entry_list [OF assms(1) f io(2)]
  obtain dir' pg' us vs where e: "lkfs_delete_entry K k d dir pg = Inr (0, dir', pg')"
    "dir_wf dir' pg'" "dir_list dir pg = us @ (name, ino) # vs" "dir_list dir' pg' = us @ vs"
    using assms(3) fe(2) by (auto simp: io_ok_def)
  show "\<exists>nd' dir' pg' xs ys. lkfs_unlink K name nd dir pg = Inr (0, nd', dir', pg') \<and> i_nlink nd' = i_nlink nd - 1
          \<and> dir_wf dir' pg' \<and> dir_list dir pg = xs @ (name, ino) # ys \<and> dir_list dir' pg' = xs @ ys"
    using fe(1) e
    by (intro exI [of _ "dec_link (nd\<lparr>i_ctime := i_ctime dir'\<rparr>)"] exI [of _ dir'] exI [of _ pg']
        exI [of _ us] exI [of _ vs]) (simp add: lkfs_unlink_def dec_link_def)
qed

theorem unlink_correct_witness:
  "\<exists>dir' pg'. lkfs_unlink plain_vfs [98] blank_inode (fst sample_dir) (snd sample_dir)
      = Inr (- ENOENT, blank_inode, dir', pg')"
  using unlink_correct [OF sample_dir_facts(1,5) plain_vfs_io, where name = "[98]" and nd = blank_inode]
  by (simp add: sample_dir_facts(2))

end
