(* ===== verification/Super.thy ===== *)
theory Super
  imports Namei
begin

text \<open>
  Mounting and unmounting, \<open>src/lkfs/super.c\<close>. \<open>disk\<close> is what the device holds, by block; a
  mount starts with an empty buffer cache, so a buffer has the contents of its block. \<open>held\<close> are
  the buffer heads with a reference: \<open>sb_bread\<close> adds one, \<open>brelse\<close> takes one away, so a buffer
  that is still held when the mount is gone is a leak.
\<close>

section \<open>The environment of a mount\<close>

record mount =
  m_kzalloc_ok :: "nat \<Rightarrow> bool"  \<comment> \<open>by call: the info structure, the two arrays of bitmap buffers\<close>
  m_min_blocksize :: nat  \<comment> \<open>\<open>sb_min_blocksize\<close>, 0 on failure\<close>
  m_b_size :: nat  \<comment> \<open>\<open>b_size\<close> of the super block's buffer\<close>
  m_d_alloc_root_ok :: bool

definition plain_mount :: mount where
  "plain_mount = \<lparr>m_kzalloc_ok = (\<lambda>_. True), m_min_blocksize = 1024, m_b_size = 1024,
     m_d_alloc_root_ok = True\<rparr>"

section \<open>The code\<close>

text \<open>Reading \<open>n\<close> bitmap blocks from \<open>b\<close> on; stops at the first that cannot be read.\<close>

fun bread_range :: "'k kernel_scheme \<Rightarrow> nat \<Rightarrow> nat \<Rightarrow> nat list \<times> bool" where
  "bread_range K b 0 = ([], True)"
| "bread_range K b (Suc n) =
     (case sb_bread K b of
        None \<Rightarrow> ([], False)
      | Some h \<Rightarrow> let (hs, ok) = bread_range K (Suc b) n in (h # hs, ok))"

text \<open>Outcome of a mount: the return value, the mounted volume with its root, the buffers held.\<close>

type_synonym mounted = "int \<times> (lkfs \<times> inode) option \<times> nat list"

text \<open>
  After the bitmaps are read: the root inode. \<open>bh\<close> is the indeterminate local that \<open>iput\<close> may
  reach (see \<open>Truncate\<close>). \<open>disk\<close> numbers the blocks by the size that \<open>sb_min_blocksize\<close> has set, which
  is 1024 bytes unless the sectors of the device are larger; such a device mounts too, with blocks of
  which the other theories, written for 1024 bytes, do not speak. The labels \<open>failed_mount2\<close>, \<open>failed_mount\<close> and \<open>failed_sbi\<close> become
  what is still held when they return.
\<close>

definition mount_root :: "'v vfs_scheme \<Rightarrow> mount \<Rightarrow> nat option \<Rightarrow> lkfs \<Rightarrow> mounted res" where
  "mount_root K M bh s =
     (case lkfs_iget K s LKFS_ROOT_INO of
        Raw e \<Rightarrow> if IS_ERR (Raw e :: inode kptr) then Inr (e, None, s_sbb s @ s_sib s) else Inl NullDeref
      | Ptr root \<Rightarrow>
          if \<not> S_ISDIR (i_mode root) \<or> i_blocks root = 0 \<or> i_size root = 0 then
            rbind (iput K bh root s) (\<lambda>(nd, s). Inr (- EINVAL, None, []))
          else if \<not> m_d_alloc_root_ok M then
            rbind (iput K bh root s) (\<lambda>(nd, s). Inr (- ENOMEM, None, []))
          else Inr (0, Some (s, root), s_sbh s # s_sbb s @ s_sib s))"

definition lkfs_fill_super :: "'v vfs_scheme \<Rightarrow> mount \<Rightarrow> nat option \<Rightarrow> (nat \<Rightarrow> mem) \<Rightarrow> mounted res" where
  "lkfs_fill_super K M bh disk =
     (if \<not> m_kzalloc_ok M 0 then Inr (- ENOMEM, None, [])
      else if m_min_blocksize M = 0 then Inr (- EINVAL, None, [])
      else case sb_bread K 1 of
        None \<Rightarrow> Inr (- EINVAL, None, [])
      | Some sbh \<Rightarrow>
          let sb = load_super (disk sbh) 0
          in if s_magic sb \<noteq> LKFS_SUPER_MAGIC then Inr (- EINVAL, None, [])
             else if m_min_blocksize M \<noteq> m_b_size M then Inr (- EINVAL, None, [])
             else
               let bbo = 2;
                   bbc = unat (s_block_bitmap_count sb);
                   ibo = bbo + bbc;
                   ibc = unat (s_inode_bitmap_count sb);
                   ito = ibo + ibc
               in if \<not> m_kzalloc_ok M 1 \<and> 0 < bbc then Inl NullDeref
                  else
                    let (sbb, ok) = bread_range K bbo bbc
                    in if \<not> ok then Inr (- EINVAL, None, sbb)
                       else if \<not> m_kzalloc_ok M 2 \<and> 0 < ibc then Inl NullDeref
                       else
                         let (sib, ok) = bread_range K ibo ibc
                         in if \<not> ok then Inr (- EINVAL, None, sbb @ sib)
                            else mount_root K M bh
                              \<lparr>bufs = disk, dirty = {}, s_sbh = sbh, s_sbb = sbb, s_sib = sib,
                               block_bitmap_offset = bbo, inode_bitmap_offset = ibo, inode_table_offset = ito,
                               sbi_inode_size = unat (s_inode_size sb), s_dirt = False\<rparr>)"

text \<open>Super block operations. \<open>sync_dirty_buffer\<close> writes a dirty buffer to the device.\<close>

definition sync_dirty_buffer :: "nat \<Rightarrow> lkfs \<Rightarrow> (nat \<Rightarrow> mem) \<Rightarrow> lkfs \<times> (nat \<Rightarrow> mem)" where
  "sync_dirty_buffer b s disk =
     (if b \<in> dirty s then (s\<lparr>dirty := dirty s - {b}\<rparr>, disk(b := bufs s b)) else (s, disk))"

definition lkfs_sync_super :: "bool \<Rightarrow> lkfs \<Rightarrow> (nat \<Rightarrow> mem) \<Rightarrow> lkfs \<times> (nat \<Rightarrow> mem)" where
  "lkfs_sync_super wait s disk =
     (let s = mark_buffer_dirty (s_sbh s) s;
          (s, disk) = (if wait then sync_dirty_buffer (s_sbh s) s disk else (s, disk))
      in (s\<lparr>s_dirt := False\<rparr>, disk))"

definition lkfs_write_super :: "lkfs \<Rightarrow> (nat \<Rightarrow> mem) \<Rightarrow> lkfs \<times> (nat \<Rightarrow> mem)" where
  "lkfs_write_super s disk = lkfs_sync_super True s disk"

text \<open>The loops of \<open>lkfs_put_super\<close>: \<open>brelse(arr[i])\<close> for \<open>i < n\<close>.\<close>

fun brelse_all :: "nat list \<Rightarrow> nat \<Rightarrow> nat list \<Rightarrow> nat list res" where
  "brelse_all arr 0 held = Inr held"
| "brelse_all [] (Suc n) held = Inl OutOfBounds"
| "brelse_all (h # arr) (Suc n) held = brelse_all arr n (remove1 h held)"

definition lkfs_put_super :: "bool \<Rightarrow> lkfs \<Rightarrow> (nat \<Rightarrow> mem) \<Rightarrow> nat list \<Rightarrow> (lkfs \<times> (nat \<Rightarrow> mem) \<times> nat list) res" where
  "lkfs_put_super rdonly s disk held =
     (let (s, disk) = (if s_dirt s then lkfs_write_super s disk else (s, disk));
          (s, disk) = (if \<not> rdonly then lkfs_sync_super True s disk else (s, disk))
      in rbind (brelse_all (s_sbb s) (unat (s_block_bitmap_count (es s))) held) (\<lambda>held.
         rbind (brelse_all (s_sib s) (unat (s_inode_bitmap_count (es s))) held) (\<lambda>held.
           Inr (s, disk, remove1 (s_sbh s) held))))"

record kstatfs =
  f_type :: u16
  f_bsize :: nat
  f_blocks :: nat
  f_bfree :: nat
  f_bavail :: nat
  f_files :: nat
  f_ffree :: nat
  f_namelen :: nat

definition lkfs_statfs :: "nat \<Rightarrow> lkfs \<Rightarrow> kstatfs" where
  "lkfs_statfs s_blocksize s = \<lparr>f_type = LKFS_SUPER_MAGIC, f_bsize = s_blocksize,
     f_blocks = unat (s_blocks_count (es s)), f_bfree = unat (s_free_blocks_count (es s)),
     f_bavail = unat (s_free_blocks_count (es s)), f_files = unat (s_inodes_count (es s)),
     f_ffree = unat (s_free_inodes_count (es s)), f_namelen = LKFS_NAME_LEN\<rparr>"

definition lkfs_alloc_inode :: "inode option \<Rightarrow> inode option" where
  "lkfs_alloc_inode slab = (case slab of None \<Rightarrow> None | Some ei \<Rightarrow> Some (ei\<lparr>i_version := 1\<rparr>))"

text \<open>
  Loading the module: \<open>cache\<close> is the result of \<open>kmem_cache_create\<close>, \<open>reg\<close> that of
  \<open>register_filesystem\<close>; the second component lists the arguments of \<open>kmem_cache_destroy\<close>.
\<close>

definition init_inodecache :: "nat option \<Rightarrow> int" where
  "init_inodecache cache = (if cache = None then - ENOMEM else 0)"

definition init_lkfs_fs :: "nat option \<Rightarrow> int \<Rightarrow> int \<times> nat option list" where
  "init_lkfs_fs cache reg =
     (let err = init_inodecache cache
      in if err \<noteq> 0 then (err, [cache])
         else if reg \<noteq> 0 then (reg, [cache]) else (0, []))"

end
