(* ===== verification/Mklkfs.thy ===== *)
theory Mklkfs
  imports Layout
begin

text \<open>
  The tool that formats a device, \<open>src/lkfs/mklkfs.c\<close>. The device is one array of bytes; what
  the operating system answers (\<open>open\<close>, \<open>lseek\<close>, \<open>write\<close>, \<open>stat\<close>, \<open>malloc\<close>, the clock, the
  user) is the parameter \<open>os\<close>. \<open>printf\<close> is not modelled. \<open>set_bit\<close> and \<open>clear_bit\<close> of the file
  are \<open>lk_set_bit\<close> and \<open>lk_clear_bit\<close> of \<open>Bitops\<close>.
\<close>

section \<open>The operating system\<close>

record os =
  o_open_ok :: "bool \<Rightarrow> bool"  \<comment> \<open>argument: opened for writing\<close>
  o_close_ok :: bool
  o_lseek :: "int \<Rightarrow> int"
  o_write :: "nat \<Rightarrow> nat \<Rightarrow> int"  \<comment> \<open>position, length; bytes written or -1\<close>
  o_read :: "nat \<Rightarrow> nat \<Rightarrow> int"
  o_malloc_ok :: "nat \<Rightarrow> bool"
  o_uid :: u32
  o_gid :: u32
  o_time :: u32
  o_stat :: "(u32 \<times> nat) option"  \<comment> \<open>mode and size\<close>
  o_blkgetsize :: "nat option"  \<comment> \<open>sectors\<close>

section \<open>Blocks of the device\<close>

text \<open>\<open>blkno * LKFS_BLOCK_SIZE\<close> is computed in 32 bits before it becomes a file offset.\<close>

definition noffset_of :: "u32 \<Rightarrow> int" where
  "noffset_of blkno = sint (blkno * 1024)"

definition nwrite_block :: "os \<Rightarrow> u32 \<Rightarrow> mem \<Rightarrow> nat \<Rightarrow> mem \<Rightarrow> int \<times> mem" where
  "nwrite_block S blkno buf blocknr dev =
     (if o_lseek S 0 \<noteq> 0 then (- 1, dev)
      else
        let noffset = noffset_of blkno
        in if o_lseek S noffset \<noteq> noffset then (- 1, dev)
           else
             let wrote = o_write S (nat noffset) (LKFS_BLOCK_SIZE * blocknr);
                 dev = memcpy dev (nat noffset) buf 0 (nat wrote)
             in if wrote \<noteq> int (LKFS_BLOCK_SIZE * blocknr) then (- 1, dev) else (0, dev))"

definition write_block :: "os \<Rightarrow> u32 \<Rightarrow> mem \<Rightarrow> mem \<Rightarrow> int \<times> mem" where
  "write_block S blkno buf dev =
     (if o_lseek S 0 \<noteq> 0 then (- 1, dev)
      else
        let noffset = noffset_of blkno
        in if o_lseek S noffset \<noteq> noffset then (- 1, dev)
           else
             let wrote = o_write S (nat noffset) LKFS_BLOCK_SIZE;
                 dev = memcpy dev (nat noffset) buf 0 (nat wrote)
             in if wrote \<noteq> int LKFS_BLOCK_SIZE then (- 1, dev) else (0, dev))"

definition read_block :: "os \<Rightarrow> u32 \<Rightarrow> mem \<Rightarrow> mem \<Rightarrow> int \<times> mem" where
  "read_block S blkno buf dev =
     (if o_lseek S 0 \<noteq> 0 then (- 1, buf)
      else
        let noffset = noffset_of blkno
        in if o_lseek S noffset \<noteq> noffset then (- 1, buf)
           else
             let actual = o_read S (nat noffset) LKFS_BLOCK_SIZE;
                 buf = memcpy buf 0 dev (nat noffset) (nat actual)
             in if actual \<noteq> int LKFS_BLOCK_SIZE then (- 1, buf) else (0, buf))"

section \<open>The root directory\<close>

text \<open>\<open>strcat\<close> onto a name array of \<open>LKFS_NAME_LEN\<close> bytes at \<open>a\<close>.\<close>

definition c_strcat :: "nat \<Rightarrow> u8 list \<Rightarrow> mem \<Rightarrow> mem" where
  "c_strcat a str m =
     put_bytes m (a + length (takeWhile (\<lambda>c. c \<noteq> 0) (get_bytes m a LKFS_NAME_LEN))) (str @ [0])"

definition create_new_dir_block_template :: "u32 \<Rightarrow> u32 \<Rightarrow> mem" where
  "create_new_dir_block_template pinode cinode =
     (let buf = memset zero_mem 0 0 LKFS_BLOCK_SIZE;
          buf = set_de_inode 0 cinode buf;
          buf = set_de_name_len 0 1 buf;
          buf = c_strcat 8 [46] buf;
          buf = set_de_rec_len 0 12 buf;
          buf = set_de_inode 12 pinode buf;
          buf = set_de_name_len 12 2 buf;
          buf = c_strcat (12 + 8) [46, 46] buf;
          buf = set_de_rec_len 12 (LKFS_BLOCK_SIZE - 12) buf
      in buf)"

text \<open>The \<open>ino\<close> argument of \<open>write_inode\<close> is not used: the inode always goes to the root's place.\<close>

definition mk_write_inode :: "os \<Rightarrow> lkfs_super_block \<Rightarrow> nat \<Rightarrow> lkfs_inode \<Rightarrow> mem \<Rightarrow> int \<times> mem" where
  "mk_write_inode S sb ino inode dev =
     (let blk_buf = memset zero_mem 0 0 LKFS_BLOCK_SIZE;
          blk_buf = store_inode blk_buf ((LKFS_ROOT_INO - 1) * LKFS_INODE_SIZE) inode;
          (rc, dev) = write_block S (2 + s_block_bitmap_count sb + s_inode_bitmap_count sb) blk_buf dev
      in if rc < 0 then (- 1, dev) else (0, dev))"

definition root_inode :: "os \<Rightarrow> lkfs_super_block \<Rightarrow> lkfs_inode" where
  "root_inode S sb = \<lparr>d_mode = 0x4000 OR 0x1ED, d_uid = ucast (o_uid S), d_size = 1024,
     d_atime = o_time S, d_ctime = o_time S, d_mtime = o_time S, d_dtime = 0, d_gid = ucast (o_gid S),
     d_links_count = 2, d_blocks = 1024 div 512, d_flags = 0,
     d_block = (2 + s_block_bitmap_count sb + s_inode_bitmap_count sb + s_inode_table_count sb)
       # replicate (LKFS_N_BLOCKS - 1) 0\<rparr>"

definition create_root_directory :: "os \<Rightarrow> lkfs_super_block \<Rightarrow> mem \<Rightarrow> int \<times> mem" where
  "create_root_directory S sb dev =
     (let blk = create_new_dir_block_template (of_nat LKFS_ROOT_INO) (of_nat LKFS_ROOT_INO);
          pinode = root_inode S sb;
          (rc, dev) = write_block S (d_block pinode ! 0) blk dev
      in if rc < 0 then (- 1, dev)
         else
           let (rc, dev) = mk_write_inode S sb LKFS_ROOT_INO pinode dev
           in if rc < 0 then (- 1, dev) else (0, dev))"

section \<open>Creating the file system\<close>

text \<open>The super block; ``Luck V2 file system'' is copied with \<open>strncpy\<close> over zeroes.\<close>

definition volume_name :: "u8 list" where
  "volume_name = [76, 117, 99, 107, 32, 86, 50, 32, 102, 105, 108, 101, 32, 115, 121, 115, 116, 101, 109]"

definition new_super :: "u32 \<Rightarrow> lkfs_super_block" where
  "new_super total_blocks =
     (let blocks = total_blocks;
          inodes = drop_bit 2 (blocks + 3);
          bbc = drop_bit 13 (blocks + 8191);
          ibc = drop_bit 13 (inodes + 8191);
          itc = drop_bit 3 (inodes + 7)
      in \<lparr>s_inodes_count = inodes, s_blocks_count = blocks,
          s_free_blocks_count = total_blocks - bbc - ibc - itc - 2 - 1,
          s_free_inodes_count = inodes - 11, s_block_bitmap_count = bbc, s_inode_bitmap_count = ibc,
          s_inode_table_count = itc, s_mtime = 0, s_wtime = 0, s_mnt_count = 0,
          s_magic = LKFS_SUPER_MAGIC, s_state = 0, s_first_ino = 0, s_inode_size = of_nat LKFS_INODE_SIZE,
          s_block_size = of_nat LKFS_BLOCK_SIZE, s_volume_name = volume_name @ replicate (32 - 19) 0\<rparr>)"

text \<open>
  A bitmap of \<open>count\<close> blocks whose first \<open>n\<close> bits are set one after the other: setting a bit
  behind the allocated blocks is a heap overflow, filling in what \<open>malloc\<close> did not return is a
  null dereference.
\<close>

definition new_bitmap :: "os \<Rightarrow> nat \<Rightarrow> nat \<Rightarrow> mem res" where
  "new_bitmap S count n =
     (if \<not> o_malloc_ok S (count * 1024) \<and> 0 < count then Inl NullDeref
      else if n > count * 8192 then Inl OutOfBounds
      else Inr (fold (\<lambda>i m. snd (lk_set_bit i m)) [0..<n] (memset zero_mem 0 0 (count * 1024))))"

text \<open>
  The results of writing the bitmaps and the root directory are ignored, and so is \<open>rc\<close>: the
  function returns 0 once the device is open.
\<close>

definition create_lkfs :: "os \<Rightarrow> u32 \<Rightarrow> mem \<Rightarrow> (int \<times> mem) res" where
  "create_lkfs S total_blocks dev =
     (if \<not> o_open_ok S True then Inr (- 1, dev)
      else
        let sb = new_super total_blocks;
            bbc = unat (s_block_bitmap_count sb);
            ibc = unat (s_inode_bitmap_count sb)
        in rbind (new_bitmap S bbc (unat (s_blocks_count sb - s_free_blocks_count sb))) (\<lambda>block_bitmap.
          let (rc, dev) = nwrite_block S 2 block_bitmap bbc dev
          in rbind (new_bitmap S ibc 11) (\<lambda>inode_bitmap.
            let (rc, dev) = nwrite_block S (2 + s_block_bitmap_count sb) inode_bitmap ibc dev;
                (rc, dev) = create_root_directory S sb dev;
                blk_buf = store_super (memset zero_mem 0 0 LKFS_BLOCK_SIZE) 0 sb;
                (rc, dev) = write_block S 1 blk_buf dev
            in Inr (0, dev))))"

definition get_total_device_blocks :: "os \<Rightarrow> nat" where
  "get_total_device_blocks S =
     (if \<not> o_open_ok S False then 0
      else case o_blkgetsize S of None \<Rightarrow> 0 | Some sectors \<Rightarrow> sectors div 2)"

text \<open>\<open>main\<close>, with the device \<open>argv[1]\<close>; the result is the exit status. Block devices are asked for
  their size, everything else is taken by its file size, in an \<open>int\<close>.\<close>

definition mklkfs_main :: "os \<Rightarrow> mem \<Rightarrow> (int \<times> mem) res" where
  "mklkfs_main S dev =
     (case o_stat S of
        None \<Rightarrow> Inr (1, dev)
      | Some (st_mode, st_size) \<Rightarrow>
          let blockcount = (if st_mode AND 0xF000 = 0x6000 then of_nat (get_total_device_blocks S)
                            else of_nat (st_size div 2 ^ 10))
          in rbind (create_lkfs S blockcount dev) (\<lambda>(rc, dev). Inr (if rc \<noteq> 0 then 1 else 0, dev)))"

section \<open>What a run writes\<close>

text \<open>Block \<open>b\<close> of a device, as the buffer cache would hold it.\<close>

definition block_of :: "mem \<Rightarrow> nat \<Rightarrow> mem" where
  "block_of dev b = (\<lambda>i. if i < 1024 then dev (1024 * b + i) else 0)"

text \<open>The operating system does what it is asked for a device of \<open>n\<close> blocks.\<close>

definition os_ok :: "os \<Rightarrow> nat \<Rightarrow> bool" where
  "os_ok S n \<longleftrightarrow> o_open_ok S True \<and> (\<forall>k. o_malloc_ok S k) \<and> (\<forall>x \<ge> 0. o_lseek S x = x)
     \<and> (\<forall>p k. p + k \<le> 1024 * n \<longrightarrow> o_write S p k = int k)"

definition plain_os :: os where
  "plain_os = \<lparr>o_open_ok = (\<lambda>_. True), o_close_ok = True, o_lseek = (\<lambda>x. if x < 0 then - 1 else x),
     o_write = (\<lambda>p n. int n), o_read = (\<lambda>p n. int n), o_malloc_ok = (\<lambda>_. True), o_uid = 0, o_gid = 0,
     o_time = 7, o_stat = Some (0x8000, 131072), o_blkgetsize = None\<rparr>"

lemma plain_os_ok: "os_ok plain_os n"
  by (simp add: os_ok_def plain_os_def)

lemma block_of_memcpy:
  "block_of (memcpy dev (1024 * b) buf 0 (1024 * n)) c =
    (if b \<le> c \<and> c < b + n then (\<lambda>i. if i < 1024 then buf (1024 * (c - b) + i) else 0) else block_of dev c)"
proof -
  have "1024 * b \<le> 1024 * c + i \<and> 1024 * c + i < 1024 * b + 1024 * n \<longleftrightarrow> b \<le> c \<and> c < b + n"
    if "i < 1024" for i using that by linarith
  moreover have "1024 * c + i - 1024 * b = 1024 * (c - b) + i" if "b \<le> c" for i using that by (simp add: diff_mult_distrib2)
  ultimately show ?thesis by (auto simp: block_of_def memcpy_def fun_eq_iff)
qed

lemma block_of_memcpy_one:
  "block_of (memcpy dev (1024 * b) buf 0 (1024 * 1)) b = block_of buf 0"
  "c \<noteq> b \<Longrightarrow> block_of (memcpy dev (1024 * b) buf 0 (1024 * 1)) c = block_of dev c"
  unfolding block_of_memcpy by (auto simp: block_of_def cong: if_cong)

lemma noffset_small: "unat b < 2 ^ 21 \<Longrightarrow> noffset_of b = int (1024 * unat b)"
proof -
  assume b: "unat b < 2 ^ 21"
  then have u: "unat (b * 1024) = 1024 * unat b"
    by (simp add: unat_word_ariths take_bit_nat_eq_self mult.commute)
  have "signed_take_bit (LENGTH(32) - 1) (int x) = int x" if "x < 2 ^ 31" for x
    using that by (intro signed_take_bit_int_eq_self) auto
  from this [of "1024 * unat b"] b have "sint (b * 1024) = int (1024 * unat b)"
    unfolding sint_uint uint_nat u by simp
  then show ?thesis by (simp add: noffset_of_def u)
qed

lemma nwrite_ok:
  assumes "os_ok S n" "unat b + k \<le> n" "unat b < 2 ^ 21"
  shows "nwrite_block S b buf k dev = (0, memcpy dev (1024 * unat b) buf 0 (1024 * k))"
proof -
  have "o_write S (1024 * unat b) (1024 * k) = int (1024 * k)"
    using assms(1,2) by (simp add: os_ok_def)
  then show ?thesis
    using assms(1) noffset_small [OF assms(3)]
    by (simp add: nwrite_block_def os_ok_def LKFS_BLOCK_SIZE_def Let_def nat_mult_distrib)
qed

lemma write_block_nwrite: "write_block S b buf dev = nwrite_block S b buf 1 dev"
  by (simp add: write_block_def nwrite_block_def Let_def)

text \<open>The sizes \<open>create_lkfs\<close> computes.\<close>

definition mk_inodes :: "nat \<Rightarrow> nat" where "mk_inodes n = (n + 3) div 4"
definition mk_bbc :: "nat \<Rightarrow> nat" where "mk_bbc n = (n + 8191) div 8192"
definition mk_ibc :: "nat \<Rightarrow> nat" where "mk_ibc n = (mk_inodes n + 8191) div 8192"
definition mk_itc :: "nat \<Rightarrow> nat" where "mk_itc n = (mk_inodes n + 7) div 8"
definition mk_data :: "nat \<Rightarrow> nat" where "mk_data n = 2 + mk_bbc n + mk_ibc n + mk_itc n"

lemmas mk_sizes = mk_inodes_def mk_bbc_def mk_ibc_def mk_itc_def mk_data_def

lemma unat_div_pow: "unat (drop_bit k (w :: u32)) = unat w div 2 ^ k"
  unfolding unat_drop_bit_eq by (simp add: drop_bit_eq_div)

lemma unat_add_small: "unat w + k < 2 ^ 32 \<Longrightarrow> unat (w + of_nat k :: u32) = unat w + k"
  by (simp add: unat_word_ariths unat_of_nat take_bit_nat_eq_self)

lemma new_super_sizes:
  fixes t :: u32
  assumes "unat t < 2 ^ 31"
  defines "n \<equiv> unat t"
  shows "unat (s_inodes_count (new_super t)) = mk_inodes n" "unat (s_block_bitmap_count (new_super t)) = mk_bbc n"
    "unat (s_inode_bitmap_count (new_super t)) = mk_ibc n" "unat (s_inode_table_count (new_super t)) = mk_itc n"
    "s_blocks_count (new_super t) = t" "s_magic (new_super t) = LKFS_SUPER_MAGIC" "fits_super (new_super t)"
proof -
  have i: "unat (drop_bit 2 (t + 3)) = mk_inodes n"
    using assms(1) unat_add_small [of t 3] by (simp add: unat_div_pow mk_inodes_def n_def)
  have il: "mk_inodes n < 2 ^ 30" using assms(1) by (simp add: mk_inodes_def n_def)
  show "unat (s_inodes_count (new_super t)) = mk_inodes n" using i by (simp add: new_super_def Let_def)
  show "unat (s_block_bitmap_count (new_super t)) = mk_bbc n"
    using assms(1) unat_add_small [of t 8191] by (simp add: unat_div_pow mk_bbc_def n_def new_super_def Let_def)
  show "unat (s_inode_bitmap_count (new_super t)) = mk_ibc n"
    using i il unat_add_small [of "drop_bit 2 (t + 3)" 8191] by (simp add: unat_div_pow mk_ibc_def new_super_def Let_def)
  show "unat (s_inode_table_count (new_super t)) = mk_itc n"
    using i il unat_add_small [of "drop_bit 2 (t + 3)" 7] by (simp add: unat_div_pow mk_itc_def new_super_def Let_def)
  show "s_blocks_count (new_super t) = t" "s_magic (new_super t) = LKFS_SUPER_MAGIC" "fits_super (new_super t)"
    by (simp_all add: new_super_def Let_def fits_super_def volume_name_def)
qed

text \<open>Blocks taken at the start: everything before the data and the root directory's block.\<close>

lemma new_super_used:
  assumes "unat t < 2 ^ 31"
  shows "unat (s_blocks_count (new_super t) - s_free_blocks_count (new_super t)) = Suc (mk_data (unat t))"
proof -
  let ?s = "new_super t"
  note N = new_super_sizes [OF assms]
  have "s_blocks_count ?s - s_free_blocks_count ?s
    = s_block_bitmap_count ?s + s_inode_bitmap_count ?s + s_inode_table_count ?s + 3"
    by (simp add: new_super_def Let_def)
  also have "\<dots> = of_nat (mk_bbc (unat t) + mk_ibc (unat t) + mk_itc (unat t) + 3)"
    using N by (simp flip: N(2-4))
  finally show ?thesis
    using assms by (simp add: unat_of_nat take_bit_nat_eq_self mk_sizes del: of_nat_add)
qed

lemma mk_bounds:
  "4 * mk_inodes n \<le> n + 3" "n \<le> 4 * mk_inodes n" "8192 * mk_bbc n \<le> n + 8191" "n \<le> 8192 * mk_bbc n"
  "8192 * mk_ibc n \<le> mk_inodes n + 8191" "mk_inodes n \<le> 8192 * mk_ibc n" "8 * mk_itc n \<le> mk_inodes n + 7"
  "mk_inodes n \<le> 8 * mk_itc n"
  unfolding mk_sizes by linarith+

lemma mk_fits: "44 \<le> n \<Longrightarrow> mk_data n < n" "44 \<le> n \<Longrightarrow> 11 \<le> mk_inodes n" "n < 2 ^ 25 \<Longrightarrow> mk_data n < 2 ^ 21"
  "mk_data n = 2 + mk_bbc n + mk_ibc n + mk_itc n"
  using mk_bounds [of n] by (simp_all add: mk_data_def)

text \<open>The bitmap of the first \<open>k\<close> bits.\<close>

lemma new_bitmap_ok:
  assumes "os_ok S n" "k \<le> count * 8192"
  shows "\<exists>m. new_bitmap S count k = Inr m \<and> (\<forall>i. bit_at m i \<longleftrightarrow> i < k)"
proof -
  have "\<not> bit_at (memset zero_mem 0 0 (count * 1024)) i" for i
    by (simp add: bit_at_def memset_def zero_mem_def)
  then show ?thesis
    using assms by (simp add: new_bitmap_def os_ok_def mk.fold_tset)
qed

text \<open>The contents \<open>create_lkfs\<close> gives the blocks of the device.\<close>

definition formatted :: "os \<Rightarrow> u32 \<Rightarrow> mem \<Rightarrow> bool" where
  "formatted S t dev \<longleftrightarrow> (let n = unat t; sb = new_super t in
     block_of dev 1 = block_of (store_super zero_mem 0 sb) 0
     \<and> (\<forall>j < mk_bbc n. \<forall>i < 8192. bit_at (block_of dev (2 + j)) i \<longleftrightarrow> 8192 * j + i < Suc (mk_data n))
     \<and> (\<forall>j < mk_ibc n. \<forall>i < 8192. bit_at (block_of dev (2 + mk_bbc n + j)) i \<longleftrightarrow> 8192 * j + i < 11)
     \<and> block_of dev (2 + mk_bbc n + mk_ibc n) = block_of (store_inode zero_mem 128 (root_inode S sb)) 0
     \<and> block_of dev (mk_data n) = block_of (create_new_dir_block_template 2 2) 0)"

lemma bit_at_block:
  assumes "b \<le> c" "i < 8192" "c < b + n"
  shows "bit_at (block_of (memcpy dev (1024 * b) m 0 (1024 * n)) c) i \<longleftrightarrow> bit_at m (8192 * (c - b) + i)"
proof -
  have e: "8192 * k + i = 8 * (1024 * k) + i" for k by simp
  have q: "(8 * q + i) div 8 = q + i div 8" "(8 * q + i) mod 8 = i mod 8" for q :: nat by simp_all
  have d: "(8192 * k + i) div 8 = 1024 * k + i div 8" "(8192 * k + i) mod 8 = i mod 8" for k
    unfolding e q by (rule refl)+
  have "i div 8 < 1024" using assms(2) by linarith
  then show ?thesis unfolding bit_at_def d block_of_memcpy using assms(1,3) by (simp only: if_True simp_thms)
qed

lemma memcpy_none: "memcpy d a buf b 0 = d"
  by (auto simp: memcpy_def fun_eq_iff)

lemma memset_zero: "memset zero_mem a 0 n = zero_mem"
  by (simp add: memset_def zero_mem_def)

lemma create_lkfs_run:
  assumes ok: "os_ok S n" and n: "n = unat t" "44 \<le> n" "n < 2 ^ 25"
  shows "\<exists>dev'. create_lkfs S t dev = Inr (0, dev') \<and> formatted S t dev'"
proof -
  let ?sb = "new_super t"
  have t: "unat t < 2 ^ 31" using n by simp
  note N = new_super_sizes [OF t, folded n(1)] and U = new_super_used [OF t, folded n(1)]
  note F = mk_fits [of n] and B = mk_bounds [of n]
  obtain bm where bm: "new_bitmap S (mk_bbc n) (Suc (mk_data n)) = Inr bm" "\<forall>i. bit_at bm i \<longleftrightarrow> i < Suc (mk_data n)"
    using new_bitmap_ok [OF ok, of "Suc (mk_data n)" "mk_bbc n"] F(1) n(2) B(4) by auto
  obtain im where im: "new_bitmap S (mk_ibc n) 11 = Inr im" "\<forall>i. bit_at im i \<longleftrightarrow> i < 11"
    using new_bitmap_ok [OF ok, of 11 "mk_ibc n"] F(2) n(2) B(6) by auto
  have p1: "0 < mk_bbc n" "0 < mk_ibc n" "0 < mk_itc n" using B F(2) n(2) by (auto intro!: Nat.gr0I)
  have dl: "mk_data n < n" "mk_data n < 2 ^ 21" using F n by auto
  have u: "unat (2 + s_block_bitmap_count ?sb) = 2 + mk_bbc n"
    "unat (2 + s_block_bitmap_count ?sb + s_inode_bitmap_count ?sb) = 2 + mk_bbc n + mk_ibc n"
    "unat (2 + s_block_bitmap_count ?sb + s_inode_bitmap_count ?sb + s_inode_table_count ?sb) = mk_data n"
    using N(2-4) dl(2) F(4) by (simp_all add: unat_word_ariths take_bit_nat_eq_self)
  define d1 where "d1 = memcpy dev (1024 * 2) bm 0 (1024 * mk_bbc n)"
  define d2 where "d2 = memcpy d1 (1024 * (2 + mk_bbc n)) im 0 (1024 * mk_ibc n)"
  define d3 where "d3 = memcpy d2 (1024 * mk_data n) (create_new_dir_block_template 2 2) 0 (1024 * 1)"
  define d4 where "d4 = memcpy d3 (1024 * (2 + mk_bbc n + mk_ibc n)) (store_inode zero_mem 128 (root_inode S ?sb)) 0 (1024 * 1)"
  define d5 where "d5 = memcpy d4 (1024 * 1) (store_super zero_mem 0 ?sb) 0 (1024 * 1)"
  have w1: "nwrite_block S 2 bm (mk_bbc n) dev = (0, d1)"
    using nwrite_ok [OF ok, of 2 "mk_bbc n" bm dev] dl F(4) by (simp add: d1_def)
  have w2: "nwrite_block S (2 + s_block_bitmap_count ?sb) im (mk_ibc n) d1 = (0, d2)"
    using nwrite_ok [OF ok, of "2 + s_block_bitmap_count ?sb" "mk_ibc n" im d1] dl F(4) u(1) by (simp add: d2_def)
  have b0: "d_block (root_inode S ?sb) ! 0 = 2 + s_block_bitmap_count ?sb + s_inode_bitmap_count ?sb + s_inode_table_count ?sb"
    by (simp add: root_inode_def)
  have w3: "write_block S (d_block (root_inode S ?sb) ! 0) (create_new_dir_block_template 2 2) d2 = (0, d3)"
    unfolding write_block_nwrite b0
    using nwrite_ok [OF ok, of "2 + s_block_bitmap_count ?sb + s_inode_bitmap_count ?sb + s_inode_table_count ?sb" 1
        "create_new_dir_block_template 2 2" d2] dl u(3) by (simp add: d3_def)
  have w4: "write_block S (2 + s_block_bitmap_count ?sb + s_inode_bitmap_count ?sb)
      (store_inode zero_mem 128 (root_inode S ?sb)) d3 = (0, d4)"
    unfolding write_block_nwrite
    using nwrite_ok [OF ok, of "2 + s_block_bitmap_count ?sb + s_inode_bitmap_count ?sb" 1
        "store_inode zero_mem 128 (root_inode S ?sb)" d3] dl F(4) u(2) by (simp add: d4_def)
  have w5: "write_block S 1 (store_super zero_mem 0 ?sb) d4 = (0, d5)"
    unfolding write_block_nwrite
    using nwrite_ok [OF ok, of 1 1 "store_super zero_mem 0 ?sb" d4] n(2) by (simp add: d5_def)
  have run: "create_lkfs S t dev = Inr (0, d5)"
    using ok w1 w2 w3 w4 w5 bm(1) im(1) U N(2,3)
    by (simp add: create_lkfs_def create_root_directory_def mk_write_inode_def os_ok_def Let_def memset_zero
        LKFS_ROOT_INO_def LKFS_INODE_SIZE_def)
  note D = d5_def d4_def d3_def d2_def d1_def
  have "formatted S t d5"
    unfolding formatted_def Let_def n(1) [symmetric]
  proof (intro conjI allI impI)
    show "block_of d5 1 = block_of (store_super zero_mem 0 ?sb) 0"
      unfolding d5_def by (rule block_of_memcpy_one)
    show "block_of d5 (2 + mk_bbc n + mk_ibc n) = block_of (store_inode zero_mem 128 (root_inode S ?sb)) 0"
      unfolding d5_def d4_def by (subst block_of_memcpy_one(2), simp) (rule block_of_memcpy_one)
    have "mk_data n \<noteq> 1" "mk_data n \<noteq> 2 + mk_bbc n + mk_ibc n" using p1 F(4) by auto
    then show "block_of d5 (mk_data n) = block_of (create_new_dir_block_template 2 2) 0"
      unfolding d5_def d4_def d3_def by (simp only: block_of_memcpy_one not_False_eq_True)
    fix j i :: nat assume i: "i < 8192"
    show "bit_at (block_of d5 (2 + j)) i \<longleftrightarrow> 8192 * j + i < Suc (mk_data n)" if "j < mk_bbc n"
    proof -
      have "block_of d5 (2 + j) = block_of d1 (2 + j)"
        unfolding d5_def d4_def d3_def d2_def block_of_memcpy using that F(4) by simp
      then show ?thesis
        unfolding d1_def using bit_at_block [of 2 "2 + j" i "mk_bbc n" dev bm] that i bm(2) by simp
    qed
    show "bit_at (block_of d5 (2 + mk_bbc n + j)) i \<longleftrightarrow> 8192 * j + i < 11" if "j < mk_ibc n"
    proof -
      have "block_of d5 (2 + mk_bbc n + j) = block_of d2 (2 + mk_bbc n + j)"
        unfolding d5_def d4_def d3_def block_of_memcpy using that F(4) p1 by simp
      then show ?thesis
        unfolding d2_def using bit_at_block [of "2 + mk_bbc n" "2 + mk_bbc n + j" i "mk_ibc n" d1 im] that i im(2) by simp
    qed
  qed
  with run show ?thesis by blast
qed

section \<open>Properties\<close>

text \<open>formatting a device or file of 44 blocks up to 32 GiB succeeds and writes a super block with the
  computed sizes, block bitmaps in which exactly the blocks up to the root directory's are used,
  inode bitmaps with the first eleven numbers used, the root inode in the second place of the table
  and the root directory's block behind the table.\<close>

lemma create_lkfs_correct:
  assumes "os_ok S (unat t)" "44 \<le> unat t" "unat t < 2 ^ 25"
  shows "\<exists>dev'. create_lkfs S t dev = Inr (0, dev') \<and> formatted S t dev'"
  by (rule create_lkfs_run [OF assms(1) refl assms(2,3)])

theorem create_lkfs_correct_witness:
  "\<exists>dev'. create_lkfs plain_os 128 dev = Inr (0, dev') \<and> formatted plain_os 128 dev'"
  by (rule create_lkfs_correct [OF plain_os_ok]) simp_all

text \<open>a size of 0 (a file below 1024 bytes, or a block device whose size could not be read) is not
  rejected: no bitmap block is allocated and the first mark already overruns the heap.\<close>

lemma empty_device_overruns_heap:
  assumes "o_open_ok S True" "o_stat S = Some (mode, len)"
    "if mode AND 0xF000 = 0x6000 then o_blkgetsize S = None \<or> \<not> o_open_ok S False else len < 1024"
  shows "mklkfs_main S dev = Inl OutOfBounds"
proof -
  have "create_lkfs S 0 dev = Inl OutOfBounds"
    using assms(1) by (simp add: create_lkfs_def new_super_def new_bitmap_def Let_def)
  then show ?thesis
    using assms(2,3) by (auto simp: mklkfs_main_def get_total_device_blocks_def split: if_splits)
qed

theorem empty_device_overruns_heap_witness:
  "mklkfs_main (plain_os\<lparr>o_stat := Some (0x8000, 1000)\<rparr>) zero_mem = Inl OutOfBounds"
  by (rule empty_device_overruns_heap [where mode = "0x8000" and len = 1000]) (simp_all add: plain_os_def)

text \<open>failures of the writes are not reported: with a device that can be opened but not written,
  \<open>create_lkfs\<close> returns 0, the tool exits with status 0, and nothing is on the device.\<close>

lemma write_errors_ignored:
  assumes "o_open_ok S True" "\<forall>k. o_malloc_ok S k" "\<forall>p k. o_write S p k = - 1" "44 \<le> unat t" "unat t < 2 ^ 31"
  shows "create_lkfs S t dev = Inr (0, dev)"
proof -
  have w: "nwrite_block S b buf k d = (- 1, d)" "write_block S b buf d = (- 1, d)" for b buf k d
    using assms(3) by (simp_all add: nwrite_block_def write_block_def Let_def memcpy_none LKFS_BLOCK_SIZE_def)
  note N = new_super_sizes [OF assms(5)] and U = new_super_used [OF assms(5)]
  note F = mk_fits [of "unat t"] and B = mk_bounds [of "unat t"]
  have "mk_data (unat t) < 8192 * mk_bbc (unat t)" using F(1) B(4) assms(4) by linarith
  moreover have "11 \<le> 8192 * mk_ibc (unat t)" using F(2) B(6) assms(4) by linarith
  ultimately have "new_bitmap S (mk_bbc (unat t)) (Suc (mk_data (unat t))) \<noteq> Inl f"
      "new_bitmap S (mk_ibc (unat t)) 11 \<noteq> Inl f" for f
    using assms(2) by (auto simp: new_bitmap_def)
  then obtain a b where "new_bitmap S (mk_bbc (unat t)) (Suc (mk_data (unat t))) = Inr a"
      "new_bitmap S (mk_ibc (unat t)) 11 = Inr b"
    by (metis old.sum.exhaust)
  then show ?thesis
    using assms(1) N U
    by (simp add: create_lkfs_def create_root_directory_def Let_def w)
qed

theorem write_errors_ignored_witness:
  "create_lkfs (plain_os\<lparr>o_write := \<lambda>p n. - 1\<rparr>) 128 zero_mem = Inr (0, zero_mem)"
  by (rule write_errors_ignored) (simp_all add: plain_os_def)

end
