(* ===== verification/Mount_Props.thy ===== *)
theory Mount_Props
  imports Super Mklkfs
begin

text \<open>
  Formatting and mounting together: a device formatted by \<open>create_lkfs\<close> mounts, and the mounted
  volume satisfies the invariant all the other components rely on. Unmounting writes the super
  block back and gives up every buffer.
\<close>

declare upt_Suc [simp del]

section \<open>The root directory's block\<close>

lemma block_of_fields:
  "d + 8 \<le> 1024 \<Longrightarrow> de_inode (block_of m 0) d = de_inode m d"
  "d + 8 \<le> 1024 \<Longrightarrow> de_rec_len (block_of m 0) d = de_rec_len m d"
  "d + 8 \<le> 1024 \<Longrightarrow> de_name_len (block_of m 0) d = de_name_len m d"
  "d + 8 + n \<le> 1024 \<Longrightarrow> de_name (block_of m 0) d n = de_name m d n"
  unfolding de_inode_def de_rec_len_def de_name_len_def de_name_def
  by (auto simp: block_of_def intro!: f32.rd_bytes f16.rd_bytes f8.rd_bytes get_bytes_agree
      arg_cong [where f = "\<lambda>x :: u16. unat x"] arg_cong [where f = "\<lambda>x :: u8. unat x"])

lemma strcat_empty: "m a = 0 \<Longrightarrow> c_strcat a str m = put_bytes m a (str @ [0])"
  by (simp add: c_strcat_def get_bytes_def LKFS_NAME_LEN_def upt_conv_Cons)

lemma template_fields:
  fixes self parent :: u32
  defines "m \<equiv> create_new_dir_block_template parent self"
  shows "de_inode m 0 = self" "de_rec_len m 0 = 12" "de_name_len m 0 = 1" "de_name m 0 1 = dot"
    "de_inode m 12 = parent" "de_rec_len m 12 = 1012" "de_name_len m 12 = 2" "de_name m 12 2 = dotdot"
proof -
  let ?m0 = "set_de_name_len 0 1 (set_de_inode 0 self (memset zero_mem 0 0 1024))"
  let ?m1 = "set_de_name_len 12 2 (set_de_inode 12 parent (set_de_rec_len 0 12 (put_bytes ?m0 8 [46, 0])))"
  have "?m0 8 = 0"
    by (simp add: set_de_name_len_def set_de_inode_def put8_def f32.wr_outside memset_at)
  then have s0: "c_strcat 8 [46] ?m0 = put_bytes ?m0 8 [46, 0]" by (simp add: strcat_empty)
  have "?m1 20 = 0"
    by (simp add: set_de_name_len_def set_de_inode_def set_de_rec_len_def put8_def f32.wr_outside
        f16.wr_outside put_bytes_frame memset_at)
  then have s1: "c_strcat 20 [46, 46] ?m1 = put_bytes ?m1 20 [46, 46, 0]" by (simp add: strcat_empty)
  have m: "m = set_de_rec_len 12 1012 (put_bytes ?m1 20 [46, 46, 0])"
    unfolding m_def create_new_dir_block_template_def using s0 s1 by (simp add: Let_def LKFS_BLOCK_SIZE_def)
  show "de_inode m 0 = self" "de_rec_len m 0 = 12" "de_name_len m 0 = 1" "de_name m 0 1 = dot"
    "de_inode m 12 = parent" "de_rec_len m 12 = 1012" "de_name_len m 12 = 2" "de_name m 12 2 = dotdot"
    unfolding m
    by (simp_all add: de_inode_def de_rec_len_def de_name_len_def de_name_def
        set_de_inode_def set_de_rec_len_def set_de_name_len_def mem_simps get_bytes_frame get_bytes_put_prefix)
qed

lemma template_chain:
  fixes self parent :: u32
  assumes "self \<noteq> 0" "parent \<noteq> 0"
  defines "m \<equiv> block_of (create_new_dir_block_template parent self) 0"
  shows "chain m 0 [0, 12] 1024" "live m [0, 12] = [(dot, self), (dotdot, parent)]"
proof -
  have l: "LKFS_DIR_REC_LEN (Suc 0) = 12" "LKFS_DIR_REC_LEN 2 = 12" by (simp_all add: LKFS_DIR_REC_LEN_def)
  note F = template_fields [of parent self]
  show "chain m 0 [0, 12] 1024"
    using F by (simp add: m_def rec_ok_def l block_of_fields)
  show "live m [0, 12] = [(dot, self), (dotdot, parent)]"
    using F assms(1,2) by (simp add: m_def live1_def block_of_fields)
qed

section \<open>Reading the bitmaps\<close>

lemma bread_range_run:
  "bread_range K b n = (if \<forall>i < n. k_bread_ok K (b + i) then ([b..<b + n], True)
     else ([b..<b + (LEAST i. \<not> k_bread_ok K (b + i))], False))"
proof (induction n arbitrary: b)
  case (Suc n)
  show ?case
  proof (cases "k_bread_ok K b")
    case False
    then have "(LEAST i. \<not> k_bread_ok K (b + i)) = 0" by (intro Least_equality) auto
    moreover have "\<exists>i < Suc n. \<not> k_bread_ok K (b + i)" using False by auto
    ultimately show ?thesis using False by (auto simp: sb_bread_def)
  next
    case True
    have all: "(\<forall>i < Suc n. k_bread_ok K (b + i)) \<longleftrightarrow> (\<forall>i < n. k_bread_ok K (Suc b + i))"
      using True by (simp add: All_less_Suc2)
    have L: "(LEAST i. \<not> k_bread_ok K (b + i)) = Suc (LEAST i. \<not> k_bread_ok K (Suc b + i))"
      if bad: "\<not> (\<forall>i < n. k_bread_ok K (Suc b + i))"
    proof -
      obtain i where "\<not> k_bread_ok K (Suc b + i)" using bad by blast
      then show ?thesis using Least_Suc [of "\<lambda>i. \<not> k_bread_ok K (b + i)" "Suc i"] True by simp
    qed
    show ?thesis
      unfolding all using True Suc.IH [of "Suc b"] L
      by (auto simp: sb_bread_def upt_conv_Cons)
  qed
qed simp

lemma bread_range_ok: "(\<And>c. c < b + n \<Longrightarrow> k_bread_ok K c) \<Longrightarrow> bread_range K b n = ([b..<b + n], True)"
  by (simp add: bread_range_run)

section \<open>Mounting what was formatted\<close>

text \<open>The environment lets a device of \<open>n\<close> blocks be mounted.\<close>

definition mount_ok :: "'v vfs_scheme \<Rightarrow> mount \<Rightarrow> nat \<Rightarrow> inode \<Rightarrow> bool" where
  "mount_ok K M n fresh \<longleftrightarrow> (\<forall>b < n. k_bread_ok K b) \<and> k_iget_locked K 2 = Some (True, fresh) \<and> i_ino fresh = 2
     \<and> (\<forall>i. m_kzalloc_ok M i) \<and> 0 < m_min_blocksize M \<and> m_b_size M = m_min_blocksize M \<and> m_d_alloc_root_ok M"

text \<open>The volume \<open>lkfs_fill_super\<close> builds over a formatted device of \<open>n\<close> blocks.\<close>

definition fresh_volume :: "nat \<Rightarrow> mem \<Rightarrow> lkfs" where
  "fresh_volume n dev = \<lparr>bufs = block_of dev, dirty = {}, s_sbh = 1, s_sbb = [2..<2 + mk_bbc n],
     s_sib = [2 + mk_bbc n..<2 + mk_bbc n + mk_ibc n], block_bitmap_offset = 2,
     inode_bitmap_offset = 2 + mk_bbc n, inode_table_offset = 2 + mk_bbc n + mk_ibc n,
     sbi_inode_size = 128, s_dirt = False\<rparr>"

lemma load_formatted:
  assumes "formatted S t dev"
  shows "load_super (block_of dev 1) 0 = new_super t"
    "load_inode (block_of dev (2 + mk_bbc (unat t) + mk_ibc (unat t))) 128 = root_inode S (new_super t)"
proof -
  have f: "fits_super (new_super t)" "fits_inode (root_inode S (new_super t))"
    by (simp_all add: new_super_def Let_def fits_super_def volume_name_def fits_inode_def root_inode_def n_blocks)
  have "load_super (block_of dev 1) 0 = load_super (store_super zero_mem 0 (new_super t)) 0"
    using assms by (intro super.rd_local) (simp add: formatted_def Let_def super_size_def block_of_def [of "store_super _ _ _"])
  with f show "load_super (block_of dev 1) 0 = new_super t" by (simp add: super.rd_wr_fits)
  have "load_inode (block_of dev (2 + mk_bbc (unat t) + mk_ibc (unat t))) 128
      = load_inode (store_inode zero_mem 128 (root_inode S (new_super t))) 128"
    using assms
    by (intro dinode.rd_local) (simp add: formatted_def Let_def LKFS_INODE_SIZE_def block_of_def [of "store_inode _ _ _"])
  with f show "load_inode (block_of dev (2 + mk_bbc (unat t) + mk_ibc (unat t))) 128 = root_inode S (new_super t)"
    by (simp add: dinode.rd_wr_fits)
qed

lemma fresh_volume_sel [simp]:
  "bufs (fresh_volume n dev) = block_of dev" "s_sbh (fresh_volume n dev) = 1" "s_sbb (fresh_volume n dev) = [2..<2 + mk_bbc n]"
  "s_sib (fresh_volume n dev) = [2 + mk_bbc n..<2 + mk_bbc n + mk_ibc n]"
  "inode_table_offset (fresh_volume n dev) = 2 + mk_bbc n + mk_ibc n" "dirty (fresh_volume n dev) = {}"
  "s_dirt (fresh_volume n dev) = False"
  by (simp_all add: fresh_volume_def)

lemma split_index: "(b :: nat) = 8192 * (b div 8192) + b mod 8192" by simp

lemma fresh_volume_facts:
  assumes fm: "formatted S t dev" and n: "n = unat t" "44 \<le> n" "n < 2 ^ 25"
  defines "s \<equiv> fresh_volume n dev"
  shows "es s = new_super t" "data_start s = mk_data n" "blocks_count s = n" "inodes_count s = mk_inodes n"
    "used_block s b \<longleftrightarrow> b < Suc (mk_data n)" "used_ino s k \<longleftrightarrow> k < 11" "fs_wf s" "free_count_ok s"
proof -
  have t: "unat t < 2 ^ 31" using n by simp
  note N = new_super_sizes [OF t, folded n(1)] and U = new_super_used [OF t, folded n(1)]
  note F = mk_fits [of n] and B = mk_bounds [of n]
  show e: "es s = new_super t" using load_formatted(1) [OF fm] by (simp add: es_def s_def)
  show d: "data_start s = mk_data n" using N by (simp add: data_start_def e) (simp add: s_def F(4))
  show bc: "blocks_count s = n" and ic: "inodes_count s = mk_inodes n"
    using N n by (simp_all add: blocks_count_def inodes_count_def e)
  have FB: "bit_at (block_of dev (2 + j)) i \<longleftrightarrow> 8192 * j + i < Suc (mk_data n)" if "j < mk_bbc n" "i < 8192" for i j
    using fm that by (simp add: formatted_def Let_def n(1))
  have FI: "bit_at (block_of dev (2 + mk_bbc n + j)) i \<longleftrightarrow> 8192 * j + i < 11" if "j < mk_ibc n" "i < 8192" for i j
    using fm that by (simp add: formatted_def Let_def n(1))
  have in_bbc: "b < Suc (mk_data n) \<Longrightarrow> b div 8192 < mk_bbc n" for b
    using F(1) [OF n(2)] B(4) by (simp add: less_mult_imp_div_less)
  have "used_block s b \<longleftrightarrow> b div 8192 < mk_bbc n \<and> b < Suc (mk_data n)" for b
    using FB [of "b div 8192" "b mod 8192"] split_index [of b]
    by (auto simp: used_block_def used_bit_def s_def)
  then show ub: "used_block s b \<longleftrightarrow> b < Suc (mk_data n)" for b using in_bbc by blast
  have in_ibc: "k < 11 \<Longrightarrow> k div 8192 < mk_ibc n" for k
    using F(2) [OF n(2)] B(6) by (simp add: less_mult_imp_div_less)
  have "used_ino s k \<longleftrightarrow> k div 8192 < mk_ibc n \<and> k < 11"
    using FI [of "k div 8192" "k mod 8192"] split_index [of k]
    by (auto simp: used_ino_def used_bit_def s_def)
  then show "used_ino s k \<longleftrightarrow> k < 11" using in_ibc by blast
  have "mk_data n < n" by (rule F(1) [OF n(2)])
  then show "fs_wf s"
    using N B n d bc ic ub by (simp add: fs_wf_def e) (simp add: s_def)
  have "{b. b < n \<and> \<not> used_block s b} = {Suc (mk_data n)..<n}" by (auto simp: ub)
  moreover have "unat (s_free_blocks_count (new_super t)) = n - Suc (mk_data n)"
  proof -
    have "s_free_blocks_count (new_super t) = t - of_nat (Suc (mk_data n))"
      using N(5) by (simp flip: U)
    moreover have "of_nat (Suc (mk_data n)) \<le> t"
      using \<open>mk_data n < n\<close> n by (simp add: word_le_nat_alt unat_of_nat take_bit_nat_eq_self del: of_nat_Suc)
    ultimately show ?thesis
      using n \<open>mk_data n < n\<close> by (simp add: unat_sub unat_of_nat take_bit_nat_eq_self del: of_nat_Suc)
  qed
  ultimately show "free_count_ok s" by (simp add: free_count_ok_def bc e)
qed

lemma fill_super_run:
  assumes fm: "formatted S t dev" and n: "n = unat t" "44 \<le> n" "n < 2 ^ 25" and M: "mount_ok K M n fresh"
  shows "lkfs_fill_super K M bh (block_of dev) = mount_root K M bh (fresh_volume n dev)"
proof -
  have t: "unat t < 2 ^ 31" using n by simp
  note N = new_super_sizes [OF t, folded n(1)] and F = mk_fits [of n]
  have "mk_data n < n" by (rule F(1) [OF n(2)])
  then have rd: "bread_range K 2 (mk_bbc n) = ([2..<2 + mk_bbc n], True)"
    "bread_range K (2 + mk_bbc n) (mk_ibc n) = ([2 + mk_bbc n..<2 + mk_bbc n + mk_ibc n], True)"
    using M F(4) by (intro bread_range_ok; simp add: mount_ok_def)+
  have "sb_bread K 1 = Some 1" using M n by (simp add: mount_ok_def sb_bread_def)
  then have b1: "sb_bread K (Suc 0) = Some (Suc 0)" by simp
  have z: "s_inode_size (new_super t) = 128" by (simp add: new_super_def Let_def LKFS_INODE_SIZE_def)
  show ?thesis
    using M N rd b1 load_formatted(1) [OF fm]
    by (simp add: lkfs_fill_super_def mount_ok_def Let_def fresh_volume_def z)
qed

lemma fresh_root:
  assumes fm: "formatted S t dev" and n: "n = unat t" "44 \<le> n" "n < 2 ^ 25" and M: "mount_ok K M n fresh"
  shows "\<exists>root. lkfs_iget K (fresh_volume n dev) 2 = Ptr root \<and> i_ino root = 2 \<and> S_ISDIR (i_mode root)
    \<and> i_blocks root = 2 \<and> i_size root = 1024 \<and> i_nlink root = 2 \<and> i_ops root = DirOps
    \<and> unat (i_data root 0) = mk_data n \<and> (\<forall>k. 0 < k \<and> k < 23 \<longrightarrow> i_data root k = 0)"
proof -
  let ?s = "fresh_volume n dev" and ?r = "root_inode S (new_super t)"
  have t: "unat t < 2 ^ 31" using n by simp
  note N = new_super_sizes [OF t, folded n(1)] and F = mk_fits [of n]
  have dl: "mk_data n < n" "mk_data n < 2 ^ 21" using F n by auto
  have ib: "ino_block ?s 2 = 2 + mk_bbc n + mk_ibc n" "ino_off 2 = 128" by (simp_all add: ino_block_def ino_off_def)
  have "0 < mk_itc n" using mk_bounds [of n] F(2) n(2) by (auto intro!: Nat.gr0I)
  then have "k_bread_ok K (ino_block ?s 2)" using M dl(1) F(4) by (simp add: mount_ok_def ib)
  then have g: "lkfs_iget K ?s 2 = Ptr (read_raw (block_of dev (2 + mk_bbc n + mk_ibc n)) 128 fresh)"
    using M by (simp add: lkfs_iget_def mount_ok_def get_inode_eq ib)
  have l: "load_inode (block_of dev (2 + mk_bbc n + mk_ibc n)) 128 = ?r"
    using load_formatted(2) [OF fm] n(1) by simp
  have f: "i_ino fresh = 2" using M by (simp add: mount_ok_def)
  have d0: "unat (d_block ?r ! 0) = mk_data n"
    using N(2-4) dl(2) F(4) by (simp add: root_inode_def unat_word_ariths take_bit_nat_eq_self)
  have dk: "d_block ?r ! k = 0" if "0 < k" "k < 23" for k
    using that by (simp add: root_inode_def n_blocks nth_Cons')
  have md: "\<not> S_ISREG (d_mode ?r)" "S_ISDIR (d_mode ?r)" "d_size ?r = 1024" "d_links_count ?r = 2"
    by (simp_all add: root_inode_def S_ISREG_def S_ISDIR_def)
  show ?thesis
    unfolding g read_raw_load l using f d0 dk md by (auto simp: Let_def)
qed

section \<open>Properties\<close>

text \<open>C6: a device formatted by \<open>create_lkfs\<close> mounts: the mounted volume satisfies the invariant, its
  free counter is exact, the blocks up to the root directory's and the first eleven inode numbers
  are used, the root is a directory with the two entries \<open>.\<close> and \<open>..\<close> in its block, and the
  buffers held are those of the super block and the bitmaps.\<close>

theorem mkfs_mount:
  assumes "os_ok S (unat t)" "44 \<le> unat t" "unat t < 2 ^ 25" "mount_ok K M (unat t) fresh"
  shows "\<exists>dev' s root. create_lkfs S t dev = Inr (0, dev')
    \<and> lkfs_fill_super K M bh (block_of dev') = Inr (0, Some (s, root), s_sbh s # s_sbb s @ s_sib s)
    \<and> fs_wf s \<and> free_count_ok s \<and> blocks_count s = unat t
    \<and> (\<forall>b. used_block s b \<longleftrightarrow> b \<le> data_start s) \<and> (\<forall>k. used_ino s k \<longleftrightarrow> k < 11)
    \<and> i_ino root = 2 \<and> S_ISDIR (i_mode root) \<and> i_nlink root = 2 \<and> unat (i_data root 0) = data_start s
    \<and> dir_wf root (\<lambda>_. bufs s (data_start s)) \<and> dir_list root (\<lambda>_. bufs s (data_start s)) = [([46], 2), ([46, 46], 2)]"
proof -
  obtain dev' where c: "create_lkfs S t dev = Inr (0, dev')" "formatted S t dev'"
    using create_lkfs_run [OF assms(1) refl assms(2,3)] by blast
  let ?s = "fresh_volume (unat t) dev'"
  note V = fresh_volume_facts [OF c(2) refl assms(2,3)]
  obtain root where r: "lkfs_iget K ?s 2 = Ptr root" "i_ino root = 2" "S_ISDIR (i_mode root)" "i_blocks root = 2"
    "i_size root = 1024" "i_nlink root = 2" "unat (i_data root 0) = mk_data (unat t)"
    using fresh_root [OF c(2) refl assms(2-4)] by blast
  have "lkfs_fill_super K M bh (block_of dev') = Inr (0, Some (?s, root), s_sbh ?s # s_sbb ?s @ s_sib ?s)"
    unfolding fill_super_run [OF c(2) refl assms(2-4)]
    using r assms(4) by (simp add: mount_root_def LKFS_ROOT_INO_def mount_ok_def)
  moreover have "data_start ?s = mk_data (unat t)" by (rule V(2))
  moreover
  have blk: "bufs ?s (data_start ?s) = block_of (create_new_dir_block_template 2 2) 0"
    using c(2) V(2) by (simp add: formatted_def Let_def)
  have ch: "chain (bufs ?s (data_start ?s)) 0 [0, 12] 1024"
    "live (bufs ?s (data_start ?s)) [0, 12] = [(dot, 2), (dotdot, 2)]"
    unfolding blk by (rule template_chain; simp)+
  have "dir_wf root (\<lambda>_. bufs ?s (data_start ?s))"
    "dir_list root (\<lambda>_. bufs ?s (data_start ?s)) = [([46], 2), ([46, 46], 2)]"
    using one_page_dir(1,2) [where pg = "\<lambda>_. bufs ?s (data_start ?s)", OF r(5) ch(1)] ch(2) by auto
  ultimately show ?thesis
    using c(1) V r
    by (intro exI [of _ dev'] exI [of _ ?s] exI [of _ root]) (simp add: less_Suc_eq_le)
qed

theorem mkfs_mount_witness:
  "\<exists>zero_mem' s root. create_lkfs plain_os 128 zero_mem = Inr (0, zero_mem')
    \<and> lkfs_fill_super plain_vfs plain_mount None (block_of zero_mem') = Inr (0, Some (s, root), s_sbh s # s_sbb s @ s_sib s)
    \<and> fs_wf s \<and> blocks_count s = 128 \<and> dir_list root (\<lambda>_. bufs s (data_start s)) = [([46], 2), ([46, 46], 2)]"
proof -
  have "mount_ok plain_vfs plain_mount (unat (128 :: u32)) (blank_inode\<lparr>i_ino := 2\<rparr>)"
    by (simp add: mount_ok_def plain_mount_def)
  from mkfs_mount [OF plain_os_ok _ _ this, where dev = zero_mem and bh = None] show ?thesis by auto
qed

text \<open>a block device without the magic number, or with a bitmap block that cannot be read, is not
  mounted and the mount fails with \<open>-EINVAL\<close>; in the second case the bitmap buffers read so far stay
  referenced for ever.\<close>

lemma mount_failures:
  assumes "m_kzalloc_ok M 0" "m_kzalloc_ok M 1" "0 < m_min_blocksize M" "m_b_size M = m_min_blocksize M" "k_bread_ok K 1"
    and sb: "sb = load_super (disk 1) 0"
  shows "(s_magic sb \<noteq> LKFS_SUPER_MAGIC \<longrightarrow> lkfs_fill_super K M bh disk = Inr (- EINVAL, None, []))
    \<and> (\<forall>j. s_magic sb = LKFS_SUPER_MAGIC \<and> j < unat (s_block_bitmap_count sb) \<and> \<not> k_bread_ok K (2 + j)
          \<and> (\<forall>i < j. k_bread_ok K (2 + i)) \<longrightarrow>
          lkfs_fill_super K M bh disk = Inr (- EINVAL, None, [2..<2 + j]))"
proof (intro conjI allI impI)
  have b: "sb_bread K (Suc 0) = Some (Suc 0)" using assms(5) by (simp add: sb_bread_def)
  show "lkfs_fill_super K M bh disk = Inr (- EINVAL, None, [])" if "s_magic sb \<noteq> LKFS_SUPER_MAGIC"
    using assms that b by (simp add: lkfs_fill_super_def Let_def)
  fix j assume a: "s_magic sb = LKFS_SUPER_MAGIC \<and> j < unat (s_block_bitmap_count sb) \<and> \<not> k_bread_ok K (2 + j)
          \<and> (\<forall>i < j. k_bread_ok K (2 + i))"
  then have "(LEAST i. \<not> k_bread_ok K (2 + i)) = j" by (intro Least_equality) (auto simp: not_less [symmetric])
  moreover have "\<not> (\<forall>i < unat (s_block_bitmap_count sb). k_bread_ok K (2 + i))" using a by blast
  ultimately have "bread_range K 2 (unat (s_block_bitmap_count sb)) = ([2..<2 + j], False)"
    unfolding bread_range_run by (simp only: if_False)
  then show "lkfs_fill_super K M bh disk = Inr (- EINVAL, None, [2..<2 + j])"
    using assms a b by (simp add: lkfs_fill_super_def Let_def)
qed

theorem mount_failures_witness:
  "lkfs_fill_super plain_vfs plain_mount None (\<lambda>_. zero_mem) = Inr (- EINVAL, None, [])"
proof -
  have "m_kzalloc_ok plain_mount i" "0 < m_min_blocksize plain_mount" "m_b_size plain_mount = m_min_blocksize plain_mount"
    "k_bread_ok plain_vfs 1" for i by (simp_all add: plain_mount_def)
  moreover have "s_magic (load_super zero_mem 0) \<noteq> LKFS_SUPER_MAGIC"
    by (simp add: load_super_def get16_def zero_mem_def LKFS_SUPER_MAGIC_def)
  ultimately show ?thesis
    using mount_failures [of plain_mount plain_vfs "load_super zero_mem 0" "\<lambda>_. zero_mem" None] by blast
qed

lemma brelse_all_run: "n \<le> length arr \<Longrightarrow> brelse_all arr n held = Inr (fold remove1 (take n arr) held)"
proof (induction arr arbitrary: n held)
  case (Cons h arr)
  then show ?case by (cases n) simp_all
qed simp

lemma remove_prefix: "fold remove1 xs (xs @ ys) = ys"
  by (induction xs) simp_all

lemma remove_after: "x \<notin> set xs \<Longrightarrow> fold remove1 xs (x # ys) = x # fold remove1 xs ys"
  by (induction xs arbitrary: ys) auto

text \<open>unmounting a writable volume writes the super block in memory, free counters included, to the
  device, leaves it clean, and releases every buffer the mount held.\<close>

lemma put_super_correct:
  assumes "fs_wf s"
  shows "\<exists>s'. lkfs_put_super False s disk (s_sbh s # s_sbb s @ s_sib s) = Inr (s', disk(1 := bufs s 1), [])
    \<and> 1 \<notin> dirty s' \<and> s_dirt s' = False \<and> load_super ((disk(1 := bufs s 1)) 1) 0 = es s"
proof -
  note W = fs_wfD [OF assms] and B = fs_wf_sets [OF assms]
  obtain s' where s: "lkfs_sync_super True (fst (if s_dirt s then lkfs_write_super s disk else (s, disk)))
        (snd (if s_dirt s then lkfs_write_super s disk else (s, disk))) = (s', disk(1 := bufs s 1))"
    "bufs s' = bufs s" "s_sbh s' = 1" "s_sbb s' = s_sbb s" "s_sib s' = s_sib s" "1 \<notin> dirty s'" "s_dirt s' = False"
    using W(1) by (auto simp: lkfs_sync_super_def lkfs_write_super_def sync_dirty_buffer_def Let_def mark_buffer_dirty_def)
  have e: "es s' = es s" using s(2,3) W(1) by (simp add: es_def)
  have n1: "1 \<notin> set (s_sbb s)" "1 \<notin> set (s_sib s)" using B(3,4) by blast+
  have r: "brelse_all (s_sbb s') (unat (s_block_bitmap_count (es s'))) (s_sbh s # s_sbb s @ s_sib s) = Inr (1 # s_sib s)"
    using W(1,4) n1(1) by (simp add: brelse_all_run s(4) e remove_after remove_prefix)
  have r2: "brelse_all (s_sib s') (unat (s_inode_bitmap_count (es s'))) (1 # s_sib s) = Inr [1]"
    using W(5) n1(2) remove_prefix [of "s_sib s" "[]"] by (simp add: brelse_all_run s(5) e remove_after)
  have "lkfs_put_super False s disk (s_sbh s # s_sbb s @ s_sib s) = Inr (s', disk(1 := bufs s 1), [])"
    using s(1) r r2 s(3) by (simp add: lkfs_put_super_def split_beta Let_def)
  then show ?thesis using s(6,7) W(1) by (simp add: es_def)
qed

theorem put_super_correct_witness:
  "\<exists>s'. lkfs_put_super False (sample_fs 9 11) (\<lambda>_. zero_mem) [1, 2, 3]
      = Inr (s', (\<lambda>_. zero_mem)(1 := bufs (sample_fs 9 11) 1), [])"
  using put_super_correct [OF sample_fs_wf, of 9 11 "\<lambda>_. zero_mem"] by auto

end
