(* ===== verification/Writeback.thy ===== *)
theory Writeback
  imports Mount_Props
begin

text \<open>
  What reaches the device. An operation is \<open>tracked\<close> when every buffer it changes is marked dirty,
  so that flushing the dirty buffers leaves the device equal to the buffer cache, and mounting the
  device again finds the same volume.
\<close>

section \<open>Tracked changes\<close>

text \<open>The device and the cache agree on every clean buffer.\<close>

definition in_step :: "(nat \<Rightarrow> mem) \<Rightarrow> lkfs \<Rightarrow> bool" where
  "in_step disk s \<longleftrightarrow> (\<forall>b. b \<notin> dirty s \<longrightarrow> bufs s b = disk b)"

lemma tracked_in_step: "tracked s s' \<Longrightarrow> in_step disk s \<Longrightarrow> in_step disk s'"
  by (auto simp: tracked_def in_step_def)

text \<open>The pieces the operations are made of: a change followed by its mark.\<close>

lemma tracked_free_meta_block: "lkfs_free_meta_block K b s = Inr s' \<Longrightarrow> tracked s s'"
  by (auto simp: lkfs_free_meta_block_def Let_def bufs_set_free tracked_def split: if_splits)

lemma tracked_free_block: "lkfs_free_block K off b (nd, s) = Inr (nd', s') \<Longrightarrow> tracked s s'"
  by (auto simp: lkfs_free_block_def Let_def bufs_set_free tracked_def split: if_splits)

lemma tracked_free_inode: "lkfs_free_inode K nd s = Inr s' \<Longrightarrow> tracked s s'"
  by (auto simp: lkfs_free_inode_def Let_def bufs_set_free tracked_def split: if_splits)

lemma tracked_write_inode: "lkfs_write_inode K nd s = (err, nd', s') \<Longrightarrow> tracked s s'"
  by (auto simp: lkfs_write_inode_def Let_def tracked_def split: kptr.splits)

section \<open>Truncation and deletion\<close>

lemma tracked_free_entries: "free_entries K bh i c s = Inr s' \<Longrightarrow> tracked s s'"
proof (induction c arbitrary: i s)
  case (Suc c)
  then show ?case by (auto simp: rbind_eq_Inr intro: tracked_trans tracked_free_meta_block)
qed simp

lemma tracked_free_meta_blocks: "lkfs_free_meta_blocks K b n flag s = Inr s' \<Longrightarrow> tracked s s'"
  by (auto simp: lkfs_free_meta_blocks_def rbind_eq_Inr split: if_splits
      dest!: tracked_free_entries tracked_free_meta_block intro: tracked_trans)

lemma tracked_free_direct: "free_direct K i c (nd, s) = Inr (nd', s') \<Longrightarrow> tracked s s'"
proof (induction c arbitrary: i nd s)
  case (Suc c)
  then show ?case
    by (fastforce simp: rbind_eq_Inr split: if_splits intro: tracked_trans tracked_free_block)
qed simp

lemma tracked_free_dind: "free_dind K bh i c s = Inr s' \<Longrightarrow> tracked s s'"
proof (induction c arbitrary: i s)
  case (Suc c)
  then show ?case by (auto simp: rbind_eq_Inr intro: tracked_trans tracked_free_meta_blocks)
qed simp

lemmas tracked_pieces = tracked_free_direct tracked_free_meta_blocks tracked_free_block tracked_free_dind

lemma tracked_truncate:
  assumes "lkfs_truncate_blocks K bh nd s = Inr (nd', s', bh')"
  shows "tracked s s'"
proof -
  consider (direct) "(i_size nd + 1023) div 2 ^ 10 < LKFS_NDIR_BLOCKS"
    | (ind) "\<not> (i_size nd + 1023) div 2 ^ 10 < LKFS_NDIR_BLOCKS" "(i_size nd + 1023) div 2 ^ 10 - LKFS_NDIR_BLOCKS < 256"
    | (rest) "\<not> (i_size nd + 1023) div 2 ^ 10 < LKFS_NDIR_BLOCKS" "\<not> (i_size nd + 1023) div 2 ^ 10 - LKFS_NDIR_BLOCKS < 256"
    by blast
  then show ?thesis
  proof cases
    case direct
    with assms show ?thesis
      by (auto simp: lkfs_truncate_blocks_def Let_def rbind_eq_Inr dest: tracked_pieces)
  next
    case ind
    with assms show ?thesis
      by (auto simp: lkfs_truncate_blocks_def Let_def rbind_eq_Inr dest!: tracked_pieces intro: tracked_trans)
  next
    case rest
    with assms show ?thesis
      unfolding lkfs_truncate_blocks_def Let_def
      by (simp add: rbind_eq_Inr split: if_splits)
         (elim conjE exE, (drule tracked_pieces)+, (blast intro: tracked_trans)?)
  qed
qed

lemma tracked_delete_inode:
  assumes "lkfs_delete_inode K bad bh nd s = Inr (nd', s')"
  shows "tracked s s'"
proof (cases bad)
  case True
  with assms show ?thesis by (simp add: lkfs_delete_inode_def)
next
  case False
  obtain err nd1 s1 where w: "lkfs_write_inode K nd s = (err, nd1, s1)" by (metis surj_pair)
  note t1 = tracked_write_inode [OF w]
  show ?thesis
    using assms False w
    by (auto simp: lkfs_delete_inode_def Let_def rbind_eq_Inr split: if_splits
        dest!: tracked_truncate tracked_free_inode intro: tracked_trans [OF t1] tracked_trans)
qed

section \<open>New inodes\<close>

text \<open>
  Claiming a number changes the bitmap without marking it when the inode is refused; dropping the
  inode then frees the same number, and that marks the same bitmap buffer.
\<close>

lemma free_direct_ino: "free_direct K i c (nd, s) = Inr (nd', s') \<Longrightarrow> i_ino nd' = i_ino nd"
  by (induction c arbitrary: i nd s)
     (fastforce simp: rbind_eq_Inr lkfs_free_block_def Let_def split: if_splits)+

lemma truncate_ino:
  assumes "lkfs_truncate_blocks K bh nd s = Inr (nd', s', bh')"
  shows "i_ino nd' = i_ino nd"
proof -
  consider (direct) "(i_size nd + 1023) div 2 ^ 10 < LKFS_NDIR_BLOCKS"
    | (ind) "\<not> (i_size nd + 1023) div 2 ^ 10 < LKFS_NDIR_BLOCKS" "(i_size nd + 1023) div 2 ^ 10 - LKFS_NDIR_BLOCKS < 256"
    | (rest) "\<not> (i_size nd + 1023) div 2 ^ 10 < LKFS_NDIR_BLOCKS" "\<not> (i_size nd + 1023) div 2 ^ 10 - LKFS_NDIR_BLOCKS < 256"
    by blast
  then show ?thesis
    using assms
    by cases (auto simp: lkfs_truncate_blocks_def Let_def rbind_eq_Inr lkfs_free_block_def
        dest: free_direct_ino split: if_splits)
qed

lemma delete_inode_marks:
  assumes "lkfs_delete_inode K False bh nd s = Inr (nd', s')"
  shows "s_sib s ! (i_ino nd div 8192) \<in> dirty s'"
proof -
  obtain err nd1 s1 where w: "lkfs_write_inode K nd s = (err, nd1, s1)" by (metis surj_pair)
  have i1: "i_ino nd1 = i_ino nd"
    using w by (auto simp: lkfs_write_inode_def written_back_def Let_def split: kptr.splits)
  have sib: "tracked s t \<Longrightarrow> s_sib t = s_sib s" for t by (simp add: tracked_def)
  have free: "s_sib t ! (i_ino nd2 div 8192) \<in> dirty u" if "lkfs_free_inode K nd2 t = Inr u" for nd2 t u
    using that by (auto simp: lkfs_free_inode_def Let_def LKFS_BITS_PER_BLOCKS_def split: if_splits)
  show ?thesis
  proof (cases "i_size nd1 = 0")
    case True
    with assms w obtain nd2 where "lkfs_free_inode K nd2 s1 = Inr s'" "i_ino nd2 = i_ino nd1"
      by (auto simp: lkfs_delete_inode_def Let_def rbind_eq_Inr)
    with free [of nd2 s1 s'] sib [OF tracked_write_inode [OF w]] i1 show ?thesis by simp
  next
    case False
    with assms w obtain nd2 s2 bh2 nd3 where t: "lkfs_truncate_blocks K bh nd1 s1 = Inr (nd2, s2, bh2)"
      and "lkfs_free_inode K nd3 s2 = Inr s'" "i_ino nd3 = i_ino nd2"
      by (auto simp: lkfs_delete_inode_def Let_def rbind_eq_Inr)
    with free [of nd3 s2 s'] sib [OF tracked_trans [OF tracked_write_inode [OF w] tracked_truncate [OF t]]]
      truncate_ino [OF t] i1 show ?thesis by simp
  qed
qed

lemma claim_ino_tracked:
  assumes "s_sib s ! (n div 8192) \<in> dirty s'" "tracked (claim_ino K n s) s'"
  shows "tracked s s'"
proof -
  let ?f = "flip_ino (\<lambda>m. snd (k_test_and_set_le_bit K (n mod 8192) m)) (- 1) n s"
  have "dirty (claim_ino K n s) = insert (s_sbh s) (dirty s)" "s_sib (claim_ino K n s) = s_sib s"
    by (simp_all add: claim_ino_def flip_ino_def Let_def)
  moreover have "bufs (claim_ino K n s) x = bufs s x" if "x \<noteq> s_sbh s" "x \<noteq> s_sib s ! (n div 8192)" for x
    using that by (simp add: claim_ino_def flip_ino_def Let_def bufs_set_free)
  ultimately show ?thesis using assms unfolding tracked_def by (metis insert_subset)
qed

lemma tracked_new_inode:
  assumes wf: "fs_wf s" and K: "bits_spec K" and r: "lkfs_new_inode K bh dir mode s = Inr (p, s')"
  shows "tracked s s'"
proof (cases "k_new_inode K")
  case None
  with r show ?thesis by (simp add: lkfs_new_inode_def new_inode_claim_def)
next
  case (Some nd)
  have drop: "tracked t s' \<and> s_sib t ! (i_ino nd2 div 8192) \<in> dirty s'"
    if "new_inode_claim K dir mode s = Inr (Dropped nd2 e, t)" for nd2 e t
  proof -
    from r that obtain nd3 where d: "lkfs_delete_inode K False bh (nd2\<lparr>i_nlink := 0\<rparr>) t = Inr (nd3, s')"
      by (auto simp: lkfs_new_inode_def iput_def rbind_eq_Inr)
    show ?thesis using tracked_delete_inode [OF d] delete_inode_marks [OF d] by simp
  qed
  show ?thesis
  proof (cases "s_sib s = []")
    case True
    then have "new_inode_claim K dir mode s = Inl OutOfBounds \<or> new_inode_claim K dir mode s = Inr (Dropped nd (k_garbage K), s)"
      using fs_wfD(5) [OF wf] Some by (simp add: new_inode_claim_def)
    then show ?thesis using r drop by (auto simp: lkfs_new_inode_def)
  next
    case ne: False
    note run = new_inode_claim_run [OF wf K Some ne]
    show ?thesis
    proof (cases "\<forall>n < inodes_count s. used_ino s n")
      case True
      from drop [OF run(2) [OF True]] show ?thesis by simp
    next
      case False
      then obtain k where k: "k < inodes_count s" "\<not> used_ino s k" by blast
      then have "k < 8192 * length (s_sib s)" using fs_wfD(8) [OF wf] by simp
      from lowest_free_ino_exists [OF this k(2)] k(1) obtain n where
        n: "lowest_free_ino s n" "n < inodes_count s" by auto
      have ino: "i_ino (fresh_inode K nd dir mode n) = n" by (simp add: fresh_inode_def)
      show ?thesis
      proof (cases "k_insert_inode_ok K n")
        case True
        with run(1) [OF n, of dir mode] r have s': "s' = mark_buffer_dirty (s_sib s ! (n div 8192)) (claim_ino K n s)"
          by (simp add: lkfs_new_inode_def)
        show ?thesis by (rule claim_ino_tracked [of s n _ K]) (auto simp: s' tracked_def)
      next
        case False
        with run(1) [OF n, of dir mode] drop [of "fresh_inode K nd dir mode n" "- EINVAL" "claim_ino K n s"] ino
        show ?thesis
          by (intro claim_ino_tracked [of s n _ K]) (simp_all add: claim_ino_def flip_ino_def Let_def)
      qed
    qed
  qed
qed

section \<open>Sequences of operations\<close>

text \<open>
  The operations that change the volume below the page cache, and a sequence of them: allocation and
  freeing of blocks, mapping of a file block, creation, writing, truncation and deletion of inodes.
\<close>

datatype vol_op =
  NewBlock | NewIndBlock nat nat | FreeBlock u32 | MapBlock inode nat | NewInode "nat option" inode u16
  | WriteInode inode | TruncateInode "nat option" inode | DeleteInode "nat option" inode

fun vol_step :: "'v vfs_scheme \<Rightarrow> vol_op \<Rightarrow> lkfs \<Rightarrow> lkfs res" where
  "vol_step K NewBlock s = rbind (lkfs_new_blocks K s) (\<lambda>(b, s). Inr s)"
| "vol_step K (NewIndBlock bh k) s = rbind (lkfs_new_ind_blocks K bh k s) (\<lambda>(b, s). Inr s)"
| "vol_step K (FreeBlock b) s = lkfs_free_meta_block K b s"
| "vol_step K (MapBlock nd ib) s = rbind (lkfs_get_block K nd ib 1024 s) (\<lambda>(ret, sz, b, nd, s). Inr s)"
| "vol_step K (NewInode bh dir mode) s = rbind (lkfs_new_inode K bh dir mode s) (\<lambda>(p, s). Inr s)"
| "vol_step K (WriteInode nd) s = (let (err, nd, s) = lkfs_write_inode K nd s in Inr s)"
| "vol_step K (TruncateInode bh nd) s = rbind (lkfs_truncate_blocks K bh nd s) (\<lambda>(nd, s, bh). Inr s)"
| "vol_step K (DeleteInode bh nd) s = rbind (lkfs_delete_inode K False bh nd s) (\<lambda>(nd, s). Inr s)"

fun vol_run :: "'v vfs_scheme \<Rightarrow> vol_op list \<Rightarrow> lkfs \<Rightarrow> lkfs res" where
  "vol_run K [] s = Inr s"
| "vol_run K (c # cs) s = rbind (vol_step K c s) (vol_run K cs)"

text \<open>
  What is asked of two of them. A new pointer block is cleared before it is linked, so that a mapping
  which runs out of blocks half way leaves a cleared buffer unmarked: the blocks must suffice. A new
  inode is claimed on a well-formed volume. Nothing is asked of the others.
\<close>

fun step_ok :: "'v vfs_scheme \<Rightarrow> vol_op \<Rightarrow> lkfs \<Rightarrow> bool" where
  "step_ok K (MapBlock nd ib) s =
     (ready K s nd \<and> (ib < max_blocks \<longrightarrow> length (holes s nd (path ib)) \<le> free_blocks s))"
| "step_ok K (NewInode bh dir mode) s = (fs_wf s \<and> bits_spec K)"
| "step_ok K c s = True"

fun run_ok :: "'v vfs_scheme \<Rightarrow> vol_op list \<Rightarrow> lkfs \<Rightarrow> bool" where
  "run_ok K [] s = True"
| "run_ok K (c # cs) s = (step_ok K c s \<and> (case vol_step K c s of Inl e \<Rightarrow> True | Inr t \<Rightarrow> run_ok K cs t))"

lemma tracked_get_block:
  assumes "lkfs_get_block K nd ib z s = Inr (ret, sz, b, nd', s')" "ready K s nd"
    "ib < max_blocks \<Longrightarrow> length (holes s nd (path ib)) \<le> free_blocks s"
  shows "tracked s s'"
proof (cases "ib < max_blocks")
  case True
  obtain r b nd1 where "lkfs_get_blocks K nd ib s = Inr (r, b, nd1, s')"
    using assms(1) by (auto simp: lkfs_get_block_def rbind_eq_Inr split: if_splits)
  from get_blocks_tracked [OF assms(2) assms(3) [OF True] this True] show ?thesis .
next
  case False
  with assms(1) get_block_too_big [of ib K nd z s] show ?thesis by simp
qed

lemma tracked_step:
  assumes "vol_step K c s = Inr s'" "step_ok K c s"
  shows "tracked s s'"
proof (cases c)
  case (WriteInode nd)
  obtain err nd1 s1 where w: "lkfs_write_inode K nd s = (err, nd1, s1)" by (metis surj_pair)
  with assms(1) WriteInode tracked_write_inode [OF w] show ?thesis by simp
next
  case (MapBlock nd ib)
  with assms show ?thesis by (auto simp: rbind_eq_Inr intro: tracked_get_block)
next
  case (NewInode bh dir mode)
  with assms show ?thesis by (auto simp: rbind_eq_Inr intro: tracked_new_inode)
qed (use assms(1) in \<open>auto simp: rbind_eq_Inr intro: tracked_new_blocks tracked_new_ind_blocks
      tracked_free_meta_block tracked_delete_inode tracked_truncate\<close>)

lemma tracked_run: "vol_run K cs s = Inr s' \<Longrightarrow> run_ok K cs s \<Longrightarrow> tracked s s'"
proof (induction cs arbitrary: s)
  case (Cons c cs)
  then obtain t where t: "vol_step K c s = Inr t" "vol_run K cs t = Inr s'" by (auto simp: rbind_eq_Inr)
  with Cons.prems(2) Cons.IH [OF t(2)] tracked_step [OF t(1)] tracked_trans show ?case by auto
qed simp

section \<open>Flushing and mounting again\<close>

definition flush :: "(nat \<Rightarrow> mem) \<Rightarrow> lkfs \<Rightarrow> nat \<Rightarrow> mem" where
  "flush disk s = (\<lambda>b. if b \<in> dirty s then bufs s b else disk b)"

lemma flush_in_step: "in_step disk s \<Longrightarrow> flush disk s = bufs s"
  by (auto simp: flush_def in_step_def fun_eq_iff)

text \<open>C31: no change is lost: over any sequence of block and inode operations (allocating and freeing
  blocks, mapping file blocks, creating, writing, truncating and deleting inodes, failures included),
  every buffer that differs from the device is marked dirty, so that flushing leaves the device equal to
  the buffer cache. File blocks are mapped for well-formed files with enough free blocks, and inodes
  are created on a well-formed volume.\<close>

theorem changes_reach_the_device:
  assumes "in_step disk s" "vol_run K cs s = Inr s'" "run_ok K cs s"
  shows "in_step disk s' \<and> flush disk s' = bufs s'"
  using tracked_in_step [OF tracked_run [OF assms(2,3)] assms(1)] flush_in_step by blast

lemma sample_map_run:
  "\<exists>s'. vol_run plain_vfs [MapBlock blank_inode 300, FreeBlock 8] (sample_fs 10 11) = Inr s'
     \<and> run_ok plain_vfs [MapBlock blank_inode 300, FreeBlock 8] (sample_fs 10 11)"
proof -
  let ?s = "sample_fs 10 11"
  have r: "ready plain_vfs ?s blank_inode"
    using plain_vfs_bits by (simp add: ready_def sample_fs_wf imap_wf_blank readable_def)
  have f: "length (holes ?s blank_inode (path 300)) \<le> free_blocks ?s"
    using holes_le [of ?s blank_inode 300] by (simp add: sample_free_blocks)
  from get_blocks_effect [OF r _ f] obtain t nd where
    g: "lkfs_get_blocks plain_vfs blank_inode 300 ?s = Inr (1, Some (bmap t nd 300), nd, t)" and w: "ready plain_vfs t nd"
    by (auto simp: max_blocks_def)
  have st: "vol_step plain_vfs (MapBlock blank_inode 300) ?s = Inr t" by (simp add: lkfs_get_block_def g)
  have wf: "fs_wf t" using w by (simp add: ready_def)
  have "s_sbb t \<noteq> []" using fs_wfD(6,10,12,13) [OF wf] by auto
  then obtain s' where "vol_step plain_vfs (FreeBlock 8) t = Inr s'"
    by (simp add: lkfs_free_meta_block_def Let_def kdefs)
  with st r f show ?thesis by (intro exI [of _ s']) simp
qed

theorem changes_reach_the_device_witness:
  "\<exists>s'. vol_run plain_vfs [MapBlock blank_inode 300, FreeBlock 8] (sample_fs 10 11) = Inr s'
     \<and> flush (bufs (sample_fs 10 11)) s' = bufs s'"
proof -
  have i: "in_step (bufs (sample_fs 10 11)) (sample_fs 10 11)" by (simp add: in_step_def)
  obtain s' where r: "vol_run plain_vfs [MapBlock blank_inode 300, FreeBlock 8] (sample_fs 10 11) = Inr s'"
    "run_ok plain_vfs [MapBlock blank_inode 300, FreeBlock 8] (sample_fs 10 11)" using sample_map_run by blast
  from changes_reach_the_device [OF i r] r(1) show ?thesis by blast
qed

text \<open>unmounting and mounting again loses nothing: when the dirty buffers of a consistent volume have
  been flushed, \<open>lkfs_fill_super\<close> finds the same buffers, the same super block and counters, the
  same used blocks and inode numbers, and the same root.\<close>

lemma remount_same:
  assumes "fs_wf s" "in_step disk s" "s_magic (es s) = LKFS_SUPER_MAGIC" "mount_ok K M (blocks_count s) fresh"
    "lkfs_iget K s 2 = Ptr root" "S_ISDIR (i_mode root)" "i_blocks root \<noteq> 0" "i_size root \<noteq> 0"
  shows "\<exists>s'. lkfs_fill_super K M bh (flush disk s) = Inr (0, Some (s', root), s_sbh s # s_sbb s @ s_sib s)
    \<and> bufs s' = bufs s \<and> es s' = es s \<and> used_block s' = used_block s \<and> used_ino s' = used_ino s \<and> fs_wf s'"
proof -
  note W = fs_wfD [OF assms(1)] and F = assms(1) [unfolded fs_wf_def]
  let ?b = "length (s_sbb s)" and ?i = "length (s_sib s)"
  define t where "t = \<lparr>bufs = bufs s, dirty = {}, s_sbh = 1, s_sbb = [2..<2 + ?b], s_sib = [2 + ?b..<2 + ?b + ?i],
     block_bitmap_offset = 2, inode_bitmap_offset = 2 + ?b, inode_table_offset = 2 + ?b + ?i,
     sbi_inode_size = unat (s_inode_size (es s)), s_dirt = False\<rparr>"
  have sb: "load_super (bufs s 1) 0 = es s" using W(1) by (simp add: es_def)
  have lt: "2 + ?b + ?i \<le> blocks_count s" using F W(10,12) by simp
  then have rd: "bread_range K 2 ?b = ([2..<2 + ?b], True)" "bread_range K (2 + ?b) ?i = ([2 + ?b..<2 + ?b + ?i], True)"
    using assms(4) by (intro bread_range_ok; simp add: mount_ok_def)+
  have b1: "sb_bread K (Suc 0) = Some (Suc 0)" using assms(4) lt by (simp add: mount_ok_def sb_bread_def)
  have run: "lkfs_fill_super K M bh (bufs s) = mount_root K M bh t"
    using assms(3,4) rd b1 sb W(4,5) by (simp add: lkfs_fill_super_def mount_ok_def Let_def t_def)
  have ts: "s_sbh t = s_sbh s" "s_sbb t = s_sbb s" "s_sib t = s_sib s" "inode_table_offset t = inode_table_offset s"
    "bufs t = bufs s" using F by (simp_all add: t_def)
  then have e: "es t = es s" "used_block t = used_block s" "used_ino t = used_ino s"
    by (simp_all add: es_def used_block_def used_ino_def)
  have g: "same_geometry s t" using ts e by (simp add: same_geometry_def)
  have "fs_wf t" by (rule fs_wf_step [OF assms(1) g]) (simp add: e)
  moreover have "lkfs_iget K t 2 = Ptr root"
  proof -
    have "lkfs_get_inode K t 2 = lkfs_get_inode K s 2" using ts(4) by (simp add: lkfs_get_inode_def)
    then have "lkfs_iget K t 2 = lkfs_iget K s 2" by (simp only: lkfs_iget_def ts(5))
    then show ?thesis using assms(5) by simp
  qed
  ultimately show ?thesis
    unfolding flush_in_step [OF assms(2)] run
    using assms(4,6-8) ts e by (intro exI [of _ t]) (simp add: mount_root_def LKFS_ROOT_INO_def mount_ok_def)
qed

theorem remount_same_witness:
  "\<exists>dev s root s'. create_lkfs plain_os 128 zero_mem = Inr (0, dev)
     \<and> lkfs_fill_super plain_vfs plain_mount None (block_of dev) = Inr (0, Some (s, root), s_sbh s # s_sbb s @ s_sib s)
     \<and> lkfs_fill_super plain_vfs plain_mount None (flush (block_of dev) s) = Inr (0, Some (s', root), s_sbh s # s_sbb s @ s_sib s)
     \<and> used_block s' = used_block s"
proof -
  let ?fresh = "blank_inode\<lparr>i_ino := 2\<rparr>" and ?n = "unat (128 :: u32)"
  have m: "mount_ok plain_vfs plain_mount ?n ?fresh" by (simp add: mount_ok_def plain_mount_def)
  obtain dev where c: "create_lkfs plain_os 128 zero_mem = Inr (0, dev)" "formatted plain_os 128 dev"
    using create_lkfs_run [OF plain_os_ok refl, of "128 :: u32" zero_mem] by auto
  let ?s = "fresh_volume ?n dev"
  note V = fresh_volume_facts [OF c(2) refl, simplified]
  obtain root where r: "lkfs_iget plain_vfs ?s 2 = Ptr root" "S_ISDIR (i_mode root)" "i_blocks root = 2" "i_size root = 1024"
    using fresh_root [OF c(2) refl _ _ m] by auto
  have run: "lkfs_fill_super plain_vfs plain_mount None (block_of dev) = mount_root plain_vfs plain_mount None ?s"
    using fill_super_run [OF c(2) refl _ _ m] by simp
  have first: "lkfs_fill_super plain_vfs plain_mount None (block_of dev) = Inr (0, Some (?s, root), s_sbh ?s # s_sbb ?s @ s_sib ?s)"
    unfolding run using r m by (simp add: mount_root_def LKFS_ROOT_INO_def mount_ok_def)
  have "s_magic (es ?s) = LKFS_SUPER_MAGIC" using V(1) by (simp add: new_super_def Let_def)
  moreover have "mount_ok plain_vfs plain_mount (blocks_count ?s) ?fresh" using m V(3) by simp
  moreover have "in_step (block_of dev) ?s" by (simp add: in_step_def)
  moreover have "fs_wf ?s" using V(7) by simp
  ultimately have "\<exists>s'. lkfs_fill_super plain_vfs plain_mount None (flush (block_of dev) ?s)
       = Inr (0, Some (s', root), s_sbh ?s # s_sbb ?s @ s_sib ?s) \<and> used_block s' = used_block ?s"
    using remount_same [of ?s "block_of dev" plain_vfs plain_mount ?fresh root None] r by auto
  then show ?thesis using c(1) first by blast
qed

end
