(* ===== verification/Xprintf.thy ===== *)
theory Xprintf
  imports Lkfs_Base
begin

text \<open>
  The console's text routines, \<open>src/lcd-demo/src/xprintf.c\<close>: number parsing and printing, the
  small \<open>printf\<close> and the line reader. A C string is the list of its bytes before the terminating
  NUL; reading at the end gives 0. What is sent to the serial port is the list of bytes
  \<open>put_char\<close> is called with. \<open>long\<close>, \<open>int\<close> and \<open>unsigned long\<close> have 32 bits on the board.
\<close>

section \<open>Characters out\<close>

definition xputc :: "u8 \<Rightarrow> u8 list" where
  "xputc c = (if c = 10 then [13, c] else [c])"

fun xputs :: "u8 list \<Rightarrow> u8 list" where
  "xputs [] = []"
| "xputs (c # cs) = xputc c @ xputs cs"

section \<open>Parsing a number\<close>

text \<open>\<open>**str\<close> and \<open>*(++(*str))\<close>.\<close>

definition cur :: "u8 list \<Rightarrow> u8" where
  "cur str = (case str of [] \<Rightarrow> 0 | c # cs \<Rightarrow> c)"

text \<open>The digit loop: the value, or \<open>None\<close> for \<open>return 0\<close>; all in bytes, as \<open>c\<close> is a \<open>BYTE\<close>.\<close>

fun xatoi_digits :: "u8 \<Rightarrow> u32 \<Rightarrow> u8 list \<Rightarrow> u32 option \<times> u8 list" where
  "xatoi_digits radix val [] = (Some val, [])"
| "xatoi_digits radix val (c # cs) =
     (if c \<le> 0x20 then (Some val, c # cs)
      else
        let d = (if c \<ge> 0x61 then c - 0x20 else c) - 0x30
        in if d \<ge> 17 \<and> d - 7 \<le> 9 then (None, c # cs)
           else
             let d = (if d \<ge> 17 then d - 7 else d)
             in if d \<ge> radix then (None, c # cs)
                else xatoi_digits radix (val * ucast radix + ucast d) cs)"

text \<open>The radix and the digits: \<open>None\<close> is \<open>return 0\<close>, \<open>Some None\<close> is the lone \<open>0\<close>.\<close>

definition xatoi_prefix :: "u8 list \<Rightarrow> (u8 option \<times> u8 list) option" where
  "xatoi_prefix str =
     (if cur str = 0x30 then
        let str = tl str; c = cur str
        in if c \<le> 0x20 then Some (None, str)
           else if c = 0x78 then Some (Some 16, tl str)
           else if c = 0x62 then Some (Some 2, tl str)
           else if 0x30 \<le> c \<and> c \<le> 0x39 then Some (Some 8, str)
           else None
      else if cur str < 0x31 \<or> cur str > 0x39 then None
      else Some (Some 10, str))"

text \<open>After blanks and sign \<open>s\<close>: the return value, what is stored in \<open>*res\<close>.\<close>

definition xatoi_unsigned :: "bool \<Rightarrow> u8 list \<Rightarrow> bool \<times> u32 option" where
  "xatoi_unsigned s str =
     (case xatoi_prefix str of
        None \<Rightarrow> (False, None)
      | Some (None, str) \<Rightarrow> (True, Some 0)
      | Some (Some radix, str) \<Rightarrow>
          (case xatoi_digits radix 0 str of
             (None, rest) \<Rightarrow> (False, None)
           | (Some val, rest) \<Rightarrow> (True, Some (if s then - val else val))))"

definition xatoi :: "u8 list \<Rightarrow> bool \<times> u32 option" where
  "xatoi str =
     (let str = dropWhile (\<lambda>c. c = 0x20) str;
          s = (cur str = 0x2D);
          str = (if s then tl str else str)
      in xatoi_unsigned s str)"

section \<open>Printing a number\<close>

definition digit_char :: "u8 \<Rightarrow> u8" where
  "digit_char c = (if c \<ge> 10 then c + 7 else c) + 0x30"

text \<open>The \<open>do\<close> loop into \<open>BYTE s[20]\<close>; \<open>s\<close> holds what is stored so far.\<close>

function xitoa_digits :: "u8 \<Rightarrow> u32 \<Rightarrow> u8 list \<Rightarrow> u8 list res" where
  "xitoa_digits r v s =
     (if r = 0 then Inl DivByZero
      else if 20 \<le> length s then Inl OutOfBounds
      else
        let s = s @ [digit_char (ucast (v mod ucast r))];
            v = v div ucast r
        in if v \<noteq> 0 then xitoa_digits r v s else Inr s)"
  by pat_completeness auto
termination by (relation "measure (\<lambda>(r, v, s). 20 - length s)") auto

declare xitoa_digits.simps [simp del]

text \<open>\<open>radix\<close> and \<open>len\<close> are ints; \<open>r\<close> keeps the low byte of the radix.\<close>

definition xitoa :: "u32 \<Rightarrow> int \<Rightarrow> int \<Rightarrow> u8 list res" where
  "xitoa val radix len =
     (let neg = radix < 0 \<and> sint val < 0;
          radix = \<bar>radix\<bar>;
          v = (if neg then - val else val);
          pad = (if len < 0 then 0x30 else 0x20);
          len = \<bar>len\<bar>
      in if len > 20 then Inr []
         else rbind (xitoa_digits (word_of_int radix) v []) (\<lambda>s.
           if neg \<and> 20 \<le> length s then Inl OutOfBounds
           else
             let s = (if neg then s @ [0x2D] else s);
                 s = s @ replicate (nat len - length s) pad
             in Inr (concat (map xputc (rev s)))))"

section \<open>The formatter\<close>

datatype xarg = XInt u32 | XStr "u8 list"

text \<open>\<open>w += w * 10 + (d - '0')\<close>, in an \<open>int\<close>.\<close>

definition c_int :: "int \<Rightarrow> int" where
  "c_int x = signed_take_bit 31 x"

fun xprintf_width :: "int \<Rightarrow> u8 list \<Rightarrow> int \<times> u8 list" where
  "xprintf_width w [] = (w, [])"
| "xprintf_width w (d # str) =
     (if 0x30 \<le> d \<and> d \<le> 0x39 then xprintf_width (c_int (w + (w * 10 + (uint d - 48)))) str
      else (w, d # str))"

lemma xprintf_width_length: "length (snd (xprintf_width w str)) \<le> length str"
  by (induction w str rule: xprintf_width.induct) auto

text \<open>A conversion: what follows the percent sign up to the conversion character.\<close>

definition xprintf_flags :: "u8 list \<Rightarrow> int \<times> u8 list" where
  "xprintf_flags str =
     (let zero = (cur str = 0x30);
          str = (if zero then tl str else str);
          (w, str) = xprintf_width 0 str;
          w = (if zero then - w else w);
          str = (if cur str = 0x6C then tl str else str)
      in (w, str))"

definition xprintf_radix :: "u8 \<Rightarrow> int" where
  "xprintf_radix d =
     (if d = 0x62 then 2 else if d = 0x58 \<or> d = 0x78 then 16 else if d = 0x64 then - 10
      else if d = 0x75 then 10 else 0)"

lemma xprintf_flags_length: "length (snd (xprintf_flags str)) \<le> length str"
  using xprintf_width_length [of 0 str] xprintf_width_length [of 0 "tl str"]
  by (auto simp: xprintf_flags_def Let_def split_beta)

text \<open>
  The main loop. A conversion without an argument reads an indeterminate one; an unknown
  conversion, or the end of the string inside one, stops the output.
\<close>

function xprintf :: "u8 list \<Rightarrow> xarg list \<Rightarrow> u8 list res" where
  "xprintf [] args = Inr []"
| "xprintf (d # str) args =
     (if d \<noteq> 0x25 then rbind (xprintf str args) (\<lambda>out. Inr (xputc d @ out))
      else
        let (w, str) = xprintf_flags str
        in case str of
             [] \<Rightarrow> Inr []
           | d # str \<Rightarrow>
               if d = 0x73 then
                 (case args of XStr t # args \<Rightarrow> rbind (xprintf str args) (\<lambda>out. Inr (xputs t @ out))
                  | _ \<Rightarrow> Inl Uninit)
               else if d = 0x63 then
                 (case args of XInt v # args \<Rightarrow> rbind (xprintf str args) (\<lambda>out. Inr (xputc (ucast v) @ out))
                  | _ \<Rightarrow> Inl Uninit)
               else if xprintf_radix d = 0 then Inr []
               else
                 (case args of XInt v # args \<Rightarrow>
                    rbind (xitoa v (xprintf_radix d) w) (\<lambda>num.
                    rbind (xprintf str args) (\<lambda>out. Inr (num @ out)))
                  | _ \<Rightarrow> Inl Uninit))"
  by pat_completeness auto
termination
  by (relation "measure (\<lambda>(str, args). length str)")
     (auto simp: less_Suc_eq_le dest!: arg_cong [where f = "\<lambda>p. length (snd p)"]
        intro: order_trans [OF Suc_leD xprintf_flags_length])

section \<open>Reading a line\<close>

text \<open>
  \<open>comm_get\<close> waits for the next byte of the serial port: the input is the list of the bytes to
  come, and \<open>None\<close> means that the reader waits for ever. \<open>buff\<close> holds the bytes before \<open>idx\<close>.
  The result is the line, what was echoed and the input left.
\<close>

fun get_line_loop :: "int \<Rightarrow> u8 list \<Rightarrow> u8 list \<Rightarrow> u8 list \<Rightarrow> (u8 list \<times> u8 list \<times> u8 list) option" where
  "get_line_loop len buff echo [] = None"
| "get_line_loop len buff echo (c # inp) =
     (if c = 13 \<or> c = 10 then Some (buff, echo, inp)
      else
        let back = (c = 8 \<and> buff \<noteq> []);
            buff = (if back then butlast buff else buff);
            echo = (if back then echo @ xputc c @ xputc 0x20 @ xputc c else echo)
        in if c \<ge> 0x20 \<and> int (length buff) < len - 1 then
             let buff = buff @ [c]; echo = echo @ xputc c
             in if int (length buff) = len - 1 then Some (buff, echo, inp)
                else get_line_loop len buff echo inp
           else get_line_loop len buff echo inp)"

definition get_line :: "int \<Rightarrow> u8 list \<Rightarrow> (u8 list \<times> u8 list \<times> u8 list) option" where
  "get_line len inp =
     (case get_line_loop len [] [] inp of
        None \<Rightarrow> None
      | Some (buff, echo, inp) \<Rightarrow> Some (buff, echo @ xputc 10, inp))"

end
