(* ===== verification/Xprintf_Props.thy ===== *)
theory Xprintf_Props
  imports Xprintf
begin

text \<open>
  What \<open>Xprintf\<close> promises: printing and parsing a number are inverse, the limits of the buffers,
  and the places where the code departs from what it means.
\<close>

section \<open>Digits\<close>

text \<open>The value of a list of digits, the lowest first; arithmetic is that of \<open>DWORD\<close>.\<close>

definition digits_val :: "u32 \<Rightarrow> u8 list \<Rightarrow> u32" where
  "digits_val r ds = foldr (\<lambda>d a. a * r + ucast d) ds 0"

lemma digits_val_simps [simp]:
  "digits_val r [] = 0" "digits_val r (d # ds) = digits_val r ds * r + ucast d"
  by (simp_all add: digits_val_def)

lemma u8_cases_16: "d < 16 \<Longrightarrow> d \<in> {0, 1, 2, 3, 4, 5, 6, 7, 8, 9, 10, 11, 12, 13, 14, 15}" for d :: u8
proof -
  assume "d < 16"
  then have "unat d < 16" by (simp add: word_less_nat_alt)
  then have "unat d = 0 \<or> unat d = 1 \<or> unat d = 2 \<or> unat d = 3 \<or> unat d = 4 \<or> unat d = 5 \<or> unat d = 6
    \<or> unat d = 7 \<or> unat d = 8 \<or> unat d = 9 \<or> unat d = 10 \<or> unat d = 11 \<or> unat d = 12 \<or> unat d = 13
    \<or> unat d = 14 \<or> unat d = 15" by presburger
  then show ?thesis by (elim disjE) (simp_all add: word_unat_eq_iff)
qed

text \<open>A printed digit is parsed back, and it is no blank, no line end and no sign.\<close>

lemma digit_char_parse:
  assumes "d < radix" "radix \<le> 16"
  shows "xatoi_digits radix val (digit_char d # cs) = xatoi_digits radix (val * ucast radix + ucast d) cs"
    "digit_char d \<noteq> 10" "0x30 \<le> digit_char d" "d < 10 \<Longrightarrow> digit_char d = d + 0x30"
proof -
  have "d < 16" using assms by simp
  have one: "\<not> (17 :: u8) \<le> 1" "\<not> (10 :: u8) \<le> 1" by (simp_all add: word_le_nat_alt)
  from u8_cases_16 [OF \<open>d < 16\<close>] assms(1)
  show "xatoi_digits radix val (digit_char d # cs) = xatoi_digits radix (val * ucast radix + ucast d) cs"
    by (elim insertE) (auto simp: digit_char_def not_le one)
  from u8_cases_16 [OF \<open>d < 16\<close>] show "digit_char d \<noteq> 10" "0x30 \<le> digit_char d" by (auto simp: digit_char_def one)
  show "d < 10 \<Longrightarrow> digit_char d = d + 0x30" by (simp add: digit_char_def)
qed

lemma parse_digits:
  assumes "\<forall>d \<in> set ds. d < radix" "radix \<le> 16"
  shows "xatoi_digits radix val (map digit_char (rev ds) @ cs)
    = xatoi_digits radix (foldr (\<lambda>d a. a * ucast radix + ucast d) ds val) cs"
  using assms(1)
proof (induction ds arbitrary: cs)
  case (Cons d ds)
  then show ?case using digit_char_parse(1) [of d radix _ cs] assms(2) by simp
qed simp

lemma unat_up [simp]: "unat (ucast (x :: u8) :: u32) = unat x"
  using unsigned_less [of x, where ?'a = nat] by (simp add: unsigned_ucast_eq take_bit_nat_eq_self)

lemma unat_down: "unat (ucast (y :: u32) :: u8) = unat y mod 256"
  by (simp add: unsigned_ucast_eq take_bit_eq_mod)

text \<open>What the digit loop of \<open>xitoa\<close> stores.\<close>

lemma word_div_lt: "1 < r \<Longrightarrow> v \<noteq> 0 \<Longrightarrow> unat (v div r) < unat v" for v :: u32
  by (simp add: unat_div_distrib word_less_nat_alt unat_gt_0)

lemma xitoa_digits_run:
  assumes r: "1 < r" "r \<le> 16" and "unat v < unat r ^ k" "0 < k" "length s + k \<le> 20"
  shows "\<exists>ds. xitoa_digits r v s = Inr (s @ map digit_char ds) \<and> digits_val (ucast r) ds = v
    \<and> ds \<noteq> [] \<and> (\<forall>d \<in> set ds. d < r) \<and> (v \<noteq> 0 \<longrightarrow> last ds \<noteq> 0) \<and> (v = 0 \<longrightarrow> ds = [0]) \<and> length ds \<le> k"
  using assms(3-5)
proof (induction k arbitrary: v s)
  case (Suc k)
  let ?R = "ucast r :: u32" and ?d = "ucast (v mod ucast r) :: u8"
  have R: "1 < ?R" "unat ?R = unat r" "?R \<noteq> 0" "r \<noteq> 0"
    using r by (auto simp: word_less_nat_alt word_unat_eq_iff)
  have dl: "unat (v mod ?R) < unat r" using R by (simp add: unat_mod_distrib word_less_nat_alt)
  then have d: "unat ?d = unat (v mod ?R)"
    using dl unsigned_less [of r, where ?'a = nat] by (simp add: unat_down)
  then have d2: "?d < r" "ucast ?d = v mod ?R"
    using dl by (simp_all add: word_less_nat_alt word_unat_eq_iff)
  have dv: "v div ?R * ?R + v mod ?R = v" by (simp add: word_mod_div_equality)
  show ?case
  proof (cases "v div ?R = 0")
    case True
    then have "v mod ?R = v" using dv by simp
    moreover have "v \<noteq> 0 \<longrightarrow> ?d \<noteq> 0" using d \<open>v mod ?R = v\<close> by (metis unat_eq_zero)
    ultimately show ?thesis
      using True R d2 Suc.prems by (intro exI [of _ "[?d]"]) (auto simp: xitoa_digits.simps [of r v])
  next
    case False
    then have v: "v \<noteq> 0" by auto
    have "unat (v div ?R) = unat v div unat r" using R by (simp add: unat_div_distrib)
    then have lt: "unat (v div ?R) < unat r ^ k" using Suc.prems(1) r
      by (simp add: less_mult_imp_div_less mult.commute)
    moreover have "0 < k" using lt False by (cases k) (auto simp: unat_eq_zero)
    ultimately obtain ds where ds: "xitoa_digits r (v div ?R) (s @ [digit_char ?d]) = Inr ((s @ [digit_char ?d]) @ map digit_char ds)"
      "digits_val ?R ds = v div ?R" "ds \<noteq> []" "\<forall>d \<in> set ds. d < r" "v div ?R \<noteq> 0 \<longrightarrow> last ds \<noteq> 0" "length ds \<le> k"
      using Suc.IH [of "v div ?R" "s @ [digit_char ?d]"] Suc.prems(3) by auto
    then show ?thesis
      using False R d2 dv v Suc.prems(3)
      by (intro exI [of _ "?d # ds"]) (auto simp: xitoa_digits.simps [of r v])
  qed
qed simp

lemma xitoa_digits_overrun:
  assumes r: "1 < r" "r \<le> 16" and "unat r ^ k \<le> unat v" "length s + k = 20"
  shows "xitoa_digits r v s = Inl OutOfBounds"
  using assms(3,4)
proof (induction k arbitrary: v s)
  case 0
  then show ?case using r by (auto simp: xitoa_digits.simps [of r v])
next
  case (Suc k)
  have R: "unat (ucast r :: u32) = unat r" "r \<noteq> 0" "0 < unat r" using r by (auto simp: word_less_nat_alt)
  have d: "unat (v div ucast r) = unat v div unat r" by (simp add: unat_div_distrib)
  have "unat r ^ k \<le> unat v div unat r"
    using Suc.prems(1) R(3) by (simp add: less_eq_div_iff_mult_less_eq mult.commute)
  moreover have "0 < unat r ^ k" using R(3) by simp
  ultimately have "v div ucast r \<noteq> 0" using d by (metis leD unat_0)
  then show ?case
    using Suc R(2) d \<open>unat r ^ k \<le> unat v div unat r\<close> by (simp add: xitoa_digits.simps [of r v])
qed

section \<open>Printing and parsing\<close>

lemma xputc_chars: "\<forall>c \<in> set cs. c \<noteq> 10 \<Longrightarrow> concat (map xputc cs) = cs"
  by (induction cs) (auto simp: xputc_def)

lemma xitoa_run:
  assumes v: "w = (if radix < 0 \<and> sint v < 0 then - v else v)" and r: "word_of_int \<bar>radix\<bar> = r"
    "(r = 10 \<or> r = 16)"
  shows "\<exists>ds. xitoa v radix 0 = Inr ((if radix < 0 \<and> sint v < 0 then [0x2D] else []) @ map digit_char (rev ds))
    \<and> digits_val (ucast r) ds = w \<and> ds \<noteq> [] \<and> (\<forall>d \<in> set ds. d < r) \<and> (w \<noteq> 0 \<longrightarrow> last ds \<noteq> 0) \<and> (w = 0 \<longrightarrow> ds = [0])
    \<and> (\<forall>c \<in> set (map digit_char (rev ds)). 0x30 \<le> c)"
proof -
  have k: "1 < r" "r \<le> 16" using r(2) by auto
  have "unat w < 2 ^ 32" using unsigned_less [of w, where ?'a = nat] by simp
  then have "unat w < unat r ^ 10" using r(2) by auto
  from xitoa_digits_run [OF k this, of "[]"] obtain ds where ds: "xitoa_digits r w [] = Inr (map digit_char ds)"
    "digits_val (ucast r) ds = w" "ds \<noteq> []" "\<forall>d \<in> set ds. d < r" "w \<noteq> 0 \<longrightarrow> last ds \<noteq> 0" "w = 0 \<longrightarrow> ds = [0]"
    "length ds \<le> 10"
    by auto
  have c: "\<forall>c \<in> set (map digit_char ds). c \<noteq> 10 \<and> 0x30 \<le> c"
    using digit_char_parse(2,3) [OF _ k(2)] ds(4) by auto
  then have x: "concat (map (xputc \<circ> digit_char) (rev ds)) = map digit_char (rev ds)"
    using xputc_chars [of "map digit_char (rev ds)"] by (simp add: map_map [symmetric] del: map_map)
  have run: "xitoa v radix 0 = Inr ((if radix < 0 \<and> sint v < 0 then [0x2D] else []) @ map digit_char (rev ds))"
    using ds(1,7) v r(1) x
    by (auto simp: xitoa_def Let_def rev_map xputc_def [of "0x2D"])
  show ?thesis
    using run ds c by (intro exI [of _ ds]) auto
qed

lemma blanks_skip: "0x30 \<le> c \<Longrightarrow> dropWhile (\<lambda>c. c = 0x20) (c # cs) = c # cs" for c :: u8
  by auto

text \<open>Parsing what was printed without a sign.\<close>

lemma prefix_decimal:
  assumes "ds \<noteq> []" "\<forall>d \<in> set ds. d < 10" "last ds \<noteq> 0"
  shows "xatoi_prefix (map digit_char (rev ds)) = Some (Some 10, map digit_char (rev ds))"
proof -
  obtain es d where e: "ds = es @ [d]" using assms(1) by (metis rev_exhaust)
  then have "d < 10" "d \<noteq> 0" using assms by auto
  then have "d \<in> {1, 2, 3, 4, 5, 6, 7, 8, 9}"
    using u8_cases_16 [of d] by (auto simp: word_less_nat_alt)
  then have "cur (map digit_char (rev ds)) \<noteq> 0x30" "\<not> cur (map digit_char (rev ds)) < 0x31"
    "\<not> cur (map digit_char (rev ds)) > 0x39"
    by (auto simp: e cur_def digit_char_def word_le_nat_alt)
  then show ?thesis by (simp add: xatoi_prefix_def)
qed

lemma parse_all:
  assumes "\<forall>d \<in> set ds. d < radix" "radix \<le> 16"
  shows "xatoi_digits radix 0 (map digit_char (rev ds)) = (Some (digits_val (ucast radix) ds), [])"
  using parse_digits [OF assms, of 0 "[]"] by (simp add: digits_val_def)

lemma xatoi_decimal:
  assumes "ds \<noteq> []" "\<forall>d \<in> set ds. d < 10" "last ds \<noteq> 0 \<or> ds = [0]"
  shows "xatoi (map digit_char (rev ds)) = (True, Some (digits_val 10 ds))"
    "xatoi (0x2D # map digit_char (rev ds)) = (True, Some (- digits_val 10 ds))"
proof -
  let ?t = "map digit_char (rev ds)"
  obtain c cs where t: "?t = c # cs" using assms(1) by (cases ?t) auto
  have "c \<in> set ?t" using t by simp
  then have c: "0x30 \<le> c" using digit_char_parse(3) [of _ 10] assms(2) by auto
  have s: "dropWhile (\<lambda>c. c = 0x20) ?t = ?t" "cur ?t \<noteq> 0x2D" using c t by (auto simp: cur_def)
  have m: "dropWhile (\<lambda>c. c = 0x20) (0x2D # ?t) = 0x2D # ?t" "cur (0x2D # ?t) = 0x2D" by (simp_all add: cur_def)
  have u: "xatoi_unsigned b ?t = (True, Some (if b then - digits_val 10 ds else digits_val 10 ds))" for b
  proof (cases "ds = [0]")
    case True
    then show ?thesis by (simp add: xatoi_unsigned_def xatoi_prefix_def cur_def digit_char_def)
  next
    case False
    then have "last ds \<noteq> 0" using assms(3) by simp
    from prefix_decimal [OF assms(1,2) this] parse_all [OF assms(2)] show ?thesis
      by (simp add: xatoi_unsigned_def)
  qed
  show "xatoi ?t = (True, Some (digits_val 10 ds))" using u [of False] s by (simp add: xatoi_def)
  show "xatoi (0x2D # ?t) = (True, Some (- digits_val 10 ds))"
    unfolding xatoi_def Let_def m using u [of True] by simp
qed

section \<open>Properties\<close>

text \<open>every number is read back as it was printed: \<open>xatoi\<close> of what \<open>xitoa\<close> prints in signed decimal is
  the number, for all 32-bit values including the most negative one, and so it is for the
  hexadecimal print behind a \<open>0x\<close>.\<close>

lemma print_parse_roundtrip:
  "\<exists>dec hex. xitoa v (- 10) 0 = Inr dec \<and> xatoi dec = (True, Some v)
    \<and> xitoa v 16 0 = Inr hex \<and> xatoi (0x30 # 0x78 # hex) = (True, Some v)"
proof -
  define w where "w = (if sint v < 0 then - v else v)"
  obtain ds where d: "xitoa v (- 10) 0 = Inr ((if sint v < 0 then [0x2D] else []) @ map digit_char (rev ds))"
    "digits_val 10 ds = w" "ds \<noteq> []" "\<forall>d \<in> set ds. d < 10" "w \<noteq> 0 \<longrightarrow> last ds \<noteq> 0" "w = 0 \<longrightarrow> ds = [0]"
    using xitoa_run [of w "- 10" v 10] by (auto simp: w_def)
  have "last ds \<noteq> 0 \<or> ds = [0]" using d(5,6) by blast
  from xatoi_decimal [OF d(3,4) this] have p: "xatoi ((if sint v < 0 then [0x2D] else []) @ map digit_char (rev ds)) = (True, Some v)"
    by (simp add: d(2) w_def)
  obtain es where e: "xitoa v 16 0 = Inr (map digit_char (rev es))" "digits_val 16 es = v" "es \<noteq> []" "\<forall>d \<in> set es. d < 16"
    using xitoa_run [of v 16 v 16] by auto
  have "xatoi (0x30 # 0x78 # map digit_char (rev es)) = (True, Some v)"
    using parse_all [OF e(4)] e(2) by (simp add: xatoi_def xatoi_unsigned_def xatoi_prefix_def cur_def Let_def)
  then show ?thesis using d(1) p e(1) by blast
qed

text \<open>the digit buffer of \<open>xitoa\<close> has 20 bytes: printing a number of more than 20 binary digits with the
  conversion \<open>%b\<close> writes behind it, whatever the width.\<close>

lemma binary_print_overruns:
  assumes "2 ^ 20 \<le> unat v" "\<bar>len\<bar> \<le> 20"
  shows "xitoa v 2 len = Inl OutOfBounds"
proof -
  have "xitoa_digits 2 v [] = Inl OutOfBounds"
    by (rule xitoa_digits_overrun [of _ 20]) (use assms in auto)
  then show ?thesis using assms(2) by (simp add: xitoa_def Let_def)
qed

theorem binary_print_overruns_witness: "xitoa 1048576 2 0 = Inl OutOfBounds"
  by (rule binary_print_overruns) simp_all

text \<open>the hexadecimal digits the parser accepts include the six characters between \<open>9\<close> and \<open>@\<close>: they
  count as 10 to 15.\<close>

lemma hex_accepts_punctuation:
  assumes "0x3A \<le> c" "c \<le> 0x3F"
  shows "xatoi [0x30, 0x78, c] = (True, Some (ucast c - 0x30))"
proof -
  define d where "d = c - 0x30"
  have "10 \<le> unat d" "unat d < 16" and c: "c = d + 0x30"
    using assms by (auto simp: d_def word_le_nat_alt unat_sub)
  then have "d \<in> {10, 11, 12, 13, 14, 15}"
    using u8_cases_16 [of d] by (auto simp: word_less_nat_alt)
  then show ?thesis
    unfolding c by (auto simp: xatoi_def xatoi_unsigned_def xatoi_prefix_def cur_def Let_def)
qed

theorem hex_accepts_punctuation_witness: "xatoi [0x30, 0x78, 0x3A] = (True, Some 10)"
  using hex_accepts_punctuation [of "0x3A"] by simp

text \<open>a field width of two digits \<open>ab\<close> is taken as \<open>11 a + b\<close> and not as \<open>10 a + b\<close>: \<open>%12d\<close> pads to 13.\<close>

lemma two_digit_width:
  assumes "a < 10" "b < 10" "\<not> (0x30 \<le> c \<and> c \<le> 0x39)"
  shows "xprintf_width 0 (digit_char a # digit_char b # c # cs) = (11 * uint a + uint b, c # cs)"
proof -
  have d: "0x30 \<le> digit_char x \<and> digit_char x \<le> 0x39 \<and> uint (digit_char x) - 48 = uint x \<and> uint x < 10" if "x < 10" for x :: u8
    using u8_cases_16 [of x] that by (auto simp: digit_char_def word_less_nat_alt word_le_nat_alt)
  have c: "c_int y = y" if "0 \<le> y" "y < 1000" for y
    unfolding c_int_def by (rule signed_take_bit_int_eq_self) (use that in simp_all)
  have s: "c_int (uint a) = uint a" "c_int (11 * uint a + uint b) = 11 * uint a + uint b"
    by (rule c; use d [OF assms(1)] d [OF assms(2)] uint_ge_0 [of a] uint_ge_0 [of b] in linarith)+
  have e: "uint a + (uint a * 10 + (uint (digit_char b) - 48)) = 11 * uint a + uint b" using d [OF assms(2)] by simp
  show ?thesis
    using d [OF assms(1)] d [OF assms(2)] assms(3) s e by auto
qed

theorem two_digit_width_witness: "xprintf_width 0 [0x31, 0x32, 0x64] = (13, [0x64])"
  using two_digit_width [of 1 2 "0x64" "[]"] by (simp add: digit_char_def word_le_nat_alt)

lemma get_line_loop_inv:
  "get_line_loop len buff echo inp = Some (line, e, rest) \<Longrightarrow> int (length buff) \<le> max 0 (len - 1)
    \<Longrightarrow> \<forall>c \<in> set buff. 0x20 \<le> c \<Longrightarrow> int (length line) \<le> max 0 (len - 1) \<and> (\<forall>c \<in> set line. 0x20 \<le> c)"
proof (induction inp arbitrary: buff echo)
  case (Cons c inp)
  define b where "b = (if c = 8 \<and> buff \<noteq> [] then butlast buff else buff)"
  define e' where "e' = (if c = 8 \<and> buff \<noteq> [] then echo @ xputc c @ xputc 0x20 @ xputc c else echo)"
  have b: "int (length b) \<le> max 0 (len - 1)" "\<forall>c \<in> set b. 0x20 \<le> c"
    using Cons.prems(2,3) by (auto simp: b_def dest: in_set_butlastD)
  show ?case
  proof (cases "c = 13 \<or> c = 10")
    case True
    with Cons.prems show ?thesis by auto
  next
    case False
    then have run: "get_line_loop len buff echo (c # inp) = (if c \<ge> 0x20 \<and> int (length b) < len - 1 then
         if int (length (b @ [c])) = len - 1 then Some (b @ [c], e' @ xputc c, inp)
         else get_line_loop len (b @ [c]) (e' @ xputc c) inp else get_line_loop len b e' inp)"
      unfolding b_def e'_def by (simp only: get_line_loop.simps if_False Let_def)
    show ?thesis
    proof (cases "c \<ge> 0x20 \<and> int (length b) < len - 1")
      case True
      have n: "int (length (b @ [c])) \<le> max 0 (len - 1)" "\<forall>c \<in> set (b @ [c]). 0x20 \<le> c" using True b by auto
      show ?thesis
      proof (cases "int (length (b @ [c])) = len - 1")
        case True
        with Cons.prems(1) run \<open>c \<ge> 0x20 \<and> int (length b) < len - 1\<close> n show ?thesis by simp
      next
        case False
        with Cons.prems(1) run \<open>c \<ge> 0x20 \<and> int (length b) < len - 1\<close>
        have "get_line_loop len (b @ [c]) (e' @ xputc c) inp = Some (line, e, rest)" by simp
        from Cons.IH [OF this n] show ?thesis .
      qed
    next
      case False
      with Cons.prems(1) run have "get_line_loop len b e' inp = Some (line, e, rest)" by simp
      from Cons.IH [OF this b] show ?thesis .
    qed
  qed
qed simp

lemma get_line_loop_returns: "10 \<in> set inp \<or> 13 \<in> set inp \<Longrightarrow> get_line_loop len buff echo inp \<noteq> None"
proof (induction inp arbitrary: buff echo)
  case (Cons c inp)
  then show ?case
    by (cases "c = 13 \<or> c = 10") (auto simp: Let_def)
qed simp

text \<open>the line reader never overruns its buffer: the line has at most \<open>len - 1\<close> bytes, none of them a
  control character; and it returns as soon as a carriage return or newline arrives.\<close>

lemma get_line_bounded:
  assumes "1 \<le> len" "10 \<in> set inp \<or> 13 \<in> set inp"
  shows "\<exists>line echo rest. get_line len inp = Some (line, echo, rest) \<and> int (length line) < len
    \<and> (\<forall>c \<in> set line. 0x20 \<le> c)"
proof -
  obtain line e rest where g: "get_line_loop len [] [] inp = Some (line, e, rest)"
    using get_line_loop_returns [OF assms(2)] by (metis not_Some_eq prod_cases3)
  from get_line_loop_inv [OF this] assms(1) have "int (length line) \<le> len - 1 \<and> (\<forall>c \<in> set line. 0x20 \<le> c)" by simp
  with g show ?thesis by (simp add: get_line_def)
qed

theorem get_line_bounded_witness:
  "\<exists>line echo rest. get_line 20 [65, 8, 66, 13] = Some (line, echo, rest) \<and> int (length line) < 20"
  using get_line_bounded [of 20 "[65, 8, 66, 13]"] by auto

end
