(* ===== verification/Console.thy ===== *)
theory Console
  imports Xprintf_Props
begin

text \<open>
  The console of the board, \<open>src/lcd-demo/src/console.c\<close> and \<open>find_symbol\<close> of
  \<open>src/lcd-demo/src/main.c\<close>: text on the LCD, splitting a command line into words, and finding
  the command to call. The command table is a list of records; \<open>vsprintf\<close> and the command
  callbacks are not in the sources and appear as the text and the function they yield.
\<close>

section \<open>Text on the LCD\<close>

text \<open>What \<open>lcd_printf\<close> draws: a character at a point, a blank line at a point; \<open>Warn\<close> is the message
  on the serial port. The cursor is the pair of static variables.\<close>

datatype draw = PutChar int int u8 | BlankLine int int | Warn

record cursor =
  cur_line :: int
  cur_row :: int

definition clear_fullscreen :: "draw list" where
  "clear_fullscreen = map (\<lambda>i. BlankLine 0 (int i * 16)) [1..<15]"

fun lcd_chars :: "cursor \<Rightarrow> u8 list \<Rightarrow> cursor \<times> draw list" where
  "lcd_chars s [] = (s, [])"
| "lcd_chars s (c # cs) =
     (let (s, ds) =
        (if c = 10 then
           let s = s\<lparr>cur_row := 0, cur_line := cur_line s + 1\<rparr>
           in if cur_line s = 15 then (s\<lparr>cur_line := 1\<rparr>, clear_fullscreen) else (s, [])
         else if c = 13 then (s\<lparr>cur_row := 0\<rparr>, [BlankLine 0 (cur_line s * 16)])
         else
           let d = PutChar (cur_row s * 8) (cur_line s * 16) c;
               s = s\<lparr>cur_row := cur_row s + 1\<rparr>
           in (s, if cur_row s = 40 then [d, Warn] else [d]));
        (s', ds') = lcd_chars s cs
      in (s', ds @ ds'))"

text \<open>\<open>str\<close> is what \<open>vsprintf\<close> writes into \<open>char str[64]\<close>, before its NUL.\<close>

definition lcd_printf :: "cursor \<Rightarrow> u8 list \<Rightarrow> (cursor \<times> draw list) res" where
  "lcd_printf s str =
     (if 64 \<le> length str then Inl OutOfBounds
      else Inr (lcd_chars (s\<lparr>cur_row := 0\<rparr>) (takeWhile (\<lambda>c. c \<noteq> 0) str)))"

section \<open>The command line\<close>

text \<open>
  The second loop of \<open>parse_args\<close> from position \<open>p\<close>; \<open>word\<close> is \<open>state == STATE_WORD\<close>. It yields the
  new contents of the buffer and the positions stored in \<open>argv\<close>.
\<close>

fun parse_words :: "bool \<Rightarrow> nat \<Rightarrow> u8 list \<Rightarrow> u8 list \<times> nat list" where
  "parse_words word p [] = ([], [])"
| "parse_words word p (c # cs) =
     (if \<not> word then
        if c \<noteq> 0x20 then let (buf, argv) = parse_words True (p + 1) cs in (c # buf, p # argv)
        else let (buf, argv) = parse_words False (p + 1) cs in (c # buf, argv)
      else
        if c = 0x20 then let (buf, argv) = parse_words False (p + 1) cs in (0 # buf, argv)
        else let (buf, argv) = parse_words True (p + 1) cs in (c # buf, argv))"

definition MAX_ARGS :: nat where "MAX_ARGS = 10"

definition parse_args :: "u8 list \<Rightarrow> (u8 list \<times> nat list) res" where
  "parse_args cmdline =
     (let cmdline = map (\<lambda>c. if c = 9 then 0x20 else c) cmdline;
          (buf, argv) = parse_words False 0 cmdline
      in if MAX_ARGS < length argv then Inl OutOfBounds else Inr (buf, argv))"

text \<open>The C string at a position of a buffer.\<close>

definition string_at :: "u8 list \<Rightarrow> nat \<Rightarrow> u8 list" where
  "string_at buf p = takeWhile (\<lambda>c. c \<noteq> 0) (drop p buf)"

record command =
  cmd_magic :: u32
  cmd_name :: "u8 list"
  cmd_help :: "u8 list"
  cmd_callback :: nat

definition COMMAND_MAGIC :: u32 where "COMMAND_MAGIC = 0x436d6420"

text \<open>\<open>strncmp(a, b, n) == 0\<close>\<close>

definition strncmp_eq :: "u8 list \<Rightarrow> u8 list \<Rightarrow> nat \<Rightarrow> bool" where
  "strncmp_eq a b n \<longleftrightarrow> take n a = take n b"

fun count_matches :: "u8 list \<Rightarrow> command list \<Rightarrow> int \<Rightarrow> int" where
  "count_matches cmdline [] n = n"
| "count_matches cmdline (cmd # cmds) n =
     (if cmd_magic cmd \<noteq> COMMAND_MAGIC then - 1
      else count_matches cmdline cmds (if strncmp_eq (cmd_name cmd) cmdline (length cmdline) then n + 1 else n))"

definition get_num_command_matches :: "command list \<Rightarrow> u8 list \<Rightarrow> int" where
  "get_num_command_matches tbl cmdline = count_matches cmdline tbl 0"

text \<open>A command line either gives a return value or the call of a callback with its arguments.\<close>

datatype outcome = Return int | Call nat "u8 list list"

fun call_first :: "u8 list list \<Rightarrow> command list \<Rightarrow> outcome" where
  "call_first argv [] = Return (- 1)"
| "call_first argv (cmd # cmds) =
     (if cmd_magic cmd \<noteq> COMMAND_MAGIC then Return (- 1)
      else if strncmp_eq (cmd_name cmd) (hd argv) (length (hd argv)) then Call (cmd_callback cmd) argv
      else call_first argv cmds)"

definition parse_command :: "command list \<Rightarrow> u8 list \<Rightarrow> outcome res" where
  "parse_command tbl cmdline =
     rbind (parse_args cmdline) (\<lambda>(buf, argv).
       let argv = map (string_at buf) argv
       in if argv = [] then Inr (Return 0)
          else
            let num_commands = get_num_command_matches tbl (hd argv)
            in if num_commands < 0 then Inr (Return num_commands)
               else if num_commands = 0 then Inr (Return (- 1))
               else if num_commands > 1 then Inr (Return (- 1))
               else Inr (call_first argv tbl))"

text \<open>The help command: the return value, and the command whose help is printed.\<close>

fun help_find :: "u8 list \<Rightarrow> command list \<Rightarrow> int \<times> command option" where
  "help_find name [] = (- 1, None)"
| "help_find name (cmd # cmds) =
     (if strncmp_eq (cmd_name cmd) name 40 then (0, Some cmd) else help_find name cmds)"

definition help_command :: "command list \<Rightarrow> u8 list list \<Rightarrow> int \<times> command option" where
  "help_command tbl argv = (if 2 \<le> length argv then help_find (argv ! 1) tbl else (0, None))"

section \<open>Symbols\<close>

text \<open>
  \<open>find_symbol\<close>: the index of the function whose code holds the address. \<open>func_map\<close> is a list
  of addresses and names; reading behind it is a fault. \<open>_etext\<close> is the name of the last entry.
\<close>

function find_symbol :: "(int \<times> u8 list) list \<Rightarrow> int \<Rightarrow> nat \<Rightarrow> nat option res" where
  "find_symbol func_map addr i =
     (if length func_map \<le> i then Inl OutOfBounds
      else if strncmp_eq [95, 101, 116, 101, 120, 116] (snd (func_map ! i)) 6 then Inr None
      else if length func_map \<le> i + 1 then
        (if fst (func_map ! i) \<le> addr then Inl OutOfBounds else find_symbol func_map addr (i + 1))
      else if fst (func_map ! i) \<le> addr \<and> fst (func_map ! (i + 1)) > addr then Inr (Some i)
      else find_symbol func_map addr (i + 1))"
  by pat_completeness auto
termination by (relation "measure (\<lambda>(m, a, i). length m - i)") auto

declare find_symbol.simps [simp del]

end
