(* ===== verification/Console_Props.thy ===== *)
theory Console_Props
  imports Console
begin

text \<open>The properties of \<open>Console\<close>.\<close>

section \<open>Words\<close>

text \<open>The words of a line, as one would specify them: maximal runs of other characters between blanks.\<close>

fun words_from :: "u8 list \<Rightarrow> u8 list \<Rightarrow> u8 list list" where
  "words_from w [] = (if w = [] then [] else [w])"
| "words_from w (c # cs) =
     (if c = 0x20 \<or> c = 9 then (if w = [] then words_from [] cs else w # words_from [] cs)
      else words_from (w @ [c]) cs)"

abbreviation line_words :: "u8 list \<Rightarrow> u8 list list" where "line_words \<equiv> words_from []"

lemma words_from_prefix:
  "w \<noteq> [] \<Longrightarrow> words_from w cs = (w @ takeWhile (\<lambda>c. c \<noteq> 0x20 \<and> c \<noteq> 9) cs)
     # line_words (dropWhile (\<lambda>c. c \<noteq> 0x20 \<and> c \<noteq> 9) cs)"
  by (induction cs arbitrary: w) auto

definition blanked :: "u8 list \<Rightarrow> u8 list" where
  "blanked = map (\<lambda>c. if c = 9 then 0x20 else c)"

lemma blanked_simps [simp]:
  "blanked [] = []" "blanked (c # cs) = (if c = 9 then 0x20 else c) # blanked cs"
  by (simp_all add: blanked_def)

lemma parse_words_length: "length (fst (parse_words word p cs)) = length cs"
  by (induction word p cs rule: parse_words.induct) (auto simp: Let_def split_beta)

lemma parse_words_pos: "q \<in> set (snd (parse_words word p cs)) \<Longrightarrow> p \<le> q \<and> q < p + length cs"
  by (induction word p cs rule: parse_words.induct) (auto simp: Let_def split_beta split: if_splits)

text \<open>Inside a word, the buffer goes on with the rest of the word, then a NUL or the end.\<close>

lemma parse_words_rest:
  assumes "\<forall>c \<in> set cs. c \<noteq> 0"
  shows "takeWhile (\<lambda>c. c \<noteq> 0) (fst (parse_words True p (blanked cs))) = takeWhile (\<lambda>c. c \<noteq> 0x20 \<and> c \<noteq> 9) cs"
  using assms
proof (induction cs arbitrary: p)
  case (Cons c cs)
  then show ?case by (auto simp: Let_def split_beta)
qed simp

lemma string_at_shift: "p < q \<Longrightarrow> string_at (c # buf) (q - p) = string_at buf (q - Suc p)"
  using Suc_diff_Suc [of p q] by (simp add: string_at_def flip: Suc_diff_Suc)

lemma strings_shift:
  "\<forall>q \<in> set qs. Suc p \<le> q \<Longrightarrow> map (\<lambda>q. string_at (c # buf) (q - p)) qs = map (\<lambda>q. string_at buf (q - Suc p)) qs"
  by (intro map_cong refl string_at_shift) auto

lemma parse_words_strings:
  assumes "\<forall>c \<in> set cs. c \<noteq> 0"
  shows "map (\<lambda>q. string_at (fst (parse_words word p (blanked cs))) (q - p)) (snd (parse_words word p (blanked cs)))
    = (if word then line_words (dropWhile (\<lambda>c. c \<noteq> 0x20 \<and> c \<noteq> 9) cs) else line_words cs)"
  using assms
proof (induction cs arbitrary: word p)
  case (Cons c cs)
  let ?w = "parse_words True (Suc p) (blanked cs)" and ?b = "parse_words False (Suc p) (blanked cs)"
  have pos: "\<forall>q \<in> set (snd ?w). Suc p \<le> q" "\<forall>q \<in> set (snd ?b). Suc p \<le> q"
    using parse_words_pos [of _ True "Suc p" "blanked cs"] parse_words_pos [of _ False "Suc p" "blanked cs"] by blast+
  have W: "map (\<lambda>q. string_at (d # fst ?w) (q - p)) (snd ?w) = line_words (dropWhile (\<lambda>c. c \<noteq> 0x20 \<and> c \<noteq> 9) cs)" for d
    unfolding strings_shift [OF pos(1)] using Cons.IH [of True "Suc p"] Cons.prems by simp
  have B: "map (\<lambda>q. string_at (d # fst ?b) (q - p)) (snd ?b) = line_words cs" for d
    unfolding strings_shift [OF pos(2)] using Cons.IH [of False "Suc p"] Cons.prems by simp
  have first: "string_at (c # fst ?w) 0 = c # takeWhile (\<lambda>c. c \<noteq> 0x20 \<and> c \<noteq> 9) cs"
    using Cons.prems parse_words_rest [of cs "Suc p"] by (simp add: string_at_def)
  show ?case
  proof (cases "c = 0x20 \<or> c = 9")
    case True
    then show ?thesis using B by (auto simp: Let_def split_beta)
  next
    case False
    then show ?thesis using W first by (auto simp: Let_def split_beta words_from_prefix)
  qed
qed simp

lemma parse_args_words:
  assumes "\<forall>c \<in> set line. c \<noteq> 0"
  shows "parse_args line = (if MAX_ARGS < length (line_words line) then Inl OutOfBounds
    else Inr (parse_words False 0 (blanked line)))"
    "map (string_at (fst (parse_words False 0 (blanked line)))) (snd (parse_words False 0 (blanked line))) = line_words line"
    "length (snd (parse_words False 0 (blanked line))) = length (line_words line)"
proof -
  show m: "map (string_at (fst (parse_words False 0 (blanked line)))) (snd (parse_words False 0 (blanked line))) = line_words line"
    using parse_words_strings [OF assms, of False 0] by simp
  then show l: "length (snd (parse_words False 0 (blanked line))) = length (line_words line)" by (metis length_map)
  then show "parse_args line = (if MAX_ARGS < length (line_words line) then Inl OutOfBounds
    else Inr (parse_words False 0 (blanked line)))"
    by (simp add: parse_args_def split_beta blanked_def [symmetric])
qed

text \<open>A line of \<open>n\<close> bytes has at most \<open>(n + 1) div 2\<close> words.\<close>

lemma words_count: "2 * length (words_from w cs) \<le> length w + length cs + 1"
proof (induction w cs rule: words_from.induct)
  case (1 w)
  then show ?case by (cases w) auto
next
  case (2 w c cs)
  show ?case
  proof (cases "w = []")
    case True
    with 2 show ?thesis by auto
  next
    case False
    then have "1 \<le> length w" by (cases w) auto
    with False 2 show ?thesis by auto
  qed
qed

lemma line_words_nonempty: "[] \<notin> set (words_from w cs)"
  by (induction w cs rule: words_from.induct) auto

lemma line_words_nil: "line_words cs = [] \<longleftrightarrow> (\<forall>c \<in> set cs. c = 0x20 \<or> c = 9)"
proof -
  have "words_from w cs = [] \<longleftrightarrow> w = [] \<and> (\<forall>c \<in> set cs. c = 0x20 \<or> c = 9)" for w
    by (induction w cs rule: words_from.induct) auto
  then show ?thesis by simp
qed

section \<open>Commands\<close>

lemma strncmp_prefix: "strncmp_eq name w (length w) \<longleftrightarrow> (\<exists>rest. name = w @ rest)"
  by (auto simp: strncmp_eq_def) (metis append_take_drop_id)

lemma count_matches_run:
  "\<forall>cmd \<in> set tbl. cmd_magic cmd = COMMAND_MAGIC \<Longrightarrow>
   count_matches w tbl n = n + int (length (filter (\<lambda>cmd. strncmp_eq (cmd_name cmd) w (length w)) tbl))"
  by (induction tbl arbitrary: n) auto

lemma call_first_run:
  "\<forall>cmd \<in> set tbl. cmd_magic cmd = COMMAND_MAGIC \<Longrightarrow>
   filter (\<lambda>cmd. strncmp_eq (cmd_name cmd) (hd argv) (length (hd argv))) tbl = cmd # cmds \<Longrightarrow>
   call_first argv tbl = Call (cmd_callback cmd) argv"
  by (induction tbl) (auto split: if_splits)

definition matching :: "command list \<Rightarrow> u8 list \<Rightarrow> command list" where
  "matching tbl w = filter (\<lambda>cmd. \<exists>rest. cmd_name cmd = w @ rest) tbl"

section \<open>The LCD cursor\<close>

fun on_screen :: "draw \<Rightarrow> bool" where
  "on_screen (PutChar x y c) = (0 \<le> y \<and> y + 15 < 240 \<and> 0 \<le> x)"
| "on_screen (BlankLine x y) = (0 \<le> y \<and> y + 15 < 240 \<and> x = 0)"
| "on_screen Warn = True"

definition cursor_ok :: "cursor \<Rightarrow> bool" where
  "cursor_ok s \<longleftrightarrow> 0 \<le> cur_line s \<and> cur_line s \<le> 14 \<and> 0 \<le> cur_row s"

lemma lcd_chars_line:
  "cursor_ok s \<Longrightarrow> cursor_ok (fst (lcd_chars s cs)) \<and> (\<forall>d \<in> set (snd (lcd_chars s cs)). on_screen d)"
proof (induction cs arbitrary: s)
  case (Cons c cs)
  consider (nl) "c = 10" "cur_line s + 1 = 15" | (nl2) "c = 10" "cur_line s + 1 \<noteq> 15" | (cr) "c = 13" | (put) "c \<noteq> 10" "c \<noteq> 13"
    by blast
  then show ?case
  proof cases
    case nl
    with Cons.prems Cons.IH [of "s\<lparr>cur_row := 0, cur_line := 1\<rparr>"] show ?thesis
      by (auto simp: cursor_ok_def Let_def split_beta clear_fullscreen_def)
  next
    case nl2
    with Cons.prems Cons.IH [of "s\<lparr>cur_row := 0, cur_line := cur_line s + 1\<rparr>"] show ?thesis
      by (auto simp: cursor_ok_def Let_def split_beta)
  next
    case cr
    with Cons.prems Cons.IH [of "s\<lparr>cur_row := 0\<rparr>"] show ?thesis by (auto simp: cursor_ok_def Let_def split_beta)
  next
    case put
    with Cons.prems Cons.IH [of "s\<lparr>cur_row := cur_row s + 1\<rparr>"] show ?thesis
      by (auto simp: cursor_ok_def Let_def split_beta)
  qed
qed simp

section \<open>Properties\<close>

text \<open>\<open>parse_command\<close> does what the console promises: with a table of intact entries, a line of at
  most ten words calls the one command whose name begins with the first word, with the words of
  the line as arguments; a blank line gives 0; no match or more than one gives -1.\<close>

lemma parse_command_correct:
  assumes "\<forall>c \<in> set line. c \<noteq> 0" "length (line_words line) \<le> 10" "\<forall>cmd \<in> set tbl. cmd_magic cmd = COMMAND_MAGIC"
  shows "parse_command tbl line = Inr (case line_words line of
      [] \<Rightarrow> Return 0
    | w # ws \<Rightarrow> (case matching tbl w of [cmd] \<Rightarrow> Call (cmd_callback cmd) (w # ws) | _ \<Rightarrow> Return (- 1)))"
proof -
  obtain buf argv where p: "parse_words False 0 (blanked line) = (buf, argv)" by (metis surj_pair)
  note P = parse_args_words [OF assms(1), unfolded p fst_conv snd_conv]
  have a: "parse_args line = Inr (buf, argv)" using P(1) assms(2) by (simp add: MAX_ARGS_def)
  show ?thesis
  proof (cases "line_words line")
    case Nil
    then show ?thesis using P(2) a by (simp add: parse_command_def)
  next
    case (Cons w ws)
    let ?m = "filter (\<lambda>cmd. strncmp_eq (cmd_name cmd) w (length w)) tbl"
    have m: "matching tbl w = ?m" by (simp add: matching_def strncmp_prefix)
    have n: "get_num_command_matches tbl w = int (length ?m)"
      using count_matches_run [OF assms(3), of w 0] by (simp add: get_num_command_matches_def)
    have ws: "map (string_at buf) argv = w # ws" "argv \<noteq> []" using P(2) Cons by auto
    show ?thesis
    proof (cases ?m)
      case Nil
      then show ?thesis using a n Cons by (simp add: parse_command_def Let_def ws m)
    next
      case (Cons cmd rest)
      have c: "call_first (w # ws) tbl = Call (cmd_callback cmd) (w # ws)"
        by (rule call_first_run [OF assms(3)]) (use Cons in simp)
      show ?thesis
        using a n Cons c \<open>line_words line = w # ws\<close>
        by (cases rest) (simp_all add: parse_command_def Let_def ws m)
    qed
  qed
qed

theorem parse_command_correct_witness:
  "parse_command [\<lparr>cmd_magic = COMMAND_MAGIC, cmd_name = [112, 115], cmd_help = [], cmd_callback = 4\<rparr>] [32, 112, 9, 65]
     = Inr (Call 4 [[112], [65]])"
  using parse_command_correct [of "[32, 112, 9, 65]" "[\<lparr>cmd_magic = COMMAND_MAGIC, cmd_name = [112, 115], cmd_help = [], cmd_callback = 4\<rparr>]"]
  by (simp add: matching_def)

text \<open>the console task never overruns \<open>argv\<close>: every line the reader delivers into its 20 bytes has at
  most ten words, so the command line that is parsed never faults.\<close>

lemma console_never_overruns:
  assumes "get_line 20 inp = Some (line, echo, rest)" "\<forall>cmd \<in> set tbl. cmd_magic cmd = COMMAND_MAGIC"
  shows "\<exists>r. parse_command tbl line = Inr r"
proof -
  obtain e where g: "get_line_loop 20 [] [] inp = Some (line, e, rest)"
    using assms(1) by (auto simp: get_line_def split: option.splits)
  from get_line_loop_inv [OF this] have l: "length line \<le> 19" "\<forall>c \<in> set line. 0x20 \<le> c" by simp_all
  have "\<forall>c \<in> set line. c \<noteq> 0" using l(2) by auto
  note P = parse_args_words [OF this]
  have "length (line_words line) \<le> 10" using words_count [of "[]" line] l(1) by simp
  then obtain buf argv where "parse_args line = Inr (buf, argv)" using P(1) by (simp add: MAX_ARGS_def) (metis surj_pair)
  then show ?thesis by (simp add: parse_command_def Let_def)
qed

theorem console_never_overruns_witness:
  "\<exists>r. parse_command [] [65, 66] = Inr r"
  by (rule console_never_overruns [of "[65, 66, 13]" _ "[65, 66, 13, 10]" "[]"])
     (simp_all add: get_line_def xputc_def word_le_nat_alt)

text \<open>the text cursor stays on the display: from a cursor on one of the 15 lines, every text of less
  than 64 bytes leaves it on one, and every character and cleared line lies within the 240 rows of
  pixels.\<close>

lemma lcd_printf_on_screen:
  assumes "cursor_ok s" "length str < 64"
  shows "\<exists>s' ds. lcd_printf s str = Inr (s', ds) \<and> cursor_ok s' \<and> (\<forall>d \<in> set ds. on_screen d)"
proof -
  have "cursor_ok (s\<lparr>cur_row := 0\<rparr>)" using assms(1) by (simp add: cursor_ok_def)
  from lcd_chars_line [OF this] assms(2) show ?thesis
    by (intro exI [where x = "fst (lcd_chars (s\<lparr>cur_row := 0\<rparr>) (takeWhile (\<lambda>c. c \<noteq> 0) str))"]
          exI [where x = "snd (lcd_chars (s\<lparr>cur_row := 0\<rparr>) (takeWhile (\<lambda>c. c \<noteq> 0) str))"])
       (simp add: lcd_printf_def)
qed

theorem lcd_printf_on_screen_witness:
  "\<exists>s' ds. lcd_printf \<lparr>cur_line = 14, cur_row = 0\<rparr> [65, 10, 66] = Inr (s', ds) \<and> cursor_ok s'"
  using lcd_printf_on_screen [of "\<lparr>cur_line = 14, cur_row = 0\<rparr>" "[65, 10, 66]"] by (auto simp: cursor_ok_def)

section \<open>Symbols\<close>

text \<open>With a symbol map ended by \<open>_etext\<close>, the search never reads behind the map, and it yields an
  entry whose code holds the address, or none if no entry has one.\<close>

lemma find_symbol_run:
  assumes "n < length m" "strncmp_eq [95, 101, 116, 101, 120, 116] (snd (m ! n)) 6"
    and "\<forall>i < n. \<not> strncmp_eq [95, 101, 116, 101, 120, 116] (snd (m ! i)) 6" "i \<le> n"
  shows "(\<exists>j. find_symbol m addr i = Inr (Some j) \<and> i \<le> j \<and> j < n \<and> fst (m ! j) \<le> addr \<and> addr < fst (m ! Suc j))
    \<or> (find_symbol m addr i = Inr None \<and> (\<forall>j. i \<le> j \<and> j < n \<longrightarrow> \<not> (fst (m ! j) \<le> addr \<and> addr < fst (m ! Suc j))))"
  using assms(4)
proof (induction "n - i" arbitrary: i)
  case 0
  then have "i = n" by simp
  then show ?case using assms(1, 2) by (simp add: find_symbol.simps [of m addr n])
next
  case (Suc k)
  then have i: "i < n" "Suc i < length m" "i < length m" using assms(1) by simp_all
  let ?hit = "fst (m ! i) \<le> addr \<and> addr < fst (m ! Suc i)"
  have s: "find_symbol m addr i = (if ?hit then Inr (Some i) else find_symbol m addr (Suc i))"
    using i assms(3) by (simp add: find_symbol.simps [of m addr i])
  have "k = n - Suc i" "Suc i \<le> n" using Suc.hyps(2) i(1) by simp_all
  note IH = Suc.hyps(1) [OF this]
  show ?case
  proof (cases ?hit)
    case True
    then show ?thesis using s i by auto
  next
    case False
    show ?thesis
    proof (cases "find_symbol m addr (Suc i) = Inr None")
      case True
      with IH False s show ?thesis by (metis Inr_inject le_antisym not_less_eq_eq option.distinct(1))
    next
      case False
      with IH \<open>\<not> ?hit\<close> s show ?thesis by (auto dest: Suc_leD)
    qed
  qed
qed

end
