(* ===== verification/Lcd.thy ===== *)
theory Lcd
  imports Lkfs_Base
begin

text \<open>
  The graphics of the demonstration board, \<open>src/lcd-demo/src\<close>: the bus to the display controller of
  \<open>lcd_init.c\<close>, the driver \<open>ili9320.c\<close> with its font \<open>ili9320_font.h\<close>, and the drawing routines of \<open>ili9320_api.c\<close>.
  An operation returns what it writes on the bus, in this order: the number of a register or a datum, 16 bits each.
  Loops over 16-bit counters have fuel; \<open>NoEnd\<close> is a loop that has not ended.
\<close>

section \<open>The bus\<close>

datatype bus = Index u16 | Data u16

text \<open>\<open>*(__IO uint16_t *)(Bank1_LCD_C) = index\<close> and \<open>*(__IO uint16_t *)(Bank1_LCD_D) = val\<close>.\<close>

definition LCD_WR_REG :: "u32 \<Rightarrow> bus list" where
  "LCD_WR_REG index = [Index (ucast index)]"

definition LCD_WR_CMD :: "u32 \<Rightarrow> u32 \<Rightarrow> bus list" where
  "LCD_WR_CMD index val = [Index (ucast index), Data (ucast val)]"

definition LCD_WR_Data :: "u32 \<Rightarrow> bus list" where
  "LCD_WR_Data val = [Data (ucast val)]"

text \<open>The set-up of the controller, between the reset of the chip and without the delays.\<close>

definition LCD_Initialization :: "bus list" where
  "LCD_Initialization = concat (map (\<lambda>(index, val). LCD_WR_CMD index val)
      [(0xE3, 0x3008), (0xE7, 0x12), (0xEF, 0x1231), (0, 1), (1, 0x100), (2, 0x700), (3, 0x1018), (4, 0),
       (8, 0x202), (9, 0), (0xA, 0), (0xC, 0), (0xD, 0), (0xF, 0), (0x10, 0), (0x11, 7),
       (0x12, 0), (0x13, 0), (0x10, 0x1690), (0x11, 0x227), (0x12, 0x1C), (0x13, 0x1800), (0x29, 0x1C), (0x2B, 0xD),
       (0x20, 0), (0x21, 0), (0x30, 7), (0x31, 0x302), (0x32, 0x105), (0x35, 0x206), (0x36, 0x808), (0x37, 0x206),
       (0x38, 0x504), (0x39, 7), (0x3C, 0x105), (0x3D, 0x808), (0x50, 0), (0x51, 0xEF), (0x52, 0), (0x53, 0x13F),
       (0x60, 0xA700), (0x61, 1), (0x6A, 0), (0x80, 0), (0x81, 0), (0x82, 0), (0x83, 0), (0x84, 0),
       (0x85, 0), (0x90, 0x10), (0x92, 0), (0x93, 3), (0x95, 0x110), (0x97, 0), (0x98, 0), (7, 0x133),
       (0x20, 0), (0x21, 0x13F)])
     @ LCD_WR_REG 34 @ concat (replicate 76800 (LCD_WR_Data 0xFFFF))"

section \<open>The driver\<close>

definition ili9320_SetCursor :: "u16 \<Rightarrow> u16 \<Rightarrow> bus list" where
  "ili9320_SetCursor x y = LCD_WR_CMD 32 (ucast y) @ LCD_WR_CMD 33 (319 - ucast x)"

definition ili9320_SetWindows :: "u16 \<Rightarrow> u16 \<Rightarrow> u16 \<Rightarrow> u16 \<Rightarrow> bus list" where
  "ili9320_SetWindows StartX StartY EndX EndY =
     LCD_WR_CMD 0x50 (ucast StartY) @ LCD_WR_CMD 0x51 (ucast EndX)
     @ LCD_WR_CMD 0x52 (319 - ucast StartX) @ LCD_WR_CMD 0x53 (ucast EndY)"

definition ili9320_Clear :: "u16 \<Rightarrow> bus list" where
  "ili9320_Clear dat =
     LCD_WR_CMD 0x50 0 @ LCD_WR_CMD 0x51 239 @ LCD_WR_CMD 0x52 0 @ LCD_WR_CMD 0x53 319
     @ LCD_WR_CMD 32 0 @ LCD_WR_CMD 33 0 @ LCD_WR_REG 34 @ concat (replicate 76800 (LCD_WR_Data (ucast dat)))"

definition ili9320_BGR2RGB :: "u16 \<Rightarrow> u16" where
  "ili9320_BGR2RGB c =
     (let b = c AND 0x1F;
          g = drop_bit 5 c AND 0x3F;
          r = drop_bit 11 c AND 0x1F
      in push_bit 11 b + push_bit 5 g + r)"

text \<open>Reading a point: what is written, and the colour when the controller answers \<open>datum\<close>.\<close>

definition ili9320_GetPoint :: "u16 \<Rightarrow> u16 \<Rightarrow> u16 \<Rightarrow> bus list \<times> u16" where
  "ili9320_GetPoint datum x y = (ili9320_SetCursor x y @ LCD_WR_REG 34, ili9320_BGR2RGB datum)"

definition ili9320_SetPoint :: "u16 \<Rightarrow> u16 \<Rightarrow> u16 \<Rightarrow> bus list" where
  "ili9320_SetPoint x y point = LCD_WR_CMD 32 (ucast y) @ LCD_WR_CMD 33 (319 - ucast x) @ LCD_WR_REG 34 @ LCD_WR_Data (ucast point)"

text \<open>\<open>for (i = 0; i < EndX * EndY; i++) LCD_WR_Data(*pic++)\<close> with a 16-bit \<open>i\<close>; the product is an \<open>int\<close>.\<close>

fun draw_pixels :: "nat \<Rightarrow> int \<Rightarrow> u16 \<Rightarrow> u16 list \<Rightarrow> bus list res" where
  "draw_pixels 0 count i pic = Inl NoEnd"
| "draw_pixels (Suc fuel) count i pic =
     (if uint i < count then
        case pic of
          [] \<Rightarrow> Inl OutOfBounds
        | p # pic \<Rightarrow> rbind (draw_pixels fuel count (i + 1) pic) (\<lambda>bs. Inr (LCD_WR_Data (ucast p) @ bs))
      else Inr [])"

definition ili9320_DrawPicture :: "nat \<Rightarrow> u16 \<Rightarrow> u16 \<Rightarrow> u16 \<Rightarrow> u16 \<Rightarrow> u16 list \<Rightarrow> bus list res" where
  "ili9320_DrawPicture fuel StartX StartY EndX EndY pic =
     rbind (draw_pixels fuel (sint (ucast EndX * ucast EndY :: u32)) 0 pic) (\<lambda>bs.
     Inr (ili9320_SetWindows StartX StartY EndX EndY @ ili9320_SetCursor StartX StartY @ bs))"

text \<open>The test picture: stripes of 40 of the 320 columns.\<close>

definition test_colour :: "nat \<Rightarrow> u16" where
  "test_colour i = (if i > 279 then 0 else if i > 239 then 0x1F else if i > 199 then 0x07E0 else if i > 159 then 0x07FF
     else if i > 119 then 0xF800 else if i > 79 then 0xF81F else if i > 39 then 0xFFE0 else 0xFFFF)"

definition ili9320_Test :: "bus list" where
  "ili9320_Test = ili9320_SetCursor 0 0
     @ concat (map (\<lambda>i. concat (map (\<lambda>j. LCD_WR_Data (ucast (test_colour i))) [0..<240])) [0..<320])"

text \<open>In \<open>ili9320.c\<close> the parameter of \<open>LCD_WR_REG\<close> is declared as an \<open>unsigned char\<close>.\<close>

definition ili9320_WriteIndex :: "u16 \<Rightarrow> bus list" where
  "ili9320_WriteIndex idx = LCD_WR_REG (ucast (ucast idx :: u8))"

definition ili9320_WriteData :: "u16 \<Rightarrow> bus list" where
  "ili9320_WriteData dat = LCD_WR_Data (ucast dat)"

definition ili9320_WriteRegister :: "u16 \<Rightarrow> u16 \<Rightarrow> bus list" where
  "ili9320_WriteRegister index dat = LCD_WR_CMD (ucast index) (ucast dat)"

section \<open>Characters\<close>

text \<open>The font: 16 rows of 8 dots for each of the characters 0x20 to 0x7F.\<close>

definition ascii_8x16 :: "u8 list" where
  "ascii_8x16 = [
     0, 0, 0, 0, 0, 0, 0, 0, 0, 0, 0, 0, 0, 0, 0, 0,
     0, 0, 0x18, 0x3C, 0x3C, 0x3C, 0x18, 0x18, 0x18, 0, 0x18, 0x18, 0, 0, 0, 0,
     0, 0x66, 0x66, 0x66, 0x24, 0, 0, 0, 0, 0, 0, 0, 0, 0, 0, 0,
     0, 0, 0, 0x6C, 0x6C, 0xFE, 0x6C, 0x6C, 0x6C, 0xFE, 0x6C, 0x6C, 0, 0, 0, 0,
     0x18, 0x18, 0x7C, 0xC6, 0xC2, 0xC0, 0x7C, 6, 0x86, 0xC6, 0x7C, 0x18, 0x18, 0, 0, 0,
     0, 0, 0, 0, 0xC2, 0xC6, 0x0C, 0x18, 0x30, 0x60, 0xC6, 0x86, 0, 0, 0, 0,
     0, 0, 0x38, 0x6C, 0x6C, 0x38, 0x76, 0xDC, 0xCC, 0xCC, 0xCC, 0x76, 0, 0, 0, 0,
     0, 0x30, 0x30, 0x30, 0x60, 0, 0, 0, 0, 0, 0, 0, 0, 0, 0, 0,
     0, 0, 0x0C, 0x18, 0x30, 0x30, 0x30, 0x30, 0x30, 0x30, 0x18, 0x0C, 0, 0, 0, 0,
     0, 0, 0x30, 0x18, 0x0C, 0x0C, 0x0C, 0x0C, 0x0C, 0x0C, 0x18, 0x30, 0, 0, 0, 0,
     0, 0, 0, 0, 0, 0x66, 0x3C, 0xFF, 0x3C, 0x66, 0, 0, 0, 0, 0, 0,
     0, 0, 0, 0, 0, 0x18, 0x18, 0x7E, 0x18, 0x18, 0, 0, 0, 0, 0, 0,
     0, 0, 0, 0, 0, 0, 0, 0, 0, 0x18, 0x18, 0x18, 0x30, 0, 0, 0,
     0, 0, 0, 0, 0, 0, 0, 0xFE, 0, 0, 0, 0, 0, 0, 0, 0,
     0, 0, 0, 0, 0, 0, 0, 0, 0, 0, 0x18, 0x18, 0, 0, 0, 0,
     0, 0, 0, 0, 2, 6, 0x0C, 0x18, 0x30, 0x60, 0xC0, 0x80, 0, 0, 0, 0,
     0, 0, 0x7C, 0xC6, 0xC6, 0xCE, 0xD6, 0xD6, 0xE6, 0xC6, 0xC6, 0x7C, 0, 0, 0, 0,
     0, 0, 0x18, 0x38, 0x78, 0x18, 0x18, 0x18, 0x18, 0x18, 0x18, 0x7E, 0, 0, 0, 0,
     0, 0, 0x7C, 0xC6, 6, 0x0C, 0x18, 0x30, 0x60, 0xC0, 0xC6, 0xFE, 0, 0, 0, 0,
     0, 0, 0x7C, 0xC6, 6, 6, 0x3C, 6, 6, 6, 0xC6, 0x7C, 0, 0, 0, 0,
     0, 0, 0x0C, 0x1C, 0x3C, 0x6C, 0xCC, 0xFE, 0x0C, 0x0C, 0x0C, 0x1E, 0, 0, 0, 0,
     0, 0, 0xFE, 0xC0, 0xC0, 0xC0, 0xFC, 0x0E, 6, 6, 0xC6, 0x7C, 0, 0, 0, 0,
     0, 0, 0x38, 0x60, 0xC0, 0xC0, 0xFC, 0xC6, 0xC6, 0xC6, 0xC6, 0x7C, 0, 0, 0, 0,
     0, 0, 0xFE, 0xC6, 6, 6, 0x0C, 0x18, 0x30, 0x30, 0x30, 0x30, 0, 0, 0, 0,
     0, 0, 0x7C, 0xC6, 0xC6, 0xC6, 0x7C, 0xC6, 0xC6, 0xC6, 0xC6, 0x7C, 0, 0, 0, 0,
     0, 0, 0x7C, 0xC6, 0xC6, 0xC6, 0x7E, 6, 6, 6, 0x0C, 0x78, 0, 0, 0, 0,
     0, 0, 0, 0, 0x18, 0x18, 0, 0, 0, 0x18, 0x18, 0, 0, 0, 0, 0,
     0, 0, 0, 0, 0x18, 0x18, 0, 0, 0, 0x18, 0x18, 0x30, 0, 0, 0, 0,
     0, 0, 0, 6, 0x0C, 0x18, 0x30, 0x60, 0x30, 0x18, 0x0C, 6, 0, 0, 0, 0,
     0, 0, 0, 0, 0, 0, 0xFE, 0, 0, 0xFE, 0, 0, 0, 0, 0, 0,
     0, 0, 0, 0x60, 0x30, 0x18, 0x0C, 6, 0x0C, 0x18, 0x30, 0x60, 0, 0, 0, 0,
     0, 0, 0x7C, 0xC6, 0xC6, 0x0C, 0x18, 0x18, 0x18, 0, 0x18, 0x18, 0, 0, 0, 0,
     0, 0, 0, 0x7C, 0xC6, 0xC6, 0xDE, 0xDE, 0xDE, 0xDC, 0xC0, 0x7C, 0, 0, 0, 0,
     0, 0, 0x10, 0x38, 0x6C, 0xC6, 0xC6, 0xFE, 0xC6, 0xC6, 0xC6, 0xC6, 0, 0, 0, 0,
     0, 0, 0xFC, 0x66, 0x66, 0x66, 0x7C, 0x66, 0x66, 0x66, 0x66, 0xFC, 0, 0, 0, 0,
     0, 0, 0x3C, 0x66, 0xC2, 0xC0, 0xC0, 0xC0, 0xC0, 0xC2, 0x66, 0x3C, 0, 0, 0, 0,
     0, 0, 0xF8, 0x6C, 0x66, 0x66, 0x66, 0x66, 0x66, 0x66, 0x6C, 0xF8, 0, 0, 0, 0,
     0, 0, 0xFE, 0x66, 0x62, 0x68, 0x78, 0x68, 0x60, 0x62, 0x66, 0xFE, 0, 0, 0, 0,
     0, 0, 0xFE, 0x66, 0x62, 0x68, 0x78, 0x68, 0x60, 0x60, 0x60, 0xF0, 0, 0, 0, 0,
     0, 0, 0x3C, 0x66, 0xC2, 0xC0, 0xC0, 0xDE, 0xC6, 0xC6, 0x66, 0x3A, 0, 0, 0, 0,
     0, 0, 0xC6, 0xC6, 0xC6, 0xC6, 0xFE, 0xC6, 0xC6, 0xC6, 0xC6, 0xC6, 0, 0, 0, 0,
     0, 0, 0x3C, 0x18, 0x18, 0x18, 0x18, 0x18, 0x18, 0x18, 0x18, 0x3C, 0, 0, 0, 0,
     0, 0, 0x1E, 0x0C, 0x0C, 0x0C, 0x0C, 0x0C, 0xCC, 0xCC, 0xCC, 0x78, 0, 0, 0, 0,
     0, 0, 0xE6, 0x66, 0x6C, 0x6C, 0x78, 0x78, 0x6C, 0x66, 0x66, 0xE6, 0, 0, 0, 0,
     0, 0, 0xF0, 0x60, 0x60, 0x60, 0x60, 0x60, 0x60, 0x62, 0x66, 0xFE, 0, 0, 0, 0,
     0, 0, 0xC6, 0xEE, 0xFE, 0xFE, 0xD6, 0xC6, 0xC6, 0xC6, 0xC6, 0xC6, 0, 0, 0, 0,
     0, 0, 0xC6, 0xE6, 0xF6, 0xFE, 0xDE, 0xCE, 0xC6, 0xC6, 0xC6, 0xC6, 0, 0, 0, 0,
     0, 0, 0x38, 0x6C, 0xC6, 0xC6, 0xC6, 0xC6, 0xC6, 0xC6, 0x6C, 0x38, 0, 0, 0, 0,
     0, 0, 0xFC, 0x66, 0x66, 0x66, 0x7C, 0x60, 0x60, 0x60, 0x60, 0xF0, 0, 0, 0, 0,
     0, 0, 0x7C, 0xC6, 0xC6, 0xC6, 0xC6, 0xC6, 0xC6, 0xD6, 0xDE, 0x7C, 0x0C, 0x0E, 0, 0,
     0, 0, 0xFC, 0x66, 0x66, 0x66, 0x7C, 0x6C, 0x66, 0x66, 0x66, 0xE6, 0, 0, 0, 0,
     0, 0, 0x7C, 0xC6, 0xC6, 0x60, 0x38, 0x0C, 6, 0xC6, 0xC6, 0x7C, 0, 0, 0, 0,
     0, 0, 0x7E, 0x7E, 0x5A, 0x18, 0x18, 0x18, 0x18, 0x18, 0x18, 0x3C, 0, 0, 0, 0,
     0, 0, 0xC6, 0xC6, 0xC6, 0xC6, 0xC6, 0xC6, 0xC6, 0xC6, 0xC6, 0x7C, 0, 0, 0, 0,
     0, 0, 0xC6, 0xC6, 0xC6, 0xC6, 0xC6, 0xC6, 0xC6, 0x6C, 0x38, 0x10, 0, 0, 0, 0,
     0, 0, 0xC6, 0xC6, 0xC6, 0xC6, 0xC6, 0xD6, 0xD6, 0xFE, 0x6C, 0x6C, 0, 0, 0, 0,
     0, 0, 0xC6, 0xC6, 0x6C, 0x6C, 0x38, 0x38, 0x6C, 0x6C, 0xC6, 0xC6, 0, 0, 0, 0,
     0, 0, 0x66, 0x66, 0x66, 0x66, 0x3C, 0x18, 0x18, 0x18, 0x18, 0x3C, 0, 0, 0, 0,
     0, 0, 0xFE, 0xC6, 0x86, 0x0C, 0x18, 0x30, 0x60, 0xC2, 0xC6, 0xFE, 0, 0, 0, 0,
     0, 0, 0x3C, 0x30, 0x30, 0x30, 0x30, 0x30, 0x30, 0x30, 0x30, 0x3C, 0, 0, 0, 0,
     0, 0, 0, 0x80, 0xC0, 0xE0, 0x70, 0x38, 0x1C, 0x0E, 6, 2, 0, 0, 0, 0,
     0, 0, 0x3C, 0x0C, 0x0C, 0x0C, 0x0C, 0x0C, 0x0C, 0x0C, 0x0C, 0x3C, 0, 0, 0, 0,
     0x10, 0x38, 0x6C, 0xC6, 0, 0, 0, 0, 0, 0, 0, 0, 0, 0, 0, 0,
     0, 0, 0, 0, 0, 0, 0, 0, 0, 0, 0, 0, 0, 0xFF, 0, 0,
     0x30, 0x30, 0x18, 0, 0, 0, 0, 0, 0, 0, 0, 0, 0, 0, 0, 0,
     0, 0, 0, 0, 0, 0x78, 0x0C, 0x7C, 0xCC, 0xCC, 0xCC, 0x76, 0, 0, 0, 0,
     0, 0, 0xE0, 0x60, 0x60, 0x78, 0x6C, 0x66, 0x66, 0x66, 0x66, 0xDC, 0, 0, 0, 0,
     0, 0, 0, 0, 0, 0x7C, 0xC6, 0xC0, 0xC0, 0xC0, 0xC6, 0x7C, 0, 0, 0, 0,
     0, 0, 0x1C, 0x0C, 0x0C, 0x3C, 0x6C, 0xCC, 0xCC, 0xCC, 0xCC, 0x76, 0, 0, 0, 0,
     0, 0, 0, 0, 0, 0x7C, 0xC6, 0xFE, 0xC0, 0xC0, 0xC6, 0x7C, 0, 0, 0, 0,
     0, 0, 0x38, 0x6C, 0x64, 0x60, 0xF0, 0x60, 0x60, 0x60, 0x60, 0xF0, 0, 0, 0, 0,
     0, 0, 0, 0, 0, 0x76, 0xCC, 0xCC, 0xCC, 0xCC, 0xCC, 0x7C, 0x0C, 0xCC, 0x78, 0,
     0, 0, 0xE0, 0x60, 0x60, 0x6C, 0x76, 0x66, 0x66, 0x66, 0x66, 0xE6, 0, 0, 0, 0,
     0, 0, 0x18, 0x18, 0, 0x38, 0x18, 0x18, 0x18, 0x18, 0x18, 0x3C, 0, 0, 0, 0,
     0, 0, 6, 6, 0, 0x0E, 6, 6, 6, 6, 6, 6, 0x66, 0x66, 0x3C, 0,
     0, 0, 0xE0, 0x60, 0x60, 0x66, 0x6C, 0x78, 0x78, 0x6C, 0x66, 0xE6, 0, 0, 0, 0,
     0, 0, 0x38, 0x18, 0x18, 0x18, 0x18, 0x18, 0x18, 0x18, 0x18, 0x3C, 0, 0, 0, 0,
     0, 0, 0, 0, 0, 0xEC, 0xFE, 0xD6, 0xD6, 0xD6, 0xD6, 0xD6, 0, 0, 0, 0,
     0, 0, 0, 0, 0, 0xDC, 0x66, 0x66, 0x66, 0x66, 0x66, 0x66, 0, 0, 0, 0,
     0, 0, 0, 0, 0, 0x7C, 0xC6, 0xC6, 0xC6, 0xC6, 0xC6, 0x7C, 0, 0, 0, 0,
     0, 0, 0, 0, 0, 0xDC, 0x66, 0x66, 0x66, 0x66, 0x66, 0x7C, 0x60, 0x60, 0xF0, 0,
     0, 0, 0, 0, 0, 0x76, 0xCC, 0xCC, 0xCC, 0xCC, 0xCC, 0x7C, 0x0C, 0x0C, 0x1E, 0,
     0, 0, 0, 0, 0, 0xDC, 0x76, 0x62, 0x60, 0x60, 0x60, 0xF0, 0, 0, 0, 0,
     0, 0, 0, 0, 0, 0x7C, 0xC6, 0x60, 0x38, 0x0C, 0xC6, 0x7C, 0, 0, 0, 0,
     0, 0, 0x10, 0x30, 0x30, 0xFC, 0x30, 0x30, 0x30, 0x30, 0x36, 0x1C, 0, 0, 0, 0,
     0, 0, 0, 0, 0, 0xCC, 0xCC, 0xCC, 0xCC, 0xCC, 0xCC, 0x76, 0, 0, 0, 0,
     0, 0, 0, 0, 0, 0x66, 0x66, 0x66, 0x66, 0x66, 0x3C, 0x18, 0, 0, 0, 0,
     0, 0, 0, 0, 0, 0xC6, 0xC6, 0xC6, 0xD6, 0xD6, 0xFE, 0x6C, 0, 0, 0, 0,
     0, 0, 0, 0, 0, 0xC6, 0x6C, 0x38, 0x38, 0x38, 0x6C, 0xC6, 0, 0, 0, 0,
     0, 0, 0, 0, 0, 0xC6, 0xC6, 0xC6, 0xC6, 0xC6, 0xC6, 0x7E, 6, 0x0C, 0xF8, 0,
     0, 0, 0, 0, 0, 0xFE, 0xCC, 0x18, 0x30, 0x60, 0xC6, 0xFE, 0, 0, 0, 0,
     0, 0, 0x0E, 0x18, 0x18, 0x18, 0x70, 0x18, 0x18, 0x18, 0x18, 0x0E, 0, 0, 0, 0,
     0, 0, 0x18, 0x18, 0x18, 0x18, 0, 0x18, 0x18, 0x18, 0x18, 0x18, 0, 0, 0, 0,
     0, 0, 0x70, 0x18, 0x18, 0x18, 0x0E, 0x18, 0x18, 0x18, 0x18, 0x70, 0, 0, 0, 0,
     0, 0, 0x76, 0xDC, 0, 0, 0, 0, 0, 0, 0, 0, 0, 0, 0, 0,
     0, 0, 0, 0, 0x10, 0x38, 0x6C, 0xC6, 0xC6, 0xC6, 0xFE, 0, 0, 0, 0, 0]"

text \<open>The row \<open>ascii_8x16[(c - 0x20) * 16 + i]\<close>, an index of type \<open>int\<close>.\<close>

definition font_row :: "u8 \<Rightarrow> nat \<Rightarrow> u8 res" where
  "font_row c i =
     (if c < 0x20 then Inl OutOfBounds
      else
        let k = (unat c - 0x20) * 16 + i
        in if length ascii_8x16 \<le> k then Inl OutOfBounds else Inr (ascii_8x16 ! k))"

definition put_row :: "u16 \<Rightarrow> u16 \<Rightarrow> u16 \<Rightarrow> u16 \<Rightarrow> nat \<Rightarrow> u8 \<Rightarrow> bus list" where
  "put_row x y charColor bkColor i tmp_char = concat (map (\<lambda>j.
     ili9320_SetPoint (x + of_nat j) (y + of_nat i) (if drop_bit (7 - j) tmp_char AND 1 \<noteq> 0 then charColor else bkColor)) [0..<8])"

fun put_rows :: "u16 \<Rightarrow> u16 \<Rightarrow> u8 \<Rightarrow> u16 \<Rightarrow> u16 \<Rightarrow> nat list \<Rightarrow> bus list res" where
  "put_rows x y c charColor bkColor [] = Inr []"
| "put_rows x y c charColor bkColor (i # rows) =
     rbind (font_row c i) (\<lambda>tmp_char.
     rbind (put_rows x y c charColor bkColor rows) (\<lambda>bs. Inr (put_row x y charColor bkColor i tmp_char @ bs)))"

definition ili9320_PutChar :: "u16 \<Rightarrow> u16 \<Rightarrow> u8 \<Rightarrow> u16 \<Rightarrow> u16 \<Rightarrow> bus list res" where
  "ili9320_PutChar x y c charColor bkColor = put_rows x y c charColor bkColor [0..<16]"

text \<open>A string is the list of its bytes before the NUL, which has no dots to draw; the counter is a byte.\<close>

fun text_chars :: "nat \<Rightarrow> u16 \<Rightarrow> u16 \<Rightarrow> int \<Rightarrow> u8 \<Rightarrow> u8 list \<Rightarrow> u16 \<Rightarrow> u16 \<Rightarrow> bus list res" where
  "text_chars 0 x y len i str Color bkColor = Inl NoEnd"
| "text_chars (Suc fuel) x y len i str Color bkColor =
     (if uint i < len then
        case str of
          [] \<Rightarrow> Inl OutOfBounds
        | c # str \<Rightarrow>
            rbind (ili9320_PutChar (x + 8 * ucast i) y c Color bkColor) (\<lambda>b.
            rbind (text_chars fuel x y len (i + 1) str Color bkColor) (\<lambda>bs. Inr (b @ bs)))
      else Inr [])"

definition GUI_Text :: "nat \<Rightarrow> u16 \<Rightarrow> u16 \<Rightarrow> u8 list \<Rightarrow> u16 \<Rightarrow> u16 \<Rightarrow> bus list res" where
  "GUI_Text fuel x y str Color bkColor = text_chars fuel x y (int (length str)) 0 str Color bkColor"

text \<open>Chinese characters, two bytes each; their dots are in the flash memory at 0x08030000, read by \<open>flash\<close>.\<close>

definition chn_dots :: "(u32 \<Rightarrow> u8) \<Rightarrow> u8 \<Rightarrow> u8 \<Rightarrow> nat \<Rightarrow> u8" where
  "chn_dots flash hi lo k =
     (let qh = hi - 0xA0;
          wh = lo - 0xA0;
          offset = (94 * (ucast qh - 1) + (ucast wh - 1)) * 32
      in flash (0x08030000 + offset + of_nat k))"

fun chn_chars :: "(u32 \<Rightarrow> u8) \<Rightarrow> u16 \<Rightarrow> u16 \<Rightarrow> u8 list \<Rightarrow> nat \<Rightarrow> nat \<Rightarrow> u16 \<Rightarrow> u16 \<Rightarrow> bus list res" where
  "chn_chars flash x y str i 0 Color bkColor = Inr []"
| "chn_chars flash x y str i (Suc n) Color bkColor =
     (if length str \<le> 2 * i + 1 then Inl OutOfBounds
      else
        rbind (chn_chars flash x y str (Suc i) n Color bkColor) (\<lambda>bs.
        Inr (concat (map (\<lambda>m. concat (map (\<lambda>k. concat (map (\<lambda>j.
          ili9320_SetPoint (of_nat i * 16 + x + of_nat j + of_nat k * 8) (y + of_nat m)
            (if chn_dots flash (str ! (2 * i)) (str ! (2 * i + 1)) (m * 2 + k) AND drop_bit j 0x80 \<noteq> 0 then Color else bkColor))
          [0..<8])) [0..<2])) [0..<16]) @ bs)))"

definition GUI_Chn :: "(u32 \<Rightarrow> u8) \<Rightarrow> u16 \<Rightarrow> u16 \<Rightarrow> u8 list \<Rightarrow> u16 \<Rightarrow> u16 \<Rightarrow> u16 \<Rightarrow> bus list res" where
  "GUI_Chn flash x y str len Color bkColor = chn_chars flash x y str 0 (unat len div 2) Color bkColor"

section \<open>Lines\<close>

definition GUI_Color565 :: "u32 \<Rightarrow> u16" where
  "GUI_Color565 RGB =
     (let b = ucast (drop_bit 3 RGB AND 0x1F) :: u8;
          g = ucast (drop_bit 10 RGB AND 0x3F) :: u8;
          r = ucast (drop_bit 19 RGB AND 0x1F) :: u8
      in push_bit 11 (ucast r) + push_bit 5 (ucast g) + ucast b)"

text \<open>The calls of \<open>ili9320_SetPoint\<close> one after the other.\<close>

definition set_points :: "u16 \<Rightarrow> (u16 \<times> u16) list \<Rightarrow> bus list" where
  "set_points color ps = concat (map (\<lambda>(x, y). ili9320_SetPoint x y color) ps)"

text \<open>The loops of \<open>GUI_Line\<close>, as the points they set: horizontal, vertical, diagonal, and Bresenham's algorithm along either
  axis, where \<open>up\<close> tells whether the other coordinate (\<open>line_x\<close>) or this one (\<open>line_y\<close>) grows. \<open>p\<close> is an \<open>s16\<close>.\<close>

fun flat_x :: "nat \<Rightarrow> u16 \<Rightarrow> u16 \<Rightarrow> u16 \<Rightarrow> (u16 \<times> u16) list res" where
  "flat_x 0 x x1 y = Inl NoEnd"
| "flat_x (Suc fuel) x x1 y =
     (if x \<le> x1 then rbind (flat_x fuel (x + 1) x1 y) (\<lambda>ps. Inr ((x, y) # ps)) else Inr [])"

fun flat_y :: "nat \<Rightarrow> u16 \<Rightarrow> u16 \<Rightarrow> u16 \<Rightarrow> (u16 \<times> u16) list res" where
  "flat_y 0 y y1 x = Inl NoEnd"
| "flat_y (Suc fuel) y y1 x =
     (if y \<le> y1 then rbind (flat_y fuel (y + 1) y1 x) (\<lambda>ps. Inr ((x, y) # ps)) else Inr [])"

fun diagonal :: "nat \<Rightarrow> u16 \<Rightarrow> u16 \<Rightarrow> u16 \<Rightarrow> u16 \<Rightarrow> (u16 \<times> u16) list res" where
  "diagonal 0 x y x1 y1 = Inl NoEnd"
| "diagonal (Suc fuel) x y x1 y1 =
     (if x \<le> x1 then
        let x = x + 1;
            y = (if y > y1 then y - 1 else y + 1)
        in rbind (diagonal fuel x y x1 y1) (\<lambda>ps. Inr ((x, y) # ps))
      else Inr [])"

fun line_x :: "nat \<Rightarrow> bool \<Rightarrow> u16 \<Rightarrow> u16 \<Rightarrow> u16 \<Rightarrow> u16 \<Rightarrow> u16 \<Rightarrow> u16 \<Rightarrow> (u16 \<times> u16) list res" where
  "line_x 0 up x y x1 p twoDy twoDyMinusDx = Inl NoEnd"
| "line_x (Suc fuel) up x y x1 p twoDy twoDyMinusDx =
     (if x < x1 then
        let x = x + 1;
            (y, p) = (if sint p < 0 then (y, p + twoDy) else (if up then y + 1 else y - 1, p + twoDyMinusDx))
        in rbind (line_x fuel up x y x1 p twoDy twoDyMinusDx) (\<lambda>ps. Inr ((x, y) # ps))
      else Inr [])"

fun line_y :: "nat \<Rightarrow> bool \<Rightarrow> u16 \<Rightarrow> u16 \<Rightarrow> u16 \<Rightarrow> u16 \<Rightarrow> u16 \<Rightarrow> u16 \<Rightarrow> (u16 \<times> u16) list res" where
  "line_y 0 up x y y1 p twoDx twoDxMinusDy = Inl NoEnd"
| "line_y (Suc fuel) up x y y1 p twoDx twoDxMinusDy =
     (if (if up then y < y1 else y1 < y) then
        let y = (if up then y + 1 else y - 1);
            (x, p) = (if sint p < 0 then (x, p + twoDx) else (x + 1, p + twoDxMinusDy))
        in rbind (line_y fuel up x y y1 p twoDx twoDxMinusDy) (\<lambda>ps. Inr ((x, y) # ps))
      else Inr [])"

definition line_points :: "nat \<Rightarrow> u16 \<Rightarrow> u16 \<Rightarrow> u16 \<Rightarrow> u16 \<Rightarrow> (u16 \<times> u16) list res" where
  "line_points fuel x0 y0 x1 y1 =
     (if y0 = y1 then
        if x0 \<le> x1 then flat_x fuel x0 x1 y0 else flat_x fuel x1 x0 y0
      else
        let dy = (if y0 > y1 then y0 - y1 else y1 - y0)
        in if x0 = x1 then
             if y0 \<le> y1 then flat_y fuel y0 y1 x0 else flat_y fuel y1 y0 x0
           else
             let (dx, x, y, x1, y1) = (if x0 > x1 then (x0 - x1, x1, y1, x0, y0) else (x1 - x0, x0, y0, x1, y1))
             in if dx = dy then diagonal fuel x y x1 y1
                else
                  rbind (if dx > dy then line_x fuel (y < y1) x y x1 (dy * 2 - dx) (2 * dy) (2 * (dy - dx))
                         else line_y fuel (y < y1) x y y1 (dx * 2 - dy) (2 * dx) (2 * (dx - dy))) (\<lambda>ps.
                  Inr ((x, y) # ps)))"

definition GUI_Line :: "nat \<Rightarrow> u16 \<Rightarrow> u16 \<Rightarrow> u16 \<Rightarrow> u16 \<Rightarrow> u16 \<Rightarrow> bus list res" where
  "GUI_Line fuel x0 y0 x1 y1 color = rbind (line_points fuel x0 y0 x1 y1) (\<lambda>ps. Inr (set_points color ps))"

section \<open>Circles and rectangles\<close>

text \<open>The pairs \<open>x\<close>, \<open>y\<close> for which the loop of \<open>GUI_Circle\<close> draws; \<open>delta\<close> and \<open>tmp\<close> are \<open>s16\<close>.\<close>

fun circle_steps :: "nat \<Rightarrow> u16 \<Rightarrow> u16 \<Rightarrow> u16 \<Rightarrow> (u16 \<times> u16) list res" where
  "circle_steps 0 x y delta = Inl NoEnd"
| "circle_steps (Suc fuel) x y delta =
     (if y > x then
        let x' = x + 1;
            (y', delta) = (if sint delta \<ge> 0
               then let y' = y - 1; tmp = push_bit 2 x'; tmp = tmp - push_bit 2 y' in (y', delta + (tmp + 10))
               else (y, delta + (push_bit 2 x' + 6)))
        in rbind (circle_steps fuel x' y' delta) (\<lambda>ps. Inr ((x, y) # ps))
      else Inr [])"

definition octants :: "u16 \<Rightarrow> u16 \<Rightarrow> u16 \<times> u16 \<Rightarrow> (u16 \<times> u16) list" where
  "octants cx cy = (\<lambda>(x, y). [(cx + x, cy + y), (cx - x, cy + y), (cx + x, cy - y), (cx - x, cy - y),
     (cx + y, cy + x), (cx - y, cy + x), (cx + y, cy - x), (cx - y, cy - x)])"

fun lines :: "nat \<Rightarrow> u16 \<Rightarrow> (u16 \<times> u16 \<times> u16 \<times> u16) list \<Rightarrow> bus list res" where
  "lines fuel color [] = Inr []"
| "lines fuel color ((x0, y0, x1, y1) # ls) =
     rbind (GUI_Line fuel x0 y0 x1 y1 color) (\<lambda>b. rbind (lines fuel color ls) (\<lambda>bs. Inr (b @ bs)))"

definition GUI_Circle :: "nat \<Rightarrow> u16 \<Rightarrow> u16 \<Rightarrow> u16 \<Rightarrow> u16 \<Rightarrow> u8 \<Rightarrow> bus list res" where
  "GUI_Circle fuel cx cy r color fill =
     rbind (circle_steps fuel 0 r (3 - push_bit 1 r)) (\<lambda>ps.
     if fill \<noteq> 0 then
       lines fuel color (concat (map (\<lambda>(x, y). [(cx + x, cy + y, cx - x, cy + y), (cx + x, cy - y, cx - x, cy - y),
         (cx + y, cy + x, cx - y, cy + x), (cx + y, cy - x, cx - y, cy - x)]) ps))
     else Inr (set_points color (concat (map (octants cx cy) ps))))"

fun columns :: "nat \<Rightarrow> u16 \<Rightarrow> u16 \<Rightarrow> u16 \<Rightarrow> u16 \<Rightarrow> u16 \<Rightarrow> bus list res" where
  "columns 0 i x1 y0 y1 color = Inl NoEnd"
| "columns (Suc fuel) i x1 y0 y1 color =
     (if i \<le> x1 then
        rbind (GUI_Line fuel i y0 i y1 color) (\<lambda>b. rbind (columns fuel (i + 1) x1 y0 y1 color) (\<lambda>bs. Inr (b @ bs)))
      else Inr [])"

definition GUI_Rectangle :: "nat \<Rightarrow> u16 \<Rightarrow> u16 \<Rightarrow> u16 \<Rightarrow> u16 \<Rightarrow> u16 \<Rightarrow> u8 \<Rightarrow> bus list res" where
  "GUI_Rectangle fuel x0 y0 x1 y1 color fill =
     (if fill \<noteq> 0 then
        if x0 > x1 then columns fuel x1 x0 y0 y1 color else columns fuel x0 x1 y0 y1 color
      else lines fuel color [(x0, y0, x0, y1), (x0, y1, x1, y1), (x1, y1, x1, y0), (x1, y0, x0, y0)])"

definition GUI_Square :: "nat \<Rightarrow> u16 \<Rightarrow> u16 \<Rightarrow> u16 \<Rightarrow> u16 \<Rightarrow> u8 \<Rightarrow> bus list res" where
  "GUI_Square fuel x0 y0 side color fill = GUI_Rectangle fuel x0 y0 (x0 + side) (y0 + side) color fill"

end
