(* ===== verification/Lcd_Props.thy ===== *)
theory Lcd_Props
  imports Lcd
begin

text \<open>
  What \<open>Lcd\<close> draws: lines are the nearest points of the grid, filled rectangles cover each point once, circles stay in
  their square; and the arguments for which a routine draws something else or does not return.
\<close>

section \<open>Straight lines\<close>

lemma u16_nat: "n < 65536 \<Longrightarrow> unat (of_nat n :: u16) = n"
  by (simp add: unat_of_nat take_bit_nat_eq_self)

lemma u16_le: "m < 65536 \<Longrightarrow> n < 65536 \<Longrightarrow> (of_nat m :: u16) \<le> of_nat n \<longleftrightarrow> m \<le> n"
  and u16_less: "m < 65536 \<Longrightarrow> n < 65536 \<Longrightarrow> (of_nat m :: u16) < of_nat n \<longleftrightarrow> m < n"
  and u16_eq: "m < 65536 \<Longrightarrow> n < 65536 \<Longrightarrow> (of_nat m :: u16) = of_nat n \<longleftrightarrow> m = n"
  by (simp_all add: word_le_nat_alt word_less_nat_alt word_unat_eq_iff u16_nat)

definition pt :: "nat \<times> nat \<Rightarrow> u16 \<times> u16" where
  "pt = (\<lambda>(x, y). (of_nat x, of_nat y))"

lemma flat_x_points:
  assumes "x1 < 65535" "x \<le> Suc x1" "Suc x1 < x + fuel"
  shows "flat_x fuel (of_nat x) (of_nat x1) y = Inr (map (\<lambda>i. (of_nat i, y)) [x..<Suc x1])"
  using assms
proof (induction fuel arbitrary: x)
  case (Suc fuel)
  show ?case
  proof (cases "x \<le> x1")
    case True
    have "flat_x fuel (of_nat x + 1) (of_nat x1) y = Inr (map (\<lambda>i. (of_nat i, y)) [Suc x..<Suc x1])"
      using Suc.IH [of "Suc x"] Suc.prems True by (simp add: add.commute)
    moreover have "(of_nat x :: u16) \<le> of_nat x1" using True Suc.prems(1) by (simp add: u16_le)
    moreover have "[x..<Suc x1] = x # [Suc x..<Suc x1]" using True by (simp add: upt_rec)
    ultimately show ?thesis by simp
  next
    case False
    then have "\<not> (of_nat x :: u16) \<le> of_nat x1" using Suc.prems by (simp add: u16_le)
    then show ?thesis using False Suc.prems(2) by simp
  qed
qed simp

lemma flat_y_points:
  assumes "y1 < 65535" "y \<le> Suc y1" "Suc y1 < y + fuel"
  shows "flat_y fuel (of_nat y) (of_nat y1) x = Inr (map (\<lambda>i. (x, of_nat i)) [y..<Suc y1])"
  using assms
proof (induction fuel arbitrary: y)
  case (Suc fuel)
  show ?case
  proof (cases "y \<le> y1")
    case True
    have "flat_y fuel (of_nat y + 1) (of_nat y1) x = Inr (map (\<lambda>i. (x, of_nat i)) [Suc y..<Suc y1])"
      using Suc.IH [of "Suc y"] Suc.prems True by (simp add: add.commute)
    moreover have "(of_nat y :: u16) \<le> of_nat y1" using True Suc.prems(1) by (simp add: u16_le)
    moreover have "[y..<Suc y1] = y # [Suc y..<Suc y1]" using True by (simp add: upt_rec)
    ultimately show ?thesis by simp
  next
    case False
    then have "\<not> (of_nat y :: u16) \<le> of_nat y1" using Suc.prems by (simp add: u16_le)
    then show ?thesis using False Suc.prems(2) by simp
  qed
qed simp

section \<open>Bresenham's algorithm\<close>

text \<open>The integer nearest to \<open>i * a / b\<close>, halves rounded up.\<close>

definition nearest :: "nat \<Rightarrow> nat \<Rightarrow> nat \<Rightarrow> nat" where
  "nearest i a b = (2 * i * a + b) div (2 * b)"

text \<open>The decision variable after \<open>i\<close> steps along the longer side \<open>b\<close>.\<close>

definition decision :: "nat \<Rightarrow> nat \<Rightarrow> nat \<Rightarrow> int" where
  "decision i a b = 2 * int a * (int i + 1) - int b - 2 * int b * int (nearest i a b)"

lemma decision_bounds:
  assumes "0 < b"
  shows "2 * int a - 2 * int b \<le> decision i a b" "decision i a b < 2 * int a"
proof -
  define R where "R = (2 * i * a + b) mod (2 * b)"
  have "2 * b * nearest i a b + R = 2 * i * a + b" unfolding nearest_def R_def by simp
  then have "2 * int b * int (nearest i a b) + int R = 2 * int i * int a + int b"
    by (metis (no_types, opaque_lifting) of_nat_add of_nat_mult of_nat_numeral)
  then have "decision i a b = int R + 2 * int a - 2 * int b" by (simp add: decision_def algebra_simps)
  moreover have "R < 2 * b" using assms by (simp add: R_def)
  ultimately show "2 * int a - 2 * int b \<le> decision i a b" "decision i a b < 2 * int a" by simp_all
qed

lemma nearest_Suc:
  assumes "0 < a" "a < b"
  shows "nearest (Suc i) a b = (if decision i a b < 0 then nearest i a b else Suc (nearest i a b))"
proof -
  define q where "q = nearest i a b"
  define R where "R = (2 * i * a + b) mod (2 * b)"
  have e: "2 * i * a + b = 2 * b * q + R" unfolding nearest_def q_def R_def by simp
  have R: "R < 2 * b" using assms by (simp add: R_def)
  have "2 * int i * int a + int b = 2 * int b * int q + int R"
    using arg_cong [OF e, of int] by simp
  then have d: "decision i a b = int R + 2 * int a - 2 * int b" by (simp add: decision_def q_def algebra_simps)
  have e': "2 * Suc i * a + b = 2 * b * q + (R + 2 * a)" using e by (simp add: algebra_simps)
  show ?thesis
  proof (cases "decision i a b < 0")
    case True
    then have "R + 2 * a < 2 * b" using d by simp
    then have "nearest (Suc i) a b = q" unfolding nearest_def e' using assms by simp
    then show ?thesis using True by (simp add: q_def)
  next
    case False
    then have ge: "2 * b \<le> R + 2 * a" using d by simp
    have "nearest (Suc i) a b = Suc q" unfolding nearest_def
    proof (rule div_nat_eqI)
      show "2 * b * Suc q \<le> 2 * Suc i * a + b" unfolding e' using ge by simp
      show "2 * Suc i * a + b < 2 * b * Suc (Suc q)" unfolding e' using R assms by simp
    qed
    then show ?thesis using False by (simp add: q_def)
  qed
qed
lemma decision_Suc:
  assumes "0 < a" "a < b"
  shows "decision (Suc i) a b = decision i a b + (if decision i a b < 0 then 2 * int a else 2 * int a - 2 * int b)"
  using nearest_Suc [OF assms, of i] by (simp add: decision_def algebra_simps)

lemma sint_small:
  assumes "- 32768 \<le> k" "k < 32768"
  shows "sint (of_int k :: u16) = k"
  using assms by (simp add: signed_of_int signed_take_bit_int_eq_self)

definition side :: "bool \<Rightarrow> u16 \<Rightarrow> nat \<Rightarrow> u16" where
  "side up y q = (if up then y + of_nat q else y - of_nat q)"

lemma side_Suc: "side up y (Suc q) = (if up then side up y q + 1 else side up y q - 1)"
  by (simp add: side_def)

lemma line_x_points:
  assumes "0 < a" "a < b" "b < 16384" "X + b < 65536" "i \<le> b" "b < i + fuel"
  shows "line_x fuel up (of_nat (X + i)) (side up y (nearest i a b)) (of_nat (X + b)) (of_int (decision i a b))
      (of_int (2 * int a)) (of_int (2 * int a - 2 * int b))
    = Inr (map (\<lambda>j. (of_nat (X + j), side up y (nearest j a b))) [Suc i..<Suc b])"
  using assms(5, 6)
proof (induction fuel arbitrary: i)
  case (Suc fuel)
  show ?case
  proof (cases "i < b")
    case True
    have lt: "(of_nat (X + i) :: u16) < of_nat (X + b)" using True assms(4) by (subst u16_less) simp_all
    have s: "sint (of_int (decision i a b) :: u16) = decision i a b"
      using decision_bounds(1) [of b a i] decision_bounds(2) [of b i a] assms by (intro sint_small) simp_all
    have p: "(of_int (decision (Suc i) a b) :: u16) = (if decision i a b < 0 then of_int (decision i a b) + of_int (2 * int a)
        else of_int (decision i a b) + of_int (2 * int a - 2 * int b))"
      unfolding decision_Suc [OF assms(1, 2)] by (cases "decision i a b < 0") (simp_all only: of_int_add if_True if_False)
    have x: "(of_nat (X + Suc i) :: u16) = of_nat (X + i) + 1" by simp
    have y: "side up y (nearest (Suc i) a b) = (if decision i a b < 0 then side up y (nearest i a b)
        else if up then side up y (nearest i a b) + 1 else side up y (nearest i a b) - 1)"
      unfolding nearest_Suc [OF assms(1, 2)] by (cases "decision i a b < 0") (simp_all only: side_Suc if_True if_False)
    have IH: "line_x fuel up (of_nat (X + Suc i)) (side up y (nearest (Suc i) a b)) (of_nat (X + b)) (of_int (decision (Suc i) a b))
        (of_int (2 * int a)) (of_int (2 * int a - 2 * int b))
      = Inr (map (\<lambda>j. (of_nat (X + j), side up y (nearest j a b))) [Suc (Suc i)..<Suc b])"
      using Suc.IH [of "Suc i"] Suc.prems True by simp
    have U: "[Suc i..<Suc b] = Suc i # [Suc (Suc i)..<Suc b]" using True by (simp add: upt_rec)
    have R: "map (\<lambda>j. (of_nat (X + j), side up y (nearest j a b))) [Suc i..<Suc b]
      = (of_nat (X + Suc i), side up y (nearest (Suc i) a b)) # map (\<lambda>j. (of_nat (X + j), side up y (nearest j a b))) [Suc (Suc i)..<Suc b]"
      unfolding U by (rule list.map(2))
    show ?thesis unfolding R line_x.simps if_P [OF lt] Let_def s x [symmetric]
      using IH y p by (cases "decision i a b < 0") simp_all
  next
    case False
    then show ?thesis using Suc.prems by simp
  qed
qed simp
lemma side_less:
  assumes "if up then Y + b < 65536 else b \<le> Y \<and> Y < 65536" "i \<le> b"
  shows "(if up then side up (of_nat Y) i < side up (of_nat Y) b else side up (of_nat Y) b < side up (of_nat Y) i) \<longleftrightarrow> i < b"
proof (cases up)
  case True
  then have "side up (of_nat Y) i = of_nat (Y + i)" "side up (of_nat Y) b = of_nat (Y + b)" by (simp_all add: side_def)
  moreover have "(of_nat (Y + i) :: u16) < of_nat (Y + b) \<longleftrightarrow> i < b" using assms True by (subst u16_less) simp_all
  ultimately show ?thesis using True by simp
next
  case False
  then have "side up (of_nat Y) i = of_nat (Y - i)" "side up (of_nat Y) b = of_nat (Y - b)"
    using assms by (simp_all add: side_def)
  moreover have "(of_nat (Y - b) :: u16) < of_nat (Y - i) \<longleftrightarrow> i < b" using assms False by (subst u16_less) auto
  ultimately show ?thesis using False by simp
qed

lemma line_y_points:
  assumes "0 < a" "a < b" "b < 16384" "if up then Y + b < 65536 else b \<le> Y \<and> Y < 65536" "i \<le> b" "b < i + fuel"
  shows "line_y fuel up (x + of_nat (nearest i a b)) (side up (of_nat Y) i) (side up (of_nat Y) b) (of_int (decision i a b))
      (of_int (2 * int a)) (of_int (2 * int a - 2 * int b))
    = Inr (map (\<lambda>j. (x + of_nat (nearest j a b), side up (of_nat Y) j)) [Suc i..<Suc b])"
  using assms(5, 6)
proof (induction fuel arbitrary: i)
  case (Suc fuel)
  note less = side_less [OF assms(4) Suc.prems(1)]
  show ?case
  proof (cases "i < b")
    case True
    have s: "sint (of_int (decision i a b) :: u16) = decision i a b"
      using decision_bounds(1) [of b a i] decision_bounds(2) [of b i a] assms by (intro sint_small) simp_all
    have p: "(of_int (decision (Suc i) a b) :: u16) = (if decision i a b < 0 then of_int (decision i a b) + of_int (2 * int a)
        else of_int (decision i a b) + of_int (2 * int a - 2 * int b))"
      unfolding decision_Suc [OF assms(1, 2)] by (cases "decision i a b < 0") (simp_all only: of_int_add if_True if_False)
    have x: "x + of_nat (nearest (Suc i) a b) = (if decision i a b < 0 then x + of_nat (nearest i a b) else x + of_nat (nearest i a b) + 1)"
      by (simp add: nearest_Suc [OF assms(1, 2)])
    have IH: "line_y fuel up (x + of_nat (nearest (Suc i) a b)) (side up (of_nat Y) (Suc i)) (side up (of_nat Y) b) (of_int (decision (Suc i) a b))
        (of_int (2 * int a)) (of_int (2 * int a - 2 * int b))
      = Inr (map (\<lambda>j. (x + of_nat (nearest j a b), side up (of_nat Y) j)) [Suc (Suc i)..<Suc b])"
      using Suc.IH [of "Suc i"] Suc.prems True by simp
    have U: "[Suc i..<Suc b] = Suc i # [Suc (Suc i)..<Suc b]" using True by (simp add: upt_rec)
    have R: "map (\<lambda>j. (x + of_nat (nearest j a b), side up (of_nat Y) j)) [Suc i..<Suc b]
      = (x + of_nat (nearest (Suc i) a b), side up (of_nat Y) (Suc i)) # map (\<lambda>j. (x + of_nat (nearest j a b), side up (of_nat Y) j)) [Suc (Suc i)..<Suc b]"
      unfolding U by (rule list.map(2))
    show ?thesis unfolding R line_y.simps if_P [OF iffD2 [OF less True]] Let_def s side_Suc [symmetric]
      using IH x p by (cases "decision i a b < 0") simp_all
  next
    case False
    then have "i = b" using Suc.prems by simp
    then show ?thesis unfolding line_y.simps less by simp
  qed
qed simp

section \<open>The line between two points\<close>

definition dist_of :: "nat \<Rightarrow> nat \<Rightarrow> nat" where
  "dist_of a b = (if a < b then b - a else a - b)"

definition toward :: "nat \<Rightarrow> nat \<Rightarrow> nat \<Rightarrow> nat" where
  "toward y y' q = (if y < y' then y + q else y - q)"

text \<open>The points of the grid nearest to the line, from left to right; one for each step along the longer side.\<close>

definition slanted :: "nat \<Rightarrow> nat \<Rightarrow> nat \<Rightarrow> nat \<Rightarrow> (nat \<times> nat) list" where
  "slanted x y x' y' =
     (let dx = x' - x;
          dy = dist_of y y'
      in if dy \<le> dx then map (\<lambda>i. (x + i, toward y y' (nearest i dy dx))) [0..<Suc dx]
         else map (\<lambda>i. (x + nearest i dx dy, toward y y' i)) [0..<Suc dy])"

definition line_spec :: "nat \<Rightarrow> nat \<Rightarrow> nat \<Rightarrow> nat \<Rightarrow> (nat \<times> nat) list" where
  "line_spec x0 y0 x1 y1 =
     (if y0 = y1 then map (\<lambda>x. (x, y0)) [min x0 x1..<Suc (max x0 x1)]
      else if x0 = x1 then map (\<lambda>y. (x0, y)) [min y0 y1..<Suc (max y0 y1)]
      else if x0 < x1 then slanted x0 y0 x1 y1 else slanted x1 y1 x0 y0)"

lemma nearest_0: "0 < b \<Longrightarrow> nearest 0 a b = 0"
  by (simp add: nearest_def)

lemma nearest_le: "0 < b \<Longrightarrow> i \<le> b \<Longrightarrow> nearest i a b \<le> a"
proof -
  assume b: "0 < b" "i \<le> b"
  have "i * a \<le> b * a" using b(2) by simp
  then have "2 * (i * a) + b < 2 * (b * a) + 2 * b" using b(1) by linarith
  then have "2 * i * a + b < 2 * b * Suc a" by (simp add: mult.assoc)
  then have "nearest i a b < Suc a" unfolding nearest_def using b(1) by (simp add: less_mult_imp_div_less mult.commute)
  then show ?thesis by simp
qed

lemma side_toward:
  assumes "q \<le> dist_of y y'"
  shows "side (y < y') (of_nat y) q = of_nat (toward y y' q)"
  using assms by (auto simp: side_def toward_def dist_of_def split: if_splits)

lemma slanted_points:
  assumes "x < x'" "y \<noteq> y'" "x' < 16384" "y < 16384" "y' < 16384" "x' - x \<noteq> dist_of y y'" "16384 < fuel"
    and "dx = of_nat (x' - x)" "dy = of_nat (dist_of y y')"
  shows "rbind (if dx > dy then line_x fuel (y < y') (of_nat x) (of_nat y) (of_nat x') (dy * 2 - dx) (2 * dy) (2 * (dy - dx))
         else line_y fuel (y < y') (of_nat x) (of_nat y) (of_nat y') (dx * 2 - dy) (2 * dx) (2 * (dx - dy)))
       (\<lambda>ps. Inr ((of_nat x, of_nat y) # ps)) = Inr (map pt (slanted x y x' y'))"
proof -
  define a where "a = x' - x"
  define b where "b = dist_of y y'"
  have ab: "0 < a" "0 < b" "a < 16384" "b < 16384" "a \<noteq> b" using assms by (auto simp: a_def b_def dist_of_def)
  have w: "dx = of_nat a" "dy = of_nat b" using assms(8, 9) by (simp_all add: a_def b_def)
  have less: "dx > dy \<longleftrightarrow> b < a" using ab unfolding w by (subst u16_less) simp_all
  show ?thesis
  proof (cases "b < a")
    case True
    have p: "dy * 2 - dx = of_int (decision 0 b a)" "2 * dy = of_int (2 * int b)" "2 * (dy - dx) = of_int (2 * int b - 2 * int a)"
      using ab by (simp_all add: w decision_def nearest_0 algebra_simps)
    have y: "(of_nat y :: u16) = side (y < y') (of_nat y) (nearest 0 b a)" using ab by (simp add: nearest_0 side_def)
    have x': "(of_nat x' :: u16) = of_nat (x + a)" using assms(1) by (simp add: a_def)
    have small: "x + a < 65536" using assms(1, 3) by (simp add: a_def)
    have L: "line_x fuel (y < y') (of_nat (x + 0)) (side (y < y') (of_nat y) (nearest 0 b a)) (of_nat (x + a)) (of_int (decision 0 b a))
      (of_int (2 * int b)) (of_int (2 * int b - 2 * int a))
      = Inr (map (\<lambda>j. (of_nat (x + j), side (y < y') (of_nat y) (nearest j b a))) [Suc 0..<Suc a])"
      by (rule line_x_points) (use True ab small assms(7) in simp_all)
    have S: "line_x fuel (y < y') (of_nat x) (of_nat y) (of_nat x') (dy * 2 - dx) (2 * dy) (2 * (dy - dx))
      = Inr (map (\<lambda>j. (of_nat (x + j), side (y < y') (of_nat y) (nearest j b a))) [Suc 0..<Suc a])"
      using L unfolding p x' y [symmetric] by (simp only: add_0_right)
    have toward: "(of_nat (toward y y' (nearest i b a)) :: u16) = side (y < y') (of_nat y) (nearest i b a)" if "i < Suc a" for i
      using side_toward [of "nearest i b a" y y'] nearest_le [of a i b] that ab(1) by (simp add: b_def)
    have M: "map pt (slanted x y x' y') = map (\<lambda>j. (of_nat (x + j), side (y < y') (of_nat y) (nearest j b a))) [0..<Suc a]"
      using True toward by (auto simp: slanted_def a_def [symmetric] b_def [symmetric] pt_def Let_def)
    have U: "[0..<Suc a] = 0 # [Suc 0..<Suc a]" by (simp add: upt_rec)
    show ?thesis unfolding M U list.map(2) if_P [OF iffD2 [OF less True]] S rbind_Inr
      using ab by (simp add: nearest_0 side_def)
  next
    case False
    then have ba: "a < b" using ab by simp
    have p: "dx * 2 - dy = of_int (decision 0 a b)" "2 * dx = of_int (2 * int a)" "2 * (dx - dy) = of_int (2 * int a - 2 * int b)"
      using ab by (simp_all add: w decision_def nearest_0 algebra_simps)
    have y: "(of_nat y :: u16) = side (y < y') (of_nat y) 0" by (simp add: side_def)
    have y': "(of_nat y' :: u16) = side (y < y') (of_nat y) b" using assms(2) by (auto simp: side_def b_def dist_of_def)
    have x: "(of_nat x :: u16) = of_nat x + of_nat (nearest 0 a b)" using ab by (simp add: nearest_0)
    have bound: "if y < y' then y + b < 65536 else b \<le> y \<and> y < 65536" using assms(4, 5) by (auto simp: b_def dist_of_def)
    have L: "line_y fuel (y < y') (of_nat x + of_nat (nearest 0 a b)) (side (y < y') (of_nat y) 0) (side (y < y') (of_nat y) b)
      (of_int (decision 0 a b)) (of_int (2 * int a)) (of_int (2 * int a - 2 * int b))
      = Inr (map (\<lambda>j. (of_nat x + of_nat (nearest j a b), side (y < y') (of_nat y) j)) [Suc 0..<Suc b])"
      by (rule line_y_points) (use ba ab bound assms(7) in simp_all)
    have S: "line_y fuel (y < y') (of_nat x) (of_nat y) (of_nat y') (dx * 2 - dy) (2 * dx) (2 * (dx - dy))
      = Inr (map (\<lambda>j. (of_nat x + of_nat (nearest j a b), side (y < y') (of_nat y) j)) [Suc 0..<Suc b])"
      using L unfolding p y' [symmetric] y [symmetric] x [symmetric] by (simp only:)
    have toward: "(of_nat (toward y y' i) :: u16) = side (y < y') (of_nat y) i" if "i < Suc b" for i
      using side_toward [of i y y'] that by (simp add: b_def)
    have M: "map pt (slanted x y x' y') = map (\<lambda>j. (of_nat x + of_nat (nearest j a b), side (y < y') (of_nat y) j)) [0..<Suc b]"
      using ba toward by (auto simp: slanted_def a_def [symmetric] b_def [symmetric] pt_def Let_def)
    have U: "[0..<Suc b] = 0 # [Suc 0..<Suc b]" by (simp add: upt_rec)
    show ?thesis unfolding M U list.map(2) if_not_P [OF False [folded less]] S rbind_Inr
      using ab by (simp add: nearest_0 side_def)
  qed
qed

lemma dist_of_sym: "dist_of a b = dist_of b a"
  by (simp add: dist_of_def)

lemma of_nat_dist: "a \<noteq> b \<Longrightarrow> (of_nat (dist_of a b) :: u16) = (if b < a then of_nat a - of_nat b else of_nat b - of_nat a)"
  by (auto simp: dist_of_def)

text \<open>The points of a slanted line with unequal sides, from whichever end it is drawn.\<close>

lemma line_points_slanted:
  assumes "x0 < x1" "y0 \<noteq> y1" "x1 < 16384" "y0 < 16384" "y1 < 16384" "dist_of x0 x1 \<noteq> dist_of y0 y1" "16384 < fuel"
  shows "line_points fuel (of_nat x0) (of_nat y0) (of_nat x1) (of_nat y1) = Inr (map pt (slanted x0 y0 x1 y1))"
    and "line_points fuel (of_nat x1) (of_nat y1) (of_nat x0) (of_nat y0) = Inr (map pt (slanted x0 y0 x1 y1))"
proof -
  define dx :: u16 where "dx = of_nat (x1 - x0)"
  define dy :: u16 where "dy = of_nat (dist_of y0 y1)"
  have dx': "of_nat x1 - of_nat x0 = dx" using assms(1) by (simp add: dx_def)
  have dy': "(if (of_nat y0 :: u16) > of_nat y1 then of_nat y0 - of_nat y1 else of_nat y1 - of_nat y0) = dy"
    "(if (of_nat y1 :: u16) > of_nat y0 then of_nat y1 - of_nat y0 else of_nat y0 - of_nat y1) = dy"
    using assms by (auto simp: dy_def of_nat_dist u16_less)
  have ne: "x1 - x0 \<noteq> dist_of y0 y1" using assms(1, 6) by (simp add: dist_of_def)
  have "dx \<noteq> dy" using ne assms(3, 4, 5) unfolding dx_def dy_def by (subst u16_eq) (auto simp: dist_of_def)
  moreover have "(of_nat y0 :: u16) < of_nat y1 \<longleftrightarrow> y0 < y1" "\<not> (of_nat x0 :: u16) > of_nat x1" "(of_nat x1 :: u16) > of_nat x0"
    "(of_nat x0 :: u16) \<noteq> of_nat x1" "(of_nat x1 :: u16) \<noteq> of_nat x0" "(of_nat y0 :: u16) \<noteq> of_nat y1" "(of_nat y1 :: u16) \<noteq> of_nat y0"
    using assms by (simp_all add: u16_less u16_eq)
  moreover note S = slanted_points [OF assms(1-5) ne assms(7) dx_def dy_def]
  ultimately show "line_points fuel (of_nat x0) (of_nat y0) (of_nat x1) (of_nat y1) = Inr (map pt (slanted x0 y0 x1 y1))"
    "line_points fuel (of_nat x1) (of_nat y1) (of_nat x0) (of_nat y0) = Inr (map pt (slanted x0 y0 x1 y1))"
    unfolding line_points_def dx' dy' by (cases "dx > dy"; simp)+
qed

lemma line_points_straight:
  assumes "x0 < 16384" "x1 < 16384" "y0 < 16384" "y1 < 16384" "16384 < fuel" "y0 = y1 \<or> x0 = x1"
  shows "line_points fuel (of_nat x0) (of_nat y0) (of_nat x1) (of_nat y1) = Inr (map pt (line_spec x0 y0 x1 y1))"
proof (cases "y0 = y1")
  case True
  have "flat_x fuel (of_nat x) (of_nat x') (of_nat y1) = Inr (map pt (map (\<lambda>x. (x, y1)) [x..<Suc x']))"
    if "x \<le> x'" "x' < 16384" for x x' using flat_x_points [of x' x fuel] that assms(5) by (simp add: pt_def)
  then show ?thesis using True assms by (auto simp: line_points_def line_spec_def u16_le min_def max_def)
next
  case False
  then have x: "x0 = x1" using assms(6) by simp
  have "flat_y fuel (of_nat y) (of_nat y') (of_nat x1) = Inr (map pt (map (\<lambda>y. (x1, y)) [y..<Suc y']))"
    if "y \<le> y'" "y' < 16384" for y y' using flat_y_points [of y' y fuel] that assms(5) by (simp add: pt_def)
  then show ?thesis using False x assms by (auto simp: line_points_def line_spec_def u16_le u16_eq min_def max_def)
qed

lemma line_points_nearest:
  assumes "x0 < 16384" "y0 < 16384" "x1 < 16384" "y1 < 16384" "16384 < fuel"
    and "y0 = y1 \<or> x0 = x1 \<or> dist_of x0 x1 \<noteq> dist_of y0 y1"
  shows "line_points fuel (of_nat x0) (of_nat y0) (of_nat x1) (of_nat y1) = Inr (map pt (line_spec x0 y0 x1 y1))"
proof (cases "y0 = y1 \<or> x0 = x1")
  case True
  then show ?thesis using line_points_straight assms by blast
next
  case False
  consider "x0 < x1" | "x1 < x0" using False by linarith
  then show ?thesis
    by cases (use False assms line_points_slanted(1) [of x0 x1 y0 y1 fuel] line_points_slanted(2) [of x1 x0 y1 y0 fuel] in
      \<open>simp_all add: line_spec_def dist_of_sym\<close>)
qed

text \<open>C17: A line is drawn with the points of the grid nearest to it: between any two points whose distances along the axes
  differ, or which share a coordinate, the incremental algorithm with its 16-bit decision variable sets, from left to right
  and once each, the points that rounding the exact line to the nearest integer gives.\<close>

theorem gui_line_nearest:
  assumes "x0 < 16384" "y0 < 16384" "x1 < 16384" "y1 < 16384" "16384 < fuel"
    and "y0 = y1 \<or> x0 = x1 \<or> dist_of x0 x1 \<noteq> dist_of y0 y1"
  shows "GUI_Line fuel (of_nat x0) (of_nat y0) (of_nat x1) (of_nat y1) color = Inr (set_points color (map pt (line_spec x0 y0 x1 y1)))"
  unfolding GUI_Line_def line_points_nearest [OF assms] by simp

theorem gui_line_nearest_witness:
  "GUI_Line 20000 10 10 5 12 0xF800 = Inr (set_points 0xF800 [(5, 12), (6, 12), (7, 11), (8, 11), (9, 10), (10, 10)])
   \<and> line_spec 10 10 5 12 = [(5, 12), (6, 12), (7, 11), (8, 11), (9, 10), (10, 10)]"
proof -
  have "line_spec 10 10 5 12 = [(5, 12), (6, 12), (7, 11), (8, 11), (9, 10), (10, 10)]" by code_simp
  then show ?thesis using gui_line_nearest [of 10 10 5 12 20000 "0xF800"] by (simp add: dist_of_def pt_def)
qed

section \<open>Diagonals\<close>

lemma diagonal_points:
  assumes "X' = X + d" "dist_of Y Y' = d" "X' < 16384" "Y < 16384" "Y' < 16384" "j \<le> d" "Suc d < j + fuel" "0 < d"
  shows "diagonal fuel (of_nat (X + j)) (of_nat (toward Y Y' j)) (of_nat X') (of_nat Y')
    = Inr (map pt (map (\<lambda>i. (X + i, toward Y Y' i)) [Suc j..<Suc d] @ [(Suc X', Suc Y')]))"
  using assms(6, 7)
proof (induction fuel arbitrary: j)
  case (Suc fuel)
  have le: "(of_nat (X + j) :: u16) \<le> of_nat X'" using assms Suc.prems by (subst u16_le) simp_all
  have step: "(if (of_nat (toward Y Y' j) :: u16) > of_nat Y' then of_nat (toward Y Y' j) - 1 else of_nat (toward Y Y' j) + 1)
    = (of_nat (if j = d then Suc Y' else toward Y Y' (Suc j)) :: u16)"
  proof -
    have small: "toward Y Y' j < 65536" using assms Suc.prems by (auto simp: toward_def dist_of_def)
    then have less: "(of_nat (toward Y Y' j) :: u16) > of_nat Y' \<longleftrightarrow> toward Y Y' j > Y'" using assms by (subst u16_less) simp_all
    show ?thesis
    proof (cases "toward Y Y' j > Y'")
      case True
      then have "toward Y Y' j = Suc (toward Y Y' (Suc j))" "j \<noteq> d" using assms Suc.prems by (auto simp: toward_def dist_of_def split: if_splits)
      then show ?thesis using True unfolding less by simp
    next
      case False
      then have "(if j = d then Suc Y' else toward Y Y' (Suc j)) = Suc (toward Y Y' j)"
        using assms Suc.prems by (auto simp: toward_def dist_of_def split: if_splits)
      then show ?thesis using False unfolding less by (simp add: add.commute)
    qed
  qed
  have x: "of_nat (X + j) + 1 = (of_nat (X + Suc j) :: u16)" by (simp add: add.commute)
  show ?case
  proof (cases "j = d")
    case True
    have lt: "\<not> (of_nat (X + Suc j) :: u16) \<le> of_nat X'" using assms True by (subst u16_le) simp_all
    obtain g where g: "fuel = Suc g" using Suc.prems True by (cases fuel) auto
    have stop: "diagonal fuel (of_nat (X + Suc j)) v (of_nat X') (of_nat Y') = Inr []" for v
      unfolding g diagonal.simps if_not_P [OF lt] ..
    show ?thesis unfolding diagonal.simps if_P [OF le] x Let_def step stop using True assms(1) by (simp add: pt_def)
  next
    case False
    have U: "[Suc j..<Suc d] = Suc j # [Suc (Suc j)..<Suc d]" using False Suc.prems by (simp add: upt_rec)
    have IH: "diagonal fuel (of_nat (X + Suc j)) (of_nat (toward Y Y' (Suc j))) (of_nat X') (of_nat Y')
      = Inr (map pt (map (\<lambda>i. (X + i, toward Y Y' i)) [Suc (Suc j)..<Suc d] @ [(Suc X', Suc Y')]))"
      using Suc.IH [of "Suc j"] Suc.prems False by simp
    show ?thesis unfolding diagonal.simps if_P [OF le] x Let_def step if_not_P [OF False] IH U by (simp add: pt_def)
  qed
qed simp

lemma line_points_diagonal:
  assumes "x0 < x1" "x1 < 16384" "y0 < 16384" "y1 < 16384" "dist_of x0 x1 = dist_of y0 y1" "16385 < fuel"
  shows "line_points fuel (of_nat x0) (of_nat y0) (of_nat x1) (of_nat y1) = Inr (map pt (tl (slanted x0 y0 x1 y1) @ [(Suc x1, Suc y1)]))"
    and "line_points fuel (of_nat x1) (of_nat y1) (of_nat x0) (of_nat y0) = Inr (map pt (tl (slanted x0 y0 x1 y1) @ [(Suc x1, Suc y1)]))"
proof -
  define d where "d = x1 - x0"
  have d: "0 < d" "d < 16384" "dist_of x0 x1 = d" "dist_of y0 y1 = d" using assms by (auto simp: d_def dist_of_def)
  have ne: "y0 \<noteq> y1" using d by (auto simp: dist_of_def)
  have n: "nearest i d d = i" for i
  proof -
    have "(2 * i * d + d) div (2 * d) = i" by (rule div_nat_eqI) (use d(1) in \<open>simp_all add: algebra_simps\<close>)
    then show ?thesis by (simp add: nearest_def)
  qed
  have U: "[0..<Suc d] = 0 # [Suc 0..<Suc d]" by (simp add: upt_rec)
  have tl: "tl (slanted x0 y0 x1 y1) = map (\<lambda>i. (x0 + i, toward y0 y1 i)) [Suc 0..<Suc d]"
    unfolding slanted_def Let_def d(4) d_def [symmetric] n U by simp
  have "toward y0 y1 0 = y0" "x1 = x0 + d" using assms(1) by (simp_all add: toward_def d_def)
  then have D: "diagonal fuel (of_nat x0) (of_nat y0) (of_nat x1) (of_nat y1) = Inr (map pt (tl (slanted x0 y0 x1 y1) @ [(Suc x1, Suc y1)]))"
    unfolding tl using diagonal_points [of x1 x0 d y0 y1 0 fuel] assms(2, 3, 4, 6) d by simp
  have dx': "of_nat x1 - of_nat x0 = (of_nat d :: u16)" using assms(1) by (simp add: d_def)
  have dy': "(if (of_nat y0 :: u16) > of_nat y1 then of_nat y0 - of_nat y1 else of_nat y1 - of_nat y0) = (of_nat d :: u16)"
    "(if (of_nat y1 :: u16) > of_nat y0 then of_nat y1 - of_nat y0 else of_nat y0 - of_nat y1) = (of_nat d :: u16)"
    using assms ne by (auto simp: d(4) [symmetric] of_nat_dist u16_less)
  have "\<not> (of_nat x0 :: u16) > of_nat x1" "(of_nat x1 :: u16) > of_nat x0"
    "(of_nat x0 :: u16) \<noteq> of_nat x1" "(of_nat x1 :: u16) \<noteq> of_nat x0" "(of_nat y0 :: u16) \<noteq> of_nat y1" "(of_nat y1 :: u16) \<noteq> of_nat y0"
    using assms ne by (simp_all add: u16_less u16_eq)
  then show "line_points fuel (of_nat x0) (of_nat y0) (of_nat x1) (of_nat y1) = Inr (map pt (tl (slanted x0 y0 x1 y1) @ [(Suc x1, Suc y1)]))"
    "line_points fuel (of_nat x1) (of_nat y1) (of_nat x0) (of_nat y0) = Inr (map pt (tl (slanted x0 y0 x1 y1) @ [(Suc x1, Suc y1)]))"
    unfolding line_points_def dx' dy' using D by simp_all
qed

text \<open>A diagonal line, between points with equal distances along both axes, misses its left end and runs past its right
  end: it consists of the nearest points without the first one and of one more point beyond the last, below and to the right.\<close>

lemma gui_line_diagonal:
  assumes "x0 \<noteq> x1" "x0 < 16384" "x1 < 16384" "y0 < 16384" "y1 < 16384" "dist_of x0 x1 = dist_of y0 y1" "16385 < fuel"
  shows "GUI_Line fuel (of_nat x0) (of_nat y0) (of_nat x1) (of_nat y1) color
    = Inr (set_points color (map pt (tl (line_spec x0 y0 x1 y1) @ [(Suc (max x0 x1), Suc (if x0 < x1 then y1 else y0))])))"
proof -
  have "y0 \<noteq> y1" using assms(1, 6) by (auto simp: dist_of_def split: if_splits)
  moreover consider "x0 < x1" | "x1 < x0" using assms(1) by linarith
  ultimately show ?thesis
    by cases (use assms line_points_diagonal(1) [of x0 x1 y0 y1 fuel] line_points_diagonal(2) [of x1 x0 y1 y0 fuel] in
      \<open>simp_all add: GUI_Line_def line_spec_def dist_of_sym\<close>)
qed

theorem gui_line_diagonal_witness:
  "GUI_Line 20000 3 8 6 5 0xF800 = Inr (set_points 0xF800 [(4, 7), (5, 6), (6, 5), (7, 6)])
   \<and> line_spec 3 8 6 5 = [(3, 8), (4, 7), (5, 6), (6, 5)]"
proof -
  have "line_spec 3 8 6 5 = [(3, 8), (4, 7), (5, 6), (6, 5)]" by code_simp
  then show ?thesis using gui_line_diagonal [of 3 6 8 5 20000 "0xF800"] by (simp add: dist_of_def pt_def)
qed

section \<open>What the controller is told\<close>

text \<open>A datum goes to the register whose number was written last.\<close>

fun written :: "u16 \<Rightarrow> bus list \<Rightarrow> (u16 \<times> u16) list" where
  "written r [] = []"
| "written r (Index i # bs) = written i bs"
| "written r (Data d # bs) = (r, d) # written r bs"

lemmas bus_defs = LCD_WR_REG_def LCD_WR_CMD_def LCD_WR_Data_def ili9320_SetCursor_def ili9320_SetWindows_def ili9320_SetPoint_def

lemma written_data: "written r (map Data ds) = map (\<lambda>d. (r, d)) ds"
  by (induction ds) simp_all

lemma ucast_u16_u32: "ucast (ucast (w :: u16) :: u32) = w"
  by (rule bit_word_eqI) (auto simp: bit_simps)

lemma unat_u16_u32: "unat (ucast (w :: u16) :: u32) = unat w"
proof -
  have "uint (ucast w :: u32) = uint w" by (rule uint_up_ucast) (simp add: is_up)
  then show ?thesis by (simp only: unat_eq_nat_uint)
qed

lemma ucast_319_minus: "(ucast (319 - ucast (w :: u16) :: u32) :: u16) = 319 - w"
  by transfer (simp add: take_bit_eq_mod mod_mod_cancel mod_simps)

lemma draw_pixels_data:
  assumes "uint i + int n = count" "count \<le> 65535" "n \<le> length pic" "n < fuel"
  shows "draw_pixels fuel count i pic = Inr (map Data (take n pic))"
  using assms
proof (induction fuel arbitrary: i n pic)
  case (Suc fuel)
  show ?case
  proof (cases n)
    case 0
    then show ?thesis using Suc.prems(1) by simp
  next
    case (Suc m)
    obtain p pic' where pic: "pic = p # pic'" using Suc.prems(3) Suc by (cases pic) auto
    have lt: "uint i < count" using Suc.prems(1) Suc by simp
    then have "uint (i + 1) = uint i + 1" using Suc.prems(2) by (simp add: uint_word_ariths)
    then have "draw_pixels fuel count (i + 1) pic' = Inr (map Data (take m pic'))"
      using Suc.IH [of "i + 1" m pic'] Suc.prems Suc pic by simp
    then show ?thesis using lt by (simp add: pic Suc LCD_WR_Data_def ucast_u16_u32)
  qed
qed simp

lemma draw_pixels_all:
  "n \<le> 65535 \<Longrightarrow> n \<le> length pic \<Longrightarrow> n < fuel \<Longrightarrow> draw_pixels fuel (int n) 0 pic = Inr (map Data (take n pic))"
  by (rule draw_pixels_data) simp_all

lemma draw_pixels_stuck: "65535 < count \<Longrightarrow> draw_pixels fuel count i pic \<noteq> Inr bs"
proof (induction fuel arbitrary: i pic bs)
  case (Suc fuel)
  have "uint i < 65536" using uint_lt2p [of i] by simp
  then have "uint i < count" using Suc.prems by simp
  then show ?case using Suc.IH [OF Suc.prems] by (cases pic) (simp_all add: rbind_eq_Inr)
qed simp

lemma picture_size:
  assumes "unat EndX * unat EndY < 2147483648"
  shows "sint (ucast (EndX :: u16) * ucast (EndY :: u16) :: u32) = int (unat EndX * unat EndY)"
proof -
  have "unat (ucast EndX * ucast EndY :: u32) = unat EndX * unat EndY"
    using assms by (simp add: unat_word_ariths unat_u16_u32)
  then have "uint (ucast EndX * ucast EndY :: u32) = int (unat EndX * unat EndY)" by (metis uint_nat)
  moreover have "sint (w :: u32) = uint w" if "uint w < 2147483648" for w
  proof -
    have "- 2147483648 \<le> uint w" using uint_ge_0 [of w] by linarith
    then show ?thesis using that unfolding sint_uint by (intro signed_take_bit_int_eq_self) simp_all
  qed
  moreover have "int (unat EndX * unat EndY) < 2147483648" using assms by linarith
  ultimately show ?thesis by metis
qed

text \<open>A picture of at most 65535 points is sent point by point after its window and the cursor, but every point goes to
  register 33, the one that the cursor was set with last: register 34, behind which the memory of the display lies and which
  \<open>ili9320_SetPoint\<close> selects, is not selected.
\<close>

lemma draw_picture_effect:
  assumes "unat EndX * unat EndY \<le> 65535" "unat EndX * unat EndY \<le> length pic" "unat EndX * unat EndY < fuel"
  shows "\<exists>bs. ili9320_DrawPicture fuel StartX StartY EndX EndY pic = Inr bs
    \<and> written r bs = [(0x50, StartY), (0x51, EndX), (0x52, 319 - StartX), (0x53, EndY), (32, StartY), (33, 319 - StartX)]
        @ map (\<lambda>p. (33, p)) (take (unat EndX * unat EndY) pic)"
proof -
  have "draw_pixels fuel (int (unat EndX * unat EndY)) 0 pic = Inr (map Data (take (unat EndX * unat EndY) pic))"
    using assms by (rule draw_pixels_all)
  then show ?thesis using picture_size [of EndX EndY] assms(1)
    by (simp add: ili9320_DrawPicture_def bus_defs written_data ucast_u16_u32 ucast_319_minus del: of_nat_mult)
qed

theorem draw_picture_effect_witness:
  "\<exists>bs. ili9320_DrawPicture 5 1 2 2 2 [0xF800, 0x07E0, 0x1F, 0] = Inr bs
    \<and> written 0 bs = [(0x50, 2), (0x51, 2), (0x52, 318), (0x53, 2), (32, 2), (33, 318), (33, 0xF800), (33, 0x07E0), (33, 0x1F), (33, 0)]"
  using draw_picture_effect [of 2 2 "[0xF800, 0x07E0, 0x1F, 0]" 5 1 2 0] by simp

text \<open>C36: Drawing a picture returns exactly if it has at most 65535 points, whatever lies behind the picture in memory: the
  counter has 16 bits, so that a picture of the whole screen, 240 by 320 points, is never finished.\<close>

theorem draw_picture_returns_iff:
  assumes "unat EndX * unat EndY < 2147483648" "unat EndX * unat EndY \<le> length pic"
  shows "(\<exists>fuel bs. ili9320_DrawPicture fuel StartX StartY EndX EndY pic = Inr bs) \<longleftrightarrow> unat EndX * unat EndY \<le> 65535"
proof
  assume "\<exists>fuel bs. ili9320_DrawPicture fuel StartX StartY EndX EndY pic = Inr bs"
  then show "unat EndX * unat EndY \<le> 65535"
    using draw_pixels_stuck [of "int (unat EndX * unat EndY)"] picture_size [OF assms(1)]
    by (auto simp: ili9320_DrawPicture_def rbind_eq_Inr not_le [symmetric] simp del: of_nat_mult)
next
  assume "unat EndX * unat EndY \<le> 65535"
  then have "draw_pixels (Suc (unat EndX * unat EndY)) (int (unat EndX * unat EndY)) 0 pic
    = Inr (map Data (take (unat EndX * unat EndY) pic))"
    using assms(2) by (rule draw_pixels_all) simp
  then show "\<exists>fuel bs. ili9320_DrawPicture fuel StartX StartY EndX EndY pic = Inr bs"
    unfolding ili9320_DrawPicture_def picture_size [OF assms(1)] by (metis rbind_Inr)
qed

theorem draw_picture_returns_iff_witness:
  "\<not> (\<exists>fuel bs. ili9320_DrawPicture fuel 0 0 240 320 (replicate 80000 0) = Inr bs)
   \<and> (\<exists>fuel bs. ili9320_DrawPicture fuel 0 0 2 2 [1, 2, 3, 4, 5] = Inr bs)"
  using draw_picture_returns_iff [of 240 320 "replicate 80000 0" 0 0] draw_picture_returns_iff [of 2 2 "[1, 2, 3, 4, 5]" 0 0] by simp

section \<open>Text\<close>

lemma font_length: "length ascii_8x16 = 1536"
  by (simp add: ascii_8x16_def)

lemma font_row_defined: "i < 16 \<Longrightarrow> (\<exists>b. font_row c i = Inr b) \<longleftrightarrow> 0x20 \<le> c \<and> c < 0x80"
proof -
  assume "i < 16"
  then have "1536 \<le> (unat c - 32) * 16 + i \<longleftrightarrow> \<not> unat c < 128" by linarith
  then show ?thesis by (simp add: font_row_def font_length Let_def word_less_nat_alt word_le_nat_alt)
qed

lemma put_rows_defined: "(\<exists>bs. put_rows x y c fg bg rows = Inr bs) \<longleftrightarrow> (\<forall>i\<in>set rows. \<exists>b. font_row c i = Inr b)"
  by (induction rows) (auto simp: rbind_eq_Inr)

lemma putchar_defined: "(\<exists>bs. ili9320_PutChar x y c fg bg = Inr bs) \<longleftrightarrow> 0x20 \<le> c \<and> c < 0x80"
  by (simp add: ili9320_PutChar_def put_rows_defined font_row_defined Ball_def)
    (metis zero_less_numeral)

lemma text_chars_stuck:
  "255 < len \<Longrightarrow> text_chars fuel x y len i str fg bg \<noteq> Inr bs"
proof (induction fuel arbitrary: i str bs)
  case (Suc fuel)
  have "uint i < 256" using uint_lt2p [of i] by simp
  then have "uint i < len" using Suc.prems by simp
  then show ?case using Suc.IH [OF Suc.prems] by (cases str) (simp_all add: rbind_eq_Inr)
qed simp

lemma text_chars_returns:
  assumes "uint i + int (length str) = len" "len \<le> 255" "length str < fuel"
  shows "(\<exists>bs. text_chars fuel x y len i str fg bg = Inr bs) \<longleftrightarrow> (\<forall>c\<in>set str. 0x20 \<le> c \<and> c < 0x80)"
  using assms
proof (induction fuel arbitrary: i str)
  case (Suc fuel)
  show ?case
  proof (cases str)
    case Nil
    then show ?thesis using Suc.prems(1) by simp
  next
    case (Cons c cs)
    have lt: "uint i < len" using Suc.prems(1) Cons by simp
    then have "uint (i + 1) = uint i + 1" using Suc.prems(2) by (simp add: uint_word_ariths)
    then have "(\<exists>bs. text_chars fuel x y len (i + 1) cs fg bg = Inr bs) \<longleftrightarrow> (\<forall>c\<in>set cs. 0x20 \<le> c \<and> c < 0x80)"
      using Suc.IH [of "i + 1" cs] Suc.prems Cons by simp
    then show ?thesis using lt putchar_defined [of "x + 8 * ucast i" y c fg bg] by (auto simp: Cons rbind_eq_Inr)
  qed
qed simp

lemma text_chars_more: "text_chars fuel x y len i str fg bg = Inr bs \<Longrightarrow> text_chars (n + fuel) x y len i str fg bg = Inr bs"
proof (induction fuel arbitrary: i str bs)
  case (Suc fuel)
  then show ?case by (cases str) (auto simp: rbind_eq_Inr split: if_splits)
qed simp

text \<open>Writing a text returns exactly if it has at most 255 characters and each of them is in the font, from the blank to 0x7F:
  the counter is a byte, and the row of a character is looked up without a check of its index.\<close>

lemma gui_text_returns_iff:
  "(\<exists>fuel bs. GUI_Text fuel x y str fg bg = Inr bs) \<longleftrightarrow> length str \<le> 255 \<and> (\<forall>c\<in>set str. 0x20 \<le> c \<and> c < 0x80)"
proof (cases "length str \<le> 255")
  case True
  have fuel: "(\<exists>bs. text_chars fuel x y (int (length str)) 0 str fg bg = Inr bs) \<longleftrightarrow> (\<forall>c\<in>set str. 0x20 \<le> c \<and> c < 0x80)"
    if "length str < fuel" for fuel using text_chars_returns [of 0 str "int (length str)" fuel] True that by simp
  have "\<forall>c\<in>set str. 0x20 \<le> c \<and> c < 0x80" if "text_chars k x y (int (length str)) 0 str fg bg = Inr bs" for k bs
  proof -
    have "text_chars (Suc (length str) + k) x y (int (length str)) 0 str fg bg = Inr bs" by (rule text_chars_more [OF that])
    moreover have "length str < Suc (length str) + k" by simp
    ultimately show ?thesis using fuel by blast
  qed
  moreover have "length str < Suc (length str)" by simp
  ultimately have "(\<exists>k bs. text_chars k x y (int (length str)) 0 str fg bg = Inr bs) \<longleftrightarrow> (\<forall>c\<in>set str. 0x20 \<le> c \<and> c < 0x80)"
    using fuel by blast
  then show ?thesis using True by (simp add: GUI_Text_def)
next
  case False
  then have "255 < int (length str)" by linarith
  then show ?thesis using False by (simp add: GUI_Text_def text_chars_stuck)
qed

theorem gui_text_returns_iff_witness:
  "(\<exists>fuel bs. GUI_Text fuel 0 0 [72, 105] 1 2 = Inr bs) \<and> \<not> (\<exists>fuel bs. GUI_Text fuel 0 0 [72, 10] 1 2 = Inr bs)
   \<and> \<not> (\<exists>fuel bs. GUI_Text fuel 0 0 (replicate 256 72) 1 2 = Inr bs)"
  using gui_text_returns_iff [of 0 0 "[72, 105]" 1 2] gui_text_returns_iff [of 0 0 "[72, 10]" 1 2]
    gui_text_returns_iff [of 0 0 "replicate 256 72" 1 2]
  by simp

section \<open>Rectangles\<close>

definition span :: "nat \<Rightarrow> nat \<Rightarrow> nat list" where
  "span a b = [min a b..<Suc (max a b)]"

lemma set_points_append: "set_points color (ps @ qs) = set_points color ps @ set_points color qs"
  by (simp add: set_points_def)

lemma gui_line_column:
  assumes "x < 16384" "y0 < 16384" "y1 < 16384" "16384 < fuel"
  shows "GUI_Line fuel (of_nat x) (of_nat y0) (of_nat x) (of_nat y1) color = Inr (set_points color (map (\<lambda>y. pt (x, y)) (span y0 y1)))"
proof -
  have "map pt (line_spec x y0 x y1) = map (\<lambda>y. pt (x, y)) (span y0 y1)"
    by (auto simp: line_spec_def span_def min_def max_def)
  then show ?thesis unfolding GUI_Line_def using line_points_straight [of x x y0 y1 fuel] assms by simp
qed

lemma columns_points:
  assumes "x1 < 16384" "y0 < 16384" "y1 < 16384" "i \<le> Suc x1" "16384 + Suc x1 < i + fuel"
  shows "columns fuel (of_nat i) (of_nat x1) (of_nat y0) (of_nat y1) color
    = Inr (set_points color (map pt (concat (map (\<lambda>x. map (Pair x) (span y0 y1)) [i..<Suc x1]))))"
  using assms(4, 5)
proof (induction fuel arbitrary: i)
  case (Suc fuel)
  show ?case
  proof (cases "i \<le> x1")
    case True
    have le: "(of_nat i :: u16) \<le> of_nat x1" using True assms(1) by (subst u16_le) simp_all
    have i: "of_nat i + 1 = (of_nat (Suc i) :: u16)" by (simp add: add.commute)
    have U: "[i..<Suc x1] = i # [Suc i..<Suc x1]" using True by (simp add: upt_rec)
    have IH: "columns fuel (of_nat (Suc i)) (of_nat x1) (of_nat y0) (of_nat y1) color
      = Inr (set_points color (map pt (concat (map (\<lambda>x. map (Pair x) (span y0 y1)) [Suc i..<Suc x1]))))"
      using Suc.IH [of "Suc i"] Suc.prems True by simp
    have L: "GUI_Line fuel (of_nat i) (of_nat y0) (of_nat i) (of_nat y1) color = Inr (set_points color (map (\<lambda>y. pt (i, y)) (span y0 y1)))"
      by (rule gui_line_column) (use True assms Suc.prems in simp_all)
    show ?thesis unfolding columns.simps if_P [OF le] i IH L U by (simp add: set_points_append comp_def)
  next
    case False
    then have "\<not> (of_nat i :: u16) \<le> of_nat x1" using Suc.prems assms(1) by (subst u16_le) simp_all
    then show ?thesis using False by (simp add: set_points_def)
  qed
qed simp

text \<open>C35: A filled rectangle sets each point between its corners exactly once and no other point, column by column,
  whichever two opposite corners it is given by.\<close>

theorem filled_rectangle_exact:
  assumes "x0 < 16384" "y0 < 16384" "x1 < 16384" "y1 < 16384" "40000 < fuel" "fill \<noteq> 0"
  shows "\<exists>ps. GUI_Rectangle fuel (of_nat x0) (of_nat y0) (of_nat x1) (of_nat y1) color fill = Inr (set_points color (map pt ps))
    \<and> distinct ps \<and> set ps = {min x0 x1..max x0 x1} \<times> {min y0 y1..max y0 y1}"
proof -
  define ps where "ps = concat (map (\<lambda>x. map (Pair x) (span y0 y1)) (span x0 x1))"
  have "ps = List.product (span x0 x1) (span y0 y1)" by (simp add: ps_def product_concat_map)
  then have "distinct ps" "set ps = {min x0 x1..max x0 x1} \<times> {min y0 y1..max y0 y1}"
    by (auto simp: span_def distinct_product)
  moreover have "GUI_Rectangle fuel (of_nat x0) (of_nat y0) (of_nat x1) (of_nat y1) color fill = Inr (set_points color (map pt ps))"
    using assms columns_points [of x1 y0 y1 x0 fuel color] columns_points [of x0 y0 y1 x1 fuel color]
    by (auto simp: GUI_Rectangle_def ps_def span_def u16_less min_def max_def simp del: upt_Suc)
  ultimately show ?thesis by blast
qed

theorem filled_rectangle_exact_witness:
  "\<exists>ps. GUI_Rectangle 50000 3 4 2 5 0xF800 1 = Inr (set_points 0xF800 (map pt ps))
    \<and> distinct ps \<and> set ps = {2..3} \<times> {4..5}"
  using filled_rectangle_exact [of 3 4 2 5 50000 1 "0xF800"] by simp

section \<open>Circles\<close>

lemma circle_steps_bounds:
  assumes "unat y < unat x + fuel" "unat y \<le> r" "0 < fuel"
  shows "\<exists>ps. circle_steps fuel x y delta = Inr ps \<and> (\<forall>(a, b)\<in>set ps. a < b \<and> unat b \<le> r)"
  using assms
proof (induction fuel arbitrary: x y delta)
  case 0
  then show ?case by simp
next
  case (Suc fuel)
  show ?case
  proof (cases "x < y")
    case True
    have "unat y < 65536" by (rule order_less_le_trans [OF unsigned_less]) simp
    moreover have less: "unat x < unat y" using True by (simp add: word_less_nat_alt)
    ultimately have x: "unat (x + 1) = Suc (unat x)" by (simp add: unat_word_ariths)
    have pos: "0 < fuel" using less Suc.prems(1) by simp
    have y: "unat (y - 1) = unat y - 1" using True by (intro unat_minus_one) auto
    show ?thesis
    proof (cases "sint delta \<ge> 0")
      case d: True
      obtain ps where "circle_steps fuel (x + 1) (y - 1) (delta + (push_bit 2 (x + 1) - push_bit 2 (y - 1) + 10)) = Inr ps"
        "\<forall>(a, b)\<in>set ps. a < b \<and> unat b \<le> r"
        using Suc.IH [of "y - 1" "x + 1" "delta + (push_bit 2 (x + 1) - push_bit 2 (y - 1) + 10)"] Suc.prems x y pos by force
      then show ?thesis using True d Suc.prems by (auto simp: Let_def)
    next
      case d: False
      obtain ps where "circle_steps fuel (x + 1) y (delta + (push_bit 2 (x + 1) + 6)) = Inr ps"
        "\<forall>(a, b)\<in>set ps. a < b \<and> unat b \<le> r"
        using Suc.IH [of y "x + 1" "delta + (push_bit 2 (x + 1) + 6)"] Suc.prems x pos by force
      then show ?thesis using True d Suc.prems by (auto simp: Let_def)
    qed
  qed simp
qed

text \<open>Drawing a circle returns after at most as many steps as the radius has points, and all its points lie in the square
  around its centre whose half side is the radius, whatever the 16-bit decision variable does.\<close>

lemma circle_in_square:
  assumes "unat r \<le> unat cx" "unat cx + unat r < 65536" "unat r \<le> unat cy" "unat cy + unat r < 65536" "unat r < fuel"
  shows "\<exists>ps. GUI_Circle fuel cx cy r color 0 = Inr (set_points color ps)
    \<and> set ps \<subseteq> {cx - r..cx + r} \<times> {cy - r..cy + r}"
proof -
  obtain ps where ps: "circle_steps fuel 0 r (3 - push_bit 1 r) = Inr ps" "\<forall>(a, b)\<in>set ps. a < b \<and> unat b \<le> unat r"
    using circle_steps_bounds [of r 0 fuel "unat r" "3 - push_bit 1 r"] assms(5) by auto
  have le: "c - r \<le> c + a \<and> c + a \<le> c + r \<and> c - r \<le> c - a \<and> c - a \<le> c + r"
    if "a \<le> r" "unat r \<le> unat c" "unat c + unat r < 65536" for a c :: u16
  proof -
    have "unat a \<le> unat r" using that(1) by (simp add: word_le_nat_alt)
    then have "unat (c + a) = unat c + unat a" "unat (c + r) = unat c + unat r" "unat (c - a) = unat c - unat a" "unat (c - r) = unat c - unat r"
      using that by (simp_all add: unat_word_ariths unat_sub word_le_nat_alt)
    then show ?thesis using \<open>unat a \<le> unat r\<close> unfolding word_le_nat_alt by linarith
  qed
  have "set (octants cx cy (a, b)) \<subseteq> {cx - r..cx + r} \<times> {cy - r..cy + r}" if "(a, b) \<in> set ps" for a b
  proof -
    have "a \<le> r" "b \<le> r" using ps(2) that by (auto simp: word_le_nat_alt word_less_nat_alt)
    then show ?thesis using le [of a cx] le [of b cx] le [of a cy] le [of b cy] assms by (simp add: octants_def)
  qed
  then have "set (concat (map (octants cx cy) ps)) \<subseteq> {cx - r..cx + r} \<times> {cy - r..cy + r}" by auto
  moreover have "GUI_Circle fuel cx cy r color 0 = Inr (set_points color (concat (map (octants cx cy) ps)))"
    unfolding GUI_Circle_def ps(1) by simp
  ultimately show ?thesis by blast
qed

theorem circle_in_square_witness:
  "\<exists>ps. GUI_Circle 6 100 90 5 0xF800 0 = Inr (set_points 0xF800 ps) \<and> set ps \<subseteq> {95..105} \<times> {85..95}"
  using circle_in_square [of 5 100 90 6 "0xF800"] by simp

section \<open>Colours\<close>

lemma bit_BGR2RGB:
  "bit (ili9320_BGR2RGB c) n \<longleftrightarrow> n < 5 \<and> bit c (n + 11) \<or> 5 \<le> n \<and> n < 11 \<and> bit c n \<or> 11 \<le> n \<and> n < 16 \<and> bit c (n - 11)"
proof -
  have m: "(0x1F :: u16) = mask 5" "(0x3F :: u16) = mask 6" by (simp_all add: mask_eq_exp_minus_1)
  define b where "b = push_bit 11 (take_bit 5 c)"
  define g where "g = push_bit 5 (take_bit 6 (drop_bit 5 c))"
  define r where "r = take_bit 5 (drop_bit 11 c)"
  have bits: "bit b n \<longleftrightarrow> 11 \<le> n \<and> n < 16 \<and> bit c (n - 11)" "bit g n \<longleftrightarrow> 5 \<le> n \<and> n < 11 \<and> bit c n" "bit r n \<longleftrightarrow> n < 5 \<and> bit c (n + 11)" for n
    by (auto simp: b_def g_def r_def bit_simps add.commute dest: bit_imp_le_length)
  have "b AND g = 0" "(b OR g) AND r = 0" by (rule bit_word_eqI, auto simp: bits bit_simps)+
  then have "ili9320_BGR2RGB c = (b OR g) OR r"
    by (simp add: ili9320_BGR2RGB_def Let_def m take_bit_eq_mask [symmetric] b_def [symmetric] g_def [symmetric] r_def [symmetric] disjunctive_add_eq_or)
  then show ?thesis by (auto simp: bits bit_simps)
qed

text \<open>Exchanging the red and blue parts of a colour twice gives the colour back, so that a point that is read holds the
  colour that was written with its parts exchanged.\<close>

lemma bgr2rgb_involutive: "ili9320_BGR2RGB (ili9320_BGR2RGB c) = c"
proof (rule bit_word_eqI)
  fix n assume "n < LENGTH(16)"
  then consider "n < 5" | "5 \<le> n" "n < 11" | "11 \<le> n" "n < 16" by fastforce
  then show "bit (ili9320_BGR2RGB (ili9320_BGR2RGB c)) n \<longleftrightarrow> bit c n"
  proof cases
    case 3
    then obtain m where "n = m + 11" "m < 5" using le_Suc_ex [of 11 n] by auto
    then show ?thesis by (simp add: bit_BGR2RGB)
  qed (simp_all add: bit_BGR2RGB)
qed

end
