(* ===== verification/Os_Prio.thy ===== *)
theory Os_Prio
  imports Lkfs_Base
begin

text \<open>
  Priority sets of the uC/OS-II kernel, \<open>src/lcd-demo/ucos/uCOS-II/Source/os_core.c\<close>. The ready list
  and the wait list of every event have the same shape: a table of bytes with one bit per priority
  and a group byte with one bit per byte of the table that is not zero. The table \<open>OSUnMapTbl\<close>
  yields the lowest set bit of a byte. The operations here are the three statement groups that the
  kernel repeats at every use; the locale \<open>prio_set\<close> is what they promise to their clients.
\<close>

section \<open>The table\<close>

definition OSUnMapTbl :: "u8 list" where
  "OSUnMapTbl = [
    0, 0, 1, 0, 2, 0, 1, 0, 3, 0, 1, 0, 2, 0, 1, 0, 4, 0, 1, 0, 2, 0, 1, 0, 3, 0, 1, 0, 2, 0, 1, 0,
    5, 0, 1, 0, 2, 0, 1, 0, 3, 0, 1, 0, 2, 0, 1, 0, 4, 0, 1, 0, 2, 0, 1, 0, 3, 0, 1, 0, 2, 0, 1, 0,
    6, 0, 1, 0, 2, 0, 1, 0, 3, 0, 1, 0, 2, 0, 1, 0, 4, 0, 1, 0, 2, 0, 1, 0, 3, 0, 1, 0, 2, 0, 1, 0,
    5, 0, 1, 0, 2, 0, 1, 0, 3, 0, 1, 0, 2, 0, 1, 0, 4, 0, 1, 0, 2, 0, 1, 0, 3, 0, 1, 0, 2, 0, 1, 0,
    7, 0, 1, 0, 2, 0, 1, 0, 3, 0, 1, 0, 2, 0, 1, 0, 4, 0, 1, 0, 2, 0, 1, 0, 3, 0, 1, 0, 2, 0, 1, 0,
    5, 0, 1, 0, 2, 0, 1, 0, 3, 0, 1, 0, 2, 0, 1, 0, 4, 0, 1, 0, 2, 0, 1, 0, 3, 0, 1, 0, 2, 0, 1, 0,
    6, 0, 1, 0, 2, 0, 1, 0, 3, 0, 1, 0, 2, 0, 1, 0, 4, 0, 1, 0, 2, 0, 1, 0, 3, 0, 1, 0, 2, 0, 1, 0,
    5, 0, 1, 0, 2, 0, 1, 0, 3, 0, 1, 0, 2, 0, 1, 0, 4, 0, 1, 0, 2, 0, 1, 0, 3, 0, 1, 0, 2, 0, 1, 0]"

text \<open>\<open>OS_LOWEST_PRIO\<close> is 31, so that the tables have \<open>31 / 8 + 1\<close> bytes.\<close>

definition OS_RDY_TBL_SIZE :: nat where "OS_RDY_TBL_SIZE = 4"

text \<open>A list is its group byte and its table. \<open>y\<close>, \<open>bitx\<close> and \<open>bity\<close> are the fields of a TCB.\<close>

type_synonym prio_list = "u8 \<times> u8 list"

definition list_put :: "u8 \<Rightarrow> u8 \<Rightarrow> u8 \<Rightarrow> prio_list \<Rightarrow> prio_list res" where
  "list_put y bitx bity l =
     (let (grp, tbl) = l
      in if length tbl \<le> unat y then Inl OutOfBounds
         else Inr (grp OR bity, tbl[unat y := tbl ! unat y OR bitx]))"

definition list_clear :: "u8 \<Rightarrow> u8 \<Rightarrow> u8 \<Rightarrow> prio_list \<Rightarrow> prio_list res" where
  "list_clear y bitx bity l =
     (let (grp, tbl) = l
      in if length tbl \<le> unat y then Inl OutOfBounds
         else
           let tbl = tbl[unat y := tbl ! unat y AND NOT bitx]
           in Inr (if tbl ! unat y = 0 then grp AND NOT bity else grp, tbl))"

definition list_first :: "prio_list \<Rightarrow> u8 res" where
  "list_first l =
     (let (grp, tbl) = l; y = OSUnMapTbl ! unat grp
      in if length tbl \<le> unat y then Inl OutOfBounds
         else Inr (push_bit 3 y + OSUnMapTbl ! unat (tbl ! unat y)))"

section \<open>The contract\<close>

locale prio_set =
  fixes put clear :: "nat \<Rightarrow> 'l \<Rightarrow> 'l res"
    and first :: "'l \<Rightarrow> u8 res"
    and is_empty :: "'l \<Rightarrow> bool"
    and elems :: "'l \<Rightarrow> nat set"
    and ok :: "'l \<Rightarrow> bool"
    and limit :: nat
  assumes elems_bound: "p \<in> elems l \<Longrightarrow> p < limit"
    and put_ok: "ok l \<Longrightarrow> p < limit \<Longrightarrow> \<exists>l'. put p l = Inr l' \<and> ok l' \<and> elems l' = insert p (elems l)"
    and clear_ok: "ok l \<Longrightarrow> p < limit \<Longrightarrow> \<exists>l'. clear p l = Inr l' \<and> ok l' \<and> elems l' = elems l - {p}"
    and first_ok: "ok l \<Longrightarrow> elems l \<noteq> {} \<Longrightarrow> first l = Inr (of_nat (Min (elems l)))"
    and empty_ok: "ok l \<Longrightarrow> is_empty l \<longleftrightarrow> elems l = {}"
begin

lemma finite_elems [simp]: "finite (elems l)"
  by (rule finite_subset [of _ "{..<limit}"]) (auto dest: elems_bound)

text \<open>Taking the first element out.\<close>

lemma clear_first:
  assumes "ok l" "elems l \<noteq> {}"
  shows "\<exists>l'. clear (Min (elems l)) l = Inr l' \<and> ok l' \<and> elems l' = elems l - {Min (elems l)}
    \<and> card (elems l') < card (elems l)"
proof -
  have m: "Min (elems l) \<in> elems l" using assms(2) by simp
  from clear_ok [OF assms(1) elems_bound [OF m]] obtain l' where
    "clear (Min (elems l)) l = Inr l'" "ok l'" "elems l' = elems l - {Min (elems l)}" by auto
  moreover have "card (elems l - {Min (elems l)}) < card (elems l)" by (rule card_Diff1_less) (simp_all add: m)
  ultimately show ?thesis by auto
qed

lemma put_clear:
  assumes "ok l" "p < limit" "p \<notin> elems l"
  shows "\<exists>l' l''. put p l = Inr l' \<and> clear p l' = Inr l'' \<and> ok l'' \<and> elems l'' = elems l"
proof -
  from put_ok [OF assms(1, 2)] obtain l' where l': "put p l = Inr l'" "ok l'" "elems l' = insert p (elems l)" by auto
  from clear_ok [OF l'(2) assms(2)] assms(3) l' show ?thesis by auto
qed

end

section \<open>The bitmaps keep it\<close>

definition prios :: "prio_list \<Rightarrow> nat set" where
  "prios l = {p. p < 32 \<and> bit (snd l ! (p div 8)) (p mod 8)}"

definition list_ok :: "prio_list \<Rightarrow> bool" where
  "list_ok l \<longleftrightarrow> length (snd l) = OS_RDY_TBL_SIZE \<and> (\<forall>y < 8. bit (fst l) y \<longleftrightarrow> y < 4 \<and> snd l ! y \<noteq> 0)"

text \<open>The fields \<open>OS_TCBInit\<close> computes from a priority.\<close>

definition prio_y :: "nat \<Rightarrow> u8" where "prio_y p = of_nat (p div 8)"
definition prio_x :: "nat \<Rightarrow> u8" where "prio_x p = of_nat (p mod 8)"
definition prio_bity :: "nat \<Rightarrow> u8" where "prio_bity p = push_bit (p div 8) 1"
definition prio_bitx :: "nat \<Rightarrow> u8" where "prio_bitx p = push_bit (p mod 8) 1"

text \<open>Walking along the table: entry \<open>t\<close> at \<open>n\<close> says that \<open>n\<close> ends in a one and \<open>t\<close> zeros.\<close>

fun unmap_check :: "int \<Rightarrow> u8 list \<Rightarrow> bool" where
  "unmap_check n [] = True"
| "unmap_check n (t # ts) = (n mod (2 * 2 ^ unat t) = 2 ^ unat t \<and> unat t < 8 \<and> unmap_check (n + 1) ts)"

lemma unmap_check_nth:
  "unmap_check n ts \<Longrightarrow> i < length ts \<Longrightarrow> take_bit (Suc (unat (ts ! i))) (n + int i) = 2 ^ unat (ts ! i) \<and> unat (ts ! i) < 8"
proof (induction ts arbitrary: n i)
  case (Cons t ts)
  show ?case
  proof (cases i)
    case 0
    with Cons.prems show ?thesis by (simp add: take_bit_eq_mod)
  next
    case (Suc k)
    with Cons.IH [of "n + 1" k] Cons.prems show ?thesis by (simp add: ac_simps)
  qed
qed simp

lemma unmap_checked: "unmap_check 1 (tl OSUnMapTbl)" "length OSUnMapTbl = 256"
  unfolding OSUnMapTbl_def by (simp, simp)

lemma unmap_lowest:
  assumes "(g :: u8) \<noteq> 0"
  shows "unat (OSUnMapTbl ! unat g) < 8" "bit g (unat (OSUnMapTbl ! unat g))"
    "i < unat (OSUnMapTbl ! unat g) \<Longrightarrow> \<not> bit g i"
proof -
  have n: "0 < unat g" "unat g < 256" using assms unsigned_less [of g, where ?'a = nat] by (simp_all add: unat_gt_0)
  define u where "u = unat (OSUnMapTbl ! unat g)"
  have "tl OSUnMapTbl ! (unat g - 1) = OSUnMapTbl ! unat g" using n unmap_checked(2) by (simp add: nth_tl)
  with unmap_check_nth [OF unmap_checked(1), of "unat g - 1"] n unmap_checked(2)
  have t: "take_bit (Suc u) (int (unat g)) = 2 ^ u" "u < 8" by (simp_all add: u_def)
  have b: "bit g i \<longleftrightarrow> bit (int (unat g)) i" for i by (simp add: bit_unsigned_iff)
  have e: "i < Suc u \<and> bit g i \<longleftrightarrow> i = u" for i
    using arg_cong [OF t(1), of "\<lambda>x. bit x i"] by (simp add: b bit_take_bit_iff bit_exp_iff)
  show "unat (OSUnMapTbl ! unat g) < 8" "bit g (unat (OSUnMapTbl ! unat g))"
    using t(2) e [of u] unfolding u_def [symmetric] by simp_all
  show "i < unat (OSUnMapTbl ! unat g) \<Longrightarrow> \<not> bit g i"
    using e [of i] unfolding u_def [symmetric] by simp
qed

lemma prio_fields:
  assumes "p < 32"
  shows "unat (prio_y p) = p div 8" "p div 8 < 4"
    "bit (prio_bitx p) i \<longleftrightarrow> i = p mod 8" "bit (prio_bity p) i \<longleftrightarrow> i = p div 8"
  using assms by (auto simp: prio_y_def prio_bitx_def prio_bity_def bit_simps unat_of_nat take_bit_nat_eq_self)

lemma list_put_prios:
  assumes "list_ok l" "p < 32"
  shows "\<exists>l'. list_put (prio_y p) (prio_bitx p) (prio_bity p) l = Inr l' \<and> list_ok l' \<and> prios l' = insert p (prios l)"
proof -
  note F = prio_fields [OF assms(2)]
  have len: "length (snd l) = 4" and grp: "\<And>y. y < 8 \<Longrightarrow> bit (fst l) y \<longleftrightarrow> y < 4 \<and> snd l ! y \<noteq> 0"
    using assms(1) by (auto simp: list_ok_def OS_RDY_TBL_SIZE_def)
  let ?y = "p div 8"
  define tbl where "tbl = (snd l)[?y := snd l ! ?y OR prio_bitx p]"
  have at: "tbl ! k = (if k = ?y then snd l ! ?y OR prio_bitx p else snd l ! k)" if "k < 4" for k
    using that len F(2) by (simp add: tbl_def nth_list_update)
  have nz: "snd l ! ?y OR prio_bitx p \<noteq> 0"
    using F(3) [of "p mod 8"] by (metis bit_or_iff bit_0_eq bot_apply bot_bool_def)
  have ok: "list_ok (fst l OR prio_bity p, tbl)"
    unfolding list_ok_def fst_conv snd_conv
  proof (intro conjI allI impI)
    show "length tbl = OS_RDY_TBL_SIZE" by (simp add: tbl_def len OS_RDY_TBL_SIZE_def)
    show "bit (fst l OR prio_bity p) k \<longleftrightarrow> k < 4 \<and> tbl ! k \<noteq> 0" if "k < 8" for k
      using that F(2) nz by (cases "k = ?y") (auto simp: bit_or_iff grp F(4) at)
  qed
  have "prios (fst l OR prio_bity p, tbl) = insert p (prios l)"
  proof (intro set_eqI)
    fix q
    have "q < 32 \<Longrightarrow> q div 8 = ?y \<Longrightarrow> q mod 8 = p mod 8 \<longleftrightarrow> q = p"
      by (metis div_mult_mod_eq)
    then show "q \<in> prios (fst l OR prio_bity p, tbl) \<longleftrightarrow> q \<in> insert p (prios l)"
      using assms(2) by (cases "q div 8 = ?y") (auto simp: prios_def at bit_or_iff F(3))
  qed
  with ok F(1, 2) len show ?thesis by (simp add: list_put_def split_beta Let_def tbl_def)
qed

lemma list_clear_prios:
  assumes "list_ok l" "p < 32"
  shows "\<exists>l'. list_clear (prio_y p) (prio_bitx p) (prio_bity p) l = Inr l' \<and> list_ok l' \<and> prios l' = prios l - {p}"
proof -
  note F = prio_fields [OF assms(2)]
  have len: "length (snd l) = 4" and grp: "\<And>y. y < 8 \<Longrightarrow> bit (fst l) y \<longleftrightarrow> y < 4 \<and> snd l ! y \<noteq> 0"
    using assms(1) by (auto simp: list_ok_def OS_RDY_TBL_SIZE_def)
  let ?y = "p div 8"
  define b where "b = snd l ! ?y AND NOT (prio_bitx p)"
  define tbl where "tbl = (snd l)[?y := b]"
  define g where "g = (if tbl ! ?y = 0 then fst l AND NOT (prio_bity p) else fst l)"
  have at: "tbl ! k = (if k = ?y then b else snd l ! k)" if "k < 4" for k
    using that len F(2) by (simp add: tbl_def nth_list_update)
  have b0: "snd l ! ?y = 0 \<Longrightarrow> b = 0" by (simp add: b_def)
  have ok: "list_ok (g, tbl)"
    unfolding list_ok_def fst_conv snd_conv
  proof (intro conjI allI impI)
    show "length tbl = OS_RDY_TBL_SIZE" by (simp add: tbl_def len OS_RDY_TBL_SIZE_def)
    show "bit g k \<longleftrightarrow> k < 4 \<and> tbl ! k \<noteq> 0" if "k < 8" for k
      using that F(2) b0 by (cases "k = ?y") (auto simp: g_def bit_and_iff bit_not_iff grp F(4) at)
  qed
  have "prios (g, tbl) = prios l - {p}"
  proof (intro set_eqI)
    fix q
    have "q < 32 \<Longrightarrow> q div 8 = ?y \<Longrightarrow> q mod 8 = p mod 8 \<longleftrightarrow> q = p"
      by (metis div_mult_mod_eq)
    then show "q \<in> prios (g, tbl) \<longleftrightarrow> q \<in> prios l - {p}"
      by (cases "q div 8 = ?y") (auto simp: prios_def at b_def bit_and_iff bit_not_iff F(3))
  qed
  with ok F(1, 2) len show ?thesis by (simp add: list_clear_def split_beta Let_def tbl_def g_def b_def)
qed

lemma list_empty_prios: "list_ok l \<Longrightarrow> fst l = 0 \<longleftrightarrow> prios l = {}"
proof
  assume "list_ok l" "fst l = 0"
  then have "\<forall>y < 4. snd l ! y = 0" by (auto simp: list_ok_def)
  then show "prios l = {}" by (auto simp: prios_def)
next
  assume ok: "list_ok l" and e: "prios l = {}"
  have "\<not> bit (snd l ! y) i" if "y < 4" for y i
  proof (cases "i < 8")
    case True
    then have "8 * y + i \<notin> prios l" using e by simp
    with True that show ?thesis by (simp add: prios_def)
  qed (use impossible_bit [of _ "snd l ! y"] in \<open>auto simp: bit_imp_le_length\<close>)
  then have "snd l ! y = 0" if "y < 4" for y using that by (auto intro: bit_eqI)
  with ok have "\<not> bit (fst l) y" if "y < 8" for y using that by (auto simp: list_ok_def)
  then show "fst l = 0" by (intro bit_eqI) auto
qed

lemma list_first_prios:
  assumes "list_ok l" "prios l \<noteq> {}"
  shows "list_first l = Inr (of_nat (Min (prios l)))" "OSUnMapTbl ! unat (fst l) = prio_y (Min (prios l))"
proof -
  have len: "length (snd l) = 4" and grp: "\<And>y. y < 8 \<Longrightarrow> bit (fst l) y \<longleftrightarrow> y < 4 \<and> snd l ! y \<noteq> 0"
    using assms(1) by (auto simp: list_ok_def OS_RDY_TBL_SIZE_def)
  define y where "y = unat (OSUnMapTbl ! unat (fst l))"
  have "fst l \<noteq> 0" using list_empty_prios [OF assms(1)] assms(2) by simp
  note Y = unmap_lowest [OF this, folded y_def]
  have y: "y < 4" "snd l ! y \<noteq> 0" using Y(1, 2) grp by auto
  define x where "x = unat (OSUnMapTbl ! unat (snd l ! y))"
  note X = unmap_lowest [OF y(2), folded x_def]
  have low: "snd l ! k = 0" if "k < y" for k using Y(3) [OF that] Y(1) y(1) grp [of k] that by auto
  have d: "(8 * y + x) div 8 = y" "(8 * y + x) mod 8 = x" using X(1) by simp_all
  have m: "Min (prios l) = 8 * y + x"
  proof (rule Min_eqI)
    show "finite (prios l)" by (simp add: prios_def)
    show "8 * y + x \<in> prios l" unfolding prios_def mem_Collect_eq d using X(1, 2) y(1) by simp
    show "8 * y + x \<le> q" if "q \<in> prios l" for q
    proof (rule ccontr)
      assume "\<not> 8 * y + x \<le> q"
      then have "q div 8 < y \<or> q div 8 = y \<and> q mod 8 < x" using X(1) by presburger
      with that low X(3) show False by (auto simp: prios_def)
    qed
  qed
  have w: "push_bit 3 (OSUnMapTbl ! unat (fst l)) + OSUnMapTbl ! unat (snd l ! y) = of_nat (8 * y + x)"
    by (simp add: y_def x_def push_bit_eq_mult)
  show "list_first l = Inr (of_nat (Min (prios l)))"
    using len y(1) w by (simp add: list_first_def split_beta Let_def m y_def [symmetric])
  show "OSUnMapTbl ! unat (fst l) = prio_y (Min (prios l))"
    by (simp add: m prio_y_def d(1)) (simp add: y_def)
qed

interpretation ps: prio_set "\<lambda>p. list_put (prio_y p) (prio_bitx p) (prio_bity p)"
  "\<lambda>p. list_clear (prio_y p) (prio_bitx p) (prio_bity p)" list_first "\<lambda>l. fst l = 0" prios list_ok 32
  by unfold_locales
     (simp add: prios_def, (rule list_put_prios list_clear_prios list_first_prios(1) list_empty_prios; assumption)+)

lemma list_ok_empty: "list_ok (0, [0, 0, 0, 0])" "prios (0, [0, 0, 0, 0]) = {}"
proof -
  show ok: "list_ok (0, [0, 0, 0, 0])"
    by (auto simp: list_ok_def OS_RDY_TBL_SIZE_def less_Suc_eq numeral_eq_Suc)
  show "prios (0, [0, 0, 0, 0]) = {}" using list_empty_prios [OF ok] by simp
qed

end
