(* ===== verification/Os_Core.thy ===== *)
theory Os_Core
  imports Os_Prio
begin

text \<open>
  The core of the uC/OS-II kernel the firmware runs on, \<open>os_core.c\<close> and the parts of \<open>os_task.c\<close> and
  \<open>os_time.c\<close> that move tasks between the ready list, the delay counters and the wait lists, all in
  \<open>src/lcd-demo/ucos/uCOS-II/Source\<close>, as configured by \<open>os_cfg.h\<close> (priorities 0 to 31, 16 + 2 tasks).
  A TCB, an event and a queue control block are named by their index in the static tables. The
  context switch of the port (\<open>os_cpu_a.s\<close>) copies \<open>OSPrioHighRdy\<close> and \<open>OSTCBHighRdy\<close>; a critical section
  is a step of its own. The argument \<open>perr\<close> is not NULL: with NULL every function returns at once.
\<close>

section \<open>State\<close>

text \<open>A \<open>void *\<close>: NULL, an event, queue or task control block, an event flag group or a node of its wait
  list, or data of the application.\<close>

datatype vptr = Null | EcbPtr nat | QcbPtr nat | TcbPtr nat | GrpPtr nat | NodePtr nat | DataPtr u32

text \<open>An entry of \<open>OSTCBPrioTbl\<close>, and any other pointer to a TCB: \<open>Reserved\<close> is \<open>(OS_TCB *)1\<close>.\<close>

datatype tcb_ref = NoTcb | Reserved | Tcb nat

record tcb =
  OSTCBStkPtr :: u32
  OSTCBExtPtr :: vptr
  OSTCBStkBottom :: u32
  OSTCBStkSize :: u32
  OSTCBOpt :: u16
  OSTCBId :: u16
  OSTCBNext :: tcb_ref
  OSTCBPrev :: tcb_ref
  OSTCBEventPtr :: "nat option"
  OSTCBEventMultiPtr :: "nat list option"
  OSTCBMsg :: vptr
  OSTCBFlagNode :: "nat option"
  OSTCBFlagsRdy :: u16
  OSTCBDly :: u16
  OSTCBStat :: u8
  OSTCBStatPend :: u8
  OSTCBPrio :: u8
  OSTCBX :: u8
  OSTCBY :: u8
  OSTCBBitX :: u8
  OSTCBBitY :: u8
  OSTCBDelReq :: u8
  OSTCBCtxSwCtr :: u32
  OSTCBTaskName :: "u8 list"

record ecb =
  OSEventType :: u8
  OSEventPtr :: vptr
  OSEventCnt :: u16
  OSEventGrp :: u8
  OSEventTbl :: "u8 list"
  OSEventName :: "u8 list"

text \<open>The pointers into the storage of a queue count cells of \<open>void *\<close>.\<close>

record qcb =
  OSQPtr :: "nat option"
  OSQStart :: nat
  OSQEnd :: nat
  OSQIn :: nat
  OSQOut :: nat
  OSQSize :: u16
  OSQEntries :: u16

text \<open>An event flag group. A node of its wait list is a local variable of the \<open>OSFlagPend\<close> the task is inside;
  it is named by the index of the control block of that task.\<close>

record flag_grp =
  OSFlagType :: u8
  OSFlagWaitList :: vptr
  OSFlagFlags :: u16
  OSFlagName :: "u8 list"

record flag_node =
  OSFlagNodeNext :: "nat option"
  OSFlagNodePrev :: "nat option"
  OSFlagNodeTCB :: nat
  OSFlagNodeFlagGrp :: nat
  OSFlagNodeFlags :: u16
  OSFlagNodeWaitType :: u8

record os =
  OSRdyGrp :: u8
  OSRdyTbl :: "u8 list"
  OSPrioCur :: u8
  OSPrioHighRdy :: u8
  OSTCBCur :: tcb_ref
  OSTCBHighRdy :: tcb_ref
  OSTCBPrioTbl :: "tcb_ref list"
  OSTCBTbl :: "nat \<Rightarrow> tcb"
  OSTCBList :: tcb_ref
  OSTCBFreeList :: tcb_ref
  OSEcbTbl :: "nat \<Rightarrow> ecb"
  OSEventFreeList :: vptr
  OSQTbl :: "nat \<Rightarrow> qcb"
  OSQFreeList :: "nat option"
  OSFlagTbl :: "nat \<Rightarrow> flag_grp"
  OSFlagFreeList :: vptr
  flag_nodes :: "nat \<Rightarrow> flag_node"
  cells :: "nat \<Rightarrow> vptr"
  OSIntNesting :: u8
  OSLockNesting :: u8
  OSRunning :: bool
  OSTaskCtr :: u8
  OSCtxSwCtr :: u32
  OSTime :: u32
  OSTickStepState :: u8

abbreviation OS_LOWEST_PRIO :: u8 where "OS_LOWEST_PRIO \<equiv> 31"
abbreviation OS_TASK_IDLE_PRIO :: u8 where "OS_TASK_IDLE_PRIO \<equiv> 31"
abbreviation OS_PRIO_SELF :: u8 where "OS_PRIO_SELF \<equiv> 255"

abbreviation OS_STAT_RDY :: u8 where "OS_STAT_RDY \<equiv> 0"
abbreviation OS_STAT_SEM :: u8 where "OS_STAT_SEM \<equiv> 1"
abbreviation OS_STAT_MBOX :: u8 where "OS_STAT_MBOX \<equiv> 2"
abbreviation OS_STAT_Q :: u8 where "OS_STAT_Q \<equiv> 4"
abbreviation OS_STAT_SUSPEND :: u8 where "OS_STAT_SUSPEND \<equiv> 8"
abbreviation OS_STAT_PEND_ANY :: u8 where "OS_STAT_PEND_ANY \<equiv> 0x37"
abbreviation OS_STAT_PEND_OK :: u8 where "OS_STAT_PEND_OK \<equiv> 0"
abbreviation OS_STAT_PEND_TO :: u8 where "OS_STAT_PEND_TO \<equiv> 1"
abbreviation OS_STAT_PEND_ABORT :: u8 where "OS_STAT_PEND_ABORT \<equiv> 2"

abbreviation OS_EVENT_TYPE_UNUSED :: u8 where "OS_EVENT_TYPE_UNUSED \<equiv> 0"
abbreviation OS_EVENT_TYPE_MBOX :: u8 where "OS_EVENT_TYPE_MBOX \<equiv> 1"
abbreviation OS_EVENT_TYPE_Q :: u8 where "OS_EVENT_TYPE_Q \<equiv> 2"
abbreviation OS_EVENT_TYPE_SEM :: u8 where "OS_EVENT_TYPE_SEM \<equiv> 3"

abbreviation OS_ERR_NONE :: u8 where "OS_ERR_NONE \<equiv> 0"
abbreviation OS_ERR_EVENT_TYPE :: u8 where "OS_ERR_EVENT_TYPE \<equiv> 1"
abbreviation OS_ERR_PEND_ISR :: u8 where "OS_ERR_PEND_ISR \<equiv> 2"
abbreviation OS_ERR_POST_NULL_PTR :: u8 where "OS_ERR_POST_NULL_PTR \<equiv> 3"
abbreviation OS_ERR_PEVENT_NULL :: u8 where "OS_ERR_PEVENT_NULL \<equiv> 4"
abbreviation OS_ERR_INVALID_OPT :: u8 where "OS_ERR_INVALID_OPT \<equiv> 7"
abbreviation OS_ERR_TIMEOUT :: u8 where "OS_ERR_TIMEOUT \<equiv> 10"
abbreviation OS_ERR_PEND_LOCKED :: u8 where "OS_ERR_PEND_LOCKED \<equiv> 13"
abbreviation OS_ERR_PEND_ABORT :: u8 where "OS_ERR_PEND_ABORT \<equiv> 14"
abbreviation OS_ERR_DEL_ISR :: u8 where "OS_ERR_DEL_ISR \<equiv> 15"
abbreviation OS_ERR_PNAME_NULL :: u8 where "OS_ERR_PNAME_NULL \<equiv> 12"
abbreviation OS_ERR_CREATE_ISR :: u8 where "OS_ERR_CREATE_ISR \<equiv> 16"
abbreviation OS_ERR_NAME_GET_ISR :: u8 where "OS_ERR_NAME_GET_ISR \<equiv> 17"
abbreviation OS_ERR_NAME_SET_ISR :: u8 where "OS_ERR_NAME_SET_ISR \<equiv> 18"
abbreviation OS_ERR_MBOX_FULL :: u8 where "OS_ERR_MBOX_FULL \<equiv> 20"
abbreviation OS_ERR_Q_FULL :: u8 where "OS_ERR_Q_FULL \<equiv> 30"
abbreviation OS_ERR_Q_EMPTY :: u8 where "OS_ERR_Q_EMPTY \<equiv> 31"
abbreviation OS_ERR_PRIO_EXIST :: u8 where "OS_ERR_PRIO_EXIST \<equiv> 40"
abbreviation OS_ERR_PRIO_INVALID :: u8 where "OS_ERR_PRIO_INVALID \<equiv> 42"
abbreviation OS_ERR_SEM_OVF :: u8 where "OS_ERR_SEM_OVF \<equiv> 50"
abbreviation OS_ERR_TASK_CREATE_ISR :: u8 where "OS_ERR_TASK_CREATE_ISR \<equiv> 60"
abbreviation OS_ERR_TASK_NO_MORE_TCB :: u8 where "OS_ERR_TASK_NO_MORE_TCB \<equiv> 66"
abbreviation OS_ERR_TASK_NOT_EXIST :: u8 where "OS_ERR_TASK_NOT_EXIST \<equiv> 67"
abbreviation OS_ERR_TASK_NOT_SUSPENDED :: u8 where "OS_ERR_TASK_NOT_SUSPENDED \<equiv> 68"
abbreviation OS_ERR_TASK_RESUME_PRIO :: u8 where "OS_ERR_TASK_RESUME_PRIO \<equiv> 70"
abbreviation OS_ERR_TASK_SUSPEND_IDLE :: u8 where "OS_ERR_TASK_SUSPEND_IDLE \<equiv> 71"
abbreviation OS_ERR_TASK_SUSPEND_PRIO :: u8 where "OS_ERR_TASK_SUSPEND_PRIO \<equiv> 72"
abbreviation OS_ERR_TASK_WAITING :: u8 where "OS_ERR_TASK_WAITING \<equiv> 73"
abbreviation OS_ERR_TIME_NOT_DLY :: u8 where "OS_ERR_TIME_NOT_DLY \<equiv> 80"
abbreviation OS_ERR_TIME_INVALID_MINUTES :: u8 where "OS_ERR_TIME_INVALID_MINUTES \<equiv> 81"
abbreviation OS_ERR_TIME_INVALID_SECONDS :: u8 where "OS_ERR_TIME_INVALID_SECONDS \<equiv> 82"
abbreviation OS_ERR_TIME_INVALID_MS :: u8 where "OS_ERR_TIME_INVALID_MS \<equiv> 83"
abbreviation OS_ERR_TIME_ZERO_DLY :: u8 where "OS_ERR_TIME_ZERO_DLY \<equiv> 84"
abbreviation OS_ERR_TIME_DLY_ISR :: u8 where "OS_ERR_TIME_DLY_ISR \<equiv> 85"

section \<open>Access\<close>

text \<open>Dereferencing a pointer to a TCB; the reserved address 1 is not one.\<close>

definition deref :: "tcb_ref \<Rightarrow> nat res" where
  "deref r = (case r of NoTcb \<Rightarrow> Inl NullDeref | Reserved \<Rightarrow> Inl OutOfBounds | Tcb t \<Rightarrow> Inr t)"

definition tcb_upd :: "nat \<Rightarrow> (tcb \<Rightarrow> tcb) \<Rightarrow> os \<Rightarrow> os" where
  "tcb_upd t f s = s\<lparr>OSTCBTbl := (OSTCBTbl s)(t := f (OSTCBTbl s t))\<rparr>"

definition ecb_upd :: "nat \<Rightarrow> (ecb \<Rightarrow> ecb) \<Rightarrow> os \<Rightarrow> os" where
  "ecb_upd e f s = s\<lparr>OSEcbTbl := (OSEcbTbl s)(e := f (OSEcbTbl s e))\<rparr>"

definition ready_list :: "os \<Rightarrow> prio_list" where
  "ready_list s = (OSRdyGrp s, OSRdyTbl s)"

definition set_ready :: "prio_list \<Rightarrow> os \<Rightarrow> os" where
  "set_ready l s = s\<lparr>OSRdyGrp := fst l, OSRdyTbl := snd l\<rparr>"

definition wait_list :: "os \<Rightarrow> nat \<Rightarrow> prio_list" where
  "wait_list s e = (OSEventGrp (OSEcbTbl s e), OSEventTbl (OSEcbTbl s e))"

definition set_wait :: "nat \<Rightarrow> prio_list \<Rightarrow> os \<Rightarrow> os" where
  "set_wait e l = ecb_upd e (\<lambda>ev. ev\<lparr>OSEventGrp := fst l, OSEventTbl := snd l\<rparr>)"

text \<open>\<open>OSRdyGrp |= ptcb->OSTCBBitY; OSRdyTbl[y] |= ptcb->OSTCBBitX\<close> and the group that undoes it.\<close>

definition make_ready :: "nat \<Rightarrow> u8 \<Rightarrow> os \<Rightarrow> os res" where
  "make_ready t y s =
     (let ptcb = OSTCBTbl s t
      in rbind (list_put y (OSTCBBitX ptcb) (OSTCBBitY ptcb) (ready_list s)) (\<lambda>l. Inr (set_ready l s)))"

definition make_unready :: "nat \<Rightarrow> os \<Rightarrow> os res" where
  "make_unready t s =
     (let ptcb = OSTCBTbl s t
      in rbind (list_clear (OSTCBY ptcb) (OSTCBBitX ptcb) (OSTCBBitY ptcb) (ready_list s)) (\<lambda>l. Inr (set_ready l s)))"

definition prio_entry :: "os \<Rightarrow> u8 \<Rightarrow> tcb_ref res" where
  "prio_entry s prio =
     (if length (OSTCBPrioTbl s) \<le> unat prio then Inl OutOfBounds else Inr (OSTCBPrioTbl s ! unat prio))"

section \<open>Scheduling\<close>

definition OS_SchedNew :: "os \<Rightarrow> os res" where
  "OS_SchedNew s = rbind (list_first (ready_list s)) (\<lambda>p. Inr (s\<lparr>OSPrioHighRdy := p\<rparr>))"

text \<open>\<open>OS_TASK_SW\<close> and \<open>OSIntCtxSw\<close>.\<close>

definition switch :: "os \<Rightarrow> os" where
  "switch s = s\<lparr>OSPrioCur := OSPrioHighRdy s, OSTCBCur := OSTCBHighRdy s\<rparr>"

text \<open>What \<open>OS_Sched\<close> and \<open>OSIntExit\<close> do when they may schedule.\<close>

definition reschedule :: "os \<Rightarrow> os res" where
  "reschedule s =
     rbind (OS_SchedNew s) (\<lambda>s.
     rbind (prio_entry s (OSPrioHighRdy s)) (\<lambda>r.
     let s = s\<lparr>OSTCBHighRdy := r\<rparr>
     in if OSPrioHighRdy s \<noteq> OSPrioCur s then
          rbind (deref r) (\<lambda>t.
          let s = tcb_upd t (\<lambda>ptcb. ptcb\<lparr>OSTCBCtxSwCtr := OSTCBCtxSwCtr ptcb + 1\<rparr>) s;
              s = s\<lparr>OSCtxSwCtr := OSCtxSwCtr s + 1\<rparr>
          in Inr (switch s))
        else Inr s))"

definition OS_Sched :: "os \<Rightarrow> os res" where
  "OS_Sched s =
     (if OSIntNesting s = 0 then
        if OSLockNesting s = 0 then reschedule s else Inr s
      else Inr s)"

definition OSIntEnter :: "os \<Rightarrow> os" where
  "OSIntEnter s =
     (if OSRunning s then
        if OSIntNesting s < 255 then s\<lparr>OSIntNesting := OSIntNesting s + 1\<rparr> else s
      else s)"

definition OSIntExit :: "os \<Rightarrow> os res" where
  "OSIntExit s =
     (if OSRunning s then
        let s = (if OSIntNesting s > 0 then s\<lparr>OSIntNesting := OSIntNesting s - 1\<rparr> else s)
        in if OSIntNesting s = 0 then
             if OSLockNesting s = 0 then reschedule s else Inr s
           else Inr s
      else Inr s)"

definition OSSchedLock :: "os \<Rightarrow> os" where
  "OSSchedLock s =
     (if OSRunning s then
        if OSIntNesting s = 0 then
          if OSLockNesting s < 255 then s\<lparr>OSLockNesting := OSLockNesting s + 1\<rparr> else s
        else s
      else s)"

definition OSSchedUnlock :: "os \<Rightarrow> os res" where
  "OSSchedUnlock s =
     (if OSRunning s then
        if OSLockNesting s > 0 then
          let s = s\<lparr>OSLockNesting := OSLockNesting s - 1\<rparr>
          in if OSLockNesting s = 0 then
               if OSIntNesting s = 0 then OS_Sched s else Inr s
             else Inr s
        else Inr s
      else Inr s)"

text \<open>\<open>OSStartHighRdy\<close> sets \<open>OSRunning\<close> and starts the task.\<close>

definition OSStart :: "os \<Rightarrow> os res" where
  "OSStart s =
     (if \<not> OSRunning s then
        rbind (OS_SchedNew s) (\<lambda>s.
        let s = s\<lparr>OSPrioCur := OSPrioHighRdy s\<rparr>
        in rbind (prio_entry s (OSPrioHighRdy s)) (\<lambda>r.
        Inr (s\<lparr>OSTCBHighRdy := r, OSTCBCur := r, OSRunning := True\<rparr>)))
      else Inr s)"

section \<open>Wait lists\<close>

definition OS_EventTaskRemove :: "nat \<Rightarrow> nat \<Rightarrow> os \<Rightarrow> os res" where
  "OS_EventTaskRemove t e s =
     (let ptcb = OSTCBTbl s t
      in rbind (list_clear (OSTCBY ptcb) (OSTCBBitX ptcb) (OSTCBBitY ptcb) (wait_list s e)) (\<lambda>l.
         Inr (set_wait e l s)))"

fun OS_EventTaskRemoveMulti :: "nat \<Rightarrow> nat list \<Rightarrow> os \<Rightarrow> os res" where
  "OS_EventTaskRemoveMulti t [] s = Inr s"
| "OS_EventTaskRemoveMulti t (e # es) s =
     rbind (OS_EventTaskRemove t e s) (\<lambda>s. OS_EventTaskRemoveMulti t es s)"

definition OS_EventTaskRdy :: "nat \<Rightarrow> vptr \<Rightarrow> u8 \<Rightarrow> u8 \<Rightarrow> os \<Rightarrow> (u8 \<times> os) res" where
  "OS_EventTaskRdy e pmsg msk pend_stat s =
     (let y = OSUnMapTbl ! unat (OSEventGrp (OSEcbTbl s e))
      in rbind (list_first (wait_list s e)) (\<lambda>prio.
         rbind (prio_entry s prio) (\<lambda>r.
         rbind (deref r) (\<lambda>t.
         let s = tcb_upd t (\<lambda>ptcb. ptcb\<lparr>OSTCBDly := 0, OSTCBMsg := pmsg,
               OSTCBStat := OSTCBStat ptcb AND NOT msk, OSTCBStatPend := pend_stat\<rparr>) s
         in rbind (if OSTCBStat (OSTCBTbl s t) AND OS_STAT_SUSPEND = OS_STAT_RDY then make_ready t y s else Inr s) (\<lambda>s.
            rbind (OS_EventTaskRemove t e s) (\<lambda>s.
            case OSTCBEventMultiPtr (OSTCBTbl s t) of
              None \<Rightarrow> Inr (prio, s)
            | Some es \<Rightarrow>
                rbind (OS_EventTaskRemoveMulti t es s) (\<lambda>s.
                Inr (prio, tcb_upd t (\<lambda>ptcb. ptcb\<lparr>OSTCBEventPtr := Some e\<rparr>) s))))))))"

text \<open>\<open>while (pevent->OSEventGrp != 0) OS_EventTaskRdy(...)\<close>: every round takes one of the 32
  priorities out of the wait list, so 33 rounds are enough. It also counts the tasks.\<close>

fun ready_all :: "nat \<Rightarrow> nat \<Rightarrow> vptr \<Rightarrow> u8 \<Rightarrow> u8 \<Rightarrow> u8 \<Rightarrow> os \<Rightarrow> (u8 \<times> os) res" where
  "ready_all 0 e pmsg msk pend_stat nbr_tasks s = Inl NoEnd"
| "ready_all (Suc fuel) e pmsg msk pend_stat nbr_tasks s =
     (if OSEventGrp (OSEcbTbl s e) \<noteq> 0 then
        rbind (OS_EventTaskRdy e pmsg msk pend_stat s) (\<lambda>(prio, s).
        ready_all fuel e pmsg msk pend_stat (nbr_tasks + 1) s)
      else Inr (nbr_tasks, s))"

definition OS_EventTaskWait :: "nat \<Rightarrow> os \<Rightarrow> os res" where
  "OS_EventTaskWait e s =
     rbind (deref (OSTCBCur s)) (\<lambda>t.
     let s = tcb_upd t (\<lambda>ptcb. ptcb\<lparr>OSTCBEventPtr := Some e\<rparr>) s;
         ptcb = OSTCBTbl s t
     in rbind (list_put (OSTCBY ptcb) (OSTCBBitX ptcb) (OSTCBBitY ptcb) (wait_list s e)) (\<lambda>l.
        make_unready t (set_wait e l s)))"

definition OS_EventWaitListInit :: "nat \<Rightarrow> os \<Rightarrow> os" where
  "OS_EventWaitListInit e = set_wait e (0, [0, 0, 0, 0])"

section \<open>Strings\<close>

text \<open>A string is the list of its bytes before the NUL.\<close>

text \<open>The length is an \<open>INT8U\<close>: it wraps at 256.\<close>

definition OS_StrLen :: "u8 list \<Rightarrow> u8" where
  "OS_StrLen src = of_nat (length (takeWhile (\<lambda>c. c \<noteq> 0) src))"

definition OS_StrCopy :: "u8 list \<Rightarrow> u8 \<times> u8 list" where
  "OS_StrCopy src = (OS_StrLen src, takeWhile (\<lambda>c. c \<noteq> 0) src @ [0])"

text \<open>What a name written into an array of 16 bytes does: longer ones run over its end.\<close>

definition put_name :: "u8 list \<Rightarrow> u8 list res" where
  "put_name name = (let dst = snd (OS_StrCopy name) in if length dst \<le> 16 then Inr dst else Inl OutOfBounds)"

end
