(* ===== verification/Os_Task.thy ===== *)
theory Os_Task
  imports Os_Core
begin

text \<open>
  Start-up, tasks and time of the uC/OS-II kernel: \<open>OSInit\<close>'s lists and \<open>OSTimeTick\<close> of \<open>os_core.c\<close>,
  creation, suspension and resumption of \<open>os_task.c\<close>, delays of \<open>os_time.c\<close>. The hooks and
  \<open>OSTaskStkInit\<close> belong to the port; the stack pointer the latter yields is an argument.
\<close>

section \<open>Start-up\<close>

definition OS_MAX_TCBS :: nat where "OS_MAX_TCBS = 18"
definition OS_MAX_EVENTS :: nat where "OS_MAX_EVENTS = 10"

definition unknown_name :: "u8 list" where "unknown_name = [0x3F, 0]"

definition tcb0 :: tcb where
  "tcb0 = \<lparr>OSTCBStkPtr = 0, OSTCBExtPtr = Null, OSTCBStkBottom = 0, OSTCBStkSize = 0, OSTCBOpt = 0, OSTCBId = 0,
     OSTCBNext = NoTcb, OSTCBPrev = NoTcb, OSTCBEventPtr = None, OSTCBEventMultiPtr = None, OSTCBMsg = Null,
     OSTCBFlagNode = None, OSTCBFlagsRdy = 0,
     OSTCBDly = 0, OSTCBStat = 0, OSTCBStatPend = 0, OSTCBPrio = 0, OSTCBX = 0, OSTCBY = 0, OSTCBBitX = 0,
     OSTCBBitY = 0, OSTCBDelReq = 0, OSTCBCtxSwCtr = 0, OSTCBTaskName = []\<rparr>"

definition ecb0 :: ecb where
  "ecb0 = \<lparr>OSEventType = OS_EVENT_TYPE_UNUSED, OSEventPtr = Null, OSEventCnt = 0, OSEventGrp = 0,
     OSEventTbl = [0, 0, 0, 0], OSEventName = []\<rparr>"

definition flag_grp0 :: flag_grp where
  "flag_grp0 = \<lparr>OSFlagType = OS_EVENT_TYPE_UNUSED, OSFlagWaitList = Null, OSFlagFlags = 0, OSFlagName = []\<rparr>"

definition flag_node0 :: flag_node where
  "flag_node0 = \<lparr>OSFlagNodeNext = None, OSFlagNodePrev = None, OSFlagNodeTCB = 0, OSFlagNodeFlagGrp = 0,
     OSFlagNodeFlags = 0, OSFlagNodeWaitType = 0\<rparr>"

text \<open>The static variables before \<open>OSInit\<close>: all zero.\<close>

definition os_bss :: os where
  "os_bss = \<lparr>OSRdyGrp = 0, OSRdyTbl = replicate OS_RDY_TBL_SIZE 0, OSPrioCur = 0, OSPrioHighRdy = 0, OSTCBCur = NoTcb,
     OSTCBHighRdy = NoTcb, OSTCBPrioTbl = replicate 32 NoTcb, OSTCBTbl = (\<lambda>i. tcb0), OSTCBList = NoTcb,
     OSTCBFreeList = NoTcb, OSEcbTbl = (\<lambda>i. ecb0), OSEventFreeList = Null,
     OSQTbl = (\<lambda>i. \<lparr>OSQPtr = None, OSQStart = 0, OSQEnd = 0, OSQIn = 0, OSQOut = 0, OSQSize = 0, OSQEntries = 0\<rparr>),
     OSQFreeList = None, OSFlagTbl = (\<lambda>i. flag_grp0), OSFlagFreeList = Null, flag_nodes = (\<lambda>i. flag_node0), cells = (\<lambda>a. Null), OSIntNesting = 0, OSLockNesting = 0, OSRunning = False, OSTaskCtr = 0,
     OSCtxSwCtr = 0, OSTime = 0, OSTickStepState = 0\<rparr>"

definition OS_InitMisc :: "os \<Rightarrow> os" where
  "OS_InitMisc s = s\<lparr>OSTime := 0, OSIntNesting := 0, OSLockNesting := 0, OSTaskCtr := 0, OSRunning := False,
     OSCtxSwCtr := 0\<rparr>"

definition OS_InitRdyList :: "os \<Rightarrow> os" where
  "OS_InitRdyList s = s\<lparr>OSRdyGrp := 0, OSRdyTbl := replicate OS_RDY_TBL_SIZE 0, OSPrioCur := 0, OSPrioHighRdy := 0,
     OSTCBHighRdy := NoTcb, OSTCBCur := NoTcb\<rparr>"

definition OS_InitTCBList :: "os \<Rightarrow> os" where
  "OS_InitTCBList s = s\<lparr>
     OSTCBTbl := (\<lambda>i. if i < OS_MAX_TCBS
        then tcb0\<lparr>OSTCBNext := if i + 1 < OS_MAX_TCBS then Tcb (i + 1) else NoTcb, OSTCBTaskName := unknown_name\<rparr>
        else OSTCBTbl s i),
     OSTCBPrioTbl := replicate 32 NoTcb, OSTCBList := NoTcb, OSTCBFreeList := Tcb 0\<rparr>"

definition OS_InitEventList :: "os \<Rightarrow> os" where
  "OS_InitEventList s = s\<lparr>
     OSEcbTbl := (\<lambda>i. if i < OS_MAX_EVENTS
        then ecb0\<lparr>OSEventPtr := if i + 1 < OS_MAX_EVENTS then EcbPtr (i + 1) else Null, OSEventName := unknown_name\<rparr>
        else OSEcbTbl s i),
     OSEventFreeList := EcbPtr 0\<rparr>"

section \<open>Tasks\<close>

definition OS_TCBInit :: "u8 \<Rightarrow> u32 \<Rightarrow> u32 \<Rightarrow> u16 \<Rightarrow> u32 \<Rightarrow> vptr \<Rightarrow> u16 \<Rightarrow> os \<Rightarrow> (u8 \<times> os) res" where
  "OS_TCBInit prio ptos pbos tid stk_size pext opt s =
     (case OSTCBFreeList s of
        NoTcb \<Rightarrow> Inr (OS_ERR_TASK_NO_MORE_TCB, s)
      | Reserved \<Rightarrow> Inl OutOfBounds
      | Tcb t \<Rightarrow>
          let s = s\<lparr>OSTCBFreeList := OSTCBNext (OSTCBTbl s t)\<rparr>;
              y = drop_bit 3 prio;
              x = prio AND 7;
              s = tcb_upd t (\<lambda>ptcb. ptcb\<lparr>OSTCBStkPtr := ptos, OSTCBPrio := prio, OSTCBStat := OS_STAT_RDY,
                    OSTCBStatPend := OS_STAT_PEND_OK, OSTCBDly := 0, OSTCBExtPtr := pext, OSTCBStkSize := stk_size,
                    OSTCBStkBottom := pbos, OSTCBOpt := opt, OSTCBId := tid, OSTCBDelReq := OS_ERR_NONE,
                    OSTCBY := y, OSTCBX := x, OSTCBBitY := push_bit (unat y) 1, OSTCBBitX := push_bit (unat x) 1,
                    OSTCBEventPtr := None, OSTCBEventMultiPtr := None, OSTCBFlagNode := None, OSTCBMsg := Null, OSTCBCtxSwCtr := 0,
                    OSTCBTaskName := unknown_name\<rparr>) s
          in if length (OSTCBPrioTbl s) \<le> unat prio then Inl OutOfBounds
             else
               let s = s\<lparr>OSTCBPrioTbl := (OSTCBPrioTbl s)[unat prio := Tcb t]\<rparr>;
                   s = tcb_upd t (\<lambda>ptcb. ptcb\<lparr>OSTCBNext := OSTCBList s, OSTCBPrev := NoTcb\<rparr>) s
               in rbind (if OSTCBList s = NoTcb then Inr s
                         else rbind (deref (OSTCBList s)) (\<lambda>h. Inr (tcb_upd h (\<lambda>ptcb. ptcb\<lparr>OSTCBPrev := Tcb t\<rparr>) s))) (\<lambda>s.
                  let s = s\<lparr>OSTCBList := Tcb t\<rparr>
                  in rbind (make_ready t y s) (\<lambda>s.
                     Inr (OS_ERR_NONE, s\<lparr>OSTaskCtr := OSTaskCtr s + 1\<rparr>))))"

definition OSTaskCreate :: "u32 \<Rightarrow> u8 \<Rightarrow> os \<Rightarrow> (u8 \<times> os) res" where
  "OSTaskCreate psp prio s =
     (if prio > OS_LOWEST_PRIO then Inr (OS_ERR_PRIO_INVALID, s)
      else if OSIntNesting s > 0 then Inr (OS_ERR_TASK_CREATE_ISR, s)
      else
        rbind (prio_entry s prio) (\<lambda>r.
        if r = NoTcb then
          let s = s\<lparr>OSTCBPrioTbl := (OSTCBPrioTbl s)[unat prio := Reserved]\<rparr>
          in rbind (OS_TCBInit prio psp 0 0 0 Null 0 s) (\<lambda>(err, s).
             if err = OS_ERR_NONE then
               if OSRunning s then rbind (OS_Sched s) (\<lambda>s. Inr (err, s)) else Inr (err, s)
             else Inr (err, s\<lparr>OSTCBPrioTbl := (OSTCBPrioTbl s)[unat prio := NoTcb]\<rparr>))
        else Inr (OS_ERR_PRIO_EXIST, s)))"

text \<open>\<open>OS_TaskStkClr\<close>, in \<open>Os_Stat\<close>, clears the stack of the new task, which is memory of the application.\<close>

definition OSTaskCreateExt :: "u32 \<Rightarrow> u8 \<Rightarrow> u16 \<Rightarrow> u32 \<Rightarrow> u32 \<Rightarrow> vptr \<Rightarrow> u16 \<Rightarrow> os \<Rightarrow> (u8 \<times> os) res" where
  "OSTaskCreateExt psp prio tid pbos stk_size pext opt s =
     (if prio > OS_LOWEST_PRIO then Inr (OS_ERR_PRIO_INVALID, s)
      else if OSIntNesting s > 0 then Inr (OS_ERR_TASK_CREATE_ISR, s)
      else
        rbind (prio_entry s prio) (\<lambda>r.
        if r = NoTcb then
          let s = s\<lparr>OSTCBPrioTbl := (OSTCBPrioTbl s)[unat prio := Reserved]\<rparr>
          in rbind (OS_TCBInit prio psp pbos tid stk_size pext opt s) (\<lambda>(err, s).
             if err = OS_ERR_NONE then
               if OSRunning s then rbind (OS_Sched s) (\<lambda>s. Inr (err, s)) else Inr (err, s)
             else Inr (err, s\<lparr>OSTCBPrioTbl := (OSTCBPrioTbl s)[unat prio := NoTcb]\<rparr>))
        else Inr (OS_ERR_PRIO_EXIST, s)))"

definition OSTaskSuspend :: "u8 \<Rightarrow> os \<Rightarrow> (u8 \<times> os) res" where
  "OSTaskSuspend prio s =
     (if prio = OS_TASK_IDLE_PRIO then Inr (OS_ERR_TASK_SUSPEND_IDLE, s)
      else if prio \<ge> OS_LOWEST_PRIO \<and> prio \<noteq> OS_PRIO_SELF then Inr (OS_ERR_PRIO_INVALID, s)
      else
        rbind (deref (OSTCBCur s)) (\<lambda>cur.
        let self = (prio = OS_PRIO_SELF \<or> prio = OSTCBPrio (OSTCBTbl s cur));
            prio = (if prio = OS_PRIO_SELF then OSTCBPrio (OSTCBTbl s cur) else prio)
        in rbind (prio_entry s prio) (\<lambda>r.
           case r of
             NoTcb \<Rightarrow> Inr (OS_ERR_TASK_SUSPEND_PRIO, s)
           | Reserved \<Rightarrow> Inr (OS_ERR_TASK_NOT_EXIST, s)
           | Tcb t \<Rightarrow>
               rbind (make_unready t s) (\<lambda>s.
               let s = tcb_upd t (\<lambda>ptcb. ptcb\<lparr>OSTCBStat := OSTCBStat ptcb OR OS_STAT_SUSPEND\<rparr>) s
               in if self then rbind (OS_Sched s) (\<lambda>s. Inr (OS_ERR_NONE, s)) else Inr (OS_ERR_NONE, s)))))"

definition OSTaskResume :: "u8 \<Rightarrow> os \<Rightarrow> (u8 \<times> os) res" where
  "OSTaskResume prio s =
     (if prio \<ge> OS_LOWEST_PRIO then Inr (OS_ERR_PRIO_INVALID, s)
      else
        rbind (prio_entry s prio) (\<lambda>r.
        case r of
          NoTcb \<Rightarrow> Inr (OS_ERR_TASK_RESUME_PRIO, s)
        | Reserved \<Rightarrow> Inr (OS_ERR_TASK_NOT_EXIST, s)
        | Tcb t \<Rightarrow>
            if OSTCBStat (OSTCBTbl s t) AND OS_STAT_SUSPEND \<noteq> OS_STAT_RDY then
              let s = tcb_upd t (\<lambda>ptcb. ptcb\<lparr>OSTCBStat := OSTCBStat ptcb AND NOT OS_STAT_SUSPEND\<rparr>) s
              in if OSTCBStat (OSTCBTbl s t) = OS_STAT_RDY \<and> OSTCBDly (OSTCBTbl s t) = 0 then
                   rbind (make_ready t (OSTCBY (OSTCBTbl s t)) s) (\<lambda>s.
                   if OSRunning s then rbind (OS_Sched s) (\<lambda>s. Inr (OS_ERR_NONE, s)) else Inr (OS_ERR_NONE, s))
                 else Inr (OS_ERR_NONE, s)
            else Inr (OS_ERR_TASK_NOT_SUSPENDED, s)))"

section \<open>Time\<close>

definition OSTimeDly :: "u16 \<Rightarrow> os \<Rightarrow> os res" where
  "OSTimeDly ticks s =
     (if OSIntNesting s > 0 then Inr s
      else if ticks > 0 then
        rbind (deref (OSTCBCur s)) (\<lambda>t.
        rbind (make_unready t s) (\<lambda>s.
        OS_Sched (tcb_upd t (\<lambda>ptcb. ptcb\<lparr>OSTCBDly := ticks\<rparr>) s)))
      else Inr s)"

text \<open>The calls of \<open>OSTimeDly\<close> one after the other; each blocks the task.\<close>

definition OSTimeDlyHMSM :: "u8 \<Rightarrow> u8 \<Rightarrow> u8 \<Rightarrow> u16 \<Rightarrow> os \<Rightarrow> u8 \<times> u16 list" where
  "OSTimeDlyHMSM hours minutes seconds ms s =
     (if OSIntNesting s > 0 then (OS_ERR_TIME_DLY_ISR, [])
      else if hours = 0 \<and> minutes = 0 \<and> seconds = 0 \<and> ms = 0 then (OS_ERR_TIME_ZERO_DLY, [])
      else if minutes > 59 then (OS_ERR_TIME_INVALID_MINUTES, [])
      else if seconds > 59 then (OS_ERR_TIME_INVALID_SECONDS, [])
      else if ms > 999 then (OS_ERR_TIME_INVALID_MS, [])
      else
        let ticks = (ucast hours * 3600 + ucast minutes * 60 + ucast seconds) * 1000
              + 1000 * (ucast ms + 500 div 1000) div (1000 :: u32);
            loops = (ucast (drop_bit 16 ticks) :: u16);
            ticks = ticks AND 0xFFFF
        in (OS_ERR_NONE, ucast ticks # concat (replicate (unat loops) [32768, 32768])))"

text \<open>What \<open>OSTimeTick\<close> and \<open>OSTimeDlyResume\<close> do at the end of a delay.\<close>

definition end_delay :: "nat \<Rightarrow> os \<Rightarrow> os" where
  "end_delay t s =
     (if OSTCBStat (OSTCBTbl s t) AND OS_STAT_PEND_ANY \<noteq> OS_STAT_RDY then
        tcb_upd t (\<lambda>ptcb. ptcb\<lparr>OSTCBStat := OSTCBStat ptcb AND NOT OS_STAT_PEND_ANY, OSTCBStatPend := OS_STAT_PEND_TO\<rparr>) s
      else tcb_upd t (\<lambda>ptcb. ptcb\<lparr>OSTCBStatPend := OS_STAT_PEND_OK\<rparr>) s)"

definition OSTimeDlyResume :: "u8 \<Rightarrow> os \<Rightarrow> (u8 \<times> os) res" where
  "OSTimeDlyResume prio s =
     (if prio \<ge> OS_LOWEST_PRIO then Inr (OS_ERR_PRIO_INVALID, s)
      else
        rbind (prio_entry s prio) (\<lambda>r.
        case r of
          NoTcb \<Rightarrow> Inr (OS_ERR_TASK_NOT_EXIST, s)
        | Reserved \<Rightarrow> Inr (OS_ERR_TASK_NOT_EXIST, s)
        | Tcb t \<Rightarrow>
            if OSTCBDly (OSTCBTbl s t) = 0 then Inr (OS_ERR_TIME_NOT_DLY, s)
            else
              let s = end_delay t (tcb_upd t (\<lambda>ptcb. ptcb\<lparr>OSTCBDly := 0\<rparr>) s)
              in if OSTCBStat (OSTCBTbl s t) AND OS_STAT_SUSPEND = OS_STAT_RDY then
                   rbind (make_ready t (OSTCBY (OSTCBTbl s t)) s) (\<lambda>s.
                   rbind (OS_Sched s) (\<lambda>s. Inr (OS_ERR_NONE, s)))
                 else Inr (OS_ERR_NONE, s)))"

definition OSTimeGet :: "os \<Rightarrow> u32" where "OSTimeGet s = OSTime s"
definition OSTimeSet :: "u32 \<Rightarrow> os \<Rightarrow> os" where "OSTimeSet ticks s = s\<lparr>OSTime := ticks\<rparr>"

definition tick_tcb :: "nat \<Rightarrow> os \<Rightarrow> os res" where
  "tick_tcb t s =
     (if OSTCBDly (OSTCBTbl s t) \<noteq> 0 then
        let s = tcb_upd t (\<lambda>ptcb. ptcb\<lparr>OSTCBDly := OSTCBDly ptcb - 1\<rparr>) s
        in if OSTCBDly (OSTCBTbl s t) = 0 then
             let s = end_delay t s
             in if OSTCBStat (OSTCBTbl s t) AND OS_STAT_SUSPEND = OS_STAT_RDY
                then make_ready t (OSTCBY (OSTCBTbl s t)) s else Inr s
           else Inr s
      else Inr s)"

text \<open>The walk along the TCB list, which has at most \<open>OS_MAX_TCBS\<close> nodes before the idle task.\<close>

fun tick_tasks :: "nat \<Rightarrow> tcb_ref \<Rightarrow> os \<Rightarrow> os res" where
  "tick_tasks 0 r s = Inl NoEnd"
| "tick_tasks (Suc fuel) r s =
     rbind (deref r) (\<lambda>t.
     if OSTCBPrio (OSTCBTbl s t) \<noteq> OS_TASK_IDLE_PRIO then
       rbind (tick_tcb t s) (\<lambda>s. tick_tasks fuel (OSTCBNext (OSTCBTbl s t)) s)
     else Inr s)"

text \<open>\<open>OSTickStepState\<close>: 0 is disabled, 1 waits, 2 processes one tick.\<close>

definition OSTimeTick :: "os \<Rightarrow> os res" where
  "OSTimeTick s =
     (let s = s\<lparr>OSTime := OSTime s + 1\<rparr>
      in if OSRunning s then
           let (step, state) = (if OSTickStepState s = 0 then (True, 0)
                 else if OSTickStepState s = 1 then (False, 1)
                 else if OSTickStepState s = 2 then (True, 1)
                 else (True, 0));
               s = s\<lparr>OSTickStepState := state\<rparr>
           in if \<not> step then Inr s else tick_tasks OS_MAX_TCBS (OSTCBList s) s
         else Inr s)"

end
