(* ===== verification/Os_Event.thy ===== *)
theory Os_Event
  imports Os_Task
begin

text \<open>
  Semaphores, mailboxes and message queues of the uC/OS-II kernel: \<open>os_sem.c\<close>, \<open>os_mbox.c\<close> and \<open>os_q.c\<close>
  in \<open>src/lcd-demo/ucos/uCOS-II/Source\<close>. An event pointer is the index of its control block, or
  \<open>None\<close> for NULL. A pend that has to wait stops at \<open>OS_Sched\<close>: the rest of it is a definition of its
  own (\<open>OSSemPend_resume\<close> and so on), run when the task is the current one again.
\<close>

section \<open>What the three share\<close>

datatype 'a pend = Returned 'a | Waiting

text \<open>Taking an event control block from the free list.\<close>

definition ecb_take :: "os \<Rightarrow> (nat option \<times> os) res" where
  "ecb_take s =
     (case OSEventFreeList s of
        Null \<Rightarrow> Inr (None, s)
      | EcbPtr e \<Rightarrow> Inr (Some e, s\<lparr>OSEventFreeList := OSEventPtr (OSEcbTbl s e)\<rparr>)
      | _ \<Rightarrow> Inl OutOfBounds)"

text \<open>Giving it back.\<close>

definition ecb_release :: "nat \<Rightarrow> os \<Rightarrow> os" where
  "ecb_release e s =
     (let s = ecb_upd e (\<lambda>ev. ev\<lparr>OSEventName := unknown_name, OSEventType := OS_EVENT_TYPE_UNUSED,
            OSEventPtr := OSEventFreeList s, OSEventCnt := 0\<rparr>) s
      in s\<lparr>OSEventFreeList := EcbPtr e\<rparr>)"

text \<open>Suspending the current task on an event, up to and with the call of \<open>OS_Sched\<close>.\<close>

definition pend_wait :: "u8 \<Rightarrow> u16 \<Rightarrow> nat \<Rightarrow> os \<Rightarrow> os res" where
  "pend_wait stat timeout e s =
     rbind (deref (OSTCBCur s)) (\<lambda>t.
     let s = tcb_upd t (\<lambda>ptcb. ptcb\<lparr>OSTCBStat := OSTCBStat ptcb OR stat, OSTCBStatPend := OS_STAT_PEND_OK,
           OSTCBDly := timeout\<rparr>) s
     in rbind (OS_EventTaskWait e s) OS_Sched)"

text \<open>After it: the pend status gives the error, a timeout takes the task out of the wait list. The
  second component is the message the task has received.\<close>

definition pend_resume :: "nat \<Rightarrow> os \<Rightarrow> ((u8 \<times> vptr) \<times> os) res" where
  "pend_resume e s =
     rbind (deref (OSTCBCur s)) (\<lambda>t.
     let stat = OSTCBStatPend (OSTCBTbl s t)
     in rbind (if stat = OS_STAT_PEND_OK then Inr ((OS_ERR_NONE, OSTCBMsg (OSTCBTbl s t)), s)
               else if stat = OS_STAT_PEND_ABORT then Inr ((OS_ERR_PEND_ABORT, Null), s)
               else rbind (OS_EventTaskRemove t e s) (\<lambda>s. Inr ((OS_ERR_TIMEOUT, Null), s))) (\<lambda>(r, s).
        Inr (r, tcb_upd t (\<lambda>ptcb. ptcb\<lparr>OSTCBStat := OS_STAT_RDY, OSTCBStatPend := OS_STAT_PEND_OK,
          OSTCBEventPtr := None, OSTCBEventMultiPtr := None\<rparr>) s)))"

text \<open>The deletion of an event whose type and caller have been checked. \<open>free\<close> returns what the event owns.\<close>

definition event_del :: "u8 \<Rightarrow> (os \<Rightarrow> os res) \<Rightarrow> nat \<Rightarrow> u8 \<Rightarrow> os \<Rightarrow> ((nat option \<times> u8) \<times> os) res" where
  "event_del stat free e opt s =
     (let tasks_waiting = (OSEventGrp (OSEcbTbl s e) \<noteq> 0)
      in if opt = 0 then
           if \<not> tasks_waiting then rbind (free s) (\<lambda>s. Inr ((None, OS_ERR_NONE), ecb_release e s))
           else Inr ((Some e, OS_ERR_TASK_WAITING), s)
         else if opt = 1 then
           rbind (ready_all 33 e Null stat OS_STAT_PEND_OK 0 s) (\<lambda>(n, s).
           rbind (free s) (\<lambda>s.
           let s = ecb_release e s
           in rbind (if tasks_waiting then OS_Sched s else Inr s) (\<lambda>s. Inr ((None, OS_ERR_NONE), s))))
         else Inr ((Some e, OS_ERR_INVALID_OPT), s))"

text \<open>The abort of waiting tasks: their number and the error.\<close>

definition event_abort :: "u8 \<Rightarrow> nat \<Rightarrow> u8 \<Rightarrow> os \<Rightarrow> ((u8 \<times> u8) \<times> os) res" where
  "event_abort stat e opt s =
     (if OSEventGrp (OSEcbTbl s e) \<noteq> 0 then
        rbind (if opt = 1 then ready_all 33 e Null stat OS_STAT_PEND_ABORT 0 s
               else rbind (OS_EventTaskRdy e Null stat OS_STAT_PEND_ABORT s) (\<lambda>(p, s). Inr (1, s))) (\<lambda>(n, s).
        rbind (OS_Sched s) (\<lambda>s. Inr ((n, OS_ERR_PEND_ABORT), s)))
      else Inr ((0, OS_ERR_NONE), s))"

section \<open>Semaphores\<close>

definition OSSemAccept :: "nat option \<Rightarrow> os \<Rightarrow> u16 \<times> os" where
  "OSSemAccept pevent s =
     (case pevent of
        None \<Rightarrow> (0, s)
      | Some e \<Rightarrow>
          if OSEventType (OSEcbTbl s e) \<noteq> OS_EVENT_TYPE_SEM then (0, s)
          else
            let cnt = OSEventCnt (OSEcbTbl s e)
            in (cnt, if cnt > 0 then ecb_upd e (\<lambda>ev. ev\<lparr>OSEventCnt := OSEventCnt ev - 1\<rparr>) s else s))"

definition OSSemCreate :: "u16 \<Rightarrow> os \<Rightarrow> (nat option \<times> os) res" where
  "OSSemCreate cnt s =
     (if OSIntNesting s > 0 then Inr (None, s)
      else
        rbind (ecb_take s) (\<lambda>(pevent, s).
        case pevent of
          None \<Rightarrow> Inr (None, s)
        | Some e \<Rightarrow>
            Inr (Some e, OS_EventWaitListInit e (ecb_upd e (\<lambda>ev. ev\<lparr>OSEventType := OS_EVENT_TYPE_SEM, OSEventCnt := cnt,
              OSEventPtr := Null, OSEventName := unknown_name\<rparr>) s))))"

definition OSSemDel :: "nat option \<Rightarrow> u8 \<Rightarrow> os \<Rightarrow> ((nat option \<times> u8) \<times> os) res" where
  "OSSemDel pevent opt s =
     (case pevent of
        None \<Rightarrow> Inr ((None, OS_ERR_PEVENT_NULL), s)
      | Some e \<Rightarrow>
          if OSEventType (OSEcbTbl s e) \<noteq> OS_EVENT_TYPE_SEM then Inr ((Some e, OS_ERR_EVENT_TYPE), s)
          else if OSIntNesting s > 0 then Inr ((Some e, OS_ERR_DEL_ISR), s)
          else event_del OS_STAT_SEM Inr e opt s)"

definition OSSemPend :: "nat option \<Rightarrow> u16 \<Rightarrow> os \<Rightarrow> (u8 pend \<times> os) res" where
  "OSSemPend pevent timeout s =
     (case pevent of
        None \<Rightarrow> Inr (Returned OS_ERR_PEVENT_NULL, s)
      | Some e \<Rightarrow>
          if OSEventType (OSEcbTbl s e) \<noteq> OS_EVENT_TYPE_SEM then Inr (Returned OS_ERR_EVENT_TYPE, s)
          else if OSIntNesting s > 0 then Inr (Returned OS_ERR_PEND_ISR, s)
          else if OSLockNesting s > 0 then Inr (Returned OS_ERR_PEND_LOCKED, s)
          else if OSEventCnt (OSEcbTbl s e) > 0 then
            Inr (Returned OS_ERR_NONE, ecb_upd e (\<lambda>ev. ev\<lparr>OSEventCnt := OSEventCnt ev - 1\<rparr>) s)
          else rbind (pend_wait OS_STAT_SEM timeout e s) (\<lambda>s. Inr (Waiting, s)))"

definition OSSemPend_resume :: "nat \<Rightarrow> os \<Rightarrow> (u8 \<times> os) res" where
  "OSSemPend_resume e s = rbind (pend_resume e s) (\<lambda>((err, msg), s). Inr (err, s))"

definition OSSemPendAbort :: "nat option \<Rightarrow> u8 \<Rightarrow> os \<Rightarrow> ((u8 \<times> u8) \<times> os) res" where
  "OSSemPendAbort pevent opt s =
     (case pevent of
        None \<Rightarrow> Inr ((0, OS_ERR_PEVENT_NULL), s)
      | Some e \<Rightarrow>
          if OSEventType (OSEcbTbl s e) \<noteq> OS_EVENT_TYPE_SEM then Inr ((0, OS_ERR_EVENT_TYPE), s)
          else event_abort OS_STAT_SEM e opt s)"

definition OSSemPost :: "nat option \<Rightarrow> os \<Rightarrow> (u8 \<times> os) res" where
  "OSSemPost pevent s =
     (case pevent of
        None \<Rightarrow> Inr (OS_ERR_PEVENT_NULL, s)
      | Some e \<Rightarrow>
          if OSEventType (OSEcbTbl s e) \<noteq> OS_EVENT_TYPE_SEM then Inr (OS_ERR_EVENT_TYPE, s)
          else if OSEventGrp (OSEcbTbl s e) \<noteq> 0 then
            rbind (OS_EventTaskRdy e Null OS_STAT_SEM OS_STAT_PEND_OK s) (\<lambda>(p, s).
            rbind (OS_Sched s) (\<lambda>s. Inr (OS_ERR_NONE, s)))
          else if OSEventCnt (OSEcbTbl s e) < 65535 then
            Inr (OS_ERR_NONE, ecb_upd e (\<lambda>ev. ev\<lparr>OSEventCnt := OSEventCnt ev + 1\<rparr>) s)
          else Inr (OS_ERR_SEM_OVF, s))"

text \<open>\<open>OSSemQuery\<close>: the wait list and the count; \<open>pdata\<close> tells that the destination is not NULL.\<close>

definition OSSemQuery :: "nat option \<Rightarrow> bool \<Rightarrow> os \<Rightarrow> u8 \<times> (prio_list \<times> u16) option" where
  "OSSemQuery pevent pdata s =
     (case pevent of
        None \<Rightarrow> (OS_ERR_PEVENT_NULL, None)
      | Some e \<Rightarrow>
          if \<not> pdata then (9, None)
          else if OSEventType (OSEcbTbl s e) \<noteq> OS_EVENT_TYPE_SEM then (OS_ERR_EVENT_TYPE, None)
          else (OS_ERR_NONE, Some ((OSEventGrp (OSEcbTbl s e), take 4 (OSEventTbl (OSEcbTbl s e))), OSEventCnt (OSEcbTbl s e))))"

definition OSSemSet :: "nat option \<Rightarrow> u16 \<Rightarrow> os \<Rightarrow> u8 \<times> os" where
  "OSSemSet pevent cnt s =
     (case pevent of
        None \<Rightarrow> (OS_ERR_PEVENT_NULL, s)
      | Some e \<Rightarrow>
          if OSEventType (OSEcbTbl s e) \<noteq> OS_EVENT_TYPE_SEM then (OS_ERR_EVENT_TYPE, s)
          else if OSEventCnt (OSEcbTbl s e) > 0 then (OS_ERR_NONE, ecb_upd e (\<lambda>ev. ev\<lparr>OSEventCnt := cnt\<rparr>) s)
          else if OSEventGrp (OSEcbTbl s e) = 0 then (OS_ERR_NONE, ecb_upd e (\<lambda>ev. ev\<lparr>OSEventCnt := cnt\<rparr>) s)
          else (OS_ERR_TASK_WAITING, s))"

section \<open>Mailboxes\<close>

definition OSMboxAccept :: "nat option \<Rightarrow> os \<Rightarrow> vptr \<times> os" where
  "OSMboxAccept pevent s =
     (case pevent of
        None \<Rightarrow> (Null, s)
      | Some e \<Rightarrow>
          if OSEventType (OSEcbTbl s e) \<noteq> OS_EVENT_TYPE_MBOX then (Null, s)
          else (OSEventPtr (OSEcbTbl s e), ecb_upd e (\<lambda>ev. ev\<lparr>OSEventPtr := Null\<rparr>) s))"

definition OSMboxCreate :: "vptr \<Rightarrow> os \<Rightarrow> (nat option \<times> os) res" where
  "OSMboxCreate pmsg s =
     (if OSIntNesting s > 0 then Inr (None, s)
      else
        rbind (ecb_take s) (\<lambda>(pevent, s).
        case pevent of
          None \<Rightarrow> Inr (None, s)
        | Some e \<Rightarrow>
            Inr (Some e, OS_EventWaitListInit e (ecb_upd e (\<lambda>ev. ev\<lparr>OSEventType := OS_EVENT_TYPE_MBOX, OSEventCnt := 0,
              OSEventPtr := pmsg, OSEventName := unknown_name\<rparr>) s))))"

definition OSMboxDel :: "nat option \<Rightarrow> u8 \<Rightarrow> os \<Rightarrow> ((nat option \<times> u8) \<times> os) res" where
  "OSMboxDel pevent opt s =
     (case pevent of
        None \<Rightarrow> Inr ((None, OS_ERR_PEVENT_NULL), s)
      | Some e \<Rightarrow>
          if OSEventType (OSEcbTbl s e) \<noteq> OS_EVENT_TYPE_MBOX then Inr ((Some e, OS_ERR_EVENT_TYPE), s)
          else if OSIntNesting s > 0 then Inr ((Some e, OS_ERR_DEL_ISR), s)
          else event_del OS_STAT_MBOX Inr e opt s)"

definition OSMboxPend :: "nat option \<Rightarrow> u16 \<Rightarrow> os \<Rightarrow> ((vptr \<times> u8) pend \<times> os) res" where
  "OSMboxPend pevent timeout s =
     (case pevent of
        None \<Rightarrow> Inr (Returned (Null, OS_ERR_PEVENT_NULL), s)
      | Some e \<Rightarrow>
          if OSEventType (OSEcbTbl s e) \<noteq> OS_EVENT_TYPE_MBOX then Inr (Returned (Null, OS_ERR_EVENT_TYPE), s)
          else if OSIntNesting s > 0 then Inr (Returned (Null, OS_ERR_PEND_ISR), s)
          else if OSLockNesting s > 0 then Inr (Returned (Null, OS_ERR_PEND_LOCKED), s)
          else
            let pmsg = OSEventPtr (OSEcbTbl s e)
            in if pmsg \<noteq> Null then Inr (Returned (pmsg, OS_ERR_NONE), ecb_upd e (\<lambda>ev. ev\<lparr>OSEventPtr := Null\<rparr>) s)
               else rbind (pend_wait OS_STAT_MBOX timeout e s) (\<lambda>s. Inr (Waiting, s)))"

definition OSMboxPend_resume :: "nat \<Rightarrow> os \<Rightarrow> ((vptr \<times> u8) \<times> os) res" where
  "OSMboxPend_resume e s =
     rbind (deref (OSTCBCur s)) (\<lambda>t.
     rbind (pend_resume e s) (\<lambda>((err, pmsg), s).
     Inr ((pmsg, err), tcb_upd t (\<lambda>ptcb. ptcb\<lparr>OSTCBMsg := Null\<rparr>) s)))"

definition OSMboxPendAbort :: "nat option \<Rightarrow> u8 \<Rightarrow> os \<Rightarrow> ((u8 \<times> u8) \<times> os) res" where
  "OSMboxPendAbort pevent opt s =
     (case pevent of
        None \<Rightarrow> Inr ((0, OS_ERR_PEVENT_NULL), s)
      | Some e \<Rightarrow>
          if OSEventType (OSEcbTbl s e) \<noteq> OS_EVENT_TYPE_MBOX then Inr ((0, OS_ERR_EVENT_TYPE), s)
          else event_abort OS_STAT_MBOX e opt s)"

definition OSMboxPost :: "nat option \<Rightarrow> vptr \<Rightarrow> os \<Rightarrow> (u8 \<times> os) res" where
  "OSMboxPost pevent pmsg s =
     (case pevent of
        None \<Rightarrow> Inr (OS_ERR_PEVENT_NULL, s)
      | Some e \<Rightarrow>
          if pmsg = Null then Inr (OS_ERR_POST_NULL_PTR, s)
          else if OSEventType (OSEcbTbl s e) \<noteq> OS_EVENT_TYPE_MBOX then Inr (OS_ERR_EVENT_TYPE, s)
          else if OSEventGrp (OSEcbTbl s e) \<noteq> 0 then
            rbind (OS_EventTaskRdy e pmsg OS_STAT_MBOX OS_STAT_PEND_OK s) (\<lambda>(p, s).
            rbind (OS_Sched s) (\<lambda>s. Inr (OS_ERR_NONE, s)))
          else if OSEventPtr (OSEcbTbl s e) \<noteq> Null then Inr (OS_ERR_MBOX_FULL, s)
          else Inr (OS_ERR_NONE, ecb_upd e (\<lambda>ev. ev\<lparr>OSEventPtr := pmsg\<rparr>) s))"

text \<open>The options: bit 0 broadcasts, bit 2 leaves the scheduler out.\<close>

definition OSMboxPostOpt :: "nat option \<Rightarrow> vptr \<Rightarrow> u8 \<Rightarrow> os \<Rightarrow> (u8 \<times> os) res" where
  "OSMboxPostOpt pevent pmsg opt s =
     (case pevent of
        None \<Rightarrow> Inr (OS_ERR_PEVENT_NULL, s)
      | Some e \<Rightarrow>
          if pmsg = Null then Inr (OS_ERR_POST_NULL_PTR, s)
          else if OSEventType (OSEcbTbl s e) \<noteq> OS_EVENT_TYPE_MBOX then Inr (OS_ERR_EVENT_TYPE, s)
          else if OSEventGrp (OSEcbTbl s e) \<noteq> 0 then
            rbind (if opt AND 1 \<noteq> 0 then ready_all 33 e pmsg OS_STAT_MBOX OS_STAT_PEND_OK 0 s
                   else OS_EventTaskRdy e pmsg OS_STAT_MBOX OS_STAT_PEND_OK s) (\<lambda>(p, s).
            rbind (if opt AND 4 = 0 then OS_Sched s else Inr s) (\<lambda>s. Inr (OS_ERR_NONE, s)))
          else if OSEventPtr (OSEcbTbl s e) \<noteq> Null then Inr (OS_ERR_MBOX_FULL, s)
          else Inr (OS_ERR_NONE, ecb_upd e (\<lambda>ev. ev\<lparr>OSEventPtr := pmsg\<rparr>) s))"

definition OSMboxQuery :: "nat option \<Rightarrow> bool \<Rightarrow> os \<Rightarrow> u8 \<times> (prio_list \<times> vptr) option" where
  "OSMboxQuery pevent pdata s =
     (case pevent of
        None \<Rightarrow> (OS_ERR_PEVENT_NULL, None)
      | Some e \<Rightarrow>
          if \<not> pdata then (9, None)
          else if OSEventType (OSEcbTbl s e) \<noteq> OS_EVENT_TYPE_MBOX then (OS_ERR_EVENT_TYPE, None)
          else (OS_ERR_NONE, Some ((OSEventGrp (OSEcbTbl s e), take 4 (OSEventTbl (OSEcbTbl s e))), OSEventPtr (OSEcbTbl s e))))"

end
