(* ===== verification/Firmware.thy ===== *)
theory Firmware
  imports Os_Event Os_Task
begin

text \<open>
  How the firmware of the demonstration board receives characters: the interrupt handler of the serial port
  (\<open>USART1_IRQHandler\<close> in \<open>src/lcd-demo/src/console.c\<close>) keeps the last character in the variable \<open>uart_chr\<close> and posts a semaphore
  of uC/OS-II; the console task waits for it in \<open>comm_get\<close> of \<open>xprintf.c\<close>. The state is that of the kernel with \<open>uart_chr\<close>; the
  semaphore is \<open>uart_receive_sem\<close>, \<open>None\<close> before \<open>app_start\<close> has created it.
\<close>

text \<open>\<open>rxne\<close> is what \<open>USART_GetFlagStatus\<close> says, \<open>c\<close> the character in the data register.\<close>

definition USART1_IRQHandler :: "bool \<Rightarrow> u8 \<Rightarrow> nat option \<Rightarrow> os \<times> u8 \<Rightarrow> (os \<times> u8) res" where
  "USART1_IRQHandler rxne c uart_receive_sem = (\<lambda>(s, uart_chr).
     (let s = OSIntEnter s
      in rbind (if rxne then rbind (OSSemPost uart_receive_sem s) (\<lambda>(err, s). Inr (s, c)) else Inr (s, uart_chr)) (\<lambda>(s, uart_chr).
         rbind (OSIntExit s) (\<lambda>s. Inr (s, uart_chr)))))"

text \<open>
  The end of \<open>comm_get\<close>: with an error the function ends without a value, which its callers use. \<open>comm_get\<close> is split at the
  \<open>OS_Sched\<close> of its pend.
\<close>

definition comm_result :: "u8 \<Rightarrow> os \<times> u8 \<Rightarrow> (u8 \<times> os \<times> u8) res" where
  "comm_result err = (\<lambda>(s, uart_chr). if err = OS_ERR_NONE then Inr (uart_chr, s, uart_chr) else Inl Uninit)"

definition comm_get :: "nat option \<Rightarrow> os \<times> u8 \<Rightarrow> (u8 pend \<times> os \<times> u8) res" where
  "comm_get uart_receive_sem = (\<lambda>(s, uart_chr).
     rbind (OSSemPend uart_receive_sem 0 s) (\<lambda>(r, s).
     case r of
       Waiting \<Rightarrow> Inr (Waiting, s, uart_chr)
     | Returned err \<Rightarrow> rbind (comm_result err (s, uart_chr)) (\<lambda>(ch, s). Inr (Returned ch, s))))"

definition comm_get_resume :: "nat \<Rightarrow> os \<times> u8 \<Rightarrow> (u8 \<times> os \<times> u8) res" where
  "comm_get_resume e = (\<lambda>(s, uart_chr). rbind (OSSemPend_resume e s) (\<lambda>(err, s). comm_result err (s, uart_chr)))"

text \<open>A sequence of interrupts, and a task that reads so many characters without having to wait.\<close>

primrec receive_all :: "u8 list \<Rightarrow> nat option \<Rightarrow> os \<times> u8 \<Rightarrow> (os \<times> u8) res" where
  "receive_all [] sem b = Inr b"
| "receive_all (c # cs) sem b = rbind (USART1_IRQHandler True c sem b) (receive_all cs sem)"

primrec read_all :: "nat \<Rightarrow> nat option \<Rightarrow> os \<times> u8 \<Rightarrow> (u8 list \<times> os \<times> u8) res" where
  "read_all 0 sem b = Inr ([], b)"
| "read_all (Suc n) sem b =
     rbind (comm_get sem b) (\<lambda>(r, b).
     case r of Waiting \<Rightarrow> Inr ([], b) | Returned c \<Rightarrow> rbind (read_all n sem b) (\<lambda>(cs, b). Inr (c # cs, b)))"

end
