(* ===== verification/Os_Queue.thy ===== *)
theory Os_Queue
  imports Os_Event
begin

text \<open>
  Message queues, \<open>src/lcd-demo/ucos/uCOS-II/Source/os_q.c\<close>: a ring of \<open>void *\<close> cells with an in and an
  out pointer. The storage belongs to the application; a queue control block is found through the
  \<open>OSEventPtr\<close> of its event.
\<close>

definition OS_MAX_QS :: nat where "OS_MAX_QS = 4"

definition OS_QInit :: "os \<Rightarrow> os" where
  "OS_QInit s = s\<lparr>
     OSQTbl := (\<lambda>i. if i < OS_MAX_QS
        then \<lparr>OSQPtr = if i + 1 < OS_MAX_QS then Some (i + 1) else None, OSQStart = 0, OSQEnd = 0, OSQIn = 0, OSQOut = 0,
              OSQSize = 0, OSQEntries = 0\<rparr>
        else OSQTbl s i),
     OSQFreeList := Some 0\<rparr>"

definition qcb_upd :: "nat \<Rightarrow> (qcb \<Rightarrow> qcb) \<Rightarrow> os \<Rightarrow> os" where
  "qcb_upd q f s = s\<lparr>OSQTbl := (OSQTbl s)(q := f (OSQTbl s q))\<rparr>"

text \<open>\<open>pq = (OS_Q *)pevent->OSEventPtr\<close>, which is dereferenced at once.\<close>

definition queue_of :: "os \<Rightarrow> nat \<Rightarrow> nat res" where
  "queue_of s e = (case OSEventPtr (OSEcbTbl s e) of QcbPtr q \<Rightarrow> Inr q | Null \<Rightarrow> Inl NullDeref | _ \<Rightarrow> Inl OutOfBounds)"

text \<open>Extracting the oldest message, inserting one at the end or at the front. The code has these
  statements in every function that needs them.\<close>

definition q_out :: "nat \<Rightarrow> os \<Rightarrow> vptr \<times> os" where
  "q_out q s =
     (let pmsg = cells s (OSQOut (OSQTbl s q));
          s = qcb_upd q (\<lambda>pq. pq\<lparr>OSQOut := OSQOut pq + 1, OSQEntries := OSQEntries pq - 1\<rparr>) s;
          s = qcb_upd q (\<lambda>pq. if OSQOut pq = OSQEnd pq then pq\<lparr>OSQOut := OSQStart pq\<rparr> else pq) s
      in (pmsg, s))"

definition q_in :: "nat \<Rightarrow> vptr \<Rightarrow> os \<Rightarrow> os" where
  "q_in q pmsg s =
     (let s = s\<lparr>cells := (cells s)(OSQIn (OSQTbl s q) := pmsg)\<rparr>;
          s = qcb_upd q (\<lambda>pq. pq\<lparr>OSQIn := OSQIn pq + 1, OSQEntries := OSQEntries pq + 1\<rparr>) s
      in qcb_upd q (\<lambda>pq. if OSQIn pq = OSQEnd pq then pq\<lparr>OSQIn := OSQStart pq\<rparr> else pq) s)"

definition q_front :: "nat \<Rightarrow> vptr \<Rightarrow> os \<Rightarrow> os" where
  "q_front q pmsg s =
     (let s = qcb_upd q (\<lambda>pq. if OSQOut pq = OSQStart pq then pq\<lparr>OSQOut := OSQEnd pq\<rparr> else pq) s;
          s = qcb_upd q (\<lambda>pq. pq\<lparr>OSQOut := OSQOut pq - 1\<rparr>) s;
          s = s\<lparr>cells := (cells s)(OSQOut (OSQTbl s q) := pmsg)\<rparr>
      in qcb_upd q (\<lambda>pq. pq\<lparr>OSQEntries := OSQEntries pq + 1\<rparr>) s)"

definition OSQAccept :: "nat option \<Rightarrow> os \<Rightarrow> ((vptr \<times> u8) \<times> os) res" where
  "OSQAccept pevent s =
     (case pevent of
        None \<Rightarrow> Inr ((Null, OS_ERR_PEVENT_NULL), s)
      | Some e \<Rightarrow>
          if OSEventType (OSEcbTbl s e) \<noteq> OS_EVENT_TYPE_Q then Inr ((Null, OS_ERR_EVENT_TYPE), s)
          else
            rbind (queue_of s e) (\<lambda>q.
            if OSQEntries (OSQTbl s q) > 0 then let (pmsg, s) = q_out q s in Inr ((pmsg, OS_ERR_NONE), s)
            else Inr ((Null, OS_ERR_Q_EMPTY), s)))"

definition OSQCreate :: "nat \<Rightarrow> u16 \<Rightarrow> os \<Rightarrow> (nat option \<times> os) res" where
  "OSQCreate start qsize s =
     (if OSIntNesting s > 0 then Inr (None, s)
      else
        rbind (ecb_take s) (\<lambda>(pevent, s).
        case pevent of
          None \<Rightarrow> Inr (None, s)
        | Some e \<Rightarrow>
            (case OSQFreeList s of
               Some q \<Rightarrow>
                 let s = s\<lparr>OSQFreeList := OSQPtr (OSQTbl s q)\<rparr>;
                     s = qcb_upd q (\<lambda>pq. pq\<lparr>OSQStart := start, OSQEnd := start + unat qsize, OSQIn := start, OSQOut := start,
                           OSQSize := qsize, OSQEntries := 0\<rparr>) s;
                     s = ecb_upd e (\<lambda>ev. ev\<lparr>OSEventType := OS_EVENT_TYPE_Q, OSEventCnt := 0, OSEventPtr := QcbPtr q,
                           OSEventName := unknown_name\<rparr>) s
                 in Inr (Some e, OS_EventWaitListInit e s)
             | None \<Rightarrow>
                 let s = ecb_upd e (\<lambda>ev. ev\<lparr>OSEventPtr := OSEventFreeList s\<rparr>) s
                 in Inr (None, s\<lparr>OSEventFreeList := EcbPtr e\<rparr>))))"

text \<open>Returning the queue control block to its free list.\<close>

definition q_release :: "nat \<Rightarrow> os \<Rightarrow> os res" where
  "q_release e s =
     rbind (queue_of s e) (\<lambda>q.
     let s = qcb_upd q (\<lambda>pq. pq\<lparr>OSQPtr := OSQFreeList s\<rparr>) s
     in Inr (s\<lparr>OSQFreeList := Some q\<rparr>))"

definition OSQDel :: "nat option \<Rightarrow> u8 \<Rightarrow> os \<Rightarrow> ((nat option \<times> u8) \<times> os) res" where
  "OSQDel pevent opt s =
     (case pevent of
        None \<Rightarrow> Inr ((None, OS_ERR_PEVENT_NULL), s)
      | Some e \<Rightarrow>
          if OSEventType (OSEcbTbl s e) \<noteq> OS_EVENT_TYPE_Q then Inr ((Some e, OS_ERR_EVENT_TYPE), s)
          else if OSIntNesting s > 0 then Inr ((Some e, OS_ERR_DEL_ISR), s)
          else event_del OS_STAT_Q (q_release e) e opt s)"

definition OSQFlush :: "nat option \<Rightarrow> os \<Rightarrow> (u8 \<times> os) res" where
  "OSQFlush pevent s =
     (case pevent of
        None \<Rightarrow> Inr (OS_ERR_PEVENT_NULL, s)
      | Some e \<Rightarrow>
          if OSEventType (OSEcbTbl s e) \<noteq> OS_EVENT_TYPE_Q then Inr (OS_ERR_EVENT_TYPE, s)
          else
            rbind (queue_of s e) (\<lambda>q.
            Inr (OS_ERR_NONE, qcb_upd q (\<lambda>pq. pq\<lparr>OSQIn := OSQStart pq, OSQOut := OSQStart pq, OSQEntries := 0\<rparr>) s)))"

definition OSQPend :: "nat option \<Rightarrow> u16 \<Rightarrow> os \<Rightarrow> ((vptr \<times> u8) pend \<times> os) res" where
  "OSQPend pevent timeout s =
     (case pevent of
        None \<Rightarrow> Inr (Returned (Null, OS_ERR_PEVENT_NULL), s)
      | Some e \<Rightarrow>
          if OSEventType (OSEcbTbl s e) \<noteq> OS_EVENT_TYPE_Q then Inr (Returned (Null, OS_ERR_EVENT_TYPE), s)
          else if OSIntNesting s > 0 then Inr (Returned (Null, OS_ERR_PEND_ISR), s)
          else if OSLockNesting s > 0 then Inr (Returned (Null, OS_ERR_PEND_LOCKED), s)
          else
            rbind (queue_of s e) (\<lambda>q.
            if OSQEntries (OSQTbl s q) > 0 then let (pmsg, s) = q_out q s in Inr (Returned (pmsg, OS_ERR_NONE), s)
            else rbind (pend_wait OS_STAT_Q timeout e s) (\<lambda>s. Inr (Waiting, s))))"

definition OSQPend_resume :: "nat \<Rightarrow> os \<Rightarrow> ((vptr \<times> u8) \<times> os) res" where
  "OSQPend_resume e s =
     rbind (deref (OSTCBCur s)) (\<lambda>t.
     rbind (pend_resume e s) (\<lambda>((err, pmsg), s).
     Inr ((pmsg, err), tcb_upd t (\<lambda>ptcb. ptcb\<lparr>OSTCBMsg := Null\<rparr>) s)))"

definition OSQPendAbort :: "nat option \<Rightarrow> u8 \<Rightarrow> os \<Rightarrow> ((u8 \<times> u8) \<times> os) res" where
  "OSQPendAbort pevent opt s =
     (case pevent of
        None \<Rightarrow> Inr ((0, OS_ERR_PEVENT_NULL), s)
      | Some e \<Rightarrow>
          if OSEventType (OSEcbTbl s e) \<noteq> OS_EVENT_TYPE_Q then Inr ((0, OS_ERR_EVENT_TYPE), s)
          else event_abort OS_STAT_Q e opt s)"

definition OSQPost :: "nat option \<Rightarrow> vptr \<Rightarrow> os \<Rightarrow> (u8 \<times> os) res" where
  "OSQPost pevent pmsg s =
     (case pevent of
        None \<Rightarrow> Inr (OS_ERR_PEVENT_NULL, s)
      | Some e \<Rightarrow>
          if OSEventType (OSEcbTbl s e) \<noteq> OS_EVENT_TYPE_Q then Inr (OS_ERR_EVENT_TYPE, s)
          else if OSEventGrp (OSEcbTbl s e) \<noteq> 0 then
            rbind (OS_EventTaskRdy e pmsg OS_STAT_Q OS_STAT_PEND_OK s) (\<lambda>(p, s).
            rbind (OS_Sched s) (\<lambda>s. Inr (OS_ERR_NONE, s)))
          else
            rbind (queue_of s e) (\<lambda>q.
            if OSQEntries (OSQTbl s q) \<ge> OSQSize (OSQTbl s q) then Inr (OS_ERR_Q_FULL, s)
            else Inr (OS_ERR_NONE, q_in q pmsg s)))"

definition OSQPostFront :: "nat option \<Rightarrow> vptr \<Rightarrow> os \<Rightarrow> (u8 \<times> os) res" where
  "OSQPostFront pevent pmsg s =
     (case pevent of
        None \<Rightarrow> Inr (OS_ERR_PEVENT_NULL, s)
      | Some e \<Rightarrow>
          if OSEventType (OSEcbTbl s e) \<noteq> OS_EVENT_TYPE_Q then Inr (OS_ERR_EVENT_TYPE, s)
          else if OSEventGrp (OSEcbTbl s e) \<noteq> 0 then
            rbind (OS_EventTaskRdy e pmsg OS_STAT_Q OS_STAT_PEND_OK s) (\<lambda>(p, s).
            rbind (OS_Sched s) (\<lambda>s. Inr (OS_ERR_NONE, s)))
          else
            rbind (queue_of s e) (\<lambda>q.
            if OSQEntries (OSQTbl s q) \<ge> OSQSize (OSQTbl s q) then Inr (OS_ERR_Q_FULL, s)
            else Inr (OS_ERR_NONE, q_front q pmsg s)))"

text \<open>The options: bit 0 broadcasts, bit 1 posts at the front, bit 2 leaves the scheduler out.\<close>

definition OSQPostOpt :: "nat option \<Rightarrow> vptr \<Rightarrow> u8 \<Rightarrow> os \<Rightarrow> (u8 \<times> os) res" where
  "OSQPostOpt pevent pmsg opt s =
     (case pevent of
        None \<Rightarrow> Inr (OS_ERR_PEVENT_NULL, s)
      | Some e \<Rightarrow>
          if OSEventType (OSEcbTbl s e) \<noteq> OS_EVENT_TYPE_Q then Inr (OS_ERR_EVENT_TYPE, s)
          else if OSEventGrp (OSEcbTbl s e) \<noteq> 0 then
            rbind (if opt AND 1 \<noteq> 0 then ready_all 33 e pmsg OS_STAT_Q OS_STAT_PEND_OK 0 s
                   else OS_EventTaskRdy e pmsg OS_STAT_Q OS_STAT_PEND_OK s) (\<lambda>(p, s).
            rbind (if opt AND 4 = 0 then OS_Sched s else Inr s) (\<lambda>s. Inr (OS_ERR_NONE, s)))
          else
            rbind (queue_of s e) (\<lambda>q.
            if OSQEntries (OSQTbl s q) \<ge> OSQSize (OSQTbl s q) then Inr (OS_ERR_Q_FULL, s)
            else if opt AND 2 \<noteq> 0 then Inr (OS_ERR_NONE, q_front q pmsg s)
            else Inr (OS_ERR_NONE, q_in q pmsg s)))"

text \<open>\<open>OSQQuery\<close>: the wait list, the next message, the number of messages and the size.\<close>

definition OSQQuery :: "nat option \<Rightarrow> bool \<Rightarrow> os \<Rightarrow> (u8 \<times> (prio_list \<times> vptr \<times> u16 \<times> u16) option) res" where
  "OSQQuery pevent pdata s =
     (case pevent of
        None \<Rightarrow> Inr (OS_ERR_PEVENT_NULL, None)
      | Some e \<Rightarrow>
          if \<not> pdata then Inr (9, None)
          else if OSEventType (OSEcbTbl s e) \<noteq> OS_EVENT_TYPE_Q then Inr (OS_ERR_EVENT_TYPE, None)
          else
            rbind (queue_of s e) (\<lambda>q.
            Inr (OS_ERR_NONE, Some ((OSEventGrp (OSEcbTbl s e), take 4 (OSEventTbl (OSEcbTbl s e))),
              (if OSQEntries (OSQTbl s q) > 0 then cells s (OSQOut (OSQTbl s q)) else Null),
              OSQEntries (OSQTbl s q), OSQSize (OSQTbl s q)))))"

section \<open>The queue as a list\<close>

text \<open>A ring is well-formed when the pointers lie in the storage and the in pointer is the number of
  entries ahead of the out pointer, modulo the size. Its contents are the messages from the out
  pointer on.\<close>

definition ring_ok :: "qcb \<Rightarrow> bool" where
  "ring_ok pq \<longleftrightarrow> 0 < unat (OSQSize pq) \<and> OSQEnd pq = OSQStart pq + unat (OSQSize pq) \<and> OSQStart pq \<le> OSQOut pq
     \<and> OSQOut pq < OSQEnd pq \<and> OSQEntries pq \<le> OSQSize pq
     \<and> OSQIn pq = OSQStart pq + (OSQOut pq - OSQStart pq + unat (OSQEntries pq)) mod unat (OSQSize pq)"

definition ring_cell :: "qcb \<Rightarrow> nat \<Rightarrow> nat" where
  "ring_cell pq i = OSQStart pq + (OSQOut pq - OSQStart pq + i) mod unat (OSQSize pq)"

definition queue_list :: "os \<Rightarrow> nat \<Rightarrow> vptr list" where
  "queue_list s q = map (\<lambda>i. cells s (ring_cell (OSQTbl s q) i)) [0..<unat (OSQEntries (OSQTbl s q))]"

end
