(* ===== verification/Os_Inv.thy ===== *)
theory Os_Inv
  imports Os_Queue
begin

text \<open>
  The invariant of the uC/OS-II kernel and the lemmas about its primitives. A configuration is the
  kernel's state and, for every priority, where the task of that priority stands: in its own code, or
  inside a pend on an event, behind the call of \<open>OS_Sched\<close>.
\<close>

named_theorems os_simps \<open>components of an updated kernel state\<close>

section \<open>Components of updated states\<close>

lemma tcb_upd_simps [os_simps]:
  "OSTCBTbl (tcb_upd t f s) = (OSTCBTbl s)(t := f (OSTCBTbl s t))"
  "OSTCBPrioTbl (tcb_upd t f s) = OSTCBPrioTbl s" "OSEcbTbl (tcb_upd t f s) = OSEcbTbl s"
  "ready_list (tcb_upd t f s) = ready_list s" "wait_list (tcb_upd t f s) e = wait_list s e"
  "OSPrioCur (tcb_upd t f s) = OSPrioCur s" "OSTCBCur (tcb_upd t f s) = OSTCBCur s"
  "OSRunning (tcb_upd t f s) = OSRunning s" "OSIntNesting (tcb_upd t f s) = OSIntNesting s"
  "OSLockNesting (tcb_upd t f s) = OSLockNesting s" "OSTCBList (tcb_upd t f s) = OSTCBList s"
  "OSTime (tcb_upd t f s) = OSTime s" "OSTickStepState (tcb_upd t f s) = OSTickStepState s"
  by (simp_all add: tcb_upd_def ready_list_def wait_list_def)

lemma ecb_upd_simps [os_simps]:
  "OSEcbTbl (ecb_upd e f s) = (OSEcbTbl s)(e := f (OSEcbTbl s e))"
  "OSTCBTbl (ecb_upd e f s) = OSTCBTbl s"
  "OSTCBPrioTbl (ecb_upd e f s) = OSTCBPrioTbl s" "ready_list (ecb_upd e f s) = ready_list s"
  "OSPrioCur (ecb_upd e f s) = OSPrioCur s" "OSTCBCur (ecb_upd e f s) = OSTCBCur s"
  "OSRunning (ecb_upd e f s) = OSRunning s" "OSIntNesting (ecb_upd e f s) = OSIntNesting s"
  "OSLockNesting (ecb_upd e f s) = OSLockNesting s" "OSTCBList (ecb_upd e f s) = OSTCBList s"
  "OSTime (ecb_upd e f s) = OSTime s" "OSTickStepState (ecb_upd e f s) = OSTickStepState s"
  by (simp_all add: ecb_upd_def ready_list_def)

lemma set_ready_simps [os_simps]:
  "ready_list (set_ready l s) = l" "wait_list (set_ready l s) e = wait_list s e"
  "OSTCBTbl (set_ready l s) = OSTCBTbl s" "OSTCBPrioTbl (set_ready l s) = OSTCBPrioTbl s"
  "OSEcbTbl (set_ready l s) = OSEcbTbl s" "OSPrioCur (set_ready l s) = OSPrioCur s"
  "OSTCBCur (set_ready l s) = OSTCBCur s" "OSRunning (set_ready l s) = OSRunning s"
  "OSIntNesting (set_ready l s) = OSIntNesting s" "OSLockNesting (set_ready l s) = OSLockNesting s"
  "OSTCBList (set_ready l s) = OSTCBList s"
  "OSTime (set_ready l s) = OSTime s" "OSTickStepState (set_ready l s) = OSTickStepState s"
  by (simp_all add: set_ready_def ready_list_def wait_list_def)

lemma set_wait_simps [os_simps]:
  "wait_list (set_wait e l s) e' = (if e' = e then l else wait_list s e')"
  "ready_list (set_wait e l s) = ready_list s"
  "OSTCBTbl (set_wait e l s) = OSTCBTbl s" "OSTCBPrioTbl (set_wait e l s) = OSTCBPrioTbl s"
  "OSEventType (OSEcbTbl (set_wait e l s) e') = OSEventType (OSEcbTbl s e')"
  "OSEventPtr (OSEcbTbl (set_wait e l s) e') = OSEventPtr (OSEcbTbl s e')"
  "OSEventCnt (OSEcbTbl (set_wait e l s) e') = OSEventCnt (OSEcbTbl s e')"
  "OSPrioCur (set_wait e l s) = OSPrioCur s" "OSTCBCur (set_wait e l s) = OSTCBCur s"
  "OSRunning (set_wait e l s) = OSRunning s" "OSIntNesting (set_wait e l s) = OSIntNesting s"
  "OSLockNesting (set_wait e l s) = OSLockNesting s" "OSTCBList (set_wait e l s) = OSTCBList s"
  "OSTime (set_wait e l s) = OSTime s" "OSTickStepState (set_wait e l s) = OSTickStepState s"
  by (simp_all add: set_wait_def ecb_upd_def ready_list_def wait_list_def)

section \<open>Tables and lists\<close>

text \<open>Tasks are known by their priorities.\<close>

definition task_at :: "os \<Rightarrow> nat \<Rightarrow> nat \<Rightarrow> bool" where
  "task_at s p t \<longleftrightarrow> p < 32 \<and> OSTCBPrioTbl s ! p = Tcb t"

definition tcb_fields :: "nat \<Rightarrow> tcb \<Rightarrow> bool" where
  "tcb_fields p c \<longleftrightarrow> OSTCBPrio c = of_nat p \<and> OSTCBY c = prio_y p \<and> OSTCBBitX c = prio_bitx p \<and> OSTCBBitY c = prio_bity p"

definition tables_ok :: "os \<Rightarrow> bool" where
  "tables_ok s \<longleftrightarrow> length (OSTCBPrioTbl s) = 32 \<and> (\<forall>p t. task_at s p t \<longrightarrow> tcb_fields p (OSTCBTbl s t))"

abbreviation ready :: "os \<Rightarrow> nat set" where "ready s \<equiv> prios (ready_list s)"
abbreviation waits :: "os \<Rightarrow> nat \<Rightarrow> nat set" where "waits s e \<equiv> prios (wait_list s e)"

definition lists_ok :: "os \<Rightarrow> bool" where
  "lists_ok s \<longleftrightarrow> list_ok (ready_list s) \<and> (\<forall>p \<in> ready s. \<exists>t. task_at s p t)
     \<and> (\<forall>e. list_ok (wait_list s e) \<and> (\<forall>p \<in> waits s e. \<exists>t. task_at s p t))"

lemma task_at_simps [os_simps]:
  "task_at (tcb_upd t f s) p u = task_at s p u" "task_at (ecb_upd e g s) p u = task_at s p u"
  "task_at (set_ready l s) p u = task_at s p u" "task_at (set_wait e l s) p u = task_at s p u"
  by (simp_all add: task_at_def os_simps)

lemma tables_simps [os_simps]:
  "tables_ok (ecb_upd e g s) = tables_ok s" "tables_ok (set_ready l s) = tables_ok s" "tables_ok (set_wait e l s) = tables_ok s"
  by (simp_all add: tables_ok_def os_simps)

lemma tables_upd:
  "tables_ok s \<Longrightarrow> (\<And>q. tcb_fields q (f (OSTCBTbl s t)) = tcb_fields q (OSTCBTbl s t)) \<Longrightarrow> tables_ok (tcb_upd t f s)"
  by (simp add: tables_ok_def os_simps)

lemma unat_prio [simp]: "p < 32 \<Longrightarrow> unat (of_nat p :: u8) = p"
  by (simp add: unat_of_nat take_bit_nat_eq_self)

lemma task_at_fields:
  assumes "tables_ok s" "task_at s p t"
  shows "p < 32" "OSTCBPrio (OSTCBTbl s t) = of_nat p" "OSTCBY (OSTCBTbl s t) = prio_y p"
    "OSTCBBitX (OSTCBTbl s t) = prio_bitx p" "OSTCBBitY (OSTCBTbl s t) = prio_bity p"
  using assms by (auto simp: tables_ok_def tcb_fields_def) (simp add: task_at_def)

lemma task_at_inj: "tables_ok s \<Longrightarrow> task_at s p t \<Longrightarrow> task_at s q t \<Longrightarrow> p = q"
  by (metis task_at_fields(1, 2) unat_prio)

lemma tables_entry: "tables_ok s \<Longrightarrow> task_at s p t \<Longrightarrow> prio_entry s (of_nat p) = Inr (Tcb t)"
  by (simp add: prio_entry_def tables_ok_def task_at_def)

lemma make_ready_ok:
  assumes "tables_ok s" "task_at s p t" "list_ok (ready_list s)" "y = prio_y p"
  shows "\<exists>l. make_ready t y s = Inr (set_ready l s) \<and> list_ok l \<and> prios l = insert p (ready s)"
proof -
  note F = task_at_fields [OF assms(1, 2)]
  from ps.put_ok [OF assms(3) F(1)] obtain l where
    "list_put (prio_y p) (prio_bitx p) (prio_bity p) (ready_list s) = Inr l" "list_ok l" "prios l = insert p (ready s)"
    by blast
  then show ?thesis using F assms(4) by (intro exI [of _ l]) (simp add: make_ready_def)
qed

lemma make_unready_ok:
  assumes "tables_ok s" "task_at s p t" "list_ok (ready_list s)"
  shows "\<exists>l. make_unready t s = Inr (set_ready l s) \<and> list_ok l \<and> prios l = ready s - {p}"
proof -
  note F = task_at_fields [OF assms(1, 2)]
  from ps.clear_ok [OF assms(3) F(1)] obtain l where
    "list_clear (prio_y p) (prio_bitx p) (prio_bity p) (ready_list s) = Inr l" "list_ok l" "prios l = ready s - {p}"
    by blast
  then show ?thesis using F by (intro exI [of _ l]) (simp add: make_unready_def)
qed

lemma task_remove_ok:
  assumes "tables_ok s" "task_at s p t" "list_ok (wait_list s e)"
  shows "\<exists>l. OS_EventTaskRemove t e s = Inr (set_wait e l s) \<and> list_ok l \<and> prios l = waits s e - {p}"
proof -
  note F = task_at_fields [OF assms(1, 2)]
  from ps.clear_ok [OF assms(3) F(1)] obtain l where
    "list_clear (prio_y p) (prio_bitx p) (prio_bity p) (wait_list s e) = Inr l" "list_ok l" "prios l = waits s e - {p}"
    by blast
  then show ?thesis using F by (intro exI [of _ l]) (simp add: OS_EventTaskRemove_def)
qed

section \<open>The scheduler\<close>

text \<open>What a reschedule leaves alone.\<close>

definition sched_frame :: "os \<Rightarrow> os \<Rightarrow> bool" where
  "sched_frame s s' \<longleftrightarrow> ready_list s' = ready_list s \<and> OSEcbTbl s' = OSEcbTbl s \<and> OSTCBPrioTbl s' = OSTCBPrioTbl s
     \<and> (\<forall>t. \<exists>c. OSTCBTbl s' t = (OSTCBTbl s t)\<lparr>OSTCBCtxSwCtr := c\<rparr>) \<and> OSRunning s' = OSRunning s
     \<and> OSIntNesting s' = OSIntNesting s \<and> OSLockNesting s' = OSLockNesting s \<and> OSTCBList s' = OSTCBList s
     \<and> OSQTbl s' = OSQTbl s \<and> cells s' = cells s \<and> OSTime s' = OSTime s
     \<and> OSFlagTbl s' = OSFlagTbl s \<and> flag_nodes s' = flag_nodes s"

text \<open>The current task is the one its priority names.\<close>

definition cur_ok :: "os \<Rightarrow> bool" where
  "cur_ok s \<longleftrightarrow> (\<exists>t. task_at s (unat (OSPrioCur s)) t \<and> OSTCBCur s = Tcb t)"

lemma ready_min:
  assumes "lists_ok s" "ready s \<noteq> {}"
  shows "Min (ready s) \<in> ready s" "\<exists>t. task_at s (Min (ready s)) t"
proof -
  show "Min (ready s) \<in> ready s" using assms(2) by simp
  then show "\<exists>t. task_at s (Min (ready s)) t" using assms(1) by (auto simp: lists_ok_def)
qed

lemma ctx_same: "\<exists>c. x = x\<lparr>OSTCBCtxSwCtr := c\<rparr>"
  by (rule exI [of _ "OSTCBCtxSwCtr x"]) simp

lemma sched_frame_refl [simp]: "sched_frame s s"
  by (simp add: sched_frame_def ctx_same)

lemma reschedule_to:
  assumes "list_ok (ready_list s)" "ready s \<noteq> {}" "prio_entry s (of_nat (Min (ready s))) = Inr (Tcb t)"
    and "unat (OSPrioCur s) = Min (ready s) \<Longrightarrow> OSTCBCur s = Tcb t"
  shows "\<exists>s'. reschedule s = Inr s' \<and> unat (OSPrioCur s') = Min (ready s) \<and> OSTCBCur s' = Tcb t \<and> sched_frame s s'"
proof -
  define m where "m = Min (ready s)"
  have "m \<in> ready s" unfolding m_def using assms(2) by simp
  then have m: "m < 32" by (simp add: prios_def)
  have f: "OS_SchedNew s = Inr (s\<lparr>OSPrioHighRdy := of_nat m\<rparr>)"
    using assms(1, 2) ps.first_ok by (simp add: m_def OS_SchedNew_def)
  have e: "prio_entry (s\<lparr>OSPrioHighRdy := of_nat m\<rparr>) (of_nat m) = Inr (Tcb t)"
    using assms(3) by (simp add: prio_entry_def m_def split: if_splits)
  show ?thesis unfolding m_def [symmetric]
  proof (cases "of_nat m = OSPrioCur s")
    case True
    then have "unat (OSPrioCur s) = m" using m by (metis unat_prio)
    with True assms(4) show "\<exists>s'. reschedule s = Inr s' \<and> unat (OSPrioCur s') = m \<and> OSTCBCur s' = Tcb t \<and> sched_frame s s'"
      by (auto simp: reschedule_def f e [unfolded True] Let_def sched_frame_def ready_list_def ctx_same m_def)
  next
    case False
    define s1 where "s1 = s\<lparr>OSPrioHighRdy := of_nat m, OSTCBHighRdy := Tcb t\<rparr>"
    define s2 where "s2 = tcb_upd t (\<lambda>ptcb. ptcb\<lparr>OSTCBCtxSwCtr := OSTCBCtxSwCtr ptcb + 1\<rparr>) s1"
    define s3 where "s3 = switch (s2\<lparr>OSCtxSwCtr := OSCtxSwCtr s2 + 1\<rparr>)"
    have "OSPrioHighRdy (s\<lparr>OSPrioHighRdy := of_nat m\<rparr>) = of_nat m" "s\<lparr>OSPrioHighRdy := of_nat m\<rparr>\<lparr>OSTCBHighRdy := Tcb t\<rparr> = s1"
      "OSPrioHighRdy s1 = of_nat m" "OSPrioCur s1 = OSPrioCur s" "deref (Tcb t) = Inr t"
      by (simp_all add: s1_def deref_def)
    then have r: "reschedule s = Inr s3"
      using False by (simp only: reschedule_def f e rbind_Inr Let_def s2_def s3_def not_False_eq_True if_True)
    have "OSPrioCur s3 = of_nat m" "OSTCBCur s3 = Tcb t"
      by (simp_all add: s3_def switch_def s2_def s1_def tcb_upd_def)
    moreover have "\<exists>c. OSTCBTbl s3 u = (OSTCBTbl s u)\<lparr>OSTCBCtxSwCtr := c\<rparr>" for u
    proof (cases "u = t")
      case True
      then show ?thesis
        by (intro exI [of _ "OSTCBCtxSwCtr (OSTCBTbl s t) + 1"]) (simp add: s3_def switch_def s2_def s1_def tcb_upd_def)
    qed (simp add: s3_def switch_def s2_def s1_def tcb_upd_def ctx_same)
    then have "sched_frame s s3" unfolding sched_frame_def
      by (simp add: s3_def switch_def s2_def s1_def tcb_upd_def ready_list_def)
    ultimately show "\<exists>s'. reschedule s = Inr s' \<and> unat (OSPrioCur s') = m \<and> OSTCBCur s' = Tcb t \<and> sched_frame s s'"
      using m r by (intro exI [of _ s3]) simp
  qed
qed

lemma reschedule_ok:
  assumes "tables_ok s" "lists_ok s" "ready s \<noteq> {}" "cur_ok s"
  shows "\<exists>s'. reschedule s = Inr s' \<and> unat (OSPrioCur s') = Min (ready s) \<and> cur_ok s' \<and> sched_frame s s'"
proof -
  from ready_min [OF assms(2, 3)] obtain t where t: "task_at s (Min (ready s)) t" by blast
  have "list_ok (ready_list s)" using assms(2) by (simp add: lists_ok_def)
  moreover have "OSTCBCur s = Tcb t" if "unat (OSPrioCur s) = Min (ready s)"
    using assms(4) that t by (auto simp: cur_ok_def task_at_def)
  ultimately obtain s' where s': "reschedule s = Inr s'" "unat (OSPrioCur s') = Min (ready s)" "OSTCBCur s' = Tcb t" "sched_frame s s'"
    using reschedule_to [OF _ assms(3) tables_entry [OF assms(1) t]] by blast
  have "task_at s' (Min (ready s)) t" using t s'(4) by (simp add: task_at_def sched_frame_def)
  with s' show ?thesis by (auto simp: cur_ok_def)
qed

section \<open>The invariant\<close>

text \<open>Where a task stands: in its own code, or behind \<open>OS_Sched\<close> in a pend on an event of a kind.\<close>

datatype kind = SemK | MboxK | QK
datatype pc = Own | InPend kind nat

fun kind_type :: "kind \<Rightarrow> u8" where
  "kind_type SemK = OS_EVENT_TYPE_SEM"
| "kind_type MboxK = OS_EVENT_TYPE_MBOX"
| "kind_type QK = OS_EVENT_TYPE_Q"

fun kind_stat :: "kind \<Rightarrow> u8" where
  "kind_stat SemK = OS_STAT_SEM"
| "kind_stat MboxK = OS_STAT_MBOX"
| "kind_stat QK = OS_STAT_Q"

text \<open>The status byte a task may have: suspended or not, and the bit of the event it pends on.\<close>

fun stat_ok :: "pc \<Rightarrow> u8 \<Rightarrow> bool" where
  "stat_ok Own st = (st = 0 \<or> st = 8)"
| "stat_ok (InPend k e) st = (st = 0 \<or> st = 8 \<or> st = kind_stat k \<or> st = kind_stat k + 8)"

text \<open>A task is ready exactly when nothing holds it: not suspended, not pending, not delayed. While it
  pends it is in the wait list of its event; after a timeout it stays there until it runs.\<close>

fun pend_ok :: "pc \<Rightarrow> tcb \<Rightarrow> nat set \<Rightarrow> bool" where
  "pend_ok Own tcb on = True"
| "pend_ok (InPend k e) tcb on =
     (if OSTCBStat tcb AND kind_stat k \<noteq> 0 then e \<in> on
      else OSTCBDly tcb = 0 \<and> (e \<in> on \<longrightarrow> OSTCBStatPend tcb = OS_STAT_PEND_TO))"

definition task_ok :: "pc \<Rightarrow> nat \<Rightarrow> tcb \<Rightarrow> bool \<Rightarrow> nat set \<Rightarrow> bool" where
  "task_ok c p tcb is_ready on \<longleftrightarrow> stat_ok c (OSTCBStat tcb) \<and> OSTCBEventMultiPtr tcb = None
     \<and> (is_ready \<longleftrightarrow> OSTCBStat tcb = 0 \<and> OSTCBDly tcb = 0)
     \<and> pend_ok c tcb on"

definition events_ok :: "os \<Rightarrow> bool" where
  "events_ok s \<longleftrightarrow> (\<forall>e. OSEventType (OSEcbTbl s e) = OS_EVENT_TYPE_Q \<longrightarrow> (\<exists>q. OSEventPtr (OSEcbTbl s e) = QcbPtr q))"

text \<open>Who waits on an event is inside a pend on it; the idle task is always ready.\<close>

definition waiter_ok :: "os \<Rightarrow> pc \<Rightarrow> nat \<Rightarrow> bool" where
  "waiter_ok s c e \<longleftrightarrow> (\<exists>k. c = InPend k e \<and> OSEventType (OSEcbTbl s e) = kind_type k)"

text \<open>The TCB list: every task, the idle task at the end.\<close>

fun chain :: "(nat \<Rightarrow> tcb) \<Rightarrow> tcb_ref \<Rightarrow> nat list \<Rightarrow> bool" where
  "chain h r [] = (r = NoTcb)"
| "chain h r (t # ts) = (r = Tcb t \<and> chain h (OSTCBNext (h t)) ts)"

lemma tcb_chain_cong: "(\<And>t. OSTCBNext (h' t) = OSTCBNext (h t)) \<Longrightarrow> chain h' r ts = chain h r ts"
  by (induction ts arbitrary: r) simp_all

definition tcb_list :: "os \<Rightarrow> nat list \<Rightarrow> nat \<Rightarrow> bool" where
  "tcb_list s us i \<longleftrightarrow> chain (OSTCBTbl s) (OSTCBList s) (us @ [i]) \<and> length us < OS_MAX_TCBS \<and> task_at s 31 i \<and> distinct us
     \<and> (\<forall>t. t \<in> set us \<longleftrightarrow> (\<exists>p. p \<noteq> 31 \<and> task_at s p t))"

definition kernel_inv :: "os \<Rightarrow> (nat \<Rightarrow> pc) \<Rightarrow> bool" where
  "kernel_inv s pcs \<longleftrightarrow> tables_ok s \<and> lists_ok s \<and> events_ok s \<and> cur_ok s \<and> OSRunning s \<and> (\<exists>us i. tcb_list s us i)
      \<and> 31 \<in> ready s \<and> pcs 31 = Own
     \<and> (\<forall>p t. task_at s p t \<longrightarrow> task_ok (pcs p) p (OSTCBTbl s t) (p \<in> ready s) {e. p \<in> waits s e})
     \<and> (\<forall>p e. p \<in> waits s e \<longrightarrow> waiter_ok s (pcs p) e)"

text \<open>Outside interrupts and with the scheduler unlocked, the highest ready task runs.\<close>

definition scheduled :: "os \<Rightarrow> bool" where
  "scheduled s \<longleftrightarrow> (OSIntNesting s = 0 \<and> OSLockNesting s = 0 \<longrightarrow> unat (OSPrioCur s) = Min (ready s))"

lemma kernel_invD:
  assumes "kernel_inv s pcs"
  shows "tables_ok s" "lists_ok s" "events_ok s" "cur_ok s" "OSRunning s" "31 \<in> ready s" "pcs 31 = Own"
    "list_ok (ready_list s)" "list_ok (wait_list s e)" "ready s \<noteq> {}"
    "task_at s p t \<Longrightarrow> task_ok (pcs p) p (OSTCBTbl s t) (p \<in> ready s) {e. p \<in> waits s e}"
    "p \<in> waits s e \<Longrightarrow> waiter_ok s (pcs p) e"
    "p \<in> ready s \<Longrightarrow> \<exists>t. task_at s p t" "p \<in> waits s e \<Longrightarrow> \<exists>t. task_at s p t"
    "\<exists>us i. tcb_list s us i"
  using assms by (auto simp: kernel_inv_def lists_ok_def)

text \<open>The pattern of every operation: one task changes its control block, its places in the lists and
  where it stands, the others keep theirs.\<close>

lemma kernel_inv_change:
  assumes inv: "kernel_inv s pcs" and at: "task_at s p t"
    and frame: "OSTCBPrioTbl s' = OSTCBPrioTbl s" "OSRunning s'" "OSTCBCur s' = OSTCBCur s" "OSPrioCur s' = OSPrioCur s"
      "OSTCBList s' = OSTCBList s" "OSTCBNext (OSTCBTbl s' t) = OSTCBNext (OSTCBTbl s t)"
      "\<And>u. u \<noteq> t \<Longrightarrow> OSTCBTbl s' u = OSTCBTbl s u" "\<And>q. tcb_fields q (OSTCBTbl s' t) = tcb_fields q (OSTCBTbl s t)"
      "\<And>e. OSEventType (OSEcbTbl s' e) = OSEventType (OSEcbTbl s e)" "\<And>e. OSEventPtr (OSEcbTbl s' e) = OSEventPtr (OSEcbTbl s e)"
    and lists: "list_ok (ready_list s')" "\<And>e. list_ok (wait_list s' e)"
      "\<And>q. q \<noteq> p \<Longrightarrow> q \<in> ready s' \<longleftrightarrow> q \<in> ready s" "\<And>q e. q \<noteq> p \<Longrightarrow> q \<in> waits s' e \<longleftrightarrow> q \<in> waits s e"
    and own: "task_ok c p (OSTCBTbl s' t) (p \<in> ready s') {e. p \<in> waits s' e}"
      "\<And>e. p \<in> waits s' e \<Longrightarrow> waiter_ok s' c e" "p = 31 \<Longrightarrow> p \<in> ready s' \<and> c = Own"
  shows "kernel_inv s' (pcs(p := c))"
proof -
  note I = kernel_invD [OF inv]
  have same: "task_at s' q u \<longleftrightarrow> task_at s q u" for q u using frame(1) by (simp add: task_at_def)
  have tab: "tables_ok s'" unfolding tables_ok_def same
  proof (intro conjI allI impI)
    show "length (OSTCBPrioTbl s') = 32" using I(1) frame(1) by (simp add: tables_ok_def)
    show "tcb_fields q (OSTCBTbl s' u)" if "task_at s q u" for q u
      using I(1) that frame(7) [of u] frame(8) by (cases "u = t") (auto simp: tables_ok_def)
  qed
  have rdy: "\<exists>u. task_at s' q u" if "q \<in> ready s'" for q
    using that lists(3) [of q] I(13) at by (cases "q = p") (auto simp: same)
  have wts: "\<exists>u. task_at s' q u" if "q \<in> waits s' e" for q e
    using that lists(4) [of q e] I(14) at by (cases "q = p") (auto simp: same)
  have li: "lists_ok s'" using lists(1, 2) rdy wts by (auto simp: lists_ok_def)
  have ev: "events_ok s'" using I(3) by (auto simp: events_ok_def frame(9, 10))
  have cu: "cur_ok s'" using I(4) by (simp add: cur_ok_def same frame(3, 4))
  have tk: "task_ok ((pcs(p := c)) q) q (OSTCBTbl s' u) (q \<in> ready s') {e. q \<in> waits s' e}" if "task_at s' q u" for q u
  proof (cases "q = p")
    case True
    with that at same have "u = t" by (simp add: task_at_def)
    with True own(1) show ?thesis by simp
  next
    case False
    with that at same task_at_inj [OF I(1)] have "u \<noteq> t" by metis
    with False that frame(7) [of u] I(11) [of q u] lists(3, 4) [OF False] same show ?thesis by simp
  qed
  have wt: "waiter_ok s' ((pcs(p := c)) q) e" if "q \<in> waits s' e" for q e
    using that lists(4) [of q e] own(2) I(12) [of q e] by (cases "q = p") (auto simp: waiter_ok_def frame(9))
  have idle: "31 \<in> ready s'" "(pcs(p := c)) 31 = Own"
    using own(3) lists(3) [of 31] I(6, 7) by (cases "p = 31", auto)+
  have next_same: "OSTCBNext (OSTCBTbl s' u) = OSTCBNext (OSTCBTbl s u)" for u
    using frame(6) frame(7) [of u] by (cases "u = t") simp_all
  have tl: "\<exists>us i. tcb_list s' us i"
    using I(15) by (simp add: tcb_list_def same frame(5) tcb_chain_cong [OF next_same])
  show ?thesis unfolding kernel_inv_def using tab li ev cu frame(2) tl idle tk wt by blast
qed

lemma kernel_inv_frame:
  assumes "kernel_inv s pcs" "sched_frame s s'" "cur_ok s'"
  shows "kernel_inv s' pcs"
proof -
  have f: "ready_list s' = ready_list s" "OSEcbTbl s' = OSEcbTbl s" "OSTCBPrioTbl s' = OSTCBPrioTbl s" "OSRunning s' = OSRunning s"
      "OSTCBList s' = OSTCBList s"
    and t: "\<exists>c. OSTCBTbl s' t = (OSTCBTbl s t)\<lparr>OSTCBCtxSwCtr := c\<rparr>" for t
    using assms(2) by (auto simp: sched_frame_def)
  have w: "wait_list s' e = wait_list s e" for e using f(2) by (simp add: wait_list_def)
  have tf: "tcb_fields p (OSTCBTbl s' t) = tcb_fields p (OSTCBTbl s t)"
    "task_ok c p (OSTCBTbl s' t) r on = task_ok c p (OSTCBTbl s t) r on" for p t c r on
  proof -
    obtain x where "OSTCBTbl s' t = (OSTCBTbl s t)\<lparr>OSTCBCtxSwCtr := x\<rparr>" using t by blast
    then show "tcb_fields p (OSTCBTbl s' t) = tcb_fields p (OSTCBTbl s t)"
      "task_ok c p (OSTCBTbl s' t) r on = task_ok c p (OSTCBTbl s t) r on"
      by (cases c; simp add: tcb_fields_def task_ok_def)+
  qed
  have "OSTCBNext (OSTCBTbl s' t) = OSTCBNext (OSTCBTbl s t)" for t using t [of t] by auto
  note ch = tcb_chain_cong [OF this]
  show ?thesis using assms(1, 3)
    by (simp add: kernel_inv_def tcb_list_def ch tables_ok_def lists_ok_def events_ok_def waiter_ok_def task_at_def f w tf)
qed

lemma OS_Sched_inv:
  assumes "kernel_inv s pcs"
  shows "\<exists>s'. OS_Sched s = Inr s' \<and> kernel_inv s' pcs \<and> scheduled s' \<and> sched_frame s s'
    \<and> (OSIntNesting s \<noteq> 0 \<or> OSLockNesting s \<noteq> 0 \<longrightarrow> s' = s)"
proof (cases "OSIntNesting s = 0 \<and> OSLockNesting s = 0")
  case True
  note I = kernel_invD [OF assms]
  from reschedule_ok [OF I(1, 2, 10, 4)] obtain s' where
    s': "reschedule s = Inr s'" "unat (OSPrioCur s') = Min (ready s)" "cur_ok s'" "sched_frame s s'" by blast
  have "ready s' = ready s" using s'(4) by (simp add: sched_frame_def)
  with s' True kernel_inv_frame [OF assms s'(4, 3)] show ?thesis by (simp add: OS_Sched_def scheduled_def)
next
  case False
  with assms show ?thesis by (auto simp: OS_Sched_def scheduled_def)
qed

end
