(* ===== verification/Os_Steps.thy ===== *)
theory Os_Steps
  imports Os_Inv
begin

text \<open>
  The operations of the kernel keep its invariant: first the primitives (waking the first waiting task,
  suspending the current one, the end of a delay), then the calls of the interface.
\<close>

lemma kind_type_inj: "kind_type k = kind_type k' \<Longrightarrow> k = k'"
  by (cases k; cases k') simp_all

lemma kernel_inv_upd: "pcs p = c \<Longrightarrow> kernel_inv s (pcs(p := c)) = kernel_inv s pcs"
  by (auto simp: fun_upd_idem)

text \<open>What an operation on the lists and control blocks leaves alone.\<close>

definition same_context :: "os \<Rightarrow> os \<Rightarrow> bool" where
  "same_context s s' \<longleftrightarrow> OSTCBPrioTbl s' = OSTCBPrioTbl s \<and> OSRunning s' = OSRunning s \<and> OSTCBCur s' = OSTCBCur s
     \<and> OSPrioCur s' = OSPrioCur s \<and> OSIntNesting s' = OSIntNesting s \<and> OSLockNesting s' = OSLockNesting s
     \<and> OSTCBList s' = OSTCBList s \<and> OSTime s' = OSTime s \<and> OSTickStepState s' = OSTickStepState s \<and> (\<forall>e. OSEventType (OSEcbTbl s' e) = OSEventType (OSEcbTbl s e)
     \<and> OSEventPtr (OSEcbTbl s' e) = OSEventPtr (OSEcbTbl s e) \<and> OSEventCnt (OSEcbTbl s' e) = OSEventCnt (OSEcbTbl s e))"

section \<open>Waking a task\<close>

lemma task_ok_woken:
  assumes "task_ok (InPend k e) p tcb r on" "m = kind_stat k"
    and "OSTCBStat tcb' = OSTCBStat tcb AND NOT m" "OSTCBDly tcb' = 0" "OSTCBEventMultiPtr tcb' = OSTCBEventMultiPtr tcb"
    and "r' \<longleftrightarrow> (if OSTCBStat tcb' AND 8 = 0 then True else r)" "e \<notin> on'"
  shows "task_ok (InPend k e) p tcb' r' on'"
  using assms by (cases k) (auto simp: task_ok_def split: if_splits)

lemma event_rdy_inv:
  assumes inv: "kernel_inv s pcs" and type: "OSEventType (OSEcbTbl s e) = kind_type k" and ne: "waits s e \<noteq> {}"
  defines "p \<equiv> Min (waits s e)"
  shows "\<exists>s' t. OS_EventTaskRdy e pmsg (kind_stat k) st s = Inr (of_nat p, s') \<and> kernel_inv s' pcs \<and> same_context s s'
    \<and> waits s' e = waits s e - {p} \<and> (\<forall>e'. e' \<noteq> e \<longrightarrow> waits s' e' = waits s e') \<and> task_at s p t \<and> pcs p = InPend k e
    \<and> ready s' = (if OSTCBStat (OSTCBTbl s t) AND 8 = 0 then insert p (ready s) else ready s)
    \<and> OSTCBMsg (OSTCBTbl s' t) = pmsg \<and> OSTCBStatPend (OSTCBTbl s' t) = st
    \<and> (\<forall>u. u \<noteq> t \<longrightarrow> OSTCBTbl s' u = OSTCBTbl s u)"
proof -
  note I = kernel_invD [OF inv]
  have pw: "p \<in> waits s e" unfolding p_def using ne by (intro Min_in ps.finite_elems)
  then obtain t where t: "task_at s p t" using I(14) by blast
  note F = task_at_fields [OF I(1) t]
  obtain k' where "pcs p = InPend k' e" "kind_type k' = kind_type k"
    using I(12) [OF pw] type by (auto simp: waiter_ok_def)
  with kind_type_inj have pc: "pcs p = InPend k e" by blast
  note T = I(11) [OF t]
  define f :: "tcb \<Rightarrow> tcb" where "f = (\<lambda>ptcb. ptcb\<lparr>OSTCBDly := 0, OSTCBMsg := pmsg, OSTCBStat := OSTCBStat ptcb AND NOT (kind_stat k), OSTCBStatPend := st\<rparr>)"
  define s1 where "s1 = tcb_upd t f s"
  have s1: "tables_ok s1" "task_at s1 p t"
    unfolding s1_def by (rule tables_upd [OF I(1)], simp add: tcb_fields_def f_def) (simp add: os_simps t)
  define susp where "susp = (OSTCBStat (OSTCBTbl s t) AND 8 \<noteq> 0)"
  have sub: "OSTCBStat (OSTCBTbl s1 t) AND 8 = OSTCBStat (OSTCBTbl s t) AND 8"
    using T by (cases k) (auto simp: task_ok_def pc s1_def os_simps f_def)
  from make_ready_ok [OF s1, of "prio_y p"] I(8) obtain l where
    l: "make_ready t (prio_y p) s1 = Inr (set_ready l s1)" "list_ok l" "prios l = insert p (ready s)"
    by (auto simp: s1_def os_simps)
  define s2 where "s2 = (if susp then s1 else set_ready l s1)"
  have s2: "tables_ok s2" "task_at s2 p t" "list_ok (wait_list s2 e)"
    using s1 I(9) [of e] by (simp_all add: s2_def os_simps) (simp add: s1_def os_simps)
  from task_remove_ok [OF s2] obtain w where
    w: "OS_EventTaskRemove t e s2 = Inr (set_wait e w s2)" "list_ok w" "prios w = waits s e - {p}"
    by (auto simp: s2_def s1_def os_simps split: if_splits)
  define s3 where "s3 = set_wait e w s2"
  have first: "list_first (wait_list s e) = Inr (of_nat p)" "OSUnMapTbl ! unat (OSEventGrp (OSEcbTbl s e)) = prio_y p"
    using list_first_prios [OF I(9) ne] by (simp_all add: p_def wait_list_def)
  have multi: "OSTCBEventMultiPtr (OSTCBTbl s3 t) = None"
    using T by (auto simp: s3_def s2_def s1_def os_simps f_def task_ok_def)
  have if2: "OSTCBStat (OSTCBTbl s1 t) AND 8 = 0 \<Longrightarrow> make_ready t (prio_y p) s1 = Inr s2"
    "OSTCBStat (OSTCBTbl s1 t) AND 8 \<noteq> 0 \<Longrightarrow> OS_EventTaskRemove t e s1 = OS_EventTaskRemove t e s2"
    using l(1) by (simp_all add: s2_def susp_def sub)
  have run: "OS_EventTaskRdy e pmsg (kind_stat k) st s = Inr (of_nat p, s3)"
    unfolding OS_EventTaskRdy_def Let_def first rbind_Inr tables_entry [OF I(1) t] f_def [symmetric]
    by (simp add: deref_def s1_def [symmetric] if2 w(1) s3_def [symmetric] multi)
  have own: "OSTCBTbl s3 t = f (OSTCBTbl s t)" "\<And>u. u \<noteq> t \<Longrightarrow> OSTCBTbl s3 u = OSTCBTbl s u"
    by (auto simp: s3_def s2_def s1_def os_simps)
  have rd: "ready s3 = (if susp then ready s else insert p (ready s))"
    by (simp add: s3_def s2_def s1_def os_simps l(3))
  have wt: "waits s3 e = waits s e - {p}" "e' \<noteq> e \<Longrightarrow> waits s3 e' = waits s e'" for e'
    by (simp_all add: s3_def s2_def s1_def os_simps w(3))
  have ctx: "same_context s s3" by (simp add: same_context_def s3_def s2_def s1_def os_simps)
  have tok: "task_ok (InPend k e) p (OSTCBTbl s3 t) (p \<in> ready s3) {e'. p \<in> waits s3 e'}"
  proof (rule task_ok_woken [OF T [unfolded pc] refl])
    show "p \<in> ready s3 \<longleftrightarrow> (if OSTCBStat (OSTCBTbl s3 t) AND 8 = 0 then True else p \<in> ready s)"
      using sub own(1) rd by (auto simp: susp_def s1_def os_simps)
  qed (simp_all add: own(1) f_def wt)
  have no: "\<not> p \<in> waits s3 e'" for e'
    using wt(1) wt(2) [of e'] I(12) [of p e'] pc by (cases "e' = e") (auto simp: waiter_ok_def)
  have "kernel_inv s3 (pcs(p := InPend k e))"
  proof (rule kernel_inv_change [OF inv t])
    show "list_ok (ready_list s3)" using l(2) I(8) by (simp add: s3_def s2_def s1_def os_simps)
    show "list_ok (wait_list s3 e')" for e' using w(2) I(9) by (simp add: s3_def s2_def s1_def os_simps)
    show "q \<in> waits s3 e' \<longleftrightarrow> q \<in> waits s e'" if "q \<noteq> p" for q e' using wt that by (cases "e' = e") auto
  qed (use ctx no tok own rd I(5, 7) pc in \<open>auto simp: same_context_def f_def tcb_fields_def\<close>)
  then have "kernel_inv s3 pcs" using pc by (simp add: fun_upd_idem)
  with run ctx wt t pc rd own show ?thesis
    by (intro exI [of _ s3] exI [of _ t]) (auto simp: susp_def f_def)
qed

end
