(* ===== verification/Os_Calls.thy ===== *)
theory Os_Calls
  imports Os_Steps
begin

text \<open>
  Suspending and resuming the current task: \<open>pend_wait\<close>, \<open>pend_resume\<close>, \<open>OSTimeDly\<close>, \<open>OSTaskSuspend\<close>,
  \<open>OSTaskResume\<close> and the end of a delay keep the invariant of the kernel.
\<close>

text \<open>The current task, when the scheduler is free to run.\<close>

lemma current_task:
  assumes "kernel_inv s pcs" "cur = unat (OSPrioCur s)"
  obtains t where "task_at s cur t" "OSTCBCur s = Tcb t"
  using kernel_invD(4) [OF assms(1)] assms(2) by (auto simp: cur_ok_def)

lemma current_ready:
  assumes "kernel_inv s pcs" "scheduled s" "OSIntNesting s = 0" "OSLockNesting s = 0"
  shows "unat (OSPrioCur s) \<in> ready s"
  using assms kernel_invD(10) [OF assms(1)] by (simp add: scheduled_def)

section \<open>Waiting on an event\<close>

lemma pend_wait_inv:
  assumes inv: "kernel_inv s pcs" and sch: "scheduled s" and free: "OSIntNesting s = 0" "OSLockNesting s = 0"
    and type: "OSEventType (OSEcbTbl s e) = kind_type k"
  defines "cur \<equiv> unat (OSPrioCur s)"
  assumes own: "pcs cur = Own" and idle: "cur \<noteq> 31"
  shows "\<exists>s'. pend_wait (kind_stat k) timeout e s = Inr s' \<and> kernel_inv s' (pcs(cur := InPend k e)) \<and> scheduled s'"
proof -
  note I = kernel_invD [OF inv]
  obtain t where t: "task_at s cur t" "OSTCBCur s = Tcb t" using current_task [OF inv] cur_def by blast
  note F = task_at_fields [OF I(1) t(1)]
  have "cur \<in> ready s" unfolding cur_def by (rule current_ready [OF inv sch free])
  with I(11) [OF t(1)] have st: "OSTCBStat (OSTCBTbl s t) = 0" "OSTCBDly (OSTCBTbl s t) = 0"
    "OSTCBEventMultiPtr (OSTCBTbl s t) = None"
    by (auto simp: task_ok_def)
  define f :: "tcb \<Rightarrow> tcb" where "f = (\<lambda>ptcb. ptcb\<lparr>OSTCBStat := OSTCBStat ptcb OR kind_stat k, OSTCBStatPend := OS_STAT_PEND_OK,
           OSTCBDly := timeout\<rparr>)"
  define g :: "tcb \<Rightarrow> tcb" where "g = (\<lambda>ptcb. ptcb\<lparr>OSTCBEventPtr := Some e\<rparr>)"
  define s1 where "s1 = tcb_upd t g (tcb_upd t f s)"
  have ftcb: "OSTCBTbl s1 t = g (f (OSTCBTbl s t))" by (simp add: s1_def os_simps)
  have flds: "tcb_fields q (g (f c)) = tcb_fields q c" for q c by (simp add: f_def g_def tcb_fields_def)
  have s1: "tables_ok s1" "task_at s1 cur t"
    unfolding s1_def by (intro tables_upd I(1); simp add: tcb_fields_def f_def g_def) (simp add: os_simps t)
  from ps.put_ok [OF I(9) F(1), of e] obtain w where
    w: "list_put (prio_y cur) (prio_bitx cur) (prio_bity cur) (wait_list s e) = Inr w" "list_ok w"
      "prios w = insert cur (waits s e)" by blast
  define s2 where "s2 = set_wait e w s1"
  have s2: "tables_ok s2" "task_at s2 cur t" "list_ok (ready_list s2)"
    using s1 I(8) by (simp_all add: s2_def os_simps) (simp add: s1_def os_simps)
  from make_unready_ok [OF s2] obtain l where
    l: "make_unready t s2 = Inr (set_ready l s2)" "list_ok l" "prios l = ready s - {cur}"
    by (auto simp: s2_def s1_def os_simps)
  define s3 where "s3 = set_ready l s2"
  have "OSTCBCur (tcb_upd t f s) = Tcb t" "wait_list s1 e = wait_list s e"
    using t(2) by (simp_all add: s1_def os_simps)
  then have "OS_EventTaskWait e (tcb_upd t f s) = Inr s3"
    unfolding OS_EventTaskWait_def using task_at_fields [OF s1] w(1) l(1)
    by (simp add: deref_def g_def [symmetric] s1_def [symmetric] Let_def s2_def [symmetric] s3_def [symmetric])
  then have run: "pend_wait (kind_stat k) timeout e s = OS_Sched s3"
    unfolding pend_wait_def using t(2) by (simp add: deref_def f_def [symmetric] Let_def)
  have own3: "OSTCBTbl s3 t = g (f (OSTCBTbl s t))" "\<And>u. u \<noteq> t \<Longrightarrow> OSTCBTbl s3 u = OSTCBTbl s u"
    by (auto simp: s3_def s2_def s1_def os_simps)
  have rd: "ready s3 = ready s - {cur}" and wt: "waits s3 e' = (if e' = e then insert cur (waits s e) else waits s e')" for e'
    by (simp_all add: s3_def s2_def s1_def os_simps l(3) w(3))
  have ctx: "same_context s s3" by (simp add: same_context_def s3_def s2_def s1_def os_simps)
  have no: "cur \<notin> waits s e'" for e' using I(12) [of cur e'] own by (auto simp: waiter_ok_def)
  have "kernel_inv s3 (pcs(cur := InPend k e))"
  proof (rule kernel_inv_change [OF inv t(1)])
    show "list_ok (ready_list s3)" using l(2) by (simp add: s3_def os_simps)
    show "list_ok (wait_list s3 e')" for e' using w(2) I(9) by (simp add: s3_def s2_def s1_def os_simps)
    show "task_ok (InPend k e) cur (OSTCBTbl s3 t) (cur \<in> ready s3) {e'. cur \<in> waits s3 e'}"
      using st by (cases k) (auto simp: task_ok_def own3 f_def g_def rd wt)
    show "waiter_ok s3 (InPend k e) e'" if "cur \<in> waits s3 e'" for e'
      using that no [of e'] wt [of e'] ctx type by (auto simp: waiter_ok_def same_context_def split: if_splits)
  qed (use ctx own3 rd wt I(5) idle in \<open>auto simp: same_context_def f_def g_def tcb_fields_def\<close>)
  from OS_Sched_inv [OF this] run show ?thesis by auto
qed

section \<open>Back from waiting\<close>

lemma pend_resume_inv:
  assumes inv: "kernel_inv s pcs" and sch: "scheduled s" and free: "OSIntNesting s = 0" "OSLockNesting s = 0"
  defines "cur \<equiv> unat (OSPrioCur s)"
  assumes own: "pcs cur = InPend k e"
  shows "\<exists>r s'. pend_resume e s = Inr (r, s') \<and> kernel_inv s' (pcs(cur := Own)) \<and> scheduled s'"
proof -
  note I = kernel_invD [OF inv]
  obtain t where t: "task_at s cur t" "OSTCBCur s = Tcb t" using current_task [OF inv] cur_def by blast
  have cr: "cur \<in> ready s" unfolding cur_def by (rule current_ready [OF inv sch free])
  with I(11) [OF t(1)] own have st: "OSTCBStat (OSTCBTbl s t) = 0" "OSTCBDly (OSTCBTbl s t) = 0"
    "cur \<in> waits s e \<Longrightarrow> OSTCBStatPend (OSTCBTbl s t) = OS_STAT_PEND_TO"
    by (auto simp: task_ok_def)
  have no: "e' \<noteq> e \<Longrightarrow> cur \<notin> waits s e'" for e' using I(12) [of cur e'] own by (auto simp: waiter_ok_def)
  from task_remove_ok [OF I(1) t(1) I(9), of e] obtain w where
    w: "OS_EventTaskRemove t e s = Inr (set_wait e w s)" "list_ok w" "prios w = waits s e - {cur}" by blast
  let ?pend = "OSTCBStatPend (OSTCBTbl s t)"
  define s1 where "s1 = (if ?pend = OS_STAT_PEND_OK \<or> ?pend = OS_STAT_PEND_ABORT then s else set_wait e w s)"
  define f :: "tcb \<Rightarrow> tcb" where "f = (\<lambda>ptcb. ptcb\<lparr>OSTCBStat := OS_STAT_RDY, OSTCBStatPend := OS_STAT_PEND_OK,
          OSTCBEventPtr := None, OSTCBEventMultiPtr := None\<rparr>)"
  define s2 where "s2 = tcb_upd t f s1"
  have run: "\<exists>r. pend_resume e s = Inr (r, s2)"
    unfolding pend_resume_def using t(2) w(1)
    by (auto simp: deref_def Let_def f_def [symmetric] s2_def s1_def)
  have rd: "ready s2 = ready s" and wt: "q \<noteq> cur \<Longrightarrow> q \<in> waits s2 e' \<longleftrightarrow> q \<in> waits s e'"
    and out: "cur \<notin> waits s2 e'" for q e'
    using no [of e'] st(3) by (auto simp: s2_def s1_def os_simps w(3))
  have ctx: "same_context s s2" by (simp add: same_context_def s2_def s1_def os_simps)
  have own2: "OSTCBTbl s2 t = f (OSTCBTbl s t)" "\<And>u. u \<noteq> t \<Longrightarrow> OSTCBTbl s2 u = OSTCBTbl s u"
    by (auto simp: s2_def s1_def os_simps)
  have k2: "kernel_inv s2 (pcs(cur := Own))"
  proof (rule kernel_inv_change [OF inv t(1)])
    show "list_ok (ready_list s2)" using I(8) by (simp add: s2_def s1_def os_simps)
    show "list_ok (wait_list s2 e')" for e' using w(2) I(9) by (simp add: s2_def s1_def os_simps)
    show "task_ok Own cur (OSTCBTbl s2 t) (cur \<in> ready s2) {e'. cur \<in> waits s2 e'}"
      using cr st by (simp add: task_ok_def own2 f_def rd)
  qed (use ctx own2 rd wt out I(5) cr in \<open>auto simp: same_context_def f_def tcb_fields_def\<close>)
  have "scheduled s2" using sch ctx rd by (simp add: scheduled_def same_context_def)
  with run k2 show ?thesis by blast
qed

section \<open>One task and the ready list\<close>

lemma kernel_inv_task:
  assumes inv: "kernel_inv s pcs" and t: "task_at s p t"
    and keep: "\<And>q. tcb_fields q (f (OSTCBTbl s t)) = tcb_fields q (OSTCBTbl s t)"
      "OSTCBNext (f (OSTCBTbl s t)) = OSTCBNext (OSTCBTbl s t)"
    and l: "list_ok l" "\<And>q. q \<noteq> p \<Longrightarrow> q \<in> prios l \<longleftrightarrow> q \<in> ready s"
    and ok: "task_ok (pcs p) p (f (OSTCBTbl s t)) (p \<in> prios l) {e. p \<in> waits s e}" "p = 31 \<Longrightarrow> p \<in> prios l"
  shows "kernel_inv (tcb_upd t f (set_ready l s)) pcs" "kernel_inv (set_ready l (tcb_upd t f s)) pcs"
    "set_ready l (tcb_upd t f s) = tcb_upd t f (set_ready l s)"
proof -
  note I = kernel_invD [OF inv]
  let ?s = "tcb_upd t f (set_ready l s)"
  have "kernel_inv ?s (pcs(p := pcs p))"
    by (rule kernel_inv_change [OF inv t])
       (use l ok keep I(5, 7, 9, 12) in \<open>auto simp: os_simps waiter_ok_def\<close>)
  then show k: "kernel_inv ?s pcs" by simp
  show c: "set_ready l (tcb_upd t f s) = ?s" by (simp add: set_ready_def tcb_upd_def)
  show "kernel_inv (set_ready l (tcb_upd t f s)) pcs" unfolding c by (rule k)
qed

lemma set_ready_same [simp]: "set_ready (ready_list s) s = s"
  by (simp add: set_ready_def ready_list_def)

text \<open>Its instances: the control block alone, the task made ready, the task made unready.\<close>

lemma tcb_upd_inv:
  assumes "kernel_inv s pcs" "task_at s p t"
    and "\<And>q. tcb_fields q (f (OSTCBTbl s t)) = tcb_fields q (OSTCBTbl s t)"
      "OSTCBNext (f (OSTCBTbl s t)) = OSTCBNext (OSTCBTbl s t)"
    and "task_ok (pcs p) p (f (OSTCBTbl s t)) (p \<in> ready s) {e. p \<in> waits s e}"
  shows "kernel_inv (tcb_upd t f s) pcs"
  using kernel_inv_task(1) [where f = f and l = "ready_list s", OF assms(1-4)] assms(5) kernel_invD(6, 8) [OF assms(1)] by simp

lemma tcb_ready_inv:
  assumes inv: "kernel_inv s pcs" and t: "task_at s p t"
    and keep: "\<And>q. tcb_fields q (f (OSTCBTbl s t)) = tcb_fields q (OSTCBTbl s t)"
      "OSTCBNext (f (OSTCBTbl s t)) = OSTCBNext (OSTCBTbl s t)"
    and ok: "task_ok (pcs p) p (f (OSTCBTbl s t)) True {e. p \<in> waits s e}"
  defines "s1 \<equiv> tcb_upd t f s"
  shows "\<exists>l. make_ready t (OSTCBY (OSTCBTbl s1 t)) s1 = Inr (set_ready l s1) \<and> kernel_inv (set_ready l s1) pcs
    \<and> prios l = insert p (ready s)"
proof -
  note I = kernel_invD [OF inv]
  have s1: "tables_ok s1" "task_at s1 p t" unfolding s1_def by (intro tables_upd I(1) keep) (simp add: os_simps t)
  from make_ready_ok [OF s1 _ task_at_fields(3) [OF s1]] I(8) obtain l where
    l: "make_ready t (OSTCBY (OSTCBTbl s1 t)) s1 = Inr (set_ready l s1)" "list_ok l" "prios l = insert p (ready s)"
    by (auto simp: s1_def os_simps)
  have "kernel_inv (set_ready l s1) pcs" unfolding s1_def
    by (rule kernel_inv_task(2) [where f = f, OF inv t keep l(2)]) (use ok l(3) in auto)
  with l show ?thesis by blast
qed

lemma tcb_unready_inv:
  assumes inv: "kernel_inv s pcs" and t: "task_at s p t" and "p \<noteq> 31"
    and keep: "\<And>q. tcb_fields q (f (OSTCBTbl s t)) = tcb_fields q (OSTCBTbl s t)"
      "OSTCBNext (f (OSTCBTbl s t)) = OSTCBNext (OSTCBTbl s t)"
    and ok: "task_ok (pcs p) p (f (OSTCBTbl s t)) False {e. p \<in> waits s e}"
  shows "\<exists>l. make_unready t s = Inr (set_ready l s) \<and> kernel_inv (tcb_upd t f (set_ready l s)) pcs \<and> prios l = ready s - {p}"
proof -
  note I = kernel_invD [OF inv]
  from make_unready_ok [OF I(1) t I(8)] obtain l where
    l: "make_unready t s = Inr (set_ready l s)" "list_ok l" "prios l = ready s - {p}" by blast
  have "kernel_inv (tcb_upd t f (set_ready l s)) pcs"
    by (rule kernel_inv_task(1) [where f = f, OF inv t keep l(2)]) (use ok l(3) assms(3) in auto)
  with l show ?thesis by blast
qed

section \<open>Suspension and delays\<close>

lemma OSTimeDly_inv:
  assumes inv: "kernel_inv s pcs" and sch: "scheduled s" and own: "pcs (unat (OSPrioCur s)) = Own"
    and idle: "unat (OSPrioCur s) \<noteq> 31"
  shows "\<exists>s'. OSTimeDly ticks s = Inr s' \<and> kernel_inv s' pcs \<and> scheduled s'"
proof (cases "OSIntNesting s > 0 \<or> ticks = 0")
  case True
  then show ?thesis using inv sch by (auto simp: OSTimeDly_def)
next
  case False
  obtain t where t: "task_at s (unat (OSPrioCur s)) t" "OSTCBCur s = Tcb t" using current_task [OF inv refl] by blast
  let ?f = "\<lambda>ptcb. ptcb\<lparr>OSTCBDly := ticks\<rparr>"
  have "\<exists>l. make_unready t s = Inr (set_ready l s) \<and> kernel_inv (tcb_upd t ?f (set_ready l s)) pcs
      \<and> prios l = ready s - {unat (OSPrioCur s)}"
  proof (rule tcb_unready_inv [OF inv t(1) idle])
    show "task_ok (pcs (unat (OSPrioCur s))) (unat (OSPrioCur s)) (?f (OSTCBTbl s t)) False {e. unat (OSPrioCur s) \<in> waits s e}"
      using kernel_invD(11) [OF inv t(1)] False own by (auto simp: task_ok_def)
  qed (simp_all add: tcb_fields_def)
  then obtain l where l: "make_unready t s = Inr (set_ready l s)" "kernel_inv (tcb_upd t ?f (set_ready l s)) pcs" by blast
  have "0 < ticks" using False by (simp add: word_gt_0)
  with OS_Sched_inv [OF l(2)] l(1) t(2) False show ?thesis by (auto simp: OSTimeDly_def deref_def)
qed

lemma Min_remove_other:
  assumes "finite A" "A \<noteq> {}" "Min A = m" "q \<noteq> m"
  shows "m = Min (A - {q})"
proof -
  have "m \<in> A" using Min_in [OF assms(1, 2)] assms(3) by simp
  with assms show ?thesis by (intro Min_eqI [symmetric]) auto
qed

lemma OSTaskSuspend_inv:
  assumes inv: "kernel_inv s pcs" and sch: "scheduled s"
    and idle: "prio = OS_PRIO_SELF \<Longrightarrow> unat (OSPrioCur s) \<noteq> 31"
  shows "\<exists>err s'. OSTaskSuspend prio s = Inr (err, s') \<and> kernel_inv s' pcs \<and> scheduled s'"
proof -
  note I = kernel_invD [OF inv]
  obtain c where c: "task_at s (unat (OSPrioCur s)) c" "OSTCBCur s = Tcb c" using current_task [OF inv refl] by blast
  define q where "q = (if prio = OS_PRIO_SELF then OSTCBPrio (OSTCBTbl s c) else prio)"
  have cp: "OSTCBPrio (OSTCBTbl s c) = OSPrioCur s"
    using task_at_fields(2) [OF I(1) c(1)] by simp
  show ?thesis
  proof (cases "prio = OS_TASK_IDLE_PRIO \<or> (prio \<ge> OS_LOWEST_PRIO \<and> prio \<noteq> OS_PRIO_SELF)")
    case True
    then show ?thesis using inv sch by (auto simp: OSTaskSuspend_def)
  next
    case False
    have q: "unat q < 31"
    proof (cases "prio = OS_PRIO_SELF")
      case True
      then show ?thesis using idle c(1) by (simp add: q_def cp task_at_def)
    qed (use False in \<open>simp add: q_def word_le_nat_alt\<close>)
    have e: "prio_entry s q = Inr (OSTCBPrioTbl s ! unat q)"
      using q I(1) by (simp add: prio_entry_def tables_ok_def)
    define self where "self = (prio = OS_PRIO_SELF \<or> prio = OSTCBPrio (OSTCBTbl s c))"
    have unf: "OSTaskSuspend prio s = (case OSTCBPrioTbl s ! unat q of
             NoTcb \<Rightarrow> Inr (OS_ERR_TASK_SUSPEND_PRIO, s)
           | Reserved \<Rightarrow> Inr (OS_ERR_TASK_NOT_EXIST, s)
           | Tcb t \<Rightarrow>
               rbind (make_unready t s) (\<lambda>s.
               let s = tcb_upd t (\<lambda>ptcb. ptcb\<lparr>OSTCBStat := OSTCBStat ptcb OR OS_STAT_SUSPEND\<rparr>) s
               in if self then rbind (OS_Sched s) (\<lambda>s. Inr (OS_ERR_NONE, s)) else Inr (OS_ERR_NONE, s)))"
    proof -
      have F: "prio \<noteq> OS_TASK_IDLE_PRIO" "\<not> (prio \<ge> OS_LOWEST_PRIO \<and> prio \<noteq> OS_PRIO_SELF)" using False by auto
      show ?thesis unfolding OSTaskSuspend_def Let_def c(2) deref_def tcb_ref.case rbind_Inr if_not_P [OF F(1)] if_not_P [OF F(2)]
          q_def [symmetric] self_def [symmetric] e ..
    qed
    show ?thesis
    proof (cases "OSTCBPrioTbl s ! unat q")
      case (Tcb t)
      then have t: "task_at s (unat q) t" using q by (simp add: task_at_def)
      let ?f = "\<lambda>ptcb. ptcb\<lparr>OSTCBStat := OSTCBStat ptcb OR OS_STAT_SUSPEND\<rparr>"
      have "\<exists>l. make_unready t s = Inr (set_ready l s) \<and> kernel_inv (tcb_upd t ?f (set_ready l s)) pcs
          \<and> prios l = ready s - {unat q}"
      proof (rule tcb_unready_inv [OF inv t])
        show "task_ok (pcs (unat q)) (unat q) (?f (OSTCBTbl s t)) False {e. unat q \<in> waits s e}"
        proof (cases "pcs (unat q)")
          case Own
          then show ?thesis using I(11) [OF t] by (auto simp: task_ok_def)
        next
          case (InPend k e)
          then show ?thesis using I(11) [OF t] by (cases k) (auto simp: task_ok_def split: if_splits)
        qed
      qed (use q in \<open>simp_all add: tcb_fields_def\<close>)
      then obtain l where l: "make_unready t s = Inr (set_ready l s)" "kernel_inv (tcb_upd t ?f (set_ready l s)) pcs"
        "prios l = ready s - {unat q}" by blast
      show ?thesis
      proof (cases self)
        case True
        with OS_Sched_inv [OF l(2)] l(1) Tcb show ?thesis by (auto simp: unf)
      next
        case False
        then have "unat q \<noteq> unat (OSPrioCur s)" by (simp add: self_def q_def cp word_unat_eq_iff)
        then have "scheduled (tcb_upd t ?f (set_ready l s))"
          using sch I(10) by (auto simp: scheduled_def os_simps l(3) intro!: Min_remove_other)
        with l False Tcb show ?thesis by (auto simp: unf)
      qed
    qed (use inv sch in \<open>simp_all add: unf\<close>)
  qed
qed

text \<open>Two changes of one control block; the end of a delay as such a change.\<close>

lemma tcb_upd_twice: "tcb_upd t f (tcb_upd t g s) = tcb_upd t (\<lambda>c. f (g c)) s"
  by (simp add: tcb_upd_def)

definition delay_over :: "tcb \<Rightarrow> tcb" where
  "delay_over ptcb = (if OSTCBStat ptcb AND OS_STAT_PEND_ANY \<noteq> OS_STAT_RDY
     then ptcb\<lparr>OSTCBStat := OSTCBStat ptcb AND NOT OS_STAT_PEND_ANY, OSTCBStatPend := OS_STAT_PEND_TO\<rparr>
     else ptcb\<lparr>OSTCBStatPend := OS_STAT_PEND_OK\<rparr>)"

lemma end_delay_upd: "end_delay t s = tcb_upd t delay_over s"
  by (simp add: end_delay_def tcb_upd_def delay_over_def)

lemma delay_over_fields [simp]:
  "tcb_fields q (delay_over c) = tcb_fields q c" "OSTCBNext (delay_over c) = OSTCBNext c" "OSTCBDly (delay_over c) = OSTCBDly c"
  by (simp_all add: delay_over_def tcb_fields_def)

text \<open>A task whose delay runs out: ready unless it is suspended.\<close>

lemma task_ok_delay_over:
  assumes "task_ok c p tcb r on" "OSTCBDly tcb \<noteq> 0"
  defines "tcb' \<equiv> delay_over (tcb\<lparr>OSTCBDly := 0\<rparr>)"
  shows "task_ok c p tcb' (OSTCBStat tcb' AND 8 = 0) on" "\<not> r"
    "OSTCBStat tcb' AND 8 = OSTCBStat tcb AND 8"
proof -
  have "task_ok c p tcb' (OSTCBStat tcb' AND 8 = 0) on \<and> OSTCBStat tcb' AND 8 = OSTCBStat tcb AND 8"
  proof (cases c)
    case Own
    then show ?thesis using assms by (auto simp: task_ok_def delay_over_def)
  next
    case (InPend k e)
    then show ?thesis using assms by (cases k) (auto simp: task_ok_def delay_over_def)
  qed
  then show "task_ok c p tcb' (OSTCBStat tcb' AND 8 = 0) on" "OSTCBStat tcb' AND 8 = OSTCBStat tcb AND 8" by auto
  show "\<not> r" using assms by (auto simp: task_ok_def)
qed

lemma delay_over_inv:
  assumes inv: "kernel_inv s pcs" and t: "task_at s p t" and d: "OSTCBDly (OSTCBTbl s t) \<noteq> 0"
  defines "s1 \<equiv> tcb_upd t (\<lambda>c. delay_over (c\<lparr>OSTCBDly := 0\<rparr>)) s"
  shows "OSTCBStat (OSTCBTbl s1 t) AND 8 = OSTCBStat (OSTCBTbl s t) AND 8"
    "OSTCBStat (OSTCBTbl s t) AND 8 = 0 \<Longrightarrow> \<exists>l. make_ready t (OSTCBY (OSTCBTbl s1 t)) s1 = Inr (set_ready l s1)
      \<and> kernel_inv (set_ready l s1) pcs \<and> prios l = insert p (ready s)"
    "OSTCBStat (OSTCBTbl s t) AND 8 \<noteq> 0 \<Longrightarrow> kernel_inv s1 pcs"
proof -
  note D = task_ok_delay_over [OF kernel_invD(11) [OF inv t] d]
  let ?f = "\<lambda>c. delay_over (c\<lparr>OSTCBDly := 0\<rparr>)"
  have keep: "tcb_fields q (?f (OSTCBTbl s t)) = tcb_fields q (OSTCBTbl s t)"
    "OSTCBNext (?f (OSTCBTbl s t)) = OSTCBNext (OSTCBTbl s t)" for q
    by (simp, simp add: tcb_fields_def) simp
  show st: "OSTCBStat (OSTCBTbl s1 t) AND 8 = OSTCBStat (OSTCBTbl s t) AND 8"
    using D(3) by (simp add: s1_def os_simps)
  show "OSTCBStat (OSTCBTbl s t) AND 8 = 0 \<Longrightarrow> \<exists>l. make_ready t (OSTCBY (OSTCBTbl s1 t)) s1 = Inr (set_ready l s1)
      \<and> kernel_inv (set_ready l s1) pcs \<and> prios l = insert p (ready s)"
    unfolding s1_def by (rule tcb_ready_inv [where f = ?f, OF inv t keep]) (use D in simp)
  show "OSTCBStat (OSTCBTbl s t) AND 8 \<noteq> 0 \<Longrightarrow> kernel_inv s1 pcs"
    unfolding s1_def by (rule tcb_upd_inv [where f = ?f, OF inv t keep]) (use D in simp)
qed

lemma OSTimeDlyResume_inv:
  assumes inv: "kernel_inv s pcs" and sch: "scheduled s"
  shows "\<exists>err s'. OSTimeDlyResume prio s = Inr (err, s') \<and> kernel_inv s' pcs \<and> scheduled s'"
proof (cases "prio \<ge> OS_LOWEST_PRIO")
  case True
  then show ?thesis using inv sch by (simp add: OSTimeDlyResume_def)
next
  case False
  note I = kernel_invD [OF inv]
  have q: "unat prio < 31" using False by (simp add: word_le_nat_alt)
  then have e: "prio_entry s prio = Inr (OSTCBPrioTbl s ! unat prio)"
    using I(1) by (simp add: prio_entry_def tables_ok_def)
  show ?thesis
  proof (cases "OSTCBPrioTbl s ! unat prio")
    case (Tcb t)
    then have t: "task_at s (unat prio) t" using q by (simp add: task_at_def)
    show ?thesis
    proof (cases "OSTCBDly (OSTCBTbl s t) = 0")
      case True
      then show ?thesis using inv sch False e Tcb by (simp add: OSTimeDlyResume_def)
    next
      case d: False
      note D = delay_over_inv [OF inv t d]
      define s1 where "s1 = tcb_upd t (\<lambda>c. delay_over (c\<lparr>OSTCBDly := 0\<rparr>)) s"
      have run: "OSTimeDlyResume prio s = (if OSTCBStat (OSTCBTbl s1 t) AND OS_STAT_SUSPEND = OS_STAT_RDY then
                   rbind (make_ready t (OSTCBY (OSTCBTbl s1 t)) s1) (\<lambda>s. rbind (OS_Sched s) (\<lambda>s. Inr (OS_ERR_NONE, s)))
                 else Inr (OS_ERR_NONE, s1))"
        using False e Tcb d by (simp add: OSTimeDlyResume_def end_delay_upd tcb_upd_twice Let_def s1_def)
      show ?thesis
      proof (cases "OSTCBStat (OSTCBTbl s t) AND 8 = 0")
        case True
        with D(2) obtain l where l: "make_ready t (OSTCBY (OSTCBTbl s1 t)) s1 = Inr (set_ready l s1)"
          "kernel_inv (set_ready l s1) pcs" unfolding s1_def by blast
        from OS_Sched_inv [OF l(2)] l(1) True D(1) show ?thesis by (auto simp: run s1_def)
      next
        case susp: False
        have "scheduled s1" using sch by (simp add: scheduled_def s1_def os_simps)
        with D(1, 3) susp show ?thesis by (simp add: run s1_def)
      qed
    qed
  qed (use inv sch False e in \<open>simp_all add: OSTimeDlyResume_def\<close>)
qed

lemma OSTaskResume_inv:
  assumes inv: "kernel_inv s pcs" and sch: "scheduled s"
  shows "\<exists>err s'. OSTaskResume prio s = Inr (err, s') \<and> kernel_inv s' pcs \<and> scheduled s'"
proof (cases "prio \<ge> OS_LOWEST_PRIO")
  case True
  then show ?thesis using inv sch by (simp add: OSTaskResume_def)
next
  case False
  note I = kernel_invD [OF inv]
  have q: "unat prio < 31" using False by (simp add: word_le_nat_alt)
  then have e: "prio_entry s prio = Inr (OSTCBPrioTbl s ! unat prio)"
    using I(1) by (simp add: prio_entry_def tables_ok_def)
  show ?thesis
  proof (cases "OSTCBPrioTbl s ! unat prio")
    case (Tcb t)
    then have t: "task_at s (unat prio) t" using q by (simp add: task_at_def)
    note T = I(11) [OF t]
    define f :: "tcb \<Rightarrow> tcb" where "f = (\<lambda>c. c\<lparr>OSTCBStat := OSTCBStat c AND NOT OS_STAT_SUSPEND\<rparr>)"
    define s1 where "s1 = tcb_upd t f s"
    have keep: "tcb_fields q (f (OSTCBTbl s t)) = tcb_fields q (OSTCBTbl s t)"
      "OSTCBNext (f (OSTCBTbl s t)) = OSTCBNext (OSTCBTbl s t)" for q by (simp_all add: f_def tcb_fields_def)
    have s1t: "OSTCBTbl s1 t = f (OSTCBTbl s t)" by (simp add: s1_def os_simps)
    show ?thesis
    proof (cases "OSTCBStat (OSTCBTbl s t) AND 8 = 0")
      case True
      then show ?thesis using inv sch False e Tcb by (simp add: OSTaskResume_def)
    next
      case susp: False
      define go where "go \<longleftrightarrow> OSTCBStat (f (OSTCBTbl s t)) = 0 \<and> OSTCBDly (f (OSTCBTbl s t)) = 0"
      have ok: "task_ok (pcs (unat prio)) (unat prio) (f (OSTCBTbl s t)) go {e. unat prio \<in> waits s e}" "unat prio \<notin> ready s"
      proof -
        show "unat prio \<notin> ready s" using T susp by (auto simp: task_ok_def)
        show "task_ok (pcs (unat prio)) (unat prio) (f (OSTCBTbl s t)) go {e. unat prio \<in> waits s e}"
        proof (cases "pcs (unat prio)")
          case Own
          then show ?thesis using T susp by (auto simp: task_ok_def f_def go_def)
        next
          case (InPend k e)
          then show ?thesis using T susp by (cases k) (auto simp: task_ok_def f_def go_def split: if_splits)
        qed
      qed
      have run: "OSTaskResume prio s = (if go then
                   rbind (make_ready t (OSTCBY (OSTCBTbl s1 t)) s1) (\<lambda>s.
                   if OSRunning s then rbind (OS_Sched s) (\<lambda>s. Inr (OS_ERR_NONE, s)) else Inr (OS_ERR_NONE, s))
                 else Inr (OS_ERR_NONE, s1))"
        using False e Tcb susp by (simp add: OSTaskResume_def Let_def s1_def f_def os_simps go_def)
      show ?thesis
      proof (cases go)
        case True
        with ok(1) have "\<exists>l. make_ready t (OSTCBY (OSTCBTbl s1 t)) s1 = Inr (set_ready l s1) \<and> kernel_inv (set_ready l s1) pcs
            \<and> prios l = insert (unat prio) (ready s)"
          unfolding s1_def by (intro tcb_ready_inv [where f = f, OF inv t keep]) simp
        then obtain l where l: "make_ready t (OSTCBY (OSTCBTbl s1 t)) s1 = Inr (set_ready l s1)"
          "kernel_inv (set_ready l s1) pcs" by blast
        from OS_Sched_inv [OF l(2)] l(1) True kernel_invD(5) [OF l(2)] show ?thesis by (auto simp: run)
      next
        case no: False
        have "kernel_inv s1 pcs" unfolding s1_def
          by (rule tcb_upd_inv [where f = f, OF inv t keep]) (use ok no in simp)
        moreover have "scheduled s1" using sch by (simp add: scheduled_def s1_def os_simps)
        ultimately show ?thesis using no by (simp add: run)
      qed
    qed
  qed (use inv sch False e in \<open>simp_all add: OSTaskResume_def\<close>)
qed

end
