(* ===== verification/Os_Tick.thy ===== *)
theory Os_Tick
  imports Os_Calls
begin

text \<open>
  The clock tick and the end of a delay, and the two nesting counters. A tick takes one from the
  delay of every task but the idle task; a task whose delay runs out becomes ready unless it is
  suspended.
\<close>

lemma kernel_inv_other [simp]:
  "kernel_inv (s\<lparr>OSTime := x\<rparr>) pcs = kernel_inv s pcs" "kernel_inv (s\<lparr>OSTickStepState := y\<rparr>) pcs = kernel_inv s pcs"
  "kernel_inv (s\<lparr>OSIntNesting := n\<rparr>) pcs = kernel_inv s pcs" "kernel_inv (s\<lparr>OSLockNesting := n\<rparr>) pcs = kernel_inv s pcs"
  by (simp_all add: kernel_inv_def tables_ok_def lists_ok_def events_ok_def cur_ok_def waiter_ok_def task_at_def
      tcb_list_def ready_list_def wait_list_def)

lemma ready_other [simp]:
  "ready_list (s\<lparr>OSTime := x\<rparr>) = ready_list s" "ready_list (s\<lparr>OSTickStepState := y\<rparr>) = ready_list s"
  "ready_list (s\<lparr>OSIntNesting := n\<rparr>) = ready_list s" "ready_list (s\<lparr>OSLockNesting := n\<rparr>) = ready_list s"
  "task_at (s\<lparr>OSTime := x\<rparr>) p t = task_at s p t" "task_at (s\<lparr>OSTickStepState := y\<rparr>) p t = task_at s p t"
  by (simp_all add: ready_list_def task_at_def)

section \<open>One task\<close>

text \<open>What a tick does to the task of priority \<open>p\<close> with control block \<open>t\<close>.\<close>

definition ticked :: "os \<Rightarrow> os \<Rightarrow> nat \<Rightarrow> nat \<Rightarrow> bool" where
  "ticked s s' p t \<longleftrightarrow> OSTCBDly (OSTCBTbl s' t) = (if OSTCBDly (OSTCBTbl s t) = 0 then 0 else OSTCBDly (OSTCBTbl s t) - 1)
     \<and> OSTCBStat (OSTCBTbl s' t) AND 8 = OSTCBStat (OSTCBTbl s t) AND 8
     \<and> (p \<in> ready s' \<longleftrightarrow> p \<in> ready s \<or> OSTCBDly (OSTCBTbl s t) = 1 \<and> OSTCBStat (OSTCBTbl s t) AND 8 = 0)"

definition unticked :: "os \<Rightarrow> os \<Rightarrow> nat \<Rightarrow> nat \<Rightarrow> bool" where
  "unticked s s' p t \<longleftrightarrow> OSTCBTbl s' t = OSTCBTbl s t \<and> (p \<in> ready s' \<longleftrightarrow> p \<in> ready s)"

lemma tick_tcb_inv:
  assumes inv: "kernel_inv s pcs" and t: "task_at s p t"
  shows "\<exists>s'. tick_tcb t s = Inr s' \<and> kernel_inv s' pcs \<and> same_context s s' \<and> ticked s s' p t
    \<and> (\<forall>u. OSTCBNext (OSTCBTbl s' u) = OSTCBNext (OSTCBTbl s u))
    \<and> (\<forall>q u. task_at s q u \<and> u \<noteq> t \<longrightarrow> unticked s s' q u)"
proof -
  note I = kernel_invD [OF inv]
  let ?c = "OSTCBTbl s t"
  have neq: "\<forall>u. u \<noteq> t \<longrightarrow> \<not> task_at s p u" using t by (auto simp: task_at_def)
  consider "OSTCBDly ?c = 0" | (dec) "OSTCBDly ?c \<noteq> 0" "OSTCBDly ?c \<noteq> 1" | (over) "OSTCBDly ?c = 1" by blast
  then show ?thesis
  proof cases
    case 1
    then show ?thesis using inv by (auto simp: tick_tcb_def same_context_def ticked_def unticked_def)
  next
    case dec
    define f :: "tcb \<Rightarrow> tcb" where "f = (\<lambda>c. c\<lparr>OSTCBDly := OSTCBDly c - 1\<rparr>)"
    have keep: "tcb_fields q (f ?c) = tcb_fields q ?c" "OSTCBNext (f ?c) = OSTCBNext ?c" for q
      by (simp_all add: f_def tcb_fields_def)
    have "kernel_inv (tcb_upd t f s) pcs"
    proof (rule tcb_upd_inv [where f = f, OF inv t keep])
      show "task_ok (pcs p) p (f ?c) (p \<in> ready s) {e. p \<in> waits s e}"
        using I(11) [OF t] dec by (cases "pcs p") (auto simp: task_ok_def f_def split: if_splits)
    qed
    moreover have "tick_tcb t s = Inr (tcb_upd t f s)" using dec by (simp add: tick_tcb_def f_def os_simps Let_def)
    ultimately show ?thesis using dec
      by (intro exI [of _ "tcb_upd t f s"]) (auto simp: same_context_def ticked_def unticked_def os_simps f_def)
  next
    case over
    then have d: "OSTCBDly ?c \<noteq> 0" by simp
    let ?f = "\<lambda>c. delay_over (c\<lparr>OSTCBDly := 0\<rparr>)"
    define s1 where "s1 = tcb_upd t ?f s"
    note D = delay_over_inv [OF inv t d, folded s1_def]
    have one: "tcb_upd t (\<lambda>c. c\<lparr>OSTCBDly := OSTCBDly c - 1\<rparr>) s = tcb_upd t (\<lambda>c. c\<lparr>OSTCBDly := 0\<rparr>) s"
      using over by (simp add: tcb_upd_def)
    have run: "tick_tcb t s = (if OSTCBStat (OSTCBTbl s1 t) AND OS_STAT_SUSPEND = OS_STAT_RDY
                then make_ready t (OSTCBY (OSTCBTbl s1 t)) s1 else Inr s1)"
      using over one by (simp add: tick_tcb_def Let_def end_delay_upd tcb_upd_twice s1_def) (simp add: os_simps)
    have nx: "OSTCBNext (OSTCBTbl s1 u) = OSTCBNext (OSTCBTbl s u)" "OSTCBDly (OSTCBTbl s1 t) = 0"
      "u \<noteq> t \<Longrightarrow> OSTCBTbl s1 u = OSTCBTbl s u" "ready s1 = ready s" for u
      by (auto simp: s1_def os_simps)
    show ?thesis
    proof (cases "OSTCBStat ?c AND 8 = 0")
      case True
      from D(2) [OF this] obtain l where l: "make_ready t (OSTCBY (OSTCBTbl s1 t)) s1 = Inr (set_ready l s1)"
        "kernel_inv (set_ready l s1) pcs" "prios l = insert p (ready s)" by blast
      have "same_context s (set_ready l s1)" by (simp add: same_context_def s1_def os_simps)
      with l True over D(1) nx neq show ?thesis
        by (intro exI [of _ "set_ready l s1"]) (auto simp: run ticked_def unticked_def os_simps)
    next
      case False
      have "same_context s s1" by (simp add: same_context_def s1_def os_simps)
      with False over D(1) D(3) nx show ?thesis
        by (intro exI [of _ s1]) (auto simp: run ticked_def unticked_def)
    qed
  qed
qed

section \<open>All tasks\<close>

lemma same_context_trans: "same_context s s' \<Longrightarrow> same_context s' s'' \<Longrightarrow> same_context s s''"
  by (simp add: same_context_def)

lemma same_context_task: "same_context s s' \<Longrightarrow> task_at s' p t = task_at s p t"
  by (simp add: same_context_def task_at_def)

lemma tick_tasks_inv:
  assumes "kernel_inv s pcs" "chain (OSTCBTbl s) r (us @ [i])" "task_at s 31 i" "distinct us"
    and "\<forall>t \<in> set us. \<exists>p. p \<noteq> 31 \<and> task_at s p t" "length us < fuel"
  shows "\<exists>s'. tick_tasks fuel r s = Inr s' \<and> kernel_inv s' pcs \<and> same_context s s'
    \<and> (\<forall>p t. task_at s p t \<longrightarrow> (if t \<in> set us then ticked s s' p t else unticked s s' p t))"
  using assms
proof (induction us arbitrary: s r fuel)
  case Nil
  then obtain n where n: "fuel = Suc n" by (cases fuel) auto
  have "OSTCBPrio (OSTCBTbl s i) = 31" using task_at_fields(2) [OF kernel_invD(1) [OF Nil(1)] Nil(3)] by simp
  with Nil n show ?case by (auto simp: deref_def same_context_def unticked_def)
next
  case (Cons t us)
  note I = kernel_invD [OF Cons.prems(1)]
  obtain n where n: "fuel = Suc n" "length us < n" using Cons.prems(6) by (cases fuel) auto
  obtain p where p: "p \<noteq> 31" "task_at s p t" using Cons.prems(5) by auto
  have r: "r = Tcb t" "chain (OSTCBTbl s) (OSTCBNext (OSTCBTbl s t)) (us @ [i])" using Cons.prems(2) by auto
  have ne: "OSTCBPrio (OSTCBTbl s t) \<noteq> 31"
  proof -
    have "unat (of_nat p :: u8) \<noteq> 31" using task_at_fields(1) [OF I(1) p(2)] p(1) by simp
    then show ?thesis unfolding task_at_fields(2) [OF I(1) p(2)] by auto
  qed
  from tick_tcb_inv [OF Cons.prems(1) p(2)] obtain s1 where
    s1: "tick_tcb t s = Inr s1" "kernel_inv s1 pcs" "same_context s s1" "ticked s s1 p t"
      "\<And>u. OSTCBNext (OSTCBTbl s1 u) = OSTCBNext (OSTCBTbl s u)"
      "\<And>q u. task_at s q u \<Longrightarrow> u \<noteq> t \<Longrightarrow> unticked s s1 q u" by blast
  note at = same_context_task [OF s1(3)]
  have "\<exists>s'. tick_tasks n (OSTCBNext (OSTCBTbl s1 t)) s1 = Inr s' \<and> kernel_inv s' pcs \<and> same_context s1 s'
    \<and> (\<forall>p t. task_at s1 p t \<longrightarrow> (if t \<in> set us then ticked s1 s' p t else unticked s1 s' p t))"
    using Cons.prems(3-5) r(2) n(2) by (intro Cons.IH s1(2)) (auto simp: at s1(5) tcb_chain_cong [OF s1(5)])
  then obtain s' where s': "tick_tasks n (OSTCBNext (OSTCBTbl s1 t)) s1 = Inr s'" "kernel_inv s' pcs" "same_context s1 s'"
    "\<And>p t. task_at s p t \<Longrightarrow> (if t \<in> set us then ticked s1 s' p t else unticked s1 s' p t)"
    unfolding at by blast
  have "if u \<in> set (t # us) then ticked s s' q u else unticked s s' q u" if q: "task_at s q u" for q u
  proof (cases "u = t")
    case True
    then have "q = p" using q p(2) task_at_inj [OF I(1)] by blast
    with True s1(4) s'(4) [OF q] Cons.prems(4) show ?thesis by (simp add: ticked_def unticked_def)
  next
    case False
    with s1(6) [OF q] s'(4) [OF q] show ?thesis by (auto simp: ticked_def unticked_def split: if_splits)
  qed
  with s' s1(1) n r ne same_context_trans [OF s1(3) s'(3)] show ?case by (simp add: deref_def)
qed

lemma tick_effect:
  assumes "kernel_inv s pcs" "OSTickStepState s = 0"
  shows "\<exists>s'. OSTimeTick s = Inr s' \<and> kernel_inv s' pcs \<and> OSTickStepState s' = 0 \<and> OSTime s' = OSTime s + 1
    \<and> OSIntNesting s' = OSIntNesting s \<and> OSLockNesting s' = OSLockNesting s
    \<and> (\<forall>p t. task_at s p t \<longrightarrow> task_at s' p t \<and> (if p = 31 then unticked s s' p t else ticked s s' p t))"
proof -
  define s1 where "s1 = s\<lparr>OSTime := OSTime s + 1, OSTickStepState := 0\<rparr>"
  have k1: "kernel_inv s1 pcs" using assms(1) by (simp add: s1_def)
  from kernel_invD(15) [OF k1] obtain us i where ui: "tcb_list s1 us i" by blast
  then have "chain (OSTCBTbl s1) (OSTCBList s1) (us @ [i])" "task_at s1 31 i" "distinct us" "length us < OS_MAX_TCBS"
    and us: "t \<in> set us \<longleftrightarrow> (\<exists>p. p \<noteq> 31 \<and> task_at s1 p t)" for t by (auto simp: tcb_list_def)
  from tick_tasks_inv [OF k1 this(1-3) _ this(4)] us obtain s' where
    s': "tick_tasks OS_MAX_TCBS (OSTCBList s1) s1 = Inr s'" "kernel_inv s' pcs" "same_context s1 s'"
      "\<And>p t. task_at s1 p t \<Longrightarrow> (if t \<in> set us then ticked s1 s' p t else unticked s1 s' p t)" by blast
  have same: "task_at s1 p t = task_at s p t" "OSTCBTbl s1 = OSTCBTbl s" "ready s1 = ready s" "OSRunning s1" for p t
    using kernel_invD(5) [OF k1] by (simp_all add: s1_def)
  have run: "OSTimeTick s = tick_tasks OS_MAX_TCBS (OSTCBList s1) s1"
    using assms(2) same(4) by (simp add: OSTimeTick_def s1_def Let_def)
  have "task_at s' p t \<and> (if p = 31 then unticked s s' p t else ticked s s' p t)" if t: "task_at s p t" for p t
  proof -
    have "t \<in> set us \<longleftrightarrow> p \<noteq> 31"
      using us [of t] t task_at_inj [OF kernel_invD(1) [OF k1]] by (auto simp: same)
    with s'(4) [of p t] t same_context_task [OF s'(3)] show ?thesis
      by (auto simp: same ticked_def unticked_def)
  qed
  with s' run show ?thesis by (simp add: same_context_def s1_def)
qed

section \<open>A delay comes to its end\<close>

fun ticks :: "nat \<Rightarrow> os \<Rightarrow> os res" where
  "ticks 0 s = Inr s"
| "ticks (Suc n) s = rbind (OSTimeTick s) (ticks n)"

lemma ticks_effect:
  assumes "kernel_inv s pcs" "OSTickStepState s = 0" "task_at s p t" "p \<noteq> 31"
    and "OSTCBStat (OSTCBTbl s t) AND 8 = 0" "n \<le> unat (OSTCBDly (OSTCBTbl s t))"
  shows "\<exists>s'. ticks n s = Inr s' \<and> kernel_inv s' pcs \<and> task_at s' p t \<and> unat (OSTCBDly (OSTCBTbl s' t)) = unat (OSTCBDly (OSTCBTbl s t)) - n
    \<and> (0 < n \<longrightarrow> (p \<in> ready s' \<longleftrightarrow> n = unat (OSTCBDly (OSTCBTbl s t))))"
  using assms
proof (induction n arbitrary: s)
  case (Suc n)
  let ?d = "OSTCBDly (OSTCBTbl s t)"
  from tick_effect [OF Suc.prems(1, 2)] Suc.prems(3, 4) obtain s1 where
    s1: "OSTimeTick s = Inr s1" "kernel_inv s1 pcs" "OSTickStepState s1 = 0" "task_at s1 p t" "ticked s s1 p t" by force
  have nz: "?d \<noteq> 0" using Suc.prems(6) by auto
  have d1: "unat (OSTCBDly (OSTCBTbl s1 t)) = unat ?d - 1" and st: "OSTCBStat (OSTCBTbl s1 t) AND 8 = 0"
    and not: "p \<notin> ready s"
    and r: "p \<in> ready s1 \<longleftrightarrow> ?d = 1"
    using s1(5) nz Suc.prems(5) kernel_invD(11) [OF Suc.prems(1, 3)]
    by (auto simp: ticked_def task_ok_def unat_minus_one)
  have r': "p \<in> ready s1 \<longleftrightarrow> unat ?d = 1"
    using r by (metis unat_1 word_unat_eq_iff)
  have "n \<le> unat (OSTCBDly (OSTCBTbl s1 t))" using Suc.prems(6) d1 by simp
  from Suc.IH [OF s1(2-4) Suc.prems(4) st this] obtain s' where
    s': "ticks n s1 = Inr s'" "kernel_inv s' pcs" "task_at s' p t"
      "unat (OSTCBDly (OSTCBTbl s' t)) = unat ?d - 1 - n"
      "0 < n \<longrightarrow> (p \<in> ready s' \<longleftrightarrow> n = unat ?d - 1)" unfolding d1 by blast
  have "p \<in> ready s' \<longleftrightarrow> Suc n = unat ?d"
  proof (cases n)
    case 0
    then show ?thesis using s'(1) r' by auto
  qed (use s'(5) Suc.prems(6) in auto)
  with s' s1(1) show ?case by auto
qed simp

end
