(* ===== verification/Os_Machine.thy ===== *)
theory Os_Machine
  imports Os_Tick
begin

text \<open>
  The kernel as a machine: every call a task or an interrupt handler may make is a step on the
  configuration, and no step faults or breaks the invariant.
\<close>

section \<open>Events\<close>

lemma waits_empty: "kernel_inv s pcs \<Longrightarrow> OSEventGrp (OSEcbTbl s e) = 0 \<longleftrightarrow> waits s e = {}"
  using ps.empty_ok [OF kernel_invD(9), of s pcs e] by (simp add: wait_list_def)

text \<open>An update of a control block that leaves the wait list, the type and the queue alone.\<close>

lemma kernel_inv_ecb:
  assumes "kernel_inv s pcs" "OSEventType (f (OSEcbTbl s e)) = OSEventType (OSEcbTbl s e)"
    "OSEventGrp (f (OSEcbTbl s e)) = OSEventGrp (OSEcbTbl s e)" "OSEventTbl (f (OSEcbTbl s e)) = OSEventTbl (OSEcbTbl s e)"
    "OSEventType (OSEcbTbl s e) = OS_EVENT_TYPE_Q \<Longrightarrow> OSEventPtr (f (OSEcbTbl s e)) = OSEventPtr (OSEcbTbl s e)"
  shows "kernel_inv (ecb_upd e f s) pcs" "ready_list (ecb_upd e f s) = ready_list s"
    "scheduled (ecb_upd e f s) = scheduled s"
proof -
  have w: "wait_list (ecb_upd e f s) e' = wait_list s e'" for e' using assms(3, 4) by (simp add: wait_list_def os_simps)
  show r: "ready_list (ecb_upd e f s) = ready_list s" by (simp add: os_simps)
  show "scheduled (ecb_upd e f s) = scheduled s" by (simp add: scheduled_def os_simps)
  show "kernel_inv (ecb_upd e f s) pcs"
    using assms(1) unfolding kernel_inv_def tcb_list_def lists_ok_def cur_ok_def w r os_simps
    by (auto simp: events_ok_def waiter_ok_def os_simps assms(2, 5))
qed

lemma wake_inv:
  assumes "kernel_inv s pcs" "OSEventType (OSEcbTbl s e) = kind_type k" "OSEventGrp (OSEcbTbl s e) \<noteq> 0"
  shows "\<exists>p s1 s'. OS_EventTaskRdy e pmsg (kind_stat k) st s = Inr (p, s1) \<and> OS_Sched s1 = Inr s' \<and> kernel_inv s' pcs \<and> scheduled s'"
proof -
  have "waits s e \<noteq> {}" using waits_empty [OF assms(1)] assms(3) by simp
  from event_rdy_inv [OF assms(1, 2) this] obtain p s1 where
    s1: "OS_EventTaskRdy e pmsg (kind_stat k) st s = Inr (p, s1)" "kernel_inv s1 pcs" by blast
  from OS_Sched_inv [OF s1(2)] s1(1) show ?thesis by blast
qed

text \<open>The tasks of a wait list that are ready once they are no longer pending.\<close>

definition wakeable :: "os \<Rightarrow> nat \<Rightarrow> nat set" where
  "wakeable s e = {p \<in> waits s e. \<exists>t. task_at s p t \<and> OSTCBStat (OSTCBTbl s t) AND 8 = 0}"

lemma ready_all_inv:
  assumes "kernel_inv s pcs" "OSEventType (OSEcbTbl s e) = kind_type k" "card (waits s e) < fuel"
  shows "\<exists>s'. ready_all fuel e pmsg (kind_stat k) st c s = Inr (c + of_nat (card (waits s e)), s') \<and> kernel_inv s' pcs
    \<and> waits s' e = {} \<and> same_context s s' \<and> (\<forall>e'. e' \<noteq> e \<longrightarrow> waits s' e' = waits s e') \<and> ready s' = ready s \<union> wakeable s e"
  using assms
proof (induction fuel arbitrary: s c)
  case (Suc fuel)
  show ?case
  proof (cases "OSEventGrp (OSEcbTbl s e) = 0")
    case True
    then have "waits s e = {}" using waits_empty [OF Suc.prems(1)] by simp
    then show ?thesis using Suc.prems True by (simp add: same_context_def wakeable_def)
  next
    case False
    then have ne: "waits s e \<noteq> {}" using waits_empty [OF Suc.prems(1)] by simp
    let ?m = "Min (waits s e)"
    from event_rdy_inv [OF Suc.prems(1, 2) ne] obtain s1 t where
      s1: "OS_EventTaskRdy e pmsg (kind_stat k) st s = Inr (of_nat ?m, s1)" "kernel_inv s1 pcs" "same_context s s1"
        "waits s1 e = waits s e - {?m}" "\<forall>e'. e' \<noteq> e \<longrightarrow> waits s1 e' = waits s e'" "task_at s ?m t"
        "ready s1 = (if OSTCBStat (OSTCBTbl s t) AND 8 = 0 then insert ?m (ready s) else ready s)"
        "\<forall>u. u \<noteq> t \<longrightarrow> OSTCBTbl s1 u = OSTCBTbl s u" by blast
    have m: "?m \<in> waits s e" using ne by (intro Min_in) simp_all
    have fin: "finite (waits s e)" by simp
    have card: "card (waits s e) = Suc (card (waits s1 e))"
      unfolding s1(4) using card.remove [OF fin m] .
    with Suc.prems(3) have "card (waits s1 e) < fuel" by simp
    from Suc.IH [OF s1(2) _ this, of "c + 1"] Suc.prems(2) s1(3) obtain s' where
      s': "ready_all fuel e pmsg (kind_stat k) st (c + 1) s1 = Inr (c + 1 + of_nat (card (waits s1 e)), s')" "kernel_inv s' pcs"
        "waits s' e = {}" "same_context s1 s'" "\<forall>e'. e' \<noteq> e \<longrightarrow> waits s' e' = waits s1 e'" "ready s' = ready s1 \<union> wakeable s1 e"
      by (auto simp: same_context_def)
    note at = same_context_task [OF s1(3)] and inj = task_at_inj [OF kernel_invD(1) [OF Suc.prems(1)]]
    have other: "OSTCBTbl s1 u = OSTCBTbl s u" if "task_at s p u" "p \<noteq> ?m" for p u
      using inj [OF that(1)] that(2) s1(6, 8) by metis
    define ok where "ok p = (\<exists>t. task_at s p t \<and> OSTCBStat (OSTCBTbl s t) AND 8 = 0)" for p
    have ok_m: "ok ?m \<longleftrightarrow> OSTCBStat (OSTCBTbl s t) AND 8 = 0"
    proof
      assume "ok ?m"
      then obtain u where "task_at s ?m u" "OSTCBStat (OSTCBTbl s u) AND 8 = 0" unfolding ok_def by blast
      moreover from this(1) s1(6) have "u = t" by (simp add: task_at_def)
      ultimately show "OSTCBStat (OSTCBTbl s t) AND 8 = 0" by simp
    qed (use s1(6) ok_def in blast)
    have ok_o: "(\<exists>t. task_at s p t \<and> OSTCBStat (OSTCBTbl s1 t) AND 8 = 0) = ok p" if "p \<noteq> ?m" for p
      unfolding ok_def using other that by metis
    have "wakeable s1 e = {p \<in> waits s e. p \<noteq> ?m \<and> ok p}" unfolding wakeable_def at s1(4) using ok_o by blast
    moreover have "wakeable s e = {p \<in> waits s e. ok p}" by (simp add: wakeable_def ok_def)
    ultimately have "wakeable s e = wakeable s1 e \<union> (if OSTCBStat (OSTCBTbl s t) AND 8 = 0 then {?m} else {})"
      using m ok_m by auto
    with s1(7) s'(6) have "ready s' = ready s \<union> wakeable s e" by auto
    with s' s1(1, 4, 5) False same_context_trans [OF s1(3) s'(4)] card show ?thesis by (auto simp: ac_simps)
  qed
qed simp

lemma card_waits: "card (waits s e) < 33"
proof -
  have "waits s e \<subseteq> {..<32}" by (auto simp: prios_def)
  from card_mono [OF _ this] show ?thesis by simp
qed

lemma event_abort_inv:
  assumes "kernel_inv s pcs" "scheduled s" "OSEventType (OSEcbTbl s e) = kind_type k"
  shows "\<exists>r s'. event_abort (kind_stat k) e opt s = Inr (r, s') \<and> kernel_inv s' pcs \<and> scheduled s'"
proof (cases "OSEventGrp (OSEcbTbl s e) = 0")
  case True
  then show ?thesis using assms by (simp add: event_abort_def)
next
  case False
  show ?thesis
  proof (cases "opt = 1")
    case True
    from ready_all_inv [OF assms(1, 3) card_waits, of Null OS_STAT_PEND_ABORT 0] obtain n s1 where
      s1: "ready_all 33 e Null (kind_stat k) OS_STAT_PEND_ABORT 0 s = Inr (n, s1)" "kernel_inv s1 pcs" by blast
    from OS_Sched_inv [OF s1(2)] s1(1) False True show ?thesis by (auto simp: event_abort_def simp del: ready_all.simps)
  next
    case one: False
    from wake_inv [OF assms(1, 3) False, of Null OS_STAT_PEND_ABORT] one False show ?thesis
      by (auto simp: event_abort_def)
  qed
qed

section \<open>The calls\<close>

lemma SemPost_inv:
  assumes "kernel_inv s pcs" "scheduled s"
  shows "\<exists>err s'. OSSemPost pe s = Inr (err, s') \<and> kernel_inv s' pcs \<and> scheduled s'"
proof (cases pe)
  case (Some e)
  let ?f = "\<lambda>ev. ev\<lparr>OSEventCnt := OSEventCnt ev + 1\<rparr>"
  show ?thesis
  proof (cases "OSEventType (OSEcbTbl s e) = kind_type SemK \<and> OSEventGrp (OSEcbTbl s e) \<noteq> 0")
    case True
    with wake_inv [OF assms(1), of e SemK Null OS_STAT_PEND_OK] Some show ?thesis by (auto simp: OSSemPost_def)
  next
    case False
    with assms kernel_inv_ecb [OF assms(1), of ?f e] Some show ?thesis by (auto simp: OSSemPost_def)
  qed
qed (use assms in \<open>simp add: OSSemPost_def\<close>)

lemma MboxPost_inv:
  assumes "kernel_inv s pcs" "scheduled s"
  shows "\<exists>err s'. OSMboxPost pe m s = Inr (err, s') \<and> kernel_inv s' pcs \<and> scheduled s'"
proof (cases pe)
  case (Some e)
  let ?f = "\<lambda>ev. ev\<lparr>OSEventPtr := m\<rparr>"
  show ?thesis
  proof (cases "OSEventType (OSEcbTbl s e) = kind_type MboxK \<and> OSEventGrp (OSEcbTbl s e) \<noteq> 0")
    case True
    with assms wake_inv [OF assms(1), of e MboxK m OS_STAT_PEND_OK] Some show ?thesis by (auto simp: OSMboxPost_def)
  next
    case False
    with assms kernel_inv_ecb [OF assms(1), of ?f e] Some show ?thesis by (auto simp: OSMboxPost_def)
  qed
qed (use assms in \<open>simp add: OSMboxPost_def\<close>)

text \<open>The ring is no part of the invariant.\<close>

lemma kernel_inv_ring:
  assumes "ready_list s' = ready_list s" "OSEcbTbl s' = OSEcbTbl s" "OSTCBPrioTbl s' = OSTCBPrioTbl s" "OSTCBTbl s' = OSTCBTbl s"
    "OSTCBList s' = OSTCBList s" "OSTCBCur s' = OSTCBCur s" "OSPrioCur s' = OSPrioCur s" "OSRunning s' = OSRunning s"
    "OSIntNesting s' = OSIntNesting s" "OSLockNesting s' = OSLockNesting s"
  shows "kernel_inv s' pcs = kernel_inv s pcs" "scheduled s' = scheduled s"
  using assms by (simp_all add: kernel_inv_def tables_ok_def lists_ok_def events_ok_def cur_ok_def waiter_ok_def task_at_def
      tcb_list_def wait_list_def scheduled_def)

lemma ring_inv [simp]:
  "kernel_inv (snd (q_out q s)) pcs = kernel_inv s pcs" "scheduled (snd (q_out q s)) = scheduled s"
  "kernel_inv (q_in q m s) pcs = kernel_inv s pcs" "scheduled (q_in q m s) = scheduled s"
  by (rule kernel_inv_ring; simp add: q_out_def q_in_def qcb_upd_def Let_def ready_list_def)+

lemma queue_of_inv:
  assumes "kernel_inv s pcs" "OSEventType (OSEcbTbl s e) = OS_EVENT_TYPE_Q"
  obtains q where "queue_of s e = Inr q"
  using kernel_invD(3) [OF assms(1)] assms(2) by (auto simp: events_ok_def queue_of_def split: vptr.splits)

lemma QPost_inv:
  assumes "kernel_inv s pcs" "scheduled s"
  shows "\<exists>err s'. OSQPost pe m s = Inr (err, s') \<and> kernel_inv s' pcs \<and> scheduled s'"
proof (cases pe)
  case (Some e)
  show ?thesis
  proof (cases "OSEventType (OSEcbTbl s e) = OS_EVENT_TYPE_Q")
    case True
    from queue_of_inv [OF assms(1) this] obtain q where q: "queue_of s e = Inr q" by blast
    show ?thesis
    proof (cases "OSEventGrp (OSEcbTbl s e) = 0")
      case False
      with True wake_inv [OF assms(1), of e QK m OS_STAT_PEND_OK] Some show ?thesis by (auto simp: OSQPost_def)
    qed (use assms True Some q in \<open>auto simp: OSQPost_def\<close>)
  qed (use assms Some in \<open>simp add: OSQPost_def\<close>)
qed (use assms in \<open>simp add: OSQPost_def\<close>)

text \<open>The pends: the call either returns in the task's own code or leaves it waiting.\<close>

lemma SemPend_inv:
  assumes "kernel_inv s pcs" "scheduled s" "pcs (unat (OSPrioCur s)) = Own" "unat (OSPrioCur s) \<noteq> 31"
  shows "\<exists>r s'. OSSemPend pe timeout s = Inr (r, s') \<and> scheduled s'
    \<and> kernel_inv s' (case (r, pe) of (Waiting, Some e) \<Rightarrow> pcs(unat (OSPrioCur s) := InPend SemK e) | _ \<Rightarrow> pcs)"
proof (cases pe)
  case (Some e)
  let ?f = "\<lambda>ev. ev\<lparr>OSEventCnt := OSEventCnt ev - 1\<rparr>"
  show ?thesis
  proof (cases "OSEventType (OSEcbTbl s e) \<noteq> OS_EVENT_TYPE_SEM \<or> OSIntNesting s > 0 \<or> OSLockNesting s > 0 \<or> OSEventCnt (OSEcbTbl s e) > 0")
    case True
    with assms kernel_inv_ecb [OF assms(1), of ?f e] Some show ?thesis by (auto simp: OSSemPend_def)
  next
    case False
    then have "OSIntNesting s = 0" "OSLockNesting s = 0" "OSEventType (OSEcbTbl s e) = kind_type SemK"
      by (auto simp: word_neq_0_conv [symmetric])
    from pend_wait_inv [OF assms(1, 2) this assms(3, 4), of timeout] False Some show ?thesis
      by (auto simp: OSSemPend_def)
  qed
qed (use assms in \<open>simp add: OSSemPend_def\<close>)

lemma MboxPend_inv:
  assumes "kernel_inv s pcs" "scheduled s" "pcs (unat (OSPrioCur s)) = Own" "unat (OSPrioCur s) \<noteq> 31"
  shows "\<exists>r s'. OSMboxPend pe timeout s = Inr (r, s') \<and> scheduled s'
    \<and> kernel_inv s' (case (r, pe) of (Waiting, Some e) \<Rightarrow> pcs(unat (OSPrioCur s) := InPend MboxK e) | _ \<Rightarrow> pcs)"
proof (cases pe)
  case (Some e)
  let ?f = "\<lambda>ev. ev\<lparr>OSEventPtr := Null\<rparr>"
  show ?thesis
  proof (cases "OSEventType (OSEcbTbl s e) \<noteq> OS_EVENT_TYPE_MBOX \<or> OSIntNesting s > 0 \<or> OSLockNesting s > 0
      \<or> OSEventPtr (OSEcbTbl s e) \<noteq> Null")
    case True
    with assms kernel_inv_ecb [OF assms(1), of ?f e] Some show ?thesis by (auto simp: OSMboxPend_def Let_def)
  next
    case False
    then have "OSIntNesting s = 0" "OSLockNesting s = 0" "OSEventType (OSEcbTbl s e) = kind_type MboxK"
      by (auto simp: word_neq_0_conv [symmetric])
    from pend_wait_inv [OF assms(1, 2) this assms(3, 4), of timeout] False Some show ?thesis
      by (auto simp: OSMboxPend_def)
  qed
qed (use assms in \<open>simp add: OSMboxPend_def\<close>)

lemma QPend_inv:
  assumes "kernel_inv s pcs" "scheduled s" "pcs (unat (OSPrioCur s)) = Own" "unat (OSPrioCur s) \<noteq> 31"
  shows "\<exists>r s'. OSQPend pe timeout s = Inr (r, s') \<and> scheduled s'
    \<and> kernel_inv s' (case (r, pe) of (Waiting, Some e) \<Rightarrow> pcs(unat (OSPrioCur s) := InPend QK e) | _ \<Rightarrow> pcs)"
proof (cases pe)
  case (Some e)
  show ?thesis
  proof (cases "OSEventType (OSEcbTbl s e) \<noteq> OS_EVENT_TYPE_Q \<or> OSIntNesting s > 0 \<or> OSLockNesting s > 0")
    case True
    with assms Some show ?thesis by (auto simp: OSQPend_def)
  next
    case False
    then have f: "OSIntNesting s = 0" "OSLockNesting s = 0" "OSEventType (OSEcbTbl s e) = kind_type QK"
      by (auto simp: word_neq_0_conv [symmetric])
    from queue_of_inv [OF assms(1)] f(3) obtain q where "queue_of s e = Inr q" by auto
    with pend_wait_inv [OF assms(1, 2) f assms(3, 4), of timeout] f Some assms(1, 2) show ?thesis
      by (cases "0 < OSQEntries (OSQTbl s q)") (auto simp: OSQPend_def split_beta)
  qed
qed (use assms in \<open>simp add: OSQPend_def\<close>)

lemma SemAbort_inv:
  assumes "kernel_inv s pcs" "scheduled s"
  shows "\<exists>r s'. OSSemPendAbort pe opt s = Inr (r, s') \<and> kernel_inv s' pcs \<and> scheduled s'"
proof (cases pe)
  case (Some e)
  with assms event_abort_inv [OF assms, of e SemK opt] show ?thesis
    by (cases "OSEventType (OSEcbTbl s e) = OS_EVENT_TYPE_SEM") (auto simp: OSSemPendAbort_def)
qed (use assms in \<open>simp add: OSSemPendAbort_def\<close>)

lemma SemSet_inv:
  assumes "kernel_inv s pcs" "scheduled s"
  shows "kernel_inv (snd (OSSemSet pe cnt s)) pcs" "scheduled (snd (OSSemSet pe cnt s))"
    "kernel_inv (snd (OSSemAccept pe s)) pcs" "scheduled (snd (OSSemAccept pe s))"
  using assms kernel_inv_ecb [OF assms(1), of "\<lambda>ev. ev\<lparr>OSEventCnt := cnt\<rparr>"]
    kernel_inv_ecb [OF assms(1), of "\<lambda>ev. ev\<lparr>OSEventCnt := OSEventCnt ev - 1\<rparr>"]
  by (auto simp: OSSemSet_def OSSemAccept_def Let_def split: option.splits)

text \<open>The rest of a pend. \<open>OSMboxPend\<close> and \<open>OSQPend\<close> also clear the message.\<close>

definition end_pend :: "kind \<Rightarrow> nat \<Rightarrow> os \<Rightarrow> os res" where
  "end_pend k e s =
     (case k of
        SemK \<Rightarrow> rbind (OSSemPend_resume e s) (\<lambda>(r, s). Inr s)
      | MboxK \<Rightarrow> rbind (OSMboxPend_resume e s) (\<lambda>(r, s). Inr s)
      | QK \<Rightarrow> rbind (OSQPend_resume e s) (\<lambda>(r, s). Inr s))"

lemma end_pend_inv:
  assumes inv: "kernel_inv s pcs" and "scheduled s" "OSIntNesting s = 0" "OSLockNesting s = 0"
    and "pcs (unat (OSPrioCur s)) = InPend k e"
  shows "\<exists>s'. end_pend k e s = Inr s' \<and> kernel_inv s' (pcs(unat (OSPrioCur s) := Own)) \<and> scheduled s'"
proof -
  let ?pcs = "pcs(unat (OSPrioCur s) := Own)"
  let ?f = "\<lambda>ptcb. ptcb\<lparr>OSTCBMsg := Null\<rparr>"
  from pend_resume_inv [OF assms] obtain r s1 where
    s1: "pend_resume e s = Inr (r, s1)" "kernel_inv s1 ?pcs" "scheduled s1" by blast
  obtain err m where r: "r = (err, m)" by (cases r)
  have clear: "kernel_inv (tcb_upd t ?f s1) ?pcs" "scheduled (tcb_upd t ?f s1)" if t: "task_at s1 p t" for p t
  proof -
    have "tcb_fields q (?f c) = tcb_fields q c" "OSTCBNext (?f c) = OSTCBNext c" for q c
      by (simp_all add: tcb_fields_def)
    note C = tcb_upd_inv [where f = ?f, OF s1(2) t this]
    show "kernel_inv (tcb_upd t ?f s1) ?pcs"
      by (rule C) (use kernel_invD(11) [OF s1(2) t] in \<open>cases "?pcs p"; simp add: task_ok_def split: if_splits\<close>)
    show "scheduled (tcb_upd t ?f s1)" using s1(3) by (simp add: scheduled_def os_simps)
  qed
  obtain t where t: "task_at s (unat (OSPrioCur s)) t" "OSTCBCur s = Tcb t" using current_task [OF inv refl] by blast
  have "OSTCBPrioTbl s1 = OSTCBPrioTbl s"
    using s1(1) t(2) unfolding pend_resume_def
    by (auto simp: deref_def Let_def rbind_eq_Inr OS_EventTaskRemove_def os_simps split: if_splits)
  then have "task_at s1 (unat (OSPrioCur s)) t" using t(1) by (simp add: task_at_def)
  from clear [OF this] s1 r t(2) show ?thesis
    by (cases k) (simp_all add: end_pend_def OSSemPend_resume_def OSMboxPend_resume_def OSQPend_resume_def deref_def)
qed

lemma IntExit_inv:
  assumes "kernel_inv s pcs" "OSIntNesting s > 0"
  shows "\<exists>s'. OSIntExit s = Inr s' \<and> kernel_inv s' pcs \<and> scheduled s'"
proof -
  define s1 where "s1 = s\<lparr>OSIntNesting := OSIntNesting s - 1\<rparr>"
  have k: "kernel_inv s1 pcs" using assms(1) by (simp add: s1_def)
  note I = kernel_invD [OF k]
  have run: "OSIntExit s = (if OSIntNesting s1 = 0 \<and> OSLockNesting s1 = 0 then reschedule s1 else Inr s1)"
    using assms I(5) by (simp add: OSIntExit_def Let_def s1_def)
  show ?thesis
  proof (cases "OSIntNesting s1 = 0 \<and> OSLockNesting s1 = 0")
    case True
    from reschedule_ok [OF I(1, 2, 10, 4)] obtain s' where
      s': "reschedule s1 = Inr s'" "unat (OSPrioCur s') = Min (ready s1)" "cur_ok s'" "sched_frame s1 s'" by blast
    have "ready s' = ready s1" using s'(4) by (simp add: sched_frame_def)
    with s' True kernel_inv_frame [OF k s'(4, 3)] show ?thesis by (simp add: run scheduled_def)
  next
    case False
    with k show ?thesis by (auto simp: run scheduled_def)
  qed
qed

lemma inc8_not_zero: "(x :: u8) < 255 \<Longrightarrow> x + 1 \<noteq> 0"
  by (simp add: word_less_nat_alt word_unat_eq_iff unat_word_ariths)

lemma IntEnter_inv:
  assumes "kernel_inv s pcs" "OSIntNesting s < 255"
  shows "kernel_inv (OSIntEnter s) pcs" "scheduled (OSIntEnter s)" "OSIntNesting (OSIntEnter s) > 0"
proof -
  have "OSIntNesting s + 1 \<noteq> 0" by (rule inc8_not_zero [OF assms(2)])
  then show "kernel_inv (OSIntEnter s) pcs" "scheduled (OSIntEnter s)" "OSIntNesting (OSIntEnter s) > 0"
    using assms kernel_invD(5) [OF assms(1)] by (simp_all add: OSIntEnter_def scheduled_def word_gt_0)
qed

lemma Lock_inv:
  assumes "kernel_inv s pcs" "scheduled s"
  shows "kernel_inv (OSSchedLock s) pcs" "scheduled (OSSchedLock s)"
    "\<exists>s'. OSSchedUnlock s = Inr s' \<and> kernel_inv s' pcs \<and> scheduled s'"
proof -
  show "kernel_inv (OSSchedLock s) pcs" using assms(1) by (simp add: OSSchedLock_def)
  have "OSLockNesting s < 255 \<Longrightarrow> OSLockNesting s + 1 \<noteq> 0" by (rule inc8_not_zero)
  then show "scheduled (OSSchedLock s)" using assms by (auto simp: OSSchedLock_def scheduled_def)
  define s1 where "s1 = s\<lparr>OSLockNesting := OSLockNesting s - 1\<rparr>"
  have k: "kernel_inv s1 pcs" using assms(1) by (simp add: s1_def)
  have run: "OSSchedUnlock s = (if OSLockNesting s > 0 then if OSLockNesting s1 = 0 \<and> OSIntNesting s1 = 0 then OS_Sched s1
      else Inr s1 else Inr s)"
    using kernel_invD(5) [OF assms(1)] by (simp add: OSSchedUnlock_def Let_def s1_def)
  show "\<exists>s'. OSSchedUnlock s = Inr s' \<and> kernel_inv s' pcs \<and> scheduled s'"
  proof (cases "OSLockNesting s1 = 0 \<and> OSIntNesting s1 = 0")
    case True
    with OS_Sched_inv [OF k] assms show ?thesis by (auto simp: run)
  next
    case False
    then have "scheduled s1" by (auto simp: scheduled_def)
    with False k assms show ?thesis by (auto simp: run)
  qed
qed

lemma Tick_inv:
  assumes "kernel_inv s pcs" "OSIntNesting s > 0"
  shows "\<exists>s'. OSTimeTick s = Inr s' \<and> kernel_inv s' pcs \<and> scheduled s'"
proof -
  define s1 where "s1 st = s\<lparr>OSTime := OSTime s + 1, OSTickStepState := st\<rparr>" for st
  have k1: "kernel_inv (s1 st) pcs" for st using assms(1) by (simp add: s1_def)
  have walk: "\<exists>s'. tick_tasks OS_MAX_TCBS (OSTCBList (s1 st)) (s1 st) = Inr s' \<and> kernel_inv s' pcs \<and> OSIntNesting s' = OSIntNesting s" for st
  proof -
    from kernel_invD(15) [OF k1] obtain us i where "tcb_list (s1 st) us i" by blast
    then have "chain (OSTCBTbl (s1 st)) (OSTCBList (s1 st)) (us @ [i])" "task_at (s1 st) 31 i" "distinct us"
      "\<forall>t \<in> set us. \<exists>p. p \<noteq> 31 \<and> task_at (s1 st) p t" "length us < OS_MAX_TCBS"
      by (auto simp: tcb_list_def)
    from tick_tasks_inv [OF k1 this] show ?thesis by (auto simp: same_context_def s1_def)
  qed
  have run: "OSTimeTick s = (if OSTickStepState s = 1 then Inr (s1 1)
      else tick_tasks OS_MAX_TCBS (OSTCBList (s1 (if OSTickStepState s = 2 then 1 else 0))) (s1 (if OSTickStepState s = 2 then 1 else 0)))"
    using kernel_invD(5) [OF assms(1)] by (auto simp: OSTimeTick_def s1_def Let_def)
  have nz: "OSIntNesting s \<noteq> 0" using assms(2) by (simp add: word_gt_0)
  show ?thesis
  proof (cases "OSTickStepState s = 1")
    case True
    moreover have "scheduled (s1 1)" using nz by (simp add: scheduled_def s1_def)
    ultimately show ?thesis using run k1 by simp
  next
    case False
    with run walk [of "if OSTickStepState s = 2 then 1 else 0"] nz show ?thesis
      by (auto simp: scheduled_def)
  qed
qed

section \<open>Steps\<close>

datatype kop =
    SemPend "nat option" u16 | MboxPend "nat option" u16 | QPend "nat option" u16 | Back
  | SemPost "nat option" | MboxPost "nat option" vptr | QPost "nat option" vptr
  | SemAbort "nat option" u8 | SemAccept "nat option" | SemSet "nat option" u16
  | Delay u16 | DelayResume u8 | Suspend u8 | ResumeTask u8
  | Lock | Unlock | EnterIsr | LeaveIsr | Tick

text \<open>A task other than the idle task, in its own code; an interrupt handler.\<close>

definition in_task :: "os \<Rightarrow> (nat \<Rightarrow> pc) \<Rightarrow> bool" where
  "in_task s pcs \<longleftrightarrow> OSIntNesting s = 0 \<and> unat (OSPrioCur s) \<noteq> 31 \<and> pcs (unat (OSPrioCur s)) = Own"

definition in_isr :: "os \<Rightarrow> bool" where
  "in_isr s \<longleftrightarrow> OSIntNesting s > 0"

text \<open>Who may make which call. A task behind the \<open>OS_Sched\<close> of a pend goes on when it runs again, with the
  scheduler unlocked; interrupts nest at most 255 deep; the idle task is not to be suspended.\<close>

fun allowed :: "kop \<Rightarrow> os \<Rightarrow> (nat \<Rightarrow> pc) \<Rightarrow> bool" where
  "allowed (SemPend pe t) s pcs = in_task s pcs"
| "allowed (MboxPend pe t) s pcs = in_task s pcs"
| "allowed (QPend pe t) s pcs = in_task s pcs"
| "allowed Back s pcs = (OSIntNesting s = 0 \<and> OSLockNesting s = 0 \<and> pcs (unat (OSPrioCur s)) \<noteq> Own)"
| "allowed (SemPost pe) s pcs = (in_task s pcs \<or> in_isr s)"
| "allowed (MboxPost pe m) s pcs = (in_task s pcs \<or> in_isr s)"
| "allowed (QPost pe m) s pcs = (in_task s pcs \<or> in_isr s)"
| "allowed (SemAbort pe opt) s pcs = (in_task s pcs \<or> in_isr s)"
| "allowed (SemAccept pe) s pcs = (in_task s pcs \<or> in_isr s)"
| "allowed (SemSet pe n) s pcs = (in_task s pcs \<or> in_isr s)"
| "allowed (Delay n) s pcs = in_task s pcs"
| "allowed (DelayResume p) s pcs = (in_task s pcs \<or> in_isr s)"
| "allowed (Suspend p) s pcs = (in_task s pcs \<or> in_isr s \<and> unat (OSPrioCur s) \<noteq> 31)"
| "allowed (ResumeTask p) s pcs = (in_task s pcs \<or> in_isr s)"
| "allowed Lock s pcs = in_task s pcs"
| "allowed Unlock s pcs = in_task s pcs"
| "allowed EnterIsr s pcs = (OSIntNesting s < 255)"
| "allowed LeaveIsr s pcs = in_isr s"
| "allowed Tick s pcs = in_isr s"

text \<open>A pend that has to wait leaves the caller behind its \<open>OS_Sched\<close>.\<close>

definition pended :: "kind \<Rightarrow> nat option \<Rightarrow> os \<Rightarrow> (nat \<Rightarrow> pc) \<Rightarrow> 'a pend \<times> os \<Rightarrow> (os \<times> (nat \<Rightarrow> pc)) res" where
  "pended k pe s pcs r = Inr (snd r, case (fst r, pe) of
     (Waiting, Some e) \<Rightarrow> pcs(unat (OSPrioCur s) := InPend k e) | _ \<Rightarrow> pcs)"

fun kstep :: "kop \<Rightarrow> os \<Rightarrow> (nat \<Rightarrow> pc) \<Rightarrow> (os \<times> (nat \<Rightarrow> pc)) res" where
  "kstep (SemPend pe t) s pcs = rbind (OSSemPend pe t s) (pended SemK pe s pcs)"
| "kstep (MboxPend pe t) s pcs = rbind (OSMboxPend pe t s) (pended MboxK pe s pcs)"
| "kstep (QPend pe t) s pcs = rbind (OSQPend pe t s) (pended QK pe s pcs)"
| "kstep Back s pcs =
     (case pcs (unat (OSPrioCur s)) of
        Own \<Rightarrow> Inr (s, pcs)
      | InPend k e \<Rightarrow> rbind (end_pend k e s) (\<lambda>s'. Inr (s', pcs(unat (OSPrioCur s) := Own))))"
| "kstep (SemPost pe) s pcs = rbind (OSSemPost pe s) (\<lambda>(r, s). Inr (s, pcs))"
| "kstep (MboxPost pe m) s pcs = rbind (OSMboxPost pe m s) (\<lambda>(r, s). Inr (s, pcs))"
| "kstep (QPost pe m) s pcs = rbind (OSQPost pe m s) (\<lambda>(r, s). Inr (s, pcs))"
| "kstep (SemAbort pe opt) s pcs = rbind (OSSemPendAbort pe opt s) (\<lambda>(r, s). Inr (s, pcs))"
| "kstep (SemAccept pe) s pcs = Inr (snd (OSSemAccept pe s), pcs)"
| "kstep (SemSet pe n) s pcs = Inr (snd (OSSemSet pe n s), pcs)"
| "kstep (Delay n) s pcs = rbind (OSTimeDly n s) (\<lambda>s. Inr (s, pcs))"
| "kstep (DelayResume p) s pcs = rbind (OSTimeDlyResume p s) (\<lambda>(r, s). Inr (s, pcs))"
| "kstep (Suspend p) s pcs = rbind (OSTaskSuspend p s) (\<lambda>(r, s). Inr (s, pcs))"
| "kstep (ResumeTask p) s pcs = rbind (OSTaskResume p s) (\<lambda>(r, s). Inr (s, pcs))"
| "kstep Lock s pcs = Inr (OSSchedLock s, pcs)"
| "kstep Unlock s pcs = rbind (OSSchedUnlock s) (\<lambda>s. Inr (s, pcs))"
| "kstep EnterIsr s pcs = Inr (OSIntEnter s, pcs)"
| "kstep LeaveIsr s pcs = rbind (OSIntExit s) (\<lambda>s. Inr (s, pcs))"
| "kstep Tick s pcs = rbind (OSTimeTick s) (\<lambda>s. Inr (s, pcs))"

lemma pended_inv:
  assumes "\<exists>r s'. f = Inr (r, s') \<and> scheduled s' \<and> kernel_inv s' (case (r, pe) of (Waiting, Some e) \<Rightarrow>
      pcs(unat (OSPrioCur s) := InPend k e) | _ \<Rightarrow> pcs)"
  shows "\<exists>s' pcs'. rbind f (pended k pe s pcs) = Inr (s', pcs') \<and> kernel_inv s' pcs' \<and> scheduled s'"
  using assms by (auto simp: pended_def)

lemma kstep_inv:
  assumes "kernel_inv s pcs" "scheduled s" "allowed x s pcs"
  shows "\<exists>s' pcs'. kstep x s pcs = Inr (s', pcs') \<and> kernel_inv s' pcs' \<and> scheduled s'"
proof (cases x)
  case (SemPend pe t)
  then show ?thesis using assms(3) pended_inv [OF SemPend_inv [OF assms(1, 2)]] by (simp add: in_task_def)
next
  case (MboxPend pe t)
  then show ?thesis using assms(3) pended_inv [OF MboxPend_inv [OF assms(1, 2)]] by (simp add: in_task_def)
next
  case (QPend pe t)
  then show ?thesis using assms(3) pended_inv [OF QPend_inv [OF assms(1, 2)]] by (simp add: in_task_def)
next
  case Back
  with assms(3) obtain k e where "pcs (unat (OSPrioCur s)) = InPend k e" by (cases "pcs (unat (OSPrioCur s))") auto
  with end_pend_inv [OF assms(1, 2) _ _ this] assms(3) Back show ?thesis by auto
next
  case (SemPost pe)
  with SemPost_inv [OF assms(1, 2), of pe] show ?thesis by auto
next
  case (MboxPost pe m)
  with MboxPost_inv [OF assms(1, 2), of pe m] show ?thesis by auto
next
  case (QPost pe m)
  with QPost_inv [OF assms(1, 2), of pe m] show ?thesis by auto
next
  case (SemAbort pe opt)
  with SemAbort_inv [OF assms(1, 2), of pe opt] show ?thesis by auto
next
  case (SemAccept pe)
  with SemSet_inv(3, 4) [OF assms(1, 2), of pe] show ?thesis by simp
next
  case (SemSet pe n)
  with SemSet_inv(1, 2) [OF assms(1, 2), of pe n] show ?thesis by simp
next
  case (Delay n)
  with OSTimeDly_inv [OF assms(1, 2), of n] assms(3) show ?thesis by (auto simp: in_task_def)
next
  case (DelayResume p)
  with OSTimeDlyResume_inv [OF assms(1, 2), of p] show ?thesis by auto
next
  case (Suspend p)
  with OSTaskSuspend_inv [OF assms(1, 2), of p] assms(3) show ?thesis by (auto simp: in_task_def)
next
  case (ResumeTask p)
  with OSTaskResume_inv [OF assms(1, 2), of p] show ?thesis by auto
next
  case Lock
  with Lock_inv [OF assms(1, 2)] show ?thesis by simp
next
  case Unlock
  with Lock_inv(3) [OF assms(1, 2)] show ?thesis by auto
next
  case EnterIsr
  with IntEnter_inv [OF assms(1)] assms(3) show ?thesis by simp
next
  case LeaveIsr
  with IntExit_inv [OF assms(1)] assms(3) show ?thesis by (auto simp: in_isr_def)
next
  case Tick
  with Tick_inv [OF assms(1)] assms(3) show ?thesis by (auto simp: in_isr_def)
qed

text \<open>The configurations a run can reach.\<close>

inductive kreach :: "os \<times> (nat \<Rightarrow> pc) \<Rightarrow> os \<times> (nat \<Rightarrow> pc) \<Rightarrow> bool" for c where
  start: "kreach c c"
| step: "kreach c (s, pcs) \<Longrightarrow> allowed x s pcs \<Longrightarrow> kstep x s pcs = Inr c' \<Longrightarrow> kreach c c'"

inductive_cases kreachE: "kreach c c'"

lemma kreach_inv:
  assumes "kreach c c'" "kernel_inv (fst c) (snd c)" "scheduled (fst c)"
  shows "kernel_inv (fst c') (snd c') \<and> scheduled (fst c')"
  using assms
proof (induction rule: kreach.induct)
  case (step s pcs x c')
  from kstep_inv [of s pcs x] step show ?case by auto
qed simp

end
