(* ===== verification/Os_Flag.thy ===== *)
theory Os_Flag
  imports Os_Event
begin

text \<open>
  Event flags of the uC/OS-II kernel, \<open>os_flag.c\<close> in \<open>src/lcd-demo/ucos/uCOS-II/Source\<close>: groups of 16 flags,
  a task waits until all or any of the flags it names are set, or cleared. A group has a doubly linked
  list of nodes, one for every waiting task. \<open>OSFlagPend\<close> is split at its call of \<open>OS_Sched\<close>.
\<close>

abbreviation OS_STAT_FLAG :: u8 where "OS_STAT_FLAG \<equiv> 0x20"
abbreviation OS_EVENT_TYPE_FLAG :: u8 where "OS_EVENT_TYPE_FLAG \<equiv> 5"
abbreviation OS_FLAG_WAIT_CLR_ALL :: u8 where "OS_FLAG_WAIT_CLR_ALL \<equiv> 0"
abbreviation OS_FLAG_WAIT_CLR_ANY :: u8 where "OS_FLAG_WAIT_CLR_ANY \<equiv> 1"
abbreviation OS_FLAG_WAIT_SET_ALL :: u8 where "OS_FLAG_WAIT_SET_ALL \<equiv> 2"
abbreviation OS_FLAG_WAIT_SET_ANY :: u8 where "OS_FLAG_WAIT_SET_ANY \<equiv> 3"
abbreviation OS_FLAG_CONSUME :: u8 where "OS_FLAG_CONSUME \<equiv> 0x80"
abbreviation OS_FLAG_CLR :: u8 where "OS_FLAG_CLR \<equiv> 0"
abbreviation OS_FLAG_SET :: u8 where "OS_FLAG_SET \<equiv> 1"
abbreviation OS_ERR_FLAG_INVALID_PGRP :: u8 where "OS_ERR_FLAG_INVALID_PGRP \<equiv> 110"
abbreviation OS_ERR_FLAG_WAIT_TYPE :: u8 where "OS_ERR_FLAG_WAIT_TYPE \<equiv> 111"
abbreviation OS_ERR_FLAG_NOT_RDY :: u8 where "OS_ERR_FLAG_NOT_RDY \<equiv> 112"
abbreviation OS_ERR_FLAG_INVALID_OPT :: u8 where "OS_ERR_FLAG_INVALID_OPT \<equiv> 113"
abbreviation OS_ERR_FLAG_GRP_DEPLETED :: u8 where "OS_ERR_FLAG_GRP_DEPLETED \<equiv> 114"
abbreviation OS_ERR_FLAG_NAME_TOO_LONG :: u8 where "OS_ERR_FLAG_NAME_TOO_LONG \<equiv> 115"

definition OS_MAX_FLAGS :: nat where "OS_MAX_FLAGS = 5"

definition grp_upd :: "nat \<Rightarrow> (flag_grp \<Rightarrow> flag_grp) \<Rightarrow> os \<Rightarrow> os" where
  "grp_upd g f s = s\<lparr>OSFlagTbl := (OSFlagTbl s)(g := f (OSFlagTbl s g))\<rparr>"

definition node_upd :: "nat \<Rightarrow> (flag_node \<Rightarrow> flag_node) \<Rightarrow> os \<Rightarrow> os" where
  "node_upd n f s = s\<lparr>flag_nodes := (flag_nodes s)(n := f (flag_nodes s n))\<rparr>"

text \<open>\<open>(OS_FLAG_NODE *)pgrp->OSFlagWaitList\<close>, and the pointer a node is stored as.\<close>

definition first_node :: "vptr \<Rightarrow> nat option res" where
  "first_node p = (case p of Null \<Rightarrow> Inr None | NodePtr n \<Rightarrow> Inr (Some n) | _ \<Rightarrow> Inl OutOfBounds)"

definition node_ptr :: "nat option \<Rightarrow> vptr" where
  "node_ptr c = (case c of None \<Rightarrow> Null | Some n \<Rightarrow> NodePtr n)"

section \<open>Waiting conditions\<close>

text \<open>The cases of the \<open>switch\<close> over the type of waiting: which of the flags are as they should be, and is
  that enough; \<open>None\<close> is the default case.\<close>

definition flags_found :: "u8 \<Rightarrow> u16 \<Rightarrow> u16 \<Rightarrow> (u16 \<times> bool) option" where
  "flags_found wait_type cur flags =
     (if wait_type = OS_FLAG_WAIT_SET_ALL then Some (cur AND flags, cur AND flags = flags)
      else if wait_type = OS_FLAG_WAIT_SET_ANY then Some (cur AND flags, cur AND flags \<noteq> 0)
      else if wait_type = OS_FLAG_WAIT_CLR_ALL then Some (NOT cur AND flags, NOT cur AND flags = flags)
      else if wait_type = OS_FLAG_WAIT_CLR_ANY then Some (NOT cur AND flags, NOT cur AND flags \<noteq> 0)
      else None)"

text \<open>Consuming: clear the flags that were waited for to be set, set those waited for to be cleared.\<close>

definition flags_consume :: "u8 \<Rightarrow> u16 \<Rightarrow> u16 \<Rightarrow> u16" where
  "flags_consume wait_type flags_rdy cur =
     (if wait_type = OS_FLAG_WAIT_SET_ALL \<or> wait_type = OS_FLAG_WAIT_SET_ANY then cur AND NOT flags_rdy
      else cur OR flags_rdy)"

section \<open>Groups\<close>

definition OS_FlagInit :: "os \<Rightarrow> os" where
  "OS_FlagInit s = s\<lparr>
     OSFlagTbl := (\<lambda>i. if i < OS_MAX_FLAGS
        then flag_grp0\<lparr>OSFlagWaitList := if i + 1 < OS_MAX_FLAGS then GrpPtr (i + 1) else Null, OSFlagName := unknown_name\<rparr>
        else OSFlagTbl s i),
     OSFlagFreeList := GrpPtr 0\<rparr>"

definition OSFlagCreate :: "u16 \<Rightarrow> os \<Rightarrow> ((nat option \<times> u8) \<times> os) res" where
  "OSFlagCreate flags s =
     (if OSIntNesting s > 0 then Inr ((None, OS_ERR_CREATE_ISR), s)
      else case OSFlagFreeList s of
        Null \<Rightarrow> Inr ((None, OS_ERR_FLAG_GRP_DEPLETED), s)
      | GrpPtr g \<Rightarrow>
          let s = s\<lparr>OSFlagFreeList := OSFlagWaitList (OSFlagTbl s g)\<rparr>
          in Inr ((Some g, OS_ERR_NONE), grp_upd g (\<lambda>pgrp. pgrp\<lparr>OSFlagType := OS_EVENT_TYPE_FLAG, OSFlagFlags := flags,
               OSFlagWaitList := Null, OSFlagName := unknown_name\<rparr>) s)
      | _ \<Rightarrow> Inl OutOfBounds)"

definition OSFlagAccept :: "nat option \<Rightarrow> u16 \<Rightarrow> u8 \<Rightarrow> os \<Rightarrow> (u16 \<times> u8) \<times> os" where
  "OSFlagAccept pgrp flags wait_type s =
     (case pgrp of
        None \<Rightarrow> ((0, OS_ERR_FLAG_INVALID_PGRP), s)
      | Some g \<Rightarrow>
          if OSFlagType (OSFlagTbl s g) \<noteq> OS_EVENT_TYPE_FLAG then ((0, OS_ERR_EVENT_TYPE), s)
          else
            let consume = (wait_type AND OS_FLAG_CONSUME \<noteq> 0);
                wait_type = wait_type AND NOT OS_FLAG_CONSUME
            in (case flags_found wait_type (OSFlagFlags (OSFlagTbl s g)) flags of
                  None \<Rightarrow> ((0, OS_ERR_FLAG_WAIT_TYPE), s)
                | Some (flags_rdy, enough) \<Rightarrow>
                    if enough then
                      ((flags_rdy, OS_ERR_NONE),
                       if consume then grp_upd g (\<lambda>pgrp. pgrp\<lparr>OSFlagFlags := flags_consume wait_type flags_rdy (OSFlagFlags pgrp)\<rparr>) s
                       else s)
                    else ((flags_rdy, OS_ERR_FLAG_NOT_RDY), s)))"

definition OSFlagQuery :: "nat option \<Rightarrow> os \<Rightarrow> u16 \<times> u8" where
  "OSFlagQuery pgrp s =
     (case pgrp of
        None \<Rightarrow> (0, OS_ERR_FLAG_INVALID_PGRP)
      | Some g \<Rightarrow>
          if OSFlagType (OSFlagTbl s g) \<noteq> OS_EVENT_TYPE_FLAG then (0, OS_ERR_EVENT_TYPE)
          else (OSFlagFlags (OSFlagTbl s g), OS_ERR_NONE))"

section \<open>The wait list\<close>

definition OS_FlagBlock :: "nat \<Rightarrow> u16 \<Rightarrow> u8 \<Rightarrow> u16 \<Rightarrow> os \<Rightarrow> os res" where
  "OS_FlagBlock g flags wait_type timeout s =
     rbind (deref (OSTCBCur s)) (\<lambda>t.
     rbind (first_node (OSFlagWaitList (OSFlagTbl s g))) (\<lambda>pnode_next.
     let s = tcb_upd t (\<lambda>ptcb. ptcb\<lparr>OSTCBStat := OSTCBStat ptcb OR OS_STAT_FLAG, OSTCBStatPend := OS_STAT_PEND_OK,
           OSTCBDly := timeout, OSTCBFlagNode := Some t\<rparr>) s;
         s = node_upd t (\<lambda>pnode. \<lparr>OSFlagNodeNext = pnode_next, OSFlagNodePrev = None, OSFlagNodeTCB = t,
           OSFlagNodeFlagGrp = g, OSFlagNodeFlags = flags, OSFlagNodeWaitType = wait_type\<rparr>) s;
         s = (case pnode_next of None \<Rightarrow> s | Some n \<Rightarrow> node_upd n (\<lambda>pnode. pnode\<lparr>OSFlagNodePrev := Some t\<rparr>) s);
         s = grp_upd g (\<lambda>pgrp. pgrp\<lparr>OSFlagWaitList := NodePtr t\<rparr>) s
     in make_unready t s))"

definition OS_FlagUnlink :: "nat \<Rightarrow> os \<Rightarrow> os" where
  "OS_FlagUnlink n s =
     (let pnode_prev = OSFlagNodePrev (flag_nodes s n);
          pnode_next = OSFlagNodeNext (flag_nodes s n);
          s = (case pnode_prev of
                 None \<Rightarrow>
                   let s = grp_upd (OSFlagNodeFlagGrp (flag_nodes s n)) (\<lambda>pgrp. pgrp\<lparr>OSFlagWaitList := node_ptr pnode_next\<rparr>) s
                   in (case pnode_next of None \<Rightarrow> s | Some m \<Rightarrow> node_upd m (\<lambda>pnode. pnode\<lparr>OSFlagNodePrev := None\<rparr>) s)
               | Some l \<Rightarrow>
                   let s = node_upd l (\<lambda>pnode. pnode\<lparr>OSFlagNodeNext := pnode_next\<rparr>) s
                   in (case pnode_next of None \<Rightarrow> s | Some m \<Rightarrow> node_upd m (\<lambda>pnode. pnode\<lparr>OSFlagNodePrev := pnode_prev\<rparr>) s))
      in tcb_upd (OSFlagNodeTCB (flag_nodes s n)) (\<lambda>ptcb. ptcb\<lparr>OSTCBFlagNode := None\<rparr>) s)"

definition OS_FlagTaskRdy :: "nat \<Rightarrow> u16 \<Rightarrow> os \<Rightarrow> (bool \<times> os) res" where
  "OS_FlagTaskRdy n flags_rdy s =
     (let t = OSFlagNodeTCB (flag_nodes s n);
          s = tcb_upd t (\<lambda>ptcb. ptcb\<lparr>OSTCBDly := 0, OSTCBFlagsRdy := flags_rdy,
                OSTCBStat := OSTCBStat ptcb AND NOT OS_STAT_FLAG, OSTCBStatPend := OS_STAT_PEND_OK\<rparr>) s;
          sched = (OSTCBStat (OSTCBTbl s t) = OS_STAT_RDY)
      in rbind (if sched then make_ready t (OSTCBY (OSTCBTbl s t)) s else Inr s) (\<lambda>s.
         Inr (sched, OS_FlagUnlink n s)))"

section \<open>Pend\<close>

definition OSFlagPend :: "nat option \<Rightarrow> u16 \<Rightarrow> u8 \<Rightarrow> u16 \<Rightarrow> os \<Rightarrow> ((u16 \<times> u8) pend \<times> os) res" where
  "OSFlagPend pgrp flags wait_type timeout s =
     (case pgrp of
        None \<Rightarrow> Inr (Returned (0, OS_ERR_FLAG_INVALID_PGRP), s)
      | Some g \<Rightarrow>
          if OSIntNesting s > 0 then Inr (Returned (0, OS_ERR_PEND_ISR), s)
          else if OSLockNesting s > 0 then Inr (Returned (0, OS_ERR_PEND_LOCKED), s)
          else if OSFlagType (OSFlagTbl s g) \<noteq> OS_EVENT_TYPE_FLAG then Inr (Returned (0, OS_ERR_EVENT_TYPE), s)
          else
            let consume = (wait_type AND OS_FLAG_CONSUME \<noteq> 0);
                wait_type = wait_type AND NOT OS_FLAG_CONSUME
            in (case flags_found wait_type (OSFlagFlags (OSFlagTbl s g)) flags of
                  None \<Rightarrow> Inr (Returned (0, OS_ERR_FLAG_WAIT_TYPE), s)
                | Some (flags_rdy, enough) \<Rightarrow>
                    if enough then
                      let s = (if consume
                            then grp_upd g (\<lambda>pgrp. pgrp\<lparr>OSFlagFlags := flags_consume wait_type flags_rdy (OSFlagFlags pgrp)\<rparr>) s
                            else s)
                      in rbind (deref (OSTCBCur s)) (\<lambda>t.
                         Inr (Returned (flags_rdy, OS_ERR_NONE), tcb_upd t (\<lambda>ptcb. ptcb\<lparr>OSTCBFlagsRdy := flags_rdy\<rparr>) s))
                    else
                      rbind (OS_FlagBlock g flags wait_type timeout s) (\<lambda>s.
                      rbind (OS_Sched s) (\<lambda>s. Inr (Waiting, s)))))"

text \<open>After \<open>OS_Sched\<close>, with the group and the type of waiting the call was made with.\<close>

definition OSFlagPend_resume :: "nat \<Rightarrow> u8 \<Rightarrow> os \<Rightarrow> ((u16 \<times> u8) \<times> os) res" where
  "OSFlagPend_resume g wait_type s =
     rbind (deref (OSTCBCur s)) (\<lambda>t.
     let consume = (wait_type AND OS_FLAG_CONSUME \<noteq> 0);
         wait_type = wait_type AND NOT OS_FLAG_CONSUME;
         pend_stat = OSTCBStatPend (OSTCBTbl s t)
     in if pend_stat \<noteq> OS_STAT_PEND_OK then
          let s = tcb_upd t (\<lambda>ptcb. ptcb\<lparr>OSTCBStatPend := OS_STAT_PEND_OK\<rparr>) s;
              s = OS_FlagUnlink t s;
              s = tcb_upd t (\<lambda>ptcb. ptcb\<lparr>OSTCBStat := OS_STAT_RDY\<rparr>) s
          in Inr ((0, if pend_stat = OS_STAT_PEND_ABORT then OS_ERR_PEND_ABORT else OS_ERR_TIMEOUT), s)
        else
          let flags_rdy = OSTCBFlagsRdy (OSTCBTbl s t)
          in if consume then
               if wait_type \<in> {OS_FLAG_WAIT_SET_ALL, OS_FLAG_WAIT_SET_ANY, OS_FLAG_WAIT_CLR_ALL, OS_FLAG_WAIT_CLR_ANY} then
                 Inr ((flags_rdy, OS_ERR_NONE),
                   grp_upd g (\<lambda>pgrp. pgrp\<lparr>OSFlagFlags := flags_consume wait_type flags_rdy (OSFlagFlags pgrp)\<rparr>) s)
               else Inr ((0, OS_ERR_FLAG_WAIT_TYPE), s)
             else Inr ((flags_rdy, OS_ERR_NONE), s))"

definition OSFlagPendGetFlagsRdy :: "os \<Rightarrow> u16 res" where
  "OSFlagPendGetFlagsRdy s = rbind (deref (OSTCBCur s)) (\<lambda>t. Inr (OSTCBFlagsRdy (OSTCBTbl s t)))"

section \<open>Post\<close>

text \<open>The walk along the wait list, which has at most one node for each of the 18 tasks. The first component
  is None when a node has a type of waiting that is not one, otherwise it tells that a task became ready.\<close>

fun post_nodes :: "nat \<Rightarrow> nat \<Rightarrow> nat option \<Rightarrow> bool \<Rightarrow> os \<Rightarrow> (bool option \<times> os) res" where
  "post_nodes fuel g None sched s = Inr (Some sched, s)"
| "post_nodes 0 g (Some n) sched s = Inl NoEnd"
| "post_nodes (Suc fuel) g (Some n) sched s =
     (let pnode = flag_nodes s n
      in case flags_found (OSFlagNodeWaitType pnode) (OSFlagFlags (OSFlagTbl s g)) (OSFlagNodeFlags pnode) of
           None \<Rightarrow> Inr (None, s)
         | Some (flags_rdy, enough) \<Rightarrow>
             rbind (if enough then OS_FlagTaskRdy n flags_rdy s else Inr (False, s)) (\<lambda>(rdy, s).
             post_nodes fuel g (OSFlagNodeNext (flag_nodes s n)) (rdy \<or> sched) s))"

definition OSFlagPost :: "nat option \<Rightarrow> u16 \<Rightarrow> u8 \<Rightarrow> os \<Rightarrow> ((u16 \<times> u8) \<times> os) res" where
  "OSFlagPost pgrp flags opt s =
     (case pgrp of
        None \<Rightarrow> Inr ((0, OS_ERR_FLAG_INVALID_PGRP), s)
      | Some g \<Rightarrow>
          if OSFlagType (OSFlagTbl s g) \<noteq> OS_EVENT_TYPE_FLAG then Inr ((0, OS_ERR_EVENT_TYPE), s)
          else if opt = OS_FLAG_CLR \<or> opt = OS_FLAG_SET then
            let s = grp_upd g (\<lambda>pgrp. pgrp\<lparr>OSFlagFlags := if opt = OS_FLAG_CLR then OSFlagFlags pgrp AND NOT flags
                  else OSFlagFlags pgrp OR flags\<rparr>) s
            in rbind (first_node (OSFlagWaitList (OSFlagTbl s g))) (\<lambda>pnode.
               rbind (post_nodes OS_MAX_TCBS g pnode False s) (\<lambda>(r, s).
               case r of
                 None \<Rightarrow> Inr ((0, OS_ERR_FLAG_WAIT_TYPE), s)
               | Some sched \<Rightarrow>
                   rbind (if sched then OS_Sched s else Inr s) (\<lambda>s.
                   Inr ((OSFlagFlags (OSFlagTbl s g), OS_ERR_NONE), s))))
          else Inr ((0, OS_ERR_FLAG_INVALID_OPT), s))"

section \<open>Delete and names\<close>

fun ready_nodes :: "nat \<Rightarrow> nat option \<Rightarrow> os \<Rightarrow> os res" where
  "ready_nodes fuel None s = Inr s"
| "ready_nodes 0 (Some n) s = Inl NoEnd"
| "ready_nodes (Suc fuel) (Some n) s =
     rbind (OS_FlagTaskRdy n 0 s) (\<lambda>(rdy, s). ready_nodes fuel (OSFlagNodeNext (flag_nodes s n)) s)"

definition grp_release :: "nat \<Rightarrow> os \<Rightarrow> os" where
  "grp_release g s =
     (let s = grp_upd g (\<lambda>pgrp. pgrp\<lparr>OSFlagName := unknown_name, OSFlagType := OS_EVENT_TYPE_UNUSED,
            OSFlagWaitList := OSFlagFreeList s, OSFlagFlags := 0\<rparr>) s
      in s\<lparr>OSFlagFreeList := GrpPtr g\<rparr>)"

definition OSFlagDel :: "nat option \<Rightarrow> u8 \<Rightarrow> os \<Rightarrow> ((nat option \<times> u8) \<times> os) res" where
  "OSFlagDel pgrp opt s =
     (case pgrp of
        None \<Rightarrow> Inr ((None, OS_ERR_FLAG_INVALID_PGRP), s)
      | Some g \<Rightarrow>
          if OSIntNesting s > 0 then Inr ((Some g, OS_ERR_DEL_ISR), s)
          else if OSFlagType (OSFlagTbl s g) \<noteq> OS_EVENT_TYPE_FLAG then Inr ((Some g, OS_ERR_EVENT_TYPE), s)
          else
            let tasks_waiting = (OSFlagWaitList (OSFlagTbl s g) \<noteq> Null)
            in if opt = 0 then
                 if \<not> tasks_waiting then Inr ((None, OS_ERR_NONE), grp_release g s)
                 else Inr ((Some g, OS_ERR_TASK_WAITING), s)
               else if opt = 1 then
                 rbind (first_node (OSFlagWaitList (OSFlagTbl s g))) (\<lambda>pnode.
                 rbind (ready_nodes OS_MAX_TCBS pnode s) (\<lambda>s.
                 let s = grp_release g s
                 in rbind (if tasks_waiting then OS_Sched s else Inr s) (\<lambda>s. Inr ((None, OS_ERR_NONE), s))))
               else Inr ((Some g, OS_ERR_INVALID_OPT), s))"

definition OSFlagNameGet :: "nat option \<Rightarrow> bool \<Rightarrow> os \<Rightarrow> u8 \<times> (u8 \<times> u8 list) option" where
  "OSFlagNameGet pgrp pname s =
     (case pgrp of
        None \<Rightarrow> (OS_ERR_FLAG_INVALID_PGRP, None)
      | Some g \<Rightarrow>
          if \<not> pname then (OS_ERR_PNAME_NULL, None)
          else if OSIntNesting s > 0 then (OS_ERR_NAME_GET_ISR, None)
          else if OSFlagType (OSFlagTbl s g) \<noteq> OS_EVENT_TYPE_FLAG then (OS_ERR_EVENT_TYPE, None)
          else (OS_ERR_NONE, Some (OS_StrCopy (OSFlagName (OSFlagTbl s g)))))"

definition OSFlagNameSet :: "nat option \<Rightarrow> u8 list option \<Rightarrow> os \<Rightarrow> (u8 \<times> os) res" where
  "OSFlagNameSet pgrp pname s =
     (case (pgrp, pname) of
        (None, _) \<Rightarrow> Inr (OS_ERR_FLAG_INVALID_PGRP, s)
      | (_, None) \<Rightarrow> Inr (OS_ERR_PNAME_NULL, s)
      | (Some g, Some name) \<Rightarrow>
          if OSIntNesting s > 0 then Inr (OS_ERR_NAME_SET_ISR, s)
          else if OSFlagType (OSFlagTbl s g) \<noteq> OS_EVENT_TYPE_FLAG then Inr (OS_ERR_EVENT_TYPE, s)
          else if OS_StrLen name > 15 then Inr (OS_ERR_FLAG_NAME_TOO_LONG, s)
          else rbind (put_name name) (\<lambda>n. Inr (OS_ERR_NONE, grp_upd g (\<lambda>pgrp. pgrp\<lparr>OSFlagName := n\<rparr>) s)))"

end
