(* ===== verification/Os_Boot.thy ===== *)
theory Os_Boot
  imports Os_Machine Os_Flag
begin

text \<open>
  Start-up: \<open>OSInit\<close>'s lists, the creation of the idle task and then of the application's tasks, and
  \<open>OSStart\<close> establish the invariant of the running kernel.
\<close>

section \<open>Before multitasking\<close>

text \<open>The invariant after \<open>n\<close> tasks have been created: control blocks 0 to n - 1 are in use and linked
  backwards, the rest is the free list.\<close>

definition free_from :: "nat \<Rightarrow> tcb_ref" where
  "free_from n = (if n < OS_MAX_TCBS then Tcb n else NoTcb)"

definition boot_inv :: "os \<Rightarrow> nat \<Rightarrow> bool" where
  "boot_inv s n \<longleftrightarrow> tables_ok s \<and> list_ok (ready_list s) \<and> ready s = {p. \<exists>t. task_at s p t}
     \<and> (\<forall>e. list_ok (wait_list s e) \<and> waits s e = {}) \<and> events_ok s \<and> \<not> OSRunning s \<and> OSIntNesting s = 0 \<and> OSLockNesting s = 0
     \<and> (\<forall>p t. task_at s p t \<longrightarrow> t < n \<and> OSTCBStat (OSTCBTbl s t) = 0 \<and> OSTCBDly (OSTCBTbl s t) = 0
          \<and> OSTCBEventMultiPtr (OSTCBTbl s t) = None)
     \<and> n \<le> OS_MAX_TCBS \<and> OSTCBFreeList s = free_from n
     \<and> (\<forall>i. n \<le> i \<and> i < OS_MAX_TCBS \<longrightarrow> OSTCBNext (OSTCBTbl s i) = free_from (Suc i))
     \<and> chain (OSTCBTbl s) (OSTCBList s) (rev [0..<n]) \<and> (\<forall>t < n. \<exists>p. task_at s p t \<and> (p = 31 \<longleftrightarrow> t = 0))"

definition os_init :: os where
  "os_init = OS_QInit (OS_FlagInit (OS_InitEventList (OS_InitTCBList (OS_InitRdyList (OS_InitMisc os_bss)))))"

lemma boot_inv_init: "boot_inv os_init 0"
proof -
  have r: "ready_list os_init = (0, [0, 0, 0, 0])"
    by (simp add: os_init_def OS_QInit_def OS_FlagInit_def OS_InitEventList_def OS_InitTCBList_def OS_InitRdyList_def OS_InitMisc_def
        ready_list_def OS_RDY_TBL_SIZE_def numeral_eq_Suc)
  have w: "wait_list os_init e = (0, [0, 0, 0, 0])" for e
    by (simp add: os_init_def OS_QInit_def OS_FlagInit_def OS_InitEventList_def OS_InitTCBList_def OS_InitRdyList_def OS_InitMisc_def
        wait_list_def os_bss_def ecb0_def)
  have pt: "OSTCBPrioTbl os_init = replicate 32 NoTcb"
    by (simp add: os_init_def OS_QInit_def OS_FlagInit_def OS_InitEventList_def OS_InitTCBList_def)
  have no: "\<not> task_at os_init p t" for p t by (simp add: task_at_def pt)
  have c: "\<not> OSRunning os_init" "OSIntNesting os_init = 0" "OSLockNesting os_init = 0" "OSTCBFreeList os_init = Tcb 0"
    "OSTCBList os_init = NoTcb" "i < OS_MAX_TCBS \<Longrightarrow> OSTCBNext (OSTCBTbl os_init i) = free_from (Suc i)" for i
    by (simp_all add: os_init_def OS_QInit_def OS_FlagInit_def OS_InitEventList_def OS_InitTCBList_def OS_InitRdyList_def OS_InitMisc_def
        free_from_def)
  have t: "tables_ok os_init" by (simp add: tables_ok_def no) (simp add: pt)
  have e: "events_ok os_init"
    by (simp add: events_ok_def os_init_def OS_QInit_def OS_FlagInit_def OS_InitEventList_def OS_InitTCBList_def OS_InitRdyList_def
        OS_InitMisc_def os_bss_def ecb0_def)
  show ?thesis unfolding boot_inv_def r w by (simp add: t e no c list_ok_empty) (simp add: free_from_def OS_MAX_TCBS_def)
qed

section \<open>Creating a task\<close>

lemma prio_fields_word:
  assumes "p < 32"
  shows "drop_bit 3 (of_nat p :: u8) = prio_y p" "unat ((of_nat p :: u8) AND 7) = p mod 8"
    "push_bit (unat (drop_bit 3 (of_nat p :: u8))) 1 = prio_bity p"
    "push_bit (unat ((of_nat p :: u8) AND 7)) 1 = prio_bitx p"
proof -
  show a: "drop_bit 3 (of_nat p :: u8) = prio_y p"
    unfolding word_unat_eq_iff unsigned_drop_bit_eq prio_fields(1) [OF assms] unat_prio [OF assms]
    using assms by (simp add: drop_bit_eq_div take_bit_nat_eq_self)
  have "(of_nat p :: u8) AND 7 = take_bit 3 (of_nat p)" by (simp add: take_bit_eq_mask mask_eq_exp_minus_1)
  then show m: "unat ((of_nat p :: u8) AND 7) = p mod 8"
    using assms by (simp add: unsigned_take_bit_eq) (simp add: take_bit_eq_mod)
  show "push_bit (unat (drop_bit 3 (of_nat p :: u8))) 1 = prio_bity p"
    using prio_fields(1) [OF assms] by (simp add: a prio_bity_def)
  show "push_bit (unat ((of_nat p :: u8) AND 7)) 1 = prio_bitx p" by (simp add: m prio_bitx_def)
qed

lemma boot_list:
  assumes "boot_inv s n"
  shows "OSTCBList s = (if n = 0 then NoTcb else Tcb (n - 1))"
  using assms by (cases n) (auto simp: boot_inv_def)

lemma chain_cong_on: "(\<And>t. t \<in> set ts \<Longrightarrow> OSTCBNext (h' t) = OSTCBNext (h t)) \<Longrightarrow> chain h' r ts = chain h r ts"
  by (induction ts arbitrary: r) simp_all

lemma OSTaskCreateExt_boot:
  assumes B: "boot_inv s n" and n: "n < OS_MAX_TCBS" and p: "p < 32" "OSTCBPrioTbl s ! p = NoTcb" "p = 31 \<longleftrightarrow> n = 0"
  shows "\<exists>s'. OSTaskCreateExt psp (of_nat p) tid pbos stk_size pext opt s = Inr (OS_ERR_NONE, s') \<and> boot_inv s' (Suc n)
    \<and> OSTCBPrioTbl s' = (OSTCBPrioTbl s)[p := Tcb n] \<and> ready s' = insert p (ready s)"
proof -
  note b = B [unfolded boot_inv_def]
  note W = prio_fields_word [OF p(1)]
  have len: "length (OSTCBPrioTbl s) = 32" using b by (simp add: tables_ok_def)
  define f :: "tcb \<Rightarrow> tcb" where "f = (\<lambda>ptcb. ptcb\<lparr>OSTCBStkPtr := psp, OSTCBPrio := of_nat p, OSTCBStat := OS_STAT_RDY,
                    OSTCBStatPend := OS_STAT_PEND_OK, OSTCBDly := 0, OSTCBExtPtr := pext, OSTCBStkSize := stk_size,
                    OSTCBStkBottom := pbos, OSTCBOpt := opt, OSTCBId := tid, OSTCBDelReq := OS_ERR_NONE,
                    OSTCBY := prio_y p, OSTCBX := of_nat p AND 7, OSTCBBitY := prio_bity p, OSTCBBitX := prio_bitx p,
                    OSTCBEventPtr := None, OSTCBEventMultiPtr := None, OSTCBFlagNode := None, OSTCBMsg := Null, OSTCBCtxSwCtr := 0,
                    OSTCBTaskName := unknown_name\<rparr>)"
  define s1 where "s1 = s\<lparr>OSTCBPrioTbl := (OSTCBPrioTbl s)[p := Reserved]\<rparr>"
  define s2 where "s2 = tcb_upd n f (s1\<lparr>OSTCBFreeList := OSTCBNext (OSTCBTbl s1 n)\<rparr>)"
  define s3 where "s3 = s2\<lparr>OSTCBPrioTbl := (OSTCBPrioTbl s2)[p := Tcb n]\<rparr>"
  define s4 where "s4 = tcb_upd n (\<lambda>ptcb. ptcb\<lparr>OSTCBNext := OSTCBList s3, OSTCBPrev := NoTcb\<rparr>) s3"
  define s5 where "s5 = (if n = 0 then s4 else tcb_upd (n - 1) (\<lambda>ptcb. ptcb\<lparr>OSTCBPrev := Tcb n\<rparr>) s4)"
  define s6 where "s6 = s5\<lparr>OSTCBList := Tcb n\<rparr>"
  have L: "OSTCBList s4 = (if n = 0 then NoTcb else Tcb (n - 1))" "OSTCBList s3 = OSTCBList s"
    using boot_list [OF B] by (simp_all add: s4_def s3_def s2_def s1_def tcb_upd_def)
  have len3: "length (OSTCBPrioTbl s2) = 32" "OSTCBPrioTbl s6 = (OSTCBPrioTbl s)[p := Tcb n]"
    using len by (simp_all add: s6_def s5_def s4_def s3_def s2_def s1_def tcb_upd_def)
  have tcb_n: "OSTCBTbl s6 n = (f (OSTCBTbl s n))\<lparr>OSTCBNext := OSTCBList s, OSTCBPrev := NoTcb\<rparr>"
    using L(2) by (simp add: s6_def s5_def s4_def) (simp add: s3_def s2_def s1_def tcb_upd_def)
  have tcb_o: "\<exists>x. OSTCBTbl s6 i = (OSTCBTbl s i)\<lparr>OSTCBPrev := x\<rparr>" if "i \<noteq> n" for i
  proof (cases "n \<noteq> 0 \<and> i = n - 1")
    case True
    with that show ?thesis
      by (intro exI [of _ "Tcb n"]) (simp add: s6_def s5_def s4_def s3_def s2_def s1_def tcb_upd_def)
  next
    case False
    with that show ?thesis
      by (intro exI [of _ "OSTCBPrev (OSTCBTbl s i)"])
         (auto simp: s6_def s5_def s4_def s3_def s2_def s1_def tcb_upd_def)
  qed
  have at: "task_at s6 q t \<longleftrightarrow> (if q = p then t = n else task_at s q t)" for q t
    using p(1) len by (auto simp: task_at_def len3(2) nth_list_update)
  have old: "t < n" "t \<noteq> n" if "task_at s q t" for q t using b that by auto
  have rl: "ready_list s6 = ready_list s" and wl: "wait_list s6 e = wait_list s e" for e
    by (simp_all add: s6_def s5_def s4_def s3_def s2_def s1_def tcb_upd_def ready_list_def wait_list_def)
  have tab: "tables_ok s6" unfolding tables_ok_def
  proof (intro conjI allI impI)
    show "length (OSTCBPrioTbl s6) = 32" using len by (simp add: len3)
    fix q t assume "task_at s6 q t"
    then show "tcb_fields q (OSTCBTbl s6 t)"
    proof (cases "q = p")
      case True
      with \<open>task_at s6 q t\<close> show ?thesis by (simp add: at tcb_n f_def tcb_fields_def)
    next
      case False
      with \<open>task_at s6 q t\<close> have "task_at s q t" by (simp add: at)
      with b old(2) tcb_o [of t] show ?thesis by (auto simp: tables_ok_def tcb_fields_def)
    qed
  qed
  have "task_at s6 p n" by (simp add: at)
  from make_ready_ok [OF tab this, of "prio_y p"] b obtain l where
    l: "make_ready n (prio_y p) s6 = Inr (set_ready l s6)" "list_ok l" "prios l = insert p (ready s)" by (auto simp: rl)
  define s7 where "s7 = (set_ready l s6)\<lparr>OSTaskCtr := OSTaskCtr (set_ready l s6) + 1\<rparr>"
  have init: "OS_TCBInit (of_nat p) psp pbos tid stk_size pext opt s1 = Inr (OS_ERR_NONE, s7)"
  proof -
    have free: "OSTCBFreeList s1 = Tcb n" using b n by (simp add: s1_def free_from_def)
    have link: "(if OSTCBList s4 = NoTcb then Inr s4
       else rbind (deref (OSTCBList s4)) (\<lambda>h. Inr (tcb_upd h (\<lambda>ptcb. ptcb\<lparr>OSTCBPrev := Tcb n\<rparr>) s4))) = Inr s5"
      by (simp add: L s5_def deref_def)
    have W3: "push_bit (unat (prio_y p)) 1 = prio_bity p" using W(1, 3) by simp
    have nle: "\<not> 32 \<le> p" using p(1) by simp
    show ?thesis
      unfolding OS_TCBInit_def free tcb_ref.case Let_def unat_prio [OF p(1)] W(1, 4) W3 f_def [symmetric] s2_def [symmetric]
        len3(1) if_not_P [OF nle] s3_def [symmetric] s4_def [symmetric] link rbind_Inr s6_def [symmetric] l(1)
        s7_def [symmetric] ..
  qed
  have run: "OSTaskCreateExt psp (of_nat p) tid pbos stk_size pext opt s = Inr (OS_ERR_NONE, s7)"
  proof -
    have "\<not> (31 :: u8) < of_nat p" using p(1) by (simp add: word_less_nat_alt)
    moreover have "\<not> OSRunning s7"
      using b by (simp add: s7_def set_ready_def s6_def s5_def s4_def s3_def s2_def s1_def tcb_upd_def)
    ultimately show ?thesis
      using b p init len by (simp add: OSTaskCreateExt_def prio_entry_def s1_def [symmetric])
  qed
  have same: "task_at s7 = task_at s6" "OSTCBTbl s7 = OSTCBTbl s6" "ready s7 = insert p (ready s)" "wait_list s7 e = wait_list s e"
    "list_ok (ready_list s7)" "OSTCBPrioTbl s7 = OSTCBPrioTbl s6" "OSEcbTbl s7 = OSEcbTbl s" "OSTCBList s7 = Tcb n"
    "\<not> OSRunning s7" "OSIntNesting s7 = 0" "OSLockNesting s7 = 0" "OSTCBFreeList s7 = OSTCBNext (OSTCBTbl s n)" for e
    using l b wl by (simp_all add: s7_def set_ready_def ready_list_def wait_list_def task_at_def fun_eq_iff)
      (simp_all add: s6_def s5_def s4_def s3_def s2_def s1_def tcb_upd_def)
  have nxt: "OSTCBNext (OSTCBTbl s7 i) = OSTCBNext (OSTCBTbl s i)" if "i \<noteq> n" for i
    using tcb_o [OF that] by (auto simp: same)
  have "boot_inv s7 (Suc n)" unfolding boot_inv_def
  proof (intro conjI allI impI)
    show "tables_ok s7" using tab by (simp add: tables_ok_def same)
    show "list_ok (ready_list s7)" by (rule same)
    show "ready s7 = {q. \<exists>t. task_at s7 q t}" using b by (auto simp: same at)
    show "list_ok (wait_list s7 e)" "waits s7 e = {}" for e using b by (simp_all add: same)
    show "events_ok s7" using b by (simp add: events_ok_def same)
    show "\<not> OSRunning s7" "OSIntNesting s7 = 0" "OSLockNesting s7 = 0" by (simp_all add: same)
    show "t < Suc n" if "task_at s7 q t" for q t using that old by (auto simp: same at less_Suc_eq split: if_splits)
    show "OSTCBStat (OSTCBTbl s7 t) = 0" "OSTCBDly (OSTCBTbl s7 t) = 0" "OSTCBEventMultiPtr (OSTCBTbl s7 t) = None"
      if "task_at s7 q t" for q t
    proof -
      have "OSTCBStat (OSTCBTbl s7 t) = 0 \<and> OSTCBDly (OSTCBTbl s7 t) = 0 \<and> OSTCBEventMultiPtr (OSTCBTbl s7 t) = None"
      proof (cases "q = p")
        case True
        with that show ?thesis by (simp add: same at tcb_n f_def)
      next
        case False
        with that have "task_at s q t" by (simp add: same at)
        with b old(2) tcb_o [of t] show ?thesis by (auto simp: same)
      qed
      then show "OSTCBStat (OSTCBTbl s7 t) = 0" "OSTCBDly (OSTCBTbl s7 t) = 0" "OSTCBEventMultiPtr (OSTCBTbl s7 t) = None"
        by simp_all
    qed
    show "Suc n \<le> OS_MAX_TCBS" using n by simp
    show "OSTCBFreeList s7 = free_from (Suc n)" using b n by (simp add: same)
    show "OSTCBNext (OSTCBTbl s7 i) = free_from (Suc i)" if "Suc n \<le> i \<and> i < OS_MAX_TCBS" for i
      using that b nxt [of i] by simp
    have "chain (OSTCBTbl s7) (OSTCBList s) (rev [0..<n]) = chain (OSTCBTbl s) (OSTCBList s) (rev [0..<n])"
      by (rule chain_cong_on) (simp add: nxt)
    then show "chain (OSTCBTbl s7) (OSTCBList s7) (rev [0..<Suc n])" using b by (simp add: same tcb_n)
    show "\<exists>q. task_at s7 q t \<and> (q = 31 \<longleftrightarrow> t = 0)" if "t < Suc n" for t
    proof (cases "t = n")
      case True
      then show ?thesis using p(3) by (auto simp: same at)
    next
      case False
      with that b obtain q where "task_at s q t" "q = 31 \<longleftrightarrow> t = 0" by (auto simp: less_Suc_eq)
      moreover from this(1) have "q \<noteq> p" using p(2) by (auto simp: task_at_def)
      ultimately show ?thesis by (auto simp: same at)
    qed
  qed
  with run same(3, 6) len3(2) show ?thesis by auto
qed

lemma OSTaskCreate_Ext: "OSTaskCreate psp prio s = OSTaskCreateExt psp prio 0 0 0 Null 0 s"
  by (simp add: OSTaskCreate_def OSTaskCreateExt_def)

lemmas OSTaskCreate_boot = OSTaskCreateExt_boot [where tid = 0 and pbos = 0 and stk_size = 0 and pext = Null and opt = 0,
  folded OSTaskCreate_Ext]

section \<open>Starting\<close>

lemma OSStart_boot:
  assumes B: "boot_inv s n" and n: "0 < n"
  shows "\<exists>s'. OSStart s = Inr s' \<and> kernel_inv s' (\<lambda>p. Own) \<and> scheduled s' \<and> ready s' = ready s
    \<and> (\<forall>e. OSEcbTbl s' e = OSEcbTbl s e) \<and> OSTCBPrioTbl s' = OSTCBPrioTbl s \<and> OSTCBTbl s' = OSTCBTbl s
    \<and> OSTickStepState s' = OSTickStepState s \<and> OSIntNesting s' = 0 \<and> OSLockNesting s' = 0"
proof -
  note b = B [unfolded boot_inv_def]
  have i0: "task_at s 31 0" using b n by auto
  then have "31 \<in> ready s" using b by auto
  then have ne: "ready s \<noteq> {}" by auto
  define m where "m = Min (ready s)"
  have "m \<in> ready s" unfolding m_def using ne by (intro Min_in) simp_all
  then obtain t where t: "task_at s m t" using b by auto
  have m: "m < 32" using t by (simp add: task_at_def)
  have f: "OS_SchedNew s = Inr (s\<lparr>OSPrioHighRdy := of_nat m\<rparr>)"
    using b ne ps.first_ok by (simp add: m_def OS_SchedNew_def)
  define s' where "s' = s\<lparr>OSPrioHighRdy := of_nat m, OSPrioCur := of_nat m, OSTCBHighRdy := Tcb t, OSTCBCur := Tcb t, OSRunning := True\<rparr>"
  have e: "prio_entry (s\<lparr>OSPrioHighRdy := of_nat m, OSPrioCur := of_nat m\<rparr>) (of_nat m) = Inr (Tcb t)"
    using b tables_entry [of s m t] t by (simp add: prio_entry_def split: if_splits)
  have run: "OSStart s = Inr s'" using b by (simp add: OSStart_def f e s'_def Let_def)
  have same: "task_at s' = task_at s" "ready_list s' = ready_list s" "wait_list s' e = wait_list s e" "OSEcbTbl s' = OSEcbTbl s"
    "OSTCBTbl s' = OSTCBTbl s" "OSTCBPrioTbl s' = OSTCBPrioTbl s" "OSTCBList s' = OSTCBList s" for e
    by (simp_all add: s'_def task_at_def fun_eq_iff ready_list_def wait_list_def)
  have tl: "tcb_list s' (rev [1..<n]) 0"
  proof -
    have "rev [0..<n] = rev [1..<n] @ [0]" using n by (simp add: upt_conv_Cons)
    then have "chain (OSTCBTbl s) (OSTCBList s) (rev [1..<n] @ [0])" using b by simp
    moreover have "t \<in> set (rev [1..<n]) \<longleftrightarrow> (\<exists>p. p \<noteq> 31 \<and> task_at s p t)" for t
    proof -
      have "tables_ok s" using b by simp
      note inj = task_at_inj [OF this]
      show ?thesis
      proof
        assume "t \<in> set (rev [1..<n])"
        then have "t < n" "t \<noteq> 0" by auto
        with b show "\<exists>p. p \<noteq> 31 \<and> task_at s p t" by blast
      next
        assume "\<exists>p. p \<noteq> 31 \<and> task_at s p t"
        then obtain p where p: "p \<noteq> 31" "task_at s p t" by blast
        then have "t < n" "t \<noteq> 0" using b inj i0 by blast+
        then show "t \<in> set (rev [1..<n])" by simp
      qed
    qed
    moreover have "n - Suc 0 < OS_MAX_TCBS" using b n by auto
    ultimately show ?thesis using i0 by (simp add: tcb_list_def same)
  qed
  have "kernel_inv s' (\<lambda>p. Own)" unfolding kernel_inv_def
  proof (intro conjI allI impI)
    show "tables_ok s'" using b by (simp add: tables_ok_def same)
    show "lists_ok s'" using b by (auto simp: lists_ok_def same)
    show "events_ok s'" using b by (simp add: events_ok_def same)
    show "cur_ok s'" using t m by (simp add: cur_ok_def same) (simp add: s'_def)
    show "\<exists>us i. tcb_list s' us i" using tl by blast
    show "task_ok Own p (OSTCBTbl s' t) (p \<in> ready s') {e. p \<in> waits s' e}" if "task_at s' p t" for p t
      using b that by (auto simp: task_ok_def same)
  qed (use b \<open>31 \<in> ready s\<close> in \<open>simp_all add: same, simp add: s'_def\<close>)
  moreover have "scheduled s'" using m by (simp add: scheduled_def same m_def [symmetric]) (simp add: s'_def)
  moreover have "OSTickStepState s' = OSTickStepState s" "OSIntNesting s' = 0" "OSLockNesting s' = 0" using b by (simp_all add: s'_def)
  moreover have "ready s' = ready s" by (simp only: same(2))
  ultimately show ?thesis using run same(4-6) by simp
qed

end
