(* ===== verification/Os_Queue_Props.thy ===== *)
theory Os_Queue_Props
  imports Os_Queue
begin

text \<open>
  The ring of a message queue is a bounded list: the locale \<open>bounded_deque\<close> is the contract, its client
  is a run of operations, and the interpretation shows that the ring keeps it.
\<close>

section \<open>The contract\<close>

datatype 'a qop = Post 'a | PostFront 'a | Accept | Flush

text \<open>The abstract machine: an operation on a list of at most \<open>n\<close> messages, with what it answers;
  \<open>None\<close> is a refusal.\<close>

fun list_op :: "nat \<Rightarrow> 'a qop \<Rightarrow> 'a list \<Rightarrow> 'a option \<times> 'a list" where
  "list_op n (Post m) xs = (if length xs < n then (Some m, xs @ [m]) else (None, xs))"
| "list_op n (PostFront m) xs = (if length xs < n then (Some m, m # xs) else (None, xs))"
| "list_op n Accept xs = (case xs of [] \<Rightarrow> (None, []) | x # xs' \<Rightarrow> (Some x, xs'))"
| "list_op n Flush xs = (None, [])"

fun run_ops :: "('o \<Rightarrow> 's \<Rightarrow> ('r \<times> 's) res) \<Rightarrow> 'o list \<Rightarrow> 's \<Rightarrow> ('r list \<times> 's) res" where
  "run_ops f [] s = Inr ([], s)"
| "run_ops f (x # xs) s = rbind (f x s) (\<lambda>(r, s). rbind (run_ops f xs s) (\<lambda>(rs, s). Inr (r # rs, s)))"

fun list_run :: "nat \<Rightarrow> 'a qop list \<Rightarrow> 'a list \<Rightarrow> 'a option list \<times> 'a list" where
  "list_run n [] xs = ([], xs)"
| "list_run n (x # ops) xs = (let (r, xs) = list_op n x xs; (rs, xs) = list_run n ops xs in (r # rs, xs))"

locale bounded_deque =
  fixes op :: "'a qop \<Rightarrow> 's \<Rightarrow> ('a option \<times> 's) res"
    and contents :: "'s \<Rightarrow> 'a list"
    and ok :: "'s \<Rightarrow> bool"
    and room :: nat
  assumes op_list: "ok s \<Longrightarrow> \<exists>s'. op x s = Inr (fst (list_op room x (contents s)), s') \<and> ok s'
      \<and> contents s' = snd (list_op room x (contents s))"
    and bounded: "ok s \<Longrightarrow> length (contents s) \<le> room"
begin

lemma run_list:
  "ok s \<Longrightarrow> \<exists>s'. run_ops op xs s = Inr (fst (list_run room xs (contents s)), s') \<and> ok s'
     \<and> contents s' = snd (list_run room xs (contents s))"
proof (induction xs arbitrary: s)
  case (Cons x xs)
  from op_list [OF Cons.prems, of x] obtain s' where
    s': "op x s = Inr (fst (list_op room x (contents s)), s')" "ok s'" "contents s' = snd (list_op room x (contents s))"
    by blast
  from Cons.IH [OF s'(2)] s' show ?case by (auto simp: split_beta)
qed simp

lemma run_bounded: "ok s \<Longrightarrow> run_ops op xs s = Inr (rs, s') \<Longrightarrow> length (contents s') \<le> room"
  using run_list [of s xs] bounded [of s'] by auto

end

section \<open>The ring\<close>

lemma ring_simps [simp]:
  "OSQTbl (qcb_upd q f s) = (OSQTbl s)(q := f (OSQTbl s q))" "cells (qcb_upd q f s) = cells s"
  "OSEcbTbl (qcb_upd q f s) = OSEcbTbl s"
  by (simp_all add: qcb_upd_def)

lemma mod_shift_le: "(a + j) mod n = (a + i) mod n \<Longrightarrow> i \<le> j \<Longrightarrow> j < n \<Longrightarrow> i = (j :: nat)"
  using mod_eq_dvd_iff_nat [of "a + i" "a + j" n] by (auto dest: dvd_imp_le)

lemma mod_shift_inj: "(a + i) mod n = (a + j) mod n \<Longrightarrow> i < n \<Longrightarrow> j < n \<Longrightarrow> i = (j :: nat)"
  using mod_shift_le [of a i n j] mod_shift_le [of a j n i] by (cases "i \<le> j") auto

lemma unat_inc16: "(x :: u16) < y \<Longrightarrow> unat (x + 1) = unat x + 1"
  using unsigned_less [of y, where ?'a = nat] by (simp add: unat_word_ariths word_less_nat_alt)

lemma unat_dec16: "(x :: u16) > 0 \<Longrightarrow> unat (x - 1) = unat x - 1"
  by (simp add: unat_minus_one unat_gt_0)

lemma q_out_list:
  assumes "ring_ok (OSQTbl s q)" "OSQEntries (OSQTbl s q) > 0"
  shows "fst (q_out q s) = hd (queue_list s q)" "queue_list (snd (q_out q s)) q = tl (queue_list s q)"
    "ring_ok (OSQTbl (snd (q_out q s)) q)"
proof -
  define pq where "pq = OSQTbl s q"
  define n where "n = unat (OSQSize pq)"
  define a where "a = OSQOut pq - OSQStart pq"
  define k where "k = unat (OSQEntries pq)"
  have k: "0 < k" "k \<le> n" using assms by (simp_all add: k_def n_def pq_def ring_ok_def unat_gt_0 word_le_nat_alt)
  have r: "OSQOut pq = OSQStart pq + a" "a < n" "OSQEnd pq = OSQStart pq + n"
    "OSQIn pq = OSQStart pq + (a + k) mod n"
    using assms(1) by (auto simp: pq_def [symmetric] a_def n_def k_def ring_ok_def)
  define pq' where "pq' = OSQTbl (snd (q_out q s)) q"
  have pq': "OSQStart pq' = OSQStart pq" "OSQSize pq' = OSQSize pq" "OSQEnd pq' = OSQEnd pq" "OSQIn pq' = OSQIn pq"
    "OSQOut pq' = OSQStart pq + (a + 1) mod n" "unat (OSQEntries pq') = k - 1" "cells (snd (q_out q s)) = cells s"
    using r unat_dec16 [OF assms(2)]
    by (simp_all add: pq'_def q_out_def pq_def [symmetric] k_def Let_def)
  have c: "ring_cell pq' i = ring_cell pq (Suc i)" for i
    using pq' r by (simp add: ring_cell_def n_def [symmetric] mod_add_left_eq)
  show "ring_ok (OSQTbl (snd (q_out q s)) q)"
    unfolding pq'_def [symmetric] ring_ok_def pq' using k r mod_add_left_eq [of "Suc a" n "k - 1"]
    by (simp add: n_def [symmetric] word_le_nat_alt pq')
  have l: "queue_list s q = map (\<lambda>i. cells s (ring_cell pq i)) (0 # map Suc [0..<k - 1])"
    using k by (simp add: queue_list_def pq_def [symmetric] k_def [symmetric] map_Suc_upt upt_conv_Cons)
  have "ring_cell pq 0 = OSQOut pq" using r by (simp add: ring_cell_def n_def [symmetric])
  then show "fst (q_out q s) = hd (queue_list s q)" unfolding l by (simp add: q_out_def pq_def [symmetric] Let_def)
  show "queue_list (snd (q_out q s)) q = tl (queue_list s q)"
    unfolding l using pq'(6, 7) by (simp add: queue_list_def pq'_def [symmetric] c)
qed

lemma q_in_list:
  assumes "ring_ok (OSQTbl s q)" "OSQEntries (OSQTbl s q) < OSQSize (OSQTbl s q)"
  shows "queue_list (q_in q m s) q = queue_list s q @ [m]" "ring_ok (OSQTbl (q_in q m s) q)"
proof -
  define pq where "pq = OSQTbl s q"
  define n where "n = unat (OSQSize pq)"
  define a where "a = OSQOut pq - OSQStart pq"
  define k where "k = unat (OSQEntries pq)"
  have k: "k < n" using assms(2) by (simp add: k_def n_def pq_def word_less_nat_alt)
  have r: "OSQOut pq = OSQStart pq + a" "a < n" "OSQEnd pq = OSQStart pq + n"
    "OSQIn pq = OSQStart pq + (a + k) mod n"
    using assms(1) by (auto simp: pq_def [symmetric] a_def n_def k_def ring_ok_def)
  define pq' where "pq' = OSQTbl (q_in q m s) q"
  have w: "OSQStart pq + ((a + k) mod n + 1) mod n = (if (a + k) mod n + 1 = n then OSQStart pq else OSQStart pq + (a + k) mod n + 1)"
    using k mod_less_divisor [of n "a + k"] by (auto simp del: mod_less_divisor)
  have pq': "OSQStart pq' = OSQStart pq" "OSQSize pq' = OSQSize pq" "OSQEnd pq' = OSQEnd pq" "OSQOut pq' = OSQOut pq"
    "OSQIn pq' = OSQStart pq + ((a + k) mod n + 1) mod n" "unat (OSQEntries pq') = k + 1"
    "cells (q_in q m s) = (cells s)(OSQIn pq := m)"
    unfolding w using r unat_inc16 [OF assms(2)]
    by (simp_all add: pq'_def q_in_def pq_def [symmetric] k_def Let_def)
  have c: "ring_cell pq' i = ring_cell pq i" for i
    using pq' r by (simp add: ring_cell_def n_def [symmetric])
  have d: "ring_cell pq i = OSQIn pq \<longleftrightarrow> i = k" if "i \<le> k" for i
    using r mod_shift_inj [of a i n k] that k by (auto simp: ring_cell_def n_def [symmetric])
  show "ring_ok (OSQTbl (q_in q m s) q)"
    unfolding pq'_def [symmetric] ring_ok_def pq' using k r
    by (simp add: n_def [symmetric] word_le_nat_alt pq' mod_Suc_eq)
  show "queue_list (q_in q m s) q = queue_list s q @ [m]"
    using pq'(6, 7) d by (simp add: queue_list_def pq'_def [symmetric] c pq_def [symmetric] k_def [symmetric])
qed

lemma q_front_list:
  assumes "ring_ok (OSQTbl s q)" "OSQEntries (OSQTbl s q) < OSQSize (OSQTbl s q)"
  shows "queue_list (q_front q m s) q = m # queue_list s q" "ring_ok (OSQTbl (q_front q m s) q)"
proof -
  define pq where "pq = OSQTbl s q"
  define n where "n = unat (OSQSize pq)"
  define a where "a = OSQOut pq - OSQStart pq"
  define k where "k = unat (OSQEntries pq)"
  have k: "k < n" using assms(2) by (simp add: k_def n_def pq_def word_less_nat_alt)
  have r: "OSQOut pq = OSQStart pq + a" "a < n" "OSQEnd pq = OSQStart pq + n"
    "OSQIn pq = OSQStart pq + (a + k) mod n"
    using assms(1) by (auto simp: pq_def [symmetric] a_def n_def k_def ring_ok_def)
  define a' where "a' = (if a = 0 then n - 1 else a - 1)"
  define pq' where "pq' = OSQTbl (q_front q m s) q"
  have a': "a' < n" "(a' + Suc i) mod n = (a + i) mod n" for i
    using r(2) by (auto simp: a'_def)
  have pq': "OSQStart pq' = OSQStart pq" "OSQSize pq' = OSQSize pq" "OSQEnd pq' = OSQEnd pq" "OSQIn pq' = OSQIn pq"
    "OSQOut pq' = OSQStart pq + a'" "unat (OSQEntries pq') = k + 1"
    "cells (q_front q m s) = (cells s)(OSQStart pq + a' := m)"
    using r unat_inc16 [OF assms(2)] by (auto simp: pq'_def q_front_def pq_def [symmetric] k_def Let_def a'_def)
  have c: "ring_cell pq' (Suc i) = ring_cell pq i" "ring_cell pq' 0 = OSQStart pq + a'" for i
    using pq' r a' by (simp_all add: ring_cell_def n_def [symmetric])
  have d: "ring_cell pq i \<noteq> OSQStart pq + a'" if "i < k" for i
  proof
    assume "ring_cell pq i = OSQStart pq + a'"
    then have "(a' + Suc i) mod n = (a' + 0) mod n" using a' r by (simp add: ring_cell_def n_def [symmetric])
    from mod_shift_inj [OF this] that k show False by simp
  qed
  show "ring_ok (OSQTbl (q_front q m s) q)"
    unfolding pq'_def [symmetric] ring_ok_def pq' using k r a'
    by (simp add: n_def [symmetric] word_le_nat_alt pq')
  have "[0..<k + 1] = 0 # map Suc [0..<k]" by (simp add: map_Suc_upt upt_conv_Cons del: upt_Suc)
  then show "queue_list (q_front q m s) q = m # queue_list s q"
    using pq'(6, 7) d by (simp add: queue_list_def pq'_def [symmetric] c pq_def [symmetric] k_def [symmetric] del: upt_Suc)
qed

section \<open>The queue functions\<close>

text \<open>The calls of a client that never waits: the answer is \<open>None\<close> on an error code.\<close>

definition q_call :: "nat \<Rightarrow> vptr qop \<Rightarrow> os \<Rightarrow> (vptr option \<times> os) res" where
  "q_call e x s =
     (case x of
        Post m \<Rightarrow> rbind (OSQPost (Some e) m s) (\<lambda>(err, s). Inr (if err = OS_ERR_NONE then Some m else None, s))
      | PostFront m \<Rightarrow> rbind (OSQPostFront (Some e) m s) (\<lambda>(err, s). Inr (if err = OS_ERR_NONE then Some m else None, s))
      | Accept \<Rightarrow> rbind (OSQAccept (Some e) s) (\<lambda>((m, err), s). Inr (if err = OS_ERR_NONE then Some m else None, s))
      | Flush \<Rightarrow> rbind (OSQFlush (Some e) s) (\<lambda>(err, s). Inr (None, s)))"

text \<open>Event \<open>e\<close> is a queue with control block \<open>q\<close>, \<open>n\<close> cells and no waiting task.\<close>

definition queue_ok :: "nat \<Rightarrow> nat \<Rightarrow> nat \<Rightarrow> os \<Rightarrow> bool" where
  "queue_ok e q n s \<longleftrightarrow> OSEventType (OSEcbTbl s e) = OS_EVENT_TYPE_Q \<and> OSEventGrp (OSEcbTbl s e) = 0
     \<and> OSEventPtr (OSEcbTbl s e) = QcbPtr q \<and> ring_ok (OSQTbl s q) \<and> unat (OSQSize (OSQTbl s q)) = n"

lemma q_frame [simp]:
  "OSEcbTbl (snd (q_out q s)) = OSEcbTbl s" "OSQSize (OSQTbl (snd (q_out q s)) q) = OSQSize (OSQTbl s q)"
  "OSEcbTbl (q_in q m s) = OSEcbTbl s" "OSQSize (OSQTbl (q_in q m s) q) = OSQSize (OSQTbl s q)"
  "OSEcbTbl (q_front q m s) = OSEcbTbl s" "OSQSize (OSQTbl (q_front q m s) q) = OSQSize (OSQTbl s q)"
  by (simp_all add: q_out_def q_in_def q_front_def Let_def)

lemma queue_list_length [simp]: "length (queue_list s q) = unat (OSQEntries (OSQTbl s q))"
  by (simp add: queue_list_def)

lemma queue_list_empty: "OSQEntries (OSQTbl s q) > 0 \<longleftrightarrow> queue_list s q \<noteq> []"
  by (metis queue_list_length length_0_conv unat_eq_zero word_neq_0_conv)

lemma queue_room: "queue_ok e q n s \<Longrightarrow> OSQSize (OSQTbl s q) \<le> OSQEntries (OSQTbl s q) \<longleftrightarrow> \<not> length (queue_list s q) < n"
  by (auto simp: queue_ok_def word_le_nat_alt)

lemma q_call_list:
  assumes "queue_ok e q n s"
  shows "\<exists>s'. q_call e x s = Inr (fst (list_op n x (queue_list s q)), s') \<and> queue_ok e q n s'
    \<and> queue_list s' q = snd (list_op n x (queue_list s q))"
proof -
  note Q = assms [unfolded queue_ok_def]
  have t: "queue_of s e = Inr q" using Q by (simp add: queue_of_def)
  show ?thesis
  proof (cases x)
    case (Post m)
    then show ?thesis
      using Q t queue_room [OF assms] q_in_list [of s q m]
      by (cases "length (queue_list s q) < n") (auto simp: q_call_def OSQPost_def queue_ok_def not_le)
  next
    case (PostFront m)
    then show ?thesis
      using Q t queue_room [OF assms] q_front_list [of s q m]
      by (cases "length (queue_list s q) < n") (auto simp: q_call_def OSQPostFront_def queue_ok_def not_le)
  next
    case Accept
    then show ?thesis
      using Q t q_out_list [of s q] queue_list_empty [of s q]
      by (cases "queue_list s q") (auto simp: q_call_def OSQAccept_def queue_ok_def split_beta)
  next
    case Flush
    then show ?thesis using Q t
      by (auto simp: q_call_def OSQFlush_def queue_ok_def queue_list_def ring_ok_def)
  qed
qed

interpretation oq: bounded_deque "q_call e" "\<lambda>s. queue_list s q" "queue_ok e q n" n for e q n
  by unfold_locales (simp_all add: q_call_list, auto simp: queue_ok_def ring_ok_def word_le_nat_alt)

text \<open>C9: a message queue without waiting tasks is a bounded list: over every sequence of posts at either
  end, accepts and flushes, the answers and the contents are those of a list of at most as many
  messages as the queue has cells, and no call faults.\<close>

theorem queue_simulates_list:
  assumes "queue_ok e q n s"
  shows "\<exists>s'. run_ops (q_call e) xs s = Inr (fst (list_run n xs (queue_list s q)), s')
    \<and> queue_list s' q = snd (list_run n xs (queue_list s q)) \<and> queue_ok e q n s'"
  using oq.run_list [of e q n s xs] assms by auto

definition queue_boot :: os where
  "queue_boot = OS_QInit (OS_InitEventList (OS_InitTCBList (OS_InitRdyList (OS_InitMisc os_bss))))"

lemma queue_boot_create: "\<exists>s. OSQCreate 100 3 queue_boot = Inr (Some 0, s) \<and> queue_ok 0 0 3 s \<and> queue_list s 0 = []"
  by (simp add: OSQCreate_def queue_boot_def OS_QInit_def OS_InitEventList_def OS_InitTCBList_def OS_InitRdyList_def
      OS_InitMisc_def os_bss_def ecb_take_def OS_EventWaitListInit_def set_wait_def ecb_upd_def qcb_upd_def queue_ok_def
      ring_ok_def queue_list_def OS_MAX_QS_def OS_MAX_EVENTS_def Let_def)

theorem queue_simulates_list_witness:
  "\<exists>s s'. OSQCreate 100 3 queue_boot = Inr (Some 0, s)
     \<and> run_ops (q_call 0) [Post (DataPtr 1), PostFront (DataPtr 2), Post Null, Post (DataPtr 4), Accept] s
        = Inr ([Some (DataPtr 1), Some (DataPtr 2), Some Null, None, Some (DataPtr 2)], s')"
proof -
  obtain s where s: "OSQCreate 100 3 queue_boot = Inr (Some 0, s)" "queue_ok 0 0 3 s" "queue_list s 0 = []"
    using queue_boot_create by blast
  from queue_simulates_list [OF s(2), of "[Post (DataPtr 1), PostFront (DataPtr 2), Post Null, Post (DataPtr 4), Accept]"] s
  show ?thesis by (auto simp del: run_ops.simps)
qed

end
