(* ===== verification/Os_Props.thy ===== *)
theory Os_Props
  imports Os_Boot Os_Queue_Props
begin

text \<open>
  The properties of the running kernel. A run begins with the lists of \<open>OSInit\<close>, the creation of the
  idle task, of tasks and of events, and \<open>OSStart\<close>; then tasks and interrupt handlers make their calls
  in any order.
\<close>

section \<open>Runs\<close>

text \<open>The calls of a run are those of the type \<open>kop\<close>: the pends and posts of semaphores, mailboxes and queues,
  \<open>OSSemPendAbort\<close>, \<open>OSSemAccept\<close>, \<open>OSSemSet\<close>, delays, \<open>OSTaskSuspend\<close>, \<open>OSTaskResume\<close>, the scheduler lock, interrupts and
  the tick. Mutexes, event flags, \<open>OSTaskDel\<close>, \<open>OSTaskChangePrio\<close>, \<open>OSEventPendMulti\<close> and the deletion of events are
  not among them; \<open>Os_Mutex_Props\<close>, \<open>Os_Flag_Props\<close> and \<open>Os_Ext_Props\<close> show that some of these break what follows.\<close>

inductive booting :: "os \<Rightarrow> nat \<Rightarrow> bool" where
  init: "booting os_init 0"
| task: "booting s n \<Longrightarrow> OSTaskCreateExt psp prio tid pbos stk_size pext opt s = Inr (OS_ERR_NONE, s')
    \<Longrightarrow> prio = OS_TASK_IDLE_PRIO \<longleftrightarrow> n = 0 \<Longrightarrow> booting s' (Suc n)"
| sem: "booting s n \<Longrightarrow> OSSemCreate cnt s = Inr (r, s') \<Longrightarrow> booting s' n"
| mbox: "booting s n \<Longrightarrow> OSMboxCreate msg s = Inr (r, s') \<Longrightarrow> booting s' n"
| queue: "booting s n \<Longrightarrow> OSQCreate start qsize s = Inr (r, s') \<Longrightarrow> booting s' n"

definition kernel_run :: "os \<Rightarrow> (nat \<Rightarrow> pc) \<Rightarrow> bool" where
  "kernel_run s pcs \<longleftrightarrow>
     (\<exists>s0 n s1. booting s0 n \<and> 0 < n \<and> OSStart s0 = Inr s1 \<and> kreach (s1, \<lambda>p. Own) (s, pcs))"

lemma OS_TCBInit_full: "OSTCBFreeList s = NoTcb \<Longrightarrow> OS_TCBInit prio psp pbos tid stk_size pext opt s = Inr (OS_ERR_TASK_NO_MORE_TCB, s)"
  by (simp add: OS_TCBInit_def)

lemma OSTaskCreateExt_success:
  assumes B: "boot_inv s n" and run: "OSTaskCreateExt psp prio tid pbos stk_size pext opt s = Inr (OS_ERR_NONE, s')"
    and idle: "prio = OS_TASK_IDLE_PRIO \<longleftrightarrow> n = 0"
  shows "boot_inv s' (Suc n)"
proof -
  note b = B [unfolded boot_inv_def]
  have len: "length (OSTCBPrioTbl s) = 32" using b by (simp add: tables_ok_def)
  have p: "prio \<le> 31" using run by (simp add: OSTaskCreateExt_def split: if_splits)
  then have p32: "unat prio < 32" by (simp add: word_le_nat_alt)
  have free: "OSTCBPrioTbl s ! unat prio = NoTcb"
    using run len p32 by (auto simp: OSTaskCreateExt_def prio_entry_def split: if_splits)
  have n: "n < OS_MAX_TCBS"
  proof (rule ccontr)
    assume "\<not> n < OS_MAX_TCBS"
    then have "OSTCBFreeList s = NoTcb" using b by (simp add: free_from_def)
    then show False using run len p32
      by (simp add: OSTaskCreateExt_def prio_entry_def OS_TCBInit_full split: if_splits)
  qed
  have "unat prio = 31 \<longleftrightarrow> n = 0" using idle by (simp add: word_unat_eq_iff)
  from OSTaskCreateExt_boot [OF B n p32 free this, of psp tid pbos stk_size pext opt] run show ?thesis by auto
qed

text \<open>Creating an event changes control blocks of events only, and only one that has an empty list.\<close>

lemma boot_inv_event:
  assumes "boot_inv s n" "OSRdyGrp s' = OSRdyGrp s" "OSRdyTbl s' = OSRdyTbl s" "OSTCBPrioTbl s' = OSTCBPrioTbl s"
    "OSTCBTbl s' = OSTCBTbl s" "OSTCBList s' = OSTCBList s" "OSTCBFreeList s' = OSTCBFreeList s" "OSRunning s' = OSRunning s"
    "OSIntNesting s' = OSIntNesting s" "OSLockNesting s' = OSLockNesting s" "events_ok s'"
    and "\<And>e. wait_list s' e = wait_list s e \<or> wait_list s' e = (0, [0, 0, 0, 0])"
  shows "boot_inv s' n"
proof -
  have "task_at s' = task_at s" "ready_list s' = ready_list s"
    using assms(2-4) by (simp_all add: task_at_def fun_eq_iff ready_list_def)
  moreover have "list_ok (wait_list s' e) \<and> waits s' e = {}" for e
    using assms(1) assms(12) [of e] list_ok_empty by (auto simp: boot_inv_def)
  ultimately show ?thesis using assms(1-11) by (simp add: boot_inv_def tables_ok_def)
qed

lemma booting_inv: "booting s n \<Longrightarrow> boot_inv s n"
proof (induction rule: booting.induct)
  case (task s n psp prio tid pbos stk_size pext opt s')
  then show ?case using OSTaskCreateExt_success by blast
next
  case (sem s n cnt r s')
  then have "events_ok s" by (simp add: boot_inv_def)
  show ?case
    by (rule boot_inv_event [OF sem.IH]; use sem(2) \<open>events_ok s\<close> in
        \<open>auto simp: OSSemCreate_def ecb_take_def OS_EventWaitListInit_def set_wait_def ecb_upd_def events_ok_def
          wait_list_def split: if_splits vptr.splits\<close>)
next
  case (mbox s n msg r s')
  then have "events_ok s" by (simp add: boot_inv_def)
  show ?case
    by (rule boot_inv_event [OF mbox.IH]; use mbox(2) \<open>events_ok s\<close> in
        \<open>auto simp: OSMboxCreate_def ecb_take_def OS_EventWaitListInit_def set_wait_def ecb_upd_def events_ok_def
          wait_list_def split: if_splits vptr.splits\<close>)
next
  case (queue s n start qsize r s')
  then have "events_ok s" by (simp add: boot_inv_def)
  show ?case
    by (rule boot_inv_event [OF queue.IH]; use queue(2) \<open>events_ok s\<close> in
        \<open>auto simp: OSQCreate_def ecb_take_def OS_EventWaitListInit_def set_wait_def ecb_upd_def qcb_upd_def events_ok_def
          wait_list_def Let_def split: if_splits vptr.splits option.splits\<close>)
qed (rule boot_inv_init)

lemma kernel_run_inv:
  assumes "kernel_run s pcs"
  shows "kernel_inv s pcs" "scheduled s"
proof -
  from assms obtain s0 n s1 where r: "booting s0 n" "0 < n" "OSStart s0 = Inr s1" "kreach (s1, \<lambda>p. Own) (s, pcs)"
    by (auto simp: kernel_run_def)
  from OSStart_boot [OF booting_inv [OF r(1)] r(2)] r(3) have "kernel_inv s1 (\<lambda>p. Own)" "scheduled s1" by auto
  with kreach_inv [OF r(4)] show "kernel_inv s pcs" "scheduled s" by auto
qed

lemma kernel_run_step:
  assumes "kernel_run s pcs" "allowed x s pcs" "kstep x s pcs = Inr (s', pcs')"
  shows "kernel_run s' pcs'"
  using assms kreach.step unfolding kernel_run_def by blast

section \<open>A small system\<close>

text \<open>The evaluator reads an updated table at an index without unfolding the whole table.\<close>

declare fun_upd_apply [code]

lemma list_ok_code [code]:
  "list_ok l \<longleftrightarrow> length (snd l) = 4 \<and> list_all (\<lambda>y. bit (fst l) y \<longleftrightarrow> y < 4 \<and> snd l ! y \<noteq> 0) [0..<8]"
  by (auto simp: list_ok_def list_all_iff OS_RDY_TBL_SIZE_def)

lemma prios_code [code]: "prios l = set (filter (\<lambda>p. bit (snd l ! (p div 8)) (p mod 8)) [0..<32])"
  by (auto simp: prios_def)

text \<open>The idle task, tasks of priority 12 and 5, a semaphore of count 0, started.\<close>

definition demo_tasks :: os where
  "demo_tasks = snd (projr (OSTaskCreateExt 0 5 0 0 0 Null 0 (snd (projr (OSTaskCreateExt 0 12 0 0 0 Null 0
     (snd (projr (OSTaskCreateExt 0 31 0 0 0 Null 0 os_init))))))))"

definition demo :: os where
  "demo = projr (OSStart (snd (projr (OSSemCreate 0 demo_tasks))))"

lemma Inr_pair: "\<not> isl x \<Longrightarrow> fst (projr x) = a \<Longrightarrow> x = Inr (a, snd (projr x))"
  by (cases x) auto

lemma Inr_projr: "\<not> isl x \<Longrightarrow> x = Inr (projr x)"
  by (cases x) simp_all

lemma booting_taskI:
  assumes "booting s n" "\<not> isl (OSTaskCreateExt psp prio tid pbos stk_size pext opt s)"
    "fst (projr (OSTaskCreateExt psp prio tid pbos stk_size pext opt s)) = OS_ERR_NONE" "prio = OS_TASK_IDLE_PRIO \<longleftrightarrow> n = 0"
  shows "booting (snd (projr (OSTaskCreateExt psp prio tid pbos stk_size pext opt s))) (Suc n)"
  by (rule booting.task [OF assms(1) Inr_pair [OF assms(2, 3)] assms(4)])

lemma booting_demo: "booting (snd (projr (OSSemCreate 0 demo_tasks))) 3"
proof -
  have "booting demo_tasks (Suc (Suc (Suc 0)))" unfolding demo_tasks_def
    by (rule booting_taskI, rule booting_taskI, rule booting_taskI, rule booting.init) (code_simp, code_simp, simp)+
  then show ?thesis unfolding numeral_3_eq_3
    by (rule booting.sem [OF _ Inr_pair [OF _ refl]]) code_simp
qed

lemma kernel_run_demo: "kernel_run demo (\<lambda>p. Own)"
proof -
  have "OSStart (snd (projr (OSSemCreate 0 demo_tasks))) = Inr demo" unfolding demo_def by (rule Inr_projr) code_simp
  with booting_demo kreach.start show ?thesis unfolding kernel_run_def by (metis zero_less_numeral)
qed

text \<open>Task 5 waits for the semaphore, so that task 12 runs.\<close>

definition demo_waiting :: os where
  "demo_waiting = snd (projr (OSSemPend (Some 0) 0 demo))"

abbreviation demo_pcs :: "nat \<Rightarrow> pc" where
  "demo_pcs \<equiv> (\<lambda>p. Own)(5 := InPend SemK 0)"

lemma kernel_run_waiting: "kernel_run demo_waiting demo_pcs"
proof (rule kernel_run_step [OF kernel_run_demo, of "SemPend (Some 0) 0"])
  show "allowed (SemPend (Some 0) 0) demo (\<lambda>p. Own)" by code_simp
  have "OSSemPend (Some 0) 0 demo = Inr (Waiting, demo_waiting)"
    unfolding demo_waiting_def by (rule Inr_pair) code_simp+
  moreover have "unat (OSPrioCur demo) = 5" by code_simp
  ultimately show "kstep (SemPend (Some 0) 0) demo (\<lambda>p. Own) = Inr (demo_waiting, (\<lambda>p. Own)(5 := InPend SemK 0))"
    by (simp add: pended_def)
qed

section \<open>Safety\<close>

lemma kernel_run_total:
  assumes "kernel_run s pcs" "allowed x s pcs"
  shows "\<exists>s' pcs'. kstep x s pcs = Inr (s', pcs') \<and> kernel_run s' pcs'"
  using kstep_inv [OF kernel_run_inv [OF assms(1)] assms(2)] kernel_run_step [OF assms] by blast

text \<open>C1: After start-up, in whatever order tasks and interrupt handlers make the calls of \<open>kop\<close> (semaphores,
  mailboxes, queues, delays, suspension, scheduler lock, interrupts, tick): no such call dereferences a
  null or reserved TCB pointer, indexes a table out of its bounds or loops for ever, and the kernel
  reaches a state in which the same holds again.\<close>
theorem kernel_never_faults:
  assumes "kernel_run s pcs" "allowed x s pcs"
  shows "\<exists>s' pcs'. kstep x s pcs = Inr (s', pcs') \<and> kernel_run s' pcs'"
  using assms by (rule kernel_run_total)

theorem kernel_never_faults_witness:
  "\<exists>s' pcs'. kstep (SemPost (Some 0)) demo_waiting demo_pcs = Inr (s', pcs') \<and> kernel_run s' pcs'"
  by (rule kernel_never_faults [OF kernel_run_waiting]) code_simp

text \<open>C7: In every run of the calls of \<open>kop\<close>, whenever no interrupt is being served and the scheduler is not
  locked, the running task is the one of the highest priority among the ready tasks, and \<open>OSTCBCur\<close>
  points to its control block.\<close>
theorem highest_priority_runs:
  assumes "kernel_run s pcs" "OSIntNesting s = 0" "OSLockNesting s = 0"
  shows "unat (OSPrioCur s) = Min (ready s) \<and> Min (ready s) \<in> ready s
    \<and> (\<exists>t. OSTCBCur s = Tcb t \<and> OSTCBPrioTbl s ! unat (OSPrioCur s) = Tcb t \<and> OSTCBPrio (OSTCBTbl s t) = OSPrioCur s)"
proof -
  note I = kernel_invD [OF kernel_run_inv(1) [OF assms(1)]]
  obtain t where t: "task_at s (unat (OSPrioCur s)) t" "OSTCBCur s = Tcb t" using I(4) by (auto simp: cur_ok_def)
  moreover have "OSTCBPrio (OSTCBTbl s t) = OSPrioCur s" using task_at_fields(2) [OF I(1) t(1)] by simp
  moreover have "unat (OSPrioCur s) = Min (ready s)"
    using kernel_run_inv(2) [OF assms(1)] assms(2, 3) by (simp add: scheduled_def)
  moreover have "Min (ready s) \<in> ready s" using I(10) by (intro Min_in) simp_all
  ultimately show ?thesis by (auto simp: task_at_def)
qed

theorem highest_priority_runs_witness:
  "unat (OSPrioCur demo_waiting) = Min (ready demo_waiting) \<and> Min (ready demo_waiting) \<in> ready demo_waiting
    \<and> (\<exists>t. OSTCBCur demo_waiting = Tcb t \<and> OSTCBPrioTbl demo_waiting ! unat (OSPrioCur demo_waiting) = Tcb t
         \<and> OSTCBPrio (OSTCBTbl demo_waiting t) = OSPrioCur demo_waiting)"
  by (rule highest_priority_runs [OF kernel_run_waiting]) code_simp+

text \<open>C2: In every run of the calls of \<open>kop\<close> no task is lost: a task is in the ready list exactly when it is
  neither suspended nor pending nor delayed; a task that is not ready is suspended, or has a delay
  running, or is in the wait list of the event it pends on, where the next post finds it.\<close>
theorem no_task_is_lost:
  assumes "kernel_run s pcs" "OSTCBPrioTbl s ! p = Tcb t" "p < 32"
  shows "(p \<in> ready s \<longleftrightarrow> OSTCBStat (OSTCBTbl s t) = OS_STAT_RDY \<and> OSTCBDly (OSTCBTbl s t) = 0)
    \<and> (p \<notin> ready s \<longrightarrow> OSTCBStat (OSTCBTbl s t) AND OS_STAT_SUSPEND \<noteq> 0 \<or> OSTCBDly (OSTCBTbl s t) \<noteq> 0
         \<or> (\<exists>k e. pcs p = InPend k e \<and> p \<in> waits s e \<and> OSEventType (OSEcbTbl s e) = kind_type k))"
proof -
  note I = kernel_invD [OF kernel_run_inv(1) [OF assms(1)]]
  have ok: "task_ok (pcs p) p (OSTCBTbl s t) (p \<in> ready s) {e. p \<in> waits s e}"
    using I(11) assms(2, 3) by (simp add: task_at_def)
  have "\<exists>k e. pcs p = InPend k e \<and> p \<in> waits s e"
    if "OSTCBStat (OSTCBTbl s t) AND OS_STAT_SUSPEND = 0" "OSTCBStat (OSTCBTbl s t) \<noteq> 0"
  proof (cases "pcs p")
    case Own
    with ok that show ?thesis by (auto simp: task_ok_def)
  next
    case (InPend k e)
    with ok that show ?thesis by (cases k) (auto simp: task_ok_def)
  qed
  then have "\<exists>k e. pcs p = InPend k e \<and> p \<in> waits s e \<and> OSEventType (OSEcbTbl s e) = kind_type k"
    if "OSTCBStat (OSTCBTbl s t) AND OS_STAT_SUSPEND = 0" "OSTCBStat (OSTCBTbl s t) \<noteq> 0"
    using I(12) that unfolding waiter_ok_def by (metis pc.inject)
  with ok show ?thesis by (auto simp: task_ok_def)
qed

theorem no_task_is_lost_witness:
  "\<exists>k e. demo_pcs 5 = InPend k e \<and> 5 \<in> waits demo_waiting e \<and> OSEventType (OSEcbTbl demo_waiting e) = kind_type k"
proof -
  have "OSTCBPrioTbl demo_waiting ! 5 = Tcb 2" "OSTCBStat (OSTCBTbl demo_waiting 2) \<noteq> OS_STAT_RDY"
    "OSTCBStat (OSTCBTbl demo_waiting 2) AND OS_STAT_SUSPEND = 0" "OSTCBDly (OSTCBTbl demo_waiting 2) = 0" by code_simp+
  moreover have "(5 :: nat) < 32" by simp
  ultimately show ?thesis using no_task_is_lost [OF kernel_run_waiting, of 5 2] by blast
qed

end
