(* ===== verification/Os_Calls_Props.thy ===== *)
theory Os_Calls_Props
  imports Os_Props
begin

text \<open>
  What single calls of the kernel do: choosing the next task, starting the system, posting and aborting,
  delays.
\<close>

section \<open>Choosing the next task\<close>

text \<open>The two look-ups in \<open>OSUnMapTbl\<close> and the reference definition agree: for every well-formed,
  non-empty ready list \<open>OS_SchedNew\<close> sets \<open>OSPrioHighRdy\<close> to the least priority whose bit is set.\<close>
lemma sched_new_is_minimum:
  assumes "list_ok (ready_list s)" "OSRdyGrp s \<noteq> 0"
  shows "OS_SchedNew s = Inr (s\<lparr>OSPrioHighRdy := of_nat (Min {p. p < 32 \<and> bit (OSRdyTbl s ! (p div 8)) (p mod 8)})\<rparr>)"
proof -
  have "ready s \<noteq> {}" using assms list_empty_prios [of "ready_list s"] by (simp add: ready_list_def)
  then have "list_first (ready_list s) = Inr (of_nat (Min (ready s)))" by (rule ps.first_ok [OF assms(1)])
  moreover have "ready s = {p. p < 32 \<and> bit (OSRdyTbl s ! (p div 8)) (p mod 8)}" by (simp add: prios_def ready_list_def)
  ultimately show ?thesis by (simp add: OS_SchedNew_def)
qed

theorem sched_new_is_minimum_witness:
  "OS_SchedNew demo = Inr (demo\<lparr>OSPrioHighRdy := of_nat (Min {p. p < 32 \<and> bit (OSRdyTbl demo ! (p div 8)) (p mod 8)})\<rparr>)"
  by (rule sched_new_is_minimum) (rule kernel_invD(8) [OF kernel_run_inv(1) [OF kernel_run_demo]], code_simp)

section \<open>Starting the system\<close>

text \<open>The calls of \<open>OSTaskCreate\<close> one after the other, with the codes they return.\<close>

fun create_all :: "nat list \<Rightarrow> os \<Rightarrow> (u8 list \<times> os) res" where
  "create_all [] s = Inr ([], s)"
| "create_all (p # ps) s = rbind (OSTaskCreate 0 (of_nat p) s) (\<lambda>(err, s). rbind (create_all ps s) (\<lambda>(errs, s). Inr (err # errs, s)))"

lemma create_all_boot:
  assumes "booting s n" "0 < n" "distinct ps" "\<forall>p \<in> set ps. p < 31 \<and> OSTCBPrioTbl s ! p = NoTcb" "length ps + n \<le> OS_MAX_TCBS"
  shows "\<exists>s'. create_all ps s = Inr (replicate (length ps) OS_ERR_NONE, s') \<and> booting s' (n + length ps) \<and> ready s' = ready s \<union> set ps"
  using assms
proof (induction ps arbitrary: s n)
  case (Cons p ps)
  have B: "boot_inv s n" by (rule booting_inv [OF Cons.prems(1)])
  have p: "n < OS_MAX_TCBS" "p < 32" "OSTCBPrioTbl s ! p = NoTcb" "p = 31 \<longleftrightarrow> n = 0" "p < 31"
    using Cons.prems(2-5) by auto
  from OSTaskCreate_boot [OF B p(1-4), of 0] obtain s1 where
    s1: "OSTaskCreate 0 (of_nat p) s = Inr (OS_ERR_NONE, s1)" "OSTCBPrioTbl s1 = (OSTCBPrioTbl s)[p := Tcb n]"
      "ready s1 = insert p (ready s)" by blast
  have "unat (of_nat p :: u8) \<noteq> 31" using p(5) by simp
  then have "(of_nat p :: u8) = OS_TASK_IDLE_PRIO \<longleftrightarrow> n = 0" using Cons.prems(2) by (auto simp: word_unat_eq_iff)
  then have "booting s1 (Suc n)" using booting.task [OF Cons.prems(1) s1(1) [unfolded OSTaskCreate_Ext]] by blast
  moreover have "\<forall>q \<in> set ps. q < 31 \<and> OSTCBPrioTbl s1 ! q = NoTcb"
    using Cons.prems(3, 4) unfolding s1(2) by (metis distinct.simps(2) list.set_intros(2) nth_list_update_neq)
  ultimately obtain s' where "create_all ps s1 = Inr (replicate (length ps) OS_ERR_NONE, s')"
    "booting s' (Suc n + length ps)" "ready s' = ready s1 \<union> set ps"
    using Cons.IH [of s1 "Suc n"] Cons.prems(3, 5) by auto
  with s1 show ?case by auto
qed auto

text \<open>C34: Creating the idle task and then any tasks of distinct priorities below it, as many as there are
  control blocks, succeeds; \<open>OSStart\<close> then runs the one of the highest priority, and exactly the created
  tasks are ready.\<close>
theorem boot_correct:
  assumes "distinct ps" "\<forall>p \<in> set ps. p < 31" "length ps < OS_MAX_TCBS"
  shows "\<exists>s s'. create_all (31 # ps) os_init = Inr (replicate (Suc (length ps)) OS_ERR_NONE, s) \<and> OSStart s = Inr s'
    \<and> kernel_run s' (\<lambda>p. Own) \<and> ready s' = insert 31 (set ps) \<and> unat (OSPrioCur s') = Min (insert 31 (set ps))"
proof -
  have b0: "booting os_init 0" by (rule booting.init)
  have e: "OSTCBPrioTbl os_init = replicate 32 NoTcb" by (simp add: os_init_def OS_QInit_def OS_FlagInit_def OS_InitEventList_def OS_InitTCBList_def)
  have r0: "ready os_init = {}" using boot_inv_init e by (auto simp: boot_inv_def task_at_def)
  from OSTaskCreate_boot [OF boot_inv_init, of 31 0] obtain s1 where
    s1: "OSTaskCreate 0 (of_nat 31) os_init = Inr (OS_ERR_NONE, s1)" "OSTCBPrioTbl s1 = (OSTCBPrioTbl os_init)[31 := Tcb 0]"
      "ready s1 = insert 31 (ready os_init)" unfolding e by (auto simp: OS_MAX_TCBS_def simp del: of_nat_numeral)
  have b1: "booting s1 (Suc 0)" using booting.task [OF b0 s1(1) [unfolded OSTaskCreate_Ext]] by simp
  have "\<forall>p \<in> set ps. p < 31 \<and> OSTCBPrioTbl s1 ! p = NoTcb"
    using assms(2) by (auto simp: s1(2) e nth_list_update nth_Cons' )
  from create_all_boot [OF b1 _ assms(1) this] assms(3) obtain s where
    s: "create_all ps s1 = Inr (replicate (length ps) OS_ERR_NONE, s)" "booting s (Suc 0 + length ps)" "ready s = ready s1 \<union> set ps"
    by auto
  from OSStart_boot [OF booting_inv [OF s(2)]] obtain s' where
    s': "OSStart s = Inr s'" "scheduled s'" "ready s' = ready s" "OSIntNesting s' = 0" "OSLockNesting s' = 0" by auto
  have run: "kernel_run s' (\<lambda>p. Own)" unfolding kernel_run_def using s(2) s'(1) kreach.start by fastforce
  have rd: "ready s' = insert 31 (set ps)" unfolding s'(3) s(3) s1(3) r0 by simp
  with s'(2, 4, 5) have "unat (OSPrioCur s') = Min (insert 31 (set ps))" by (simp add: scheduled_def)
  with run rd s s' s1(1) show ?thesis by auto
qed

theorem boot_correct_witness:
  "\<exists>s s'. create_all (31 # [15, 10, 11, 4, 12]) os_init = Inr (replicate (Suc (length [15 :: nat, 10, 11, 4, 12])) OS_ERR_NONE, s)
    \<and> OSStart s = Inr s' \<and> kernel_run s' (\<lambda>p. Own) \<and> ready s' = insert 31 (set [15, 10, 11, 4, 12])
    \<and> unat (OSPrioCur s') = Min (insert 31 (set [15, 10, 11, 4, 12]))"
  by (rule boot_correct) (simp_all add: OS_MAX_TCBS_def)

section \<open>Posting\<close>

lemma sched_frame_task:
  assumes "sched_frame s s'"
  shows "OSTCBStat (OSTCBTbl s' t) = OSTCBStat (OSTCBTbl s t)" "OSTCBStatPend (OSTCBTbl s' t) = OSTCBStatPend (OSTCBTbl s t)"
    "OSTCBMsg (OSTCBTbl s' t) = OSTCBMsg (OSTCBTbl s t)" "ready s' = ready s" "waits s' e = waits s e"
    "OSEcbTbl s' = OSEcbTbl s"
proof -
  obtain c where "OSTCBTbl s' t = (OSTCBTbl s t)\<lparr>OSTCBCtxSwCtr := c\<rparr>" using assms by (auto simp: sched_frame_def)
  then show "OSTCBStat (OSTCBTbl s' t) = OSTCBStat (OSTCBTbl s t)" "OSTCBStatPend (OSTCBTbl s' t) = OSTCBStatPend (OSTCBTbl s t)"
    "OSTCBMsg (OSTCBTbl s' t) = OSTCBMsg (OSTCBTbl s t)" by simp_all
  show "ready s' = ready s" "waits s' e = waits s e" "OSEcbTbl s' = OSEcbTbl s"
    using assms by (simp_all add: sched_frame_def wait_list_def)
qed

text \<open>Waking the first waiting task and scheduling: the end of every post that finds one.\<close>

lemma wake_effect:
  assumes inv: "kernel_inv s pcs" and type: "OSEventType (OSEcbTbl s e) = kind_type k" and ne: "waits s e \<noteq> {}"
  defines "p \<equiv> Min (waits s e)"
  shows "\<exists>s1 s' t. OS_EventTaskRdy e m (kind_stat k) st s = Inr (of_nat p, s1) \<and> OS_Sched s1 = Inr s' \<and> task_at s p t
    \<and> waits s' e = waits s e - {p} \<and> ready s' = (if OSTCBStat (OSTCBTbl s t) AND 8 = 0 then insert p (ready s) else ready s)
    \<and> OSTCBStatPend (OSTCBTbl s' t) = st \<and> OSTCBMsg (OSTCBTbl s' t) = m \<and> OSEventCnt (OSEcbTbl s' e) = OSEventCnt (OSEcbTbl s e)"
proof -
  from event_rdy_inv [OF inv type ne, of m st, folded p_def] obtain s1 t where
    s1: "OS_EventTaskRdy e m (kind_stat k) st s = Inr (of_nat p, s1)" "kernel_inv s1 pcs" "same_context s s1"
      "waits s1 e = waits s e - {p}" "task_at s p t"
      "ready s1 = (if OSTCBStat (OSTCBTbl s t) AND 8 = 0 then insert p (ready s) else ready s)"
      "OSTCBMsg (OSTCBTbl s1 t) = m" "OSTCBStatPend (OSTCBTbl s1 t) = st" by blast
  from OS_Sched_inv [OF s1(2)] obtain s' where s': "OS_Sched s1 = Inr s'" "sched_frame s1 s'" by blast
  show ?thesis using s1 s'(1) sched_frame_task [OF s'(2)]
    by (intro exI [of _ s1] exI [of _ s'] exI [of _ t]) (simp add: same_context_def)
qed

text \<open>C29: A post on a semaphore makes exactly the waiting task of the highest priority ready (it stays
  suspended if somebody has suspended it) and leaves the count; without a waiting task it adds one to
  the count, and at 65535 it changes nothing and reports the overflow.\<close>
theorem sem_post_correct:
  assumes "kernel_run s pcs" "OSEventType (OSEcbTbl s e) = OS_EVENT_TYPE_SEM"
  shows "\<exists>err s'. OSSemPost (Some e) s = Inr (err, s') \<and>
    (if waits s e \<noteq> {} then
       err = OS_ERR_NONE \<and> waits s' e = waits s e - {Min (waits s e)} \<and> OSEventCnt (OSEcbTbl s' e) = OSEventCnt (OSEcbTbl s e)
       \<and> (\<exists>t. OSTCBPrioTbl s ! Min (waits s e) = Tcb t \<and> OSTCBStatPend (OSTCBTbl s' t) = OS_STAT_PEND_OK
            \<and> ready s' = (if OSTCBStat (OSTCBTbl s t) AND OS_STAT_SUSPEND = 0 then insert (Min (waits s e)) (ready s) else ready s))
     else if OSEventCnt (OSEcbTbl s e) = 65535 then err = OS_ERR_SEM_OVF \<and> s' = s
     else err = OS_ERR_NONE \<and> s' = ecb_upd e (\<lambda>ev. ev\<lparr>OSEventCnt := OSEventCnt ev + 1\<rparr>) s)"
proof -
  note inv = kernel_run_inv(1) [OF assms(1)]
  have grp: "OSEventGrp (OSEcbTbl s e) = 0 \<longleftrightarrow> waits s e = {}" by (rule waits_empty [OF inv])
  show ?thesis
  proof (cases "waits s e = {}")
    case True
    moreover have "OSEventCnt (OSEcbTbl s e) < 65535 \<longleftrightarrow> OSEventCnt (OSEcbTbl s e) \<noteq> 65535"
      using unsigned_less [of "OSEventCnt (OSEcbTbl s e)", where ?'a = nat] by (auto simp: word_less_nat_alt word_unat_eq_iff)
    ultimately show ?thesis using grp assms(2) by (simp add: OSSemPost_def)
  next
    case False
    let ?p = "Min (waits s e)"
    from False assms(2) wake_effect [OF inv, of e SemK Null OS_STAT_PEND_OK] obtain s1 s' t where
      w: "OS_EventTaskRdy e Null OS_STAT_SEM OS_STAT_PEND_OK s = Inr (of_nat ?p, s1)" "OS_Sched s1 = Inr s'" "task_at s ?p t"
        "waits s' e = waits s e - {?p}" "ready s' = (if OSTCBStat (OSTCBTbl s t) AND 8 = 0 then insert ?p (ready s) else ready s)"
        "OSTCBStatPend (OSTCBTbl s' t) = OS_STAT_PEND_OK" "OSEventCnt (OSEcbTbl s' e) = OSEventCnt (OSEcbTbl s e)" by auto
    have "OSSemPost (Some e) s = Inr (OS_ERR_NONE, s')" using grp False assms(2) w(1, 2) by (simp add: OSSemPost_def)
    moreover have "OSTCBPrioTbl s ! ?p = Tcb t" using w(3) by (simp add: task_at_def)
    ultimately show ?thesis using False w(4-7) by (intro exI [of _ OS_ERR_NONE] exI [of _ s']) simp
  qed
qed

theorem sem_post_correct_witness:
  "\<exists>err s'. OSSemPost (Some 0) demo_waiting = Inr (err, s') \<and>
    (if waits demo_waiting 0 \<noteq> {} then
       err = OS_ERR_NONE \<and> waits s' 0 = waits demo_waiting 0 - {Min (waits demo_waiting 0)}
       \<and> OSEventCnt (OSEcbTbl s' 0) = OSEventCnt (OSEcbTbl demo_waiting 0)
       \<and> (\<exists>t. OSTCBPrioTbl demo_waiting ! Min (waits demo_waiting 0) = Tcb t \<and> OSTCBStatPend (OSTCBTbl s' t) = OS_STAT_PEND_OK
            \<and> ready s' = (if OSTCBStat (OSTCBTbl demo_waiting t) AND OS_STAT_SUSPEND = 0
                  then insert (Min (waits demo_waiting 0)) (ready demo_waiting) else ready demo_waiting))
     else if OSEventCnt (OSEcbTbl demo_waiting 0) = 65535 then err = OS_ERR_SEM_OVF \<and> s' = demo_waiting
     else err = OS_ERR_NONE \<and> s' = ecb_upd 0 (\<lambda>ev. ev\<lparr>OSEventCnt := OSEventCnt ev + 1\<rparr>) demo_waiting)"
  by (rule sem_post_correct [OF kernel_run_waiting]) code_simp

text \<open>An abort with the broadcast option ends: its loop wakes every task of the wait list once, whatever
  their number, tells how many they were, and makes those ready that are not suspended.\<close>
lemma abort_broadcast_wakes_all:
  assumes "kernel_run s pcs" "OSEventType (OSEcbTbl s e) = OS_EVENT_TYPE_SEM" "waits s e \<noteq> {}"
  shows "\<exists>s'. OSSemPendAbort (Some e) 1 s = Inr ((of_nat (card (waits s e)), OS_ERR_PEND_ABORT), s')
    \<and> waits s' e = {} \<and> ready s' = ready s \<union> wakeable s e"
proof -
  note inv = kernel_run_inv(1) [OF assms(1)]
  have grp: "OSEventGrp (OSEcbTbl s e) \<noteq> 0" using waits_empty [OF inv] assms(3) by blast
  from ready_all_inv [OF inv _ card_waits, of e SemK Null OS_STAT_PEND_ABORT 0] assms(2) obtain s1 where
    s1: "ready_all 33 e Null OS_STAT_SEM OS_STAT_PEND_ABORT 0 s = Inr (of_nat (card (waits s e)), s1)" "kernel_inv s1 pcs"
      "waits s1 e = {}" "ready s1 = ready s \<union> wakeable s e" by auto
  from OS_Sched_inv [OF s1(2)] obtain s' where s': "OS_Sched s1 = Inr s'" "sched_frame s1 s'" by blast
  then show ?thesis using s1 grp assms(2) sched_frame_task [OF s'(2)]
    by (simp add: OSSemPendAbort_def event_abort_def)
qed

theorem abort_broadcast_wakes_all_witness:
  "\<exists>s'. OSSemPendAbort (Some 0) 1 demo_waiting = Inr ((of_nat (card (waits demo_waiting 0)), OS_ERR_PEND_ABORT), s')
    \<and> waits s' 0 = {} \<and> ready s' = ready demo_waiting \<union> wakeable demo_waiting 0"
proof (rule abort_broadcast_wakes_all [OF kernel_run_waiting])
  show "OSEventType (OSEcbTbl demo_waiting 0) = OS_EVENT_TYPE_SEM" by code_simp
  have "OSEventGrp (OSEcbTbl demo_waiting 0) \<noteq> 0" by code_simp
  then show "waits demo_waiting 0 \<noteq> {}" using waits_empty [OF kernel_run_inv(1) [OF kernel_run_waiting]] by blast
qed

section \<open>Delays\<close>

text \<open>C12: A delay of d ticks is exact: while the next ticks arrive, the task that waits (for the delay or, with
  a timeout, for an event) becomes ready at the d-th and not before.\<close>
theorem delay_expires_on_time:
  assumes "kernel_run s pcs" "OSTickStepState s = 0" "p < 31" "OSTCBPrioTbl s ! p = Tcb t"
    and "OSTCBStat (OSTCBTbl s t) AND OS_STAT_SUSPEND = 0" "OSTCBDly (OSTCBTbl s t) \<noteq> 0" "n \<le> unat (OSTCBDly (OSTCBTbl s t))"
  shows "\<exists>s'. ticks n s = Inr s' \<and> (p \<in> ready s' \<longleftrightarrow> n = unat (OSTCBDly (OSTCBTbl s t)))"
proof -
  note inv = kernel_run_inv(1) [OF assms(1)]
  have t: "task_at s p t" "p \<noteq> 31" using assms(3, 4) by (simp_all add: task_at_def)
  have not: "p \<notin> ready s" using kernel_invD(11) [OF inv t(1)] assms(6) by (simp add: task_ok_def)
  have nz: "unat (OSTCBDly (OSTCBTbl s t)) \<noteq> 0" using assms(6) by (simp add: unat_eq_0)
  from ticks_effect [OF inv assms(2) t assms(5, 7)] obtain s' where
    "ticks n s = Inr s'" "0 < n \<longrightarrow> (p \<in> ready s' \<longleftrightarrow> n = unat (OSTCBDly (OSTCBTbl s t)))" by blast
  with not nz show ?thesis by (cases n) auto
qed

definition demo_delayed :: os where
  "demo_delayed = projr (OSTimeDly 3 demo)"

lemma kernel_run_delayed: "kernel_run demo_delayed (\<lambda>p. Own)"
proof (rule kernel_run_step [OF kernel_run_demo, of "Delay 3"])
  show "allowed (Delay 3) demo (\<lambda>p. Own)" by code_simp
  have "OSTimeDly 3 demo = Inr demo_delayed" unfolding demo_delayed_def by (rule Inr_projr) code_simp
  then show "kstep (Delay 3) demo (\<lambda>p. Own) = Inr (demo_delayed, \<lambda>p. Own)" by simp
qed

theorem delay_expires_on_time_witness:
  "\<exists>s'. ticks 3 demo_delayed = Inr s' \<and> (5 \<in> ready s' \<longleftrightarrow> 3 = unat (OSTCBDly (OSTCBTbl demo_delayed 2)))"
  by (rule delay_expires_on_time [OF kernel_run_delayed]) code_simp+

text \<open>\<open>OSTimeDlyHMSM\<close> splits a time into delays that fit 16 bits: for every valid time they add up to it
  exactly, in ticks of a millisecond, and no intermediate product overflows 32 bits.\<close>
lemma time_dly_hmsm_exact:
  assumes "OSIntNesting s = 0" "minutes \<le> 59" "seconds \<le> 59" "ms \<le> 999"
    and "\<not> (hours = 0 \<and> minutes = 0 \<and> seconds = 0 \<and> ms = 0)"
  shows "fst (OSTimeDlyHMSM hours minutes seconds ms s) = OS_ERR_NONE
    \<and> sum_list (map unat (snd (OSTimeDlyHMSM hours minutes seconds ms s)))
      = ((unat hours * 60 + unat minutes) * 60 + unat seconds) * 1000 + unat ms"
proof -
  define tk :: u32 where "tk = (ucast hours * 3600 + ucast minutes * 60 + ucast seconds) * 1000
              + 1000 * (ucast ms + 500 div 1000) div (1000 :: u32)"
  define v where "v = ((unat hours * 60 + unat minutes) * 60 + unat seconds) * 1000 + unat ms"
  have h: "unat hours < 256" using unsigned_less [of hours, where ?'a = nat] by simp
  have le: "unat minutes \<le> 59" "unat seconds \<le> 59" "unat ms \<le> 999" using assms(2-4) by (simp_all add: word_le_nat_alt)
  have uc: "unat (ucast hours :: u32) = unat hours" "unat (ucast minutes :: u32) = unat minutes"
    "unat (ucast seconds :: u32) = unat seconds" "unat (ucast ms :: u32) = unat ms"
    by (simp_all add: unsigned_ucast_eq take_bit_nat_eq_self unsigned_less [THEN less_le_trans])
  have v: "unat tk = v"
    unfolding tk_def v_def using h le by (simp add: unat_word_ariths uc unat_div_distrib)
  have small: "v < 2 ^ 30" using h le by (simp add: v_def)
  have lo: "unat (ucast (tk AND 0xFFFF) :: u16) = v mod 65536"
  proof -
    have "unat (tk AND 0xFFFF) = v AND mask 16" by (simp add: unsigned_and_eq v mask_eq_exp_minus_1)
    then show ?thesis by (simp add: unsigned_ucast_eq take_bit_eq_mask [symmetric]) (simp add: take_bit_eq_mod)
  qed
  have hi: "unat (ucast (drop_bit 16 tk) :: u16) = v div 65536"
    using small by (simp add: v [symmetric] unsigned_ucast_eq unat_drop_bit_eq drop_bit_eq_div unat_div_distrib take_bit_nat_eq_self)
  have sum: "sum_list (map unat (concat (replicate n [32768, 32768 :: u16]))) = n * 65536" for n
    by (induction n) simp_all
  have "OSTimeDlyHMSM hours minutes seconds ms s
      = (OS_ERR_NONE, ucast (tk AND 0xFFFF) # concat (replicate (unat (ucast (drop_bit 16 tk) :: u16)) [32768, 32768]))"
    using assms by (auto simp: OSTimeDlyHMSM_def tk_def Let_def not_less)
  then show ?thesis by (simp add: lo hi sum) (simp add: v_def)
qed

theorem time_dly_hmsm_exact_witness:
  "fst (OSTimeDlyHMSM 1 59 59 999 demo) = OS_ERR_NONE
    \<and> sum_list (map unat (snd (OSTimeDlyHMSM 1 59 59 999 demo)))
      = ((unat (1 :: u8) * 60 + unat (59 :: u8)) * 60 + unat (59 :: u8)) * 1000 + unat (999 :: u16)"
  by (rule time_dly_hmsm_exact) (code_simp, simp_all)

end

