(* ===== verification/Firmware_Props.thy ===== *)
theory Firmware_Props
  imports Firmware Os_Calls_Props
begin

text \<open>
  The serial port and the kernel together: a character arrives when the console waits for it, and characters are lost when
  it does not.
\<close>

section \<open>The handler\<close>

lemma IntEnter_first:
  assumes "kernel_inv s pcs" "OSIntNesting s = 0"
  shows "OSIntEnter s = s\<lparr>OSIntNesting := 1\<rparr>" "kernel_inv (s\<lparr>OSIntNesting := 1\<rparr>) pcs"
  using assms kernel_invD(5) [OF assms(1)] by (simp_all add: OSIntEnter_def)

lemma IntExit_last:
  assumes "kernel_inv s pcs" "OSIntNesting s = 1" "OSLockNesting s = 0"
  shows "\<exists>s'. OSIntExit s = Inr s' \<and> kernel_inv s' pcs \<and> scheduled s' \<and> unat (OSPrioCur s') = Min (ready s) \<and> cur_ok s'
    \<and> sched_frame (s\<lparr>OSIntNesting := 0\<rparr>) s'"
proof -
  define s1 where "s1 = s\<lparr>OSIntNesting := 0\<rparr>"
  have k: "kernel_inv s1 pcs" using assms(1) by (simp add: s1_def)
  note I = kernel_invD [OF k]
  from reschedule_ok [OF I(1, 2, 10, 4)] obtain s' where
    s': "reschedule s1 = Inr s'" "unat (OSPrioCur s') = Min (ready s1)" "cur_ok s'" "sched_frame s1 s'" by blast
  moreover have "OSIntExit s = reschedule s1" using assms(2, 3) I(5) by (simp add: OSIntExit_def Let_def s1_def)
  moreover have "ready s1 = ready s" "ready s' = ready s" using s'(4) by (simp_all add: s1_def ready_list_def sched_frame_def)
  ultimately show ?thesis using kernel_inv_frame [OF k s'(4, 3)] by (simp add: scheduled_def s1_def)
qed

lemma frame_event:
  assumes "sched_frame (s\<lparr>OSIntNesting := 0\<rparr>) s'"
  shows "OSEcbTbl s' = OSEcbTbl s" "waits s' e = waits s e" "ready s' = ready s" "OSIntNesting s' = 0" "OSLockNesting s' = OSLockNesting s"
    "OSTCBPrioTbl s' = OSTCBPrioTbl s" "OSTCBStatPend (OSTCBTbl s' t) = OSTCBStatPend (OSTCBTbl s t)"
proof -
  have f: "OSEcbTbl s' = OSEcbTbl s" "ready_list s' = ready_list s" "OSIntNesting s' = 0" "OSLockNesting s' = OSLockNesting s" "OSTCBPrioTbl s' = OSTCBPrioTbl s"
    "\<forall>t. \<exists>c. OSTCBTbl s' t = (OSTCBTbl s t)\<lparr>OSTCBCtxSwCtr := c\<rparr>"
    using assms by (simp_all add: sched_frame_def ready_list_def)
  then obtain c where "OSTCBTbl s' t = (OSTCBTbl s t)\<lparr>OSTCBCtxSwCtr := c\<rparr>" by blast
  with f show "OSEcbTbl s' = OSEcbTbl s" "waits s' e = waits s e" "ready s' = ready s" "OSIntNesting s' = 0" "OSLockNesting s' = OSLockNesting s"
    "OSTCBPrioTbl s' = OSTCBPrioTbl s" "OSTCBStatPend (OSTCBTbl s' t) = OSTCBStatPend (OSTCBTbl s t)"
    by (simp_all add: wait_list_def)
qed

text \<open>A task may run, nobody waits for the semaphore, and its count is \<open>n\<close>.\<close>

definition idle_sem :: "os \<Rightarrow> nat \<Rightarrow> nat \<Rightarrow> bool" where
  "idle_sem s e n \<longleftrightarrow> OSIntNesting s = 0 \<and> OSLockNesting s = 0 \<and> OSEventType (OSEcbTbl s e) = OS_EVENT_TYPE_SEM \<and> waits s e = {}
     \<and> unat (OSEventCnt (OSEcbTbl s e)) = n"

lemma irq_counts:
  assumes inv: "kernel_inv s pcs" and i: "idle_sem s e n" and n: "n < 65535"
  shows "\<exists>s'. USART1_IRQHandler True c (Some e) (s, chr) = Inr (s', c) \<and> kernel_inv s' pcs \<and> idle_sem s' e (Suc n)"
proof -
  have h: "OSIntNesting s = 0" "OSLockNesting s = 0" "OSEventType (OSEcbTbl s e) = OS_EVENT_TYPE_SEM" "waits s e = {}"
    "unat (OSEventCnt (OSEcbTbl s e)) = n" using i by (simp_all add: idle_sem_def)
  define s1 where "s1 = s\<lparr>OSIntNesting := 1\<rparr>"
  note E = IntEnter_first [OF inv h(1), folded s1_def]
  have w1: "waits s1 e = {}" "OSEcbTbl s1 = OSEcbTbl s" using h(4) by (simp_all add: s1_def wait_list_def)
  then have grp: "OSEventGrp (OSEcbTbl s e) = 0" using waits_empty [OF E(2), of e] by simp
  define s2 where "s2 = ecb_upd e (\<lambda>ev. ev\<lparr>OSEventCnt := OSEventCnt ev + 1\<rparr>) s1"
  have cnt: "OSEventCnt (OSEcbTbl s e) < 65535" using h(5) n by (simp add: word_less_nat_alt)
  then have post: "OSSemPost (Some e) s1 = Inr (OS_ERR_NONE, s2)" using h(3) grp by (simp add: OSSemPost_def w1(2) s2_def)
  have "kernel_inv s2 pcs" using SemPost_inv [OF E(2), of "Some e"] post by (simp add: scheduled_def s1_def)
  moreover have "OSIntNesting s2 = 1" "OSLockNesting s2 = 0" using h(2) by (simp_all add: s2_def s1_def os_simps)
  ultimately obtain s3 where s3: "OSIntExit s2 = Inr s3" "kernel_inv s3 pcs" "sched_frame (s2\<lparr>OSIntNesting := 0\<rparr>) s3"
    using IntExit_last by blast
  note F = frame_event [OF s3(3)]
  have "waits s2 e = waits s e" by (simp add: s2_def s1_def wait_list_def os_simps)
  moreover have "unat (OSEventCnt (OSEcbTbl s e) + 1) = Suc n" using h(5) n by (simp add: unat_word_ariths)
  ultimately have "idle_sem s3 e (Suc n)" using F h(2, 3, 4) by (simp add: idle_sem_def s2_def s1_def os_simps)
  then show ?thesis using s3 post E(1) by (auto simp: USART1_IRQHandler_def)
qed

lemma receive_all_counts:
  "kernel_inv s pcs \<Longrightarrow> idle_sem s e n \<Longrightarrow> n + length cs < 65536 \<Longrightarrow>
   \<exists>s'. receive_all cs (Some e) (s, chr) = Inr (s', last (chr # cs)) \<and> kernel_inv s' pcs \<and> idle_sem s' e (n + length cs)"
proof (induction cs arbitrary: s n chr)
  case (Cons c cs)
  have "n < 65535" using Cons.prems(3) by simp
  then obtain s1 where s1: "USART1_IRQHandler True c (Some e) (s, chr) = Inr (s1, c)" "kernel_inv s1 pcs" "idle_sem s1 e (Suc n)"
    using irq_counts [OF Cons.prems(1, 2)] by blast
  show ?case using Cons.IH [OF s1(2, 3), of c] Cons.prems(3) s1(1) by auto
qed simp

lemma read_all_same:
  "idle_sem s e (n + k) \<Longrightarrow> \<exists>s'. read_all n (Some e) (s, chr) = Inr (replicate n chr, s', chr) \<and> idle_sem s' e k"
proof (induction n arbitrary: s)
  case (Suc n)
  have h: "OSIntNesting s = 0" "OSLockNesting s = 0" "OSEventType (OSEcbTbl s e) = OS_EVENT_TYPE_SEM" "waits s e = {}"
    "unat (OSEventCnt (OSEcbTbl s e)) = Suc (n + k)" using Suc.prems by (simp_all add: idle_sem_def)
  define s1 where "s1 = ecb_upd e (\<lambda>ev. ev\<lparr>OSEventCnt := OSEventCnt ev - 1\<rparr>) s"
  have "OSEventCnt (OSEcbTbl s e) \<noteq> 0" using h(5) by auto
  then have p: "OSSemPend (Some e) 0 s = Inr (Returned OS_ERR_NONE, s1)" and c: "unat (OSEventCnt (OSEcbTbl s e) - 1) = n + k"
    using h by (simp_all add: OSSemPend_def word_gt_0 s1_def unat_minus_one)
  have "idle_sem s1 e (n + k)" using h c by (simp add: idle_sem_def s1_def wait_list_def os_simps)
  from Suc.IH [OF this] show ?case using p by (auto simp: comm_get_def comm_result_def)
qed simp

text \<open>C39: Characters are lost: when several of them arrive before the console asks for the first, the semaphore counts them all,
  but the variable holds one; the console then reads the last character as often as characters have come.\<close>

theorem uart_overrun:
  assumes "kernel_run s pcs" "OSIntNesting s = 0" "OSLockNesting s = 0" "OSEventType (OSEcbTbl s e) = OS_EVENT_TYPE_SEM"
    and "waits s e = {}" "OSEventCnt (OSEcbTbl s e) = 0" "cs \<noteq> []" "length cs < 65536"
  shows "\<exists>s1 s2. receive_all cs (Some e) (s, chr) = Inr (s1, last cs) \<and> unat (OSEventCnt (OSEcbTbl s1 e)) = length cs
    \<and> read_all (length cs) (Some e) (s1, last cs) = Inr (replicate (length cs) (last cs), s2, last cs)"
proof -
  have "idle_sem s e 0" using assms by (simp add: idle_sem_def)
  then obtain s1 where s1: "receive_all cs (Some e) (s, chr) = Inr (s1, last (chr # cs))" "idle_sem s1 e (length cs)"
    using receive_all_counts [OF kernel_run_inv(1) [OF assms(1)], of e 0 cs chr] assms(8) by auto
  then show ?thesis using read_all_same [of s1 e "length cs" 0 "last cs"] assms(7) by (auto simp: idle_sem_def)
qed

theorem uart_overrun_witness:
  "\<exists>s1 s2. receive_all [108, 115] (Some 0) (demo, 0) = Inr (s1, 115) \<and> unat (OSEventCnt (OSEcbTbl s1 0)) = 2
    \<and> read_all 2 (Some 0) (s1, 115) = Inr ([115, 115], s2, 115)"
proof -
  have d: "OSIntNesting demo = 0" "OSLockNesting demo = 0" "OSEventType (OSEcbTbl demo 0) = OS_EVENT_TYPE_SEM" "waits demo 0 = {}"
    "OSEventCnt (OSEcbTbl demo 0) = 0" by code_simp+
  show ?thesis using uart_overrun [OF kernel_run_demo d, of "[108, 115]" 0] by (simp add: numeral_2_eq_2)
qed

section \<open>Delivery\<close>

text \<open>C21: A character arrives: when the console waits for it and no ready task has a higher priority, the handler leaves with
  the console running, which reads this character.\<close>

theorem uart_delivers:
  assumes "kernel_run s pcs" "OSIntNesting s = 0" "OSLockNesting s = 0" "OSEventType (OSEcbTbl s e) = OS_EVENT_TYPE_SEM"
    and "waits s e = {p}" "OSTCBPrioTbl s ! p = Tcb t" "OSTCBStat (OSTCBTbl s t) AND OS_STAT_SUSPEND = 0" "\<forall>q\<in>ready s. p < q"
  shows "\<exists>s1 s2. USART1_IRQHandler True c (Some e) (s, chr) = Inr (s1, c) \<and> unat (OSPrioCur s1) = p \<and> OSTCBCur s1 = Tcb t
    \<and> comm_get_resume e (s1, c) = Inr (c, s2, c)"
proof -
  note inv = kernel_run_inv(1) [OF assms(1)]
  define s1 where "s1 = s\<lparr>OSIntNesting := 1\<rparr>"
  note E = IntEnter_first [OF inv assms(2), folded s1_def]
  have w1: "waits s1 e = {p}" "OSEcbTbl s1 = OSEcbTbl s" "ready s1 = ready s" "OSTCBTbl s1 = OSTCBTbl s"
    using assms(5) by (simp_all add: s1_def wait_list_def ready_list_def)
  have type: "OSEventType (OSEcbTbl s1 e) = kind_type SemK" using assms(4) by (simp add: w1(2))
  have grp: "OSEventGrp (OSEcbTbl s1 e) \<noteq> 0" using waits_empty [OF E(2), of e] w1(1) by simp
  obtain s2 u where s2: "OS_EventTaskRdy e Null (kind_stat SemK) OS_STAT_PEND_OK s1 = Inr (of_nat p, s2)" "kernel_inv s2 pcs" "same_context s1 s2"
    "task_at s1 p u" "ready s2 = (if OSTCBStat (OSTCBTbl s1 u) AND 8 = 0 then insert p (ready s1) else ready s1)"
    "OSTCBStatPend (OSTCBTbl s2 u) = OS_STAT_PEND_OK"
    using event_rdy_inv [OF E(2) type, of Null OS_STAT_PEND_OK] w1(1) by auto
  have u: "u = t" using s2(4) assms(6) by (simp add: task_at_def s1_def)
  have r2: "ready s2 = insert p (ready s)" using s2(5) assms(7) by (simp add: u w1)
  have n2: "OSIntNesting s2 = 1" "OSLockNesting s2 = 0" "OSTCBPrioTbl s2 = OSTCBPrioTbl s"
    using s2(3) assms(3) by (simp_all add: same_context_def s1_def)
  have post: "OSSemPost (Some e) s1 = Inr (OS_ERR_NONE, s2)"
    using s2(1) assms(4) grp n2(1) by (simp add: OSSemPost_def w1(2) OS_Sched_def)
  obtain s3 where s3: "OSIntExit s2 = Inr s3" "unat (OSPrioCur s3) = Min (ready s2)" "cur_ok s3" "sched_frame (s2\<lparr>OSIntNesting := 0\<rparr>) s3"
    using IntExit_last [OF s2(2) n2(1, 2)] by blast
  note F = frame_event [OF s3(4)]
  have "Min (insert p (ready s)) = p" using assms(8) by (intro Min_eqI) (auto simp: less_imp_le)
  then have cur: "unat (OSPrioCur s3) = p" using s3(2) r2 by simp
  then have t3: "OSTCBCur s3 = Tcb t" using s3(3) assms(6) F(6) n2(3) by (auto simp: cur_ok_def task_at_def)
  have "\<exists>s4. OSSemPend_resume e s3 = Inr (OS_ERR_NONE, s4)"
    using t3 F(7) [of t] s2(6) by (simp add: OSSemPend_resume_def pend_resume_def deref_def u)
  then show ?thesis using post s3(1) E(1) cur t3 by (auto simp: USART1_IRQHandler_def comm_get_resume_def comm_result_def)
qed

theorem uart_delivers_witness:
  "\<exists>s1 s2. USART1_IRQHandler True 108 (Some 0) (demo_waiting, 0) = Inr (s1, 108) \<and> unat (OSPrioCur s1) = 5 \<and> OSTCBCur s1 = Tcb 2
    \<and> comm_get_resume 0 (s1, 108) = Inr (108, s2, 108)"
  by (rule uart_delivers [OF kernel_run_waiting]) code_simp+

end
