(* ===== verification/Mballoc.thy ===== *)
theory Mballoc
  imports Kernel_Api
begin

text \<open>
  The multiblock allocator of ext4 as the repository keeps and annotates it, \<open>src/EXT4_review/mballoc.c\<close>: how the buddy bitmaps
  of a group of blocks are made from its block bitmap, and how the allocator is set up. What the kernel provides outside this
  file is a record of functions; \<open>mb_spec\<close> states what the comments of the file say about them.
\<close>

section \<open>Services and data\<close>

text \<open>
  The bit searches take the bitmap, the number of bits and the bit to start at; \<open>mb_clear\<close> takes the bit, the address of the
  bitmap in the buddy page and the page; \<open>mb_ffs\<close> and \<open>mb_fls\<close> count from 1 and are 0 if no bit is set.
\<close>

record mb_kernel =
  mb_find_next_zero_bit :: "mem \<Rightarrow> nat \<Rightarrow> nat \<Rightarrow> nat"
  mb_find_next_bit :: "mem \<Rightarrow> nat \<Rightarrow> nat \<Rightarrow> nat"
  mb_clear_bit :: "nat \<Rightarrow> nat \<Rightarrow> mem \<Rightarrow> mem"
  mb_ffs :: "nat \<Rightarrow> nat"
  mb_fls :: "nat \<Rightarrow> nat"

definition next_one_spec :: "(mem \<Rightarrow> nat \<Rightarrow> nat \<Rightarrow> nat) \<Rightarrow> bool" where
  "next_one_spec nb \<longleftrightarrow>
     (\<forall>m n s. s \<le> n \<longrightarrow> s \<le> nb m n s \<and> nb m n s \<le> n
        \<and> (nb m n s < n \<longrightarrow> bit_at m (nb m n s))
        \<and> (\<forall>k. s \<le> k \<and> k < nb m n s \<longrightarrow> \<not> bit_at m k))"

definition mb_spec :: "mb_kernel \<Rightarrow> bool" where
  "mb_spec K \<longleftrightarrow>
     next_zero_spec (mb_find_next_zero_bit K) \<and> next_one_spec (mb_find_next_bit K)
     \<and> (\<forall>n a m k. bit_at (mb_clear_bit K n a m) k \<longleftrightarrow> k \<noteq> 8 * a + n \<and> bit_at m k)
     \<and> (\<forall>x. (x = 0 \<longrightarrow> mb_ffs K x = 0)
          \<and> (x \<noteq> 0 \<longrightarrow> 0 < mb_ffs K x \<and> bit x (mb_ffs K x - 1) \<and> (\<forall>k < mb_ffs K x - 1. \<not> bit x k)))
     \<and> (\<forall>x. (x = 0 \<longrightarrow> mb_fls K x = 0) \<and> (x \<noteq> 0 \<longrightarrow> 0 < mb_fls K x \<and> 2 ^ (mb_fls K x - 1) \<le> x \<and> x < 2 ^ mb_fls K x))"

text \<open>The fields of the super block and of a group that the code uses, and the counters of the module.\<close>

record mb_sb =
  s_blocksize_bits :: nat
  s_blocks_per_group :: nat
  s_mb_offsets :: "nat \<Rightarrow> nat"
  s_mb_maxs :: "nat \<Rightarrow> nat"

record mb_group =
  bb_first_free :: nat
  bb_free :: nat
  bb_fragments :: nat
  bb_counters :: "nat \<Rightarrow> nat"
  bb_need_init :: bool

record mb_stats =
  s_mb_buddies_generated :: nat
  s_mb_generation_time :: nat

section \<open>Making the buddy bitmaps\<close>

text \<open>
  The loop of \<open>ext4_mb_mark_free_simple\<close>. The largest order is limited by the alignment of \<open>first\<close>, by \<open>border\<close>, an
  unsigned short, and by \<open>len\<close> (\<open>mark_order\<close>); a chunk is counted and, from two blocks on, marked (\<open>mark_chunk\<close>). An order of -1 is an access before \<open>bb_counters\<close>. Each round takes at least one block, so that
  \<open>len\<close> is enough fuel.
\<close>

definition mark_order :: "mb_kernel \<Rightarrow> mb_sb \<Rightarrow> nat \<Rightarrow> nat \<Rightarrow> nat res" where
  "mark_order K sb first len =
     (let border = (2 * 2 ^ s_blocksize_bits sb) mod 65536;
          up = mb_ffs K (first OR border);
          low = mb_fls K len
      in if up = 0 \<or> low = 0 then Inl OutOfBounds else Inr (if up - 1 < low - 1 then up - 1 else low - 1))"

definition mark_chunk :: "mb_kernel \<Rightarrow> mb_sb \<Rightarrow> nat \<Rightarrow> nat \<Rightarrow> mem \<times> mb_group \<Rightarrow> mem \<times> mb_group" where
  "mark_chunk K sb first order = (\<lambda>(buddy, grp).
     (if order > 0 then mb_clear_bit K (first div 2 ^ order) (s_mb_offsets sb order) buddy else buddy,
      grp\<lparr>bb_counters := (bb_counters grp)(order := bb_counters grp order + 1)\<rparr>))"

primrec mark_free_chunks :: "mb_kernel \<Rightarrow> mb_sb \<Rightarrow> nat \<Rightarrow> nat \<Rightarrow> nat \<Rightarrow> mem \<times> mb_group \<Rightarrow> (mem \<times> mb_group) res" where
  "mark_free_chunks K sb 0 first len bg = (if len > 0 then Inl NoEnd else Inr bg)"
| "mark_free_chunks K sb (Suc fuel) first len bg =
     (if len > 0 then
        rbind (mark_order K sb first len) (\<lambda>order.
        mark_free_chunks K sb fuel (first + 2 ^ order) (len - 2 ^ order) (mark_chunk K sb first order bg))
      else Inr bg)"

definition ext4_mb_mark_free_simple :: "mb_kernel \<Rightarrow> mb_sb \<Rightarrow> mem \<Rightarrow> nat \<Rightarrow> nat \<Rightarrow> mb_group \<Rightarrow> (mem \<times> mb_group) res" where
  "ext4_mb_mark_free_simple K sb buddy first len grp =
     (if len > s_blocks_per_group sb then Inl KBug else mark_free_chunks K sb len first len (buddy, grp))"

text \<open>The loop of \<open>ext4_mb_generate_buddy\<close> over the runs of free blocks; \<open>i\<close> is the start of a run or \<open>bound\<close>.\<close>

primrec generate_runs :: "mb_kernel \<Rightarrow> mb_sb \<Rightarrow> nat \<Rightarrow> mem \<Rightarrow> nat \<Rightarrow> nat \<Rightarrow> nat \<Rightarrow> nat \<Rightarrow> mem \<Rightarrow> mb_group
    \<Rightarrow> (nat \<times> nat \<times> mem \<times> mb_group) res" where
  "generate_runs K sb 0 bitmap bound i free fragments buddy grp =
     (if i < bound then Inl NoEnd else Inr (free, fragments, buddy, grp))"
| "generate_runs K sb (Suc fuel) bitmap bound i free fragments buddy grp =
     (if i < bound then
        let first = i;
            i = mb_find_next_bit K bitmap bound i;
            len = i - first
        in rbind (if len > 1 then ext4_mb_mark_free_simple K sb buddy first len grp
                  else Inr (buddy, grp\<lparr>bb_counters := (bb_counters grp)(0 := bb_counters grp 0 + 1)\<rparr>)) (\<lambda>(buddy, grp).
           generate_runs K sb fuel bitmap bound (if i < bound then mb_find_next_zero_bit K bitmap bound i else i)
             (free + len) (fragments + 1) buddy grp)
      else Inr (free, fragments, buddy, grp))"

text \<open>
  The result has the error that \<open>ext4_grp_locked_error\<close> reports: whether the free blocks in the bitmap and in the group
  descriptor differ. \<open>period\<close> is the number of cycles between the two calls of \<open>get_cycles\<close>.
\<close>

definition ext4_mb_generate_buddy :: "mb_kernel \<Rightarrow> mb_sb \<Rightarrow> nat \<Rightarrow> mem \<Rightarrow> mem \<Rightarrow> mb_group \<Rightarrow> mb_stats
    \<Rightarrow> (bool \<times> mem \<times> mb_group \<times> mb_stats) res" where
  "ext4_mb_generate_buddy K sb period buddy bitmap grp st =
     (let bound = s_blocks_per_group sb mod 65536;
          i = mb_find_next_zero_bit K bitmap bound 0;
          grp = grp\<lparr>bb_first_free := i\<rparr>
      in rbind (generate_runs K sb bound bitmap bound i 0 0 buddy grp) (\<lambda>(free, fragments, buddy, grp).
         let grp = grp\<lparr>bb_fragments := fragments\<rparr>;
             differ = (free \<noteq> bb_free grp);
             grp = (if differ then grp\<lparr>bb_free := free\<rparr> else grp)
         in Inr (differ, buddy, grp\<lparr>bb_need_init := False\<rparr>,
              st\<lparr>s_mb_buddies_generated := s_mb_buddies_generated st + 1, s_mb_generation_time := s_mb_generation_time st + period\<rparr>)))"

section \<open>Setting up the allocator\<close>

text \<open>
  The tables of \<open>ext4_mb_init\<close>: for each order the address of its bitmap in the buddy page and the number of its bits. In the
  last round the shift count is negative: \<open>undef\<close> is whatever that shift gives.
\<close>

function mb_tables :: "nat \<Rightarrow> nat \<Rightarrow> nat \<Rightarrow> nat \<Rightarrow> nat \<Rightarrow> mb_sb \<Rightarrow> mb_sb" where
  "mb_tables undef bits i offset limit sb =
     (let sb = sb\<lparr>s_mb_offsets := (s_mb_offsets sb)(i := offset), s_mb_maxs := (s_mb_maxs sb)(i := limit)\<rparr>;
          offset = offset + (if i \<le> bits then 2 ^ (bits - i) else undef);
          limit = limit div 2;
          i = i + 1
      in if i \<le> bits + 1 then mb_tables undef bits i offset limit sb else sb)"
  by pat_completeness auto
termination by (relation "measure (\<lambda>(undef, bits, i, offset, limit, sb). Suc bits - i)") auto

text \<open>
  What is allocated when \<open>ext4_mb_init\<close> returns, and its result: 0 or a negative error code. \<open>offsets_ok\<close>, \<open>maxs_ok\<close> and
  \<open>groups_ok\<close> tell whether the three allocations succeed, \<open>backend\<close> is the result of \<open>ext4_mb_init_backend\<close>, which has set
  up the data of the groups if it is 0. The constants, locks and statistics that it sets besides are left out.
\<close>

datatype mb_part = MbOffsets | MbMaxs | MbBackend | MbLocality

definition ENOMEM :: int where "ENOMEM = 12"

definition ext4_mb_init :: "nat \<Rightarrow> bool \<Rightarrow> bool \<Rightarrow> int \<Rightarrow> bool \<Rightarrow> mb_sb \<Rightarrow> int \<times> mb_part list \<times> mb_sb" where
  "ext4_mb_init undef offsets_ok maxs_ok backend groups_ok sb =
     (if \<not> offsets_ok then (- ENOMEM, [], sb)
      else if \<not> maxs_ok then (- ENOMEM, [MbOffsets], sb)
      else
        let bits = s_blocksize_bits sb;
            sb = sb\<lparr>s_mb_offsets := (s_mb_offsets sb)(0 := 0), s_mb_maxs := (s_mb_maxs sb)(0 := 2 ^ bits * 8)\<rparr>;
            sb = mb_tables undef bits 1 0 (2 ^ bits * 4) sb
        in if backend \<noteq> 0 then (backend, [], sb)
           else if \<not> groups_ok then (- ENOMEM, [MbBackend], sb)
           else (0, [MbOffsets, MbMaxs, MbBackend, MbLocality], sb))"

end
