(* ===== verification/Mballoc_Props.thy ===== *)
theory Mballoc_Props
  imports Mballoc
begin

text \<open>
  What \<open>Mballoc\<close> computes: a run of free blocks is cut into the largest aligned blocks of a power of two, so that the buddy
  bitmaps of a group show exactly its maximal free blocks and the counters their numbers; and the tables and error exits of
  the set-up.
\<close>

section \<open>Aligned blocks\<close>

text \<open>The order of the chunk at \<open>f\<close> when \<open>l\<close> blocks are left.\<close>

definition fits :: "nat \<Rightarrow> nat \<Rightarrow> nat \<Rightarrow> nat \<Rightarrow> bool" where
  "fits M f l k \<longleftrightarrow> k \<le> M \<and> 2 ^ k dvd f \<and> 2 ^ k \<le> l"

definition order_at :: "nat \<Rightarrow> nat \<Rightarrow> nat \<Rightarrow> nat" where
  "order_at M f l = (GREATEST k. fits M f l k)"

lemma order_at_greatest:
  assumes "0 < l"
  shows "fits M f l (order_at M f l)" "fits M f l k \<Longrightarrow> k \<le> order_at M f l"
proof -
  have "fits M f l 0" using assms by (simp add: fits_def)
  moreover have b: "\<And>k. fits M f l k \<Longrightarrow> k \<le> M" by (simp add: fits_def)
  ultimately show "fits M f l (order_at M f l)" unfolding order_at_def by (rule GreatestI_nat)
  show "fits M f l k \<Longrightarrow> k \<le> order_at M f l" unfolding order_at_def by (rule Greatest_le_nat [where b = M]) (auto intro: b)
qed

lemma order_at_eq: "0 < l \<Longrightarrow> fits M f l k \<Longrightarrow> \<not> fits M f l (Suc k) \<Longrightarrow> order_at M f l = k"
proof (rule le_antisym)
  assume l: "0 < l" and n: "\<not> fits M f l (Suc k)"
  show "order_at M f l \<le> k"
  proof (rule ccontr)
    assume "\<not> order_at M f l \<le> k"
    then have le: "Suc k \<le> order_at M f l" by simp
    have "fits M f l (order_at M f l)" by (rule order_at_greatest(1) [OF l])
    then have "fits M f l (Suc k)" using le power_le_imp_le_exp [of 2] unfolding fits_def
      by (meson le_imp_power_dvd dvd_trans le_trans one_le_numeral power_increasing)
    then show False using n by simp
  qed
qed (rule order_at_greatest(2))

primrec chunks :: "nat \<Rightarrow> nat \<Rightarrow> nat \<Rightarrow> nat \<Rightarrow> (nat \<times> nat) list" where
  "chunks M 0 f l = []"
| "chunks M (Suc n) f l =
     (if l > 0 then let k = order_at M f l in (f, k) # chunks M n (f + 2 ^ k) (l - 2 ^ k) else [])"

lemma chunks_within:
  "(s, k) \<in> set (chunks M n f l) \<Longrightarrow> k \<le> M \<and> 2 ^ k dvd s \<and> f \<le> s \<and> s + 2 ^ k \<le> f + l"
proof (induction n arbitrary: f l)
  case (Suc n)
  have "l > 0" using Suc.prems by (auto split: if_splits)
  then have o: "fits M f l (order_at M f l)" by (rule order_at_greatest(1))
  consider "(s, k) = (f, order_at M f l)" | "(s, k) \<in> set (chunks M n (f + 2 ^ order_at M f l) (l - 2 ^ order_at M f l))"
    using Suc.prems \<open>l > 0\<close> by (auto simp: Let_def)
  then show ?case
  proof cases
    case 1
    then show ?thesis using o by (simp add: fits_def)
  next
    case 2
    have "f + 2 ^ order_at M f l + (l - 2 ^ order_at M f l) = f + l" using o by (simp add: fits_def)
    then show ?thesis using Suc.IH [OF 2] by simp
  qed
qed simp

lemma chunks_cover:
  "l \<le> n \<Longrightarrow> f \<le> x \<Longrightarrow> x < f + l \<Longrightarrow> \<exists>(s, k)\<in>set (chunks M n f l). s \<le> x \<and> x < s + 2 ^ k"
proof (induction n arbitrary: f l)
  case (Suc n)
  have l: "l > 0" using Suc.prems by simp
  define k where "k = order_at M f l"
  have o: "2 ^ k \<le> l" using order_at_greatest(1) [OF l, of M f] by (simp add: fits_def k_def)
  have pos: "(0 :: nat) < 2 ^ k" by simp
  show ?case
  proof (cases "x < f + 2 ^ k")
    case True
    then show ?thesis using Suc.prems l by (auto simp: Let_def k_def)
  next
    case False
    have "l - 2 ^ k \<le> n" "f + 2 ^ k \<le> x" "x < f + 2 ^ k + (l - 2 ^ k)" using Suc.prems False o pos l by linarith+
    then show ?thesis using Suc.IH l by (fastforce simp: Let_def k_def)
  qed
qed simp

lemma chunks_distinct: "distinct (chunks M n f l)"
proof (induction n arbitrary: f l)
  case (Suc n)
  have "(f, k) \<notin> set (chunks M n (f + 2 ^ j) l')" for k j l'
    using chunks_within [of f k M n "f + 2 ^ j" l'] by auto
  then show ?case using Suc.IH by (simp add: Let_def)
qed simp

lemma chunks_size: "l \<le> n \<Longrightarrow> (\<Sum>(s, k)\<leftarrow>chunks M n f l. 2 ^ k) = l"
proof (induction n arbitrary: f l)
  case (Suc n)
  define k where "k = order_at M f l"
  show ?case
  proof (cases "l > 0")
    case True
    have o: "2 ^ k \<le> l" using order_at_greatest(1) [OF True, of M f] by (simp add: fits_def k_def)
    have pos: "(0 :: nat) < 2 ^ k" by simp
    have "l - 2 ^ k \<le> n" using Suc.prems o pos True by linarith
    from Suc.IH [OF this, of "f + 2 ^ k"] show ?thesis using True o by (simp add: Let_def k_def)
  qed simp
qed simp

text \<open>Aligned blocks are nested or disjoint.\<close>

lemma aligned_nested:
  fixes s p x :: nat
  assumes "2 ^ k dvd s" "2 ^ j dvd p" "k \<le> j" "s \<le> x" "x < s + 2 ^ k" "p \<le> x" "x < p + 2 ^ j"
  shows "p \<le> s" "s + 2 ^ k \<le> p + 2 ^ j"
proof -
  have d: "(2 :: nat) ^ k dvd 2 ^ j" using assms(3) by (rule le_imp_power_dvd)
  obtain a where a: "s = 2 ^ k * a" using assms(1) by blast
  obtain b where b: "p = 2 ^ k * b" using dvd_trans [OF d assms(2)] by blast
  obtain c where c: "(2 :: nat) ^ j = 2 ^ k * c" using d by blast
  have pos: "(0 :: nat) < 2 ^ k" by simp
  have "2 ^ k * b < 2 ^ k * (a + 1)" using assms(5, 6) a b by simp
  then have "b < a + 1" using pos by (simp only: mult_less_cancel1)
  then have "b \<le> a" by simp
  then show "p \<le> s" unfolding a b by simp
  have "2 ^ k * a < 2 ^ k * (b + c)" using assms(4, 7) a b c by (simp add: distrib_left)
  then have "a < b + c" using pos by (simp only: mult_less_cancel1)
  then have "a + 1 \<le> b + c" by simp
  then have "2 ^ k * (a + 1) \<le> 2 ^ k * (b + c)" by (rule mult_le_mono2)
  then show "s + 2 ^ k \<le> p + 2 ^ j" unfolding a b c by (simp add: distrib_left)
qed

text \<open>No two chunks could have been one: the aligned block of twice the size around a chunk does not lie in the run.\<close>

definition parent :: "nat \<Rightarrow> nat \<Rightarrow> nat" where
  "parent s k = s div 2 ^ Suc k * 2 ^ Suc k"

lemma parent_aligned: "2 ^ Suc k dvd parent s k"
  unfolding parent_def by (rule dvd_triv_right)

lemma parent_le: "parent s k \<le> s" "s < parent s k + 2 ^ Suc k"
  unfolding parent_def by (rule div_times_less_eq_dividend) (metis dividend_less_div_times zero_less_numeral zero_less_power add.commute)

lemma chunks_maximal:
  "(s, k) \<in> set (chunks M n f l) \<Longrightarrow> k < M \<Longrightarrow> f \<le> parent s k \<Longrightarrow> \<not> parent s k + 2 ^ Suc k \<le> f + l"
proof (induction n arbitrary: f l)
  case (Suc n)
  have l: "l > 0" using Suc.prems(1) by (auto split: if_splits)
  define j where "j = order_at M f l"
  have o: "fits M f l j" unfolding j_def by (rule order_at_greatest(1) [OF l])
  have g: "\<And>i. fits M f l i \<Longrightarrow> i \<le> j" unfolding j_def by (rule order_at_greatest(2) [OF l])
  show ?case
  proof
    assume p: "parent s k + 2 ^ Suc k \<le> f + l"
    have none: "parent s k \<noteq> f" if "k \<ge> j"
    proof
      assume e: "parent s k = f"
      have "fits M f l (Suc k)" using p e parent_aligned [of k s] Suc.prems(2) by (simp add: fits_def)
      then show False using g that by fastforce
    qed
    consider "(s, k) = (f, j)" | "(s, k) \<in> set (chunks M n (f + 2 ^ j) (l - 2 ^ j))"
      using Suc.prems(1) l by (auto simp: Let_def j_def)
    then show False
    proof cases
      case 1
      then show False using none Suc.prems(3) parent_le(1) [of s k] by simp
    next
      case 2
      have e: "f + 2 ^ j + (l - 2 ^ j) = f + l" using o by (simp add: fits_def)
      have s: "f + 2 ^ j \<le> s" "2 ^ k dvd s" using chunks_within [OF 2] by simp_all
      have "parent s k < f + 2 ^ j" using Suc.IH [OF 2 Suc.prems(2)] p e by (metis not_le)
      note in_chunk = Suc.prems(3) this
      show False
      proof (cases "k \<ge> j")
        case True
        have "f = parent s k"
        proof -
          have "2 ^ j dvd f" using o by (simp add: fits_def)
          then have "parent s k \<le> f"
            using aligned_nested(1) [of j f "Suc k" "parent s k" "parent s k"] parent_aligned [of k s] True in_chunk by simp
          then show ?thesis using in_chunk by simp
        qed
        then show False using none True by simp
      next
        case False
        then have "parent s k + 2 ^ Suc k \<le> f + 2 ^ j"
          using aligned_nested(2) [of "Suc k" "parent s k" j f "parent s k"] parent_aligned [of k s] o in_chunk by (simp add: fits_def)
        then show False using parent_le(2) [of s k] s(1) by simp
      qed
    qed
  qed
qed simp

section \<open>The loop over a run\<close>

lemma mb_specD:
  assumes "mb_spec K"
  shows "next_zero_spec (mb_find_next_zero_bit K)" "next_one_spec (mb_find_next_bit K)"
    "bit_at (mb_clear_bit K n a m) k \<longleftrightarrow> k \<noteq> 8 * a + n \<and> bit_at m k"
    "x \<noteq> 0 \<Longrightarrow> 0 < mb_ffs K x \<and> bit x (mb_ffs K x - 1) \<and> (\<forall>k < mb_ffs K x - 1. \<not> bit x k)"
    "x \<noteq> 0 \<Longrightarrow> 0 < mb_fls K x \<and> 2 ^ (mb_fls K x - 1) \<le> x \<and> x < 2 ^ mb_fls K x"
  using assms by (simp_all add: mb_spec_def)

lemma power_dvd_bits: "2 ^ n dvd (f :: nat) \<longleftrightarrow> (\<forall>m<n. \<not> bit f m)"
proof -
  have "2 ^ n dvd f \<longleftrightarrow> take_bit n f = 0" by (simp add: take_bit_eq_0_iff)
  also have "\<dots> \<longleftrightarrow> (\<forall>m<n. \<not> bit f m)" by (auto simp: bit_eq_iff bit_simps)
  finally show ?thesis .
qed

lemma mark_order_at:
  assumes K: "mb_spec K" and b: "s_blocksize_bits sb \<le> 14" and l: "0 < l"
  shows "mark_order K sb f l = Inr (order_at (Suc (s_blocksize_bits sb)) f l)"
proof -
  define M where "M = Suc (s_blocksize_bits sb)"
  define x where "x = f OR 2 ^ M"
  have "(2 :: nat) ^ M \<le> 2 ^ 15" using b unfolding M_def by (intro power_increasing) simp_all
  then have border: "(2 * 2 ^ s_blocksize_bits sb) mod 65536 = (2 :: nat) ^ M" by (simp add: M_def)
  have bits: "bit x m \<longleftrightarrow> bit f m \<or> m = M" for m by (auto simp: x_def bit_simps)
  have "x \<noteq> 0"
  proof
    assume "x = 0"
    then show False using bits [of M] by simp
  qed
  note up = mb_specD(4) [OF K this]
  note low = mb_specD(5) [OF K less_imp_neq [OF l, symmetric]]
  define u where "u = mb_ffs K x - 1"
  define w where "w = mb_fls K l - 1"
  have u: "bit x u" "\<forall>m<u. \<not> bit x m" "mb_ffs K x = Suc u" using up by (simp_all add: u_def)
  have w: "2 ^ w \<le> l" "l < 2 ^ Suc w" "mb_fls K l = Suc w" using low by (simp_all add: w_def)
  have uM: "u \<le> M" using u(2) bits by (metis not_le)
  have du: "2 ^ u dvd f" using u(2) bits by (simp add: power_dvd_bits)
  have "(2 :: nat) ^ min u w \<le> 2 ^ w" "(2 :: nat) ^ min u w dvd 2 ^ u"
    by (simp_all add: le_imp_power_dvd)
  then have "fits M f l (min u w)" using uM du w(1) unfolding fits_def by (meson dvd_trans le_trans min.cobounded1)
  moreover have "\<not> fits M f l (Suc (min u w))"
  proof (cases "w \<le> u")
    case True
    then show ?thesis using w(2) by (simp add: fits_def min_def)
  next
    case False
    show ?thesis
    proof (cases "u = M")
      case True
      then show ?thesis using False by (simp add: fits_def)
    next
      case uM: False
      then have "bit f u" using u(1) bits by simp
      then have "\<not> 2 ^ Suc u dvd f" unfolding power_dvd_bits by auto
      then show ?thesis using False by (simp add: fits_def min_def)
    qed
  qed
  ultimately have "order_at M f l = min u w" by (rule order_at_eq [OF l])
  then show ?thesis unfolding mark_order_def Let_def border x_def [symmetric] u(3) w(3) M_def [symmetric] by (simp add: min_def)
qed

definition mark_all :: "mb_kernel \<Rightarrow> mb_sb \<Rightarrow> (nat \<times> nat) list \<Rightarrow> mem \<times> mb_group \<Rightarrow> mem \<times> mb_group" where
  "mark_all K sb cs = fold (\<lambda>(s, k). mark_chunk K sb s k) cs"

lemma mark_all_Cons: "mark_all K sb ((s, k) # cs) bg = mark_all K sb cs (mark_chunk K sb s k bg)"
  and mark_all_append: "mark_all K sb (cs @ cs') bg = mark_all K sb cs' (mark_all K sb cs bg)"
  and mark_all_Nil: "mark_all K sb [] bg = bg"
  by (simp_all add: mark_all_def)

lemma mark_free_chunks_all:
  assumes "mb_spec K" "s_blocksize_bits sb \<le> 14"
  shows "l \<le> n \<Longrightarrow> mark_free_chunks K sb n f l bg = Inr (mark_all K sb (chunks (Suc (s_blocksize_bits sb)) n f l) bg)"
proof (induction n arbitrary: f l bg)
  case 0
  then show ?case by (simp add: mark_all_Nil)
next
  case (Suc n)
  show ?case
  proof (cases "l > 0")
    case True
    define k where "k = order_at (Suc (s_blocksize_bits sb)) f l"
    have "(0 :: nat) < 2 ^ k" by simp
    then have "l - 2 ^ k \<le> n" using Suc.prems True by linarith
    then show ?thesis using True Suc.IH by (simp add: mark_order_at [OF assms True] Let_def k_def mark_all_Cons)
  qed (simp add: mark_all_Nil)
qed

lemma mark_all_bits:
  assumes "mb_spec K"
  shows "bit_at (fst (mark_all K sb cs bg)) b \<longleftrightarrow>
    bit_at (fst bg) b \<and> \<not> (\<exists>(s, k)\<in>set cs. 0 < k \<and> b = 8 * s_mb_offsets sb k + s div 2 ^ k)"
proof (induction cs arbitrary: bg)
  case (Cons c cs)
  obtain s k where c: "c = (s, k)" by (cases c)
  obtain bu g where bg: "bg = (bu, g)" by (cases bg)
  show ?case unfolding c mark_all_Cons Cons.IH
    by (auto simp: bg mark_chunk_def mb_specD(3) [OF assms])
qed (simp add: mark_all_Nil)

lemma mark_all_group:
  "snd (mark_all K sb cs bg) = (snd bg)\<lparr>bb_counters := (\<lambda>k. bb_counters (snd bg) k + length (filter (\<lambda>c. snd c = k) cs))\<rparr>"
proof (induction cs arbitrary: bg)
  case (Cons c cs)
  obtain s k where c: "c = (s, k)" by (cases c)
  obtain bu g where bg: "bg = (bu, g)" by (cases bg)
  show ?case unfolding c mark_all_Cons Cons.IH by (auto simp: bg mark_chunk_def intro!: mb_group.equality)
qed (simp add: mark_all_Nil)

section \<open>Maximal free blocks\<close>

definition free_block :: "mem \<Rightarrow> nat \<Rightarrow> nat \<Rightarrow> nat \<Rightarrow> bool" where
  "free_block bm n s k \<longleftrightarrow> (\<forall>x. s \<le> x \<and> x < s + 2 ^ k \<longrightarrow> x < n \<and> \<not> bit_at bm x)"

definition max_block :: "mem \<Rightarrow> nat \<Rightarrow> nat \<Rightarrow> nat \<Rightarrow> nat \<Rightarrow> bool" where
  "max_block bm n M s k \<longleftrightarrow> k \<le> M \<and> 2 ^ k dvd s \<and> free_block bm n s k \<and> (k = M \<or> \<not> free_block bm n (parent s k) (Suc k))"

text \<open>The chunks of a whole run of free blocks are the maximal free blocks in it.\<close>

lemma run_chunks_max:
  assumes "i < e" "e \<le> n" "\<And>x. i \<le> x \<Longrightarrow> x < e \<Longrightarrow> \<not> bit_at bm x" "e = n \<or> bit_at bm e" "i = 0 \<or> bit_at bm (i - 1)"
    and c: "(s, k) \<in> set (chunks M (e - i) i (e - i))"
  shows "i \<le> s" "s + 2 ^ k \<le> e" "s < e" "max_block bm n M s k"
proof -
  have w: "k \<le> M" "2 ^ k dvd s" "i \<le> s" "s + 2 ^ k \<le> e" using chunks_within [OF c] assms(1) by simp_all
  have "(0 :: nat) < 2 ^ k" by simp
  then have s: "s < e" using w(4) by linarith
  have f: "free_block bm n s k" unfolding free_block_def using w assms(2, 3) by auto
  have "\<not> free_block bm n (parent s k) (Suc k)" if "k \<noteq> M"
  proof
    assume p: "free_block bm n (parent s k) (Suc k)"
    have "i \<le> parent s k"
    proof (rule ccontr)
      assume "\<not> i \<le> parent s k"
      then have "parent s k \<le> i - 1" "i - 1 < parent s k + 2 ^ Suc k" "bit_at bm (i - 1)"
        using assms(5) parent_le(2) [of s k] w(3) by auto
      then show False using p unfolding free_block_def by blast
    qed
    moreover have "parent s k + 2 ^ Suc k \<le> e"
    proof (rule ccontr)
      assume "\<not> parent s k + 2 ^ Suc k \<le> e"
      then have "parent s k \<le> e" "e < parent s k + 2 ^ Suc k" using parent_le(1) [of s k] s by simp_all
      then have "e < n \<and> \<not> bit_at bm e" using p unfolding free_block_def by blast
      then show False using assms(4) by simp
    qed
    ultimately show False using chunks_maximal [OF c] that w(1) assms(1) by simp
  qed
  then show "i \<le> s" "s + 2 ^ k \<le> e" "s < e" "max_block bm n M s k" using w s f by (auto simp: max_block_def)
qed

lemma free_block_mono: "free_block bm n s k \<Longrightarrow> s \<le> s' \<Longrightarrow> s' + 2 ^ k' \<le> s + 2 ^ k \<Longrightarrow> free_block bm n s' k'"
  unfolding free_block_def by (meson le_trans less_le_trans)

text \<open>Two maximal free blocks that share a block are the same.\<close>

lemma max_block_unique:
  assumes m: "max_block bm n M s k" "max_block bm n M s' k'" and x: "s \<le> x" "x < s + 2 ^ k" "s' \<le> x" "x < s' + 2 ^ k'"
  shows "s = s' \<and> k = k'"
proof -
  have contained: False if m: "max_block bm n M s k" "max_block bm n M s' k'" and lt: "k < k'"
    and x: "s \<le> x" "x < s + 2 ^ k" "s' \<le> x" "x < s' + 2 ^ k'" for s k s' k'
  proof -
    have d: "2 ^ k dvd s" "2 ^ k' dvd s'" "k' \<le> M" "free_block bm n s' k'" using m by (simp_all add: max_block_def)
    have n: "s' \<le> s" "s + 2 ^ k \<le> s' + 2 ^ k'" using aligned_nested [OF d(1, 2) less_imp_le [OF lt] x] by simp_all
    have "(0 :: nat) < 2 ^ k" by simp
    then have "s < s' + 2 ^ k'" using n by linarith
    then have "s' \<le> parent s k" "parent s k + 2 ^ Suc k \<le> s' + 2 ^ k'"
      using aligned_nested [of "Suc k" "parent s k" k' s' s, OF parent_aligned d(2) _ parent_le n(1)] lt by simp_all
    then have "free_block bm n (parent s k) (Suc k)" by (rule free_block_mono [OF d(4)])
    then show False using m(1) lt d(3) by (simp add: max_block_def)
  qed
  have "k = k'" using contained [OF m _ x] contained [OF m(2, 1) _ x(3, 4, 1, 2)] by (metis linorder_neqE_nat)
  moreover have d: "2 ^ k dvd s" "2 ^ k' dvd s'" using m by (simp_all add: max_block_def)
  ultimately show ?thesis
    using aligned_nested(1) [OF d _ x] aligned_nested(1) [OF d(2, 1) _ x(3, 4, 1, 2)] by simp
qed

lemma run_chunks:
  assumes "i < e" "e \<le> n" "\<And>x. i \<le> x \<Longrightarrow> x < e \<Longrightarrow> \<not> bit_at bm x" "e = n \<or> bit_at bm e" "i = 0 \<or> bit_at bm (i - 1)"
  shows "(s, k) \<in> set (chunks M (e - i) i (e - i)) \<longleftrightarrow> i \<le> s \<and> s < e \<and> max_block bm n M s k"
proof
  assume "(s, k) \<in> set (chunks M (e - i) i (e - i))"
  then show "i \<le> s \<and> s < e \<and> max_block bm n M s k" using run_chunks_max [OF assms] by blast
next
  assume m: "i \<le> s \<and> s < e \<and> max_block bm n M s k"
  then obtain s' k' where c: "(s', k') \<in> set (chunks M (e - i) i (e - i))" "s' \<le> s" "s < s' + 2 ^ k'"
    using chunks_cover [of "e - i" "e - i" i s M] by auto
  have "s = s' \<and> k = k'"
    by (rule max_block_unique [of bm n M s k s' k' s]) (use m c run_chunks_max(4) [OF assms c(1)] in auto)
  then show "(s, k) \<in> set (chunks M (e - i) i (e - i))" using c(1) by simp
qed

lemma max_block_start: "max_block bm n M s k \<Longrightarrow> s < n \<and> \<not> bit_at bm s"
  unfolding max_block_def free_block_def by (metis le_refl less_add_same_cancel1 zero_less_numeral zero_less_power)

lemma max_block_none: "n \<le> s \<Longrightarrow> \<not> max_block bm n M s k"
  by (auto dest: max_block_start)

section \<open>The whole group\<close>

definition run_start :: "mem \<Rightarrow> nat \<Rightarrow> bool" where
  "run_start bm x \<longleftrightarrow> \<not> bit_at bm x \<and> (x = 0 \<or> bit_at bm (x - 1))"

lemma generate_runs_result:
  assumes K: "mb_spec K" "s_blocksize_bits sb \<le> 14" and n: "n \<le> s_blocks_per_group sb"
  shows "i \<le> n \<Longrightarrow> (i < n \<Longrightarrow> run_start bm i) \<Longrightarrow> n - i \<le> fuel \<Longrightarrow>
    \<exists>cs. generate_runs K sb fuel bm n i free frags (fst bg) (snd bg)
        = Inr (free + card {x. i \<le> x \<and> x < n \<and> \<not> bit_at bm x}, frags + card {x. i \<le> x \<and> x < n \<and> run_start bm x}, mark_all K sb cs bg)
      \<and> distinct cs \<and> set cs = {(s, k). i \<le> s \<and> max_block bm n (Suc (s_blocksize_bits sb)) s k}"
proof (induction fuel arbitrary: i free frags bg)
  case 0
  have z: "{x. i \<le> x \<and> x < n \<and> P x} = {}" for P using 0 by auto
  have e: "{(s, k). i \<le> s \<and> max_block bm n (Suc (s_blocksize_bits sb)) s k} = {}"
    using 0 by (auto simp: max_block_none)
  have "\<not> i < n" using 0 by simp
  then show ?case by (intro exI [of _ "[]"]) (simp add: z e mark_all_Nil)
next
  case (Suc fuel)
  define M where "M = Suc (s_blocksize_bits sb)"
  show ?case
  proof (cases "i < n")
    case False
    have z: "{x. i \<le> x \<and> x < n \<and> P x} = {}" for P using False by auto
    have e: "{(s, k). i \<le> s \<and> max_block bm n (Suc (s_blocksize_bits sb)) s k} = {}"
      using False by (auto simp: max_block_none)
    show ?thesis using False by (intro exI [of _ "[]"]) (simp add: z e mark_all_Nil)
  next
    case True
    define e where "e = mb_find_next_bit K bm n i"
    define i' where "i' = (if e < n then mb_find_next_zero_bit K bm n e else e)"
    have st: "\<not> bit_at bm i" "i = 0 \<or> bit_at bm (i - 1)" using Suc.prems(2) [OF True] by (simp_all add: run_start_def)
    have e: "i \<le> e" "e \<le> n" "e < n \<longrightarrow> bit_at bm e" "\<And>x. i \<le> x \<Longrightarrow> x < e \<Longrightarrow> \<not> bit_at bm x"
      using mb_specD(2) [OF K(1)] True unfolding next_one_spec_def e_def by (meson less_imp_le)+
    have ie: "i < e" using e st(1) True by (metis le_neq_implies_less)
    have i': "e \<le> i'" "i' \<le> n" "i' < n \<longrightarrow> \<not> bit_at bm i'" "\<And>x. e \<le> x \<Longrightarrow> x < i' \<Longrightarrow> bit_at bm x"
      using mb_specD(1) [OF K(1), unfolded next_zero_spec_def, rule_format, OF e(2), of bm] unfolding i'_def by (auto split: if_splits)
    have start: "run_start bm i'" if "i' < n"
    proof -
      have "e < n" using i'(1) that by simp
      then have "i' \<noteq> e" using e(3) i'(3) that by auto
      then have "e \<le> i' - 1" "i' - 1 < i'" using i'(1) by simp_all
      then show ?thesis using i'(3, 4) that by (simp add: run_start_def)
    qed
    define cs where "cs = chunks M (e - i) i (e - i)"
    have run: "set cs = {(s, k). i \<le> s \<and> s < e \<and> max_block bm n M s k}"
      unfolding cs_def using run_chunks [of i e n bm _ _ M, OF ie e(2) e(4) _ st(2)] e(2, 3) by (auto simp: le_less)
    have fuel: "n - i' \<le> fuel" using Suc.prems(3) ie i'(1) by linarith
    obtain cs' where IH: "generate_runs K sb fuel bm n i' (free + (e - i)) (frags + 1) (fst (mark_all K sb cs bg)) (snd (mark_all K sb cs bg))
        = Inr (free + (e - i) + card {x. i' \<le> x \<and> x < n \<and> \<not> bit_at bm x}, frags + 1 + card {x. i' \<le> x \<and> x < n \<and> run_start bm x},
            mark_all K sb cs' (mark_all K sb cs bg))"
      "distinct cs'" "set cs' = {(s, k). i' \<le> s \<and> max_block bm n M s k}"
      using Suc.IH [OF i'(2) start fuel, of "free + (e - i)" "frags + 1" "mark_all K sb cs bg"] unfolding M_def by blast
    have step: "(if e - i > 1 then ext4_mb_mark_free_simple K sb (fst bg) i (e - i) (snd bg)
        else Inr (fst bg, (snd bg)\<lparr>bb_counters := (bb_counters (snd bg))(0 := bb_counters (snd bg) 0 + 1)\<rparr>)) = Inr (mark_all K sb cs bg)"
    proof (cases "e - i > 1")
      case True
      then show ?thesis using e(2) n mark_free_chunks_all [OF K, of "e - i" "e - i" i bg]
        by (simp add: ext4_mb_mark_free_simple_def cs_def M_def)
    next
      case False
      then have one: "e - i = Suc 0" using ie by simp
      have "order_at M i (Suc 0) = 0" by (rule order_at_eq) (simp_all add: fits_def)
      then have "cs = [(i, 0)]" unfolding cs_def one by (simp add: Let_def)
      then show ?thesis using one by (cases bg) (simp add: mark_all_Cons mark_all_Nil mark_chunk_def)
    qed
    have "{x. i \<le> x \<and> x < n \<and> \<not> bit_at bm x} = {i..<e} \<union> {x. i' \<le> x \<and> x < n \<and> \<not> bit_at bm x}"
      using e i' by (auto simp: not_le) (metis not_le)
    then have c1: "card {x. i \<le> x \<and> x < n \<and> \<not> bit_at bm x} = (e - i) + card {x. i' \<le> x \<and> x < n \<and> \<not> bit_at bm x}"
      using i'(1) by (simp add: card_Un_disjoint disjoint_iff)
    have "x = i" if "i \<le> x" "x < i'" "run_start bm x" for x
    proof (rule ccontr)
      assume "x \<noteq> i"
      then have "i \<le> x - 1" "x - 1 < x" "bit_at bm (x - 1)" using that by (auto simp: run_start_def)
      then show False using that e(4) [of "x - 1"] i'(4) [of x] by (cases "x < e \<or> x = e") (auto simp: run_start_def)
    qed
    then have "{x. i \<le> x \<and> x < n \<and> run_start bm x} = insert i {x. i' \<le> x \<and> x < n \<and> run_start bm x}"
      using True Suc.prems(2) ie i'(1) by (auto simp: not_le) (metis not_le)
    then have c2: "card {x. i \<le> x \<and> x < n \<and> run_start bm x} = 1 + card {x. i' \<le> x \<and> x < n \<and> run_start bm x}"
      using ie i'(1) by simp
    have gap: "i' \<le> s" if "e \<le> s" "max_block bm n M s k" for s k
    proof (rule ccontr)
      have "\<not> bit_at bm s" using max_block_start [OF that(2)] by simp
      moreover assume "\<not> i' \<le> s"
      ultimately show False using that(1) i'(4) [of s] by simp
    qed
    then have "set (cs @ cs') = {(s, k). i \<le> s \<and> max_block bm n M s k}"
      using run IH(3) ie i'(1) by (fastforce simp: not_le)
    moreover have "distinct (cs @ cs')" using IH(2, 3) run i'(1) chunks_distinct by (fastforce simp: cs_def)
    moreover have "generate_runs K sb (Suc fuel) bm n i free frags (fst bg) (snd bg)
        = Inr (free + card {x. i \<le> x \<and> x < n \<and> \<not> bit_at bm x}, frags + card {x. i \<le> x \<and> x < n \<and> run_start bm x},
            mark_all K sb (cs @ cs') bg)"
      unfolding generate_runs.simps if_P [OF True] Let_def e_def [symmetric] i'_def [symmetric] step rbind_Inr
      using IH(1) by (simp add: case_prod_beta c1 c2 mark_all_append add.assoc)
    ultimately show ?thesis unfolding M_def by blast
  qed
qed

section \<open>The tables\<close>

declare mb_tables.simps [simp del]

lemma mb_tables_entries:
  assumes "1 \<le> i" "i \<le> Suc bits"
  shows "s_mb_offsets (mb_tables undef bits i (2 ^ bits - 2 ^ (Suc bits - i)) (2 ^ (bits + 3 - i)) sb) k
      = (if i \<le> k \<and> k \<le> Suc bits then 2 ^ bits - 2 ^ (Suc bits - k) else s_mb_offsets sb k)
    \<and> s_mb_maxs (mb_tables undef bits i (2 ^ bits - 2 ^ (Suc bits - i)) (2 ^ (bits + 3 - i)) sb) k
      = (if i \<le> k \<and> k \<le> Suc bits then 2 ^ (bits + 3 - k) else s_mb_maxs sb k)"
  using assms
proof (induction "Suc bits - i" arbitrary: i sb)
  case 0
  then have i: "i = Suc bits" by simp
  show ?case unfolding i by (subst (1 2) mb_tables.simps) (auto simp: Let_def)
next
  case (Suc d)
  then have i: "i \<le> bits" by simp
  have e: "Suc bits - i = Suc (bits - i)" using i by simp
  have p: "(2 :: nat) ^ (bits - i) + 2 ^ (bits - i) \<le> 2 ^ bits"
  proof -
    have "Suc (bits - i) \<le> bits" using Suc.prems i by linarith
    from power_increasing [OF this, of "2 :: nat"] show ?thesis by simp
  qed
  have o: "2 ^ bits - 2 ^ (Suc bits - i) + 2 ^ (bits - i) = (2 ^ bits - 2 ^ (Suc bits - Suc i) :: nat)"
    using p i by (simp add: e)
  have "bits + 3 - i = Suc (bits + 3 - Suc i)" using i by simp
  then have l: "2 ^ (bits + 3 - i) div 2 = (2 ^ (bits + 3 - Suc i) :: nat)" by simp
  define sb' where "sb' = sb\<lparr>s_mb_offsets := (s_mb_offsets sb)(i := 2 ^ bits - 2 ^ (Suc bits - i)), s_mb_maxs := (s_mb_maxs sb)(i := 2 ^ (bits + 3 - i))\<rparr>"
  have u: "mb_tables undef bits i (2 ^ bits - 2 ^ (Suc bits - i)) (2 ^ (bits + 3 - i)) sb
    = mb_tables undef bits (Suc i) (2 ^ bits - 2 ^ (Suc bits - Suc i)) (2 ^ (bits + 3 - Suc i)) sb'"
    by (subst mb_tables.simps) (use i o l in \<open>simp add: Let_def sb'_def\<close>)
  have d: "d = Suc bits - Suc i" "1 \<le> Suc i" "Suc i \<le> Suc bits" using Suc.hyps(2) i by simp_all
  show ?case unfolding u using Suc.hyps(1) [OF d, of sb'] i by (auto simp: sb'_def not_le less_Suc_eq_le le_less_Suc_eq)
qed

lemma mb_tables_first:
  assumes "1 \<le> k" "k \<le> Suc bits"
  shows "s_mb_offsets (mb_tables undef bits 1 0 (2 ^ bits * 4) sb) k = 2 ^ bits - 2 ^ (Suc bits - k)"
    "s_mb_maxs (mb_tables undef bits 1 0 (2 ^ bits * 4) sb) k = 2 ^ (bits + 3 - k)"
proof -
  have "bits + 3 - 1 = bits + 2" by simp
  then have e: "(2 :: nat) ^ bits - 2 ^ (Suc bits - 1) = 0" "(2 :: nat) ^ (bits + 3 - 1) = 2 ^ bits * 4" by (simp_all only: power_add) simp_all
  show "s_mb_offsets (mb_tables undef bits 1 0 (2 ^ bits * 4) sb) k = 2 ^ bits - 2 ^ (Suc bits - k)"
    "s_mb_maxs (mb_tables undef bits 1 0 (2 ^ bits * 4) sb) k = 2 ^ (bits + 3 - k)"
    using mb_tables_entries [of 1 bits undef sb k, unfolded e] assms by simp_all
qed

lemma mb_tables_other: "s_blocksize_bits (mb_tables undef bits i a b sb) = s_blocksize_bits sb"
  "s_blocks_per_group (mb_tables undef bits i a b sb) = s_blocks_per_group sb"
proof (induction undef bits i a b sb rule: mb_tables.induct)
  case (1 undef bits i a b sb)
  { case 1 then show ?case using "1.IH"(1) by (subst mb_tables.simps) (simp add: Let_def) }
  { case 2 then show ?case using "1.IH"(2) by (subst mb_tables.simps) (simp add: Let_def) }
qed

text \<open>The tables that \<open>ext4_mb_init\<close> leaves behind.\<close>

definition mb_tables_ok :: "mb_sb \<Rightarrow> bool" where
  "mb_tables_ok sb \<longleftrightarrow> (\<forall>k. 1 \<le> k \<and> k \<le> Suc (s_blocksize_bits sb) \<longrightarrow>
     s_mb_offsets sb k = 2 ^ s_blocksize_bits sb - 2 ^ (Suc (s_blocksize_bits sb) - k) \<and> s_mb_maxs sb k = 2 ^ (s_blocksize_bits sb + 3 - k))"

lemma ext4_mb_init_tables: "fst (ext4_mb_init undef a b e g sb) = 0 \<Longrightarrow> mb_tables_ok (snd (snd (ext4_mb_init undef a b e g sb)))"
  by (auto simp: ext4_mb_init_def ENOMEM_def mb_tables_ok_def mb_tables_other mb_tables_first [unfolded One_nat_def] Let_def split: if_splits)

text \<open>The bitmaps of different orders do not share a bit of the buddy page.\<close>

lemma mb_bits_injective:
  assumes t: "mb_tables_ok sb" and k: "1 \<le> k" "k \<le> Suc (s_blocksize_bits sb)" "1 \<le> k'" "k' \<le> Suc (s_blocksize_bits sb)"
    and j: "j < s_mb_maxs sb k" "j' < s_mb_maxs sb k'"
    and e: "8 * s_mb_offsets sb k + j = 8 * s_mb_offsets sb k' + j'"
  shows "k = k' \<and> j = j'"
proof -
  define B where "B = s_blocksize_bits sb"
  have lt: "8 * s_mb_offsets sb k + j < 8 * s_mb_offsets sb k' + j'" if kk: "k < k'"
    and k: "1 \<le> k" "k \<le> Suc B" "1 \<le> k'" "k' \<le> Suc B" and j: "j < s_mb_maxs sb k" for k k' j j'
  proof -
    have b: "k \<le> B" using kk k by simp
    have s: "s_mb_offsets sb k = 2 ^ B - 2 ^ (Suc B - k)" "s_mb_offsets sb k' = 2 ^ B - 2 ^ (Suc B - k')" "j < 2 ^ (B + 3 - k)"
      using t k j by (simp_all add: mb_tables_ok_def B_def)
    have e: "B + 3 - k = (B - k) + 3" "Suc B - k = Suc (B - k)" using b by simp_all
    have "(2 :: nat) ^ (B + 3 - k) = 8 * 2 ^ (B - k)" "(2 :: nat) ^ (Suc B - k) = 2 * 2 ^ (B - k)" unfolding e by (simp_all add: power_add)
    moreover have "(2 :: nat) ^ (Suc B - k') \<le> 2 ^ (B - k)" using kk by (intro power_increasing) simp_all
    moreover have "(2 :: nat) ^ (Suc B - k) \<le> 2 ^ B" using k by (intro power_increasing) simp_all
    ultimately show ?thesis using s by linarith
  qed
  have "k = k'"
    using lt [of k k' j j'] lt [of k' k j' j] k j e by (metis B_def linorder_neqE_nat less_irrefl)
  then show ?thesis using e by simp
qed

section \<open>What is generated\<close>

lemma card_pairs: "distinct cs \<Longrightarrow> length (filter (\<lambda>c. snd c = k) cs) = card {s. (s, k) \<in> set cs}"
proof -
  assume d: "distinct cs"
  have "length (filter (\<lambda>c. snd c = k) cs) = card (set (filter (\<lambda>c. snd c = k) cs))"
    using distinct_card [OF distinct_filter [OF d]] by simp
  also have "set (filter (\<lambda>c. snd c = k) cs) = (\<lambda>s. (s, k)) ` {s. (s, k) \<in> set cs}" by force
  finally show ?thesis by (simp add: card_image inj_on_def)
qed

lemma max_block_in_table:
  assumes "mb_tables_ok sb" "n \<le> 2 ^ (s_blocksize_bits sb + 3)" "max_block bm n (Suc (s_blocksize_bits sb)) s k" "0 < k"
  shows "s div 2 ^ k < s_mb_maxs sb k" "s div 2 ^ k * 2 ^ k = s"
proof -
  have k: "k \<le> Suc (s_blocksize_bits sb)" "2 ^ k dvd s" "free_block bm n s k" using assms(3) by (simp_all add: max_block_def)
  have "s < n" using max_block_start [OF assms(3)] by simp
  also have "n \<le> 2 ^ (s_blocksize_bits sb + 3 - k) * 2 ^ k" using assms(2) k(1) by (simp add: power_add [symmetric])
  finally have "s div 2 ^ k < 2 ^ (s_blocksize_bits sb + 3 - k)" by (simp add: less_mult_imp_div_less)
  then show "s div 2 ^ k < s_mb_maxs sb k" using assms(1, 4) k(1) by (simp add: mb_tables_ok_def)
  show "s div 2 ^ k * 2 ^ k = s" using k(2) by simp
qed

text \<open>C18: From the bitmap of a group whose buddy page is all ones and whose counters are zero, \<open>ext4_mb_generate_buddy\<close> makes
  buddy bitmaps in which exactly the maximal free blocks of each order are clear, with the addresses that \<open>ext4_mb_init\<close> has
  laid out, and counts them; it counts the free blocks and the runs of free blocks, corrects the number of free blocks of the
  group and reports whether it was wrong.\<close>

theorem generate_buddy_correct:
  assumes K: "mb_spec K" and b: "s_blocksize_bits sb \<le> 14" and t: "mb_tables_ok sb"
    and n: "n = s_blocks_per_group sb" "n < 65536" "n \<le> 2 ^ (s_blocksize_bits sb + 3)"
    and M: "M = Suc (s_blocksize_bits sb)"
    and ones: "\<And>x. bit_at buddy x" and zero: "\<And>k. bb_counters grp k = 0"
  shows "\<exists>differ buddy' grp' st'. ext4_mb_generate_buddy K sb period buddy bm grp st = Inr (differ, buddy', grp', st')
    \<and> (\<forall>k j. 0 < k \<and> k \<le> M \<and> j < s_mb_maxs sb k \<longrightarrow>
         (bit_at buddy' (8 * s_mb_offsets sb k + j) \<longleftrightarrow> \<not> max_block bm n M (j * 2 ^ k) k))
    \<and> (\<forall>k. bb_counters grp' k = card {s. max_block bm n M s k})
    \<and> bb_free grp' = card (clear_bits bm n) \<and> bb_fragments grp' = card {x. x < n \<and> run_start bm x}
    \<and> differ = (bb_free grp \<noteq> card (clear_bits bm n)) \<and> \<not> bb_need_init grp'"
proof -
  define i where "i = mb_find_next_zero_bit K bm n 0"
  define g where "g = grp\<lparr>bb_first_free := i\<rparr>"
  have i: "i \<le> n" "i < n \<Longrightarrow> \<not> bit_at bm i" "\<And>x. x < i \<Longrightarrow> bit_at bm x"
    using next_zeroD [OF mb_specD(1) [OF K], where m = bm and n = n] unfolding i_def by blast+
  have start: "i < n \<Longrightarrow> run_start bm i" using i(2) i(3) [of "i - 1"] by (cases i) (auto simp: run_start_def)
  obtain cs where cs: "generate_runs K sb n bm n i 0 0 buddy g
      = Inr (card {x. i \<le> x \<and> x < n \<and> \<not> bit_at bm x}, card {x. i \<le> x \<and> x < n \<and> run_start bm x}, mark_all K sb cs (buddy, g))"
    "distinct cs" "set cs = {(s, k). i \<le> s \<and> max_block bm n M s k}"
    using generate_runs_result [OF K b, of n i bm n 0 0 "(buddy, g)"] i(1) start n(1) by (auto simp: M)
  have before: "s \<ge> i" if "\<not> bit_at bm s" for s using i(3) [of s] that by (meson not_le)
  have f: "{x. i \<le> x \<and> x < n \<and> \<not> bit_at bm x} = clear_bits bm n" using before by (auto simp: clear_bits_def)
  have r: "{x. i \<le> x \<and> x < n \<and> run_start bm x} = {x. x < n \<and> run_start bm x}" using before by (auto simp: run_start_def)
  have s: "set cs = {(s, k). max_block bm n M s k}" using cs(3) before max_block_start by blast
  obtain bu g' where m: "mark_all K sb cs (buddy, g) = (bu, g')" by (cases "mark_all K sb cs (buddy, g)")
  have bu: "bit_at bu x \<longleftrightarrow> \<not> (\<exists>(s, k)\<in>set cs. 0 < k \<and> x = 8 * s_mb_offsets sb k + s div 2 ^ k)" for x
    using mark_all_bits [OF K, of sb cs "(buddy, g)" x] ones by (simp add: m)
  have g': "g' = g\<lparr>bb_counters := (\<lambda>k. card {s. max_block bm n M s k})\<rparr>"
    using mark_all_group [of K sb cs "(buddy, g)", unfolded m] cs(2) s zero by (simp add: g_def card_pairs)
  have bits: "bit_at bu (8 * s_mb_offsets sb k + j) \<longleftrightarrow> \<not> max_block bm n M (j * 2 ^ k) k"
    if k: "0 < k" "k \<le> M" "j < s_mb_maxs sb k" for k j
  proof -
    have "(\<exists>(s, k')\<in>set cs. 0 < k' \<and> 8 * s_mb_offsets sb k + j = 8 * s_mb_offsets sb k' + s div 2 ^ k') \<longleftrightarrow> max_block bm n M (j * 2 ^ k) k"
    proof
      assume "\<exists>(s, k')\<in>set cs. 0 < k' \<and> 8 * s_mb_offsets sb k + j = 8 * s_mb_offsets sb k' + s div 2 ^ k'"
      then obtain s' k' where c: "max_block bm n M s' k'" "0 < k'" "8 * s_mb_offsets sb k + j = 8 * s_mb_offsets sb k' + s' div 2 ^ k'"
        using s by auto
      have k': "k' \<le> M" using c(1) by (simp add: max_block_def)
      note tab = max_block_in_table [OF t n(3) c(1) [unfolded M] c(2)]
      have "k = k' \<and> j = s' div 2 ^ k'"
        by (rule mb_bits_injective [OF t _ _ _ _ k(3) tab(1) c(3)]) (use k c(2) k' M in simp_all)
      then show "max_block bm n M (j * 2 ^ k) k" using c(1) tab(2) by simp
    next
      assume "max_block bm n M (j * 2 ^ k) k"
      then have "(j * 2 ^ k, k) \<in> set cs" using s by simp
      then show "\<exists>(s, k')\<in>set cs. 0 < k' \<and> 8 * s_mb_offsets sb k + j = 8 * s_mb_offsets sb k' + s div 2 ^ k'"
        using k(1) by (intro bexI [of _ "(j * 2 ^ k, k)"]) simp_all
    qed
    then show ?thesis unfolding bu by blast
  qed
  have "ext4_mb_generate_buddy K sb period buddy bm grp st =
    Inr (card (clear_bits bm n) \<noteq> bb_free grp, bu, g'\<lparr>bb_fragments := card {x. x < n \<and> run_start bm x}, bb_free := card (clear_bits bm n),
      bb_need_init := False\<rparr>, st\<lparr>s_mb_buddies_generated := s_mb_buddies_generated st + 1, s_mb_generation_time := s_mb_generation_time st + period\<rparr>)"
    unfolding ext4_mb_generate_buddy_def n(1) [symmetric] mod_less [OF n(2)] Let_def i_def [symmetric] g_def [symmetric] cs(1) f r m
    by (simp add: g' g_def)
  then show ?thesis using bits by (auto simp: g')
qed

section \<open>Concrete services\<close>

function scan_one :: "mem \<Rightarrow> nat \<Rightarrow> nat \<Rightarrow> nat" where
  "scan_one m n s = (if s < n \<and> \<not> bit_at m s then scan_one m n (Suc s) else s)"
  by pat_completeness auto
termination by (relation "measure (\<lambda>(m, n, s). n - s)") auto

declare scan_one.simps [simp del]

lemma scan_one_spec: "next_one_spec scan_one"
  unfolding next_one_spec_def
proof (intro allI impI)
  fix m n s :: _ assume "s \<le> (n :: nat)"
  then show "s \<le> scan_one m n s \<and> scan_one m n s \<le> n \<and> (scan_one m n s < n \<longrightarrow> bit_at m (scan_one m n s))
      \<and> (\<forall>k. s \<le> k \<and> k < scan_one m n s \<longrightarrow> \<not> bit_at m k)"
  proof (induction m n s rule: scan_one.induct)
    case (1 m n s)
    show ?case
    proof (cases "s < n \<and> \<not> bit_at m s")
      case True
      with "1.IH" show ?thesis by (auto simp: scan_one.simps [of m n s] dest: le_neq_implies_less)
    next
      case False
      with "1.prems" show ?thesis by (auto simp: scan_one.simps [of m n s])
    qed
  qed
qed

fun find_set :: "nat \<Rightarrow> nat" where
  "find_set x = (if x = 0 then 0 else if odd x then 1 else Suc (find_set (x div 2)))"

fun find_last :: "nat \<Rightarrow> nat" where
  "find_last x = (if x = 0 then 0 else Suc (find_last (x div 2)))"

declare find_set.simps [simp del] find_last.simps [simp del]

lemma find_set_spec: "x \<noteq> 0 \<Longrightarrow> 0 < find_set x \<and> bit x (find_set x - 1) \<and> (\<forall>k < find_set x - 1. \<not> bit x k)"
proof (induction x rule: find_set.induct)
  case (1 x)
  show ?case
  proof (cases "odd x")
    case True
    then show ?thesis using 1 by (simp add: find_set.simps [of x] bit_0)
  next
    case False
    then have "x div 2 \<noteq> 0" using 1 by auto
    then obtain k where k: "find_set (x div 2) = Suc k" "bit (x div 2) k" "\<forall>i<k. \<not> bit (x div 2) i"
      using 1 False by (metis Suc_pred diff_Suc_1)
    have f: "find_set x = Suc (Suc k)" using 1 False k by (simp add: find_set.simps [of x])
    have "\<not> bit x i" if "i < Suc k" for i using that False k(3) by (cases i) (auto simp: bit_0 bit_Suc)
    then show ?thesis using k(2) by (simp add: f bit_Suc)
  qed
qed

lemma find_last_spec: "x \<noteq> 0 \<Longrightarrow> 0 < find_last x \<and> 2 ^ (find_last x - 1) \<le> x \<and> x < 2 ^ find_last x"
proof (induction x rule: find_last.induct)
  case (1 x)
  show ?case
  proof (cases "x = 1")
    case True
    then show ?thesis by (simp add: find_last.simps)
  next
    case False
    then have "x div 2 \<noteq> 0" using 1 by (simp add: div_eq_0_iff)
    then obtain k where k: "find_last (x div 2) = Suc k" "2 ^ k \<le> x div 2" "x div 2 < 2 ^ Suc k"
      using 1 by (metis Suc_pred diff_Suc_1)
    have "2 * 2 ^ k \<le> x" "x < 2 * 2 ^ Suc k" using k(2, 3) by linarith+
    then show ?thesis using 1 k(1) by (simp add: find_last.simps [of x])
  qed
qed

definition plain_mb :: mb_kernel where
  "plain_mb = \<lparr>mb_find_next_zero_bit = scan_zero, mb_find_next_bit = scan_one,
     mb_clear_bit = (\<lambda>n a m. snd (lk_clear_bit (8 * a + n) m)), mb_ffs = find_set, mb_fls = find_last\<rparr>"

lemma plain_mb_spec: "mb_spec plain_mb"
  unfolding mb_spec_def plain_mb_def
  using find_set_spec find_last_spec
  by (simp add: scan_zero_spec scan_one_spec mk.tclr_bit find_set.simps [of 0] find_last.simps [of 0])

lemma free_block_list: "free_block bm n s k \<longleftrightarrow> list_all (\<lambda>x. x < n \<and> \<not> bit_at bm x) [s..<s + 2 ^ k]"
  by (auto simp: free_block_def list_all_iff)

definition demo_sb :: mb_sb where
  "demo_sb = snd (snd (ext4_mb_init 7 True True 0 True
     \<lparr>s_blocksize_bits = 10, s_blocks_per_group = 16, s_mb_offsets = (\<lambda>_. 0), s_mb_maxs = (\<lambda>_. 0)\<rparr>))"

definition demo_bitmap :: mem where
  "demo_bitmap a = (if a = 0 then 0xF1 else 0x0F)"

lemma demo_counts: "card (clear_bits demo_bitmap 16) = 7" "card {x. x < 16 \<and> run_start demo_bitmap x} = 2"
proof -
  have "clear_bits demo_bitmap 16 = set (filter (\<lambda>x. \<not> bit_at demo_bitmap x) [0..<16])" by auto
  moreover have "length (filter (\<lambda>x. \<not> bit_at demo_bitmap x) [0..<16]) = 7" by code_simp
  ultimately show "card (clear_bits demo_bitmap 16) = 7" by (simp only: distinct_card distinct_filter distinct_upt)
  have "{x. x < 16 \<and> run_start demo_bitmap x} = set (filter (run_start demo_bitmap) [0..<16])" by auto
  moreover have "length (filter (run_start demo_bitmap) [0..<16]) = 2" by code_simp
  ultimately show "card {x. x < 16 \<and> run_start demo_bitmap x} = 2" by (simp only: distinct_card distinct_filter distinct_upt)
qed

theorem generate_buddy_correct_witness:
  "\<exists>buddy' grp' st'. ext4_mb_generate_buddy plain_mb demo_sb 5 (\<lambda>_. 0xFF) demo_bitmap
       \<lparr>bb_first_free = 0, bb_free = 6, bb_fragments = 0, bb_counters = (\<lambda>_. 0), bb_need_init = True\<rparr>
       \<lparr>s_mb_buddies_generated = 0, s_mb_generation_time = 0\<rparr> = Inr (True, buddy', grp', st')
     \<and> bb_free grp' = 7 \<and> bb_fragments grp' = 2 \<and> \<not> bit_at buddy' (8 * 512 + 3)"
proof -
  have m: "(255 :: u8) = mask 8" by (simp add: mask_eq_exp_minus_1)
  have ones: "bit_at (\<lambda>_. 0xFF) x" for x unfolding bit_at_def m by (simp add: bit_mask_iff)
  have t: "mb_tables_ok demo_sb" unfolding demo_sb_def by (rule ext4_mb_init_tables) (simp add: ext4_mb_init_def Let_def)
  have sb: "s_blocksize_bits demo_sb = 10" "s_blocks_per_group demo_sb = 16"
    by (simp_all add: demo_sb_def ext4_mb_init_def Let_def mb_tables_other)
  have mb: "max_block demo_bitmap 16 11 12 2"
    unfolding max_block_def free_block_list parent_def by code_simp
  define g where "g = \<lparr>bb_first_free = 0, bb_free = 6, bb_fragments = 0, bb_counters = (\<lambda>_. 0), bb_need_init = True\<rparr>"
  define st where "st = \<lparr>s_mb_buddies_generated = 0, s_mb_generation_time = 0\<rparr>"
  have z: "bb_counters g k = 0" for k by (simp add: g_def)
  have T: "s_mb_offsets demo_sb 2 = 512" "s_mb_maxs demo_sb 2 = 2048" using t by (simp_all add: mb_tables_ok_def sb)
  have p: "s_blocksize_bits demo_sb \<le> 14" "16 = s_blocks_per_group demo_sb" "(16 :: nat) < 65536" "16 \<le> (2 :: nat) ^ (s_blocksize_bits demo_sb + 3)"
    "11 = Suc (s_blocksize_bits demo_sb)" by (simp_all add: sb)
  obtain differ buddy' grp' st' where r: "ext4_mb_generate_buddy plain_mb demo_sb 5 (\<lambda>_. 0xFF) demo_bitmap g st = Inr (differ, buddy', grp', st')"
    "\<forall>k j. 0 < k \<and> k \<le> 11 \<and> j < s_mb_maxs demo_sb k \<longrightarrow>
         (bit_at buddy' (8 * s_mb_offsets demo_sb k + j) \<longleftrightarrow> \<not> max_block demo_bitmap 16 11 (j * 2 ^ k) k)"
    "bb_free grp' = 7" "bb_fragments grp' = 2" "differ = (bb_free g \<noteq> 7)"
    using generate_buddy_correct [OF plain_mb_spec p(1) t p(2-5), of "\<lambda>_. 0xFF" g 5 demo_bitmap st, OF ones z] unfolding demo_counts by blast
  have "\<not> bit_at buddy' (8 * 512 + 3)" using r(2) [rule_format, of 2 3] mb by (simp add: T)
  moreover have differ using r(5) by (simp add: g_def)
  ultimately show ?thesis using r(1, 3, 4) unfolding g_def st_def by auto
qed

end
