(* ===== verification/Mballoc_New.thy ===== *)
theory Mballoc_New
  imports Mballoc
begin

text \<open>
  Allocating blocks in \<open>src/EXT4_review/mballoc.c\<close>: the search through the groups of blocks, \<open>ext4_mb_regular_allocator\<close>, and
  the entry point \<open>ext4_mb_new_blocks\<close> with its reservations, quota and retries. The functions of the kernel that they call are
  fields of a record over any type of kernel states. A function that C gives a pointer to the allocation context or to the
  request returns its new value here.
\<close>

section \<open>Data and services\<close>

datatype mb_status = AC_STATUS_CONTINUE | AC_STATUS_FOUND | AC_STATUS_BREAK

datatype mb_flag = HINT_GOAL_ONLY | HINT_DATA | HINT_FIRST | HINT_NOPREALLOC | DELALLOC_RESERVED

text \<open>
  The fields of the allocation context that the code uses: the original (\<open>o\<close>), goal (\<open>g\<close>) and best (\<open>b\<close>) extent. The flags are
  a set; the sizes are natural numbers, since nothing here makes them wrap.
\<close>

record mb_ac =
  ac_status :: mb_status
  ac_flags :: "mb_flag set"
  ac_criteria :: nat
  ac_2order :: nat
  ac_groups_scanned :: nat
  ac_o_logical :: nat
  ac_o_len :: nat
  ac_g_group :: nat
  ac_g_start :: nat
  ac_g_len :: nat
  ac_b_group :: nat
  ac_b_start :: nat
  ac_b_len :: nat

text \<open>The allocation request, with the flag \<open>i_delalloc_reserved_flag\<close> of its inode, and the tunables of the super block.\<close>

record mb_ar =
  ar_len :: nat
  ar_flags :: "mb_flag set"
  ar_delalloc :: bool

record mb_tune =
  s_groups_count :: nat
  s_mb_order2_reqs :: nat
  s_mb_stream_request :: nat
  s_stripe :: nat
  t_blocksize_bits :: nat

text \<open>
  The services. An \<open>int\<close> result is an error code; the \<open>bool\<close> results of \<open>claim_free_blocks\<close> and \<open>dquot_alloc_block\<close> tell that
  they failed, as in C, that of \<open>cache_alloc\<close> that there is memory.
\<close>

record 'k mb_services =
  fls_of :: "nat \<Rightarrow> nat"
  inode_size :: "'k \<Rightarrow> nat"
  last_goal :: "'k \<Rightarrow> nat \<times> nat"
  find_by_goal :: "mb_ac \<Rightarrow> 'k \<Rightarrow> int \<times> mb_ac \<times> 'k"
  group_free :: "nat \<Rightarrow> 'k \<Rightarrow> nat"
  group_need_init :: "nat \<Rightarrow> 'k \<Rightarrow> bool"
  group_uninit :: "nat \<Rightarrow> 'k \<Rightarrow> bool"
  init_group :: "nat \<Rightarrow> 'k \<Rightarrow> int \<times> 'k"
  good_group :: "mb_ac \<Rightarrow> nat \<Rightarrow> nat \<Rightarrow> 'k \<Rightarrow> bool"
  load_buddy :: "nat \<Rightarrow> 'k \<Rightarrow> int \<times> 'k"
  lock_group :: "nat \<Rightarrow> 'k \<Rightarrow> 'k"
  unlock_group :: "nat \<Rightarrow> 'k \<Rightarrow> 'k"
  release_desc :: "nat \<Rightarrow> 'k \<Rightarrow> 'k"
  simple_scan :: "nat \<Rightarrow> mb_ac \<Rightarrow> 'k \<Rightarrow> mb_ac \<times> 'k"
  scan_aligned :: "nat \<Rightarrow> mb_ac \<Rightarrow> 'k \<Rightarrow> mb_ac \<times> 'k"
  complex_scan :: "nat \<Rightarrow> mb_ac \<Rightarrow> 'k \<Rightarrow> mb_ac \<times> 'k"
  try_best_found :: "mb_ac \<Rightarrow> 'k \<Rightarrow> mb_ac \<times> 'k"
  count_lost_chunk :: "'k \<Rightarrow> 'k"
  claim_free_blocks :: "nat \<Rightarrow> 'k \<Rightarrow> bool \<times> 'k"
  yield_cpu :: "'k \<Rightarrow> 'k"
  dquot_alloc_block :: "nat \<Rightarrow> 'k \<Rightarrow> bool \<times> 'k"
  dquot_free_block :: "nat \<Rightarrow> 'k \<Rightarrow> 'k"
  dirtyblocks_sub :: "nat \<Rightarrow> 'k \<Rightarrow> 'k"
  cache_alloc :: "'k \<Rightarrow> bool \<times> 'k"
  cache_free :: "'k \<Rightarrow> 'k"
  initialize_context :: "mb_ar \<Rightarrow> 'k \<Rightarrow> int \<times> mb_ac \<times> 'k"
  use_preallocated :: "mb_ac \<Rightarrow> 'k \<Rightarrow> bool \<times> mb_ac \<times> 'k"
  normalize_request :: "mb_ar \<Rightarrow> mb_ac \<Rightarrow> 'k \<Rightarrow> mb_ac \<times> 'k"
  new_preallocation :: "mb_ac \<Rightarrow> 'k \<Rightarrow> mb_ac \<times> 'k"
  mark_diskspace_used :: "nat \<Rightarrow> mb_ac \<Rightarrow> 'k \<Rightarrow> int \<times> mb_ac \<times> 'k"
  release_context :: "mb_ac \<Rightarrow> 'k \<Rightarrow> mb_ac \<times> 'k"
  discard_preallocations :: "nat \<Rightarrow> 'k \<Rightarrow> int \<times> 'k"
  grp_offs_to_block :: "nat \<Rightarrow> nat \<Rightarrow> nat"

section \<open>The search through the groups\<close>

text \<open>
  One group under criterion \<open>cr\<close>: the body of the inner loop. A group that does not exist is an access outside the table of
  groups.
\<close>

definition mb_scan_group :: "'k mb_services \<Rightarrow> mb_tune \<Rightarrow> nat \<Rightarrow> nat \<Rightarrow> mb_ac \<Rightarrow> 'k \<Rightarrow> (int \<times> mb_ac \<times> 'k) res" where
  "mb_scan_group S sb cr grp ac k =
     (if grp \<ge> s_groups_count sb then Inl OutOfBounds
      else if group_free S grp k = 0 then Inr (0, ac, k)
      else
        let (err, k) = (if group_need_init S grp k then init_group S grp k else (0, k))
        in if err \<noteq> 0 then Inr (err, ac, k)
           else if \<not> good_group S ac grp cr k then Inr (0, ac, k)
           else
             let (err, k) = load_buddy S grp k
             in if err \<noteq> 0 then Inr (err, ac, k)
                else
                  let k = lock_group S grp k
                  in if \<not> good_group S ac grp cr k then Inr (0, ac, release_desc S grp (unlock_group S grp k))
                     else
                       let ac = ac\<lparr>ac_groups_scanned := ac_groups_scanned ac + 1\<rparr>;
                           (ac, k) = (if cr = 0 \<or> group_uninit S grp k \<and> ac_2order ac \<noteq> 0 then simple_scan S grp ac k
                                      else if cr = 1 \<and> ac_g_len ac = s_stripe sb then scan_aligned S grp ac k
                                      else complex_scan S grp ac k)
                       in Inr (0, ac, release_desc S grp (unlock_group S grp k)))"

text \<open>The inner loop, \<open>n\<close> groups from \<open>grp\<close> on; it is left when the status changes, which only a scan does.\<close>

primrec mb_scan_groups :: "'k mb_services \<Rightarrow> mb_tune \<Rightarrow> nat \<Rightarrow> nat \<Rightarrow> nat \<Rightarrow> mb_ac \<Rightarrow> 'k \<Rightarrow> (int \<times> mb_ac \<times> 'k) res" where
  "mb_scan_groups S sb cr 0 grp ac k = Inr (0, ac, k)"
| "mb_scan_groups S sb cr (Suc n) grp ac k =
     (let grp = (if grp = s_groups_count sb then 0 else grp)
      in rbind (mb_scan_group S sb cr grp ac k) (\<lambda>(err, ac, k).
         if err \<noteq> 0 \<or> ac_status ac \<noteq> AC_STATUS_CONTINUE then Inr (err, ac, k)
         else mb_scan_groups S sb cr n (grp + 1) ac k))"

text \<open>The loop over the criteria, from the strictest to any free block.\<close>

function mb_criteria :: "'k mb_services \<Rightarrow> mb_tune \<Rightarrow> nat \<Rightarrow> mb_ac \<Rightarrow> 'k \<Rightarrow> (int \<times> mb_ac \<times> 'k) res" where
  "mb_criteria S sb cr ac k =
     (if cr < 4 \<and> ac_status ac = AC_STATUS_CONTINUE then
        rbind (mb_scan_groups S sb cr (s_groups_count sb) (ac_g_group ac) (ac\<lparr>ac_criteria := cr\<rparr>) k) (\<lambda>(err, ac, k).
        if err \<noteq> 0 then Inr (err, ac, k) else mb_criteria S sb (cr + 1) ac k)
      else Inr (0, ac, k))"
  by pat_completeness auto
termination by (relation "measure (\<lambda>(S, sb, cr, ac, k). 4 - cr)") auto

declare mb_criteria.simps [simp del]

text \<open>
  From the label \<open>repeat\<close> on: the criteria, and the best extent found so far if none was good enough. If it is lost, the
  search starts again for any extent; the flag \<open>HINT_FIRST\<close> keeps it from starting a third time.
\<close>

definition mb_lost_best :: "mb_ac \<Rightarrow> mb_ac" where
  "mb_lost_best ac = ac\<lparr>ac_b_group := 0, ac_b_start := 0, ac_b_len := 0, ac_status := AC_STATUS_CONTINUE,
     ac_flags := insert HINT_FIRST (ac_flags ac)\<rparr>"

primrec mb_rounds :: "'k mb_services \<Rightarrow> mb_tune \<Rightarrow> nat \<Rightarrow> nat \<Rightarrow> mb_ac \<Rightarrow> 'k \<Rightarrow> (int \<times> mb_ac \<times> 'k) res" where
  "mb_rounds S sb 0 cr ac k = Inl NoEnd"
| "mb_rounds S sb (Suc fuel) cr ac k =
     rbind (mb_criteria S sb cr ac k) (\<lambda>(err, ac, k).
       if err = 0 \<and> ac_b_len ac > 0 \<and> ac_status ac \<noteq> AC_STATUS_FOUND \<and> HINT_FIRST \<notin> ac_flags ac then
         let (ac, k) = try_best_found S ac k
         in if ac_status ac \<noteq> AC_STATUS_FOUND then mb_rounds S sb fuel 3 (mb_lost_best ac) (count_lost_chunk S k)
            else Inr (0, ac, k)
       else Inr (err, ac, k))"

text \<open>
  Between the goal and the search: whether the length is a power of two that the buddy bitmaps are used for, and the goal of
  the stream for small files. A length of 0 gives a negative shift count if \<open>s_mb_order2_reqs\<close> is 0, a value that is not defined.
\<close>

definition mb_prepare :: "'k mb_services \<Rightarrow> mb_tune \<Rightarrow> mb_ac \<Rightarrow> 'k \<Rightarrow> mb_ac res" where
  "mb_prepare S sb ac k =
     (let i = fls_of S (ac_g_len ac);
          ac = ac\<lparr>ac_2order := 0\<rparr>
      in rbind (if i \<ge> s_mb_order2_reqs sb then
                  if i = 0 then Inl Uninit
                  else Inr (if unset_bit (i - 1) (ac_g_len ac) = 0 then ac\<lparr>ac_2order := i - 1\<rparr> else ac)
                else Inr ac) (\<lambda>ac.
         let size = ac_o_logical ac + ac_o_len ac;
             isize = inode_size S k div 2 ^ t_blocksize_bits sb;
             size = (if size < isize then isize else size)
         in Inr (if size < s_mb_stream_request sb \<and> HINT_DATA \<in> ac_flags ac
                 then ac\<lparr>ac_g_group := fst (last_goal S k), ac_g_start := snd (last_goal S k)\<rparr> else ac)))"

definition ext4_mb_regular_allocator :: "'k mb_services \<Rightarrow> mb_tune \<Rightarrow> mb_ac \<Rightarrow> 'k \<Rightarrow> (int \<times> mb_ac \<times> 'k) res" where
  "ext4_mb_regular_allocator S sb ac k =
     (if ac_status ac = AC_STATUS_FOUND then Inl KBug
      else
        let (err, ac, k) = find_by_goal S ac k
        in if err \<noteq> 0 \<or> ac_status ac = AC_STATUS_FOUND then Inr (err, ac, k)
           else if HINT_GOAL_ONLY \<in> ac_flags ac then Inr (err, ac, k)
           else rbind (mb_prepare S sb ac k) (\<lambda>ac.
                mb_rounds S sb 2 (if ac_2order ac \<noteq> 0 then 0 else 1) ac k))"

section \<open>The entry point\<close>

definition ENOSPC :: int where "ENOSPC = 28"
definition EDQUOT :: int where "EDQUOT = 122"
definition EAGAIN :: int where "EAGAIN = 11"

text \<open>The loops that shorten the request: by halves until its blocks can be reserved, one by one until the quota allows it.\<close>

function mb_claim :: "'k mb_services \<Rightarrow> nat \<Rightarrow> 'k \<Rightarrow> nat \<times> 'k" where
  "mb_claim S len k =
     (if len = 0 then (0, k)
      else let (failed, k) = claim_free_blocks S len k
           in if failed then mb_claim S (len div 2) (yield_cpu S k) else (len, k))"
  by pat_completeness auto
termination by (relation "measure (\<lambda>(S, len, k). len)") auto

declare mb_claim.simps [simp del]

primrec mb_charge :: "'k mb_services \<Rightarrow> nat \<Rightarrow> mb_flag set \<Rightarrow> 'k \<Rightarrow> nat \<times> mb_flag set \<times> 'k" where
  "mb_charge S 0 flags k = (0, flags, k)"
| "mb_charge S (Suc n) flags k =
     (let (failed, k) = dquot_alloc_block S (Suc n) k
      in if failed then mb_charge S n (insert HINT_NOPREALLOC flags) k else (Suc n, flags, k))"

text \<open>
  After a search or a preallocation: \<open>Inl\<close> goes back to the label \<open>repeat\<close>, \<open>Inr\<close> has the error, the block, the length and the
  context.
\<close>

definition mb_settle :: "'k mb_services \<Rightarrow> nat \<Rightarrow> mb_ac \<Rightarrow> 'k \<Rightarrow> (mb_ac \<times> 'k) + (int \<times> nat \<times> nat \<times> mb_ac \<times> 'k)" where
  "mb_settle S reserv_blks ac k =
     (if ac_status ac = AC_STATUS_FOUND then
        let (err, ac, k) = mark_diskspace_used S reserv_blks ac k
        in if err = - EAGAIN then
             let (ac, k) = release_context S ac k
             in Inl (ac\<lparr>ac_b_group := 0, ac_b_start := 0, ac_b_len := 0, ac_status := AC_STATUS_CONTINUE\<rparr>, k)
           else if err \<noteq> 0 then Inr (err, 0, 0, ac\<lparr>ac_b_len := 0\<rparr>, k)
           else Inr (err, grp_offs_to_block S (ac_b_group ac) (ac_b_start ac), ac_b_len ac, ac, k)
      else
        let (freed, k) = discard_preallocations S (ac_o_len ac) k
        in if freed \<noteq> 0 then Inl (ac, k) else Inr (- ENOSPC, 0, 0, ac\<lparr>ac_b_len := 0\<rparr>, k))"

text \<open>The error of the search is not looked at.\<close>

primrec mb_repeat :: "'k mb_services \<Rightarrow> mb_tune \<Rightarrow> nat \<Rightarrow> nat \<Rightarrow> mb_ac \<Rightarrow> 'k \<Rightarrow> (int \<times> nat \<times> nat \<times> mb_ac \<times> 'k) res" where
  "mb_repeat S sb reserv_blks 0 ac k = Inl NoEnd"
| "mb_repeat S sb reserv_blks (Suc fuel) ac k =
     rbind (ext4_mb_regular_allocator S sb ac k) (\<lambda>(err, ac, k).
       let (ac, k) = (if ac_status ac = AC_STATUS_FOUND \<and> ac_o_len ac < ac_b_len ac then new_preallocation S ac k else (ac, k))
       in case mb_settle S reserv_blks ac k of Inl (ac, k) \<Rightarrow> mb_repeat S sb reserv_blks fuel ac k | Inr r \<Rightarrow> Inr r)"

text \<open>From a context that is set up to the label \<open>out2\<close>: first the preallocations of the inode, then the search.\<close>

definition mb_allocate :: "'k mb_services \<Rightarrow> mb_tune \<Rightarrow> nat \<Rightarrow> nat \<Rightarrow> mb_ar \<Rightarrow> mb_ac \<Rightarrow> 'k
    \<Rightarrow> (int \<times> nat \<times> nat \<times> mb_ac \<times> 'k) res" where
  "mb_allocate S sb fuel reserv_blks ar ac k =
     (let (found, ac, k) = use_preallocated S ac k
      in if \<not> found then
           let (ac, k) = normalize_request S ar ac k
           in mb_repeat S sb reserv_blks fuel ac k
         else case mb_settle S reserv_blks ac k of
                Inl (ac, k) \<Rightarrow> mb_repeat S sb reserv_blks fuel ac k
              | Inr r \<Rightarrow> Inr r)"

text \<open>The labels \<open>out1\<close> and \<open>out3\<close>: what was charged too much is given back.\<close>

definition mb_refund :: "'k mb_services \<Rightarrow> nat \<Rightarrow> mb_ar \<Rightarrow> 'k \<Rightarrow> 'k" where
  "mb_refund S inquota ar k = (if ar_len ar < inquota then dquot_free_block S (inquota - ar_len ar) k else k)"

definition mb_unreserve :: "'k mb_services \<Rightarrow> nat \<Rightarrow> mb_ar \<Rightarrow> 'k \<Rightarrow> 'k" where
  "mb_unreserve S reserv_blks ar k = (if ar_len ar = 0 \<and> \<not> ar_delalloc ar then dirtyblocks_sub S reserv_blks k else k)"

text \<open>The result is the block, the error, the request and the kernel's state.\<close>

definition ext4_mb_new_blocks :: "'k mb_services \<Rightarrow> mb_tune \<Rightarrow> nat \<Rightarrow> mb_ar \<Rightarrow> 'k \<Rightarrow> (nat \<times> int \<times> mb_ar \<times> 'k) res" where
  "ext4_mb_new_blocks S sb fuel ar k =
     (let (len, k) = (if \<not> ar_delalloc ar then mb_claim S (ar_len ar) k else (ar_len ar, k));
          ar = ar\<lparr>ar_len := len\<rparr>
      in if \<not> ar_delalloc ar \<and> len = 0 then Inr (0, - ENOSPC, ar, k)
         else
           let reserv_blks = (if \<not> ar_delalloc ar then len else 0);
               (inquota, flags, k) = mb_charge S (ar_len ar) (ar_flags ar) k;
               ar = ar\<lparr>ar_len := inquota, ar_flags := flags\<rparr>
           in if inquota = 0 then Inr (0, - EDQUOT, ar, mb_unreserve S reserv_blks ar k)
              else
                let ar = (if ar_delalloc ar then ar\<lparr>ar_flags := insert DELALLOC_RESERVED (ar_flags ar)\<rparr> else ar);
                    (memory, k) = cache_alloc S k
                in if \<not> memory then
                     let ar = ar\<lparr>ar_len := 0\<rparr>
                     in Inr (0, - ENOMEM, ar, mb_unreserve S reserv_blks ar (mb_refund S inquota ar k))
                   else
                     let (err, ac, k) = initialize_context S ar k
                     in if err \<noteq> 0 then
                          let ar = ar\<lparr>ar_len := 0\<rparr>
                          in Inr (0, err, ar, mb_unreserve S reserv_blks ar (mb_refund S inquota ar (cache_free S k)))
                        else rbind (mb_allocate S sb fuel reserv_blks ar ac k) (\<lambda>(err, block, len, ac, k).
                          let ar = ar\<lparr>ar_len := len\<rparr>;
                              k = cache_free S (snd (release_context S ac k))
                          in Inr (block, err, ar, mb_unreserve S reserv_blks ar (mb_refund S inquota ar k))))"

end
