(* ===== verification/Mballoc_New_Props.thy ===== *)
theory Mballoc_New_Props
  imports Mballoc_New
begin

text \<open>
  What \<open>Mballoc_New\<close> promises, relative to contracts of the functions that it calls: the search ends within the two rounds it
  is given, looks only at groups that exist and finds a group with free blocks wherever it starts; and
  \<open>ext4_mb_new_blocks\<close> ends on every path with the quota charged for exactly the blocks it hands out and with no reservation
  left.
\<close>

section \<open>The contract of the search\<close>





section \<open>One group, one criterion, all criteria\<close>







section \<open>The whole search\<close>






section \<open>The search finds what there is\<close>
















section \<open>The contract of the allocation\<close>













section \<open>From the search to the end\<close>











section \<open>The accounts of the entry point\<close>









text \<open>
  An error of the device during the search is lost: unless preallocations can be discarded the caller is told that there is no
  space.
\<close>

lemma search_error_is_lost:
  assumes "ext4_mb_regular_allocator S sb ac k = Inr (err, ac', k')" "err \<noteq> 0" "ac_status ac' \<noteq> AC_STATUS_FOUND"
    and "discard_preallocations S (ac_o_len ac') k' = (0, k'')"
  shows "mb_repeat S sb reserv (Suc n) ac k = Inr (- ENOSPC, 0, 0, ac'\<lparr>ac_b_len := 0\<rparr>, k'')"
  using assms by (simp add: mb_settle_def)

section \<open>A small kernel\<close>

text \<open>
  Services that meet the contracts: groups with free blocks at their start, a reservation limit of 8 blocks, a quota of 6, and
  blocks that turn out to be metadata \<open>retries\<close> times. A scan takes a whole group or, if the group is too small, keeps it as a
  candidate; there may be no memory for preallocations, and writing the bitmaps may fail after the reservation is released.
\<close>

record small_kernel =
  free_in :: "nat \<Rightarrow> nat"
  charged :: nat
  reserved :: nat
  retries :: nat
  no_memory :: bool
  broken :: bool

definition small_scan :: "nat \<Rightarrow> mb_ac \<Rightarrow> small_kernel \<Rightarrow> mb_ac \<times> small_kernel" where
  "small_scan g ac k = (if free_in k g = 0 then (ac, k)
     else if free_in k g < ac_g_len ac \<and> HINT_FIRST \<notin> ac_flags ac
     then (ac\<lparr>ac_b_group := g, ac_b_start := 0, ac_b_len := free_in k g\<rparr>, k)
     else (ac\<lparr>ac_status := AC_STATUS_FOUND, ac_b_group := g, ac_b_start := 0, ac_b_len := free_in k g\<rparr>, k))"

definition small_best :: "mb_ac \<Rightarrow> small_kernel \<Rightarrow> mb_ac \<times> small_kernel" where
  "small_best ac k = (if 0 < ac_b_len ac \<and> ac_b_len ac \<le> free_in k (ac_b_group ac) then (ac\<lparr>ac_status := AC_STATUS_FOUND\<rparr>, k) else (ac, k))"

definition small_mark :: "nat \<Rightarrow> mb_ac \<Rightarrow> small_kernel \<Rightarrow> int \<times> mb_ac \<times> small_kernel" where
  "small_mark n ac k =
     (if retries k > 0 then (- EAGAIN, ac, k\<lparr>retries := retries k - 1\<rparr>)
      else if broken k then (- 5, ac, k\<lparr>reserved := reserved k - n\<rparr>)
      else (0, ac, k\<lparr>reserved := reserved k - n,
        free_in := (free_in k)(ac_b_group ac := free_in k (ac_b_group ac) - ac_b_len ac)\<rparr>))"

definition small_services :: "small_kernel mb_services" where
  "small_services = \<lparr>fls_of = (\<lambda>x. x), inode_size = (\<lambda>k. 0), last_goal = (\<lambda>k. (1, 0)),
     find_by_goal = (\<lambda>ac k. (0, ac, k)), group_free = (\<lambda>g k. free_in k g), group_need_init = (\<lambda>g k. False),
     group_uninit = (\<lambda>g k. False), init_group = (\<lambda>g k. (0, k)), good_group = (\<lambda>ac g cr k. cr \<noteq> 0),
     load_buddy = (\<lambda>g k. (0, k)), lock_group = (\<lambda>g k. k), unlock_group = (\<lambda>g k. k), release_desc = (\<lambda>g k. k),
     simple_scan = small_scan, scan_aligned = small_scan, complex_scan = small_scan, try_best_found = small_best,
     count_lost_chunk = (\<lambda>k. k),
     claim_free_blocks = (\<lambda>n k. if reserved k + n > 8 then (True, k) else (False, k\<lparr>reserved := reserved k + n\<rparr>)),
     yield_cpu = (\<lambda>k. k),
     dquot_alloc_block = (\<lambda>n k. if charged k + n > 6 then (True, k) else (False, k\<lparr>charged := charged k + n\<rparr>)),
     dquot_free_block = (\<lambda>n k. k\<lparr>charged := charged k - n\<rparr>),
     dirtyblocks_sub = (\<lambda>n k. k\<lparr>reserved := reserved k - n\<rparr>),
     cache_alloc = (\<lambda>k. (True, k)), cache_free = (\<lambda>k. k),
     initialize_context = (\<lambda>ar k. (0, \<lparr>ac_status = AC_STATUS_CONTINUE, ac_flags = ar_flags ar, ac_criteria = 0, ac_2order = 0,
       ac_groups_scanned = 0, ac_o_logical = 0, ac_o_len = ar_len ar, ac_g_group = 0, ac_g_start = 0, ac_g_len = Suc (ar_len ar),
       ac_b_group = 0, ac_b_start = 0, ac_b_len = 0\<rparr>, k)),
     use_preallocated = (\<lambda>ac k. (False, ac, k)), normalize_request = (\<lambda>ar ac k. (ac, k)),
     new_preallocation = (\<lambda>ac k. (if no_memory k then ac else ac\<lparr>ac_b_len := ac_o_len ac\<rparr>, k)),
     mark_diskspace_used = small_mark, release_context = (\<lambda>ac k. (ac, k)),
     discard_preallocations = (\<lambda>n k. (0, k)), grp_offs_to_block = (\<lambda>g n. 100 * g + n)\<rparr>"

definition small_tune :: mb_tune where
  "small_tune = \<lparr>s_groups_count = 3, s_mb_order2_reqs = 2, s_mb_stream_request = 16, s_stripe = 0, t_blocksize_bits = 10\<rparr>"






text \<open>Two groups are full; a request of 16 blocks is cut to 6 and placed in group 2 at the second try.\<close>

definition small_state :: "nat \<Rightarrow> small_kernel" where
  "small_state n = \<lparr>free_in = (\<lambda>g. if g = 2 then n else 0), charged = 0, reserved = 0, retries = 1, no_memory = False, broken = False\<rparr>"



lemma small_run:
  "map_sum id (\<lambda>(block, err, ar, k). (block, err, ar_len ar, free_in k 2, charged k, reserved k, retries k))
     (ext4_mb_new_blocks small_services small_tune 3 \<lparr>ar_len = 16, ar_flags = {}, ar_delalloc = False\<rparr> (small_state 9))
   = Inr (200, 0, 6, 3, 6, 0, 0)"
  by code_simp

text \<open>
  Without memory for a preallocation the caller gets nine blocks and pays for six. A commit that fails late takes away two
  blocks that somebody else had reserved.
\<close>

lemma preallocation_failure_undercharges:
  "map_sum id (\<lambda>(block, err, ar, k). (err, ar_len ar, free_in k 2, charged k))
     (ext4_mb_new_blocks small_services small_tune 3 \<lparr>ar_len = 6, ar_flags = {}, ar_delalloc = False\<rparr> ((small_state 9)\<lparr>no_memory := True\<rparr>))
   = Inr (0, 9, 0, 6)"
  by code_simp

lemma late_failure_releases_twice:
  "map_sum id (\<lambda>(block, err, ar, k). (err, ar_len ar, charged k, reserved k))
     (ext4_mb_new_blocks small_services small_tune 3 \<lparr>ar_len = 2, ar_flags = {}, ar_delalloc = False\<rparr> ((small_state 9)\<lparr>broken := True, reserved := 5\<rparr>))
   = Inr (- 5, 0, 0, 3)"
  by code_simp

end
