(* ===== verification/Uevent.thy ===== *)
theory Uevent
  imports Lkfs_Base
begin

text \<open>
  The slot driver \<open>src/slot.c\<close>, which reports the insertion and removal of a card as kernel events, and the daemon
  \<open>src/uevent.c\<close> that receives and parses them. Characters are bytes. The message buffer of the daemon is a list of 4098
  bytes; a pointer into it is an index, and reading beyond the buffer is a fault.
\<close>

section \<open>Characters\<close>

definition bytes :: "string \<Rightarrow> u8 list" where
  "bytes s = map (\<lambda>c. of_nat (of_char c)) s"

definition is_digit :: "u8 \<Rightarrow> bool" where
  "is_digit c \<longleftrightarrow> 48 \<le> c \<and> c \<le> 57"

definition is_space :: "u8 \<Rightarrow> bool" where
  "is_space c \<longleftrightarrow> c = 32 \<or> (9 \<le> c \<and> c \<le> 13)"

text \<open>
  The number at the head of a string, as \<open>strtol\<close> and the kernel's \<open>sscanf\<close> with \<open>%d\<close> read it, before it is fitted into
  a machine integer; \<open>None\<close> if there is no digit.
\<close>

definition digits_value :: "u8 list \<Rightarrow> int" where
  "digits_value ds = foldl (\<lambda>v d. 10 * v + (uint d - 48)) 0 ds"

definition scan_int :: "u8 list \<Rightarrow> int option" where
  "scan_int s =
     (let s = dropWhile is_space s;
          (neg, s) = (case s of [] \<Rightarrow> (False, s) | c # cs \<Rightarrow> if c = 45 then (True, cs) else if c = 43 then (False, cs) else (False, s));
          ds = takeWhile is_digit s
      in if ds = [] then None else Some (if neg then - digits_value ds else digits_value ds))"

text \<open>
  \<open>atoi\<close> is \<open>(int) strtol(s, NULL, 10)\<close>: \<open>strtol\<close> takes a number beyond the range of a \<open>long\<close>, which has \<open>long_size\<close> bytes, to
  the nearest end of the range, and the conversion to \<open>int\<close> keeps the low 32 bits.
\<close>

definition strtol :: "nat \<Rightarrow> u8 list \<Rightarrow> int" where
  "strtol long_size s =
     (let m = 2 ^ (8 * long_size - 1)
      in case scan_int s of None \<Rightarrow> 0 | Some v \<Rightarrow> max (- m) (min (m - 1) v))"

definition atoi :: "nat \<Rightarrow> u8 list \<Rightarrow> int" where
  "atoi long_size s = sint (of_int (strtol long_size s) :: u32)"

section \<open>The slot driver\<close>

datatype slot_status = SLOT_INERT | SLOT_REMOVE

definition value_show :: "u8 list" where
  "value_show = bytes ''value'' @ [10]"

text \<open>The environment that is handed to \<open>kobject_uevent_env\<close>.\<close>

definition slot_generate_event :: "slot_status \<Rightarrow> u8 list list" where
  "slot_generate_event reason = (case reason of SLOT_INERT \<Rightarrow> [bytes ''SLOT=insert''] | SLOT_REMOVE \<Rightarrow> [bytes ''SLOT=remove''])"

text \<open>
  \<open>enable\<close> is an \<open>unsigned long\<close> of \<open>long_size\<close> bytes, of which \<open>%d\<close> sets four: the others, or all of them if there is no number,
  are indeterminate. The kernel's \<open>sscanf\<close> keeps the low bits of a number that is too long.
\<close>

definition value_store :: "nat \<Rightarrow> u8 list \<Rightarrow> (u8 list list \<times> nat) res" where
  "value_store long_size buf =
     (case scan_int buf of
        None \<Rightarrow> Inl Uninit
      | Some v \<Rightarrow>
          if long_size \<noteq> 4 then Inl Uninit
          else Inr (slot_generate_event (if (of_int v :: u32) = 1 then SLOT_INERT else SLOT_REMOVE), length buf))"

section \<open>The daemon\<close>

text \<open>A pointer to the empty string, the initial value of the fields, is \<open>None\<close>.\<close>

record uevent =
  action :: "nat option"
  path :: "nat option"
  subsystem :: "nat option"
  firmware :: "nat option"
  major :: int
  minor :: int

definition at :: "u8 list \<Rightarrow> nat \<Rightarrow> u8 res" where
  "at msg p = (if p < length msg then Inr (msg ! p) else Inl OutOfBounds)"

text \<open>\<open>!strncmp(msg + p, lit, strlen(lit))\<close>: the comparison ends at the first difference, and \<open>lit\<close> has no NUL.\<close>

fun has_prefix :: "u8 list \<Rightarrow> nat \<Rightarrow> u8 list \<Rightarrow> bool res" where
  "has_prefix msg p [] = Inr True"
| "has_prefix msg p (c # lit) = rbind (at msg p) (\<lambda>d. if d = c then has_prefix msg (Suc p) lit else Inr False)"

definition string_at :: "u8 list \<Rightarrow> nat \<Rightarrow> u8 list" where
  "string_at msg p = takeWhile (\<lambda>c. c \<noteq> 0) (drop p msg)"

text \<open>The chain of comparisons: the place after the name and the new event.\<close>

definition parse_field :: "nat \<Rightarrow> u8 list \<Rightarrow> nat \<Rightarrow> uevent \<Rightarrow> (nat \<times> uevent) res" where
  "parse_field long_size msg p ev =
     rbind (has_prefix msg p (bytes ''ACTION='')) (\<lambda>b. if b then Inr (p + 7, ev\<lparr>action := Some (p + 7)\<rparr>) else
     rbind (has_prefix msg p (bytes ''DEVPATH='')) (\<lambda>b. if b then Inr (p + 8, ev\<lparr>path := Some (p + 8)\<rparr>) else
     rbind (has_prefix msg p (bytes ''SUBSYSTEM='')) (\<lambda>b. if b then Inr (p + 10, ev\<lparr>subsystem := Some (p + 10)\<rparr>) else
     rbind (has_prefix msg p (bytes ''SLOT='')) (\<lambda>b. if b then Inr (p + 5, ev\<lparr>firmware := Some (p + 5)\<rparr>) else
     rbind (has_prefix msg p (bytes ''MAJOR='')) (\<lambda>b. if b then Inr (p + 6, ev\<lparr>major := atoi long_size (string_at msg (p + 6))\<rparr>) else
     rbind (has_prefix msg p (bytes ''MINOR='')) (\<lambda>b. if b then Inr (p + 6, ev\<lparr>minor := atoi long_size (string_at msg (p + 6))\<rparr>) else
     Inr (p, ev)))))))"

text \<open>\<open>while (*msg++);\<close>\<close>

primrec after_nul :: "u8 list \<Rightarrow> nat \<Rightarrow> nat \<Rightarrow> nat res" where
  "after_nul msg 0 p = Inl NoEnd"
| "after_nul msg (Suc fuel) p = rbind (at msg p) (\<lambda>c. if c \<noteq> 0 then after_nul msg fuel (Suc p) else Inr (Suc p))"

primrec parse_fields :: "nat \<Rightarrow> u8 list \<Rightarrow> nat \<Rightarrow> nat \<Rightarrow> uevent \<Rightarrow> uevent res" where
  "parse_fields long_size msg 0 p ev = Inl NoEnd"
| "parse_fields long_size msg (Suc fuel) p ev =
     rbind (at msg p) (\<lambda>c.
     if c \<noteq> 0 then
       rbind (parse_field long_size msg p ev) (\<lambda>(p, ev).
       rbind (after_nul msg (Suc (length msg)) p) (\<lambda>p.
       parse_fields long_size msg fuel p ev))
     else Inr ev)"

definition parse_event :: "nat \<Rightarrow> u8 list \<Rightarrow> uevent res" where
  "parse_event long_size msg = parse_fields long_size msg (Suc (length msg)) 0
     \<lparr>action = None, path = None, subsystem = None, firmware = None, major = -1, minor = -1\<rparr>"

text \<open>
  One round of the loops of \<open>main\<close>: \<open>recv\<close> has put a packet of at most 4096 bytes at the head of the buffer. \<open>None\<close> if nothing is
  parsed: an empty packet ends the inner loop, which the outer one starts again, and one that fills the buffer is discarded. The
  result has the buffer, into which the event points.
\<close>

definition UEVENT_MSG_LEN :: nat where "UEVENT_MSG_LEN = 4096"

definition receive :: "nat \<Rightarrow> u8 list \<Rightarrow> u8 list \<Rightarrow> (u8 list \<times> uevent option) res" where
  "receive long_size packet msg =
     (let n = length packet;
          msg = packet @ drop n msg
      in if \<not> n > 0 then Inr (msg, None)
         else if n = UEVENT_MSG_LEN then Inr (msg, None)
         else
           let msg = msg[n := 0, n + 1 := 0]
           in rbind (parse_event long_size msg) (\<lambda>ev. Inr (msg, Some ev)))"

end
