(* ===== verification/File_List.thy ===== *)
theory File_List
  imports Uevent
begin

text \<open>
  The two tools of \<open>src/EXT4_review\<close> that compare a file tree with an earlier state of it: \<open>stat.c\<close> prints the paths of all
  regular files, \<open>list.c\<close> reads such a listing into a linked list, walks the tree, and prints the files that are new and
  those that are gone. A file tree is a datatype, memory a partial function from addresses to nodes; using a node that is not
  allocated is a fault.
\<close>

section \<open>The linked list\<close>

record fl_node =
  f_no :: nat
  f_name :: "u8 list"
  fl_next :: nat
  fl_prev :: nat

text \<open>
  The state of \<open>list.c\<close>: the nodes, the address that \<open>malloc\<close> gives next, the number of files found and the lines printed. The
  field \<open>f_name\<close> is an array of 1024 bytes.
\<close>

record fl_state =
  nodes :: "nat \<Rightarrow> fl_node option"
  fresh :: nat
  filecount :: nat
  printed :: "u8 list list"

definition node :: "nat \<Rightarrow> fl_state \<Rightarrow> fl_node res" where
  "node p s = (case nodes s p of None \<Rightarrow> Inl OutOfBounds | Some n \<Rightarrow> Inr n)"

definition put_next :: "nat \<Rightarrow> nat \<Rightarrow> fl_state \<Rightarrow> fl_state res" where
  "put_next p q s = rbind (node p s) (\<lambda>n. Inr (s\<lparr>nodes := (nodes s)(p \<mapsto> n\<lparr>fl_next := q\<rparr>)\<rparr>))"

definition put_prev :: "nat \<Rightarrow> nat \<Rightarrow> fl_state \<Rightarrow> fl_state res" where
  "put_prev p q s = rbind (node p s) (\<lambda>n. Inr (s\<lparr>nodes := (nodes s)(p \<mapsto> n\<lparr>fl_prev := q\<rparr>)\<rparr>))"

definition free_node :: "nat \<Rightarrow> fl_state \<Rightarrow> fl_state res" where
  "free_node p s = rbind (node p s) (\<lambda>_. Inr (s\<lparr>nodes := (nodes s)(p := None)\<rparr>))"

definition INIT_LIST_HEAD :: "nat \<Rightarrow> fl_state \<Rightarrow> fl_state res" where
  "INIT_LIST_HEAD l s = rbind (put_next l l s) (put_prev l l)"

text \<open>\<open>__list_add\<close> and \<open>__list_del\<close> of the source.\<close>

definition list_add_between :: "nat \<Rightarrow> nat \<Rightarrow> nat \<Rightarrow> fl_state \<Rightarrow> fl_state res" where
  "list_add_between new prv nxt s =
     rbind (put_prev nxt new s) (\<lambda>s. rbind (put_next new nxt s) (\<lambda>s. rbind (put_prev new prv s) (put_next prv new)))"

definition list_add :: "nat \<Rightarrow> nat \<Rightarrow> fl_state \<Rightarrow> fl_state res" where
  "list_add new head s = rbind (node head s) (\<lambda>h. list_add_between new head (fl_next h) s)"

definition list_del_between :: "nat \<Rightarrow> nat \<Rightarrow> fl_state \<Rightarrow> fl_state res" where
  "list_del_between prv nxt s = rbind (put_prev nxt prv s) (put_next prv nxt)"

definition list_del :: "nat \<Rightarrow> fl_state \<Rightarrow> fl_state res" where
  "list_del entry s = rbind (node entry s) (\<lambda>e. list_del_between (fl_prev e) (fl_next e) s)"

section \<open>Reading the listing\<close>

text \<open>The lines that \<open>fgets\<close> with a buffer of 1024 bytes returns: up to a newline, which is kept, or 1023 bytes.\<close>

fun fgets_line :: "nat \<Rightarrow> u8 list \<Rightarrow> u8 list \<times> u8 list" where
  "fgets_line 0 cs = ([], cs)"
| "fgets_line (Suc n) [] = ([], [])"
| "fgets_line (Suc n) (c # cs) =
     (if c = 10 then ([c], cs) else let (l, rest) = fgets_line n cs in (c # l, rest))"

lemma fgets_rest: "length (snd (fgets_line n cs)) \<le> length cs"
  by (induction n cs rule: fgets_line.induct) (auto simp: case_prod_beta Let_def)

function fgets_lines :: "u8 list \<Rightarrow> u8 list list" where
  "fgets_lines cs = (if cs = [] then [] else let (l, rest) = fgets_line 1023 cs in l # fgets_lines rest)"
  by pat_completeness auto
termination
proof (relation "measure length")
  fix cs and p :: "u8 list \<times> u8 list" and l rest
  assume a: "cs \<noteq> []" "p = fgets_line 1023 cs" "(l, rest) = p"
  obtain c cs' where c: "cs = c # cs'" using a(1) by (cases cs) auto
  have "(1023 :: nat) = Suc 1022" by simp
  then have "fgets_line 1023 cs = (if c = 10 then ([c], cs') else let (l, rest) = fgets_line 1022 cs' in (c # l, rest))"
    unfolding c by (simp only: fgets_line.simps)
  then show "(rest, cs) \<in> measure length" using a(2, 3) fgets_rest [of 1022 cs'] by (auto simp: c case_prod_beta Let_def split: if_splits)
qed simp

text \<open>
  \<open>malloc\<close> gives a node whose name has the bytes \<open>junk\<close>; \<open>strncpy(p->f_name, line, strlen(line))\<close> copies the line without its
  NUL, over the first bytes of the name.
\<close>

fun loadfile :: "(nat \<Rightarrow> u8 list) \<Rightarrow> nat \<Rightarrow> u8 list list \<Rightarrow> nat \<Rightarrow> fl_state \<Rightarrow> (nat \<times> fl_state) res" where
  "loadfile junk head [] no s = Inr (no, s)"
| "loadfile junk head (line # rest) no s =
     (let p = fresh s;
          l = takeWhile (\<lambda>c. c \<noteq> 0) line;
          s = s\<lparr>fresh := p + 1, nodes := (nodes s)(p \<mapsto> \<lparr>f_no = no, f_name = l @ drop (length l) (junk p), fl_next = 0, fl_prev = 0\<rparr>)\<rparr>
      in rbind (list_add p head s) (loadfile junk head rest (no + 1)))"

section \<open>Comparing\<close>

text \<open>\<open>strlen\<close> of a name runs beyond its array if no NUL is in it.\<close>

definition name_strlen :: "u8 list \<Rightarrow> nat res" where
  "name_strlen nm = (if 0 \<in> set nm then Inr (length (takeWhile (\<lambda>c. c \<noteq> 0) nm)) else Inl OutOfBounds)"

definition print :: "u8 list \<Rightarrow> fl_state \<Rightarrow> fl_state" where
  "print l s = s\<lparr>printed := printed s @ [l]\<rparr>"

text \<open>
  The search of \<open>compare\<close> from the node \<open>pos\<close>; \<open>strlen(pos->f_name) - 1\<close> is an unsigned number, which is compared with an
  \<open>int\<close>: the length of the empty name minus one is not the length of a path. The result tells whether the path was found.
\<close>

primrec compare_from :: "nat \<Rightarrow> nat \<Rightarrow> u8 list \<Rightarrow> nat \<Rightarrow> fl_state \<Rightarrow> (bool \<times> fl_state) res" where
  "compare_from 0 head new pos s = Inl NoEnd"
| "compare_from (Suc fuel) head new pos s =
     (if pos = head then Inr (False, s)
      else
        rbind (node pos s) (\<lambda>n.
        rbind (name_strlen (f_name n)) (\<lambda>k.
        if 0 < k \<and> k - 1 = length new \<and> take (length new) (f_name n) = new
        then rbind (list_del pos s) (\<lambda>s. rbind (free_node pos s) (\<lambda>s. Inr (True, s)))
        else compare_from fuel head new (fl_next n) s)))"

definition compare :: "nat \<Rightarrow> u8 list \<Rightarrow> fl_state \<Rightarrow> fl_state res" where
  "compare head new s =
     rbind (node head s) (\<lambda>h.
     rbind (compare_from (Suc (fresh s)) head new (fl_next h) s) (\<lambda>(found, s).
     Inr (if found then s else print (bytes ''++++'' @ new @ [10]) s)))"

section \<open>Walking the tree\<close>

text \<open>
  What a directory has under a name: a regular file, a directory with its entries or one that cannot be opened, something else,
  or an entry on which \<open>lstat\<close> fails.
\<close>

datatype entry = Reg "u8 list" | Dir "u8 list" "entry list option" | Other "u8 list" | Gone "u8 list"

primrec d_name :: "entry \<Rightarrow> u8 list" where
  "d_name (Reg n) = n"
| "d_name (Dir n d) = n"
| "d_name (Other n) = n"
| "d_name (Gone n) = n"

definition join_path :: "u8 list \<Rightarrow> u8 list \<Rightarrow> u8 list" where
  "join_path name d = (if name = bytes ''/'' then bytes ''/'' @ d else name @ bytes ''/'' @ d)"

definition hidden :: "entry \<Rightarrow> bool" where
  "hidden e \<longleftrightarrow> take 1 (d_name e) = bytes ''.''"

text \<open>
  \<open>list_dir\<close> with the flags of \<open>main\<close>, which skip hidden names; \<open>tmp\<close> has room for 4096 bytes. The result of the recursive call is
  dropped.
\<close>

fun list_dir :: "nat \<Rightarrow> u8 list \<Rightarrow> entry list option \<Rightarrow> fl_state \<Rightarrow> (int \<times> fl_state) res"
  and list_entries :: "nat \<Rightarrow> u8 list \<Rightarrow> entry list \<Rightarrow> fl_state \<Rightarrow> (int \<times> fl_state) res" where
  "list_dir head name None s = Inr (-1, s)"
| "list_dir head name (Some es) s = list_entries head name es s"
| "list_entries head name [] s = Inr (0, s)"
| "list_entries head name (e # es) s =
     (if hidden e then list_entries head name es s
      else if length (join_path name (d_name e)) \<ge> 4096 then Inl OutOfBounds
      else
        case e of
          Gone n \<Rightarrow> Inr (-1, s)
        | Dir n d \<Rightarrow> rbind (list_dir head (join_path name n) d s) (\<lambda>(_, s). list_entries head name es s)
        | Reg n \<Rightarrow> rbind (compare head (join_path name n) (s\<lparr>filecount := filecount s + 1\<rparr>)) (list_entries head name es)
        | Other n \<Rightarrow> list_entries head name es s)"

text \<open>The same walk in \<open>stat.c\<close>, which prints the paths: its result is what it prints before it ends.\<close>

fun listdir :: "u8 list \<Rightarrow> entry list option \<Rightarrow> u8 list list res"
  and listdir_entries :: "u8 list \<Rightarrow> entry list \<Rightarrow> u8 list list res" where
  "listdir name None = Inr []"
| "listdir name (Some es) = listdir_entries name es"
| "listdir_entries name [] = Inr []"
| "listdir_entries name (e # es) =
     (if hidden e then listdir_entries name es
      else if length (join_path name (d_name e)) \<ge> 4096 then Inl OutOfBounds
      else
        case e of
          Gone n \<Rightarrow> Inr []
        | Dir n d \<Rightarrow> rbind (listdir (join_path name n) d) (\<lambda>a. rbind (listdir_entries name es) (\<lambda>b. Inr (a @ b)))
        | Reg n \<Rightarrow> rbind (listdir_entries name es) (\<lambda>b. Inr ((join_path name n @ [10]) # b))
        | Other n \<Rightarrow> listdir_entries name es)"

section \<open>The program\<close>

text \<open>\<open>list_delete_file\<close> and \<open>free_list\<close> from the node \<open>pos\<close>; \<open>%s\<close> prints a name up to its NUL.\<close>

primrec list_delete_file :: "nat \<Rightarrow> nat \<Rightarrow> nat \<Rightarrow> fl_state \<Rightarrow> fl_state res" where
  "list_delete_file 0 head pos s = Inl NoEnd"
| "list_delete_file (Suc fuel) head pos s =
     (if pos = head then Inr s
      else
        rbind (node pos s) (\<lambda>n.
        rbind (name_strlen (f_name n)) (\<lambda>k.
        list_delete_file fuel head (fl_next n) (print (bytes ''----'' @ take k (f_name n)) s))))"

primrec free_list :: "nat \<Rightarrow> nat \<Rightarrow> nat \<Rightarrow> fl_state \<Rightarrow> fl_state res" where
  "free_list 0 head pos s = Inl NoEnd"
| "free_list (Suc fuel) head pos s =
     (if pos = head then Inr s
      else
        rbind (node pos s) (\<lambda>n.
        rbind (list_del pos s) (\<lambda>s. rbind (free_node pos s) (free_list fuel head (fl_next n)))))"

text \<open>
  \<open>main\<close> with the directory \<open>name\<close>, its contents and the bytes of the listing. The head of the list, a local variable, is node 0;
  the result is the state and the counts that are printed last.
\<close>

definition main :: "(nat \<Rightarrow> u8 list) \<Rightarrow> u8 list \<Rightarrow> entry list option \<Rightarrow> u8 list \<Rightarrow> (nat \<times> nat \<times> fl_state) res" where
  "main junk name dir listing =
     (let s = \<lparr>nodes = [0 \<mapsto> \<lparr>f_no = 0, f_name = [], fl_next = 0, fl_prev = 0\<rparr>], fresh = 1, filecount = 0, printed = []\<rparr>
      in rbind (INIT_LIST_HEAD 0 s) (\<lambda>s.
         rbind (loadfile junk 0 (fgets_lines listing) 0 s) (\<lambda>(len, s).
         rbind (list_dir 0 name dir s) (\<lambda>(_, s).
         rbind (node 0 s) (\<lambda>h.
         rbind (list_delete_file (Suc (fresh s)) 0 (fl_next h) s) (\<lambda>s.
         rbind (node 0 s) (\<lambda>h.
         rbind (free_list (Suc (fresh s)) 0 (fl_next h) s) (\<lambda>s.
         Inr (filecount s, len, s)))))))))"

end
