(* ===== verification/File_List_Props.thy ===== *)
theory File_List_Props
  imports File_List "HOL-Library.Multiset"
begin

text \<open>
  What the tools of \<open>File_List\<close> compute: the operations keep the circular list well formed, each entry of the listing is used
  for at most one file, and what is printed is the difference of the two multisets of paths; all nodes are given back.
\<close>

section \<open>The circular list\<close>

definition nx :: "fl_state \<Rightarrow> nat \<Rightarrow> nat option" where
  "nx s p = map_option fl_next (nodes s p)"

definition pv :: "fl_state \<Rightarrow> nat \<Rightarrow> nat option" where
  "pv s p = map_option fl_prev (nodes s p)"

definition nm :: "fl_state \<Rightarrow> nat \<Rightarrow> u8 list option" where
  "nm s p = map_option f_name (nodes s p)"

text \<open>Two states that differ in links only.\<close>

definition same_names :: "fl_state \<Rightarrow> fl_state \<Rightarrow> bool" where
  "same_names s s' \<longleftrightarrow> nm s' = nm s \<and> dom (nodes s') = dom (nodes s) \<and> fresh s' = fresh s \<and> filecount s' = filecount s \<and> printed s' = printed s"

lemma same_names_trans: "same_names s s' \<Longrightarrow> same_names s' s'' \<Longrightarrow> same_names s s''"
  by (simp add: same_names_def)

lemma put_next_ok:
  "p \<in> dom (nodes s) \<Longrightarrow> \<exists>s'. put_next p q s = Inr s' \<and> nx s' = (nx s)(p := Some q) \<and> pv s' = pv s \<and> same_names s s'"
  by (auto simp: put_next_def node_def nx_def pv_def nm_def same_names_def fun_eq_iff)

lemma put_prev_ok:
  "p \<in> dom (nodes s) \<Longrightarrow> \<exists>s'. put_prev p q s = Inr s' \<and> pv s' = (pv s)(p := Some q) \<and> nx s' = nx s \<and> same_names s s'"
  by (auto simp: put_prev_def node_def nx_def pv_def nm_def same_names_def fun_eq_iff)

definition link :: "fl_state \<Rightarrow> nat \<Rightarrow> nat \<Rightarrow> bool" where
  "link s p q \<longleftrightarrow> nx s p = Some q \<and> pv s q = Some p"

fun linked :: "fl_state \<Rightarrow> nat list \<Rightarrow> bool" where
  "linked s (p # q # ps) \<longleftrightarrow> link s p q \<and> linked s (q # ps)"
| "linked s ps \<longleftrightarrow> True"

lemma linked_append: "ps \<noteq> [] \<Longrightarrow> qs \<noteq> [] \<Longrightarrow> linked s (ps @ qs) \<longleftrightarrow> linked s ps \<and> link s (last ps) (hd qs) \<and> linked s qs"
proof (induction ps)
  case (Cons p ps)
  then show ?case by (cases ps; cases qs) auto
qed simp

lemma linked_frame:
  "(\<And>p. p \<in> set (butlast ps) \<Longrightarrow> nx s' p = nx s p) \<Longrightarrow> (\<And>p. p \<in> set (tl ps) \<Longrightarrow> pv s' p = pv s p) \<Longrightarrow> linked s' ps = linked s ps"
proof (induction ps)
  case (Cons p ps)
  then show ?case by (cases ps; cases "tl ps") (auto simp: link_def)
qed simp

definition ring :: "fl_state \<Rightarrow> nat list \<Rightarrow> bool" where
  "ring s xs \<longleftrightarrow> distinct (0 # xs) \<and> linked s (0 # xs @ [0])"

lemma link_dom: "link s p q \<Longrightarrow> p \<in> dom (nodes s) \<and> q \<in> dom (nodes s)"
  by (auto simp: link_def nx_def pv_def)

lemma ring_split: "linked s (0 # (xs @ x # ys) @ [0]) \<longleftrightarrow> linked s (0 # xs) \<and> link s (last (0 # xs)) x \<and> link s x (hd (ys @ [0])) \<and> linked s (ys @ [0])"
  using linked_append [of "0 # xs" "x # ys @ [0]" s] linked_append [of "[x]" "ys @ [0]" s] by simp

lemma ring_join: "linked s (0 # (xs @ ys) @ [0]) \<longleftrightarrow> linked s (0 # xs) \<and> link s (last (0 # xs)) (hd (ys @ [0])) \<and> linked s (ys @ [0])"
  using linked_append [of "0 # xs" "ys @ [0]" s] by simp

lemma list_del_ring:
  assumes "ring s (xs @ x # ys)"
  shows "\<exists>s'. list_del x s = Inr s' \<and> ring s' (xs @ ys) \<and> same_names s s'"
proof -
  define P where "P = last (0 # xs)"
  define Q where "Q = hd (ys @ [0])"
  have d: "distinct (0 # xs @ x # ys)" and l: "linked s (0 # xs)" "link s P x" "link s x Q" "linked s (ys @ [0])"
    using assms by (simp_all only: ring_def ring_split P_def Q_def)
  obtain n where n: "nodes s x = Some n" "fl_prev n = P" "fl_next n = Q" using l(2, 3) by (auto simp: link_def nx_def pv_def)
  obtain s1 where s1: "put_prev Q P s = Inr s1" "pv s1 = (pv s)(Q := Some P)" "nx s1 = nx s" "same_names s s1"
    using put_prev_ok [of Q s P] link_dom [OF l(3)] by blast
  obtain s2 where s2: "put_next P Q s1 = Inr s2" "nx s2 = (nx s1)(P := Some Q)" "pv s2 = pv s1" "same_names s1 s2"
    using put_next_ok [of P s1 Q] link_dom [OF l(2)] s1(4) by (auto simp: same_names_def)
  have P: "P \<notin> set (butlast (0 # xs))" "P \<notin> set ys"
  proof -
    have "0 # xs = butlast (0 # xs) @ [P]" unfolding P_def by (rule append_butlast_last_id [symmetric]) simp
    then have "distinct (butlast (0 # xs) @ [P])" using d by (metis distinct_append append_Cons)
    then show "P \<notin> set (butlast (0 # xs))" by simp
    have "P \<in> set (0 # xs)" unfolding P_def by (rule last_in_set) simp
    then show "P \<notin> set ys" using d by auto
  qed
  have Q: "Q \<notin> set xs" "Q \<notin> set (tl (ys @ [0]))" using d by (cases ys; auto simp: Q_def)+
  have "linked s2 (0 # xs)"
    using l(1) P(1) Q(1) by (subst linked_frame [of _ s2 s]) (auto simp: s1 s2)
  moreover have "linked s2 (ys @ [0])"
    using l(4) P(2) Q(2) by (subst linked_frame [of _ s2 s]) (auto simp: s1 s2)
  moreover have "link s2 P Q" by (simp add: link_def s1 s2)
  ultimately have "ring s2 (xs @ ys)" using d unfolding ring_def ring_join P_def Q_def by simp
  moreover have "list_del x s = Inr s2" by (simp add: list_del_def node_def n list_del_between_def s1 s2)
  ultimately show ?thesis using same_names_trans [OF s1(4) s2(4)] by blast
qed

lemma list_add_ring:
  assumes "ring s xs" "new \<notin> set (0 # xs)" "new \<in> dom (nodes s)"
  shows "\<exists>s'. list_add new 0 s = Inr s' \<and> ring s' (new # xs) \<and> same_names s s'"
proof -
  define Q where "Q = hd (xs @ [0])"
  have d: "distinct (0 # xs)" and l: "link s 0 Q" "linked s (xs @ [0])"
    using assms(1) ring_join [of s "[]" xs] by (simp_all add: ring_def Q_def)
  obtain n where n: "nodes s 0 = Some n" "fl_next n = Q" using l(1) by (auto simp: link_def nx_def)
  obtain s1 where s1: "put_prev Q new s = Inr s1" "pv s1 = (pv s)(Q := Some new)" "nx s1 = nx s" "same_names s s1"
    using put_prev_ok [of Q s new] link_dom [OF l(1)] by blast
  obtain s2 where s2: "put_next new Q s1 = Inr s2" "nx s2 = (nx s1)(new := Some Q)" "pv s2 = pv s1" "same_names s1 s2"
    using put_next_ok [of new s1 Q] assms(3) s1(4) by (auto simp: same_names_def)
  obtain s3 where s3: "put_prev new 0 s2 = Inr s3" "pv s3 = (pv s2)(new := Some 0)" "nx s3 = nx s2" "same_names s2 s3"
    using put_prev_ok [of new s2 0] assms(3) s1(4) s2(4) by (auto simp: same_names_def)
  obtain s4 where s4: "put_next 0 new s3 = Inr s4" "nx s4 = (nx s3)(0 := Some new)" "pv s4 = pv s3" "same_names s3 s4"
    using put_next_ok [of 0 s3 new] link_dom [OF l(1)] s1(4) s2(4) s3(4) by (auto simp: same_names_def)
  have Q: "Q \<notin> set (tl (xs @ [0]))" "Q \<noteq> new" using d assms(2) by (cases xs; auto simp: Q_def)+
  have "linked s4 (xs @ [0])"
    using l(2) Q(1) assms(2) d by (subst linked_frame [of _ s4 s]) (auto simp: s1 s2 s3 s4 dest: list.set_sel(2) [rotated])
  moreover have "link s4 0 new" "link s4 new Q" using Q assms(2) by (simp_all add: link_def s1 s2 s3 s4)
  ultimately have "ring s4 (new # xs)" using d assms(2) ring_split [of s4 "[]" new xs] by (simp add: ring_def Q_def)
  moreover have "list_add new 0 s = Inr s4" by (simp add: list_add_def node_def n list_add_between_def s1 s2 s3 s4)
  ultimately show ?thesis using same_names_trans s1(4) s2(4) s3(4) s4(4) by meson
qed

lemma free_node_ring:
  assumes "ring s xs" "x \<notin> set (0 # xs)" "x \<in> dom (nodes s)"
  shows "\<exists>s'. free_node x s = Inr s' \<and> ring s' xs \<and> nm s' = (nm s)(x := None) \<and> dom (nodes s') = dom (nodes s) - {x}
    \<and> fresh s' = fresh s \<and> filecount s' = filecount s \<and> printed s' = printed s"
proof -
  obtain n where n: "nodes s x = Some n" using assms(3) by blast
  define s' where "s' = s\<lparr>nodes := (nodes s)(x := None)\<rparr>"
  have "nx s' p = nx s p" "pv s' p = pv s p" if "p \<in> set (0 # xs)" for p
    using assms(2) that by (auto simp: s'_def nx_def pv_def)
  then have "linked s' (0 # xs @ [0]) = linked s (0 # xs @ [0])" by (intro linked_frame) (auto dest: in_set_butlastD)
  then have "ring s' xs" using assms(1) by (simp add: ring_def)
  moreover have "free_node x s = Inr s'" by (simp add: free_node_def node_def n s'_def)
  ultimately show ?thesis by (auto simp: s'_def nm_def fun_eq_iff split: if_splits)
qed

section \<open>The list of paths\<close>

text \<open>
  The name of a node runs up to its first NUL. It is a line of the listing with its newline, and with whatever stood
  in memory behind it: its path, as \<open>compare\<close> sees it, is the name without the last byte.
\<close>

definition named :: "fl_state \<Rightarrow> nat \<Rightarrow> u8 list \<Rightarrow> bool" where
  "named s x e \<longleftrightarrow> (\<exists>t. nm s x = Some (e @ 0 # t)) \<and> 0 \<notin> set e \<and> e \<noteq> []"

definition rep :: "fl_state \<Rightarrow> nat list \<Rightarrow> u8 list list \<Rightarrow> bool" where
  "rep s xs P \<longleftrightarrow> ring s xs \<and> list_all2 (named s) xs P \<and> dom (nodes s) = set (0 # xs) \<and> (\<forall>x\<in>set (0 # xs). x < fresh s)"

definition same_rest :: "fl_state \<Rightarrow> fl_state \<Rightarrow> bool" where
  "same_rest s s' \<longleftrightarrow> fresh s' = fresh s \<and> filecount s' = filecount s \<and> printed s' = printed s"

lemma take_name: "0 \<notin> set e \<Longrightarrow> takeWhile (\<lambda>c. c \<noteq> 0) (e @ 0 # t) = (e :: u8 list)"
  by (induction e) auto

lemma namedD:
  assumes "named s x e" "nodes s x = Some n"
  shows "name_strlen (f_name n) = Inr (length e)" "take (length e - 1) (f_name n) = butlast e" "take (length e) (f_name n) = e"
    "0 < length e"
  using assms by (auto simp: named_def nm_def name_strlen_def take_name butlast_conv_take)

text \<open>The first node with a path is taken out.\<close>

fun drop_path :: "u8 list \<Rightarrow> u8 list list \<Rightarrow> u8 list list" where
  "drop_path w [] = []"
| "drop_path w (e # es) = (if butlast e = w then es else e # drop_path w es)"

lemma drop_path_paths: "map butlast (drop_path w P) = remove1 w (map butlast P)"
  by (induction P) auto

lemma drop_path_sub: "mset (drop_path w P) \<subseteq># mset P"
  by (induction P) auto

lemma drop_path_idem: "w \<notin> butlast ` set P \<Longrightarrow> drop_path w P = P"
  by (induction P) auto

lemma ring_next:
  assumes "ring s (ys @ z # zs)"
  shows "z \<noteq> 0" "\<exists>n. nodes s z = Some n \<and> fl_next n = hd (zs @ [0])"
  using assms ring_split [of s ys z zs] by (auto simp: ring_def link_def nx_def)

lemma list_all2_named: "(\<And>x. x \<in> set xs \<Longrightarrow> nm s' x = nm s x) \<Longrightarrow> list_all2 (named s') xs P = list_all2 (named s) xs P"
  by (rule list.rel_cong) (auto simp: named_def)

text \<open>Taking one node out of the list.\<close>

lemma remove_node:
  assumes "rep s (ys @ z # zs) (A @ b # B)" "length ys = length A"
  shows "\<exists>s'. rbind (list_del z s) (free_node z) = Inr s' \<and> rep s' (ys @ zs) (A @ B) \<and> same_rest s s'"
proof -
  have r: "ring s (ys @ z # zs)" "list_all2 (named s) (ys @ z # zs) (A @ b # B)" "dom (nodes s) = set (0 # ys @ z # zs)"
    "\<forall>x\<in>set (0 # ys @ z # zs). x < fresh s" using assms(1) by (simp_all add: rep_def)
  have d: "z \<notin> set (0 # ys @ zs)" "distinct (0 # ys @ zs)" using r(1) by (auto simp: ring_def)
  obtain s1 where s1: "list_del z s = Inr s1" "ring s1 (ys @ zs)" "same_names s s1" using list_del_ring [OF r(1)] by blast
  obtain s2 where s2: "free_node z s1 = Inr s2" "ring s2 (ys @ zs)" "nm s2 = (nm s1)(z := None)" "dom (nodes s2) = dom (nodes s1) - {z}"
    "fresh s2 = fresh s1" "filecount s2 = filecount s1" "printed s2 = printed s1"
    using free_node_ring [OF s1(2) d(1)] s1(3) r(3) by (auto simp: same_names_def)
  have "list_all2 (named s) (ys @ zs) (A @ B)" using r(2) assms(2) by (simp add: list_all2_append)
  moreover have "nm s2 x = nm s x" if "x \<in> set (ys @ zs)" for x using that d(1) s1(3) by (auto simp: s2 same_names_def)
  ultimately have "list_all2 (named s2) (ys @ zs) (A @ B)" using list_all2_named [of "ys @ zs" s2 s] by blast
  then have "rep s2 (ys @ zs) (A @ B)" using r(3, 4) s1(3) s2 d by (auto simp: rep_def same_names_def)
  then show ?thesis using s1 s2 by (auto simp: same_rest_def same_names_def)
qed

lemma compare_from_ok:
  "rep s (ys @ zs) (A @ B) \<Longrightarrow> length ys = length A \<Longrightarrow> length zs < fuel \<Longrightarrow>
    (if new \<in> butlast ` set B
     then \<exists>s' xs. compare_from fuel 0 new (hd (zs @ [0])) s = Inr (True, s') \<and> rep s' xs (A @ drop_path new B) \<and> same_rest s s'
     else compare_from fuel 0 new (hd (zs @ [0])) s = Inr (False, s))"
proof (induction zs arbitrary: ys A B fuel)
  case Nil
  have "B = []" using Nil.prems(1, 2) list_all2_lengthD by (fastforce simp: rep_def)
  then show ?case using Nil.prems(3) by (cases fuel) simp_all
next
  case (Cons z zs)
  obtain g where g: "fuel = Suc g" using Cons.prems(3) by (cases fuel) auto
  have r: "ring s (ys @ z # zs)" "list_all2 (named s) (ys @ z # zs) (A @ B)" using Cons.prems(1) by (simp_all add: rep_def)
  have "list_all2 (named s) (z # zs) B" using r(2) Cons.prems(2) by (simp add: list_all2_append)
  then obtain b B' where B: "B = b # B'" "named s z b" by (cases B) auto
  obtain n where n: "z \<noteq> 0" "nodes s z = Some n" "fl_next n = hd (zs @ [0])" using ring_next [OF r(1)] by blast
  note N = namedD [OF B(2) n(2)]
  have k: "length b - 1 = length (butlast b)" by simp
  show ?case
  proof (cases "butlast b = new")
    case True
    obtain s' where s': "rbind (list_del z s) (free_node z) = Inr s'" "rep s' (ys @ zs) (A @ B')" "same_rest s s'"
      using remove_node [OF Cons.prems(1) [unfolded B] Cons.prems(2)] by blast
    have "rbind (list_del z s) (\<lambda>s. rbind (free_node z s) (\<lambda>s. Inr (True, s))) = Inr (True, s')"
      using s'(1) by (cases "list_del z s") auto
    moreover have "length b - 1 = length new" "take (length new) (f_name n) = new" using N(2) True k by auto
    ultimately show ?thesis using s'(2, 3) n N(1, 4) True by (auto simp: g B(1) node_def)
  next
    case False
    have "\<not> (0 < length b \<and> length b - 1 = length new \<and> take (length new) (f_name n) = new)"
      using N(2) False by metis
    then have "compare_from fuel 0 new (hd ((z # zs) @ [0])) s = compare_from g 0 new (hd (zs @ [0])) s"
      using n N(1) by (auto simp: g node_def)
    moreover have "rep s ((ys @ [z]) @ zs) ((A @ [b]) @ B')" using Cons.prems(1) by (simp add: B(1))
    ultimately show ?thesis using Cons.IH [of "ys @ [z]" "A @ [b]" B' g] Cons.prems(2, 3) False by (auto simp: B(1) g)
  qed
qed

declare compare_from.simps [simp del]

lemma rep_length: "rep s xs P \<Longrightarrow> length xs < Suc (fresh s)"
proof -
  assume r: "rep s xs P"
  then have "set xs \<subseteq> {..<fresh s}" "distinct xs" by (auto simp: rep_def ring_def)
  then have "length xs \<le> fresh s" using card_mono [of "{..<fresh s}" "set xs"] by (simp add: distinct_card)
  then show ?thesis by simp
qed

lemma rep_head: "rep s xs P \<Longrightarrow> \<exists>h. node 0 s = Inr h \<and> fl_next h = hd (xs @ [0])"
proof -
  assume "rep s xs P"
  then have "linked s (0 # xs @ [0])" by (simp add: rep_def ring_def)
  then have "link s 0 (hd (xs @ [0]))" by (cases xs) simp_all
  then show ?thesis by (auto simp: link_def nx_def node_def)
qed

lemma rep_same:
  assumes "rep s xs P" "nodes s' = nodes s" "fresh s' = fresh s"
  shows "rep s' xs P"
proof -
  have "linked s' ps = linked s ps" for ps using assms(2) by (intro linked_frame) (simp_all add: nx_def pv_def)
  moreover have "list_all2 (named s') xs P = list_all2 (named s) xs P" using assms(2) by (intro list_all2_named) (simp add: nm_def)
  ultimately show ?thesis using assms by (simp add: rep_def ring_def)
qed

lemma compare_ok:
  assumes "rep s xs P"
  shows "\<exists>s' xs'. compare 0 new s = Inr s' \<and> rep s' xs' (drop_path new P) \<and> fresh s' = fresh s \<and> filecount s' = filecount s
    \<and> printed s' = printed s @ (if new \<in> butlast ` set P then [] else [bytes ''++++'' @ new @ [10]])"
proof -
  obtain h where h: "node 0 s = Inr h" "fl_next h = hd (xs @ [0])" using rep_head [OF assms] by blast
  note C = compare_from_ok [of s "[]" xs "[]" P "Suc (fresh s)" new, simplified, OF assms rep_length [OF assms]]
  show ?thesis
  proof (cases "new \<in> butlast ` set P")
    case True
    then show ?thesis using C h by (auto simp: compare_def same_rest_def)
  next
    case False
    have "rep (print l s) xs P" for l by (rule rep_same [OF assms]) (simp_all add: print_def)
    then show ?thesis using False C h by (auto simp: compare_def print_def drop_path_idem)
  qed
qed

section \<open>Reading the listing\<close>

definition lines_of :: "u8 list list \<Rightarrow> u8 list list" where
  "lines_of ps = map (\<lambda>p. p @ [10]) ps"

definition good_path :: "u8 list \<Rightarrow> bool" where
  "good_path p \<longleftrightarrow> 10 \<notin> set p \<and> 0 \<notin> set p \<and> length p < 1023"

lemma fgets_line_path: "10 \<notin> set p \<Longrightarrow> length p < n \<Longrightarrow> fgets_line n (p @ 10 # r) = (p @ [10], r)"
proof (induction p arbitrary: n)
  case Nil
  then show ?case by (cases n) simp_all
next
  case (Cons c p)
  then show ?case by (cases n) auto
qed

declare fgets_lines.simps [simp del]

lemma fgets_lines_paths: "list_all good_path ps \<Longrightarrow> fgets_lines (concat (lines_of ps)) = lines_of ps"
proof (induction ps)
  case Nil
  then show ?case by (simp add: lines_of_def fgets_lines.simps)
next
  case (Cons p ps)
  have "fgets_line 1023 (p @ 10 # concat (lines_of ps)) = (p @ [10], concat (lines_of ps))"
    using Cons.prems by (intro fgets_line_path) (simp_all add: good_path_def)
  moreover have "concat (lines_of (p # ps)) = p @ 10 # concat (lines_of ps)" by (simp add: lines_of_def)
  ultimately show ?case using Cons by (subst fgets_lines.simps) (simp add: lines_of_def)
qed

text \<open>
  The names that the lines \<open>ls\<close> get when their nodes are allocated from \<open>k\<close> on: the line and what follows it in the memory that
  \<open>malloc\<close> returned, up to the first NUL. If there is no NUL behind a line, \<open>strlen\<close> runs out of the name.
\<close>

fun read_names :: "(nat \<Rightarrow> u8 list) \<Rightarrow> nat \<Rightarrow> u8 list list \<Rightarrow> u8 list list" where
  "read_names junk k [] = []"
| "read_names junk k (l # ls) = (l @ takeWhile (\<lambda>c. c \<noteq> 0) (drop (length l) (junk k))) # read_names junk (Suc k) ls"

fun names_end :: "(nat \<Rightarrow> u8 list) \<Rightarrow> nat \<Rightarrow> u8 list list \<Rightarrow> bool" where
  "names_end junk k [] = True"
| "names_end junk k (l # ls) = (0 \<in> set (drop (length l) (junk k)) \<and> names_end junk (Suc k) ls)"

lemma read_names_zero:
  assumes "\<And>x. junk x = replicate 1024 0"
  shows "list_all good_path ps \<Longrightarrow> names_end junk k (lines_of ps) \<and> read_names junk k (lines_of ps) = lines_of ps"
proof (induction ps arbitrary: k)
  case Nil
  then show ?case by (simp add: lines_of_def)
next
  case (Cons p ps)
  have "length p < 1023" using Cons.prems by (simp add: good_path_def)
  then have "1024 - Suc (length p) = Suc (1022 - length p)" by linarith
  then have "drop (Suc (length p)) (junk k) = 0 # replicate (1022 - length p) 0" by (simp add: assms)
  then show ?case using Cons by (simp add: lines_of_def)
qed

lemma butlast_lines: "map butlast (lines_of ps) = ps"
  by (induction ps) (simp_all add: lines_of_def)

lemma split_nul: "(0 :: u8) \<in> set xs \<Longrightarrow> \<exists>t. xs = takeWhile (\<lambda>c. c \<noteq> 0) xs @ 0 # t"
  by (induction xs) auto

lemma add_node:
  assumes r: "rep s xs P" and e: "0 \<notin> set e" "e \<noteq> []"
    and s1: "s1 = s\<lparr>fresh := fresh s + 1, nodes := (nodes s)(fresh s \<mapsto> \<lparr>f_no = no, f_name = e @ 0 # t, fl_next = a, fl_prev = b\<rparr>)\<rparr>"
  shows "\<exists>s'. list_add (fresh s) 0 s1 = Inr s' \<and> rep s' (fresh s # xs) (e # P) \<and> filecount s' = filecount s
    \<and> printed s' = printed s \<and> fresh s' = Suc (fresh s)"
proof -
  have new: "fresh s \<notin> set (0 # xs)" using r by (auto simp: rep_def)
  have "linked s1 (0 # xs @ [0]) = linked s (0 # xs @ [0])"
    using new by (intro linked_frame) (auto simp: s1 nx_def pv_def dest: in_set_butlastD)
  then have "ring s1 xs" using r by (simp add: rep_def ring_def)
  then obtain s' where s': "list_add (fresh s) 0 s1 = Inr s'" "ring s' (fresh s # xs)" "same_names s1 s'"
    using list_add_ring [of s1 xs "fresh s"] new by (auto simp: s1)
  have "nm s' x = nm s x" if "x \<in> set xs" for x using s'(3) that new by (auto simp: same_names_def s1 nm_def)
  then have "list_all2 (named s') xs P" using r list_all2_named [of xs s' s P] by (simp add: rep_def)
  moreover have "named s' (fresh s) e" using s'(3) e by (simp add: named_def same_names_def s1 nm_def)
  ultimately have "rep s' (fresh s # xs) (e # P)" using s'(2, 3) r by (auto simp: rep_def same_names_def s1)
  then show ?thesis using s'(1, 3) by (simp add: same_names_def s1)
qed

lemma loadfile_ok:
  "rep s xs P \<Longrightarrow> list_all good_path ps \<Longrightarrow> names_end junk (fresh s) (lines_of ps) \<Longrightarrow>
    \<exists>s' xs'. loadfile junk 0 (lines_of ps) no s = Inr (no + length ps, s')
      \<and> rep s' xs' (rev (read_names junk (fresh s) (lines_of ps)) @ P) \<and> filecount s' = filecount s \<and> printed s' = printed s"
proof (induction ps arbitrary: s xs P no)
  case Nil
  then show ?case by (auto simp: lines_of_def)
next
  case (Cons p ps)
  have g: "good_path p" using Cons.prems(2) by simp
  define r where "r = drop (Suc (length p)) (junk (fresh s))"
  define e where "e = (p @ [10]) @ takeWhile (\<lambda>c. c \<noteq> 0) r"
  have "0 \<in> set r" using Cons.prems(3) by (simp add: lines_of_def r_def)
  then obtain t where t: "r = takeWhile (\<lambda>c. c \<noteq> 0) r @ 0 # t" using split_nul by blast
  have z: "0 \<notin> set e" "e \<noteq> []" using g by (auto simp: e_def good_path_def dest: set_takeWhileD)
  define s1 where "s1 = s\<lparr>fresh := fresh s + 1, nodes := (nodes s)(fresh s \<mapsto> \<lparr>f_no = no, f_name = e @ 0 # t, fl_next = 0, fl_prev = 0\<rparr>)\<rparr>"
  have "takeWhile (\<lambda>c. c \<noteq> 0) (p @ [10]) = p @ [10]" unfolding takeWhile_eq_all_conv using g by (auto simp: good_path_def)
  moreover have "p @ 10 # r = e @ 0 # t" by (subst t) (simp add: e_def)
  ultimately have E: "loadfile junk 0 (lines_of (p # ps)) no s = rbind (list_add (fresh s) 0 s1) (loadfile junk 0 (lines_of ps) (no + 1))"
    by (simp add: lines_of_def s1_def Let_def r_def)
  obtain s2 where s2: "list_add (fresh s) 0 s1 = Inr s2" "rep s2 (fresh s # xs) (e # P)" "filecount s2 = filecount s" "printed s2 = printed s"
    "fresh s2 = Suc (fresh s)"
    using add_node [OF Cons.prems(1) z s1_def] by blast
  have "read_names junk (fresh s) (lines_of (p # ps)) = e # read_names junk (fresh s2) (lines_of ps)"
    by (simp add: lines_of_def e_def r_def s2(5))
  moreover have "names_end junk (fresh s2) (lines_of ps)" using Cons.prems(3) by (simp add: lines_of_def s2(5))
  ultimately show ?case using Cons.IH [OF s2(2), of "no + 1"] Cons.prems(2) s2 unfolding E by auto
qed

section \<open>Walking and printing\<close>

text \<open>The difference of the paths that are found and those that are listed: the new ones and those that are left.\<close>

fun diff :: "u8 list list \<Rightarrow> u8 list list \<Rightarrow> u8 list list \<times> u8 list list" where
  "diff [] P = ([], P)"
| "diff (w # ws) P = (let (a, r) = diff ws (drop_path w P) in (if w \<in> butlast ` set P then a else w # a, r))"

lemma diff_append: "diff (ws @ vs) P = (let (a, r) = diff ws P; (b, q) = diff vs r in (a @ b, q))"
  by (induction ws arbitrary: P) (auto simp: case_prod_beta Let_def)

lemma add_before_diff: "w \<notin># Q \<Longrightarrow> add_mset w (M - Q) = add_mset w M - Q"
  by (intro multiset_eqI) (auto simp: not_in_iff)

lemma diff_mset:
  "mset (fst (diff ws P)) = mset ws - mset (map butlast P)"
  "mset (map butlast (snd (diff ws P))) = mset (map butlast P) - mset ws" "mset (snd (diff ws P)) \<subseteq># mset P"
proof (induction ws arbitrary: P)
  case (Cons w ws)
  { case (1 P)
    let ?Q = "mset (map butlast P)"
    have "mset (map butlast (drop_path w P)) = ?Q - {#w#}" unfolding drop_path_paths by simp
    then have i: "mset (fst (diff ws (drop_path w P))) = mset ws - (?Q - {#w#})" using Cons.IH(1) by simp
    have m: "w \<in> butlast ` set P \<longleftrightarrow> w \<in># ?Q" by auto
    show ?case
    proof (cases "w \<in># ?Q")
      case True
      then obtain R where "?Q = add_mset w R" by (blast dest: multi_member_split)
      then show ?thesis using i True m by (simp add: case_prod_beta Let_def)
    next
      case False
      then have "add_mset w (mset ws - ?Q) = add_mset w (mset ws) - ?Q" by (rule add_before_diff)
      moreover have "mset (fst (diff (w # ws) P)) = add_mset w (mset (fst (diff ws (drop_path w P))))"
        using False m by (simp only: diff.simps Let_def case_prod_beta fst_conv if_False mset.simps)
      moreover have "?Q - {#w#} = ?Q" using False by (rule diff_single_trivial)
      ultimately show ?thesis unfolding i by (simp only: mset.simps)
    qed }
  { case (2 P)
    have "mset (map butlast (drop_path w P)) = mset (map butlast P) - {#w#}" unfolding drop_path_paths by simp
    then show ?case using Cons.IH(2) [of "drop_path w P"] by (simp add: case_prod_beta Let_def) }
  { case (3 P)
    show ?case using Cons.IH(3) [of "drop_path w P"] drop_path_sub [of w P] subset_mset.order_trans
      by (simp add: case_prod_beta Let_def) }
qed simp_all

lemma list_dir_ok:
  "listdir name d = Inr ls \<Longrightarrow> rep s xs P \<Longrightarrow> \<exists>ws r s' xs'. ls = lines_of ws \<and> list_dir 0 name d s = Inr (r, s')
     \<and> rep s' xs' (snd (diff ws P)) \<and> filecount s' = filecount s + length ws
     \<and> printed s' = printed s @ map (\<lambda>w. bytes ''++++'' @ w @ [10]) (fst (diff ws P))"
  "listdir_entries name es = Inr ls \<Longrightarrow> rep s xs P \<Longrightarrow> \<exists>ws r s' xs'. ls = lines_of ws \<and> list_entries 0 name es s = Inr (r, s')
     \<and> rep s' xs' (snd (diff ws P)) \<and> filecount s' = filecount s + length ws
     \<and> printed s' = printed s @ map (\<lambda>w. bytes ''++++'' @ w @ [10]) (fst (diff ws P))"
proof (induction name d and name es arbitrary: ls s xs P and ls s xs P rule: listdir_listdir_entries.induct)
  case (4 name e es)
  show ?case
  proof (cases "hidden e")
    case True
    then show ?thesis using 4 by simp
  next
    case vis: False
    then have len: "\<not> 4096 \<le> length (join_path name (d_name e))" using "4.prems"(1) by (auto split: if_splits)
    show ?thesis
    proof (cases e)
      case (Gone n)
      then show ?thesis using "4.prems" vis len by (intro exI [of _ "[]"]) (auto simp: lines_of_def)
    next
      case (Other n)
      then show ?thesis using 4 vis len by simp
    next
      case (Reg n)
      then obtain ls' where ls: "listdir_entries name es = Inr ls'" "ls = (join_path name n @ [10]) # ls'"
        using "4.prems"(1) vis len by (auto simp: rbind_eq_Inr)
      have "rep (s\<lparr>filecount := filecount s + 1\<rparr>) xs P" by (rule rep_same [OF "4.prems"(2)]) simp_all
      from compare_ok [OF this, of "join_path name n"]
      obtain s1 xs1 where c: "compare 0 (join_path name n) (s\<lparr>filecount := filecount s + 1\<rparr>) = Inr s1"
        "rep s1 xs1 (drop_path (join_path name n) P)" "filecount s1 = filecount s + 1"
        "printed s1 = printed s @ (if join_path name n \<in> butlast ` set P then [] else [bytes ''++++'' @ join_path name n @ [10]])" by auto
      obtain ws r s' xs' where w: "ls' = lines_of ws" "list_entries 0 name es s1 = Inr (r, s')"
        "rep s' xs' (snd (diff ws (drop_path (join_path name n) P)))" "filecount s' = filecount s1 + length ws"
        "printed s' = printed s1 @ map (\<lambda>w. bytes ''++++'' @ w @ [10]) (fst (diff ws (drop_path (join_path name n) P)))"
        using "4.IH"(2) [OF vis len Reg ls(1) c(2)] by auto
      show ?thesis
        using vis len Reg ls w c by (intro exI [of _ "join_path name n # ws"] exI [of _ r] exI [of _ s'] exI [of _ xs'])
          (auto simp: lines_of_def case_prod_beta Let_def)
    next
      case (Dir n d)
      then obtain a b where ls: "listdir (join_path name n) d = Inr a" "listdir_entries name es = Inr b" "ls = a @ b"
        using "4.prems"(1) vis len by (auto simp: rbind_eq_Inr)
      obtain ws r s1 xs1 where w: "a = lines_of ws" "list_dir 0 (join_path name n) d s = Inr (r, s1)" "rep s1 xs1 (snd (diff ws P))"
        "filecount s1 = filecount s + length ws" "printed s1 = printed s @ map (\<lambda>w. bytes ''++++'' @ w @ [10]) (fst (diff ws P))"
        using "4.IH"(3) [OF vis len Dir ls(1) "4.prems"(2)] by blast
      obtain vs q s2 xs2 where v: "b = lines_of vs" "list_entries 0 name es s1 = Inr (q, s2)" "rep s2 xs2 (snd (diff vs (snd (diff ws P))))"
        "filecount s2 = filecount s1 + length vs" "printed s2 = printed s1 @ map (\<lambda>w. bytes ''++++'' @ w @ [10]) (fst (diff vs (snd (diff ws P))))"
        using "4.IH"(4) [OF vis len Dir ls(1) ls(2) w(3)] by blast
      show ?thesis
        using vis len Dir ls w v by (intro exI [of _ "ws @ vs"] exI [of _ q] exI [of _ s2] exI [of _ xs2])
          (auto simp: lines_of_def diff_append case_prod_beta Let_def)
    qed
  qed
qed (auto simp: lines_of_def)

lemma list_delete_file_ok:
  "rep s (ys @ zs) (A @ B) \<Longrightarrow> length ys = length A \<Longrightarrow> length zs < fuel \<Longrightarrow>
    list_delete_file fuel 0 (hd (zs @ [0])) s = Inr (s\<lparr>printed := printed s @ map (\<lambda>e. bytes ''----'' @ e) B\<rparr>)"
proof (induction zs arbitrary: s ys A B fuel)
  case Nil
  have "B = []" using Nil.prems(1, 2) list_all2_lengthD by (fastforce simp: rep_def)
  then show ?case using Nil.prems(3) by (cases fuel) simp_all
next
  case (Cons z zs)
  obtain g where g: "fuel = Suc g" using Cons.prems(3) by (cases fuel) auto
  have r: "ring s (ys @ z # zs)" "list_all2 (named s) (ys @ z # zs) (A @ B)" using Cons.prems(1) by (simp_all add: rep_def)
  have "list_all2 (named s) (z # zs) B" using r(2) Cons.prems(2) by (simp add: list_all2_append)
  then obtain b B' where B: "B = b # B'" "named s z b" by (cases B) auto
  obtain n where n: "z \<noteq> 0" "nodes s z = Some n" "fl_next n = hd (zs @ [0])" using ring_next [OF r(1)] by blast
  note N = namedD [OF B(2) n(2)]
  define s1 where "s1 = print (bytes ''----'' @ b) s"
  have "rep s1 ((ys @ [z]) @ zs) ((A @ [b]) @ B')"
    by (rule rep_same [of s]) (use Cons.prems(1) B(1) in \<open>simp_all add: s1_def print_def\<close>)
  then have "list_delete_file g 0 (hd (zs @ [0])) s1 = Inr (s1\<lparr>printed := printed s1 @ map (\<lambda>e. bytes ''----'' @ e) B'\<rparr>)"
    using Cons.IH [of s1 "ys @ [z]" "A @ [b]" B' g] Cons.prems(2, 3) g by simp
  then show ?case using n N by (simp add: g B(1) node_def s1_def [symmetric]) (simp add: s1_def print_def)
qed

lemma free_list_ok:
  "rep s xs P \<Longrightarrow> length xs < fuel \<Longrightarrow> \<exists>s'. free_list fuel 0 (hd (xs @ [0])) s = Inr s' \<and> rep s' [] [] \<and> same_rest s s'"
proof (induction xs arbitrary: s P fuel)
  case Nil
  then have "P = []" by (simp add: rep_def)
  then show ?case using Nil by (cases fuel) (simp_all add: same_rest_def)
next
  case (Cons z zs)
  obtain g where g: "fuel = Suc g" using Cons.prems(2) by (cases fuel) auto
  obtain b B where B: "P = b # B" using Cons.prems(1) by (cases P) (auto simp: rep_def)
  have "ring s ([] @ z # zs)" using Cons.prems(1) by (simp add: rep_def)
  then obtain n where n: "z \<noteq> 0" "nodes s z = Some n" "fl_next n = hd (zs @ [0])" using ring_next by blast
  obtain s1 where s1: "rbind (list_del z s) (free_node z) = Inr s1" "rep s1 zs B" "same_rest s s1"
    using remove_node [of s "[]" z zs "[]" b B] Cons.prems(1) B by auto
  obtain s2 where s2: "list_del z s = Inr s2" "free_node z s2 = Inr s1" using s1(1) by (auto simp: rbind_eq_Inr)
  show ?case using Cons.IH [OF s1(2), of g] Cons.prems(2) g n s1(3) s2 by (auto simp: node_def same_rest_def)
qed

lemma rep_end: "rep s xs P \<Longrightarrow> list_delete_file (Suc (fresh s)) 0 (hd (xs @ [0])) s = Inr (s\<lparr>printed := printed s @ map (\<lambda>e. bytes ''----'' @ e) P\<rparr>)"
  using list_delete_file_ok [of s "[]" xs "[]" P "Suc (fresh s)"] rep_length by simp

declare list_delete_file.simps [simp del] free_list.simps [simp del]

lemma main_result:
  assumes ps: "list_all good_path ps" "names_end junk 1 (lines_of ps)" and ws: "listdir name dir = Inr (lines_of ws)"
    and N: "N = rev (read_names junk 1 (lines_of ps))"
  shows "\<exists>s. main junk name dir (concat (lines_of ps)) = Inr (length ws, length ps, s) \<and> dom (nodes s) = {0}
    \<and> printed s = map (\<lambda>w. bytes ''++++'' @ w @ [10]) (fst (diff ws N)) @ map (\<lambda>e. bytes ''----'' @ e) (snd (diff ws N))"
proof -
  define s0 where "s0 = \<lparr>nodes = [0 \<mapsto> \<lparr>f_no = 0, f_name = [], fl_next = 0, fl_prev = 0\<rparr>], fresh = 1, filecount = 0, printed = []\<rparr>"
  obtain s1 where s1: "INIT_LIST_HEAD 0 s0 = Inr s1" "rep s1 [] []" "filecount s1 = 0" "printed s1 = []" "fresh s1 = 1"
    by (auto simp: INIT_LIST_HEAD_def put_next_def put_prev_def node_def s0_def rep_def ring_def link_def nx_def pv_def)
  obtain s2 xs2 where s2: "loadfile junk 0 (lines_of ps) 0 s1 = Inr (length ps, s2)" "rep s2 xs2 N" "filecount s2 = 0" "printed s2 = []"
    using loadfile_ok [OF s1(2) ps(1), of junk 0] ps(2) s1(3-5) N by auto
  have inj: "ws' = ws" if "lines_of ws = lines_of ws'" for ws' using that by (auto simp: lines_of_def inj_on_def dest!: map_injective)
  obtain r s3 xs3 where s3: "list_dir 0 name dir s2 = Inr (r, s3)" "rep s3 xs3 (snd (diff ws N))" "filecount s3 = length ws"
    "printed s3 = map (\<lambda>w. bytes ''++++'' @ w @ [10]) (fst (diff ws N))"
    using list_dir_ok(1) [OF ws s2(2)] s2(3, 4) inj by auto
  obtain h where h: "node 0 s3 = Inr h" "fl_next h = hd (xs3 @ [0])" using rep_head [OF s3(2)] by blast
  define s4 where "s4 = s3\<lparr>printed := printed s3 @ map (\<lambda>e. bytes ''----'' @ e) (snd (diff ws N))\<rparr>"
  have s4: "list_delete_file (Suc (fresh s3)) 0 (fl_next h) s3 = Inr s4" unfolding s4_def h(2) by (rule rep_end [OF s3(2)])
  have r4: "rep s4 xs3 (snd (diff ws N))" by (rule rep_same [OF s3(2)]) (simp_all add: s4_def)
  obtain k where k: "node 0 s4 = Inr k" "fl_next k = hd (xs3 @ [0])" using rep_head [OF r4] by blast
  obtain s5 where s5: "free_list (Suc (fresh s4)) 0 (fl_next k) s4 = Inr s5" "rep s5 [] []" "same_rest s4 s5"
    using free_list_ok [OF r4 rep_length [OF r4]] k(2) by auto
  have "main junk name dir (concat (lines_of ps)) = Inr (length ws, length ps, s5)"
    unfolding main_def Let_def s0_def [symmetric] fgets_lines_paths [OF ps(1)] s1(1) rbind_Inr s2(1) prod.case s3(1) h(1) s4 k(1) s5(1)
    using s5(3) s3(3) by (simp add: same_rest_def s4_def)
  moreover have "dom (nodes s5) = {0}" using s5(2) by (simp add: rep_def)
  ultimately show ?thesis using s5(3) s3(4) by (auto simp: same_rest_def s4_def)
qed

text \<open>C19: The comparison prints the difference of the tree and the listing: each path that is found more often than listed is
  printed as new, each name that is listed more often than found is printed as gone, with their multiplicities; it ends without
  a fault, all nodes are freed, and the counts are those of the files found and of the lines of the listing. The names compared
  are those the nodes hold: a line is copied without its NUL, so that a name goes on with what \<open>malloc\<close> left in memory up to the
  first NUL, which must be there; if this memory is zero, the names are the lines of the listing.\<close>

theorem tree_difference_correct:
  assumes "list_all good_path ps" "listdir name dir = Inr (lines_of ws)" "names_end junk 1 (lines_of ps)"
    and "names = read_names junk 1 (lines_of ps)"
  shows "\<exists>s added gone. main junk name dir (concat (lines_of ps)) = Inr (length ws, length ps, s) \<and> dom (nodes s) = {0}
    \<and> printed s = map (\<lambda>w. bytes ''++++'' @ w @ [10]) added @ map (\<lambda>e. bytes ''----'' @ e) gone
    \<and> mset added = mset ws - mset (map butlast names)
    \<and> mset gone \<subseteq># mset names \<and> mset (map butlast gone) = mset (map butlast names) - mset ws
    \<and> ((\<forall>x. junk x = replicate 1024 0) \<longrightarrow> names = lines_of ps \<and> map butlast names = ps)"
proof -
  have m: "mset (map butlast (rev names)) = mset (map butlast names)" by (simp add: rev_map)
  note d = diff_mset [of ws "rev names", unfolded m]
  obtain s where "main junk name dir (concat (lines_of ps)) = Inr (length ws, length ps, s)" "dom (nodes s) = {0}"
    "printed s = map (\<lambda>w. bytes ''++++'' @ w @ [10]) (fst (diff ws (rev names))) @ map (\<lambda>e. bytes ''----'' @ e) (snd (diff ws (rev names)))"
    using main_result [OF assms(1,3,2), of "rev names"] assms(4) by auto
  moreover have "(\<forall>x. junk x = replicate 1024 0) \<longrightarrow> names = lines_of ps \<and> map butlast names = ps"
    using read_names_zero [of junk ps, where k = 1] assms(1,4) butlast_lines by simp
  ultimately show ?thesis using d by (intro exI [of _ s]) auto
qed

text \<open>A tree that is compared with the listing \<open>stat\<close> has printed of it has no differences, and the counts agree,
  when \<open>malloc\<close> returns zeroed memory.\<close>

lemma stat_then_list:
  assumes "\<And>x. junk x = replicate 1024 0" "listdir name dir = Inr (lines_of ws)" "list_all good_path ws"
  shows "\<exists>s. main junk name dir (concat (lines_of ws)) = Inr (length ws, length ws, s) \<and> printed s = [] \<and> dom (nodes s) = {0}"
proof -
  note z = read_names_zero [OF assms(1,3), where k = 1]
  have "map butlast (rev (lines_of ws)) = rev ws" by (simp only: rev_map [symmetric] butlast_lines)
  then have "mset (map butlast (rev (lines_of ws))) = mset ws" by (simp only: mset_rev)
  then have "fst (diff ws (rev (lines_of ws))) = []" "snd (diff ws (rev (lines_of ws))) = []"
    using diff_mset(1,2) [of ws "rev (lines_of ws)"] by simp_all
  then show ?thesis using main_result [OF assms(3) _ assms(2) refl, of junk] z by auto
qed

definition demo_tree :: "entry list option" where
  "demo_tree = Some [Reg (bytes ''a''), Dir (bytes ''d'') (Some [Reg (bytes ''b'')]), Reg (bytes ''.h''), Other (bytes ''l'')]"

lemma demo_walk: "listdir (bytes ''t'') demo_tree = Inr (lines_of [bytes ''t/a'', bytes ''t/d/b''])"
  by (simp add: demo_tree_def hidden_def join_path_def bytes_def lines_of_def)

lemma demo_paths: "list_all good_path [bytes ''t/a'', bytes ''t/d/b'']" "list_all good_path [bytes ''t/x'', bytes ''t/a'']"
  by (simp_all add: good_path_def bytes_def)

definition dirty_memory :: "nat \<Rightarrow> u8 list" where
  "dirty_memory k = (if k = 1 then [65, 66, 67, 68, 69, 70, 71] @ replicate 1017 0 else replicate 1024 0)"

theorem tree_difference_correct_witness:
  "\<exists>s. main dirty_memory (bytes ''t'') demo_tree (bytes ''t/x'' @ [10] @ bytes ''t/a'' @ [10]) = Inr (2, 2, s)
    \<and> printed s = [bytes ''++++t/d/b'' @ [10], bytes ''----t/x'' @ [10] @ [69, 70, 71]]"
proof -
  let ?x = "bytes ''t/x''" and ?a = "bytes ''t/a''" and ?b = "bytes ''t/d/b''" and ?X = "bytes ''t/x'' @ [10] @ [69, 70, 71]"
  have l: "?x @ [10] @ ?a @ [10] = concat (lines_of [?x, ?a])" by (simp add: lines_of_def)
  have n: "names_end dirty_memory 1 (lines_of [?x, ?a])" "read_names dirty_memory 1 (lines_of [?x, ?a]) = [?X, ?a @ [10]]"
    by (simp_all add: lines_of_def bytes_def dirty_memory_def)
  have bl: "butlast ?X = ?x @ [10, 69, 70]" by (simp add: bytes_def)
  have d: "?x @ [10, 69, 70] \<noteq> ?a" "?x @ [10, 69, 70] \<noteq> ?b" "?a \<noteq> ?b" by (simp_all add: bytes_def)
  have m: "mset [?a, ?b] - mset (map butlast [?X, ?a @ [10]]) = {#?b#}"
    "mset (map butlast [?X, ?a @ [10]]) - mset [?a, ?b] = {#?x @ [10, 69, 70]#}"
    using d bl by simp_all
  obtain s added gone where s: "main dirty_memory (bytes ''t'') demo_tree (concat (lines_of [?x, ?a])) = Inr (length [?a, ?b], length [?x, ?a], s)"
    "printed s = map (\<lambda>w. bytes ''++++'' @ w @ [10]) added @ map (\<lambda>e. bytes ''----'' @ e) gone"
    "mset added = {#?b#}" "mset gone \<subseteq># mset [?X, ?a @ [10]]" "mset (map butlast gone) = {#?x @ [10, 69, 70]#}"
    using tree_difference_correct [OF demo_paths(2) demo_walk n(1) n(2) [symmetric]] unfolding m by (elim exE conjE) (rule that)
  have "added = [?b]" using s(3) by simp
  have "length (map butlast gone) = 1" using s(5) by (metis size_mset size_single)
  then obtain e where e: "gone = [e]" by (auto simp: length_Suc_conv)
  then have be: "butlast e = ?x @ [10, 69, 70]" using s(5) by simp
  have "e \<in># mset [?X, ?a @ [10]]" using mset_subset_eqD [OF s(4), of e] e by simp
  then have "e = ?X \<or> e = ?a @ [10]" by simp
  then have "e = ?X" using be d(1) by (metis butlast_snoc)
  with \<open>added = [?b]\<close> e s(2) have "printed s = [bytes ''++++'' @ ?b @ [10], bytes ''----'' @ ?X]" by simp
  then have "printed s = [bytes ''++++t/d/b'' @ [10], bytes ''----t/x'' @ [10] @ [69, 70, 71]]" by (simp add: bytes_def)
  then show ?thesis using s(1) unfolding l by auto
qed

theorem stat_then_list_witness:
  "\<exists>s. main (\<lambda>_. replicate 1024 0) (bytes ''t'') demo_tree (concat (lines_of [bytes ''t/a'', bytes ''t/d/b''])) = Inr (2, 2, s) \<and> printed s = []"
  using stat_then_list [of "\<lambda>_. replicate 1024 0", OF refl demo_walk demo_paths(1)] by auto

text \<open>The name of a node is copied without a NUL: when the memory that \<open>malloc\<close> returns is not zero, a file that is in the tree
  and in the listing is printed as new and, with the bytes that happen to follow in memory, as gone.\<close>

lemma listing_without_nul:
  "\<exists>s. main (\<lambda>_. [65, 66, 67, 68, 69, 70, 71] @ replicate 1017 0) (bytes ''t'') (Some [Reg (bytes ''a'')]) (bytes ''t/a'' @ [10]) = Inr (1, 1, s)
    \<and> printed s = [bytes ''++++t/a'' @ [10], bytes ''----t/a'' @ [10] @ [69, 70, 71]]"
proof -
  define r where "r = main (\<lambda>_. [65, 66, 67, 68, 69, 70, 71] @ replicate 1017 0) (bytes ''t'') (Some [Reg (bytes ''a'')]) (bytes ''t/a'' @ [10])"
  have "(case r of Inl f \<Rightarrow> False | Inr (n, k, s) \<Rightarrow> n = 1 \<and> k = 1 \<and> printed s = [bytes ''++++t/a'' @ [10], bytes ''----t/a'' @ [10] @ [69, 70, 71]])"
    unfolding r_def by code_simp
  then show ?thesis unfolding r_def [symmetric] by (auto split: sum.splits)
qed

end
