(* ===== verification/Uevent_Props.thy ===== *)
theory Uevent_Props
  imports Uevent "HOL-Library.Sublist"
begin

text \<open>
  What the daemon of \<open>Uevent\<close> makes of a message: it never reads beyond the buffer, and the event depends only on the strings
  of the message; what the slot driver reports arrives.
\<close>

section \<open>Strings in the buffer\<close>

lemma at_drop: "drop p msg = c # t \<Longrightarrow> at msg p = Inr c"
  by (metis at_def drop_all hd_drop_conv_nth list.distinct(1) list.sel(1) not_le)

lemma drop_step: "drop p msg = c # t \<Longrightarrow> drop (Suc p) msg = t"
  by (metis drop_Suc list.sel(3) tl_drop)

lemma bytes_no_nul: "0 \<notin> set (bytes ''ACTION='')" "0 \<notin> set (bytes ''DEVPATH='')" "0 \<notin> set (bytes ''SUBSYSTEM='')"
  "0 \<notin> set (bytes ''SLOT='')" "0 \<notin> set (bytes ''MAJOR='')" "0 \<notin> set (bytes ''MINOR='')"
  by (simp_all add: bytes_def)

lemma bytes_length: "length (bytes s) = length s"
  by (simp add: bytes_def)

lemma has_prefix_eq:
  "drop p msg = s @ 0 # t \<Longrightarrow> 0 \<notin> set lit \<Longrightarrow> has_prefix msg p lit = Inr (prefix lit s)"
proof (induction lit arbitrary: p s)
  case (Cons c lit)
  show ?case
  proof (cases s)
    case Nil
    then have "at msg p = Inr 0" using Cons.prems(1) by (intro at_drop) simp
    then show ?thesis using Cons.prems(2) Nil by auto
  next
    case (Cons d s')
    then have a: "at msg p = Inr d" "drop (Suc p) msg = s' @ 0 # t" using Cons.prems(1) at_drop drop_step by fastforce+
    then show ?thesis using Cons.IH [OF a(2)] Cons.prems(2) \<open>s = d # s'\<close> by auto
  qed
qed simp

lemma drop_within: "drop p msg = s @ 0 # t \<Longrightarrow> k \<le> length s \<Longrightarrow> drop (p + k) msg = drop k s @ 0 # t"
  by (metis add.commute diff_is_0_eq drop_0 drop_append drop_drop)

lemma drop_past: "drop p msg = s @ 0 # t \<Longrightarrow> drop (Suc (p + length s)) msg = t"
proof -
  assume a: "drop p msg = s @ 0 # t"
  have "drop (Suc (p + length s)) msg = drop (Suc (length s)) (drop p msg)" by (simp add: add.commute)
  then show ?thesis by (simp add: a)
qed

lemma string_at_drop: "drop p msg = s @ 0 # t \<Longrightarrow> 0 \<notin> set s \<Longrightarrow> k \<le> length s \<Longrightarrow> string_at msg (p + k) = drop k s"
proof -
  assume a: "drop p msg = s @ 0 # t" "0 \<notin> set s" "k \<le> length s"
  have "drop (p + k) msg = drop k s @ 0 # t" using a(1, 3) by (rule drop_within)
  moreover have "\<And>c. c \<in> set (drop k s) \<Longrightarrow> c \<noteq> 0" using a(2) in_set_dropD by metis
  ultimately show ?thesis by (simp add: string_at_def takeWhile_append2)
qed

lemma after_nul_end:
  "drop p msg = s @ 0 # t \<Longrightarrow> 0 \<notin> set s \<Longrightarrow> length s < fuel \<Longrightarrow> after_nul msg fuel p = Inr (Suc (p + length s))"
proof (induction s arbitrary: p fuel)
  case Nil
  then show ?case using at_drop [of p msg 0 t] by (cases fuel) simp_all
next
  case (Cons c s)
  obtain g where g: "fuel = Suc g" using Cons.prems(3) by (cases fuel) auto
  have "at msg p = Inr c" "drop (Suc p) msg = s @ 0 # t" using Cons.prems(1) by (auto intro: at_drop drop_step)
  then show ?case using Cons.IH [of "Suc p" g] Cons.prems g by simp
qed

section \<open>The strings of a message\<close>

function strings :: "u8 list \<Rightarrow> u8 list list" where
  "strings w =
     (let s = takeWhile (\<lambda>c. c \<noteq> 0) w
      in if s = [] then [] else s # strings (drop (Suc (length s)) w))"
  by pat_completeness auto
termination by (relation "measure length") (auto simp: takeWhile_eq_Nil_iff intro!: diff_less)

declare strings.simps [simp del]

type_synonym event_view = "u8 list \<times> u8 list \<times> u8 list \<times> u8 list \<times> int \<times> int"

definition set_field :: "nat \<Rightarrow> u8 list \<Rightarrow> event_view \<Rightarrow> event_view" where
  "set_field z s = (\<lambda>(a, d, u, f, ma, mi).
     if prefix (bytes ''ACTION='') s then (drop 7 s, d, u, f, ma, mi)
     else if prefix (bytes ''DEVPATH='') s then (a, drop 8 s, u, f, ma, mi)
     else if prefix (bytes ''SUBSYSTEM='') s then (a, d, drop 10 s, f, ma, mi)
     else if prefix (bytes ''SLOT='') s then (a, d, u, drop 5 s, ma, mi)
     else if prefix (bytes ''MAJOR='') s then (a, d, u, f, atoi z (drop 6 s), mi)
     else if prefix (bytes ''MINOR='') s then (a, d, u, f, ma, atoi z (drop 6 s))
     else (a, d, u, f, ma, mi))"

definition field_view :: "u8 list \<Rightarrow> nat option \<Rightarrow> u8 list" where
  "field_view msg q = (case q of None \<Rightarrow> [] | Some p \<Rightarrow> string_at msg p)"

definition view :: "u8 list \<Rightarrow> uevent \<Rightarrow> event_view" where
  "view msg ev = (field_view msg (action ev), field_view msg (path ev), field_view msg (subsystem ev), field_view msg (firmware ev),
     major ev, minor ev)"

lemma parse_field_view:
  assumes "drop p msg = s @ 0 # t" "0 \<notin> set s"
  shows "\<exists>k ev'. parse_field z msg p ev = Inr (p + k, ev') \<and> k \<le> length s \<and> view msg ev' = set_field z s (view msg ev)"
proof -
  have len: "length l \<le> length s" if "prefix l s" for l using that by (rule prefix_length_le)
  note P = bytes_no_nul [THEN has_prefix_eq [OF assms(1)]]
  note S = string_at_drop [OF assms]
  show ?thesis unfolding parse_field_def P rbind_Inr
    using len [of "bytes ''ACTION=''"] len [of "bytes ''DEVPATH=''"] len [of "bytes ''SUBSYSTEM=''"] len [of "bytes ''SLOT=''"]
      len [of "bytes ''MAJOR=''"] len [of "bytes ''MINOR=''"]
    by (auto simp: set_field_def view_def field_view_def bytes_length S intro: exI [of _ 0])
qed

lemma take_string: "0 \<notin> set s \<Longrightarrow> takeWhile (\<lambda>c. c \<noteq> 0) (s @ 0 # w) = s" "0 \<notin> set s \<Longrightarrow> takeWhile (\<lambda>c. c \<noteq> 0) s = s"
  for s w :: "u8 list"
  by (induction s) auto

lemma strings_cons: "s \<noteq> [] \<Longrightarrow> 0 \<notin> set s \<Longrightarrow> strings (s @ 0 # w) = s # strings w"
  by (subst strings.simps, subst (1) take_string(1)) (simp_all add: Let_def)

lemma strings_last: "s \<noteq> [] \<Longrightarrow> 0 \<notin> set s \<Longrightarrow> strings s = [s]"
  by (subst strings.simps, subst (1) take_string(2)) (simp_all add: Let_def strings.simps [of "[]"])

lemma strings_nil: "strings [] = []" "strings (0 # w) = []"
  by (simp_all add: strings.simps)

lemma parse_fields_view:
  assumes "drop p msg = w @ 0 # 0 # t \<or> w = [] \<and> drop p msg = 0 # t" "length msg < p + fuel"
  shows "\<exists>ev'. parse_fields z msg fuel p ev = Inr ev' \<and> view msg ev' = fold (set_field z) (strings w) (view msg ev)"
  using assms
proof (induction fuel arbitrary: p w ev)
  case 0
  then show ?case by auto
next
  case (Suc fuel)
  define s where "s = takeWhile (\<lambda>c. c \<noteq> 0) w"
  have s0: "0 \<notin> set s" unfolding s_def using set_takeWhileD by fastforce
  show ?case
  proof (cases "s = []")
    case True
    then have w: "w = [] \<or> (\<exists>v. w = 0 # v)" unfolding s_def by (cases w) (auto split: if_splits)
    then obtain u where "drop p msg = 0 # u" using Suc.prems(1) by auto
    then have "at msg p = Inr 0" by (rule at_drop)
    moreover have "strings w = []" using w strings_nil by auto
    ultimately show ?thesis by simp
  next
    case False
    then have d: "drop p msg = w @ 0 # 0 # t" using Suc.prems(1) by (auto simp: s_def)
    define w' where "w' = (if w = s then [] else drop (Suc (length s)) w)"
    have w: "w = s \<or> w = s @ 0 # w'"
    proof (cases "dropWhile (\<lambda>c. c \<noteq> 0) w")
      case Nil
      have "w = takeWhile (\<lambda>c. c \<noteq> 0) w @ dropWhile (\<lambda>c. c \<noteq> 0) w" by (rule takeWhile_dropWhile_id [symmetric])
      then show ?thesis unfolding Nil s_def [symmetric] by simp
    next
      case (Cons c v)
      then have "c = 0" using hd_dropWhile [of "\<lambda>c. c \<noteq> 0" w] by simp
      have "w = takeWhile (\<lambda>c. c \<noteq> 0) w @ dropWhile (\<lambda>c. c \<noteq> 0) w" by (rule takeWhile_dropWhile_id [symmetric])
      then have e: "w = s @ 0 # v" unfolding Cons s_def [symmetric] \<open>c = 0\<close> .
      have "w' = v" unfolding w'_def e by simp
      then show ?thesis using e by blast
    qed
    obtain u where u: "drop p msg = s @ 0 # u" "drop (Suc (p + length s)) msg = w' @ 0 # 0 # t \<or> w' = [] \<and> drop (Suc (p + length s)) msg = 0 # t"
    proof (cases "w = s")
      case True
      then have "drop (Suc (p + length s)) msg = 0 # t" using d drop_past by simp
      then show ?thesis using that [of "0 # t"] d True by (simp add: w'_def)
    next
      case False
      then have e: "w = s @ 0 # w'" using w by simp
      then have "drop p msg = s @ 0 # (w' @ 0 # 0 # t)" using d by simp
      moreover from this have "drop (Suc (p + length s)) msg = w' @ 0 # 0 # t"
        by (rule drop_past)
      ultimately show ?thesis using that by blast
    qed
    obtain k ev' where f: "parse_field z msg p ev = Inr (p + k, ev')" "k \<le> length s" "view msg ev' = set_field z s (view msg ev)"
      using parse_field_view [OF u(1) s0] by blast
    have dk: "drop (p + k) msg = drop k s @ 0 # u" using u(1) f(2) by (rule drop_within)
    have "length s < length msg" using arg_cong [OF u(1), of length] by simp
    then have a: "after_nul msg (Suc (length msg)) (p + k) = Inr (Suc (p + length s))"
    proof -
      have "0 \<notin> set (drop k s)" using s0 by (meson in_set_dropD)
      moreover have "length (drop k s) < Suc (length msg)" using \<open>length s < length msg\<close> by simp
      ultimately show ?thesis using f(2) by (subst after_nul_end [OF dk]) simp_all
    qed
    obtain c where c: "at msg p = Inr c" "c \<noteq> 0" using u(1) s0 False at_drop by (cases s) auto
    have st: "strings w = s # strings w'"
      using w strings_cons [OF False s0, of w'] strings_last [OF False s0] strings_nil by (auto simp: w'_def)
    have "length msg < Suc (p + length s) + fuel" using Suc.prems(2) False by (cases s) auto
    from Suc.IH [OF u(2) this, of ev'] show ?thesis using c f a by (auto simp: st)
  qed
qed

definition no_event :: event_view where
  "no_event = ([], [], [], [], - 1, - 1)"

text \<open>The two numbers of an event are C integers.\<close>

definition numbers_fit :: "event_view \<Rightarrow> bool" where
  "numbers_fit v \<longleftrightarrow> (case v of (a, d, u, f, ma, mi) \<Rightarrow> ma \<in> {- (2 ^ 31)..<2 ^ 31} \<and> mi \<in> {- (2 ^ 31)..<2 ^ 31})"

lemma atoi_range: "atoi z s \<in> {- (2 ^ 31)..<2 ^ 31}"
  using sint_greater_eq [of "of_int (strtol z s) :: u32"] sint_less [of "of_int (strtol z s) :: u32"] by (simp add: atoi_def)

lemma fold_field_range: "numbers_fit (fold (set_field z) ss no_event)"
proof -
  have "numbers_fit v \<Longrightarrow> numbers_fit (fold (set_field z) ss v)" for v
  proof (induction ss arbitrary: v)
    case (Cons s ss)
    have "numbers_fit (set_field z s v)"
      using Cons.prems atoi_range [of z "drop 6 s"] by (auto simp: numbers_fit_def set_field_def split: prod.splits)
    then show ?case using Cons.IH by simp
  qed simp
  then show ?thesis by (simp add: numbers_fit_def no_event_def)
qed

lemma parse_event_view: "\<exists>ev. parse_event z (w @ 0 # 0 # t) = Inr ev \<and> view (w @ 0 # 0 # t) ev = fold (set_field z) (strings w) no_event"
proof -
  define msg where "msg = w @ 0 # 0 # t"
  have "view msg \<lparr>action = None, path = None, subsystem = None, firmware = None, major = -1, minor = -1\<rparr> = no_event"
    by (simp add: view_def field_view_def no_event_def)
  then show ?thesis unfolding parse_event_def msg_def [symmetric]
    using parse_fields_view [of 0 msg w t "Suc (length msg)" z] msg_def by (metis add_0 drop_0 lessI)
qed

lemma receive_view:
  assumes "length msg = UEVENT_MSG_LEN + 2" "length packet < UEVENT_MSG_LEN" "packet \<noteq> []"
  shows "\<exists>msg' ev. receive z packet msg = Inr (msg', Some ev) \<and> length msg' = length msg
    \<and> view msg' ev = fold (set_field z) (strings packet) no_event"
proof -
  define n where "n = length packet"
  define t where "t = drop (n + 2) msg"
  have l: "Suc n < length msg" using assms by (simp add: n_def UEVENT_MSG_LEN_def)
  have "drop n msg = msg ! n # msg ! Suc n # t"
    using l by (simp add: t_def Cons_nth_drop_Suc)
  then have m: "(packet @ drop n msg)[n := 0, n + 1 := 0] = packet @ 0 # 0 # t" by (simp add: n_def list_update_append)
  obtain ev where "parse_event z (packet @ 0 # 0 # t) = Inr ev" "view (packet @ 0 # 0 # t) ev = fold (set_field z) (strings packet) no_event"
    using parse_event_view [of z packet t] by blast
  moreover have "length (packet @ 0 # 0 # t) = length msg" using l by (simp add: t_def n_def)
  ultimately show ?thesis using assms(2, 3) m by (auto simp: receive_def Let_def n_def)
qed

text \<open>C20: The daemon takes every packet that \<open>recv\<close> can put into its buffer, whatever the buffer held before, without reading
  beyond the two NULs it puts behind the packet. An empty packet and one of 4096 bytes are dropped. From any other one it makes
  an event that has, for each of the six names, the text behind the last of the packet's strings that starts with it, up to the
  first empty string; the major and minor numbers are the C integers that \<open>atoi\<close> makes of these texts.\<close>

theorem receive_correct:
  assumes "length msg = UEVENT_MSG_LEN + 2" "length packet \<le> UEVENT_MSG_LEN"
  shows "\<exists>msg' r. receive z packet msg = Inr (msg', r) \<and> length msg' = length msg
    \<and> (case r of None \<Rightarrow> packet = [] \<or> length packet = UEVENT_MSG_LEN
       | Some ev \<Rightarrow> packet \<noteq> [] \<and> length packet < UEVENT_MSG_LEN \<and> view msg' ev = fold (set_field z) (strings packet) no_event
           \<and> major ev \<in> {- (2 ^ 31)..<2 ^ 31} \<and> minor ev \<in> {- (2 ^ 31)..<2 ^ 31})"
proof (cases "packet = [] \<or> length packet = UEVENT_MSG_LEN")
  case True
  then have "receive z packet msg = Inr (packet @ drop (length packet) msg, None)" by (auto simp: receive_def Let_def)
  with True assms show ?thesis by (auto simp: UEVENT_MSG_LEN_def)
next
  case False
  then obtain msg' ev where r: "receive z packet msg = Inr (msg', Some ev)" "length msg' = length msg"
    "view msg' ev = fold (set_field z) (strings packet) no_event"
    using receive_view [OF assms(1), of packet z] assms(2) by auto
  have "major ev \<in> {- (2 ^ 31)..<2 ^ 31} \<and> minor ev \<in> {- (2 ^ 31)..<2 ^ 31}"
    using fold_field_range [of z "strings packet"] unfolding r(3) [symmetric] by (simp add: numbers_fit_def view_def)
  with r False assms(2) show ?thesis by auto
qed

theorem receive_correct_witness:
  "\<exists>msg' ev. receive 8 (bytes ''ACTION=add'' @ [0] @ bytes ''MAJOR=4294967550'' @ [0] @ bytes ''SEQNUM=7'') (replicate 4098 65) = Inr (msg', Some ev)
    \<and> view msg' ev = (bytes ''add'', [], [], [], 254, - 1)"
proof -
  define pk where "pk = bytes ''ACTION=add'' @ [0] @ bytes ''MAJOR=4294967550'' @ [0] @ bytes ''SEQNUM=7''"
  have z: "0 \<notin> set (bytes ''ACTION=add'')" "0 \<notin> set (bytes ''MAJOR=4294967550'')" "0 \<notin> set (bytes ''SEQNUM=7'')"
    "bytes ''ACTION=add'' \<noteq> []" "bytes ''MAJOR=4294967550'' \<noteq> []" "bytes ''SEQNUM=7'' \<noteq> []" by (simp_all add: bytes_def)
  have s: "strings pk = [bytes ''ACTION=add'', bytes ''MAJOR=4294967550'', bytes ''SEQNUM=7'']"
    unfolding pk_def using z by (simp add: strings_cons strings_last)
  have v: "fold (set_field 8) [bytes ''ACTION=add'', bytes ''MAJOR=4294967550'', bytes ''SEQNUM=7''] no_event = (bytes ''add'', [], [], [], 254, - 1)"
    by (simp add: set_field_def no_event_def bytes_def atoi_def strtol_def scan_int_def is_space_def is_digit_def digits_value_def)
  have l: "length pk < UEVENT_MSG_LEN" "length (replicate 4098 (65 :: u8)) = UEVENT_MSG_LEN + 2" "pk \<noteq> []"
    by (simp_all add: pk_def bytes_def UEVENT_MSG_LEN_def)
  obtain msg' r where r: "receive 8 pk (replicate 4098 65) = Inr (msg', r)"
    "case r of None \<Rightarrow> pk = [] \<or> length pk = UEVENT_MSG_LEN
       | Some ev \<Rightarrow> pk \<noteq> [] \<and> length pk < UEVENT_MSG_LEN \<and> view msg' ev = fold (set_field 8) (strings pk) no_event
           \<and> major ev \<in> {- (2 ^ 31)..<2 ^ 31} \<and> minor ev \<in> {- (2 ^ 31)..<2 ^ 31}"
    using receive_correct [OF l(2) less_imp_le [OF l(1)], of 8] by blast
  then obtain ev where "r = Some ev" "view msg' ev = fold (set_field 8) (strings pk) no_event"
    using l(1, 3) by (cases r) auto
  then show ?thesis using r(1) unfolding s v pk_def [symmetric] by blast
qed

section \<open>From the driver to the daemon\<close>

definition encode :: "u8 list list \<Rightarrow> u8 list" where
  "encode ss = concat (map (\<lambda>s. s @ [0]) ss)"

lemma strings_encode: "list_all (\<lambda>s. s \<noteq> [] \<and> 0 \<notin> set s) ss \<Longrightarrow> strings (encode ss) = ss"
  by (induction ss) (simp_all add: encode_def strings_nil strings_cons)

lemma set_field_slot: "prefix (bytes ''SLOT='') s \<Longrightarrow> set_field z s (a, d, u, f, ma, mi) = (a, d, u, drop 5 s, ma, mi)"
  by (auto simp: set_field_def bytes_def prefix_def)

text \<open>What is written to the attribute of the slot driver arrives in the daemon: on a machine with 32-bit longs a number, 1 or
  another, makes the driver send an event, and the daemon that receives the kernel's message, the strings of the kernel
  followed by those of the driver, finds that a card was inserted or removed.\<close>

lemma slot_event_arrives:
  assumes "scan_int buf = Some v" "list_all (\<lambda>s. s \<noteq> [] \<and> 0 \<notin> set s) header" "length (encode header) < 4000"
    and "length msg = UEVENT_MSG_LEN + 2"
  shows "\<exists>env msg' ev a d u f ma mi. value_store 4 buf = Inr (env, length buf) \<and> receive 4 (encode (header @ env)) msg = Inr (msg', Some ev)
    \<and> fold (set_field 4) header no_event = (a, d, u, f, ma, mi)
    \<and> view msg' ev = (a, d, u, bytes (if (of_int v :: u32) = 1 then ''insert'' else ''remove''), ma, mi)"
proof -
  define s where "s = bytes (if (of_int v :: u32) = 1 then ''SLOT=insert'' else ''SLOT=remove'')"
  have env: "value_store 4 buf = Inr ([s], length buf)"
    using assms(1) by (auto simp: value_store_def slot_generate_event_def s_def)
  have s: "prefix (bytes ''SLOT='') s" "drop 5 s = bytes (if (of_int v :: u32) = 1 then ''insert'' else ''remove'')" "s \<noteq> []" "0 \<notin> set s" "length s = 11"
    by (auto simp: s_def bytes_def)
  have "length (encode (header @ [s])) < UEVENT_MSG_LEN" using assms(3) s(5) by (simp add: encode_def UEVENT_MSG_LEN_def)
  moreover have "encode (header @ [s]) \<noteq> []" by (simp add: encode_def)
  ultimately obtain msg' ev where r: "receive 4 (encode (header @ [s])) msg = Inr (msg', Some ev)"
    "view msg' ev = fold (set_field 4) (strings (encode (header @ [s]))) no_event"
    using receive_view [OF assms(4), of "encode (header @ [s])" 4] by blast
  have "strings (encode (header @ [s])) = header @ [s]" using assms(2) s(3, 4) by (intro strings_encode) simp
  then have v: "view msg' ev = set_field 4 s (fold (set_field 4) header no_event)" using r(2) by simp
  obtain a d u f ma mi where h: "fold (set_field 4) header no_event = (a, d, u, f, ma, mi)" by (metis prod.exhaust)
  show ?thesis using env r(1) h v set_field_slot [OF s(1)] s(2) by (intro exI conjI) auto
qed

theorem slot_event_arrives_witness:
  "\<exists>env msg' ev. value_store 4 [49, 10] = Inr (env, 2)
    \<and> receive 4 (encode ([bytes ''ACTION=change'', bytes ''SUBSYSTEM=slot''] @ env)) (replicate 4098 0) = Inr (msg', Some ev)
    \<and> view msg' ev = (bytes ''change'', [], bytes ''slot'', bytes ''insert'', - 1, - 1)"
proof -
  have n: "scan_int [49, 10] = Some 1" by (simp add: scan_int_def is_space_def is_digit_def digits_value_def)
  have h: "list_all (\<lambda>s. s \<noteq> [] \<and> 0 \<notin> set s) [bytes ''ACTION=change'', bytes ''SUBSYSTEM=slot'']" by (simp add: bytes_def)
  have l: "length (encode [bytes ''ACTION=change'', bytes ''SUBSYSTEM=slot'']) < 4000" "length (replicate 4098 (0 :: u8)) = UEVENT_MSG_LEN + 2"
    by (simp_all add: bytes_def encode_def UEVENT_MSG_LEN_def)
  have v: "fold (set_field 4) [bytes ''ACTION=change'', bytes ''SUBSYSTEM=slot''] no_event = (bytes ''change'', [], bytes ''slot'', [], - 1, - 1)"
    by (simp add: set_field_def no_event_def bytes_def)
  show ?thesis using slot_event_arrives [OF n h l] unfolding v by auto
qed

end
