(* ===== verification/Os_Task_Ext.thy ===== *)
theory Os_Task_Ext
  imports Os_Queue Os_Flag
begin

text \<open>
  The rest of task and event management of the uC/OS-II kernel: deleting a task, changing its priority,
  the queries, names, and pending on several events at once (\<open>os_task.c\<close>, \<open>os_core.c\<close>).
\<close>

abbreviation OS_STAT_MULTI :: u8 where "OS_STAT_MULTI \<equiv> 0x80"
abbreviation OS_ERR_PDATA_NULL :: u8 where "OS_ERR_PDATA_NULL \<equiv> 9"
abbreviation OS_ERR_EVENT_NAME_TOO_LONG :: u8 where "OS_ERR_EVENT_NAME_TOO_LONG \<equiv> 11"
abbreviation OS_ERR_PRIO :: u8 where "OS_ERR_PRIO \<equiv> 41"
abbreviation OS_ERR_TASK_DEL :: u8 where "OS_ERR_TASK_DEL \<equiv> 61"
abbreviation OS_ERR_TASK_DEL_IDLE :: u8 where "OS_ERR_TASK_DEL_IDLE \<equiv> 62"
abbreviation OS_ERR_TASK_DEL_REQ :: u8 where "OS_ERR_TASK_DEL_REQ \<equiv> 63"
abbreviation OS_ERR_TASK_DEL_ISR :: u8 where "OS_ERR_TASK_DEL_ISR \<equiv> 64"
abbreviation OS_ERR_TASK_NAME_TOO_LONG :: u8 where "OS_ERR_TASK_NAME_TOO_LONG \<equiv> 65"

section \<open>Deleting a task\<close>

text \<open>The task leaves the ready list and its wait lists and stops its delay; the two critical sections are
  one step, as the scheduler is locked in between.\<close>

definition OSTaskDel_disable :: "nat \<Rightarrow> os \<Rightarrow> os res" where
  "OSTaskDel_disable t s =
     rbind (make_unready t s) (\<lambda>s.
     rbind (case OSTCBEventPtr (OSTCBTbl s t) of None \<Rightarrow> Inr s | Some e \<Rightarrow> OS_EventTaskRemove t e s) (\<lambda>s.
     rbind (case OSTCBEventMultiPtr (OSTCBTbl s t) of None \<Rightarrow> Inr s | Some es \<Rightarrow> OS_EventTaskRemoveMulti t es s) (\<lambda>s.
     let s = (case OSTCBFlagNode (OSTCBTbl s t) of None \<Rightarrow> s | Some n \<Rightarrow> OS_FlagUnlink n s)
     in Inr (tcb_upd t (\<lambda>ptcb. ptcb\<lparr>OSTCBDly := 0, OSTCBStat := OS_STAT_RDY, OSTCBStatPend := OS_STAT_PEND_OK\<rparr>) s))))"

text \<open>Taking the control block out of the doubly linked list and returning it to the free list.\<close>

definition OSTaskDel_unlink :: "nat \<Rightarrow> os \<Rightarrow> os res" where
  "OSTaskDel_unlink t s =
     rbind (case OSTCBPrev (OSTCBTbl s t) of
              NoTcb \<Rightarrow>
                rbind (deref (OSTCBNext (OSTCBTbl s t))) (\<lambda>n.
                let s = tcb_upd n (\<lambda>ptcb. ptcb\<lparr>OSTCBPrev := NoTcb\<rparr>) s
                in Inr (s\<lparr>OSTCBList := OSTCBNext (OSTCBTbl s t)\<rparr>))
            | r \<Rightarrow>
                rbind (deref r) (\<lambda>p.
                let s = tcb_upd p (\<lambda>ptcb. ptcb\<lparr>OSTCBNext := OSTCBNext (OSTCBTbl s t)\<rparr>) s
                in rbind (deref (OSTCBNext (OSTCBTbl s t))) (\<lambda>n.
                   Inr (tcb_upd n (\<lambda>ptcb. ptcb\<lparr>OSTCBPrev := OSTCBPrev (OSTCBTbl s t)\<rparr>) s)))) (\<lambda>s.
     let s = tcb_upd t (\<lambda>ptcb. ptcb\<lparr>OSTCBNext := OSTCBFreeList s, OSTCBTaskName := unknown_name\<rparr>) s
     in Inr (s\<lparr>OSTCBFreeList := Tcb t\<rparr>))"

definition OSTaskDel :: "u8 \<Rightarrow> os \<Rightarrow> (u8 \<times> os) res" where
  "OSTaskDel prio s =
     (if OSIntNesting s > 0 then Inr (OS_ERR_TASK_DEL_ISR, s)
      else if prio = OS_TASK_IDLE_PRIO then Inr (OS_ERR_TASK_DEL_IDLE, s)
      else if prio \<ge> OS_LOWEST_PRIO \<and> prio \<noteq> OS_PRIO_SELF then Inr (OS_ERR_PRIO_INVALID, s)
      else
        rbind (if prio = OS_PRIO_SELF then rbind (deref (OSTCBCur s)) (\<lambda>t. Inr (OSTCBPrio (OSTCBTbl s t)))
               else Inr prio) (\<lambda>prio.
        rbind (prio_entry s prio) (\<lambda>r.
           case r of
             NoTcb \<Rightarrow> Inr (OS_ERR_TASK_NOT_EXIST, s)
           | Reserved \<Rightarrow> Inr (OS_ERR_TASK_DEL, s)
           | Tcb t \<Rightarrow>
               rbind (OSTaskDel_disable t s) (\<lambda>s.
               let s = (if OSLockNesting s < 255 then s\<lparr>OSLockNesting := OSLockNesting s + 1\<rparr> else s);
                   s = (if OSLockNesting s > 0 then s\<lparr>OSLockNesting := OSLockNesting s - 1\<rparr> else s);
                   s = s\<lparr>OSTaskCtr := OSTaskCtr s - 1, OSTCBPrioTbl := (OSTCBPrioTbl s)[unat prio := NoTcb]\<rparr>
               in rbind (OSTaskDel_unlink t s) (\<lambda>s.
                  if OSRunning s then rbind (OS_Sched s) (\<lambda>s. Inr (OS_ERR_NONE, s)) else Inr (OS_ERR_NONE, s))))))"

definition OSTaskDelReq :: "u8 \<Rightarrow> os \<Rightarrow> (u8 \<times> os) res" where
  "OSTaskDelReq prio s =
     (if prio = OS_TASK_IDLE_PRIO then Inr (OS_ERR_TASK_DEL_IDLE, s)
      else if prio \<ge> OS_LOWEST_PRIO \<and> prio \<noteq> OS_PRIO_SELF then Inr (OS_ERR_PRIO_INVALID, s)
      else if prio = OS_PRIO_SELF then
        rbind (deref (OSTCBCur s)) (\<lambda>t. Inr (OSTCBDelReq (OSTCBTbl s t), s))
      else
        rbind (prio_entry s prio) (\<lambda>r.
        case r of
          NoTcb \<Rightarrow> Inr (OS_ERR_TASK_NOT_EXIST, s)
        | Reserved \<Rightarrow> Inr (OS_ERR_TASK_DEL, s)
        | Tcb t \<Rightarrow> Inr (OS_ERR_NONE, tcb_upd t (\<lambda>ptcb. ptcb\<lparr>OSTCBDelReq := OS_ERR_TASK_DEL_REQ\<rparr>) s)))"

section \<open>Changing the priority\<close>

text \<open>Moving a bit from one place of a wait list to another.\<close>

definition move_wait :: "u8 \<Rightarrow> u8 \<Rightarrow> u8 \<Rightarrow> u8 \<Rightarrow> u8 \<Rightarrow> u8 \<Rightarrow> nat \<Rightarrow> os \<Rightarrow> os res" where
  "move_wait y_old bitx_old bity_old y_new bitx_new bity_new e s =
     rbind (list_clear y_old bitx_old bity_old (wait_list s e)) (\<lambda>l.
     rbind (list_put y_new bitx_new bity_new l) (\<lambda>l. Inr (set_wait e l s)))"

fun move_waits :: "u8 \<Rightarrow> u8 \<Rightarrow> u8 \<Rightarrow> u8 \<Rightarrow> u8 \<Rightarrow> u8 \<Rightarrow> nat list \<Rightarrow> os \<Rightarrow> os res" where
  "move_waits yo xo bo yn xn bn [] s = Inr s"
| "move_waits yo xo bo yn xn bn (e # es) s =
     rbind (move_wait yo xo bo yn xn bn e s) (move_waits yo xo bo yn xn bn es)"

definition OSTaskChangePrio :: "u8 \<Rightarrow> u8 \<Rightarrow> os \<Rightarrow> (u8 \<times> os) res" where
  "OSTaskChangePrio oldprio newprio s =
     (if oldprio \<ge> OS_LOWEST_PRIO \<and> oldprio \<noteq> OS_PRIO_SELF then Inr (OS_ERR_PRIO_INVALID, s)
      else if newprio \<ge> OS_LOWEST_PRIO then Inr (OS_ERR_PRIO_INVALID, s)
      else
        rbind (prio_entry s newprio) (\<lambda>r.
        if r \<noteq> NoTcb then Inr (OS_ERR_PRIO_EXIST, s)
        else
          rbind (if oldprio = OS_PRIO_SELF then rbind (deref (OSTCBCur s)) (\<lambda>t. Inr (OSTCBPrio (OSTCBTbl s t)))
                 else Inr oldprio) (\<lambda>oldprio.
          rbind (prio_entry s oldprio) (\<lambda>r.
          case r of
            NoTcb \<Rightarrow> Inr (OS_ERR_PRIO, s)
          | Reserved \<Rightarrow> Inr (OS_ERR_TASK_NOT_EXIST, s)
          | Tcb t \<Rightarrow>
              let y_new = drop_bit 3 newprio;
                  x_new = newprio AND 7;
                  bity_new = push_bit (unat y_new) 1;
                  bitx_new = push_bit (unat x_new) 1;
                  s = s\<lparr>OSTCBPrioTbl := (OSTCBPrioTbl s)[unat oldprio := NoTcb, unat newprio := Tcb t]\<rparr>;
                  y_old = OSTCBY (OSTCBTbl s t);
                  bity_old = OSTCBBitY (OSTCBTbl s t);
                  bitx_old = OSTCBBitX (OSTCBTbl s t)
              in rbind (if length (OSRdyTbl s) \<le> unat y_old then Inl OutOfBounds
                        else if OSRdyTbl s ! unat y_old AND bitx_old \<noteq> 0 then
                          rbind (list_clear y_old bitx_old bity_old (ready_list s)) (\<lambda>l.
                          rbind (list_put y_new bitx_new bity_new l) (\<lambda>l. Inr (set_ready l s)))
                        else Inr s) (\<lambda>s.
                 rbind (case OSTCBEventPtr (OSTCBTbl s t) of
                          None \<Rightarrow> Inr s
                        | Some e \<Rightarrow> move_wait y_old bitx_old bity_old y_new bitx_new bity_new e s) (\<lambda>s.
                 rbind (case OSTCBEventMultiPtr (OSTCBTbl s t) of
                          None \<Rightarrow> Inr s
                        | Some es \<Rightarrow> move_waits y_old bitx_old bity_old y_new bitx_new bity_new es s) (\<lambda>s.
                 let s = tcb_upd t (\<lambda>ptcb. ptcb\<lparr>OSTCBPrio := newprio, OSTCBY := y_new, OSTCBX := x_new,
                           OSTCBBitY := bity_new, OSTCBBitX := bitx_new\<rparr>) s
                 in if OSRunning s then rbind (OS_Sched s) (\<lambda>s. Inr (OS_ERR_NONE, s)) else Inr (OS_ERR_NONE, s))))))))"

section \<open>Queries and names\<close>

text \<open>The control block a priority or \<open>OS_PRIO_SELF\<close> names.\<close>

definition task_entry :: "u8 \<Rightarrow> os \<Rightarrow> tcb_ref res" where
  "task_entry prio s =
     rbind (if prio = OS_PRIO_SELF then rbind (deref (OSTCBCur s)) (\<lambda>t. Inr (OSTCBPrio (OSTCBTbl s t))) else Inr prio)
       (prio_entry s)"

definition OSTaskQuery :: "u8 \<Rightarrow> bool \<Rightarrow> os \<Rightarrow> (u8 \<times> tcb option) res" where
  "OSTaskQuery prio pdata s =
     (if prio > OS_LOWEST_PRIO \<and> prio \<noteq> OS_PRIO_SELF then Inr (OS_ERR_PRIO_INVALID, None)
      else if \<not> pdata then Inr (OS_ERR_PDATA_NULL, None)
      else
        rbind (task_entry prio s) (\<lambda>r.
        case r of
          NoTcb \<Rightarrow> Inr (OS_ERR_PRIO, None)
        | Reserved \<Rightarrow> Inr (OS_ERR_TASK_NOT_EXIST, None)
        | Tcb t \<Rightarrow> Inr (OS_ERR_NONE, Some (OSTCBTbl s t))))"

definition OSTaskNameGet :: "u8 \<Rightarrow> bool \<Rightarrow> os \<Rightarrow> (u8 \<times> (u8 \<times> u8 list) option) res" where
  "OSTaskNameGet prio pname s =
     (if prio > OS_LOWEST_PRIO \<and> prio \<noteq> OS_PRIO_SELF then Inr (OS_ERR_PRIO_INVALID, None)
      else if \<not> pname then Inr (OS_ERR_PNAME_NULL, None)
      else if OSIntNesting s > 0 then Inr (OS_ERR_NAME_GET_ISR, None)
      else
        rbind (task_entry prio s) (\<lambda>r.
        case r of
          Tcb t \<Rightarrow> Inr (OS_ERR_NONE, Some (OS_StrCopy (OSTCBTaskName (OSTCBTbl s t))))
        | _ \<Rightarrow> Inr (OS_ERR_TASK_NOT_EXIST, None)))"

definition OSTaskNameSet :: "u8 \<Rightarrow> u8 list option \<Rightarrow> os \<Rightarrow> (u8 \<times> os) res" where
  "OSTaskNameSet prio pname s =
     (if prio > OS_LOWEST_PRIO \<and> prio \<noteq> OS_PRIO_SELF then Inr (OS_ERR_PRIO_INVALID, s)
      else case pname of
        None \<Rightarrow> Inr (OS_ERR_PNAME_NULL, s)
      | Some name \<Rightarrow>
          if OSIntNesting s > 0 then Inr (OS_ERR_NAME_SET_ISR, s)
          else
            rbind (task_entry prio s) (\<lambda>r.
            case r of
              Tcb t \<Rightarrow>
                if OS_StrLen name > 15 then Inr (OS_ERR_TASK_NAME_TOO_LONG, s)
                else rbind (put_name name) (\<lambda>n. Inr (OS_ERR_NONE, tcb_upd t (\<lambda>ptcb. ptcb\<lparr>OSTCBTaskName := n\<rparr>) s))
            | _ \<Rightarrow> Inr (OS_ERR_TASK_NOT_EXIST, s)))"

abbreviation OS_EVENT_TYPE_MUTEX :: u8 where "OS_EVENT_TYPE_MUTEX \<equiv> 4"

definition event_named :: "u8 \<Rightarrow> bool" where
  "event_named type \<longleftrightarrow> type \<in> {OS_EVENT_TYPE_SEM, OS_EVENT_TYPE_MUTEX, OS_EVENT_TYPE_MBOX, OS_EVENT_TYPE_Q}"

definition OSEventNameGet :: "nat option \<Rightarrow> bool \<Rightarrow> os \<Rightarrow> u8 \<times> (u8 \<times> u8 list) option" where
  "OSEventNameGet pevent pname s =
     (case pevent of
        None \<Rightarrow> (OS_ERR_PEVENT_NULL, None)
      | Some e \<Rightarrow>
          if \<not> pname then (OS_ERR_PNAME_NULL, None)
          else if OSIntNesting s > 0 then (OS_ERR_NAME_GET_ISR, None)
          else if \<not> event_named (OSEventType (OSEcbTbl s e)) then (OS_ERR_EVENT_TYPE, None)
          else (OS_ERR_NONE, Some (OS_StrCopy (OSEventName (OSEcbTbl s e)))))"

definition OSEventNameSet :: "nat option \<Rightarrow> u8 list option \<Rightarrow> os \<Rightarrow> (u8 \<times> os) res" where
  "OSEventNameSet pevent pname s =
     (case (pevent, pname) of
        (None, _) \<Rightarrow> Inr (OS_ERR_PEVENT_NULL, s)
      | (_, None) \<Rightarrow> Inr (OS_ERR_PNAME_NULL, s)
      | (Some e, Some name) \<Rightarrow>
          if OSIntNesting s > 0 then Inr (OS_ERR_NAME_SET_ISR, s)
          else if \<not> event_named (OSEventType (OSEcbTbl s e)) then Inr (OS_ERR_EVENT_TYPE, s)
          else if OS_StrLen name > 15 then Inr (OS_ERR_EVENT_NAME_TOO_LONG, s)
          else rbind (put_name name) (\<lambda>n. Inr (OS_ERR_NONE, ecb_upd e (\<lambda>ev. ev\<lparr>OSEventName := n\<rparr>) s)))"

section \<open>Pending on several events\<close>

definition multi_type :: "u8 \<Rightarrow> bool" where
  "multi_type type \<longleftrightarrow> type \<in> {OS_EVENT_TYPE_SEM, OS_EVENT_TYPE_MBOX, OS_EVENT_TYPE_Q}"

text \<open>Taking what is available: the ready events, their messages, the status bits of the others.\<close>

fun multi_take :: "nat list \<Rightarrow> os \<Rightarrow> ((nat \<times> vptr) list \<times> u8 \<times> os) res" where
  "multi_take [] s = Inr ([], OS_STAT_RDY, s)"
| "multi_take (e # es) s =
     (let ev = OSEcbTbl s e
      in if OSEventType ev = OS_EVENT_TYPE_SEM then
           if OSEventCnt ev > 0 then
             rbind (multi_take es (ecb_upd e (\<lambda>ev. ev\<lparr>OSEventCnt := OSEventCnt ev - 1\<rparr>) s)) (\<lambda>(r, st, s).
             Inr ((e, Null) # r, st, s))
           else rbind (multi_take es s) (\<lambda>(r, st, s). Inr (r, OS_STAT_SEM OR st, s))
         else if OSEventType ev = OS_EVENT_TYPE_MBOX then
           if OSEventPtr ev \<noteq> Null then
             rbind (multi_take es (ecb_upd e (\<lambda>ev. ev\<lparr>OSEventPtr := Null\<rparr>) s)) (\<lambda>(r, st, s).
             Inr ((e, OSEventPtr ev) # r, st, s))
           else rbind (multi_take es s) (\<lambda>(r, st, s). Inr (r, OS_STAT_MBOX OR st, s))
         else
           rbind (queue_of s e) (\<lambda>q.
           if OSQEntries (OSQTbl s q) > 0 then
             let (msg, s) = q_out q s
             in rbind (multi_take es s) (\<lambda>(r, st, s). Inr ((e, msg) # r, st, s))
           else rbind (multi_take es s) (\<lambda>(r, st, s). Inr (r, OS_STAT_Q OR st, s))))"

fun put_waits :: "nat \<Rightarrow> nat list \<Rightarrow> os \<Rightarrow> os res" where
  "put_waits t [] s = Inr s"
| "put_waits t (e # es) s =
     (let ptcb = OSTCBTbl s t
      in rbind (list_put (OSTCBY ptcb) (OSTCBBitX ptcb) (OSTCBBitY ptcb) (wait_list s e)) (\<lambda>l.
         put_waits t es (set_wait e l s)))"

definition OS_EventTaskWaitMulti :: "nat list \<Rightarrow> os \<Rightarrow> os res" where
  "OS_EventTaskWaitMulti es s =
     rbind (deref (OSTCBCur s)) (\<lambda>t.
     let s = tcb_upd t (\<lambda>ptcb. ptcb\<lparr>OSTCBEventPtr := None, OSTCBEventMultiPtr := Some es\<rparr>) s
     in rbind (put_waits t es s) (make_unready t))"

text \<open>The events that were ready with their messages (Null where none is stored), and the error code; or waiting behind \<open>OS_Sched\<close>.\<close>

definition OSEventPendMulti :: "nat list \<Rightarrow> u16 \<Rightarrow> os \<Rightarrow> (((nat \<times> vptr) list \<times> u8) pend \<times> os) res" where
  "OSEventPendMulti es timeout s =
     (if \<not> (\<forall>e \<in> set es. multi_type (OSEventType (OSEcbTbl s e))) then Inr (Returned ([], OS_ERR_EVENT_TYPE), s)
      else if OSIntNesting s > 0 then Inr (Returned ([], OS_ERR_PEND_ISR), s)
      else if OSLockNesting s > 0 then Inr (Returned ([], OS_ERR_PEND_LOCKED), s)
      else
        rbind (multi_take es s) (\<lambda>(r, stat, s).
        if r \<noteq> [] then Inr (Returned (r, OS_ERR_NONE), s)
        else
          rbind (deref (OSTCBCur s)) (\<lambda>t.
          let s = tcb_upd t (\<lambda>ptcb. ptcb\<lparr>OSTCBStat := OSTCBStat ptcb OR (stat OR OS_STAT_MULTI),
                OSTCBStatPend := OS_STAT_PEND_OK, OSTCBDly := timeout\<rparr>) s
          in rbind (OS_EventTaskWaitMulti es s) (\<lambda>s. rbind (OS_Sched s) (\<lambda>s. Inr (Waiting, s))))))"

definition OSEventPendMulti_resume :: "nat list \<Rightarrow> os \<Rightarrow> (((nat \<times> vptr) list \<times> u8) \<times> os) res" where
  "OSEventPendMulti_resume es s =
     rbind (deref (OSTCBCur s)) (\<lambda>t.
     let stat = OSTCBStatPend (OSTCBTbl s t);
         ev = OSTCBEventPtr (OSTCBTbl s t)
     in rbind (if stat = OS_STAT_PEND_OK \<or> stat = OS_STAT_PEND_ABORT then
                 case ev of
                   Some e \<Rightarrow> Inr (stat, s)
                 | None \<Rightarrow> rbind (OS_EventTaskRemoveMulti t es s) (\<lambda>s. Inr (OS_STAT_PEND_TO, s))
               else rbind (OS_EventTaskRemoveMulti t es s) (\<lambda>s. Inr (stat, s))) (\<lambda>(stat, s).
        let done = tcb_upd t (\<lambda>ptcb. ptcb\<lparr>OSTCBStat := OS_STAT_RDY, OSTCBStatPend := OS_STAT_PEND_OK,
              OSTCBEventPtr := None, OSTCBEventMultiPtr := None, OSTCBMsg := Null\<rparr>)
        in if stat = OS_STAT_PEND_OK then
             case ev of
               None \<Rightarrow> Inl NullDeref
             | Some e \<Rightarrow>
                 if OSEventType (OSEcbTbl s e) = OS_EVENT_TYPE_SEM then Inr (([(e, Null)], OS_ERR_NONE), done s)
                 else if OSEventType (OSEcbTbl s e) \<in> {OS_EVENT_TYPE_MBOX, OS_EVENT_TYPE_Q} then
                   Inr (([(e, OSTCBMsg (OSTCBTbl s t))], OS_ERR_NONE), done s)
                 else Inr (([(e, Null)], OS_ERR_EVENT_TYPE), s)
           else if stat = OS_STAT_PEND_ABORT then
             case ev of None \<Rightarrow> Inr (([], OS_ERR_PEND_ABORT), done s) | Some e \<Rightarrow> Inr (([(e, Null)], OS_ERR_PEND_ABORT), done s)
           else Inr (([], OS_ERR_TIMEOUT), done s)))"

end
