(* ===== verification/Os_Ext_Props.thy ===== *)
theory Os_Ext_Props
  imports Os_Task_Ext Os_Calls_Props
begin

text \<open>
  Two ways in which the kernel loses a task or a signal, and the deletion of a task.
\<close>

section \<open>A task that pended on several events\<close>

text \<open>A post clears only its own bit of the status of a task that pends on several events, so the
  bit \<open>OS_STAT_MULTI\<close> stays until the task runs. When such a task, already made ready, is suspended and
  resumed before it runs, \<open>OSTaskResume\<close> reports success and does not make it ready: it is in no list,
  has no delay, and stays lost.\<close>
lemma resume_loses_multi_pender:
  assumes "OSTCBCur s = Tcb c" "OSTCBPrio (OSTCBTbl s c) \<noteq> of_nat p" "length (OSTCBPrioTbl s) = 32"
    and "OSTCBPrioTbl s ! p = Tcb t" "p < 31" "tcb_fields p (OSTCBTbl s t)" "list_ok (ready_list s)"
    and "OSTCBStat (OSTCBTbl s t) AND OS_STAT_MULTI \<noteq> 0"
  shows "\<exists>s1 s2. OSTaskSuspend (of_nat p) s = Inr (OS_ERR_NONE, s1) \<and> OSTaskResume (of_nat p) s1 = Inr (OS_ERR_NONE, s2)
    \<and> ready s2 = ready s - {p} \<and> OSTCBStat (OSTCBTbl s2 t) AND OS_STAT_SUSPEND = 0
    \<and> (\<forall>e. waits s2 e = waits s e) \<and> OSTCBDly (OSTCBTbl s2 t) = OSTCBDly (OSTCBTbl s t)"
proof -
  have p32: "p < 32" using assms(5) by simp
  have u: "unat (of_nat p :: u8) = p" using p32 by simp
  have np: "(of_nat p :: u8) \<noteq> 31" "\<not> (31 \<le> (of_nat p :: u8))" "(of_nat p :: u8) \<noteq> 255"
    using assms(5) u by (auto simp: word_le_nat_alt word_unat_eq_iff)
  have ent: "prio_entry s' (of_nat p) = Inr (Tcb t)" if "OSTCBPrioTbl s' = OSTCBPrioTbl s" for s'
    using that assms(3, 4) p32 by (simp add: prio_entry_def)
  from ps.clear_ok [OF assms(7) p32] assms(6) obtain l where
    l: "make_unready t s = Inr (set_ready l s)" "prios l = ready s - {p}"
    by (auto simp: make_unready_def tcb_fields_def)
  let ?S = "\<lambda>ptcb. ptcb\<lparr>OSTCBStat := OSTCBStat ptcb OR OS_STAT_SUSPEND\<rparr>"
  let ?R = "\<lambda>ptcb. ptcb\<lparr>OSTCBStat := OSTCBStat ptcb AND NOT OS_STAT_SUSPEND\<rparr>"
  define s1 where "s1 = tcb_upd t ?S (set_ready l s)"
  define s2 where "s2 = tcb_upd t ?R s1"
  let ?st = "OSTCBStat (OSTCBTbl s t)"
  have "OSTaskSuspend (of_nat p) s = Inr (OS_ERR_NONE, s1)"
    using np assms(1, 2) by (simp add: OSTaskSuspend_def deref_def Let_def ent l(1) s1_def)
  moreover have "OSTaskResume (of_nat p) s1 = Inr (OS_ERR_NONE, s2)"
  proof -
    have st: "OSTCBStat (OSTCBTbl s1 t) = ?st OR 8" "OSTCBStat (OSTCBTbl s2 t) = (?st OR 8) AND NOT 8"
      by (simp_all add: s2_def s1_def os_simps)
    have "(?st OR 8) AND 8 \<noteq> 0" by (simp add: bit.conj_disj_distrib2)
    moreover have "(?st OR 8) AND NOT 8 \<noteq> 0"
    proof
      assume "(?st OR 8) AND NOT 8 = 0"
      then have "((?st OR 8) AND NOT 8) AND 0x80 = 0" by simp
      moreover have "((x OR 8) AND NOT 8) AND 0x80 = x AND 0x80" for x :: u8
        by (rule bit_word_eqI) (auto simp: bit_simps numeral_eq_Suc less_Suc_eq)
      ultimately show False using assms(8) by simp
    qed
    moreover have "OSTCBPrioTbl s1 = OSTCBPrioTbl s" by (simp add: s1_def os_simps)
    ultimately show ?thesis using np(2) ent [of s1] st by (simp add: OSTaskResume_def Let_def s2_def os_simps)
  qed
  moreover have "ready s2 = ready s - {p}" "\<forall>e. waits s2 e = waits s e" "OSTCBDly (OSTCBTbl s2 t) = OSTCBDly (OSTCBTbl s t)"
    by (simp_all add: s2_def s1_def os_simps l(2))
  moreover have "OSTCBStat (OSTCBTbl s2 t) AND 8 = 0"
  proof -
    have "((x OR 8) AND NOT 8) AND 8 = 0" for x :: u8
      by (rule bit_word_eqI) (auto simp: bit_simps)
    then show ?thesis by (simp add: s2_def s1_def os_simps)
  qed
  ultimately show ?thesis by blast
qed

text \<open>Task 5 of the small system pends on the semaphore and another one; then an interrupt handler posts.\<close>

definition demo_multi :: os where
  "demo_multi = snd (projr (OSSemPost (Some 0) (OSIntEnter (snd (projr (OSEventPendMulti [0, 0] 0 demo))))))"

theorem resume_loses_multi_pender_witness:
  "\<exists>s1 s2. OSTaskSuspend (of_nat 5) demo_multi = Inr (OS_ERR_NONE, s1) \<and> OSTaskResume (of_nat 5) s1 = Inr (OS_ERR_NONE, s2)
    \<and> ready s2 = ready demo_multi - {5} \<and> OSTCBStat (OSTCBTbl s2 2) AND OS_STAT_SUSPEND = 0
    \<and> (\<forall>e. waits s2 e = waits demo_multi e) \<and> OSTCBDly (OSTCBTbl s2 2) = OSTCBDly (OSTCBTbl demo_multi 2)"
proof (rule resume_loses_multi_pender [where c = 1])
  show "OSTCBCur demo_multi = Tcb 1" by code_simp
  show "OSTCBPrio (OSTCBTbl demo_multi 1) \<noteq> of_nat 5" by code_simp
  show "length (OSTCBPrioTbl demo_multi) = 32" by code_simp
  show "OSTCBPrioTbl demo_multi ! 5 = Tcb 2" by code_simp
  show "(5 :: nat) < 31" by simp
  show "tcb_fields 5 (OSTCBTbl demo_multi 2)" by code_simp
  have "ready_list demo_multi = ready_list demo" by code_simp
  then show "list_ok (ready_list demo_multi)" using kernel_invD(8) [OF kernel_run_inv(1) [OF kernel_run_demo]] by simp
  show "OSTCBStat (OSTCBTbl demo_multi 2) AND OS_STAT_MULTI \<noteq> 0" by code_simp
qed

section \<open>Changing the priority of a task that is about to run\<close>

text \<open>In the small system task 5 delays itself for a tick, task 12 pends on the semaphore, the tick makes task 5
  run again, which posts: task 12 is ready and its pend is over.\<close>

fun run_all :: "kop list \<Rightarrow> os \<times> (nat \<Rightarrow> pc) \<Rightarrow> (os \<times> (nat \<Rightarrow> pc)) res" where
  "run_all [] c = Inr c"
| "run_all (x # xs) (s, pcs) = (if allowed x s pcs then rbind (kstep x s pcs) (run_all xs) else Inl NoEnd)"

lemma run_all_kernel: "run_all xs (s, pcs) = Inr (s', pcs') \<Longrightarrow> kernel_run s pcs \<Longrightarrow> kernel_run s' pcs'"
proof (induction xs arbitrary: s pcs)
  case (Cons x xs)
  from Cons.prems(1) obtain s1 pcs1 where
    "allowed x s pcs" "kstep x s pcs = Inr (s1, pcs1)" "run_all xs (s1, pcs1) = Inr (s', pcs')"
    by (cases "kstep x s pcs") (auto split: if_splits)
  with Cons kernel_run_step show ?case by blast
qed simp

definition demo_posted :: "os \<times> (nat \<Rightarrow> pc)" where
  "demo_posted = projr (run_all [Delay 1, SemPend (Some 0) 0, EnterIsr, Tick, LeaveIsr, SemPost (Some 0)] (demo, \<lambda>p. Own))"

lemma kernel_run_posted: "kernel_run (fst demo_posted) (snd demo_posted)"
proof -
  have "run_all [Delay 1, SemPend (Some 0) 0, EnterIsr, Tick, LeaveIsr, SemPost (Some 0)] (demo, \<lambda>p. Own) = Inr demo_posted"
    unfolding demo_posted_def by (rule Inr_projr) code_simp
  then show ?thesis by (metis prod.collapse run_all_kernel kernel_run_demo)
qed

text \<open>\<open>OSTaskChangePrio\<close> puts a task whose pend is over, but which has not run since, back into the wait
  list of the event, because \<open>OSTCBEventPtr\<close> is cleared only when the task runs. In a reachable state task
  12 is ready and nobody waits for the semaphore; after its priority is changed to 20 the next post finds it
  in the wait list: the post reports success, the count stays 0, and the signal is lost.\<close>
lemma change_prio_loses_signal:
  "\<exists>s pcs s1 s2. kernel_run s pcs \<and> 12 \<in> ready s \<and> OSEventGrp (OSEcbTbl s 0) = 0 \<and> OSEventCnt (OSEcbTbl s 0) = 0
    \<and> OSTaskChangePrio 12 20 s = Inr (OS_ERR_NONE, s1) \<and> 20 \<in> ready s1 \<and> 20 \<in> waits s1 0
    \<and> OSSemPost (Some 0) s1 = Inr (OS_ERR_NONE, s2) \<and> OSEventCnt (OSEcbTbl s2 0) = 0 \<and> ready s2 = ready s1"
proof -
  let ?s = "fst demo_posted"
  let ?s1 = "snd (projr (OSTaskChangePrio 12 20 ?s))"
  let ?s2 = "snd (projr (OSSemPost (Some 0) ?s1))"
  have "OSTaskChangePrio 12 20 ?s = Inr (OS_ERR_NONE, ?s1)" by (rule Inr_pair) code_simp+
  moreover have "OSSemPost (Some 0) ?s1 = Inr (OS_ERR_NONE, ?s2)" by (rule Inr_pair) code_simp+
  moreover have "OSEventGrp (OSEcbTbl ?s 0) = 0" "OSEventCnt (OSEcbTbl ?s 0) = 0" "OSEventCnt (OSEcbTbl ?s2 0) = 0"
    by code_simp+
  moreover have "ready_list ?s2 = ready_list ?s1" by code_simp
  moreover have "12 \<in> ready ?s" "20 \<in> ready ?s1" "20 \<in> waits ?s1 0"
    unfolding prios_def mem_Collect_eq by code_simp+
  ultimately show ?thesis using kernel_run_posted by metis
qed

section \<open>Names\<close>

text \<open>A name of up to 15 characters is stored, a longer one is refused, except that the length is counted in
  eight bits: a name of 256 to 271 characters (and so on every 256) passes the check and is copied over the
  end of the 16 bytes of \<open>OSTCBTaskName\<close>.\<close>
lemma task_name_length_wraps:
  assumes "OSIntNesting s = 0" "prio \<le> OS_LOWEST_PRIO" "length (OSTCBPrioTbl s) = 32" "OSTCBPrioTbl s ! unat prio = Tcb t"
    and "0 \<notin> set name"
  shows "OSTaskNameSet prio (Some name) s =
    (if length name mod 256 > 15 then Inr (OS_ERR_TASK_NAME_TOO_LONG, s)
     else if length name < 16 then Inr (OS_ERR_NONE, tcb_upd t (\<lambda>ptcb. ptcb\<lparr>OSTCBTaskName := name @ [0]\<rparr>) s)
     else Inl OutOfBounds)"
proof -
  have tw: "takeWhile (\<lambda>c. c \<noteq> 0) name = name" using assms(5) by auto
  have len: "OS_StrLen name > 15 \<longleftrightarrow> length name mod 256 > 15"
    by (simp add: OS_StrLen_def tw word_less_nat_alt unat_of_nat take_bit_eq_mod)
  have small: "length name mod 256 \<le> 15" if "length name < 16" using that by simp
  have "prio \<noteq> OS_PRIO_SELF" "unat prio < 32" using assms(2) by (auto simp: word_le_nat_alt)
  moreover have "\<not> prio > OS_LOWEST_PRIO" using assms(2) by simp
  ultimately show ?thesis using assms(1, 3, 4) small
    by (simp add: OSTaskNameSet_def task_entry_def prio_entry_def len put_name_def OS_StrCopy_def tw Let_def)
qed

theorem task_name_length_wraps_witness:
  "OSTaskNameSet 5 (Some (replicate 256 65)) demo =
    (if length (replicate 256 (65 :: u8)) mod 256 > 15 then Inr (OS_ERR_TASK_NAME_TOO_LONG, demo)
     else if length (replicate 256 (65 :: u8)) < 16
       then Inr (OS_ERR_NONE, tcb_upd 2 (\<lambda>ptcb. ptcb\<lparr>OSTCBTaskName := replicate 256 65 @ [0]\<rparr>) demo)
     else Inl OutOfBounds)"
  by (rule task_name_length_wraps) (code_simp, simp, code_simp, code_simp, simp)

end
