(* ===== verification/Os_Mem.thy ===== *)
theory Os_Mem
  imports Os_Task_Ext Allocator
begin

text \<open>
  The memory partitions of the uC/OS-II kernel, \<open>os_mem.c\<close>: a partition of equal blocks whose free blocks
  are linked through their own first four bytes. Memory is a function from addresses to bytes, addresses are
  32-bit words; critical sections are steps.
\<close>

section \<open>State\<close>

text \<open>\<open>OSMemFreeList\<close> of a control block is a \<open>void *\<close>: it points to the next unused control block, or to a block.\<close>

datatype mptr = PNull | PartPtr nat | BlkPtr u32

record memcb =
  OSMemAddr :: u32
  OSMemLink :: mptr
  OSMemBlkSize :: u32
  OSMemNBlks :: u32
  OSMemNFree :: u32
  OSMemName :: "u8 list"

record pool =
  OSMemTbl :: "nat \<Rightarrow> memcb"
  OSMemFreeList :: "nat option"
  bytes :: mem

abbreviation OS_ERR_MEM_INVALID_PART :: u8 where "OS_ERR_MEM_INVALID_PART \<equiv> 90"
abbreviation OS_ERR_MEM_INVALID_BLKS :: u8 where "OS_ERR_MEM_INVALID_BLKS \<equiv> 91"
abbreviation OS_ERR_MEM_INVALID_SIZE :: u8 where "OS_ERR_MEM_INVALID_SIZE \<equiv> 92"
abbreviation OS_ERR_MEM_NO_FREE_BLKS :: u8 where "OS_ERR_MEM_NO_FREE_BLKS \<equiv> 93"
abbreviation OS_ERR_MEM_FULL :: u8 where "OS_ERR_MEM_FULL \<equiv> 94"
abbreviation OS_ERR_MEM_INVALID_PBLK :: u8 where "OS_ERR_MEM_INVALID_PBLK \<equiv> 95"
abbreviation OS_ERR_MEM_INVALID_PMEM :: u8 where "OS_ERR_MEM_INVALID_PMEM \<equiv> 96"
abbreviation OS_ERR_MEM_INVALID_PDATA :: u8 where "OS_ERR_MEM_INVALID_PDATA \<equiv> 97"
abbreviation OS_ERR_MEM_INVALID_ADDR :: u8 where "OS_ERR_MEM_INVALID_ADDR \<equiv> 98"
abbreviation OS_ERR_MEM_NAME_TOO_LONG :: u8 where "OS_ERR_MEM_NAME_TOO_LONG \<equiv> 99"

definition OS_MAX_MEM_PART :: nat where "OS_MAX_MEM_PART = 5"

definition part_upd :: "nat \<Rightarrow> (memcb \<Rightarrow> memcb) \<Rightarrow> pool \<Rightarrow> pool" where
  "part_upd p f s = s\<lparr>OSMemTbl := (OSMemTbl s)(p := f (OSMemTbl s p))\<rparr>"

text \<open>A pointer read from memory, a pointer written to it.\<close>

definition word_ptr :: "u32 \<Rightarrow> mptr" where
  "word_ptr w = (if w = 0 then PNull else BlkPtr w)"

definition ptr_word :: "mptr \<Rightarrow> u32 res" where
  "ptr_word q = (case q of PNull \<Rightarrow> Inr 0 | BlkPtr w \<Rightarrow> Inr w | PartPtr p \<Rightarrow> Inl OutOfBounds)"

section \<open>Operations\<close>

definition OS_MemInit :: "pool \<Rightarrow> pool" where
  "OS_MemInit s = s\<lparr>
     OSMemTbl := (\<lambda>i. if i < OS_MAX_MEM_PART
        then \<lparr>OSMemAddr = 0, OSMemLink = (if i + 1 < OS_MAX_MEM_PART then PartPtr (i + 1) else PNull), OSMemBlkSize = 0,
               OSMemNBlks = 0, OSMemNFree = 0, OSMemName = unknown_name\<rparr>
        else OSMemTbl s i),
     OSMemFreeList := Some 0\<rparr>"

text \<open>The loop that links the blocks: \<open>n\<close> rounds from \<open>plink\<close>, then the NULL at the end.\<close>

fun link_blocks :: "nat \<Rightarrow> u32 \<Rightarrow> u32 \<Rightarrow> u32 \<Rightarrow> mem \<Rightarrow> mem" where
  "link_blocks 0 plink pblk blksize m = put32 m (unat plink) 0"
| "link_blocks (Suc n) plink pblk blksize m =
     link_blocks n pblk (pblk + blksize) blksize (put32 m (unat plink) pblk)"

definition OSMemCreate :: "u32 \<Rightarrow> u32 \<Rightarrow> u32 \<Rightarrow> pool \<Rightarrow> ((nat option \<times> u8) \<times> pool) res" where
  "OSMemCreate addr nblks blksize s =
     (if addr = 0 then Inr ((None, OS_ERR_MEM_INVALID_ADDR), s)
      else if addr AND 3 \<noteq> 0 then Inr ((None, OS_ERR_MEM_INVALID_ADDR), s)
      else if nblks < 2 then Inr ((None, OS_ERR_MEM_INVALID_BLKS), s)
      else if blksize < 4 then Inr ((None, OS_ERR_MEM_INVALID_SIZE), s)
      else case OSMemFreeList s of
        None \<Rightarrow> Inr ((None, OS_ERR_MEM_INVALID_PART), s)
      | Some p \<Rightarrow>
          rbind (case OSMemLink (OSMemTbl s p) of
                   PNull \<Rightarrow> Inr None | PartPtr q \<Rightarrow> Inr (Some q) | BlkPtr w \<Rightarrow> Inl OutOfBounds) (\<lambda>next_free.
          let s = s\<lparr>OSMemFreeList := next_free\<rparr>;
              s = s\<lparr>bytes := link_blocks (unat (nblks - 1)) addr (addr + blksize) blksize (bytes s)\<rparr>;
              s = part_upd p (\<lambda>pmem. pmem\<lparr>OSMemAddr := addr, OSMemLink := BlkPtr addr, OSMemNFree := nblks,
                    OSMemNBlks := nblks, OSMemBlkSize := blksize\<rparr>) s
          in Inr ((Some p, OS_ERR_NONE), s)))"

definition OSMemGet :: "nat option \<Rightarrow> pool \<Rightarrow> ((mptr \<times> u8) \<times> pool) res" where
  "OSMemGet pmem s =
     (case pmem of
        None \<Rightarrow> Inr ((PNull, OS_ERR_MEM_INVALID_PMEM), s)
      | Some p \<Rightarrow>
          if OSMemNFree (OSMemTbl s p) > 0 then
            (case OSMemLink (OSMemTbl s p) of
               BlkPtr b \<Rightarrow>
                 Inr ((BlkPtr b, OS_ERR_NONE), part_upd p (\<lambda>pm. pm\<lparr>OSMemLink := word_ptr (get32 (bytes s) (unat b)),
                   OSMemNFree := OSMemNFree pm - 1\<rparr>) s)
             | PNull \<Rightarrow> Inl NullDeref
             | PartPtr q \<Rightarrow> Inl OutOfBounds)
          else Inr ((PNull, OS_ERR_MEM_NO_FREE_BLKS), s))"

definition OSMemPut :: "nat option \<Rightarrow> u32 \<Rightarrow> pool \<Rightarrow> (u8 \<times> pool) res" where
  "OSMemPut pmem pblk s =
     (case pmem of
        None \<Rightarrow> Inr (OS_ERR_MEM_INVALID_PMEM, s)
      | Some p \<Rightarrow>
          if pblk = 0 then Inr (OS_ERR_MEM_INVALID_PBLK, s)
          else if OSMemNFree (OSMemTbl s p) \<ge> OSMemNBlks (OSMemTbl s p) then Inr (OS_ERR_MEM_FULL, s)
          else
            rbind (ptr_word (OSMemLink (OSMemTbl s p))) (\<lambda>w.
            let s = s\<lparr>bytes := put32 (bytes s) (unat pblk) w\<rparr>
            in Inr (OS_ERR_NONE, part_upd p (\<lambda>pm. pm\<lparr>OSMemLink := BlkPtr pblk, OSMemNFree := OSMemNFree pm + 1\<rparr>) s)))"

text \<open>\<open>OSMemQuery\<close>: address, free list, block size, blocks, free and used blocks.\<close>

definition OSMemQuery :: "nat option \<Rightarrow> bool \<Rightarrow> pool \<Rightarrow> u8 \<times> (u32 \<times> mptr \<times> u32 \<times> u32 \<times> u32 \<times> u32) option" where
  "OSMemQuery pmem pdata s =
     (case pmem of
        None \<Rightarrow> (OS_ERR_MEM_INVALID_PMEM, None)
      | Some p \<Rightarrow>
          if \<not> pdata then (OS_ERR_MEM_INVALID_PDATA, None)
          else let pm = OSMemTbl s p
               in (OS_ERR_NONE, Some (OSMemAddr pm, OSMemLink pm, OSMemBlkSize pm, OSMemNBlks pm, OSMemNFree pm,
                    OSMemNBlks pm - OSMemNFree pm)))"

definition OSMemNameGet :: "nat option \<Rightarrow> bool \<Rightarrow> os \<Rightarrow> pool \<Rightarrow> u8 \<times> (u8 \<times> u8 list) option" where
  "OSMemNameGet pmem pname k s =
     (case pmem of
        None \<Rightarrow> (OS_ERR_MEM_INVALID_PMEM, None)
      | Some p \<Rightarrow>
          if \<not> pname then (OS_ERR_PNAME_NULL, None)
          else if OSIntNesting k > 0 then (OS_ERR_NAME_GET_ISR, None)
          else (OS_ERR_NONE, Some (OS_StrCopy (OSMemName (OSMemTbl s p)))))"

definition OSMemNameSet :: "nat option \<Rightarrow> u8 list option \<Rightarrow> os \<Rightarrow> pool \<Rightarrow> (u8 \<times> pool) res" where
  "OSMemNameSet pmem pname k s =
     (case (pmem, pname) of
        (None, _) \<Rightarrow> Inr (OS_ERR_MEM_INVALID_PMEM, s)
      | (_, None) \<Rightarrow> Inr (OS_ERR_PNAME_NULL, s)
      | (Some p, Some name) \<Rightarrow>
          if OSIntNesting k > 0 then Inr (OS_ERR_NAME_SET_ISR, s)
          else if OS_StrLen name > 15 then Inr (OS_ERR_MEM_NAME_TOO_LONG, s)
          else rbind (put_name name) (\<lambda>n. Inr (OS_ERR_NONE, part_upd p (\<lambda>pm. pm\<lparr>OSMemName := n\<rparr>) s)))"

section \<open>The free list\<close>

text \<open>The blocks met when the links are followed for at most \<open>n\<close> steps; what they mean: the chain ends there.\<close>

fun follow :: "nat \<Rightarrow> mptr \<Rightarrow> mem \<Rightarrow> u32 list" where
  "follow (Suc n) (BlkPtr b) m = b # follow n (word_ptr (get32 m (unat b))) m"
| "follow n q m = []"

fun free_chain :: "mem \<Rightarrow> mptr \<Rightarrow> u32 list \<Rightarrow> bool" where
  "free_chain m q [] \<longleftrightarrow> q = PNull"
| "free_chain m q (b # bs) \<longleftrightarrow> q = BlkPtr b \<and> free_chain m (word_ptr (get32 m (unat b))) bs"

lemma follow_chain: "free_chain m q bs \<Longrightarrow> length bs \<le> n \<Longrightarrow> follow n q m = bs"
proof (induction bs arbitrary: q n)
  case (Cons b bs)
  then show ?case by (cases n) auto
qed simp

definition free_blocks :: "nat \<Rightarrow> pool \<Rightarrow> u32 list" where
  "free_blocks p s = follow (unat (OSMemNBlks (OSMemTbl s p))) (OSMemLink (OSMemTbl s p)) (bytes s)"

text \<open>The address of block \<open>i\<close>; the addresses of all.\<close>

definition block_at :: "memcb \<Rightarrow> nat \<Rightarrow> u32" where
  "block_at pm i = OSMemAddr pm + of_nat i * OSMemBlkSize pm"

definition blocks :: "memcb \<Rightarrow> u32 set" where
  "blocks pm = block_at pm ` {..<unat (OSMemNBlks pm)}"

text \<open>A partition lies in memory without wrapping round and not at address 0.\<close>

definition part_placed :: "memcb \<Rightarrow> bool" where
  "part_placed pm \<longleftrightarrow> OSMemAddr pm \<noteq> 0 \<and> 4 \<le> unat (OSMemBlkSize pm)
     \<and> unat (OSMemAddr pm) + unat (OSMemNBlks pm) * unat (OSMemBlkSize pm) < 2 ^ 32"

definition part_ok :: "nat \<Rightarrow> pool \<Rightarrow> bool" where
  "part_ok p s \<longleftrightarrow> (let pm = OSMemTbl s p; bs = free_blocks p s in
     part_placed pm \<and> free_chain (bytes s) (OSMemLink pm) bs \<and> distinct bs \<and> set bs \<subseteq> blocks pm
     \<and> length bs = unat (OSMemNFree pm))"

lemma block_at_unat:
  assumes "part_placed pm" "i < unat (OSMemNBlks pm)"
  shows "unat (block_at pm i) = unat (OSMemAddr pm) + i * unat (OSMemBlkSize pm)"
proof -
  have "i * unat (OSMemBlkSize pm) \<le> unat (OSMemNBlks pm) * unat (OSMemBlkSize pm)"
    using assms(2) by (intro mult_le_mono1) simp
  then have "unat (OSMemAddr pm) + i * unat (OSMemBlkSize pm) < 2 ^ 32" using assms(1) unfolding part_placed_def by linarith
  then show ?thesis using assms(2) unsigned_less [of "OSMemNBlks pm", where ?'a = nat]
    by (simp add: block_at_def unat_word_ariths unat_of_nat take_bit_nat_eq_self)
qed

text \<open>Different blocks are a block size apart.\<close>

lemma blocks_apart:
  assumes "part_placed pm" "b \<in> blocks pm" "c \<in> blocks pm" "b \<noteq> c"
  shows "unat b + unat (OSMemBlkSize pm) \<le> unat c \<or> unat c + unat (OSMemBlkSize pm) \<le> unat b"
proof -
  obtain i j where ij: "b = block_at pm i" "c = block_at pm j" "i < unat (OSMemNBlks pm)" "j < unat (OSMemNBlks pm)"
    using assms(2, 3) by (auto simp: blocks_def)
  then have "i \<noteq> j" using assms(4) by auto
  then consider "Suc i \<le> j" | "Suc j \<le> i" by linarith
  then have "Suc i * unat (OSMemBlkSize pm) \<le> j * unat (OSMemBlkSize pm) \<or> Suc j * unat (OSMemBlkSize pm) \<le> i * unat (OSMemBlkSize pm)"
    by cases (simp_all only: mult_le_mono1 simp_thms)
  then show ?thesis using block_at_unat [OF assms(1)] ij by auto
qed

lemma blocks_bounds:
  assumes "part_placed pm" "b \<in> blocks pm"
  shows "unat (OSMemAddr pm) \<le> unat b" "unat b + unat (OSMemBlkSize pm) \<le> unat (OSMemAddr pm) + unat (OSMemNBlks pm) * unat (OSMemBlkSize pm)"
    "b \<noteq> 0"
proof -
  obtain i where i: "b = block_at pm i" "i < unat (OSMemNBlks pm)" using assms(2) by (auto simp: blocks_def)
  then have u: "unat b = unat (OSMemAddr pm) + i * unat (OSMemBlkSize pm)" using block_at_unat [OF assms(1)] by simp
  then show "unat (OSMemAddr pm) \<le> unat b" by simp
  have "Suc i * unat (OSMemBlkSize pm) \<le> unat (OSMemNBlks pm) * unat (OSMemBlkSize pm)" using i(2) by (intro mult_le_mono1) simp
  then show "unat b + unat (OSMemBlkSize pm) \<le> unat (OSMemAddr pm) + unat (OSMemNBlks pm) * unat (OSMemBlkSize pm)" using u by simp
  have "unat (OSMemAddr pm) \<noteq> 0" using assms(1) by (simp add: part_placed_def unat_eq_0)
  then show "b \<noteq> 0" using u by (metis add_is_0 unat_0)
qed

text \<open>Bytes outside the free blocks do not matter to the chain.\<close>

lemma free_chain_frame:
  assumes "free_chain m q bs" "\<And>b i. b \<in> set bs \<Longrightarrow> unat b \<le> i \<Longrightarrow> i < unat b + 4 \<Longrightarrow> m' i = m i"
  shows "free_chain m' q bs"
  using assms
proof (induction bs arbitrary: q)
  case (Cons b bs)
  have "get32 m' (unat b) = get32 m (unat b)" using Cons.prems(2) [of b] by (intro f32.rd_bytes) auto
  with Cons show ?case by auto
qed simp

section \<open>What the operations do to it\<close>

lemma part_okI:
  assumes "part_placed (OSMemTbl s p)" "free_chain (bytes s) (OSMemLink (OSMemTbl s p)) bs" "distinct bs"
    "set bs \<subseteq> blocks (OSMemTbl s p)" "length bs = unat (OSMemNFree (OSMemTbl s p))"
  shows "part_ok p s" "free_blocks p s = bs"
proof -
  have "length bs = card (set bs)" using assms(3) by (simp add: distinct_card)
  also have "\<dots> \<le> card (blocks (OSMemTbl s p))" using assms(4) by (intro card_mono) (simp_all add: blocks_def)
  also have "\<dots> \<le> unat (OSMemNBlks (OSMemTbl s p))"
    using card_image_le [of "{..<unat (OSMemNBlks (OSMemTbl s p))}" "block_at (OSMemTbl s p)"] by (simp add: blocks_def)
  finally show "free_blocks p s = bs" using follow_chain [OF assms(2)] by (simp add: free_blocks_def)
  with assms show "part_ok p s" by (simp add: part_ok_def Let_def)
qed

lemma part_okD:
  assumes "part_ok p s"
  shows "part_placed (OSMemTbl s p)" "free_chain (bytes s) (OSMemLink (OSMemTbl s p)) (free_blocks p s)" "distinct (free_blocks p s)"
    "set (free_blocks p s) \<subseteq> blocks (OSMemTbl s p)" "length (free_blocks p s) = unat (OSMemNFree (OSMemTbl s p))"
  using assms by (simp_all add: part_ok_def Let_def)

lemma part_upd_simps [simp]:
  "OSMemTbl (part_upd p f s) = (OSMemTbl s)(p := f (OSMemTbl s p))" "bytes (part_upd p f s) = bytes s"
  "OSMemFreeList (part_upd p f s) = OSMemFreeList s"
  by (simp_all add: part_upd_def)

text \<open>Where a partition lies depends on three fields of its control block.\<close>

lemma placed_cong:
  "OSMemAddr pm' = OSMemAddr pm \<Longrightarrow> OSMemBlkSize pm' = OSMemBlkSize pm \<Longrightarrow> OSMemNBlks pm' = OSMemNBlks pm
    \<Longrightarrow> part_placed pm' = part_placed pm \<and> blocks pm' = blocks pm"
  by (simp add: part_placed_def blocks_def block_at_def)

definition same_part :: "nat \<Rightarrow> pool \<Rightarrow> pool \<Rightarrow> bool" where
  "same_part p s s' \<longleftrightarrow> OSMemAddr (OSMemTbl s' p) = OSMemAddr (OSMemTbl s p) \<and> OSMemBlkSize (OSMemTbl s' p) = OSMemBlkSize (OSMemTbl s p)
     \<and> OSMemNBlks (OSMemTbl s' p) = OSMemNBlks (OSMemTbl s p) \<and> (\<forall>q. q \<noteq> p \<longrightarrow> OSMemTbl s' q = OSMemTbl s q)
     \<and> blocks (OSMemTbl s' p) = blocks (OSMemTbl s p)"

lemma OSMemGet_effect:
  assumes "part_ok p s"
  shows "free_blocks p s = [] \<Longrightarrow> OSMemGet (Some p) s = Inr ((PNull, OS_ERR_MEM_NO_FREE_BLKS), s)"
    "free_blocks p s = b # bs \<Longrightarrow> \<exists>s'. OSMemGet (Some p) s = Inr ((BlkPtr b, OS_ERR_NONE), s') \<and> part_ok p s'
       \<and> free_blocks p s' = bs \<and> bytes s' = bytes s \<and> same_part p s s'"
proof -
  note ok = part_okD [OF assms]
  let ?pm = "OSMemTbl s p"
  show "OSMemGet (Some p) s = Inr ((PNull, OS_ERR_MEM_NO_FREE_BLKS), s)" if "free_blocks p s = []"
    using ok(5) that by (simp add: OSMemGet_def word_less_nat_alt)
  show "\<exists>s'. OSMemGet (Some p) s = Inr ((BlkPtr b, OS_ERR_NONE), s') \<and> part_ok p s'
       \<and> free_blocks p s' = bs \<and> bytes s' = bytes s \<and> same_part p s s'" if fb: "free_blocks p s = b # bs"
  proof -
    let ?f = "\<lambda>pm. pm\<lparr>OSMemLink := word_ptr (get32 (bytes s) (unat b)), OSMemNFree := OSMemNFree pm - 1\<rparr>"
    have ch: "OSMemLink ?pm = BlkPtr b" "free_chain (bytes s) (word_ptr (get32 (bytes s) (unat b))) bs" using ok(2) fb by auto
    have n: "unat (OSMemNFree ?pm) = Suc (length bs)" using ok(5) fb by simp
    then have "unat (OSMemNFree ?pm - 1) = length bs" "OSMemNFree ?pm > 0"
      by (simp_all add: unat_minus_one word_gt_0 flip: unat_eq_0)
    moreover note cg = placed_cong [of "?f ?pm" ?pm]
    ultimately have "part_ok p (part_upd p ?f s)" "free_blocks p (part_upd p ?f s) = bs"
      using ok(1, 3, 4) fb ch(2) by (intro part_okI [where bs = bs]; simp)+
    moreover have "same_part p s (part_upd p ?f s)" using cg by (simp add: same_part_def)
    ultimately show ?thesis using ch(1) \<open>OSMemNFree ?pm > 0\<close> by (simp add: OSMemGet_def)
  qed
qed

lemma OSMemPut_effect:
  assumes "part_ok p s" "b \<in> blocks (OSMemTbl s p)" "b \<notin> set (free_blocks p s)"
  shows "\<exists>s'. OSMemPut (Some p) b s = Inr (OS_ERR_NONE, s') \<and> part_ok p s' \<and> free_blocks p s' = b # free_blocks p s
    \<and> same_part p s s' \<and> (\<forall>i. i < unat b \<or> unat b + 4 \<le> i \<longrightarrow> bytes s' i = bytes s i)"
proof -
  note ok = part_okD [OF assms(1)]
  let ?pm = "OSMemTbl s p" and ?fb = "free_blocks p s"
  have b: "b \<noteq> 0" by (rule blocks_bounds [OF ok(1) assms(2)])
  have "Suc (length ?fb) = card (insert b (set ?fb))" using assms(3) ok(3) by (simp add: distinct_card)
  also have "\<dots> \<le> card (blocks ?pm)" using assms(2) ok(4) by (intro card_mono) (simp_all add: blocks_def)
  also have "\<dots> \<le> unat (OSMemNBlks ?pm)"
    using card_image_le [of "{..<unat (OSMemNBlks ?pm)}" "block_at ?pm"] by (simp add: blocks_def)
  finally have room: "Suc (unat (OSMemNFree ?pm)) \<le> unat (OSMemNBlks ?pm)" using ok(5) by simp
  obtain w where w: "ptr_word (OSMemLink ?pm) = Inr w" "word_ptr w = OSMemLink ?pm"
  proof (cases ?fb)
    case Nil
    with ok(2) that [of 0] show ?thesis by (simp add: ptr_word_def word_ptr_def)
  next
    case (Cons c cs)
    then have "c \<in> blocks ?pm" "OSMemLink ?pm = BlkPtr c" using ok(2, 4) by auto
    with blocks_bounds(3) [OF ok(1)] that [of c] show ?thesis by (simp add: ptr_word_def word_ptr_def)
  qed
  define m where "m = put32 (bytes s) (unat b) w"
  let ?f = "\<lambda>pm. pm\<lparr>OSMemLink := BlkPtr b, OSMemNFree := OSMemNFree pm + 1\<rparr>"
  define s' where "s' = part_upd p ?f (s\<lparr>bytes := m\<rparr>)"
  have frame: "m i = bytes s i" if "i < unat b \<or> unat b + 4 \<le> i" for i unfolding m_def by (rule f32.wr_outside [OF that])
  have "free_chain m (OSMemLink ?pm) ?fb"
  proof (rule free_chain_frame [OF ok(2)])
    fix c i assume c: "c \<in> set ?fb" "unat c \<le> i" "i < unat c + 4"
    then have "unat b + unat (OSMemBlkSize ?pm) \<le> unat c \<or> unat c + unat (OSMemBlkSize ?pm) \<le> unat b"
      using assms(2, 3) ok(4) by (intro blocks_apart [OF ok(1)]) auto
    moreover have "4 \<le> unat (OSMemBlkSize ?pm)" using ok(1) by (simp add: part_placed_def)
    ultimately show "m i = bytes s i" using c(2, 3) by (intro frame) linarith
  qed
  then have chain: "free_chain m (BlkPtr b) (b # ?fb)" using w(2) by (simp add: m_def f32.rd_wr)
  have "unat (OSMemNFree ?pm + 1) = Suc (unat (OSMemNFree ?pm))"
    using room unsigned_less [of "OSMemNBlks ?pm", where ?'a = nat] by (simp add: unat_word_ariths)
  moreover have pm': "part_placed (OSMemTbl s' p)" "blocks (OSMemTbl s' p) = blocks ?pm"
    using placed_cong [of "?f ?pm" ?pm] ok(1) by (simp_all add: s'_def part_upd_def)
  moreover have "OSMemTbl s' p = ?f ?pm" "bytes s' = m" by (simp_all add: s'_def part_upd_def)
  ultimately have "part_ok p s'" "free_blocks p s' = b # ?fb"
    using chain assms(2, 3) ok(3-5) by (intro part_okI [where bs = "b # ?fb"]; simp)+
  moreover have "OSMemPut (Some p) b s = Inr (OS_ERR_NONE, s')"
  proof -
    have "\<not> OSMemNFree ?pm \<ge> OSMemNBlks ?pm" using room by (simp add: word_le_nat_alt)
    then show ?thesis using b w(1) by (simp add: OSMemPut_def s'_def m_def)
  qed
  moreover have "same_part p s s'" using pm'(2) by (simp add: same_part_def s'_def part_upd_def)
  ultimately show ?thesis using frame by (simp add: s'_def)
qed

text \<open>Whoever holds a block may write to all of it.\<close>

lemma block_write_ok:
  assumes "part_ok p s" "b \<in> blocks (OSMemTbl s p)" "b \<notin> set (free_blocks p s)"
    and "\<And>i. i < unat b \<or> unat b + unat (OSMemBlkSize (OSMemTbl s p)) \<le> i \<Longrightarrow> m i = bytes s i"
  shows "part_ok p (s\<lparr>bytes := m\<rparr>)" "free_blocks p (s\<lparr>bytes := m\<rparr>) = free_blocks p s"
proof -
  note ok = part_okD [OF assms(1)]
  let ?pm = "OSMemTbl s p" and ?fb = "free_blocks p s"
  have "free_chain m (OSMemLink ?pm) ?fb"
  proof (rule free_chain_frame [OF ok(2)])
    fix c i assume c: "c \<in> set ?fb" "unat c \<le> i" "i < unat c + 4"
    then have "unat b + unat (OSMemBlkSize ?pm) \<le> unat c \<or> unat c + unat (OSMemBlkSize ?pm) \<le> unat b"
      using assms(2, 3) ok(4) by (intro blocks_apart [OF ok(1)]) auto
    moreover have "4 \<le> unat (OSMemBlkSize ?pm)" using ok(1) by (simp add: part_placed_def)
    ultimately show "m i = bytes s i" using c(2, 3) by (intro assms(4)) linarith
  qed
  then show "part_ok p (s\<lparr>bytes := m\<rparr>)" "free_blocks p (s\<lparr>bytes := m\<rparr>) = free_blocks p s"
    using ok by (intro part_okI [where bs = ?fb]; simp)+
qed

end
