(* ===== verification/Os_Mem_Props.thy ===== *)
theory Os_Mem_Props
  imports Os_Mem
begin

text \<open>
  The memory partitions meet the contract of an allocator, and what follows from it.
\<close>

section \<open>Creating a partition\<close>

lemma block_at_Suc: "block_at pm (Suc i) = block_at pm i + OSMemBlkSize pm"
  by (simp add: block_at_def algebra_simps)

lemma link_blocks_chain:
  assumes "part_placed pm" "i + Suc n = unat (OSMemNBlks pm)"
  shows "let m' = link_blocks n (block_at pm i) (block_at pm (Suc i)) (OSMemBlkSize pm) m in
    free_chain m' (BlkPtr (block_at pm i)) (map (block_at pm) [i..<unat (OSMemNBlks pm)])
    \<and> (\<forall>k. k < unat (block_at pm i) \<or> unat (OSMemAddr pm) + unat (OSMemNBlks pm) * unat (OSMemBlkSize pm) \<le> k \<longrightarrow> m' k = m k)"
  using assms(2) unfolding Let_def
proof (induction n arbitrary: i m)
  case 0
  then have "block_at pm i \<in> blocks pm" by (auto simp: blocks_def)
  note bb = blocks_bounds(2) [OF assms(1) this]
  have "[i..<unat (OSMemNBlks pm)] = [i]" using 0 by (simp flip: 0)
  moreover have "4 \<le> unat (OSMemBlkSize pm)" using assms(1) by (simp add: part_placed_def)
  ultimately show ?case using bb by (auto simp: f32.rd_wr word_ptr_def intro!: f32.wr_outside)
next
  case (Suc n)
  let ?b = "block_at pm i" and ?c = "block_at pm (Suc i)"
  define m1 where "m1 = put32 m (unat ?b) ?c"
  define m2 where "m2 = link_blocks n ?c (block_at pm (Suc (Suc i))) (OSMemBlkSize pm) m1"
  have in_blocks: "?b \<in> blocks pm" "?c \<in> blocks pm" using Suc.prems by (auto simp: blocks_def)
  note bb = blocks_bounds [OF assms(1) in_blocks(1)] and bc = blocks_bounds [OF assms(1) in_blocks(2)]
  have size4: "4 \<le> unat (OSMemBlkSize pm)" using assms(1) by (simp add: part_placed_def)
  have step: "unat ?c = unat ?b + unat (OSMemBlkSize pm)"
    using block_at_unat [OF assms(1), of i] block_at_unat [OF assms(1), of "Suc i"] Suc.prems by simp
  from Suc.IH [of "Suc i" m1] Suc.prems have
    IH: "free_chain m2 (BlkPtr ?c) (map (block_at pm) [Suc i..<unat (OSMemNBlks pm)])"
      "\<And>k. k < unat ?c \<or> unat (OSMemAddr pm) + unat (OSMemNBlks pm) * unat (OSMemBlkSize pm) \<le> k \<Longrightarrow> m2 k = m1 k"
    by (auto simp: m2_def)
  have "get32 m2 (unat ?b) = get32 m1 (unat ?b)"
    using step size4 by (intro f32.rd_bytes IH(2)) auto
  also have "\<dots> = ?c" by (simp add: m1_def f32.rd_wr)
  finally have "word_ptr (get32 m2 (unat ?b)) = BlkPtr ?c" using bc(3) by (simp add: word_ptr_def)
  moreover have "[i..<unat (OSMemNBlks pm)] = i # [Suc i..<unat (OSMemNBlks pm)]" using Suc.prems by (simp add: upt_conv_Cons)
  ultimately have chain: "free_chain m2 (BlkPtr ?b) (map (block_at pm) [i..<unat (OSMemNBlks pm)])" using IH(1) by simp
  have "m2 k = m k" if "k < unat ?b \<or> unat (OSMemAddr pm) + unat (OSMemNBlks pm) * unat (OSMemBlkSize pm) \<le> k" for k
  proof -
    have "m2 k = m1 k" using that step by (intro IH(2)) auto
    also have "m1 k = m k" unfolding m1_def using that bb(2) size4 by (intro f32.wr_outside) linarith
    finally show ?thesis .
  qed
  moreover have "link_blocks (Suc n) ?b ?c (OSMemBlkSize pm) m = m2"
    by (simp add: m2_def m1_def block_at_Suc [of pm "Suc i"])
  ultimately show ?case using chain by simp
qed

lemma mem_create_effect:
  assumes "addr \<noteq> 0" "addr AND 3 = 0" "2 \<le> unat nblks" "4 \<le> unat blksize"
    and "unat addr + unat nblks * unat blksize < 2 ^ 32" "OSMemFreeList s = Some p"
    and "OSMemLink (OSMemTbl s p) = (case nxt of None \<Rightarrow> PNull | Some q \<Rightarrow> PartPtr q)"
  shows "\<exists>s'. OSMemCreate addr nblks blksize s = Inr ((Some p, OS_ERR_NONE), s') \<and> part_ok p s'
    \<and> free_blocks p s' = map (\<lambda>i. addr + of_nat i * blksize) [0..<unat nblks] \<and> OSMemFreeList s' = nxt
    \<and> (\<forall>k. k < unat addr \<or> unat addr + unat nblks * unat blksize \<le> k \<longrightarrow> bytes s' k = bytes s k)
    \<and> (\<forall>q. q \<noteq> p \<longrightarrow> OSMemTbl s' q = OSMemTbl s q)"
proof -
  let ?f = "\<lambda>pmem. pmem\<lparr>OSMemAddr := addr, OSMemLink := BlkPtr addr, OSMemNFree := nblks, OSMemNBlks := nblks, OSMemBlkSize := blksize\<rparr>"
  define m where "m = link_blocks (unat (nblks - 1)) addr (addr + blksize) blksize (bytes s)"
  define s' where "s' = part_upd p ?f (s\<lparr>OSMemFreeList := nxt, bytes := m\<rparr>)"
  define pm where "pm = OSMemTbl s' p"
  have pm: "OSMemAddr pm = addr" "OSMemNBlks pm = nblks" "OSMemBlkSize pm = blksize" "OSMemLink pm = BlkPtr addr" "OSMemNFree pm = nblks"
    by (simp_all add: pm_def s'_def part_upd_def)
  have placed: "part_placed pm" using assms(1, 4, 5) by (simp add: part_placed_def pm)
  have at: "block_at pm 0 = addr" "block_at pm (Suc 0) = addr + blksize" "block_at pm = (\<lambda>i. addr + of_nat i * blksize)"
    by (simp_all add: block_at_def pm fun_eq_iff)
  have "nblks \<noteq> 0" using assms(3) by auto
  then have n: "Suc (unat (nblks - 1)) = unat nblks" using assms(3) by (simp add: unat_minus_one)
  have lb: "free_chain m (BlkPtr addr) (map (block_at pm) [0..<unat nblks])
      \<and> (\<forall>k. k < unat addr \<or> unat addr + unat nblks * unat blksize \<le> k \<longrightarrow> m k = bytes s k)"
    using link_blocks_chain [OF placed, of 0 "unat (nblks - 1)" "bytes s"] n by (simp add: pm at m_def Let_def)
  have "inj_on (block_at pm) {..<unat nblks}"
  proof (rule inj_onI)
    fix i j assume "i \<in> {..<unat nblks}" "j \<in> {..<unat nblks}" "block_at pm i = block_at pm j"
    then have "i * unat blksize = j * unat blksize"
      using block_at_unat [OF placed, of i] block_at_unat [OF placed, of j] by (auto simp: pm)
    moreover have "unat blksize \<noteq> 0" using assms(4) by linarith
    ultimately show "i = j" by auto
  qed
  then have "distinct (map (block_at pm) [0..<unat nblks])" by (simp add: distinct_map atLeast0LessThan)
  moreover have "set (map (block_at pm) [0..<unat nblks]) \<subseteq> blocks pm" by (auto simp: blocks_def pm)
  moreover have "bytes s' = m" by (simp add: s'_def)
  ultimately have ok: "part_ok p s'" "free_blocks p s' = map (block_at pm) [0..<unat nblks]"
    using placed lb by (intro part_okI [where bs = "map (block_at pm) [0..<unat nblks]"]; simp add: pm flip: pm_def)+
  have "OSMemCreate addr nblks blksize s = Inr ((Some p, OS_ERR_NONE), s')"
    using assms by (simp add: OSMemCreate_def s'_def m_def word_less_nat_alt Let_def split: option.splits)
  with ok lb show ?thesis by (simp add: s'_def at(3) part_upd_def)
qed

text \<open>Creating a partition of \<open>nblks\<close> blocks that fits the address space gives a partition all of whose
  blocks are free, linked in ascending order, and changes no byte outside them.\<close>
lemma mem_create_correct:
  assumes "addr \<noteq> 0" "addr AND 3 = 0" "2 \<le> unat nblks" "4 \<le> unat blksize"
    and "unat addr + unat nblks * unat blksize < 2 ^ 32" "OSMemFreeList s = Some p"
    and "OSMemLink (OSMemTbl s p) = (case nxt of None \<Rightarrow> PNull | Some q \<Rightarrow> PartPtr q)"
  shows "\<exists>s'. OSMemCreate addr nblks blksize s = Inr ((Some p, OS_ERR_NONE), s') \<and> part_ok p s'
    \<and> free_blocks p s' = map (\<lambda>i. addr + of_nat i * blksize) [0..<unat nblks] \<and> OSMemFreeList s' = nxt
    \<and> (\<forall>k. k < unat addr \<or> unat addr + unat nblks * unat blksize \<le> k \<longrightarrow> bytes s' k = bytes s k)
    \<and> (\<forall>q. q \<noteq> p \<longrightarrow> OSMemTbl s' q = OSMemTbl s q)"
  using assms by (rule mem_create_effect)

definition demo_pool :: pool where
  "demo_pool = OS_MemInit \<lparr>OSMemTbl = (\<lambda>i. \<lparr>OSMemAddr = 0, OSMemLink = PNull, OSMemBlkSize = 0, OSMemNBlks = 0,
     OSMemNFree = 0, OSMemName = []\<rparr>), OSMemFreeList = None, bytes = (\<lambda>a. 0)\<rparr>"

theorem mem_create_correct_witness:
  "\<exists>s'. OSMemCreate 0x20000000 3 8 demo_pool = Inr ((Some 0, OS_ERR_NONE), s') \<and> part_ok 0 s'
    \<and> free_blocks 0 s' = map (\<lambda>i. 0x20000000 + of_nat i * 8) [0..<unat (3 :: u32)] \<and> OSMemFreeList s' = Some 1
    \<and> (\<forall>k. k < unat (0x20000000 :: u32) \<or> unat (0x20000000 :: u32) + unat (3 :: u32) * unat (8 :: u32) \<le> k
        \<longrightarrow> bytes s' k = bytes demo_pool k)
    \<and> (\<forall>q. q \<noteq> 0 \<longrightarrow> OSMemTbl s' q = OSMemTbl demo_pool q)"
  by (rule mem_create_correct [where nxt = "Some 1"]) (simp_all add: demo_pool_def OS_MemInit_def OS_MAX_MEM_PART_def)

section \<open>The partition as an allocator\<close>

text \<open>A request after which the client writes to its block what it likes; a return; what is out.\<close>

definition alloc_mem :: "(nat \<Rightarrow> mem \<Rightarrow> mem) \<Rightarrow> nat \<Rightarrow> pool \<Rightarrow> (nat \<times> pool) option" where
  "alloc_mem wr p s =
     (case OSMemGet (Some p) s of
        Inr ((BlkPtr b, err), s') \<Rightarrow> Some (unat b, s'\<lparr>bytes := wr (unat b) (bytes s')\<rparr>)
      | _ \<Rightarrow> None)"

definition release_mem :: "nat \<Rightarrow> nat \<Rightarrow> pool \<Rightarrow> pool" where
  "release_mem p n s = (case OSMemPut (Some p) (of_nat n) s of Inr (err, s') \<Rightarrow> s' | Inl f \<Rightarrow> s)"

definition part_range :: "nat \<Rightarrow> pool \<Rightarrow> nat \<Rightarrow> bool" where
  "part_range p s n \<longleftrightarrow> n \<in> unat ` blocks (OSMemTbl s p)"

definition used_mem :: "nat \<Rightarrow> pool \<Rightarrow> nat \<Rightarrow> bool" where
  "used_mem p s n \<longleftrightarrow> part_range p s n \<and> of_nat n \<notin> set (free_blocks p s)"

definition part_inv :: "nat \<Rightarrow> nat \<Rightarrow> pool \<Rightarrow> bool" where
  "part_inv p k s \<longleftrightarrow> part_ok p s \<and> unat (OSMemBlkSize (OSMemTbl s p)) = k"

text \<open>The client writes within \<open>k\<close> bytes of its block.\<close>

definition writes_inside :: "nat \<Rightarrow> (nat \<Rightarrow> mem \<Rightarrow> mem) \<Rightarrow> bool" where
  "writes_inside k wr \<longleftrightarrow> (\<forall>b m i. i < b \<or> b + k \<le> i \<longrightarrow> wr b m i = m i)"

lemma used_mem_unat: "used_mem p s (unat b) \<longleftrightarrow> b \<in> blocks (OSMemTbl s p) \<and> b \<notin> set (free_blocks p s)"
  by (auto simp: used_mem_def part_range_def image_iff simp flip: word_unat_eq_iff)

lemma same_part_range: "same_part p s s' \<Longrightarrow> part_range p s' = part_range p s"
  by (simp add: same_part_def part_range_def fun_eq_iff)

lemma alloc_mem_effect:
  assumes "part_inv p k s" "writes_inside k wr"
  shows "free_blocks p s = [] \<Longrightarrow> alloc_mem wr p s = None"
    "free_blocks p s = b # bs \<Longrightarrow> \<exists>s'. alloc_mem wr p s = Some (unat b, s') \<and> part_inv p k s' \<and> free_blocks p s' = bs
       \<and> part_range p s' = part_range p s"
proof -
  have ok: "part_ok p s" "unat (OSMemBlkSize (OSMemTbl s p)) = k" using assms(1) by (simp_all add: part_inv_def)
  show "alloc_mem wr p s = None" if "free_blocks p s = []"
    using OSMemGet_effect(1) [OF ok(1) that] by (simp add: alloc_mem_def)
  show "\<exists>s'. alloc_mem wr p s = Some (unat b, s') \<and> part_inv p k s' \<and> free_blocks p s' = bs
       \<and> part_range p s' = part_range p s" if fb: "free_blocks p s = b # bs"
  proof -
    from OSMemGet_effect(2) [OF ok(1) fb] obtain s1 where
      s1: "OSMemGet (Some p) s = Inr ((BlkPtr b, OS_ERR_NONE), s1)" "part_ok p s1" "free_blocks p s1 = bs" "same_part p s s1" by blast
    have b: "b \<in> blocks (OSMemTbl s1 p)" "b \<notin> set (free_blocks p s1)"
      using part_okD(3, 4) [OF ok(1)] s1(3, 4) fb by (auto simp: same_part_def)
    have k: "unat (OSMemBlkSize (OSMemTbl s1 p)) = k" using ok(2) s1(4) by (simp add: same_part_def)
    let ?m = "wr (unat b) (bytes s1)"
    have "?m i = bytes s1 i" if "i < unat b \<or> unat b + unat (OSMemBlkSize (OSMemTbl s1 p)) \<le> i" for i
      using assms(2) that k by (auto simp: writes_inside_def)
    note block_write_ok [OF s1(2) b this]
    with s1 k same_part_range [OF s1(4)] show ?thesis by (simp add: alloc_mem_def part_inv_def part_range_def fun_eq_iff)
  qed
qed

lemma release_mem_effect:
  assumes "part_inv p k s" "used_mem p s n"
  shows "part_inv p k (release_mem p n s)" "part_range p (release_mem p n s) = part_range p s"
    "free_blocks p (release_mem p n s) = of_nat n # free_blocks p s"
proof -
  obtain b where b: "n = unat b" "b \<in> blocks (OSMemTbl s p)" "b \<notin> set (free_blocks p s)"
    using assms(2) by (auto simp: used_mem_def part_range_def)
  from OSMemPut_effect [OF _ b(2, 3)] assms(1) obtain s' where
    s': "OSMemPut (Some p) b s = Inr (OS_ERR_NONE, s')" "part_ok p s'" "free_blocks p s' = b # free_blocks p s" "same_part p s s'"
    by (auto simp: part_inv_def)
  then show "part_inv p k (release_mem p n s)" "part_range p (release_mem p n s) = part_range p s"
    "free_blocks p (release_mem p n s) = of_nat n # free_blocks p s"
    using assms(1) b(1) same_part_range [OF s'(4)] by (simp_all add: release_mem_def part_inv_def same_part_def)
qed

lemma partition_allocator:
  assumes "writes_inside k wr"
  shows "allocator (alloc_mem wr p) (release_mem p) (used_mem p) (part_range p) (part_inv p k)"
proof
  fix s s' n j assume inv: "part_inv p k s" and al: "alloc_mem wr p s = Some (n, s')"
  note D = part_okD [of p s]
  obtain b bs where fb: "free_blocks p s = b # bs" using al alloc_mem_effect(1) [OF inv assms] by (cases "free_blocks p s") auto
  from alloc_mem_effect(2) [OF inv assms fb] al have
    e: "n = unat b" "part_inv p k s'" "free_blocks p s' = bs" "part_range p s' = part_range p s" by auto
  then show "part_inv p k s' \<and> part_range p s' = part_range p s" by simp
  have "b \<in> blocks (OSMemTbl s p)" "b \<notin> set bs" using D(3, 4) inv fb by (auto simp: part_inv_def)
  then show "part_range p s n \<and> \<not> used_mem p s n" using e(1) fb by (simp add: used_mem_unat) (simp add: part_range_def)
  show "used_mem p s' j \<longleftrightarrow> j = n \<or> used_mem p s j"
  proof (cases "part_range p s j")
    case True
    then obtain c :: u32 where "j = unat c" by (auto simp: part_range_def)
    then show ?thesis using e True fb \<open>b \<notin> set bs\<close> by (auto simp: used_mem_def simp flip: word_unat_eq_iff)
  next
    case False
    then show ?thesis using e \<open>b \<in> blocks (OSMemTbl s p)\<close> by (auto simp: used_mem_def part_range_def)
  qed
next
  fix s n assume inv: "part_inv p k s" "alloc_mem wr p s = None" and r: "part_range p s n"
  have "free_blocks p s = []" using inv(2) alloc_mem_effect(2) [OF inv(1) assms] by (cases "free_blocks p s") auto
  with r show "used_mem p s n" by (simp add: used_mem_def)
next
  fix s n j assume inv: "part_inv p k s" "part_range p s n" "used_mem p s n"
  note e = release_mem_effect [OF inv(1, 3)]
  show "part_inv p k (release_mem p n s) \<and> part_range p (release_mem p n s) = part_range p s" using e by simp
  show "used_mem p (release_mem p n s) j \<longleftrightarrow> j \<noteq> n \<and> used_mem p s j"
  proof (cases "part_range p s j")
    case True
    then obtain c b :: u32 where "j = unat c" "n = unat b" using inv(2) by (auto simp: part_range_def)
    then show ?thesis using e True by (auto simp: used_mem_def simp flip: word_unat_eq_iff)
  qed (use e in \<open>simp add: used_mem_def\<close>)
qed

text \<open>An instance: every client fills the first word of its block.\<close>

definition fill_word :: "nat \<Rightarrow> mem \<Rightarrow> mem" where
  "fill_word b m = put32 m b 0xFFFFFFFF"

lemma fill_word_inside: "4 \<le> k \<Longrightarrow> writes_inside k fill_word"
  by (auto simp: writes_inside_def fill_word_def intro!: f32.wr_outside)

interpretation filled_partition: allocator "alloc_mem fill_word p" "release_mem p" "used_mem p" "part_range p" "part_inv p 8" for p
  by (rule partition_allocator [OF fill_word_inside]) simp

text \<open>C27: Over any sequence of \<open>OSMemGet\<close> and \<open>OSMemPut\<close> in which a client returns only blocks it holds, and
  writes to a block it has got whatever it likes, no block is handed out twice: the blocks held are distinct, are blocks of the partition, do not
  overlap, and are exactly those in use beyond the ones in use at the start.\<close>
theorem mem_blocks_never_shared:
  assumes "part_ok p s" "writes_inside (unat (OSMemBlkSize (OSMemTbl s p))) wr"
    and "run_ops (alloc_mem wr p) (release_mem p) ops [] s = (held, s')"
  shows "part_ok p s' \<and> distinct held
    \<and> (\<forall>a \<in> set held. a \<in> unat ` blocks (OSMemTbl s p) \<and> of_nat a \<in> set (free_blocks p s))
    \<and> (\<forall>a \<in> set held. \<forall>b \<in> set held. a \<noteq> b \<longrightarrow>
         a + unat (OSMemBlkSize (OSMemTbl s p)) \<le> b \<or> b + unat (OSMemBlkSize (OSMemTbl s p)) \<le> a)
    \<and> (\<forall>k. used_mem p s' k \<longleftrightarrow> k \<in> set held \<or> used_mem p s k)"
proof -
  have "part_inv p (unat (OSMemBlkSize (OSMemTbl s p))) s" using assms(1) by (simp add: part_inv_def)
  from allocator.run_ops_held [OF partition_allocator [OF assms(2)] assms(3) this, of "used_mem p s"]
  have r: "part_ok p s'" "distinct held" "\<And>a. a \<in> set held \<Longrightarrow> part_range p s a \<and> \<not> used_mem p s a"
    "\<And>k. used_mem p s' k \<longleftrightarrow> k \<in> set held \<or> used_mem p s k" by (auto simp: part_inv_def)
  have mem: "a \<in> unat ` blocks (OSMemTbl s p) \<and> of_nat a \<in> set (free_blocks p s)" if "a \<in> set held" for a
    using r(3) [OF that] by (auto simp: used_mem_def part_range_def)
  have "a + unat (OSMemBlkSize (OSMemTbl s p)) \<le> b \<or> b + unat (OSMemBlkSize (OSMemTbl s p)) \<le> a"
    if "a \<in> set held" "b \<in> set held" "a \<noteq> b" for a b
    using mem [OF that(1)] mem [OF that(2)] that(3) blocks_apart [OF part_okD(1) [OF assms(1)]] by blast
  with r mem show ?thesis by blast
qed

definition demo_partition :: pool where
  "demo_partition = snd (projr (OSMemCreate 0x20000000 3 8 demo_pool))"

lemma demo_partition_ok: "part_ok 0 demo_partition" "unat (OSMemBlkSize (OSMemTbl demo_partition 0)) = 8"
proof -
  have "\<exists>s'. OSMemCreate 0x20000000 3 8 demo_pool = Inr ((Some 0, OS_ERR_NONE), s') \<and> part_ok 0 s'"
    using mem_create_effect [of "0x20000000" 3 8 demo_pool 0 "Some 1"]
    by (auto simp: demo_pool_def OS_MemInit_def OS_MAX_MEM_PART_def)
  then show "part_ok 0 demo_partition" by (auto simp: demo_partition_def)
  show "unat (OSMemBlkSize (OSMemTbl demo_partition 0)) = 8"
    by (simp add: demo_partition_def OSMemCreate_def demo_pool_def OS_MemInit_def OS_MAX_MEM_PART_def part_upd_def)
qed

theorem mem_blocks_never_shared_witness:
  "distinct (fst (run_ops (alloc_mem fill_word 0) (release_mem 0) [Take, Take, Give 0x20000000, Take] [] demo_partition))"
  by (rule mem_blocks_never_shared [OF demo_partition_ok(1) _ surjective_pairing, THEN conjunct2, THEN conjunct1])
    (simp add: demo_partition_ok(2) fill_word_inside)

end
