(* ===== verification/Os_Tmr.thy ===== *)
theory Os_Tmr
  imports Os_Task_Ext
begin

text \<open>
  The software timers of the uC/OS-II kernel, \<open>os_tmr.c\<close>: a pool of 16 timers and a wheel of 8 spokes, each
  a doubly linked list of the running timers whose expiry time is congruent to the number of the spoke.
  A timer is named by its index in \<open>OSTmrTbl\<close>; a callback by a number, and its calls are recorded in the
  order in which they are made. Callbacks run with the timers locked, so they do not call this module.
\<close>

section \<open>State\<close>

record tmr =
  OSTmrType :: u8
  OSTmrCallback :: "nat option"
  OSTmrCallbackArg :: vptr
  OSTmrNext :: "nat option"
  OSTmrPrev :: "nat option"
  OSTmrMatch :: u32
  OSTmrDly :: u32
  OSTmrPeriod :: u32
  OSTmrName :: "u8 list"
  OSTmrOpt :: u8
  OSTmrState :: u8

record wheel =
  OSTmrFirst :: "nat option"
  OSTmrEntries :: u16

record tmrs =
  OSTmrTbl :: "nat \<Rightarrow> tmr"
  OSTmrWheelTbl :: "nat \<Rightarrow> wheel"
  OSTmrTime :: u32
  OSTmrUsed :: u16
  OSTmrFree :: u16
  OSTmrFreeList :: "nat option"
  OSTmrSem :: "nat option"
  OSTmrSemSignal :: "nat option"
  calls :: "(nat \<times> nat \<times> vptr) list"

abbreviation OS_TMR_TYPE :: u8 where "OS_TMR_TYPE \<equiv> 100"
abbreviation OS_TMR_OPT_NONE :: u8 where "OS_TMR_OPT_NONE \<equiv> 0"
abbreviation OS_TMR_OPT_ONE_SHOT :: u8 where "OS_TMR_OPT_ONE_SHOT \<equiv> 1"
abbreviation OS_TMR_OPT_PERIODIC :: u8 where "OS_TMR_OPT_PERIODIC \<equiv> 2"
abbreviation OS_TMR_OPT_CALLBACK :: u8 where "OS_TMR_OPT_CALLBACK \<equiv> 3"
abbreviation OS_TMR_OPT_CALLBACK_ARG :: u8 where "OS_TMR_OPT_CALLBACK_ARG \<equiv> 4"
abbreviation OS_TMR_STATE_UNUSED :: u8 where "OS_TMR_STATE_UNUSED \<equiv> 0"
abbreviation OS_TMR_STATE_STOPPED :: u8 where "OS_TMR_STATE_STOPPED \<equiv> 1"
abbreviation OS_TMR_STATE_COMPLETED :: u8 where "OS_TMR_STATE_COMPLETED \<equiv> 2"
abbreviation OS_TMR_STATE_RUNNING :: u8 where "OS_TMR_STATE_RUNNING \<equiv> 3"
abbreviation OS_ERR_TMR_INVALID_DLY :: u8 where "OS_ERR_TMR_INVALID_DLY \<equiv> 130"
abbreviation OS_ERR_TMR_INVALID_PERIOD :: u8 where "OS_ERR_TMR_INVALID_PERIOD \<equiv> 131"
abbreviation OS_ERR_TMR_INVALID_OPT :: u8 where "OS_ERR_TMR_INVALID_OPT \<equiv> 132"
abbreviation OS_ERR_TMR_NON_AVAIL :: u8 where "OS_ERR_TMR_NON_AVAIL \<equiv> 134"
abbreviation OS_ERR_TMR_INACTIVE :: u8 where "OS_ERR_TMR_INACTIVE \<equiv> 135"
abbreviation OS_ERR_TMR_INVALID_DEST :: u8 where "OS_ERR_TMR_INVALID_DEST \<equiv> 136"
abbreviation OS_ERR_TMR_INVALID_TYPE :: u8 where "OS_ERR_TMR_INVALID_TYPE \<equiv> 137"
abbreviation OS_ERR_TMR_INVALID :: u8 where "OS_ERR_TMR_INVALID \<equiv> 138"
abbreviation OS_ERR_TMR_ISR :: u8 where "OS_ERR_TMR_ISR \<equiv> 139"
abbreviation OS_ERR_TMR_NAME_TOO_LONG :: u8 where "OS_ERR_TMR_NAME_TOO_LONG \<equiv> 140"
abbreviation OS_ERR_TMR_INVALID_STATE :: u8 where "OS_ERR_TMR_INVALID_STATE \<equiv> 141"
abbreviation OS_ERR_TMR_STOPPED :: u8 where "OS_ERR_TMR_STOPPED \<equiv> 142"
abbreviation OS_ERR_TMR_NO_CALLBACK :: u8 where "OS_ERR_TMR_NO_CALLBACK \<equiv> 143"

definition OS_TMR_CFG_MAX :: nat where "OS_TMR_CFG_MAX = 16"
definition OS_TMR_CFG_WHEEL_SIZE :: nat where "OS_TMR_CFG_WHEEL_SIZE = 8"
abbreviation OS_TASK_TMR_PRIO :: u8 where "OS_TASK_TMR_PRIO \<equiv> 60"
abbreviation OS_TASK_TMR_ID :: u16 where "OS_TASK_TMR_ID \<equiv> 65533"
abbreviation OS_TASK_TMR_STK_SIZE :: u32 where "OS_TASK_TMR_STK_SIZE \<equiv> 128"

definition tmr_upd :: "nat \<Rightarrow> (tmr \<Rightarrow> tmr) \<Rightarrow> tmrs \<Rightarrow> tmrs" where
  "tmr_upd t f s = s\<lparr>OSTmrTbl := (OSTmrTbl s)(t := f (OSTmrTbl s t))\<rparr>"

definition spoke_upd :: "nat \<Rightarrow> (wheel \<Rightarrow> wheel) \<Rightarrow> tmrs \<Rightarrow> tmrs" where
  "spoke_upd i f s = s\<lparr>OSTmrWheelTbl := (OSTmrWheelTbl s)(i := f (OSTmrWheelTbl s i))\<rparr>"

definition spoke_of :: "u32 \<Rightarrow> nat" where
  "spoke_of w = unat w mod OS_TMR_CFG_WHEEL_SIZE"

section \<open>The pool and the wheel\<close>

definition OSTmr_Alloc :: "tmrs \<Rightarrow> nat option \<times> tmrs" where
  "OSTmr_Alloc s =
     (case OSTmrFreeList s of
        None \<Rightarrow> (None, s)
      | Some t \<Rightarrow>
          let s = s\<lparr>OSTmrFreeList := OSTmrNext (OSTmrTbl s t)\<rparr>;
              s = tmr_upd t (\<lambda>p. p\<lparr>OSTmrNext := None, OSTmrPrev := None\<rparr>) s
          in (Some t, s\<lparr>OSTmrUsed := OSTmrUsed s + 1, OSTmrFree := OSTmrFree s - 1\<rparr>))"

definition OSTmr_Free :: "nat \<Rightarrow> tmrs \<Rightarrow> tmrs" where
  "OSTmr_Free t s =
     (let s = tmr_upd t (\<lambda>p. p\<lparr>OSTmrState := OS_TMR_STATE_UNUSED, OSTmrOpt := OS_TMR_OPT_NONE, OSTmrPeriod := 0,
            OSTmrMatch := 0, OSTmrCallback := None, OSTmrCallbackArg := Null, OSTmrName := unknown_name,
            OSTmrPrev := None, OSTmrNext := OSTmrFreeList s\<rparr>) s
      in s\<lparr>OSTmrFreeList := Some t, OSTmrUsed := OSTmrUsed s - 1, OSTmrFree := OSTmrFree s + 1\<rparr>)"

definition OSTmr_Link :: "nat \<Rightarrow> bool \<Rightarrow> tmrs \<Rightarrow> tmrs" where
  "OSTmr_Link t periodic s =
     (let s = tmr_upd t (\<lambda>p. p\<lparr>OSTmrState := OS_TMR_STATE_RUNNING,
            OSTmrMatch := (if periodic then OSTmrPeriod p + OSTmrTime s
                           else if OSTmrDly p = 0 then OSTmrPeriod p + OSTmrTime s
                           else OSTmrDly p + OSTmrTime s)\<rparr>) s;
          spoke = spoke_of (OSTmrMatch (OSTmrTbl s t));
          s = (case OSTmrFirst (OSTmrWheelTbl s spoke) of
                 None \<Rightarrow>
                   let s = spoke_upd spoke (\<lambda>w. w\<lparr>OSTmrFirst := Some t\<rparr>) s;
                       s = tmr_upd t (\<lambda>p. p\<lparr>OSTmrNext := None\<rparr>) s
                   in spoke_upd spoke (\<lambda>w. w\<lparr>OSTmrEntries := 1\<rparr>) s
               | Some u \<Rightarrow>
                   let s = spoke_upd spoke (\<lambda>w. w\<lparr>OSTmrFirst := Some t\<rparr>) s;
                       s = tmr_upd t (\<lambda>p. p\<lparr>OSTmrNext := Some u\<rparr>) s;
                       s = tmr_upd u (\<lambda>p. p\<lparr>OSTmrPrev := Some t\<rparr>) s
                   in spoke_upd spoke (\<lambda>w. w\<lparr>OSTmrEntries := OSTmrEntries w + 1\<rparr>) s)
      in tmr_upd t (\<lambda>p. p\<lparr>OSTmrPrev := None\<rparr>) s)"

definition set_prev :: "nat option \<Rightarrow> nat option \<Rightarrow> tmrs \<Rightarrow> tmrs" where
  "set_prev r p s = (case r of None \<Rightarrow> s | Some u \<Rightarrow> tmr_upd u (\<lambda>q. q\<lparr>OSTmrPrev := p\<rparr>) s)"

definition OSTmr_Unlink :: "nat \<Rightarrow> tmrs \<Rightarrow> tmrs res" where
  "OSTmr_Unlink t s =
     (let spoke = spoke_of (OSTmrMatch (OSTmrTbl s t))
      in rbind (if OSTmrFirst (OSTmrWheelTbl s spoke) = Some t then
                  let n = OSTmrNext (OSTmrTbl s t)
                  in Inr (set_prev n None (spoke_upd spoke (\<lambda>w. w\<lparr>OSTmrFirst := n\<rparr>) s))
                else
                  case OSTmrPrev (OSTmrTbl s t) of
                    None \<Rightarrow> Inl NullDeref
                  | Some p \<Rightarrow>
                      let n = OSTmrNext (OSTmrTbl s t)
                      in Inr (set_prev n (Some p) (tmr_upd p (\<lambda>q. q\<lparr>OSTmrNext := n\<rparr>) s))) (\<lambda>s.
         let s = tmr_upd t (\<lambda>p. p\<lparr>OSTmrState := OS_TMR_STATE_STOPPED, OSTmrNext := None, OSTmrPrev := None\<rparr>) s
         in Inr (spoke_upd spoke (\<lambda>w. w\<lparr>OSTmrEntries := OSTmrEntries w - 1\<rparr>) s)))"

section \<open>The timer task\<close>

text \<open>One timer of the spoke of the current time.\<close>

definition fire :: "nat \<Rightarrow> tmrs \<Rightarrow> tmrs res" where
  "fire t s =
     (if OSTmrTime s = OSTmrMatch (OSTmrTbl s t) then
        let s = (case OSTmrCallback (OSTmrTbl s t) of
                   None \<Rightarrow> s
                 | Some f \<Rightarrow> s\<lparr>calls := calls s @ [(f, t, OSTmrCallbackArg (OSTmrTbl s t))]\<rparr>)
        in rbind (OSTmr_Unlink t s) (\<lambda>s.
           if OSTmrOpt (OSTmrTbl s t) = OS_TMR_OPT_PERIODIC then Inr (OSTmr_Link t True s)
           else Inr (tmr_upd t (\<lambda>p. p\<lparr>OSTmrState := OS_TMR_STATE_COMPLETED\<rparr>) s))
      else Inr s)"

text \<open>The walk along the spoke, which holds at most the 16 timers.\<close>

fun fire_all :: "nat \<Rightarrow> nat option \<Rightarrow> tmrs \<Rightarrow> tmrs res" where
  "fire_all fuel None s = Inr s"
| "fire_all 0 (Some t) s = Inl NoEnd"
| "fire_all (Suc fuel) (Some t) s =
     (let n = OSTmrNext (OSTmrTbl s t) in rbind (fire t s) (fire_all fuel n))"

text \<open>A round of \<open>OSTmr_Task\<close> between locking and unlocking the timers.\<close>

definition OSTmr_Task_round :: "tmrs \<Rightarrow> tmrs res" where
  "OSTmr_Task_round s =
     (let s = s\<lparr>OSTmrTime := OSTmrTime s + 1\<rparr>
      in fire_all OS_TMR_CFG_MAX (OSTmrFirst (OSTmrWheelTbl s (spoke_of (OSTmrTime s)))) s)"

section \<open>Locking\<close>

text \<open>Both ignore the error code.\<close>

definition OSTmr_Lock :: "tmrs \<Rightarrow> os \<Rightarrow> (u8 pend \<times> os) res" where
  "OSTmr_Lock s k = OSSemPend (OSTmrSem s) 0 k"

definition OSTmr_Unlock :: "tmrs \<Rightarrow> os \<Rightarrow> os res" where
  "OSTmr_Unlock s k = rbind (OSSemPost (OSTmrSem s) k) (\<lambda>(err, k). Inr k)"

definition OSTmrSignal :: "tmrs \<Rightarrow> os \<Rightarrow> (u8 \<times> os) res" where
  "OSTmrSignal s k = OSSemPost (OSTmrSemSignal s) k"

text \<open>What every call does with its body; a task that has to wait runs the body when it gets the semaphore.\<close>

definition locked :: "(tmrs \<Rightarrow> ('a \<times> tmrs) res) \<Rightarrow> tmrs \<Rightarrow> os \<Rightarrow> ('a pend \<times> tmrs \<times> os) res" where
  "locked f s k =
     rbind (OSTmr_Lock s k) (\<lambda>(r, k).
     case r of
       Waiting \<Rightarrow> Inr (Waiting, s, k)
     | Returned err \<Rightarrow> rbind (f s) (\<lambda>(a, s). rbind (OSTmr_Unlock s k) (\<lambda>k. Inr (Returned a, s, k))))"

text \<open>The checks of the calls on an existing timer.\<close>

definition on_timer :: "nat option \<Rightarrow> 'a \<Rightarrow> (nat \<Rightarrow> tmrs \<Rightarrow> (('a \<times> u8) \<times> tmrs) res) \<Rightarrow> tmrs \<Rightarrow> os
    \<Rightarrow> (('a \<times> u8) pend \<times> tmrs \<times> os) res" where
  "on_timer ptmr failed f s k =
     (case ptmr of
        None \<Rightarrow> Inr (Returned (failed, OS_ERR_TMR_INVALID), s, k)
      | Some t \<Rightarrow>
          if OSTmrType (OSTmrTbl s t) \<noteq> OS_TMR_TYPE then Inr (Returned (failed, OS_ERR_TMR_INVALID_TYPE), s, k)
          else if OSIntNesting k > 0 then Inr (Returned (failed, OS_ERR_TMR_ISR), s, k)
          else locked (f t) s k)"

section \<open>Calls\<close>

definition tmr_create :: "u32 \<Rightarrow> u32 \<Rightarrow> u8 \<Rightarrow> nat option \<Rightarrow> vptr \<Rightarrow> u8 list option \<Rightarrow> tmrs \<Rightarrow> ((nat option \<times> u8) \<times> tmrs) res" where
  "tmr_create dly period opt callback callback_arg pname s =
     (case OSTmr_Alloc s of
        (None, s) \<Rightarrow> Inr ((None, OS_ERR_TMR_NON_AVAIL), s)
      | (Some t, s) \<Rightarrow>
          let s = tmr_upd t (\<lambda>p. p\<lparr>OSTmrState := OS_TMR_STATE_STOPPED, OSTmrDly := dly, OSTmrPeriod := period, OSTmrOpt := opt,
                OSTmrCallback := callback, OSTmrCallbackArg := callback_arg\<rparr>) s
          in (case pname of
                None \<Rightarrow> Inr ((Some t, OS_ERR_NONE), s)
              | Some name \<Rightarrow>
                  if OS_StrLen name < 16 then
                    rbind (put_name name) (\<lambda>n. Inr ((Some t, OS_ERR_NONE), tmr_upd t (\<lambda>p. p\<lparr>OSTmrName := n\<rparr>) s))
                  else Inr ((Some t, OS_ERR_TMR_NAME_TOO_LONG), tmr_upd t (\<lambda>p. p\<lparr>OSTmrName := [0x23, 0]\<rparr>) s)))"

definition OSTmrCreate :: "u32 \<Rightarrow> u32 \<Rightarrow> u8 \<Rightarrow> nat option \<Rightarrow> vptr \<Rightarrow> u8 list option \<Rightarrow> tmrs \<Rightarrow> os
    \<Rightarrow> ((nat option \<times> u8) pend \<times> tmrs \<times> os) res" where
  "OSTmrCreate dly period opt callback callback_arg pname s k =
     (if opt = OS_TMR_OPT_PERIODIC \<and> period = 0 then Inr (Returned (None, OS_ERR_TMR_INVALID_PERIOD), s, k)
      else if opt = OS_TMR_OPT_ONE_SHOT \<and> dly = 0 then Inr (Returned (None, OS_ERR_TMR_INVALID_DLY), s, k)
      else if opt \<noteq> OS_TMR_OPT_PERIODIC \<and> opt \<noteq> OS_TMR_OPT_ONE_SHOT then Inr (Returned (None, OS_ERR_TMR_INVALID_OPT), s, k)
      else if OSIntNesting k > 0 then Inr (Returned (None, OS_ERR_TMR_ISR), s, k)
      else locked (tmr_create dly period opt callback callback_arg pname) s k)"

definition tmr_del :: "nat \<Rightarrow> tmrs \<Rightarrow> ((bool \<times> u8) \<times> tmrs) res" where
  "tmr_del t s =
     (let st = OSTmrState (OSTmrTbl s t)
      in if st = OS_TMR_STATE_RUNNING then
           rbind (OSTmr_Unlink t s) (\<lambda>s. Inr ((True, OS_ERR_NONE), OSTmr_Free t s))
         else if st = OS_TMR_STATE_STOPPED \<or> st = OS_TMR_STATE_COMPLETED then Inr ((True, OS_ERR_NONE), OSTmr_Free t s)
         else if st = OS_TMR_STATE_UNUSED then Inr ((False, OS_ERR_TMR_INACTIVE), s)
         else Inr ((False, OS_ERR_TMR_INVALID_STATE), s))"

definition OSTmrDel :: "nat option \<Rightarrow> tmrs \<Rightarrow> os \<Rightarrow> ((bool \<times> u8) pend \<times> tmrs \<times> os) res" where
  "OSTmrDel ptmr = on_timer ptmr False tmr_del"

definition tmr_start :: "nat \<Rightarrow> tmrs \<Rightarrow> ((bool \<times> u8) \<times> tmrs) res" where
  "tmr_start t s =
     (let st = OSTmrState (OSTmrTbl s t)
      in if st = OS_TMR_STATE_RUNNING then
           rbind (OSTmr_Unlink t s) (\<lambda>s. Inr ((True, OS_ERR_NONE), OSTmr_Link t False s))
         else if st = OS_TMR_STATE_STOPPED \<or> st = OS_TMR_STATE_COMPLETED then Inr ((True, OS_ERR_NONE), OSTmr_Link t False s)
         else if st = OS_TMR_STATE_UNUSED then Inr ((False, OS_ERR_TMR_INACTIVE), s)
         else Inr ((False, OS_ERR_TMR_INVALID_STATE), s))"

definition OSTmrStart :: "nat option \<Rightarrow> tmrs \<Rightarrow> os \<Rightarrow> ((bool \<times> u8) pend \<times> tmrs \<times> os) res" where
  "OSTmrStart ptmr = on_timer ptmr False tmr_start"

definition stop_callback :: "nat \<Rightarrow> vptr \<Rightarrow> tmrs \<Rightarrow> u8 \<times> tmrs" where
  "stop_callback t arg s =
     (case OSTmrCallback (OSTmrTbl s t) of
        None \<Rightarrow> (OS_ERR_TMR_NO_CALLBACK, s)
      | Some f \<Rightarrow> (OS_ERR_NONE, s\<lparr>calls := calls s @ [(f, t, arg)]\<rparr>))"

definition tmr_stop :: "u8 \<Rightarrow> vptr \<Rightarrow> nat \<Rightarrow> tmrs \<Rightarrow> ((bool \<times> u8) \<times> tmrs) res" where
  "tmr_stop opt callback_arg t s =
     (let st = OSTmrState (OSTmrTbl s t)
      in if st = OS_TMR_STATE_RUNNING then
           rbind (OSTmr_Unlink t s) (\<lambda>s.
           let (err, s) =
             (if opt = OS_TMR_OPT_CALLBACK then stop_callback t (OSTmrCallbackArg (OSTmrTbl s t)) s
              else if opt = OS_TMR_OPT_CALLBACK_ARG then stop_callback t callback_arg s
              else if opt = OS_TMR_OPT_NONE then (OS_ERR_NONE, s)
              else (OS_ERR_TMR_INVALID_OPT, s))
           in Inr ((True, err), s))
         else if st = OS_TMR_STATE_COMPLETED \<or> st = OS_TMR_STATE_STOPPED then Inr ((True, OS_ERR_TMR_STOPPED), s)
         else if st = OS_TMR_STATE_UNUSED then Inr ((False, OS_ERR_TMR_INACTIVE), s)
         else Inr ((False, OS_ERR_TMR_INVALID_STATE), s))"

definition OSTmrStop :: "nat option \<Rightarrow> u8 \<Rightarrow> vptr \<Rightarrow> tmrs \<Rightarrow> os \<Rightarrow> ((bool \<times> u8) pend \<times> tmrs \<times> os) res" where
  "OSTmrStop ptmr opt callback_arg = on_timer ptmr False (tmr_stop opt callback_arg)"

definition tmr_remain :: "nat \<Rightarrow> tmrs \<Rightarrow> ((u32 \<times> u8) \<times> tmrs) res" where
  "tmr_remain t s =
     (let p = OSTmrTbl s t; st = OSTmrState p
      in if st = OS_TMR_STATE_RUNNING then Inr ((OSTmrMatch p - OSTmrTime s, OS_ERR_NONE), s)
         else if st = OS_TMR_STATE_STOPPED then
           Inr ((if OSTmrOpt p = OS_TMR_OPT_PERIODIC \<and> OSTmrDly p = 0 then OSTmrPeriod p else OSTmrDly p, OS_ERR_NONE), s)
         else if st = OS_TMR_STATE_COMPLETED then Inr ((0, OS_ERR_NONE), s)
         else if st = OS_TMR_STATE_UNUSED then Inr ((0, OS_ERR_TMR_INACTIVE), s)
         else Inr ((0, OS_ERR_TMR_INVALID_STATE), s))"

definition OSTmrRemainGet :: "nat option \<Rightarrow> tmrs \<Rightarrow> os \<Rightarrow> ((u32 \<times> u8) pend \<times> tmrs \<times> os) res" where
  "OSTmrRemainGet ptmr = on_timer ptmr 0 tmr_remain"

definition tmr_state :: "nat \<Rightarrow> tmrs \<Rightarrow> ((u8 \<times> u8) \<times> tmrs) res" where
  "tmr_state t s =
     (let st = OSTmrState (OSTmrTbl s t)
      in Inr ((st, if st \<le> OS_TMR_STATE_RUNNING then OS_ERR_NONE else OS_ERR_TMR_INVALID_STATE), s))"

definition OSTmrStateGet :: "nat option \<Rightarrow> tmrs \<Rightarrow> os \<Rightarrow> ((u8 \<times> u8) pend \<times> tmrs \<times> os) res" where
  "OSTmrStateGet ptmr = on_timer ptmr 0 tmr_state"

definition tmr_name :: "nat \<Rightarrow> tmrs \<Rightarrow> (((u8 \<times> u8 list option) \<times> u8) \<times> tmrs) res" where
  "tmr_name t s =
     (let p = OSTmrTbl s t; st = OSTmrState p
      in if st = OS_TMR_STATE_RUNNING \<or> st = OS_TMR_STATE_STOPPED \<or> st = OS_TMR_STATE_COMPLETED then
           let (len, dest) = OS_StrCopy (OSTmrName p) in Inr (((len, Some dest), OS_ERR_NONE), s)
         else if st = OS_TMR_STATE_UNUSED then Inr (((0, None), OS_ERR_TMR_INACTIVE), s)
         else Inr (((0, None), OS_ERR_TMR_INVALID_STATE), s))"

definition OSTmrNameGet :: "nat option \<Rightarrow> bool \<Rightarrow> tmrs \<Rightarrow> os \<Rightarrow> (((u8 \<times> u8 list option) \<times> u8) pend \<times> tmrs \<times> os) res" where
  "OSTmrNameGet ptmr pdest s k =
     (if \<not> pdest then Inr (Returned ((0, None), OS_ERR_TMR_INVALID_DEST), s, k)
      else case ptmr of
        None \<Rightarrow> Inr (Returned ((0, None), OS_ERR_TMR_INVALID), s, k)
      | Some t \<Rightarrow>
          if OSTmrType (OSTmrTbl s t) \<noteq> OS_TMR_TYPE then Inr (Returned ((0, None), OS_ERR_TMR_INVALID_TYPE), s, k)
          else if OSIntNesting k > 0 then Inr (Returned ((0, None), OS_ERR_NAME_GET_ISR), s, k)
          else locked (tmr_name t) s k)"

section \<open>Start-up\<close>

definition OSTmr_InitTask :: "u32 \<Rightarrow> u32 \<Rightarrow> os \<Rightarrow> os res" where
  "OSTmr_InitTask psp pbos k =
     rbind (OSTaskCreateExt psp OS_TASK_TMR_PRIO OS_TASK_TMR_ID pbos OS_TASK_TMR_STK_SIZE Null 3 k) (\<lambda>(err, k).
     rbind (OSTaskNameSet OS_TASK_TMR_PRIO (Some (map (of_nat \<circ> of_char) ''uC/OS-II Tmr'')) k) (\<lambda>(err, k). Inr k))"

definition tmr0 :: tmr where
  "tmr0 = \<lparr>OSTmrType = OS_TMR_TYPE, OSTmrCallback = None, OSTmrCallbackArg = Null, OSTmrNext = None, OSTmrPrev = None,
     OSTmrMatch = 0, OSTmrDly = 0, OSTmrPeriod = 0, OSTmrName = unknown_name, OSTmrOpt = 0, OSTmrState = OS_TMR_STATE_UNUSED\<rparr>"

text \<open>The semaphores' names come before the task: \<open>OSEventNameSet\<close> is called with a name that fits.\<close>

definition name_event :: "nat option \<Rightarrow> string \<Rightarrow> os \<Rightarrow> os res" where
  "name_event e name k = rbind (OSEventNameSet e (Some (map (of_nat \<circ> of_char) name)) k) (\<lambda>(err, k). Inr k)"

definition OSTmr_Init :: "u32 \<Rightarrow> u32 \<Rightarrow> tmrs \<Rightarrow> os \<Rightarrow> (tmrs \<times> os) res" where
  "OSTmr_Init psp pbos s k =
     (let s = s\<lparr>OSTmrTbl := (\<lambda>i. if i < OS_TMR_CFG_MAX then tmr0\<lparr>OSTmrNext := if i + 1 < OS_TMR_CFG_MAX then Some (i + 1) else None\<rparr>
                   else OSTmrTbl s i),
                OSTmrWheelTbl := (\<lambda>i. if i < OS_TMR_CFG_WHEEL_SIZE then \<lparr>OSTmrFirst = None, OSTmrEntries = 0\<rparr> else OSTmrWheelTbl s i),
                OSTmrTime := 0, OSTmrUsed := 0, OSTmrFree := 16, OSTmrFreeList := Some 0\<rparr>
      in rbind (OSSemCreate 1 k) (\<lambda>(sem, k).
         rbind (OSSemCreate 0 k) (\<lambda>(sig, k).
         rbind (name_event sem ''OS-TmrLock'' k) (\<lambda>k.
         rbind (name_event sig ''OS-TmrSig'' k) (\<lambda>k.
         rbind (OSTmr_InitTask psp pbos k) (\<lambda>k. Inr (s\<lparr>OSTmrSem := sem, OSTmrSemSignal := sig\<rparr>, k)))))))"

end
