(* ===== verification/Linked_List.thy ===== *)
theory Linked_List
  imports Lkfs_Base
begin

text \<open>
  Linked lists in memory: a cell is named by a number, \<open>nxt\<close> and \<open>prv\<close> read its links. The list that starts at
  a cell, and what taking out a cell and putting one in front do to it.
\<close>

section \<open>Doubly linked lists\<close>

fun dlist :: "(nat \<Rightarrow> nat option) \<Rightarrow> (nat \<Rightarrow> nat option) \<Rightarrow> nat option \<Rightarrow> nat option \<Rightarrow> nat list \<Rightarrow> bool" where
  "dlist nxt prv p c [] \<longleftrightarrow> c = None"
| "dlist nxt prv p c (t # ts) \<longleftrightarrow> c = Some t \<and> prv t = p \<and> dlist nxt prv (Some t) (nxt t) ts"

fun slist :: "(nat \<Rightarrow> nat option) \<Rightarrow> nat option \<Rightarrow> nat list \<Rightarrow> bool" where
  "slist nxt c [] \<longleftrightarrow> c = None"
| "slist nxt c (t # ts) \<longleftrightarrow> c = Some t \<and> slist nxt (nxt t) ts"

definition hd_of :: "nat list \<Rightarrow> nat option" where
  "hd_of xs = (case xs of [] \<Rightarrow> None | x # _ \<Rightarrow> Some x)"

definition last_of :: "nat option \<Rightarrow> nat list \<Rightarrow> nat option" where
  "last_of p xs = (if xs = [] then p else Some (last xs))"

lemma hd_of_simps [simp]: "hd_of [] = None" "hd_of (x # xs) = Some x" "hd_of xs = None \<longleftrightarrow> xs = []"
  by (auto simp: hd_of_def split: list.splits)

lemma dlist_hd: "dlist nxt prv p c xs \<Longrightarrow> c = hd_of xs"
  by (cases xs) auto

lemma dlist_cong:
  assumes "\<And>t. t \<in> set xs \<Longrightarrow> nxt' t = nxt t \<and> prv' t = prv t"
  shows "dlist nxt' prv' p c xs = dlist nxt prv p c xs"
  using assms by (induction xs arbitrary: p c) auto

lemma slist_cong:
  assumes "\<And>t. t \<in> set xs \<Longrightarrow> nxt' t = nxt t"
  shows "slist nxt' c xs = slist nxt c xs"
  using assms by (induction xs arbitrary: c) auto

lemma dlist_next:
  "dlist nxt prv p c (xs @ t # ys) \<Longrightarrow> nxt t = hd_of ys \<and> prv t = last_of p xs"
proof (induction xs arbitrary: p c)
  case Nil
  then have ys: "dlist nxt prv (Some t) (nxt t) ys" by simp
  then show ?case using Nil dlist_hd [OF ys] by (simp add: last_of_def)
qed (auto simp: last_of_def)

text \<open>Taking one node out.\<close>

lemma dlist_tail:
  assumes "dlist nxt prv p (hd_of ys) ys" "distinct ys"
    and "\<And>u. u \<in> set ys \<Longrightarrow> nxt' u = nxt u"
    and "\<And>u. u \<in> set ys \<Longrightarrow> prv' u = (if hd_of ys = Some u then q else prv u)"
  shows "dlist nxt' prv' q (hd_of ys) ys"
proof (cases ys)
  case (Cons y zs)
  have "dlist nxt' prv' (Some y) (nxt y) zs = dlist nxt prv (Some y) (nxt y) zs"
    using assms Cons by (intro dlist_cong) auto
  then show ?thesis using assms Cons by auto
qed simp

lemma dlist_remove:
  assumes "dlist nxt prv p c (xs @ t # ys)" "distinct (xs @ t # ys)"
    and "\<And>u. u \<in> set (xs @ ys) \<Longrightarrow> nxt' u = (if last_of p xs = Some u \<and> u \<in> set xs then hd_of ys else nxt u)"
    and "\<And>u. u \<in> set (xs @ ys) \<Longrightarrow> prv' u = (if hd_of ys = Some u then last_of p xs else prv u)"
  shows "dlist nxt' prv' p (if xs = [] then hd_of ys else c) (xs @ ys)"
  using assms
proof (induction xs arbitrary: p c)
  case Nil
  then have ys: "dlist nxt prv (Some t) (nxt t) ys" by simp
  have "dlist nxt' prv' p (hd_of ys) ys"
  proof (rule dlist_tail)
    show "dlist nxt prv (Some t) (hd_of ys) ys" using ys dlist_hd [OF ys] by simp
    show "distinct ys" using Nil(2) by simp
    show "nxt' u = nxt u" if "u \<in> set ys" for u using Nil(3) [of u] that by simp
    show "prv' u = (if hd_of ys = Some u then p else prv u)" if "u \<in> set ys" for u
      using Nil(4) [of u] that by (simp add: last_of_def)
  qed
  then show ?case by simp
next
  case (Cons x xs)
  have hd_ys: "hd_of ys \<noteq> Some u" if "u \<in> set (x # xs)" for u
    using that Cons.prems(2) by (cases ys) auto
  have "dlist nxt' prv' (Some x) (if xs = [] then hd_of ys else nxt x) (xs @ ys)"
  proof (rule Cons.IH)
    show "dlist nxt prv (Some x) (nxt x) (xs @ t # ys)" "distinct (xs @ t # ys)" using Cons.prems by auto
    show "nxt' u = (if last_of (Some x) xs = Some u \<and> u \<in> set xs then hd_of ys else nxt u)"
      if "u \<in> set (xs @ ys)" for u
      using Cons.prems(2, 3) that by (auto simp: last_of_def)
    show "prv' u = (if hd_of ys = Some u then last_of (Some x) xs else prv u)"
      if "u \<in> set (xs @ ys)" for u
      using Cons.prems(4) that by (auto simp: last_of_def)
  qed
  moreover have "nxt' x = (if xs = [] then hd_of ys else nxt x)"
    using Cons.prems(2) Cons.prems(3) [of x] by (auto simp: last_of_def)
  moreover have "prv' x = p" using Cons.prems(1) Cons.prems(4) [of x] hd_ys [of x] by auto
  ultimately show ?case using Cons.prems(1) by auto
qed

lemma dlist_push:
  assumes "dlist nxt prv None c xs" "t \<notin> set xs" "distinct xs"
    and "\<And>u. u \<in> set xs \<Longrightarrow> nxt' u = nxt u"
    and "\<And>u. u \<in> set xs \<Longrightarrow> prv' u = (if c = Some u then Some t else prv u)"
    and "nxt' t = c" "prv' t = None"
  shows "dlist nxt' prv' None (Some t) (t # xs)"
  using dlist_tail [of nxt prv None xs nxt' prv' "Some t"] assms dlist_hd [OF assms(1)] by auto

end
