(* ===== verification/Os_Wheel.thy ===== *)
theory Os_Wheel
  imports Os_Tmr Linked_List
begin

text \<open>
  The well-formed timer module: the spokes are doubly linked lists that hold exactly the running timers, each in
  the spoke of its expiry time, the free list holds exactly the unused ones. What linking, unlinking, allocating
  and freeing do to these lists.
\<close>

text \<open>A spoke, linked both ways.\<close>

abbreviation tlist :: "(nat \<Rightarrow> tmr) \<Rightarrow> nat option \<Rightarrow> nat option \<Rightarrow> nat list \<Rightarrow> bool" where
  "tlist h \<equiv> dlist (\<lambda>t. OSTmrNext (h t)) (\<lambda>t. OSTmrPrev (h t))"

abbreviation flist :: "(nat \<Rightarrow> tmr) \<Rightarrow> nat option \<Rightarrow> nat list \<Rightarrow> bool" where
  "flist h \<equiv> slist (\<lambda>t. OSTmrNext (h t))"

section \<open>The well-formed module\<close>

definition tmr_ok :: "tmr \<Rightarrow> bool" where
  "tmr_ok p \<longleftrightarrow> OSTmrType p = OS_TMR_TYPE \<and> OSTmrState p \<le> OS_TMR_STATE_RUNNING
    \<and> (OSTmrState p \<noteq> OS_TMR_STATE_UNUSED \<longrightarrow>
        OSTmrOpt p = OS_TMR_OPT_PERIODIC \<and> OSTmrPeriod p \<noteq> 0 \<or> OSTmrOpt p = OS_TMR_OPT_ONE_SHOT \<and> OSTmrDly p \<noteq> 0)"

definition on_spoke :: "tmrs \<Rightarrow> nat \<Rightarrow> nat \<Rightarrow> bool" where
  "on_spoke s i t \<longleftrightarrow> t < OS_TMR_CFG_MAX \<and> OSTmrState (OSTmrTbl s t) = OS_TMR_STATE_RUNNING \<and> spoke_of (OSTmrMatch (OSTmrTbl s t)) = i"

definition spoke_ok :: "nat list \<Rightarrow> nat \<Rightarrow> tmrs \<Rightarrow> bool" where
  "spoke_ok xs i s \<longleftrightarrow> tlist (OSTmrTbl s) None (OSTmrFirst (OSTmrWheelTbl s i)) xs \<and> distinct xs
    \<and> OSTmrEntries (OSTmrWheelTbl s i) = of_nat (length xs) \<and> set xs = {t. on_spoke s i t}"

definition pool_ok :: "nat list \<Rightarrow> tmrs \<Rightarrow> bool" where
  "pool_ok fs s \<longleftrightarrow> flist (OSTmrTbl s) (OSTmrFreeList s) fs \<and> distinct fs
    \<and> set fs = {t. t < OS_TMR_CFG_MAX \<and> OSTmrState (OSTmrTbl s t) = OS_TMR_STATE_UNUSED}
    \<and> OSTmrFree s = of_nat (length fs) \<and> OSTmrUsed s = 16 - of_nat (length fs)"

definition wheel_ok :: "(nat \<Rightarrow> nat list) \<Rightarrow> nat list \<Rightarrow> tmrs \<Rightarrow> bool" where
  "wheel_ok W fs s \<longleftrightarrow> (\<forall>i < OS_TMR_CFG_WHEEL_SIZE. spoke_ok (W i) i s) \<and> pool_ok fs s \<and> (\<forall>t < OS_TMR_CFG_MAX. tmr_ok (OSTmrTbl s t))"

text \<open>A timer without its links, and what changes only one timer's other fields.\<close>

definition view :: "tmr \<Rightarrow> tmr" where
  "view p = p\<lparr>OSTmrNext := None, OSTmrPrev := None\<rparr>"

lemma view_simps [simp]:
  "OSTmrType (view p) = OSTmrType p" "OSTmrCallback (view p) = OSTmrCallback p" "OSTmrCallbackArg (view p) = OSTmrCallbackArg p"
  "OSTmrMatch (view p) = OSTmrMatch p" "OSTmrDly (view p) = OSTmrDly p" "OSTmrPeriod (view p) = OSTmrPeriod p"
  "OSTmrName (view p) = OSTmrName p" "OSTmrOpt (view p) = OSTmrOpt p" "OSTmrState (view p) = OSTmrState p"
  "view (p\<lparr>OSTmrNext := n\<rparr>) = view p" "view (p\<lparr>OSTmrPrev := n\<rparr>) = view p" "view (view p) = view p"
  "view (p\<lparr>OSTmrState := st\<rparr>) = (view p)\<lparr>OSTmrState := st\<rparr>" "view (p\<lparr>OSTmrMatch := m\<rparr>) = (view p)\<lparr>OSTmrMatch := m\<rparr>"
  by (simp_all add: view_def)

lemma tmr_ok_view [simp]: "tmr_ok (view p) = tmr_ok p"
  by (simp add: tmr_ok_def)

definition view_upd :: "nat \<Rightarrow> (tmr \<Rightarrow> tmr) \<Rightarrow> tmrs \<Rightarrow> tmrs \<Rightarrow> bool" where
  "view_upd t f s s' \<longleftrightarrow>
     (\<forall>u. view (OSTmrTbl s' u) = (if u = t then f (view (OSTmrTbl s u)) else view (OSTmrTbl s u)))
     \<and> OSTmrTime s' = OSTmrTime s \<and> calls s' = calls s \<and> OSTmrSem s' = OSTmrSem s \<and> OSTmrSemSignal s' = OSTmrSemSignal s"

lemma view_updD:
  assumes "view_upd t f s s'"
  shows "view (OSTmrTbl s' t) = f (view (OSTmrTbl s t))" "u \<noteq> t \<Longrightarrow> view (OSTmrTbl s' u) = view (OSTmrTbl s u)"
    "OSTmrTime s' = OSTmrTime s" "calls s' = calls s"
  using assms by (auto simp: view_upd_def)

lemma view_eqD:
  assumes "view p = view q"
  shows "OSTmrState p = OSTmrState q" "OSTmrMatch p = OSTmrMatch q" "tmr_ok p = tmr_ok q" "OSTmrOpt p = OSTmrOpt q"
    "OSTmrDly p = OSTmrDly q" "OSTmrPeriod p = OSTmrPeriod q" "OSTmrCallback p = OSTmrCallback q"
    "OSTmrCallbackArg p = OSTmrCallbackArg q"
proof -
  show "OSTmrState p = OSTmrState q" using arg_cong [OF assms, of OSTmrState] by simp
  show "OSTmrMatch p = OSTmrMatch q" using arg_cong [OF assms, of OSTmrMatch] by simp
  show "tmr_ok p = tmr_ok q" using arg_cong [OF assms, of tmr_ok] by simp
  show "OSTmrOpt p = OSTmrOpt q" using arg_cong [OF assms, of OSTmrOpt] by simp
  show "OSTmrDly p = OSTmrDly q" using arg_cong [OF assms, of OSTmrDly] by simp
  show "OSTmrPeriod p = OSTmrPeriod q" using arg_cong [OF assms, of OSTmrPeriod] by simp
  show "OSTmrCallback p = OSTmrCallback q" using arg_cong [OF assms, of OSTmrCallback] by simp
  show "OSTmrCallbackArg p = OSTmrCallbackArg q" using arg_cong [OF assms, of OSTmrCallbackArg] by simp
qed

section \<open>Unlinking\<close>

lemma spoke_of_less [simp]: "spoke_of w < OS_TMR_CFG_WHEEL_SIZE"
  by (simp add: spoke_of_def OS_TMR_CFG_WHEEL_SIZE_def)

lemma wheel_eq [simp]: "w\<lparr>OSTmrFirst := f, OSTmrEntries := e\<rparr> = \<lparr>OSTmrFirst = f, OSTmrEntries = e\<rparr>"
  by (cases w) simp

lemma running_on_spoke:
  assumes "wheel_ok W fs s" "t < OS_TMR_CFG_MAX" "OSTmrState (OSTmrTbl s t) = OS_TMR_STATE_RUNNING"
  shows "t \<in> set (W (spoke_of (OSTmrMatch (OSTmrTbl s t))))"
  using assms by (simp add: wheel_ok_def spoke_ok_def on_spoke_def)

lemma Unlink_links:
  assumes "spoke_ok (xs @ t # ys) i s" "i = spoke_of (OSTmrMatch (OSTmrTbl s t))"
  shows "\<exists>s'. OSTmr_Unlink t s = Inr s' \<and> view_upd t (\<lambda>p. p\<lparr>OSTmrState := OS_TMR_STATE_STOPPED\<rparr>) s s'
    \<and> (\<forall>u. u \<noteq> t \<longrightarrow> OSTmrNext (OSTmrTbl s' u) = (if last_of None xs = Some u \<and> u \<in> set xs then hd_of ys else OSTmrNext (OSTmrTbl s u)))
    \<and> (\<forall>u. u \<noteq> t \<longrightarrow> OSTmrPrev (OSTmrTbl s' u) = (if hd_of ys = Some u then last_of None xs else OSTmrPrev (OSTmrTbl s u)))
    \<and> OSTmrWheelTbl s' = (OSTmrWheelTbl s)(i := \<lparr>OSTmrFirst = hd_of (xs @ ys), OSTmrEntries = of_nat (length (xs @ ys))\<rparr>)
    \<and> OSTmrFreeList s' = OSTmrFreeList s \<and> OSTmrFree s' = OSTmrFree s \<and> OSTmrUsed s' = OSTmrUsed s"
proof -
  have d: "tlist (OSTmrTbl s) None (OSTmrFirst (OSTmrWheelTbl s i)) (xs @ t # ys)" "distinct (xs @ t # ys)"
    and n: "OSTmrEntries (OSTmrWheelTbl s i) = of_nat (length (xs @ ys)) + 1"
    using assms(1) by (auto simp: spoke_ok_def algebra_simps)
  note next_prev = dlist_next [OF d(1)]
  have first: "OSTmrFirst (OSTmrWheelTbl s i) = hd_of (xs @ t # ys)" by (rule dlist_hd [OF d(1)])
  have hd_ys: "hd_of ys \<noteq> Some t" using d(2) by (cases ys) auto
  define n where "n = hd_of ys"
  define s0 where "s0 = set_prev n (last_of None xs) (if xs = [] then spoke_upd i (\<lambda>w. w\<lparr>OSTmrFirst := n\<rparr>) s
    else tmr_upd (last xs) (\<lambda>q. q\<lparr>OSTmrNext := n\<rparr>) s)"
  define s1 where "s1 = spoke_upd i (\<lambda>w. w\<lparr>OSTmrEntries := OSTmrEntries w - 1\<rparr>)
      (tmr_upd t (\<lambda>p. p\<lparr>OSTmrState := OS_TMR_STATE_STOPPED, OSTmrNext := None, OSTmrPrev := None\<rparr>) s0)"
  have run: "OSTmr_Unlink t s = Inr s1"
    using first next_prev d(2) unfolding OSTmr_Unlink_def Let_def s1_def s0_def n_def
    by (cases xs) (auto simp: last_of_def simp flip: assms(2))
  have t: "last xs \<noteq> t" if "xs \<noteq> []" using d(2) that last_in_set [of xs] by auto
  note defs = view_upd_def tmr_upd_def spoke_upd_def set_prev_def
  have view: "view_upd t (\<lambda>p. p\<lparr>OSTmrState := OS_TMR_STATE_STOPPED\<rparr>) s s1"
    unfolding s1_def s0_def by (cases n; cases "xs = []") (simp_all add: defs)
  have nx: "OSTmrNext (OSTmrTbl s1 u) = (if last_of None xs = Some u \<and> u \<in> set xs then n else OSTmrNext (OSTmrTbl s u))" if "u \<noteq> t" for u
    unfolding s1_def s0_def using that by (cases n; cases "xs = []") (auto simp: defs last_of_def)
  have pv: "OSTmrPrev (OSTmrTbl s1 u) = (if n = Some u then last_of None xs else OSTmrPrev (OSTmrTbl s u))" if "u \<noteq> t" for u
    unfolding s1_def s0_def using that by (cases n; cases "xs = []") (auto simp: defs last_of_def)
  have "OSTmrWheelTbl s0 = (OSTmrWheelTbl s)(i := (OSTmrWheelTbl s i)\<lparr>OSTmrFirst := hd_of (xs @ ys)\<rparr>)"
  proof (cases xs)
    case Nil
    then show ?thesis by (cases n) (simp_all add: s0_def defs n_def)
  next
    case (Cons x zs)
    then have "OSTmrWheelTbl s0 = OSTmrWheelTbl s" by (cases n) (simp_all add: s0_def defs)
    moreover have "(OSTmrWheelTbl s i)\<lparr>OSTmrFirst := Some x\<rparr> = OSTmrWheelTbl s i" using first Cons by simp
    ultimately show ?thesis using Cons by simp
  qed
  then have wh: "OSTmrWheelTbl s1 = (OSTmrWheelTbl s)(i := \<lparr>OSTmrFirst = hd_of (xs @ ys), OSTmrEntries = of_nat (length (xs @ ys))\<rparr>)"
    using n by (simp add: s1_def defs)
  have "OSTmrFreeList s1 = OSTmrFreeList s \<and> OSTmrFree s1 = OSTmrFree s \<and> OSTmrUsed s1 = OSTmrUsed s"
    unfolding s1_def s0_def by (cases n; cases "xs = []") (simp_all add: defs)
  with run view nx pv wh show ?thesis by (simp flip: n_def)
qed

lemma spokes_disjoint:
  assumes "wheel_ok W fs s" "i < OS_TMR_CFG_WHEEL_SIZE"
  shows "j < OS_TMR_CFG_WHEEL_SIZE \<Longrightarrow> j \<noteq> i \<Longrightarrow> set (W j) \<inter> set (W i) = {}" "set fs \<inter> set (W i) = {}"
  using assms by (auto simp: wheel_ok_def spoke_ok_def on_spoke_def pool_ok_def)

lemma view_upd_others:
  assumes "view_upd t f s s'" "u \<noteq> t"
  shows "OSTmrState (OSTmrTbl s' u) = OSTmrState (OSTmrTbl s u)" "on_spoke s' i u = on_spoke s i u"
    "tmr_ok (OSTmrTbl s' u) = tmr_ok (OSTmrTbl s u)"
  using view_eqD(1-3) [OF view_updD(2) [OF assms]] by (simp_all add: on_spoke_def)

text \<open>A change of one timer keeps the well-formedness when the lists it touches are right.\<close>

lemma wheel_ok_upd:
  assumes ok: "wheel_ok W fs s" and v: "view_upd t f s s'"
    and "tmr_ok (f (view (OSTmrTbl s t)))" "OSTmrState (OSTmrTbl s t) \<noteq> OS_TMR_STATE_UNUSED" "OSTmrState (f (view (OSTmrTbl s t))) \<noteq> OS_TMR_STATE_UNUSED"
    and i: "i < OS_TMR_CFG_WHEEL_SIZE" "\<And>j. j \<noteq> i \<Longrightarrow> on_spoke s' j t = on_spoke s j t"
    and out: "\<And>u. u \<noteq> t \<Longrightarrow> u \<notin> set (W i) \<Longrightarrow> OSTmrNext (OSTmrTbl s' u) = OSTmrNext (OSTmrTbl s u) \<and> OSTmrPrev (OSTmrTbl s' u) = OSTmrPrev (OSTmrTbl s u)"
    and sp: "tlist (OSTmrTbl s') None (hd_of xs) xs" "distinct xs" "set xs - {t} = set (W i) - {t}" "t \<in> set xs \<longleftrightarrow> on_spoke s' i t"
    and wh: "OSTmrWheelTbl s' = (OSTmrWheelTbl s)(i := \<lparr>OSTmrFirst = hd_of xs, OSTmrEntries = of_nat (length xs)\<rparr>)"
    and fr: "OSTmrFreeList s' = OSTmrFreeList s" "OSTmrFree s' = OSTmrFree s" "OSTmrUsed s' = OSTmrUsed s"
    and nt: "\<And>j. j \<noteq> i \<Longrightarrow> \<not> on_spoke s j t"
  shows "wheel_ok (W(i := xs)) fs s'"
  unfolding wheel_ok_def
proof (intro conjI allI impI)
  note oks = ok [unfolded wheel_ok_def]
  have st: "OSTmrState (OSTmrTbl s' t) \<noteq> OS_TMR_STATE_UNUSED" "tmr_ok (OSTmrTbl s' t)"
    using assms(3, 5) view_updD(1) [OF v] by (metis view_simps(9), metis tmr_ok_view)
  show "tmr_ok (OSTmrTbl s' u)" if "u < OS_TMR_CFG_MAX" for u
    using oks that st view_upd_others(3) [OF v] by (cases "u = t") auto
  have frame: "OSTmrNext (OSTmrTbl s' u) = OSTmrNext (OSTmrTbl s u) \<and> OSTmrPrev (OSTmrTbl s' u) = OSTmrPrev (OSTmrTbl s u)"
    if "u \<in> set (W j)" "j < OS_TMR_CFG_WHEEL_SIZE" "j \<noteq> i" for u j
  proof (rule out)
    show "u \<notin> set (W i)" using spokes_disjoint(1) [OF ok i(1) that(2, 3)] that by auto
    show "u \<noteq> t" using nt [OF that(3)] that oks by (auto simp: spoke_ok_def)
  qed
  show "spoke_ok ((W(i := xs)) j) j s'" if "j < OS_TMR_CFG_WHEEL_SIZE" for j
  proof (cases "j = i")
    case True
    have "set (W i) = {u. on_spoke s i u}" using oks i(1) by (simp add: spoke_ok_def)
    then have "u \<in> set xs \<longleftrightarrow> on_spoke s' i u" for u
      using sp(3, 4) view_upd_others(2) [OF v, of u] by (cases "u = t") auto
    then have "set xs = {u. on_spoke s' i u}" by auto
    then show ?thesis using True sp wh by (simp add: spoke_ok_def)
  next
    case False
    then have W: "spoke_ok (W j) j s" using oks that by simp
    have "u \<in> set (W j) \<longleftrightarrow> on_spoke s' j u" for u
      using W i(2) [OF False] view_upd_others(2) [OF v, of u] by (cases "u = t") (auto simp: spoke_ok_def)
    then have "set (W j) = {u. on_spoke s' j u}" by auto
    moreover have "tlist (OSTmrTbl s') None c (W j) = tlist (OSTmrTbl s) None c (W j)" for c
      using frame that False by (intro dlist_cong) auto
    ultimately show ?thesis using W wh False by (simp add: spoke_ok_def)
  qed
  have "flist (OSTmrTbl s') c fs = flist (OSTmrTbl s) c fs" for c
  proof (rule slist_cong)
    fix u assume u: "u \<in> set fs"
    then have "u \<noteq> t" "u \<notin> set (W i)" using oks assms(4) spokes_disjoint(2) [OF ok i(1)] by (auto simp: pool_ok_def)
    then show "OSTmrNext (OSTmrTbl s' u) = OSTmrNext (OSTmrTbl s u)" using out by simp
  qed
  moreover have "{u. u < OS_TMR_CFG_MAX \<and> OSTmrState (OSTmrTbl s' u) = OS_TMR_STATE_UNUSED}
      = {u. u < OS_TMR_CFG_MAX \<and> OSTmrState (OSTmrTbl s u) = OS_TMR_STATE_UNUSED}"
    using st(1) assms(4) view_upd_others(1) [OF v] by metis
  ultimately show "pool_ok fs s'" using oks fr by (simp add: pool_ok_def)
qed

lemma filter_split: "distinct (xs @ t # ys) \<Longrightarrow> filter (\<lambda>u. u \<noteq> t) (xs @ t # ys) = xs @ ys"
proof -
  assume "distinct (xs @ t # ys)"
  then have "filter (\<lambda>u. u \<noteq> t) xs = xs" "filter (\<lambda>u. u \<noteq> t) ys = ys" by (auto intro!: filter_True)
  then show ?thesis by simp
qed

lemma Unlink_ok:
  assumes ok: "wheel_ok W fs s" and t: "t < OS_TMR_CFG_MAX" "OSTmrState (OSTmrTbl s t) = OS_TMR_STATE_RUNNING"
    and i: "i = spoke_of (OSTmrMatch (OSTmrTbl s t))"
  shows "\<exists>s'. OSTmr_Unlink t s = Inr s' \<and> wheel_ok (W(i := filter (\<lambda>u. u \<noteq> t) (W i))) fs s'
    \<and> view_upd t (\<lambda>p. p\<lparr>OSTmrState := OS_TMR_STATE_STOPPED\<rparr>) s s'"
proof -
  have W: "spoke_ok (W i) i s" and tok: "tmr_ok (OSTmrTbl s t)" using ok t i by (simp_all add: wheel_ok_def)
  obtain xs ys where split: "W i = xs @ t # ys" using running_on_spoke [OF ok t] split_list i by metis
  then have dist: "distinct (xs @ t # ys)" using W by (simp add: spoke_ok_def)
  note fs = filter_split [OF dist]
  obtain s' where run: "OSTmr_Unlink t s = Inr s'" and v: "view_upd t (\<lambda>p. p\<lparr>OSTmrState := OS_TMR_STATE_STOPPED\<rparr>) s s'"
    and nx: "\<And>u. u \<noteq> t \<Longrightarrow> OSTmrNext (OSTmrTbl s' u) = (if last_of None xs = Some u \<and> u \<in> set xs then hd_of ys else OSTmrNext (OSTmrTbl s u))"
    and pv: "\<And>u. u \<noteq> t \<Longrightarrow> OSTmrPrev (OSTmrTbl s' u) = (if hd_of ys = Some u then last_of None xs else OSTmrPrev (OSTmrTbl s u))"
    and wh: "OSTmrWheelTbl s' = (OSTmrWheelTbl s)(i := \<lparr>OSTmrFirst = hd_of (xs @ ys), OSTmrEntries = of_nat (length (xs @ ys))\<rparr>)"
    and fr: "OSTmrFreeList s' = OSTmrFreeList s" "OSTmrFree s' = OSTmrFree s" "OSTmrUsed s' = OSTmrUsed s"
    using Unlink_links [OF W [unfolded split] i] by blast
  have gone: "OSTmrState (OSTmrTbl s' t) = OS_TMR_STATE_STOPPED" using arg_cong [OF view_updD(1) [OF v], of OSTmrState] by simp
  have "wheel_ok (W(i := xs @ ys)) fs s'"
  proof (rule wheel_ok_upd [OF ok v])
    show "tmr_ok ((view (OSTmrTbl s t))\<lparr>OSTmrState := OS_TMR_STATE_STOPPED\<rparr>)" using tok t by (simp add: tmr_ok_def)
    show "OSTmrState (OSTmrTbl s t) \<noteq> OS_TMR_STATE_UNUSED" using t by simp
    show "on_spoke s' j t = on_spoke s j t" "\<not> on_spoke s j t" if "j \<noteq> i" for j
      using that i gone by (simp_all add: on_spoke_def)
    show "OSTmrNext (OSTmrTbl s' u) = OSTmrNext (OSTmrTbl s u) \<and> OSTmrPrev (OSTmrTbl s' u) = OSTmrPrev (OSTmrTbl s u)"
      if "u \<noteq> t" "u \<notin> set (W i)" for u
      using that nx [of u] pv [of u] by (cases ys) (auto simp: split)
    show "tlist (OSTmrTbl s') None (hd_of (xs @ ys)) (xs @ ys)"
    proof -
      have d: "tlist (OSTmrTbl s) None (OSTmrFirst (OSTmrWheelTbl s i)) (xs @ t # ys)" using W by (simp add: spoke_ok_def split)
      have "tlist (OSTmrTbl s') None (if xs = [] then hd_of ys else OSTmrFirst (OSTmrWheelTbl s i)) (xs @ ys)"
      proof (rule dlist_remove [OF d dist])
        fix u assume "u \<in> set (xs @ ys)"
        then have "u \<noteq> t" using dist by auto
        then show "OSTmrNext (OSTmrTbl s' u) = (if last_of None xs = Some u \<and> u \<in> set xs then hd_of ys else OSTmrNext (OSTmrTbl s u))"
          "OSTmrPrev (OSTmrTbl s' u) = (if hd_of ys = Some u then last_of None xs else OSTmrPrev (OSTmrTbl s u))"
          by (rule nx, rule pv)
      qed
      then show ?thesis using dlist_hd [OF d] by (cases xs) simp_all
    qed
    show "t \<in> set (xs @ ys) \<longleftrightarrow> on_spoke s' i t" using dist gone by (simp add: on_spoke_def)
    show "distinct (xs @ ys)" "set (xs @ ys) - {t} = set (W i) - {t}" using dist by (auto simp: split)
  qed (use i wh fr in simp_all)
  then show ?thesis unfolding split fs using run v by blast
qed

definition due_at :: "bool \<Rightarrow> u32 \<Rightarrow> tmr \<Rightarrow> u32" where
  "due_at periodic now p = (if periodic \<or> OSTmrDly p = 0 then OSTmrPeriod p else OSTmrDly p) + now"

lemma Link_ok:
  assumes ok: "wheel_ok W fs s" and t: "t < OS_TMR_CFG_MAX" "OSTmrState (OSTmrTbl s t) \<noteq> OS_TMR_STATE_RUNNING"
      "OSTmrState (OSTmrTbl s t) \<noteq> OS_TMR_STATE_UNUSED"
    and m: "m = due_at periodic (OSTmrTime s) (OSTmrTbl s t)" and i: "i = spoke_of m"
  shows "wheel_ok (W(i := t # W i)) fs (OSTmr_Link t periodic s)
    \<and> view_upd t (\<lambda>p. p\<lparr>OSTmrState := OS_TMR_STATE_RUNNING, OSTmrMatch := m\<rparr>) s (OSTmr_Link t periodic s)"
proof -
  define s' where "s' = OSTmr_Link t periodic s"
  define f where "f = OSTmrFirst (OSTmrWheelTbl s i)"
  have W: "spoke_ok (W i) i s" and tok: "tmr_ok (OSTmrTbl s t)" using ok t i by (simp_all add: wheel_ok_def)
  then have d: "tlist (OSTmrTbl s) None f (W i)" by (simp add: spoke_ok_def f_def)
  have tW: "t \<notin> set (W i)" using W t by (simp add: spoke_ok_def on_spoke_def)
  then have f: "f \<noteq> Some t" "f = hd_of (W i)" using dlist_hd [OF d] by (cases "W i"; simp)+
  define s1 where "s1 = tmr_upd t (\<lambda>p. p\<lparr>OSTmrState := OS_TMR_STATE_RUNNING,
            OSTmrMatch := (if periodic then OSTmrPeriod p + OSTmrTime s
                           else if OSTmrDly p = 0 then OSTmrPeriod p + OSTmrTime s
                           else OSTmrDly p + OSTmrTime s)\<rparr>) s"
  define s2 where "s2 = (case f of
       None \<Rightarrow> spoke_upd i (\<lambda>w. w\<lparr>OSTmrEntries := 1\<rparr>)
                 (tmr_upd t (\<lambda>p. p\<lparr>OSTmrNext := None\<rparr>) (spoke_upd i (\<lambda>w. w\<lparr>OSTmrFirst := Some t\<rparr>) s1))
     | Some u \<Rightarrow> spoke_upd i (\<lambda>w. w\<lparr>OSTmrEntries := OSTmrEntries w + 1\<rparr>)
                 (tmr_upd u (\<lambda>p. p\<lparr>OSTmrPrev := Some t\<rparr>)
                   (tmr_upd t (\<lambda>p. p\<lparr>OSTmrNext := Some u\<rparr>) (spoke_upd i (\<lambda>w. w\<lparr>OSTmrFirst := Some t\<rparr>) s1))))"
  have s1: "OSTmrTbl s1 = (OSTmrTbl s)(t := (OSTmrTbl s t)\<lparr>OSTmrState := OS_TMR_STATE_RUNNING, OSTmrMatch := m\<rparr>)"
      "OSTmrWheelTbl s1 = OSTmrWheelTbl s" "OSTmrTime s1 = OSTmrTime s" "calls s1 = calls s" "OSTmrSem s1 = OSTmrSem s"
      "OSTmrSemSignal s1 = OSTmrSemSignal s" "OSTmrFreeList s1 = OSTmrFreeList s" "OSTmrFree s1 = OSTmrFree s" "OSTmrUsed s1 = OSTmrUsed s"
    by (simp_all add: s1_def tmr_upd_def m due_at_def)
  have spoke: "spoke_of (OSTmrMatch (OSTmrTbl s1 t)) = i" by (simp add: s1 i)
  have "s' = tmr_upd t (\<lambda>p. p\<lparr>OSTmrPrev := None\<rparr>) s2"
    unfolding s'_def OSTmr_Link_def s1_def [symmetric] Let_def spoke s1(2) f_def [symmetric] s2_def by (cases f) simp_all
  note defs = this s2_def tmr_upd_def spoke_upd_def s1
  have v: "view_upd t (\<lambda>p. p\<lparr>OSTmrState := OS_TMR_STATE_RUNNING, OSTmrMatch := m\<rparr>) s s'"
    by (cases f) (simp_all add: defs view_upd_def)
  have nx: "OSTmrNext (OSTmrTbl s' u) = (if u = t then f else OSTmrNext (OSTmrTbl s u))" for u
    using f(1) by (cases f) (simp_all add: defs)
  have pv: "OSTmrPrev (OSTmrTbl s' u) = (if u = t then None else if f = Some u then Some t else OSTmrPrev (OSTmrTbl s u))" for u
    using f(1) by (cases f) (simp_all add: defs)
  have n: "OSTmrEntries (OSTmrWheelTbl s i) = of_nat (length (W i))" using W by (simp add: spoke_ok_def)
  have wh: "OSTmrWheelTbl s' = (OSTmrWheelTbl s)(i := \<lparr>OSTmrFirst = Some t, OSTmrEntries = of_nat (length (t # W i))\<rparr>)"
  proof (cases "W i")
    case Nil
    then have "f = None" using f(2) by simp
    then show ?thesis using Nil by (simp add: defs)
  next
    case (Cons u us)
    then have "f = Some u" using f(2) by simp
    then show ?thesis using Cons n by (simp add: defs)
  qed
  have "wheel_ok (W(i := t # W i)) fs s'"
  proof (rule wheel_ok_upd [OF ok v])
    show "tmr_ok ((view (OSTmrTbl s t))\<lparr>OSTmrState := OS_TMR_STATE_RUNNING, OSTmrMatch := m\<rparr>)"
      using tok t(3) by (simp add: tmr_ok_def)
    have st: "OSTmrState (OSTmrTbl s' t) = OS_TMR_STATE_RUNNING" "OSTmrMatch (OSTmrTbl s' t) = m"
      using arg_cong [OF view_updD(1) [OF v], of OSTmrState] arg_cong [OF view_updD(1) [OF v], of OSTmrMatch] by simp_all
    show "on_spoke s' j t = on_spoke s j t" "\<not> on_spoke s j t" if "j \<noteq> i" for j
      using that i st t by (simp_all add: on_spoke_def)
    show "t \<in> set (t # W i) \<longleftrightarrow> on_spoke s' i t" using st i t by (simp add: on_spoke_def)
    show "OSTmrNext (OSTmrTbl s' u) = OSTmrNext (OSTmrTbl s u) \<and> OSTmrPrev (OSTmrTbl s' u) = OSTmrPrev (OSTmrTbl s u)"
      if "u \<noteq> t" "u \<notin> set (W i)" for u
      using that nx [of u] pv [of u] f(2) by (cases "W i") auto
    have "distinct (W i)" using W by (simp add: spoke_ok_def)
    then show "tlist (OSTmrTbl s') None (hd_of (t # W i)) (t # W i)"
      unfolding hd_of_simps by (intro dlist_push [OF d tW]) (use nx pv tW in auto)
  qed (use i wh W tW t in \<open>auto simp: spoke_ok_def defs split: option.splits\<close>)
  with v show ?thesis by (simp add: s'_def)
qed

section \<open>The free timers\<close>

lemma wheel_ok_pool:
  assumes ok: "wheel_ok W fs s" and others: "\<And>u. u \<noteq> t \<Longrightarrow> OSTmrTbl s' u = OSTmrTbl s u"
    and same: "OSTmrWheelTbl s' = OSTmrWheelTbl s"
    and st: "OSTmrState (OSTmrTbl s t) \<noteq> OS_TMR_STATE_RUNNING" "OSTmrState (OSTmrTbl s' t) \<noteq> OS_TMR_STATE_RUNNING"
    and new: "tmr_ok (OSTmrTbl s' t)" "pool_ok fs' s'"
  shows "wheel_ok W fs' s'"
  unfolding wheel_ok_def
proof (intro conjI allI impI)
  note oks = ok [unfolded wheel_ok_def]
  show "tmr_ok (OSTmrTbl s' u)" if "u < OS_TMR_CFG_MAX" for u using oks that new others by (cases "u = t") auto
  show "spoke_ok (W i) i s'" if "i < OS_TMR_CFG_WHEEL_SIZE" for i
  proof -
    have W: "spoke_ok (W i) i s" using oks that by simp
    have "on_spoke s' i u = on_spoke s i u" for u using st others by (cases "u = t") (auto simp: on_spoke_def)
    moreover have "t \<notin> set (W i)" using W st by (auto simp: spoke_ok_def on_spoke_def)
    then have "tlist (OSTmrTbl s') None c (W i) = tlist (OSTmrTbl s) None c (W i)" for c
      using others by (intro dlist_cong) metis
    ultimately show ?thesis using W by (simp add: spoke_ok_def same)
  qed
qed (rule new)

lemma pool_empty: "pool_ok [] s \<Longrightarrow> OSTmr_Alloc s = (None, s)"
  by (simp add: pool_ok_def OSTmr_Alloc_def)

lemma Alloc_ok:
  assumes ok: "wheel_ok W (t # fs) s" and f: "tmr_ok (f (OSTmrTbl s t))" "OSTmrState (f (OSTmrTbl s t)) = OS_TMR_STATE_STOPPED"
    and s': "OSTmrTbl s' = (OSTmrTbl s)(t := f (OSTmrTbl s t))" "OSTmrWheelTbl s' = OSTmrWheelTbl s"
      "OSTmrFreeList s' = OSTmrNext (OSTmrTbl s t)" "OSTmrFree s' = OSTmrFree s - 1" "OSTmrUsed s' = OSTmrUsed s + 1"
  shows "wheel_ok W fs s'"
proof (rule wheel_ok_pool [OF ok, of t])
  have pool: "pool_ok (t # fs) s" using ok by (simp add: wheel_ok_def)
  then have "t \<in> {t. t < OS_TMR_CFG_MAX \<and> OSTmrState (OSTmrTbl s t) = OS_TMR_STATE_UNUSED}" by (auto simp: pool_ok_def)
  then show "OSTmrState (OSTmrTbl s t) \<noteq> OS_TMR_STATE_RUNNING" by simp
  have "flist (OSTmrTbl s') c fs = flist (OSTmrTbl s) c fs" for c
    using pool by (intro slist_cong) (auto simp: s' pool_ok_def)
  moreover have "set fs = {u. u < OS_TMR_CFG_MAX \<and> OSTmrState (OSTmrTbl s' u) = OS_TMR_STATE_UNUSED}"
  proof -
    have "u \<in> set fs \<longleftrightarrow> u < OS_TMR_CFG_MAX \<and> OSTmrState (OSTmrTbl s' u) = OS_TMR_STATE_UNUSED" for u
    proof (cases "u = t")
      case True
      then show ?thesis using pool f by (auto simp: s' pool_ok_def)
    next
      case False
      then have "u \<in> set fs \<longleftrightarrow> u \<in> set (t # fs)" by simp
      also have "\<dots> \<longleftrightarrow> u < OS_TMR_CFG_MAX \<and> OSTmrState (OSTmrTbl s u) = OS_TMR_STATE_UNUSED"
        using pool unfolding pool_ok_def by blast
      finally show ?thesis using False by (simp add: s')
    qed
    then show ?thesis by auto
  qed
  ultimately show "pool_ok fs s'" using pool by (simp add: pool_ok_def s' algebra_simps)
qed (use f s' in simp_all)

definition freed :: "tmr \<Rightarrow> tmr" where
  "freed p = p\<lparr>OSTmrState := OS_TMR_STATE_UNUSED, OSTmrOpt := OS_TMR_OPT_NONE, OSTmrPeriod := 0, OSTmrMatch := 0,
     OSTmrCallback := None, OSTmrCallbackArg := Null, OSTmrName := unknown_name, OSTmrPrev := None, OSTmrNext := None\<rparr>"

lemma Free_ok:
  assumes ok: "wheel_ok W fs s" and t: "t < OS_TMR_CFG_MAX" "OSTmrState (OSTmrTbl s t) \<noteq> OS_TMR_STATE_RUNNING"
      "OSTmrState (OSTmrTbl s t) \<noteq> OS_TMR_STATE_UNUSED"
  shows "wheel_ok W (t # fs) (OSTmr_Free t s) \<and> view_upd t freed s (OSTmr_Free t s)"
proof
  have pool: "pool_ok fs s" and tok: "tmr_ok (OSTmrTbl s t)" using ok t by (simp_all add: wheel_ok_def)
  have new: "t \<notin> set fs" using pool t by (simp add: pool_ok_def)
  note defs = OSTmr_Free_def Let_def tmr_upd_def
  show "wheel_ok W (t # fs) (OSTmr_Free t s)"
  proof (rule wheel_ok_pool [OF ok, of t])
    have "flist (OSTmrTbl (OSTmr_Free t s)) c fs = flist (OSTmrTbl s) c fs" for c
      using new by (intro slist_cong) (auto simp: defs)
    moreover have "insert t (set fs) = {u. u < OS_TMR_CFG_MAX \<and> OSTmrState (OSTmrTbl (OSTmr_Free t s) u) = OS_TMR_STATE_UNUSED}"
      using pool t by (auto simp: pool_ok_def defs)
    ultimately show "pool_ok (t # fs) (OSTmr_Free t s)"
      using pool new by (simp add: pool_ok_def) (simp add: defs)
    show "tmr_ok (OSTmrTbl (OSTmr_Free t s) t)" using tok by (simp add: defs tmr_ok_def)
  qed (use t in \<open>simp_all add: defs\<close>)
  show "view_upd t freed s (OSTmr_Free t s)" by (auto simp: view_upd_def defs view_def freed_def)
qed

end
