(* ===== verification/Os_Tmr_Props.thy ===== *)
theory Os_Tmr_Props
  imports Os_Wheel Os_Calls_Props
begin

text \<open>
  What the timer task and the timer calls do: a round fires the timers that are due and no other, whatever
  spokes they are on; a timer fires on time; the calls keep the wheel well formed and never fault.
\<close>

section \<open>One timer\<close>

definition tick_tmr :: "u32 \<Rightarrow> tmr \<Rightarrow> tmr" where
  "tick_tmr now p =
     (if OSTmrState p = OS_TMR_STATE_RUNNING \<and> OSTmrMatch p = now then
        if OSTmrOpt p = OS_TMR_OPT_PERIODIC then p\<lparr>OSTmrMatch := OSTmrPeriod p + now\<rparr>
        else p\<lparr>OSTmrState := OS_TMR_STATE_COMPLETED\<rparr>
      else p)"

definition callback_at :: "u32 \<Rightarrow> (nat \<Rightarrow> tmr) \<Rightarrow> nat \<Rightarrow> (nat \<times> nat \<times> vptr) list" where
  "callback_at now h t =
     (if OSTmrState (h t) = OS_TMR_STATE_RUNNING \<and> OSTmrMatch (h t) = now then
        case OSTmrCallback (h t) of None \<Rightarrow> [] | Some f \<Rightarrow> [(f, t, OSTmrCallbackArg (h t))]
      else [])"

lemma wheel_ok_calls [simp]: "wheel_ok W fs (s\<lparr>calls := c\<rparr>) = wheel_ok W fs s"
  by (simp add: wheel_ok_def spoke_ok_def pool_ok_def on_spoke_def)

lemma wheel_ok_time [simp]: "wheel_ok W fs (s\<lparr>OSTmrTime := c\<rparr>) = wheel_ok W fs s"
  by (simp add: wheel_ok_def spoke_ok_def pool_ok_def on_spoke_def)

lemma wheel_ok_state:
  assumes ok: "wheel_ok W fs s" and "t < OS_TMR_CFG_MAX" "OSTmrState (OSTmrTbl s t) = OS_TMR_STATE_STOPPED"
  shows "wheel_ok W fs (tmr_upd t (\<lambda>p. p\<lparr>OSTmrState := OS_TMR_STATE_COMPLETED\<rparr>) s)"
proof (rule wheel_ok_pool [OF ok, of t])
  have "flist ((OSTmrTbl s)(t := (OSTmrTbl s t)\<lparr>OSTmrState := OS_TMR_STATE_COMPLETED\<rparr>)) c fs = flist (OSTmrTbl s) c fs" for c
    by (intro slist_cong) auto
  then show "pool_ok fs (tmr_upd t (\<lambda>p. p\<lparr>OSTmrState := OS_TMR_STATE_COMPLETED\<rparr>) s)"
    using assms by (auto simp: wheel_ok_def pool_ok_def tmr_upd_def)
  have "tmr_ok (OSTmrTbl s t)" using assms by (simp add: wheel_ok_def)
  then show "tmr_ok (OSTmrTbl (tmr_upd t (\<lambda>p. p\<lparr>OSTmrState := OS_TMR_STATE_COMPLETED\<rparr>) s) t)"
    using assms by (simp add: tmr_ok_def tmr_upd_def)
qed (use assms in \<open>simp_all add: tmr_upd_def\<close>)

lemma view_updI:
  assumes "view_upd t f s1 s2" "view_upd t g s2 s3" "g (view (OSTmrTbl s2 t)) = h (view (OSTmrTbl s t))"
    and "OSTmrTbl s1 = OSTmrTbl s" "OSTmrTime s1 = OSTmrTime s" "OSTmrSem s1 = OSTmrSem s" "OSTmrSemSignal s1 = OSTmrSemSignal s"
  shows "view_upd t h s (s3\<lparr>calls := calls s\<rparr>)"
  using assms by (simp add: view_upd_def)

lemma running_again:
  "OSTmrState p = OS_TMR_STATE_RUNNING \<Longrightarrow>
    p\<lparr>OSTmrMatch := m\<rparr> = p\<lparr>OSTmrState := OS_TMR_STATE_RUNNING, OSTmrMatch := m\<rparr>"
  by (cases p) simp

text \<open>What a round does to one timer on the spoke of the time.\<close>

lemma fire_ok:
  assumes ok: "wheel_ok W fs s" and W: "W i = pre @ t # rest" and i: "i = spoke_of (OSTmrTime s)"
  shows "\<exists>s' W' pre'. fire t s = Inr s' \<and> wheel_ok W' fs s' \<and> W' i = pre' @ rest
    \<and> view_upd t (tick_tmr (OSTmrTime s)) s (s'\<lparr>calls := calls s\<rparr>)
    \<and> calls s' = calls s @ callback_at (OSTmrTime s) (OSTmrTbl s) t"
proof -
  let ?p = "OSTmrTbl s t" and ?now = "OSTmrTime s"
  have "spoke_ok (W i) i s" using ok i by (simp add: wheel_ok_def)
  then have sp: "spoke_ok (pre @ t # rest) i s" by (simp only: W)
  then have t: "t < OS_TMR_CFG_MAX" "OSTmrState ?p = OS_TMR_STATE_RUNNING" and dist: "distinct (pre @ t # rest)"
    by (auto simp: spoke_ok_def on_spoke_def)
  show ?thesis
  proof (cases "?now = OSTmrMatch ?p")
    case False
    then have "fire t s = Inr s" "W i = (pre @ [t]) @ rest" "callback_at ?now (OSTmrTbl s) t = []" "tick_tmr ?now (view ?p) = view ?p"
      by (simp_all add: fire_def W callback_at_def tick_tmr_def)
    then show ?thesis using ok by (intro exI [of _ s] exI [of _ W] exI [of _ "pre @ [t]"]) (auto simp: view_upd_def)
  next
    case True
    define s1 where "s1 = s\<lparr>calls := calls s @ callback_at ?now (OSTmrTbl s) t\<rparr>"
    have s1: "(case OSTmrCallback ?p of None \<Rightarrow> s | Some f \<Rightarrow> s\<lparr>calls := calls s @ [(f, t, OSTmrCallbackArg ?p)]\<rparr>) = s1"
      using t True by (cases "OSTmrCallback ?p") (simp_all add: s1_def callback_at_def)
    have ok1: "wheel_ok W fs s1" using ok by (simp add: s1_def)
    have i1: "i = spoke_of (OSTmrMatch (OSTmrTbl s1 t))" and t1: "OSTmrState (OSTmrTbl s1 t) = OS_TMR_STATE_RUNNING"
      using i t True by (simp_all add: s1_def)
    have Wi: "filter (\<lambda>u. u \<noteq> t) (W i) = pre @ rest" unfolding W by (rule filter_split [OF dist])
    obtain s2 where s2: "OSTmr_Unlink t s1 = Inr s2" "wheel_ok (W(i := pre @ rest)) fs s2"
        "view_upd t (\<lambda>p. p\<lparr>OSTmrState := OS_TMR_STATE_STOPPED\<rparr>) s1 s2"
      using Unlink_ok [OF ok1 t(1) t1 i1] unfolding Wi by blast
    have p2: "view (OSTmrTbl s2 t) = (view ?p)\<lparr>OSTmrState := OS_TMR_STATE_STOPPED\<rparr>"
      using view_updD(1) [OF s2(3)] by (simp add: s1_def)
    have p2': "OSTmrState (OSTmrTbl s2 t) = OS_TMR_STATE_STOPPED" "OSTmrOpt (OSTmrTbl s2 t) = OSTmrOpt ?p"
      "OSTmrPeriod (OSTmrTbl s2 t) = OSTmrPeriod ?p"
      using arg_cong [OF p2, of OSTmrState] arg_cong [OF p2, of OSTmrOpt] arg_cong [OF p2, of OSTmrPeriod] by simp_all
    have time: "OSTmrTime s2 = ?now" "calls s2 = calls s1" using view_updD(3, 4) [OF s2(3)] by (simp_all add: s1_def)
    show ?thesis
    proof (cases "OSTmrOpt ?p = OS_TMR_OPT_PERIODIC")
      case True
      then have run: "fire t s = Inr (OSTmr_Link t True s2)" using \<open>?now = OSTmrMatch ?p\<close> s1 s2(1) p2' by (simp add: fire_def)
      define j m s3 where "j = spoke_of (OSTmrPeriod ?p + ?now)" and "m = OSTmrPeriod ?p + ?now" and "s3 = OSTmr_Link t True s2"
      have m: "m = due_at True (OSTmrTime s2) (OSTmrTbl s2 t)" by (simp add: m_def due_at_def p2' time)
      have L: "wheel_ok ((W(i := pre @ rest))(j := t # (W(i := pre @ rest)) j)) fs s3"
          "view_upd t (\<lambda>p. p\<lparr>OSTmrState := OS_TMR_STATE_RUNNING, OSTmrMatch := m\<rparr>) s2 s3"
        using Link_ok [OF s2(2) t(1) _ _ m, of j] p2' by (simp_all add: j_def m_def s3_def)
      have "view_upd t (tick_tmr ?now) s (s3\<lparr>calls := calls s\<rparr>)"
        using view_updD(1) [OF L(2)] t \<open>?now = OSTmrMatch ?p\<close> True
        by (intro view_updI [OF s2(3) L(2)]) (simp_all add: s1_def p2 tick_tmr_def m_def running_again [of "view ?p"])
      moreover have "calls s3 = calls s @ callback_at ?now (OSTmrTbl s) t" using view_updD(4) [OF L(2)] time by (simp add: s1_def)
      moreover have "((W(i := pre @ rest))(j := t # (W(i := pre @ rest)) j)) i = (if i = j then t # pre else pre) @ rest" by simp
      ultimately show ?thesis using run L(1) unfolding s3_def by blast
    next
      case False
      define s3 where "s3 = tmr_upd t (\<lambda>p. p\<lparr>OSTmrState := OS_TMR_STATE_COMPLETED\<rparr>) s2"
      have run: "fire t s = Inr s3" using False \<open>?now = OSTmrMatch ?p\<close> s1 s2(1) p2' by (simp add: fire_def s3_def)
      have v: "view_upd t (\<lambda>p. p\<lparr>OSTmrState := OS_TMR_STATE_COMPLETED\<rparr>) s2 s3" by (simp add: s3_def view_upd_def tmr_upd_def)
      have "view_upd t (tick_tmr ?now) s (s3\<lparr>calls := calls s\<rparr>)"
        using t \<open>?now = OSTmrMatch ?p\<close> False by (intro view_updI [OF s2(3) v]) (simp_all add: s1_def p2 tick_tmr_def)
      moreover have "calls s3 = calls s @ callback_at ?now (OSTmrTbl s) t" using view_updD(4) [OF v] time by (simp add: s1_def)
      moreover have "(W(i := pre @ rest)) i = pre @ rest" by simp
      ultimately show ?thesis using run wheel_ok_state [OF s2(2) t(1) p2'(1)] unfolding s3_def by blast
    qed
  qed
qed

section \<open>A round\<close>

lemma view_upd_list_step:
  assumes "view_upd t f s s1" "t \<notin> set ts"
    and "\<forall>u. view (OSTmrTbl s2 u) = (if u \<in> set ts then f (view (OSTmrTbl s1 u)) else view (OSTmrTbl s1 u))"
  shows "\<forall>u. view (OSTmrTbl s2 u) = (if u \<in> set (t # ts) then f (view (OSTmrTbl s u)) else view (OSTmrTbl s u))"
  using assms by (auto simp: view_upd_def)

lemma callback_at_view:
  assumes "view (h' t) = view (h t)"
  shows "callback_at now h' t = callback_at now h t"
  using view_eqD [OF assms] by (cases "OSTmrCallback (h t)") (simp_all add: callback_at_def)

lemma fire_all_ok:
  assumes "wheel_ok W fs s" "W i = pre @ rest" "i = spoke_of (OSTmrTime s)" "length rest \<le> fuel"
  shows "\<exists>s' W'. fire_all fuel (hd_of rest) s = Inr s' \<and> wheel_ok W' fs s' \<and> OSTmrTime s' = OSTmrTime s
    \<and> OSTmrSem s' = OSTmrSem s \<and> OSTmrSemSignal s' = OSTmrSemSignal s
    \<and> (\<forall>u. view (OSTmrTbl s' u) = (if u \<in> set rest then tick_tmr (OSTmrTime s) (view (OSTmrTbl s u)) else view (OSTmrTbl s u)))
    \<and> calls s' = calls s @ concat (map (callback_at (OSTmrTime s) (OSTmrTbl s)) rest)"
  using assms
proof (induction rest arbitrary: W s pre fuel)
  case (Cons t rest)
  have "spoke_ok (W i) i s" using Cons.prems(1, 3) by (simp add: wheel_ok_def)
  then have sp: "spoke_ok (pre @ t # rest) i s" by (simp only: Cons.prems(2))
  then have dist: "t \<notin> set rest" by (simp add: spoke_ok_def)
  have nx: "OSTmrNext (OSTmrTbl s t) = hd_of rest" using sp dlist_next unfolding spoke_ok_def by blast
  obtain fuel' where fuel: "fuel = Suc fuel'" "length rest \<le> fuel'" using Cons.prems(4) by (cases fuel) auto
  obtain s1 W1 pre1 where s1: "fire t s = Inr s1" "wheel_ok W1 fs s1" "W1 i = pre1 @ rest"
      and v: "view_upd t (tick_tmr (OSTmrTime s)) s (s1\<lparr>calls := calls s\<rparr>)"
      and c: "calls s1 = calls s @ callback_at (OSTmrTime s) (OSTmrTbl s) t"
    using fire_ok [OF Cons.prems(1-3)] by blast
  have time: "OSTmrTime s1 = OSTmrTime s" "OSTmrSem s1 = OSTmrSem s" "OSTmrSemSignal s1 = OSTmrSemSignal s"
    using v by (simp_all add: view_upd_def)
  have "i = spoke_of (OSTmrTime s1)" using Cons.prems(3) time by simp
  from Cons.IH [OF s1(2, 3) this fuel(2)] obtain s' W' where s': "fire_all fuel' (hd_of rest) s1 = Inr s'" "wheel_ok W' fs s'"
      "OSTmrTime s' = OSTmrTime s" "OSTmrSem s' = OSTmrSem s" "OSTmrSemSignal s' = OSTmrSemSignal s"
      "\<forall>u. view (OSTmrTbl s' u) = (if u \<in> set rest then tick_tmr (OSTmrTime s) (view (OSTmrTbl s1 u)) else view (OSTmrTbl s1 u))"
      "calls s' = calls s1 @ concat (map (callback_at (OSTmrTime s) (OSTmrTbl s1)) rest)"
    by (auto simp: time)
  have run: "fire_all fuel (hd_of (t # rest)) s = Inr s'" using s1(1) s'(1) nx fuel by simp
  have "map (callback_at (OSTmrTime s) (OSTmrTbl s1)) rest = map (callback_at (OSTmrTime s) (OSTmrTbl s)) rest"
  proof (rule map_cong [OF refl])
    fix u assume "u \<in> set rest"
    then have "view (OSTmrTbl s1 u) = view (OSTmrTbl s u)" using v dist by (auto simp: view_upd_def)
    then show "callback_at (OSTmrTime s) (OSTmrTbl s1) u = callback_at (OSTmrTime s) (OSTmrTbl s) u"
      by (rule callback_at_view)
  qed
  then have calls: "calls s' = calls s @ concat (map (callback_at (OSTmrTime s) (OSTmrTbl s)) (t # rest))"
    by (simp only: s'(7) c list.map concat.simps append_assoc)
  have views: "\<forall>u. view (OSTmrTbl s' u) = (if u \<in> set (t # rest) then tick_tmr (OSTmrTime s) (view (OSTmrTbl s u)) else view (OSTmrTbl s u))"
    using s'(6) by (intro view_upd_list_step [OF v dist]) simp
  show ?case using run s'(2-5) views calls by blast
qed auto

section \<open>The lists are those of the memory\<close>

fun walk :: "nat \<Rightarrow> (nat \<Rightarrow> tmr) \<Rightarrow> nat option \<Rightarrow> nat list" where
  "walk (Suc n) h (Some t) = t # walk n h (OSTmrNext (h t))"
| "walk n h c = []"

definition spoke_list :: "tmrs \<Rightarrow> nat \<Rightarrow> nat list" where
  "spoke_list s i = walk OS_TMR_CFG_MAX (OSTmrTbl s) (OSTmrFirst (OSTmrWheelTbl s i))"

definition free_timers :: "tmrs \<Rightarrow> nat list" where
  "free_timers s = walk OS_TMR_CFG_MAX (OSTmrTbl s) (OSTmrFreeList s)"

definition timers_ok :: "tmrs \<Rightarrow> bool" where
  "timers_ok s \<longleftrightarrow> wheel_ok (spoke_list s) (free_timers s) s"

lemma walk_None [simp]: "walk n h None = []"
  by (cases n) simp_all

lemma walk_dlist: "tlist h p c xs \<Longrightarrow> length xs \<le> n \<Longrightarrow> walk n h c = xs"
proof (induction xs arbitrary: p c n)
  case (Cons x xs)
  then show ?case by (cases n) auto
qed simp

lemma walk_slist: "flist h c xs \<Longrightarrow> length xs \<le> n \<Longrightarrow> walk n h c = xs"
proof (induction xs arbitrary: c n)
  case (Cons x xs)
  then show ?case by (cases n) auto
qed simp

lemma length_16: "distinct xs \<Longrightarrow> set xs \<subseteq> {t. t < OS_TMR_CFG_MAX} \<Longrightarrow> length xs \<le> OS_TMR_CFG_MAX"
  using card_mono [of "{..<OS_TMR_CFG_MAX}" "set xs"] by (auto simp: distinct_card lessThan_def)

lemma wheel_ok_lists:
  assumes ok: "wheel_ok W fs s"
  shows "timers_ok s" "i < OS_TMR_CFG_WHEEL_SIZE \<Longrightarrow> spoke_list s i = W i" "free_timers s = fs"
proof -
  show W: "spoke_list s i = W i" if "i < OS_TMR_CFG_WHEEL_SIZE" for i
  proof -
    have "spoke_ok (W i) i s" using ok that by (simp add: wheel_ok_def)
    then show ?thesis unfolding spoke_list_def
      by (intro walk_dlist length_16) (auto simp: spoke_ok_def on_spoke_def)
  qed
  have "pool_ok fs s" using ok by (simp add: wheel_ok_def)
  then show fs: "free_timers s = fs" unfolding free_timers_def
    by (intro walk_slist length_16) (auto simp: pool_ok_def)
  show "timers_ok s" using ok W fs by (simp add: timers_ok_def wheel_ok_def)
qed

lemma spoke_length:
  assumes "wheel_ok W fs s" "i < OS_TMR_CFG_WHEEL_SIZE"
  shows "length (W i) \<le> OS_TMR_CFG_MAX"
  using assms by (intro length_16) (auto simp: wheel_ok_def spoke_ok_def on_spoke_def)

section \<open>A round fires the timers that are due\<close>

definition calls_for :: "nat \<Rightarrow> (nat \<times> nat \<times> vptr) list \<Rightarrow> (nat \<times> nat \<times> vptr) list" where
  "calls_for t cs = filter (\<lambda>c. fst (snd c) = t) cs"

lemma calls_for_append [simp]: "calls_for t (cs @ ds) = calls_for t cs @ calls_for t ds"
  by (simp add: calls_for_def)

lemma calls_for_callback_at: "calls_for t (callback_at now h u) = (if t = u then callback_at now h u else [])"
proof (cases "OSTmrState (h u) = OS_TMR_STATE_RUNNING \<and> OSTmrMatch (h u) = now")
  case False
  then have "callback_at now h u = []" unfolding callback_at_def by (rule if_not_P)
  then show ?thesis by (simp add: calls_for_def)
next
  case True
  then have "callback_at now h u = (case OSTmrCallback (h u) of None \<Rightarrow> [] | Some f \<Rightarrow> [(f, u, OSTmrCallbackArg (h u))])"
    unfolding callback_at_def by (rule if_P)
  then show ?thesis by (cases "OSTmrCallback (h u)") (simp_all add: calls_for_def)
qed

lemma calls_for_spoke:
  "distinct ts \<Longrightarrow> calls_for t (concat (map (callback_at now h) ts)) = (if t \<in> set ts then callback_at now h t else [])"
proof (induction ts)
  case (Cons u ts)
  then show ?case by (auto simp: calls_for_callback_at)
qed (simp add: calls_for_def)

lemma round_effect:
  assumes "timers_ok s"
  shows "\<exists>s'. OSTmr_Task_round s = Inr s' \<and> timers_ok s' \<and> OSTmrTime s' = OSTmrTime s + 1
    \<and> OSTmrSem s' = OSTmrSem s \<and> OSTmrSemSignal s' = OSTmrSemSignal s
    \<and> (\<forall>t < OS_TMR_CFG_MAX. view (OSTmrTbl s' t) = tick_tmr (OSTmrTime s + 1) (view (OSTmrTbl s t))
        \<and> calls_for t (calls s') = calls_for t (calls s) @ callback_at (OSTmrTime s + 1) (OSTmrTbl s) t)"
proof -
  define now where "now = OSTmrTime s + 1"
  define s0 where "s0 = s\<lparr>OSTmrTime := now\<rparr>"
  let ?W = "spoke_list s" and ?i = "spoke_of now"
  have ok: "wheel_ok ?W (free_timers s) s0" using assms by (simp add: timers_ok_def s0_def)
  have sp: "spoke_ok (?W ?i) ?i s0" using ok by (simp add: wheel_ok_def)
  then have first: "OSTmrFirst (OSTmrWheelTbl s0 ?i) = hd_of (?W ?i)" using dlist_hd unfolding spoke_ok_def by blast
  have "?W ?i = [] @ ?W ?i" "?i = spoke_of (OSTmrTime s0)" by (simp_all add: s0_def)
  from fire_all_ok [OF ok this spoke_length [OF ok spoke_of_less]] obtain s' W'
    where s': "fire_all OS_TMR_CFG_MAX (hd_of (?W ?i)) s0 = Inr s'" "wheel_ok W' (free_timers s) s'" "OSTmrTime s' = now"
      "OSTmrSem s' = OSTmrSem s" "OSTmrSemSignal s' = OSTmrSemSignal s"
      "\<And>u. view (OSTmrTbl s' u) = (if u \<in> set (?W ?i) then tick_tmr now (view (OSTmrTbl s u)) else view (OSTmrTbl s u))"
      "calls s' = calls s @ concat (map (callback_at now (OSTmrTbl s)) (?W ?i))"
    by (auto simp: s0_def)
  have "OSTmr_Task_round s = Inr s'"
    using s'(1) first by (simp add: OSTmr_Task_round_def Let_def s0_def now_def)
  moreover have "view (OSTmrTbl s' t) = tick_tmr now (view (OSTmrTbl s t))
      \<and> calls_for t (calls s') = calls_for t (calls s) @ callback_at now (OSTmrTbl s) t" if "t < OS_TMR_CFG_MAX" for t
  proof -
    have dist: "distinct (?W ?i)" using sp by (simp add: spoke_ok_def)
    have "t \<in> set (?W ?i)" if "OSTmrState (OSTmrTbl s t) = OS_TMR_STATE_RUNNING" "OSTmrMatch (OSTmrTbl s t) = now"
      using sp \<open>t < OS_TMR_CFG_MAX\<close> that by (simp add: spoke_ok_def on_spoke_def s0_def)
    then have "t \<notin> set (?W ?i) \<Longrightarrow> tick_tmr now (view (OSTmrTbl s t)) = view (OSTmrTbl s t) \<and> callback_at now (OSTmrTbl s) t = []"
      by (auto simp: tick_tmr_def callback_at_def)
    then show ?thesis using s'(6) [of t] s'(7) calls_for_spoke [OF dist] by simp
  qed
  ultimately show ?thesis using wheel_ok_lists(1) [OF s'(2)] s'(3-5) by (auto simp: now_def)
qed

text \<open>C14: A round of the timer task fires exactly the timers whose time has come, on whatever spoke they are: it
  makes the call of each of them once and no other, starts the periodic ones again, completes the one-shot ones,
  leaves every other timer as it was and keeps the wheel well formed.\<close>
lemma timer_round_correct:
  assumes "timers_ok s"
  shows "\<exists>s'. OSTmr_Task_round s = Inr s' \<and> timers_ok s' \<and> OSTmrTime s' = OSTmrTime s + 1
    \<and> OSTmrSem s' = OSTmrSem s \<and> OSTmrSemSignal s' = OSTmrSemSignal s
    \<and> (\<forall>t < OS_TMR_CFG_MAX. view (OSTmrTbl s' t) = tick_tmr (OSTmrTime s + 1) (view (OSTmrTbl s t))
        \<and> calls_for t (calls s') = calls_for t (calls s) @ callback_at (OSTmrTime s + 1) (OSTmrTbl s) t)"
  using assms by (rule round_effect)

section \<open>A timer fires on time\<close>

fun rounds :: "nat \<Rightarrow> tmrs \<Rightarrow> tmrs res" where
  "rounds 0 s = Inr s"
| "rounds (Suc n) s = rbind (rounds n s) OSTmr_Task_round"

lemma due_word:
  fixes m now :: u32
  assumes "n < unat (m - now)"
  shows "now + of_nat n + 1 = m \<longleftrightarrow> Suc n = unat (m - now)"
proof -
  have "now + of_nat n + 1 = m \<longleftrightarrow> of_nat (Suc n) = m - now" by (auto simp: algebra_simps)
  also have "\<dots> \<longleftrightarrow> Suc n = unat (m - now)"
    using assms unsigned_less [of "m - now", where ?'a = nat]
    by (auto simp: word_unat_eq_iff unat_of_nat take_bit_nat_eq_self simp del: of_nat_Suc)
  finally show ?thesis .
qed

lemma rounds_waiting:
  assumes "timers_ok s" "t < OS_TMR_CFG_MAX" "n < unat (OSTmrMatch (OSTmrTbl s t) - OSTmrTime s)"
  shows "\<exists>s'. rounds n s = Inr s' \<and> timers_ok s' \<and> OSTmrTime s' = OSTmrTime s + of_nat n
    \<and> view (OSTmrTbl s' t) = view (OSTmrTbl s t) \<and> calls_for t (calls s') = calls_for t (calls s)"
  using assms(3)
proof (induction n)
  case 0
  then show ?case using assms by simp
next
  case (Suc n)
  then obtain s1 where s1: "rounds n s = Inr s1" "timers_ok s1" "OSTmrTime s1 = OSTmrTime s + of_nat n"
    "view (OSTmrTbl s1 t) = view (OSTmrTbl s t)" "calls_for t (calls s1) = calls_for t (calls s)" by auto
  have "OSTmrMatch (OSTmrTbl s t) \<noteq> OSTmrTime s1 + 1"
    using due_word [of n "OSTmrMatch (OSTmrTbl s t)" "OSTmrTime s"] Suc.prems s1(3) by auto
  then have "callback_at (OSTmrTime s1 + 1) (OSTmrTbl s1) t = []"
    "tick_tmr (OSTmrTime s1 + 1) (view (OSTmrTbl s1 t)) = view (OSTmrTbl s1 t)"
    using view_eqD(2) [OF s1(4)] by (simp_all add: callback_at_def tick_tmr_def)
  then show ?case using round_effect [OF s1(2)] s1 assms(2) by (fastforce simp: algebra_simps)
qed

definition callback_of :: "nat \<Rightarrow> tmr \<Rightarrow> (nat \<times> nat \<times> vptr) list" where
  "callback_of t p = (case OSTmrCallback p of None \<Rightarrow> [] | Some f \<Rightarrow> [(f, t, OSTmrCallbackArg p)])"

lemma callback_of_view: "view p = view q \<Longrightarrow> callback_of t p = callback_of t q"
proof -
  assume "view p = view q"
  note eqs = view_eqD(7, 8) [OF this]
  show ?thesis unfolding callback_of_def eqs ..
qed

lemma callback_at_due:
  "OSTmrState (h t) = OS_TMR_STATE_RUNNING \<Longrightarrow> OSTmrMatch (h t) = now \<Longrightarrow> callback_at now h t = callback_of t (h t)"
  unfolding callback_at_def callback_of_def by (rule if_P) (rule conjI)

lemma rounds_fire:
  assumes "timers_ok s" "t < OS_TMR_CFG_MAX" "OSTmrState (OSTmrTbl s t) = OS_TMR_STATE_RUNNING"
    and d: "d = unat (OSTmrMatch (OSTmrTbl s t) - OSTmrTime s)" "0 < d"
  shows "\<exists>s'. rounds d s = Inr s' \<and> timers_ok s' \<and> OSTmrTime s' = OSTmrMatch (OSTmrTbl s t)
    \<and> view (OSTmrTbl s' t) = tick_tmr (OSTmrTime s') (view (OSTmrTbl s t))
    \<and> calls_for t (calls s') = calls_for t (calls s) @ callback_of t (OSTmrTbl s t)"
proof -
  obtain n where n: "d = Suc n" using d(2) by (cases d) auto
  then have less: "n < unat (OSTmrMatch (OSTmrTbl s t) - OSTmrTime s)" using d by simp
  obtain s1 where s1: "rounds n s = Inr s1" "timers_ok s1" "OSTmrTime s1 = OSTmrTime s + of_nat n"
    "view (OSTmrTbl s1 t) = view (OSTmrTbl s t)" "calls_for t (calls s1) = calls_for t (calls s)"
    using rounds_waiting [OF assms(1, 2) less] by auto
  have now: "OSTmrTime s1 + 1 = OSTmrMatch (OSTmrTbl s t)"
    using due_word [OF less] n d(1) s1(3) by simp
  note eqs = view_eqD [OF s1(4)]
  have "callback_at (OSTmrTime s1 + 1) (OSTmrTbl s1) t = callback_of t (OSTmrTbl s t)"
    using callback_at_due [of "OSTmrTbl s1" t] callback_of_view [OF s1(4)] eqs assms(3) now by simp
  then show ?thesis using round_effect [OF s1(2)] s1 assms(2) now n by auto
qed

lemma states_ok:
  assumes "timers_ok s" "t < OS_TMR_CFG_MAX"
  shows "tmr_ok (OSTmrTbl s t)" "OSTmrState (OSTmrTbl s t) \<in> {OS_TMR_STATE_UNUSED, OS_TMR_STATE_STOPPED, OS_TMR_STATE_COMPLETED, OS_TMR_STATE_RUNNING}"
proof -
  show ok: "tmr_ok (OSTmrTbl s t)" using assms by (simp add: timers_ok_def wheel_ok_def)
  have "st \<le> 3 \<Longrightarrow> st \<in> {0, 1, 2, 3}" for st :: u8
  proof -
    assume "st \<le> 3"
    then have "unat st \<in> {0, 1, 2, 3}" by (auto simp: word_le_nat_alt)
    then show ?thesis by (simp add: word_unat_eq_iff)
  qed
  then show "OSTmrState (OSTmrTbl s t) \<in> {OS_TMR_STATE_UNUSED, OS_TMR_STATE_STOPPED, OS_TMR_STATE_COMPLETED, OS_TMR_STATE_RUNNING}"
    using ok unfolding tmr_ok_def by blast
qed

definition started :: "u32 \<Rightarrow> tmr \<Rightarrow> tmr" where
  "started now p = p\<lparr>OSTmrState := OS_TMR_STATE_RUNNING, OSTmrMatch := due_at False now p\<rparr>"

lemma start_effect:
  assumes s: "timers_ok s" and t: "t < OS_TMR_CFG_MAX" "OSTmrState (OSTmrTbl s t) \<noteq> OS_TMR_STATE_UNUSED"
  shows "\<exists>s'. tmr_start t s = Inr ((True, OS_ERR_NONE), s') \<and> timers_ok s' \<and> view_upd t (started (OSTmrTime s)) s s'"
proof (cases "OSTmrState (OSTmrTbl s t) = OS_TMR_STATE_RUNNING")
  case True
  have ok: "wheel_ok (spoke_list s) (free_timers s) s" using s by (simp add: timers_ok_def)
  obtain s1 W where s1: "OSTmr_Unlink t s = Inr s1" "wheel_ok W (free_timers s) s1"
      "view_upd t (\<lambda>p. p\<lparr>OSTmrState := OS_TMR_STATE_STOPPED\<rparr>) s s1"
    using Unlink_ok [OF ok t(1) True refl] by blast
  have p1: "view (OSTmrTbl s1 t) = (view (OSTmrTbl s t))\<lparr>OSTmrState := OS_TMR_STATE_STOPPED\<rparr>" by (rule view_updD(1) [OF s1(3)])
  have eqs: "OSTmrState (OSTmrTbl s1 t) = OS_TMR_STATE_STOPPED" "OSTmrDly (OSTmrTbl s1 t) = OSTmrDly (OSTmrTbl s t)"
    "OSTmrPeriod (OSTmrTbl s1 t) = OSTmrPeriod (OSTmrTbl s t)"
    using arg_cong [OF p1, of OSTmrState] arg_cong [OF p1, of OSTmrDly] arg_cong [OF p1, of OSTmrPeriod] by simp_all
  define m s2 where "m = due_at False (OSTmrTime s) (OSTmrTbl s t)" and "s2 = OSTmr_Link t False s1"
  have m: "m = due_at False (OSTmrTime s1) (OSTmrTbl s1 t)"
    using view_updD(3) [OF s1(3)] eqs by (simp add: m_def due_at_def)
  have L: "wheel_ok (W(spoke_of m := t # W (spoke_of m))) (free_timers s) s2"
      "view_upd t (\<lambda>p. p\<lparr>OSTmrState := OS_TMR_STATE_RUNNING, OSTmrMatch := m\<rparr>) s1 s2"
    using Link_ok [OF s1(2) t(1) _ _ m refl] eqs by (simp_all add: s2_def)
  have "view_upd t (started (OSTmrTime s)) s (s2\<lparr>calls := calls s\<rparr>)"
    by (intro view_updI [OF s1(3) L(2)]) (simp_all add: p1 started_def due_at_def m_def)
  moreover have "calls s2 = calls s" using view_updD(4) [OF L(2)] view_updD(4) [OF s1(3)] by simp
  then have "s2\<lparr>calls := calls s\<rparr> = s2" by simp
  ultimately have "view_upd t (started (OSTmrTime s)) s s2" by simp
  moreover have "tmr_start t s = Inr ((True, OS_ERR_NONE), s2)" using True s1(1) by (simp add: tmr_start_def s2_def)
  ultimately show ?thesis using wheel_ok_lists(1) [OF L(1)] by blast
next
  case False
  define m where "m = due_at False (OSTmrTime s) (OSTmrTbl s t)"
  have ok: "wheel_ok (spoke_list s) (free_timers s) s" using s by (simp add: timers_ok_def)
  note L = Link_ok [OF ok t(1) False t(2) m_def refl]
  have "started (OSTmrTime s) (view (OSTmrTbl s t)) = (view (OSTmrTbl s t))\<lparr>OSTmrState := OS_TMR_STATE_RUNNING, OSTmrMatch := m\<rparr>"
    by (simp add: started_def m_def due_at_def)
  then have "view_upd t (started (OSTmrTime s)) s (OSTmr_Link t False s)" using L by (simp add: view_upd_def)
  moreover have "tmr_start t s = Inr ((True, OS_ERR_NONE), OSTmr_Link t False s)"
    using states_ok(2) [OF s t(1)] False t(2) by (auto simp: tmr_start_def)
  ultimately show ?thesis using wheel_ok_lists(1) L by blast
qed

lemma due_positive:
  assumes "tmr_ok p" "OSTmrState p \<noteq> OS_TMR_STATE_UNUSED" "d = (if OSTmrDly p = 0 then OSTmrPeriod p else OSTmrDly p)"
  shows "0 < unat d"
  using assms by (auto simp: tmr_ok_def word_unat_eq_iff split: if_splits)

lemma remain_running:
  assumes "OSTmrState (OSTmrTbl s t) = OS_TMR_STATE_RUNNING"
  shows "tmr_remain t s = Inr ((OSTmrMatch (OSTmrTbl s t) - OSTmrTime s, OS_ERR_NONE), s)"
  using assms by (simp add: tmr_remain_def)

text \<open>C15: A timer started with a delay of \<open>d\<close> ticks, the period when the delay is zero, counts down by one each
  round without a call and fires in round \<open>d\<close>: it makes its call once; a one-shot timer is then completed and a
  periodic one has its period ahead of it.\<close>
lemma timer_fires_on_time:
  assumes s: "timers_ok s" and t: "t < OS_TMR_CFG_MAX" "OSTmrState (OSTmrTbl s t) \<noteq> OS_TMR_STATE_UNUSED"
    and d: "d = (if OSTmrDly (OSTmrTbl s t) = 0 then OSTmrPeriod (OSTmrTbl s t) else OSTmrDly (OSTmrTbl s t))"
  shows "\<exists>s0. tmr_start t s = Inr ((True, OS_ERR_NONE), s0)
    \<and> (\<forall>n < unat d. \<exists>s'. rounds n s0 = Inr s' \<and> tmr_remain t s' = Inr ((d - of_nat n, OS_ERR_NONE), s')
          \<and> calls_for t (calls s') = calls_for t (calls s))
    \<and> (\<exists>s'. rounds (unat d) s0 = Inr s' \<and> calls_for t (calls s') = calls_for t (calls s) @ callback_of t (OSTmrTbl s t)
          \<and> (if OSTmrOpt (OSTmrTbl s t) = OS_TMR_OPT_PERIODIC
             then tmr_remain t s' = Inr ((OSTmrPeriod (OSTmrTbl s t), OS_ERR_NONE), s')
             else OSTmrState (OSTmrTbl s' t) = OS_TMR_STATE_COMPLETED))"
proof -
  let ?p = "OSTmrTbl s t"
  obtain s0 where s0: "tmr_start t s = Inr ((True, OS_ERR_NONE), s0)" "timers_ok s0" "view_upd t (started (OSTmrTime s)) s s0"
    using start_effect [OF s t] by blast
  note p0 = view_updD(1) [OF s0(3)]
  have eqs: "OSTmrState (OSTmrTbl s0 t) = OS_TMR_STATE_RUNNING" "OSTmrMatch (OSTmrTbl s0 t) = d + OSTmrTime s"
    "OSTmrOpt (OSTmrTbl s0 t) = OSTmrOpt ?p" "OSTmrPeriod (OSTmrTbl s0 t) = OSTmrPeriod ?p"
    using arg_cong [OF p0, of OSTmrState] arg_cong [OF p0, of OSTmrMatch] arg_cong [OF p0, of OSTmrOpt] arg_cong [OF p0, of OSTmrPeriod]
    by (simp_all add: started_def due_at_def d)
  have "callback_of t (view (OSTmrTbl s0 t)) = callback_of t (view ?p)" by (simp add: p0 started_def callback_of_def cong: option.case_cong)
  then have cb: "callback_of t (OSTmrTbl s0 t) = callback_of t ?p" by (simp add: callback_of_def cong: option.case_cong)
  have time: "OSTmrTime s0 = OSTmrTime s" "calls s0 = calls s" by (rule view_updD(3, 4) [OF s0(3)])+
  have left: "OSTmrMatch (OSTmrTbl s0 t) - OSTmrTime s0 = d" by (simp add: eqs time)
  have pos: "0 < unat d" by (rule due_positive [OF states_ok(1) [OF s t(1)] t(2) d])
  have "\<exists>s'. rounds n s0 = Inr s' \<and> tmr_remain t s' = Inr ((d - of_nat n, OS_ERR_NONE), s')
      \<and> calls_for t (calls s') = calls_for t (calls s)" if n: "n < unat d" for n
  proof -
    obtain s' where s': "rounds n s0 = Inr s'" "OSTmrTime s' = OSTmrTime s + of_nat n"
      "view (OSTmrTbl s' t) = view (OSTmrTbl s0 t)" "calls_for t (calls s') = calls_for t (calls s)"
      using rounds_waiting [OF s0(2) t(1), of n] left n by (auto simp: time)
    have "OSTmrState (OSTmrTbl s' t) = OS_TMR_STATE_RUNNING" using view_eqD(1) [OF s'(3)] eqs by simp
    note remain_running [OF this]
    then show ?thesis using s' view_eqD(2) [OF s'(3)] eqs by simp
  qed
  moreover obtain s' where s': "rounds (unat d) s0 = Inr s'" "OSTmrTime s' = d + OSTmrTime s"
      "view (OSTmrTbl s' t) = tick_tmr (OSTmrTime s') (view (OSTmrTbl s0 t))"
      "calls_for t (calls s') = calls_for t (calls s) @ callback_of t ?p"
    using rounds_fire [OF s0(2) t(1) eqs(1) refl] pos by (auto simp: left time eqs cb)
  have "if OSTmrOpt ?p = OS_TMR_OPT_PERIODIC then tmr_remain t s' = Inr ((OSTmrPeriod ?p, OS_ERR_NONE), s')
        else OSTmrState (OSTmrTbl s' t) = OS_TMR_STATE_COMPLETED"
  proof (cases "OSTmrOpt ?p = OS_TMR_OPT_PERIODIC")
    case True
    have "OSTmrState (OSTmrTbl s' t) = OS_TMR_STATE_RUNNING" "OSTmrMatch (OSTmrTbl s' t) - OSTmrTime s' = OSTmrPeriod ?p"
      using True arg_cong [OF s'(3), of OSTmrState] arg_cong [OF s'(3), of OSTmrMatch] by (simp_all add: tick_tmr_def eqs s'(2))
    with True remain_running show ?thesis by simp
  next
    case False
    with arg_cong [OF s'(3), of OSTmrState] show ?thesis by (simp add: tick_tmr_def eqs s'(2))
  qed
  ultimately show ?thesis using s0(1) s'(1, 4) by blast
qed

section \<open>The calls\<close>

definition leaves_ok :: "tmrs \<Rightarrow> ('a \<times> tmrs) res \<Rightarrow> bool" where
  "leaves_ok s r = (case r of Inl f \<Rightarrow> False | Inr (a, s') \<Rightarrow> timers_ok s' \<and> OSTmrSem s' = OSTmrSem s)"

lemma leaves_ok_simps [simp]:
  "leaves_ok s (Inr (a, s')) \<longleftrightarrow> timers_ok s' \<and> OSTmrSem s' = OSTmrSem s" "\<not> leaves_ok s (Inl f)"
  by (simp_all add: leaves_ok_def)

definition body_ok :: "(tmrs \<Rightarrow> ('a \<times> tmrs) res) \<Rightarrow> bool" where
  "body_ok f \<longleftrightarrow> (\<forall>s. timers_ok s \<longrightarrow> leaves_ok s (f s))"

lemma body_okI: "(\<And>s. timers_ok s \<Longrightarrow> leaves_ok s (f s)) \<Longrightarrow> body_ok f"
  by (simp add: body_ok_def)

lemma body_okD:
  assumes "body_ok f" "timers_ok s"
  obtains a s' where "f s = Inr (a, s')" "timers_ok s'" "OSTmrSem s' = OSTmrSem s"
  using assms by (cases "f s") (auto simp: body_ok_def)

lemma view_upd_sem: "view_upd t f s s' \<Longrightarrow> OSTmrSem s' = OSTmrSem s"
  by (simp add: view_upd_def)

lemma unlink_effect:
  assumes "timers_ok s" "t < OS_TMR_CFG_MAX" "OSTmrState (OSTmrTbl s t) = OS_TMR_STATE_RUNNING"
  shows "\<exists>s'. OSTmr_Unlink t s = Inr s' \<and> timers_ok s' \<and> view_upd t (\<lambda>p. p\<lparr>OSTmrState := OS_TMR_STATE_STOPPED\<rparr>) s s'"
  using Unlink_ok [OF assms(1) [unfolded timers_ok_def] assms(2, 3) refl] wheel_ok_lists(1) by blast

lemma free_effect:
  assumes "timers_ok s" "t < OS_TMR_CFG_MAX" "OSTmrState (OSTmrTbl s t) \<noteq> OS_TMR_STATE_RUNNING"
    "OSTmrState (OSTmrTbl s t) \<noteq> OS_TMR_STATE_UNUSED"
  shows "timers_ok (OSTmr_Free t s)" "view_upd t freed s (OSTmr_Free t s)"
  using Free_ok [OF assms(1) [unfolded timers_ok_def] assms(2-4)] wheel_ok_lists(1) by blast+

lemma body_del: "t < OS_TMR_CFG_MAX \<Longrightarrow> body_ok (tmr_del t)"
proof (rule body_okI)
  fix s assume t: "t < OS_TMR_CFG_MAX" and s: "timers_ok s"
  consider "OSTmrState (OSTmrTbl s t) = OS_TMR_STATE_RUNNING" | "OSTmrState (OSTmrTbl s t) = OS_TMR_STATE_UNUSED"
    | "OSTmrState (OSTmrTbl s t) \<in> {OS_TMR_STATE_STOPPED, OS_TMR_STATE_COMPLETED}"
    using states_ok(2) [OF s t] by auto
  then show "leaves_ok s (tmr_del t s)"
  proof cases
    case 1
    obtain s1 where s1: "OSTmr_Unlink t s = Inr s1" "timers_ok s1" "view_upd t (\<lambda>p. p\<lparr>OSTmrState := OS_TMR_STATE_STOPPED\<rparr>) s s1"
      using unlink_effect [OF s t 1] by blast
    then have "OSTmrState (OSTmrTbl s1 t) = OS_TMR_STATE_STOPPED" using arg_cong [OF view_updD(1), of _ _ _ _ OSTmrState] by force
    then show ?thesis using free_effect [OF s1(2) t] s1(1) 1 view_upd_sem [OF s1(3)] by (simp add: tmr_del_def view_upd_sem)
  next
    case 2
    then show ?thesis using s by (simp add: tmr_del_def)
  next
    case 3
    then show ?thesis using free_effect [OF s t] by (auto simp: tmr_del_def view_upd_sem)
  qed
qed

lemma body_start: "t < OS_TMR_CFG_MAX \<Longrightarrow> body_ok (tmr_start t)"
proof (rule body_okI)
  fix s assume t: "t < OS_TMR_CFG_MAX" and s: "timers_ok s"
  show "leaves_ok s (tmr_start t s)"
    using start_effect [OF s t] s view_upd_sem by (cases "OSTmrState (OSTmrTbl s t) = OS_TMR_STATE_UNUSED") (force simp: tmr_start_def)+
qed

lemma timers_ok_calls [simp]: "timers_ok (s\<lparr>calls := c\<rparr>) = timers_ok s"
proof -
  have "spoke_list (s\<lparr>calls := c\<rparr>) = spoke_list s" by (simp add: spoke_list_def fun_eq_iff)
  then show ?thesis by (simp add: timers_ok_def free_timers_def)
qed

lemma stop_callback_ok [simp]:
  "timers_ok (snd (stop_callback t arg s)) = timers_ok s" "OSTmrSem (snd (stop_callback t arg s)) = OSTmrSem s"
  by (simp_all add: stop_callback_def split: option.split)

lemma body_stop: "t < OS_TMR_CFG_MAX \<Longrightarrow> body_ok (tmr_stop opt arg t)"
proof (rule body_okI)
  fix s assume t: "t < OS_TMR_CFG_MAX" and s: "timers_ok s"
  show "leaves_ok s (tmr_stop opt arg t s)"
  proof (cases "OSTmrState (OSTmrTbl s t) = OS_TMR_STATE_RUNNING")
    case True
    then show ?thesis using unlink_effect [OF s t True]
      by (auto simp: tmr_stop_def view_upd_sem split_beta)
  next
    case False
    then show ?thesis using s by (simp add: tmr_stop_def Let_def)
  qed
qed

definition create_ok :: "u32 \<Rightarrow> u32 \<Rightarrow> u8 \<Rightarrow> u8 list option \<Rightarrow> bool" where
  "create_ok dly period opt pname \<longleftrightarrow>
     (opt = OS_TMR_OPT_PERIODIC \<and> period \<noteq> 0 \<or> opt = OS_TMR_OPT_ONE_SHOT \<and> dly \<noteq> 0)
     \<and> (case pname of None \<Rightarrow> True | Some name \<Rightarrow> length name < 256)"

lemma put_name_short:
  assumes "length name < 256" "OS_StrLen name < 16"
  shows "put_name name = Inr (takeWhile (\<lambda>c. c \<noteq> 0) name @ [0])"
proof -
  have "length (takeWhile (\<lambda>c. c \<noteq> 0) name) < 256" using assms(1) le_less_trans [OF length_takeWhile_le] by blast
  then have "unat (OS_StrLen name) = length (takeWhile (\<lambda>c. c \<noteq> 0) name)"
    by (simp add: OS_StrLen_def unat_of_nat take_bit_nat_eq_self)
  then show ?thesis using assms(2) by (simp add: put_name_def OS_StrCopy_def word_less_nat_alt)
qed

lemma body_create:
  assumes "create_ok dly period opt pname"
  shows "body_ok (tmr_create dly period opt cb arg pname)"
proof (rule body_okI)
  fix s assume s: "timers_ok s"
  then have ok: "wheel_ok (spoke_list s) (free_timers s) s" by (simp add: timers_ok_def)
  show "leaves_ok s (tmr_create dly period opt cb arg pname s)"
  proof (cases "free_timers s")
    case Nil
    then have "OSTmr_Alloc s = (None, s)" using ok pool_empty by (simp add: wheel_ok_def)
    then show ?thesis using s by (simp add: tmr_create_def)
  next
    case (Cons t fs)
    have t: "OSTmrFreeList s = Some t" using ok Cons by (simp add: wheel_ok_def pool_ok_def)
    have "set (free_timers s) \<subseteq> {t. t < OS_TMR_CFG_MAX}" using ok unfolding wheel_ok_def pool_ok_def by blast
    then have "t < OS_TMR_CFG_MAX" using Cons by simp
    then have type: "OSTmrType (OSTmrTbl s t) = OS_TMR_TYPE" using states_ok(1) [OF s] by (simp add: tmr_ok_def)
    define f where "f n p = p\<lparr>OSTmrNext := None, OSTmrPrev := None, OSTmrState := OS_TMR_STATE_STOPPED, OSTmrDly := dly,
        OSTmrPeriod := period, OSTmrOpt := opt, OSTmrCallback := cb, OSTmrCallbackArg := arg, OSTmrName := n\<rparr>" for n and p :: tmr
    define s' where "s' n = tmr_upd t (f n) (s\<lparr>OSTmrFreeList := OSTmrNext (OSTmrTbl s t), OSTmrUsed := OSTmrUsed s + 1,
        OSTmrFree := OSTmrFree s - 1\<rparr>)" for n
    have ok': "timers_ok (s' n) \<and> OSTmrSem (s' n) = OSTmrSem s" for n
    proof
      have "tmr_ok (f n (OSTmrTbl s t))" using assms type by (auto simp: create_ok_def tmr_ok_def f_def)
      then have "wheel_ok (spoke_list s) fs (s' n)"
        by (intro Alloc_ok [OF ok [unfolded Cons], of "f n"]) (simp_all add: s'_def tmr_upd_def f_def)
      then show "timers_ok (s' n)" by (rule wheel_ok_lists(1))
    qed (simp add: s'_def tmr_upd_def)
    have "leaves_ok s (tmr_create dly period opt cb arg pname s) \<longleftrightarrow>
        (case pname of None \<Rightarrow> leaves_ok s (Inr ((), s' (OSTmrName (OSTmrTbl s t))))
         | Some name \<Rightarrow> if OS_StrLen name < 16 then leaves_ok s (Inr ((), s' (takeWhile (\<lambda>c. c \<noteq> 0) name @ [0])))
             else leaves_ok s (Inr ((), s' [0x23, 0])))"
      using assms t put_name_short
      by (auto simp: tmr_create_def OSTmr_Alloc_def tmr_upd_def s'_def f_def create_ok_def Let_def split: option.split)
    then show ?thesis using ok' by (auto split: option.split)
  qed
qed

section \<open>Runs of calls\<close>

text \<open>The lock is free: its semaphore counts one and nobody waits for it, and the caller may pend.\<close>

definition lock_free :: "tmrs \<Rightarrow> os \<Rightarrow> bool" where
  "lock_free s k \<longleftrightarrow> OSIntNesting k = 0 \<and> OSLockNesting k = 0
     \<and> (case OSTmrSem s of None \<Rightarrow> False
        | Some e \<Rightarrow> OSEventType (OSEcbTbl k e) = OS_EVENT_TYPE_SEM \<and> OSEventCnt (OSEcbTbl k e) = 1 \<and> OSEventGrp (OSEcbTbl k e) = 0)"

lemma locked_free:
  assumes "lock_free s k" "f s = Inr (a, s')" "OSTmrSem s' = OSTmrSem s"
  shows "locked f s k = Inr (Returned a, s', k)"
proof -
  obtain e where e: "OSTmrSem s = Some e" "OSEventType (OSEcbTbl k e) = OS_EVENT_TYPE_SEM" "OSEventCnt (OSEcbTbl k e) = 1"
      "OSEventGrp (OSEcbTbl k e) = 0" and nest: "OSIntNesting k = 0" "OSLockNesting k = 0"
    using assms(1) by (auto simp: lock_free_def split: option.splits)
  define k1 where "k1 = ecb_upd e (\<lambda>ev. ev\<lparr>OSEventCnt := 0\<rparr>) k"
  have "OSTmr_Lock s k = Inr (Returned OS_ERR_NONE, k1)"
    using e nest by (simp add: OSTmr_Lock_def OSSemPend_def k1_def ecb_upd_def)
  moreover have "OSTmr_Unlock s' k1 = Inr (ecb_upd e (\<lambda>ev. ev\<lparr>OSEventCnt := 1\<rparr>) k1)"
    using e assms(3) by (simp add: OSTmr_Unlock_def OSSemPost_def k1_def ecb_upd_def)
  moreover have "(OSEcbTbl k e)\<lparr>OSEventCnt := 1\<rparr> = OSEcbTbl k e" using e(3) by simp
  then have "ecb_upd e (\<lambda>ev. ev\<lparr>OSEventCnt := 1\<rparr>) k1 = k" by (simp add: k1_def ecb_upd_def)
  ultimately show ?thesis using assms(2) by (simp add: locked_def)
qed

datatype tmr_request =
    Create u32 u32 u8 "nat option" vptr "u8 list option"
  | Del "nat option"
  | Start "nat option"
  | Stop "nat option" u8 vptr
  | Remain "nat option"
  | State "nat option"
  | Name "nat option" bool
  | Round

definition done_with :: "('a pend \<times> tmrs \<times> os) res \<Rightarrow> (tmrs \<times> os) res" where
  "done_with r = rbind r (\<lambda>(a, s, k). Inr (s, k))"

fun tmr_call :: "tmr_request \<Rightarrow> tmrs \<Rightarrow> os \<Rightarrow> (tmrs \<times> os) res" where
  "tmr_call (Create dly period opt cb arg pname) s k = done_with (OSTmrCreate dly period opt cb arg pname s k)"
| "tmr_call (Del t) s k = done_with (OSTmrDel t s k)"
| "tmr_call (Start t) s k = done_with (OSTmrStart t s k)"
| "tmr_call (Stop t opt arg) s k = done_with (OSTmrStop t opt arg s k)"
| "tmr_call (Remain t) s k = done_with (OSTmrRemainGet t s k)"
| "tmr_call (State t) s k = done_with (OSTmrStateGet t s k)"
| "tmr_call (Name t dest) s k = done_with (OSTmrNameGet t dest s k)"
| "tmr_call Round s k = done_with (locked (\<lambda>s. rbind (OSTmr_Task_round s) (\<lambda>s. Inr ((), s))) s k)"

fun tmr_calls :: "tmr_request list \<Rightarrow> tmrs \<Rightarrow> os \<Rightarrow> (tmrs \<times> os) res" where
  "tmr_calls [] s k = Inr (s, k)"
| "tmr_calls (c # cs) s k = rbind (tmr_call c s k) (\<lambda>(s, k). tmr_calls cs s k)"

text \<open>A handle is NULL or a timer of the table, whether in use or not.\<close>

definition handle_ok :: "nat option \<Rightarrow> bool" where
  "handle_ok p = (case p of None \<Rightarrow> True | Some t \<Rightarrow> t < OS_TMR_CFG_MAX)"

lemma handle_ok_simps [simp]: "handle_ok None" "handle_ok (Some t) \<longleftrightarrow> t < OS_TMR_CFG_MAX"
  by (simp_all add: handle_ok_def)

fun call_ok :: "tmr_request \<Rightarrow> bool" where
  "call_ok (Create dly period opt cb arg pname) = (case pname of None \<Rightarrow> True | Some name \<Rightarrow> length name < 256)"
| "call_ok (Del t) = handle_ok t"
| "call_ok (Start t) = handle_ok t"
| "call_ok (Stop t opt arg) = handle_ok t"
| "call_ok (Remain t) = handle_ok t"
| "call_ok (State t) = handle_ok t"
| "call_ok (Name t dest) = handle_ok t"
| "call_ok Round = True"

definition call_keeps :: "tmrs \<Rightarrow> os \<Rightarrow> (tmrs \<times> os) res \<Rightarrow> bool" where
  "call_keeps s k r \<longleftrightarrow> (\<exists>s'. r = Inr (s', k) \<and> timers_ok s' \<and> OSTmrSem s' = OSTmrSem s)"

lemma call_keeps_same: "timers_ok s \<Longrightarrow> call_keeps s k (done_with (Inr (a, s, k)))"
  by (simp add: call_keeps_def done_with_def)

lemma locked_keeps:
  assumes "timers_ok s" "lock_free s k" "body_ok f"
  shows "call_keeps s k (done_with (locked f s k))"
proof -
  obtain a s' where f: "f s = Inr (a, s')" "timers_ok s'" "OSTmrSem s' = OSTmrSem s" using body_okD [OF assms(3, 1)] .
  show ?thesis using locked_free [OF assms(2), of f, OF f(1, 3)] f by (simp add: call_keeps_def done_with_def)
qed

lemma on_timer_keeps:
  assumes "timers_ok s" "lock_free s k" "handle_ok p" "\<And>t. t < OS_TMR_CFG_MAX \<Longrightarrow> body_ok (f t)"
  shows "call_keeps s k (done_with (on_timer p d f s k))"
proof (cases p)
  case (Some t)
  then show ?thesis
    using assms(3) locked_keeps [OF assms(1, 2) assms(4)] by (simp add: on_timer_def call_keeps_same [OF assms(1)])
qed (simp add: on_timer_def call_keeps_same [OF assms(1)])

lemma body_remain: "body_ok (tmr_remain t)"
  by (intro body_okI) (simp add: tmr_remain_def Let_def)

lemma body_state: "body_ok (tmr_state t)"
  by (intro body_okI) (simp add: tmr_state_def Let_def)

lemma body_name: "body_ok (tmr_name t)"
  by (intro body_okI) (simp add: tmr_name_def Let_def split_beta)

lemma body_round: "body_ok (\<lambda>s. rbind (OSTmr_Task_round s) (\<lambda>s. Inr ((), s)))"
proof (rule body_okI)
  fix s assume "timers_ok s"
  from round_effect [OF this] show "leaves_ok s (rbind (OSTmr_Task_round s) (\<lambda>s. Inr ((), s)))" by auto
qed

lemma tmr_call_keeps:
  assumes "timers_ok s" "lock_free s k" "call_ok c"
  shows "call_keeps s k (tmr_call c s k)"
proof (cases c)
  case (Create dly period opt cb arg pname)
  show ?thesis
  proof (cases "create_ok dly period opt pname")
    case True
    then have "OSTmrCreate dly period opt cb arg pname s k = locked (tmr_create dly period opt cb arg pname) s k"
      using assms(2) by (auto simp: OSTmrCreate_def create_ok_def lock_free_def)
    then show ?thesis using Create locked_keeps [OF assms(1, 2) body_create [OF True]] by simp
  next
    case False
    then have "\<exists>a. OSTmrCreate dly period opt cb arg pname s k = Inr (a, s, k)"
      using assms(3) Create by (auto simp: OSTmrCreate_def create_ok_def)
    then show ?thesis using Create call_keeps_same [OF assms(1)] by auto
  qed
next
  case (Name t dest)
  have "OSTmrNameGet t dest s k = (if dest \<and> OSIntNesting k = 0 then on_timer t (0, None) tmr_name s k
      else OSTmrNameGet t dest s k)"
    by (cases t) (auto simp: OSTmrNameGet_def on_timer_def)
  moreover have "dest \<Longrightarrow> OSIntNesting k = 0" using assms(2) by (simp add: lock_free_def)
  moreover have "\<not> dest \<Longrightarrow> \<exists>a. OSTmrNameGet t dest s k = Inr (a, s, k)" by (simp add: OSTmrNameGet_def)
  moreover have "call_keeps s k (done_with (on_timer t (0, None) tmr_name s k))"
    using Name assms(3) by (intro on_timer_keeps [OF assms(1, 2)] body_name) simp
  ultimately show ?thesis using Name call_keeps_same [OF assms(1)] by (cases dest) auto
qed (use assms(3) in \<open>auto simp: OSTmrDel_def OSTmrStart_def OSTmrStop_def OSTmrRemainGet_def OSTmrStateGet_def
      intro!: on_timer_keeps [OF assms(1, 2)] body_del body_start body_stop body_remain body_state
        locked_keeps [OF assms(1, 2) body_round]\<close>)

text \<open>C16: Any sequence of calls (create, delete, start, stop, remaining time, state, name) and rounds of the timer
  task, made by a task that has not locked the scheduler while the timers' lock is free, runs to its end without a fault:
  the lock is taken and released by each, the kernel is left as it was and the wheel and the free list stay well formed.
  The timers passed are NULL or timers of the table, in whatever state; the other arguments are arbitrary, except that
  names given to new timers are shorter than 256 characters (longer ones pass the eight-bit length check and overrun
  the name field, and a locked scheduler lets a call run without the lock).\<close>
lemma timer_calls_keep_wheel:
  assumes "timers_ok s" "lock_free s k" "list_all call_ok cs"
  shows "\<exists>s'. tmr_calls cs s k = Inr (s', k) \<and> timers_ok s' \<and> lock_free s' k"
  using assms
proof (induction cs arbitrary: s)
  case (Cons c cs)
  obtain s1 where s1: "tmr_call c s k = Inr (s1, k)" "timers_ok s1" "OSTmrSem s1 = OSTmrSem s"
    using tmr_call_keeps [OF Cons.prems(1, 2)] Cons.prems(3) by (auto simp: call_keeps_def)
  then have "lock_free s1 k" using Cons.prems(2) by (simp add: lock_free_def)
  from Cons.IH [OF s1(2) this] Cons.prems(3) s1(1) show ?case by simp
qed simp

section \<open>Start-up\<close>

text \<open>\<open>OSTmr_Init\<close> up to the creation of the semaphores.\<close>

definition clear_timers :: "tmrs \<Rightarrow> tmrs" where
  "clear_timers s = s\<lparr>OSTmrTbl := (\<lambda>i. if i < OS_TMR_CFG_MAX then tmr0\<lparr>OSTmrNext := if i + 1 < OS_TMR_CFG_MAX then Some (i + 1) else None\<rparr>
                   else OSTmrTbl s i),
                OSTmrWheelTbl := (\<lambda>i. if i < OS_TMR_CFG_WHEEL_SIZE then \<lparr>OSTmrFirst = None, OSTmrEntries = 0\<rparr> else OSTmrWheelTbl s i),
                OSTmrTime := 0, OSTmrUsed := 0, OSTmrFree := 16, OSTmrFreeList := Some 0\<rparr>"

lemma slist_free:
  assumes "\<And>i. i < n \<Longrightarrow> OSTmrNext (h i) = (if i + 1 < n then Some (i + 1) else None)" "j < n"
  shows "flist h (Some j) [j..<n]"
  using assms(2)
proof (induction "n - j" arbitrary: j)
  case (Suc m)
  have upt: "[j..<n] = j # [Suc j..<n]" using Suc.prems by (rule upt_conv_Cons)
  show ?case
  proof (cases "Suc j < n")
    case True
    then have "flist h (Some (Suc j)) [Suc j..<n]" using Suc by simp
    then show ?thesis using True assms(1) [OF Suc.prems] by (simp add: upt)
  next
    case False
    then show ?thesis using assms(1) [OF Suc.prems] by (simp add: upt)
  qed
qed simp

lemma clear_timers_ok: "wheel_ok (\<lambda>i. []) [0..<OS_TMR_CFG_MAX] (clear_timers s)"
  unfolding wheel_ok_def
proof (intro conjI allI impI)
  show "spoke_ok [] i (clear_timers s)" if "i < OS_TMR_CFG_WHEEL_SIZE" for i
    using that by (auto simp: spoke_ok_def clear_timers_def on_spoke_def tmr0_def)
  show "tmr_ok (OSTmrTbl (clear_timers s) t)" if "t < OS_TMR_CFG_MAX" for t
    using that by (simp add: clear_timers_def tmr_ok_def tmr0_def)
  have "flist (OSTmrTbl (clear_timers s)) (Some 0) [0..<OS_TMR_CFG_MAX]"
    by (rule slist_free) (simp_all add: clear_timers_def tmr0_def OS_TMR_CFG_MAX_def)
  then show "pool_ok [0..<OS_TMR_CFG_MAX] (clear_timers s)"
    by (auto simp: pool_ok_def clear_timers_def tmr0_def OS_TMR_CFG_MAX_def)
qed

lemma OSTmr_InitTask_no_task: "OSTmr_InitTask psp pbos k = Inr k"
  by (simp add: OSTmr_InitTask_def OSTaskCreateExt_def OSTaskNameSet_def word_less_nat_alt)

lemma OSSemCreate_effect:
  assumes "OSIntNesting k = 0" "OSEventFreeList k = EcbPtr e"
  shows "OSSemCreate cnt k = Inr (Some e, k\<lparr>OSEventFreeList := OSEventPtr (OSEcbTbl k e),
      OSEcbTbl := (OSEcbTbl k)(e := (OSEcbTbl k e)\<lparr>OSEventType := OS_EVENT_TYPE_SEM, OSEventCnt := cnt, OSEventPtr := Null,
        OSEventName := unknown_name, OSEventGrp := 0, OSEventTbl := [0, 0, 0, 0]\<rparr>)\<rparr>)"
  using assms by (simp add: OSSemCreate_def ecb_take_def OS_EventWaitListInit_def set_wait_def ecb_upd_def)

lemma event_names:
  "put_name (map (of_nat \<circ> of_char) ''OS-TmrLock'') = Inr (map (of_nat \<circ> of_char) ''OS-TmrLock'' @ [0])"
  "put_name (map (of_nat \<circ> of_char) ''OS-TmrSig'') = Inr (map (of_nat \<circ> of_char) ''OS-TmrSig'' @ [0])"
  "\<not> OS_StrLen (map (of_nat \<circ> of_char) ''OS-TmrLock'') > 15" "\<not> OS_StrLen (map (of_nat \<circ> of_char) ''OS-TmrSig'') > 15"
  by code_simp+

lemma name_event_effect:
  assumes "OSIntNesting k = 0" "OSEventType (OSEcbTbl k e) = OS_EVENT_TYPE_SEM"
    and "put_name (map (of_nat \<circ> of_char) name) = Inr n" "\<not> OS_StrLen (map (of_nat \<circ> of_char) name) > 15"
  shows "name_event (Some e) name k = Inr (ecb_upd e (\<lambda>ev. ev\<lparr>OSEventName := n\<rparr>) k)"
  using assms(1, 2) unfolding name_event_def OSEventNameSet_def by (simp add: event_named_def assms(3, 4) del: not_less)

lemma timer_init_effect:
  assumes "OSIntNesting k = 0" "OSLockNesting k = 0" "OSEventFreeList k = EcbPtr e1" "OSEventPtr (OSEcbTbl k e1) = EcbPtr e2" "e1 \<noteq> e2"
  shows "\<exists>s' k'. OSTmr_Init psp pbos s k = Inr (s', k') \<and> timers_ok s' \<and> free_timers s' = [0..<OS_TMR_CFG_MAX] \<and> lock_free s' k'
    \<and> OSTmrSemSignal s' = Some e2 \<and> OSEventCnt (OSEcbTbl k' e2) = 0 \<and> OSEventGrp (OSEcbTbl k' e2) = 0
    \<and> OSTCBPrioTbl k' = OSTCBPrioTbl k \<and> OSTCBTbl k' = OSTCBTbl k \<and> OSTaskCtr k' = OSTaskCtr k"
proof -
  define k1 where "k1 = k\<lparr>OSEventFreeList := EcbPtr e2,
      OSEcbTbl := (OSEcbTbl k)(e1 := (OSEcbTbl k e1)\<lparr>OSEventType := OS_EVENT_TYPE_SEM, OSEventCnt := 1, OSEventPtr := Null,
        OSEventName := unknown_name, OSEventGrp := 0, OSEventTbl := [0, 0, 0, 0]\<rparr>)\<rparr>"
  define k2 where "k2 = k1\<lparr>OSEventFreeList := OSEventPtr (OSEcbTbl k1 e2),
      OSEcbTbl := (OSEcbTbl k1)(e2 := (OSEcbTbl k1 e2)\<lparr>OSEventType := OS_EVENT_TYPE_SEM, OSEventCnt := 0, OSEventPtr := Null,
        OSEventName := unknown_name, OSEventGrp := 0, OSEventTbl := [0, 0, 0, 0]\<rparr>)\<rparr>"
  define k3 where "k3 = ecb_upd e1 (\<lambda>ev. ev\<lparr>OSEventName := map (of_nat \<circ> of_char) ''OS-TmrLock'' @ [0]\<rparr>) k2"
  define k4 where "k4 = ecb_upd e2 (\<lambda>ev. ev\<lparr>OSEventName := map (of_nat \<circ> of_char) ''OS-TmrSig'' @ [0]\<rparr>) k3"
  define s' where "s' = (clear_timers s)\<lparr>OSTmrSem := Some e1, OSTmrSemSignal := Some e2\<rparr>"
  have 1: "OSSemCreate 1 k = Inr (Some e1, k1)" using OSSemCreate_effect [OF assms(1, 3)] by (simp add: k1_def assms(4))
  have 2: "OSSemCreate 0 k1 = Inr (Some e2, k2)"
    unfolding k2_def by (rule OSSemCreate_effect) (simp_all add: k1_def assms(1))
  have 3: "name_event (Some e1) ''OS-TmrLock'' k2 = Inr k3" unfolding k3_def
    by (intro name_event_effect event_names) (use assms in \<open>simp_all add: k2_def k1_def\<close>)
  have 4: "name_event (Some e2) ''OS-TmrSig'' k3 = Inr k4" unfolding k4_def
    by (intro name_event_effect event_names) (use assms in \<open>simp_all add: k3_def k2_def k1_def ecb_upd_def\<close>)
  have run: "OSTmr_Init psp pbos s k = Inr (s', k4)"
    unfolding OSTmr_Init_def Let_def clear_timers_def [symmetric] 1 rbind_Inr prod.case 2 3 4 OSTmr_InitTask_no_task by (simp add: s'_def)
  have "wheel_ok (\<lambda>i. []) [0..<OS_TMR_CFG_MAX] s'"
    using clear_timers_ok [of s] by (simp add: s'_def wheel_ok_def spoke_ok_def pool_ok_def on_spoke_def)
  note wheel_ok_lists(1, 3) [OF this]
  moreover have "lock_free s' k4" using assms
    by (simp add: lock_free_def s'_def k4_def k3_def k2_def k1_def ecb_upd_def)
  moreover have "OSEventCnt (OSEcbTbl k4 e2) = 0 \<and> OSEventGrp (OSEcbTbl k4 e2) = 0 \<and> OSTCBPrioTbl k4 = OSTCBPrioTbl k
      \<and> OSTCBTbl k4 = OSTCBTbl k \<and> OSTaskCtr k4 = OSTaskCtr k" using assms(5)
    by (simp add: k4_def k3_def k2_def k1_def ecb_upd_def)
  ultimately show ?thesis using run by (auto simp: s'_def)
qed

text \<open>\<open>OSTmr_Init\<close> leaves all timers free and the lock free, and creates no task: the priority it asks for is beyond
  the lowest one, the error is ignored, and nothing waits for the signal of the tick.\<close>
lemma timer_task_never_created:
  assumes "OSIntNesting k = 0" "OSLockNesting k = 0" "OSEventFreeList k = EcbPtr e1" "OSEventPtr (OSEcbTbl k e1) = EcbPtr e2" "e1 \<noteq> e2"
  shows "\<exists>s' k'. OSTmr_Init psp pbos s k = Inr (s', k') \<and> timers_ok s' \<and> free_timers s' = [0..<OS_TMR_CFG_MAX] \<and> lock_free s' k'
    \<and> OSTmrSemSignal s' = Some e2 \<and> OSEventCnt (OSEcbTbl k' e2) = 0 \<and> OSEventGrp (OSEcbTbl k' e2) = 0
    \<and> OSTCBPrioTbl k' = OSTCBPrioTbl k \<and> OSTCBTbl k' = OSTCBTbl k \<and> OSTaskCtr k' = OSTaskCtr k"
  using assms by (rule timer_init_effect)

text \<open>A call made with the scheduler locked goes ahead whether the timers are in use or not, \<open>OSSemPend\<close> having
  refused to wait, and then gives back a lock that it never took.\<close>
lemma timer_lock_leaks:
  assumes "timers_ok s" "t < OS_TMR_CFG_MAX" "OSTmrState (OSTmrTbl s t) \<noteq> OS_TMR_STATE_UNUSED"
    and "OSIntNesting k = 0" "OSLockNesting k > 0" "OSTmrSem s = Some e" "OSEventType (OSEcbTbl k e) = OS_EVENT_TYPE_SEM"
    and "OSEventGrp (OSEcbTbl k e) = 0" "OSEventCnt (OSEcbTbl k e) < 65535"
  shows "\<exists>s'. OSTmrStart (Some t) s k = Inr (Returned (True, OS_ERR_NONE), s',
      ecb_upd e (\<lambda>ev. ev\<lparr>OSEventCnt := OSEventCnt (OSEcbTbl k e) + 1\<rparr>) k)
    \<and> OSTmrState (OSTmrTbl s' t) = OS_TMR_STATE_RUNNING"
proof -
  obtain s' where s': "tmr_start t s = Inr ((True, OS_ERR_NONE), s')" "view_upd t (started (OSTmrTime s)) s s'"
    using start_effect [OF assms(1-3)] by blast
  have "OSTmrState (OSTmrTbl s' t) = OS_TMR_STATE_RUNNING"
    using arg_cong [OF view_updD(1) [OF s'(2)], of OSTmrState] by (simp add: started_def)
  moreover have "OSTmrType (OSTmrTbl s t) = OS_TMR_TYPE" using states_ok(1) [OF assms(1, 2)] by (simp add: tmr_ok_def)
  ultimately show ?thesis using s'(1) view_upd_sem [OF s'(2)] assms
    by (simp add: OSTmrStart_def on_timer_def locked_def OSTmr_Lock_def OSTmr_Unlock_def OSSemPend_def OSSemPost_def ecb_upd_def)
qed

section \<open>Concrete timers\<close>

definition timers_bss :: tmrs where
  "timers_bss = \<lparr>OSTmrTbl = (\<lambda>t. tmr0), OSTmrWheelTbl = (\<lambda>i. \<lparr>OSTmrFirst = None, OSTmrEntries = 0\<rparr>), OSTmrTime = 0, OSTmrUsed = 0,
     OSTmrFree = 0, OSTmrFreeList = None, OSTmrSem = None, OSTmrSemSignal = None, calls = []\<rparr>"

definition demo_init :: "tmrs \<times> os" where
  "demo_init = projr (OSTmr_Init 0 0 timers_bss os_init)"

text \<open>Timer 0: one shot of two ticks with callback 7.\<close>

definition demo_timer :: tmrs where
  "demo_timer = snd (projr (tmr_create 2 0 OS_TMR_OPT_ONE_SHOT (Some 7) Null None (fst demo_init)))"

theorem timer_task_never_created_witness:
  "\<exists>s' k'. OSTmr_Init 0 0 timers_bss os_init = Inr (s', k') \<and> timers_ok s' \<and> free_timers s' = [0..<OS_TMR_CFG_MAX] \<and> lock_free s' k'
    \<and> OSTmrSemSignal s' = Some 1 \<and> OSEventCnt (OSEcbTbl k' 1) = 0 \<and> OSEventGrp (OSEcbTbl k' 1) = 0
    \<and> OSTCBPrioTbl k' = OSTCBPrioTbl os_init \<and> OSTCBTbl k' = OSTCBTbl os_init \<and> OSTaskCtr k' = OSTaskCtr os_init"
  by (rule timer_task_never_created [where ?e1.0 = 0]) (code_simp, code_simp, code_simp, code_simp, simp)

lemma demo_init: "timers_ok (fst demo_init)" "lock_free (fst demo_init) (snd demo_init)"
proof -
  have "\<exists>s' k'. OSTmr_Init 0 0 timers_bss os_init = Inr (s', k') \<and> timers_ok s' \<and> free_timers s' = [0..<OS_TMR_CFG_MAX] \<and> lock_free s' k'
    \<and> OSTmrSemSignal s' = Some 1 \<and> OSEventCnt (OSEcbTbl k' 1) = 0 \<and> OSEventGrp (OSEcbTbl k' 1) = 0
    \<and> OSTCBPrioTbl k' = OSTCBPrioTbl os_init \<and> OSTCBTbl k' = OSTCBTbl os_init \<and> OSTaskCtr k' = OSTaskCtr os_init"
    by (rule timer_init_effect [where ?e1.0 = 0]) (code_simp, code_simp, code_simp, code_simp, simp)
  then show "timers_ok (fst demo_init)" "lock_free (fst demo_init) (snd demo_init)" by (auto simp: demo_init_def)
qed

lemma demo_timer: "timers_ok demo_timer" "OSTmrSem demo_timer = Some 0"
proof -
  have "body_ok (tmr_create 2 0 OS_TMR_OPT_ONE_SHOT (Some 7) Null None)" by (rule body_create) (simp add: create_ok_def)
  from body_okD [OF this demo_init(1)] show "timers_ok demo_timer" unfolding demo_timer_def by (metis sum.sel(2) snd_conv)
qed code_simp

theorem timer_round_correct_witness:
  "\<exists>s'. OSTmr_Task_round demo_timer = Inr s' \<and> timers_ok s' \<and> OSTmrTime s' = OSTmrTime demo_timer + 1
    \<and> OSTmrSem s' = OSTmrSem demo_timer \<and> OSTmrSemSignal s' = OSTmrSemSignal demo_timer
    \<and> (\<forall>t < OS_TMR_CFG_MAX. view (OSTmrTbl s' t) = tick_tmr (OSTmrTime demo_timer + 1) (view (OSTmrTbl demo_timer t))
        \<and> calls_for t (calls s') = calls_for t (calls demo_timer) @ callback_at (OSTmrTime demo_timer + 1) (OSTmrTbl demo_timer) t)"
  by (rule timer_round_correct [OF demo_timer(1)])

lemma demo_stopped: "OSTmrState (OSTmrTbl demo_timer 0) = OS_TMR_STATE_STOPPED" "OSTmrDly (OSTmrTbl demo_timer 0) = 2"
  "OSTmrOpt (OSTmrTbl demo_timer 0) = OS_TMR_OPT_ONE_SHOT" "callback_of 0 (OSTmrTbl demo_timer 0) = [(7, 0, Null)]"
  "calls_for 0 (calls demo_timer) = []"
  by code_simp+

theorem timer_fires_on_time_witness:
  "\<exists>s0 s1 s2. tmr_start 0 demo_timer = Inr ((True, OS_ERR_NONE), s0) \<and> rounds 1 s0 = Inr s1
    \<and> tmr_remain 0 s1 = Inr ((1, OS_ERR_NONE), s1) \<and> calls_for 0 (calls s1) = [] \<and> rounds 2 s0 = Inr s2
    \<and> calls_for 0 (calls s2) = [(7, 0, Null)] \<and> OSTmrState (OSTmrTbl s2 0) = OS_TMR_STATE_COMPLETED"
proof -
  have "(2 :: u32) = (if OSTmrDly (OSTmrTbl demo_timer 0) = 0 then OSTmrPeriod (OSTmrTbl demo_timer 0) else OSTmrDly (OSTmrTbl demo_timer 0))"
    by (simp add: demo_stopped)
  note F = timer_fires_on_time [OF demo_timer(1) _ _ this]
  have "(0 :: nat) < OS_TMR_CFG_MAX" by (simp add: OS_TMR_CFG_MAX_def)
  from F [OF this] obtain s0 where s0: "tmr_start 0 demo_timer = Inr ((True, OS_ERR_NONE), s0)"
      "\<And>n. n < 2 \<Longrightarrow> \<exists>s'. rounds n s0 = Inr s' \<and> tmr_remain 0 s' = Inr ((2 - of_nat n, OS_ERR_NONE), s') \<and> calls_for 0 (calls s') = []"
      "\<exists>s'. rounds 2 s0 = Inr s' \<and> calls_for 0 (calls s') = [(7, 0, Null)] \<and> OSTmrState (OSTmrTbl s' 0) = OS_TMR_STATE_COMPLETED"
    by (auto simp: demo_stopped)
  from s0(2) [of 1] s0(1, 3) show ?thesis by auto
qed

theorem timer_calls_keep_wheel_witness:
  "\<exists>s'. tmr_calls [Create 5 3 OS_TMR_OPT_PERIODIC (Some 1) Null None, Start (Some 0), Round, Stop (Some 0) OS_TMR_OPT_NONE Null,
      Del (Some 0), Del (Some 0), Start None] (fst demo_init) (snd demo_init) = Inr (s', snd demo_init)
    \<and> timers_ok s' \<and> lock_free s' (snd demo_init)"
  by (rule timer_calls_keep_wheel [OF demo_init]) (simp add: OS_TMR_CFG_MAX_def)

text \<open>Another task is inside the timer module, and the scheduler is locked.\<close>

definition demo_locked :: os where
  "demo_locked = (ecb_upd 0 (\<lambda>ev. ev\<lparr>OSEventCnt := 0\<rparr>) (snd demo_init))\<lparr>OSLockNesting := 1\<rparr>"

theorem timer_lock_leaks_witness:
  "\<exists>s'. OSTmrStart (Some 0) demo_timer demo_locked = Inr (Returned (True, OS_ERR_NONE), s',
      ecb_upd 0 (\<lambda>ev. ev\<lparr>OSEventCnt := OSEventCnt (OSEcbTbl demo_locked 0) + 1\<rparr>) demo_locked)
    \<and> OSTmrState (OSTmrTbl s' 0) = OS_TMR_STATE_RUNNING"
  by (rule timer_lock_leaks [OF demo_timer(1) _ _ _ _ demo_timer(2)]; code_simp)

end
