(* ===== verification/Os_Mutex.thy ===== *)
theory Os_Mutex
  imports Os_Task_Ext
begin

text \<open>
  The mutual exclusion semaphores of the uC/OS-II kernel, \<open>os_mutex.c\<close>. The count of the event holds the
  inheritance priority in its upper byte and the priority of the owner, 255 when there is none, in its lower one;
  its pointer names the owner. The priority table maps both priorities of a raised owner to its control block.
  \<open>OSMutexPend\<close> is split at its call of \<open>OS_Sched\<close>, as the other pends are.
\<close>

abbreviation OS_STAT_MUTEX :: u8 where "OS_STAT_MUTEX \<equiv> 0x10"
abbreviation OS_ERR_POST_ISR :: u8 where "OS_ERR_POST_ISR \<equiv> 5"
abbreviation OS_ERR_QUERY_ISR :: u8 where "OS_ERR_QUERY_ISR \<equiv> 6"
abbreviation OS_ERR_NOT_MUTEX_OWNER :: u8 where "OS_ERR_NOT_MUTEX_OWNER \<equiv> 100"
abbreviation OS_ERR_PIP_LOWER :: u8 where "OS_ERR_PIP_LOWER \<equiv> 120"
abbreviation OS_MUTEX_KEEP_LOWER_8 :: u16 where "OS_MUTEX_KEEP_LOWER_8 \<equiv> 0x00FF"
abbreviation OS_MUTEX_KEEP_UPPER_8 :: u16 where "OS_MUTEX_KEEP_UPPER_8 \<equiv> 0xFF00"
abbreviation OS_MUTEX_AVAILABLE :: u16 where "OS_MUTEX_AVAILABLE \<equiv> 0x00FF"

definition pip_of :: "u16 \<Rightarrow> u8" where
  "pip_of cnt = ucast (drop_bit 8 cnt)"

definition owner_prio :: "u16 \<Rightarrow> u8" where
  "owner_prio cnt = ucast (cnt AND OS_MUTEX_KEEP_LOWER_8)"

definition cnt_owned :: "u8 \<Rightarrow> u16 \<Rightarrow> u16" where
  "cnt_owned prio cnt = (cnt AND OS_MUTEX_KEEP_UPPER_8) OR ucast prio"

definition set_entry :: "u8 \<Rightarrow> tcb_ref \<Rightarrow> os \<Rightarrow> os res" where
  "set_entry prio r s =
     (if length (OSTCBPrioTbl s) \<le> unat prio then Inl OutOfBounds
      else Inr (s\<lparr>OSTCBPrioTbl := (OSTCBPrioTbl s)[unat prio := r]\<rparr>))"

definition with_prio :: "u8 \<Rightarrow> u8 \<Rightarrow> tcb \<Rightarrow> tcb" where
  "with_prio prio y ptcb = ptcb\<lparr>OSTCBPrio := prio, OSTCBY := y, OSTCBX := prio AND 7,
     OSTCBBitY := push_bit (unat y) 1, OSTCBBitX := push_bit (unat (prio AND 7)) 1\<rparr>"

section \<open>Taking\<close>

definition mutex_take :: "nat \<Rightarrow> os \<Rightarrow> (u8 \<times> os) res" where
  "mutex_take e s =
     rbind (deref (OSTCBCur s)) (\<lambda>t.
     let prio = OSTCBPrio (OSTCBTbl s t);
         pip = pip_of (OSEventCnt (OSEcbTbl s e));
         s = ecb_upd e (\<lambda>ev. ev\<lparr>OSEventCnt := cnt_owned prio (OSEventCnt ev), OSEventPtr := TcbPtr t\<rparr>) s
     in Inr (if prio \<le> pip then OS_ERR_PIP_LOWER else OS_ERR_NONE, s))"

definition OSMutexAccept :: "nat option \<Rightarrow> os \<Rightarrow> ((bool \<times> u8) \<times> os) res" where
  "OSMutexAccept pevent s =
     (case pevent of
        None \<Rightarrow> Inr ((False, OS_ERR_PEVENT_NULL), s)
      | Some e \<Rightarrow>
          if OSEventType (OSEcbTbl s e) \<noteq> OS_EVENT_TYPE_MUTEX then Inr ((False, OS_ERR_EVENT_TYPE), s)
          else if OSIntNesting s > 0 then Inr ((False, OS_ERR_PEND_ISR), s)
          else if OSEventCnt (OSEcbTbl s e) AND OS_MUTEX_KEEP_LOWER_8 = OS_MUTEX_AVAILABLE then
            rbind (mutex_take e s) (\<lambda>(err, s). Inr ((True, err), s))
          else Inr ((False, OS_ERR_NONE), s))"

section \<open>Creating\<close>

definition OSMutexCreate :: "u8 \<Rightarrow> os \<Rightarrow> ((nat option \<times> u8) \<times> os) res" where
  "OSMutexCreate prio s =
     (if prio \<ge> OS_LOWEST_PRIO then Inr ((None, OS_ERR_PRIO_INVALID), s)
      else if OSIntNesting s > 0 then Inr ((None, OS_ERR_CREATE_ISR), s)
      else
        rbind (prio_entry s prio) (\<lambda>r.
        if r \<noteq> NoTcb then Inr ((None, OS_ERR_PRIO_EXIST), s)
        else
          rbind (set_entry prio Reserved s) (\<lambda>s.
          rbind (ecb_take s) (\<lambda>(pevent, s).
          case pevent of
            None \<Rightarrow> rbind (set_entry prio NoTcb s) (\<lambda>s. Inr ((None, OS_ERR_PEVENT_NULL), s))
          | Some e \<Rightarrow>
              Inr ((Some e, OS_ERR_NONE),
                OS_EventWaitListInit e (ecb_upd e (\<lambda>ev. ev\<lparr>OSEventType := OS_EVENT_TYPE_MUTEX,
                  OSEventCnt := push_bit 8 (ucast prio) OR OS_MUTEX_AVAILABLE, OSEventPtr := Null,
                  OSEventName := unknown_name\<rparr>) s))))))"

section \<open>Priorities of the owner\<close>

text \<open>The task is ready.\<close>

definition OSMutex_RdyAtPrio :: "nat \<Rightarrow> u8 \<Rightarrow> os \<Rightarrow> os res" where
  "OSMutex_RdyAtPrio t prio s =
     rbind (make_unready t s) (\<lambda>s.
     let s = tcb_upd t (with_prio prio (drop_bit 3 prio AND 7)) s
     in rbind (make_ready t (OSTCBY (OSTCBTbl s t)) s) (set_entry prio (Tcb t)))"

text \<open>Raising the owner \<open>t\<close> to the inheritance priority, in the ready list or in the wait list it is in.\<close>

definition mutex_raise :: "nat \<Rightarrow> u8 \<Rightarrow> os \<Rightarrow> os res" where
  "mutex_raise t pip s =
     (let y = OSTCBY (OSTCBTbl s t)
      in if length (OSRdyTbl s) \<le> unat y then Inl OutOfBounds
         else
           let rdy = (OSRdyTbl s ! unat y AND OSTCBBitX (OSTCBTbl s t) \<noteq> 0)
           in rbind (if rdy then make_unready t s
                     else case OSTCBEventPtr (OSTCBTbl s t) of None \<Rightarrow> Inr s | Some e2 \<Rightarrow> OS_EventTaskRemove t e2 s) (\<lambda>s.
              let s = tcb_upd t (with_prio pip (drop_bit 3 pip)) s;
                  ptcb = OSTCBTbl s t
              in rbind (if rdy then make_ready t (OSTCBY ptcb) s
                        else case OSTCBEventPtr ptcb of
                          None \<Rightarrow> Inr s
                        | Some e2 \<Rightarrow>
                            rbind (list_put (OSTCBY ptcb) (OSTCBBitX ptcb) (OSTCBBitY ptcb) (wait_list s e2)) (\<lambda>l.
                            Inr (set_wait e2 l s)))
                 (set_entry pip (Tcb t))))"

text \<open>The owner the event points to.\<close>

definition mutex_owner :: "nat \<Rightarrow> os \<Rightarrow> nat res" where
  "mutex_owner e s = (case OSEventPtr (OSEcbTbl s e) of TcbPtr t \<Rightarrow> Inr t | Null \<Rightarrow> Inl NullDeref | _ \<Rightarrow> Inl OutOfBounds)"

section \<open>Pending\<close>

definition OSMutexPend :: "nat option \<Rightarrow> u16 \<Rightarrow> os \<Rightarrow> (u8 pend \<times> os) res" where
  "OSMutexPend pevent timeout s =
     (case pevent of
        None \<Rightarrow> Inr (Returned OS_ERR_PEVENT_NULL, s)
      | Some e \<Rightarrow>
          if OSEventType (OSEcbTbl s e) \<noteq> OS_EVENT_TYPE_MUTEX then Inr (Returned OS_ERR_EVENT_TYPE, s)
          else if OSIntNesting s > 0 then Inr (Returned OS_ERR_PEND_ISR, s)
          else if OSLockNesting s > 0 then Inr (Returned OS_ERR_PEND_LOCKED, s)
          else
            let cnt = OSEventCnt (OSEcbTbl s e); pip = pip_of cnt
            in if cnt AND OS_MUTEX_KEEP_LOWER_8 = OS_MUTEX_AVAILABLE then
                 rbind (mutex_take e s) (\<lambda>(err, s). Inr (Returned err, s))
               else
                 rbind (mutex_owner e s) (\<lambda>t.
                 rbind (deref (OSTCBCur s)) (\<lambda>c.
                 rbind (if OSTCBPrio (OSTCBTbl s t) > pip \<and> owner_prio cnt > OSTCBPrio (OSTCBTbl s c) then mutex_raise t pip s
                        else Inr s) (\<lambda>s.
                 rbind (pend_wait OS_STAT_MUTEX timeout e s) (\<lambda>s. Inr (Waiting, s))))))"

definition OSMutexPend_resume :: "nat \<Rightarrow> os \<Rightarrow> (u8 \<times> os) res" where
  "OSMutexPend_resume e s = rbind (pend_resume e s) (\<lambda>((err, msg), s). Inr (err, s))"

section \<open>Posting\<close>

definition tcb_ptr :: "tcb_ref \<Rightarrow> vptr" where
  "tcb_ptr r = (case r of NoTcb \<Rightarrow> Null | Reserved \<Rightarrow> DataPtr 1 | Tcb t \<Rightarrow> TcbPtr t)"

definition OSMutexPost :: "nat option \<Rightarrow> os \<Rightarrow> (u8 \<times> os) res" where
  "OSMutexPost pevent s =
     (if OSIntNesting s > 0 then Inr (OS_ERR_POST_ISR, s)
      else case pevent of
        None \<Rightarrow> Inr (OS_ERR_PEVENT_NULL, s)
      | Some e \<Rightarrow>
          if OSEventType (OSEcbTbl s e) \<noteq> OS_EVENT_TYPE_MUTEX then Inr (OS_ERR_EVENT_TYPE, s)
          else
            let pip = pip_of (OSEventCnt (OSEcbTbl s e)); prio = owner_prio (OSEventCnt (OSEcbTbl s e))
            in if tcb_ptr (OSTCBCur s) \<noteq> OSEventPtr (OSEcbTbl s e) then Inr (OS_ERR_NOT_MUTEX_OWNER, s)
               else
                 rbind (deref (OSTCBCur s)) (\<lambda>t.
                 rbind (if OSTCBPrio (OSTCBTbl s t) = pip then OSMutex_RdyAtPrio t prio s else Inr s) (\<lambda>s.
                 rbind (set_entry pip Reserved s) (\<lambda>s.
                 if OSEventGrp (OSEcbTbl s e) \<noteq> 0 then
                   rbind (OS_EventTaskRdy e Null OS_STAT_MUTEX OS_STAT_PEND_OK s) (\<lambda>(prio, s).
                   rbind (prio_entry s prio) (\<lambda>r.
                   let s = ecb_upd e (\<lambda>ev. ev\<lparr>OSEventCnt := cnt_owned prio (OSEventCnt ev), OSEventPtr := tcb_ptr r\<rparr>) s
                   in rbind (OS_Sched s) (\<lambda>s. Inr (if prio \<le> pip then OS_ERR_PIP_LOWER else OS_ERR_NONE, s))))
                 else
                   Inr (OS_ERR_NONE, ecb_upd e (\<lambda>ev. ev\<lparr>OSEventCnt := OSEventCnt ev OR OS_MUTEX_AVAILABLE, OSEventPtr := Null\<rparr>) s)))))"

section \<open>Deleting and looking\<close>

definition OSMutexDel :: "nat option \<Rightarrow> u8 \<Rightarrow> os \<Rightarrow> ((nat option \<times> u8) \<times> os) res" where
  "OSMutexDel pevent opt s =
     (case pevent of
        None \<Rightarrow> Inr ((None, OS_ERR_PEVENT_NULL), s)
      | Some e \<Rightarrow>
          if OSEventType (OSEcbTbl s e) \<noteq> OS_EVENT_TYPE_MUTEX then Inr ((Some e, OS_ERR_EVENT_TYPE), s)
          else if OSIntNesting s > 0 then Inr ((Some e, OS_ERR_DEL_ISR), s)
          else
            let tasks_waiting = (OSEventGrp (OSEcbTbl s e) \<noteq> 0); pip = pip_of (OSEventCnt (OSEcbTbl s e))
            in if opt = 0 then
                 if \<not> tasks_waiting then
                   rbind (set_entry pip NoTcb s) (\<lambda>s. Inr ((None, OS_ERR_NONE), ecb_release e s))
                 else Inr ((Some e, OS_ERR_TASK_WAITING), s)
               else if opt = 1 then
                 rbind (if OSEventPtr (OSEcbTbl s e) \<noteq> Null then
                          rbind (mutex_owner e s) (\<lambda>t.
                          if OSTCBPrio (OSTCBTbl s t) = pip then OSMutex_RdyAtPrio t (owner_prio (OSEventCnt (OSEcbTbl s e))) s
                          else Inr s)
                        else Inr s) (\<lambda>s.
                 rbind (ready_all 33 e Null OS_STAT_MUTEX OS_STAT_PEND_OK 0 s) (\<lambda>(n, s).
                 rbind (set_entry pip NoTcb s) (\<lambda>s.
                 let s = ecb_release e s
                 in rbind (if tasks_waiting then OS_Sched s else Inr s) (\<lambda>s. Inr ((None, OS_ERR_NONE), s)))))
               else Inr ((Some e, OS_ERR_INVALID_OPT), s))"

record mutex_data =
  OSMutexPIP :: u8
  OSOwnerPrio :: u8
  OSValue :: bool
  OSMutexWait :: prio_list

definition OSMutexQuery :: "nat option \<Rightarrow> bool \<Rightarrow> os \<Rightarrow> u8 \<times> mutex_data option" where
  "OSMutexQuery pevent p_mutex_data s =
     (if OSIntNesting s > 0 then (OS_ERR_QUERY_ISR, None)
      else case pevent of
        None \<Rightarrow> (OS_ERR_PEVENT_NULL, None)
      | Some e \<Rightarrow>
          if \<not> p_mutex_data then (OS_ERR_PDATA_NULL, None)
          else if OSEventType (OSEcbTbl s e) \<noteq> OS_EVENT_TYPE_MUTEX then (OS_ERR_EVENT_TYPE, None)
          else
            let cnt = OSEventCnt (OSEcbTbl s e)
            in (OS_ERR_NONE, Some \<lparr>OSMutexPIP = pip_of cnt, OSOwnerPrio = owner_prio cnt, OSValue = (owner_prio cnt = 0xFF),
                 OSMutexWait = wait_list s e\<rparr>))"

end
