(* ===== verification/Os_Mutex_Props.thy ===== *)
theory Os_Mutex_Props
  imports Os_Mutex Os_Calls_Props
begin

text \<open>
  Ownership of a mutex, the inheritance of priorities and their return.
\<close>

section \<open>Tasks and their places\<close>

text \<open>Task \<open>t\<close> has priority \<open>p\<close>, and the lists are well formed.\<close>

definition runs_at :: "os \<Rightarrow> nat \<Rightarrow> nat \<Rightarrow> bool" where
  "runs_at s p t \<longleftrightarrow> p < 32 \<and> tcb_fields p (OSTCBTbl s t)"

lemma runs_atD:
  assumes "runs_at s p t"
  shows "p < 32" "OSTCBPrio (OSTCBTbl s t) = of_nat p" "OSTCBY (OSTCBTbl s t) = prio_y p"
    "OSTCBBitX (OSTCBTbl s t) = prio_bitx p" "OSTCBBitY (OSTCBTbl s t) = prio_bity p"
  using assms by (simp_all add: runs_at_def tcb_fields_def)

lemma with_prio_fields:
  assumes "p < 32"
  shows "tcb_fields p (with_prio (of_nat p) (drop_bit 3 (of_nat p)) q)" "tcb_fields p (with_prio (of_nat p) (drop_bit 3 (of_nat p) AND 7) q)"
proof -
  note W = prio_fields_word [OF assms]
  have y7: "prio_y p AND 7 = prio_y p"
  proof -
    have "prio_y p AND 7 = take_bit 3 (prio_y p)" by (simp add: take_bit_eq_mask mask_eq_exp_minus_1)
    moreover have "unat (take_bit 3 (prio_y p)) = unat (prio_y p)"
      using prio_fields(1, 2) [OF assms] by (simp add: unsigned_take_bit_eq take_bit_nat_eq_self)
    ultimately show ?thesis by (simp add: word_unat_eq_iff)
  qed
  show "tcb_fields p (with_prio (of_nat p) (drop_bit 3 (of_nat p)) q)" "tcb_fields p (with_prio (of_nat p) (drop_bit 3 (of_nat p) AND 7) q)"
    using W prio_fields(1) [OF assms] by (simp_all only: tcb_fields_def with_prio_def W(1) y7) (simp_all add: prio_bity_def prio_bitx_def W(2))
qed

section \<open>Moving a task\<close>

lemma put_ready:
  assumes "runs_at s p t" "list_ok (ready_list s)"
  shows "\<exists>l. make_ready t (OSTCBY (OSTCBTbl s t)) s = Inr (set_ready l s) \<and> list_ok l \<and> prios l = insert p (ready s)"
proof -
  note F = runs_atD [OF assms(1)]
  from ps.put_ok [OF assms(2) F(1)] F show ?thesis by (fastforce simp: make_ready_def)
qed

lemma clear_ready:
  assumes "runs_at s p t" "list_ok (ready_list s)"
  shows "\<exists>l. make_unready t s = Inr (set_ready l s) \<and> list_ok l \<and> prios l = ready s - {p}"
proof -
  note F = runs_atD [OF assms(1)]
  from ps.clear_ok [OF assms(2) F(1)] F show ?thesis by (fastforce simp: make_unready_def)
qed

lemma put_wait:
  assumes "runs_at s p t" "list_ok (wait_list s e)"
  shows "\<exists>l. list_put (OSTCBY (OSTCBTbl s t)) (OSTCBBitX (OSTCBTbl s t)) (OSTCBBitY (OSTCBTbl s t)) (wait_list s e) = Inr l
    \<and> list_ok l \<and> prios l = insert p (waits s e)"
proof -
  note F = runs_atD [OF assms(1)]
  from ps.put_ok [OF assms(2) F(1)] F show ?thesis by fastforce
qed

lemma clear_wait:
  assumes "runs_at s p t" "list_ok (wait_list s e)"
  shows "\<exists>l. OS_EventTaskRemove t e s = Inr (set_wait e l s) \<and> list_ok l \<and> prios l = waits s e - {p}"
proof -
  note F = runs_atD [OF assms(1)]
  from ps.clear_ok [OF assms(2) F(1)] F show ?thesis by (fastforce simp: OS_EventTaskRemove_def)
qed

lemma ready_bit:
  assumes "runs_at s p t" "list_ok (ready_list s)"
  shows "\<not> length (OSRdyTbl s) \<le> unat (OSTCBY (OSTCBTbl s t))"
    "OSRdyTbl s ! unat (OSTCBY (OSTCBTbl s t)) AND OSTCBBitX (OSTCBTbl s t) \<noteq> 0 \<longleftrightarrow> p \<in> ready s"
proof -
  note F = runs_atD [OF assms(1)] and P = prio_fields [OF runs_atD(1) [OF assms(1)]]
  have len: "length (OSRdyTbl s) = 4" using assms(2) by (simp add: list_ok_def ready_list_def OS_RDY_TBL_SIZE_def)
  show "\<not> length (OSRdyTbl s) \<le> unat (OSTCBY (OSTCBTbl s t))" using len P F by simp
  have "w AND prio_bitx p \<noteq> 0 \<longleftrightarrow> bit w (p mod 8)" for w :: u8
  proof
    assume "w AND prio_bitx p \<noteq> 0"
    then obtain i where "bit (w AND prio_bitx p) i" by (metis bit_eqI bit_0_eq bot_apply bot_bool_def)
    then show "bit w (p mod 8)" using P(3) by (auto simp: bit_and_iff)
  next
    assume "bit w (p mod 8)"
    then have "bit (w AND prio_bitx p) (p mod 8)" using P(3) by (simp add: bit_and_iff)
    then show "w AND prio_bitx p \<noteq> 0" by auto
  qed
  then show "OSRdyTbl s ! unat (OSTCBY (OSTCBTbl s t)) AND OSTCBBitX (OSTCBTbl s t) \<noteq> 0 \<longleftrightarrow> p \<in> ready s"
    using F P(1) by (simp add: prios_def ready_list_def)
qed

text \<open>A task with another priority, another ready list, another entry of the priority table.\<close>

definition at_prio :: "nat \<Rightarrow> nat \<Rightarrow> (tcb \<Rightarrow> tcb) \<Rightarrow> prio_list \<Rightarrow> os \<Rightarrow> os" where
  "at_prio t p f l s = (set_ready l (tcb_upd t f s))\<lparr>OSTCBPrioTbl := (OSTCBPrioTbl s)[p := Tcb t]\<rparr>"

lemma at_prio_simps [simp]:
  "ready_list (at_prio t p f l s) = l" "wait_list (at_prio t p f l s) e = wait_list s e"
  "OSTCBTbl (at_prio t p f l s) = (OSTCBTbl s)(t := f (OSTCBTbl s t))" "OSEcbTbl (at_prio t p f l s) = OSEcbTbl s"
  "OSTCBPrioTbl (at_prio t p f l s) = (OSTCBPrioTbl s)[p := Tcb t]"
  "OSTCBCur (at_prio t p f l s) = OSTCBCur s" "OSPrioCur (at_prio t p f l s) = OSPrioCur s"
  "OSIntNesting (at_prio t p f l s) = OSIntNesting s" "OSLockNesting (at_prio t p f l s) = OSLockNesting s"
  by (simp_all add: at_prio_def set_ready_def tcb_upd_def ready_list_def wait_list_def)

text \<open>A ready task changes its priority.\<close>

lemma reprioritise:
  assumes t: "runs_at s p t" and ok: "list_ok (ready_list s)" and q: "q < 32" "length (OSTCBPrioTbl s) = 32"
    and f: "tcb_fields q (f (OSTCBTbl s t))"
  shows "\<exists>l. rbind (make_unready t s) (\<lambda>s. let s = tcb_upd t f s in
      rbind (make_ready t (OSTCBY (OSTCBTbl s t)) s) (set_entry (of_nat q) (Tcb t))) = Inr (at_prio t q f l s)
    \<and> list_ok l \<and> prios l = insert q (ready s - {p})"
proof -
  obtain l where l: "make_unready t s = Inr (set_ready l s)" "list_ok l" "prios l = ready s - {p}"
    using clear_ready [OF t ok] by blast
  define s1 where "s1 = tcb_upd t f (set_ready l s)"
  have "runs_at s1 q t" using q f by (simp add: runs_at_def s1_def os_simps)
  moreover have "list_ok (ready_list s1)" "ready s1 = ready s - {p}" using l by (simp_all add: s1_def os_simps)
  ultimately obtain l' where l': "make_ready t (OSTCBY (OSTCBTbl s1 t)) s1 = Inr (set_ready l' s1)" "list_ok l'" "prios l' = insert q (ready s - {p})"
    using put_ready [of s1 q t] by auto
  have "set_entry (of_nat q) (Tcb t) (set_ready l' s1) = Inr (at_prio t q f l' s)"
    using q by (simp add: set_entry_def os_simps s1_def at_prio_def) (simp add: set_ready_def tcb_upd_def)
  then show ?thesis using l(1) l' by (intro exI [of _ l']) (simp add: Let_def flip: s1_def)
qed

lemma mutex_raise_ready:
  assumes "runs_at s p t" "list_ok (ready_list s)" "q < 32" "length (OSTCBPrioTbl s) = 32" "p \<in> ready s"
  shows "\<exists>l. mutex_raise t (of_nat q) s = Inr (at_prio t q (with_prio (of_nat q) (drop_bit 3 (of_nat q))) l s)
    \<and> list_ok l \<and> prios l = insert q (ready s - {p})"
  using reprioritise [OF assms(1-4) with_prio_fields(1) [OF assms(3)]] ready_bit [OF assms(1, 2)] assms(5)
  by (simp add: mutex_raise_def Let_def)

lemma RdyAtPrio_effect:
  assumes "runs_at s p t" "list_ok (ready_list s)" "q < 32" "length (OSTCBPrioTbl s) = 32"
  shows "\<exists>l. OSMutex_RdyAtPrio t (of_nat q) s = Inr (at_prio t q (with_prio (of_nat q) (drop_bit 3 (of_nat q) AND 7)) l s)
    \<and> list_ok l \<and> prios l = insert q (ready s - {p})"
  using reprioritise [OF assms with_prio_fields(2) [OF assms(3)]] by (simp add: OSMutex_RdyAtPrio_def)

text \<open>A task waits.\<close>

definition waiting :: "u8 \<Rightarrow> u16 \<Rightarrow> nat \<Rightarrow> tcb \<Rightarrow> tcb" where
  "waiting stat timeout e p = p\<lparr>OSTCBStat := OSTCBStat p OR stat, OSTCBStatPend := OS_STAT_PEND_OK, OSTCBDly := timeout, OSTCBEventPtr := Some e\<rparr>"

lemma pend_wait_effect:
  assumes c: "OSTCBCur s = Tcb c" "runs_at s p c" and ok: "list_ok (ready_list s)" "list_ok (wait_list s e)"
  shows "\<exists>l w. pend_wait stat timeout e s = OS_Sched (set_ready l (set_wait e w (tcb_upd c (waiting stat timeout e) s)))
    \<and> list_ok l \<and> prios l = ready s - {p} \<and> list_ok w \<and> prios w = insert p (waits s e)"
proof -
  define s1 where "s1 = tcb_upd c (waiting stat timeout e) s"
  have s1: "runs_at s1 p c" "list_ok (ready_list s1)" "list_ok (wait_list s1 e)" "ready s1 = ready s" "waits s1 e = waits s e"
    using assms by (simp_all add: runs_at_def s1_def os_simps waiting_def tcb_fields_def)
  obtain w where w: "list_put (OSTCBY (OSTCBTbl s1 c)) (OSTCBBitX (OSTCBTbl s1 c)) (OSTCBBitY (OSTCBTbl s1 c)) (wait_list s1 e) = Inr w"
      "list_ok w" "prios w = insert p (waits s e)"
    using put_wait [OF s1(1, 3)] s1(5) by auto
  define s2 where "s2 = set_wait e w s1"
  have "runs_at s2 p c" "list_ok (ready_list s2)" "ready s2 = ready s"
    using s1 by (simp_all add: s2_def runs_at_def os_simps)
  then obtain l where l: "make_unready c s2 = Inr (set_ready l s2)" "list_ok l" "prios l = ready s - {p}"
    using clear_ready by metis
  have "tcb_upd c (\<lambda>ptcb. ptcb\<lparr>OSTCBEventPtr := Some e\<rparr>)
      (tcb_upd c (\<lambda>ptcb. ptcb\<lparr>OSTCBStat := OSTCBStat ptcb OR stat, OSTCBStatPend := OS_STAT_PEND_OK, OSTCBDly := timeout\<rparr>) s) = s1"
    by (simp add: s1_def tcb_upd_def waiting_def)
  moreover have cur: "OSTCBCur (tcb_upd c g s) = OSTCBCur s" for g by (simp add: os_simps)
  ultimately have "pend_wait stat timeout e s = OS_Sched (set_ready l s2)"
    using c l(1) w(1) cur by (simp add: pend_wait_def OS_EventTaskWait_def deref_def Let_def s2_def)
  then show ?thesis using l w unfolding s2_def s1_def by blast
qed

lemma sched_effect:
  assumes "OSIntNesting s = 0" "OSLockNesting s = 0" "list_ok (ready_list s)" "ready s \<noteq> {}" "length (OSTCBPrioTbl s) = 32"
    and "OSTCBPrioTbl s ! Min (ready s) = Tcb t" "unat (OSPrioCur s) = Min (ready s) \<Longrightarrow> OSTCBCur s = Tcb t"
  shows "\<exists>s'. OS_Sched s = Inr s' \<and> unat (OSPrioCur s') = Min (ready s) \<and> OSTCBCur s' = Tcb t \<and> sched_frame s s'"
proof -
  have "Min (ready s) \<in> ready s" using assms(4) by simp
  then have "prio_entry s (of_nat (Min (ready s))) = Inr (Tcb t)" using assms(5, 6) by (simp add: prio_entry_def prios_def)
  from reschedule_to [OF assms(3, 4) this assms(7)] show ?thesis using assms(1, 2) by (simp add: OS_Sched_def)
qed

section \<open>The count\<close>

definition mutex_cnt :: "u8 \<Rightarrow> u8 \<Rightarrow> u16" where
  "mutex_cnt pip prio = push_bit 8 (ucast pip) OR ucast prio"

lemma mutex_cnt_simps [simp]:
  "pip_of (mutex_cnt pip prio) = pip" "owner_prio (mutex_cnt pip prio) = prio"
  "mutex_cnt pip prio AND OS_MUTEX_KEEP_LOWER_8 = ucast prio" "cnt_owned q (mutex_cnt pip prio) = mutex_cnt pip q"
  "mutex_cnt pip prio OR OS_MUTEX_AVAILABLE = mutex_cnt pip 255"
proof -
  have lower: "(0x00FF :: u16) = mask 8" "(0xFF00 :: u16) = push_bit 8 (mask 8)" by (simp_all add: mask_eq_exp_minus_1)
  have all: "(255 :: u8) = mask 8" by (simp add: mask_eq_exp_minus_1)
  have small: "bit w n \<Longrightarrow> n < 8" for w :: u8 and n using bit_imp_le_length [of w n] by simp
  show "pip_of (mutex_cnt pip prio) = pip"
    by (rule bit_word_eqI) (auto simp: pip_of_def mutex_cnt_def bit_simps dest: small)
  show "owner_prio (mutex_cnt pip prio) = prio" unfolding owner_prio_def lower
    by (rule bit_word_eqI) (auto simp: mutex_cnt_def bit_simps dest: small)
  show "mutex_cnt pip prio AND OS_MUTEX_KEEP_LOWER_8 = ucast prio" unfolding lower
    by (rule bit_word_eqI) (auto simp: mutex_cnt_def bit_simps dest: small)
  show "cnt_owned q (mutex_cnt pip prio) = mutex_cnt pip q" unfolding cnt_owned_def lower
    by (rule bit_word_eqI) (auto simp: mutex_cnt_def bit_simps dest: small)
  show "mutex_cnt pip prio OR OS_MUTEX_AVAILABLE = mutex_cnt pip 255" unfolding lower all mutex_cnt_def
    by (rule bit_word_eqI) (auto simp: bit_simps dest: small)
qed

definition mutex_held :: "os \<Rightarrow> nat \<Rightarrow> nat \<Rightarrow> nat \<Rightarrow> nat \<Rightarrow> bool" where
  "mutex_held s e pip p t \<longleftrightarrow> OSEventType (OSEcbTbl s e) = OS_EVENT_TYPE_MUTEX \<and> pip < 32 \<and> p < 32
     \<and> OSEventCnt (OSEcbTbl s e) = mutex_cnt (of_nat pip) (of_nat p) \<and> OSEventPtr (OSEcbTbl s e) = TcbPtr t"

definition mutex_free :: "os \<Rightarrow> nat \<Rightarrow> nat \<Rightarrow> bool" where
  "mutex_free s e pip \<longleftrightarrow> OSEventType (OSEcbTbl s e) = OS_EVENT_TYPE_MUTEX \<and> pip < 32
     \<and> OSEventCnt (OSEcbTbl s e) = mutex_cnt (of_nat pip) 255 \<and> OSEventPtr (OSEcbTbl s e) = Null"

lemma prio_word_less: "p < 32 \<Longrightarrow> q < 32 \<Longrightarrow> (of_nat p :: u8) < of_nat q \<longleftrightarrow> p < q"
  by (simp add: word_less_nat_alt)

lemma prio_word_eq: "p < 32 \<Longrightarrow> q < 32 \<Longrightarrow> (of_nat p :: u8) = of_nat q \<longleftrightarrow> p = q"
  by (simp add: word_unat_eq_iff)

lemma not_available: "p < 32 \<Longrightarrow> (ucast (of_nat p :: u8) :: u16) \<noteq> OS_MUTEX_AVAILABLE"
  by (simp add: word_unat_eq_iff unsigned_ucast_eq take_bit_nat_eq_self)

section \<open>Inheriting\<close>

text \<open>The current task \<open>c\<close> of priority \<open>pc\<close>, and the task \<open>t\<close> of priority \<open>p\<close> that holds mutex \<open>e\<close>.\<close>

definition inversion :: "os \<Rightarrow> nat \<Rightarrow> nat \<Rightarrow> nat \<Rightarrow> nat \<Rightarrow> nat \<Rightarrow> nat \<Rightarrow> bool" where
  "inversion s e pip pc c p t \<longleftrightarrow> mutex_held s e pip p t \<and> pip < pc \<and> pc < p
     \<and> OSIntNesting s = 0 \<and> OSLockNesting s = 0 \<and> length (OSTCBPrioTbl s) = 32
     \<and> OSTCBCur s = Tcb c \<and> OSPrioCur s = of_nat pc \<and> runs_at s pc c \<and> runs_at s p t
     \<and> list_ok (ready_list s) \<and> list_ok (wait_list s e) \<and> Min (ready s) = pc \<and> pc \<in> ready s \<and> p \<in> ready s"

definition blocked_on :: "nat \<Rightarrow> u16 \<Rightarrow> tcb \<Rightarrow> tcb \<Rightarrow> bool" where
  "blocked_on e timeout p q \<longleftrightarrow> OSTCBStat q = OSTCBStat p OR OS_STAT_MUTEX \<and> OSTCBDly q = timeout \<and> OSTCBEventPtr q = Some e
     \<and> OSTCBEventMultiPtr q = OSTCBEventMultiPtr p"

lemma Min_less_all:
  assumes "(q :: nat) < Min A" "finite A" "A \<noteq> {}"
  shows "Min (insert q (A - B)) = q"
proof (rule Min_eqI)
  show "q \<le> x" if "x \<in> insert q (A - B)" for x using that assms Min_le [OF assms(2), of x] by auto
qed (use assms in auto)

lemma runs_at_same: "tcb_fields p (OSTCBTbl s' t) = tcb_fields p (OSTCBTbl s t) \<Longrightarrow> runs_at s' p t = runs_at s p t"
  by (simp add: runs_at_def)

lemma frame_fields:
  assumes "sched_frame s s'"
  shows "tcb_fields p (OSTCBTbl s' t) = tcb_fields p (OSTCBTbl s t)" "blocked_on e to q (OSTCBTbl s' t) = blocked_on e to q (OSTCBTbl s t)"
    "OSTCBStat (OSTCBTbl s' t) = OSTCBStat (OSTCBTbl s t)" "OSTCBEventMultiPtr (OSTCBTbl s' t) = OSTCBEventMultiPtr (OSTCBTbl s t)"
    "ready_list s' = ready_list s" "OSEcbTbl s' = OSEcbTbl s" "wait_list s' e = wait_list s e" "OSTCBPrioTbl s' = OSTCBPrioTbl s"
    "OSIntNesting s' = OSIntNesting s" "OSLockNesting s' = OSLockNesting s"
proof -
  obtain x where x: "OSTCBTbl s' t = (OSTCBTbl s t)\<lparr>OSTCBCtxSwCtr := x\<rparr>" using assms by (auto simp: sched_frame_def)
  show "tcb_fields p (OSTCBTbl s' t) = tcb_fields p (OSTCBTbl s t)" "blocked_on e to q (OSTCBTbl s' t) = blocked_on e to q (OSTCBTbl s t)"
    "OSTCBStat (OSTCBTbl s' t) = OSTCBStat (OSTCBTbl s t)" "OSTCBEventMultiPtr (OSTCBTbl s' t) = OSTCBEventMultiPtr (OSTCBTbl s t)"
    by (simp_all add: x tcb_fields_def blocked_on_def)
  show "ready_list s' = ready_list s" "OSEcbTbl s' = OSEcbTbl s" "OSTCBPrioTbl s' = OSTCBPrioTbl s"
    "OSIntNesting s' = OSIntNesting s" "OSLockNesting s' = OSLockNesting s"
    using assms by (simp_all add: sched_frame_def)
  then show "wait_list s' e = wait_list s e" by (simp add: wait_list_def)
qed

lemma pend_effect:
  assumes "inversion s e pip pc c p t"
  shows "\<exists>s'. OSMutexPend (Some e) timeout s = Inr (Waiting, s') \<and> OSTCBCur s' = Tcb t \<and> OSPrioCur s' = of_nat pip
    \<and> runs_at s' pip t \<and> runs_at s' pc c \<and> blocked_on e timeout (OSTCBTbl s c) (OSTCBTbl s' c)
    \<and> ready s' = insert pip (ready s - {pc, p}) \<and> waits s' e = insert pc (waits s e)
    \<and> OSTCBPrioTbl s' = (OSTCBPrioTbl s)[pip := Tcb t] \<and> mutex_held s' e pip p t
    \<and> OSIntNesting s' = 0 \<and> OSLockNesting s' = 0 \<and> list_ok (ready_list s') \<and> list_ok (wait_list s' e)"
proof -
  have held: "mutex_held s e pip p t" and less: "pip < pc" "pc < p" and nest: "OSIntNesting s = 0" "OSLockNesting s = 0"
    and len: "length (OSTCBPrioTbl s) = 32" and cur: "OSTCBCur s = Tcb c" "OSPrioCur s = of_nat pc"
    and c: "runs_at s pc c" and t: "runs_at s p t" and ok: "list_ok (ready_list s)" "list_ok (wait_list s e)"
    and m: "Min (ready s) = pc" "pc \<in> ready s" "p \<in> ready s" using assms unfolding inversion_def by blast+
  have pip: "pip < 32" and p: "p < 32" and pc: "pc < 32" using held c by (simp_all add: mutex_held_def runs_at_def)
  have ct: "c \<noteq> t" using runs_atD(2) [OF c] runs_atD(2) [OF t] prio_word_eq [OF pc p] less by auto
  obtain l where l: "mutex_raise t (of_nat pip) s = Inr (at_prio t pip (with_prio (of_nat pip) (drop_bit 3 (of_nat pip))) l s)"
      "list_ok l" "prios l = insert pip (ready s - {p})"
    using mutex_raise_ready [OF t ok(1) pip len m(3)] by blast
  define s1 where "s1 = at_prio t pip (with_prio (of_nat pip) (drop_bit 3 (of_nat pip))) l s"
  have c1: "OSTCBCur s1 = Tcb c" "runs_at s1 pc c" "list_ok (ready_list s1)" "list_ok (wait_list s1 e)"
    using cur c ct l ok by (simp_all add: s1_def runs_at_def)
  have t1: "runs_at s1 pip t" using with_prio_fields(1) [OF pip] pip by (simp add: s1_def runs_at_def)
  obtain l2 w where w: "pend_wait OS_STAT_MUTEX timeout e s1
        = OS_Sched (set_ready l2 (set_wait e w (tcb_upd c (waiting OS_STAT_MUTEX timeout e) s1)))"
      "list_ok l2" "prios l2 = ready s1 - {pc}" "list_ok w" "prios w = insert pc (waits s1 e)"
    using pend_wait_effect [OF c1(1, 2) c1(3, 4)] by blast
  define s2 where "s2 = set_ready l2 (set_wait e w (tcb_upd c (waiting OS_STAT_MUTEX timeout e) s1))"
  have rdy: "ready s2 = insert pip (ready s - {pc, p})" using w(3) l less by (auto simp: s2_def s1_def os_simps)
  have min: "Min (ready s2) = pip" unfolding rdy using m less by (intro Min_less_all) auto
  have "OSIntNesting s2 = 0" "OSLockNesting s2 = 0" "list_ok (ready_list s2)" "ready s2 \<noteq> {}" "length (OSTCBPrioTbl s2) = 32"
    "OSTCBPrioTbl s2 ! pip = Tcb t" "OSPrioCur s2 = of_nat pc" using nest w rdy len pip cur by (simp_all add: s2_def s1_def os_simps)
  moreover have "unat (of_nat pc :: u8) \<noteq> pip" using less pc by simp
  ultimately obtain s' where s': "OS_Sched s2 = Inr s'" "unat (OSPrioCur s') = pip" "OSTCBCur s' = Tcb t" "sched_frame s2 s'"
    using sched_effect [of s2 t] min by auto
  note F = frame_fields [OF s'(4)]
  have run: "OSMutexPend (Some e) timeout s = Inr (Waiting, s')"
    using held nest cur runs_atD(2) [OF c] runs_atD(2) [OF t] prio_word_less [OF pip p] prio_word_less [OF pc p] less l(1) w(1) s'(1)
      not_available [OF p]
    by (simp add: OSMutexPend_def mutex_held_def mutex_owner_def deref_def Let_def flip: s1_def s2_def)
  have fields: "tcb_fields q (OSTCBTbl s2 u) = tcb_fields q (OSTCBTbl s1 u)" for q u
    by (simp add: s2_def os_simps waiting_def tcb_fields_def)
  have "runs_at s' pip t" "runs_at s' pc c" using t1 c1 by (simp_all add: runs_at_def F(1) fields)
  moreover have "blocked_on e timeout (OSTCBTbl s c) (OSTCBTbl s' c)"
    using ct by (simp add: F(2)) (simp add: blocked_on_def s2_def s1_def os_simps waiting_def)
  moreover have "mutex_held s' e pip p t" using held by (simp add: mutex_held_def F(6)) (simp add: s2_def s1_def os_simps)
  moreover have "OSPrioCur s' = of_nat pip" using s'(2) pip by (simp add: word_unat_eq_iff)
  moreover have "waits s' e = insert pc (waits s e)" "list_ok (wait_list s' e)"
    using w by (simp_all add: F(7)) (simp_all add: s2_def s1_def os_simps)
  moreover have "OSTCBPrioTbl s' = (OSTCBPrioTbl s)[pip := Tcb t]" "OSIntNesting s' = 0" "OSLockNesting s' = 0"
    using nest by (simp_all add: F) (simp_all add: s2_def s1_def os_simps)
  moreover have "list_ok (ready_list s')" "ready s' = insert pip (ready s - {pc, p})" using w rdy by (simp_all add: F(5)) (simp add: s2_def os_simps)
  ultimately show ?thesis using run s'(3) by blast
qed

section \<open>Handing over\<close>

definition readied :: "u8 \<Rightarrow> u8 \<Rightarrow> tcb \<Rightarrow> tcb" where
  "readied msk pend_stat p = p\<lparr>OSTCBDly := 0, OSTCBMsg := Null, OSTCBStat := OSTCBStat p AND NOT msk, OSTCBStatPend := pend_stat\<rparr>"

lemma task_rdy_effect:
  assumes ok: "list_ok (ready_list s)" "list_ok (wait_list s e)" and w: "waits s e \<noteq> {}" "Min (waits s e) = w"
    and c: "OSTCBPrioTbl s ! w = Tcb c" "length (OSTCBPrioTbl s) = 32" "runs_at s w c"
    and st: "(OSTCBStat (OSTCBTbl s c) AND NOT msk) AND OS_STAT_SUSPEND = 0" "OSTCBEventMultiPtr (OSTCBTbl s c) = None"
  shows "\<exists>l wl. OS_EventTaskRdy e Null msk pend_stat s
      = Inr (of_nat w, set_wait e wl (set_ready l (tcb_upd c (readied msk pend_stat) s)))
    \<and> list_ok l \<and> prios l = insert w (ready s) \<and> list_ok wl \<and> prios wl = waits s e - {w}"
proof -
  define s1 where "s1 = tcb_upd c (readied msk pend_stat) s"
  have c1: "runs_at s1 w c" "list_ok (ready_list s1)" "ready s1 = ready s"
    using c ok by (simp_all add: s1_def runs_at_def os_simps readied_def tcb_fields_def)
  obtain l where l: "make_ready c (OSTCBY (OSTCBTbl s1 c)) s1 = Inr (set_ready l s1)" "list_ok l" "prios l = insert w (ready s)"
    using put_ready [OF c1(1, 2)] c1(3) by auto
  define s2 where "s2 = set_ready l s1"
  have c2: "runs_at s2 w c" "list_ok (wait_list s2 e)" "waits s2 e = waits s e"
    using c1(1) ok(2) by (simp_all add: s2_def s1_def runs_at_def os_simps)
  obtain wl where wl: "OS_EventTaskRemove c e s2 = Inr (set_wait e wl s2)" "list_ok wl" "prios wl = waits s e - {w}"
    using clear_wait [OF c2(1, 2)] c2(3) by auto
  note first = list_first_prios [OF ok(2) w(1), unfolded w(2)]
  have "w < 32" using c(3) by (simp add: runs_at_def)
  then have e: "prio_entry s (of_nat w) = Inr (Tcb c)" using c by (simp add: prio_entry_def)
  have y: "OSUnMapTbl ! unat (OSEventGrp (OSEcbTbl s e)) = OSTCBY (OSTCBTbl s1 c)"
    using first(2) runs_atD(3) [OF c1(1)] by (simp add: wait_list_def)
  have "tcb_upd c (\<lambda>ptcb. ptcb\<lparr>OSTCBDly := 0, OSTCBMsg := Null, OSTCBStat := OSTCBStat ptcb AND NOT msk, OSTCBStatPend := pend_stat\<rparr>) s = s1"
    by (simp add: s1_def readied_def tcb_upd_def)
  moreover have "OSTCBStat (OSTCBTbl s1 c) AND OS_STAT_SUSPEND = 0" "OSTCBEventMultiPtr (OSTCBTbl (set_wait e wl s2) c) = None"
    using st by (simp_all add: s2_def s1_def os_simps readied_def)
  ultimately have "OS_EventTaskRdy e Null msk pend_stat s = Inr (of_nat w, set_wait e wl s2)"
    unfolding OS_EventTaskRdy_def Let_def first(1) rbind_Inr e y using l(1) wl(1) by (simp add: deref_def flip: s2_def)
  then show ?thesis using l wl unfolding s2_def s1_def by blast
qed

definition entry :: "nat \<Rightarrow> tcb_ref \<Rightarrow> os \<Rightarrow> os" where
  "entry p r s = s\<lparr>OSTCBPrioTbl := (OSTCBPrioTbl s)[p := r]\<rparr>"

lemma set_entry_effect: "p < 32 \<Longrightarrow> length (OSTCBPrioTbl s) = 32 \<Longrightarrow> set_entry (of_nat p) r s = Inr (entry p r s)"
  by (simp add: set_entry_def entry_def)

lemma entry_simps [simp]:
  "ready_list (entry p r s) = ready_list s" "wait_list (entry p r s) e = wait_list s e" "OSTCBTbl (entry p r s) = OSTCBTbl s"
  "OSEcbTbl (entry p r s) = OSEcbTbl s" "OSTCBPrioTbl (entry p r s) = (OSTCBPrioTbl s)[p := r]"
  "OSTCBCur (entry p r s) = OSTCBCur s" "OSPrioCur (entry p r s) = OSPrioCur s"
  "OSIntNesting (entry p r s) = OSIntNesting s" "OSLockNesting (entry p r s) = OSLockNesting s"
  by (simp_all add: entry_def ready_list_def wait_list_def)

text \<open>The owner \<open>t\<close>, raised from \<open>p\<close> to the inheritance priority, runs.\<close>

definition raised :: "os \<Rightarrow> nat \<Rightarrow> nat \<Rightarrow> nat \<Rightarrow> nat \<Rightarrow> bool" where
  "raised s e pip p t \<longleftrightarrow> mutex_held s e pip p t \<and> pip < p \<and> OSIntNesting s = 0 \<and> OSLockNesting s = 0 \<and> length (OSTCBPrioTbl s) = 32
     \<and> OSTCBCur s = Tcb t \<and> OSPrioCur s = of_nat pip \<and> runs_at s pip t \<and> list_ok (ready_list s) \<and> list_ok (wait_list s e)"

lemma restore_effect:
  assumes "raised s e pip p t"
  shows "\<exists>s'. rbind (OSMutex_RdyAtPrio t (of_nat p) s) (set_entry (of_nat pip) Reserved) = Inr s'
    \<and> runs_at s' p t \<and> list_ok (ready_list s') \<and> ready s' = insert p (ready s - {pip})
    \<and> (\<forall>e. wait_list s' e = wait_list s e) \<and> OSEcbTbl s' = OSEcbTbl s \<and> (\<forall>u. u \<noteq> t \<longrightarrow> OSTCBTbl s' u = OSTCBTbl s u)
    \<and> OSTCBPrioTbl s' = (OSTCBPrioTbl s)[p := Tcb t, pip := Reserved] \<and> OSTCBCur s' = Tcb t \<and> OSPrioCur s' = of_nat pip
    \<and> OSIntNesting s' = 0 \<and> OSLockNesting s' = 0"
proof -
  have p: "p < 32" "pip < 32" using assms by (simp_all add: raised_def mutex_held_def)
  have t: "runs_at s pip t" "list_ok (ready_list s)" "length (OSTCBPrioTbl s) = 32" using assms by (simp_all add: raised_def)
  obtain l where l: "OSMutex_RdyAtPrio t (of_nat p) s = Inr (at_prio t p (with_prio (of_nat p) (drop_bit 3 (of_nat p) AND 7)) l s)"
      "list_ok l" "prios l = insert p (ready s - {pip})"
    using RdyAtPrio_effect [OF t(1, 2) p(1) t(3)] by blast
  define s1 where "s1 = at_prio t p (with_prio (of_nat p) (drop_bit 3 (of_nat p) AND 7)) l s"
  have "set_entry (of_nat pip) Reserved s1 = Inr (entry pip Reserved s1)"
    by (rule set_entry_effect) (use p t in \<open>simp_all add: s1_def\<close>)
  then show ?thesis using l with_prio_fields(2) [OF p(1)] assms p
    by (intro exI [of _ "entry pip Reserved s1"]) (simp add: s1_def runs_at_def raised_def)
qed

lemma post_unfold:
  assumes "raised s e pip p t"
  shows "OSMutexPost (Some e) s = rbind (rbind (OSMutex_RdyAtPrio t (of_nat p) s) (set_entry (of_nat pip) Reserved)) (\<lambda>s.
        if OSEventGrp (OSEcbTbl s e) \<noteq> 0 then
          rbind (OS_EventTaskRdy e Null OS_STAT_MUTEX OS_STAT_PEND_OK s) (\<lambda>(prio, s).
          rbind (prio_entry s prio) (\<lambda>r.
          let s = ecb_upd e (\<lambda>ev. ev\<lparr>OSEventCnt := cnt_owned prio (OSEventCnt ev), OSEventPtr := tcb_ptr r\<rparr>) s
          in rbind (OS_Sched s) (\<lambda>s. Inr (if prio \<le> of_nat pip then OS_ERR_PIP_LOWER else OS_ERR_NONE, s))))
        else Inr (OS_ERR_NONE, ecb_upd e (\<lambda>ev. ev\<lparr>OSEventCnt := OSEventCnt ev OR OS_MUTEX_AVAILABLE, OSEventPtr := Null\<rparr>) s))"
  using assms runs_atD(2) [of s pip t]
  by (simp add: raised_def OSMutexPost_def mutex_held_def tcb_ptr_def deref_def Let_def rbind_assoc)

lemma post_effect:
  assumes r: "raised s e pip p t" and w: "waits s e \<noteq> {}" "Min (waits s e) = w" "pip < w" "w < p"
    and c: "OSTCBPrioTbl s ! w = Tcb c" "runs_at s w c" "(OSTCBStat (OSTCBTbl s c) AND NOT OS_STAT_MUTEX) AND OS_STAT_SUSPEND = 0"
      "OSTCBEventMultiPtr (OSTCBTbl s c) = None"
    and tbl: "\<And>q. q \<in> ready s \<Longrightarrow> q \<noteq> pip \<Longrightarrow> \<exists>u. OSTCBPrioTbl s ! q = Tcb u"
  shows "\<exists>s' u. OSMutexPost (Some e) s = Inr (OS_ERR_NONE, s') \<and> mutex_held s' e pip w c \<and> runs_at s' p t \<and> runs_at s' w c
    \<and> ready s' = insert w (insert p (ready s - {pip})) \<and> waits s' e = waits s e - {w}
    \<and> OSTCBPrioTbl s' = (OSTCBPrioTbl s)[p := Tcb t, pip := Reserved]
    \<and> unat (OSPrioCur s') = Min (ready s') \<and> OSTCBPrioTbl s' ! Min (ready s') = Tcb u \<and> OSTCBCur s' = Tcb u"
proof -
  have held: "mutex_held s e pip p t" and nest: "OSIntNesting s = 0" and cur: "OSTCBCur s = Tcb t" and okw: "list_ok (wait_list s e)"
    and t: "runs_at s pip t" and len: "length (OSTCBPrioTbl s) = 32" using r by (simp_all add: raised_def)
  have p: "p < 32" "pip < 32" "w < 32" using held c by (simp_all add: mutex_held_def runs_at_def)
  have ct: "c \<noteq> t" using runs_atD(2) [OF c(2)] runs_atD(2) [OF t] prio_word_eq [OF p(3) p(2)] w(3) by auto
  obtain s1 where s1: "rbind (OSMutex_RdyAtPrio t (of_nat p) s) (set_entry (of_nat pip) Reserved) = Inr s1"
      "runs_at s1 p t" "list_ok (ready_list s1)" "ready s1 = insert p (ready s - {pip})" "\<And>e. wait_list s1 e = wait_list s e"
      "OSEcbTbl s1 = OSEcbTbl s" "\<And>u. u \<noteq> t \<Longrightarrow> OSTCBTbl s1 u = OSTCBTbl s u"
      "OSTCBPrioTbl s1 = (OSTCBPrioTbl s)[p := Tcb t, pip := Reserved]" "OSPrioCur s1 = of_nat pip" "OSIntNesting s1 = 0" "OSLockNesting s1 = 0"
    using restore_effect [OF r] by blast
  have c1: "OSTCBPrioTbl s1 ! w = Tcb c" "length (OSTCBPrioTbl s1) = 32" "runs_at s1 w c"
    using c ct w len s1(7, 8) by (simp_all add: runs_at_def)
  have st: "(OSTCBStat (OSTCBTbl s1 c) AND NOT OS_STAT_MUTEX) AND OS_STAT_SUSPEND = 0" "OSTCBEventMultiPtr (OSTCBTbl s1 c) = None"
    using c(3, 4) ct s1(7) by simp_all
  have w1: "list_ok (wait_list s1 e)" "waits s1 e \<noteq> {}" "Min (waits s1 e) = w" using okw w(1, 2) by (simp_all add: s1(5))
  obtain l wl where rdy: "OS_EventTaskRdy e Null OS_STAT_MUTEX OS_STAT_PEND_OK s1
        = Inr (of_nat w, set_wait e wl (set_ready l (tcb_upd c (readied OS_STAT_MUTEX OS_STAT_PEND_OK) s1)))"
      "list_ok l" "prios l = insert w (ready s1)" "list_ok wl" "prios wl = waits s e - {w}"
    using task_rdy_effect [OF s1(3) w1 c1 st] unfolding s1(5) by blast
  define s2 where "s2 = set_wait e wl (set_ready l (tcb_upd c (readied OS_STAT_MUTEX OS_STAT_PEND_OK) s1))"
  define s3 where "s3 = ecb_upd e (\<lambda>ev. ev\<lparr>OSEventCnt := cnt_owned (of_nat w) (OSEventCnt ev), OSEventPtr := TcbPtr c\<rparr>) s2"
  have e: "prio_entry s2 (of_nat w) = Inr (Tcb c)" using c1 p by (simp add: prio_entry_def s2_def os_simps)
  have s3: "ready_list s3 = l" "OSTCBPrioTbl s3 = OSTCBPrioTbl s1" "OSPrioCur s3 = of_nat pip" "OSIntNesting s3 = 0" "OSLockNesting s3 = 0"
    using s1 by (simp_all add: s3_def s2_def os_simps)
  have rd: "ready s3 = insert w (insert p (ready s - {pip}))" using rdy(3) s1(4) s3(1) by simp
  define m where "m = Min (ready s3)"
  have mem: "m \<in> ready s3" unfolding m_def by (rule Min_in) (simp_all add: rd)
  have "pip \<notin> ready s3" unfolding rd using w(3, 4) by simp
  with mem have m: "m \<in> ready s3" "m \<noteq> pip" by auto
  have entry: "\<exists>u. OSTCBPrioTbl s3 ! m = Tcb u"
  proof (cases "m = p \<or> m = w")
    case True
    then show ?thesis using s3(2) s1(8) len p c1(1) w(3, 4) by auto
  next
    case False
    then have "m \<in> ready s" using m rd by auto
    from tbl [OF this m(2)] show ?thesis using s3(2) s1(8) False m(2) by auto
  qed
  then obtain u where u: "OSTCBPrioTbl s3 ! m = Tcb u" by blast
  have "m < 32" using m(1) by (simp add: prios_def)
  then have "unat (of_nat pip :: u8) \<noteq> m" and ne: "ready s3 \<noteq> {}" using p m by auto
  then obtain s' where s': "OS_Sched s3 = Inr s'" "unat (OSPrioCur s') = m" "OSTCBCur s' = Tcb u" "sched_frame s3 s'"
    using sched_effect [of s3 u] s3 rdy(2) ne c1(2) u by (auto simp flip: m_def)
  note F = frame_fields [OF s'(4)]
  have grp: "OSEventGrp (OSEcbTbl s1 e) \<noteq> 0" using ps.empty_ok [OF okw] w(1) s1(6) by (simp add: wait_list_def)
  have run: "OSMutexPost (Some e) s = Inr (OS_ERR_NONE, s')"
  proof -
    show ?thesis
      unfolding post_unfold [OF r] s1(1) rbind_Inr using grp rdy(1) e s'(1) p w(3)
      by (simp add: Let_def tcb_ptr_def word_le_nat_alt flip: s2_def s3_def)
  qed
  have fields: "tcb_fields q (OSTCBTbl s3 v) = tcb_fields q (OSTCBTbl s1 v)" for q v
    by (simp add: s3_def s2_def os_simps readied_def tcb_fields_def)
  have "runs_at s' p t" "runs_at s' w c" using s1(2) c1(3) by (simp_all add: runs_at_def F(1) fields)
  moreover have "mutex_held s' e pip w c"
    using held s1(6) p by (simp add: mutex_held_def F(6)) (simp add: s3_def s2_def os_simps set_wait_def)
  moreover have "waits s' e = waits s e - {w}" by (simp add: F(7)) (simp add: s3_def s2_def wait_list_def ecb_upd_def rdy(5) set_wait_def)
  moreover have "OSTCBPrioTbl s' = (OSTCBPrioTbl s)[p := Tcb t, pip := Reserved]" by (simp add: F(8) s3(2) s1(8))
  moreover have same: "ready s' = ready s3" by (simp add: F(5))
  have "unat (OSPrioCur s') = Min (ready s')" "OSTCBPrioTbl s' ! Min (ready s') = Tcb u"
    using s'(2) u by (simp_all add: same F(8) flip: m_def)
  moreover have "ready s' = insert w (insert p (ready s - {pip}))" using same rd by simp
  ultimately show ?thesis using run s'(3) by blast
qed

section \<open>Priority inversion is resolved\<close>

text \<open>The inversion starts with nobody waiting, and the table holds the tasks of the ready list.\<close>

definition inversion_start :: "os \<Rightarrow> nat \<Rightarrow> nat \<Rightarrow> nat \<Rightarrow> nat \<Rightarrow> nat \<Rightarrow> nat \<Rightarrow> bool" where
  "inversion_start s e pip pc c p t \<longleftrightarrow> inversion s e pip pc c p t \<and> waits s e = {}
     \<and> OSTCBPrioTbl s ! pip = Reserved \<and> OSTCBPrioTbl s ! p = Tcb t \<and> OSTCBPrioTbl s ! pc = Tcb c
     \<and> OSTCBStat (OSTCBTbl s c) = OS_STAT_RDY \<and> OSTCBEventMultiPtr (OSTCBTbl s c) = None
     \<and> (\<forall>q \<in> ready s. OSTCBPrioTbl s ! q \<notin> {NoTcb, Reserved})"

lemma inversion_raised:
  assumes "mutex_held s e pip p t" "OSTCBCur s = Tcb t" "OSPrioCur s = of_nat pip" "runs_at s pip t" "pip < p"
    "OSIntNesting s = 0" "OSLockNesting s = 0" "list_ok (ready_list s)" "list_ok (wait_list s e)" "length (OSTCBPrioTbl s) = 32"
  shows "raised s e pip p t"
  using assms by (simp add: raised_def)

text \<open>C13: A task that pends on a mutex held by a task of lower priority makes that task run at the inheritance
  priority; when the owner posts, it gets its priority back, the waiting task owns the mutex and runs, and the
  ready list, the wait list and the priority table are those of the start.\<close>
lemma mutex_inversion_resolved:
  assumes "inversion_start s e pip pc c p t"
  shows "\<exists>s1 s2. OSMutexPend (Some e) timeout s = Inr (Waiting, s1) \<and> OSTCBCur s1 = Tcb t \<and> OSPrioCur s1 = of_nat pip \<and> runs_at s1 pip t
    \<and> OSMutexPost (Some e) s1 = Inr (OS_ERR_NONE, s2) \<and> OSTCBCur s2 = Tcb c \<and> OSPrioCur s2 = of_nat pc \<and> mutex_held s2 e pip pc c
    \<and> runs_at s2 p t \<and> runs_at s2 pc c \<and> ready s2 = ready s \<and> waits s2 e = waits s e \<and> OSTCBPrioTbl s2 = OSTCBPrioTbl s"
proof -
  have inv: "inversion s e pip pc c p t" and none: "waits s e = {}" and tbl: "OSTCBPrioTbl s ! pip = Reserved" "OSTCBPrioTbl s ! p = Tcb t"
      "OSTCBPrioTbl s ! pc = Tcb c" and st: "OSTCBStat (OSTCBTbl s c) = OS_STAT_RDY" "OSTCBEventMultiPtr (OSTCBTbl s c) = None"
    and all: "\<And>q. q \<in> ready s \<Longrightarrow> OSTCBPrioTbl s ! q \<notin> {NoTcb, Reserved}"
    using assms unfolding inversion_start_def by blast+
  have less: "pip < pc" "pc < p" and len: "length (OSTCBPrioTbl s) = 32" and m: "Min (ready s) = pc" "pc \<in> ready s" "p \<in> ready s"
    and pip32: "pip < 32" using inv unfolding inversion_def mutex_held_def by blast+
  obtain s1 where s1: "OSMutexPend (Some e) timeout s = Inr (Waiting, s1)" "OSTCBCur s1 = Tcb t" "OSPrioCur s1 = of_nat pip"
      "runs_at s1 pip t" "runs_at s1 pc c" "blocked_on e timeout (OSTCBTbl s c) (OSTCBTbl s1 c)"
      "ready s1 = insert pip (ready s - {pc, p})" "waits s1 e = insert pc (waits s e)" "OSTCBPrioTbl s1 = (OSTCBPrioTbl s)[pip := Tcb t]"
      "mutex_held s1 e pip p t" "OSIntNesting s1 = 0" "OSLockNesting s1 = 0" "list_ok (ready_list s1)" "list_ok (wait_list s1 e)"
    using pend_effect [OF inv] by blast
  have raised: "raised s1 e pip p t" using s1 less len by (intro inversion_raised) simp_all
  have c: "OSTCBPrioTbl s1 ! pc = Tcb c" "(OSTCBStat (OSTCBTbl s1 c) AND NOT OS_STAT_MUTEX) AND OS_STAT_SUSPEND = 0"
      "OSTCBEventMultiPtr (OSTCBTbl s1 c) = None"
    using s1(6, 9) st tbl less by (simp_all add: blocked_on_def)
  have "\<exists>u. OSTCBPrioTbl s1 ! q = Tcb u" if "q \<in> ready s1" "q \<noteq> pip" for q
    using all [of q] that s1(7, 9) by (cases "OSTCBPrioTbl s ! q") auto
  then obtain s2 u where s2: "OSMutexPost (Some e) s1 = Inr (OS_ERR_NONE, s2)" "mutex_held s2 e pip pc c" "runs_at s2 p t" "runs_at s2 pc c"
      "ready s2 = insert pc (insert p (ready s1 - {pip}))" "waits s2 e = waits s1 e - {pc}"
      "OSTCBPrioTbl s2 = (OSTCBPrioTbl s1)[p := Tcb t, pip := Reserved]" "unat (OSPrioCur s2) = Min (ready s2)"
      "OSTCBPrioTbl s2 ! Min (ready s2) = Tcb u" "OSTCBCur s2 = Tcb u"
    using post_effect [OF raised _ _ less c(1) s1(5) c(2, 3)] s1(8) none by auto
  have "pip \<notin> ready s" using m(1) less Min_le [of "ready s" pip] by auto
  then have ready: "ready s2 = ready s" using s2(5) s1(7) m by auto
  have "(OSTCBPrioTbl s)[p := Tcb t] = OSTCBPrioTbl s" "(OSTCBPrioTbl s)[pip := Reserved] = OSTCBPrioTbl s"
    using tbl list_update_id by metis+
  then have table: "OSTCBPrioTbl s2 = OSTCBPrioTbl s"
    using s2(7) s1(9) less by (simp add: list_update_swap [of pip p])
  have "u = c" using s2(9) ready m(1) table tbl(3) by simp
  moreover have "pc < 32" using s1(5) by (simp add: runs_at_def)
  then have "OSPrioCur s2 = of_nat pc" using s2(8) ready m(1) by (simp add: word_unat_eq_iff)
  moreover have "waits s2 e = waits s e" using s2(6) s1(8) none by simp
  ultimately show ?thesis using s1(1-4) s2(1-4, 10) ready table by blast
qed

text \<open>C38: When the waiting task has given up, the owner that posts falls back to its own priority but keeps the
  processor although a task of higher priority is ready: \<open>OSMutexPost\<close> schedules only when it wakes a task, and
  \<open>OSPrioCur\<close> keeps the inheritance priority.\<close>
lemma mutex_post_misses_schedule:
  assumes "raised s e pip p t" "waits s e = {}" "q \<in> ready s" "pip < q" "q < p"
  shows "\<exists>s'. OSMutexPost (Some e) s = Inr (OS_ERR_NONE, s') \<and> mutex_free s' e pip \<and> OSTCBCur s' = Tcb t \<and> runs_at s' p t
    \<and> OSPrioCur s' = of_nat pip \<and> q \<in> ready s' \<and> pip \<notin> ready s'"
proof -
  have held: "mutex_held s e pip p t" and okw: "list_ok (wait_list s e)" and pp: "pip < p" using assms(1) by (simp_all add: raised_def)
  obtain s1 where s1: "rbind (OSMutex_RdyAtPrio t (of_nat p) s) (set_entry (of_nat pip) Reserved) = Inr s1"
      "runs_at s1 p t" "ready s1 = insert p (ready s - {pip})" "OSEcbTbl s1 = OSEcbTbl s" "OSTCBCur s1 = Tcb t" "OSPrioCur s1 = of_nat pip"
    using restore_effect [OF assms(1)] by blast
  have grp: "OSEventGrp (OSEcbTbl s1 e) = 0" using ps.empty_ok [OF okw] assms(2) s1(4) by (simp add: wait_list_def)
  define s2 where "s2 = ecb_upd e (\<lambda>ev. ev\<lparr>OSEventCnt := OSEventCnt ev OR OS_MUTEX_AVAILABLE, OSEventPtr := Null\<rparr>) s1"
  have run: "OSMutexPost (Some e) s = Inr (OS_ERR_NONE, s2)" unfolding post_unfold [OF assms(1)] s1(1) rbind_Inr using grp by (simp add: s2_def)
  have "mutex_free s2 e pip" using held by (simp add: mutex_free_def s2_def os_simps s1(4) mutex_held_def)
  moreover have "runs_at s2 p t" using s1(2) by (simp add: runs_at_def s2_def os_simps)
  moreover have "OSTCBCur s2 = Tcb t" "OSPrioCur s2 = of_nat pip" "ready s2 = ready s1" using s1 by (simp_all add: s2_def os_simps)
  ultimately show ?thesis using run s1(3) assms(3-5) pp by auto
qed

section \<open>Ownership\<close>

text \<open>What the operations on tasks leave of a mutex.\<close>

definition same_mutex :: "nat \<Rightarrow> os \<Rightarrow> os \<Rightarrow> bool" where
  "same_mutex e s s' \<longleftrightarrow> OSEventType (OSEcbTbl s' e) = OSEventType (OSEcbTbl s e)
     \<and> OSEventCnt (OSEcbTbl s' e) = OSEventCnt (OSEcbTbl s e) \<and> OSEventPtr (OSEcbTbl s' e) = OSEventPtr (OSEcbTbl s e)"

lemma same_mutex_simps [simp]:
  "same_mutex e s s" "same_mutex e s (tcb_upd t f s') = same_mutex e s s'" "same_mutex e s (set_ready l s') = same_mutex e s s'"
  "same_mutex e s (set_wait e' w s') = same_mutex e s s'" "same_mutex e s (s'\<lparr>OSTCBPrioTbl := x\<rparr>) = same_mutex e s s'"
  "same_mutex e s (s'\<lparr>OSPrioHighRdy := y\<rparr>) = same_mutex e s s'" "same_mutex e s (s'\<lparr>OSTCBHighRdy := z\<rparr>) = same_mutex e s s'"
  "same_mutex e s (s'\<lparr>OSCtxSwCtr := n\<rparr>) = same_mutex e s s'" "same_mutex e s (switch s') = same_mutex e s s'"
  by (simp_all add: same_mutex_def tcb_upd_def set_ready_def set_wait_def ecb_upd_def switch_def)

lemma same_mutex_steps:
  "make_unready t s = Inr s' \<Longrightarrow> same_mutex e s0 s' = same_mutex e s0 s"
  "make_ready t y s = Inr s' \<Longrightarrow> same_mutex e s0 s' = same_mutex e s0 s"
  "OS_EventTaskRemove t e' s = Inr s' \<Longrightarrow> same_mutex e s0 s' = same_mutex e s0 s"
  "set_entry p r s = Inr s' \<Longrightarrow> same_mutex e s0 s' = same_mutex e s0 s"
  "OS_EventTaskWait e' s = Inr s' \<Longrightarrow> same_mutex e s0 s' = same_mutex e s0 s"
  "OS_Sched s = Inr s' \<Longrightarrow> same_mutex e s0 s' = same_mutex e s0 s"
proof -
  show unready: "make_unready t s = Inr s' \<Longrightarrow> same_mutex e s0 s' = same_mutex e s0 s" for t s s'
    by (auto simp: make_unready_def rbind_eq_Inr Let_def)
  show "make_ready t y s = Inr s' \<Longrightarrow> same_mutex e s0 s' = same_mutex e s0 s" by (auto simp: make_ready_def rbind_eq_Inr Let_def)
  show "OS_EventTaskRemove t e' s = Inr s' \<Longrightarrow> same_mutex e s0 s' = same_mutex e s0 s"
    by (auto simp: OS_EventTaskRemove_def rbind_eq_Inr Let_def)
  show "set_entry p r s = Inr s' \<Longrightarrow> same_mutex e s0 s' = same_mutex e s0 s" by (auto simp: set_entry_def split: if_splits)
  show "OS_EventTaskWait e' s = Inr s' \<Longrightarrow> same_mutex e s0 s' = same_mutex e s0 s"
    by (auto simp: OS_EventTaskWait_def rbind_eq_Inr Let_def unready)
  show "OS_Sched s = Inr s' \<Longrightarrow> same_mutex e s0 s' = same_mutex e s0 s"
    by (auto simp: OS_Sched_def reschedule_def OS_SchedNew_def rbind_eq_Inr Let_def split: if_splits)
qed

lemma pend_wait_same: "pend_wait st timeout e' s = Inr s' \<Longrightarrow> same_mutex e s0 s' = same_mutex e s0 s"
  by (auto simp: pend_wait_def rbind_eq_Inr Let_def same_mutex_steps)

lemma mutex_raise_same:
  assumes "mutex_raise t pip s = Inr s'"
  shows "same_mutex e s s'"
  using assms by (auto simp: mutex_raise_def rbind_eq_Inr Let_def same_mutex_steps split: if_splits option.splits)

text \<open>C26: While a task holds the mutex no other task gets it: an accept fails, a pend waits or is refused, a post is
  refused, and the owner stays the owner.\<close>
lemma mutex_exclusive:
  assumes "mutex_held s e pip p t" "OSTCBCur s = Tcb c" "c \<noteq> t" "OSIntNesting s = 0"
  shows "OSMutexAccept (Some e) s = Inr ((False, OS_ERR_NONE), s)
    \<and> OSMutexPost (Some e) s = Inr (OS_ERR_NOT_MUTEX_OWNER, s)
    \<and> (\<forall>timeout r s'. OSMutexPend (Some e) timeout s = Inr (r, s') \<longrightarrow>
        mutex_held s' e pip p t \<and> (r = Waiting \<or> r = Returned OS_ERR_PEND_LOCKED \<and> s' = s))"
proof (intro conjI allI impI)
  have held: "OSEventType (OSEcbTbl s e) = OS_EVENT_TYPE_MUTEX" "p < 32" "OSEventCnt (OSEcbTbl s e) = mutex_cnt (of_nat pip) (of_nat p)"
    "OSEventPtr (OSEcbTbl s e) = TcbPtr t" using assms(1) by (simp_all add: mutex_held_def)
  show "OSMutexAccept (Some e) s = Inr ((False, OS_ERR_NONE), s)" using held assms(4) not_available by (simp add: OSMutexAccept_def)
  show "OSMutexPost (Some e) s = Inr (OS_ERR_NOT_MUTEX_OWNER, s)" using held assms(2-4) by (simp add: OSMutexPost_def tcb_ptr_def Let_def)
  fix timeout r s' assume run: "OSMutexPend (Some e) timeout s = Inr (r, s')"
  then have "same_mutex e s s' \<and> (r = Waiting \<or> r = Returned OS_ERR_PEND_LOCKED \<and> s' = s)"
    using held assms(4) not_available
    by (auto simp: OSMutexPend_def mutex_owner_def rbind_eq_Inr Let_def pend_wait_same mutex_raise_same split: if_splits)
  then show "mutex_held s' e pip p t" "r = Waiting \<or> r = Returned OS_ERR_PEND_LOCKED \<and> s' = s"
    using assms(1) by (auto simp: same_mutex_def mutex_held_def)
qed

section \<open>Deleting a mutex whose owner waits\<close>

text \<open>The task that holds the mutex was raised while it waits for a semaphore. Deleting the mutex makes it ready
  at its own priority although the semaphore has not come, and frees the entry of the inheritance priority, under
  which it is still in the wait list: the next post of the semaphore dereferences NULL.\<close>
lemma mutex_del_null_deref:
  assumes "mutex_held s e pip p t" "pip < p" "runs_at s pip t" "OSIntNesting s = 0" "length (OSTCBPrioTbl s) = 32"
    and "list_ok (ready_list s)" "list_ok (wait_list s e)" "waits s e = {}"
    and "e2 \<noteq> e" "OSEventType (OSEcbTbl s e2) = OS_EVENT_TYPE_SEM" "list_ok (wait_list s e2)" "pip \<in> waits s e2" "Min (waits s e2) = pip"
  shows "\<exists>s'. OSMutexDel (Some e) 1 s = Inr ((None, OS_ERR_NONE), s') \<and> p \<in> ready s' \<and> OSSemPost (Some e2) s' = Inl NullDeref"
proof -
  have held: "OSEventType (OSEcbTbl s e) = OS_EVENT_TYPE_MUTEX" "p < 32" "pip < 32" "OSEventCnt (OSEcbTbl s e) = mutex_cnt (of_nat pip) (of_nat p)"
    "OSEventPtr (OSEcbTbl s e) = TcbPtr t" using assms(1) by (simp_all add: mutex_held_def)
  obtain l where l: "OSMutex_RdyAtPrio t (of_nat p) s = Inr (at_prio t p (with_prio (of_nat p) (drop_bit 3 (of_nat p) AND 7)) l s)"
      "prios l = insert p (ready s - {pip})"
    using RdyAtPrio_effect [OF assms(3, 6) held(2) assms(5)] by blast
  define s1 where "s1 = at_prio t p (with_prio (of_nat p) (drop_bit 3 (of_nat p) AND 7)) l s"
  have grp: "OSEventGrp (OSEcbTbl s e) = 0" using ps.empty_ok [OF assms(7)] assms(8) by (simp add: wait_list_def)
  have "ready_all 33 e Null OS_STAT_MUTEX OS_STAT_PEND_OK 0 s1 = Inr (0, s1)"
    using grp by (simp add: numeral_eq_Suc s1_def)
  moreover have "set_entry (of_nat pip) NoTcb s1 = Inr (entry pip NoTcb s1)"
    by (rule set_entry_effect) (use held assms(5) in \<open>simp_all add: s1_def\<close>)
  moreover have "mutex_owner e s = Inr t" "OSTCBPrio (OSTCBTbl s t) = of_nat pip"
    using held runs_atD(2) [OF assms(3)] by (simp_all add: mutex_owner_def)
  ultimately have run: "OSMutexDel (Some e) 1 s = Inr ((None, OS_ERR_NONE), ecb_release e (entry pip NoTcb s1))"
    using held assms(4) grp l(1) by (simp add: OSMutexDel_def Let_def flip: s1_def)
  define s2 where "s2 = ecb_release e (entry pip NoTcb s1)"
  have s2: "wait_list s2 e2 = wait_list s e2" "OSEventType (OSEcbTbl s2 e2) = OS_EVENT_TYPE_SEM" "ready s2 = insert p (ready s - {pip})"
      "OSTCBPrioTbl s2 = (OSTCBPrioTbl s)[p := Tcb t, pip := NoTcb]"
    using assms(9, 10) l(2) by (simp_all add: s2_def s1_def ecb_release_def Let_def wait_list_def ecb_upd_def at_prio_def entry_def set_ready_def
        tcb_upd_def ready_list_def)
  have ne: "waits s e2 \<noteq> {}" using assms(12) by auto
  have grp2: "OSEventGrp (OSEcbTbl s2 e2) \<noteq> 0" using ps.empty_ok [OF assms(11)] ne s2(1) by (simp add: wait_list_def)
  have "list_first (wait_list s2 e2) = Inr (of_nat pip)" using list_first_prios(1) [OF assms(11) ne] assms(13) by (simp add: s2(1))
  moreover have "prio_entry s2 (of_nat pip) = Inr NoTcb" using held assms(5) by (simp add: prio_entry_def s2(4))
  ultimately have "OS_EventTaskRdy e2 Null OS_STAT_SEM OS_STAT_PEND_OK s2 = Inl NullDeref"
    by (simp add: OS_EventTaskRdy_def deref_def)
  then have "OSSemPost (Some e2) s2 = Inl NullDeref" using s2(2) grp2 by (simp add: OSSemPost_def)
  then show ?thesis using run s2(3) by (intro exI [of _ s2]) (simp flip: s2_def)
qed

section \<open>A concrete inversion\<close>

text \<open>Task 12 of the demonstration kernel takes mutex 1, whose inheritance priority is 3, while task 5 is delayed.\<close>

definition demo_created :: os where
  "demo_created = snd (projr (OSMutexCreate 3 demo))"

definition demo_owned :: os where
  "demo_owned = snd (projr (OSMutexPend (Some 1) 0 (projr (OSTimeDly 2 demo_created))))"

definition tick :: "os \<Rightarrow> os" where
  "tick s = projr (OSIntExit (projr (OSTimeTick (OSIntEnter s))))"

definition demo_inversion :: os where
  "demo_inversion = tick (tick demo_owned)"

definition inversion_state :: "os \<Rightarrow> bool" where
  "inversion_state s \<longleftrightarrow> ready s = {5, 12, 31} \<and> waits s 1 = {} \<and> list_ok (ready_list s) \<and> list_ok (wait_list s 1)
     \<and> mutex_held s 1 3 12 1 \<and> OSIntNesting s = 0 \<and> OSLockNesting s = 0 \<and> length (OSTCBPrioTbl s) = 32
     \<and> OSTCBCur s = Tcb 2 \<and> OSPrioCur s = of_nat 5 \<and> runs_at s 5 2 \<and> runs_at s 12 1
     \<and> OSTCBPrioTbl s ! 3 = Reserved \<and> OSTCBPrioTbl s ! 12 = Tcb 1 \<and> OSTCBPrioTbl s ! 5 = Tcb 2 \<and> OSTCBPrioTbl s ! 31 = Tcb 0
     \<and> OSTCBStat (OSTCBTbl s 2) = OS_STAT_RDY \<and> OSTCBEventMultiPtr (OSTCBTbl s 2) = None"

lemma demo_inversion_ok: "inversion_state demo_inversion"
  by code_simp

lemma demo_inversion_start: "inversion_start demo_inversion 1 3 5 2 12 1"
  using demo_inversion_ok by (simp add: inversion_start_def inversion_def inversion_state_def)

theorem mutex_inversion_resolved_witness:
  "\<exists>s1 s2. OSMutexPend (Some 1) 0 demo_inversion = Inr (Waiting, s1) \<and> OSTCBCur s1 = Tcb 1 \<and> OSPrioCur s1 = of_nat 3 \<and> runs_at s1 3 1
    \<and> OSMutexPost (Some 1) s1 = Inr (OS_ERR_NONE, s2) \<and> OSTCBCur s2 = Tcb 2 \<and> OSPrioCur s2 = of_nat 5 \<and> mutex_held s2 1 3 5 2
    \<and> runs_at s2 12 1 \<and> runs_at s2 5 2 \<and> ready s2 = ready demo_inversion \<and> waits s2 1 = waits demo_inversion 1
    \<and> OSTCBPrioTbl s2 = OSTCBPrioTbl demo_inversion"
  by (rule mutex_inversion_resolved [OF demo_inversion_start])

theorem mutex_exclusive_witness:
  "OSMutexAccept (Some 1) demo_inversion = Inr ((False, OS_ERR_NONE), demo_inversion)
    \<and> OSMutexPost (Some 1) demo_inversion = Inr (OS_ERR_NOT_MUTEX_OWNER, demo_inversion)"
proof -
  have "mutex_held demo_inversion 1 3 12 1" "OSTCBCur demo_inversion = Tcb 2" "OSIntNesting demo_inversion = 0"
    using demo_inversion_ok by (simp_all add: inversion_state_def)
  from mutex_exclusive [OF this(1, 2) _ this(3)] show ?thesis by simp
qed

text \<open>Task 5 gives up after a tick; task 12, still at the inheritance priority, is delayed for a tick and runs again.\<close>

definition gave_up :: "os \<Rightarrow> os" where
  "gave_up s = snd (projr (OSMutexPend_resume 1 s))"

definition demo_raised :: os where
  "demo_raised = tick (gave_up (projr (OSTimeDly 1 (tick (snd (projr (OSMutexPend (Some 1) 1 demo_inversion)))))))"

definition raised_state :: "os \<Rightarrow> bool" where
  "raised_state s \<longleftrightarrow> raised s 1 3 12 1 \<and> waits s 1 = {} \<and> 5 \<in> ready s"

lemma demo_raised_ok: "raised_state demo_raised"
  by code_simp

lemma demo_raised: "raised demo_raised 1 3 12 1" "waits demo_raised 1 = {}" "5 \<in> ready demo_raised"
  using demo_raised_ok by (simp_all add: raised_state_def)

theorem mutex_post_misses_schedule_witness:
  "\<exists>s'. OSMutexPost (Some 1) demo_raised = Inr (OS_ERR_NONE, s') \<and> mutex_free s' 1 3 \<and> OSTCBCur s' = Tcb 1 \<and> runs_at s' 12 1
    \<and> OSPrioCur s' = of_nat 3 \<and> 5 \<in> ready s' \<and> 3 \<notin> ready s'"
  by (rule mutex_post_misses_schedule [OF demo_raised]) simp_all

text \<open>Task 12 waits for semaphore 0 when task 5 pends on the mutex, and task 5 gives up.\<close>

definition demo_waiting_owner :: os where
  "demo_waiting_owner = gave_up (tick (snd (projr (OSMutexPend (Some 1) 1 (tick (tick (snd (projr (OSSemPend (Some 0) 0 demo_owned)))))))))"

definition waiting_owner :: "os \<Rightarrow> bool" where
  "waiting_owner s \<longleftrightarrow> mutex_held s 1 3 12 1 \<and> runs_at s 3 1 \<and> OSIntNesting s = 0 \<and> length (OSTCBPrioTbl s) = 32
     \<and> list_ok (ready_list s) \<and> list_ok (wait_list s 1) \<and> waits s 1 = {} \<and> OSEventType (OSEcbTbl s 0) = OS_EVENT_TYPE_SEM
     \<and> list_ok (wait_list s 0) \<and> waits s 0 = {3}"

lemma demo_waiting_owner_ok: "waiting_owner demo_waiting_owner"
  by code_simp

lemma demo_waiting_owner:
  "mutex_held demo_waiting_owner 1 3 12 1" "runs_at demo_waiting_owner 3 1" "OSIntNesting demo_waiting_owner = 0"
  "length (OSTCBPrioTbl demo_waiting_owner) = 32" "list_ok (ready_list demo_waiting_owner)" "list_ok (wait_list demo_waiting_owner 1)"
  "waits demo_waiting_owner 1 = {}" "OSEventType (OSEcbTbl demo_waiting_owner 0) = OS_EVENT_TYPE_SEM"
  "list_ok (wait_list demo_waiting_owner 0)" "waits demo_waiting_owner 0 = {3}"
  using demo_waiting_owner_ok by (simp_all add: waiting_owner_def)

theorem mutex_del_null_deref_witness:
  "\<exists>s'. OSMutexDel (Some 1) 1 demo_waiting_owner = Inr ((None, OS_ERR_NONE), s') \<and> 12 \<in> ready s' \<and> OSSemPost (Some 0) s' = Inl NullDeref"
  by (rule mutex_del_null_deref [OF demo_waiting_owner(1) _ demo_waiting_owner(2-7) _ demo_waiting_owner(8-9)])
    (simp_all add: demo_waiting_owner(10))

end
