(* ===== verification/Os_Flag_Props.thy ===== *)
theory Os_Flag_Props
  imports Os_Flag Os_Calls_Props Linked_List
begin

text \<open>
  The wait list of an event flag group stays a well-formed doubly linked list, a post makes exactly those tasks
  ready whose condition it establishes, and what consuming the flags does and does not do.
\<close>

section \<open>Well-formed wait lists\<close>

abbreviation node_next :: "os \<Rightarrow> nat \<Rightarrow> nat option" where "node_next s n \<equiv> OSFlagNodeNext (flag_nodes s n)"
abbreviation node_prev :: "os \<Rightarrow> nat \<Rightarrow> nat option" where "node_prev s n \<equiv> OSFlagNodePrev (flag_nodes s n)"

text \<open>A node of group \<open>g\<close>: it belongs to a task, knows its group and has one of the four types of waiting.\<close>

definition node_ok :: "os \<Rightarrow> nat \<Rightarrow> nat \<Rightarrow> bool" where
  "node_ok s g n \<longleftrightarrow> OSFlagNodeTCB (flag_nodes s n) = n \<and> OSFlagNodeFlagGrp (flag_nodes s n) = g
     \<and> OSFlagNodeWaitType (flag_nodes s n) \<le> 3 \<and> n < OS_MAX_TCBS \<and> (\<exists>p. task_at s p n)"

definition flag_waiters :: "os \<Rightarrow> nat \<Rightarrow> nat list \<Rightarrow> bool" where
  "flag_waiters s g ns \<longleftrightarrow> OSFlagWaitList (OSFlagTbl s g) = node_ptr (hd_of ns) \<and> distinct ns
     \<and> dlist (node_next s) (node_prev s) None (hd_of ns) ns \<and> (\<forall>n \<in> set ns. node_ok s g n)"

lemma first_node_ptr [simp]: "first_node (node_ptr c) = Inr c"
  by (cases c) (simp_all add: first_node_def node_ptr_def)

lemma flag_waiters_length: "flag_waiters s g ns \<Longrightarrow> length ns \<le> OS_MAX_TCBS"
proof -
  assume "flag_waiters s g ns"
  then have "distinct ns" "set ns \<subseteq> {..<OS_MAX_TCBS}" by (auto simp: flag_waiters_def node_ok_def)
  then show ?thesis using card_mono [of "{..<OS_MAX_TCBS}" "set ns"] by (simp add: distinct_card)
qed

section \<open>Components of updated states\<close>

lemma grp_upd_simps [os_simps]:
  "OSFlagTbl (grp_upd g f s) = (OSFlagTbl s)(g := f (OSFlagTbl s g))" "flag_nodes (grp_upd g f s) = flag_nodes s"
  "OSTCBTbl (grp_upd g f s) = OSTCBTbl s" "OSTCBPrioTbl (grp_upd g f s) = OSTCBPrioTbl s" "OSEcbTbl (grp_upd g f s) = OSEcbTbl s"
  "ready_list (grp_upd g f s) = ready_list s" "OSTCBCur (grp_upd g f s) = OSTCBCur s" "OSPrioCur (grp_upd g f s) = OSPrioCur s"
  "OSIntNesting (grp_upd g f s) = OSIntNesting s" "OSLockNesting (grp_upd g f s) = OSLockNesting s" "wait_list (grp_upd g f s) e = wait_list s e"
  by (simp_all add: grp_upd_def ready_list_def wait_list_def)

lemma node_upd_simps [os_simps]:
  "flag_nodes (node_upd n f s) = (flag_nodes s)(n := f (flag_nodes s n))" "OSFlagTbl (node_upd n f s) = OSFlagTbl s"
  "OSTCBTbl (node_upd n f s) = OSTCBTbl s" "OSTCBPrioTbl (node_upd n f s) = OSTCBPrioTbl s" "OSEcbTbl (node_upd n f s) = OSEcbTbl s"
  "ready_list (node_upd n f s) = ready_list s" "OSTCBCur (node_upd n f s) = OSTCBCur s" "OSPrioCur (node_upd n f s) = OSPrioCur s"
  "OSIntNesting (node_upd n f s) = OSIntNesting s" "OSLockNesting (node_upd n f s) = OSLockNesting s" "wait_list (node_upd n f s) e = wait_list s e"
  by (simp_all add: node_upd_def ready_list_def wait_list_def)

lemma flag_fields_simps [os_simps]:
  "OSFlagTbl (tcb_upd t f s) = OSFlagTbl s" "flag_nodes (tcb_upd t f s) = flag_nodes s"
  "OSFlagTbl (set_ready l s) = OSFlagTbl s" "flag_nodes (set_ready l s) = flag_nodes s"
  by (simp_all add: tcb_upd_def set_ready_def)

section \<open>Taking a node out\<close>

text \<open>What unlinking leaves alone.\<close>

definition flag_frame :: "os \<Rightarrow> os \<Rightarrow> bool" where
  "flag_frame s s' \<longleftrightarrow> OSTCBPrioTbl s' = OSTCBPrioTbl s \<and> OSEcbTbl s' = OSEcbTbl s \<and> OSTCBCur s' = OSTCBCur s
     \<and> OSPrioCur s' = OSPrioCur s \<and> OSIntNesting s' = OSIntNesting s \<and> OSLockNesting s' = OSLockNesting s
     \<and> (\<forall>g. \<exists>w. OSFlagTbl s' g = (OSFlagTbl s g)\<lparr>OSFlagWaitList := w\<rparr>)
     \<and> (\<forall>n. \<exists>a b. flag_nodes s' n = (flag_nodes s n)\<lparr>OSFlagNodeNext := a, OSFlagNodePrev := b\<rparr>)"

lemma grp_same: "\<exists>w. g = g\<lparr>OSFlagWaitList := w\<rparr>" and node_same: "\<exists>a b. n = n\<lparr>OSFlagNodeNext := a, OSFlagNodePrev := b\<rparr>"
  by (rule exI [of _ "OSFlagWaitList g"], simp) (rule exI [of _ "OSFlagNodeNext n"], rule exI [of _ "OSFlagNodePrev n"], simp)

lemma flag_frame_trans:
  assumes "flag_frame s s'" "flag_frame s' s''"
  shows "flag_frame s s''"
proof -
  have "\<exists>w. OSFlagTbl s'' g = (OSFlagTbl s g)\<lparr>OSFlagWaitList := w\<rparr>" for g
  proof -
    from assms obtain w w' where "OSFlagTbl s' g = (OSFlagTbl s g)\<lparr>OSFlagWaitList := w\<rparr>" "OSFlagTbl s'' g = (OSFlagTbl s' g)\<lparr>OSFlagWaitList := w'\<rparr>"
      unfolding flag_frame_def by blast
    then show ?thesis by (intro exI [of _ w']) simp
  qed
  moreover have "\<exists>a b. flag_nodes s'' n = (flag_nodes s n)\<lparr>OSFlagNodeNext := a, OSFlagNodePrev := b\<rparr>" for n
  proof -
    from assms obtain a b a' b' where "flag_nodes s' n = (flag_nodes s n)\<lparr>OSFlagNodeNext := a, OSFlagNodePrev := b\<rparr>"
      "flag_nodes s'' n = (flag_nodes s' n)\<lparr>OSFlagNodeNext := a', OSFlagNodePrev := b'\<rparr>"
      unfolding flag_frame_def by blast
    then show ?thesis by (intro exI [of _ a'] exI [of _ b']) simp
  qed
  ultimately show ?thesis using assms by (simp add: flag_frame_def)
qed

lemma flag_frame_refl [simp]: "flag_frame s s"
  by (simp add: flag_frame_def grp_same node_same)

lemma node_ok_frame: "flag_frame s s' \<Longrightarrow> node_ok s' g n = node_ok s g n"
proof -
  assume f: "flag_frame s s'"
  then obtain a b where "flag_nodes s' n = (flag_nodes s n)\<lparr>OSFlagNodeNext := a, OSFlagNodePrev := b\<rparr>" unfolding flag_frame_def by blast
  with f show ?thesis by (simp add: node_ok_def task_at_def flag_frame_def)
qed

text \<open>The links that unlinking changes.\<close>

definition unlinked :: "nat option \<Rightarrow> nat option \<Rightarrow> (nat \<Rightarrow> flag_node) \<Rightarrow> nat \<Rightarrow> flag_node" where
  "unlinked l r h n = (h n)\<lparr>OSFlagNodeNext := (if l = Some n then r else OSFlagNodeNext (h n)),
     OSFlagNodePrev := (if r = Some n then l else OSFlagNodePrev (h n))\<rparr>"

lemma unlinked_frame: "\<exists>a b. unlinked l r h m = (h m)\<lparr>OSFlagNodeNext := a, OSFlagNodePrev := b\<rparr>"
  unfolding unlinked_def by blast

lemma FlagUnlink_eq:
  assumes "OSFlagNodePrev (flag_nodes s n) = l" "OSFlagNodeNext (flag_nodes s n) = r" "OSFlagNodeTCB (flag_nodes s n) = n"
    "OSFlagNodeFlagGrp (flag_nodes s n) = g" "l \<noteq> Some n" "r \<noteq> Some n"
  shows "OS_FlagUnlink n s = tcb_upd n (\<lambda>ptcb. ptcb\<lparr>OSTCBFlagNode := None\<rparr>)
    (grp_upd g (\<lambda>pgrp. if l = None then pgrp\<lparr>OSFlagWaitList := node_ptr r\<rparr> else pgrp) (s\<lparr>flag_nodes := unlinked l r (flag_nodes s)\<rparr>))"
proof -
  have u: "unlinked None None h = h" "unlinked None (Some m) h = h(m := (h m)\<lparr>OSFlagNodePrev := None\<rparr>)"
    "unlinked (Some k) None h = h(k := (h k)\<lparr>OSFlagNodeNext := None\<rparr>)"
    "unlinked (Some k) (Some m) h = h(k := (h k)\<lparr>OSFlagNodeNext := Some m\<rparr>, m := ((h(k := (h k)\<lparr>OSFlagNodeNext := Some m\<rparr>)) m)\<lparr>OSFlagNodePrev := Some k\<rparr>)"
    for h :: "nat \<Rightarrow> flag_node" and k m
    by (auto simp: unlinked_def fun_eq_iff)
  note D = OS_FlagUnlink_def Let_def u assms(3, 4) grp_upd_def node_upd_def tcb_upd_def
  show ?thesis
  proof (cases l)
    case None
    then show ?thesis using assms(1, 2, 6) by (cases r) (simp_all add: D)
  next
    case (Some k)
    then show ?thesis using assms(1, 2, 5, 6) by (cases r) (simp_all add: D)
  qed
qed
lemma flag_waitersD:
  assumes "flag_waiters s g (xs @ n # ys)"
  shows "node_next s n = hd_of ys" "node_prev s n = last_of None xs" "node_ok s g n" "last_of None xs \<noteq> Some n" "hd_of ys \<noteq> Some n"
proof -
  have d: "dlist (node_next s) (node_prev s) None (hd_of (xs @ n # ys)) (xs @ n # ys)" "distinct (xs @ n # ys)"
    using assms by (simp_all add: flag_waiters_def)
  show "node_next s n = hd_of ys" "node_prev s n = last_of None xs" using dlist_next [OF d(1)] by simp_all
  show "node_ok s g n" using assms by (simp add: flag_waiters_def)
  show "last_of None xs \<noteq> Some n" using d(2) by (auto simp: last_of_def)
  show "hd_of ys \<noteq> Some n" using d(2) by (cases ys) auto
qed

lemma flag_unlink_effect:
  assumes "flag_waiters s g (xs @ n # ys)" and "s' = OS_FlagUnlink n s"
  shows "flag_waiters s' g (xs @ ys)" "flag_frame s s'" "ready_list s' = ready_list s"
    "OSTCBTbl s' = (OSTCBTbl s)(n := (OSTCBTbl s n)\<lparr>OSTCBFlagNode := None\<rparr>)"
    "m \<notin> set (xs @ ys) \<Longrightarrow> flag_nodes s' m = flag_nodes s m" "g' \<noteq> g \<Longrightarrow> OSFlagTbl s' g' = OSFlagTbl s g'"
proof -
  note D = flag_waitersD [OF assms(1)]
  have d: "dlist (node_next s) (node_prev s) None (hd_of (xs @ n # ys)) (xs @ n # ys)" "distinct (xs @ n # ys)"
    using assms(1) by (simp_all add: flag_waiters_def)
  have s': "s' = tcb_upd n (\<lambda>ptcb. ptcb\<lparr>OSTCBFlagNode := None\<rparr>)
    (grp_upd g (\<lambda>pgrp. if last_of None xs = None then pgrp\<lparr>OSFlagWaitList := node_ptr (hd_of ys)\<rparr> else pgrp)
       (s\<lparr>flag_nodes := unlinked (last_of None xs) (hd_of ys) (flag_nodes s)\<rparr>))"
    unfolding assms(2) using D by (intro FlagUnlink_eq) (simp_all add: node_ok_def)
  have n: "flag_nodes s' = unlinked (last_of None xs) (hd_of ys) (flag_nodes s)" by (simp add: s' os_simps)
  show f: "flag_frame s s'" unfolding flag_frame_def n
    by (simp add: s' os_simps unlinked_frame grp_same) (blast intro: refl)
  show "ready_list s' = ready_list s" "OSTCBTbl s' = (OSTCBTbl s)(n := (OSTCBTbl s n)\<lparr>OSTCBFlagNode := None\<rparr>)"
    by (simp add: s' os_simps, simp add: ready_list_def) (simp add: s' os_simps)
  show "OSFlagTbl s' g' = OSFlagTbl s g'" if "g' \<noteq> g" using that by (simp add: s' os_simps)
  show "flag_nodes s' m = flag_nodes s m" if "m \<notin> set (xs @ ys)"
    using that by (cases ys; cases xs rule: rev_cases) (auto simp: n unlinked_def last_of_def)
  have "dlist (node_next s') (node_prev s') None (if xs = [] then hd_of ys else hd_of (xs @ n # ys)) (xs @ ys)"
    by (rule dlist_remove [OF d]) (auto simp: n unlinked_def last_of_def split: if_splits)
  moreover have "hd_of (xs @ ys) = (if xs = [] then hd_of ys else hd_of (xs @ n # ys))" by (cases xs) simp_all
  moreover have "OSFlagWaitList (OSFlagTbl s' g) = node_ptr (hd_of (xs @ ys))"
    using assms(1) by (cases xs) (simp_all add: s' os_simps last_of_def flag_waiters_def)
  ultimately show "flag_waiters s' g (xs @ ys)"
    using assms(1) d(2) node_ok_frame [OF f] by (auto simp: flag_waiters_def)
qed
section \<open>Waking a waiting task\<close>

text \<open>What \<open>OS_FlagTaskRdy\<close> does to the control block.\<close>

definition flag_woken :: "u16 \<Rightarrow> tcb \<Rightarrow> tcb" where
  "flag_woken flags_rdy ptcb = ptcb\<lparr>OSTCBDly := 0, OSTCBFlagsRdy := flags_rdy,
     OSTCBStat := OSTCBStat ptcb AND NOT OS_STAT_FLAG, OSTCBStatPend := OS_STAT_PEND_OK, OSTCBFlagNode := None\<rparr>"

lemma flag_waiters_same:
  assumes "OSFlagWaitList (OSFlagTbl s' g) = OSFlagWaitList (OSFlagTbl s g)" "flag_nodes s' = flag_nodes s"
    "OSTCBPrioTbl s' = OSTCBPrioTbl s"
  shows "flag_waiters s' g ns = flag_waiters s g ns"
  using assms by (simp add: flag_waiters_def node_ok_def task_at_def)

lemma flag_task_rdy_effect:
  assumes "flag_waiters s g (xs @ n # ys)" "tables_ok s" "list_ok (ready_list s)"
  shows "\<exists>rdy s'. OS_FlagTaskRdy n f s = Inr (rdy, s') \<and> rdy = (OSTCBStat (OSTCBTbl s n) AND NOT OS_STAT_FLAG = 0)
    \<and> flag_waiters s' g (xs @ ys) \<and> flag_frame s s' \<and> tables_ok s' \<and> list_ok (ready_list s')
    \<and> OSTCBTbl s' = (OSTCBTbl s)(n := flag_woken f (OSTCBTbl s n))
    \<and> ready s' = (if rdy then ready s \<union> {p. task_at s p n} else ready s)
    \<and> flag_nodes s' n = flag_nodes s n"
proof -
  have nok: "node_ok s g n" using flag_waitersD [OF assms(1)] by simp
  then obtain p where p: "task_at s p n" and tcb: "OSFlagNodeTCB (flag_nodes s n) = n" by (auto simp: node_ok_def)
  define f1 :: "tcb \<Rightarrow> tcb" where "f1 = (\<lambda>ptcb. ptcb\<lparr>OSTCBDly := 0, OSTCBFlagsRdy := f,
                OSTCBStat := OSTCBStat ptcb AND NOT OS_STAT_FLAG, OSTCBStatPend := OS_STAT_PEND_OK\<rparr>)"
  define s1 where "s1 = tcb_upd n f1 s"
  define rdy where "rdy = (OSTCBStat (OSTCBTbl s n) AND NOT OS_STAT_FLAG = 0)"
  have s1: "tables_ok s1" "task_at s1 p n" "list_ok (ready_list s1)"
    using assms p by (simp_all add: s1_def f1_def os_simps tables_upd tcb_fields_def)
  have w1: "flag_waiters s1 g (xs @ n # ys)"
    using assms(1) flag_waiters_same [of s1 g s] by (simp add: s1_def os_simps)
  from make_ready_ok [OF s1(1-3)] obtain l where
    l: "make_ready n (prio_y p) s1 = Inr (set_ready l s1)" "list_ok l" "prios l = insert p (ready s1)" by blast
  define s2 where "s2 = (if rdy then set_ready l s1 else s1)"
  have r1: "OSTCBStat (OSTCBTbl s1 n) = OSTCBStat (OSTCBTbl s n) AND NOT OS_STAT_FLAG"
    by (simp add: s1_def f1_def tcb_upd_def)
  have run: "OS_FlagTaskRdy n f s = Inr (rdy, OS_FlagUnlink n s2)"
    using l(1) r1 task_at_fields(3) [OF s1(1, 2)]
    unfolding OS_FlagTaskRdy_def tcb Let_def f1_def [symmetric] s1_def [symmetric] by (simp add: rdy_def s2_def)
  have "flag_waiters s2 g (xs @ n # ys)" using w1 flag_waiters_same [of s2 g s1] by (simp add: s2_def os_simps)
  note U = flag_unlink_effect [OF this refl]
  have fr: "flag_frame s s2" by (simp add: s2_def s1_def flag_frame_def os_simps grp_same node_same)
  have t2: "OSTCBTbl s2 = (OSTCBTbl s)(n := f1 (OSTCBTbl s n))" by (simp add: s2_def s1_def os_simps)
  have n2: "flag_nodes s2 n = flag_nodes s n" by (simp add: s2_def s1_def os_simps)
  define s' where "s' = OS_FlagUnlink n s2"
  note U = U [folded s'_def]
  have tcb': "OSTCBTbl s' = (OSTCBTbl s)(n := flag_woken f (OSTCBTbl s n))"
    unfolding U(4) t2 by (simp add: f1_def flag_woken_def)
  have "n \<notin> set (xs @ ys)" using assms(1) by (simp add: flag_waiters_def)
  then have n': "flag_nodes s' n = flag_nodes s n" using U(5) n2 by simp
  have "OSTCBPrioTbl s' = OSTCBPrioTbl s" using flag_frame_trans [OF fr U(2)] by (simp add: flag_frame_def)
  then have t': "tables_ok s'" using assms(2) by (auto simp: tables_ok_def task_at_def tcb' tcb_fields_def flag_woken_def)
  have "{q. task_at s q n} = {p}" using p task_at_inj [OF assms(2) p] by blast
  then have "ready s' = (if rdy then ready s \<union> {p. task_at s p n} else ready s)" "list_ok (ready_list s')"
    using l(2, 3) assms(3) by (auto simp: U(3) s2_def s1_def os_simps)
  then show ?thesis
    using run U(1) flag_frame_trans [OF fr U(2)] t' tcb' n' unfolding s'_def [symmetric] rdy_def by blast
qed
section \<open>The walk along the wait list\<close>

text \<open>A node's condition under flags \<open>cur\<close>: the flags found and whether they are enough.\<close>

definition node_found :: "flag_node \<Rightarrow> u16 \<Rightarrow> u16" where
  "node_found pnode cur = fst (the (flags_found (OSFlagNodeWaitType pnode) cur (OSFlagNodeFlags pnode)))"

definition node_wakes :: "flag_node \<Rightarrow> u16 \<Rightarrow> bool" where
  "node_wakes pnode cur = snd (the (flags_found (OSFlagNodeWaitType pnode) cur (OSFlagNodeFlags pnode)))"

lemma wait_types: "(w :: u8) \<le> 3 \<longleftrightarrow> w = 0 \<or> w = 1 \<or> w = 2 \<or> w = 3"
proof
  assume "w \<le> 3"
  then have "unat w \<le> 3" by (simp add: word_le_nat_alt)
  then have "unat w = 0 \<or> unat w = 1 \<or> unat w = 2 \<or> unat w = 3" by arith
  then show "w = 0 \<or> w = 1 \<or> w = 2 \<or> w = 3" by (simp add: word_unat_eq_iff)
qed auto

lemma node_condition:
  "node_ok s g n \<Longrightarrow> flags_found (OSFlagNodeWaitType (flag_nodes s n)) cur (OSFlagNodeFlags (flag_nodes s n))
     = Some (node_found (flag_nodes s n) cur, node_wakes (flag_nodes s n) cur)"
  by (auto simp: node_ok_def wait_types node_found_def node_wakes_def flags_found_def)

lemma node_frame:
  assumes "flag_frame s s'"
  shows "node_found (flag_nodes s' n) cur = node_found (flag_nodes s n) cur" "node_wakes (flag_nodes s' n) cur = node_wakes (flag_nodes s n) cur"
    "OSFlagFlags (OSFlagTbl s' g) = OSFlagFlags (OSFlagTbl s g)" "OSFlagType (OSFlagTbl s' g) = OSFlagType (OSFlagTbl s g)"
    "task_at s' p t = task_at s p t"
proof -
  from assms obtain a b where "flag_nodes s' n = (flag_nodes s n)\<lparr>OSFlagNodeNext := a, OSFlagNodePrev := b\<rparr>" unfolding flag_frame_def by blast
  then show "node_found (flag_nodes s' n) cur = node_found (flag_nodes s n) cur" "node_wakes (flag_nodes s' n) cur = node_wakes (flag_nodes s n) cur"
    by (simp_all add: node_found_def node_wakes_def)
  from assms obtain w where "OSFlagTbl s' g = (OSFlagTbl s g)\<lparr>OSFlagWaitList := w\<rparr>" unfolding flag_frame_def by blast
  then show "OSFlagFlags (OSFlagTbl s' g) = OSFlagFlags (OSFlagTbl s g)" "OSFlagType (OSFlagTbl s' g) = OSFlagType (OSFlagTbl s g)" by simp_all
  show "task_at s' p t = task_at s p t" using assms by (simp add: flag_frame_def task_at_def)
qed

text \<open>Nothing but waiting on flags holds the task of a node.\<close>

definition only_flags :: "os \<Rightarrow> nat \<Rightarrow> bool" where
  "only_flags s n \<longleftrightarrow> OSTCBStat (OSTCBTbl s n) AND NOT OS_STAT_FLAG = 0"

definition wakes :: "os \<Rightarrow> u16 \<Rightarrow> nat \<Rightarrow> bool" where
  "wakes s cur n \<longleftrightarrow> node_wakes (flag_nodes s n) cur"

definition after_post :: "os \<Rightarrow> u16 \<Rightarrow> nat \<Rightarrow> nat list \<Rightarrow> nat list \<Rightarrow> os \<Rightarrow> bool" where
  "after_post s cur g zs ys s' \<longleftrightarrow> flag_waiters s' g (zs @ filter (\<lambda>n. \<not> wakes s cur n) ys) \<and> flag_frame s s' \<and> tables_ok s' \<and> list_ok (ready_list s')
     \<and> (\<forall>t. OSTCBTbl s' t = (if t \<in> set ys \<and> wakes s cur t then flag_woken (node_found (flag_nodes s t) cur) (OSTCBTbl s t) else OSTCBTbl s t))
     \<and> ready s' = ready s \<union> {p. \<exists>n \<in> set ys. task_at s p n \<and> wakes s cur n \<and> only_flags s n}"

lemma post_nodes_effect:
  assumes "flag_waiters s g (zs @ ys)" "tables_ok s" "list_ok (ready_list s)" "length ys \<le> fuel" "OSFlagFlags (OSFlagTbl s g) = cur"
  shows "\<exists>s'. post_nodes fuel g (hd_of ys) sched s = Inr (Some (sched \<or> (\<exists>n \<in> set ys. wakes s cur n \<and> only_flags s n)), s')
    \<and> after_post s cur g zs ys s'"
  using assms
proof (induction ys arbitrary: zs s sched fuel)
  case Nil
  then show ?case by (simp add: after_post_def)
next
  case (Cons n ys)
  obtain fuel' where fuel: "fuel = Suc fuel'" "length ys \<le> fuel'" using Cons.prems(4) by (cases fuel) auto
  have D: "node_ok s g n" "node_next s n = hd_of ys" using flag_waitersD [OF Cons.prems(1)] by simp_all
  have dist: "n \<notin> set ys" "distinct (zs @ n # ys)" using Cons.prems(1) by (simp_all add: flag_waiters_def)
  show ?case
  proof (cases "wakes s cur n")
    case False
    have "flag_waiters s g ((zs @ [n]) @ ys)" using Cons.prems(1) by simp
    from Cons.IH [OF this Cons.prems(2, 3) fuel(2) Cons.prems(5)] obtain s' where
      "post_nodes fuel' g (hd_of ys) sched s = Inr (Some (sched \<or> (\<exists>n \<in> set ys. wakes s cur n \<and> only_flags s n)), s')"
      "after_post s cur g (zs @ [n]) ys s'" by blast
    then show ?thesis using False D
      by (intro exI [of _ s']) (auto simp: fuel node_condition [OF D(1)] Cons.prems(5) wakes_def after_post_def)
  next
    case True
    define rdy where "rdy = only_flags s n"
    from flag_task_rdy_effect [OF Cons.prems(1-3), of "node_found (flag_nodes s n) cur"] obtain s1 where
      s1: "OS_FlagTaskRdy n (node_found (flag_nodes s n) cur) s = Inr (rdy, s1)" "flag_waiters s1 g (zs @ ys)" "flag_frame s s1"
        "tables_ok s1" "list_ok (ready_list s1)" "OSTCBTbl s1 = (OSTCBTbl s)(n := flag_woken (node_found (flag_nodes s n) cur) (OSTCBTbl s n))"
        "ready s1 = (if rdy then ready s \<union> {p. task_at s p n} else ready s)" "flag_nodes s1 n = flag_nodes s n"
      by (auto simp: rdy_def only_flags_def)
    note F = node_frame [OF s1(3)]
    have cur: "OSFlagFlags (OSFlagTbl s1 g) = cur" using Cons.prems(5) F by simp
    have W: "wakes s1 cur m = wakes s cur m" for m by (simp add: wakes_def F)
    have O: "only_flags s1 m = only_flags s m" "OSTCBTbl s1 m = OSTCBTbl s m" if "m \<in> set ys" for m
      using that dist by (auto simp: only_flags_def s1(6))
    from Cons.IH [OF s1(2, 4, 5) fuel(2) cur, of "rdy \<or> sched"] obtain s' where
      s': "post_nodes fuel' g (hd_of ys) (rdy \<or> sched) s1 = Inr (Some ((rdy \<or> sched) \<or> (\<exists>n \<in> set ys. wakes s1 cur n \<and> only_flags s1 n)), s')"
        "after_post s1 cur g zs ys s'" by blast
    have "post_nodes fuel g (hd_of (n # ys)) sched s = Inr (Some (sched \<or> (\<exists>m \<in> set (n # ys). wakes s cur m \<and> only_flags s m)), s')"
      using True s1(1, 8) s'(1) D O W
      by (auto simp: fuel node_condition [OF D(1)] Cons.prems(5) wakes_def rdy_def)
    moreover have "after_post s cur g zs (n # ys) s'"
      using s'(2) s1(3, 6, 7) True dist O W flag_frame_trans [OF s1(3)]
      by (auto simp: after_post_def F rdy_def)
    ultimately show ?thesis by blast
  qed
qed
section \<open>Posting\<close>

lemma sched_after:
  assumes "tables_ok s" "lists_ok s" "cur_ok s" "ready s \<noteq> {}"
  shows "\<exists>s'. OS_Sched s = Inr s' \<and> sched_frame s s' \<and> cur_ok s'
    \<and> unat (OSPrioCur s') = (if OSIntNesting s = 0 \<and> OSLockNesting s = 0 then Min (ready s) else unat (OSPrioCur s))"
proof (cases "OSIntNesting s = 0 \<and> OSLockNesting s = 0")
  case True
  then show ?thesis using reschedule_ok [OF assms(1, 2, 4, 3)] by (simp add: OS_Sched_def) blast
next
  case False
  then show ?thesis using assms(3) by (intro exI [of _ s]) (auto simp: OS_Sched_def)
qed

text \<open>The value the group has after the post.\<close>

definition posted :: "u8 \<Rightarrow> u16 \<Rightarrow> u16 \<Rightarrow> u16" where
  "posted opt flags cur = (if opt = OS_FLAG_CLR then cur AND NOT flags else cur OR flags)"

lemma flag_post_effect:
  assumes "flag_waiters s g ns" "OSFlagType (OSFlagTbl s g) = OS_EVENT_TYPE_FLAG" "opt \<in> {OS_FLAG_CLR, OS_FLAG_SET}"
    "tables_ok s" "lists_ok s" "cur_ok s" "ready s \<noteq> {}" "cur = posted opt flags (OSFlagFlags (OSFlagTbl s g))"
  shows "\<exists>s1 s'. OSFlagPost (Some g) flags opt s = Inr ((cur, OS_ERR_NONE), s')
    \<and> flag_waiters s1 g (filter (\<lambda>n. \<not> wakes s cur n) ns) \<and> OSFlagFlags (OSFlagTbl s1 g) = cur
    \<and> (\<forall>t. OSTCBTbl s1 t = (if t \<in> set ns \<and> wakes s cur t then flag_woken (node_found (flag_nodes s t) cur) (OSTCBTbl s t) else OSTCBTbl s t))
    \<and> ready s1 = ready s \<union> {p. \<exists>n \<in> set ns. task_at s p n \<and> wakes s cur n \<and> only_flags s n}
    \<and> tables_ok s1 \<and> lists_ok s1 \<and> cur_ok s1
    \<and> sched_frame s1 s' \<and> (if \<exists>n \<in> set ns. wakes s cur n \<and> only_flags s n then OS_Sched s1 = Inr s' else s' = s1)"
proof -
  define s0 where "s0 = grp_upd g (\<lambda>pgrp. pgrp\<lparr>OSFlagFlags := posted opt flags (OSFlagFlags pgrp)\<rparr>) s"
  have w0: "flag_waiters s0 g ([] @ ns)" using assms(1) flag_waiters_same [of s0 g s] by (simp add: s0_def os_simps)
  have t0: "tables_ok s0" "list_ok (ready_list s0)" "OSFlagFlags (OSFlagTbl s0 g) = cur"
    using assms(4, 5, 8) by (simp_all add: s0_def os_simps tables_ok_def task_at_def lists_ok_def)
  define rdy where "rdy \<longleftrightarrow> (\<exists>n \<in> set ns. wakes s cur n \<and> only_flags s n)"
  have same: "wakes s0 cur n = wakes s cur n" "only_flags s0 n = only_flags s n" "task_at s0 p n = task_at s p n" for n p
    by (simp_all add: s0_def os_simps wakes_def only_flags_def task_at_def)
  from post_nodes_effect [OF w0 t0(1, 2) _ t0(3), of OS_MAX_TCBS False] flag_waiters_length [OF w0] obtain s1 where
    run: "post_nodes OS_MAX_TCBS g (hd_of ns) False s0 = Inr (Some rdy, s1)" and a: "after_post s0 cur g [] ns s1"
    by (auto simp: rdy_def same)
  have a1: "flag_frame s0 s1" "tables_ok s1" "list_ok (ready_list s1)" "flag_waiters s1 g (filter (\<lambda>n. \<not> wakes s cur n) ns)"
    and t1: "\<forall>t. OSTCBTbl s1 t = (if t \<in> set ns \<and> wakes s cur t then flag_woken (node_found (flag_nodes s t) cur) (OSTCBTbl s t) else OSTCBTbl s t)"
    and r1: "ready s1 = ready s \<union> {p. \<exists>n \<in> set ns. task_at s p n \<and> wakes s cur n \<and> only_flags s n}"
    using a by (simp_all add: after_post_def same) (simp_all add: s0_def os_simps)
  note F = node_frame [OF a1(1)]
  have f1: "OSFlagFlags (OSFlagTbl s1 g) = cur" using F t0(3) by simp
  have e1: "task_at s1 p t = task_at s p t" "wait_list s1 e = wait_list s e" "OSTCBCur s1 = OSTCBCur s" "OSPrioCur s1 = OSPrioCur s" for p t e
    using F(5) a1(1) by (simp_all add: same wait_list_def flag_frame_def) (simp_all add: s0_def os_simps)
  have l1: "lists_ok s1" using assms(5) a1(3) by (auto simp: lists_ok_def r1 e1)
  have c1: "cur_ok s1" using assms(6) by (simp add: cur_ok_def e1)
  have ne: "ready s1 \<noteq> {}" using assms(7) r1 by auto
  from sched_after [OF a1(2) l1 c1 ne] obtain s' where s': "OS_Sched s1 = Inr s'" "sched_frame s1 s'" by blast
  have first: "first_node (OSFlagWaitList (OSFlagTbl s0 g)) = Inr (hd_of ns)" using w0 by (simp add: flag_waiters_def)
  have "OSFlagPost (Some g) flags opt s = Inr ((cur, OS_ERR_NONE), if rdy then s' else s1)"
    using assms(2, 3) s' f1 unfolding OSFlagPost_def option.case posted_def [symmetric] s0_def [symmetric] Let_def
    by (auto simp: first run sched_frame_def)
  then show ?thesis using s' a1 t1 r1 f1 l1 c1 unfolding rdy_def [symmetric] by (intro exI [of _ s1] exI [of _ "if rdy then s' else s1"]) simp
qed
section \<open>Blocking\<close>

definition flag_blocked :: "u16 \<Rightarrow> nat \<Rightarrow> tcb \<Rightarrow> tcb" where
  "flag_blocked timeout t ptcb = ptcb\<lparr>OSTCBStat := OSTCBStat ptcb OR OS_STAT_FLAG, OSTCBStatPend := OS_STAT_PEND_OK,
     OSTCBDly := timeout, OSTCBFlagNode := Some t\<rparr>"

definition flag_node_of :: "nat \<Rightarrow> nat option \<Rightarrow> nat \<Rightarrow> u16 \<Rightarrow> u8 \<Rightarrow> flag_node" where
  "flag_node_of t c g flags wait_type = \<lparr>OSFlagNodeNext = c, OSFlagNodePrev = None, OSFlagNodeTCB = t,
     OSFlagNodeFlagGrp = g, OSFlagNodeFlags = flags, OSFlagNodeWaitType = wait_type\<rparr>"

lemma flag_block_effect:
  assumes "flag_waiters s g ns" "t \<notin> set ns" "OSTCBCur s = Tcb t" "task_at s p t" "t < OS_MAX_TCBS" "w \<le> 3" "tables_ok s" "lists_ok s"
  shows "\<exists>s'. OS_FlagBlock g flags w timeout s = Inr s' \<and> flag_waiters s' g (t # ns)
    \<and> flag_nodes s' t = flag_node_of t (hd_of ns) g flags w \<and> OSTCBTbl s' = (OSTCBTbl s)(t := flag_blocked timeout t (OSTCBTbl s t))
    \<and> ready s' = ready s - {p} \<and> tables_ok s' \<and> lists_ok s' \<and> cur_ok s' = cur_ok s \<and> OSEcbTbl s' = OSEcbTbl s
    \<and> OSTCBPrioTbl s' = OSTCBPrioTbl s \<and> OSIntNesting s' = OSIntNesting s \<and> OSLockNesting s' = OSLockNesting s
    \<and> OSFlagFlags (OSFlagTbl s' g) = OSFlagFlags (OSFlagTbl s g) \<and> OSFlagType (OSFlagTbl s' g) = OSFlagType (OSFlagTbl s g)"
proof -
  define s1 where "s1 = node_upd t (\<lambda>pnode. flag_node_of t (hd_of ns) g flags w) (tcb_upd t (flag_blocked timeout t) s)"
  define s2 where "s2 = (case hd_of ns of None \<Rightarrow> s1 | Some n \<Rightarrow> node_upd n (\<lambda>pnode. pnode\<lparr>OSFlagNodePrev := Some t\<rparr>) s1)"
  define s3 where "s3 = grp_upd g (\<lambda>pgrp. pgrp\<lparr>OSFlagWaitList := NodePtr t\<rparr>) s2"
  have w: "OSFlagWaitList (OSFlagTbl s g) = node_ptr (hd_of ns)" "distinct ns" "dlist (node_next s) (node_prev s) None (hd_of ns) ns"
    "\<And>n. n \<in> set ns \<Longrightarrow> node_ok s g n" using assms(1) by (simp_all add: flag_waiters_def)
  have hd_in: "n \<in> set ns" if "hd_of ns = Some n" for n using that by (cases ns) auto
  have N: "flag_nodes s3 n = (if n = t then flag_node_of t (hd_of ns) g flags w
      else if hd_of ns = Some n then (flag_nodes s n)\<lparr>OSFlagNodePrev := Some t\<rparr> else flag_nodes s n)" for n
    using hd_in assms(2) by (cases "hd_of ns") (auto simp: s3_def s2_def s1_def os_simps)
  have R: "OSTCBTbl s3 = (OSTCBTbl s)(t := flag_blocked timeout t (OSTCBTbl s t))" "OSTCBPrioTbl s3 = OSTCBPrioTbl s"
    "ready_list s3 = ready_list s" "OSEcbTbl s3 = OSEcbTbl s" "OSTCBCur s3 = OSTCBCur s" "OSPrioCur s3 = OSPrioCur s" "wait_list s3 e = wait_list s e"
    "OSIntNesting s3 = OSIntNesting s" "OSLockNesting s3 = OSLockNesting s" "OSFlagTbl s3 g = (OSFlagTbl s g)\<lparr>OSFlagWaitList := NodePtr t\<rparr>" for e
    by (cases "hd_of ns"; simp add: s3_def s2_def s1_def os_simps)+
  have at: "task_at s3 q u = task_at s q u" for q u by (simp add: task_at_def R)
  have "tables_ok s3" using assms(7) by (auto simp: tables_ok_def at R tcb_fields_def flag_blocked_def)
  moreover have "list_ok (ready_list s3)" using assms(8) by (simp add: lists_ok_def R)
  moreover have "task_at s3 p t" using assms(4) by (simp add: at)
  ultimately obtain l where l: "make_unready t s3 = Inr (set_ready l s3)" "list_ok l" "prios l = ready s3 - {p}"
    using make_unready_ok by blast
  define s' where "s' = set_ready l s3"
  have "OS_FlagBlock g flags w timeout s = Inr s'"
    unfolding OS_FlagBlock_def w(1) first_node_ptr rbind_Inr assms(3) deref_def tcb_ref.case Let_def
      s1_def [unfolded flag_node_of_def flag_blocked_def [abs_def], symmetric] s2_def [symmetric] s3_def [symmetric]
    by (simp add: l(1) s'_def)
  moreover have "flag_waiters s3 g (t # ns)"
  proof -
    have "dlist (node_next s3) (node_prev s3) None (Some t) (t # ns)"
      by (rule dlist_push [OF w(3) assms(2) w(2)]) (use assms(2) in \<open>auto simp: N flag_node_of_def\<close>)
    moreover have "node_ok s3 g n" if "n \<in> set (t # ns)" for n
      using that w(4) [of n] assms(2, 4, 5, 6) by (auto simp: node_ok_def N at flag_node_of_def)
    ultimately show ?thesis using w(2) assms(2) by (simp add: flag_waiters_def R node_ptr_def)
  qed
  then have "flag_waiters s' g (t # ns)" using flag_waiters_same [of s' g s3] by (simp add: s'_def os_simps)
  moreover have "lists_ok s'" using assms(8) l(2, 3) by (auto simp: lists_ok_def s'_def os_simps at R)
  ultimately show ?thesis
    using \<open>tables_ok s3\<close> l(3) by (intro exI [of _ s']) (simp add: s'_def os_simps R N cur_ok_def at)
qed
text \<open>Task \<open>t\<close> of priority \<open>p\<close> runs and may pend on group \<open>g\<close>, where the tasks \<open>ns\<close> wait.\<close>

definition may_pend :: "os \<Rightarrow> nat \<Rightarrow> nat list \<Rightarrow> nat \<Rightarrow> nat \<Rightarrow> bool" where
  "may_pend s g ns p t \<longleftrightarrow> flag_waiters s g ns \<and> t \<notin> set ns \<and> t < OS_MAX_TCBS \<and> OSTCBCur s = Tcb t \<and> task_at s p t
     \<and> tables_ok s \<and> lists_ok s \<and> cur_ok s \<and> ready s - {p} \<noteq> {} \<and> OSIntNesting s = 0 \<and> OSLockNesting s = 0
     \<and> OSFlagType (OSFlagTbl s g) = OS_EVENT_TYPE_FLAG"

lemma flags_found_type: "flags_found w cur flags = Some r \<Longrightarrow> w \<le> 3"
  by (auto simp: flags_found_def wait_types split: if_splits)

lemma frame_waiters: "sched_frame s s' \<Longrightarrow> flag_waiters s' g ns = flag_waiters s g ns"
  by (rule flag_waiters_same) (simp_all add: sched_frame_def)

lemma flag_pend_effect:
  assumes "may_pend s g ns p t" "flags_found (wt AND NOT OS_FLAG_CONSUME) (OSFlagFlags (OSFlagTbl s g)) flags = Some (f, False)"
  shows "\<exists>s'. OSFlagPend (Some g) flags wt timeout s = Inr (Waiting, s') \<and> flag_waiters s' g (t # ns)
    \<and> flag_nodes s' t = flag_node_of t (hd_of ns) g flags (wt AND NOT OS_FLAG_CONSUME)
    \<and> (\<exists>c. OSTCBTbl s' t = (flag_blocked timeout t (OSTCBTbl s t))\<lparr>OSTCBCtxSwCtr := c\<rparr>)
    \<and> ready s' = ready s - {p} \<and> unat (OSPrioCur s') = Min (ready s - {p})
    \<and> OSFlagFlags (OSFlagTbl s' g) = OSFlagFlags (OSFlagTbl s g) \<and> OSFlagType (OSFlagTbl s' g) = OS_EVENT_TYPE_FLAG
    \<and> tables_ok s' \<and> lists_ok s' \<and> cur_ok s'"
proof -
  note M = assms(1) [unfolded may_pend_def]
  from flag_block_effect [of s g ns t p "wt AND NOT OS_FLAG_CONSUME" flags timeout] M flags_found_type [OF assms(2)] obtain s1 where
    s1: "OS_FlagBlock g flags (wt AND NOT OS_FLAG_CONSUME) timeout s = Inr s1" "flag_waiters s1 g (t # ns)"
      "flag_nodes s1 t = flag_node_of t (hd_of ns) g flags (wt AND NOT OS_FLAG_CONSUME)"
      "OSTCBTbl s1 = (OSTCBTbl s)(t := flag_blocked timeout t (OSTCBTbl s t))" "ready s1 = ready s - {p}" "tables_ok s1" "lists_ok s1" "cur_ok s1"
      "OSIntNesting s1 = 0" "OSLockNesting s1 = 0" "OSFlagFlags (OSFlagTbl s1 g) = OSFlagFlags (OSFlagTbl s g)"
      "OSFlagType (OSFlagTbl s1 g) = OS_EVENT_TYPE_FLAG" by auto
  have "ready s1 \<noteq> {}" using s1(5) M by simp
  from sched_after [OF s1(6-8) this] s1(5, 9, 10) obtain s' where
    s': "OS_Sched s1 = Inr s'" "sched_frame s1 s'" "cur_ok s'" "unat (OSPrioCur s') = Min (ready s - {p})" by auto
  note F = s'(2) [unfolded sched_frame_def]
  have t': "\<exists>c. OSTCBTbl s' u = (OSTCBTbl s1 u)\<lparr>OSTCBCtxSwCtr := c\<rparr>" for u using F by blast
  have "task_at s' q u = task_at s1 q u" for q u using F by (simp add: task_at_def)
  moreover have "tcb_fields q (OSTCBTbl s' u) = tcb_fields q (OSTCBTbl s1 u)" for q u using t' [of u] by (auto simp: tcb_fields_def)
  ultimately have "tables_ok s'" "lists_ok s'" using s1(6, 7) F by (simp_all add: tables_ok_def lists_ok_def wait_list_def)
  moreover have "OSFlagPend (Some g) flags wt timeout s = Inr (Waiting, s')"
    using M assms(2) s1(1) s'(1) by (simp add: OSFlagPend_def)
  ultimately show ?thesis
    using s1 s'(3, 4) F t' [of t] frame_waiters [OF s'(2)] by (intro exI [of _ s']) simp
qed

lemma flag_timeout_effect:
  assumes "flag_waiters s g (xs @ t # ys)" "OSTCBCur s = Tcb t" "OSTCBStatPend (OSTCBTbl s t) = OS_STAT_PEND_TO"
  shows "\<exists>s'. OSFlagPend_resume g wt s = Inr ((0, OS_ERR_TIMEOUT), s') \<and> flag_waiters s' g (xs @ ys)
    \<and> OSTCBTbl s' = (OSTCBTbl s)(t := (OSTCBTbl s t)\<lparr>OSTCBStatPend := OS_STAT_PEND_OK, OSTCBFlagNode := None, OSTCBStat := OS_STAT_RDY\<rparr>)
    \<and> ready_list s' = ready_list s \<and> OSFlagFlags (OSFlagTbl s' g) = OSFlagFlags (OSFlagTbl s g)"
proof -
  define s1 where "s1 = tcb_upd t (\<lambda>ptcb. ptcb\<lparr>OSTCBStatPend := OS_STAT_PEND_OK\<rparr>) s"
  have "flag_waiters s1 g (xs @ t # ys)" using assms(1) flag_waiters_same [of s1 g s] by (simp add: s1_def os_simps)
  note U = flag_unlink_effect [OF this refl]
  define s2 where "s2 = OS_FlagUnlink t s1"
  define s3 where "s3 = tcb_upd t (\<lambda>ptcb. ptcb\<lparr>OSTCBStat := OS_STAT_RDY\<rparr>) s2"
  have "OSFlagPend_resume g wt s = Inr ((0, OS_ERR_TIMEOUT), s3)"
    using assms(2, 3) by (simp add: OSFlagPend_resume_def deref_def s3_def s2_def s1_def Let_def)
  moreover have "flag_waiters s3 g (xs @ ys)" using U(1) flag_waiters_same [of s3 g s2] by (simp add: s3_def s2_def os_simps)
  moreover have "OSTCBTbl s3 = (OSTCBTbl s)(t := (OSTCBTbl s t)\<lparr>OSTCBStatPend := OS_STAT_PEND_OK, OSTCBFlagNode := None, OSTCBStat := OS_STAT_RDY\<rparr>)"
    unfolding s3_def s2_def by (simp add: os_simps U(4)) (simp add: s1_def os_simps)
  moreover have "OSFlagFlags (OSFlagTbl s3 g) = OSFlagFlags (OSFlagTbl s g)" "ready_list s3 = ready_list s"
    using node_frame(3) [OF U(2)] by (simp_all add: s3_def s2_def os_simps U(3)) (simp_all add: s1_def os_simps)
  ultimately show ?thesis by blast
qed

section \<open>Deleting a group\<close>

lemma ready_nodes_effect:
  assumes "flag_waiters s g ns" "tables_ok s" "list_ok (ready_list s)" "length ns \<le> fuel"
  shows "\<exists>s'. ready_nodes fuel (hd_of ns) s = Inr s' \<and> flag_waiters s' g [] \<and> flag_frame s s' \<and> tables_ok s' \<and> list_ok (ready_list s')
    \<and> (\<forall>t. OSTCBTbl s' t = (if t \<in> set ns then flag_woken 0 (OSTCBTbl s t) else OSTCBTbl s t))
    \<and> ready s' = ready s \<union> {p. \<exists>n \<in> set ns. task_at s p n \<and> only_flags s n}"
  using assms
proof (induction ns arbitrary: s fuel)
  case (Cons n ns)
  obtain fuel' where fuel: "fuel = Suc fuel'" "length ns \<le> fuel'" using Cons.prems(4) by (cases fuel) auto
  have w: "flag_waiters s g ([] @ n # ns)" using Cons.prems(1) by simp
  have D: "node_next s n = hd_of ns" using flag_waitersD [OF w] by simp
  have dist: "n \<notin> set ns" using w by (simp add: flag_waiters_def)
  from flag_task_rdy_effect [OF w Cons.prems(2, 3), of 0] obtain s1 where
    s1: "OS_FlagTaskRdy n 0 s = Inr (only_flags s n, s1)" "flag_waiters s1 g ns" "flag_frame s s1" "tables_ok s1" "list_ok (ready_list s1)"
      "OSTCBTbl s1 = (OSTCBTbl s)(n := flag_woken 0 (OSTCBTbl s n))"
      "ready s1 = (if only_flags s n then ready s \<union> {p. task_at s p n} else ready s)" "flag_nodes s1 n = flag_nodes s n"
    by (auto simp: only_flags_def)
  from Cons.IH [OF s1(2, 4, 5) fuel(2)] obtain s' where
    s': "ready_nodes fuel' (hd_of ns) s1 = Inr s'" "flag_waiters s' g []" "flag_frame s1 s'" "tables_ok s'" "list_ok (ready_list s')"
      "\<forall>t. OSTCBTbl s' t = (if t \<in> set ns then flag_woken 0 (OSTCBTbl s1 t) else OSTCBTbl s1 t)"
      "ready s' = ready s1 \<union> {p. \<exists>n \<in> set ns. task_at s1 p n \<and> only_flags s1 n}" by blast
  have O: "only_flags s1 m = only_flags s m" if "m \<in> set ns" for m using that dist by (auto simp: only_flags_def s1(6))
  have "ready_nodes fuel (hd_of (n # ns)) s = Inr s'" using s1(1, 8) s'(1) by (simp add: fuel D)
  moreover have "\<forall>t. OSTCBTbl s' t = (if t \<in> set (n # ns) then flag_woken 0 (OSTCBTbl s t) else OSTCBTbl s t)"
    using s'(6) dist by (simp add: s1(6))
  moreover have "ready s' = ready s \<union> {p. \<exists>n \<in> set (n # ns). task_at s p n \<and> only_flags s n}"
    using s'(7) O by (auto simp: s1(7) node_frame(5) [OF s1(3)])
  ultimately show ?case using s'(2, 4, 5) flag_frame_trans [OF s1(3) s'(3)] by blast
qed simp
section \<open>Properties\<close>

text \<open>C25: A post to an event flag group, to set or to clear flags, wakes exactly the tasks whose condition then holds: they
  leave the wait list, which keeps the order of the others, and get the flags that satisfied them, no delay and the pend
  status OK; those that nothing else holds become ready. The flags are not consumed, no other task changes, and the
  scheduler runs if and only if a task became ready.\<close>
theorem flag_post_wakes_exactly:
  assumes "flag_waiters s g ns" "OSFlagType (OSFlagTbl s g) = OS_EVENT_TYPE_FLAG" "opt \<in> {OS_FLAG_CLR, OS_FLAG_SET}"
    "tables_ok s" "lists_ok s" "cur_ok s" "ready s \<noteq> {}" "cur = posted opt flags (OSFlagFlags (OSFlagTbl s g))"
  shows "\<exists>s1 s'. OSFlagPost (Some g) flags opt s = Inr ((cur, OS_ERR_NONE), s')
    \<and> flag_waiters s1 g (filter (\<lambda>n. \<not> wakes s cur n) ns) \<and> OSFlagFlags (OSFlagTbl s1 g) = cur
    \<and> (\<forall>t. OSTCBTbl s1 t = (if t \<in> set ns \<and> wakes s cur t then flag_woken (node_found (flag_nodes s t) cur) (OSTCBTbl s t) else OSTCBTbl s t))
    \<and> ready s1 = ready s \<union> {p. \<exists>n \<in> set ns. task_at s p n \<and> wakes s cur n \<and> only_flags s n}
    \<and> (if \<exists>n \<in> set ns. wakes s cur n \<and> only_flags s n then OS_Sched s1 = Inr s' else s' = s1)"
  using flag_post_effect [OF assms] by blast

text \<open>A pend on flags that are as they should be returns them at once and, when asked to, consumes them; otherwise the
  running task enters the wait list at its head, leaves the ready list and the highest of the other ready tasks runs.\<close>
lemma flag_pend_correct:
  assumes "may_pend s g ns p t" "flags_found (wt AND NOT OS_FLAG_CONSUME) (OSFlagFlags (OSFlagTbl s g)) flags = Some (f, enough)"
  shows "if enough then \<exists>s'. OSFlagPend (Some g) flags wt timeout s = Inr (Returned (f, OS_ERR_NONE), s') \<and> flag_waiters s' g ns
      \<and> OSFlagFlags (OSFlagTbl s' g) = (if wt AND OS_FLAG_CONSUME \<noteq> 0
          then flags_consume (wt AND NOT OS_FLAG_CONSUME) f (OSFlagFlags (OSFlagTbl s g)) else OSFlagFlags (OSFlagTbl s g))
      \<and> ready_list s' = ready_list s \<and> OSTCBFlagsRdy (OSTCBTbl s' t) = f
    else \<exists>s'. OSFlagPend (Some g) flags wt timeout s = Inr (Waiting, s') \<and> flag_waiters s' g (t # ns)
      \<and> flag_nodes s' t = flag_node_of t (hd_of ns) g flags (wt AND NOT OS_FLAG_CONSUME)
      \<and> (\<exists>c. OSTCBTbl s' t = (flag_blocked timeout t (OSTCBTbl s t))\<lparr>OSTCBCtxSwCtr := c\<rparr>)
      \<and> ready s' = ready s - {p} \<and> unat (OSPrioCur s') = Min (ready s - {p})
      \<and> OSFlagFlags (OSFlagTbl s' g) = OSFlagFlags (OSFlagTbl s g)"
proof (cases enough)
  case True
  note M = assms(1) [unfolded may_pend_def]
  define s0 where "s0 = (if wt AND OS_FLAG_CONSUME \<noteq> 0 then
      grp_upd g (\<lambda>pgrp. pgrp\<lparr>OSFlagFlags := flags_consume (wt AND NOT OS_FLAG_CONSUME) f (OSFlagFlags pgrp)\<rparr>) s else s)"
  define s' where "s' = tcb_upd t (\<lambda>ptcb. ptcb\<lparr>OSTCBFlagsRdy := f\<rparr>) s0"
  have "OSFlagPend (Some g) flags wt timeout s = Inr (Returned (f, OS_ERR_NONE), s')"
    using M assms(2) True by (simp add: OSFlagPend_def s'_def s0_def deref_def os_simps Let_def)
  moreover have "flag_waiters s' g ns" using M flag_waiters_same [of s' g s] by (simp add: s'_def s0_def os_simps)
  ultimately show ?thesis using True by (intro iffD2 [OF if_P] exI [of _ s']) (simp_all add: s'_def s0_def os_simps)
next
  case False
  with assms flag_pend_effect [of s g ns p t wt flags f timeout] show ?thesis by simp blast
qed

text \<open>A task whose wait for flags timed out takes its node out of the list, wherever in it that is, and returns the error;
  the other waiting tasks keep their places, also when they began to wait in the meantime.\<close>
lemma flag_timeout_unlinks:
  assumes "flag_waiters s g (xs @ t # ys)" "OSTCBCur s = Tcb t" "OSTCBStatPend (OSTCBTbl s t) = OS_STAT_PEND_TO"
  shows "\<exists>s'. OSFlagPend_resume g wt s = Inr ((0, OS_ERR_TIMEOUT), s') \<and> flag_waiters s' g (xs @ ys)
    \<and> OSTCBTbl s' = (OSTCBTbl s)(t := (OSTCBTbl s t)\<lparr>OSTCBStatPend := OS_STAT_PEND_OK, OSTCBFlagNode := None, OSTCBStat := OS_STAT_RDY\<rparr>)
    \<and> ready_list s' = ready_list s \<and> OSFlagFlags (OSFlagTbl s' g) = OSFlagFlags (OSFlagTbl s g)"
  using assms by (rule flag_timeout_effect)

text \<open>One post can be consumed twice: two tasks that wait for a common flag to be set and would consume it are both woken by
  the post, and each of them returns that flag without an error, the second one although the first has cleared it.\<close>
lemma flag_consumed_twice:
  assumes "flag_waiters s g ns" "OSFlagType (OSFlagTbl s g) = OS_EVENT_TYPE_FLAG" "tables_ok s" "lists_ok s" "cur_ok s" "ready s \<noteq> {}"
    "m \<in> set ns" "n \<in> set ns" "m \<noteq> n" "OSFlagNodeWaitType (flag_nodes s m) = OS_FLAG_WAIT_SET_ANY"
    "OSFlagNodeWaitType (flag_nodes s n) = OS_FLAG_WAIT_SET_ANY"
    "bit flags i" "bit (OSFlagNodeFlags (flag_nodes s m)) i" "bit (OSFlagNodeFlags (flag_nodes s n)) i"
  shows "\<exists>cur s1 f s2 f' s3. OSFlagPost (Some g) flags OS_FLAG_SET s = Inr ((cur, OS_ERR_NONE), s1)
    \<and> OSFlagPend_resume g (OS_FLAG_WAIT_SET_ANY OR OS_FLAG_CONSUME) (s1\<lparr>OSTCBCur := Tcb m\<rparr>) = Inr ((f, OS_ERR_NONE), s2)
    \<and> bit f i \<and> \<not> bit (OSFlagFlags (OSFlagTbl s2 g)) i
    \<and> OSFlagPend_resume g (OS_FLAG_WAIT_SET_ANY OR OS_FLAG_CONSUME) (s2\<lparr>OSTCBCur := Tcb n\<rparr>) = Inr ((f', OS_ERR_NONE), s3) \<and> bit f' i"
proof -
  define cur where "cur = posted OS_FLAG_SET flags (OSFlagFlags (OSFlagTbl s g))"
  from flag_post_effect [OF assms(1, 2) _ assms(3-6) cur_def] obtain s1 s' where
    post: "OSFlagPost (Some g) flags OS_FLAG_SET s = Inr ((cur, OS_ERR_NONE), s')" and fr: "sched_frame s1 s'"
    and t1: "\<forall>t. OSTCBTbl s1 t = (if t \<in> set ns \<and> wakes s cur t then flag_woken (node_found (flag_nodes s t) cur) (OSTCBTbl s t) else OSTCBTbl s t)"
    and c1: "OSFlagFlags (OSFlagTbl s1 g) = cur" by (auto simp: posted_def)
  define found where "found k = cur AND OSFlagNodeFlags (flag_nodes s k)" for k
  have bcur: "bit cur i" using assms(12) by (simp add: cur_def posted_def bit_simps)
  have B: "bit (found m) i" "bit (found n) i" using bcur assms(13, 14) by (simp_all add: found_def bit_simps)
  then have nz: "found m \<noteq> 0" "found n \<noteq> 0" by auto
  have W: "wakes s cur m" "wakes s cur n" "node_found (flag_nodes s m) cur = found m" "node_found (flag_nodes s n) cur = found n"
    using nz assms(10, 11) by (simp_all add: wakes_def node_wakes_def node_found_def flags_found_def found_def)
  have T: "OSTCBStatPend (OSTCBTbl s' k) = OS_STAT_PEND_OK \<and> OSTCBFlagsRdy (OSTCBTbl s' k) = found k" if "k = m \<or> k = n" for k
  proof -
    from fr obtain c where "OSTCBTbl s' k = (OSTCBTbl s1 k)\<lparr>OSTCBCtxSwCtr := c\<rparr>" unfolding sched_frame_def by blast
    with that t1 W assms(7, 8) show ?thesis by (auto simp: flag_woken_def)
  qed
  have wt: "(OS_FLAG_WAIT_SET_ANY OR OS_FLAG_CONSUME :: u8) AND OS_FLAG_CONSUME \<noteq> 0"
    "(OS_FLAG_WAIT_SET_ANY OR OS_FLAG_CONSUME :: u8) AND NOT OS_FLAG_CONSUME = OS_FLAG_WAIT_SET_ANY" by simp_all
  define s2 where "s2 = grp_upd g (\<lambda>pgrp. pgrp\<lparr>OSFlagFlags := OSFlagFlags pgrp AND NOT (found m)\<rparr>) (s'\<lparr>OSTCBCur := Tcb m\<rparr>)"
  define s3 where "s3 = grp_upd g (\<lambda>pgrp. pgrp\<lparr>OSFlagFlags := OSFlagFlags pgrp AND NOT (found n)\<rparr>) (s2\<lparr>OSTCBCur := Tcb n\<rparr>)"
  have "OSFlagPend_resume g (OS_FLAG_WAIT_SET_ANY OR OS_FLAG_CONSUME) (s'\<lparr>OSTCBCur := Tcb m\<rparr>) = Inr ((found m, OS_ERR_NONE), s2)"
    unfolding OSFlagPend_resume_def Let_def wt(2) using T [of m] wt(1) by (simp add: deref_def s2_def flags_consume_def)
  moreover have "OSFlagPend_resume g (OS_FLAG_WAIT_SET_ANY OR OS_FLAG_CONSUME) (s2\<lparr>OSTCBCur := Tcb n\<rparr>) = Inr ((found n, OS_ERR_NONE), s3)"
    unfolding OSFlagPend_resume_def Let_def wt(2) using T [of n] wt(1)
    by (simp add: deref_def s3_def flags_consume_def) (simp add: s2_def os_simps)
  moreover have "\<not> bit (OSFlagFlags (OSFlagTbl s2 g)) i"
    using B fr c1 by (simp add: s2_def os_simps bit_simps sched_frame_def)
  ultimately show ?thesis using post B by blast
qed
lemma flag_del_effect:
  assumes "flag_waiters s g ns" "OSFlagType (OSFlagTbl s g) = OS_EVENT_TYPE_FLAG" "OSIntNesting s = 0"
    "tables_ok s" "lists_ok s" "cur_ok s" "ready s \<noteq> {}"
  shows "\<exists>s1 s'. OSFlagDel (Some g) 1 s = Inr ((None, OS_ERR_NONE), s') \<and> sched_frame s1 s'
    \<and> OSFlagType (OSFlagTbl s1 g) = OS_EVENT_TYPE_UNUSED \<and> OSFlagFlags (OSFlagTbl s1 g) = 0
    \<and> (\<forall>t. OSTCBTbl s1 t = (if t \<in> set ns then flag_woken 0 (OSTCBTbl s t) else OSTCBTbl s t))
    \<and> ready s1 = ready s \<union> {p. \<exists>n \<in> set ns. task_at s p n \<and> only_flags s n}"
proof -
  have "list_ok (ready_list s)" using assms(5) by (simp add: lists_ok_def)
  from ready_nodes_effect [OF assms(1, 4) this flag_waiters_length [OF assms(1)]] obtain s0 where
    s0: "ready_nodes OS_MAX_TCBS (hd_of ns) s = Inr s0" "flag_frame s s0" "tables_ok s0" "list_ok (ready_list s0)"
      "\<forall>t. OSTCBTbl s0 t = (if t \<in> set ns then flag_woken 0 (OSTCBTbl s t) else OSTCBTbl s t)"
      "ready s0 = ready s \<union> {p. \<exists>n \<in> set ns. task_at s p n \<and> only_flags s n}" by blast
  define s1 where "s1 = grp_release g s0"
  have R: "OSTCBTbl s1 = OSTCBTbl s0" "OSTCBPrioTbl s1 = OSTCBPrioTbl s0" "ready_list s1 = ready_list s0" "wait_list s1 e = wait_list s0 e"
    "OSTCBCur s1 = OSTCBCur s0" "OSPrioCur s1 = OSPrioCur s0" "OSFlagType (OSFlagTbl s1 g) = OS_EVENT_TYPE_UNUSED" "OSFlagFlags (OSFlagTbl s1 g) = 0" for e
    by (simp_all add: s1_def grp_release_def Let_def grp_upd_def ready_list_def wait_list_def)
  have at: "task_at s1 p t = task_at s p t" for p t using node_frame(5) [OF s0(2)] by (simp add: task_at_def R)
  have wt: "wait_list s1 e = wait_list s e" for e using s0(2) unfolding R(4) by (simp add: wait_list_def flag_frame_def)
  have "tables_ok s1" using s0(3) by (simp add: tables_ok_def task_at_def R)
  moreover have "lists_ok s1" using assms(5) s0(4, 6) by (auto simp: lists_ok_def at R(3) wt)
  moreover have "cur_ok s1" using assms(6) s0(2) by (simp add: cur_ok_def at R flag_frame_def)
  moreover have "ready s1 \<noteq> {}" using assms(7) s0(6) R by auto
  ultimately obtain s2 where s2: "OS_Sched s1 = Inr s2" "sched_frame s1 s2" using sched_after by blast
  define s' where "s' = (if ns \<noteq> [] then s2 else s1)"
  have wl: "OSFlagWaitList (OSFlagTbl s g) = node_ptr (hd_of ns)" using assms(1) by (simp add: flag_waiters_def)
  then have tw: "OSFlagWaitList (OSFlagTbl s g) \<noteq> Null \<longleftrightarrow> ns \<noteq> []" by (cases ns) (simp_all add: node_ptr_def)
  have "OSFlagDel (Some g) 1 s = Inr ((None, OS_ERR_NONE), s')"
    using assms(2, 3) tw s2(1) unfolding OSFlagDel_def by (simp add: wl s0(1) Let_def flip: s1_def) (simp add: s'_def)
  moreover have "sched_frame s1 s'" using s2(2) by (simp add: s'_def)
  ultimately show ?thesis using s0(5, 6) R by (intro exI [of _ s1] exI [of _ s']) simp
qed

text \<open>Deleting a group on which tasks wait readies all of them, but none learns of it: the pend of each of them returns no
  flags and the code OS_ERR_NONE, although the caller is told to look at the code.\<close>
lemma flag_del_reports_no_error:
  assumes "flag_waiters s g ns" "OSFlagType (OSFlagTbl s g) = OS_EVENT_TYPE_FLAG" "OSIntNesting s = 0"
    "tables_ok s" "lists_ok s" "cur_ok s" "ready s \<noteq> {}" "n \<in> set ns" "wt AND NOT OS_FLAG_CONSUME \<le> 3"
  shows "\<exists>s' s''. OSFlagDel (Some g) 1 s = Inr ((None, OS_ERR_NONE), s') \<and> OSFlagType (OSFlagTbl s' g) = OS_EVENT_TYPE_UNUSED
    \<and> ready s' = ready s \<union> {p. \<exists>n \<in> set ns. task_at s p n \<and> only_flags s n}
    \<and> OSFlagPend_resume g wt (s'\<lparr>OSTCBCur := Tcb n\<rparr>) = Inr ((0, OS_ERR_NONE), s'')"
proof -
  from flag_del_effect [OF assms(1-7)] obtain s1 s' where
    d: "OSFlagDel (Some g) 1 s = Inr ((None, OS_ERR_NONE), s')" "sched_frame s1 s'" "OSFlagType (OSFlagTbl s1 g) = OS_EVENT_TYPE_UNUSED"
      "\<forall>t. OSTCBTbl s1 t = (if t \<in> set ns then flag_woken 0 (OSTCBTbl s t) else OSTCBTbl s t)"
      "ready s1 = ready s \<union> {p. \<exists>n \<in> set ns. task_at s p n \<and> only_flags s n}" by blast
  from d(2) obtain c where "OSTCBTbl s' n = (OSTCBTbl s1 n)\<lparr>OSTCBCtxSwCtr := c\<rparr>" unfolding sched_frame_def by blast
  with d(4) assms(8) have T: "OSTCBStatPend (OSTCBTbl s' n) = OS_STAT_PEND_OK" "OSTCBFlagsRdy (OSTCBTbl s' n) = 0"
    by (simp_all add: flag_woken_def)
  have w: "wt AND NOT OS_FLAG_CONSUME \<in> {OS_FLAG_WAIT_SET_ALL, OS_FLAG_WAIT_SET_ANY, OS_FLAG_WAIT_CLR_ALL, OS_FLAG_WAIT_CLR_ANY}"
    using assms(9) unfolding wait_types by blast
  have "\<exists>s''. OSFlagPend_resume g wt (s'\<lparr>OSTCBCur := Tcb n\<rparr>) = Inr ((0, OS_ERR_NONE), s'')"
    unfolding OSFlagPend_resume_def Let_def using w T by (simp add: deref_def del: insert_iff)
  then show ?thesis using d(1-3, 5) by (auto simp: sched_frame_def)
qed

section \<open>A concrete group\<close>

text \<open>Tasks 5 and 12 of the demonstration kernel wait one after the other for flag 0 of group 0 and would consume it.\<close>

definition demo_group :: os where
  "demo_group = snd (projr (OSFlagCreate 0 demo))"

definition pend_flag :: "os \<Rightarrow> os" where
  "pend_flag s = snd (projr (OSFlagPend (Some 0) 1 (OS_FLAG_WAIT_SET_ANY OR OS_FLAG_CONSUME) 0 s))"

definition demo_one :: os where "demo_one = pend_flag demo_group"
definition demo_two :: os where "demo_two = pend_flag demo_one"

lemma demo_group_same:
  "OSTCBPrioTbl demo_group = OSTCBPrioTbl demo" "OSTCBTbl demo_group = OSTCBTbl demo" "ready_list demo_group = ready_list demo"
  "wait_list demo_group e = wait_list demo e" "OSTCBCur demo_group = OSTCBCur demo" "OSPrioCur demo_group = OSPrioCur demo"
proof -
  have "OSIntNesting demo = 0" "OSFlagFreeList demo = GrpPtr 0" by code_simp+
  then have eq: "demo_group = grp_upd 0 (\<lambda>pgrp. pgrp\<lparr>OSFlagType := OS_EVENT_TYPE_FLAG, OSFlagFlags := 0,
     OSFlagWaitList := Null, OSFlagName := unknown_name\<rparr>) (demo\<lparr>OSFlagFreeList := OSFlagWaitList (OSFlagTbl demo 0)\<rparr>)"
    by (simp add: demo_group_def OSFlagCreate_def Let_def)
  show "OSTCBPrioTbl demo_group = OSTCBPrioTbl demo" "OSTCBTbl demo_group = OSTCBTbl demo" "ready_list demo_group = ready_list demo"
    "wait_list demo_group e = wait_list demo e" "OSTCBCur demo_group = OSTCBCur demo" "OSPrioCur demo_group = OSPrioCur demo"
    unfolding eq by (simp_all add: grp_upd_def ready_list_def wait_list_def)
qed

lemma demo_group_ok: "tables_ok demo_group" "lists_ok demo_group" "cur_ok demo_group"
proof -
  have "tables_ok demo" "lists_ok demo" "cur_ok demo" using kernel_invD(1, 2, 4) [OF kernel_run_inv(1) [OF kernel_run_demo]] by blast+
  then show "tables_ok demo_group" "lists_ok demo_group" "cur_ok demo_group"
    by (simp_all add: tables_ok_def lists_ok_def cur_ok_def task_at_def demo_group_same)
qed

definition pends_next :: "os \<Rightarrow> nat \<Rightarrow> nat \<Rightarrow> bool" where
  "pends_next s p t \<longleftrightarrow> t < OS_MAX_TCBS \<and> OSTCBCur s = Tcb t \<and> task_at s p t \<and> 31 \<in> ready s - {p} \<and> OSIntNesting s = 0
     \<and> OSLockNesting s = 0 \<and> OSFlagType (OSFlagTbl s 0) = OS_EVENT_TYPE_FLAG \<and> OSFlagFlags (OSFlagTbl s 0) = 0"

lemma demo_pends: "pends_next demo_group 5 2" "pends_next demo_one 12 1"
  by code_simp+

lemma pend_flag_effect:
  assumes "flag_waiters s 0 ns" "t \<notin> set ns" "tables_ok s" "lists_ok s" "cur_ok s" "pends_next s p t"
  shows "flag_waiters (pend_flag s) 0 (t # ns)" "tables_ok (pend_flag s)" "lists_ok (pend_flag s)" "cur_ok (pend_flag s)"
    "flag_nodes (pend_flag s) t = flag_node_of t (hd_of ns) 0 1 OS_FLAG_WAIT_SET_ANY"
    "OSFlagType (OSFlagTbl (pend_flag s) 0) = OS_EVENT_TYPE_FLAG" "ready (pend_flag s) = ready s - {p}"
proof -
  have m: "may_pend s 0 ns p t" using assms by (auto simp: may_pend_def pends_next_def)
  have w: "(OS_FLAG_WAIT_SET_ANY OR OS_FLAG_CONSUME :: u8) AND NOT OS_FLAG_CONSUME = OS_FLAG_WAIT_SET_ANY" by simp
  have "flags_found ((OS_FLAG_WAIT_SET_ANY OR OS_FLAG_CONSUME) AND NOT OS_FLAG_CONSUME) (OSFlagFlags (OSFlagTbl s 0)) 1 = Some (0, False)"
    using assms(6) by (simp add: flags_found_def pends_next_def)
  from flag_pend_effect [OF m this, of 0, unfolded w] obtain s' where
    run: "OSFlagPend (Some 0) 1 (OS_FLAG_WAIT_SET_ANY OR OS_FLAG_CONSUME) 0 s = Inr (Waiting, s')"
    and s': "flag_waiters s' 0 (t # ns)" "tables_ok s'" "lists_ok s'" "cur_ok s'" "flag_nodes s' t = flag_node_of t (hd_of ns) 0 1 OS_FLAG_WAIT_SET_ANY"
      "OSFlagType (OSFlagTbl s' 0) = OS_EVENT_TYPE_FLAG" "ready s' = ready s - {p}" by blast
  have "pend_flag s = s'" by (simp only: pend_flag_def run sum.sel snd_conv)
  with s' show "flag_waiters (pend_flag s) 0 (t # ns)" "tables_ok (pend_flag s)" "lists_ok (pend_flag s)" "cur_ok (pend_flag s)"
    "flag_nodes (pend_flag s) t = flag_node_of t (hd_of ns) 0 1 OS_FLAG_WAIT_SET_ANY"
    "OSFlagType (OSFlagTbl (pend_flag s) 0) = OS_EVENT_TYPE_FLAG" "ready (pend_flag s) = ready s - {p}" by simp_all
qed

lemma demo_group_empty: "flag_waiters demo_group 0 []"
proof -
  have "OSFlagWaitList (OSFlagTbl demo_group 0) = Null" by code_simp
  then show ?thesis by (simp add: flag_waiters_def node_ptr_def)
qed

lemmas demo_one_ok = pend_flag_effect [OF demo_group_empty _ demo_group_ok demo_pends(1), simplified, folded demo_one_def]

lemma demo_two_ok: "flag_waiters demo_two 0 [1, 2]" "tables_ok demo_two" "lists_ok demo_two" "cur_ok demo_two"
  "OSFlagType (OSFlagTbl demo_two 0) = OS_EVENT_TYPE_FLAG" "31 \<in> ready demo_two"
  using pend_flag_effect [OF demo_one_ok(1) _ demo_one_ok(2-4) demo_pends(2)] demo_pends(2)
  by (simp_all add: pends_next_def flip: demo_two_def)

definition two_wait :: "os \<Rightarrow> bool" where
  "two_wait s \<longleftrightarrow> OSFlagNodeWaitType (flag_nodes s 1) = OS_FLAG_WAIT_SET_ANY \<and> OSFlagNodeWaitType (flag_nodes s 2) = OS_FLAG_WAIT_SET_ANY
     \<and> OSFlagNodeFlags (flag_nodes s 1) = 1 \<and> OSFlagNodeFlags (flag_nodes s 2) = 1 \<and> OSFlagFlags (OSFlagTbl s 0) = 0
     \<and> OSTCBStat (OSTCBTbl s 1) = OS_STAT_FLAG \<and> OSTCBStat (OSTCBTbl s 2) = OS_STAT_FLAG \<and> OSIntNesting s = 0"

lemma demo_two_wait: "two_wait demo_two"
  by code_simp
lemma demo_two_ready: "ready demo_two \<noteq> {}"
  using demo_two_ok(6) by blast

theorem flag_post_wakes_exactly_witness:
  "\<exists>s1 s'. OSFlagPost (Some 0) 1 OS_FLAG_SET demo_two = Inr ((1, OS_ERR_NONE), s') \<and> flag_waiters s1 0 [] \<and> OSFlagFlags (OSFlagTbl s1 0) = 1
    \<and> OSTCBTbl s1 1 = flag_woken 1 (OSTCBTbl demo_two 1) \<and> OSTCBTbl s1 2 = flag_woken 1 (OSTCBTbl demo_two 2) \<and> OS_Sched s1 = Inr s'"
proof -
  have cur: "1 = posted OS_FLAG_SET 1 (OSFlagFlags (OSFlagTbl demo_two 0))" using demo_two_wait by (simp add: posted_def two_wait_def)
  have W: "wakes demo_two 1 1" "wakes demo_two 1 2" "node_found (flag_nodes demo_two 1) 1 = 1" "node_found (flag_nodes demo_two 2) 1 = 1"
    "only_flags demo_two 1"
    using demo_two_wait by (simp_all add: wakes_def node_wakes_def node_found_def flags_found_def two_wait_def only_flags_def)
  from flag_post_wakes_exactly [OF demo_two_ok(1, 5) _ demo_two_ok(2-4) demo_two_ready cur] obtain s1 s' where
    "OSFlagPost (Some 0) 1 OS_FLAG_SET demo_two = Inr ((1, OS_ERR_NONE), s')" "flag_waiters s1 0 (filter (\<lambda>n. \<not> wakes demo_two 1 n) [1, 2])"
    "OSFlagFlags (OSFlagTbl s1 0) = 1" "\<forall>t. OSTCBTbl s1 t = (if t \<in> set [1, 2] \<and> wakes demo_two 1 t
      then flag_woken (node_found (flag_nodes demo_two t) 1) (OSTCBTbl demo_two t) else OSTCBTbl demo_two t)"
    "if \<exists>n \<in> set [1, 2]. wakes demo_two 1 n \<and> only_flags demo_two n then OS_Sched s1 = Inr s' else s' = s1" by blast
  with W show ?thesis by (intro exI [of _ s1] exI [of _ s']) simp
qed

theorem flag_pend_correct_witness:
  "\<exists>s'. OSFlagPend (Some 0) 1 OS_FLAG_WAIT_SET_ALL 7 demo_group = Inr (Waiting, s') \<and> flag_waiters s' 0 [2]
    \<and> ready s' = ready demo_group - {5} \<and> unat (OSPrioCur s') = Min (ready demo_group - {5})"
proof -
  have "may_pend demo_group 0 [] 5 2" using demo_group_empty demo_group_ok demo_pends(1) by (auto simp: may_pend_def pends_next_def)
  moreover have "flags_found (OS_FLAG_WAIT_SET_ALL AND NOT OS_FLAG_CONSUME) (OSFlagFlags (OSFlagTbl demo_group 0)) 1 = Some (0, False)"
    using demo_pends(1) by (simp add: flags_found_def pends_next_def)
  ultimately show ?thesis using flag_pend_correct [of demo_group 0 "[]" 5 2 OS_FLAG_WAIT_SET_ALL 1 0 False 7] by auto
qed

text \<open>The wait of task 5 is over and it runs.\<close>

definition demo_timeout :: os where
  "demo_timeout = (end_delay 2 demo_two)\<lparr>OSTCBCur := Tcb 2\<rparr>"

theorem flag_timeout_unlinks_witness:
  "\<exists>s'. OSFlagPend_resume 0 OS_FLAG_WAIT_SET_ANY demo_timeout = Inr ((0, OS_ERR_TIMEOUT), s') \<and> flag_waiters s' 0 [1]
    \<and> OSTCBStat (OSTCBTbl s' 2) = OS_STAT_RDY \<and> OSTCBFlagNode (OSTCBTbl s' 2) = None"
proof -
  have "flag_waiters demo_timeout 0 ([1] @ 2 # [])"
    using demo_two_ok(1) flag_waiters_same [of demo_timeout 0 demo_two] by (simp add: demo_timeout_def end_delay_def tcb_upd_def)
  moreover have "OSTCBStatPend (OSTCBTbl demo_timeout 2) = OS_STAT_PEND_TO"
    using demo_two_wait by (simp add: demo_timeout_def end_delay_def two_wait_def tcb_upd_def)
  moreover have "OSTCBCur demo_timeout = Tcb 2" by (simp add: demo_timeout_def)
  ultimately show ?thesis using flag_timeout_unlinks [of demo_timeout 0 "[1]" 2 "[]" OS_FLAG_WAIT_SET_ANY] by auto
qed

theorem flag_consumed_twice_witness:
  "\<exists>cur s1 f s2 f' s3. OSFlagPost (Some 0) 1 OS_FLAG_SET demo_two = Inr ((cur, OS_ERR_NONE), s1)
    \<and> OSFlagPend_resume 0 (OS_FLAG_WAIT_SET_ANY OR OS_FLAG_CONSUME) (s1\<lparr>OSTCBCur := Tcb 2\<rparr>) = Inr ((f, OS_ERR_NONE), s2)
    \<and> bit f 0 \<and> \<not> bit (OSFlagFlags (OSFlagTbl s2 0)) 0
    \<and> OSFlagPend_resume 0 (OS_FLAG_WAIT_SET_ANY OR OS_FLAG_CONSUME) (s2\<lparr>OSTCBCur := Tcb 1\<rparr>) = Inr ((f', OS_ERR_NONE), s3) \<and> bit f' 0"
  by (rule flag_consumed_twice [OF demo_two_ok(1, 5, 2-4) demo_two_ready]) (use demo_two_wait in \<open>simp_all add: two_wait_def\<close>)

theorem flag_del_reports_no_error_witness:
  "\<exists>s' s''. OSFlagDel (Some 0) 1 demo_two = Inr ((None, OS_ERR_NONE), s') \<and> OSFlagType (OSFlagTbl s' 0) = OS_EVENT_TYPE_UNUSED
    \<and> ready s' = ready demo_two \<union> {p. \<exists>n \<in> set [1, 2]. task_at demo_two p n \<and> only_flags demo_two n}
    \<and> OSFlagPend_resume 0 (OS_FLAG_WAIT_SET_ANY OR OS_FLAG_CONSUME) (s'\<lparr>OSTCBCur := Tcb 1\<rparr>) = Inr ((0, OS_ERR_NONE), s'')"
  by (rule flag_del_reports_no_error [OF demo_two_ok(1, 5) _ demo_two_ok(2-4) demo_two_ready])
    (use demo_two_wait in \<open>simp_all add: two_wait_def\<close>)

end
