(* ===== verification/Os_Stat.thy ===== *)
theory Os_Stat
  imports Os_Task_Ext
begin

text \<open>
  Stack checking and the statistics task of uC/OS-II (\<open>os_task.c\<close>, \<open>os_core.c\<close>): clearing a stack, counting the words that
  were never used, the high-water marks of all tasks and the CPU usage. The memory of the stacks is a function from addresses to
  words; a stack grows downwards (\<open>OS_STK_GROWTH\<close> is 1), so that its bottom is its lowest address.
\<close>

section \<open>Stacks\<close>

abbreviation OS_ERR_TASK_OPT :: u8 where "OS_ERR_TASK_OPT \<equiv> 69"
abbreviation OS_TASK_OPT_STK_CHK :: u16 where "OS_TASK_OPT_STK_CHK \<equiv> 1"
abbreviation OS_TASK_OPT_STK_CLR :: u16 where "OS_TASK_OPT_STK_CLR \<equiv> 2"

type_synonym stk_mem = "u32 \<Rightarrow> u32"

primrec stk_clear :: "nat \<Rightarrow> u32 \<Rightarrow> stk_mem \<Rightarrow> stk_mem" where
  "stk_clear 0 pbos m = m"
| "stk_clear (Suc n) pbos m = stk_clear n (pbos + 4) (m(pbos := 0))"

definition OS_TaskStkClr :: "u32 \<Rightarrow> u32 \<Rightarrow> u16 \<Rightarrow> stk_mem \<Rightarrow> stk_mem" where
  "OS_TaskStkClr pbos sz opt m =
     (if opt AND OS_TASK_OPT_STK_CHK \<noteq> 0 \<and> opt AND OS_TASK_OPT_STK_CLR \<noteq> 0 then stk_clear (unat sz) pbos m else m)"

text \<open>
  The count of zero words from the bottom on. The loop has no other end than a word that is not zero: \<open>None\<close> if there is none in
  the whole memory.
\<close>

partial_function (option) stk_count :: "stk_mem \<Rightarrow> u32 \<Rightarrow> u32 \<Rightarrow> u32 option" where
  "stk_count m pchk nfree = (if m pchk = 0 then stk_count m (pchk + 4) (nfree + 1) else Some nfree)"

record stk_data =
  OSFree :: u32
  OSUsed :: u32

text \<open>\<open>data\<close> is \<open>None\<close> for a NULL pointer; the result is the error with what the pointer points to.\<close>

definition OSTaskStkChk :: "u8 \<Rightarrow> stk_data option \<Rightarrow> stk_mem \<Rightarrow> os \<Rightarrow> (u8 \<times> stk_data option) res" where
  "OSTaskStkChk prio data m s =
     (if prio > OS_LOWEST_PRIO \<and> prio \<noteq> OS_PRIO_SELF then Inr (OS_ERR_PRIO_INVALID, data)
      else if data = None then Inr (OS_ERR_PDATA_NULL, None)
      else
        let data = Some \<lparr>OSFree = 0, OSUsed = 0\<rparr>
        in rbind (if prio = OS_PRIO_SELF then rbind (deref (OSTCBCur s)) (\<lambda>c. Inr (OSTCBPrio (OSTCBTbl s c))) else Inr prio) (\<lambda>prio.
           rbind (prio_entry s prio) (\<lambda>r.
           case r of
             NoTcb \<Rightarrow> Inr (OS_ERR_TASK_NOT_EXIST, data)
           | Reserved \<Rightarrow> Inr (OS_ERR_TASK_NOT_EXIST, data)
           | Tcb t \<Rightarrow>
               let ptcb = OSTCBTbl s t
               in if OSTCBOpt ptcb AND OS_TASK_OPT_STK_CHK = 0 then Inr (OS_ERR_TASK_OPT, data)
                  else case stk_count m (OSTCBStkBottom ptcb) 0 of
                         None \<Rightarrow> Inl NoEnd
                       | Some nfree \<Rightarrow> Inr (OS_ERR_NONE, Some \<lparr>OSFree = nfree * 4, OSUsed = (OSTCBStkSize ptcb - nfree) * 4\<rparr>))))"

text \<open>The fields \<open>OSTCBStkBase\<close> and \<open>OSTCBStkUsed\<close> of the control blocks, which only the statistics use.\<close>

record stk_profile =
  OSTCBStkBase :: "nat \<Rightarrow> u32"
  OSTCBStkUsed :: "nat \<Rightarrow> u32"

definition stat_stk_chk :: "stk_mem \<Rightarrow> os \<Rightarrow> u8 \<Rightarrow> stk_profile \<Rightarrow> stk_profile res" where
  "stat_stk_chk m s prio pf =
     rbind (OSTaskStkChk prio (Some \<lparr>OSFree = 0, OSUsed = 0\<rparr>) m s) (\<lambda>(err, data).
       if err = OS_ERR_NONE then
         rbind (prio_entry s prio) (\<lambda>r.
         case r of
           Tcb t \<Rightarrow> Inr (pf\<lparr>OSTCBStkBase := (OSTCBStkBase pf)(t := OSTCBStkBottom (OSTCBTbl s t) + 4 * OSTCBStkSize (OSTCBTbl s t)),
                              OSTCBStkUsed := (OSTCBStkUsed pf)(t := (case data of None \<Rightarrow> 0 | Some d \<Rightarrow> OSUsed d))\<rparr>)
         | _ \<Rightarrow> Inr pf)
       else Inr pf)"

primrec stat_stk_loop :: "stk_mem \<Rightarrow> os \<Rightarrow> nat \<Rightarrow> u8 \<Rightarrow> stk_profile \<Rightarrow> stk_profile res" where
  "stat_stk_loop m s 0 prio pf = Inr pf"
| "stat_stk_loop m s (Suc n) prio pf = rbind (stat_stk_chk m s prio pf) (\<lambda>pf. stat_stk_loop m s n (prio + 1) pf)"

definition OS_TaskStatStkChk :: "stk_mem \<Rightarrow> os \<Rightarrow> stk_profile \<Rightarrow> stk_profile res" where
  "OS_TaskStatStkChk m s pf = stat_stk_loop m s (unat OS_TASK_IDLE_PRIO + 1) 0 pf"

section \<open>CPU usage\<close>

record cpu_stat =
  OSIdleCtr :: u32
  OSIdleCtrRun :: u32
  OSIdleCtrMax :: u32
  OSCPUUsage :: u8
  OSStatRdy :: bool

text \<open>One round of the idle task.\<close>

definition OS_TaskIdle_round :: "cpu_stat \<Rightarrow> cpu_stat" where
  "OS_TaskIdle_round c = c\<lparr>OSIdleCtr := OSIdleCtr c + 1\<rparr>"

text \<open>\<open>OSStatInit\<close> between its two delays and after the second one.\<close>

definition OSStatInit_start :: "cpu_stat \<Rightarrow> cpu_stat" where
  "OSStatInit_start c = c\<lparr>OSIdleCtr := 0\<rparr>"

definition OSStatInit_end :: "cpu_stat \<Rightarrow> cpu_stat" where
  "OSStatInit_end c = c\<lparr>OSIdleCtrMax := OSIdleCtr c, OSStatRdy := True\<rparr>"

text \<open>
  The statistics task when \<open>OSStatRdy\<close> is set: before its loop (the result tells whether it suspends itself) and one round of the
  loop. The subtraction is one of unsigned longs of 32 bits: what is stored are its lowest 8 bits.
\<close>

definition OS_TaskStat_begin :: "cpu_stat \<Rightarrow> bool \<times> cpu_stat" where
  "OS_TaskStat_begin c =
     (let c = c\<lparr>OSIdleCtrMax := OSIdleCtrMax c div 100\<rparr>
      in if OSIdleCtrMax c = 0 then (True, c\<lparr>OSCPUUsage := 0\<rparr>) else (False, c))"

definition OS_TaskStat_round :: "stk_mem \<Rightarrow> os \<Rightarrow> stk_profile \<Rightarrow> cpu_stat \<Rightarrow> (stk_profile \<times> cpu_stat) res" where
  "OS_TaskStat_round m s pf c =
     (let c = c\<lparr>OSIdleCtrRun := OSIdleCtr c, OSIdleCtr := 0\<rparr>
      in if OSIdleCtrMax c = 0 then Inl DivByZero
         else
           let c = c\<lparr>OSCPUUsage := ucast (100 - OSIdleCtrRun c div OSIdleCtrMax c)\<rparr>
           in rbind (OS_TaskStatStkChk m s pf) (\<lambda>pf. Inr (pf, c)))"

end
