(* ===== verification/Os_Stat_Props.thy ===== *)
theory Os_Stat_Props
  imports Os_Stat Os_Boot
begin

text \<open>
  What the statistics of uC/OS-II show: the free words that a stack check reports are those that were never written since the stack
  was cleared, every checked task gets its high-water mark, and the CPU usage is right within one percent point if the
  processor counts far enough; otherwise it can be no percentage at all.
\<close>

section \<open>Stacks\<close>

lemma next_word: "pbos + 4 + 4 * of_nat i = (pbos :: u32) + 4 * of_nat (Suc i)"
  by (simp add: algebra_simps)

lemma stk_clear_zero: "i < n \<Longrightarrow> stk_clear n pbos m (pbos + 4 * of_nat i) = 0"
proof (induction n arbitrary: pbos m i)
  case 0
  then show ?case by simp
next
  case (Suc n)
  have kept: "m' a = 0 \<Longrightarrow> stk_clear k b m' a = 0" for k b m' a by (induction k arbitrary: b m') auto
  show ?case
  proof (cases i)
    case 0
    then show ?thesis by (simp add: kept)
  next
    case (Suc j)
    then show ?thesis using Suc.IH [of j "pbos + 4" "m(pbos := 0)"] Suc.prems by (simp only: stk_clear.simps next_word)
  qed
qed

text \<open>\<open>j\<close> words at the bottom are zero, the next one is not.\<close>

definition unused_words :: "stk_mem \<Rightarrow> u32 \<Rightarrow> nat \<Rightarrow> bool" where
  "unused_words m pbos j \<longleftrightarrow> (\<forall>i<j. m (pbos + 4 * of_nat i) = 0) \<and> m (pbos + 4 * of_nat j) \<noteq> 0"

lemma stk_count_unused: "unused_words m pbos j \<Longrightarrow> stk_count m pbos n = Some (n + of_nat j)"
proof (induction j arbitrary: pbos n)
  case 0
  then show ?case by (simp add: unused_words_def stk_count.simps)
next
  case (Suc j)
  have "m (pbos + 4 * of_nat 0) = 0" using Suc.prems unfolding unused_words_def by blast
  then have "m pbos = 0" by simp
  moreover have "unused_words m (pbos + 4) j"
    using Suc.prems unfolding unused_words_def next_word by blast
  ultimately show ?case using Suc.IH [of "pbos + 4" "n + 1"] by (subst stk_count.simps) (simp add: algebra_simps)
qed

lemma stk_chk_task:
  assumes "prio \<le> 31" "length (OSTCBPrioTbl s) = 32" "OSTCBPrioTbl s ! unat prio = Tcb t"
    and "OSTCBOpt (OSTCBTbl s t) AND OS_TASK_OPT_STK_CHK \<noteq> 0" "unused_words m (OSTCBStkBottom (OSTCBTbl s t)) j"
  shows "OSTaskStkChk prio (Some d) m s
    = Inr (OS_ERR_NONE, Some \<lparr>OSFree = of_nat j * 4, OSUsed = (OSTCBStkSize (OSTCBTbl s t) - of_nat j) * 4\<rparr>)"
proof -
  have "unat prio \<le> 31" "prio \<noteq> 255" using assms(1) by (auto simp: word_le_nat_alt)
  with assms stk_count_unused [OF assms(5), of 0] show ?thesis by (simp add: OSTaskStkChk_def prio_entry_def not_le)
qed

lemma write_outside: "a \<notin> fst ` set ws \<Longrightarrow> fold (\<lambda>(b, v) m. m(b := v)) ws m a = m a"
  by (induction ws arbitrary: m) auto

text \<open>C32: A stack check reports as free the zero words at the bottom of the stack. For a stack that was cleared when the task was
  created, and of whose words all below the \<open>j\<close>-th were never written, these are at least the \<open>j\<close> words; they are exactly the
  words never written below the mark if, and only if, the word at the mark, the lowest one written, is not zero at the time of the
  check. Words written with zero right above are counted as free, too, up to the first word that is not zero.\<close>

theorem stack_high_water:
  assumes "prio \<le> 31" "length (OSTCBPrioTbl s) = 32" "OSTCBPrioTbl s ! unat prio = Tcb t"
    and tcb: "OSTCBTbl s t = ptcb" "OSTCBOpt ptcb AND OS_TASK_OPT_STK_CHK \<noteq> 0" "OSTCBOpt ptcb AND OS_TASK_OPT_STK_CLR \<noteq> 0"
    and sz: "4 * unat (OSTCBStkSize ptcb) < 2 ^ 32" "k < unat (OSTCBStkSize ptcb)"
    and m': "m' = fold (\<lambda>(a, v) m. m(a := v)) ws (OS_TaskStkClr (OSTCBStkBottom ptcb) (OSTCBStkSize ptcb) (OSTCBOpt ptcb) m)"
    and untouched: "\<forall>i<j. OSTCBStkBottom ptcb + 4 * of_nat i \<notin> fst ` set ws" "j < unat (OSTCBStkSize ptcb)"
    and used: "m' (OSTCBStkBottom ptcb + 4 * of_nat k) \<noteq> 0"
  shows "\<exists>d' h. OSTaskStkChk prio (Some d) m' s = Inr (OS_ERR_NONE, Some d')
    \<and> unat (OSFree d') = 4 * h \<and> unat (OSUsed d') = 4 * (unat (OSTCBStkSize ptcb) - h)
    \<and> j \<le> h \<and> h \<le> k \<and> (\<forall>i<h. m' (OSTCBStkBottom ptcb + 4 * of_nat i) = 0) \<and> m' (OSTCBStkBottom ptcb + 4 * of_nat h) \<noteq> 0
    \<and> (h = j \<longleftrightarrow> m' (OSTCBStkBottom ptcb + 4 * of_nat j) \<noteq> 0)"
proof -
  define w where "w = (\<lambda>i. m' (OSTCBStkBottom ptcb + 4 * of_nat i))"
  define h where "h = (LEAST i. w i \<noteq> 0)"
  have h: "w h \<noteq> 0" "h \<le> k" "\<And>i. i < h \<Longrightarrow> w i = 0"
    using used LeastI [of "\<lambda>i. w i \<noteq> 0" k] Least_le [of "\<lambda>i. w i \<noteq> 0" k] not_less_Least [of _ "\<lambda>i. w i \<noteq> 0"]
    by (auto simp: h_def w_def)
  have below: "w i = 0" if "i < j" for i
    using that untouched tcb(2,3) by (auto simp: w_def m' write_outside OS_TaskStkClr_def stk_clear_zero)
  have jh: "j \<le> h" using h(1) below by (metis not_less)
  have hs: "h < unat (OSTCBStkSize ptcb)" using h(2) sz(2) by simp
  have "unused_words m' (OSTCBStkBottom ptcb) h" using h(1,3) by (simp add: unused_words_def w_def)
  then have run: "OSTaskStkChk prio (Some d) m' s
      = Inr (OS_ERR_NONE, Some \<lparr>OSFree = of_nat h * 4, OSUsed = (OSTCBStkSize ptcb - of_nat h) * 4\<rparr>)"
    using stk_chk_task [OF assms(1-3)] tcb by simp
  have n: "unat (of_nat h :: u32) = h" using sz(1) hs by (simp add: unat_of_nat)
  have "unat (of_nat h * 4 :: u32) = 4 * h"
    using sz(1) hs n by (subst unat_mult_lem [THEN iffD1]) auto
  moreover have d: "unat (OSTCBStkSize ptcb - of_nat h) = unat (OSTCBStkSize ptcb) - h"
    using hs n by (subst unat_sub) (auto simp: word_le_nat_alt)
  moreover have "unat ((OSTCBStkSize ptcb - of_nat h) * 4) = 4 * (unat (OSTCBStkSize ptcb) - h)"
    using sz(1) d by (subst unat_mult_lem [THEN iffD1]) auto
  moreover have "h = j \<longleftrightarrow> w j \<noteq> 0" using h(1,3) jh by (cases "h = j") auto
  ultimately show ?thesis using run h jh unfolding w_def by auto
qed

text \<open>A task of priority 5 with a small stack of eight words, of which it has written the upper four, the lowest of them with zero.\<close>

definition demo_checked :: os where
  "demo_checked = snd (projr (OSTaskCreateExt 0 5 0 4096 8 Null 3 (snd (projr (OSTaskCreateExt 0 31 0 8192 128 Null 0 os_init)))))"

lemma demo_checked_facts:
  "OSTCBPrioTbl demo_checked = (replicate 32 NoTcb)[5 := Tcb 1, 31 := Tcb 0] \<and> OSTCBStkBottom (OSTCBTbl demo_checked 1) = 4096 \<and> OSTCBStkSize (OSTCBTbl demo_checked 1) = 8
    \<and> OSTCBOpt (OSTCBTbl demo_checked 1) = 3 \<and> OSTCBOpt (OSTCBTbl demo_checked 0) = 0"
  by code_simp

definition demo_writes :: "(u32 \<times> u32) list" where
  "demo_writes = [(4124, 7), (4120, 0), (4116, 9), (4112, 0)]"

definition demo_stack :: stk_mem where
  "demo_stack = fold (\<lambda>(a, v) m. m(a := v)) demo_writes (OS_TaskStkClr 4096 8 3 (\<lambda>a. 1))"

lemma demo_stack_facts: "list_all (\<lambda>i. demo_stack (4096 + 4 * of_nat i) = 0) [0..<5]
    \<and> list_all (\<lambda>i. 4096 + 4 * of_nat i \<notin> set (map fst demo_writes)) [0..<4] \<and> demo_stack 4116 = 9"
  by code_simp

lemma stack_high_water_witness:
  "\<exists>d'. OSTaskStkChk 5 (Some \<lparr>OSFree = 0, OSUsed = 0\<rparr>) demo_stack demo_checked = Inr (OS_ERR_NONE, Some d')
    \<and> unat (OSFree d') = 20 \<and> unat (OSUsed d') = 12"
proof -
  have u: "\<forall>i<4. 4096 + 4 * of_nat i \<notin> fst ` set demo_writes" and z: "\<forall>i<5. demo_stack (4096 + 4 * of_nat i) = 0"
    using demo_stack_facts by (auto simp: list_all_iff)
  obtain d' h where "OSTaskStkChk 5 (Some \<lparr>OSFree = 0, OSUsed = 0\<rparr>) demo_stack demo_checked = Inr (OS_ERR_NONE, Some d')"
    "unat (OSFree d') = 4 * h" "unat (OSUsed d') = 4 * (8 - h)" "h \<le> 5" "demo_stack (4096 + 4 * of_nat h) \<noteq> 0"
    using stack_high_water [of 5 demo_checked 1 "OSTCBTbl demo_checked 1" 5 demo_stack demo_writes "\<lambda>a. 1" 4 "\<lparr>OSFree = 0, OSUsed = 0\<rparr>"]
      demo_checked_facts demo_stack_facts u by (auto simp: demo_stack_def)
  moreover from this have "h = 5" using z by (cases "h < 5") auto
  ultimately show ?thesis by auto
qed

section \<open>All tasks\<close>

definition checked :: "os \<Rightarrow> nat \<Rightarrow> nat \<Rightarrow> bool" where
  "checked s p t \<longleftrightarrow> OSTCBPrioTbl s ! p = Tcb t \<and> OSTCBOpt (OSTCBTbl s t) AND OS_TASK_OPT_STK_CHK \<noteq> 0"

definition marks :: "os \<Rightarrow> (nat \<Rightarrow> nat) \<Rightarrow> nat \<Rightarrow> u32 \<times> u32" where
  "marks s j t = (OSTCBStkBottom (OSTCBTbl s t) + 4 * OSTCBStkSize (OSTCBTbl s t), (OSTCBStkSize (OSTCBTbl s t) - of_nat (j t)) * 4)"

definition profile_of :: "stk_profile \<Rightarrow> nat \<Rightarrow> u32 \<times> u32" where
  "profile_of pf t = (OSTCBStkBase pf t, OSTCBStkUsed pf t)"

lemma stat_stk_chk_marks:
  assumes "length (OSTCBPrioTbl s) = 32" "prio \<le> 31"
    and j: "\<And>t. checked s (unat prio) t \<Longrightarrow> unused_words m (OSTCBStkBottom (OSTCBTbl s t)) (j t)"
  shows "\<exists>pf'. stat_stk_chk m s prio pf = Inr pf' \<and> (\<forall>t. profile_of pf' t = (if checked s (unat prio) t then marks s j t else profile_of pf t))"
proof -
  have p: "unat prio \<le> 31" "prio \<noteq> 255" using assms(2) by (auto simp: word_le_nat_alt)
  show ?thesis
  proof (cases "\<exists>t. checked s (unat prio) t")
    case True
    then obtain t where t: "OSTCBPrioTbl s ! unat prio = Tcb t" "OSTCBOpt (OSTCBTbl s t) AND OS_TASK_OPT_STK_CHK \<noteq> 0"
      by (auto simp: checked_def)
    then have "unused_words m (OSTCBStkBottom (OSTCBTbl s t)) (j t)" using j by (simp add: checked_def)
    from stk_chk_task [OF assms(2,1) t this] t p assms(1) show ?thesis
      by (simp add: stat_stk_chk_def prio_entry_def checked_def profile_of_def marks_def)
  next
    case False
    with p assms(1,2) show ?thesis
      by (cases "OSTCBPrioTbl s ! unat prio")
        (auto simp: stat_stk_chk_def OSTaskStkChk_def prio_entry_def checked_def not_le)
  qed
qed

lemma stat_stk_loop_marks:
  assumes "length (OSTCBPrioTbl s) = 32"
    and j: "\<And>p t. p < 32 \<Longrightarrow> checked s p t \<Longrightarrow> unused_words m (OSTCBStkBottom (OSTCBTbl s t)) (j t)"
  shows "p + n \<le> 32 \<Longrightarrow> \<exists>pf'. stat_stk_loop m s n (of_nat p) pf = Inr pf'
    \<and> (\<forall>t. profile_of pf' t = (if \<exists>q. p \<le> q \<and> q < p + n \<and> checked s q t then marks s j t else profile_of pf t))"
proof (induction n arbitrary: p pf)
  case 0
  then show ?case by auto
next
  case (Suc n)
  have p: "unat (of_nat p :: u8) = p" "(of_nat p :: u8) \<le> 31" using Suc.prems by (auto simp: unat_of_nat word_le_nat_alt)
  obtain pf1 where 1: "stat_stk_chk m s (of_nat p) pf = Inr pf1"
      "\<And>t. profile_of pf1 t = (if checked s p t then marks s j t else profile_of pf t)"
    using stat_stk_chk_marks [OF assms(1) p(2), of m j pf] j [of p] Suc.prems p(1) by auto
  obtain pf2 where 2: "stat_stk_loop m s n (of_nat (Suc p)) pf1 = Inr pf2"
      "\<And>t. profile_of pf2 t = (if \<exists>q. Suc p \<le> q \<and> q < Suc p + n \<and> checked s q t then marks s j t else profile_of pf1 t)"
    using Suc.IH [of "Suc p" pf1] Suc.prems by auto
  have "(\<exists>q. p \<le> q \<and> q < p + Suc n \<and> checked s q t)
      \<longleftrightarrow> checked s p t \<or> (\<exists>q. Suc p \<le> q \<and> q < Suc p + n \<and> checked s q t)" for t
    by (metis Suc_le_eq add_Suc add_Suc_right le_eq_less_or_eq less_add_Suc1)
  with 1 2 show ?case by (auto simp: add.commute)
qed

text \<open>The statistics task records the mark of every checked task.\<close>

lemma all_stacks_checked:
  assumes "length (OSTCBPrioTbl s) = 32"
    and "\<And>p t. p < 32 \<Longrightarrow> checked s p t \<Longrightarrow> unused_words m (OSTCBStkBottom (OSTCBTbl s t)) (j t)"
  shows "\<exists>pf'. OS_TaskStatStkChk m s pf = Inr pf'
    \<and> (\<forall>t. profile_of pf' t = (if \<exists>p<32. checked s p t then marks s j t else profile_of pf t))"
  using stat_stk_loop_marks [OF assms, where p = 0 and n = 32 and pf = pf] by (simp add: OS_TaskStatStkChk_def)

lemma all_stacks_checked_witness:
  "\<exists>pf'. OS_TaskStatStkChk demo_stack demo_checked \<lparr>OSTCBStkBase = (\<lambda>t. 0), OSTCBStkUsed = (\<lambda>t. 0)\<rparr> = Inr pf'
    \<and> profile_of pf' 0 = (0, 0) \<and> profile_of pf' 1 = (4128, 12)"
proof -
  have tasks: "checked demo_checked p t \<longleftrightarrow> p = 5 \<and> t = 1" if "p < 32" for p t
    using that demo_checked_facts by (cases "t = 0") (auto simp: checked_def nth_list_update split: if_splits)
  then obtain pf' where pf': "OS_TaskStatStkChk demo_stack demo_checked \<lparr>OSTCBStkBase = (\<lambda>t. 0), OSTCBStkUsed = (\<lambda>t. 0)\<rparr> = Inr pf'"
    "\<And>t. profile_of pf' t = (if \<exists>p<32. checked demo_checked p t then marks demo_checked (\<lambda>t. 5) t
        else profile_of \<lparr>OSTCBStkBase = (\<lambda>t. 0), OSTCBStkUsed = (\<lambda>t. 0)\<rparr> t)"
    using all_stacks_checked [of demo_checked demo_stack "\<lambda>t. 5" "\<lparr>OSTCBStkBase = (\<lambda>t. 0), OSTCBStkUsed = (\<lambda>t. 0)\<rparr>"]
      demo_checked_facts demo_stack_facts by (auto simp: unused_words_def list_all_iff)
  have c: "(\<exists>p<32. checked demo_checked p t) \<longleftrightarrow> t = 1" for t
    using tasks [of 5 1] tasks [of _ t] by (auto intro: exI [of _ 5])
  have "profile_of pf' 0 = (0, 0)" "profile_of pf' 1 = (4128, 12)"
    unfolding pf'(2) c using demo_checked_facts by (simp_all add: marks_def profile_of_def)
  with pf'(1) show ?thesis by blast
qed

section \<open>CPU usage\<close>

lemma idle_rounds: "(OS_TaskIdle_round ^^ n) c = c\<lparr>OSIdleCtr := OSIdleCtr c + of_nat n\<rparr>"
  by (induction n) (simp_all add: OS_TaskIdle_round_def algebra_simps)

text \<open>The quotient of two counts, in percent, is off by less than one.\<close>

lemma percent_quotient:
  fixes n r :: nat
  assumes "10000 \<le> n" "r \<le> n"
  defines "q \<equiv> r div (n div 100)"
  shows "q \<le> 100" and "100 * r \<le> n * q + n" and "n * q \<le> 100 * r + n"
proof -
  let ?k = "n div 100"
  have k: "100 \<le> ?k" "n \<le> 100 * ?k + 99" "100 * ?k \<le> n" using assms(1) by auto
  then have "r < 101 * ?k" using assms(2) by linarith
  then have "q < 101" unfolding q_def using k by (intro less_mult_imp_div_less) simp
  then show q: "q \<le> 100" by simp
  have "r < (q + 1) * ?k" unfolding q_def using k(1) by (metis Suc_eq_plus1 dividend_less_div_times less_le_trans mult_Suc zero_less_numeral)
  then have "100 * r \<le> (q + 1) * (100 * ?k)" by (simp add: algebra_simps)
  also have "\<dots> \<le> (q + 1) * n" using k(3) by (rule mult_le_mono2)
  finally show "100 * r \<le> n * q + n" by (simp add: algebra_simps)
  have "q * ?k \<le> r" unfolding q_def by simp
  have "n * q \<le> (100 * ?k + 99) * q" using k(2) by (rule mult_le_mono1)
  also have "\<dots> = 100 * (q * ?k) + 99 * q" by (simp add: algebra_simps)
  also have "\<dots> \<le> 100 * r + 99 * 100" using \<open>q * ?k \<le> r\<close> q by linarith
  finally show "n * q \<le> 100 * r + n" using assms(1) by linarith
qed

text \<open>C33: The CPU usage is right within one percent point.\<close>

theorem cpu_usage_within_one:
  assumes "10000 \<le> n" "n < 2 ^ 32" "r \<le> n"
    and "OS_TaskStatStkChk m s pf = Inr pf1" "OS_TaskStatStkChk m' s' pf1 = Inr pf2"
  shows "\<exists>c c1 c2. OS_TaskStat_begin (OSStatInit_end ((OS_TaskIdle_round ^^ n) (OSStatInit_start c0))) = (False, c)
    \<and> OS_TaskStat_round m s pf c = Inr (pf1, c1)
    \<and> OS_TaskStat_round m' s' pf1 ((OS_TaskIdle_round ^^ r) c1) = Inr (pf2, c2)
    \<and> unat (OSCPUUsage c2) \<le> 100
    \<and> n * unat (OSCPUUsage c2) \<le> 100 * (n - r) + n \<and> 100 * (n - r) \<le> n * unat (OSCPUUsage c2) + n"
proof -
  let ?max = "of_nat n div 100 :: u32"
  have un: "unat (of_nat n :: u32) = n" "unat (of_nat r :: u32) = r" using assms(2,3) by (simp_all add: unat_of_nat)
  have max: "unat ?max = n div 100" by (simp add: unat_div un)
  have "0 < n div 100" using assms(1) by (simp add: div_greater_zero_iff)
  with max have "unat ?max \<noteq> 0" by simp
  then have "?max \<noteq> 0" by auto
  let ?q = "of_nat r div ?max :: u32"
  have q: "unat ?q = r div (n div 100)" by (simp add: unat_div un max)
  note P = percent_quotient [OF assms(1,3)]
  have "unat (100 - ?q) = 100 - unat ?q" using P(1) q by (subst unat_sub) (simp_all add: word_le_nat_alt)
  then have u: "unat (ucast (100 - ?q) :: u8) = 100 - r div (n div 100)" using P(1) q by (simp add: unsigned_ucast_eq take_bit_nat_eq_self)
  have "n * (100 - r div (n div 100)) \<le> 100 * (n - r) + n" "100 * (n - r) \<le> n * (100 - r div (n div 100)) + n"
    using P assms(3) by (simp_all add: diff_mult_distrib2)
  then show ?thesis
    using assms(4,5) \<open>?max \<noteq> 0\<close> u
    by (simp add: OS_TaskStat_begin_def OSStatInit_end_def OSStatInit_start_def OS_TaskStat_round_def idle_rounds Let_def)
qed

lemma cpu_usage_within_one_witness:
  "\<exists>c c1 c2. OS_TaskStat_begin (OSStatInit_end ((OS_TaskIdle_round ^^ 20000) (OSStatInit_start
        \<lparr>OSIdleCtr = 0, OSIdleCtrRun = 0, OSIdleCtrMax = 0, OSCPUUsage = 0, OSStatRdy = False\<rparr>))) = (False, c)
    \<and> OS_TaskStat_round demo_stack os_init \<lparr>OSTCBStkBase = (\<lambda>t. 0), OSTCBStkUsed = (\<lambda>t. 0)\<rparr> c
      = Inr (\<lparr>OSTCBStkBase = (\<lambda>t. 0), OSTCBStkUsed = (\<lambda>t. 0)\<rparr>, c1)
    \<and> OS_TaskStat_round demo_stack os_init \<lparr>OSTCBStkBase = (\<lambda>t. 0), OSTCBStkUsed = (\<lambda>t. 0)\<rparr> ((OS_TaskIdle_round ^^ 5000) c1)
      = Inr (\<lparr>OSTCBStkBase = (\<lambda>t. 0), OSTCBStkUsed = (\<lambda>t. 0)\<rparr>, c2)
    \<and> unat (OSCPUUsage c2) \<in> {74..76}"
proof -
  let ?pf = "\<lparr>OSTCBStkBase = (\<lambda>t. 0), OSTCBStkUsed = (\<lambda>t. 0)\<rparr> :: stk_profile"
  have chk: "OS_TaskStatStkChk demo_stack os_init ?pf = Inr ?pf"
  proof -
    have tbl: "OSTCBPrioTbl os_init = replicate 32 NoTcb" by code_simp
    then have none: "\<not> checked os_init p t" if "p < 32" for p t using that by (simp add: checked_def)
    then have none': "(\<exists>q<32. checked os_init q t) = False" for t by blast
    obtain pf' where "OS_TaskStatStkChk demo_stack os_init ?pf = Inr pf'" "\<forall>t. profile_of pf' t = profile_of ?pf t"
      using stat_stk_loop_marks [of os_init demo_stack "\<lambda>t. 0" 0 32 ?pf] tbl none by (auto simp: OS_TaskStatStkChk_def none')
    then show ?thesis by (cases pf') (auto simp: profile_of_def)
  qed
  from cpu_usage_within_one [OF _ _ _ chk chk, of 20000 5000] show ?thesis by fastforce
qed

text \<open>
  Counts below 10000 give values that are no percentage: with 199 idle rounds of 199 the usage is 157 percent. Below 100 the task
  suspends itself, and divides by zero if another task resumes it.
\<close>

theorem cpu_usage_no_percentage:
  assumes "OS_TaskStatStkChk m s pf = Inr pf1" "OS_TaskStatStkChk m' s' pf1 = Inr pf2"
  shows "\<exists>c c1 c2. OS_TaskStat_begin (OSStatInit_end ((OS_TaskIdle_round ^^ 199) (OSStatInit_start c0))) = (False, c)
    \<and> OS_TaskStat_round m s pf c = Inr (pf1, c1)
    \<and> OS_TaskStat_round m' s' pf1 ((OS_TaskIdle_round ^^ 199) c1) = Inr (pf2, c2) \<and> OSCPUUsage c2 = 157"
  using assms
  by (simp add: OS_TaskStat_begin_def OSStatInit_end_def OSStatInit_start_def OS_TaskStat_round_def idle_rounds Let_def)

theorem stat_task_divides_by_zero:
  assumes "n < 100"
  shows "\<exists>c. OS_TaskStat_begin (OSStatInit_end ((OS_TaskIdle_round ^^ n) (OSStatInit_start c0))) = (True, c)
    \<and> OS_TaskStat_round m s pf c = Inl DivByZero"
proof -
  have "unat (of_nat n div 100 :: u32) = 0" using assms by (simp add: unat_div unat_of_nat)
  then have "of_nat n div 100 = (0 :: u32)" by (simp only: unat_eq_zero)
  then show ?thesis
    by (simp add: OS_TaskStat_begin_def OSStatInit_end_def OSStatInit_start_def OS_TaskStat_round_def idle_rounds Let_def)
qed

end
