(* ===== verification/Spec2Isabelle.thy ===== *)
theory Spec2Isabelle
  imports Namei_Props Writeback Console_Props Lcd_Props Firmware_Props Mballoc_Props Mballoc_New_Props File_List_Props Uevent_Props
    Os_Ext_Props Os_Mem_Props Os_Tmr_Props Os_Mutex_Props Os_Flag_Props Os_Stat_Props
begin

text \<open>
  A verification development for the programs of this repository: the file system
  \<open>lkfs\<close> for Linux (\<open>src/lkfs\<close>), the console of the LCD demonstration board (\<open>src/lcd-demo/src\<close>) and the
  real-time kernel uC/OS-II V2.86 that the board's firmware is built on (\<open>src/lcd-demo/ucos/uCOS-II/Source\<close>).

  \<^bold>\<open>Conventions.\<close> Definitions keep the names of the C functions. An operation takes its arguments and the state
  and returns its results with the new state in the sum type \<open>res\<close> of \<open>Lkfs_Base\<close>: \<open>Inl\<close> is a fault the C
  program would run into (\<open>NullDeref\<close>, \<open>OutOfBounds\<close>, a read of an indeterminate local, \<open>BUG()\<close>, a division
  by zero) and \<open>NoEnd\<close> a loop that does not end within its fuel; error codes that C returns are values. Integers
  are words of their width in C; where an expression is computed in another width the model says so. A loop
  whose recursion is not structural has fuel, and a lemma shows that the fuel is never used up.

  \<^bold>\<open>The file system.\<close> \<open>Bitops\<close>, \<open>Kernel_Api\<close> and \<open>Vfs_Api\<close> name what the Linux kernel provides (bit searches,
  buffers, inodes, the page cache) as fields of records of functions, which every definition takes as an
  argument; \<open>plain_kernel\<close> and \<open>plain_vfs\<close> are concrete instances for witnesses. \<open>Layout\<close> holds the on-disk records of
  \<open>lkfs.h\<close> and \<open>mklkfs.h\<close> as accessors of byte memories, by the locales \<open>struct\<close>, \<open>field\<close> and \<open>field_pair\<close>.
  \<open>Fs_State\<close> is the mounted file system (\<open>struct lkfs_sb_info\<close> and its buffers). \<open>Alloc\<close> (block bitmaps of
  \<open>inode.c\<close>), \<open>Ialloc\<close> (\<open>ialloc.c\<close> but for the dropping of a refused inode), \<open>Blockmap\<close> (\<open>lkfs_get_blocks\<close>), \<open>Truncate\<close>, \<open>Inode_IO\<close>
  (reading, writing and deleting inodes, and the whole of \<open>lkfs_new_inode\<close>), \<open>Dir\<close> with \<open>Dir_Facts\<close> and \<open>Dir_Props\<close> (\<open>dir.c\<close>), \<open>Namei\<close> with \<open>Namei_Props\<close> (\<open>namei.c\<close>),
  \<open>Super\<close> (\<open>super.c\<close>), \<open>Mklkfs\<close> (the formatting tool \<open>mklkfs.c\<close>), \<open>Mount_Props\<close> (what the tool writes mounts)
  and \<open>Writeback\<close> (what allocation, mapping, truncation and the inode table change is marked dirty and reaches the device) build on it in this order. Both allocators
  interpret the contract \<open>allocator\<close> of \<open>Allocator\<close>, which also the memory partitions of uC/OS-II meet. The lemmas
  show the functional result of every operation on every branch, that the bitmaps and free counters agree, that
  the block map refines a function from file blocks to device blocks, that directories refine lists of entries, and
  which inputs break the code (named by the findings of the manifest). A directory that grows asks \<open>lkfs_get_block\<close> for
  its next block, as \<open>__lkfs_write_begin\<close> does: adding an entry changes the volume, and its properties say which blocks it takes.
  The contents of a directory are the pages of its page cache, and file data is not modelled.

  \<^bold>\<open>The console.\<close> \<open>Xprintf\<close> models the number parser and the formatter of \<open>xprintf.c\<close>, \<open>Console\<close> the line editor,
  command parser and text cursor of \<open>console.c\<close>; \<open>Xprintf_Props\<close> and \<open>Console_Props\<close> prove that printing and
  parsing are inverse, that a line splits into its words, and the limits of the buffers.

  \<^bold>\<open>The graphics.\<close> \<open>Lcd\<close> models the display driver \<open>ili9320.c\<close>, the bus of \<open>lcd_init.c\<close> and the drawing routines of
  \<open>ili9320_api.c\<close> as the writes they put on the bus; \<open>Lcd_Props\<close> relates these writes to the points of a line, a rectangle
  and a text.

  \<^bold>\<open>Small tools.\<close> \<open>Uevent\<close> models the slot driver \<open>src/slot.c\<close> and the daemon \<open>src/uevent.c\<close> that receives its events;
  \<open>Uevent_Props\<close> shows that messages are parsed within the buffer and that an event arrives; the size of a \<open>long\<close>, which decides how \<open>atoi\<close>
  treats a number that is too long, is a parameter. \<open>File_List\<close> models the tools \<open>list.c\<close>
  and \<open>stat.c\<close> of \<open>src/EXT4_review\<close> over an explicit heap; \<open>File_List_Props\<close> shows that what is printed is a difference of
  multisets, for any contents of the memory that \<open>malloc\<close> returns. \<open>Mballoc\<close> models how \<open>mballoc.c\<close> makes the buddy bitmaps of a group of blocks; \<open>Mballoc_Props\<close> shows that they mark
  exactly the maximal aligned free blocks. \<open>Mballoc_New\<close> models the search through the groups and the entry point
  \<open>ext4_mb_new_blocks\<close>; \<open>Mballoc_New_Props\<close> shows that the search finds what there is unless a group cannot be read, and what quota and
  reservations are left on every path. Kernel services are parameters there as well, with their contracts as hypotheses and a small kernel that meets them.

  \<^bold>\<open>The real-time kernel.\<close> \<open>Os_Prio\<close> has the ready and wait lists, bit tables of 32 priorities, with the contract
  \<open>prio_set\<close>; \<open>Os_Core\<close> the records \<open>tcb\<close>, \<open>ecb\<close>, \<open>qcb\<close>, \<open>flag_grp\<close>, \<open>flag_node\<close> and \<open>os\<close>, the scheduler and the
  wait-list primitives of \<open>os_core.c\<close>; \<open>Os_Task\<close> start-up, tasks, delays and the tick (\<open>os_core.c\<close>, \<open>os_task.c\<close>,
  \<open>os_time.c\<close>); \<open>Os_Event\<close> semaphores and mailboxes (\<open>os_sem.c\<close>, \<open>os_mbox.c\<close>); \<open>Os_Queue\<close> queues (\<open>os_q.c\<close>);
  \<open>Os_Flag\<close> event flags (\<open>os_flag.c\<close>); \<open>Os_Task_Ext\<close> deletion, change of priority, names, pending on several events;
  \<open>Os_Mutex\<close> (\<open>os_mutex.c\<close>), \<open>Os_Mem\<close> (\<open>os_mem.c\<close>), \<open>Os_Tmr\<close> with \<open>Os_Wheel\<close> (\<open>os_tmr.c\<close>). Tables are
  functions of the index, pointers are indices, a critical section is one step, and a pend is split at its call of \<open>OS_Sched\<close>
  into the part before the task is suspended and the part that runs when it is the current one again.
  \<open>Os_Inv\<close>, \<open>Os_Steps\<close>, \<open>Os_Calls\<close> and \<open>Os_Tick\<close> prove that the primitives and calls keep the invariant
  \<open>kernel_inv\<close> (tables, lists and control blocks agree; who is not ready is suspended, delayed or in a wait list);
  \<open>Os_Machine\<close> runs the calls of tasks and interrupt handlers as a step relation in any order (semaphores, mailboxes, queues,
  delays, suspension, locking of the scheduler, ticks; deletion of tasks and events, change of priority, pending on several
  events, mutexes and flags are modelled but not part of these runs, which some of them break: see \<open>Os_Ext_Props\<close> and \<open>Os_Mutex_Props\<close>), \<open>Os_Boot\<close> shows that
  start-up establishes the invariant; \<open>Os_Props\<close> and \<open>Os_Calls_Props\<close> are the properties of the running kernel.
  \<open>Os_Queue_Props\<close> refines a queue to a bounded list by the locale \<open>bounded_deque\<close>, \<open>Os_Mem_Props\<close> interprets \<open>allocator\<close>,
  \<open>Os_Tmr_Props\<close> relates the timer wheel to a flat table of timers, \<open>Os_Mutex_Props\<close> and \<open>Os_Flag_Props\<close> treat ownership,
  inheritance of priorities and waiting for flags, \<open>Os_Ext_Props\<close> what goes wrong in rare orders of calls. \<open>Linked_List\<close> holds
  the lemmas on linked lists that timers and event flags share. \<open>Os_Stat\<close> and \<open>Os_Stat_Props\<close> treat stack checks and the CPU usage
  of the statistics task. \<open>Firmware\<close> and \<open>Firmware_Props\<close> put the interrupt handler of the
  serial port and the reading console task on top of the kernel: a character is delivered, or overwritten by the next one.

  \<^bold>\<open>Bounds and fuel.\<close> The configuration is that of \<open>os_cfg.h\<close>: priorities 0 to 31, 18 control blocks, 10 events, 4 queues,
  5 flag groups, 16 timers on 8 spokes. \<open>ready_all\<close> has fuel 33, since each round takes one of 32 priorities out of the
  list; \<open>tick_tasks\<close>, \<open>post_nodes\<close> and \<open>ready_nodes\<close> have fuel 18, the number of control blocks; \<open>fire_all\<close> 16, the number of
  timers. The search of \<open>ext4_mb_regular_allocator\<close> has two rounds; the retries of \<open>ext4_mb_new_blocks\<close> are bounded by the work that
  its contract measures. The loops of the file system are bounded by the block size of 1024 bytes, the 21 pointers of an inode and the size
  of the device. The argument \<open>perr\<close> of the kernel is not NULL (with NULL every function returns at once).

  \<^bold>\<open>Not modelled.\<close> \<open>src/lkfs/file.c\<close> is a table of generic kernel functions. Of uC/OS-II: the debugging tables and the
  port (context switch, stack frames, CPU library), which is assembler and memory-mapped registers. Of the board: the
  start-up code and the pin and clock set-up calls of the vendor's library. The libraries under \<open>src/lcd-demo/libs\<close> and
  \<open>src/lcd-demo/uCGUI\<close> are third-party code. Of \<open>src/EXT4_review\<close>, \<open>drop_caches.c\<close> is an excerpt that
  consists of calls of kernel functions outside the repository.
\<close>

end
